(* ===== verification/F1_Prelude.thy ===== *)
theory F1_Prelude
  imports Main "HOL-Library.AList" "HOL-Library.Sublist"
begin

text \<open>
  Shared ground of the development: Go's fixed-width integers, decimal rendering of
  integers (\<^verbatim>\<open>fmt.Sprintf("%d")\<close>, \<^verbatim>\<open>strconv.FormatUint\<close>) and its inverse (Lua's
  \<^verbatim>\<open>tonumber\<close> on integers), Lua's one-based array access, the error values the Go code
  returns, and list lemmas used by several components.

  A Go \<open>uint64\<close> or \<open>uint32\<close> is a \<^typ>\<open>nat\<close>, an \<open>int64\<close> or \<open>int\<close> an \<^typ>\<open>int\<close>; every operation
  of the source that can leave the range is written with the wrap-around function of its
  width (\<open>i64\<close>, \<open>u64\<close>, \<open>u32\<close>). Bit layouts (the snowflake and the worker number) are
  machine words in their own theories.
\<close>

section \<open>Lemma collections\<close>

named_theorems key_simps \<open>how Redis keys compare\<close>
named_theorems redis_simps \<open>reads after writes of a Redis server\<close>
named_theorems wrap_simps \<open>fixed-width arithmetic inside its range\<close>

section \<open>Fixed-width integers\<close>

type_synonym bytes = string

definition i64 :: "int \<Rightarrow> int" where
  "i64 x = (x + 2 ^ 63) mod 2 ^ 64 - 2 ^ 63"

definition u64 :: "nat \<Rightarrow> nat" where
  "u64 n = n mod 2 ^ 64"

definition u32 :: "nat \<Rightarrow> nat" where
  "u32 n = n mod 2 ^ 32"

definition in_i64 :: "int \<Rightarrow> bool" where
  "in_i64 x \<longleftrightarrow> - (2 ^ 63) \<le> x \<and> x < 2 ^ 63"

lemma i64_id [wrap_simps]: "in_i64 x \<Longrightarrow> i64 x = x"
  by (simp add: i64_def in_i64_def)

lemma in_i64_i64 [simp]: "in_i64 (i64 x)"
  by (simp add: i64_def in_i64_def)

lemma u32_id [wrap_simps]: "n < 2 ^ 32 \<Longrightarrow> u32 n = n"
  by (simp add: u32_def)

lemma u32_less [simp]: "u32 n < 2 ^ 32"
  by (simp add: u32_def)

lemma u64_id [wrap_simps]: "n < 2 ^ 64 \<Longrightarrow> u64 n = n"
  by (simp add: u64_def)

text \<open>The wrap-around is visible only outside the range: a sum of two in-range values is
  off by a full turn.\<close>

lemma i64_overflow: "2 ^ 63 \<le> x \<Longrightarrow> x < 2 ^ 64 \<Longrightarrow> i64 x = x - 2 ^ 64"
  using mod_pos_pos_trivial [of "x - 2 ^ 63" "2 ^ 64"] mod_add_self2 [of "x - 2 ^ 63" "2 ^ 64"]
  by (simp add: i64_def algebra_simps)

lemma i64_cong: "i64 (i64 a + b) = i64 (a + b)"
proof -
  have "((a + 2 ^ 63) mod 2 ^ 64 - 2 ^ 63 + b + 2 ^ 63) mod 2 ^ 64 = ((a + 2 ^ 63) mod 2 ^ 64 + b) mod (2 ^ 64 :: int)"
    by (simp add: algebra_simps)
  also have "\<dots> = (a + b + 2 ^ 63) mod 2 ^ 64" by (simp add: mod_simps algebra_simps)
  finally show ?thesis by (simp add: i64_def)
qed

lemma i64_cong2: "i64 (a + i64 b) = i64 (a + b)"
  using i64_cong [of b a] by (simp add: add.commute)

text \<open>Go's integer division truncates towards zero.\<close>

definition go_div :: "int \<Rightarrow> int \<Rightarrow> int" where
  "go_div a b = sgn a * sgn b * (\<bar>a\<bar> div \<bar>b\<bar>)"

lemma go_div_nonneg: "0 \<le> a \<Longrightarrow> 0 < b \<Longrightarrow> go_div a b = a div b"
  by (cases "a = 0") (auto simp: go_div_def sgn_if)

section \<open>Decimal rendering\<close>

definition digit :: "nat \<Rightarrow> char" where
  "digit d = char_of (48 + d)"

definition digit_val :: "char \<Rightarrow> nat option" where
  "digit_val c = (let n = of_char c in if 48 \<le> n \<and> n \<le> 57 then Some (n - 48) else None)"

fun show_nat :: "nat \<Rightarrow> string" where
  "show_nat n = (if n < 10 then [digit n] else show_nat (n div 10) @ [digit (n mod 10)])"

declare show_nat.simps [simp del]

definition show_int :: "int \<Rightarrow> string" where
  "show_int x = (if x < 0 then CHR ''-'' # show_nat (nat (- x)) else show_nat (nat x))"

fun read_digits :: "nat \<Rightarrow> string \<Rightarrow> nat option" where
  "read_digits acc [] = Some acc"
| "read_digits acc (c # cs) =
     (case digit_val c of None \<Rightarrow> None | Some d \<Rightarrow> read_digits (10 * acc + d) cs)"

definition read_nat :: "string \<Rightarrow> nat option" where
  "read_nat cs = (if cs = [] then None else read_digits 0 cs)"

text \<open>Lua's \<open>tonumber\<close> on the decimal integers the scripts read. Lua numbers are doubles,
  which represent every integer below \<open>2 ^ 53\<close>: epochs (etcd revisions) and amounts stay
  below that bound, and the model reads them exactly.\<close>

definition tonumber :: "string \<Rightarrow> int option" where
  "tonumber cs = (case cs of
      [] \<Rightarrow> None
    | c # cs' \<Rightarrow> (if c = CHR ''-'' then map_option (\<lambda>n. - int n) (read_nat cs')
                 else map_option int (read_nat cs)))"

lemma of_char_digit [simp]: "d < 10 \<Longrightarrow> (of_char (digit d) :: nat) = 48 + d"
  by (simp add: digit_def)

lemma digit_val_digit [simp]: "d < 10 \<Longrightarrow> digit_val (digit d) = Some d"
  by (simp add: digit_val_def)

lemma read_digits_append:
  "read_digits acc (xs @ [c]) =
     (case read_digits acc xs of None \<Rightarrow> None
      | Some a \<Rightarrow> (case digit_val c of None \<Rightarrow> None | Some d \<Rightarrow> Some (10 * a + d)))"
  by (induction acc xs rule: read_digits.induct) (auto split: option.splits)

lemma read_digits_show: "read_digits 0 (show_nat n) = Some n"
proof (induction n rule: show_nat.induct)
  case (1 n)
  show ?case
  proof (cases "n < 10")
    case True
    then show ?thesis by (subst show_nat.simps) simp
  next
    case False
    with 1 have "read_digits 0 (show_nat (n div 10)) = Some (n div 10)" by simp
    with False show ?thesis
      by (subst show_nat.simps) (simp add: read_digits_append)
  qed
qed

lemma show_nat_nonempty [simp]: "show_nat n \<noteq> []"
  by (subst show_nat.simps) simp

lemma show_nat_digits: "c \<in> set (show_nat n) \<Longrightarrow> 48 \<le> (of_char c :: nat) \<and> (of_char c :: nat) \<le> 57"
proof (induction n rule: show_nat.induct)
  case (1 n)
  then show ?case
    by (subst (asm) (2) show_nat.simps) (auto split: if_splits)
qed

lemma read_nat_show [simp]: "read_nat (show_nat n) = Some n"
  by (simp add: read_nat_def read_digits_show)

lemma show_nat_inject [simp]: "show_nat m = show_nat n \<longleftrightarrow> m = n"
  by (metis option.inject read_digits_show)

lemma show_nat_no_minus: "CHR ''-'' \<notin> set (show_nat n)"
  using show_nat_digits [of "CHR ''-''" n] by auto

lemma tonumber_show [simp]: "tonumber (show_int x) = Some x"
proof (cases "x < 0")
  case True
  then show ?thesis by (simp add: tonumber_def show_int_def)
next
  case False
  then obtain c cs where c: "show_nat (nat x) = c # cs"
    by (cases "show_nat (nat x)") auto
  with show_nat_no_minus [of "nat x"] have "c \<noteq> CHR ''-''" by auto
  moreover have "read_nat (c # cs) = Some (nat x)"
    using read_nat_show [of "nat x"] c by simp
  ultimately show ?thesis using False c by (simp add: tonumber_def show_int_def)
qed

lemma tonumber_show_nat [simp]: "tonumber (show_nat n) = Some (int n)"
  using tonumber_show [of "int n"] by (simp add: show_int_def)

lemma tonumber_zero [simp]: "tonumber ''0'' = Some 0"
  by (simp add: tonumber_def read_nat_def digit_val_def)

lemma show_int_inject [simp]: "show_int x = show_int y \<longleftrightarrow> x = y"
  by (metis option.inject tonumber_show)

text \<open>Splitting at the first separator: the shared step of every key or name injectivity
  proof.\<close>

lemma append_sep_inject:
  "c \<notin> set xs \<Longrightarrow> c \<notin> set ys \<Longrightarrow> xs @ c # us = ys @ c # vs \<longleftrightarrow> xs = ys \<and> us = vs"
proof (induction xs arbitrary: ys)
  case Nil
  then show ?case by (cases ys) auto
next
  case (Cons x xs)
  then show ?case by (cases ys) auto
qed

section \<open>Lua arrays\<close>

text \<open>\<open>KEYS[i]\<close> and \<open>ARGV[i]\<close> count from one; an index past the end reads \<open>nil\<close>.\<close>

definition lua_nth :: "'a list \<Rightarrow> nat \<Rightarrow> 'a option" where
  "lua_nth xs i = (if 1 \<le> i \<and> i \<le> length xs then Some (xs ! (i - 1)) else None)"

lemma lua_nth_Cons_1 [simp]: "lua_nth (x # xs) (Suc 0) = Some x"
  by (simp add: lua_nth_def)

lemma lua_nth_Cons [simp]: "1 < i \<Longrightarrow> lua_nth (x # xs) i = lua_nth xs (i - 1)"
  by (auto simp: lua_nth_def nth_Cons')

section \<open>Go slices\<close>

text \<open>\<open>xs[i]\<close> panics outside the slice, which is \<open>None\<close>.\<close>

definition go_index :: "'a list \<Rightarrow> int \<Rightarrow> 'a option" where
  "go_index xs i = (if 0 \<le> i \<and> i < int (length xs) then Some (xs ! nat i) else None)"

lemma go_index_ok: "0 \<le> i \<Longrightarrow> i < int (length xs) \<Longrightarrow> go_index xs i = Some (xs ! nat i)"
  by (simp add: go_index_def)

section \<open>Errors\<close>

text \<open>The error values of the storage and money components. \<open>ErrRedis\<close> stands for any
  transport or server error of a Redis call.\<close>

datatype go_err =
    ErrFenced | ErrDuplicate | ErrRedis | ErrEmpty | ErrBacklog | ErrNoStreamKey
  | ErrEmptyTxID | ErrUnknownPool | ErrMarshal | ErrRefill | ErrNoScript

type_synonym 'a result = "go_err + 'a"

section \<open>Lists\<close>

lemma fold_invariant:
  "(\<And>x s. x \<in> set xs \<Longrightarrow> P s \<Longrightarrow> P (f x s)) \<Longrightarrow> P s \<Longrightarrow> P (fold f xs s)"
  by (induction xs arbitrary: s) auto

lemma map_of_distinct_Some:
  "distinct (map fst xs) \<Longrightarrow> (k, v) \<in> set xs \<Longrightarrow> map_of xs k = Some v"
  by simp

end
