(* ===== verification/Ident.thy ===== *)
theory Ident
  imports F1_Prelude "HOL-Library.Word"
begin

unbundle bit_operations_syntax

text \<open>
  Process identity, \<^verbatim>\<open>pkg/ident/ident.go\<close>: the service types, the node name
  \<open>s{serverID}-{svcName}-{nodeSeq}\<close> and the 10-bit worker number
  \<open>svcType << 7 | nodeSeq\<close>. The lemmas show that the range checks of \<open>New\<close> are exactly what
  makes the worker number and the node name injective, and that a service name parses back
  to its type.
\<close>

section \<open>Packing bit fields\<close>

lemma nat_or_disjoint: "b < 2 ^ n \<Longrightarrow> push_bit n a OR b = a * 2 ^ n + (b :: nat)"
proof -
  assume b: "b < 2 ^ n"
  have "push_bit n a AND take_bit n b = 0"
    by (auto simp: bit_eq_iff bit_simps)
  moreover have "take_bit n b = b" using b by (simp add: take_bit_nat_eq_self)
  ultimately have "push_bit n a AND b = 0" by simp
  then have "push_bit n a OR b = push_bit n a + b"
    by (simp add: disjunctive_add_eq_or)
  then show ?thesis by (simp add: push_bit_eq_mult)
qed

lemma unat_pack:
  fixes a b :: "'w::len word"
  assumes "unat a * 2 ^ n < 2 ^ LENGTH('w)" and "unat b < 2 ^ n"
  shows "unat (push_bit n a OR b) = unat a * 2 ^ n + unat b"
proof -
  have "unat (push_bit n a) = unat a * 2 ^ n"
    using assms(1) unsigned_push_bit_eq [of n a, where ?'a = nat]
    by (simp only: push_bit_eq_mult take_bit_nat_eq_self)
  then have "unat (push_bit n a OR b) = push_bit n (unat a) OR unat b"
    by (simp only: unsigned_or_eq push_bit_eq_mult)
  with assms(2) show ?thesis by (simp add: nat_or_disjoint)
qed

section \<open>Service types\<close>

type_synonym svc_type = "32 word"

definition NodeSeqBits :: nat where "NodeSeqBits = 7"
definition SvcTypeBits :: nat where "SvcTypeBits = 3"
definition MaxNodeSeq :: int where "MaxNodeSeq = 2 ^ NodeSeqBits - 1"
definition MaxSvcType :: nat where "MaxSvcType = 2 ^ SvcTypeBits - 1"

definition svcNames :: "(svc_type \<times> string) list" where
  "svcNames = [(1, ''gateway''), (2, ''lobby''), (3, ''room''), (4, ''match''),
               (5, ''chat''), (6, ''world''), (7, ''account'')]"

text \<open>\<open>svcByName\<close> inverts the map; the names are distinct, so the order of the entries does
  not matter.\<close>

definition svcByName :: "(string \<times> svc_type) list" where
  "svcByName = map (\<lambda>(t, n). (n, t)) svcNames"

definition svc_Name :: "svc_type \<Rightarrow> string" where
  "svc_Name s = (case map_of svcNames s of Some n \<Rightarrow> n | None \<Rightarrow> ''svc'' @ show_nat (unat s))"

definition svc_Valid :: "svc_type \<Rightarrow> bool" where
  "svc_Valid s \<longleftrightarrow> s \<ge> 1 \<and> unat s \<le> MaxSvcType"

text \<open>\<open>strings.TrimSpace\<close> and \<open>strings.ToLower\<close> on ASCII text.\<close>

definition is_space :: "char \<Rightarrow> bool" where
  "is_space c \<longleftrightarrow> (let n = (of_char c :: nat) in n = 32 \<or> (9 \<le> n \<and> n \<le> 13))"

definition TrimSpace :: "string \<Rightarrow> string" where
  "TrimSpace s = rev (dropWhile is_space (rev (dropWhile is_space s)))"

definition to_lower :: "char \<Rightarrow> char" where
  "to_lower c = (let n = (of_char c :: nat) in if 65 \<le> n \<and> n \<le> 90 then char_of (n + 32) else c)"

definition ParseSvcType :: "string \<Rightarrow> svc_type option" where
  "ParseSvcType name = map_of svcByName (map to_lower (TrimSpace name))"

section \<open>Identity\<close>

record identity =
  ServerID :: int
  Svc :: svc_type
  NodeSeq :: int
  nodeID :: string
  workerID :: "32 word"

datatype ident_err = BadServerID | BadSvcType | BadNodeSeq

definition ident_New :: "int \<Rightarrow> svc_type \<Rightarrow> int \<Rightarrow> ident_err + identity" where
  "ident_New serverID svc nodeSeq =
     (if serverID < 0 then Inl BadServerID
      else if \<not> svc_Valid svc then Inl BadSvcType
      else if nodeSeq < 1 \<or> nodeSeq > MaxNodeSeq then Inl BadNodeSeq
      else Inr \<lparr>ServerID = serverID, Svc = svc, NodeSeq = nodeSeq,
                nodeID = ''s'' @ show_int serverID @ ''-'' @ svc_Name svc @ ''-'' @ show_int nodeSeq,
                workerID = push_bit NodeSeqBits svc OR word_of_int nodeSeq\<rparr>)"

lemmas ident_consts = NodeSeqBits_def SvcTypeBits_def MaxNodeSeq_def MaxSvcType_def

section \<open>Worker numbers\<close>

lemma ident_New_Inr:
  assumes "ident_New sid svc n = Inr i"
  shows "0 \<le> sid" "svc_Valid svc" "1 \<le> n" "n \<le> 127"
    "i = \<lparr>ServerID = sid, Svc = svc, NodeSeq = n,
          nodeID = ''s'' @ show_int sid @ ''-'' @ svc_Name svc @ ''-'' @ show_int n,
          workerID = push_bit 7 svc OR word_of_int n\<rparr>"
  using assms by (auto simp: ident_New_def ident_consts split: if_splits)

lemma unat_workerID:
  assumes "ident_New sid svc n = Inr i"
  shows "unat (workerID i) = unat svc * 128 + nat n" and "unat (workerID i) < 1024"
proof -
  note d = ident_New_Inr [OF assms]
  have s: "unat svc \<le> 7" using d(2) by (simp add: svc_Valid_def ident_consts)
  have n: "unat (word_of_int n :: 32 word) = nat n"
    using d(3,4) by (simp add: unsigned_of_int take_bit_int_eq_self)
  have "unat (push_bit 7 svc OR word_of_int n) = unat svc * 2 ^ 7 + unat (word_of_int n :: 32 word)"
    using s n d(4) by (intro unat_pack) auto
  then show "unat (workerID i) = unat svc * 128 + nat n" using d(5) n by simp
  then show "unat (workerID i) < 1024" using s d(4) by simp
qed

lemma worker_parts:
  assumes "ident_New sid svc n = Inr i"
  shows "unat (workerID i) div 128 = unat svc" and "unat (workerID i) mod 128 = nat n"
  using unat_workerID [OF assms] ident_New_Inr(3,4) [OF assms] by auto

section \<open>Node names\<close>

lemma svc_Name_inject:
  assumes "svc_Valid a" "svc_Valid b" "svc_Name a = svc_Name b"
  shows "a = b"
proof -
  have in7: "s \<in> {1, 2, 3, 4, 5, 6, 7}" if "svc_Valid s" for s :: svc_type
  proof -
    have "1 \<le> unat s" "unat s \<le> 7"
      using that by (auto simp: svc_Valid_def ident_consts word_le_nat_alt)
    then have "unat s \<in> {1, 2, 3, 4, 5, 6, 7}" by auto
    then have "(of_nat (unat s) :: svc_type) \<in> of_nat ` {1, 2, 3, 4, 5, 6, 7}" by blast
    then show ?thesis by simp
  qed
  from in7 [OF assms(1)] in7 [OF assms(2)] assms(3) show ?thesis
    by (auto simp: svc_Name_def svcNames_def)
qed

lemma svc_Name_no_dash: "svc_Valid s \<Longrightarrow> CHR ''-'' \<notin> set (svc_Name s)"
  using show_nat_no_minus [of "unat s"] by (auto simp: svc_Name_def svcNames_def)

lemma nodeID_inject:
  assumes "ident_New a s n = Inr i" "ident_New b t m = Inr j" "nodeID i = nodeID j"
  shows "a = b \<and> s = t \<and> n = m"
proof -
  note di = ident_New_Inr [OF assms(1)] and dj = ident_New_Inr [OF assms(2)]
  have "show_nat (nat a) @ CHR ''-'' # (svc_Name s @ CHR ''-'' # show_int n)
      = show_nat (nat b) @ CHR ''-'' # (svc_Name t @ CHR ''-'' # show_int m)"
    using assms(3) di(1,5) dj(1,5) by (simp add: show_int_def)
  then have "nat a = nat b" and "svc_Name s @ CHR ''-'' # show_int n = svc_Name t @ CHR ''-'' # show_int m"
    by (simp_all add: append_sep_inject show_nat_no_minus)
  then show ?thesis
    using di(1,2) dj(1,2) by (auto simp: append_sep_inject svc_Name_no_dash intro: svc_Name_inject)
qed

lemma ParseSvcType_Name:
  assumes "s \<in> fst ` set svcNames"
  shows "ParseSvcType (svc_Name s) = Some s"
proof -
  have "s \<in> {1, 2, 3, 4, 5, 6, 7}" using assms by (auto simp: svcNames_def)
  then show ?thesis
    by (auto simp: svc_Name_def svcNames_def svcByName_def ParseSvcType_def TrimSpace_def is_space_def
        to_lower_def)
qed

end
