(* ===== verification/Idgen.thy ===== *)
theory Idgen
  imports Ident
begin

text \<open>
  The snowflake generator, \<^verbatim>\<open>pkg/idgen/snowflake.go\<close>. The injected clock \<open>now func() int64\<close>
  is the list of its successive readings; a loop that waits for the clock consumes readings
  until its condition holds, and \<open>None\<close> means the readings ended while the call was still
  waiting. Millisecond differences stay far inside \<open>int64\<close> and are plain integers; the
  identifier itself is packed into a 64-bit word.
\<close>

section \<open>Constants and state\<close>

definition SeqBits :: nat where "SeqBits = 12"
definition WorkerIDBits :: nat where "WorkerIDBits = NodeSeqBits + SvcTypeBits"
definition TimestampBits :: nat where "TimestampBits = 41"
definition MaxSeq :: "64 word" where "MaxSeq = 2 ^ SeqBits - 1"
definition MaxWorkerID :: nat where "MaxWorkerID = 2 ^ WorkerIDBits - 1"
definition workerShift :: nat where "workerShift = SeqBits"
definition tsShift :: nat where "tsShift = SeqBits + WorkerIDBits"
definition SpinTolerance :: int where "SpinTolerance = 10"
definition DefaultEpoch :: int where "DefaultEpoch = 1704067200000"

lemmas idgen_consts = SeqBits_def WorkerIDBits_def TimestampBits_def MaxSeq_def MaxWorkerID_def
  workerShift_def tsShift_def SpinTolerance_def ident_consts

record generator =
  g_workerID :: "64 word"
  epochMs :: int
  lastTS :: int
  gseq :: "64 word"
  halted :: bool

datatype idgen_err = WorkerIDRange | ErrClockBackwards int | ErrHalted | BeforeEpoch | TimestampOverflow

definition idgen_New :: "32 word \<Rightarrow> idgen_err + generator" where
  "idgen_New wid =
     (if unat wid > MaxWorkerID then Inl WorkerIDRange
      else Inr \<lparr>g_workerID = ucast wid, epochMs = DefaultEpoch, lastTS = -1, gseq = 0,
                halted = False\<rparr>)"

definition NewFromIdentity :: "identity \<Rightarrow> idgen_err + generator" where
  "NewFromIdentity i = idgen_New (workerID i)"

section \<open>Waiting for the clock\<close>

text \<open>The spin loop after a small step back: \<open>for now < g.lastTS\<close>.\<close>

fun spin_until :: "int \<Rightarrow> int \<Rightarrow> int list \<Rightarrow> (int \<times> int list) option" where
  "spin_until lts now [] = (if now < lts then None else Some (now, []))"
| "spin_until lts now (n # clk) = (if now < lts then spin_until lts n clk else Some (now, n # clk))"

text \<open>\<open>waitNextMilli\<close>: \<open>for now <= g.lastTS\<close>.\<close>

fun waitNextMilli :: "int \<Rightarrow> int \<Rightarrow> int list \<Rightarrow> (int \<times> int list) option" where
  "waitNextMilli lts now [] = (if now \<le> lts then None else Some (now, []))"
| "waitNextMilli lts now (n # clk) =
     (if now \<le> lts then waitNextMilli lts n clk else Some (now, n # clk))"

section \<open>Next\<close>

type_synonym next_out = "(idgen_err + 64 word) \<times> generator \<times> int list"

definition next_emit :: "generator \<Rightarrow> int list \<Rightarrow> next_out" where
  "next_emit g clk =
     (let elapsed = lastTS g - epochMs g in
      if elapsed < 0 then (Inl BeforeEpoch, g, clk)
      else if elapsed \<ge> 2 ^ TimestampBits then (Inl TimestampOverflow, g, clk)
      else (Inr (push_bit tsShift (word_of_int elapsed) OR (push_bit workerShift (g_workerID g) OR gseq g)),
            g, clk))"

definition next_seq :: "generator \<Rightarrow> int \<Rightarrow> int list \<Rightarrow> next_out option" where
  "next_seq g now clk =
     (if now = lastTS g then
        let s = (gseq g + 1) AND MaxSeq in
        if s = 0 then
          case waitNextMilli (lastTS g) now clk of
            None \<Rightarrow> None
          | Some (now', clk') \<Rightarrow> Some (next_emit (g\<lparr>gseq := s, lastTS := now'\<rparr>) clk')
        else Some (next_emit (g\<lparr>gseq := s, lastTS := now\<rparr>) clk)
      else Some (next_emit (g\<lparr>gseq := 0, lastTS := now\<rparr>) clk))"

definition next_clock :: "generator \<Rightarrow> int \<Rightarrow> int list \<Rightarrow> next_out option" where
  "next_clock g now clk =
     (if now < lastTS g then
        let diff = lastTS g - now in
        if diff \<le> SpinTolerance then
          case spin_until (lastTS g) now clk of
            None \<Rightarrow> None
          | Some (now', clk') \<Rightarrow> next_seq g now' clk'
        else Some (Inl (ErrClockBackwards diff), g\<lparr>halted := True\<rparr>, clk)
      else next_seq g now clk)"

text \<open>The whole of \<open>Next\<close>, under the generator's mutex: read the clock, leave or keep the
  halted state, handle a clock that went back, advance the sequence, pack.\<close>

fun idgen_Next :: "generator \<Rightarrow> int list \<Rightarrow> next_out option" where
  "idgen_Next g [] = None"
| "idgen_Next g (now # clk) =
     (if halted g then
        if now \<le> lastTS g then Some (Inl ErrHalted, g, clk)
        else next_clock (g\<lparr>halted := False\<rparr>) now clk
      else next_clock g now clk)"

fun NextN :: "nat \<Rightarrow> generator \<Rightarrow> int list \<Rightarrow> (64 word list \<times> idgen_err option \<times> generator \<times> int list) option" where
  "NextN 0 g clk = Some ([], None, g, clk)"
| "NextN (Suc n) g clk =
     (case idgen_Next g clk of
        None \<Rightarrow> None
      | Some (Inl e, g', clk') \<Rightarrow> Some ([], Some e, g', clk')
      | Some (Inr i, g', clk') \<Rightarrow>
          (case NextN n g' clk' of
             None \<Rightarrow> None
           | Some (is, e, g'', clk'') \<Rightarrow> Some (i # is, e, g'', clk'')))"

section \<open>Parse\<close>

record parts =
  Timestamp :: int
  p_WorkerID :: "32 word"
  p_Seq :: "32 word"
  p_SvcType :: svc_type
  p_NodeSeq :: "32 word"

definition idgen_Parse :: "64 word \<Rightarrow> parts" where
  "idgen_Parse i =
     (let s = ucast (i AND MaxSeq);
          worker = ucast (drop_bit workerShift i AND of_nat MaxWorkerID) in
      \<lparr>Timestamp = uint (drop_bit tsShift i) + DefaultEpoch, p_WorkerID = worker, p_Seq = s,
       p_SvcType = drop_bit NodeSeqBits worker, p_NodeSeq = worker AND word_of_int MaxNodeSeq\<rparr>)"

section \<open>What an identifier is made of\<close>

definition gen_inv :: "generator \<Rightarrow> bool" where
  "gen_inv g \<longleftrightarrow> unat (g_workerID g) < 1024 \<and> unat (gseq g) < 4096"

definition id_nat :: "generator \<Rightarrow> nat" where
  "id_nat g = nat (lastTS g - epochMs g) * 2 ^ 22 + (unat (g_workerID g) * 2 ^ 12 + unat (gseq g))"

lemma unat_and_MaxSeq: "unat (w AND MaxSeq) = unat w mod 4096"
proof -
  have "w AND MaxSeq = take_bit 12 w"
    by (simp add: MaxSeq_def SeqBits_def take_bit_eq_mask mask_eq_exp_minus_1)
  then show ?thesis by (simp add: unsigned_take_bit_eq take_bit_nat_def)
qed

lemma unat_pack_id:
  assumes "0 \<le> e" "e < 2 ^ 41" "unat w < 1024" "unat s < 4096"
  shows "unat (push_bit 22 (word_of_int e) OR (push_bit 12 w OR s) :: 64 word)
       = nat e * 2 ^ 22 + (unat w * 2 ^ 12 + unat s)"
proof -
  have low: "unat (push_bit 12 w OR s) = unat w * 2 ^ 12 + unat s"
    using assms(3,4) by (intro unat_pack) auto
  have e: "unat (word_of_int e :: 64 word) = nat e"
    using assms(1,2) by (simp add: unsigned_of_int take_bit_int_eq_self)
  have "unat (push_bit 22 (word_of_int e) OR (push_bit 12 w OR s) :: 64 word)
      = unat (word_of_int e :: 64 word) * 2 ^ 22 + unat (push_bit 12 w OR s)"
    using assms low e by (intro unat_pack) auto
  with low e show ?thesis by simp
qed

lemma next_emit_cases:
  assumes "next_emit g clk = (r, g', clk')"
  shows "g' = g" and "clk' = clk"
  using assms by (auto simp: next_emit_def Let_def split: if_splits)

lemma next_emit_id:
  assumes "gen_inv g" "next_emit g clk = (Inr i, g', clk')"
  shows "unat i = id_nat g" and "0 \<le> lastTS g - epochMs g" and "lastTS g - epochMs g < 2 ^ 41"
proof -
  define e where "e = lastTS g - epochMs g"
  have i: "i = push_bit 22 (word_of_int e) OR (push_bit 12 (g_workerID g) OR gseq g)"
    and e: "0 \<le> e" "e < 2 ^ 41"
    using assms(2) by (auto simp: next_emit_def Let_def idgen_consts e_def split: if_splits)
  show "unat i = id_nat g"
    using unat_pack_id [OF e, of "g_workerID g" "gseq g"] assms(1)
    by (simp only: i id_nat_def gen_inv_def e_def)
  show "0 \<le> lastTS g - epochMs g" "lastTS g - epochMs g < 2 ^ 41" using e by (simp_all add: e_def)
qed

section \<open>Progress of the generator\<close>

lemma spin_until_Some: "spin_until lts now clk = Some (now', clk') \<Longrightarrow> lts \<le> now'"
  by (induction lts now clk rule: spin_until.induct) (auto split: if_splits)

lemma waitNextMilli_Some: "waitNextMilli lts now clk = Some (now', clk') \<Longrightarrow> lts < now'"
  by (induction lts now clk rule: waitNextMilli.induct) (auto split: if_splits)

text \<open>The generator's position is the pair (last timestamp, sequence), ordered
  lexicographically. Every call keeps the worker and the epoch, never moves the position
  back, and moves it strictly forward when it returns an identifier.\<close>

definition gen_le :: "generator \<Rightarrow> generator \<Rightarrow> bool" where
  "gen_le g h \<longleftrightarrow> g_workerID h = g_workerID g \<and> epochMs h = epochMs g \<and>
     (lastTS g < lastTS h \<or> lastTS g = lastTS h \<and> unat (gseq g) \<le> unat (gseq h))"

definition gen_less :: "generator \<Rightarrow> generator \<Rightarrow> bool" where
  "gen_less g h \<longleftrightarrow> g_workerID h = g_workerID g \<and> epochMs h = epochMs g \<and>
     (lastTS g < lastTS h \<or> lastTS g = lastTS h \<and> unat (gseq g) < unat (gseq h))"

lemma gen_order:
  "gen_le g g" "gen_less g h \<Longrightarrow> gen_le g h"
  "gen_le f g \<Longrightarrow> gen_le g h \<Longrightarrow> gen_le f h" "gen_le f g \<Longrightarrow> gen_less g h \<Longrightarrow> gen_less f h"
  by (auto simp: gen_le_def gen_less_def)

lemma next_seq_progress:
  assumes "gen_inv g" "lastTS g \<le> now" "next_seq g now clk = Some (r, g', clk')"
  shows "gen_inv g'" and "gen_less g g'" and "\<exists>c. next_emit g' c = (r, g', clk')"
    and "halted g' = halted g"
proof -
  have s: "unat ((gseq g + 1) AND MaxSeq) = (unat (gseq g) + 1) mod 4096"
  proof -
    have "unat (gseq g + 1) = unat (gseq g) + 1"
      using assms(1) by (simp add: gen_inv_def unat_word_ariths)
    then show ?thesis by (simp add: unat_and_MaxSeq)
  qed
  have nz: "unat (gseq g) < unat ((gseq g + 1) AND MaxSeq)" if "(gseq g + 1) AND MaxSeq \<noteq> 0"
  proof -
    have "(unat (gseq g) + 1) mod 4096 \<noteq> 0" using that s by (metis unat_eq_zero)
    then show ?thesis using s assms(1) by (auto simp: gen_inv_def mod_Suc split: if_splits)
  qed
  have lt: "unat ((gseq g + 1) AND MaxSeq) < 4096" by (simp add: unat_and_MaxSeq)
  show "gen_inv g'" "gen_less g g'" "\<exists>c. next_emit g' c = (r, g', clk')" "halted g' = halted g"
    using assms lt nz
    by (auto simp: next_seq_def Let_def gen_inv_def gen_less_def dest!: waitNextMilli_Some
        dest: next_emit_cases split: if_splits option.splits)
qed

lemma next_clock_progress:
  assumes "gen_inv g" "next_clock g now clk = Some (r, g', clk')"
  shows "gen_inv g' \<and> gen_le g g' \<and>
    (\<forall>i. r = Inr i \<longrightarrow> gen_less g g' \<and> (\<exists>c. next_emit g' c = (r, g', clk')))"
proof -
  consider (rewind) d where "r = Inl (ErrClockBackwards d)" "g' = g\<lparr>halted := True\<rparr>"
    | (seq) now' c where "lastTS g \<le> now'" "next_seq g now' c = Some (r, g', clk')"
  proof (cases "now < lastTS g")
    case True
    with assms(2) rewind seq show ?thesis
      by (auto simp: next_clock_def Let_def dest!: spin_until_Some split: if_splits option.splits)
  next
    case False
    with assms(2) seq [of now clk] show ?thesis by (simp add: next_clock_def)
  qed
  then show ?thesis
  proof cases
    case rewind
    with assms(1) show ?thesis by (auto simp: gen_inv_def gen_le_def)
  next
    case seq
    from next_seq_progress [OF assms(1) seq] show ?thesis by (auto intro: gen_order)
  qed
qed

lemma gen_halted_irrelevant [simp]:
  "gen_inv (g\<lparr>halted := b\<rparr>) = gen_inv g" "gen_le (g\<lparr>halted := b\<rparr>) h = gen_le g h"
  "gen_less (g\<lparr>halted := b\<rparr>) h = gen_less g h" "id_nat (g\<lparr>halted := b\<rparr>) = id_nat g"
  by (auto simp: gen_inv_def gen_le_def gen_less_def id_nat_def)

lemma idgen_Next_step:
  assumes "gen_inv g" "idgen_Next g clk = Some (r, g', clk')"
  shows "gen_inv g' \<and> gen_le g g' \<and> (\<forall>i. r = Inr i \<longrightarrow> gen_less g g' \<and> unat i = id_nat g' \<and>
           0 \<le> lastTS g' - epochMs g' \<and> lastTS g' - epochMs g' < 2 ^ 41)"
proof -
  obtain now c where c: "clk = now # c" using assms(2) by (cases clk) auto
  have "(r = Inl ErrHalted \<and> g' = g) \<or> next_clock (g\<lparr>halted := False\<rparr>) now c = Some (r, g', clk')
      \<or> next_clock (g\<lparr>halted := halted g\<rparr>) now c = Some (r, g', clk')"
    using assms(2) c by (simp split: if_splits)
  then consider (halt) "r = Inl ErrHalted" "g' = g"
    | (go) b where "next_clock (g\<lparr>halted := b\<rparr>) now c = Some (r, g', clk')"
    by blast
  then show ?thesis
  proof cases
    case halt
    with assms(1) show ?thesis by (simp add: gen_order(1))
  next
    case go
    from assms(1) have "gen_inv (g\<lparr>halted := b\<rparr>)" by simp
    note p = next_clock_progress [OF this go]
    then have "gen_inv g'" by blast
    with p show ?thesis using next_emit_id [OF \<open>gen_inv g'\<close>] by auto
  qed
qed

lemma idgen_Next_progress:
  assumes "gen_inv g" "idgen_Next g clk = Some (r, g', clk')"
  shows "gen_inv g'" and "gen_le g g'"
    and "r = Inr i \<Longrightarrow> gen_less g g'" and "r = Inr i \<Longrightarrow> unat i = id_nat g'"
    and "r = Inr i \<Longrightarrow> 0 \<le> lastTS g' - epochMs g'" and "r = Inr i \<Longrightarrow> lastTS g' - epochMs g' < 2 ^ 41"
  using idgen_Next_step [OF assms] by auto

section \<open>Runs of one generator\<close>

text \<open>\<open>issued g is h\<close>: some sequence of calls takes the generator from \<open>g\<close> to \<open>h\<close>, each with
  any clock readings, and the successful ones returned \<open>is\<close> in this order.\<close>

inductive issued :: "generator \<Rightarrow> 64 word list \<Rightarrow> generator \<Rightarrow> bool" where
  issued_none: "issued g [] g"
| issued_id: "idgen_Next g clk = Some (Inr i, g', clk') \<Longrightarrow> issued g' is h \<Longrightarrow> issued g (i # is) h"
| issued_err: "idgen_Next g clk = Some (Inl e, g', clk') \<Longrightarrow> issued g' is h \<Longrightarrow> issued g is h"

inductive_cases issued_ConsE: "issued g (i # is) h"

lemma issued_origin:
  assumes "issued g is h" "gen_inv g" "i \<in> set is"
  shows "\<exists>f. gen_inv f \<and> gen_less g f \<and> unat i = id_nat f \<and> 0 \<le> lastTS f - epochMs f
           \<and> lastTS f - epochMs f < 2 ^ 41"
  using assms
proof (induction rule: issued.induct)
  case (issued_none g)
  then show ?case by simp
next
  case (issued_id g clk j g' clk' "is" h)
  note p = idgen_Next_progress [OF issued_id.prems(1) issued_id.hyps(1)]
  from issued_id.prems(2) show ?case
    using p issued_id.IH [OF p(1)] by (auto intro: gen_order)
next
  case (issued_err g clk e g' clk' "is" h)
  note p = idgen_Next_progress [OF issued_err.prems(1) issued_err.hyps(1)]
  show ?case using issued_err.IH [OF p(1) issued_err.prems(2)] p(2) by (auto intro: gen_order)
qed

lemma id_nat_mono:
  assumes "gen_inv g" "gen_inv h" "gen_less g h" "0 \<le> lastTS g - epochMs g"
  shows "id_nat g < id_nat h"
proof (cases "lastTS g < lastTS h")
  case True
  then have "nat (lastTS g - epochMs g) + 1 \<le> nat (lastTS h - epochMs h)"
    using assms(3,4) by (auto simp: gen_less_def)
  then have "(nat (lastTS g - epochMs g) + 1) * 2 ^ 22 \<le> nat (lastTS h - epochMs h) * 2 ^ 22"
    by (rule mult_right_mono) simp
  moreover have "unat (g_workerID g) * 2 ^ 12 + unat (gseq g) < 2 ^ 22"
    using assms(1) by (simp add: gen_inv_def)
  ultimately show ?thesis by (simp add: id_nat_def)
next
  case False
  with assms(3) show ?thesis by (auto simp: gen_less_def id_nat_def)
qed

lemma issued_sorted:
  "issued g is h \<Longrightarrow> gen_inv g \<Longrightarrow> sorted_wrt (\<lambda>x y. unat x < unat y) is"
proof (induction rule: issued.induct)
  case (issued_id g clk i g' clk' "is" h)
  note p = idgen_Next_progress [OF issued_id.prems issued_id.hyps(1)]
  have "unat i < unat j" if "j \<in> set is" for j
    using issued_origin [OF issued_id.hyps(2) p(1) that] p id_nat_mono by fastforce
  with issued_id.IH [OF p(1)] show ?case by simp
next
  case (issued_err g clk e g' clk' "is" h)
  then show ?case using idgen_Next_progress(1) by blast
qed simp

lemma gen_inv_New: "idgen_New w = Inr g \<Longrightarrow> gen_inv g \<and> unat (g_workerID g) = unat w"
  by (auto simp: idgen_New_def gen_inv_def idgen_consts unsigned_ucast_eq take_bit_nat_eq_self
      split: if_splits)

section \<open>Decoding\<close>

lemma idgen_Parse_nat:
  shows "unat (p_Seq (idgen_Parse i)) = unat i mod 4096"
    and "unat (p_WorkerID (idgen_Parse i)) = unat i div 4096 mod 1024"
    and "Timestamp (idgen_Parse i) = int (unat i div 2 ^ 22) + DefaultEpoch"
    and "unat (p_SvcType (idgen_Parse i)) = unat i div 4096 mod 1024 div 128"
    and "unat (p_NodeSeq (idgen_Parse i)) = unat i div 4096 mod 1024 mod 128"
proof -
  have w: "drop_bit 12 i AND 1023 = take_bit 10 (drop_bit 12 i)"
    by (simp add: take_bit_eq_mask mask_eq_exp_minus_1)
  have uw: "unat (drop_bit 12 i AND 1023) = unat i div 4096 mod 1024"
    unfolding w by (simp add: unsigned_take_bit_eq take_bit_nat_def unat_drop_bit_eq drop_bit_nat_def)
  have cast: "unat (ucast x :: 32 word) = unat x" if "unat x < 2 ^ 32" for x :: "64 word"
    using that by (simp add: unsigned_ucast_eq take_bit_nat_eq_self)
  show "unat (p_Seq (idgen_Parse i)) = unat i mod 4096"
    by (simp add: idgen_Parse_def Let_def cast unat_and_MaxSeq)
  have worker: "unat (ucast (drop_bit 12 i AND 1023) :: 32 word) = unat i div 4096 mod 1024"
    by (simp add: cast uw)
  then show "unat (p_WorkerID (idgen_Parse i)) = unat i div 4096 mod 1024"
    by (simp add: idgen_Parse_def Let_def idgen_consts)
  show "Timestamp (idgen_Parse i) = int (unat i div 2 ^ 22) + DefaultEpoch"
    by (simp add: idgen_Parse_def Let_def idgen_consts uint_nat unat_drop_bit_eq drop_bit_nat_def)
  show "unat (p_SvcType (idgen_Parse i)) = unat i div 4096 mod 1024 div 128"
    using worker by (simp add: idgen_Parse_def Let_def idgen_consts unat_drop_bit_eq drop_bit_nat_def)
  have m: "x AND 127 = take_bit 7 x" for x :: "32 word"
    by (simp add: take_bit_eq_mask mask_eq_exp_minus_1)
  show "unat (p_NodeSeq (idgen_Parse i)) = unat i div 4096 mod 1024 mod 128"
    using worker by (simp add: idgen_Parse_def Let_def idgen_consts m unsigned_take_bit_eq take_bit_nat_def)
qed

lemma id_nat_parts:
  assumes "gen_inv f"
  shows "id_nat f mod 4096 = unat (gseq f)" and "id_nat f div 4096 mod 1024 = unat (g_workerID f)"
    and "id_nat f div 2 ^ 22 = nat (lastTS f - epochMs f)"
proof -
  let ?e = "nat (lastTS f - epochMs f)" and ?w = "unat (g_workerID f)" and ?s = "unat (gseq f)"
  have ws: "?w < 1024" "?s < 4096" using assms by (auto simp: gen_inv_def)
  have n: "id_nat f = (?e * 1024 + ?w) * 4096 + ?s" by (simp add: id_nat_def)
  have d: "id_nat f div 4096 = ?e * 1024 + ?w" using ws by (simp add: n)
  show "id_nat f mod 4096 = ?s" using ws unfolding n by (simp only: mod_mult_self3 mod_less)
  show "id_nat f div 4096 mod 1024 = ?w" using ws by (simp add: d)
  have "id_nat f div 2 ^ 22 = id_nat f div 4096 div 1024"
    by (simp add: div_mult2_eq [symmetric])
  then show "id_nat f div 2 ^ 22 = ?e" using ws by (simp add: d)
qed

lemma issued_worker:
  assumes "idgen_New w = Inr g" "issued g is h" "i \<in> set is"
  shows "unat i div 4096 mod 1024 = unat w"
proof -
  have g: "gen_inv g" "unat (g_workerID g) = unat w" using gen_inv_New [OF assms(1)] by auto
  obtain f where f: "gen_inv f" "gen_less g f" "unat i = id_nat f"
    using issued_origin [OF assms(2) g(1) assms(3)] by blast
  then have "g_workerID f = g_workerID g" by (simp add: gen_less_def)
  with f g show ?thesis by (simp add: id_nat_parts)
qed

section \<open>Liveness of the waiting loops\<close>

lemma spin_until_enough: "\<exists>n \<in> set (now # clk). lts \<le> n \<Longrightarrow> \<exists>r. spin_until lts now clk = Some r"
  by (induction lts now clk rule: spin_until.induct) auto

lemma waitNextMilli_enough:
  "\<exists>n \<in> set (now # clk). lts < n \<Longrightarrow> \<exists>r. waitNextMilli lts now clk = Some r"
  by (induction lts now clk rule: waitNextMilli.induct) auto

lemma spin_until_keeps:
  "spin_until lts now clk = Some (m, clk') \<Longrightarrow> n \<in> set (now # clk) \<Longrightarrow> lts \<le> n \<Longrightarrow> n \<in> set (m # clk')"
  by (induction lts now clk rule: spin_until.induct) (auto split: if_splits)

lemma next_seq_enough:
  "\<exists>n \<in> set (now # clk). lastTS g < n \<Longrightarrow> \<exists>out. next_seq g now clk = Some out"
  using waitNextMilli_enough [of now clk "lastTS g"]
  by (auto simp: next_seq_def Let_def simp del: split_paired_Ex split: option.splits)

lemma next_clock_enough:
  assumes "\<exists>n \<in> set (now # clk). lastTS g < n"
  shows "\<exists>out. next_clock g now clk = Some out"
proof (cases "now < lastTS g \<and> lastTS g - now \<le> SpinTolerance")
  case True
  obtain n where n: "n \<in> set (now # clk)" "lastTS g < n" using assms by blast
  then obtain m clk' where sp: "spin_until (lastTS g) now clk = Some (m, clk')"
    using spin_until_enough [of now clk "lastTS g"] by fastforce
  then have "\<exists>n \<in> set (m # clk'). lastTS g < n"
    using spin_until_keeps [OF sp n(1)] n(2) by fastforce
  then show ?thesis using True sp next_seq_enough [of m clk' g] by (simp add: next_clock_def)
next
  case False
  then show ?thesis using next_seq_enough [OF assms] by (auto simp: next_clock_def Let_def)
qed

section \<open>A concrete run\<close>

text \<open>The generator of lobby process 1 (worker 257) issues two identifiers in one millisecond,
  the one of room process 1 (worker 385) issues one.\<close>

definition fresh_gen :: "64 word \<Rightarrow> generator" where
  "fresh_gen w = \<lparr>g_workerID = w, epochMs = DefaultEpoch, lastTS = -1, gseq = 0, halted = False\<rparr>"

definition lobby_1 :: identity where
  "lobby_1 = \<lparr>ServerID = 1, Svc = 2, NodeSeq = 1, nodeID = ''s1-lobby-1'', workerID = 257\<rparr>"

definition room_1 :: identity where
  "room_1 = \<lparr>ServerID = 1, Svc = 3, NodeSeq = 1, nodeID = ''s1-room-1'', workerID = 385\<rparr>"

lemma demo_identities: "ident_New 1 2 1 = Inr lobby_1" "ident_New 1 3 1 = Inr room_1"
  by code_simp+

lemma fresh_gen_New: "idgen_New 257 = Inr (fresh_gen 257)" "NewFromIdentity lobby_1 = Inr (fresh_gen 257)"
  "NewFromIdentity room_1 = Inr (fresh_gen 385)"
  by (simp_all add: NewFromIdentity_def lobby_1_def room_1_def idgen_New_def idgen_consts fresh_gen_def)

lemma fresh_gen_run:
  "issued (fresh_gen 257) [419431452672, 419431452673]
     ((fresh_gen 257)\<lparr>lastTS := 1704067300000, gseq := 1\<rparr>)"
proof -
  have n1: "idgen_Next (fresh_gen 257) [1704067300000]
      = Some (Inr 419431452672, (fresh_gen 257)\<lparr>lastTS := 1704067300000\<rparr>, [])"
    by code_simp
  have n2: "idgen_Next ((fresh_gen 257)\<lparr>lastTS := 1704067300000\<rparr>) [1704067300000]
      = Some (Inr 419431452673, (fresh_gen 257)\<lparr>lastTS := 1704067300000, gseq := 1\<rparr>, [])"
    by code_simp
  show ?thesis by (intro issued_id [OF n1] issued_id [OF n2] issued_none)
qed

lemma fresh_gen_run_room:
  "issued (fresh_gen 385) [419431976960] ((fresh_gen 385)\<lparr>lastTS := 1704067300000\<rparr>)"
proof -
  have n1: "idgen_Next (fresh_gen 385) [1704067300000]
      = Some (Inr 419431976960, (fresh_gen 385)\<lparr>lastTS := 1704067300000\<rparr>, [])"
    by code_simp
  show ?thesis by (intro issued_id [OF n1] issued_none)
qed

section \<open>Properties\<close>

text \<open>Identifiers of one generator are unique and strictly increasing in the order they are
  issued, over any sequence of calls with any clock, including calls that fail while the
  clock has gone back or the generator is halted.\<close>

theorem snowflake_strictly_increasing:
  assumes "idgen_New w = Inr g" and "issued g is h"
  shows "sorted_wrt (\<lambda>x y. unat x < unat y) is"
  using issued_sorted [OF assms(2)] gen_inv_New [OF assms(1)] by blast

theorem snowflake_strictly_increasing_witness:
  "idgen_New 257 = Inr (fresh_gen 257) \<and> (\<exists>h. issued (fresh_gen 257) [419431452672, 419431452673] h) \<and>
   sorted_wrt (\<lambda>x y. unat x < unat y) [419431452672, 419431452673 :: 64 word]"
  using fresh_gen_New(1) fresh_gen_run
    snowflake_strictly_increasing [OF fresh_gen_New(1) fresh_gen_run] by blast

text \<open>C21: Two processes with different identities (service, sequence) that passed the start-up
  range check never issue the same identifier, whatever their clocks do.\<close>

theorem snowflake_unique_across_processes:
  assumes "ident_New a s n = Inr i" "ident_New b t m = Inr j" "(s, n) \<noteq> (t, m)"
    and "NewFromIdentity i = Inr g" "issued g xs g'"
    and "NewFromIdentity j = Inr h" "issued h ys h'"
  shows "set xs \<inter> set ys = {}"
proof -
  have "unat (workerID i) \<noteq> unat (workerID j)"
  proof
    assume eq: "unat (workerID i) = unat (workerID j)"
    then have "unat s = unat t" "nat n = nat m"
      using worker_parts [OF assms(1)] worker_parts [OF assms(2)] by simp_all
    then show False
      using assms(3) ident_New_Inr(3) [OF assms(1)] ident_New_Inr(3) [OF assms(2)]
      by (auto simp: word_unat_eq_iff)
  qed
  moreover have "unat x div 4096 mod 1024 = unat (workerID i)" if "x \<in> set xs" for x
    using issued_worker [OF _ assms(5) that] assms(4) by (simp add: NewFromIdentity_def)
  moreover have "unat x div 4096 mod 1024 = unat (workerID j)" if "x \<in> set ys" for x
    using issued_worker [OF _ assms(7) that] assms(6) by (simp add: NewFromIdentity_def)
  ultimately show ?thesis by fastforce
qed

theorem snowflake_unique_across_processes_witness:
  "set [419431452672, 419431452673] \<inter> set [419431976960 :: 64 word] = {}"
  using snowflake_unique_across_processes
    [OF demo_identities _ fresh_gen_New(2) fresh_gen_run fresh_gen_New(3) fresh_gen_run_room]
  by simp

text \<open>An identifier issued for an identity decodes to that identity: \<open>Parse\<close> returns the
  service type and the process sequence the generator was built from.\<close>

theorem snowflake_parse_roundtrip:
  assumes "ident_New a s n = Inr i" "NewFromIdentity i = Inr g" "issued g xs h" "x \<in> set xs"
  shows "p_SvcType (idgen_Parse x) = s \<and> uint (p_NodeSeq (idgen_Parse x)) = n
       \<and> p_WorkerID (idgen_Parse x) = workerID i"
proof -
  have w: "unat x div 4096 mod 1024 = unat (workerID i)"
    using issued_worker [OF _ assms(3,4)] assms(2) by (simp add: NewFromIdentity_def)
  then have "p_WorkerID (idgen_Parse x) = workerID i"
    by (simp add: word_unat_eq_iff idgen_Parse_nat)
  moreover have "p_SvcType (idgen_Parse x) = s"
    using w worker_parts(1) [OF assms(1)] by (simp add: word_unat_eq_iff idgen_Parse_nat)
  moreover have "uint (p_NodeSeq (idgen_Parse x)) = n"
    using w worker_parts(2) [OF assms(1)] ident_New_Inr(3) [OF assms(1)]
    by (simp add: uint_nat idgen_Parse_nat)
  ultimately show ?thesis by simp
qed

theorem snowflake_parse_roundtrip_witness:
  "p_SvcType (idgen_Parse 419431452673) = 2 \<and> uint (p_NodeSeq (idgen_Parse 419431452673)) = 1
     \<and> p_WorkerID (idgen_Parse 419431452673) = workerID lobby_1"
  using snowflake_parse_roundtrip
    [OF demo_identities(1) fresh_gen_New(2) fresh_gen_run, of 419431452673]
  by simp

text \<open>C22: \<open>Next\<close> always returns once the clock has passed the last issued millisecond: the spin
  after a small step back and the wait for the next millisecond both end.\<close>

theorem snowflake_next_returns:
  assumes "\<exists>n \<in> set clk. lastTS g < n"
  shows "\<exists>r g' clk'. idgen_Next g clk = Some (r, g', clk')"
proof -
  obtain now c where c: "clk = now # c" using assms by (cases clk) auto
  from assms c next_clock_enough [of now c g] next_clock_enough [of now c "g\<lparr>halted := False\<rparr>"]
  have "\<exists>out. idgen_Next g clk = Some out" by auto
  then show ?thesis by auto
qed

theorem snowflake_next_returns_witness:
  "\<exists>r g' clk'. idgen_Next ((fresh_gen 257)\<lparr>lastTS := 1704067300000, gseq := 4095\<rparr>)
     [1704067299995, 1704067300000, 1704067300000, 1704067300001] = Some (r, g', clk')"
  by (rule snowflake_next_returns) (simp add: fresh_gen_def)

text \<open>A step back of more than ten milliseconds stops the generator; it issues nothing while the
  clock has not passed the last issued timestamp, and recovers when it has.\<close>

theorem snowflake_halts_on_big_step_back:
  assumes "\<not> halted g" "now + SpinTolerance < lastTS g" "later \<le> lastTS g" "lastTS g < fresh"
  shows "idgen_Next g (now # clk) = Some (Inl (ErrClockBackwards (lastTS g - now)), g\<lparr>halted := True\<rparr>, clk)
    \<and> idgen_Next (g\<lparr>halted := True\<rparr>) (later # clk) = Some (Inl ErrHalted, g\<lparr>halted := True\<rparr>, clk)
    \<and> idgen_Next (g\<lparr>halted := True\<rparr>) (fresh # clk)
           = Some (next_emit (g\<lparr>halted := False, gseq := 0, lastTS := fresh\<rparr>) clk)"
  using assms by (auto simp: next_clock_def next_seq_def Let_def SpinTolerance_def)

theorem snowflake_halts_on_big_step_back_witness:
  "idgen_Next ((fresh_gen 257)\<lparr>lastTS := 1000\<rparr>) [900]
     = Some (Inl (ErrClockBackwards 100), (fresh_gen 257)\<lparr>lastTS := 1000, halted := True\<rparr>, [])"
  using snowflake_halts_on_big_step_back [of "(fresh_gen 257)\<lparr>lastTS := 1000\<rparr>" 900 950 1001 "[]"]
  by (simp add: fresh_gen_def SpinTolerance_def)

end
