(* ===== verification/Store_Keys.thy ===== *)
theory Store_Keys
  imports F1_Prelude
begin

text \<open>
  Redis key names, \<^verbatim>\<open>pkg/store/keys.go\<close>. The modules of a player, the hash-tag modes and one
  function per key kind. \<open>key_req\<close> and \<open>render\<close> collect the kinds so that one theorem covers all
  of them: no two key requests ever name the same Redis key. The hash-tag lemmas show which
  keys a Redis Cluster puts into one slot.
\<close>

section \<open>Modules\<close>

datatype Module = ModBase | ModBag | ModQuest | ModSocial | ModMail | ModRound | ModRG | ModGacha

fun mod_name :: "Module \<Rightarrow> string" where
  "mod_name ModBase = ''base''"
| "mod_name ModBag = ''bag''"
| "mod_name ModQuest = ''quest''"
| "mod_name ModSocial = ''social''"
| "mod_name ModMail = ''mail''"
| "mod_name ModRound = ''round''"
| "mod_name ModRG = ''rg''"
| "mod_name ModGacha = ''gacha''"

definition AllModules :: "Module list" where
  "AllModules = [ModBase, ModBag, ModQuest, ModSocial, ModMail, ModRound, ModRG, ModGacha]"

section \<open>Keys\<close>

definition TagUID :: string where "TagUID = ''uid''"
definition TagShard :: string where "TagShard = ''shard''"

record keys =
  mode :: string
  shardCount :: nat
  kind :: string

definition NewKeys :: "string \<Rightarrow> nat \<Rightarrow> string \<Rightarrow> keys" where
  "NewKeys m n k = \<lparr>mode = (if m = '''' then TagUID else m), shardCount = n, kind = k\<rparr>"

text \<open>\<open>Shard\<close> divides by \<open>shardCount\<close>; every caller builds the keys with 1024.\<close>

definition keys_Shard :: "keys \<Rightarrow> nat \<Rightarrow> nat" where
  "keys_Shard k i = u32 (i mod shardCount k)"

definition keys_tag :: "keys \<Rightarrow> nat \<Rightarrow> string" where
  "keys_tag k i = (if mode k = TagShard then ''s'' @ show_nat (keys_Shard k i) else show_nat i)"

definition keys_Player :: "keys \<Rightarrow> nat \<Rightarrow> Module \<Rightarrow> string" where
  "keys_Player k uid m =
     (if mode k = TagShard then ''p:{'' @ keys_tag k uid @ ''}:'' @ show_nat uid @ '':'' @ mod_name m
      else ''p:{'' @ show_nat uid @ ''}:'' @ mod_name m)"

definition keys_PlayerAll :: "keys \<Rightarrow> nat \<Rightarrow> string list" where
  "keys_PlayerAll k uid = map (keys_Player k uid) AllModules"

definition keys_Profile :: "keys \<Rightarrow> nat \<Rightarrow> string" where
  "keys_Profile k uid =
     (if mode k = TagShard then ''profile:{'' @ keys_tag k uid @ ''}:'' @ show_nat uid
      else ''profile:{'' @ show_nat uid @ ''}'')"

definition keys_Room :: "keys \<Rightarrow> nat \<Rightarrow> string" where
  "keys_Room k roomID = ''room:{s'' @ show_nat (keys_Shard k roomID) @ ''}:'' @ show_nat roomID"

definition keys_RoomIndex :: "keys \<Rightarrow> nat \<Rightarrow> string" where
  "keys_RoomIndex k shard = ''room:{s'' @ show_nat shard @ ''}:index''"

definition keys_Epoch :: "keys \<Rightarrow> nat \<Rightarrow> string" where
  "keys_Epoch k shard = ''shard:'' @ kind k @ '':{s'' @ show_nat shard @ ''}:epoch''"

definition keys_EpochOf :: "keys \<Rightarrow> nat \<Rightarrow> string" where
  "keys_EpochOf k i = keys_Epoch k (keys_Shard k i)"

definition keys_Session :: "keys \<Rightarrow> nat \<Rightarrow> string" where
  "keys_Session k uid = ''session:{'' @ show_nat uid @ ''}''"

definition keys_GateSessions :: "keys \<Rightarrow> string \<Rightarrow> string" where
  "keys_GateSessions k gateID = ''gate:'' @ gateID @ '':sessions''"

definition keys_Tx :: "keys \<Rightarrow> nat \<Rightarrow> string \<Rightarrow> string" where
  "keys_Tx k fromShard txid = ''tx:{s'' @ show_nat fromShard @ ''}:'' @ txid"

definition keys_TxDone :: "keys \<Rightarrow> nat \<Rightarrow> string \<Rightarrow> string" where
  "keys_TxDone k toShard txid = ''txdone:{s'' @ show_nat toShard @ ''}:'' @ txid"

definition keys_TxPending :: "keys \<Rightarrow> nat \<Rightarrow> string" where
  "keys_TxPending k fromShard = ''tx:pending:{s'' @ show_nat fromShard @ ''}''"

definition keys_Order :: "keys \<Rightarrow> nat \<Rightarrow> string \<Rightarrow> string" where
  "keys_Order k uid orderID =
     (if mode k = TagShard then ''order:{'' @ keys_tag k uid @ ''}:'' @ show_nat uid @ '':'' @ orderID
      else ''order:{'' @ show_nat uid @ ''}:'' @ orderID)"

definition keys_MailPending :: "keys \<Rightarrow> nat \<Rightarrow> string" where
  "keys_MailPending k uid =
     (if mode k = TagShard then ''p:{'' @ keys_tag k uid @ ''}:'' @ show_nat uid @ '':mailq''
      else ''p:{'' @ show_nat uid @ ''}:mailq'')"

definition keys_Ledger :: "keys \<Rightarrow> nat \<Rightarrow> string" where
  "keys_Ledger k uid =
     (if mode k = TagShard then ''ledger:{'' @ keys_tag k uid @ ''}:'' @ show_nat uid
      else ''ledger:{'' @ show_nat uid @ ''}'')"

definition keys_LedgerCursor :: "keys \<Rightarrow> nat \<Rightarrow> string" where
  "keys_LedgerCursor k uid =
     (if mode k = TagShard then ''ledger:{'' @ keys_tag k uid @ ''}:'' @ show_nat uid @ '':cursor''
      else ''ledger:{'' @ show_nat uid @ ''}:cursor'')"

definition keys_LedgerDirty :: "keys \<Rightarrow> nat \<Rightarrow> string" where
  "keys_LedgerDirty k shard = ''ledger:dirty:{s'' @ show_nat shard @ ''}''"

definition keys_Jackpot :: "keys \<Rightarrow> string \<Rightarrow> string" where
  "keys_Jackpot k pool = ''jackpot:{'' @ pool @ ''}:amount''"

definition keys_JackpotMeta :: "keys \<Rightarrow> string \<Rightarrow> string" where
  "keys_JackpotMeta k pool = ''jackpot:{'' @ pool @ ''}:meta''"

definition keys_JackpotPending :: "keys \<Rightarrow> string \<Rightarrow> string" where
  "keys_JackpotPending k pool = ''jackpot:{'' @ pool @ ''}:pending''"

definition keys_WorldBoss :: "keys \<Rightarrow> string" where
  "keys_WorldBoss k = ''world:{s0}:boss''"

definition keys_GuildMembers :: "keys \<Rightarrow> nat \<Rightarrow> string" where
  "keys_GuildMembers k guildID = ''guild:{'' @ show_nat guildID @ ''}:members''"

definition keys_Rank :: "keys \<Rightarrow> string \<Rightarrow> string" where
  "keys_Rank k name = ''rank:'' @ name"

lemmas keys_defs = keys_tag_def keys_Player_def keys_Profile_def keys_Room_def keys_RoomIndex_def
  keys_Epoch_def keys_Session_def keys_GateSessions_def keys_Tx_def keys_TxDone_def
  keys_TxPending_def keys_Order_def keys_MailPending_def keys_Ledger_def keys_LedgerCursor_def
  keys_LedgerDirty_def keys_Jackpot_def keys_JackpotMeta_def keys_JackpotPending_def
  keys_WorldBoss_def keys_GuildMembers_def keys_Rank_def

section \<open>All key kinds at once\<close>

datatype key_req =
    KPlayer nat Module | KProfile nat | KRoom nat | KRoomIndex nat | KEpoch nat | KSession nat
  | KGateSessions string | KTx nat string | KTxDone nat string | KTxPending nat
  | KOrder nat string | KMailPending nat | KLedger nat | KLedgerCursor nat | KLedgerDirty nat
  | KJackpot string | KJackpotMeta string | KJackpotPending string | KWorldBoss
  | KGuildMembers nat | KRank string

fun render :: "keys \<Rightarrow> key_req \<Rightarrow> string" where
  "render k (KPlayer u m) = keys_Player k u m"
| "render k (KProfile u) = keys_Profile k u"
| "render k (KRoom r) = keys_Room k r"
| "render k (KRoomIndex s) = keys_RoomIndex k s"
| "render k (KEpoch s) = keys_Epoch k s"
| "render k (KSession u) = keys_Session k u"
| "render k (KGateSessions g) = keys_GateSessions k g"
| "render k (KTx s t) = keys_Tx k s t"
| "render k (KTxDone s t) = keys_TxDone k s t"
| "render k (KTxPending s) = keys_TxPending k s"
| "render k (KOrder u r) = keys_Order k u r"
| "render k (KMailPending u) = keys_MailPending k u"
| "render k (KLedger u) = keys_Ledger k u"
| "render k (KLedgerCursor u) = keys_LedgerCursor k u"
| "render k (KLedgerDirty s) = keys_LedgerDirty k s"
| "render k (KJackpot p) = keys_Jackpot k p"
| "render k (KJackpotMeta p) = keys_JackpotMeta k p"
| "render k (KJackpotPending p) = keys_JackpotPending k p"
| "render k KWorldBoss = keys_WorldBoss k"
| "render k (KGuildMembers g) = keys_GuildMembers k g"
| "render k (KRank n) = keys_Rank k n"

section \<open>Separators\<close>

lemma show_nat_no_brace: "CHR ''}'' \<notin> set (show_nat n)"
  using show_nat_digits [of "CHR ''}''" n] by auto

lemma show_nat_no_colon: "CHR '':'' \<notin> set (show_nat n)"
  using show_nat_digits [of "CHR '':''" n] by auto

lemma show_nat_sep [simp]:
  "show_nat m @ CHR ''}'' # us = show_nat n @ CHR ''}'' # vs \<longleftrightarrow> m = n \<and> us = vs"
  "show_nat m @ CHR '':'' # us = show_nat n @ CHR '':'' # vs \<longleftrightarrow> m = n \<and> us = vs"
  by (simp_all add: append_sep_inject show_nat_no_brace show_nat_no_colon)

lemma show_nat_ends [simp]:
  "show_nat m \<noteq> show_nat n @ CHR '':'' # vs" "show_nat n @ CHR '':'' # vs \<noteq> show_nat m"
  by (metis in_set_conv_decomp show_nat_no_colon)+

lemma show_nat_not_index [simp]: "show_nat n \<noteq> ''index''" "''index'' \<noteq> show_nat n"
proof -
  have "CHR ''i'' \<notin> set (show_nat n)" using show_nat_digits [of "CHR ''i''" n] by auto
  then show "show_nat n \<noteq> ''index''" "''index'' \<noteq> show_nat n" by (metis list.set_intros(1))+
qed

lemma show_nat_tail_sep [simp]:
  "show_nat m @ ''}:index'' \<noteq> show_nat n @ CHR ''}'' # CHR '':'' # show_nat j"
  "show_nat n @ CHR ''}'' # CHR '':'' # show_nat j \<noteq> show_nat m @ ''}:index''"
  by (simp_all add: append_sep_inject show_nat_no_brace)

lemma mod_name_inject [simp]: "mod_name a = mod_name b \<longleftrightarrow> a = b"
  by (cases a; cases b) simp_all

lemma mod_name_not_mailq [simp]: "mod_name m \<noteq> ''mailq''" "''mailq'' \<noteq> mod_name m"
  by (cases m; simp)+

lemma append_suffix_inject: "length us = length vs \<Longrightarrow> xs @ us = ys @ vs \<longleftrightarrow> xs = ys \<and> us = vs"
  by simp

lemma jackpot_suffix [simp]:
  "p @ ''}:amount'' \<noteq> q @ ''}:meta''" "p @ ''}:amount'' \<noteq> q @ ''}:pending''" "p @ ''}:meta'' \<noteq> q @ ''}:pending''"
  "q @ ''}:meta'' \<noteq> p @ ''}:amount''" "q @ ''}:pending'' \<noteq> p @ ''}:amount''" "q @ ''}:pending'' \<noteq> p @ ''}:meta''"
  by (auto dest: arg_cong [where f = last])

lemma render_inject [simp]: "render k a = render k b \<longleftrightarrow> a = b"
  by (cases a; cases b) (auto simp: keys_defs)

text \<open>The kinds as the components use them.\<close>

lemma keys_as_render:
  "keys_Player k u m = render k (KPlayer u m)" "keys_Profile k u = render k (KProfile u)"
  "keys_Epoch k s = render k (KEpoch s)" "keys_Order k u r = render k (KOrder u r)"
  "keys_Ledger k u = render k (KLedger u)" "keys_Tx k s t = render k (KTx s t)"
  "keys_TxDone k s t = render k (KTxDone s t)" "keys_TxPending k s = render k (KTxPending s)"
  "keys_Jackpot k p = render k (KJackpot p)" "keys_JackpotPending k p = render k (KJackpotPending p)"
  "keys_JackpotMeta k p = render k (KJackpotMeta p)" "keys_MailPending k u = render k (KMailPending u)"
  "keys_Room k i = render k (KRoom i)" "keys_RoomIndex k s = render k (KRoomIndex s)"
  "keys_Session k u = render k (KSession u)"
  by simp_all

lemmas key_eqs = keys_as_render render_inject

declare render.simps [simp del]

section \<open>Hash tags\<close>

text \<open>Redis Cluster hashes the part of a key between the first \<open>{\<close> and the next \<open>}\<close> when that
  part is present and not empty, and the whole key otherwise.\<close>

definition hash_tag :: "string \<Rightarrow> string" where
  "hash_tag key =
     (case dropWhile (\<lambda>c. c \<noteq> CHR ''{'') key of
        [] \<Rightarrow> key
      | _ # rest \<Rightarrow>
          (let inner = takeWhile (\<lambda>c. c \<noteq> CHR ''}'') rest in
           if inner = [] \<or> CHR ''}'' \<notin> set rest then key else inner))"

lemma hash_tag_braces:
  assumes "CHR ''{'' \<notin> set pre" "CHR ''}'' \<notin> set inner" "inner \<noteq> []"
  shows "hash_tag (pre @ CHR ''{'' # inner @ CHR ''}'' # post) = inner"
proof -
  have "dropWhile (\<lambda>c. c \<noteq> CHR ''{'') (pre @ CHR ''{'' # inner @ CHR ''}'' # post)
      = CHR ''{'' # inner @ CHR ''}'' # post"
    using assms(1) by (induction pre) auto
  moreover have "takeWhile (\<lambda>c. c \<noteq> CHR ''}'') (inner @ CHR ''}'' # post) = inner"
    using assms(2) by (induction inner) auto
  ultimately show ?thesis using assms(3) by (simp add: hash_tag_def)
qed

lemma hash_tag_Player: "mode k = TagShard \<Longrightarrow> hash_tag (keys_Player k u m) = ''s'' @ show_nat (keys_Shard k u)"
  using hash_tag_braces [of "''p:''" "''s'' @ show_nat (keys_Shard k u)" "'':'' @ show_nat u @ '':'' @ mod_name m"]
  by (simp add: keys_Player_def keys_tag_def show_nat_no_brace)

lemma hash_tag_Order: "mode k = TagShard \<Longrightarrow> hash_tag (keys_Order k u r) = ''s'' @ show_nat (keys_Shard k u)"
  using hash_tag_braces [of "''order:''" "''s'' @ show_nat (keys_Shard k u)" "'':'' @ show_nat u @ '':'' @ r"]
  by (simp add: keys_Order_def keys_tag_def show_nat_no_brace)

lemma hash_tag_Ledger: "mode k = TagShard \<Longrightarrow> hash_tag (keys_Ledger k u) = ''s'' @ show_nat (keys_Shard k u)"
  using hash_tag_braces [of "''ledger:''" "''s'' @ show_nat (keys_Shard k u)" "'':'' @ show_nat u"]
  by (simp add: keys_Ledger_def keys_tag_def show_nat_no_brace)

lemma hash_tag_Epoch: "CHR ''{'' \<notin> set (kind k) \<Longrightarrow> hash_tag (keys_Epoch k s) = ''s'' @ show_nat s"
  using hash_tag_braces [of "''shard:'' @ kind k @ '':''" "''s'' @ show_nat s" "'':epoch''"]
  by (simp add: keys_Epoch_def show_nat_no_brace)

lemma hash_tag_Tx:
  "hash_tag (keys_Tx k s t) = ''s'' @ show_nat s" "hash_tag (keys_TxDone k s t) = ''s'' @ show_nat s"
  "hash_tag (keys_TxPending k s) = ''s'' @ show_nat s"
  using hash_tag_braces [of "''tx:''" "''s'' @ show_nat s" "'':'' @ t"]
    hash_tag_braces [of "''txdone:''" "''s'' @ show_nat s" "'':'' @ t"]
    hash_tag_braces [of "''tx:pending:''" "''s'' @ show_nat s" "[]"]
  by (simp_all add: keys_Tx_def keys_TxDone_def keys_TxPending_def show_nat_no_brace)

section \<open>Properties\<close>

text \<open>Key names are injective over all key kinds together: two different requests (different
  kind, player, module, shard, order, transaction, pool, ...) never name the same Redis key, in
  either hash-tag mode.\<close>

theorem redis_keys_never_collide: "inj (render k)"
  by (auto intro: injI)

text \<open>In the shard hash-tag mode every key that one commit or transfer script touches (the epoch
  key, the player's modules, its order and ledger keys, and the transfer keys of its shard) has
  the same hash tag, so Redis Cluster puts them into one slot.\<close>

theorem shard_mode_keys_share_slot:
  assumes "mode k = TagShard" "CHR ''{'' \<notin> set (kind k)" "keys_Shard k u = s"
  shows "hash_tag (keys_Player k u m) = hash_tag (keys_Epoch k s)
    \<and> hash_tag (keys_Order k u r) = hash_tag (keys_Epoch k s)
    \<and> hash_tag (keys_Ledger k u) = hash_tag (keys_Epoch k s)
    \<and> hash_tag (keys_Tx k s t) = hash_tag (keys_Epoch k s)
    \<and> hash_tag (keys_TxPending k s) = hash_tag (keys_Epoch k s)
    \<and> hash_tag (keys_TxDone k s t) = hash_tag (keys_Epoch k s)"
  using assms by (simp add: hash_tag_Player hash_tag_Order hash_tag_Ledger hash_tag_Epoch hash_tag_Tx)

theorem shard_mode_keys_share_slot_witness:
  "hash_tag (keys_Player (NewKeys TagShard 1024 ''lobby'') 1001 ModBase)
     = hash_tag (keys_Epoch (NewKeys TagShard 1024 ''lobby'') 1001)"
  using shard_mode_keys_share_slot [of "NewKeys TagShard 1024 ''lobby''" 1001 1001 ModBase "[]" "[]"]
  by (simp add: NewKeys_def TagShard_def keys_Shard_def u32_def)

end
