(* ===== verification/Redis_Api.thy ===== *)
theory Redis_Api
  imports F1_Prelude
begin

text \<open>
  The Redis server is a service outside the repository: the model takes it as a record of
  commands over an abstract server state, and the locale \<open>redis_api\<close> states the documented
  behaviour the Lua scripts rely on: a command changes only the key it names, and a read
  returns what the last write to that key left. \<open>mem_redis\<close> is the map-based server that
  satisfies the laws and on which concrete inputs are evaluated. Key expiry is not part of a
  command: where a property depends on a key still being there, it says so.

  \<open>run\<close> is a call over the network (\<open>Script.Run\<close>, \<open>Pipeline.Exec\<close>): the request or its reply
  may be lost, and in both cases the caller sees the same error.
\<close>

section \<open>Commands\<close>

record 'r redis =
  GET :: "'r \<Rightarrow> string \<Rightarrow> bytes option"
  SET :: "'r \<Rightarrow> string \<Rightarrow> bytes \<Rightarrow> 'r"
  SETEX :: "'r \<Rightarrow> string \<Rightarrow> bytes \<Rightarrow> int \<Rightarrow> 'r" \<comment> \<open>\<open>SET key value EX seconds\<close>\<close>
  SETKEEP :: "'r \<Rightarrow> string \<Rightarrow> bytes \<Rightarrow> 'r" \<comment> \<open>\<open>SET key value KEEPTTL\<close>\<close>
  DEL :: "'r \<Rightarrow> string \<Rightarrow> 'r"
  XADD :: "'r \<Rightarrow> string \<Rightarrow> int \<Rightarrow> bytes \<Rightarrow> 'r" \<comment> \<open>key, \<open>MAXLEN ~\<close> bound (0: none), field \<open>d\<close>\<close>
  XALL :: "'r \<Rightarrow> string \<Rightarrow> (string \<times> bytes) list" \<comment> \<open>stream entries, oldest first: id and field \<open>d\<close>\<close>
  ZADD :: "'r \<Rightarrow> string \<Rightarrow> int \<Rightarrow> bytes \<Rightarrow> 'r"
  ZREM :: "'r \<Rightarrow> string \<Rightarrow> bytes \<Rightarrow> 'r"
  ZSCORE :: "'r \<Rightarrow> string \<Rightarrow> bytes \<Rightarrow> int option"
  ZRANGE :: "'r \<Rightarrow> string \<Rightarrow> int \<Rightarrow> nat \<Rightarrow> bytes list" \<comment> \<open>\<open>ZRANGEBYSCORE key 0 max LIMIT 0 count\<close>\<close>
  HSET :: "'r \<Rightarrow> string \<Rightarrow> (string \<times> bytes) list \<Rightarrow> 'r"
  HGET :: "'r \<Rightarrow> string \<Rightarrow> string \<Rightarrow> bytes option"
  EXPIRE :: "'r \<Rightarrow> string \<Rightarrow> int \<Rightarrow> 'r"
  ZREVALL :: "'r \<Rightarrow> string \<Rightarrow> (bytes \<times> int) list" \<comment> \<open>\<open>ZREVRANGE key 0 -1 WITHSCORES\<close>\<close>
  HDEL :: "'r \<Rightarrow> string \<Rightarrow> string \<Rightarrow> 'r"
  HALL :: "'r \<Rightarrow> string \<Rightarrow> (string \<times> bytes) list" \<comment> \<open>\<open>HGETALL\<close>\<close>
  SADD :: "'r \<Rightarrow> string \<Rightarrow> bytes \<Rightarrow> 'r"
  SREM :: "'r \<Rightarrow> string \<Rightarrow> bytes \<Rightarrow> 'r"
  SMEMBERS :: "'r \<Rightarrow> string \<Rightarrow> bytes list"
  RPUSH :: "'r \<Rightarrow> string \<Rightarrow> bytes \<Rightarrow> 'r"
  LALL :: "'r \<Rightarrow> string \<Rightarrow> bytes list" \<comment> \<open>\<open>LRANGE key 0 -1\<close>\<close>
  LDROP :: "'r \<Rightarrow> string \<Rightarrow> nat \<Rightarrow> 'r" \<comment> \<open>\<open>LTRIM key n -1\<close>\<close>

text \<open>All a client can read at one key.\<close>

definition view :: "'r redis \<Rightarrow> 'r \<Rightarrow> string \<Rightarrow>
    bytes option \<times> (string \<times> bytes) list \<times> (bytes \<Rightarrow> int option) \<times> (string \<Rightarrow> bytes option) \<times> bytes set \<times> bytes list" where
  "view R s k = (GET R s k, XALL R s k, ZSCORE R s k, HGET R s k, set (SMEMBERS R s k), LALL R s k)"

definition set_all :: "'r redis \<Rightarrow> (string \<times> bytes) list \<Rightarrow> 'r \<Rightarrow> 'r" where
  "set_all R kv s = fold (\<lambda>(k, v) s. SET R s k v) kv s"

definition xadd_all :: "'r redis \<Rightarrow> string \<Rightarrow> int \<Rightarrow> bytes list \<Rightarrow> 'r \<Rightarrow> 'r" where
  "xadd_all R k ml es s = fold (\<lambda>e s. XADD R s k ml e) es s"

section \<open>The laws\<close>

locale redis_api =
  fixes R :: "'r redis"
  assumes frame_set: "k' \<noteq> k \<Longrightarrow> view R (SET R s k v) k' = view R s k'"
    and frame_setex: "k' \<noteq> k \<Longrightarrow> view R (SETEX R s k v t) k' = view R s k'"
    and frame_setkeep: "k' \<noteq> k \<Longrightarrow> view R (SETKEEP R s k v) k' = view R s k'"
    and frame_del: "k' \<noteq> k \<Longrightarrow> view R (DEL R s k) k' = view R s k'"
    and frame_xadd: "k' \<noteq> k \<Longrightarrow> view R (XADD R s k ml e) k' = view R s k'"
    and frame_zadd: "k' \<noteq> k \<Longrightarrow> view R (ZADD R s k sc m) k' = view R s k'"
    and frame_zrem: "k' \<noteq> k \<Longrightarrow> view R (ZREM R s k m) k' = view R s k'"
    and frame_hset: "k' \<noteq> k \<Longrightarrow> view R (HSET R s k fs) k' = view R s k'"
    and frame_hdel: "k' \<noteq> k \<Longrightarrow> view R (HDEL R s k f) k' = view R s k'"
    and frame_sadd: "k' \<noteq> k \<Longrightarrow> view R (SADD R s k m) k' = view R s k'"
    and frame_srem: "k' \<noteq> k \<Longrightarrow> view R (SREM R s k m) k' = view R s k'"
    and frame_rpush: "k' \<noteq> k \<Longrightarrow> view R (RPUSH R s k m) k' = view R s k'"
    and frame_ldrop: "k' \<noteq> k \<Longrightarrow> view R (LDROP R s k n) k' = view R s k'"
    and frame_expire: "view R (EXPIRE R s k t) k' = view R s k'"
    and get_set: "GET R (SET R s k v) k = Some v"
    and get_setex: "GET R (SETEX R s k v t) k = Some v"
    and get_setkeep: "GET R (SETKEEP R s k v) k = Some v"
    and get_del: "GET R (DEL R s k) k = None"
    and xall_xadd: "\<exists>n i. XALL R (XADD R s k ml e) k = drop n (XALL R s k) @ [(i, e)]
          \<and> n \<le> length (XALL R s k) \<and> (n = 0 \<or> 0 < ml \<and> ml \<le> int (length (XALL R s k) - n) + 1)"
    and zscore_zadd: "ZSCORE R (ZADD R s k sc m) k = (ZSCORE R s k)(m \<mapsto> sc)"
    and zscore_zrem: "ZSCORE R (ZREM R s k m) k = (ZSCORE R s k)(m := None)"
    and zrange_in: "m \<in> set (ZRANGE R s k mx n) \<Longrightarrow> \<exists>sc. ZSCORE R s k m = Some sc \<and> 0 \<le> sc \<and> sc \<le> mx"
    and zrange_all: "length (ZRANGE R s k mx n) < n \<Longrightarrow> ZSCORE R s k m = Some sc \<Longrightarrow> 0 \<le> sc \<Longrightarrow> sc \<le> mx \<Longrightarrow>
          m \<in> set (ZRANGE R s k mx n)"
    and hget_hset: "HGET R (HSET R s k fs) k = HGET R s k ++ map_of (rev fs)"
    and hget_hdel: "HGET R (HDEL R s k f) k = (HGET R s k)(f := None)"
    and hget_del: "HGET R (DEL R s k) k = Map.empty"
    and hall_hget: "map_of (HALL R s k) = HGET R s k"
    and hall_distinct: "distinct (map fst (HALL R s k))"
    and zrevall_zscore: "map_of (ZREVALL R s k) = ZSCORE R s k"
    and zrevall_distinct: "distinct (map fst (ZREVALL R s k))"
    and zrevall_sorted: "sorted_wrt (\<lambda>x y. snd y \<le> snd x) (ZREVALL R s k)"
    and smembers_sadd: "set (SMEMBERS R (SADD R s k m) k) = insert m (set (SMEMBERS R s k))"
    and smembers_srem: "set (SMEMBERS R (SREM R s k m) k) = set (SMEMBERS R s k) - {m}"
    and smembers_del: "set (SMEMBERS R (DEL R s k) k) = {}"
    and smembers_distinct: "distinct (SMEMBERS R s k)"
    and lall_rpush: "LALL R (RPUSH R s k m) k = LALL R s k @ [m]"
    and lall_ldrop: "LALL R (LDROP R s k n) k = drop n (LALL R s k)"
begin

lemmas frames = frame_set frame_setex frame_setkeep frame_del frame_xadd frame_zadd frame_zrem
  frame_hset

lemmas more_frames = frame_hdel frame_sadd frame_srem frame_rpush frame_ldrop

lemma hget_frame:
  "k' \<noteq> k \<Longrightarrow> HGET R (SET R s k v) k' = HGET R s k'"
  "k' \<noteq> k \<Longrightarrow> HGET R (DEL R s k) k' = HGET R s k'"
  "k' \<noteq> k \<Longrightarrow> HGET R (HSET R s k fs) k' = HGET R s k'"
  "k' \<noteq> k \<Longrightarrow> HGET R (HDEL R s k f) k' = HGET R s k'"
  "k' \<noteq> k \<Longrightarrow> HGET R (SADD R s k m) k' = HGET R s k'"
  "k' \<noteq> k \<Longrightarrow> HGET R (SREM R s k m) k' = HGET R s k'"
  "HGET R (EXPIRE R s k t) k' = HGET R s k'"
  using frames [of k' k] more_frames [of k' k] frame_expire [of s k t k'] by (simp_all add: view_def)

lemma smembers_frame:
  "k' \<noteq> k \<Longrightarrow> set (SMEMBERS R (SET R s k v) k') = set (SMEMBERS R s k')"
  "k' \<noteq> k \<Longrightarrow> set (SMEMBERS R (DEL R s k) k') = set (SMEMBERS R s k')"
  "k' \<noteq> k \<Longrightarrow> set (SMEMBERS R (HSET R s k fs) k') = set (SMEMBERS R s k')"
  "k' \<noteq> k \<Longrightarrow> set (SMEMBERS R (SADD R s k m) k') = set (SMEMBERS R s k')"
  "k' \<noteq> k \<Longrightarrow> set (SMEMBERS R (SREM R s k m) k') = set (SMEMBERS R s k')"
  "set (SMEMBERS R (EXPIRE R s k t) k') = set (SMEMBERS R s k')"
  using frames [of k' k] more_frames [of k' k] frame_expire [of s k t k'] by (simp_all add: view_def)

lemma get_frame:
  "k' \<noteq> k \<Longrightarrow> GET R (SET R s k v) k' = GET R s k'"
  "k' \<noteq> k \<Longrightarrow> GET R (SETEX R s k v t) k' = GET R s k'"
  "k' \<noteq> k \<Longrightarrow> GET R (SETKEEP R s k v) k' = GET R s k'"
  "k' \<noteq> k \<Longrightarrow> GET R (DEL R s k) k' = GET R s k'"
  "k' \<noteq> k \<Longrightarrow> GET R (XADD R s k ml e) k' = GET R s k'"
  "k' \<noteq> k \<Longrightarrow> GET R (ZADD R s k sc m) k' = GET R s k'"
  "k' \<noteq> k \<Longrightarrow> GET R (ZREM R s k m) k' = GET R s k'"
  "k' \<noteq> k \<Longrightarrow> GET R (HSET R s k fs) k' = GET R s k'"
  "GET R (EXPIRE R s k t) k' = GET R s k'"
  using frames [of k' k] frame_expire [of s k t k'] by (simp_all add: view_def)

lemma zscore_frame:
  "k' \<noteq> k \<Longrightarrow> ZSCORE R (SET R s k v) k' = ZSCORE R s k'"
  "k' \<noteq> k \<Longrightarrow> ZSCORE R (SETEX R s k v t) k' = ZSCORE R s k'"
  "k' \<noteq> k \<Longrightarrow> ZSCORE R (SETKEEP R s k v) k' = ZSCORE R s k'"
  "k' \<noteq> k \<Longrightarrow> ZSCORE R (ZADD R s k sc m) k' = ZSCORE R s k'"
  "k' \<noteq> k \<Longrightarrow> ZSCORE R (ZREM R s k m) k' = ZSCORE R s k'"
  "k' \<noteq> k \<Longrightarrow> ZSCORE R (HSET R s k fs) k' = ZSCORE R s k'"
  using frames [of k' k] by (simp_all add: view_def)

lemma xall_frame:
  "k' \<noteq> k \<Longrightarrow> XALL R (SET R s k v) k' = XALL R s k'"
  "k' \<noteq> k \<Longrightarrow> XALL R (SETEX R s k v t) k' = XALL R s k'"
  "k' \<noteq> k \<Longrightarrow> XALL R (XADD R s k ml e) k' = XALL R s k'"
  using frames [of k' k] by (simp_all add: view_def)

lemmas redis_reads = get_set get_setex get_setkeep get_del get_frame zscore_zadd zscore_zrem
  zscore_frame xall_frame

lemma view_set_all: "k \<notin> fst ` set kv \<Longrightarrow> view R (set_all R kv s) k = view R s k"
  by (induction kv arbitrary: s) (auto simp: set_all_def frame_set)

lemma get_set_all:
  "distinct (map fst kv) \<Longrightarrow> GET R (set_all R kv s) k = (case map_of kv k of Some v \<Rightarrow> Some v | None \<Rightarrow> GET R s k)"
proof (induction kv arbitrary: s)
  case Nil
  then show ?case by (simp add: set_all_def)
next
  case (Cons x kv)
  obtain a b where x: "x = (a, b)" by (cases x)
  have "set_all R (x # kv) s = set_all R kv (SET R s a b)" by (simp add: set_all_def x)
  moreover have "map_of kv a = None" using Cons.prems x by (simp add: map_of_eq_None_iff)
  moreover have "GET R (set_all R kv (SET R s a b)) k
      = (case map_of kv k of Some v \<Rightarrow> Some v | None \<Rightarrow> GET R (SET R s a b) k)"
    using Cons by simp
  ultimately show ?case by (cases "k = a") (simp_all add: x redis_reads split: option.split)
qed

lemma view_xadd_all: "k' \<noteq> k \<Longrightarrow> view R (xadd_all R k ml es s) k' = view R s k'"
  by (induction es arbitrary: s) (auto simp: xadd_all_def frame_xadd)

lemma get_xadd_all: "k' \<noteq> k \<Longrightarrow> GET R (xadd_all R k ml es s) k' = GET R s k'"
  using view_xadd_all [of k' k ml es s] by (simp add: view_def)

lemma get_set_all_other: "k \<notin> fst ` set kv \<Longrightarrow> GET R (set_all R kv s) k = GET R s k"
  using view_set_all [of k kv s] by (simp add: view_def)

lemma xall_set_all: "k \<notin> fst ` set kv \<Longrightarrow> XALL R (set_all R kv s) k = XALL R s k"
  using view_set_all [of k kv s] by (simp add: view_def)

text \<open>Appending a batch to a stream: as long as the batch fits the trim bound, it is the tail
  of the stream afterwards, in order.\<close>

lemma xall_xadd_all:
  assumes "ml \<le> 0 \<or> int (length es) \<le> ml"
  shows "\<exists>n is. length is = length es \<and>
           XALL R (xadd_all R k ml es s) k = drop n (XALL R s k) @ zip is es"
  using assms
proof (induction es rule: rev_induct)
  case Nil
  show ?case by (rule exI [of _ 0], rule exI [of _ "[]"]) (simp add: xadd_all_def)
next
  case (snoc e es)
  let ?s = "xadd_all R k ml es s"
  have "ml \<le> 0 \<or> int (length es) \<le> ml" using snoc.prems by auto
  then obtain n "is" where IH: "length is = length es"
    "XALL R ?s k = drop n (XALL R s k) @ zip is es" using snoc.IH by blast
  have step: "xadd_all R k ml (es @ [e]) s = XADD R ?s k ml e" by (simp add: xadd_all_def)
  obtain m i where m: "XALL R (XADD R ?s k ml e) k = drop m (XALL R ?s k) @ [(i, e)]"
    "m = 0 \<or> 0 < ml \<and> ml \<le> int (length (XALL R ?s k) - m) + 1" "m \<le> length (XALL R ?s k)"
    using xall_xadd [of ?s k ml e] by blast
  have short: "m \<le> length (drop n (XALL R s k))"
    using m(2,3) IH snoc.prems by auto
  have "XALL R (XADD R ?s k ml e) k = drop (m + n) (XALL R s k) @ zip (is @ [i]) (es @ [e])"
    using m(1) IH short by (simp add: add.commute)
  then show ?case using step IH(1) by (metis length_append_singleton)
qed

end

section \<open>A server in memory\<close>

record mem =
  strs :: "string \<Rightarrow> bytes option"
  streams :: "string \<Rightarrow> (string \<times> bytes) list"
  zsets :: "string \<Rightarrow> (bytes \<times> int) list"
  hashes :: "string \<Rightarrow> (string \<times> bytes) list"
  sets :: "string \<Rightarrow> bytes list"
  lists :: "string \<Rightarrow> bytes list"

definition mem_empty :: mem where
  "mem_empty = \<lparr>strs = (\<lambda>_. None), streams = (\<lambda>_. []), zsets = (\<lambda>_. []), hashes = (\<lambda>_. []), sets = (\<lambda>_. []), lists = (\<lambda>_. [])\<rparr>"

definition mem_put :: "mem \<Rightarrow> string \<Rightarrow> bytes \<Rightarrow> mem" where
  "mem_put s k v = s\<lparr>strs := (strs s)(k := Some v)\<rparr>"

definition hash_set :: "(string \<times> bytes) list \<Rightarrow> (string \<times> bytes) list \<Rightarrow> (string \<times> bytes) list" where
  "hash_set fs h = fold (\<lambda>(f, v) h. AList.update f v h) fs h"

definition mem_redis :: "mem redis" where
  "mem_redis = \<lparr>GET = strs, SET = mem_put, SETEX = (\<lambda>s k v t. mem_put s k v), SETKEEP = mem_put,
     DEL = (\<lambda>s k. s\<lparr>strs := (strs s)(k := None), streams := (streams s)(k := []),
                    zsets := (zsets s)(k := []), hashes := (hashes s)(k := []),
                    sets := (sets s)(k := []), lists := (lists s)(k := [])\<rparr>),
     XADD = (\<lambda>s k ml e. s\<lparr>streams := (streams s)(k := streams s k @ [(show_nat (length (streams s k)), e)])\<rparr>),
     XALL = streams,
     ZADD = (\<lambda>s k sc m. s\<lparr>zsets := (zsets s)(k := AList.update m sc (AList.clearjunk (zsets s k)))\<rparr>),
     ZREM = (\<lambda>s k m. s\<lparr>zsets := (zsets s)(k := AList.delete m (zsets s k))\<rparr>),
     ZSCORE = (\<lambda>s k. map_of (zsets s k)),
     ZRANGE = (\<lambda>s k mx n. take n (map fst (filter (\<lambda>(m, sc). 0 \<le> sc \<and> sc \<le> mx)
        (sort_key snd (AList.clearjunk (zsets s k)))))),
     HSET = (\<lambda>s k fs. s\<lparr>hashes := (hashes s)(k := hash_set fs (hashes s k))\<rparr>),
     HGET = (\<lambda>s k. map_of (hashes s k)),
     EXPIRE = (\<lambda>s k t. s),
     ZREVALL = (\<lambda>s k. rev (sort_key snd (AList.clearjunk (zsets s k)))),
     HDEL = (\<lambda>s k f. s\<lparr>hashes := (hashes s)(k := AList.delete f (hashes s k))\<rparr>),
     HALL = (\<lambda>s k. AList.clearjunk (hashes s k)),
     SADD = (\<lambda>s k m. s\<lparr>sets := (sets s)(k := m # sets s k)\<rparr>),
     SREM = (\<lambda>s k m. s\<lparr>sets := (sets s)(k := removeAll m (sets s k))\<rparr>),
     SMEMBERS = (\<lambda>s k. remdups (sets s k)),
     RPUSH = (\<lambda>s k m. s\<lparr>lists := (lists s)(k := lists s k @ [m])\<rparr>),
     LALL = lists,
     LDROP = (\<lambda>s k n. s\<lparr>lists := (lists s)(k := drop n (lists s k))\<rparr>)\<rparr>"

lemma mem_redis_simps [simp]:
  "GET mem_redis = strs" "SET mem_redis = mem_put" "SETEX mem_redis = (\<lambda>s k v t. mem_put s k v)"
  "SETKEEP mem_redis = mem_put" "XALL mem_redis = streams" "ZSCORE mem_redis = (\<lambda>s k. map_of (zsets s k))" "HGET mem_redis = (\<lambda>s k. map_of (hashes s k))"
  by (simp_all add: mem_redis_def)

lemma clearjunk_mem: "(m, sc) \<in> set (AList.clearjunk al) \<longleftrightarrow> map_of al m = Some sc"
  by (metis distinct_clearjunk map_of_clearjunk map_of_eq_Some_iff)

lemma map_of_hash_set: "map_of (hash_set fs h) = map_of h ++ map_of (rev fs)"
proof (induction fs arbitrary: h)
  case (Cons x fs)
  have "map_of (hash_set (x # fs) h) = map_of (hash_set fs (AList.update (fst x) (snd x) h))"
    by (simp add: hash_set_def split: prod.splits)
  also have "\<dots> = (map_of h)(fst x \<mapsto> snd x) ++ map_of (rev fs)" by (simp add: Cons.IH update_conv' fun_upd_def)
  finally show ?case by (cases x) (simp add: map_add_def fun_eq_iff split: option.splits)
qed (simp add: hash_set_def)

lemma mem_zrange:
  fixes s :: mem and mx :: int and k :: string
  defines "xs \<equiv> filter (\<lambda>(m, sc). 0 \<le> sc \<and> sc \<le> mx) (sort_key snd (AList.clearjunk (zsets s k)))"
  shows "m \<in> set (take n (map fst xs)) \<Longrightarrow> \<exists>sc. map_of (zsets s k) m = Some sc \<and> 0 \<le> sc \<and> sc \<le> mx"
    and "length (take n (map fst xs)) < n \<Longrightarrow> map_of (zsets s k) m = Some sc \<Longrightarrow> 0 \<le> sc \<Longrightarrow> sc \<le> mx \<Longrightarrow>
      m \<in> set (take n (map fst xs))"
proof -
  have xs: "set xs = {(m, sc). map_of (zsets s k) m = Some sc \<and> 0 \<le> sc \<and> sc \<le> mx}"
    by (auto simp: xs_def clearjunk_mem)
  show "m \<in> set (take n (map fst xs)) \<Longrightarrow> \<exists>sc. map_of (zsets s k) m = Some sc \<and> 0 \<le> sc \<and> sc \<le> mx"
    using xs by (auto dest!: in_set_takeD)
  assume "length (take n (map fst xs)) < n" "map_of (zsets s k) m = Some sc" "0 \<le> sc" "sc \<le> mx"
  then show "m \<in> set (take n (map fst xs))" using xs by (auto simp: image_iff intro!: bexI [of _ "(m, sc)"])
qed

interpretation mem_server: redis_api mem_redis
proof unfold_locales
  show "ZSCORE mem_redis (ZADD mem_redis s k sc m) k = (ZSCORE mem_redis s k)(m \<mapsto> sc)" for s k sc m
    by (simp add: mem_redis_def update_conv' map_of_clearjunk del: mem_redis_simps)
  show "ZSCORE mem_redis (ZREM mem_redis s k m) k = (ZSCORE mem_redis s k)(m := None)" for s k m
    by (simp add: mem_redis_def delete_conv' fun_upd_def del: mem_redis_simps)
  show "m \<in> set (ZRANGE mem_redis s k mx n) \<Longrightarrow> \<exists>sc. ZSCORE mem_redis s k m = Some sc \<and> 0 \<le> sc \<and> sc \<le> mx" for m s k mx n
    using mem_zrange(1) [of m n mx s k] by (simp add: mem_redis_def del: mem_redis_simps)
  show "length (ZRANGE mem_redis s k mx n) < n \<Longrightarrow> ZSCORE mem_redis s k m = Some sc \<Longrightarrow> 0 \<le> sc \<Longrightarrow> sc \<le> mx \<Longrightarrow>
      m \<in> set (ZRANGE mem_redis s k mx n)" for s k mx n m sc
    using mem_zrange(2) [of n mx s k m sc] by (simp add: mem_redis_def del: mem_redis_simps)
  show "HGET mem_redis (HSET mem_redis s k fs) k = HGET mem_redis s k ++ map_of (rev fs)" for s k fs
    by (simp add: mem_redis_def map_of_hash_set del: mem_redis_simps)
  have d: "distinct (map fst (rev (sort_key snd (AList.clearjunk (zsets s k)))))" for s :: mem and k
    using distinct_clearjunk [of "zsets s k"]
    by (simp add: distinct_map)
  then show "distinct (map fst (ZREVALL mem_redis s k))" for s k
    by (simp add: mem_redis_def del: mem_redis_simps)
  have "map_of (rev (sort_key snd (AList.clearjunk (zsets s k)))) = map_of (AList.clearjunk (zsets s k))" for s :: mem and k
    by (rule map_of_inject_set [THEN iffD2]) (use d [of s k] distinct_clearjunk in auto)
  then show "map_of (ZREVALL mem_redis s k) = ZSCORE mem_redis s k" for s k
    by (simp add: mem_redis_def map_of_clearjunk del: mem_redis_simps)
  show "sorted_wrt (\<lambda>x y. snd y \<le> snd x) (ZREVALL mem_redis s k)" for s k
    using sorted_sort_key [of snd "AList.clearjunk (zsets s k)"]
    by (simp add: mem_redis_def sorted_wrt_rev sorted_map del: mem_redis_simps)
qed (auto simp: mem_redis_def view_def mem_put_def map_of_clearjunk distinct_clearjunk delete_conv' fun_upd_def simp del: mem_redis_simps intro: exI [of _ "0::nat"])

section \<open>Calls over the network\<close>

datatype net = Delivered | RequestLost | ReplyLost

definition run :: "net \<Rightarrow> ('r \<Rightarrow> 'r \<times> 'a option) \<Rightarrow> 'r \<Rightarrow> 'r \<times> 'a result" where
  "run n f s =
     (case n of
        RequestLost \<Rightarrow> (s, Inl ErrRedis)
      | ReplyLost \<Rightarrow> (fst (f s), Inl ErrRedis)
      | Delivered \<Rightarrow> (case snd (f s) of None \<Rightarrow> (fst (f s), Inl ErrRedis) | Some a \<Rightarrow> (fst (f s), Inr a)))"

lemma run_Inr: "run n f s = (s', Inr a) \<longleftrightarrow> n = Delivered \<and> f s = (s', Some a)"
  by (cases n; cases "f s") (auto simp: run_def split: option.splits)

lemma run_state: "fst (run n f s) = (if n = RequestLost then s else fst (f s))"
  by (cases n) (auto simp: run_def split: option.splits)

end
