(* ===== verification/Fencing.thy ===== *)
theory Fencing
  imports Redis_Api Store_Keys
begin

text \<open>
  Epoch fencing and the atomic commit, \<^verbatim>\<open>pkg/store/fencing.go\<close>. The six Lua scripts are
  translated with their \<open>KEYS\<close> and \<open>ARGV\<close> arrays and their one-based index arithmetic; a Lua
  runtime error is \<open>None\<close>. The Go methods of \<open>Fencer\<close> build those arrays and decode the
  replies. A Go map argument is an association list: its order is the order in which the
  \<open>range\<close> loop happens to visit it, and every property holds for every order.

  Shown here: a raised epoch is never lowered, a caller with an older epoch changes nothing,
  a commit is all-or-nothing whatever the network does, and a repeated commit returns the
  first result and changes nothing.
\<close>

section \<open>Lua helpers\<close>

text \<open>\<open>tonumber(redis.call('GET', key) or '0')\<close>\<close>

definition num_or0 :: "'r redis \<Rightarrow> 'r \<Rightarrow> string \<Rightarrow> int option" where
  "num_or0 R s k = (case GET R s k of None \<Rightarrow> tonumber ''0'' | Some v \<Rightarrow> tonumber v)"

text \<open>\<open>tonumber(redis.call('GET', KEYS[1]) or '0') > tonumber(ARGV[1])\<close>; comparing \<open>nil\<close> is a
  runtime error.\<close>

definition epoch_stale :: "'r redis \<Rightarrow> 'r \<Rightarrow> string list \<Rightarrow> string list \<Rightarrow> bool option" where
  "epoch_stale R s K A =
     (case (lua_nth K 1, lua_nth A 1) of
        (Some k, Some a) \<Rightarrow>
          (case (num_or0 R s k, tonumber a) of (Some c, Some e) \<Rightarrow> Some (c > e) | _ \<Rightarrow> None)
      | _ \<Rightarrow> None)"

text \<open>\<open>for i = \<dots>, #KEYS do redis.call('SET', KEYS[i], ARGV[f(i)]) end\<close>\<close>

fun set_loop :: "'r redis \<Rightarrow> string list \<Rightarrow> bytes list \<Rightarrow> (nat \<Rightarrow> nat) \<Rightarrow> nat list \<Rightarrow> 'r \<Rightarrow> 'r \<times> bool" where
  "set_loop R K A f [] s = (s, True)"
| "set_loop R K A f (i # is) s =
     (case (lua_nth K i, lua_nth A (f i)) of
        (Some k, Some v) \<Rightarrow> set_loop R K A f is (SET R s k v)
      | _ \<Rightarrow> (s, False))"

fun del_loop :: "'r redis \<Rightarrow> string list \<Rightarrow> nat list \<Rightarrow> 'r \<Rightarrow> 'r \<times> bool" where
  "del_loop R K [] s = (s, True)"
| "del_loop R K (i # is) s =
     (case lua_nth K i of Some k \<Rightarrow> del_loop R K is (DEL R s k) | None \<Rightarrow> (s, False))"

text \<open>\<open>for i = 1, n do redis.call('XADD', key, \<dots>, 'd', ARGV[5 + i]) end\<close>\<close>

fun xadd_loop :: "'r redis \<Rightarrow> string \<Rightarrow> int \<Rightarrow> bytes list \<Rightarrow> nat list \<Rightarrow> 'r \<Rightarrow> 'r \<times> bool" where
  "xadd_loop R k ml A [] s = (s, True)"
| "xadd_loop R k ml A (i # is) s =
     (case lua_nth A (5 + i) of
        Some e \<Rightarrow> xadd_loop R k ml A is (XADD R s k (if ml > 0 then ml else 0) e)
      | None \<Rightarrow> (s, False))"

fun pair_up :: "'a list \<Rightarrow> ('a \<times> 'a) list option" where
  "pair_up [] = Some []"
| "pair_up [x] = None"
| "pair_up (x # y # zs) = map_option (\<lambda>ps. (x, y) # ps) (pair_up zs)"

section \<open>The scripts\<close>

definition scriptRaiseEpoch :: "'r redis \<Rightarrow> string list \<Rightarrow> string list \<Rightarrow> 'r \<Rightarrow> 'r \<times> (int \<times> int) option" where
  "scriptRaiseEpoch R K A s =
     (case (lua_nth K 1, lua_nth A 1) of
        (Some k, Some a) \<Rightarrow>
          (case (num_or0 R s k, tonumber a) of
             (Some cur, Some new) \<Rightarrow>
               (if cur \<ge> new then (s, Some (0, cur)) else (SET R s k (show_int new), Some (1, new)))
           | _ \<Rightarrow> (s, None))
      | _ \<Rightarrow> (s, None))"

definition scriptWriteModules :: "'r redis \<Rightarrow> string list \<Rightarrow> bytes list \<Rightarrow> 'r \<Rightarrow> 'r \<times> int option" where
  "scriptWriteModules R K A s =
     (case epoch_stale R s K A of
        None \<Rightarrow> (s, None)
      | Some True \<Rightarrow> (s, Some 0)
      | Some False \<Rightarrow>
          (case set_loop R K A (\<lambda>i. i) [2..<Suc (length K)] s of
             (s', True) \<Rightarrow> (s', Some 1)
           | (s', False) \<Rightarrow> (s', None)))"

definition scriptWriteHash :: "'r redis \<Rightarrow> string list \<Rightarrow> bytes list \<Rightarrow> 'r \<Rightarrow> 'r \<times> int option" where
  "scriptWriteHash R K A s =
     (case epoch_stale R s K A of
        None \<Rightarrow> (s, None)
      | Some True \<Rightarrow> (s, Some 0)
      | Some False \<Rightarrow>
          (case (lua_nth K 2, Option.bind (lua_nth A 2) tonumber) of
             (Some k, Some ttl) \<Rightarrow>
               (case pair_up (drop 2 A) of
                  None \<Rightarrow> (s, None)
                | Some fs \<Rightarrow>
                    (let s1 = (if length (drop 2 A) > 0 then HSET R s k fs else s);
                         s2 = (if ttl > 0 then EXPIRE R s1 k ttl else s1)
                     in (s2, Some 1)))
           | _ \<Rightarrow> (s, None)))"

definition scriptWriteThrough :: "'r redis \<Rightarrow> string list \<Rightarrow> bytes list \<Rightarrow> 'r \<Rightarrow> 'r \<times> (int \<times> bytes) option" where
  "scriptWriteThrough R K A s =
     (case lua_nth K 2 of
        None \<Rightarrow> (s, None)
      | Some ok \<Rightarrow>
          (case GET R s ok of
             Some existing \<Rightarrow> (s, Some (2, existing))
           | None \<Rightarrow>
               (case epoch_stale R s K A of
                  None \<Rightarrow> (s, None)
                | Some True \<Rightarrow> (s, Some (0, []))
                | Some False \<Rightarrow>
                    (case (Option.bind (lua_nth A 2) tonumber, lua_nth A 3) of
                       (Some ttl, Some payload) \<Rightarrow>
                         (let s1 = (if ttl > 0 then SETEX R s ok payload ttl else SET R s ok payload)
                          in case set_loop R K A (\<lambda>i. i + 1) [3..<Suc (length K)] s1 of
                               (s2, True) \<Rightarrow> (s2, Some (1, payload))
                             | (s2, False) \<Rightarrow> (s2, None))
                     | _ \<Rightarrow> (s, None)))))"

definition scriptDeleteKeys :: "'r redis \<Rightarrow> string list \<Rightarrow> bytes list \<Rightarrow> 'r \<Rightarrow> 'r \<times> int option" where
  "scriptDeleteKeys R K A s =
     (case epoch_stale R s K A of
        None \<Rightarrow> (s, None)
      | Some True \<Rightarrow> (s, Some 0)
      | Some False \<Rightarrow>
          (case del_loop R K [2..<Suc (length K)] s of
             (s', True) \<Rightarrow> (s', Some 1)
           | (s', False) \<Rightarrow> (s', None)))"

definition scriptCommit :: "'r redis \<Rightarrow> string list \<Rightarrow> bytes list \<Rightarrow> 'r \<Rightarrow> 'r \<times> (int \<times> bytes) option" where
  "scriptCommit R K A s =
     (case (lua_nth K 2, lua_nth K 3, Option.bind (lua_nth A 2) tonumber, lua_nth A 3,
            Option.bind (lua_nth A 4) tonumber, Option.bind (lua_nth A 5) tonumber) of
        (Some ik, Some lk, Some ttl, Some payload, Some maxlen, Some n) \<Rightarrow>
          (let useIdem = ttl > 0 in
           case (if useIdem then GET R s ik else None) of
             Some existing \<Rightarrow> (s, Some (2, existing))
           | None \<Rightarrow>
               (case epoch_stale R s K A of
                  None \<Rightarrow> (s, None)
                | Some True \<Rightarrow> (s, Some (0, []))
                | Some False \<Rightarrow>
                    (let s1 = (if useIdem then SETEX R s ik payload ttl else s) in
                     case xadd_loop R lk maxlen A [1..<Suc (nat n)] s1 of
                       (s2, False) \<Rightarrow> (s2, None)
                     | (s2, True) \<Rightarrow>
                         (case set_loop R K A (\<lambda>i. 2 + nat n + i) [4..<Suc (length K)] s2 of
                            (s3, True) \<Rightarrow> (s3, Some (1, payload))
                          | (s3, False) \<Rightarrow> (s3, None)))))
      | _ \<Rightarrow> (s, None))"

section \<open>Fencer\<close>

definition RaiseEpoch :: "'r redis \<Rightarrow> keys \<Rightarrow> net \<Rightarrow> nat \<Rightarrow> int \<Rightarrow> 'r \<Rightarrow> 'r \<times> unit result" where
  "RaiseEpoch R ks n shard epoch s =
     (case run n (scriptRaiseEpoch R [keys_Epoch ks shard] [show_int epoch]) s of
        (s', Inl e) \<Rightarrow> (s', Inl e)
      | (s', Inr (ok, cur)) \<Rightarrow> (s', if ok = 0 then Inl ErrFenced else Inr ()))"

definition CurrentEpoch :: "'r redis \<Rightarrow> keys \<Rightarrow> nat \<Rightarrow> 'r \<Rightarrow> int option" where
  "CurrentEpoch R ks shard s =
     (case GET R s (keys_Epoch ks shard) of None \<Rightarrow> Some 0 | Some v \<Rightarrow> tonumber v)"

definition fenced_reply :: "'r \<times> int result \<Rightarrow> 'r \<times> unit result" where
  "fenced_reply p =
     (case p of (s, Inl e) \<Rightarrow> (s, Inl e) | (s, Inr c) \<Rightarrow> (s, if c = 0 then Inl ErrFenced else Inr ()))"

definition WriteModules :: "'r redis \<Rightarrow> keys \<Rightarrow> net \<Rightarrow> nat \<Rightarrow> int \<Rightarrow> (string \<times> bytes) list \<Rightarrow> 'r \<Rightarrow> 'r \<times> unit result" where
  "WriteModules R ks n shard epoch kv s =
     (if kv = [] then (s, Inr ())
      else fenced_reply (run n (scriptWriteModules R
             (keys_Epoch ks shard # map fst kv) (show_int epoch # map snd kv)) s))"

definition WriteHash :: "'r redis \<Rightarrow> keys \<Rightarrow> net \<Rightarrow> nat \<Rightarrow> int \<Rightarrow> string \<Rightarrow> int \<Rightarrow> bytes list \<Rightarrow> 'r \<Rightarrow> 'r \<times> unit result" where
  "WriteHash R ks n shard epoch key ttlSec flds s =
     (if flds = [] then (s, Inr ())
      else fenced_reply (run n (scriptWriteHash R
             [keys_Epoch ks shard, key] ([show_int epoch, show_int ttlSec] @ flds)) s))"

record write_result =
  Duplicate :: bool
  Payload :: bytes

definition through_reply :: "'r \<times> (int \<times> bytes) result \<Rightarrow> 'r \<times> write_result result" where
  "through_reply p =
     (case p of
        (s, Inl e) \<Rightarrow> (s, Inl e)
      | (s, Inr (code, out)) \<Rightarrow>
          (s, if code = 1 then Inr \<lparr>Duplicate = False, Payload = out\<rparr>
              else if code = 2 then Inr \<lparr>Duplicate = True, Payload = out\<rparr>
              else Inl ErrFenced))"

definition WriteThrough :: "'r redis \<Rightarrow> keys \<Rightarrow> net \<Rightarrow> nat \<Rightarrow> int \<Rightarrow> string \<Rightarrow> int \<Rightarrow> bytes \<Rightarrow>
    (string \<times> bytes) list \<Rightarrow> 'r \<Rightarrow> 'r \<times> write_result result" where
  "WriteThrough R ks n shard epoch orderKey orderTTLSec payload kv s =
     through_reply (run n (scriptWriteThrough R
       ([keys_Epoch ks shard, orderKey] @ map fst kv)
       ([show_int epoch, show_int orderTTLSec, payload] @ map snd kv)) s)"

definition fencer_Delete :: "'r redis \<Rightarrow> keys \<Rightarrow> net \<Rightarrow> nat \<Rightarrow> int \<Rightarrow> string list \<Rightarrow> 'r \<Rightarrow> 'r \<times> unit result" where
  "fencer_Delete R ks n shard epoch dels s =
     (if dels = [] then (s, Inr ())
      else fenced_reply (run n (scriptDeleteKeys R (keys_Epoch ks shard # dels) [show_int epoch]) s))"

definition LoadPlayer :: "'r redis \<Rightarrow> keys \<Rightarrow> net \<Rightarrow> nat \<Rightarrow> 'r \<Rightarrow> (Module \<times> bytes) list result" where
  "LoadPlayer R ks n uid s =
     (if n \<noteq> Delivered then Inl ErrRedis
      else Inr (List.map_filter (\<lambda>m. map_option (\<lambda>b. (m, b)) (GET R s (keys_Player ks uid m))) AllModules))"

record commit_req =
  cr_Shard :: nat
  cr_Epoch :: int
  IdemKey :: string
  IdemTTLSec :: int
  IdemPayload :: bytes
  LedgerKey :: string
  LedgerMaxLen :: int
  Entries :: "bytes list"
  KV :: "(string \<times> bytes) list"

definition Commit :: "'r redis \<Rightarrow> keys \<Rightarrow> net \<Rightarrow> commit_req \<Rightarrow> 'r \<Rightarrow> 'r \<times> write_result result" where
  "Commit R ks n req s =
     (if LedgerKey req = [] \<and> Entries req \<noteq> [] then (s, Inl ErrNoStreamKey)
      else
        let ek = keys_Epoch ks (cr_Shard req);
            ledgerKey = (if LedgerKey req = [] then ek else LedgerKey req);
            idemKey = (if IdemKey req = [] then ek else IdemKey req);
            idemTTL = (if IdemKey req = [] then 0 else IdemTTLSec req)
        in through_reply (run n (scriptCommit R
             ([ek, idemKey, ledgerKey] @ map fst (KV req))
             ([show_int (cr_Epoch req), show_int idemTTL, IdemPayload req, show_int (LedgerMaxLen req),
               show_nat (length (Entries req))] @ Entries req @ map snd (KV req))) s))"

section \<open>The index arithmetic of the scripts\<close>

lemma set_loop_zip:
  assumes "K = pre @ map fst kv" "A = apre @ map snd kv"
    and "\<And>i. f i + length pre = i + length apre"
  shows "set_loop R K A f [Suc (length pre)..<Suc (length K)] s = (set_all R kv s, True)"
  using assms
proof (induction kv arbitrary: pre apre s)
  case Nil
  then show ?case by (simp add: set_all_def)
next
  case (Cons x kv)
  obtain k v where x: "x = (k, v)" by (cases x)
  have f: "f (Suc (length pre)) = Suc (length apre)" using Cons.prems(3) [of "Suc (length pre)"] by simp
  have head: "lua_nth K (Suc (length pre)) = Some k" "lua_nth A (f (Suc (length pre))) = Some v"
    using Cons.prems(1,2) by (simp_all add: lua_nth_def nth_append x f)
  have tail: "set_loop R K A f [Suc (length (pre @ [k]))..<Suc (length K)] (SET R s k v)
      = (set_all R kv (SET R s k v), True)"
    using Cons.prems by (intro Cons.IH [of "pre @ [k]" "apre @ [v]"]) (simp_all add: x)
  have "[Suc (length pre)..<Suc (length K)] = Suc (length pre) # [Suc (length (pre @ [k]))..<Suc (length K)]"
    using Cons.prems(1) by (subst upt_conv_Cons) simp_all
  then show ?case using head tail by (simp add: set_all_def x)
qed

lemma xadd_loop_list:
  assumes "A = apre @ es @ rest" "length apre = 5 + j"
  shows "xadd_loop R k ml A [Suc j..<Suc (j + length es)] s
       = (xadd_all R k (if ml > 0 then ml else 0) es s, True)"
  using assms
proof (induction es arbitrary: apre j s)
  case Nil
  then show ?case by (simp add: xadd_all_def)
next
  case (Cons e es)
  have head: "lua_nth A (5 + Suc j) = Some e"
    using Cons.prems by (simp add: lua_nth_def nth_append)
  have tail: "xadd_loop R k ml A [Suc (Suc j)..<Suc (Suc j + length es)] (XADD R s k (if ml > 0 then ml else 0) e)
      = (xadd_all R k (if ml > 0 then ml else 0) es (XADD R s k (if ml > 0 then ml else 0) e), True)"
    using Cons.prems by (intro Cons.IH [of "apre @ [e]" "Suc j"]) simp_all
  have "[Suc j..<Suc (j + length (e # es))] = Suc j # [Suc (Suc j)..<Suc (Suc j + length es)]"
    by (subst upt_conv_Cons) simp_all
  then show ?case using head tail by (simp add: xadd_all_def)
qed

lemma del_loop_list:
  assumes "K = pre @ ds"
  shows "del_loop R K [Suc (length pre)..<Suc (length K)] s = (fold (\<lambda>k s. DEL R s k) ds s, True)"
  using assms
proof (induction ds arbitrary: pre s)
  case (Cons d ds)
  have head: "lua_nth K (Suc (length pre)) = Some d" using Cons.prems by (simp add: lua_nth_def nth_append)
  have tail: "del_loop R K [Suc (length (pre @ [d]))..<Suc (length K)] (DEL R s d)
      = (fold (\<lambda>k s. DEL R s k) ds (DEL R s d), True)"
    using Cons.prems by (intro Cons.IH) simp
  have "[Suc (length pre)..<Suc (length K)] = Suc (length pre) # [Suc (length (pre @ [d]))..<Suc (length K)]"
    using Cons.prems by (subst upt_conv_Cons) simp_all
  then show ?case using head tail by simp
qed simp

section \<open>What each script does on the arrays the Go code builds\<close>

lemma epoch_stale_Cons: "epoch_stale R s (ek # K) (show_int e # A) = map_option (\<lambda>c. c > e) (num_or0 R s ek)"
  by (simp add: epoch_stale_def split: option.splits)

lemma scriptWriteModules_kv:
  "scriptWriteModules R (ek # map fst kv) (show_int e # map snd kv) s =
     (case num_or0 R s ek of
        None \<Rightarrow> (s, None)
      | Some c \<Rightarrow> if c > e then (s, Some 0) else (set_all R kv s, Some 1))"
proof -
  have "set_loop R (ek # map fst kv) (show_int e # map snd kv) (\<lambda>i. i) [2..<Suc (length (ek # map fst kv))] s
      = (set_all R kv s, True)"
    using set_loop_zip [of "ek # map fst kv" "[ek]" kv "show_int e # map snd kv" "[show_int e]" "\<lambda>i. i" R s]
    by (simp add: numeral_2_eq_2)
  then show ?thesis by (simp add: scriptWriteModules_def epoch_stale_Cons split: option.splits)
qed

lemma scriptWriteThrough_kv:
  "scriptWriteThrough R ([ek, ok] @ map fst kv) ([show_int e, show_int ttl, payload] @ map snd kv) s =
     (case GET R s ok of
        Some x \<Rightarrow> (s, Some (2, x))
      | None \<Rightarrow>
          (case num_or0 R s ek of
             None \<Rightarrow> (s, None)
           | Some c \<Rightarrow>
               if c > e then (s, Some (0, []))
               else (set_all R kv (if ttl > 0 then SETEX R s ok payload ttl else SET R s ok payload),
                     Some (1, payload))))"
proof -
  have "set_loop R ([ek, ok] @ map fst kv) ([show_int e, show_int ttl, payload] @ map snd kv) (\<lambda>i. i + 1)
          [3..<Suc (length ([ek, ok] @ map fst kv))] s' = (set_all R kv s', True)" for s'
    using set_loop_zip [of "[ek, ok] @ map fst kv" "[ek, ok]" kv
        "[show_int e, show_int ttl, payload] @ map snd kv" "[show_int e, show_int ttl, payload]" "\<lambda>i. i + 1" R s']
    by (simp add: numeral_3_eq_3)
  then show ?thesis
    by (simp add: scriptWriteThrough_def epoch_stale_Cons [of R s ek "ok # map fst kv" e] Let_def
        split: option.splits)
qed

lemma scriptDeleteKeys_list:
  "scriptDeleteKeys R (ek # ds) [show_int e] s =
     (case num_or0 R s ek of
        None \<Rightarrow> (s, None)
      | Some c \<Rightarrow> if c > e then (s, Some 0) else (fold (\<lambda>k s. DEL R s k) ds s, Some 1))"
  using del_loop_list [of "ek # ds" "[ek]" ds R s]
  by (simp add: scriptDeleteKeys_def epoch_stale_Cons numeral_2_eq_2 split: option.splits)

definition committed :: "'r redis \<Rightarrow> string \<Rightarrow> string \<Rightarrow> int \<Rightarrow> bytes \<Rightarrow> int \<Rightarrow> bytes list \<Rightarrow>
    (string \<times> bytes) list \<Rightarrow> 'r \<Rightarrow> 'r" where
  "committed R ik lk ttl payload ml es kv s =
     set_all R kv (xadd_all R lk (if ml > 0 then ml else 0) es (if ttl > 0 then SETEX R s ik payload ttl else s))"

lemma scriptCommit_kv:
  "scriptCommit R ([ek, ik, lk] @ map fst kv)
     ([show_int e, show_int ttl, payload, show_int ml, show_nat (length es)] @ es @ map snd kv) s =
     (case (if ttl > 0 then GET R s ik else None) of
        Some x \<Rightarrow> (s, Some (2, x))
      | None \<Rightarrow>
          (case num_or0 R s ek of
             None \<Rightarrow> (s, None)
           | Some c \<Rightarrow>
               if c > e then (s, Some (0, []))
               else (committed R ik lk ttl payload ml es kv s, Some (1, payload))))"
proof -
  let ?K = "[ek, ik, lk] @ map fst kv"
  let ?A = "[show_int e, show_int ttl, payload, show_int ml, show_nat (length es)] @ es @ map snd kv"
  have x: "xadd_loop R lk ml ?A [1..<Suc (nat (int (length es)))] s'
      = (xadd_all R lk (if ml > 0 then ml else 0) es s', True)" for s'
    using xadd_loop_list [of ?A "[show_int e, show_int ttl, payload, show_int ml, show_nat (length es)]" es
        "map snd kv" 0 R lk ml s'] by simp
  have l: "set_loop R ?K ?A (\<lambda>i. 2 + nat (int (length es)) + i) [4..<Suc (length ?K)] s' = (set_all R kv s', True)" for s'
    using set_loop_zip [of ?K "[ek, ik, lk]" kv ?A
        "[show_int e, show_int ttl, payload, show_int ml, show_nat (length es)] @ es" "\<lambda>i. 2 + length es + i" R s']
    by (simp add: numeral_eq_Suc)
  have c: "epoch_stale R s ?K ?A = map_option (\<lambda>c. c > e) (num_or0 R s ek)"
    by (simp add: epoch_stale_Cons)
  have a: "lua_nth ?K 2 = Some ik" "lua_nth ?K 3 = Some lk" "lua_nth ?A 2 = Some (show_int ttl)"
    "lua_nth ?A 3 = Some payload" "lua_nth ?A 4 = Some (show_int ml)" "lua_nth ?A 5 = Some (show_nat (length es))"
    by simp_all
  show ?thesis
    by (cases "if ttl > 0 then GET R s ik else None"; cases "num_or0 R s ek"; cases "the (num_or0 R s ek) > e")
      (simp_all only: scriptCommit_def a c bind.simps tonumber_show tonumber_show_nat Let_def x l prod.case
        option.case bool.case committed_def option.map option.sel simp_thms if_True if_False)
qed

section \<open>Fencer operations as steps\<close>

datatype fop =
    FRaise nat int
  | FWrite nat int "(string \<times> bytes) list"
  | FHash nat int string int "bytes list"
  | FThrough nat int string int bytes "(string \<times> bytes) list"
  | FDelete nat int "string list"
  | FCommit commit_req

fun fexec :: "'r redis \<Rightarrow> keys \<Rightarrow> net \<Rightarrow> fop \<Rightarrow> 'r \<Rightarrow> 'r" where
  "fexec R ks n (FRaise sh e) s = fst (RaiseEpoch R ks n sh e s)"
| "fexec R ks n (FWrite sh e kv) s = fst (WriteModules R ks n sh e kv s)"
| "fexec R ks n (FHash sh e k t fs) s = fst (WriteHash R ks n sh e k t fs s)"
| "fexec R ks n (FThrough sh e ok t p kv) s = fst (WriteThrough R ks n sh e ok t p kv s)"
| "fexec R ks n (FDelete sh e ds) s = fst (fencer_Delete R ks n sh e ds s)"
| "fexec R ks n (FCommit req) s = fst (Commit R ks n req s)"

fun fop_owner :: "fop \<Rightarrow> nat \<times> int" where
  "fop_owner (FRaise sh e) = (sh, e)"
| "fop_owner (FWrite sh e kv) = (sh, e)"
| "fop_owner (FHash sh e k t fs) = (sh, e)"
| "fop_owner (FThrough sh e ok t p kv) = (sh, e)"
| "fop_owner (FDelete sh e ds) = (sh, e)"
| "fop_owner (FCommit req) = (cr_Shard req, cr_Epoch req)"

text \<open>The data keys an operation names. No caller names an epoch key there.\<close>

fun fop_keys :: "fop \<Rightarrow> string set" where
  "fop_keys (FRaise sh e) = {}"
| "fop_keys (FWrite sh e kv) = fst ` set kv"
| "fop_keys (FHash sh e k t fs) = {k}"
| "fop_keys (FThrough sh e ok t p kv) = insert ok (fst ` set kv)"
| "fop_keys (FDelete sh e ds) = set ds"
| "fop_keys (FCommit req) = {IdemKey req, LedgerKey req} \<union> fst ` set (KV req)"

definition data_keys :: "keys \<Rightarrow> string set \<Rightarrow> bool" where
  "data_keys ks X \<longleftrightarrow> X \<inter> range (keys_Epoch ks) = {}"

abbreviation epoch_num :: "'r redis \<Rightarrow> keys \<Rightarrow> 'r \<Rightarrow> nat \<Rightarrow> int option" where
  "epoch_num R ks s sh \<equiv> num_or0 R s (keys_Epoch ks sh)"

text \<open>The state after a delivered script: unchanged for a stale caller, for every operation.\<close>

lemma fst_fenced_reply [simp]: "fst (fenced_reply p) = fst p"
  by (auto simp: fenced_reply_def split: prod.splits sum.splits)

lemma fst_through_reply [simp]: "fst (through_reply p) = fst p"
  by (auto simp: through_reply_def split: prod.splits sum.splits)

lemma fst_RaiseEpoch: "fst (RaiseEpoch R ks n sh e s) = fst (run n (scriptRaiseEpoch R [keys_Epoch ks sh] [show_int e]) s)"
  by (auto simp: RaiseEpoch_def split: prod.splits sum.splits)

lemma scriptRaiseEpoch_eq:
  "scriptRaiseEpoch R [ek] [show_int e] s =
     (case num_or0 R s ek of
        None \<Rightarrow> (s, None)
      | Some cur \<Rightarrow> if cur \<ge> e then (s, Some (0, cur)) else (SET R s ek (show_int e), Some (1, e)))"
  by (simp add: scriptRaiseEpoch_def split: option.splits)

lemma scriptWriteHash_stale:
  "num_or0 R s ek = Some c \<Longrightarrow> e < c \<Longrightarrow> scriptWriteHash R (ek # K) (show_int e # A) s = (s, Some 0)"
  by (simp add: scriptWriteHash_def epoch_stale_Cons)

lemma Commit_eq:
  "Commit R ks n req s =
     (if LedgerKey req = [] \<and> Entries req \<noteq> [] then (s, Inl ErrNoStreamKey)
      else
        let ek = keys_Epoch ks (cr_Shard req);
            lk = (if LedgerKey req = [] then ek else LedgerKey req);
            ik = (if IdemKey req = [] then ek else IdemKey req);
            ttl = (if IdemKey req = [] then 0 else IdemTTLSec req)
        in through_reply (run n (\<lambda>s.
             case (if ttl > 0 then GET R s ik else None) of
               Some x \<Rightarrow> (s, Some (2, x))
             | None \<Rightarrow>
                 (case num_or0 R s ek of
                    None \<Rightarrow> (s, None)
                  | Some c \<Rightarrow>
                      if c > cr_Epoch req then (s, Some (0, []))
                      else (committed R ik lk ttl (IdemPayload req) (LedgerMaxLen req) (Entries req) (KV req) s,
                            Some (1, IdemPayload req)))) s))"
  unfolding Commit_def scriptCommit_kv Let_def ..

lemma stale_no_effect:
  assumes "epoch_num R ks s (fst (fop_owner op)) = Some c" "snd (fop_owner op) < c"
  shows "fexec R ks n op s = s"
proof (cases op)
  case (FRaise sh e)
  with assms show ?thesis by (simp add: fst_RaiseEpoch run_state scriptRaiseEpoch_eq)
next
  case (FWrite sh e kv)
  with assms show ?thesis by (simp add: WriteModules_def run_state scriptWriteModules_kv)
next
  case (FHash sh e k t fs)
  with assms show ?thesis by (simp add: WriteHash_def run_state scriptWriteHash_stale)
next
  case (FThrough sh e ok t p kv)
  with assms show ?thesis
    by (simp add: WriteThrough_def run_state scriptWriteThrough_kv [simplified] split: option.splits)
next
  case (FDelete sh e ds)
  with assms show ?thesis by (simp add: fencer_Delete_def run_state scriptDeleteKeys_list)
next
  case (FCommit req)
  with assms show ?thesis by (auto simp: Commit_eq Let_def run_state split: option.splits)
qed

context redis_api
begin

lemma num_or0_view: "view R s k = view R s' k \<Longrightarrow> num_or0 R s k = num_or0 R s' k"
  by (simp add: num_or0_def view_def)

lemma view_del_all: "k \<notin> set ds \<Longrightarrow> view R (fold (\<lambda>k s. DEL R s k) ds s) k = view R s k"
  by (induction ds arbitrary: s) (auto simp: frame_del)

lemma view_committed:
  "k \<noteq> ik \<or> ttl \<le> 0 \<Longrightarrow> k \<noteq> lk \<or> es = [] \<Longrightarrow> k \<notin> fst ` set kv \<Longrightarrow>
   view R (committed R ik lk ttl p ml es kv s) k = view R s k"
proof -
  assume ik: "k \<noteq> ik \<or> ttl \<le> 0" and lk: "k \<noteq> lk \<or> es = []" and kv: "k \<notin> fst ` set kv"
  have x: "view R (xadd_all R lk m es s') k = view R s' k" for m s'
    using lk view_xadd_all [of k lk m es s'] by (auto simp: xadd_all_def)
  have i: "view R (if ttl > 0 then SETEX R s ik p ttl else s) k = view R s k"
    using ik by (auto simp: frame_setex)
  show ?thesis unfolding committed_def using kv x i by (simp add: view_set_all)
qed

lemma scriptWriteHash_frame:
  "k' \<noteq> k \<Longrightarrow> view R (fst (scriptWriteHash R [ek, k] A s)) k' = view R s k'"
  by (auto simp: scriptWriteHash_def Let_def frame_hset frame_expire split: option.splits bool.splits)

text \<open>An operation never touches an epoch key except by raising it.\<close>

lemma fexec_epoch_frame:
  assumes "data_keys ks (fop_keys op)" "\<And>e. op \<noteq> FRaise sh e"
  shows "view R (fexec R ks n op s) (keys_Epoch ks sh) = view R s (keys_Epoch ks sh)"
proof -
  have nk: "keys_Epoch ks sh \<notin> fop_keys op" using assms(1) by (auto simp: data_keys_def)
  show ?thesis
  proof (cases op)
    case (FRaise sh' e)
    with assms(2) have "keys_Epoch ks sh \<noteq> keys_Epoch ks sh'" by (auto simp: key_eqs)
    with FRaise show ?thesis
      by (auto simp: fst_RaiseEpoch run_state scriptRaiseEpoch_eq frame_set split: option.splits)
  next
    case (FWrite sh' e kv)
    with nk show ?thesis
      by (auto simp: WriteModules_def run_state scriptWriteModules_kv view_set_all split: option.splits)
  next
    case (FHash sh' e k t fs)
    with nk show ?thesis by (auto simp: WriteHash_def run_state scriptWriteHash_frame)
  next
    case (FThrough sh' e ok t p kv)
    with nk show ?thesis
      by (auto simp: WriteThrough_def run_state scriptWriteThrough_kv [simplified] view_set_all frame_set frame_setex
          split: option.splits)
  next
    case (FDelete sh' e ds)
    with nk show ?thesis
      by (auto simp: fencer_Delete_def run_state scriptDeleteKeys_list view_del_all split: option.splits)
  next
    case (FCommit req)
    with nk show ?thesis
      by (auto simp: Commit_eq Let_def run_state intro!: view_committed split: option.splits)
  qed
qed

lemma fexec_epoch_mono:
  assumes "data_keys ks (fop_keys op)" "epoch_num R ks s sh = Some c"
  shows "\<exists>c' \<ge> c. epoch_num R ks (fexec R ks n op s) sh = Some c'"
proof (cases "\<exists>e. op = FRaise sh e")
  case True
  then obtain e where "op = FRaise sh e" by blast
  with assms(2) show ?thesis
    by (auto simp: fst_RaiseEpoch run_state scriptRaiseEpoch_eq num_or0_def redis_reads split: option.splits)
next
  case False
  then have "view R (fexec R ks n op s) (keys_Epoch ks sh) = view R s (keys_Epoch ks sh)"
    using fexec_epoch_frame [OF assms(1)] by blast
  with assms(2) show ?thesis using num_or0_view by (metis order_refl)
qed

end

text \<open>Everything that may happen to the server between two moments: fencer operations of any
  process with any network outcome, and writes of other components, which do not name epoch
  keys.\<close>

inductive server_runs :: "'r redis \<Rightarrow> keys \<Rightarrow> 'r \<Rightarrow> 'r \<Rightarrow> bool" for R ks where
  runs_refl: "server_runs R ks s s"
| runs_op: "server_runs R ks s s' \<Longrightarrow> data_keys ks (fop_keys op) \<Longrightarrow>
     server_runs R ks s (fexec R ks n op s')"
| runs_other: "server_runs R ks s s' \<Longrightarrow>
     \<forall>sh. view R s'' (keys_Epoch ks sh) = view R s' (keys_Epoch ks sh) \<Longrightarrow> server_runs R ks s s''"

context redis_api
begin

lemma server_runs_epoch_mono:
  "server_runs R ks s s' \<Longrightarrow> epoch_num R ks s sh = Some c \<Longrightarrow> \<exists>c' \<ge> c. epoch_num R ks s' sh = Some c'"
proof (induction rule: server_runs.induct)
  case (runs_op s s' op n)
  then show ?case using fexec_epoch_mono by (metis order_trans)
next
  case (runs_other s s' s'')
  then show ?case using num_or0_view by metis
qed auto

lemma raised_epoch:
  assumes "RaiseEpoch R ks n sh e s = (s1, Inr ())"
  shows "epoch_num R ks s1 sh = Some e"
proof -
  from assms obtain k c where r: "run n (scriptRaiseEpoch R [keys_Epoch ks sh] [show_int e]) s = (s1, Inr (k, c))"
    and k: "k \<noteq> 0"
    by (auto simp: RaiseEpoch_def split: prod.splits sum.splits if_splits)
  then have "scriptRaiseEpoch R [keys_Epoch ks sh] [show_int e] s = (s1, Some (k, c))"
    by (simp add: run_Inr)
  with k show ?thesis
    by (auto simp: scriptRaiseEpoch_eq num_or0_def redis_reads split: option.splits if_splits)
qed

end

section \<open>The commit\<close>

text \<open>The keys of a commit are pairwise different and none of them is the epoch key.\<close>

definition commit_keys_ok :: "keys \<Rightarrow> commit_req \<Rightarrow> bool" where
  "commit_keys_ok ks req \<longleftrightarrow>
     distinct (map fst (KV req)) \<and> IdemKey req \<noteq> LedgerKey req \<and>
     IdemKey req \<notin> fst ` set (KV req) \<and> LedgerKey req \<notin> fst ` set (KV req) \<and>
     data_keys ks (fop_keys (FCommit req))"

text \<open>A commit that was carried out: the idempotency key, the ledger and all data at once.\<close>

definition commit_applied :: "'r redis \<Rightarrow> commit_req \<Rightarrow> 'r \<Rightarrow> 'r \<Rightarrow> bool" where
  "commit_applied R req s s' \<longleftrightarrow>
     (\<forall>(k, v) \<in> set (KV req). GET R s' k = Some v) \<and>
     (IdemKey req \<noteq> [] \<and> IdemTTLSec req > 0 \<longrightarrow> GET R s' (IdemKey req) = Some (IdemPayload req)) \<and>
     (\<exists>n is. length is = length (Entries req) \<and>
        XALL R s' (LedgerKey req) = drop n (XALL R s (LedgerKey req)) @ zip is (Entries req)) \<and>
     (\<forall>k. k \<notin> fop_keys (FCommit req) \<longrightarrow> view R s' k = view R s k)"

context redis_api
begin

lemma committed_applied:
  assumes ok: "commit_keys_ok ks req" and ml: "LedgerMaxLen req \<le> 0 \<or> int (length (Entries req)) \<le> LedgerMaxLen req"
    and led: "LedgerKey req \<noteq> [] \<or> Entries req = []"
  shows "commit_applied R req s
    (committed R (if IdemKey req = [] then ek else IdemKey req) (if LedgerKey req = [] then ek else LedgerKey req)
      (if IdemKey req = [] then 0 else IdemTTLSec req) (IdemPayload req) (LedgerMaxLen req) (Entries req) (KV req) s)"
    (is "commit_applied R req s (committed R ?ik ?lk ?ttl _ _ _ _ _)")
proof -
  define s1 where "s1 = (if ?ttl > 0 then SETEX R s ?ik (IdemPayload req) ?ttl else s)"
  define s2 where "s2 = xadd_all R ?lk (if LedgerMaxLen req > 0 then LedgerMaxLen req else 0) (Entries req) s1"
  define s3 where "s3 = set_all R (KV req) s2"
  note ok = ok [unfolded commit_keys_ok_def]
  have kv: "GET R s3 k = Some v" if "(k, v) \<in> set (KV req)" for k v
    using ok that by (simp add: s3_def get_set_all)
  have idem: "GET R s3 (IdemKey req) = Some (IdemPayload req)" if "IdemKey req \<noteq> []" "IdemTTLSec req > 0"
  proof -
    have "GET R s2 (IdemKey req) = GET R s1 (IdemKey req)"
      using ok led by (cases "Entries req = []") (auto simp: s2_def xadd_all_def get_xadd_all [unfolded xadd_all_def])
    then show ?thesis using ok that by (simp add: s3_def get_set_all_other s1_def redis_reads)
  qed
  have x1: "XALL R s1 (LedgerKey req) = XALL R s (LedgerKey req)"
    using ok by (auto simp: s1_def xall_frame)
  obtain n "is" where x: "length is = length (Entries req)"
    "XALL R s3 (LedgerKey req) = drop n (XALL R s (LedgerKey req)) @ zip is (Entries req)"
  proof (cases "LedgerKey req = []")
    case True
    with led have "s2 = s1" by (simp add: s2_def xadd_all_def)
    then show ?thesis using that [of "[]" 0] led True ok x1 by (simp add: s3_def xall_set_all)
  next
    case False
    have m: "(if LedgerMaxLen req > 0 then LedgerMaxLen req else 0) \<le> 0
        \<or> int (length (Entries req)) \<le> (if LedgerMaxLen req > 0 then LedgerMaxLen req else 0)"
      using ml by auto
    obtain n "is" where "length is = length (Entries req)"
      "XALL R s2 (LedgerKey req) = drop n (XALL R s1 (LedgerKey req)) @ zip is (Entries req)"
      using xall_xadd_all [OF m, of "LedgerKey req" s1] False unfolding s2_def by auto
    then show ?thesis using that ok x1 by (simp add: s3_def xall_set_all)
  qed
  have frame: "view R s3 k = view R s k" if "k \<notin> fop_keys (FCommit req)" for k
  proof -
    have "view R s3 k = view R s2 k" using that by (simp add: s3_def view_set_all)
    also have "view R s2 k = view R s1 k"
      using that led by (cases "Entries req = []") (auto simp: s2_def view_xadd_all [unfolded xadd_all_def] xadd_all_def)
    also have "view R s1 k = view R s k" using that by (auto simp: s1_def frame_setex)
    finally show ?thesis .
  qed
  have "committed R ?ik ?lk ?ttl (IdemPayload req) (LedgerMaxLen req) (Entries req) (KV req) s = s3"
    by (simp add: committed_def s1_def s2_def s3_def)
  then show ?thesis using kv idem x frame by (auto simp: commit_applied_def)
qed

text \<open>Whatever the network does, a commit leaves the server as it was or applies it whole; a
  success reply means it was applied (or had been before), \<open>ErrFenced\<close> that nothing changed.\<close>

lemma Commit_all_or_nothing:
  assumes "commit_keys_ok ks req" "LedgerMaxLen req \<le> 0 \<or> int (length (Entries req)) \<le> LedgerMaxLen req"
    and "Commit R ks n req s = (s', r)"
  shows "s' = s \<and> (\<forall>p. r \<noteq> Inr \<lparr>Duplicate = False, Payload = p\<rparr>)
       \<or> commit_applied R req s s' \<and> r \<in> {Inl ErrRedis, Inr \<lparr>Duplicate = False, Payload = IdemPayload req\<rparr>}"
proof (cases "LedgerKey req = [] \<and> Entries req \<noteq> []")
  case True
  with assms(3) show ?thesis by (auto simp: Commit_eq)
next
  case False
  then have "LedgerKey req \<noteq> [] \<or> Entries req = []" by blast
  note ap = committed_applied [OF assms(1,2) this, of s "keys_Epoch ks (cr_Shard req)"]
  from assms(3) False ap show ?thesis
    by (cases n)
      (auto simp: Commit_eq Let_def through_reply_def run_def split: option.splits if_splits)
qed

lemma Commit_again:
  assumes "IdemKey req \<noteq> []" "0 < IdemTTLSec req" "LedgerKey req \<noteq> [] \<or> Entries req = []"
    and "GET R s (IdemKey req) = Some p"
  shows "Commit R ks Delivered req s = (s, Inr \<lparr>Duplicate = True, Payload = p\<rparr>)"
  using assms by (auto simp: Commit_eq Let_def through_reply_def run_def)

end

section \<open>Properties\<close>

text \<open>C1: Fencing. Once a new owner has raised a shard's epoch, no operation of an owner with an
  older epoch (module write, hash write, write-through, delete, commit or a late raise) changes
  anything in Redis, at any later time, whatever the network does and whatever any process did
  in between.\<close>

theorem stale_owner_cannot_write:
  assumes "redis_api R" and "RaiseEpoch R ks n sh e s = (s1, Inr ())" and "server_runs R ks s1 s2"
    and "fop_owner op = (sh, old)" and "old < e"
  shows "fexec R ks m op s2 = s2"
proof -
  have "epoch_num R ks s1 sh = Some e" by (rule redis_api.raised_epoch [OF assms(1,2)])
  then obtain c where "c \<ge> e" "epoch_num R ks s2 sh = Some c"
    using redis_api.server_runs_epoch_mono [OF assms(1,3)] by blast
  with assms(4,5) show ?thesis by (intro stale_no_effect [where c = c]) auto
qed

text \<open>A concrete takeover: shard 7 raised to epoch 20, then a write of the new owner.\<close>

definition lobby_keys :: keys where
  "lobby_keys = NewKeys TagUID 1024 ''lobby''"

definition takeover_state :: mem where
  "takeover_state = mem_put mem_empty (keys_Epoch lobby_keys 7) (show_int 20)"

lemma takeover_raise: "RaiseEpoch mem_redis lobby_keys Delivered 7 20 mem_empty = (takeover_state, Inr ())"
  by (simp add: RaiseEpoch_def run_def scriptRaiseEpoch_eq num_or0_def mem_empty_def mem_put_def
      takeover_state_def)

theorem stale_owner_cannot_write_witness:
  "fexec mem_redis lobby_keys Delivered
     (FWrite 7 10 [(keys_Player lobby_keys 1031 ModBase, ''old'')])
     (fexec mem_redis lobby_keys Delivered (FWrite 7 20 [(keys_Player lobby_keys 1031 ModBase, ''new'')]) takeover_state)
   = fexec mem_redis lobby_keys Delivered (FWrite 7 20 [(keys_Player lobby_keys 1031 ModBase, ''new'')]) takeover_state"
proof (rule stale_owner_cannot_write [OF mem_server.redis_api_axioms takeover_raise, where old = 10])
  show "server_runs mem_redis lobby_keys takeover_state
    (fexec mem_redis lobby_keys Delivered (FWrite 7 20 [(keys_Player lobby_keys 1031 ModBase, ''new'')]) takeover_state)"
    by (rule runs_op [OF runs_refl]) (auto simp: data_keys_def key_eqs)
qed simp_all

text \<open>Epochs only grow: through any sequence of fencer operations and writes of other components,
  the epoch recorded for a shard never decreases.\<close>

theorem recorded_epoch_never_decreases:
  assumes "redis_api R" and "server_runs R ks s s'" and "CurrentEpoch R ks sh s = Some c"
  shows "\<exists>c'. CurrentEpoch R ks sh s' = Some c' \<and> c \<le> c'"
proof -
  have eq: "CurrentEpoch R ks sh x = epoch_num R ks x sh" for x
    by (simp add: CurrentEpoch_def num_or0_def split: option.splits)
  show ?thesis using redis_api.server_runs_epoch_mono [OF assms(1,2)] assms(3) by (auto simp: eq)
qed

theorem recorded_epoch_never_decreases_witness:
  "\<exists>c'. CurrentEpoch mem_redis lobby_keys 7
      (fexec mem_redis lobby_keys Delivered (FRaise 7 10) takeover_state) = Some c' \<and> 20 \<le> c'"
proof (rule recorded_epoch_never_decreases [OF mem_server.redis_api_axioms])
  show "server_runs mem_redis lobby_keys takeover_state
      (fexec mem_redis lobby_keys Delivered (FRaise 7 10) takeover_state)"
    by (rule runs_op [OF runs_refl]) (simp add: data_keys_def)
  show "CurrentEpoch mem_redis lobby_keys 7 takeover_state = Some 20"
    using tonumber_show [of 20] by (simp add: CurrentEpoch_def takeover_state_def mem_put_def)
qed

text \<open>C4: The commit is atomic under every network outcome: afterwards either nothing has changed, or
  the idempotency key, every data key and all ledger entries (appended in order) are in place
  and no other key changed. A first-time success is reported only in the second case; a lost
  reply reports an error in either.\<close>

theorem commit_is_atomic:
  assumes "redis_api R" and "commit_keys_ok ks req"
    and "LedgerMaxLen req \<le> 0 \<or> int (length (Entries req)) \<le> LedgerMaxLen req"
    and "Commit R ks n req s = (s', r)"
  shows "s' = s \<and> (\<forall>p. r \<noteq> Inr \<lparr>Duplicate = False, Payload = p\<rparr>)
       \<or> commit_applied R req s s' \<and> r \<in> {Inl ErrRedis, Inr \<lparr>Duplicate = False, Payload = IdemPayload req\<rparr>}"
  by (rule redis_api.Commit_all_or_nothing [OF assms])

definition demo_commit :: commit_req where
  "demo_commit = \<lparr>cr_Shard = 7, cr_Epoch = 20, IdemKey = keys_Order lobby_keys 1031 ''o1'', IdemTTLSec = 60,
     IdemPayload = ''ok'', LedgerKey = keys_Ledger lobby_keys 1031, LedgerMaxLen = 2000, Entries = [''e1''],
     KV = [(keys_Player lobby_keys 1031 ModBase, ''b1'')]\<rparr>"

lemma demo_commit_keys: "commit_keys_ok lobby_keys demo_commit"
  by (auto simp: commit_keys_ok_def demo_commit_def data_keys_def key_eqs)

lemma keys_nonempty [simp]: "keys_Order k u r \<noteq> []" "keys_Ledger k u \<noteq> []"
  by (simp_all add: keys_Order_def keys_Ledger_def)

definition demo_done :: mem where
  "demo_done = committed mem_redis (keys_Order lobby_keys 1031 ''o1'') (keys_Ledger lobby_keys 1031) 60 ''ok'' 2000
     [''e1''] [(keys_Player lobby_keys 1031 ModBase, ''b1'')] takeover_state"

lemma demo_commit_run:
  "Commit mem_redis lobby_keys Delivered demo_commit takeover_state = (demo_done, Inr \<lparr>Duplicate = False, Payload = ''ok''\<rparr>)"
  "Commit mem_redis lobby_keys ReplyLost demo_commit takeover_state = (demo_done, Inl ErrRedis)"
proof -
  have fresh: "strs takeover_state (keys_Order lobby_keys 1031 ''o1'') = None"
    by (simp add: takeover_state_def mem_put_def mem_empty_def key_eqs)
  have epoch: "num_or0 mem_redis takeover_state (keys_Epoch lobby_keys 7) = Some 20"
    by (simp add: num_or0_def takeover_state_def mem_put_def)
  show "Commit mem_redis lobby_keys Delivered demo_commit takeover_state = (demo_done, Inr \<lparr>Duplicate = False, Payload = ''ok''\<rparr>)"
    "Commit mem_redis lobby_keys ReplyLost demo_commit takeover_state = (demo_done, Inl ErrRedis)"
    using fresh epoch by (simp_all add: Commit_eq demo_commit_def demo_done_def Let_def run_def through_reply_def)
qed

lemma demo_done_changed: "demo_done \<noteq> takeover_state"
proof
  assume eq: "demo_done = takeover_state"
  have "strs takeover_state (keys_Order lobby_keys 1031 ''o1'') = None"
    by (simp add: takeover_state_def mem_put_def mem_empty_def key_eqs)
  moreover have "commit_applied mem_redis demo_commit takeover_state demo_done"
    using mem_server.committed_applied [OF demo_commit_keys, of takeover_state "[]"]
    by (simp add: demo_commit_def demo_done_def)
  ultimately show False by (simp add: commit_applied_def demo_commit_def eq)
qed

theorem commit_is_atomic_witness: "commit_applied mem_redis demo_commit takeover_state demo_done"
  using commit_is_atomic [OF mem_server.redis_api_axioms demo_commit_keys _ demo_commit_run(1)]
  by (auto simp: demo_commit_def)

text \<open>C5: The commit is idempotent. Once a commit with an idempotency key has been applied, even when
  its reply was lost, a repetition under the same key while the key exists answers with the first
  payload, reports a duplicate and changes nothing, whatever else the second request contains.\<close>

theorem commit_is_idempotent:
  assumes "redis_api R" and "commit_keys_ok ks req"
    and "LedgerMaxLen req \<le> 0 \<or> int (length (Entries req)) \<le> LedgerMaxLen req"
    and "Commit R ks n req s = (s1, r)" and "s1 \<noteq> s"
    and "IdemKey req \<noteq> []" and "0 < IdemTTLSec req"
    and "GET R s2 (IdemKey req) = GET R s1 (IdemKey req)"
    and "IdemKey req2 = IdemKey req" and "0 < IdemTTLSec req2" and "LedgerKey req2 \<noteq> [] \<or> Entries req2 = []"
  shows "Commit R ks Delivered req2 s2 = (s2, Inr \<lparr>Duplicate = True, Payload = IdemPayload req\<rparr>)"
proof -
  have "commit_applied R req s s1"
    using redis_api.Commit_all_or_nothing [OF assms(1-4)] assms(5) by blast
  then have "GET R s2 (IdemKey req2) = Some (IdemPayload req)"
    using assms(6-9) by (simp add: commit_applied_def)
  then show ?thesis
    using assms(6,9,10,11) by (intro redis_api.Commit_again [OF assms(1)]) simp_all
qed

theorem commit_is_idempotent_witness:
  "Commit mem_redis lobby_keys Delivered demo_commit demo_done = (demo_done, Inr \<lparr>Duplicate = True, Payload = ''ok''\<rparr>)"
  using commit_is_idempotent [OF mem_server.redis_api_axioms demo_commit_keys _ demo_commit_run(2) demo_done_changed,
      of demo_done demo_commit]
  by (simp add: demo_commit_def)

end
