(* ===== verification/Dirty.thy ===== *)
theory Dirty
  imports Store_Keys
begin

text \<open>
  The dirty table of a shard, \<^verbatim>\<open>pkg/store/dirty.go\<close>, and the flush levels of
  \<^verbatim>\<open>pkg/store/flush.go\<close>. The Go maps are association lists: the order of a list is the order in
  which \<open>range\<close> happens to visit the map, which Go leaves open, and every lemma holds for every
  order. A time is the number of nanoseconds since Go's zero time, so \<open>IsZero\<close> is \<open>= 0\<close>; the
  clock reading of each call is an argument.

  The lemmas state the bookkeeping invariant (the table is a map of non-empty maps) and that
  taking items out and marking failed ones again neither loses nor invents a dirty module.
\<close>

section \<open>Flush levels\<close>

datatype Level = L0 | L1 | L2 | L3

fun ModuleLevel :: "Module \<Rightarrow> Level" where
  "ModuleLevel ModBase = L1" | "ModuleLevel ModBag = L1" | "ModuleLevel ModQuest = L1"
| "ModuleLevel ModSocial = L2" | "ModuleLevel ModMail = L2" | "ModuleLevel ModGacha = L2"
| "ModuleLevel ModRound = L1" | "ModuleLevel ModRG = L1"

section \<open>The table\<close>

type_synonym mods = "(Module \<times> int) list"
type_synonym dirty_set = "(nat \<times> mods) list"

definition NewDirtySet :: dirty_set where
  "NewDirtySet = []"

definition Mark :: "int \<Rightarrow> nat \<Rightarrow> Module \<Rightarrow> dirty_set \<Rightarrow> dirty_set" where
  "Mark now i m d =
     (let mods = (case map_of d i of Some ms \<Rightarrow> ms | None \<Rightarrow> []) in
      AList.update i (case map_of mods m of Some _ \<Rightarrow> mods | None \<Rightarrow> AList.update m now mods) d)"

definition MarkAll :: "int \<Rightarrow> nat \<Rightarrow> dirty_set \<Rightarrow> dirty_set" where
  "MarkAll now i d = fold (Mark now i) AllModules d"

definition Clear :: "nat \<Rightarrow> dirty_set \<Rightarrow> dirty_set" where
  "Clear i d = AList.delete i d"

definition IsDirty :: "nat \<Rightarrow> dirty_set \<Rightarrow> bool" where
  "IsDirty i d = (case map_of d i of Some ms \<Rightarrow> length ms > 0 | None \<Rightarrow> False)"

definition dirty_Len :: "dirty_set \<Rightarrow> nat" where
  "dirty_Len d = length d"

record item =
  it_ID :: nat
  it_Modules :: "Module list"
  it_DirtyAt :: int

text \<open>\<open>if earliest.IsZero() || at.Before(earliest) { earliest = at }\<close> over the visited times.\<close>

definition earliest :: "int list \<Rightarrow> int" where
  "earliest ts = fold (\<lambda>t e. if e = 0 \<or> t < e then t else e) ts 0"

fun take_loop :: "Level \<Rightarrow> int \<Rightarrow> item list \<Rightarrow> dirty_set \<Rightarrow> item list \<times> dirty_set" where
  "take_loop lv lim out [] = (out, [])"
| "take_loop lv lim out ((i, mods) # d) =
     (if lim > 0 \<and> int (length out) \<ge> lim then (out, (i, mods) # d)
      else
        let picked = filter (\<lambda>(m, t). ModuleLevel m = lv) mods in
        if picked = [] then
          let (out', d') = take_loop lv lim out d in (out', (i, mods) # d')
        else
          let rest = filter (\<lambda>(m, t). m \<notin> fst ` set picked) mods;
              (out', d') = take_loop lv lim
                (out @ [\<lparr>it_ID = i, it_Modules = map fst picked, it_DirtyAt = earliest (map snd picked)\<rparr>]) d
          in (out', if rest = [] then d' else (i, rest) # d'))"

definition Take :: "Level \<Rightarrow> int \<Rightarrow> dirty_set \<Rightarrow> item list \<times> dirty_set" where
  "Take lv lim d = take_loop lv lim [] d"

definition TakeAll :: "dirty_set \<Rightarrow> item list \<times> dirty_set" where
  "TakeAll d =
     (map (\<lambda>(i, mods). \<lparr>it_ID = i, it_Modules = map fst mods, it_DirtyAt = earliest (map snd mods)\<rparr>)
          (filter (\<lambda>(i, mods). length mods \<noteq> 0) d),
      [])"

definition TakeOne :: "nat \<Rightarrow> dirty_set \<Rightarrow> item option \<times> dirty_set" where
  "TakeOne i d =
     (case map_of d i of
        None \<Rightarrow> (None, d)
      | Some mods \<Rightarrow>
          if length mods = 0 then (None, d)
          else (Some \<lparr>it_ID = i, it_Modules = map fst mods, it_DirtyAt = earliest (map snd mods)\<rparr>,
                AList.delete i d))"

record hash_write =
  hw_Key :: string
  hw_TTLSec :: int
  hw_Fields :: "bytes list"

record entity =
  e_ID :: nat
  e_Keys :: "(string \<times> bytes) list"
  e_Hash :: "hash_write option"
  e_Modules :: "Module list"
  e_DirtyAt :: int

definition remark_mod :: "int \<Rightarrow> int \<Rightarrow> Module \<Rightarrow> mods \<Rightarrow> mods" where
  "remark_mod now dirtyAt m mods =
     (let at = (if dirtyAt = 0 then now else dirtyAt) in
      case map_of mods m of
        None \<Rightarrow> AList.update m at mods
      | Some old \<Rightarrow> if at < old then AList.update m at mods else mods)"

definition remark_one :: "int \<Rightarrow> entity \<Rightarrow> dirty_set \<Rightarrow> dirty_set" where
  "remark_one now e d =
     (let mods = (case map_of d (e_ID e) of Some ms \<Rightarrow> ms | None \<Rightarrow> []) in
      AList.update (e_ID e) (fold (remark_mod now (e_DirtyAt e)) (e_Modules e) mods) d)"

definition ReMark :: "int \<Rightarrow> entity list \<Rightarrow> dirty_set \<Rightarrow> dirty_set" where
  "ReMark now es d = fold (remark_one now) es d"

text \<open>\<open>Deadline\<close>: the next flush of a shard, in nanoseconds, spread by shard number.\<close>

definition Deadline :: "int \<Rightarrow> nat \<Rightarrow> int \<Rightarrow> int" where
  "Deadline now shard interval =
     (if interval \<le> 0 then now
      else let sec = interval div 1000000000 in
        if sec \<le> 0 then now + interval
        else now + (int shard mod sec) * 1000000000)"

section \<open>The table as a set of dirty modules\<close>

definition dirty_at :: "dirty_set \<Rightarrow> nat \<Rightarrow> Module \<Rightarrow> int option" where
  "dirty_at d i m = (case map_of d i of None \<Rightarrow> None | Some ms \<Rightarrow> map_of ms m)"

definition dirty_pairs :: "dirty_set \<Rightarrow> (nat \<times> Module) set" where
  "dirty_pairs d = {(i, m). dirty_at d i m \<noteq> None}"

definition item_pairs :: "item list \<Rightarrow> (nat \<times> Module) set" where
  "item_pairs its = {(i, m). \<exists>it \<in> set its. it_ID it = i \<and> m \<in> set (it_Modules it)}"

definition entity_pairs :: "entity list \<Rightarrow> (nat \<times> Module) set" where
  "entity_pairs es = {(i, m). \<exists>e \<in> set es. e_ID e = i \<and> m \<in> set (e_Modules e)}"

text \<open>The invariant: one entry per entity, one time per module, no entity without a module.\<close>

definition dirty_ok :: "dirty_set \<Rightarrow> bool" where
  "dirty_ok d \<longleftrightarrow> distinct (map fst d) \<and> (\<forall>(i, ms) \<in> set d. distinct (map fst ms) \<and> ms \<noteq> [])"

lemma dirty_ok_Cons:
  "dirty_ok ((i, ms) # d) \<longleftrightarrow> i \<notin> fst ` set d \<and> distinct (map fst ms) \<and> ms \<noteq> [] \<and> dirty_ok d"
  by (auto simp: dirty_ok_def)

lemma dirty_at_Nil [simp]: "dirty_at [] i m = None"
  by (simp add: dirty_at_def)

lemma dirty_at_Cons: "dirty_at ((i, ms) # d) j m = (if j = i then map_of ms m else dirty_at d j m)"
  by (simp add: dirty_at_def)

lemma dirty_at_notin: "i \<notin> fst ` set d \<Longrightarrow> dirty_at d i m = None"
  by (simp add: dirty_at_def map_of_eq_None_iff [THEN iffD2])

lemma dirty_at_update: "dirty_at (AList.update i ms d) j m = (if j = i then map_of ms m else dirty_at d j m)"
  by (simp add: dirty_at_def update_conv')

lemma dirty_ok_lookup: "dirty_ok d \<Longrightarrow> map_of d i = Some ms \<Longrightarrow> distinct (map fst ms) \<and> ms \<noteq> []"
  by (auto simp: dirty_ok_def dest!: map_of_SomeD)

lemma dirty_ok_update:
  assumes "dirty_ok d" "distinct (map fst ms)" "ms \<noteq> []"
  shows "dirty_ok (AList.update i ms d)"
proof -
  have "distinct (map fst (AList.update i ms d))" using assms(1) by (simp add: dirty_ok_def distinct_update)
  moreover have "distinct (map fst ms') \<and> ms' \<noteq> []" if "(j, ms') \<in> set (AList.update i ms d)" for j ms'
  proof -
    have "map_of (AList.update i ms d) j = Some ms'" using calculation that by simp
    then show ?thesis using assms dirty_ok_lookup [OF assms(1)] by (auto simp: update_conv' split: if_splits)
  qed
  ultimately show ?thesis by (auto simp: dirty_ok_def)
qed

section \<open>Marking\<close>

lemma Mark_at: "dirty_at (Mark now i m d) j n =
    (if j = i \<and> n = m \<and> dirty_at d i m = None then Some now else dirty_at d j n)"
  by (auto simp: Mark_def Let_def dirty_at_update dirty_at_def update_conv' split: option.splits)

lemma Mark_ok: "dirty_ok d \<Longrightarrow> dirty_ok (Mark now i m d)"
  using dirty_ok_lookup [of d i]
  by (auto simp: Mark_def Let_def intro!: dirty_ok_update distinct_update split: option.splits)

lemma Mark_pairs: "dirty_pairs (Mark now i m d) = insert (i, m) (dirty_pairs d)"
  by (auto simp: dirty_pairs_def Mark_at split: if_splits)

lemma fold_Mark_pairs: "dirty_pairs (fold (Mark now i) ms d) = dirty_pairs d \<union> {i} \<times> set ms"
  by (induction ms arbitrary: d) (auto simp: Mark_pairs)

lemma fold_Mark_ok: "dirty_ok d \<Longrightarrow> dirty_ok (fold (Mark now i) ms d)"
  by (induction ms arbitrary: d) (auto simp: Mark_ok)

lemma AllModules_all: "set AllModules = UNIV"
proof -
  have "m \<in> set AllModules" for m by (cases m) (simp_all add: AllModules_def)
  then show ?thesis by auto
qed

lemma MarkAll_pairs: "dirty_pairs (MarkAll now i d) = dirty_pairs d \<union> {i} \<times> UNIV"
  by (simp add: MarkAll_def fold_Mark_pairs AllModules_all)

section \<open>Taking\<close>

lemma map_of_filter_key: "map_of (filter (\<lambda>(k, v). P k) xs) k = (if P k then map_of xs k else None)"
  by (induction xs) auto

definition pick :: "Level \<Rightarrow> mods \<Rightarrow> mods" where
  "pick lv ms = filter (\<lambda>(m, t). ModuleLevel m = lv) ms"

definition keep :: "Level \<Rightarrow> mods \<Rightarrow> mods" where
  "keep lv ms = filter (\<lambda>(m, t). ModuleLevel m \<noteq> lv) ms"

definition item_of :: "nat \<Rightarrow> mods \<Rightarrow> item" where
  "item_of i ms = \<lparr>it_ID = i, it_Modules = map fst ms, it_DirtyAt = earliest (map snd ms)\<rparr>"

lemma map_of_pick: "map_of (pick lv ms) m = (if ModuleLevel m = lv then map_of ms m else None)"
  "map_of (keep lv ms) m = (if ModuleLevel m \<noteq> lv then map_of ms m else None)"
  by (simp_all add: pick_def keep_def map_of_filter_key)

lemma set_pick: "fst ` set (pick lv ms) = {m. ModuleLevel m = lv \<and> map_of ms m \<noteq> None}"
proof -
  have "m \<in> fst ` set (pick lv ms) \<longleftrightarrow> map_of (pick lv ms) m \<noteq> None" for m
    by (metis map_of_eq_None_iff)
  then show ?thesis by (intro set_eqI) (simp add: map_of_pick)
qed

lemma rest_keep: "filter (\<lambda>(m, t). m \<notin> fst ` set (pick lv ms)) ms = keep lv ms"
proof -
  have "m \<in> fst ` set (pick lv ms) \<longleftrightarrow> ModuleLevel m = lv" if "(m, t) \<in> set ms" for m t
    using that by (force simp: pick_def)
  then show ?thesis unfolding keep_def by (intro filter_cong) auto
qed

lemma take_loop_Cons:
  "take_loop lv lim out ((i, ms) # d) =
     (if lim > 0 \<and> int (length out) \<ge> lim then (out, (i, ms) # d)
      else if pick lv ms = [] then (fst (take_loop lv lim out d), (i, ms) # snd (take_loop lv lim out d))
      else let r = take_loop lv lim (out @ [item_of i (pick lv ms)]) d
           in (fst r, if keep lv ms = [] then snd r else (i, keep lv ms) # snd r))"
  by (simp add: Let_def split_beta item_of_def rest_keep flip: pick_def)

lemma item_pairs_Cons: "item_pairs (x # xs) = {it_ID x} \<times> set (it_Modules x) \<union> item_pairs xs"
  by (auto simp: item_pairs_def)

lemma item_pairs_Nil [simp]: "item_pairs [] = {}"
  by (simp add: item_pairs_def)

lemma dirty_pairs_Nil [simp]: "dirty_pairs [] = {}"
  by (simp add: dirty_pairs_def)

lemma dirty_pairs_Cons:
  "i \<notin> fst ` set d \<Longrightarrow> dirty_pairs ((i, ms) # d) = {i} \<times> {m. map_of ms m \<noteq> None} \<union> dirty_pairs d"
  by (auto simp: dirty_pairs_def dirty_at_Cons dirty_at_notin split: if_splits)

lemma dirty_pairs_ids: "(i, m) \<in> dirty_pairs d \<Longrightarrow> i \<in> fst ` set d"
  by (rule ccontr) (simp add: dirty_pairs_def dirty_at_notin)

text \<open>What one pass over the table yields: the items picked, and what is left.\<close>

definition taken :: "Level \<Rightarrow> dirty_set \<Rightarrow> item list \<Rightarrow> dirty_set \<Rightarrow> bool" where
  "taken lv d its d' \<longleftrightarrow>
     dirty_ok d' \<and> fst ` set d' \<subseteq> fst ` set d \<and>
     dirty_pairs d = dirty_pairs d' \<union> item_pairs its \<and> dirty_pairs d' \<inter> item_pairs its = {} \<and>
     (\<forall>(i, m) \<in> item_pairs its. i \<in> fst ` set d \<and> ModuleLevel m = lv) \<and>
     (\<forall>i m. (i, m) \<in> dirty_pairs d' \<longrightarrow> dirty_at d' i m = dirty_at d i m)"

lemma taken_skip:
  assumes "dirty_ok ((i, ms) # d)" "taken lv d its d'"
  shows "taken lv ((i, ms) # d) its ((i, ms) # d')"
proof -
  have i: "i \<notin> fst ` set d" "i \<notin> fst ` set d'" using assms by (auto simp: dirty_ok_Cons taken_def)
  have "dirty_pairs ((i, ms) # d') \<inter> item_pairs its = {}"
    using assms(2) i by (auto simp: dirty_pairs_Cons taken_def)
  moreover have "dirty_pairs ((i, ms) # d) = dirty_pairs ((i, ms) # d') \<union> item_pairs its"
    using assms(2) i by (auto simp: dirty_pairs_Cons taken_def)
  moreover have "dirty_ok ((i, ms) # d')" using assms i by (simp add: dirty_ok_Cons taken_def)
  moreover have "dirty_at ((i, ms) # d') j m = dirty_at ((i, ms) # d) j m" if "(j, m) \<in> dirty_pairs ((i, ms) # d')" for j m
    using assms(2) i that by (auto simp: dirty_at_Cons dirty_pairs_Cons taken_def split: if_splits)
  ultimately show ?thesis using assms(2) by (auto simp: taken_def)
qed

lemma taken_pick:
  assumes "dirty_ok ((i, ms) # d)" "taken lv d its d'"
  shows "taken lv ((i, ms) # d) (item_of i (pick lv ms) # its) (if keep lv ms = [] then d' else (i, keep lv ms) # d')"
    (is "taken _ _ ?its ?d'")
proof -
  have i: "i \<notin> fst ` set d" "i \<notin> fst ` set d'" using assms by (auto simp: dirty_ok_Cons taken_def)
  have nokeep: "map_of (keep lv ms) m = None" if "keep lv ms = []" for m using that by simp
  have dp: "dirty_pairs ?d' = {i} \<times> {m. map_of (keep lv ms) m \<noteq> None} \<union> dirty_pairs d'"
    using i nokeep by (auto simp: dirty_pairs_Cons)
  have ip: "item_pairs ?its = {i} \<times> {m. ModuleLevel m = lv \<and> map_of ms m \<noteq> None} \<union> item_pairs its"
    by (simp add: item_pairs_Cons item_of_def set_pick)
  have "distinct (map fst (keep lv ms))" using assms(1) by (simp add: dirty_ok_Cons keep_def distinct_map_filter)
  then have "dirty_ok ?d'" using assms(2) i by (auto simp: dirty_ok_Cons taken_def)
  moreover have "dirty_pairs ((i, ms) # d) = dirty_pairs ?d' \<union> item_pairs ?its"
    using assms(2) i by (auto simp: dirty_pairs_Cons dp ip map_of_pick taken_def)
  moreover have "dirty_pairs ?d' \<inter> item_pairs ?its = {}"
  proof -
    have "(i, m) \<notin> dirty_pairs d'" "(i, m) \<notin> item_pairs its" for m
      using assms(2) i dirty_pairs_ids [of i m d'] by (auto simp: taken_def)
    with assms(2) show ?thesis by (auto simp: dp ip map_of_pick taken_def split: if_splits)
  qed
  moreover have "dirty_at ?d' j m = dirty_at ((i, ms) # d) j m" if "(j, m) \<in> dirty_pairs ?d'" for j m
  proof (cases "j = i")
    case True
    with that i have "map_of (keep lv ms) m \<noteq> None" by (auto simp: dp dest: dirty_pairs_ids)
    moreover from this have "keep lv ms \<noteq> []" by auto
    ultimately show ?thesis using True by (auto simp: dirty_at_Cons map_of_pick split: if_splits)
  next
    case False
    with that assms(2) show ?thesis by (auto simp: dp dirty_at_Cons taken_def)
  qed
  ultimately show ?thesis using assms(2) by (auto simp: taken_def ip)
qed

lemma take_loop_spec:
  "dirty_ok d \<Longrightarrow> \<exists>its. fst (take_loop lv lim out d) = out @ its \<and> taken lv d its (snd (take_loop lv lim out d))"
proof (induction d arbitrary: out)
  case Nil
  then show ?case by (simp add: taken_def)
next
  case (Cons x d)
  obtain i ms where x: "x = (i, ms)" by (cases x)
  have ok: "dirty_ok d" using Cons.prems by (simp add: x dirty_ok_Cons)
  consider (stop) "lim > 0 \<and> int (length out) \<ge> lim" | (skip) "\<not> (lim > 0 \<and> int (length out) \<ge> lim)" "pick lv ms = []"
    | (go) "\<not> (lim > 0 \<and> int (length out) \<ge> lim)" "pick lv ms \<noteq> []" by blast
  then show ?case
  proof cases
    case stop
    then show ?thesis using Cons.prems by (auto simp: x taken_def simp del: take_loop.simps(2) simp add: take_loop_Cons)
  next
    case skip
    then show ?thesis using Cons.IH [OF ok, of out] taken_skip [OF Cons.prems [unfolded x]]
      by (auto simp: x take_loop_Cons simp del: take_loop.simps(2))
  next
    case go
    obtain its where "fst (take_loop lv lim (out @ [item_of i (pick lv ms)]) d) = (out @ [item_of i (pick lv ms)]) @ its"
      "taken lv d its (snd (take_loop lv lim (out @ [item_of i (pick lv ms)]) d))"
      using Cons.IH [OF ok] by blast
    then show ?thesis using go taken_pick [OF Cons.prems [unfolded x]]
      by (auto simp: x take_loop_Cons Let_def simp del: take_loop.simps(2))
  qed
qed

lemma Take_spec: "dirty_ok d \<Longrightarrow> Take lv lim d = (its, d') \<Longrightarrow> taken lv d its d'"
  using take_loop_spec [of d lv lim "[]"] by (auto simp: Take_def)

lemma fst_set_map_of: "fst ` set ms = {m. map_of ms m \<noteq> None}"
proof -
  have "m \<in> fst ` set ms \<longleftrightarrow> map_of ms m \<noteq> None" for m by (metis map_of_eq_None_iff)
  then show ?thesis by blast
qed

lemma TakeAll_spec:
  assumes "dirty_ok d" "TakeAll d = (its, d')"
  shows "d' = [] \<and> item_pairs its = dirty_pairs d"
proof -
  have "item_pairs (map (\<lambda>(i, ms). item_of i ms) d) = dirty_pairs d" using assms(1)
  proof (induction d)
    case (Cons x d)
    then show ?case by (cases x) (simp add: dirty_ok_Cons dirty_pairs_Cons item_pairs_Cons item_of_def fst_set_map_of)
  qed simp
  moreover have "filter (\<lambda>(i, mods). length mods \<noteq> 0) d = d"
    using assms(1) by (intro filter_True) (auto simp: dirty_ok_def)
  ultimately show ?thesis using assms(2) by (auto simp: TakeAll_def item_of_def)
qed

lemma TakeOne_spec:
  assumes "dirty_ok d"
  shows "TakeOne i d = (None, d') \<Longrightarrow> d' = d \<and> (\<forall>m. (i, m) \<notin> dirty_pairs d)"
    and "TakeOne i d = (Some it, d') \<Longrightarrow> dirty_ok d' \<and> it_ID it = i \<and>
           dirty_pairs d = dirty_pairs d' \<union> {i} \<times> set (it_Modules it) \<and> (\<forall>m. (i, m) \<notin> dirty_pairs d')"
proof -
  show "TakeOne i d = (None, d') \<Longrightarrow> d' = d \<and> (\<forall>m. (i, m) \<notin> dirty_pairs d)"
    using dirty_ok_lookup [OF assms, of i]
    by (auto simp: TakeOne_def dirty_pairs_def dirty_at_def split: option.splits if_splits)
  have del: "dirty_at (AList.delete i d) j m = (if j = i then None else dirty_at d j m)" for j m
    by (simp add: dirty_at_def delete_conv')
  have "distinct (map fst (AList.delete i d))" using assms by (intro distinct_delete) (simp add: dirty_ok_def)
  moreover have "set (AList.delete i d) \<subseteq> set d" by (auto simp: AList.delete_eq)
  ultimately have "dirty_ok (AList.delete i d)" using assms unfolding dirty_ok_def by blast
  then show "TakeOne i d = (Some it, d') \<Longrightarrow> dirty_ok d' \<and> it_ID it = i \<and>
           dirty_pairs d = dirty_pairs d' \<union> {i} \<times> set (it_Modules it) \<and> (\<forall>m. (i, m) \<notin> dirty_pairs d')"
    by (auto simp: TakeOne_def dirty_pairs_def del fst_set_map_of dirty_at_def delete_conv' simp del: not_None_eq
        split: option.splits if_splits)
qed

section \<open>Marking again\<close>

lemma remark_mod_of: "map_of (remark_mod now dt m mods) n =
   (if n = m then Some (let at = (if dt = 0 then now else dt) in
       case map_of mods m of None \<Rightarrow> at | Some old \<Rightarrow> min at old) else map_of mods n)"
  by (auto simp: remark_mod_def Let_def update_conv' min_def split: option.splits)

lemma remark_mods_dom:
  "map_of (fold (remark_mod now dt) ms mods) n \<noteq> None \<longleftrightarrow> n \<in> set ms \<or> map_of mods n \<noteq> None"
  by (induction ms arbitrary: mods) (auto simp: remark_mod_of split: if_splits)

lemma remark_mods_distinct:
  "distinct (map fst mods) \<Longrightarrow> distinct (map fst (fold (remark_mod now dt) ms mods))"
  by (induction ms arbitrary: mods) (auto simp: remark_mod_def Let_def distinct_update split: option.splits)

text \<open>A module that is marked again keeps the earlier of the two times.\<close>

lemma remark_mods_time:
  "map_of mods n = Some old \<Longrightarrow> \<exists>t \<le> old. map_of (fold (remark_mod now dt) ms mods) n = Some t"
proof (induction ms arbitrary: mods old)
  case (Cons m ms)
  have "\<exists>t \<le> old. map_of (remark_mod now dt m mods) n = Some t"
    using Cons.prems by (auto simp: remark_mod_of Let_def)
  then obtain t where "t \<le> old" "map_of (remark_mod now dt m mods) n = Some t" by blast
  with Cons.IH [OF this(2)] show ?case by fastforce
qed auto

definition mods_at :: "dirty_set \<Rightarrow> nat \<Rightarrow> mods" where
  "mods_at d i = (case map_of d i of Some ms \<Rightarrow> ms | None \<Rightarrow> [])"

lemma dirty_at_mods: "dirty_at d i m = map_of (mods_at d i) m"
  by (simp add: dirty_at_def mods_at_def split: option.split)

lemma remark_one_at:
  "dirty_at (remark_one now e d) i m =
     (if i = e_ID e then map_of (fold (remark_mod now (e_DirtyAt e)) (e_Modules e) (mods_at d i)) m else dirty_at d i m)"
  by (simp add: remark_one_def Let_def dirty_at_update mods_at_def)

lemma remark_one_pairs: "dirty_pairs (remark_one now e d) = dirty_pairs d \<union> {e_ID e} \<times> set (e_Modules e)"
  by (auto simp: dirty_pairs_def remark_one_at remark_mods_dom dirty_at_mods [of d] simp del: not_None_eq split: if_splits)

lemma ReMark_pairs: "dirty_pairs (ReMark now es d) = dirty_pairs d \<union> entity_pairs es"
proof -
  have "dirty_pairs (fold (remark_one now) es d) = dirty_pairs d \<union> entity_pairs es"
    by (induction es arbitrary: d) (auto simp: remark_one_pairs entity_pairs_def)
  then show ?thesis by (simp add: ReMark_def)
qed

lemma remark_one_time:
  "dirty_at d i m = Some old \<Longrightarrow> \<exists>t \<le> old. dirty_at (remark_one now e d) i m = Some t"
  using remark_mods_time [of "mods_at d i" m old] by (auto simp: remark_one_at dirty_at_mods [of d])

lemma ReMark_time:
  "dirty_at d i m = Some old \<Longrightarrow> \<exists>t \<le> old. dirty_at (ReMark now es d) i m = Some t"
  unfolding ReMark_def
proof (induction es arbitrary: d old)
  case (Cons e es)
  obtain t where "t \<le> old" "dirty_at (remark_one now e d) i m = Some t"
    using remark_one_time [OF Cons.prems] by blast
  with Cons.IH [OF this(2)] show ?case by fastforce
qed auto

lemma remark_one_ok: "dirty_ok d \<Longrightarrow> e_Modules e \<noteq> [] \<Longrightarrow> dirty_ok (remark_one now e d)"
proof -
  assume d: "dirty_ok d" and m: "e_Modules e \<noteq> []"
  define mods where "mods = (case map_of d (e_ID e) of Some ms \<Rightarrow> ms | None \<Rightarrow> [])"
  have "distinct (map fst mods)" using dirty_ok_lookup [OF d] by (auto simp: mods_def split: option.splits)
  moreover have "fold (remark_mod now (e_DirtyAt e)) (e_Modules e) mods \<noteq> []"
  proof
    assume "fold (remark_mod now (e_DirtyAt e)) (e_Modules e) mods = []"
    then have "map_of (fold (remark_mod now (e_DirtyAt e)) (e_Modules e) mods) (hd (e_Modules e)) = None" by simp
    then show False using m remark_mods_dom [of now "e_DirtyAt e" "e_Modules e" mods "hd (e_Modules e)"] by simp
  qed
  ultimately show ?thesis
    using d by (auto simp: remark_one_def Let_def remark_mods_distinct intro!: dirty_ok_update simp flip: mods_def)
qed

lemma ReMark_ok: "dirty_ok d \<Longrightarrow> \<forall>e \<in> set es. e_Modules e \<noteq> [] \<Longrightarrow> dirty_ok (ReMark now es d)"
  unfolding ReMark_def by (induction es arbitrary: d) (auto simp: remark_one_ok)

section \<open>Properties\<close>

text \<open>Taking dirty items of a level moves modules, it never loses one: every dirty module of the
  table is afterwards either still dirty with its old time or in exactly one returned item, the
  items hold only modules of that level, and the table invariant is kept, for any limit and any
  iteration order of the Go maps.\<close>

theorem take_partitions_dirty_modules:
  assumes "dirty_ok d" and "Take lv lim d = (its, d')"
  shows "dirty_ok d' \<and> dirty_pairs d = dirty_pairs d' \<union> item_pairs its \<and> dirty_pairs d' \<inter> item_pairs its = {}
    \<and> (\<forall>(i, m) \<in> item_pairs its. ModuleLevel m = lv)
    \<and> (\<forall>i m. (i, m) \<in> dirty_pairs d' \<longrightarrow> dirty_at d' i m = dirty_at d i m)"
  using Take_spec [OF assms] by (auto simp: taken_def)

theorem take_partitions_dirty_modules_witness:
  "dirty_pairs [(1, [(ModBase, 5), (ModMail, 3)]), (2, [(ModSocial, 4)])]
     = dirty_pairs [(1, [(ModMail, 3)]), (2, [(ModSocial, 4)])]
       \<union> item_pairs [\<lparr>it_ID = 1, it_Modules = [ModBase], it_DirtyAt = 5\<rparr>]"
  using take_partitions_dirty_modules [of "[(1, [(ModBase, 5), (ModMail, 3)]), (2, [(ModSocial, 4)])]" L1 0
      "[\<lparr>it_ID = 1, it_Modules = [ModBase], it_DirtyAt = 5\<rparr>]" "[(1, [(ModMail, 3)]), (2, [(ModSocial, 4)])]"]
  by (simp add: dirty_ok_def Take_def earliest_def)

text \<open>Marking failed entities dirty again restores every module of theirs and never makes a
  module look younger: what was dirty stays dirty with the same or an earlier time.\<close>

theorem remark_restores_and_never_rejuvenates:
  "dirty_pairs (ReMark now es d) = dirty_pairs d \<union> entity_pairs es
     \<and> (\<forall>i m t. dirty_at d i m = Some t \<longrightarrow> (\<exists>t' \<le> t. dirty_at (ReMark now es d) i m = Some t'))"
  using ReMark_pairs ReMark_time by blast

theorem remark_restores_and_never_rejuvenates_witness:
  "\<exists>t' \<le> 9. dirty_at (ReMark 100 [\<lparr>e_ID = 1, e_Keys = [], e_Hash = None, e_Modules = [ModBase], e_DirtyAt = 4\<rparr>]
      [(1, [(ModBase, 9)])]) 1 ModBase = Some t'"
proof -
  have "dirty_at [(1, [(ModBase, 9)])] 1 ModBase = Some 9" by (simp add: dirty_at_def)
  then show ?thesis using remark_restores_and_never_rejuvenates by blast
qed

end
