(* ===== verification/Flush.thy ===== *)
theory Flush
  imports Fencing Dirty
begin

text \<open>
  The flush IO pool, \<^verbatim>\<open>pkg/store/flush.go\<close>: the bounded queue that never blocks an
  actor, the pipelined write of a batch, the per-command check of its replies and the one retry
  after a Redis restart.

  What the environment decides is an argument: \<open>fate\<close> says for each pipelined command whether
  it was executed and answered, a schedule also carries what other clients did to the server just
  before the command, and the error of \<open>Exec\<close> is whatever the connection reported. Commands the
  schedule does not mention were never sent.

  Shown here: an entity that is not reported as failed is in Redis with all its keys, a batch of
  a stale owner changes nothing, and the queue respects its bound.
\<close>

section \<open>Data\<close>

record batch =
  b_Shard :: nat
  b_Epoch :: int
  b_Level :: Level
  b_Entities :: "entity list"

record flush_result =
  r_Shard :: nat
  r_Epoch :: int
  r_Level :: Level
  r_Failed :: "entity list"
  r_Err :: "go_err option"
  r_Fenced :: bool

record flusher =
  f_ch :: "batch list"
  f_cap :: nat
  f_workers :: int
  f_batchSz :: int

definition NewFlusher :: "int \<Rightarrow> int \<Rightarrow> int \<Rightarrow> flusher" where
  "NewFlusher chanSize workers batchSize =
     \<lparr>f_ch = [], f_cap = nat (if chanSize \<le> 0 then 512 else chanSize),
      f_workers = (if workers \<le> 0 then 4 else workers),
      f_batchSz = (if batchSize \<le> 0 then 128 else batchSize)\<rparr>"

definition Submit :: "batch option \<Rightarrow> flusher \<Rightarrow> flusher \<times> unit result" where
  "Submit ob f =
     (case ob of
        None \<Rightarrow> (f, Inr ())
      | Some b \<Rightarrow>
          if b_Entities b = [] then (f, Inr ())
          else if length (f_ch f) < f_cap f then (f\<lparr>f_ch := f_ch f @ [b]\<rparr>, Inr ())
          else (f, Inl ErrBacklog))"

definition GetShard :: "batch option \<Rightarrow> nat" where
  "GetShard ob = (case ob of None \<Rightarrow> 0 | Some b \<Rightarrow> b_Shard b)"

definition GetLevel :: "batch option \<Rightarrow> Level" where
  "GetLevel ob = (case ob of None \<Rightarrow> L1 | Some b \<Rightarrow> b_Level b)"

definition flusher_Pending :: "flusher \<Rightarrow> nat" where
  "flusher_Pending f = length (f_ch f)"

section \<open>The pipeline\<close>

text \<open>\<open>cmd.Result()\<close> after \<open>Exec\<close>: an integer, an error, or \<open>(nil, nil)\<close> when the connection
  broke.\<close>

datatype reply = IntReply int | ErrReply go_err | NilReply

datatype fate =
    Answered
  | Unanswered "go_err option" \<comment> \<open>executed, the reply never came\<close>
  | Unsent "go_err option" \<comment> \<open>not executed\<close>
  | NoScript \<comment> \<open>the server lost its script cache\<close>

type_synonym 'r cmd = "'r \<Rightarrow> 'r \<times> int option"
type_synonym 'r schedule = "(('r \<Rightarrow> 'r) \<times> fate) list"

definition lost_reply :: "go_err option \<Rightarrow> reply" where
  "lost_reply e = (case e of None \<Rightarrow> NilReply | Some x \<Rightarrow> ErrReply x)"

fun exec_cmd :: "fate \<Rightarrow> 'r cmd \<Rightarrow> 'r \<Rightarrow> 'r \<times> reply" where
  "exec_cmd Answered c s =
     (case c s of (s', Some n) \<Rightarrow> (s', IntReply n) | (s', None) \<Rightarrow> (s', ErrReply ErrRedis))"
| "exec_cmd (Unanswered e) c s = (fst (c s), lost_reply e)"
| "exec_cmd (Unsent e) c s = (s, lost_reply e)"
| "exec_cmd NoScript c s = (s, ErrReply ErrNoScript)"

fun exec_all :: "'r schedule \<Rightarrow> 'r cmd list \<Rightarrow> 'r \<Rightarrow> 'r \<times> reply list" where
  "exec_all sch [] s = (s, [])"
| "exec_all [] (c # cs) s = (let (s', rs) = exec_all [] cs s in (s', NilReply # rs))"
| "exec_all ((g, f) # sch) (c # cs) s =
     (let (s1, r) = exec_cmd f c (g s); (s2, rs) = exec_all sch cs s1 in (s2, r # rs))"

definition entity_cmds :: "'r redis \<Rightarrow> keys \<Rightarrow> batch \<Rightarrow> entity \<Rightarrow> 'r cmd list" where
  "entity_cmds R ks b e =
     (let ek = keys_Epoch ks (b_Shard b) in
      (if e_Keys e \<noteq> []
       then [scriptWriteModules R (ek # map fst (e_Keys e)) (show_int (b_Epoch b) # map snd (e_Keys e))]
       else [])
      @ (case e_Hash e of
           None \<Rightarrow> []
         | Some h \<Rightarrow>
             if hw_Fields h \<noteq> []
             then [scriptWriteHash R [ek, hw_Key h] ([show_int (b_Epoch b), show_int (hw_TTLSec h)] @ hw_Fields h)]
             else []))"

text \<open>The check of one reply: updates whether the entity is fine, whether the owner was fenced,
  and the first error.\<close>

fun check_reply :: "reply \<Rightarrow> bool \<times> bool \<times> go_err option \<Rightarrow> bool \<times> bool \<times> go_err option" where
  "check_reply (ErrReply x) (entOK, fenced, err) =
     (False, fenced, case err of None \<Rightarrow> Some x | Some y \<Rightarrow> Some y)"
| "check_reply NilReply (entOK, fenced, err) = (False, fenced, err)"
| "check_reply (IntReply n) (entOK, fenced, err) =
     (if n = 0 then (False, True, err) else if n \<noteq> 1 then (False, fenced, err) else (entOK, fenced, err))"

fun check_slots :: "(entity \<times> nat) list \<Rightarrow> reply list \<Rightarrow> entity list \<times> bool \<times> go_err option \<Rightarrow>
    entity list \<times> bool \<times> go_err option" where
  "check_slots [] rs acc = acc"
| "check_slots ((e, n) # slots) rs (failed, fenced, err) =
     (case fold check_reply (take n rs) (True, fenced, err) of
        (entOK, fenced', err') \<Rightarrow>
          check_slots slots (drop n rs) (if entOK then failed else failed @ [e], fenced', err'))"

definition pipeline :: "'r redis \<Rightarrow> keys \<Rightarrow> 'r schedule \<Rightarrow> go_err option \<Rightarrow> batch \<Rightarrow> 'r \<Rightarrow>
    'r \<times> entity list \<times> bool \<times> go_err option" where
  "pipeline R ks sch execErr b s =
     (let cmds = concat (map (entity_cmds R ks b) (b_Entities b));
          slots = map (\<lambda>e. (e, length (entity_cmds R ks b e))) (b_Entities b);
          (s', rs) = exec_all sch cmds s;
          (failed, fenced, firstErr) = check_slots slots rs ([], False, None)
      in (s', failed, fenced, case firstErr of None \<Rightarrow> execErr | Some x \<Rightarrow> Some x))"

definition isNoScript :: "go_err option \<Rightarrow> bool" where
  "isNoScript e \<longleftrightarrow> e = Some ErrNoScript"

text \<open>What the connection does during one write: two pipelines and whether the reload between
  them succeeds.\<close>

record 'r write_env =
  w_first :: "'r schedule"
  w_firstErr :: "go_err option"
  w_loaded :: bool
  w_second :: "'r schedule"
  w_secondErr :: "go_err option"

definition flusher_write :: "'r redis \<Rightarrow> keys \<Rightarrow> 'r write_env \<Rightarrow> batch \<Rightarrow> 'r \<Rightarrow> 'r \<times> flush_result" where
  "flusher_write R ks w b s =
     (let (s1, failed1, fenced1, err1) = pipeline R ks (w_first w) (w_firstErr w) b s;
          (s2, failed, fenced, err) =
            (if isNoScript err1 \<and> w_loaded w then pipeline R ks (w_second w) (w_secondErr w) b s1
             else (s1, failed1, fenced1, err1))
      in (s2, \<lparr>r_Shard = b_Shard b, r_Epoch = b_Epoch b, r_Level = b_Level b,
              r_Failed = failed, r_Err = err, r_Fenced = fenced\<rparr>))"

definition SubmitSync :: "'r redis \<Rightarrow> keys \<Rightarrow> 'r write_env \<Rightarrow> batch option \<Rightarrow> 'r \<Rightarrow> 'r \<times> flush_result" where
  "SubmitSync R ks w ob s =
     (let empty = \<lparr>r_Shard = GetShard ob, r_Epoch = 0, r_Level = GetLevel ob, r_Failed = [],
                   r_Err = None, r_Fenced = False\<rparr> in
      case ob of
        None \<Rightarrow> (s, empty)
      | Some b \<Rightarrow> if b_Entities b = [] then (s, empty) else flusher_write R ks w b s)"

text \<open>One turn of a worker: the oldest batch leaves the queue and is written, and its result is
  what \<open>onResult\<close> receives.\<close>

definition worker_step :: "'r redis \<Rightarrow> keys \<Rightarrow> 'r write_env \<Rightarrow> flusher \<Rightarrow> 'r \<Rightarrow>
    flusher \<times> 'r \<times> flush_result option" where
  "worker_step R ks w f s =
     (case f_ch f of
        [] \<Rightarrow> (f, s, None)
      | b # bs \<Rightarrow> (let (s', res) = flusher_write R ks w b s in (f\<lparr>f_ch := bs\<rparr>, s', Some res)))"

text \<open>Draining after \<open>Stop\<close>: the queue is emptied before the worker ends.\<close>

fun drain :: "'r redis \<Rightarrow> keys \<Rightarrow> (nat \<Rightarrow> 'r write_env) \<Rightarrow> batch list \<Rightarrow> 'r \<Rightarrow> 'r \<times> flush_result list" where
  "drain R ks W [] s = (s, [])"
| "drain R ks W (b # bs) s =
     (let (s1, r) = flusher_write R ks (W 0) b s; (s2, rs) = drain R ks (\<lambda>n. W (Suc n)) bs s1 in (s2, r # rs))"

section \<open>Executing a pipeline\<close>

lemma exec_all_Cons:
  "exec_all ((g, f) # sch) (c # cs) s =
     (fst (exec_all sch cs (fst (exec_cmd f c (g s)))),
      snd (exec_cmd f c (g s)) # snd (exec_all sch cs (fst (exec_cmd f c (g s)))))"
  "exec_all [] (c # cs) s = (fst (exec_all [] cs s), NilReply # snd (exec_all [] cs s))"
  by (simp_all add: split_beta Let_def)

declare exec_all.simps(2,3) [simp del]

lemma exec_all_induct [case_names Nil Unscheduled Step]:
  assumes "\<And>sch s. Q sch [] s" and "\<And>c cs s. Q [] cs s \<Longrightarrow> Q [] (c # cs) s"
    and "\<And>g f sch c cs s. Q sch cs (fst (exec_cmd f c (g s))) \<Longrightarrow> Q ((g, f) # sch) (c # cs) s"
  shows "Q sch cs s"
proof (induction cs arbitrary: sch s)
  case (Cons c cs)
  then show ?case using assms(2,3) by (cases sch) auto
qed (rule assms(1))

lemma exec_all_length: "length (snd (exec_all sch cs s)) = length cs"
  by (induction sch cs s rule: exec_all_induct) (simp_all add: exec_all_Cons)

lemma exec_cmd_state: "fst (exec_cmd f c s) = s \<or> fst (exec_cmd f c s) = fst (c s)"
  by (cases f) (auto split: prod.splits option.splits)

lemma exec_cmd_int: "exec_cmd f c s = (s', IntReply n) \<Longrightarrow> f = Answered \<and> c s = (s', Some n)"
  by (cases f) (auto simp: lost_reply_def split: prod.splits option.splits)

text \<open>A predicate that neither the commands nor the other clients destroy survives a pipeline.\<close>

definition preserves :: "('r \<Rightarrow> bool) \<Rightarrow> ('r \<Rightarrow> 'r) set \<Rightarrow> bool" where
  "preserves P G \<longleftrightarrow> (\<forall>g \<in> G. \<forall>s. P s \<longrightarrow> P (g s))"

abbreviation cmd_effects :: "'r cmd list \<Rightarrow> ('r \<Rightarrow> 'r) set" where
  "cmd_effects cs \<equiv> (\<lambda>c s. fst (c s)) ` set cs"

abbreviation others :: "'r schedule \<Rightarrow> ('r \<Rightarrow> 'r) set" where
  "others sch \<equiv> fst ` set sch"

lemma exec_all_stable:
  "preserves P (cmd_effects cs) \<Longrightarrow> preserves P (others sch) \<Longrightarrow> P s \<Longrightarrow> P (fst (exec_all sch cs s))"
proof (induction sch cs s rule: exec_all_induct)
  case (Step g f sch c cs s)
  have "P (fst (exec_cmd f c (g s)))"
    using Step.prems exec_cmd_state [of f c "g s"] by (auto simp: preserves_def)
  then have "P (fst (exec_all sch cs (fst (exec_cmd f c (g s)))))"
    by (rule Step.IH [rotated 2]) (use Step.prems in \<open>auto simp: preserves_def\<close>)
  then show ?case by (simp add: exec_all_Cons)
qed (simp_all add: exec_all_Cons preserves_def)

text \<open>What a command establishes when it answers \<open>r\<close> still holds at the end if such an answer
  arrived and nobody destroys it.\<close>

lemma exec_all_post:
  "(c, IntReply r) \<in> set (zip cs (snd (exec_all sch cs s))) \<Longrightarrow> \<forall>s s'. c s = (s', Some r) \<longrightarrow> P s' \<Longrightarrow>
   preserves P (cmd_effects cs) \<Longrightarrow> preserves P (others sch) \<Longrightarrow> P (fst (exec_all sch cs s))"
proof (induction sch cs s rule: exec_all_induct)
  case (Step g f sch d cs s)
  let ?s = "fst (exec_cmd f d (g s))"
  have pres: "preserves P (cmd_effects cs)" "preserves P (others sch)"
    using Step.prems(3,4) by (simp_all add: preserves_def)
  have "(c = d \<and> IntReply r = snd (exec_cmd f d (g s))) \<or> (c, IntReply r) \<in> set (zip cs (snd (exec_all sch cs ?s)))"
    using Step.prems(1) by (simp add: exec_all_Cons)
  then have "P (fst (exec_all sch cs ?s))"
  proof (elim disjE)
    assume 1: "c = d \<and> IntReply r = snd (exec_cmd f d (g s))"
    then have "exec_cmd f c (g s) = (?s, IntReply r)" by (simp add: prod_eq_iff)
    from exec_cmd_int [OF this] have "c (g s) = (?s, Some r)" ..
    then have "P ?s" using Step.prems(2) by blast
    then show ?thesis by (rule exec_all_stable [OF pres])
  next
    assume 2: "(c, IntReply r) \<in> set (zip cs (snd (exec_all sch cs ?s)))"
    show ?thesis by (rule Step.IH [OF 2 Step.prems(2) pres])
  qed
  then show ?case by (simp add: exec_all_Cons)
next
  case (Unscheduled d cs s)
  have "(c, IntReply r) \<in> set (zip cs (snd (exec_all [] cs s)))"
    using Unscheduled.prems(1) by (simp add: exec_all_Cons)
  then have "P (fst (exec_all [] cs s))"
    by (rule Unscheduled.IH [OF _ Unscheduled.prems(2)]) (use Unscheduled.prems(3) in \<open>simp_all add: preserves_def\<close>)
  then show ?case by (simp add: exec_all_Cons)
qed simp

section \<open>Checking the replies\<close>

lemma check_replies_ok:
  "fold check_reply rs (ok, fc, er) = (True, fc', er') \<Longrightarrow> ok \<and> set rs \<subseteq> {IntReply 1}"
proof (induction rs arbitrary: ok fc er)
  case (Cons r rs)
  obtain ok1 fc1 er1 where c: "check_reply r (ok, fc, er) = (ok1, fc1, er1)" by (metis prod_cases3)
  then have "ok1" "set rs \<subseteq> {IntReply 1}" using Cons.IH [of ok1 fc1 er1] Cons.prems by auto
  with c show ?case by (cases r) (auto split: if_splits)
qed simp

lemma check_slots_grow: "check_slots slots rs (fl, fc, er) = (fl', fc', er') \<Longrightarrow> set fl \<subseteq> set fl'"
proof (induction slots rs "(fl, fc, er)" arbitrary: fl fc er rule: check_slots.induct)
  case (2 e n slots rs failed fenced err)
  obtain ok fc1 er1 where c: "fold check_reply (take n rs) (True, fenced, err) = (ok, fc1, er1)" by (metis prod_cases3)
  then have "set (if ok then failed else failed @ [e]) \<subseteq> set fl'" using 2 by auto
  then show ?case by (cases ok) auto
qed simp

lemma check_slots_ok:
  assumes "check_slots (map (\<lambda>e. (e, length (F e))) es) rs (fl, fc, er) = (fl', fc', er')"
    and "length rs = length (concat (map F es))" and "e \<in> set es" "e \<notin> set fl'" "c \<in> set (F e)"
  shows "(c, IntReply 1) \<in> set (zip (concat (map F es)) rs)"
  using assms
proof (induction es arbitrary: rs fl fc er)
  case (Cons x es)
  obtain ok fc1 er1 where k: "fold check_reply (take (length (F x)) rs) (True, fc, er) = (ok, fc1, er1)"
    by (metis prod_cases3)
  let ?fl = "if ok then fl else fl @ [x]"
  have rest: "check_slots (map (\<lambda>e. (e, length (F e))) es) (drop (length (F x)) rs) (?fl, fc1, er1) = (fl', fc', er')"
    using Cons.prems(1) k by simp
  have split: "zip (concat (map F (x # es))) rs
      = zip (F x) (take (length (F x)) rs) @ zip (concat (map F es)) (drop (length (F x)) rs)"
    by (simp add: zip_append1)
  have sub: "set (zip (F x) (take (length (F x)) rs)) \<union> set (zip (concat (map F es)) (drop (length (F x)) rs))
      = set (zip (concat (map F (x # es))) rs)"
    unfolding split by simp
  show ?case
  proof (cases "e = x")
    case True
    have "x \<notin> set ?fl" using check_slots_grow [OF rest] Cons.prems(4) True by blast
    then have ok by (cases ok) auto
    then have ones: "set (take (length (F x)) rs) \<subseteq> {IntReply 1}" using check_replies_ok k by auto
    obtain i where i: "i < length (F x)" "F x ! i = c" using Cons.prems(5) True by (metis in_set_conv_nth)
    moreover have "length (take (length (F x)) rs) = length (F x)" using Cons.prems(2) by simp
    ultimately have "take (length (F x)) rs ! i = IntReply 1" using ones by (metis insertE nth_mem singletonD subsetD)
    with i Cons.prems(2) have "(c, IntReply 1) \<in> set (zip (F x) (take (length (F x)) rs))"
      by (fastforce simp: set_zip)
    then show ?thesis using sub by blast
  next
    case False
    then have "(c, IntReply 1) \<in> set (zip (concat (map F es)) (drop (length (F x)) rs))"
      using Cons.IH [OF rest] Cons.prems by simp
    then show ?thesis using sub by blast
  qed
qed simp

section \<open>What a batch writes\<close>

text \<open>The keys an entity writes, and the precondition the callers meet: different entities write
  different keys, an entity's keys are pairwise different, and none is an epoch key.\<close>

definition entity_keys :: "entity \<Rightarrow> string set" where
  "entity_keys e = fst ` set (e_Keys e) \<union> (case e_Hash e of None \<Rightarrow> {} | Some h \<Rightarrow> {hw_Key h})"

definition batch_keys_ok :: "batch \<Rightarrow> bool" where
  "batch_keys_ok b \<longleftrightarrow>
     (\<forall>e \<in> set (b_Entities b).
        distinct (map fst (e_Keys e)) \<and>
        (case e_Hash e of None \<Rightarrow> True | Some h \<Rightarrow> hw_Key h \<notin> fst ` set (e_Keys e)) \<and>
        (\<forall>e' \<in> set (b_Entities b). e \<noteq> e' \<longrightarrow> entity_keys e \<inter> entity_keys e' = {}))"

definition keeps_keys :: "'r redis \<Rightarrow> string set \<Rightarrow> 'r schedule \<Rightarrow> bool" where
  "keeps_keys R X sch \<longleftrightarrow> (\<forall>g \<in> others sch. \<forall>s. \<forall>k \<in> X. view R (g s) k = view R s k)"

text \<open>An entity that is stored: its module keys and the fields of its hash.\<close>

definition keys_stored :: "'r redis \<Rightarrow> entity \<Rightarrow> 'r \<Rightarrow> bool" where
  "keys_stored R e s \<longleftrightarrow> (\<forall>(k, v) \<in> set (e_Keys e). GET R s k = Some v)"

definition hash_stored :: "'r redis \<Rightarrow> hash_write \<Rightarrow> 'r \<Rightarrow> bool" where
  "hash_stored R h s \<longleftrightarrow> (\<exists>fs. pair_up (hw_Fields h) = Some fs \<and> map_of (rev fs) \<subseteq>\<^sub>m HGET R s (hw_Key h))"

definition entity_stored :: "'r redis \<Rightarrow> entity \<Rightarrow> 'r \<Rightarrow> bool" where
  "entity_stored R e s \<longleftrightarrow> keys_stored R e s \<and> (case e_Hash e of None \<Rightarrow> True | Some h \<Rightarrow> hash_stored R h s)"

definition batch_cmds :: "'r redis \<Rightarrow> keys \<Rightarrow> batch \<Rightarrow> 'r cmd list" where
  "batch_cmds R ks b = concat (map (entity_cmds R ks b) (b_Entities b))"

definition mods_cmd :: "'r redis \<Rightarrow> keys \<Rightarrow> batch \<Rightarrow> entity \<Rightarrow> 'r cmd" where
  "mods_cmd R ks b e = scriptWriteModules R (keys_Epoch ks (b_Shard b) # map fst (e_Keys e))
     (show_int (b_Epoch b) # map snd (e_Keys e))"

definition hash_cmd :: "'r redis \<Rightarrow> keys \<Rightarrow> batch \<Rightarrow> hash_write \<Rightarrow> 'r cmd" where
  "hash_cmd R ks b h = scriptWriteHash R [keys_Epoch ks (b_Shard b), hw_Key h]
     ([show_int (b_Epoch b), show_int (hw_TTLSec h)] @ hw_Fields h)"

lemma entity_cmds_eq:
  "entity_cmds R ks b e = (if e_Keys e \<noteq> [] then [mods_cmd R ks b e] else [])
     @ (case e_Hash e of None \<Rightarrow> [] | Some h \<Rightarrow> if hw_Fields h \<noteq> [] then [hash_cmd R ks b h] else [])"
  by (simp add: entity_cmds_def Let_def mods_cmd_def hash_cmd_def split: option.split)

lemma hash_cmd_eq:
  "hash_cmd R ks b h s =
     (case num_or0 R s (keys_Epoch ks (b_Shard b)) of
        None \<Rightarrow> (s, None)
      | Some c \<Rightarrow>
          if c > b_Epoch b then (s, Some 0)
          else case pair_up (hw_Fields h) of
                 None \<Rightarrow> (s, None)
               | Some fs \<Rightarrow>
                   (let s1 = (if hw_Fields h \<noteq> [] then HSET R s (hw_Key h) fs else s)
                    in (if hw_TTLSec h > 0 then EXPIRE R s1 (hw_Key h) (hw_TTLSec h) else s1, Some 1)))"
  by (simp add: hash_cmd_def scriptWriteHash_def epoch_stale_Cons Let_def split: option.splits)

context redis_api
begin

lemma mods_cmd_frame: "k \<notin> fst ` set (e_Keys e) \<Longrightarrow> view R (fst (mods_cmd R ks b e s)) k = view R s k"
  by (auto simp: mods_cmd_def scriptWriteModules_kv view_set_all split: option.splits)

lemma hash_cmd_frame: "k \<noteq> hw_Key h \<Longrightarrow> view R (fst (hash_cmd R ks b h s)) k = view R s k"
  by (auto simp: hash_cmd_eq Let_def frame_hset frame_expire split: option.splits)

lemma entity_cmds_frame:
  "c \<in> set (entity_cmds R ks b e) \<Longrightarrow> k \<notin> entity_keys e \<Longrightarrow> view R (fst (c s)) k = view R s k"
  by (auto simp: entity_cmds_eq entity_keys_def mods_cmd_frame hash_cmd_frame split: if_splits option.splits)

lemma keys_stored_cong:
  "\<forall>k \<in> fst ` set (e_Keys e). view R s' k = view R s k \<Longrightarrow> keys_stored R e s' = keys_stored R e s"
  by (fastforce simp: keys_stored_def view_def)

lemma keys_stored_frame:
  "\<forall>k \<in> entity_keys e. view R s' k = view R s k \<Longrightarrow> keys_stored R e s \<Longrightarrow> keys_stored R e s'"
  using keys_stored_cong [of e s' s] by (simp add: entity_keys_def ball_Un)

lemma hash_stored_frame: "view R s' (hw_Key h) = view R s (hw_Key h) \<Longrightarrow> hash_stored R h s \<Longrightarrow> hash_stored R h s'"
  by (simp add: hash_stored_def view_def)

lemma mods_cmd_stores:
  assumes "distinct (map fst (e_Keys e))"
  shows "mods_cmd R ks b e s = (s', Some 1) \<Longrightarrow> keys_stored R e s'"
    and "keys_stored R e s \<Longrightarrow> keys_stored R e (fst (mods_cmd R ks b e s))"
proof -
  have "keys_stored R e (set_all R (e_Keys e) s)" using assms by (auto simp: keys_stored_def get_set_all)
  then show "mods_cmd R ks b e s = (s', Some 1) \<Longrightarrow> keys_stored R e s'"
    "keys_stored R e s \<Longrightarrow> keys_stored R e (fst (mods_cmd R ks b e s))"
    by (auto simp: mods_cmd_def scriptWriteModules_kv split: option.splits if_splits)
qed

lemma hash_cmd_stores:
  assumes "hw_Fields h \<noteq> []"
  shows "hash_cmd R ks b h s = (s', Some 1) \<Longrightarrow> hash_stored R h s'"
    and "hash_stored R h s \<Longrightarrow> hash_stored R h (fst (hash_cmd R ks b h s))"
proof -
  have h: "HGET R (EXPIRE R s1 (hw_Key h) (hw_TTLSec h)) = HGET R s1" for s1
    using frame_expire [of s1 "hw_Key h" "hw_TTLSec h"] by (auto simp: view_def)
  show "hash_cmd R ks b h s = (s', Some 1) \<Longrightarrow> hash_stored R h s'"
    "hash_stored R h s \<Longrightarrow> hash_stored R h (fst (hash_cmd R ks b h s))"
    using assms
    by (auto simp: hash_cmd_eq hash_stored_def h hget_hset Let_def map_le_def map_add_def dom_def
        split: option.splits if_splits)
qed

lemma batch_cmds_preserve:
  assumes ok: "batch_keys_ok b" and e: "e \<in> set (b_Entities b)"
  shows "preserves (keys_stored R e) (cmd_effects (batch_cmds R ks b))"
    and "e_Hash e = Some h \<Longrightarrow> hw_Fields h \<noteq> [] \<Longrightarrow> preserves (hash_stored R h) (cmd_effects (batch_cmds R ks b))"
proof -
  have other: "view R (fst (c s)) k = view R s k"
    if "e' \<in> set (b_Entities b)" "e' \<noteq> e" "c \<in> set (entity_cmds R ks b e')" "k \<in> entity_keys e" for e' c s k
    using that ok e by (intro entity_cmds_frame [OF that(3)]) (auto simp: batch_keys_ok_def)
  note okE = ok [unfolded batch_keys_ok_def, rule_format, OF e]
  have own: "keys_stored R e (fst (c s))" if c: "c \<in> set (entity_cmds R ks b e)" and s: "keys_stored R e s" for c s
  proof (cases "c = mods_cmd R ks b e")
    case True
    then show ?thesis using mods_cmd_stores(2) okE s by blast
  next
    case False
    then obtain h where h: "e_Hash e = Some h" "c = hash_cmd R ks b h"
      using c by (cases "e_Hash e") (auto simp: entity_cmds_eq split: if_splits)
    have "\<forall>k \<in> fst ` set (e_Keys e). view R (fst (c s)) k = view R s k"
      using okE h by (auto simp: hash_cmd_frame image_iff)
    then show ?thesis using s keys_stored_cong by blast
  qed
  have "keys_stored R e (fst (c s))" if c: "c \<in> set (batch_cmds R ks b)" and s: "keys_stored R e s" for c s
  proof -
    obtain e' where e': "e' \<in> set (b_Entities b)" "c \<in> set (entity_cmds R ks b e')"
      using c by (auto simp: batch_cmds_def)
    show ?thesis
    proof (cases "e' = e")
      case True
      then show ?thesis using own e' s by simp
    next
      case False
      then show ?thesis using other e' by (intro keys_stored_frame [OF _ s]) blast
    qed
  qed
  then show "preserves (keys_stored R e) (cmd_effects (batch_cmds R ks b))" by (auto simp: preserves_def)
  have own_h: "hash_stored R h (fst (c s))"
    if h: "e_Hash e = Some h" "hw_Fields h \<noteq> []" and c: "c \<in> set (entity_cmds R ks b e)" and s: "hash_stored R h s" for h c s
  proof (cases "c = hash_cmd R ks b h")
    case True
    then show ?thesis using hash_cmd_stores(2) h s by blast
  next
    case False
    then have "c = mods_cmd R ks b e" using c h by (auto simp: entity_cmds_eq split: if_splits)
    then show ?thesis using okE h s by (auto intro: hash_stored_frame mods_cmd_frame)
  qed
  show "preserves (hash_stored R h) (cmd_effects (batch_cmds R ks b))" if h: "e_Hash e = Some h" "hw_Fields h \<noteq> []"
  proof -
    have key: "hw_Key h \<in> entity_keys e" using h by (simp add: entity_keys_def)
    have "hash_stored R h (fst (c s))" if c: "c \<in> set (batch_cmds R ks b)" and s: "hash_stored R h s" for c s
    proof -
      obtain e' where e': "e' \<in> set (b_Entities b)" "c \<in> set (entity_cmds R ks b e')"
        using c by (auto simp: batch_cmds_def)
      show ?thesis
      proof (cases "e' = e")
        case True
        then show ?thesis using own_h [OF h] e' s by simp
      next
        case False
        then show ?thesis using other e' key by (intro hash_stored_frame [OF _ s]) blast
      qed
    qed
    then show ?thesis by (auto simp: preserves_def)
  qed
qed

text \<open>An entity the check does not report has been stored.\<close>

lemma pipeline_stores:
  assumes ok: "batch_keys_ok b" and quiet: "keeps_keys R (\<Union> (entity_keys ` set (b_Entities b))) sch"
    and p: "pipeline R ks sch ex b s = (s', failed, fc, er)" and e: "e \<in> set (b_Entities b)" "e \<notin> set failed"
  shows "entity_stored R e s'"
proof -
  let ?cs = "batch_cmds R ks b"
  have ex: "s' = fst (exec_all sch ?cs s)"
    and ck: "\<exists>er0. check_slots (map (\<lambda>e. (e, length (entity_cmds R ks b e))) (b_Entities b))
        (snd (exec_all sch ?cs s)) ([], False, None) = (failed, fc, er0)"
    using p by (auto simp: pipeline_def Let_def batch_cmds_def split: prod.splits)
  have one: "(c, IntReply 1) \<in> set (zip ?cs (snd (exec_all sch ?cs s)))" if c: "c \<in> set (entity_cmds R ks b e)" for c
    using ck check_slots_ok [where F = "entity_cmds R ks b", OF _ _ e c] exec_all_length [of sch ?cs s]
    unfolding batch_cmds_def by blast
  have quiet_e: "\<forall>k \<in> entity_keys e. view R (g s) k = view R s k" if "g \<in> others sch" for g s
    using quiet e(1) that unfolding keeps_keys_def by blast
  have q: "preserves (keys_stored R e) (others sch)"
    unfolding preserves_def using keys_stored_frame [OF quiet_e] by blast
  have "keys_stored R e s'"
  proof (cases "e_Keys e = []")
    case False
    then have m: "mods_cmd R ks b e \<in> set (entity_cmds R ks b e)" by (simp add: entity_cmds_eq)
    have d: "distinct (map fst (e_Keys e))" using ok e(1) by (simp add: batch_keys_ok_def)
    show ?thesis unfolding ex
      by (rule exec_all_post [where P = "keys_stored R e", OF one [OF m] _ batch_cmds_preserve(1) [OF ok e(1)] q])
        (blast intro: mods_cmd_stores(1) [OF d])
  qed (simp add: keys_stored_def)
  moreover have "hash_stored R h s'" if h: "e_Hash e = Some h" for h
  proof (cases "hw_Fields h = []")
    case False
    have key: "hw_Key h \<in> entity_keys e" using h by (simp add: entity_keys_def)
    have qh: "preserves (hash_stored R h) (others sch)"
      unfolding preserves_def using hash_stored_frame [OF quiet_e [rule_format, OF _ key]] by blast
    have m: "hash_cmd R ks b h \<in> set (entity_cmds R ks b e)" using h False by (simp add: entity_cmds_eq)
    show ?thesis unfolding ex
      by (rule exec_all_post [where P = "hash_stored R h", OF one [OF m] _ batch_cmds_preserve(2) [OF ok e(1) h False] qh])
        (blast intro: hash_cmd_stores(1) [OF False])
  qed (simp add: hash_stored_def)
  ultimately show ?thesis by (simp add: entity_stored_def split: option.split)
qed

end

section \<open>A stale owner\<close>

definition keeps_epoch :: "'r redis \<Rightarrow> keys \<Rightarrow> nat \<Rightarrow> 'r schedule \<Rightarrow> bool" where
  "keeps_epoch R ks sh sch \<longleftrightarrow>
     (\<forall>g \<in> others sch. \<forall>s c. epoch_num R ks s sh = Some c \<longrightarrow> (\<exists>c' \<ge> c. epoch_num R ks (g s) sh = Some c'))"

text \<open>Against a newer epoch every command of a batch leaves the server alone and answers 0.\<close>

lemma batch_cmd_stale:
  "c \<in> set (batch_cmds R ks b) \<Longrightarrow> epoch_num R ks s (b_Shard b) = Some n \<Longrightarrow> b_Epoch b < n \<Longrightarrow> c s = (s, Some 0)"
  by (auto simp: batch_cmds_def entity_cmds_eq mods_cmd_def scriptWriteModules_kv hash_cmd_eq split: if_splits option.splits)

lemma exec_all_stale:
  assumes "\<forall>c \<in> set cs. \<forall>s n. epoch_num R ks s sh = Some n \<longrightarrow> e < n \<longrightarrow> c s = (s, Some 0)"
    and "keeps_epoch R ks sh sch" "keeps_keys R X sch" "epoch_num R ks s sh = Some n" "e < n"
  shows "(\<forall>k \<in> X. view R (fst (exec_all sch cs s)) k = view R s k)
    \<and> (\<exists>n' \<ge> n. epoch_num R ks (fst (exec_all sch cs s)) sh = Some n')
    \<and> IntReply 1 \<notin> set (snd (exec_all sch cs s))"
  using assms
proof (induction sch cs s arbitrary: n rule: exec_all_induct)
  case (Step g f sch c cs s)
  have "\<exists>m \<ge> n. epoch_num R ks (g s) sh = Some m"
    using Step.prems(2,4) by (simp add: keeps_epoch_def)
  then obtain m where m: "m \<ge> n" "epoch_num R ks (g s) sh = Some m" by blast
  then have c: "c (g s) = (g s, Some 0)" using Step.prems(1,5) by auto
  then have s1: "fst (exec_cmd f c (g s)) = g s" "snd (exec_cmd f c (g s)) \<noteq> IntReply 1"
    by (cases f; auto simp: lost_reply_def split: option.splits)+
  have kk: "keeps_keys R X sch" "keeps_epoch R ks sh sch" and v: "\<forall>k \<in> X. view R (g s) k = view R s k"
    using Step.prems(2,3) by (auto simp: keeps_keys_def keeps_epoch_def)
  from Step.IH [of m] s1 kk m Step.prems(1,5) v show ?case by (auto simp: exec_all_Cons)
next
  case (Unscheduled c cs s)
  then show ?case by (simp add: exec_all_Cons)
qed auto

lemma write_is_pipeline:
  assumes "flusher_write R ks w b s = (s', res)"
  obtains sch ex s0 where "pipeline R ks sch ex b s0 = (s', r_Failed res, r_Fenced res, r_Err res)"
    and "(sch = w_first w \<and> s0 = s) \<or> (sch = w_second w \<and> s0 = fst (exec_all (w_first w) (batch_cmds R ks b) s))"
proof -
  obtain s1 f1 c1 e1 where p1: "pipeline R ks (w_first w) (w_firstErr w) b s = (s1, f1, c1, e1)" by (metis prod_cases4)
  have s1: "s1 = fst (exec_all (w_first w) (batch_cmds R ks b) s)"
    using p1 by (auto simp: pipeline_def Let_def batch_cmds_def split: prod.splits)
  show ?thesis
  proof (cases "isNoScript e1 \<and> w_loaded w")
    case True
    then show ?thesis using that [of "w_second w" "w_secondErr w" s1] assms p1 s1
      by (auto simp: flusher_write_def split: prod.splits)
  next
    case False
    then show ?thesis using that [of "w_first w" "w_firstErr w" s] assms p1
      by (auto simp: flusher_write_def split: prod.splits)
  qed
qed

lemma pipeline_stale:
  assumes "keeps_epoch R ks (b_Shard b) sch" "keeps_keys R X sch"
    and "epoch_num R ks s (b_Shard b) = Some n" "b_Epoch b < n"
    and p: "pipeline R ks sch ex b s = (s', failed, fc, er)"
  shows "(\<forall>k \<in> X. view R s' k = view R s k) \<and> (\<exists>n' \<ge> n. epoch_num R ks s' (b_Shard b) = Some n')
    \<and> (\<forall>e \<in> set (b_Entities b). entity_cmds R ks b e \<noteq> [] \<longrightarrow> e \<in> set failed)"
proof -
  let ?x = "exec_all sch (batch_cmds R ks b) s"
  have st: "(\<forall>k \<in> X. view R (fst ?x) k = view R s k) \<and> (\<exists>n' \<ge> n. epoch_num R ks (fst ?x) (b_Shard b) = Some n')
      \<and> IntReply 1 \<notin> set (snd ?x)"
    using batch_cmd_stale [of _ R ks b] assms(1-4) by (intro exec_all_stale [where e = "b_Epoch b"]) auto
  have ex: "s' = fst ?x"
    and ck: "\<exists>er0. check_slots (map (\<lambda>e. (e, length (entity_cmds R ks b e))) (b_Entities b)) (snd ?x) ([], False, None)
        = (failed, fc, er0)"
    using p by (auto simp: pipeline_def Let_def batch_cmds_def split: prod.splits)
  have len: "length (snd ?x) = length (concat (map (entity_cmds R ks b) (b_Entities b)))"
    using exec_all_length [of sch "batch_cmds R ks b" s] by (simp only: batch_cmds_def)
  have "e \<in> set failed" if e: "e \<in> set (b_Entities b)" "entity_cmds R ks b e \<noteq> []" for e
  proof (rule ccontr)
    assume nf: "e \<notin> set failed"
    obtain c where c: "c \<in> set (entity_cmds R ks b e)" using e(2) by (meson last_in_set)
    obtain er0 where k: "check_slots (map (\<lambda>e. (e, length (entity_cmds R ks b e))) (b_Entities b)) (snd ?x) ([], False, None)
        = (failed, fc, er0)" using ck by blast
    have "(c, IntReply 1) \<in> set (zip (concat (map (entity_cmds R ks b) (b_Entities b))) (snd ?x))"
      by (rule check_slots_ok [where F = "entity_cmds R ks b", OF k len e(1) nf c])
    with st show False by (auto dest: set_zip_rightD)
  qed
  with st ex show ?thesis by blast
qed

lemma check_fenced:
  "fold check_reply rs (ok, fc, er) = (ok', True, er') \<Longrightarrow> fc \<or> IntReply 0 \<in> set rs"
proof (induction rs arbitrary: ok fc er)
  case (Cons r rs)
  obtain ok1 fc1 er1 where c: "check_reply r (ok, fc, er) = (ok1, fc1, er1)" by (metis prod_cases3)
  then have "fc1 \<or> IntReply 0 \<in> set rs" using Cons.IH [of ok1 fc1 er1] Cons.prems by auto
  with c show ?case by (cases r) (auto split: if_splits)
qed simp

lemma check_slots_fenced:
  "check_slots slots rs (fl, fc, er) = (fl', True, er') \<Longrightarrow> fc \<or> IntReply 0 \<in> set rs"
proof (induction slots rs "(fl, fc, er)" arbitrary: fl fc er rule: check_slots.induct)
  case (2 e n slots rs failed fenced err)
  obtain ok fc1 er1 where c: "fold check_reply (take n rs) (True, fenced, err) = (ok, fc1, er1)" by (metis prod_cases3)
  then have "fc1 \<or> IntReply 0 \<in> set (drop n rs)" using 2 by auto
  then show ?case using check_fenced [of "take n rs" True fenced err ok er1] c by (auto dest: in_set_takeD in_set_dropD)
qed simp

lemma keeps_append [simp]:
  "keeps_keys R X (sch1 @ sch2) \<longleftrightarrow> keeps_keys R X sch1 \<and> keeps_keys R X sch2"
  "keeps_epoch R ks sh (sch1 @ sch2) \<longleftrightarrow> keeps_epoch R ks sh sch1 \<and> keeps_epoch R ks sh sch2"
  unfolding keeps_keys_def keeps_epoch_def set_append image_Un ball_Un by (rule refl)+

text \<open>The owner of a batch has been superseded.\<close>

definition superseded :: "'r redis \<Rightarrow> keys \<Rightarrow> batch \<Rightarrow> 'r \<Rightarrow> bool" where
  "superseded R ks b s \<longleftrightarrow> (\<exists>n. epoch_num R ks s (b_Shard b) = Some n \<and> b_Epoch b < n)"

lemma batch_cmd_zero: "c \<in> set (batch_cmds R ks b) \<Longrightarrow> c s = (s', Some 0) \<Longrightarrow> superseded R ks b s'"
  by (auto simp: batch_cmds_def entity_cmds_eq mods_cmd_def scriptWriteModules_kv hash_cmd_eq superseded_def Let_def
      split: if_splits option.splits)

lemma keeps_epoch_superseded: "keeps_epoch R ks (b_Shard b) sch \<Longrightarrow> preserves (superseded R ks b) (others sch)"
  unfolding keeps_epoch_def preserves_def superseded_def by (meson order_less_le_trans)

context redis_api
begin

lemma batch_cmds_superseded:
  assumes "\<forall>e \<in> set (b_Entities b). data_keys ks (entity_keys e)"
  shows "preserves (superseded R ks b) (cmd_effects (batch_cmds R ks b))"
proof -
  have frame: "view R (fst (c s)) (keys_Epoch ks (b_Shard b)) = view R s (keys_Epoch ks (b_Shard b))"
    if c: "c \<in> set (batch_cmds R ks b)" for c s
  proof -
    obtain e where e: "e \<in> set (b_Entities b)" "c \<in> set (entity_cmds R ks b e)"
      using c by (auto simp: batch_cmds_def)
    with assms have "keys_Epoch ks (b_Shard b) \<notin> entity_keys e" by (auto simp: data_keys_def)
    then show ?thesis by (rule entity_cmds_frame [OF e(2)])
  qed
  have "superseded R ks b (fst (c s)) = superseded R ks b s" if "c \<in> set (batch_cmds R ks b)" for c s
    unfolding superseded_def by (simp only: num_or0_view [OF frame [OF that]])
  then show ?thesis by (simp add: preserves_def)
qed

lemma pipeline_fenced:
  assumes "\<forall>e \<in> set (b_Entities b). data_keys ks (entity_keys e)" "keeps_epoch R ks (b_Shard b) sch"
    and p: "pipeline R ks sch ex b s = (s', failed, True, er)"
  shows "superseded R ks b s'"
proof -
  let ?cs = "batch_cmds R ks b"
  have ex: "s' = fst (exec_all sch ?cs s)"
    and ck: "\<exists>er0. check_slots (map (\<lambda>e. (e, length (entity_cmds R ks b e))) (b_Entities b))
        (snd (exec_all sch ?cs s)) ([], False, None) = (failed, True, er0)"
    using p by (auto simp: pipeline_def Let_def batch_cmds_def split: prod.splits)
  then have "IntReply 0 \<in> set (snd (exec_all sch ?cs s))" by (auto dest: check_slots_fenced)
  then obtain c where c: "(c, IntReply 0) \<in> set (zip ?cs (snd (exec_all sch ?cs s)))"
    using exec_all_length [of sch ?cs s] by (metis in_set_impl_in_set_zip2)
  show ?thesis unfolding ex
    by (rule exec_all_post [where P = "superseded R ks b", OF c _ batch_cmds_superseded [OF assms(1)]
          keeps_epoch_superseded [OF assms(2)]])
      (intro allI impI, rule batch_cmd_zero [OF set_zip_leftD [OF c]])
qed

end

section \<open>The queue\<close>

lemma Submit_bound: "length (f_ch f) \<le> f_cap f \<Longrightarrow> length (f_ch (fst (Submit ob f))) \<le> f_cap (fst (Submit ob f))"
  by (auto simp: Submit_def split: option.splits)

lemma Submit_backlog: "Submit ob f = (f', Inl e) \<Longrightarrow> f' = f \<and> e = ErrBacklog \<and> length (f_ch f) \<ge> f_cap f"
  by (auto simp: Submit_def split: option.splits if_splits)

lemma drain_results: "length (snd (drain R ks W bs s)) = length bs"
  by (induction bs arbitrary: W s) (simp_all add: split_beta Let_def)

section \<open>Properties\<close>

text \<open>No silent loss in a flush. Whatever the connection does to the pipelined commands and the
  retry, and whatever other clients do to other keys meanwhile, an entity that the result does not
  list as failed is in Redis afterwards with every module key and every profile field.\<close>

theorem flush_success_is_stored:
  assumes "redis_api R" and "batch_keys_ok b" and "flusher_write R ks w b s = (s', res)"
    and "keeps_keys R (\<Union> (entity_keys ` set (b_Entities b))) (w_first w @ w_second w)"
    and "e \<in> set (b_Entities b)" and "e \<notin> set (r_Failed res)"
  shows "entity_stored R e s'"
proof -
  obtain sch ex s0 where p: "pipeline R ks sch ex b s0 = (s', r_Failed res, r_Fenced res, r_Err res)"
    and sch: "sch = w_first w \<or> sch = w_second w"
    by (rule write_is_pipeline [OF assms(3)]) blast
  have "keeps_keys R (\<Union> (entity_keys ` set (b_Entities b))) sch" using assms(4) sch by auto
  then show ?thesis using redis_api.pipeline_stores [OF assms(1,2) _ p assms(5,6)] by blast
qed

definition demo_entity :: entity where
  "demo_entity = \<lparr>e_ID = 1031, e_Keys = [(keys_Player lobby_keys 1031 ModBase, ''b1'')], e_Hash = None,
     e_Modules = [ModBase], e_DirtyAt = 5\<rparr>"

definition demo_batch :: batch where
  "demo_batch = \<lparr>b_Shard = 7, b_Epoch = 20, b_Level = L1, b_Entities = [demo_entity]\<rparr>"

text \<open>The server has lost its scripts; the reload succeeds and the second pipeline is answered.\<close>

definition demo_env :: "mem write_env" where
  "demo_env = \<lparr>w_first = [(\<lambda>s. s, NoScript)], w_firstErr = Some ErrNoScript, w_loaded = True,
     w_second = [(\<lambda>s. s, Answered)], w_secondErr = None\<rparr>"

lemma demo_flush:
  "flusher_write mem_redis lobby_keys demo_env demo_batch takeover_state =
     (mem_put takeover_state (keys_Player lobby_keys 1031 ModBase) ''b1'',
      \<lparr>r_Shard = 7, r_Epoch = 20, r_Level = L1, r_Failed = [], r_Err = None, r_Fenced = False\<rparr>)"
proof -
  have "num_or0 mem_redis takeover_state (keys_Epoch lobby_keys 7) = Some 20"
    by (simp add: num_or0_def takeover_state_def mem_put_def)
  then have "mods_cmd mem_redis lobby_keys demo_batch demo_entity takeover_state
      = (mem_put takeover_state (keys_Player lobby_keys 1031 ModBase) ''b1'', Some 1)"
    by (simp add: mods_cmd_def demo_batch_def demo_entity_def scriptWriteModules_kv [where kv = "[(_, _)]", simplified]
        set_all_def)
  moreover have "entity_cmds mem_redis lobby_keys demo_batch demo_entity = [mods_cmd mem_redis lobby_keys demo_batch demo_entity]"
    by (simp add: entity_cmds_eq demo_entity_def)
  moreover have "b_Entities demo_batch = [demo_entity]" "b_Shard demo_batch = 7" "b_Epoch demo_batch = 20" "b_Level demo_batch = L1"
    by (simp_all add: demo_batch_def)
  ultimately show ?thesis
    by (simp add: flusher_write_def pipeline_def demo_env_def exec_all_Cons isNoScript_def)
qed

theorem flush_success_is_stored_witness:
  "entity_stored mem_redis demo_entity (mem_put takeover_state (keys_Player lobby_keys 1031 ModBase) ''b1'')"
  by (rule flush_success_is_stored [OF mem_server.redis_api_axioms _ demo_flush])
    (auto simp: batch_keys_ok_def demo_batch_def demo_entity_def demo_env_def keeps_keys_def)

text \<open>A superseded owner cannot flush. If a newer epoch is recorded when the write starts, no
  key is changed by the write (every key the other clients leave alone is as it was), and every
  entity that had something to write is reported as failed.\<close>

theorem stale_flush_changes_nothing:
  assumes "flusher_write R ks w b s = (s', res)"
    and "epoch_num R ks s (b_Shard b) = Some n" and "b_Epoch b < n"
    and "keeps_epoch R ks (b_Shard b) (w_first w @ w_second w)" and "keeps_keys R X (w_first w @ w_second w)"
  shows "(\<forall>k \<in> X. view R s' k = view R s k)
    \<and> (\<forall>e \<in> set (b_Entities b). entity_cmds R ks b e \<noteq> [] \<longrightarrow> e \<in> set (r_Failed res))"
proof -
  obtain sch ex s0 where p: "pipeline R ks sch ex b s0 = (s', r_Failed res, r_Fenced res, r_Err res)"
    and cs: "(sch = w_first w \<and> s0 = s) \<or> (sch = w_second w \<and> s0 = fst (exec_all (w_first w) (batch_cmds R ks b) s))"
    by (rule write_is_pipeline [OF assms(1)])
  have q: "keeps_epoch R ks (b_Shard b) (w_first w)" "keeps_keys R X (w_first w)"
    "keeps_epoch R ks (b_Shard b) sch" "keeps_keys R X sch"
    using assms(4,5) cs by auto
  have "(\<forall>k \<in> X. view R s0 k = view R s k) \<and> (\<exists>n' \<ge> n. epoch_num R ks s0 (b_Shard b) = Some n')"
    using cs assms(2,3) exec_all_stale [OF _ q(1,2) assms(2,3), of "batch_cmds R ks b"] batch_cmd_stale [of _ R ks b]
    by auto
  then obtain m where "m \<ge> n" "epoch_num R ks s0 (b_Shard b) = Some m" and v: "\<forall>k \<in> X. view R s0 k = view R s k" by blast
  then show ?thesis using pipeline_stale [OF q(3,4) _ _ p, of m] assms(3) by auto
qed

definition stale_batch :: batch where
  "stale_batch = demo_batch\<lparr>b_Epoch := 10\<rparr>"

theorem stale_flush_changes_nothing_witness:
  "(\<forall>k. view mem_redis (fst (flusher_write mem_redis lobby_keys demo_env stale_batch takeover_state)) k
      = view mem_redis takeover_state k)
   \<and> demo_entity \<in> set (r_Failed (snd (flusher_write mem_redis lobby_keys demo_env stale_batch takeover_state)))"
proof -
  obtain s' res where w: "flusher_write mem_redis lobby_keys demo_env stale_batch takeover_state = (s', res)" by fastforce
  have e: "epoch_num mem_redis lobby_keys takeover_state (b_Shard stale_batch) = Some 20"
    by (simp add: num_or0_def takeover_state_def mem_put_def stale_batch_def demo_batch_def)
  have "(\<forall>k \<in> UNIV. view mem_redis s' k = view mem_redis takeover_state k)
    \<and> (\<forall>e \<in> set (b_Entities stale_batch). entity_cmds mem_redis lobby_keys stale_batch e \<noteq> [] \<longrightarrow> e \<in> set (r_Failed res))"
    by (rule stale_flush_changes_nothing [OF w e]) (auto simp: stale_batch_def demo_env_def keeps_epoch_def keeps_keys_def)
  then show ?thesis by (simp add: w) (simp add: stale_batch_def demo_batch_def entity_cmds_eq demo_entity_def)
qed

text \<open>A fencing report is never false: when the result of a write says that the owner was fenced,
  Redis holds a newer epoch for the shard than the batch carried, so giving the shard up is right.\<close>

theorem fenced_report_is_sound:
  assumes "redis_api R" and "flusher_write R ks w b s = (s', res)" and "r_Fenced res"
    and "\<forall>e \<in> set (b_Entities b). data_keys ks (entity_keys e)"
    and "keeps_epoch R ks (b_Shard b) (w_first w @ w_second w)"
  shows "superseded R ks b s'"
proof -
  obtain sch ex s0 where p: "pipeline R ks sch ex b s0 = (s', r_Failed res, r_Fenced res, r_Err res)"
    and sch: "sch = w_first w \<or> sch = w_second w"
    by (rule write_is_pipeline [OF assms(2)]) blast
  have "keeps_epoch R ks (b_Shard b) sch" using assms(5) sch by auto
  then show ?thesis using redis_api.pipeline_fenced [OF assms(1,4)] p assms(3) by simp
qed

lemma stale_flush_run:
  "r_Fenced (snd (flusher_write mem_redis lobby_keys demo_env stale_batch takeover_state))"
proof -
  have "num_or0 mem_redis takeover_state (keys_Epoch lobby_keys 7) = Some 20"
    by (simp add: num_or0_def takeover_state_def mem_put_def)
  then have "mods_cmd mem_redis lobby_keys stale_batch demo_entity takeover_state = (takeover_state, Some 0)"
    by (simp add: mods_cmd_def stale_batch_def demo_batch_def scriptWriteModules_kv)
  moreover have "entity_cmds mem_redis lobby_keys stale_batch demo_entity = [mods_cmd mem_redis lobby_keys stale_batch demo_entity]"
    by (simp add: entity_cmds_eq demo_entity_def)
  moreover have "b_Entities stale_batch = [demo_entity]" by (simp add: stale_batch_def demo_batch_def)
  ultimately show ?thesis
    by (simp add: flusher_write_def pipeline_def demo_env_def exec_all_Cons isNoScript_def)
qed

theorem fenced_report_is_sound_witness:
  "superseded mem_redis lobby_keys stale_batch
     (fst (flusher_write mem_redis lobby_keys demo_env stale_batch takeover_state))"
proof (rule fenced_report_is_sound [OF mem_server.redis_api_axioms _ stale_flush_run])
  show "\<forall>e \<in> set (b_Entities stale_batch). data_keys lobby_keys (entity_keys e)"
    by (auto simp: stale_batch_def demo_batch_def demo_entity_def entity_keys_def data_keys_def key_eqs)
  show "keeps_epoch mem_redis lobby_keys (b_Shard stale_batch) (w_first demo_env @ w_second demo_env)"
    by (auto simp: demo_env_def keeps_epoch_def)
qed simp

end
