(* ===== verification/Rng.thy ===== *)
theory Rng
  imports F1_Prelude
begin

text \<open>
  The reproducible random source, \<^verbatim>\<open>pkg/rng/rng.go\<close>. The generator underneath
  (\<open>math/rand/v2\<close> over ChaCha8) is a parameter: a record with its constructor and its bounded
  draws, and the locale \<open>rand_api\<close> with the documented law that a draw below a positive \<open>n\<close>
  lies in \<open>[0, n)\<close>. A draw with \<open>n \<le> 0\<close> panics, which is \<open>None\<close>.

  Shown here: the seed survives hexadecimal storage, a weighted pick never chooses an entry
  without weight, and each outcome of a pick is decided by exactly as many rolls as its weight.
\<close>

section \<open>Seeds\<close>

type_synonym seed = "nat list"

definition SeedSize :: nat where
  "SeedSize = 32"

definition seed_ok :: "seed \<Rightarrow> bool" where
  "seed_ok s \<longleftrightarrow> length s = SeedSize \<and> (\<forall>b \<in> set s. b < 256)"

definition hex_digits :: string where
  "hex_digits = ''0123456789abcdef''"

definition hex_digit :: "nat \<Rightarrow> char" where
  "hex_digit d = hex_digits ! d"

text \<open>\<open>encoding/hex\<close> writes lower case and reads both cases.\<close>

definition from_hex :: "char \<Rightarrow> nat option" where
  "from_hex c = (let n = of_char c in
     if 48 \<le> n \<and> n \<le> 57 then Some (n - 48)
     else if 97 \<le> n \<and> n \<le> 102 then Some (n - 87)
     else if 65 \<le> n \<and> n \<le> 70 then Some (n - 55)
     else None)"

definition seed_Hex :: "seed \<Rightarrow> string" where
  "seed_Hex s = concat (map (\<lambda>b. [hex_digit (b div 16), hex_digit (b mod 16)]) s)"

fun DecodeString :: "string \<Rightarrow> nat list option" where
  "DecodeString [] = Some []"
| "DecodeString [c] = None"
| "DecodeString (a # b # cs) =
     (case (from_hex a, from_hex b, DecodeString cs) of
        (Some x, Some y, Some bs) \<Rightarrow> Some ((16 * x + y) # bs)
      | _ \<Rightarrow> None)"

definition ParseSeed :: "string \<Rightarrow> seed option" where
  "ParseSeed h = (case DecodeString h of
     None \<Rightarrow> None
   | Some b \<Rightarrow> if length b \<noteq> SeedSize then None else Some b)"

section \<open>The source\<close>

record 'g rand =
  NewChaCha8 :: "seed \<Rightarrow> 'g"
  r_IntN :: "'g \<Rightarrow> int \<Rightarrow> int \<times> 'g"
  r_Uint32N :: "'g \<Rightarrow> int \<Rightarrow> int \<times> 'g"
  r_Int64N :: "'g \<Rightarrow> int \<Rightarrow> int \<times> 'g"

record 'g source =
  s_seed :: seed
  s_r :: 'g
  s_n :: nat

definition rng_New :: "'g rand \<Rightarrow> seed \<Rightarrow> 'g source" where
  "rng_New G seed = \<lparr>s_seed = seed, s_r = NewChaCha8 G seed, s_n = 0\<rparr>"

definition SeedHex :: "'g source \<Rightarrow> string" where
  "SeedHex s = seed_Hex (s_seed s)"

definition Consumed :: "'g source \<Rightarrow> nat" where
  "Consumed s = s_n s"

definition draw :: "('g \<Rightarrow> int \<Rightarrow> int \<times> 'g) \<Rightarrow> int \<Rightarrow> 'g source \<Rightarrow> (int \<times> 'g source) option" where
  "draw f n s =
     (if n \<le> 0 then None
      else let (v, g) = f (s_r s) n in Some (v, s\<lparr>s_r := g, s_n := u64 (s_n s + 1)\<rparr>))"

definition rng_IntN :: "'g rand \<Rightarrow> int \<Rightarrow> 'g source \<Rightarrow> (int \<times> 'g source) option" where
  "rng_IntN G n s = draw (r_IntN G) n s"

definition rng_Uint32N :: "'g rand \<Rightarrow> int \<Rightarrow> 'g source \<Rightarrow> (int \<times> 'g source) option" where
  "rng_Uint32N G n s = draw (r_Uint32N G) n s"

definition rng_Int64N :: "'g rand \<Rightarrow> int \<Rightarrow> 'g source \<Rightarrow> (int \<times> 'g source) option" where
  "rng_Int64N G n s = draw (r_Int64N G) n s"

definition Chance :: "'g rand \<Rightarrow> int \<Rightarrow> int \<Rightarrow> 'g source \<Rightarrow> (bool \<times> 'g source) option" where
  "Chance G num den s =
     (if num \<le> 0 \<or> den \<le> 0 then Some (False, s)
      else if num \<ge> den then Some (True, s)
      else case rng_Int64N G den s of None \<Rightarrow> None | Some (v, s') \<Rightarrow> Some (v < num, s'))"

text \<open>\<open>total\<close> is an \<open>int64\<close> and wraps.\<close>

definition weight_total :: "int list \<Rightarrow> int" where
  "weight_total ws = fold (\<lambda>w t. if w > 0 then i64 (t + w) else t) ws 0"

fun pick_from :: "int \<Rightarrow> int \<Rightarrow> int list \<Rightarrow> int option" where
  "pick_from i roll [] = None"
| "pick_from i roll (w # ws) =
     (if w \<le> 0 then pick_from (i + 1) roll ws
      else if roll < w then Some i
      else pick_from (i + 1) (roll - w) ws)"

definition WeightedPick :: "'g rand \<Rightarrow> int list \<Rightarrow> 'g source \<Rightarrow> (int \<times> 'g source) option" where
  "WeightedPick G ws s =
     (let total = weight_total ws in
      if total \<le> 0 then Some (- 1, s)
      else case rng_Int64N G total s of
             None \<Rightarrow> None
           | Some (roll, s') \<Rightarrow>
               Some (case pick_from 0 roll ws of Some i \<Rightarrow> i | None \<Rightarrow> int (length ws) - 1, s'))"

section \<open>The law of the generator\<close>

locale rand_api =
  fixes G :: "'g rand"
  assumes intn_range: "0 < n \<Longrightarrow> 0 \<le> fst (r_IntN G g n) \<and> fst (r_IntN G g n) < n"
    and uint32n_range: "0 < n \<Longrightarrow> 0 \<le> fst (r_Uint32N G g n) \<and> fst (r_Uint32N G g n) < n"
    and int64n_range: "0 < n \<Longrightarrow> 0 \<le> fst (r_Int64N G g n) \<and> fst (r_Int64N G g n) < n"

text \<open>A generator for concrete runs: a linear congruential step and the remainder of its high
  part.\<close>

definition lcg_step :: "nat \<Rightarrow> nat" where
  "lcg_step x = (6364136223846793005 * x + 1442695040888963407) mod 2 ^ 64"

definition lcg_draw :: "nat \<Rightarrow> int \<Rightarrow> int \<times> nat" where
  "lcg_draw g n = (int (g div 2 ^ 33) mod n, lcg_step g)"

definition lcg :: "nat rand" where
  "lcg = \<lparr>NewChaCha8 = (\<lambda>s. foldl (\<lambda>a b. lcg_step (256 * a + b)) 1 s),
     r_IntN = lcg_draw, r_Uint32N = lcg_draw, r_Int64N = lcg_draw\<rparr>"

interpretation lcg_rand: rand_api lcg
  by unfold_locales (auto simp: lcg_def lcg_draw_def)

section \<open>Weights\<close>

definition pos_sum :: "int list \<Rightarrow> int" where
  "pos_sum ws = sum_list (map (max 0) ws)"

lemma pos_sum_nonneg: "0 \<le> pos_sum ws"
  unfolding pos_sum_def by (rule sum_list_nonneg) auto

lemma pos_sum_append: "pos_sum (xs @ ys) = pos_sum xs + pos_sum ys"
  by (simp add: pos_sum_def)

lemma weight_total_exact:
  assumes "pos_sum ws < 2 ^ 63"
  shows "weight_total ws = pos_sum ws"
proof -
  have "0 \<le> t \<Longrightarrow> t + pos_sum ws < 2 ^ 63 \<Longrightarrow>
      fold (\<lambda>w t. if w > 0 then i64 (t + w) else t) ws t = t + pos_sum ws" for t
  proof (induction ws arbitrary: t)
    case (Cons w ws)
    have "0 \<le> pos_sum ws" by (rule pos_sum_nonneg)
    with Cons.prems have "w > 0 \<Longrightarrow> i64 (t + w) = t + w" by (intro i64_id) (auto simp: in_i64_def pos_sum_def)
    with Cons show ?case by (auto simp: pos_sum_def max_def)
  qed (simp add: pos_sum_def)
  from this [of 0] assms show ?thesis by (simp add: weight_total_def)
qed

text \<open>The roll picks the entry whose interval of the cumulated weights contains it.\<close>

lemma pick_from_spec:
  assumes "0 \<le> roll"
  shows "pick_from i0 roll ws = Some j \<longleftrightarrow>
    (\<exists>k < length ws. j = i0 + int k \<and> pos_sum (take k ws) \<le> roll \<and> roll < pos_sum (take (Suc k) ws))"
  using assms
proof (induction ws arbitrary: i0 roll)
  case (Cons w ws)
  have split: "(\<exists>k < length (w # ws). j = i0 + int k \<and> pos_sum (take k (w # ws)) \<le> roll \<and> roll < pos_sum (take (Suc k) (w # ws)))
      \<longleftrightarrow> (j = i0 \<and> roll < max 0 w)
        \<or> (\<exists>k < length ws. j = i0 + 1 + int k \<and> pos_sum (take k ws) \<le> roll - max 0 w \<and> roll - max 0 w < pos_sum (take (Suc k) ws))"
    (is "(\<exists>k < _. ?P k) = (?A \<or> ?B)")
  proof -
    have "(\<exists>k < length (w # ws). ?P k) \<longleftrightarrow> ?P 0 \<or> (\<exists>k < length ws. ?P (Suc k))"
      by (simp add: Ex_less_Suc2)
    moreover have "?P 0 \<longleftrightarrow> ?A" using Cons.prems by (auto simp: pos_sum_def)
    moreover have "?P (Suc k) \<longleftrightarrow> j = i0 + 1 + int k \<and> pos_sum (take k ws) \<le> roll - max 0 w
        \<and> roll - max 0 w < pos_sum (take (Suc k) ws)" for k
      by (auto simp: pos_sum_def)
    ultimately show ?thesis by simp
  qed
  have none: "\<not> (\<exists>k < length ws. j = i0 + 1 + int k \<and> pos_sum (take k ws) \<le> roll - max 0 w
      \<and> roll - max 0 w < pos_sum (take (Suc k) ws))" if "roll < max 0 w"
    using that pos_sum_nonneg by (metis diff_less_0_iff_less dual_order.strict_trans2 leD)
  consider "w \<le> 0" | "0 < w" "roll < w" | "0 < w" "w \<le> roll" by linarith
  then show ?case
  proof cases
    case 1
    then show ?thesis unfolding split using Cons.IH [of roll "i0 + 1"] Cons.prems by simp
  next
    case 2
    then show ?thesis unfolding split using none by auto
  next
    case 3
    then show ?thesis unfolding split using Cons.IH [of "roll - w" "i0 + 1"] by simp
  qed
qed simp

lemma pick_from_total:
  "0 \<le> roll \<Longrightarrow> roll < pos_sum ws \<Longrightarrow> pick_from i roll ws \<noteq> None"
proof (induction ws arbitrary: i roll)
  case (Cons w ws)
  show ?case using Cons.prems Cons.IH [of roll "i + 1"] Cons.IH [of "roll - w" "i + 1"]
    by (auto simp: pos_sum_def max_def split: if_splits)
qed (simp add: pos_sum_def)

lemma pos_sum_take_Suc: "k < length ws \<Longrightarrow> pos_sum (take (Suc k) ws) = pos_sum (take k ws) + max 0 (ws ! k)"
  by (simp add: take_Suc_conv_app_nth pos_sum_def)

lemma pos_sum_take_le: "pos_sum (take k ws) \<le> pos_sum ws"
  using pos_sum_append [of "take k ws" "drop k ws"] pos_sum_nonneg [of "drop k ws"] by simp

definition rolls_for :: "int list \<Rightarrow> nat \<Rightarrow> int set" where
  "rolls_for ws j = {roll. 0 \<le> roll \<and> roll < pos_sum ws \<and> pick_from 0 roll ws = Some (int j)}"

lemma rolls_for_interval:
  assumes "j < length ws"
  shows "rolls_for ws j = {pos_sum (take j ws) ..< pos_sum (take (Suc j) ws)}"
proof -
  have "0 \<le> pos_sum (take j ws)" "pos_sum (take (Suc j) ws) \<le> pos_sum ws"
    by (rule pos_sum_nonneg, rule pos_sum_take_le)
  moreover have "pick_from 0 r ws = Some (int j) \<longleftrightarrow> pos_sum (take j ws) \<le> r \<and> r < pos_sum (take (Suc j) ws)" if "0 \<le> r" for r
    using assms by (auto simp: pick_from_spec [OF that])
  ultimately show ?thesis unfolding rolls_for_def by (intro set_eqI) auto
qed

lemma card_rolls_for: "j < length ws \<Longrightarrow> int (card (rolls_for ws j)) = max 0 (ws ! j)"
  by (simp add: rolls_for_interval pos_sum_take_Suc)

context rand_api
begin

lemma Int64N_Some: "0 < n \<Longrightarrow> \<exists>v s'. rng_Int64N G n s = Some (v, s') \<and> 0 \<le> v \<and> v < n \<and> s_n s' = u64 (s_n s + 1)"
  using int64n_range [of n "s_r s"] by (auto simp: rng_Int64N_def draw_def split_beta Let_def)

lemma IntN_Some: "0 < n \<Longrightarrow> \<exists>v s'. rng_IntN G n s = Some (v, s') \<and> 0 \<le> v \<and> v < n \<and> s_n s' = u64 (s_n s + 1)"
  using intn_range [of n "s_r s"] by (auto simp: rng_IntN_def draw_def split_beta Let_def)

lemma Chance_Some: "\<exists>b s'. Chance G num den s = Some (b, s') \<and> (b \<longrightarrow> 0 < num \<and> 0 < den)"
proof (cases "num \<le> 0 \<or> den \<le> 0 \<or> num \<ge> den")
  case False
  then obtain v s' where "rng_Int64N G den s = Some (v, s')" using Int64N_Some [of den s] by auto
  with False show ?thesis by (auto simp: Chance_def)
qed (auto simp: Chance_def)

lemma WeightedPick_Some:
  assumes "pos_sum ws < 2 ^ 63" "0 < pos_sum ws"
  shows "\<exists>j s' roll. WeightedPick G ws s = Some (int j, s') \<and> j < length ws \<and> 0 < ws ! j
    \<and> roll \<in> rolls_for ws j \<and> s_n s' = u64 (s_n s + 1)"
proof -
  obtain v s' where v: "rng_Int64N G (pos_sum ws) s = Some (v, s')" "0 \<le> v" "v < pos_sum ws" "s_n s' = u64 (s_n s + 1)"
    using Int64N_Some [OF assms(2)] by blast
  then obtain i where i: "pick_from 0 v ws = Some i" using pick_from_total by blast
  then obtain j where j: "j < length ws" "i = int j" "pos_sum (take j ws) \<le> v" "v < pos_sum (take (Suc j) ws)"
    using pick_from_spec [OF v(2), of 0 ws i] by auto
  then have "0 < ws ! j" by (auto simp: pos_sum_take_Suc max_def split: if_splits)
  moreover have "v \<in> rolls_for ws j" using v i j by (simp add: rolls_for_def)
  ultimately show ?thesis using v i j assms by (auto simp: WeightedPick_def weight_total_exact)
qed

end

section \<open>Hexadecimal seeds\<close>

lemma from_hex_digits: "\<forall>d \<in> set [0..<16]. from_hex (hex_digit d) = Some d"
  by code_simp

lemma from_hex_digit: "d < 16 \<Longrightarrow> from_hex (hex_digit d) = Some d"
  using from_hex_digits by simp

lemma Decode_Hex: "\<forall>b \<in> set s. b < 256 \<Longrightarrow> DecodeString (seed_Hex s) = Some s"
  by (induction s) (auto simp: seed_Hex_def from_hex_digit)

section \<open>Properties\<close>

text \<open>A seed stored as hexadecimal text is read back exactly, so a round can be replayed from
  what was persisted.\<close>

theorem seed_hex_roundtrip:
  assumes "seed_ok s"
  shows "ParseSeed (seed_Hex s) = Some s"
  using assms by (simp add: ParseSeed_def seed_ok_def Decode_Hex)

theorem seed_hex_roundtrip_witness: "ParseSeed (seed_Hex (replicate 32 171)) = Some (replicate 32 171)"
  by (rule seed_hex_roundtrip) (simp add: seed_ok_def SeedSize_def)

text \<open>A weighted pick returns an entry of positive weight, decided by one roll, and the number of
  equally likely rolls that lead to an entry is exactly its weight: the published probabilities
  are the implemented ones.\<close>

theorem weighted_pick_matches_weights:
  assumes "rand_api G" and "pos_sum ws < 2 ^ 63" and "0 < pos_sum ws"
  shows "\<exists>j s' roll. WeightedPick G ws s = Some (int j, s') \<and> j < length ws \<and> 0 < ws ! j
    \<and> roll \<in> rolls_for ws j \<and> int (card (rolls_for ws j)) = ws ! j \<and> s_n s' = u64 (s_n s + 1)"
  using rand_api.WeightedPick_Some [OF assms] card_rolls_for by fastforce

theorem weighted_pick_matches_weights_witness:
  "\<exists>j s' roll. WeightedPick lcg [5500, 0, 1200] (rng_New lcg [1]) = Some (int j, s') \<and> j < 3
    \<and> 0 < [5500, 0, 1200 :: int] ! j \<and> roll \<in> rolls_for [5500, 0, 1200] j
    \<and> int (card (rolls_for [5500, 0, 1200] j)) = [5500, 0, 1200] ! j \<and> s_n s' = 1"
  using weighted_pick_matches_weights [OF lcg_rand.rand_api_axioms, of "[5500, 0, 1200]" "rng_New lcg [1]"]
  by (simp add: pos_sum_def rng_New_def u64_def numeral_3_eq_3)

end
