(* ===== verification/Gameconf.thy ===== *)
theory Gameconf
  imports F1_Prelude Complex_Main "HOL-Library.List_Lexorder" "HOL-Library.Char_ord" "HOL-Library.Multiset"
begin

text \<open>
  The game configuration, \<^verbatim>\<open>pkg/gameconf/gameconf.go\<close> and \<^verbatim>\<open>pkg/gameconf/default.go\<close>:
  the tables, the start-up check \<open>Validate\<close>, the canonical form behind the version number, hot
  replacement, and the built-in configuration.

  Go maps are association lists; their order stands for the order in which \<open>range\<close> visits
  them. \<open>digest\<close> (JSON encoding, SHA-256, the first 16 hexadecimal digits) and the JSON
  decoder are parameters. A \<open>float64\<close> is the rational number it represents.

  Shown here: what a validated machine guarantees to the spin engine, that the version number does
  not depend on map order, that spreading a reel strip keeps its symbol frequencies, and that the
  built-in configuration passes its own check.
\<close>

section \<open>Tables\<close>

record SlotMachine =
  m_ID :: string
  m_Name :: string
  m_Rows :: int
  m_Reels :: "nat list list"
  m_Paylines :: "int list list"
  m_Paytable :: "(nat \<times> int list) list"
  m_Wild :: nat
  m_Scatter :: nat
  m_ScatterPays :: "int list"
  m_FreeSpins :: "nat list"
  m_FreeSpinMultiplier :: nat
  m_FreeSpinRetrigger :: bool
  m_BetLevels :: "int list"
  m_Currency :: nat
  m_TheoreticalRTP :: rat
  m_JackpotPool :: string
  m_JackpotContribBP :: int
  m_JackpotChanceNum :: int
  m_JackpotChanceDen :: int

record GachaEntry =
  g_TplID :: nat
  g_Rarity :: nat
  g_Weight :: int
  g_Count :: int

record GachaPool =
  p_ID :: string
  p_Cost :: int
  p_Currency :: nat
  p_Entries :: "GachaEntry list"
  p_PityTop :: nat
  p_PityHigh :: nat
  p_TopRarity :: nat
  p_HighRarity :: nat
  p_TenPullGuarantee :: bool

record Product =
  pr_ID :: nat
  pr_Currency :: nat
  pr_Amount :: int
  pr_PriceCents :: int
  pr_Channels :: "string list"

record ItemDef =
  i_TplID :: nat
  i_Name :: string
  i_Stackable :: bool
  i_MaxStack :: int
  i_Rarity :: nat

record Jackpot =
  j_ID :: string
  j_Currency :: nat
  j_Seed :: int

record RGLimits =
  DailyBetLimit :: int
  DailyLossLimit :: int
  SessionLimit :: int
  ResetOffsetMinutes :: int
  NoticeInterval :: int

record BagConf =
  Capacity :: nat

record Config =
  c_Slots :: "(string \<times> SlotMachine) list"
  c_Gacha :: "(string \<times> GachaPool) list"
  c_Products :: "(nat \<times> Product) list"
  c_Items :: "(nat \<times> ItemDef) list"
  c_Jackpots :: "(string \<times> Jackpot) list"
  c_LevelExp :: "nat list"
  c_RG :: RGLimits
  c_Bag :: BagConf
  c_version :: string

definition LineCount :: "SlotMachine \<Rightarrow> int" where
  "LineCount m = int (length (m_Paylines m))"

definition ValidBet :: "SlotMachine \<Rightarrow> int \<Rightarrow> bool" where
  "ValidBet m bet \<longleftrightarrow> list_ex (\<lambda>b. b = bet) (m_BetLevels m)"

definition AllowsChannel :: "Product \<Rightarrow> string \<Rightarrow> bool" where
  "AllowsChannel p ch \<longleftrightarrow> (if pr_Channels p = [] then False else list_ex (\<lambda>c. c = ch) (pr_Channels p))"

definition conf_Machine :: "Config \<Rightarrow> string \<Rightarrow> SlotMachine option" where
  "conf_Machine c i = map_of (c_Slots c) i"

definition conf_Pool :: "Config \<Rightarrow> string \<Rightarrow> GachaPool option" where
  "conf_Pool c i = map_of (c_Gacha c) i"

definition conf_Product :: "Config \<Rightarrow> nat \<Rightarrow> Product option" where
  "conf_Product c i = map_of (c_Products c) i"

definition conf_Item :: "Config \<Rightarrow> nat \<Rightarrow> ItemDef option" where
  "conf_Item c tpl = map_of (c_Items c) tpl"

definition Stackable :: "Config \<Rightarrow> nat \<Rightarrow> bool" where
  "Stackable c tpl = (case map_of (c_Items c) tpl of Some d \<Rightarrow> i_Stackable d | None \<Rightarrow> False)"

definition ExpToLevel :: "Config \<Rightarrow> nat \<Rightarrow> nat" where
  "ExpToLevel c level =
     (if c_LevelExp c = [] then u64 (100 * u32 (level + 1))
      else let i = (if level \<ge> length (c_LevelExp c) then length (c_LevelExp c) - 1 else level)
           in c_LevelExp c ! i)"

section \<open>The version number\<close>

definition sorted_map :: "('k :: linorder \<times> 'v) list \<Rightarrow> ('k \<times> 'v) list" where
  "sorted_map m = map (\<lambda>k. (k, the (map_of m k))) (sort (map fst m))"

type_synonym canon_machine = "string \<times> int \<times> nat list list \<times> int list list \<times> (nat \<times> int list) list
  \<times> nat \<times> nat \<times> int list \<times> nat list \<times> nat \<times> bool \<times> int list \<times> nat \<times> string \<times> int \<times> int \<times> int"

type_synonym canon = "canon_machine list \<times> (string \<times> GachaPool) list \<times> (nat \<times> Product) list
  \<times> (nat \<times> ItemDef) list \<times> (string \<times> Jackpot) list \<times> nat list \<times> RGLimits \<times> BagConf"

type_synonym digest = "canon \<Rightarrow> string option"

definition canonical_machine :: "string \<Rightarrow> SlotMachine \<Rightarrow> canon_machine" where
  "canonical_machine i m =
     (i, m_Rows m, m_Reels m, m_Paylines m, sorted_map (m_Paytable m),
      m_Wild m, m_Scatter m, m_ScatterPays m, m_FreeSpins m, m_FreeSpinMultiplier m,
      m_FreeSpinRetrigger m, m_BetLevels m, m_Currency m, m_JackpotPool m,
      m_JackpotContribBP m, m_JackpotChanceNum m, m_JackpotChanceDen m)"

definition canonical :: "Config \<Rightarrow> canon" where
  "canonical c =
     (map (\<lambda>(i, m). canonical_machine i m) (sorted_map (c_Slots c)),
      sorted_map (c_Gacha c), sorted_map (c_Products c), sorted_map (c_Items c),
      sorted_map (c_Jackpots c), c_LevelExp c, c_RG c, c_Bag c)"

definition computeVersion :: "digest \<Rightarrow> Config \<Rightarrow> Config option" where
  "computeVersion digest c = (case digest (canonical c) of None \<Rightarrow> None | Some v \<Rightarrow> Some (c\<lparr>c_version := v\<rparr>))"

section \<open>Validation\<close>

datatype conf_err =
    NoMachine | MachineIDMismatch | BadRows | NoReels | ShortReel | NoPaylines | PaylineLength | PaylineRow
  | NoBetLevels | BetNotPositive | BetNotDivisible | UnknownJackpot | BadJackpotDen | BadRTP
  | PoolIDMismatch | NoEntries | NegativeWeight | ZeroWeights | NoPity
  | ProductIDMismatch | BadProduct | NoChannels | BadOffset | VersionFailed | ReadFailed | DecodeFailed

text \<open>The early returns of \<open>Validate\<close>: the first check that fires decides.\<close>

fun first_err :: "conf_err option list \<Rightarrow> conf_err option" where
  "first_err [] = None"
| "first_err (None # es) = first_err es"
| "first_err (Some e # es) = Some e"

abbreviation fails :: "bool \<Rightarrow> conf_err \<Rightarrow> conf_err option" where
  "fails b e \<equiv> (if b then Some e else None)"

definition validate_machine :: "Config \<Rightarrow> string \<Rightarrow> SlotMachine \<Rightarrow> conf_err option" where
  "validate_machine c i m = first_err (
     [fails (m_ID m \<noteq> i) MachineIDMismatch, fails (m_Rows m \<le> 0) BadRows, fails (m_Reels m = []) NoReels]
     @ map (\<lambda>strip. fails (int (length strip) < m_Rows m) ShortReel) (m_Reels m)
     @ [fails (m_Paylines m = []) NoPaylines]
     @ concat (map (\<lambda>line.
         fails (length line \<noteq> length (m_Reels m)) PaylineLength
         # map (\<lambda>row. fails (row < 0 \<or> row \<ge> m_Rows m) PaylineRow) line) (m_Paylines m))
     @ [fails (m_BetLevels m = []) NoBetLevels]
     @ concat (map (\<lambda>b. [fails (b \<le> 0) BetNotPositive, fails (b mod LineCount m \<noteq> 0) BetNotDivisible]) (m_BetLevels m))
     @ (if m_JackpotPool m \<noteq> [] then
          [fails (map_of (c_Jackpots c) (m_JackpotPool m) = None) UnknownJackpot,
           fails (m_JackpotChanceDen m \<le> 0) BadJackpotDen]
        else [])
     @ [fails (m_TheoreticalRTP m \<le> 0 \<or> m_TheoreticalRTP m > 2) BadRTP])"

fun weights_check :: "int \<Rightarrow> GachaEntry list \<Rightarrow> conf_err + int" where
  "weights_check tot [] = Inr tot"
| "weights_check tot (e # es) =
     (if g_Weight e < 0 then Inl NegativeWeight else weights_check (i64 (tot + g_Weight e)) es)"

definition validate_pool :: "string \<Rightarrow> GachaPool \<Rightarrow> conf_err option" where
  "validate_pool i p = first_err
     [fails (p_ID p \<noteq> i) PoolIDMismatch, fails (p_Entries p = []) NoEntries,
      (case weights_check 0 (p_Entries p) of Inl e \<Rightarrow> Some e | Inr tot \<Rightarrow> fails (tot \<le> 0) ZeroWeights),
      fails (p_PityTop p = 0) NoPity]"

definition validate_product :: "nat \<Rightarrow> Product \<Rightarrow> conf_err option" where
  "validate_product i p = first_err
     [fails (pr_ID p \<noteq> i) ProductIDMismatch, fails (pr_Amount p \<le> 0 \<or> pr_PriceCents p \<le> 0) BadProduct,
      fails (pr_Channels p = []) NoChannels]"

definition Validate :: "Config \<Rightarrow> conf_err option" where
  "Validate c = first_err (
     [fails (c_Slots c = []) NoMachine]
     @ map (\<lambda>(i, m). validate_machine c i m) (c_Slots c)
     @ map (\<lambda>(i, p). validate_pool i p) (c_Gacha c)
     @ map (\<lambda>(i, p). validate_product i p) (c_Products c)
     @ [fails (ResetOffsetMinutes (c_RG c) < - 12 * 60 \<or> ResetOffsetMinutes (c_RG c) > 14 * 60) BadOffset])"

section \<open>The built-in configuration\<close>

definition SymTen :: nat where "SymTen = 0"
definition SymJack :: nat where "SymJack = 1"
definition SymQueen :: nat where "SymQueen = 2"
definition SymKing :: nat where "SymKing = 3"
definition SymAce :: nat where "SymAce = 4"
definition SymMinor :: nat where "SymMinor = 5"
definition SymMajor :: nat where "SymMajor = 6"
definition SymWild :: nat where "SymWild = 7"
definition SymScatter :: nat where "SymScatter = 8"

lemmas Sym_defs = SymTen_def SymJack_def SymQueen_def SymKing_def SymAce_def SymMinor_def SymMajor_def
  SymWild_def SymScatter_def

definition strip :: "(nat \<times> nat) list \<Rightarrow> nat list" where
  "strip pairs = concat (map (\<lambda>(sym, n). replicate n sym) pairs)"

definition classicStrip :: "nat list" where
  "classicStrip = strip [(SymTen, 6), (SymJack, 6), (SymQueen, 5), (SymKing, 4), (SymAce, 4),
     (SymMinor, 3), (SymMajor, 2), (SymWild, 1), (SymScatter, 1)]"

fun spread :: "nat \<Rightarrow> nat list \<Rightarrow> nat \<Rightarrow> nat list" where
  "spread 0 s idx = []"
| "spread (Suc k) s idx = s ! idx # spread k s ((idx + 7) mod length s)"

text \<open>An empty strip makes \<open>offset % n\<close> panic.\<close>

definition interleave :: "nat list \<Rightarrow> nat \<Rightarrow> nat list option" where
  "interleave s offset = (if s = [] then None else Some (spread (length s) s (offset mod length s)))"

definition buildLevelCurve :: "nat \<Rightarrow> nat list" where
  "buildLevelCurve maxLevel = map (\<lambda>lv. u64 (100 * (lv + 1) + 10 * (lv + 1) * (lv + 1))) [0..<maxLevel + 1]"

definition utf8 :: "nat list \<Rightarrow> string" where
  "utf8 bs = map char_of bs"

definition classic5 :: "nat list list \<Rightarrow> SlotMachine" where
  "classic5 reels = \<lparr>m_ID = ''classic5'', m_Name = ''Classic Five'', m_Rows = 3, m_Reels = reels,
     m_Paylines = [[1, 1, 1, 1, 1], [0, 0, 0, 0, 0], [2, 2, 2, 2, 2], [0, 1, 2, 1, 0], [2, 1, 0, 1, 2],
       [0, 0, 1, 2, 2], [2, 2, 1, 0, 0], [1, 0, 1, 2, 1], [1, 2, 1, 0, 1], [0, 1, 1, 1, 2]],
     m_Paytable = [(SymTen, [0, 0, 8, 24, 82]), (SymJack, [0, 0, 8, 24, 82]), (SymQueen, [0, 0, 13, 41, 132]),
       (SymKing, [0, 0, 16, 49, 165]), (SymAce, [0, 0, 20, 66, 203]), (SymMinor, [0, 0, 33, 121, 406]),
       (SymMajor, [0, 0, 66, 241, 812]), (SymWild, [0, 0, 82, 329, 1618])],
     m_Wild = SymWild, m_Scatter = SymScatter, m_ScatterPays = [0, 0, 2, 11, 55],
     m_FreeSpins = [0, 0, 10, 15, 20], m_FreeSpinMultiplier = 2, m_FreeSpinRetrigger = True,
     m_BetLevels = [10, 20, 50, 100, 200, 500, 1000], m_Currency = 1, m_TheoreticalRTP = 96 / 100,
     m_JackpotPool = ''grand'', m_JackpotContribBP = 100, m_JackpotChanceNum = 1, m_JackpotChanceDen = 200000\<rparr>"

definition standard_pool :: GachaPool where
  "standard_pool = \<lparr>p_ID = ''standard'', p_Cost = 160, p_Currency = 2,
     p_Entries = [\<lparr>g_TplID = 1001, g_Rarity = 1, g_Weight = 5500, g_Count = 1\<rparr>,
       \<lparr>g_TplID = 1002, g_Rarity = 1, g_Weight = 2500, g_Count = 1\<rparr>,
       \<lparr>g_TplID = 2001, g_Rarity = 2, g_Weight = 1200, g_Count = 1\<rparr>,
       \<lparr>g_TplID = 2002, g_Rarity = 2, g_Weight = 600, g_Count = 1\<rparr>,
       \<lparr>g_TplID = 3001, g_Rarity = 3, g_Weight = 150, g_Count = 1\<rparr>,
       \<lparr>g_TplID = 4001, g_Rarity = 4, g_Weight = 50, g_Count = 1\<rparr>],
     p_PityTop = 90, p_PityHigh = 10, p_TopRarity = 4, p_HighRarity = 3, p_TenPullGuarantee = True\<rparr>"

definition classic_reels :: "nat list list" where
  "classic_reels = map (\<lambda>i. the (interleave classicStrip (i * 5))) [0..<5]"

definition Default :: "digest \<Rightarrow> Config" where
  "Default digest =
     (let c = \<lparr>
        c_Slots = [(''classic5'', classic5 classic_reels)],
        c_Gacha = [(''standard'', standard_pool)],
        c_Products = map (\<lambda>(i, amount, price). (i, \<lparr>pr_ID = i, pr_Currency = 2, pr_Amount = amount,
            pr_PriceCents = price, pr_Channels = [''apple'', ''google'', ''sandbox'']\<rparr>))
          [(1, 60, 600), (2, 300, 3000), (3, 980, 9800)],
        c_Items = [
      (100, \<lparr>i_TplID = 100, i_Name = utf8 [233, 135, 145, 229, 184, 129, 232, 162, 139],
         i_Stackable = True, i_MaxStack = 9999, i_Rarity = 1\<rparr>),
      (101, \<lparr>i_TplID = 101, i_Name = utf8 [228, 189, 147, 229, 138, 155, 232, 141, 175, 230, 176, 180],
         i_Stackable = True, i_MaxStack = 999, i_Rarity = 1\<rparr>),
      (1001, \<lparr>i_TplID = 1001, i_Name = utf8 [230, 153, 174, 233, 128, 154, 231, 162, 142, 231, 137, 135],
         i_Stackable = True, i_MaxStack = 9999, i_Rarity = 1\<rparr>),
      (1002, \<lparr>i_TplID = 1002, i_Name = utf8 [231, 178, 190, 232, 137, 175, 231, 162, 142, 231, 137, 135],
         i_Stackable = True, i_MaxStack = 9999, i_Rarity = 1\<rparr>),
      (2001, \<lparr>i_TplID = 2001, i_Name = utf8 [231, 168, 128, 230, 156, 137, 232, 163, 133, 229, 164, 135],
         i_Stackable = False, i_MaxStack = 1, i_Rarity = 2\<rparr>),
      (2002, \<lparr>i_TplID = 2002, i_Name = utf8 [231, 168, 128, 230, 156, 137, 233, 165, 176, 229, 147, 129],
         i_Stackable = False, i_MaxStack = 1, i_Rarity = 2\<rparr>),
      (3001, \<lparr>i_TplID = 3001, i_Name = utf8 [229, 143, 178, 232, 175, 151, 230, 173, 166, 229, 153, 168],
         i_Stackable = False, i_MaxStack = 1, i_Rarity = 3\<rparr>),
      (4001, \<lparr>i_TplID = 4001, i_Name = utf8 [228, 188, 160, 232, 175, 180, 232, 139, 177, 233, 155, 132],
         i_Stackable = False, i_MaxStack = 1, i_Rarity = 4\<rparr>)],
        c_Jackpots = [(''grand'', \<lparr>j_ID = ''grand'', j_Currency = 1, j_Seed = 100000\<rparr>)],
        c_LevelExp = buildLevelCurve 100,
        c_RG = \<lparr>DailyBetLimit = 1000000, DailyLossLimit = 200000, SessionLimit = 4 * 3600,
                ResetOffsetMinutes = 8 * 60, NoticeInterval = 1800\<rparr>,
        c_Bag = \<lparr>Capacity = 200\<rparr>,
        c_version = []\<rparr>
      in case computeVersion digest c of Some c' \<Rightarrow> c' | None \<Rightarrow> c)"

section \<open>Loading and hot replacement\<close>

definition Load :: "digest \<Rightarrow> (string \<Rightarrow> bytes option) \<Rightarrow> (bytes \<Rightarrow> Config option) \<Rightarrow> string \<Rightarrow> conf_err + Config" where
  "Load digest readFile unmarshal path =
     (case (if path = [] then Inr (Default digest)
            else case readFile path of
                   None \<Rightarrow> Inl ReadFailed
                 | Some raw \<Rightarrow> (case unmarshal raw of None \<Rightarrow> Inl DecodeFailed | Some c \<Rightarrow> Inr c)) of
        Inl e \<Rightarrow> Inl e
      | Inr c \<Rightarrow>
          (case Validate c of
             Some e \<Rightarrow> Inl e
           | None \<Rightarrow> (case computeVersion digest c of None \<Rightarrow> Inl VersionFailed | Some c' \<Rightarrow> Inr c')))"

definition conf_Replace :: "digest \<Rightarrow> Config \<Rightarrow> Config \<Rightarrow> Config \<times> conf_err option" where
  "conf_Replace digest c cur =
     (case Validate c of
        Some e \<Rightarrow> (cur, Some e)
      | None \<Rightarrow>
          if c_version c = [] then
            (case computeVersion digest c of None \<Rightarrow> (cur, Some VersionFailed) | Some c' \<Rightarrow> (c', None))
          else (c, None))"

section \<open>What validation guarantees\<close>

lemma first_err_Cons: "first_err (e # es) = None \<longleftrightarrow> e = None \<and> first_err es = None"
  by (cases e) auto

lemma first_err_append: "first_err (es @ fs) = None \<longleftrightarrow> first_err es = None \<and> first_err fs = None"
  by (induction es) (auto simp: first_err_Cons)

lemma first_err_map: "first_err (map f xs) = None \<longleftrightarrow> (\<forall>x \<in> set xs. f x = None)"
  by (induction xs) (auto simp: first_err_Cons)

lemma first_err_concat: "first_err (concat (map f xs)) = None \<longleftrightarrow> (\<forall>x \<in> set xs. first_err (f x) = None)"
  by (induction xs) (auto simp: first_err_append)

lemma fails_None: "fails b e = None \<longleftrightarrow> \<not> b"
  by simp

lemmas first_err_simps = first_err_Cons first_err_append first_err_map first_err_concat fails_None

definition machine_ok :: "SlotMachine \<Rightarrow> bool" where
  "machine_ok m \<longleftrightarrow>
     0 < m_Rows m \<and> m_Reels m \<noteq> [] \<and> (\<forall>strip \<in> set (m_Reels m). m_Rows m \<le> int (length strip)) \<and>
     m_Paylines m \<noteq> [] \<and>
     (\<forall>line \<in> set (m_Paylines m). length line = length (m_Reels m) \<and> (\<forall>row \<in> set line. 0 \<le> row \<and> row < m_Rows m)) \<and>
     (\<forall>b \<in> set (m_BetLevels m). 0 < b \<and> b mod LineCount m = 0)"

lemma validate_machine_ok: "validate_machine c i m = None \<Longrightarrow> machine_ok m"
  unfolding validate_machine_def first_err_simps machine_ok_def by (simp add: not_le not_less)

lemma Validate_machine: "Validate c = None \<Longrightarrow> conf_Machine c i = Some m \<Longrightarrow> machine_ok m \<and> m_ID m = i"
proof -
  assume v: "Validate c = None" and m: "conf_Machine c i = Some m"
  have "(i, m) \<in> set (c_Slots c)" using m by (simp add: conf_Machine_def map_of_SomeD)
  moreover have "\<forall>x \<in> set (c_Slots c). (case x of (i, m) \<Rightarrow> validate_machine c i m) = None"
    using v unfolding Validate_def first_err_simps by blast
  ultimately have "validate_machine c i m = None" by fastforce
  moreover from this have "m_ID m = i" unfolding validate_machine_def first_err_simps by simp
  ultimately show ?thesis using validate_machine_ok by blast
qed

section \<open>Map order and the version\<close>

lemma sorted_map_perm:
  assumes "distinct (map fst m)" "mset m' = mset m"
  shows "sorted_map m' = sorted_map m"
proof -
  have d: "distinct (map fst m')" using assms by (metis mset_map mset_eq_imp_distinct_iff)
  have "map_of m' = map_of m" using assms(1) d mset_eq_setD [OF assms(2)] by (simp add: map_of_inject_set)
  moreover have "sort (map fst m') = sort (map fst m)"
    by (rule properties_for_sort) (simp_all add: assms(2))
  ultimately show ?thesis by (simp add: sorted_map_def)
qed

text \<open>Two configurations with the same content: the maps hold the same bindings, and so do the pay
  tables inside the machines.\<close>

definition same_machine :: "SlotMachine \<Rightarrow> SlotMachine \<Rightarrow> bool" where
  "same_machine m m' \<longleftrightarrow> (\<exists>pt. distinct (map fst (m_Paytable m)) \<and> mset pt = mset (m_Paytable m) \<and> m' = m\<lparr>m_Paytable := pt\<rparr>)"

definition same_content :: "Config \<Rightarrow> Config \<Rightarrow> bool" where
  "same_content c c' \<longleftrightarrow>
     distinct (map fst (c_Slots c)) \<and> distinct (map fst (c_Gacha c)) \<and> distinct (map fst (c_Products c)) \<and>
     distinct (map fst (c_Items c)) \<and> distinct (map fst (c_Jackpots c)) \<and>
     (\<exists>slots. mset slots = mset (c_Slots c) \<and> list_all2 (\<lambda>(i, m) (i', m'). i' = i \<and> same_machine m m') slots (c_Slots c')) \<and>
     mset (c_Gacha c') = mset (c_Gacha c) \<and> mset (c_Products c') = mset (c_Products c) \<and>
     mset (c_Items c') = mset (c_Items c) \<and> mset (c_Jackpots c') = mset (c_Jackpots c) \<and>
     c_LevelExp c' = c_LevelExp c \<and> c_RG c' = c_RG c \<and> c_Bag c' = c_Bag c"

lemma canonical_same_machine: "same_machine m m' \<Longrightarrow> canonical_machine i m' = canonical_machine i m"
  unfolding same_machine_def
proof (elim exE conjE)
  fix pt assume "distinct (map fst (m_Paytable m))" "mset pt = mset (m_Paytable m)" and m': "m' = m\<lparr>m_Paytable := pt\<rparr>"
  then have "sorted_map pt = sorted_map (m_Paytable m)" by (intro sorted_map_perm)
  then show ?thesis by (simp add: m' canonical_machine_def)
qed

lemma sorted_map_rel:
  assumes "list_all2 (\<lambda>(i, m) (i', m'). i' = i \<and> P m m') xs ys"
  shows "list_all2 (\<lambda>(i, m) (i', m'). i' = i \<and> P m m') (sorted_map xs) (sorted_map ys)"
proof -
  have keys: "map fst ys = map fst xs" using assms by (induction rule: list_all2_induct) auto
  have "P (the (map_of xs k)) (the (map_of ys k))" if "k \<in> fst ` set xs" for k
    using assms that
  proof (induction rule: list_all2_induct)
    case (Cons x xs y ys)
    then show ?case by (cases x; cases y) auto
  qed simp
  then show ?thesis by (simp add: sorted_map_def keys list_all2_map1 list_all2_map2 list_all2_same)
qed

lemma canonical_same_content: "same_content c c' \<Longrightarrow> canonical c' = canonical c"
proof -
  assume s: "same_content c c'"
  then obtain slots where slots: "mset slots = mset (c_Slots c)"
    "list_all2 (\<lambda>(i, m) (i', m'). i' = i \<and> same_machine m m') slots (c_Slots c')"
    by (auto simp: same_content_def)
  have "map (\<lambda>(i, m). canonical_machine i m) (sorted_map (c_Slots c')) = map (\<lambda>(i, m). canonical_machine i m) (sorted_map slots)"
    using sorted_map_rel [OF slots(2)]
    by (induction rule: list_all2_induct) (auto simp: canonical_same_machine)
  moreover have "sorted_map slots = sorted_map (c_Slots c)"
    using s slots(1) by (intro sorted_map_perm) (auto simp: same_content_def)
  moreover have "sorted_map (c_Gacha c') = sorted_map (c_Gacha c)" "sorted_map (c_Products c') = sorted_map (c_Products c)"
    "sorted_map (c_Items c') = sorted_map (c_Items c)" "sorted_map (c_Jackpots c') = sorted_map (c_Jackpots c)"
    using s by (simp_all add: same_content_def sorted_map_perm)
  ultimately show ?thesis using s by (simp add: canonical_def same_content_def)
qed

section \<open>Reel strips\<close>

lemma spread_nth: "s \<noteq> [] \<Longrightarrow> idx < length s \<Longrightarrow> spread k s idx = map (\<lambda>i. s ! ((idx + 7 * i) mod length s)) [0..<k]"
proof (induction k arbitrary: idx)
  case (Suc k)
  have "spread (Suc k) s idx = s ! idx # map (\<lambda>i. s ! (((idx + 7) mod length s + 7 * i) mod length s)) [0..<k]"
    using Suc by simp
  also have "map (\<lambda>i. s ! (((idx + 7) mod length s + 7 * i) mod length s)) [0..<k]
      = map (\<lambda>i. s ! ((idx + 7 * i) mod length s)) [Suc 0..<Suc k]"
    unfolding map_Suc_upt [symmetric] map_map
    by (intro map_cong refl) (simp add: mod_simps algebra_simps)
  finally show ?case using Suc.prems by (simp add: upt_conv_Cons del: upt_Suc)
qed simp

lemma step_permutes:
  assumes "coprime 7 n" "0 < n"
  shows "bij_betw (\<lambda>i. (a + 7 * i) mod n) {..<n} {..<(n :: nat)}"
proof -
  have "inj_on (\<lambda>i. (a + 7 * i) mod n) {..<n}"
  proof (rule inj_onI)
    fix x y assume xy: "x \<in> {..<n}" "y \<in> {..<n}" "(a + 7 * x) mod n = (a + 7 * y) mod n"
    have "u = v" if "u \<le> v" "v < n" "(a + 7 * u) mod n = (a + 7 * v) mod n" for u v
    proof -
      have "n dvd (a + 7 * v) - (a + 7 * u)" using that by (subst mod_eq_dvd_iff_nat [symmetric]) simp_all
      then have "n dvd 7 * (v - u)" by (simp add: diff_mult_distrib2)
      then have "n dvd v - u" using assms(1) by (simp add: coprime_commute coprime_dvd_mult_right_iff)
      with that(1,2) show ?thesis by (metis dvd_imp_le diff_is_0_eq less_imp_diff_less not_le le_antisym neq0_conv)
    qed
    from this [of x y] this [of y x] xy show "x = y" using nat_le_linear [of x y] by auto
  qed
  moreover have "(\<lambda>i. (a + 7 * i) mod n) ` {..<n} \<subseteq> {..<n}" using assms(2) by auto
  ultimately show ?thesis by (simp add: bij_betw_def endo_inj_surj)
qed

lemma interleave_mset:
  assumes "coprime 7 (length s)" "s \<noteq> []"
  shows "\<exists>t. interleave s offset = Some t \<and> mset t = mset s"
proof -
  let ?n = "length s" let ?f = "\<lambda>i. (offset mod ?n + 7 * i) mod ?n"
  have "spread ?n s (offset mod ?n) = map (\<lambda>i. s ! ?f i) [0..<?n]" using assms(2) by (intro spread_nth) auto
  moreover have "mset (map (\<lambda>i. s ! ?f i) [0..<?n]) = mset (map ((!) s) (map ?f [0..<?n]))" by (simp add: comp_def)
  moreover have "mset (map ?f [0..<?n]) = mset [0..<?n]"
  proof -
    have "bij_betw ?f {..<?n} {..<?n}" using assms by (intro step_permutes) auto
    then have "image_mset ?f (mset_set {..<?n}) = mset_set {..<?n}"
      by (metis bij_betw_def image_mset_mset_set)
    then show ?thesis by (simp add: atLeast0LessThan)
  qed
  then have "mset (map ((!) s) (map ?f [0..<?n])) = mset (map ((!) s) [0..<?n])" by (metis mset_map)
  ultimately show ?thesis using assms(2) by (simp add: interleave_def map_nth)
qed

lemma length_spread: "length (spread k s i) = k"
  by (induction k arbitrary: i) auto

lemma length_classicStrip: "length classicStrip = 32"
  by (simp add: classicStrip_def strip_def)

lemma classic_reels_shape: "length classic_reels = 5" "\<forall>r \<in> set classic_reels. length r = 32"
proof -
  have "classicStrip \<noteq> []" using length_classicStrip by auto
  then show "length classic_reels = 5" "\<forall>r \<in> set classic_reels. length r = 32"
    by (auto simp: classic_reels_def interleave_def length_spread length_classicStrip)
qed

lemma classic5_sel: "m_Reels (classic5 r) = r" "m_Rows (classic5 r) = 3" "m_ID (classic5 r) = ''classic5''"
  by (simp_all add: classic5_def)

lemma Default_sel:
  "c_Slots (Default digest) = [(''classic5'', classic5 classic_reels)]"
  "c_Gacha (Default digest) = [(''standard'', standard_pool)]"
  "c_Products (Default digest) = map (\<lambda>(i, amount, price). (i, \<lparr>pr_ID = i, pr_Currency = 2, pr_Amount = amount,
            pr_PriceCents = price, pr_Channels = [''apple'', ''google'', ''sandbox'']\<rparr>))
          [(1, 60, 600), (2, 300, 3000), (3, 980, 9800)]"
  "c_Jackpots (Default digest) = [(''grand'', \<lparr>j_ID = ''grand'', j_Currency = 1, j_Seed = 100000\<rparr>)]"
  "c_RG (Default digest) = \<lparr>DailyBetLimit = 1000000, DailyLossLimit = 200000, SessionLimit = 4 * 3600,
                ResetOffsetMinutes = 8 * 60, NoticeInterval = 1800\<rparr>"
  "c_Bag (Default digest) = \<lparr>Capacity = 200\<rparr>"
  unfolding Default_def Let_def computeVersion_def by (simp_all split: option.split)

section \<open>Properties\<close>

text \<open>The version number is a function of the configuration's content: two processes whose Go maps
  happen to be iterated in different orders compute the same version, for any digest.\<close>

theorem version_ignores_map_order:
  assumes "same_content c c'"
  shows "map_option c_version (computeVersion digest c') = map_option c_version (computeVersion digest c)"
  using canonical_same_content [OF assms] by (simp add: computeVersion_def split: option.split)

theorem version_ignores_map_order_witness:
  "map_option c_version (computeVersion (\<lambda>_. Some ''v1'') ((Default (\<lambda>_. Some ''v1''))\<lparr>c_Products := rev (c_Products (Default (\<lambda>_. Some ''v1'')))\<rparr>))
     = map_option c_version (computeVersion (\<lambda>_. Some ''v1'') (Default (\<lambda>_. Some ''v1'')))"
proof (rule version_ignores_map_order)
  have "\<exists>slots. mset slots = mset (c_Slots c) \<and> list_all2 (\<lambda>(i, m) (i', m'). i' = i \<and> same_machine m m') slots (c_Slots c)"
    if "\<forall>(i, m) \<in> set (c_Slots c). same_machine m m" for c
    using that by (intro exI [of _ "c_Slots c"]) (auto simp: list_all2_same)
  moreover have "same_machine (classic5 r) (classic5 r)" for r
    unfolding same_machine_def by (rule exI [of _ "m_Paytable (classic5 r)"]) (simp add: classic5_def Sym_defs)
  ultimately show "same_content (Default (\<lambda>_. Some ''v1'')) ((Default (\<lambda>_. Some ''v1''))\<lparr>c_Products := rev (c_Products (Default (\<lambda>_. Some ''v1'')))\<rparr>)"
    by (simp add: same_content_def Default_def computeVersion_def Let_def split: option.split)
qed

text \<open>Spreading a reel strip keeps the symbol frequencies: for every strip whose length is not a
  multiple of 7 and every offset, \<open>interleave\<close> returns a rearrangement of the strip, so it cannot
  move the return to player.\<close>

theorem interleave_keeps_frequencies:
  assumes "coprime 7 (length s)" and "s \<noteq> []"
  shows "\<exists>t. interleave s offset = Some t \<and> mset t = mset s"
  by (rule interleave_mset [OF assms])

theorem interleave_keeps_frequencies_witness: "\<exists>t. interleave classicStrip 5 = Some t \<and> mset t = mset classicStrip"
proof (rule interleave_keeps_frequencies)
  have "coprime 7 (32 :: nat)" by code_simp
  then show "coprime 7 (length classicStrip)" by (simp add: length_classicStrip)
  show "classicStrip \<noteq> []" using length_classicStrip by auto
qed

text \<open>The built-in configuration passes the start-up check, so a process without a configuration
  file starts, whatever the digest.\<close>

theorem default_config_is_valid: "Validate (Default digest) = None"
proof -
  have "validate_machine c ''classic5'' (classic5 classic_reels) = None"
    if "c_Jackpots c = [(''grand'', j)]" for c j
  proof -
    have "classic_reels \<noteq> []" using classic_reels_shape(1) by auto
    then show ?thesis
      unfolding validate_machine_def first_err_simps LineCount_def classic5_sel classic_reels_shape(1)
      using classic_reels_shape(2) by (simp add: classic5_def that)
  qed
  moreover have "validate_pool ''standard'' standard_pool = None"
    by (simp add: standard_pool_def validate_pool_def first_err_Cons i64_def)
  ultimately show ?thesis
    unfolding Validate_def first_err_simps Default_sel by (simp add: Default_sel validate_product_def first_err_Cons)
qed

end
