(* ===== verification/Slots_Engine.thy ===== *)
theory Slots_Engine
  imports Gameconf Rng
begin

text \<open>
  The slot machine engine, \<^verbatim>\<open>internal/slots/engine.go\<close>: one spin (reels, lines, scatters,
  free spins, jackpot draw) and the replay of a whole round from its seed. Everything is a
  pure function of the machine, the random source, the bet, the multiplier and the kind of
  spin. A runtime panic (index, empty draw, division by zero) is an error value.

  Shown here: on a validated machine a spin always returns, the grid is made of windows of the
  reels, and every number of the outcome is independent of the order in which Go iterates the
  pay table; only the symbol named for a tied line is not.
\<close>

section \<open>Results\<close>

datatype slot_err = NilMachine | BadBet | BadSeed | Panic

type_synonym grid = "nat list list"

record LineWin =
  l_Line :: int
  l_Symbol :: nat
  l_Count :: nat
  l_Payout :: int

record spin_result =
  res_Grid :: grid
  res_Stops :: "int list"
  res_Lines :: "LineWin list"
  res_LineWin :: int
  res_Scatter :: nat
  res_ScatterWin :: int
  res_Multiplier :: nat
  res_TotalWin :: int
  res_FreeSpinsAwarded :: nat
  res_JackpotHit :: bool

text \<open>\<open>len(g[0])\<close> panics on an empty grid.\<close>

definition Flat :: "grid \<Rightarrow> nat list option" where
  "Flat g = (if g = [] then None else Some (concat g))"

section \<open>Evaluation\<close>

definition cell :: "grid \<Rightarrow> int \<Rightarrow> int \<Rightarrow> nat option" where
  "cell g i row = (case go_index g i of None \<Rightarrow> None | Some col \<Rightarrow> go_index col row)"

definition candidateSymbols :: "SlotMachine \<Rightarrow> nat \<Rightarrow> nat list" where
  "candidateSymbols m first =
     (if first = m_Scatter m then []
      else if first \<noteq> m_Wild m then [first]
      else filter (\<lambda>sy. sy \<noteq> m_Scatter m) (map fst (m_Paytable m)))"

definition payoutFor :: "SlotMachine \<Rightarrow> nat \<Rightarrow> nat \<Rightarrow> int \<Rightarrow> int" where
  "payoutFor m sy cnt lineBet =
     (if cnt = 0 then 0
      else case map_of (m_Paytable m) sy of
             None \<Rightarrow> 0
           | Some table \<Rightarrow> if cnt > length table then 0 else i64 (table ! (cnt - 1) * lineBet))"

fun count_run :: "SlotMachine \<Rightarrow> grid \<Rightarrow> nat \<Rightarrow> int \<Rightarrow> int list \<Rightarrow> nat option" where
  "count_run m g sy i [] = Some 0"
| "count_run m g sy i (row # rows) =
     (case cell g i row of
        None \<Rightarrow> None
      | Some s \<Rightarrow>
          if s = sy \<or> (s = m_Wild m \<and> sy \<noteq> m_Scatter m) then map_option Suc (count_run m g sy (i + 1) rows)
          else Some 0)"

fun best_of :: "SlotMachine \<Rightarrow> grid \<Rightarrow> int \<Rightarrow> int \<Rightarrow> int list \<Rightarrow> LineWin \<Rightarrow> nat list \<Rightarrow> LineWin option" where
  "best_of m g lineBet li line best [] = Some best"
| "best_of m g lineBet li line best (sy # syms) =
     (case count_run m g sy 0 line of
        None \<Rightarrow> None
      | Some cnt \<Rightarrow>
          let payout = payoutFor m sy cnt lineBet in
          best_of m g lineBet li line
            (if payout > l_Payout best
             then \<lparr>l_Line = li, l_Symbol = sy, l_Count = cnt, l_Payout = payout\<rparr> else best) syms)"

definition evalLine :: "SlotMachine \<Rightarrow> grid \<Rightarrow> int \<Rightarrow> int \<Rightarrow> int list \<Rightarrow> LineWin option" where
  "evalLine m g lineBet li line =
     (case line of
        [] \<Rightarrow> None
      | row # _ \<Rightarrow>
          (case cell g 0 row of
             None \<Rightarrow> None
           | Some first \<Rightarrow>
               best_of m g lineBet li line \<lparr>l_Line = li, l_Symbol = 0, l_Count = 0, l_Payout = 0\<rparr>
                 (candidateSymbols m first)))"

fun eval_lines_from :: "SlotMachine \<Rightarrow> grid \<Rightarrow> int \<Rightarrow> int \<Rightarrow> int list list \<Rightarrow> LineWin list \<Rightarrow> int \<Rightarrow> (LineWin list \<times> int) option" where
  "eval_lines_from m g lineBet li [] wins tot = Some (wins, tot)"
| "eval_lines_from m g lineBet li (line # lines) wins tot =
     (case evalLine m g lineBet li line of
        None \<Rightarrow> None
      | Some best \<Rightarrow>
          if l_Payout best > 0
          then eval_lines_from m g lineBet (li + 1) lines (wins @ [best]) (i64 (tot + l_Payout best))
          else eval_lines_from m g lineBet (li + 1) lines wins tot)"

definition evalLines :: "SlotMachine \<Rightarrow> grid \<Rightarrow> int \<Rightarrow> (LineWin list \<times> int) option" where
  "evalLines m g lineBet = eval_lines_from m g lineBet 0 (m_Paylines m) [] 0"

definition evalScatter :: "SlotMachine \<Rightarrow> grid \<Rightarrow> int \<Rightarrow> nat \<times> int" where
  "evalScatter m g bet =
     (let cnt = length (filter (\<lambda>s. s = m_Scatter m) (concat g)) in
      if cnt = 0 \<or> m_ScatterPays m = [] then (cnt, 0)
      else let idx = (if cnt - 1 \<ge> length (m_ScatterPays m) then length (m_ScatterPays m) - 1 else cnt - 1)
           in (cnt, i64 (m_ScatterPays m ! idx * bet)))"

definition freeSpinsFor :: "SlotMachine \<Rightarrow> nat \<Rightarrow> bool \<Rightarrow> nat" where
  "freeSpinsFor m scatter free =
     (if scatter = 0 \<or> m_FreeSpins m = [] then 0
      else if free \<and> \<not> m_FreeSpinRetrigger m then 0
      else let idx = (if scatter - 1 \<ge> length (m_FreeSpins m) then length (m_FreeSpins m) - 1 else scatter - 1)
           in m_FreeSpins m ! idx)"

section \<open>A spin\<close>

text \<open>The visible window: \<open>Rows\<close> symbols down from the stop, around the reel.\<close>

definition window :: "int \<Rightarrow> nat list \<Rightarrow> int \<Rightarrow> nat list" where
  "window rows reel stop = map (\<lambda>r. reel ! ((nat stop + r) mod length reel)) [0..<nat rows]"

fun spin_reels :: "'g rand \<Rightarrow> int \<Rightarrow> nat list list \<Rightarrow> 'g source \<Rightarrow> ((int list \<times> grid) \<times> 'g source) option" where
  "spin_reels G rows [] s = Some (([], []), s)"
| "spin_reels G rows (reel # reels) s =
     (case rng_IntN G (int (length reel)) s of
        None \<Rightarrow> None
      | Some (stop, s1) \<Rightarrow>
          if rows < 0 then None
          else (case spin_reels G rows reels s1 of
                  None \<Rightarrow> None
                | Some ((stops, g), s2) \<Rightarrow> Some ((stop # stops, window rows reel stop # g), s2)))"

definition Spin :: "'g rand \<Rightarrow> SlotMachine option \<Rightarrow> int \<Rightarrow> nat \<Rightarrow> bool \<Rightarrow> 'g source \<Rightarrow> slot_err + (spin_result \<times> 'g source)" where
  "Spin G om bet multiplier free s =
     (case om of
        None \<Rightarrow> Inl NilMachine
      | Some m \<Rightarrow>
          if bet \<le> 0 then Inl BadBet
          else
            let mul = (if multiplier = 0 then 1 else multiplier) in
            case spin_reels G (m_Rows m) (m_Reels m) s of
              None \<Rightarrow> Inl Panic
            | Some ((stops, g), s1) \<Rightarrow>
                if m_Paylines m = [] then Inl Panic
                else
                  case evalLines m g (go_div bet (LineCount m)) of
                    None \<Rightarrow> Inl Panic
                  | Some (wins, lineWin) \<Rightarrow>
                      let (scatter, scatterWin) = evalScatter m g bet;
                          res = \<lparr>res_Grid = g, res_Stops = stops, res_Lines = wins, res_LineWin = lineWin,
                                 res_Scatter = scatter, res_ScatterWin = scatterWin, res_Multiplier = mul,
                                 res_TotalWin = i64 (i64 (lineWin + scatterWin) * int mul),
                                 res_FreeSpinsAwarded = freeSpinsFor m scatter free, res_JackpotHit = False\<rparr>
                      in if \<not> free \<and> m_JackpotPool m \<noteq> [] \<and> m_JackpotChanceDen m > 0
                         then (case Chance G (m_JackpotChanceNum m) (m_JackpotChanceDen m) s1 of
                                 None \<Rightarrow> Inl Panic
                               | Some (hit, s2) \<Rightarrow> Inr (res\<lparr>res_JackpotHit := hit\<rparr>, s2))
                         else Inr (res, s1))"

section \<open>Replay\<close>

fun replay_loop :: "'g rand \<Rightarrow> SlotMachine \<Rightarrow> int \<Rightarrow> nat \<Rightarrow> nat \<Rightarrow> nat \<Rightarrow> 'g source \<Rightarrow> slot_err + spin_result list" where
  "replay_loop G m bet 0 freeLeft multiplier s = Inr []"
| "replay_loop G m bet (Suc k) freeLeft multiplier s =
     (let free = freeLeft > 0;
          mul = (if free then multiplier else 1);
          freeLeft1 = (if free then freeLeft - 1 else freeLeft)
      in case Spin G (Some m) bet mul free s of
           Inl e \<Rightarrow> Inl e
         | Inr (r, s1) \<Rightarrow>
             let (freeLeft2, multiplier2) =
                   (if res_FreeSpinsAwarded r > 0
                    then (u32 (freeLeft1 + res_FreeSpinsAwarded r),
                          if m_FreeSpinMultiplier m = 0 then 1 else m_FreeSpinMultiplier m)
                    else (freeLeft1, multiplier))
             in case replay_loop G m bet k freeLeft2 multiplier2 s1 of
                  Inl e \<Rightarrow> Inl e
                | Inr rs \<Rightarrow> Inr (r # rs))"

text \<open>A negative capacity makes \<open>make\<close> panic.\<close>

definition Replay :: "'g rand \<Rightarrow> SlotMachine \<Rightarrow> string \<Rightarrow> int \<Rightarrow> int \<Rightarrow> slot_err + spin_result list" where
  "Replay G m seedHex bet spins =
     (case ParseSeed seedHex of
        None \<Rightarrow> Inl BadSeed
      | Some seed \<Rightarrow>
          if spins < 0 then Inl Panic
          else replay_loop G m bet (nat spins) 0 1 (rng_New G seed))"

section \<open>A spin returns\<close>

definition grid_ok :: "SlotMachine \<Rightarrow> grid \<Rightarrow> bool" where
  "grid_ok m g \<longleftrightarrow> length g = length (m_Reels m) \<and> (\<forall>col \<in> set g. int (length col) = m_Rows m)"

lemma cell_ok:
  assumes "grid_ok m g" "0 \<le> i" "i < int (length (m_Reels m))" "0 \<le> row" "row < m_Rows m"
  shows "\<exists>s. cell g i row = Some s"
proof -
  have i: "go_index g i = Some (g ! nat i)" using assms by (intro go_index_ok) (auto simp: grid_ok_def)
  have "int (length (g ! nat i)) = m_Rows m" using assms by (simp add: grid_ok_def)
  then have "go_index (g ! nat i) row = Some (g ! nat i ! nat row)" using assms by (intro go_index_ok) auto
  with i show ?thesis by (simp add: cell_def)
qed

lemma count_run_Some:
  assumes "grid_ok m g" "\<forall>row \<in> set rows. 0 \<le> row \<and> row < m_Rows m" "0 \<le> i"
    "i + int (length rows) \<le> int (length (m_Reels m))"
  shows "\<exists>c. count_run m g sy i rows = Some c \<and> c \<le> length rows"
  using assms
proof (induction rows arbitrary: i)
  case (Cons row rows)
  obtain c where c: "count_run m g sy (i + 1) rows = Some c" "c \<le> length rows"
    using Cons.IH [of "i + 1"] Cons.prems by auto
  obtain s where "cell g i row = Some s" using cell_ok [of m g i row] Cons.prems by auto
  with c show ?case by simp
qed simp

lemma best_of_Some:
  "(\<forall>sy \<in> set syms. count_run m g sy 0 line \<noteq> None) \<longleftrightarrow> best_of m g lb li line best syms \<noteq> None"
  by (induction syms arbitrary: best) (auto simp: Let_def split: option.splits)

definition line_ok :: "SlotMachine \<Rightarrow> int list \<Rightarrow> bool" where
  "line_ok m line \<longleftrightarrow> length line = length (m_Reels m) \<and> (\<forall>row \<in> set line. 0 \<le> row \<and> row < m_Rows m)"

lemma evalLine_Some:
  assumes "grid_ok m g" "line_ok m line" "m_Reels m \<noteq> []"
  shows "\<exists>w. evalLine m g lb li line = Some w"
proof -
  obtain row rows where line: "line = row # rows" using assms by (cases line) (auto simp: line_ok_def)
  obtain first where first: "cell g 0 row = Some first"
    using assms cell_ok [of m g 0 row] by (auto simp: line line_ok_def)
  have "\<forall>sy. count_run m g sy 0 line \<noteq> None"
    using assms count_run_Some [of m g line 0] by (auto simp: line_ok_def)
  then have "best_of m g lb li line b (candidateSymbols m first) \<noteq> None" for b
    using best_of_Some by blast
  with first show ?thesis by (simp add: evalLine_def line)
qed

lemma eval_lines_Some:
  assumes "grid_ok m g" "\<forall>line \<in> set lines. line_ok m line" "m_Reels m \<noteq> []"
  shows "\<exists>w t. eval_lines_from m g lb li lines ws tot = Some (w, t)"
  using assms(2)
proof (induction lines arbitrary: li ws tot)
  case (Cons line lines)
  obtain w where "evalLine m g lb li line = Some w" using evalLine_Some assms Cons.prems by fastforce
  then show ?case using Cons.IH Cons.prems by (cases "l_Payout w > 0") auto
qed simp

text \<open>The grid is made of windows at the drawn stops.\<close>

definition windows_at :: "SlotMachine \<Rightarrow> int list \<Rightarrow> grid \<Rightarrow> bool" where
  "windows_at m stops g \<longleftrightarrow>
     list_all2 (\<lambda>reel stop. 0 \<le> stop \<and> stop < int (length reel)) (m_Reels m) stops \<and>
     g = map2 (window (m_Rows m)) (m_Reels m) stops"

context rand_api
begin

lemma spin_reels_Some:
  assumes "0 \<le> rows" "\<forall>reel \<in> set reels. reel \<noteq> []"
  shows "\<exists>stops s'. spin_reels G rows reels s = Some ((stops, map2 (window rows) reels stops), s')
    \<and> list_all2 (\<lambda>reel stop. 0 \<le> stop \<and> stop < int (length reel)) reels stops"
  using assms(2)
proof (induction reels arbitrary: s)
  case (Cons reel reels)
  then obtain v s1 where v: "rng_IntN G (int (length reel)) s = Some (v, s1)" "0 \<le> v" "v < int (length reel)"
    using IntN_Some [of "int (length reel)" s] by auto
  obtain stops s' where "spin_reels G rows reels s1 = Some ((stops, map2 (window rows) reels stops), s')"
    "list_all2 (\<lambda>reel stop. 0 \<le> stop \<and> stop < int (length reel)) reels stops"
    using Cons.IH [of s1] Cons.prems by auto
  with v assms(1) show ?case by auto
qed simp

lemma Spin_returns:
  assumes m: "machine_ok m" and bet: "0 < bet"
  shows "\<exists>r s'. Spin G (Some m) bet mul free s = Inr (r, s') \<and> windows_at m (res_Stops r) (res_Grid r) \<and> grid_ok m (res_Grid r)
    \<and> res_Multiplier r = (if mul = 0 then 1 else mul)
    \<and> (free \<longrightarrow> \<not> res_JackpotHit r)"
proof -
  have "\<forall>reel \<in> set (m_Reels m). reel \<noteq> []" using m by (auto simp: machine_ok_def)
  then obtain stops s1 where r: "spin_reels G (m_Rows m) (m_Reels m) s = Some ((stops, map2 (window (m_Rows m)) (m_Reels m) stops), s1)"
    "list_all2 (\<lambda>reel stop. 0 \<le> stop \<and> stop < int (length reel)) (m_Reels m) stops"
    using spin_reels_Some [of "m_Rows m" "m_Reels m" s] m by (auto simp: machine_ok_def)
  let ?g = "map2 (window (m_Rows m)) (m_Reels m) stops"
  have g: "grid_ok m ?g"
    using r(2) m by (auto simp: grid_ok_def window_def list_all2_lengthD machine_ok_def dest: list_all2_lengthD)
  have "\<exists>w t. evalLines m ?g (go_div bet (LineCount m)) = Some (w, t)"
    unfolding evalLines_def using m by (intro eval_lines_Some [OF g]) (auto simp: machine_ok_def line_ok_def)
  then obtain w t where e: "evalLines m ?g (go_div bet (LineCount m)) = Some (w, t)" by blast
  obtain sc scw where sc: "evalScatter m ?g bet = (sc, scw)" by fastforce
  obtain b s2 where ch: "Chance G (m_JackpotChanceNum m) (m_JackpotChanceDen m) s1 = Some (b, s2)"
    using Chance_Some by blast
  have "m_Paylines m \<noteq> []" using m by (simp add: machine_ok_def)
  with bet r e sc ch g show ?thesis by (auto simp: Spin_def Let_def windows_at_def)
qed

end

section \<open>Payouts and map order\<close>

text \<open>Reference: the value of a line is the best payout over the symbols it may stand for.\<close>

definition line_value :: "SlotMachine \<Rightarrow> grid \<Rightarrow> int \<Rightarrow> int list \<Rightarrow> int" where
  "line_value m g lb line =
     Max (insert 0 ((\<lambda>sy. payoutFor m sy (the (count_run m g sy 0 line)) lb)
       ` set (candidateSymbols m (the (cell g 0 (hd line))))))"

lemma fold_max_Max: "fold max xs (a :: int) = Max (insert a (set xs))"
proof (induction xs arbitrary: a)
  case (Cons x xs)
  have "Max (insert (max x a) (set xs)) = Max (insert a (insert x (set xs)))"
    by (cases "xs = []") (simp_all add: max.assoc max.left_commute max.commute)
  with Cons show ?case by simp
qed simp

lemma best_of_payout:
  "best_of m g lb li line best syms = Some w \<Longrightarrow>
   l_Payout w = fold max (map (\<lambda>sy. payoutFor m sy (the (count_run m g sy 0 line)) lb) syms) (l_Payout best)"
proof (induction syms arbitrary: best)
  case (Cons sy syms)
  obtain c where c: "count_run m g sy 0 line = Some c" using Cons.prems by (auto split: option.splits)
  show ?case using Cons.IH [OF Cons.prems [simplified, unfolded c option.case Let_def]] c by (auto simp: max_def)
qed simp

lemma best_of_line: "best_of m g lb li line best syms = Some w \<Longrightarrow> l_Line best = li \<Longrightarrow> l_Line w = li"
  by (induction syms arbitrary: best) (auto simp: Let_def split: option.splits if_splits)

lemma evalLine_value:
  "evalLine m g lb li line = Some w \<Longrightarrow> l_Line w = li \<and> l_Payout w = line_value m g lb line"
proof -
  assume e: "evalLine m g lb li line = Some w"
  then obtain row rows first where l: "line = row # rows" "cell g 0 row = Some first"
    and b: "best_of m g lb li line \<lparr>l_Line = li, l_Symbol = 0, l_Count = 0, l_Payout = 0\<rparr> (candidateSymbols m first) = Some w"
    by (auto simp: evalLine_def split: list.splits option.splits)
  show ?thesis using best_of_payout [OF b] best_of_line [OF b] l
    by (simp add: line_value_def fold_max_Max)
qed

text \<open>The outcome of a spin: everything but which of several equally paying symbols a line is
  reported for.\<close>

definition same_outcome :: "spin_result \<Rightarrow> spin_result \<Rightarrow> bool" where
  "same_outcome r r' \<longleftrightarrow>
     map (\<lambda>w. (l_Line w, l_Payout w)) (res_Lines r') = map (\<lambda>w. (l_Line w, l_Payout w)) (res_Lines r) \<and>
     r' = r\<lparr>res_Lines := res_Lines r'\<rparr>"

lemma same_machine_parts:
  assumes "same_machine m m'"
  shows "count_run m' g sy i rows = count_run m g sy i rows"
    and "payoutFor m' sy c lb = payoutFor m sy c lb"
    and "set (candidateSymbols m' first) = set (candidateSymbols m first)"
    and "m_Paylines m' = m_Paylines m" "m_Reels m' = m_Reels m" "m_Rows m' = m_Rows m" "LineCount m' = LineCount m"
    and "evalScatter m' g bet = evalScatter m g bet" "freeSpinsFor m' n free = freeSpinsFor m n free"
    and "m_JackpotPool m' = m_JackpotPool m" "m_JackpotChanceNum m' = m_JackpotChanceNum m"
      "m_JackpotChanceDen m' = m_JackpotChanceDen m" "m_FreeSpinMultiplier m' = m_FreeSpinMultiplier m"
proof -
  obtain pt where d: "distinct (map fst (m_Paytable m))" and p: "mset pt = mset (m_Paytable m)" and m': "m' = m\<lparr>m_Paytable := pt\<rparr>"
    using assms by (auto simp: same_machine_def)
  have "distinct (map fst pt)" using d p by (metis mset_map mset_eq_imp_distinct_iff)
  then have mo: "map_of pt = map_of (m_Paytable m)" using d mset_eq_setD [OF p] by (simp add: map_of_inject_set)
  show "count_run m' g sy i rows = count_run m g sy i rows"
    by (induction rows arbitrary: i) (simp_all add: m' split: option.split)
  show "payoutFor m' sy c lb = payoutFor m sy c lb" by (simp add: payoutFor_def m' mo)
  show "set (candidateSymbols m' first) = set (candidateSymbols m first)"
    using mset_eq_setD [OF p] by (simp add: candidateSymbols_def m')
qed (use assms in \<open>auto simp: same_machine_def LineCount_def evalScatter_def freeSpinsFor_def Let_def\<close>)

lemma evalLine_same_None:
  assumes "same_machine m m'"
  shows "evalLine m' g lb li line = None \<longleftrightarrow> evalLine m g lb li line = None"
proof -
  have "best_of m' g lb li line b (candidateSymbols m' f) = None \<longleftrightarrow> best_of m g lb li line b (candidateSymbols m f) = None" for b f
    using best_of_Some [of "candidateSymbols m' f" m' g line lb li b] best_of_Some [of "candidateSymbols m f" m g line lb li b]
    by (auto simp: same_machine_parts [OF assms])
  then show ?thesis by (auto simp: evalLine_def split: list.splits option.splits)
qed

lemma evalLine_same:
  assumes "same_machine m m'" "evalLine m g lb li line = Some w"
  shows "\<exists>w'. evalLine m' g lb li line = Some w' \<and> l_Line w' = l_Line w \<and> l_Payout w' = l_Payout w"
proof -
  obtain w' where w': "evalLine m' g lb li line = Some w'"
    using evalLine_same_None [OF assms(1), of g lb li line] assms(2) by auto
  have "line_value m' g lb line = line_value m g lb line" by (simp add: line_value_def same_machine_parts [OF assms(1)])
  with evalLine_value [OF w'] evalLine_value [OF assms(2)] w' show ?thesis by simp
qed

lemma eval_lines_same:
  assumes "same_machine m m'" "map (\<lambda>w. (l_Line w, l_Payout w)) ws' = map (\<lambda>w. (l_Line w, l_Payout w)) ws"
  shows "rel_option (\<lambda>(w, t) (w', t'). t' = t \<and> map (\<lambda>w. (l_Line w, l_Payout w)) w' = map (\<lambda>w. (l_Line w, l_Payout w)) w)
    (eval_lines_from m g lb li lines ws tot) (eval_lines_from m' g lb li lines ws' tot)"
  using assms(2)
proof (induction lines arbitrary: li ws ws' tot)
  case (Cons line lines)
  show ?case
  proof (cases "evalLine m g lb li line")
    case None
    moreover from this have "evalLine m' g lb li line = None" using evalLine_same_None [OF assms(1)] by blast
    ultimately show ?thesis by simp
  next
    case (Some w)
    then obtain w' where "evalLine m' g lb li line = Some w'" "l_Line w' = l_Line w" "l_Payout w' = l_Payout w"
      using evalLine_same [OF assms(1)] by blast
    then show ?thesis using Some Cons by simp
  qed
qed simp

lemma Spin_same:
  assumes "same_machine m m'"
  shows "rel_sum (=) (rel_prod same_outcome (=)) (Spin G (Some m) bet mul free s) (Spin G (Some m') bet mul free s)"
proof -
  note sm = same_machine_parts [OF assms]
  show ?thesis
  proof (cases "spin_reels G (m_Rows m) (m_Reels m) s")
    case None
    then show ?thesis by (simp add: Spin_def sm)
  next
    case (Some x)
    obtain stops g s1 where x: "x = ((stops, g), s1)" by (metis prod.exhaust)
    have el: "rel_option (\<lambda>(w, t) (w', t'). t' = t \<and> map (\<lambda>w. (l_Line w, l_Payout w)) w' = map (\<lambda>w. (l_Line w, l_Payout w)) w)
        (evalLines m g (go_div bet (LineCount m))) (evalLines m' g (go_div bet (LineCount m)))"
      unfolding evalLines_def sm(4) by (rule eval_lines_same [OF assms]) simp
    obtain sc scw where sc: "evalScatter m g bet = (sc, scw)" by fastforce
    show ?thesis using Some el
      by (cases "evalLines m g (go_div bet (LineCount m))"; cases "evalLines m' g (go_div bet (LineCount m))")
        (auto simp: Spin_def x sm sc Let_def same_outcome_def split: option.split)
  qed
qed

lemma replay_same:
  assumes "same_machine m m'"
  shows "rel_sum (=) (list_all2 same_outcome) (replay_loop G m bet k fl mul s) (replay_loop G m' bet k fl mul s)"
proof (induction k arbitrary: fl mul s)
  case (Suc k)
  let ?mul = "if fl > 0 then mul else 1"
  have sp: "rel_sum (=) (rel_prod same_outcome (=)) (Spin G (Some m) bet ?mul (fl > 0) s) (Spin G (Some m') bet ?mul (fl > 0) s)"
    by (rule Spin_same [OF assms])
  show ?case
  proof (cases "Spin G (Some m) bet ?mul (fl > 0) s")
    case (Inl e)
    with sp show ?thesis by (cases "Spin G (Some m') bet ?mul (fl > 0) s") (auto simp: Let_def)
  next
    case (Inr p)
    obtain r s1 where p: "p = (r, s1)" by fastforce
    from sp Inr p obtain r' where r': "Spin G (Some m') bet ?mul (fl > 0) s = Inr (r', s1)" "same_outcome r r'"
      by (cases "Spin G (Some m') bet ?mul (fl > 0) s") auto
    have aw: "res_FreeSpinsAwarded r' = res_FreeSpinsAwarded r"
      using r'(2) by (metis same_outcome_def spin_result.select_convs(9) spin_result.surjective spin_result.update_convs(3))
    define fl2 where "fl2 = (let fl1 = (if fl > 0 then fl - 1 else fl) in
      if res_FreeSpinsAwarded r > 0 then u32 (fl1 + res_FreeSpinsAwarded r) else fl1)"
    define mul2 where "mul2 = (if res_FreeSpinsAwarded r > 0 then if m_FreeSpinMultiplier m = 0 then 1 else m_FreeSpinMultiplier m else mul)"
    have e: "replay_loop G m bet (Suc k) fl mul s = (case replay_loop G m bet k fl2 mul2 s1 of Inl e \<Rightarrow> Inl e | Inr rs \<Rightarrow> Inr (r # rs))"
      and e': "replay_loop G m' bet (Suc k) fl mul s = (case replay_loop G m' bet k fl2 mul2 s1 of Inl e \<Rightarrow> Inl e | Inr rs \<Rightarrow> Inr (r' # rs))"
      using Inr r'(1) p by (simp_all add: Let_def fl2_def mul2_def aw same_machine_parts(13) [OF assms])
    show ?thesis unfolding e e' using Suc.IH [of fl2 mul2 s1] r'(2)
      by (cases "replay_loop G m bet k fl2 mul2 s1"; cases "replay_loop G m' bet k fl2 mul2 s1") auto
  qed
qed simp

section \<open>Properties\<close>

text \<open>On a machine that passed validation every spin with a positive bet returns a result, with no
  panic: each reel shows a window of its strip at a drawn stop inside the strip, and a free spin never
  hits the jackpot.\<close>

theorem spin_on_valid_machine_returns:
  assumes "rand_api G" and "Validate c = None" and "conf_Machine c i = Some m" and "0 < bet"
  shows "\<exists>r s'. Spin G (Some m) bet mul free s = Inr (r, s') \<and> windows_at m (res_Stops r) (res_Grid r) \<and> grid_ok m (res_Grid r)
    \<and> res_Multiplier r = (if mul = 0 then 1 else mul) \<and> (free \<longrightarrow> \<not> res_JackpotHit r)"
  using rand_api.Spin_returns [OF assms(1) _ assms(4)] Validate_machine [OF assms(2,3)] by blast

text \<open>A small validated configuration: one reel pair of wilds, two symbols that pay the same.\<close>

definition tie_machine :: SlotMachine where
  "tie_machine = \<lparr>m_ID = ''tie'', m_Name = ''tie'', m_Rows = 1, m_Reels = [[7, 7], [7, 3]], m_Paylines = [[0, 0]],
     m_Paytable = [(1, [0, 5]), (2, [0, 5])], m_Wild = 7, m_Scatter = 8, m_ScatterPays = [], m_FreeSpins = [],
     m_FreeSpinMultiplier = 1, m_FreeSpinRetrigger = False, m_BetLevels = [10], m_Currency = 1,
     m_TheoreticalRTP = 1, m_JackpotPool = [], m_JackpotContribBP = 0, m_JackpotChanceNum = 0,
     m_JackpotChanceDen = 0\<rparr>"

definition tie_config :: Config where
  "tie_config = \<lparr>c_Slots = [(''tie'', tie_machine)], c_Gacha = [], c_Products = [], c_Items = [], c_Jackpots = [],
     c_LevelExp = [], c_RG = \<lparr>DailyBetLimit = 0, DailyLossLimit = 0, SessionLimit = 0, ResetOffsetMinutes = 0,
     NoticeInterval = 0\<rparr>, c_Bag = \<lparr>Capacity = 1\<rparr>, c_version = ''v''\<rparr>"

lemma tie_config_valid: "Validate tie_config = None" "conf_Machine tie_config ''tie'' = Some tie_machine"
  unfolding Validate_def first_err_simps validate_machine_def conf_Machine_def LineCount_def
  by (simp_all add: tie_config_def validate_machine_def first_err_simps tie_machine_def LineCount_def)

theorem spin_on_valid_machine_returns_witness:
  "\<exists>r s'. Spin lcg (Some tie_machine) 10 1 False (rng_New lcg [1]) = Inr (r, s')
    \<and> windows_at tie_machine (res_Stops r) (res_Grid r)"
  using spin_on_valid_machine_returns [OF lcg_rand.rand_api_axioms tie_config_valid, of 10 1 False "rng_New lcg [1]"]
  by auto

text \<open>The payout of every line is the best one over the symbols the line may stand for, and a replay
  of a round is independent of the iteration order of the pay table: with the same seed, every
  grid, stop, line payout, scatter count, multiplier, total win, free spin award and jackpot hit is
  the same (the symbol reported for a tied line is left out).\<close>

theorem replay_outcome_ignores_map_order:
  assumes "same_machine m m'"
  shows "rel_sum (=) (list_all2 same_outcome) (Replay G m seedHex bet spins) (Replay G m' seedHex bet spins)
    \<and> (\<forall>g lb li line w. evalLine m g lb li line = Some w \<longrightarrow> l_Payout w = line_value m g lb line)"
proof
  show "rel_sum (=) (list_all2 same_outcome) (Replay G m seedHex bet spins) (Replay G m' seedHex bet spins)"
    using replay_same [OF assms] by (auto simp: Replay_def split: option.split)
  show "\<forall>g lb li line w. evalLine m g lb li line = Some w \<longrightarrow> l_Payout w = line_value m g lb line"
    using evalLine_value by blast
qed

definition tie_machine' :: SlotMachine where
  "tie_machine' = tie_machine\<lparr>m_Paytable := rev (m_Paytable tie_machine)\<rparr>"

lemma tie_same: "same_machine tie_machine tie_machine'"
  unfolding same_machine_def tie_machine'_def by (rule exI [of _ "rev (m_Paytable tie_machine)"]) (simp add: tie_machine_def)

theorem replay_outcome_ignores_map_order_witness:
  "rel_sum (=) (list_all2 same_outcome) (Replay lcg tie_machine (seed_Hex (replicate 32 7)) 10 3)
     (Replay lcg tie_machine' (seed_Hex (replicate 32 7)) 10 3)"
  using replay_outcome_ignores_map_order [OF tie_same] by blast

text \<open>The symbol and the count reported for a winning line are not determined by the configuration and
  the seed: on the same grid, two iteration orders of the same pay table report different symbols
  for a line of wilds whose best payout is tied, so a replay can differ from the stored round there.\<close>

theorem reported_symbol_depends_on_map_order:
  "same_machine tie_machine tie_machine'
   \<and> map_option (\<lambda>(ws, t). (map l_Symbol ws, t)) (evalLines tie_machine [[7], [7]] 10) = Some ([1], 50)
   \<and> map_option (\<lambda>(ws, t). (map l_Symbol ws, t)) (evalLines tie_machine' [[7], [7]] 10) = Some ([2], 50)"
  using tie_same
  by (simp add: evalLines_def evalLine_def cell_def go_index_def candidateSymbols_def payoutFor_def tie_machine_def
      tie_machine'_def i64_def)

end
