(* ===== verification/Protocol.thy ===== *)
theory Protocol
  imports F1_Prelude
begin

text \<open>
  Command numbers, permission levels, error codes and states, \<^verbatim>\<open>pkg/protocol/protocol.go\<close>.
  A command is any \<open>uint32\<close>; the tables are the Go maps as lists. The Chinese texts of the error
  codes are left out.
\<close>

section \<open>Commands\<close>

type_synonym Cmd = nat

abbreviation (input) CmdUnknown :: Cmd where "CmdUnknown \<equiv> 0"
abbreviation (input) CmdLogin :: Cmd where "CmdLogin \<equiv> 101"
abbreviation (input) CmdLogout :: Cmd where "CmdLogout \<equiv> 102"
abbreviation (input) CmdHeartbeat :: Cmd where "CmdHeartbeat \<equiv> 103"
abbreviation (input) CmdAuthChannel :: Cmd where "CmdAuthChannel \<equiv> 104"
abbreviation (input) CmdBindChannel :: Cmd where "CmdBindChannel \<equiv> 105"
abbreviation (input) CmdUnbindChannel :: Cmd where "CmdUnbindChannel \<equiv> 106"
abbreviation (input) CmdListBindings :: Cmd where "CmdListBindings \<equiv> 107"
abbreviation (input) CmdUseItem :: Cmd where "CmdUseItem \<equiv> 203"
abbreviation (input) CmdGetBag :: Cmd where "CmdGetBag \<equiv> 204"
abbreviation (input) CmdAcceptQuest :: Cmd where "CmdAcceptQuest \<equiv> 205"
abbreviation (input) CmdQuestProgress :: Cmd where "CmdQuestProgress \<equiv> 206"
abbreviation (input) CmdGetSocial :: Cmd where "CmdGetSocial \<equiv> 207"
abbreviation (input) CmdAddFriend :: Cmd where "CmdAddFriend \<equiv> 208"
abbreviation (input) CmdGetMail :: Cmd where "CmdGetMail \<equiv> 209"
abbreviation (input) CmdClaimMail :: Cmd where "CmdClaimMail \<equiv> 210"
abbreviation (input) CmdPurchase :: Cmd where "CmdPurchase \<equiv> 211"
abbreviation (input) CmdGetProfile :: Cmd where "CmdGetProfile \<equiv> 212"
abbreviation (input) CmdTransfer :: Cmd where "CmdTransfer \<equiv> 213"
abbreviation (input) CmdSpin :: Cmd where "CmdSpin \<equiv> 220"
abbreviation (input) CmdRoundState :: Cmd where "CmdRoundState \<equiv> 221"
abbreviation (input) CmdGacha :: Cmd where "CmdGacha \<equiv> 222"
abbreviation (input) CmdJackpotInfo :: Cmd where "CmdJackpotInfo \<equiv> 223"
abbreviation (input) CmdRGStatus :: Cmd where "CmdRGStatus \<equiv> 224"
abbreviation (input) CmdCreateRoom :: Cmd where "CmdCreateRoom \<equiv> 301"
abbreviation (input) CmdJoinRoom :: Cmd where "CmdJoinRoom \<equiv> 302"
abbreviation (input) CmdLeaveRoom :: Cmd where "CmdLeaveRoom \<equiv> 303"
abbreviation (input) CmdRoomOp :: Cmd where "CmdRoomOp \<equiv> 304"
abbreviation (input) CmdRoomInfo :: Cmd where "CmdRoomInfo \<equiv> 305"
abbreviation (input) CmdStartBattle :: Cmd where "CmdStartBattle \<equiv> 306"
abbreviation (input) CmdMatchEnqueue :: Cmd where "CmdMatchEnqueue \<equiv> 401"
abbreviation (input) CmdMatchCancel :: Cmd where "CmdMatchCancel \<equiv> 402"
abbreviation (input) CmdChatSend :: Cmd where "CmdChatSend \<equiv> 501"
abbreviation (input) CmdWorldBossState :: Cmd where "CmdWorldBossState \<equiv> 601"
abbreviation (input) CmdWorldBossHit :: Cmd where "CmdWorldBossHit \<equiv> 602"
abbreviation (input) CmdJackpotClaim :: Cmd where "CmdJackpotClaim \<equiv> 603"
abbreviation (input) CmdAddCurrency :: Cmd where "CmdAddCurrency \<equiv> 701"
abbreviation (input) CmdAddItem :: Cmd where "CmdAddItem \<equiv> 702"
abbreviation (input) CmdApplyTransfer :: Cmd where "CmdApplyTransfer \<equiv> 703"
abbreviation (input) CmdApplyMail :: Cmd where "CmdApplyMail \<equiv> 704"
abbreviation (input) CmdBattleSettle :: Cmd where "CmdBattleSettle \<equiv> 705"
abbreviation (input) CmdApplyJackpot :: Cmd where "CmdApplyJackpot \<equiv> 706"
abbreviation (input) CmdGMGrant :: Cmd where "CmdGMGrant \<equiv> 801"
abbreviation (input) CmdGMQuery :: Cmd where "CmdGMQuery \<equiv> 802"
abbreviation (input) CmdGMKick :: Cmd where "CmdGMKick \<equiv> 803"
abbreviation (input) CmdGMSetRG :: Cmd where "CmdGMSetRG \<equiv> 804"
abbreviation (input) CmdHandoff :: Cmd where "CmdHandoff \<equiv> 901"
abbreviation (input) CmdShutdown :: Cmd where "CmdShutdown \<equiv> 902"

datatype perm = LevelClient | LevelInternal | LevelGM

definition perm_String :: "perm \<Rightarrow> string" where
  "perm_String l = (case l of LevelClient \<Rightarrow> ''client'' | LevelGM \<Rightarrow> ''gm'' | LevelInternal \<Rightarrow> ''internal'')"

definition clientCmds :: "Cmd list" where
  "clientCmds = [
     CmdLogin, CmdLogout, CmdHeartbeat, CmdAuthChannel, CmdBindChannel, CmdUnbindChannel,
     CmdListBindings, CmdUseItem, CmdGetBag, CmdAcceptQuest, CmdQuestProgress, CmdGetSocial,
     CmdAddFriend, CmdGetMail, CmdClaimMail, CmdPurchase, CmdGetProfile, CmdTransfer, CmdSpin,
     CmdRoundState, CmdGacha, CmdJackpotInfo, CmdRGStatus, CmdCreateRoom, CmdJoinRoom,
     CmdLeaveRoom, CmdRoomOp, CmdRoomInfo, CmdStartBattle, CmdMatchEnqueue, CmdMatchCancel,
     CmdChatSend, CmdWorldBossState, CmdWorldBossHit]"

definition gmCmds :: "Cmd list" where
  "gmCmds = [CmdGMGrant, CmdGMQuery, CmdGMKick, CmdGMSetRG]"

definition cmd_Level :: "Cmd \<Rightarrow> perm" where
  "cmd_Level c = (if c \<in> set clientCmds then LevelClient else if c \<in> set gmCmds then LevelGM else LevelInternal)"

definition ClientCallable :: "Cmd \<Rightarrow> bool" where
  "ClientCallable c \<longleftrightarrow> cmd_Level c = LevelClient"

definition cmdNames :: "(Cmd \<times> string) list" where
  "cmdNames = [
     (CmdLogin, ''login''), (CmdLogout, ''logout''), (CmdHeartbeat, ''heartbeat''),
     (CmdAuthChannel, ''auth_channel''), (CmdBindChannel, ''bind_channel''),
     (CmdUnbindChannel, ''unbind_channel''), (CmdListBindings, ''list_bindings''),
     (CmdUseItem, ''use_item''), (CmdGetBag, ''get_bag''), (CmdAcceptQuest, ''accept_quest''),
     (CmdQuestProgress, ''quest_progress''), (CmdGetSocial, ''get_social''),
     (CmdAddFriend, ''add_friend''), (CmdGetMail, ''get_mail''), (CmdClaimMail, ''claim_mail''),
     (CmdPurchase, ''purchase''), (CmdGetProfile, ''get_profile''), (CmdTransfer, ''transfer''),
     (CmdSpin, ''spin''), (CmdRoundState, ''round_state''), (CmdGacha, ''gacha''),
     (CmdJackpotInfo, ''jackpot_info''), (CmdRGStatus, ''rg_status''),
     (CmdCreateRoom, ''create_room''), (CmdJoinRoom, ''join_room''),
     (CmdLeaveRoom, ''leave_room''), (CmdRoomOp, ''room_op''), (CmdRoomInfo, ''room_info''),
     (CmdStartBattle, ''start_battle''), (CmdMatchEnqueue, ''match_enqueue''),
     (CmdMatchCancel, ''match_cancel''), (CmdChatSend, ''chat_send''),
     (CmdWorldBossState, ''world_boss_state''), (CmdWorldBossHit, ''world_boss_hit''),
     (CmdJackpotClaim, ''jackpot_claim''), (CmdAddCurrency, ''add_currency''),
     (CmdAddItem, ''add_item''), (CmdApplyTransfer, ''apply_transfer''),
     (CmdApplyMail, ''apply_mail''), (CmdBattleSettle, ''battle_settle''),
     (CmdApplyJackpot, ''apply_jackpot''), (CmdGMGrant, ''gm_grant''), (CmdGMQuery, ''gm_query''),
     (CmdGMKick, ''gm_kick''), (CmdGMSetRG, ''gm_set_rg''), (CmdHandoff, ''handoff''),
     (CmdShutdown, ''shutdown'')]"

definition cmd_Name :: "Cmd \<Rightarrow> string" where
  "cmd_Name c = (case map_of cmdNames c of Some n \<Rightarrow> n | None \<Rightarrow> ''cmd_unknown'')"

definition ParseCmd :: "string \<Rightarrow> Cmd option" where
  "ParseCmd name = map_of (map (\<lambda>(c, n). (n, c)) cmdNames) name"

section \<open>Pushes, error codes, states\<close>

abbreviation (input) PushKick :: nat where "PushKick \<equiv> 1001"
abbreviation (input) PushMailNew :: nat where "PushMailNew \<equiv> 1002"
abbreviation (input) PushChat :: nat where "PushChat \<equiv> 1003"
abbreviation (input) PushMatchFound :: nat where "PushMatchFound \<equiv> 1004"
abbreviation (input) PushRoomEvent :: nat where "PushRoomEvent \<equiv> 1005"
abbreviation (input) PushBattleResult :: nat where "PushBattleResult \<equiv> 1006"
abbreviation (input) PushAnnounce :: nat where "PushAnnounce \<equiv> 1007"
abbreviation (input) PushMaintenance :: nat where "PushMaintenance \<equiv> 1008"
abbreviation (input) PushItemChanged :: nat where "PushItemChanged \<equiv> 1009"
abbreviation (input) PushWorldBoss :: nat where "PushWorldBoss \<equiv> 1010"
abbreviation (input) PushJackpotWon :: nat where "PushJackpotWon \<equiv> 1011"
abbreviation (input) PushJackpotTick :: nat where "PushJackpotTick \<equiv> 1012"
abbreviation (input) PushRGNotice :: nat where "PushRGNotice \<equiv> 1013"

datatype ErrCode =
  E_OK | E_Internal | E_BadRequest | E_NotFound | E_Timeout | E_Unavailable | E_NotOwner | E_EpochStale |
  E_NotEnough | E_BagFull | E_ItemNotFound | E_Duplicate | E_PlayerOffline | E_RoomFull | E_RoomNotFound |
  E_Permission | E_RateLimited | E_RoundOpen | E_RoundNotFound | E_BetInvalid | E_GameNotFound |
  E_RGLimit | E_SelfExcluded | E_ReceiptInvalid | E_ProductUnknown | E_JackpotEmpty | E_GachaPool |
  E_ChannelUnknown | E_CredentialBad | E_UpstreamFailed | E_BindConflict | E_AlreadyBound | E_NotBound |
  E_LastBinding

fun err_number :: "ErrCode \<Rightarrow> nat" where
  "err_number E_OK = 0"
| "err_number E_Internal = 500"
| "err_number E_BadRequest = 400"
| "err_number E_NotFound = 404"
| "err_number E_Timeout = 408"
| "err_number E_Unavailable = 503"
| "err_number E_NotOwner = 409"
| "err_number E_EpochStale = 410"
| "err_number E_NotEnough = 1001"
| "err_number E_BagFull = 1002"
| "err_number E_ItemNotFound = 1003"
| "err_number E_Duplicate = 1004"
| "err_number E_PlayerOffline = 1005"
| "err_number E_RoomFull = 1006"
| "err_number E_RoomNotFound = 1007"
| "err_number E_Permission = 1008"
| "err_number E_RateLimited = 1009"
| "err_number E_RoundOpen = 1100"
| "err_number E_RoundNotFound = 1101"
| "err_number E_BetInvalid = 1102"
| "err_number E_GameNotFound = 1103"
| "err_number E_RGLimit = 1104"
| "err_number E_SelfExcluded = 1105"
| "err_number E_ReceiptInvalid = 1106"
| "err_number E_ProductUnknown = 1107"
| "err_number E_JackpotEmpty = 1108"
| "err_number E_GachaPool = 1109"
| "err_number E_ChannelUnknown = 1200"
| "err_number E_CredentialBad = 1201"
| "err_number E_UpstreamFailed = 1202"
| "err_number E_BindConflict = 1203"
| "err_number E_AlreadyBound = 1204"
| "err_number E_NotBound = 1205"
| "err_number E_LastBinding = 1206"

abbreviation (input) CurrencyGold :: nat where "CurrencyGold \<equiv> 1"
abbreviation (input) CurrencyDiamond :: nat where "CurrencyDiamond \<equiv> 2"
abbreviation (input) CurrencyStamina :: nat where "CurrencyStamina \<equiv> 3"
abbreviation (input) CurrencyCash :: nat where "CurrencyCash \<equiv> 4"

abbreviation (input) RoomStateWaiting :: nat where "RoomStateWaiting \<equiv> 0"
abbreviation (input) RoomStateBattling :: nat where "RoomStateBattling \<equiv> 1"
abbreviation (input) RoomStateSettling :: nat where "RoomStateSettling \<equiv> 2"

abbreviation (input) RoundOpen :: nat where "RoundOpen \<equiv> 0"
abbreviation (input) RoundSettled :: nat where "RoundSettled \<equiv> 1"

abbreviation (input) ChanWorld :: nat where "ChanWorld \<equiv> 1"
abbreviation (input) ChanGuild :: nat where "ChanGuild \<equiv> 2"
abbreviation (input) ChanPrivate :: nat where "ChanPrivate \<equiv> 3"
abbreviation (input) ChanRoom :: nat where "ChanRoom \<equiv> 4"

section \<open>Properties\<close>

lemma cmdNames_distinct: "distinct (map fst cmdNames)" "distinct (map snd cmdNames)"
  by (simp_all add: cmdNames_def)

lemma err_number_inject: "err_number a = err_number b \<longleftrightarrow> a = b"
  by (cases a; cases b; simp)

text \<open>Command names are a faithful table: every registered command is recovered from its name, and
  different registered commands have different names, so a subject's last part identifies the
  command.\<close>

theorem command_name_roundtrip:
  assumes "c \<in> fst ` set cmdNames"
  shows "ParseCmd (cmd_Name c) = Some c"
proof -
  obtain n where n: "(c, n) \<in> set cmdNames" using assms by auto
  then have "cmd_Name c = n" using cmdNames_distinct(1) by (simp add: cmd_Name_def)
  moreover have "map fst (map (\<lambda>(c, n). (n, c)) cmdNames) = map snd cmdNames" by (simp add: comp_def split_beta)
  then have "distinct (map fst (map (\<lambda>(c, n). (n, c)) cmdNames))" using cmdNames_distinct(2) by metis
  moreover have "(n, c) \<in> set (map (\<lambda>(c, n). (n, c)) cmdNames)" using n by force
  ultimately show ?thesis unfolding ParseCmd_def by (metis map_of_is_SomeI)
qed

theorem command_name_roundtrip_witness: "ParseCmd (cmd_Name CmdSpin) = Some CmdSpin"
  by (rule command_name_roundtrip) (simp add: cmdNames_def)

text \<open>No client can call a command that hands out money or runs the cluster: the internal and
  back-office commands are not on the client list, and neither is any command number that is
  not registered at all, which falls to the strictest level.\<close>

theorem privileged_commands_closed_to_clients:
  "(\<forall>c. ClientCallable c \<longrightarrow> c < 700 \<and> c \<noteq> CmdJackpotClaim)
    \<and> (\<forall>c. c \<notin> fst ` set cmdNames \<longrightarrow> cmd_Level c = LevelInternal)"
proof (intro conjI allI impI)
  fix c assume "ClientCallable c"
  then have "c \<in> set clientCmds" by (auto simp: ClientCallable_def cmd_Level_def split: if_splits)
  then show "c < 700" "c \<noteq> CmdJackpotClaim" by (auto simp: clientCmds_def)
next
  fix c assume "c \<notin> fst ` set cmdNames"
  moreover have "set clientCmds \<union> set gmCmds \<subseteq> fst ` set cmdNames" by (simp add: clientCmds_def gmCmds_def cmdNames_def)
  ultimately show "cmd_Level c = LevelInternal" by (auto simp: cmd_Level_def)
qed

theorem privileged_commands_closed_to_clients_witness:
  "ClientCallable CmdSpin \<and> CmdSpin \<noteq> CmdJackpotClaim \<and> cmd_Level 12345 = LevelInternal"
proof -
  have "ClientCallable CmdSpin" by (simp add: ClientCallable_def cmd_Level_def clientCmds_def)
  moreover have "12345 \<notin> fst ` set cmdNames" by (simp add: cmdNames_def)
  ultimately show ?thesis using privileged_commands_closed_to_clients by blast
qed

end
