(* ===== verification/Rg.thy ===== *)
theory Rg
  imports Gameconf
begin

text \<open>
  Responsible gaming limits, \<^verbatim>\<open>pkg/rg/rg.go\<close>, on the player's limit state (\<open>PlayerRG\<close> of
  \<^verbatim>\<open>proto/player.proto\<close>). Times are Unix milliseconds. The texts of reasons and notices are
  left out; a notice keeps its number of minutes. A loaded player always has a limit state, so the
  updating functions take the record itself; for \<open>CheckBet\<close>, \<open>LoginBlocked\<close> and \<open>Status\<close>, which
  answer also without one, it is an option.

  Shown here: the settlement day is a partition of time into days of the configured zone, the
  player's own limit can only tighten the global one, and a player whose every bet passes the
  check never exceeds the daily bet or loss limit.
\<close>

section \<open>State\<close>

record PlayerRG =
  rg_Uid :: nat
  DailyBet :: int
  DailyWin :: int
  rg_DayStart :: int
  rg_DailyBetLimit :: int
  rg_DailyLossLimit :: int
  rg_SessionLimit :: int
  SessionStart :: int
  ExcludedUntil :: int
  LastNoticeAt :: int

definition new_rg :: "nat \<Rightarrow> PlayerRG" where
  "new_rg uid = \<lparr>rg_Uid = uid, DailyBet = 0, DailyWin = 0, rg_DayStart = 0, rg_DailyBetLimit = 0,
     rg_DailyLossLimit = 0, rg_SessionLimit = 0, SessionStart = 0, ExcludedUntil = 0, LastNoticeAt = 0\<rparr>"

datatype rg_reason = ReasonOK | ReasonSelfExcluded | ReasonDailyBet | ReasonDailyLoss | ReasonSession

datatype rg_notice = NoNotice | PlayedFor int | NearBetLimit

record Decision =
  Allowed :: bool
  d_Code :: rg_reason
  d_Notice :: rg_notice

definition Allow :: Decision where
  "Allow = \<lparr>Allowed = True, d_Code = ReasonOK, d_Notice = NoNotice\<rparr>"

definition deny :: "rg_reason \<Rightarrow> Decision" where
  "deny r = \<lparr>Allowed = False, d_Code = r, d_Notice = NoNotice\<rparr>"

section \<open>Operations\<close>

definition day_ms :: int where
  "day_ms = 86400000"

text \<open>Midnight of the day of \<open>now\<close> in the zone with the given offset: what \<open>t.Date()\<close> and
  \<open>time.Date\<close> compute for a fixed zone.\<close>

definition DayStart :: "int \<Rightarrow> int \<Rightarrow> int" where
  "DayStart now offsetMinutes =
     (now + offsetMinutes * 60000) div day_ms * day_ms - offsetMinutes * 60000"

definition Rollover :: "PlayerRG \<Rightarrow> int \<Rightarrow> RGLimits \<Rightarrow> PlayerRG \<times> bool" where
  "Rollover state now cfg =
     (let start = DayStart now (ResetOffsetMinutes cfg) in
      if rg_DayStart state = start then (state, False)
      else (state\<lparr>rg_DayStart := start, DailyBet := 0, DailyWin := 0\<rparr>, True))"

definition effective :: "int \<Rightarrow> int \<Rightarrow> int" where
  "effective playerLimit globalLimit =
     (if playerLimit > 0 \<and> (globalLimit \<le> 0 \<or> playerLimit < globalLimit) then playerLimit else globalLimit)"

definition notice :: "PlayerRG \<Rightarrow> int \<Rightarrow> RGLimits \<Rightarrow> rg_notice" where
  "notice state now cfg =
     (if NoticeInterval cfg \<le> 0 then NoNotice
      else if i64 (now - LastNoticeAt state) < i64 (NoticeInterval cfg * 1000) then NoNotice
      else
        let elapsed = go_div (i64 (now - SessionStart state)) 1000;
            limit = effective (rg_DailyBetLimit state) (DailyBetLimit cfg)
        in if SessionStart state > 0 \<and> elapsed \<ge> NoticeInterval cfg then PlayedFor (go_div elapsed 60)
           else if limit > 0 \<and> i64 (DailyBet state * 10) \<ge> i64 (limit * 8) then NearBetLimit
           else NoNotice)"

definition check_state :: "PlayerRG \<Rightarrow> int \<Rightarrow> int \<Rightarrow> RGLimits \<Rightarrow> Decision" where
  "check_state state bet now cfg =
     (let betLimit = effective (rg_DailyBetLimit state) (DailyBetLimit cfg);
          lossLimit = effective (rg_DailyLossLimit state) (DailyLossLimit cfg);
          sessLimit = effective (rg_SessionLimit state) (SessionLimit cfg);
          loss = i64 (DailyBet state - DailyWin state);
          elapsed = go_div (i64 (now - SessionStart state)) 1000
      in if ExcludedUntil state > 0 \<and> now < ExcludedUntil state then deny ReasonSelfExcluded
         else if betLimit > 0 \<and> i64 (DailyBet state + bet) > betLimit then deny ReasonDailyBet
         else if lossLimit > 0 \<and> i64 (loss + bet) > lossLimit then deny ReasonDailyLoss
         else if sessLimit > 0 \<and> SessionStart state > 0 \<and> elapsed > sessLimit then deny ReasonSession
         else Allow\<lparr>d_Notice := notice state now cfg\<rparr>)"

definition CheckBet :: "PlayerRG option \<Rightarrow> int \<Rightarrow> int \<Rightarrow> RGLimits \<Rightarrow> Decision" where
  "CheckBet ostate bet now cfg = (case ostate of None \<Rightarrow> Allow | Some state \<Rightarrow> check_state state bet now cfg)"

definition ApplyBet :: "PlayerRG \<Rightarrow> int \<Rightarrow> PlayerRG" where
  "ApplyBet state bet = state\<lparr>DailyBet := i64 (DailyBet state + bet)\<rparr>"

definition ApplyWin :: "PlayerRG \<Rightarrow> int \<Rightarrow> PlayerRG" where
  "ApplyWin state win = state\<lparr>DailyWin := i64 (DailyWin state + win)\<rparr>"

definition MarkNotice :: "PlayerRG \<Rightarrow> int \<Rightarrow> PlayerRG" where
  "MarkNotice state now = state\<lparr>LastNoticeAt := now\<rparr>"

definition StartSession :: "PlayerRG \<Rightarrow> int \<Rightarrow> PlayerRG" where
  "StartSession state now = state\<lparr>SessionStart := now\<rparr>"

definition LoginBlocked :: "PlayerRG option \<Rightarrow> int \<Rightarrow> bool \<times> int" where
  "LoginBlocked ostate now =
     (case ostate of
        None \<Rightarrow> (False, 0)
      | Some state \<Rightarrow> if ExcludedUntil state > 0 \<and> now < ExcludedUntil state then (True, ExcludedUntil state) else (False, 0))"

record RGStatusResp =
  st_DailyBet :: int
  st_DailyBetLimit :: int
  st_DailyLoss :: int
  st_DailyLossLimit :: int
  st_SessionSeconds :: int
  st_SessionLimit :: int
  st_ExcludedUntil :: int
  st_Blocked :: bool
  st_Code :: rg_reason

definition Status :: "PlayerRG option \<Rightarrow> int \<Rightarrow> RGLimits \<Rightarrow> RGStatusResp" where
  "Status ostate now cfg =
     (let state = (case ostate of None \<Rightarrow> new_rg 0 | Some st \<Rightarrow> st);
          session = (if SessionStart state > 0 then go_div (i64 (now - SessionStart state)) 1000 else 0);
          d = CheckBet (Some state) 0 now cfg
      in \<lparr>st_DailyBet = DailyBet state,
          st_DailyBetLimit = effective (rg_DailyBetLimit state) (DailyBetLimit cfg),
          st_DailyLoss = i64 (DailyBet state - DailyWin state),
          st_DailyLossLimit = effective (rg_DailyLossLimit state) (DailyLossLimit cfg),
          st_SessionSeconds = session,
          st_SessionLimit = effective (rg_SessionLimit state) (SessionLimit cfg),
          st_ExcludedUntil = ExcludedUntil state,
          st_Blocked = (\<not> Allowed d), st_Code = d_Code d\<rparr>)"

section \<open>Days\<close>

lemma DayStart_bounds: "DayStart now off \<le> now \<and> now < DayStart now off + day_ms"
proof -
  have "(now + off * 60000) div day_ms * day_ms \<le> now + off * 60000"
    "now + off * 60000 < (now + off * 60000) div day_ms * day_ms + day_ms"
    using div_mult_mod_eq [of "now + off * 60000" day_ms] pos_mod_bound [of day_ms "now + off * 60000"]
      pos_mod_sign [of day_ms "now + off * 60000"] by (auto simp: day_ms_def)
  then show ?thesis by (simp add: DayStart_def)
qed

lemma DayStart_idem: "DayStart (DayStart now off) off = DayStart now off"
  by (simp add: DayStart_def day_ms_def)

lemma DayStart_eq: "DayStart now off \<le> t \<Longrightarrow> t < DayStart now off + day_ms \<Longrightarrow> DayStart t off = DayStart now off"
proof -
  assume t: "DayStart now off \<le> t" "t < DayStart now off + day_ms"
  define q where "q = (now + off * 60000) div day_ms"
  have "q * day_ms \<le> t + off * 60000" "t + off * 60000 < q * day_ms + day_ms"
    using t by (simp_all add: DayStart_def q_def)
  then have "(t + off * 60000) div day_ms = q"
    by (intro int_div_pos_eq [where r = "t + off * 60000 - q * day_ms"]) (auto simp: day_ms_def)
  then show ?thesis by (simp add: DayStart_def q_def)
qed

section \<open>A player's day\<close>

text \<open>What the lobby does to the limit state: a bet that is rolled over, checked and, when allowed,
  counted; a win; a login; a notice.\<close>

datatype rg_event = EvBet int int | EvWin int | EvLogin int | EvNotice int

fun rg_step :: "RGLimits \<Rightarrow> PlayerRG \<Rightarrow> rg_event \<Rightarrow> PlayerRG" where
  "rg_step cfg st (EvBet bet now) =
     (let st1 = fst (Rollover st now cfg) in
      if Allowed (CheckBet (Some st1) bet now cfg) then ApplyBet st1 bet else st1)"
| "rg_step cfg st (EvWin win) = ApplyWin st win"
| "rg_step cfg st (EvLogin now) = StartSession st now"
| "rg_step cfg st (EvNotice now) = MarkNotice st now"

definition bet_limit :: "RGLimits \<Rightarrow> PlayerRG \<Rightarrow> int" where
  "bet_limit cfg st = effective (rg_DailyBetLimit st) (DailyBetLimit cfg)"

definition loss_limit :: "RGLimits \<Rightarrow> PlayerRG \<Rightarrow> int" where
  "loss_limit cfg st = effective (rg_DailyLossLimit st) (DailyLossLimit cfg)"

definition within_limits :: "RGLimits \<Rightarrow> PlayerRG \<Rightarrow> bool" where
  "within_limits cfg st \<longleftrightarrow>
     (bet_limit cfg st > 0 \<longrightarrow> DailyBet st \<le> bet_limit cfg st) \<and>
     (loss_limit cfg st > 0 \<longrightarrow> DailyBet st - DailyWin st \<le> loss_limit cfg st)"

text \<open>Amounts far below the edge of \<open>int64\<close>: no event is larger than \<open>B\<close>, and the counters have
  room for \<open>n\<close> more events.\<close>

fun event_within :: "int \<Rightarrow> rg_event \<Rightarrow> bool" where
  "event_within B (EvBet bet now) \<longleftrightarrow> 0 \<le> bet \<and> bet \<le> B"
| "event_within B (EvWin win) \<longleftrightarrow> 0 \<le> win \<and> win \<le> B"
| "event_within B e \<longleftrightarrow> True"

definition counters_within :: "int \<Rightarrow> PlayerRG \<Rightarrow> bool" where
  "counters_within K st \<longleftrightarrow> 0 \<le> DailyBet st \<and> DailyBet st \<le> K \<and> 0 \<le> DailyWin st \<and> DailyWin st \<le> K"

lemma Rollover_fields:
  "bet_limit cfg (fst (Rollover st now cfg)) = bet_limit cfg st"
  "loss_limit cfg (fst (Rollover st now cfg)) = loss_limit cfg st"
  "rg_DayStart (fst (Rollover st now cfg)) = DayStart now (ResetOffsetMinutes cfg)"
  by (auto simp: Rollover_def Let_def bet_limit_def loss_limit_def)

lemma Rollover_within:
  "within_limits cfg st \<Longrightarrow> within_limits cfg (fst (Rollover st now cfg))"
  "0 \<le> K \<Longrightarrow> counters_within K st \<Longrightarrow> counters_within K (fst (Rollover st now cfg))"
  by (auto simp: Rollover_def Let_def within_limits_def counters_within_def bet_limit_def loss_limit_def)

lemma CheckBet_allowed:
  assumes "Allowed (CheckBet (Some st) bet now cfg)" "0 \<le> bet" "counters_within K st" "K + bet < 2 ^ 62"
  shows "(bet_limit cfg st > 0 \<longrightarrow> DailyBet st + bet \<le> bet_limit cfg st)
    \<and> (loss_limit cfg st > 0 \<longrightarrow> DailyBet st - DailyWin st + bet \<le> loss_limit cfg st)
    \<and> \<not> (ExcludedUntil st > 0 \<and> now < ExcludedUntil st)"
proof -
  have "i64 (DailyBet st + bet) = DailyBet st + bet" "i64 (DailyBet st - DailyWin st) = DailyBet st - DailyWin st"
    "i64 (DailyBet st - DailyWin st + bet) = DailyBet st - DailyWin st + bet"
    using assms(2-4) by (auto intro!: i64_id simp: in_i64_def counters_within_def)
  then show ?thesis using assms(1)
    by (auto simp: CheckBet_def check_state_def Let_def deny_def bet_limit_def loss_limit_def split: if_splits)
qed

lemma rg_step_within:
  assumes "event_within B e" "within_limits cfg st" "counters_within K st" "0 \<le> B" "0 \<le> K" "K + B < 2 ^ 62"
  shows "within_limits cfg (rg_step cfg st e) \<and> counters_within (K + B) (rg_step cfg st e)"
proof (cases e)
  case (EvBet bet now)
  let ?st = "fst (Rollover st now cfg)"
  have w: "within_limits cfg ?st" "counters_within K ?st" using assms Rollover_within by auto
  have b: "0 \<le> bet" "bet \<le> B" using assms(1) EvBet by auto
  show ?thesis
  proof (cases "Allowed (CheckBet (Some ?st) bet now cfg)")
    case True
    have "i64 (DailyBet ?st + bet) = DailyBet ?st + bet"
      using w(2) b assms(6) by (intro i64_id) (auto simp: in_i64_def counters_within_def)
    with CheckBet_allowed [OF True b(1) w(2)] True w b assms(6) EvBet show ?thesis
      by (auto simp: within_limits_def counters_within_def ApplyBet_def bet_limit_def loss_limit_def Let_def)
  next
    case False
    with EvBet w assms(4) show ?thesis by (auto simp: counters_within_def)
  qed
next
  case (EvWin win)
  have "i64 (DailyWin st + win) = DailyWin st + win"
    using assms EvWin by (intro i64_id) (auto simp: in_i64_def counters_within_def)
  with EvWin assms show ?thesis
    by (auto simp: within_limits_def counters_within_def ApplyWin_def bet_limit_def loss_limit_def)
qed (use assms in \<open>auto simp: within_limits_def counters_within_def StartSession_def MarkNotice_def bet_limit_def loss_limit_def\<close>)

lemma rg_run_within:
  assumes "\<forall>e \<in> set es. event_within B e" "within_limits cfg st" "counters_within K st" "0 \<le> B" "0 \<le> K"
    "K + int (length es) * B < 2 ^ 62"
  shows "within_limits cfg (foldl (rg_step cfg) st es)"
  using assms
proof (induction es arbitrary: st K)
  case (Cons e es)
  have len: "int (length (e # es)) * B = B + int (length es) * B" by (simp add: distrib_right)
  moreover have "0 \<le> int (length es) * B" using Cons.prems(4) by simp
  ultimately have room: "K + B < 2 ^ 62" "K + B + int (length es) * B < 2 ^ 62" using Cons.prems(6) by linarith+
  have "within_limits cfg (rg_step cfg st e) \<and> counters_within (K + B) (rg_step cfg st e)"
    by (rule rg_step_within) (use Cons.prems room in auto)
  then have "within_limits cfg (foldl (rg_step cfg) (rg_step cfg st e) es)"
    using Cons.prems room by (intro Cons.IH [where K = "K + B"]) auto
  then show ?case by simp
qed simp

section \<open>Properties\<close>

text \<open>The daily limits hold. Starting from a fresh player, through any sequence of bets at any times,
  wins, logins and notices whose amounts stay clear of the edge of int64, the day's bets never exceed
  the effective bet limit and the day's bets minus wins never exceed the effective loss limit.\<close>

theorem rg_limits_always_hold:
  assumes "\<forall>e \<in> set es. event_within B e" and "0 \<le> B" and "int (length es) * B < 2 ^ 62"
  shows "within_limits cfg (foldl (rg_step cfg) (new_rg uid) es)"
  by (rule rg_run_within [where K = 0 and B = B])
    (use assms in \<open>auto simp: within_limits_def counters_within_def new_rg_def\<close>)

definition demo_limits :: RGLimits where
  "demo_limits = \<lparr>DailyBetLimit = 100, DailyLossLimit = 60, SessionLimit = 0, ResetOffsetMinutes = 480, NoticeInterval = 0\<rparr>"

theorem rg_limits_always_hold_witness:
  "within_limits demo_limits (foldl (rg_step demo_limits) (new_rg 5) [EvBet 50 1000, EvBet 50 2000, EvWin 40, EvBet 20 3000])"
  by (rule rg_limits_always_hold [where B = 50]) auto

text \<open>A player's own limit can only tighten the rules: the effective limit is never above a positive
  global limit, never above a positive personal limit, and is one of the two.\<close>

theorem effective_limit_only_tightens:
  "(0 < g \<longrightarrow> effective p g \<le> g \<and> 0 < effective p g) \<and> (0 < p \<longrightarrow> 0 < effective p g \<and> effective p g \<le> p)
    \<and> effective p g \<in> {p, g}"
  by (auto simp: effective_def)

theorem effective_limit_only_tightens_witness: "effective 500 1000 \<le> 1000 \<and> effective 500 1000 \<le> 500"
  using effective_limit_only_tightens [of 1000 500] by simp

text \<open>The daily counters are reset exactly once per settlement day: \<open>Rollover\<close> clears them iff the time
  is outside the day the state was counted for, every time belongs to exactly the day that starts at
  its \<open>DayStart\<close>, and a second call at the same day changes nothing.\<close>

theorem rollover_once_per_day:
  assumes "st' = fst (Rollover st now cfg)" and "DayStart now (ResetOffsetMinutes cfg) \<le> t"
    and "t < DayStart now (ResetOffsetMinutes cfg) + day_ms"
  shows "DayStart now (ResetOffsetMinutes cfg) \<le> now \<and> now < DayStart now (ResetOffsetMinutes cfg) + day_ms
    \<and> Rollover st' t cfg = (st', False)
    \<and> (snd (Rollover st now cfg) \<longleftrightarrow> rg_DayStart st \<noteq> DayStart now (ResetOffsetMinutes cfg))"
proof -
  have "DayStart t (ResetOffsetMinutes cfg) = DayStart now (ResetOffsetMinutes cfg)"
    by (rule DayStart_eq [OF assms(2,3)])
  moreover have "rg_DayStart st' = DayStart now (ResetOffsetMinutes cfg)"
    using Rollover_fields(3) assms(1) by simp
  ultimately have "Rollover st' t cfg = (st', False)" by (simp add: Rollover_def [of st'])
  then show ?thesis using DayStart_bounds by (simp add: Rollover_def Let_def)
qed

theorem rollover_once_per_day_witness:
  "Rollover (fst (Rollover (new_rg 5) 1000 demo_limits)) 2000 demo_limits
     = (fst (Rollover (new_rg 5) 1000 demo_limits), False)"
  using rollover_once_per_day [of _ "new_rg 5" 1000 demo_limits 2000]
  by (simp add: DayStart_def demo_limits_def day_ms_def)

end
