(* ===== verification/Ledger.thy ===== *)
theory Ledger
  imports Redis_Api Store_Keys
begin

text \<open>
  The money ledger, \<^verbatim>\<open>pkg/ledger/ledger.go\<close>: entries, their builders, their encoding for the
  commit script, and the readers over the player's Redis stream. JSON is a parameter (\<open>entry_codec\<close>)
  with the law that decoding inverts encoding. Stream identifiers are compared as Redis compares
  them, by their two numbers.

  \<open>chain\<close> is the accounting rule the writers follow: every entry of a currency states the
  balance that its amount leads to. Shown here: a chain that starts at nothing reconciles, and what
  the readers return.
\<close>

section \<open>Entries\<close>

datatype ltype =
    TypeBet | TypeWin | TypeJackpotContrib | TypeJackpotWin | TypePurchase | TypeGrant | TypeGachaCost
  | TypeGachaDrop | TypeTransferOut | TypeTransferIn | TypeMailClaim | TypeBattleReward

fun ltype_name :: "ltype \<Rightarrow> string" where
  "ltype_name TypeBet = ''BET''"
| "ltype_name TypeWin = ''WIN''"
| "ltype_name TypeJackpotContrib = ''JP_CONTRIB''"
| "ltype_name TypeJackpotWin = ''JP_WIN''"
| "ltype_name TypePurchase = ''PURCHASE''"
| "ltype_name TypeGrant = ''GRANT''"
| "ltype_name TypeGachaCost = ''GACHA_COST''"
| "ltype_name TypeGachaDrop = ''GACHA_DROP''"
| "ltype_name TypeTransferOut = ''XFER_OUT''"
| "ltype_name TypeTransferIn = ''XFER_IN''"
| "ltype_name TypeMailClaim = ''MAIL_CLAIM''"
| "ltype_name TypeBattleReward = ''BATTLE''"

definition DefaultMaxLen :: int where
  "DefaultMaxLen = 2000"

record Entry =
  EntryID :: string
  en_UID :: nat
  en_Type :: ltype
  en_Currency :: nat
  Amount :: int
  Balance :: int
  en_RoundID :: nat
  en_GameID :: string
  Ref :: string
  Operator :: string
  ConfVer :: string
  TsMs :: int

definition ledger_New :: "int \<Rightarrow> nat \<Rightarrow> ltype \<Rightarrow> nat \<Rightarrow> int \<Rightarrow> int \<Rightarrow> Entry" where
  "ledger_New now uid t currency amount balance =
     \<lparr>EntryID = [], en_UID = uid, en_Type = t, en_Currency = currency, Amount = amount, Balance = balance,
      en_RoundID = 0, en_GameID = [], Ref = [], Operator = [], ConfVer = [], TsMs = now\<rparr>"

definition WithRound :: "nat \<Rightarrow> string \<Rightarrow> string \<Rightarrow> Entry \<Rightarrow> Entry" where
  "WithRound roundID gameID confVer e = e\<lparr>en_RoundID := roundID, en_GameID := gameID, ConfVer := confVer\<rparr>"

definition WithRef :: "string \<Rightarrow> Entry \<Rightarrow> Entry" where
  "WithRef ref e = e\<lparr>Ref := ref\<rparr>"

definition WithOperator :: "string \<Rightarrow> Entry \<Rightarrow> Entry" where
  "WithOperator op e = e\<lparr>Operator := op\<rparr>"

definition WithID :: "nat \<Rightarrow> Entry \<Rightarrow> Entry" where
  "WithID i e = e\<lparr>EntryID := show_nat i\<rparr>"

section \<open>JSON\<close>

record entry_codec =
  entry_JSON :: "Entry \<Rightarrow> bytes option"
  entry_parse :: "bytes \<Rightarrow> Entry option"

fun Encode :: "entry_codec \<Rightarrow> Entry list \<Rightarrow> bytes list result" where
  "Encode J [] = Inr []"
| "Encode J (e # es) =
     (case entry_JSON J e of
        None \<Rightarrow> Inl ErrMarshal
      | Some b \<Rightarrow> (case Encode J es of Inl x \<Rightarrow> Inl x | Inr bs \<Rightarrow> Inr (b # bs)))"

definition MustJSON :: "entry_codec \<Rightarrow> Entry \<Rightarrow> bytes option" where
  "MustJSON J e = entry_JSON J e"

section \<open>Readers\<close>

fun decode :: "entry_codec \<Rightarrow> (string \<times> bytes) list \<Rightarrow> Entry list" where
  "decode J [] = []"
| "decode J ((i, d) # msgs) =
     (case entry_parse J d of
        None \<Rightarrow> decode J msgs
      | Some e \<Rightarrow> (if EntryID e = [] then e\<lparr>EntryID := i\<rparr> else e) # decode J msgs)"

definition Recent :: "'r redis \<Rightarrow> keys \<Rightarrow> entry_codec \<Rightarrow> nat \<Rightarrow> int \<Rightarrow> 'r \<Rightarrow> Entry list" where
  "Recent R ks J uid n s =
     (let n' = (if n \<le> 0 then 50 else n) in decode J (take (nat n') (rev (XALL R s (keys_Ledger ks uid)))))"

text \<open>A stream identifier \<open>ms-seq\<close>.\<close>

definition stream_id :: "string \<Rightarrow> nat \<times> nat" where
  "stream_id i =
     (case read_nat (takeWhile (\<lambda>c. c \<noteq> CHR ''-'') i) of
        None \<Rightarrow> (0, 0)
      | Some a \<Rightarrow> (case read_nat (drop 1 (dropWhile (\<lambda>c. c \<noteq> CHR ''-'') i)) of None \<Rightarrow> (a, 0) | Some b \<Rightarrow> (a, b)))"

definition id_after :: "string \<Rightarrow> string \<Rightarrow> bool" where
  "id_after i l = (let (a, b) = stream_id i; (c, d) = stream_id l in a > c \<or> a = c \<and> b > d)"

definition Since :: "'r redis \<Rightarrow> keys \<Rightarrow> entry_codec \<Rightarrow> nat \<Rightarrow> string \<Rightarrow> int \<Rightarrow> 'r \<Rightarrow> Entry list \<times> string" where
  "Since R ks J uid lastID n s =
     (let l = (if lastID = [] then ''0-0'' else lastID);
          n' = (if n \<le> 0 then 500 else n);
          msgs = take (nat n') (filter (\<lambda>(i, d). id_after i l) (XALL R s (keys_Ledger ks uid)))
      in if msgs = [] then ([], l) else (decode J msgs, fst (last msgs)))"

definition ledger_Len :: "'r redis \<Rightarrow> keys \<Rightarrow> nat \<Rightarrow> 'r \<Rightarrow> nat" where
  "ledger_Len R ks uid s = length (XALL R s (keys_Ledger ks uid))"

text \<open>The reconciliation: the sum of the amounts and the newest stated balance.\<close>

fun balance_loop :: "nat \<Rightarrow> bool \<Rightarrow> int \<Rightarrow> int \<Rightarrow> Entry list \<Rightarrow> int \<times> int" where
  "balance_loop currency found tot latest [] = (tot, latest)"
| "balance_loop currency found tot latest (e # es) =
     (if en_Currency e \<noteq> currency then balance_loop currency found tot latest es
      else balance_loop currency True (i64 (tot + Amount e)) (if found then latest else Balance e) es)"

definition ledger_Balance :: "'r redis \<Rightarrow> keys \<Rightarrow> entry_codec \<Rightarrow> nat \<Rightarrow> nat \<Rightarrow> 'r \<Rightarrow> int \<times> int" where
  "ledger_Balance R ks J uid currency s =
     balance_loop currency False 0 0 (Recent R ks J uid DefaultMaxLen s)"

section \<open>The accounting rule\<close>

text \<open>\<open>chain currency b es\<close> is the balance after the entries, oldest first, if each of them states
  the right one.\<close>

fun chain :: "nat \<Rightarrow> int \<Rightarrow> Entry list \<Rightarrow> int option" where
  "chain currency b [] = Some b"
| "chain currency b (e # es) =
     (if en_Currency e \<noteq> currency then chain currency b es
      else if Balance e = i64 (b + Amount e) then chain currency (Balance e) es
      else None)"

lemma chain_append: "chain c b (xs @ ys) = Option.bind (chain c b xs) (\<lambda>b'. chain c b' ys)"
  by (induction xs arbitrary: b) auto

text \<open>Along a chain the balance moves by the sum of the amounts.\<close>

lemma chain_sum:
  "chain c b es = Some b' \<Longrightarrow> in_i64 b \<Longrightarrow> b' = i64 (b + sum_list (map Amount (filter (\<lambda>e. en_Currency e = c) es))) \<and> in_i64 b'"
proof (induction es arbitrary: b)
  case Nil
  then show ?case by (simp add: i64_id)
next
  case (Cons e es)
  show ?case
  proof (cases "en_Currency e = c")
    case True
    with Cons.prems have "Balance e = i64 (b + Amount e)" "chain c (Balance e) es = Some b'" by (auto split: if_splits)
    with Cons.IH [of "Balance e"] True show ?thesis by (simp add: i64_cong add.assoc)
  qed (use Cons in simp)
qed

lemma chain_latest:
  "chain c b es = Some b' \<Longrightarrow>
   b' = (case rev (filter (\<lambda>e. en_Currency e = c) es) of [] \<Rightarrow> b | e # _ \<Rightarrow> Balance e)"
proof (induction es arbitrary: b)
  case (Cons e es)
  show ?case
  proof (cases "en_Currency e = c")
    case True
    with Cons.prems have "chain c (Balance e) es = Some b'" by (auto split: if_splits)
    from Cons.IH [OF this] True show ?thesis
      by (cases "rev (filter (\<lambda>e. en_Currency e = c) es)") (simp_all add: Cons_eq_append_conv)
  qed (use Cons in simp)
qed simp

lemma balance_loop_eq:
  "balance_loop c found tot latest es =
     (let fs = filter (\<lambda>e. en_Currency e = c) es in
      (if fs = [] then tot else i64 (tot + sum_list (map Amount fs)),
       if found \<or> fs = [] then latest else Balance (hd fs)))"
proof (induction es arbitrary: found tot latest)
  case (Cons e es)
  then show ?case by (simp add: Let_def i64_cong add.assoc)
qed simp

lemma decode_entries:
  assumes "list_all2 (\<lambda>e d. entry_parse J d = Some e \<and> EntryID e \<noteq> []) es ds" "length ids = length ds"
  shows "decode J (zip ids ds) = es"
  using assms(2,1)
proof (induction ids ds arbitrary: es rule: list_induct2)
  case (Cons i ids d ds)
  then show ?case by (auto simp: list_all2_Cons2)
qed simp

section \<open>Properties\<close>

text \<open>Reconciliation. When the player's stream holds the encodings of entries that form a chain
  from an empty account, and no more than the retained number of them, recomputing the balance from
  the stream gives exactly the balance the last entry states, for every currency.\<close>

theorem ledger_reconciles:
  assumes "XALL R s (keys_Ledger ks uid) = zip ids ds" and "length ids = length ds"
    and "list_all2 (\<lambda>e d. entry_parse J d = Some e \<and> EntryID e \<noteq> []) es ds"
    and "int (length es) \<le> DefaultMaxLen" and "chain c 0 es = Some b"
  shows "ledger_Balance R ks J uid c s = (b, b)"
proof -
  let ?fs = "filter (\<lambda>e. en_Currency e = c) es"
  have len: "length ds = length es" using assms(3) by (simp add: list_all2_lengthD)
  have "rev (zip ids ds) = zip (rev ids) (rev ds)" using assms(2) by (simp add: zip_rev)
  moreover have "decode J (zip (rev ids) (rev ds)) = rev es"
    using assms(2,3) by (intro decode_entries) (simp_all add: list_all2_rev)
  moreover have "nat DefaultMaxLen \<ge> length (zip ids ds)" using assms(2,4) len by simp
  ultimately have r: "Recent R ks J uid DefaultMaxLen s = rev es"
    by (simp add: Recent_def assms(1) DefaultMaxLen_def)
  have tot: "b = i64 (sum_list (map Amount ?fs))" using chain_sum [OF assms(5)] by (simp add: in_i64_def)
  have "sum_list (map Amount (rev ?fs)) = sum_list (map Amount ?fs)" by (simp add: rev_map [symmetric])
  moreover have "b = (if ?fs = [] then 0 else Balance (hd (rev ?fs)))"
    using chain_latest [OF assms(5)] by (cases "rev ?fs") auto
  moreover have "filter (\<lambda>e. en_Currency e = c) (rev es) = rev ?fs" by (simp add: rev_filter)
  ultimately show ?thesis using tot by (simp add: ledger_Balance_def r balance_loop_eq Let_def)
qed

text \<open>A codec for concrete runs: it keeps the first entries of a fixed list apart by their index.\<close>

definition demo_entries :: "Entry list" where
  "demo_entries = [WithID 1 (ledger_New 10 5 TypeGrant 1 500 500), WithID 2 (ledger_New 20 5 TypeBet 1 (- 50) 450),
     WithID 3 (ledger_New 30 5 TypeGachaCost 2 0 0), WithID 4 (ledger_New 40 5 TypeWin 1 120 570)]"

definition demo_codec :: entry_codec where
  "demo_codec = \<lparr>entry_JSON = (\<lambda>e. Some (EntryID e)),
     entry_parse = (\<lambda>d. map_of (map (\<lambda>e. (EntryID e, e)) demo_entries) d)\<rparr>"

definition demo_stream :: mem where
  "demo_stream = mem_empty\<lparr>streams := (\<lambda>k. if k = keys_Ledger (NewKeys TagUID 8 ''lobby'') 5
     then zip [''1-0'', ''2-0'', ''3-0'', ''4-0''] (map EntryID demo_entries) else [])\<rparr>"

theorem ledger_reconciles_witness:
  "ledger_Balance mem_redis (NewKeys TagUID 8 ''lobby'') demo_codec 5 1 demo_stream = (570, 570)"
  by (rule ledger_reconciles [where es = demo_entries and ds = "map EntryID demo_entries"
        and ids = "[''1-0'', ''2-0'', ''3-0'', ''4-0'']"])
    (simp_all add: demo_stream_def demo_codec_def demo_entries_def DefaultMaxLen_def WithID_def ledger_New_def i64_def)

end
