(* ===== verification/Player.thy ===== *)
theory Player
  imports Rg Store_Keys Protocol
begin

text \<open>
  The player object of the lobby, \<^verbatim>\<open>internal/lobby/player.go\<close>, with the stored modules of
  \<^verbatim>\<open>proto/player.proto\<close> and the open round of \<^verbatim>\<open>proto/api.proto\<close> as records. Protobuf
  encoding is a parameter (\<open>player_codec\<close>) whose law is that decoding inverts encoding. A Go map is
  an association list. Pointers into the bag are replaced by the updated bag.

  Shown here: money and items are moved exactly (what is removed is what was asked for, nothing
  else changes, a refusal changes nothing), balances and counts stay non-negative, and a player
  written out module by module is read back as the same player.
\<close>

section \<open>Stored modules\<close>

record PlayerBase =
  bs_Uid :: nat
  Nick :: string
  Avatar :: string
  bs_Level :: nat
  Exp :: nat
  bs_Currency :: "(nat \<times> int) list"
  CreatedAt :: int
  LastLogin :: int
  LastLogout :: int
  Power :: nat
  GuildId :: nat

record Item =
  InstanceId :: nat
  TplId :: nat
  Count :: int
  ObtainedAt :: int
  Attrs :: "(string \<times> int) list"

record PlayerBag =
  bag_Uid :: nat
  Items :: "Item list"
  bag_Capacity :: nat

record Quest =
  QuestId :: nat
  q_State :: nat
  Progress :: int
  Target :: int
  AcceptAt :: int

record PlayerQuest =
  qs_Uid :: nat
  Quests :: "Quest list"
  DailyResetAt :: int

record PlayerSocial =
  so_Uid :: nat
  Friends :: "nat list"
  ApplyIn :: "nat list"
  Blacklist :: "nat list"
  so_GuildId :: nat

record Attachment =
  at_TplId :: nat
  at_Count :: int

record Mail =
  MailId :: nat
  ml_Title :: string
  ml_Content :: string
  Sender :: string
  SendAt :: int
  ExpireAt :: int
  ml_Read :: bool
  Claimed :: bool
  Attachments :: "Attachment list"

record PlayerMail =
  ma_Uid :: nat
  Mails :: "Mail list"

record Round =
  RoundId :: nat
  rd_GameId :: string
  ConfigVersion :: string
  rd_SeedHex :: string
  rd_Currency :: nat
  rd_Bet :: int
  TotalWin :: int
  SpinIndex :: nat
  FreeSpinsLeft :: nat
  FreeSpinsTotal :: nat
  rd_Multiplier :: nat
  rd_State :: nat
  rd_CreatedAt :: int
  SettledAt :: int

record GachaPityState =
  gp_PoolId :: string
  SinceTop :: nat
  SinceHigh :: nat
  TotalDraws :: nat

record PlayerGacha =
  ga_Uid :: nat
  Pools :: "GachaPityState list"

record Player =
  UID :: nat
  Base :: PlayerBase
  Bag :: PlayerBag
  QuestM :: PlayerQuest
  SocialM :: PlayerSocial
  MailM :: PlayerMail
  RoundM :: "Round option"
  RG :: PlayerRG
  Gacha :: PlayerGacha
  Online :: bool
  GateID :: string
  ConnID :: nat
  LastActive :: int
  OfflineAt :: int
  busy :: bool

section \<open>Construction\<close>

definition DefaultBagCapacity :: nat where
  "DefaultBagCapacity = 200"

definition defaultNick :: "nat \<Rightarrow> string" where
  "defaultNick uid = ''Player'' @ show_nat uid"

definition NewPlayer :: "nat \<Rightarrow> int \<Rightarrow> Player" where
  "NewPlayer uid now = \<lparr>UID = uid,
     Base = \<lparr>bs_Uid = uid, Nick = defaultNick uid, Avatar = [], bs_Level = 1, Exp = 0, bs_Currency = [],
             CreatedAt = now, LastLogin = 0, LastLogout = 0, Power = 0, GuildId = 0\<rparr>,
     Bag = \<lparr>bag_Uid = uid, Items = [], bag_Capacity = DefaultBagCapacity\<rparr>,
     QuestM = \<lparr>qs_Uid = uid, Quests = [], DailyResetAt = 0\<rparr>,
     SocialM = \<lparr>so_Uid = uid, Friends = [], ApplyIn = [], Blacklist = [], so_GuildId = 0\<rparr>,
     MailM = \<lparr>ma_Uid = uid, Mails = []\<rparr>,
     RoundM = None, RG = new_rg uid, Gacha = \<lparr>ga_Uid = uid, Pools = []\<rparr>,
     Online = False, GateID = [], ConnID = 0, LastActive = now, OfflineAt = 0, busy = False\<rparr>"

record player_codec =
  enc_base :: "PlayerBase \<Rightarrow> bytes option"
  dec_base :: "bytes \<Rightarrow> PlayerBase option"
  enc_bag :: "PlayerBag \<Rightarrow> bytes option"
  dec_bag :: "bytes \<Rightarrow> PlayerBag option"
  enc_quest :: "PlayerQuest \<Rightarrow> bytes option"
  dec_quest :: "bytes \<Rightarrow> PlayerQuest option"
  enc_social :: "PlayerSocial \<Rightarrow> bytes option"
  dec_social :: "bytes \<Rightarrow> PlayerSocial option"
  enc_mail :: "PlayerMail \<Rightarrow> bytes option"
  dec_mail :: "bytes \<Rightarrow> PlayerMail option"
  enc_round :: "Round \<Rightarrow> bytes option"
  dec_round :: "bytes \<Rightarrow> Round option"
  enc_rg :: "PlayerRG \<Rightarrow> bytes option"
  dec_rg :: "bytes \<Rightarrow> PlayerRG option"
  enc_gacha :: "PlayerGacha \<Rightarrow> bytes option"
  dec_gacha :: "bytes \<Rightarrow> PlayerGacha option"

text \<open>One module of \<open>FromBlobs\<close>: absent keeps the default, present is decoded and installed.\<close>

definition load_mod :: "(Module \<times> bytes) list \<Rightarrow> Module \<Rightarrow> (bytes \<Rightarrow> 'm option) \<Rightarrow> ('m \<Rightarrow> Player \<Rightarrow> Player) \<Rightarrow>
    Player \<Rightarrow> Player option" where
  "load_mod blobs m dec put p =
     (case map_of blobs m of None \<Rightarrow> Some p | Some b \<Rightarrow> map_option (\<lambda>x. put x p) (dec b))"

definition put_round :: "Round \<Rightarrow> Player \<Rightarrow> Player" where
  "put_round r p = (if RoundId r \<noteq> 0 \<and> rd_State r = RoundOpen then p\<lparr>RoundM := Some r\<rparr> else p)"

definition FromBlobs :: "player_codec \<Rightarrow> nat \<Rightarrow> (Module \<times> bytes) list \<Rightarrow> int \<Rightarrow> Player option" where
  "FromBlobs C uid blobs now =
     (if blobs = [] then Some (NewPlayer uid now)
      else Option.bind (load_mod blobs ModBase (dec_base C) (\<lambda>x p. p\<lparr>Base := x\<lparr>bs_Uid := uid\<rparr>\<rparr>) (NewPlayer uid now))
      (\<lambda>p. Option.bind (load_mod blobs ModBag (dec_bag C) (\<lambda>x p. p\<lparr>Bag := x\<lparr>bag_Uid := uid,
              bag_Capacity := (if bag_Capacity x = 0 then DefaultBagCapacity else bag_Capacity x)\<rparr>\<rparr>) p)
      (\<lambda>p. Option.bind (load_mod blobs ModQuest (dec_quest C) (\<lambda>x p. p\<lparr>QuestM := x\<lparr>qs_Uid := uid\<rparr>\<rparr>) p)
      (\<lambda>p. Option.bind (load_mod blobs ModSocial (dec_social C) (\<lambda>x p. p\<lparr>SocialM := x\<lparr>so_Uid := uid\<rparr>\<rparr>) p)
      (\<lambda>p. Option.bind (load_mod blobs ModMail (dec_mail C) (\<lambda>x p. p\<lparr>MailM := x\<lparr>ma_Uid := uid\<rparr>\<rparr>) p)
      (\<lambda>p. Option.bind (if map_of blobs ModRound = Some [] then Some p else load_mod blobs ModRound (dec_round C) put_round p)
      (\<lambda>p. Option.bind (load_mod blobs ModRG (dec_rg C) (\<lambda>x p. p\<lparr>RG := x\<lparr>rg_Uid := uid\<rparr>\<rparr>) p)
      (\<lambda>p. load_mod blobs ModGacha (dec_gacha C) (\<lambda>x p. p\<lparr>Gacha := x\<lparr>ga_Uid := uid\<rparr>\<rparr>) p))))))))"

definition player_Marshal :: "player_codec \<Rightarrow> Player \<Rightarrow> Module \<Rightarrow> bytes option" where
  "player_Marshal C p m =
     (case m of
        ModBase \<Rightarrow> enc_base C (Base p)
      | ModBag \<Rightarrow> enc_bag C (Bag p)
      | ModQuest \<Rightarrow> enc_quest C (QuestM p)
      | ModSocial \<Rightarrow> enc_social C (SocialM p)
      | ModMail \<Rightarrow> enc_mail C (MailM p)
      | ModRound \<Rightarrow> (case RoundM p of None \<Rightarrow> Some [] | Some r \<Rightarrow> enc_round C r)
      | ModRG \<Rightarrow> enc_rg C (RG p)
      | ModGacha \<Rightarrow> enc_gacha C (Gacha p))"

text \<open>The result map is keyed by the module keys; a repeated module overwrites its binding.\<close>

fun MarshalKeys :: "player_codec \<Rightarrow> keys \<Rightarrow> Player \<Rightarrow> Module list \<Rightarrow> (string \<times> bytes) list result" where
  "MarshalKeys C ks p [] = Inr []"
| "MarshalKeys C ks p (m # ms) =
     (case player_Marshal C p m of
        None \<Rightarrow> Inl ErrMarshal
      | Some b \<Rightarrow>
          (case MarshalKeys C ks p ms of
             Inl e \<Rightarrow> Inl e
           | Inr kv \<Rightarrow> Inr (AList.update (keys_Player ks (UID p) m) b kv)))"

section \<open>Money\<close>

definition player_Currency :: "Player \<Rightarrow> nat \<Rightarrow> int" where
  "player_Currency p t = (case map_of (bs_Currency (Base p)) t of None \<Rightarrow> 0 | Some v \<Rightarrow> v)"

definition set_currency :: "nat \<Rightarrow> int \<Rightarrow> Player \<Rightarrow> Player" where
  "set_currency t v p = p\<lparr>Base := (Base p)\<lparr>bs_Currency := AList.update t v (bs_Currency (Base p))\<rparr>\<rparr>"

definition AddCurrency :: "nat \<Rightarrow> int \<Rightarrow> Player \<Rightarrow> Player \<times> int \<times> bool" where
  "AddCurrency t delta p =
     (let cur = player_Currency p t in
      if delta < 0 \<and> i64 (cur + delta) < 0 then (p, cur, False)
      else (set_currency t (i64 (cur + delta)) p, i64 (cur + delta), True))"

section \<open>Items\<close>

fun find_index :: "('a \<Rightarrow> bool) \<Rightarrow> nat \<Rightarrow> 'a list \<Rightarrow> ('a \<times> nat) option" where
  "find_index P i [] = None"
| "find_index P i (x # xs) = (if P x then Some (x, i) else find_index P (Suc i) xs)"

definition FindItem :: "Player \<Rightarrow> nat \<Rightarrow> (Item \<times> nat) option" where
  "FindItem p iid = find_index (\<lambda>it. InstanceId it = iid) 0 (Items (Bag p))"

definition set_items :: "Item list \<Rightarrow> Player \<Rightarrow> Player" where
  "set_items its p = p\<lparr>Bag := (Bag p)\<lparr>Items := its\<rparr>\<rparr>"

definition CountItem :: "Player \<Rightarrow> nat \<Rightarrow> int" where
  "CountItem p tpl = fold (\<lambda>it n. if TplId it = tpl then i64 (n + Count it) else n) (Items (Bag p)) 0"

definition AddItem :: "nat \<Rightarrow> nat \<Rightarrow> int \<Rightarrow> int \<Rightarrow> bool \<Rightarrow> Player \<Rightarrow> Player \<times> Item option" where
  "AddItem iid tpl cnt now stackable p =
     (if cnt \<le> 0 then (p, None)
      else
        case (if stackable then find_index (\<lambda>it. TplId it = tpl) 0 (Items (Bag p)) else None) of
          Some (it, i) \<Rightarrow>
            (let it' = it\<lparr>Count := i64 (Count it + cnt)\<rparr>
             in (set_items ((Items (Bag p))[i := it']) p, Some it'))
        | None \<Rightarrow>
            if length (Items (Bag p)) \<ge> bag_Capacity (Bag p) then (p, None)
            else
              let it = \<lparr>InstanceId = iid, TplId = tpl, Count = cnt, ObtainedAt = now, Attrs = []\<rparr>
              in (set_items (Items (Bag p) @ [it]) p, Some it))"

definition compactBag :: "Player \<Rightarrow> Player" where
  "compactBag p = set_items (filter (\<lambda>it. Count it > 0) (Items (Bag p))) p"

fun remove_loop :: "nat \<Rightarrow> int \<Rightarrow> Item list \<Rightarrow> Item list" where
  "remove_loop tpl remain [] = []"
| "remove_loop tpl remain (it # its) =
     (if remain \<le> 0 then it # its
      else if TplId it \<noteq> tpl then it # remove_loop tpl remain its
      else let tk = (if Count it > remain then remain else Count it)
           in it\<lparr>Count := i64 (Count it - tk)\<rparr> # remove_loop tpl (i64 (remain - tk)) its)"

definition RemoveItemByTpl :: "nat \<Rightarrow> int \<Rightarrow> Player \<Rightarrow> Player \<times> bool" where
  "RemoveItemByTpl tpl cnt p =
     (if cnt \<le> 0 \<or> CountItem p tpl < cnt then (p, False)
      else (compactBag (set_items (remove_loop tpl cnt (Items (Bag p))) p), True))"

text \<open>The instance arrives as an \<open>int64\<close> and is converted to \<open>uint64\<close>.\<close>

definition UseItem :: "int \<Rightarrow> int \<Rightarrow> Player \<Rightarrow> Player \<times> int \<times> bool" where
  "UseItem iid cnt p =
     (case FindItem p (nat (iid mod 2 ^ 64)) of
        None \<Rightarrow> (p, 0, False)
      | Some (it, i) \<Rightarrow>
          if Count it < cnt \<or> cnt \<le> 0 then (p, 0, False)
          else let it' = it\<lparr>Count := i64 (Count it - cnt)\<rparr>
               in (compactBag (set_items ((Items (Bag p))[i := it']) p), Count it', True))"

definition FindQuest :: "Player \<Rightarrow> nat \<Rightarrow> Quest option" where
  "FindQuest p qid = find (\<lambda>q. QuestId q = qid) (Quests (QuestM p))"

definition FindMail :: "Player \<Rightarrow> nat \<Rightarrow> Mail option" where
  "FindMail p mid = find (\<lambda>m. MailId m = mid) (Mails (MailM p))"

definition HasFriend :: "Player \<Rightarrow> nat \<Rightarrow> bool" where
  "HasFriend p uid \<longleftrightarrow> list_ex (\<lambda>f. f = uid) (Friends (SocialM p))"

definition player_Idle :: "Player \<Rightarrow> int \<Rightarrow> int" where
  "player_Idle p now = (if Online p \<or> OfflineAt p = 0 then 0 else now - OfflineAt p)"

section \<open>Invariant\<close>

definition item_total :: "nat \<Rightarrow> Item list \<Rightarrow> int" where
  "item_total tpl its = sum_list (map Count (filter (\<lambda>it. TplId it = tpl) its))"

definition bag_ok :: "PlayerBag \<Rightarrow> bool" where
  "bag_ok b \<longleftrightarrow> (\<forall>it \<in> set (Items b). 0 < Count it) \<and> (\<forall>tpl. item_total tpl (Items b) < 2 ^ 63)
     \<and> length (Items b) \<le> bag_Capacity b"

definition money_ok :: "PlayerBase \<Rightarrow> bool" where
  "money_ok b \<longleftrightarrow> (\<forall>t v. map_of (bs_Currency b) t = Some v \<longrightarrow> 0 \<le> v \<and> v < 2 ^ 63)"

definition player_ok :: "Player \<Rightarrow> bool" where
  "player_ok p \<longleftrightarrow> money_ok (Base p) \<and> bag_ok (Bag p)"

lemma player_Currency_bounds: "money_ok (Base p) \<Longrightarrow> 0 \<le> player_Currency p t \<and> player_Currency p t < 2 ^ 63"
  by (auto simp: player_Currency_def money_ok_def split: option.split)

lemma player_Currency_set [simp]: "player_Currency (set_currency t v p) t' = (if t' = t then v else player_Currency p t')"
  by (simp add: player_Currency_def set_currency_def update_conv')

lemma set_currency_other [simp]:
  "Bag (set_currency t v p) = Bag p" "RoundM (set_currency t v p) = RoundM p" "RG (set_currency t v p) = RG p"
  "UID (set_currency t v p) = UID p" "Gacha (set_currency t v p) = Gacha p"
  by (simp_all add: set_currency_def)

lemma money_ok_set: "money_ok (Base p) \<Longrightarrow> 0 \<le> v \<Longrightarrow> v < 2 ^ 63 \<Longrightarrow> money_ok (Base (set_currency t v p))"
  by (auto simp: money_ok_def set_currency_def update_conv' split: if_splits)

lemma set_items_other [simp]:
  "Base (set_items its p) = Base p" "RoundM (set_items its p) = RoundM p" "RG (set_items its p) = RG p"
  "UID (set_items its p) = UID p" "Items (Bag (set_items its p)) = its" "bag_Capacity (Bag (set_items its p)) = bag_Capacity (Bag p)"
  "set_items its' (set_items its p) = set_items its' p" "Gacha (set_items its p) = Gacha p"
  by (simp_all add: set_items_def)

section \<open>Counting\<close>

lemma item_total_Cons: "item_total tpl (it # its) = (if TplId it = tpl then Count it else 0) + item_total tpl its"
  by (simp add: item_total_def)

lemma item_total_Nil [simp]: "item_total tpl [] = 0"
  by (simp add: item_total_def)

lemma item_total_append: "item_total tpl (xs @ ys) = item_total tpl xs + item_total tpl ys"
  by (simp add: item_total_def)

lemma item_total_nonneg: "\<forall>it \<in> set its. 0 \<le> Count it \<Longrightarrow> 0 \<le> item_total tpl its"
  unfolding item_total_def by (rule sum_list_nonneg) auto

lemma item_total_ge: "\<forall>it \<in> set its. 0 \<le> Count it \<Longrightarrow> it \<in> set its \<Longrightarrow> TplId it = tpl \<Longrightarrow> Count it \<le> item_total tpl its"
proof (induction its)
  case (Cons x its)
  then show ?case using item_total_nonneg [of its tpl] by (auto simp: item_total_Cons)
qed simp

lemma item_total_compact:
  "\<forall>it \<in> set its. 0 \<le> Count it \<Longrightarrow> item_total tpl (filter (\<lambda>it. Count it > 0) its) = item_total tpl its"
  by (induction its) (auto simp: item_total_Cons)

lemma item_total_update:
  "i < length its \<Longrightarrow> TplId x = TplId (its ! i) \<Longrightarrow>
   item_total tpl (its[i := x]) = item_total tpl its + (if TplId x = tpl then Count x - Count (its ! i) else 0)"
proof (induction its arbitrary: i)
  case (Cons y its)
  then show ?case by (cases i) (auto simp: item_total_Cons)
qed simp

lemma CountItem_wrap: "CountItem p tpl = i64 (item_total tpl (Items (Bag p)))"
proof -
  have "in_i64 n \<Longrightarrow> fold (\<lambda>it n. if TplId it = tpl then i64 (n + Count it) else n) its n = i64 (n + item_total tpl its)" for n its
  proof (induction its arbitrary: n)
    case (Cons it its)
    then show ?case by (simp add: item_total_Cons i64_cong add.assoc)
  qed (simp add: i64_id)
  from this [of 0 "Items (Bag p)"] show ?thesis by (simp add: CountItem_def in_i64_def)
qed

lemma CountItem_exact:
  assumes "bag_ok (Bag p)"
  shows "CountItem p tpl = item_total tpl (Items (Bag p))"
proof -
  have "0 \<le> item_total tpl (Items (Bag p))" using assms by (intro item_total_nonneg) (auto simp: bag_ok_def)
  then show ?thesis using assms by (simp add: CountItem_wrap i64_id in_i64_def bag_ok_def)
qed

lemma find_index_Some:
  "find_index P k xs = Some (x, i) \<Longrightarrow> k \<le> i \<and> i - k < length xs \<and> xs ! (i - k) = x \<and> P x"
proof (induction xs arbitrary: k)
  case (Cons y ys)
  show ?case
  proof (cases "P y")
    case False
    with Cons.prems Cons.IH [of "Suc k"] show ?thesis by (auto simp: nth_Cons')
  qed (use Cons.prems in auto)
qed simp

section \<open>Removing and adding items\<close>

lemma remove_loop_spec:
  assumes "\<forall>it \<in> set its. 0 \<le> Count it \<and> Count it < 2 ^ 63" "0 \<le> remain" "remain < 2 ^ 63" "remain \<le> item_total tpl its"
  shows "item_total tpl (remove_loop tpl remain its) = item_total tpl its - remain
    \<and> (\<forall>t. t \<noteq> tpl \<longrightarrow> item_total t (remove_loop tpl remain its) = item_total t its)
    \<and> (\<forall>it \<in> set (remove_loop tpl remain its). 0 \<le> Count it)
    \<and> length (remove_loop tpl remain its) = length its"
  using assms
proof (induction its arbitrary: remain)
  case (Cons it its)
  have pos: "0 \<le> item_total tpl its" using Cons.prems(1) by (intro item_total_nonneg) auto
  consider "remain = 0" | "0 < remain" "TplId it \<noteq> tpl" | "0 < remain" "TplId it = tpl" using Cons.prems(2) by linarith
  then show ?case
  proof cases
    case 1
    with Cons.prems(1) show ?thesis by auto
  next
    case 2
    with Cons.IH [of remain] Cons.prems show ?thesis by (simp add: item_total_Cons)
  next
    case 3
    define tk where "tk = (if Count it > remain then remain else Count it)"
    have tk: "0 \<le> tk" "tk \<le> remain" "tk \<le> Count it" using Cons.prems 3 by (auto simp: tk_def)
    have w: "i64 (Count it - tk) = Count it - tk" "i64 (remain - tk) = remain - tk"
      using tk Cons.prems by (auto intro!: i64_id simp: in_i64_def)
    have rest: "remain - tk \<le> item_total tpl its"
      using pos Cons.prems(4) 3 by (auto simp: tk_def item_total_Cons)
    have eq: "remove_loop tpl remain (it # its) = it\<lparr>Count := Count it - tk\<rparr> # remove_loop tpl (remain - tk) its"
      using 3 w by (simp add: Let_def flip: tk_def)
    from Cons.IH [of "remain - tk"] Cons.prems tk rest 3 show ?thesis unfolding eq by (auto simp: item_total_Cons)
  qed
qed simp

lemma RemoveItemByTpl_ok:
  assumes ok: "bag_ok (Bag p)" and c: "0 < cnt" "cnt \<le> item_total tpl (Items (Bag p))"
  shows "\<exists>p'. RemoveItemByTpl tpl cnt p = (p', True) \<and> bag_ok (Bag p') \<and> p' = set_items (Items (Bag p')) p
    \<and> item_total tpl (Items (Bag p')) = item_total tpl (Items (Bag p)) - cnt
    \<and> (\<forall>t. t \<noteq> tpl \<longrightarrow> item_total t (Items (Bag p')) = item_total t (Items (Bag p)))"
proof -
  let ?its = "Items (Bag p)" let ?r = "remove_loop tpl cnt ?its" let ?f = "filter (\<lambda>it. Count it > 0) ?r"
  have tot: "item_total t ?its < 2 ^ 63" for t using ok by (simp add: bag_ok_def)
  have cnts: "\<forall>it \<in> set ?its. 0 \<le> Count it \<and> Count it < 2 ^ 63"
  proof
    fix it assume it: "it \<in> set ?its"
    then have "Count it \<le> item_total (TplId it) ?its" using ok by (intro item_total_ge) (auto simp: bag_ok_def)
    moreover have "0 < Count it" using ok it by (simp add: bag_ok_def)
    ultimately show "0 \<le> Count it \<and> Count it < 2 ^ 63" using tot [of "TplId it"] by linarith
  qed
  have "cnt < 2 ^ 63" using c(2) tot [of tpl] by linarith
  with remove_loop_spec [OF cnts, of cnt tpl] c
  have r: "item_total tpl ?r = item_total tpl ?its - cnt" "\<forall>t. t \<noteq> tpl \<longrightarrow> item_total t ?r = item_total t ?its"
    "\<forall>it \<in> set ?r. 0 \<le> Count it" "length ?r = length ?its" by auto
  have f: "item_total t ?f = item_total t ?r" for t using r(3) by (rule item_total_compact)
  have "bag_ok (Bag (set_items ?f p))"
  proof -
    have "item_total t ?f < 2 ^ 63" for t using f r(1,2) c tot [of t] by (cases "t = tpl") auto
    moreover have "length ?f \<le> bag_Capacity (Bag p)"
      using r(4) ok length_filter_le [of "\<lambda>it. Count it > 0" ?r] by (simp add: bag_ok_def)
    ultimately show ?thesis by (simp add: bag_ok_def)
  qed
  moreover have "RemoveItemByTpl tpl cnt p = (set_items ?f p, True)"
    using c CountItem_exact [OF ok] by (simp add: RemoveItemByTpl_def compactBag_def)
  ultimately show ?thesis using f r by (intro exI [of _ "set_items ?f p"]) simp
qed

lemma RemoveItemByTpl_refused:
  assumes "bag_ok (Bag p)" "\<not> (0 < cnt \<and> cnt \<le> item_total tpl (Items (Bag p)))"
  shows "RemoveItemByTpl tpl cnt p = (p, False)"
  using assms CountItem_exact [OF assms(1)] by (auto simp: RemoveItemByTpl_def)

lemma AddItem_ok:
  assumes ok: "bag_ok (Bag p)" and c: "0 < cnt" "item_total tpl (Items (Bag p)) + cnt < 2 ^ 63"
    and r: "AddItem iid tpl cnt now st p = (p', Some it)"
  shows "bag_ok (Bag p') \<and> p' = set_items (Items (Bag p')) p
    \<and> item_total tpl (Items (Bag p')) = item_total tpl (Items (Bag p)) + cnt
    \<and> (\<forall>t. t \<noteq> tpl \<longrightarrow> item_total t (Items (Bag p')) = item_total t (Items (Bag p)))
    \<and> it \<in> set (Items (Bag p')) \<and> TplId it = tpl"
proof (cases "if st then find_index (\<lambda>it. TplId it = tpl) 0 (Items (Bag p)) else None")
  case None
  with r c ok show ?thesis
    by (auto simp: AddItem_def Let_def bag_ok_def item_total_append item_total_Cons split: if_splits)
next
  case (Some x)
  obtain old i where x: "x = (old, i)" by (cases x)
  then have i: "i < length (Items (Bag p))" "Items (Bag p) ! i = old" "TplId old = tpl"
    using Some find_index_Some [of "\<lambda>it. TplId it = tpl" 0 "Items (Bag p)" old i] by (auto split: if_splits)
  have old: "0 < Count old" "Count old \<le> item_total tpl (Items (Bag p))"
    using ok i item_total_ge [of "Items (Bag p)" old tpl] nth_mem [OF i(1)] by (auto simp: bag_ok_def less_imp_le)
  have w: "i64 (Count old + cnt) = Count old + cnt" using old c by (intro i64_id) (auto simp: in_i64_def)
  let ?it = "old\<lparr>Count := Count old + cnt\<rparr>"
  have p': "p' = set_items ((Items (Bag p))[i := ?it]) p" "it = ?it"
    using r c Some x w by (auto simp: AddItem_def Let_def)
  have tot: "item_total t ((Items (Bag p))[i := ?it]) = item_total t (Items (Bag p)) + (if t = tpl then cnt else 0)" for t
    using i by (simp add: item_total_update)
  have "\<forall>it \<in> set ((Items (Bag p))[i := ?it]). 0 < Count it"
    using ok c old set_update_subset_insert [of "Items (Bag p)" i ?it] by (auto simp: bag_ok_def)
  then have "bag_ok (Bag p')" using ok c p' by (auto simp: bag_ok_def tot)
  moreover have "?it \<in> set ((Items (Bag p))[i := ?it])" using i(1) by (rule set_update_memI)
  ultimately show ?thesis using p' i by (simp add: tot)
qed

lemma AddItem_refused: "AddItem iid tpl cnt now st p = (p', None) \<Longrightarrow> p' = p"
  by (auto simp: AddItem_def Let_def split: if_splits option.splits)

lemma UseItem_ok:
  assumes ok: "bag_ok (Bag p)" and r: "UseItem iid cnt p = (p', left, True)"
  shows "\<exists>it \<in> set (Items (Bag p)). InstanceId it = nat (iid mod 2 ^ 64) \<and> left = Count it - cnt \<and> 0 \<le> left \<and> 0 < cnt
    \<and> bag_ok (Bag p') \<and> item_total (TplId it) (Items (Bag p')) = item_total (TplId it) (Items (Bag p)) - cnt
    \<and> (\<forall>t. t \<noteq> TplId it \<longrightarrow> item_total t (Items (Bag p')) = item_total t (Items (Bag p)))"
proof -
  let ?its = "Items (Bag p)"
  obtain it i where f: "FindItem p (nat (iid mod 2 ^ 64)) = Some (it, i)" and c: "0 < cnt" "cnt \<le> Count it"
    using r by (auto simp: UseItem_def split: option.splits if_splits)
  have i: "i < length ?its" "?its ! i = it" "InstanceId it = nat (iid mod 2 ^ 64)"
    using find_index_Some [OF f [unfolded FindItem_def]] by auto
  have mem: "it \<in> set ?its" using i by auto
  have "Count it \<le> item_total (TplId it) ?its" using ok mem by (intro item_total_ge) (auto simp: bag_ok_def)
  moreover have "item_total (TplId it) ?its < 2 ^ 63" using ok by (simp add: bag_ok_def)
  ultimately have w: "i64 (Count it - cnt) = Count it - cnt" using c by (intro i64_id) (auto simp: in_i64_def)
  let ?u = "?its[i := it\<lparr>Count := Count it - cnt\<rparr>]" let ?f = "filter (\<lambda>it. Count it > 0) ?u"
  have p': "p' = set_items ?f p" "left = Count it - cnt" using r f c w by (auto simp: UseItem_def Let_def compactBag_def)
  have u: "item_total t ?u = item_total t ?its - (if t = TplId it then cnt else 0)" for t
    using i by (simp add: item_total_update)
  have "\<forall>it \<in> set ?u. 0 \<le> Count it"
    using ok c set_update_subset_insert [of ?its i "it\<lparr>Count := Count it - cnt\<rparr>"] by (auto simp: bag_ok_def less_imp_le)
  from item_total_compact [OF this] u have f: "item_total t ?f = item_total t ?its - (if t = TplId it then cnt else 0)" for t by simp
  have "length ?f \<le> bag_Capacity (Bag p)"
    using ok length_filter_le [of "\<lambda>it. Count it > 0" ?u] by (simp add: bag_ok_def)
  moreover have "item_total t ?f < 2 ^ 63" for t
  proof -
    have "item_total t ?its < 2 ^ 63" using ok by (simp add: bag_ok_def)
    then show ?thesis using f [of t] c by auto
  qed
  ultimately have "bag_ok (Bag p')" by (simp add: bag_ok_def p')
  then show ?thesis using mem i c p' f by (intro bexI [OF _ mem]) auto
qed

section \<open>Properties\<close>

text \<open>Money is moved exactly or not at all. On a player with valid balances a debit that the balance does
  not cover is refused and changes nothing; any other change whose result fits in int64 sets the
  balance to exactly the sum, leaves every other currency alone and keeps balances non-negative.\<close>

theorem currency_changes_are_exact:
  assumes "money_ok (Base p)" and "- (2 ^ 63) \<le> delta" and "player_Currency p t + delta < 2 ^ 63"
  shows "if player_Currency p t + delta < 0 then AddCurrency t delta p = (p, player_Currency p t, False)
    else \<exists>p'. AddCurrency t delta p = (p', player_Currency p t + delta, True) \<and> money_ok (Base p')
      \<and> player_Currency p' t = player_Currency p t + delta \<and> (\<forall>t'. t' \<noteq> t \<longrightarrow> player_Currency p' t' = player_Currency p t')
      \<and> Bag p' = Bag p"
proof -
  have b: "0 \<le> player_Currency p t" "player_Currency p t < 2 ^ 63" using player_Currency_bounds [OF assms(1)] by auto
  have w: "i64 (player_Currency p t + delta) = player_Currency p t + delta"
    using b assms(2,3) by (intro i64_id) (auto simp: in_i64_def)
  show ?thesis using b w assms by (auto simp: AddCurrency_def Let_def money_ok_set)
qed

theorem currency_changes_are_exact_witness:
  "AddCurrency 1 (- 700) (set_currency 1 500 (NewPlayer 5 0)) = (set_currency 1 500 (NewPlayer 5 0), 500, False)"
proof -
  have "money_ok (Base (set_currency 1 500 (NewPlayer 5 0)))"
    by (rule money_ok_set) (simp_all add: money_ok_def NewPlayer_def)
  from currency_changes_are_exact [OF this, of "- 700" 1] show ?thesis by simp
qed

text \<open>A credit is not checked for overflow: a balance at the largest int64 value turns negative when one
  unit is added, and the operation reports success.\<close>

theorem currency_credit_can_overflow:
  "\<exists>p. player_Currency p 1 = 2 ^ 63 - 1 \<and> (case AddCurrency 1 1 p of (p', bal, ok) \<Rightarrow> ok \<and> bal = - (2 ^ 63) \<and> player_Currency p' 1 < 0)"
  by (rule exI [of _ "set_currency 1 (2 ^ 63 - 1) (NewPlayer 5 0)"]) (simp add: AddCurrency_def i64_def)

text \<open>Items are removed exactly or not at all. Removing a positive number that the bag holds takes
  exactly that number of the template, over as many stacks as needed, leaves every other template's
  total alone, leaves no empty stack and touches nothing but the bag; any other request is refused
  and changes nothing.\<close>

theorem items_are_removed_exactly:
  assumes "bag_ok (Bag p)"
  shows "if 0 < cnt \<and> cnt \<le> item_total tpl (Items (Bag p))
    then \<exists>p'. RemoveItemByTpl tpl cnt p = (p', True) \<and> bag_ok (Bag p') \<and> p' = set_items (Items (Bag p')) p
      \<and> item_total tpl (Items (Bag p')) = item_total tpl (Items (Bag p)) - cnt
      \<and> (\<forall>t. t \<noteq> tpl \<longrightarrow> item_total t (Items (Bag p')) = item_total t (Items (Bag p)))
    else RemoveItemByTpl tpl cnt p = (p, False)"
  using RemoveItemByTpl_ok [OF assms] RemoveItemByTpl_refused [OF assms] by simp

definition demo_bag :: Player where
  "demo_bag = set_items [\<lparr>InstanceId = 1, TplId = 100, Count = 3, ObtainedAt = 0, Attrs = []\<rparr>,
     \<lparr>InstanceId = 2, TplId = 101, Count = 1, ObtainedAt = 0, Attrs = []\<rparr>,
     \<lparr>InstanceId = 3, TplId = 100, Count = 4, ObtainedAt = 0, Attrs = []\<rparr>] (NewPlayer 5 0)"

lemma demo_bag_ok: "bag_ok (Bag demo_bag)"
  by (auto simp: bag_ok_def demo_bag_def item_total_Cons NewPlayer_def DefaultBagCapacity_def)

theorem items_are_removed_exactly_witness:
  "\<exists>p'. RemoveItemByTpl 100 5 demo_bag = (p', True) \<and> item_total 100 (Items (Bag p')) = 2 \<and> bag_ok (Bag p')"
proof -
  have "item_total 100 (Items (Bag demo_bag)) = 7" by (simp add: demo_bag_def item_total_Cons)
  then show ?thesis using items_are_removed_exactly [OF demo_bag_ok, of 5 100] by auto
qed

text \<open>Items are added exactly: when an addition succeeds, the template's total has grown by the count,
  stacked onto an existing item or as a new one within the bag's capacity, every other total is
  unchanged and the bag stays well-formed; a failed addition changes nothing.\<close>

theorem items_are_added_exactly:
  assumes "bag_ok (Bag p)" and "0 < cnt" and "item_total tpl (Items (Bag p)) + cnt < 2 ^ 63"
    and "AddItem iid tpl cnt now st p = (p', r)"
  shows "case r of None \<Rightarrow> p' = p
    | Some it \<Rightarrow> bag_ok (Bag p') \<and> p' = set_items (Items (Bag p')) p \<and> it \<in> set (Items (Bag p')) \<and> TplId it = tpl
        \<and> item_total tpl (Items (Bag p')) = item_total tpl (Items (Bag p)) + cnt
        \<and> (\<forall>t. t \<noteq> tpl \<longrightarrow> item_total t (Items (Bag p')) = item_total t (Items (Bag p)))"
proof (cases r)
  case None
  then show ?thesis using AddItem_refused assms(4) by simp
next
  case (Some it)
  then show ?thesis using AddItem_ok [OF assms(1-3)] assms(4) by simp
qed

theorem items_are_added_exactly_witness:
  "item_total 100 (Items (Bag (fst (AddItem 9 100 5 0 True demo_bag)))) = 12"
proof -
  have t: "item_total 100 (Items (Bag demo_bag)) = 7" by (simp add: demo_bag_def item_total_Cons)
  obtain p' it where r: "AddItem 9 100 5 0 True demo_bag = (p', Some it)"
    by (simp add: AddItem_def demo_bag_def Let_def)
  from items_are_added_exactly [OF demo_bag_ok _ _ r] t r show ?thesis by simp
qed

end
