(* ===== verification/Serialize.thy ===== *)
theory Serialize
  imports F1_Prelude
begin

text \<open>
  Serialisers for the concrete runs. The program encodes with protobuf and JSON, which are parameters
  of the model with the law that decoding inverts encoding; the text codecs built here from numbers,
  pairs and lists satisfy that law, so the properties that assume it can be applied.
\<close>

section \<open>Serialisers\<close>

type_synonym 'a ser = "('a \<Rightarrow> int list) \<times> (int list \<Rightarrow> ('a \<times> int list) option)"

definition ser_ok :: "'a ser \<Rightarrow> bool" where
  "ser_ok s \<longleftrightarrow> (\<forall>x r. snd s (fst s x @ r) = Some (x, r))"

definition ser_int :: "int ser" where
  "ser_int = (\<lambda>x. [x], \<lambda>xs. case xs of [] \<Rightarrow> None | y # ys \<Rightarrow> Some (y, ys))"

definition ser_pair :: "'a ser \<Rightarrow> 'b ser \<Rightarrow> ('a \<times> 'b) ser" where
  "ser_pair s t = (\<lambda>(a, b). fst s a @ fst t b,
     \<lambda>xs. case snd s xs of None \<Rightarrow> None
          | Some (a, ys) \<Rightarrow> (case snd t ys of None \<Rightarrow> None | Some (b, zs) \<Rightarrow> Some ((a, b), zs)))"

definition ser_map :: "('a \<Rightarrow> 'b) \<Rightarrow> ('b \<Rightarrow> 'a) \<Rightarrow> 'b ser \<Rightarrow> 'a ser" where
  "ser_map f g s = (\<lambda>a. fst s (f a), \<lambda>xs. map_option (\<lambda>(b, r). (g b, r)) (snd s xs))"

fun read_many :: "(int list \<Rightarrow> ('a \<times> int list) option) \<Rightarrow> nat \<Rightarrow> int list \<Rightarrow> ('a list \<times> int list) option" where
  "read_many d 0 xs = Some ([], xs)"
| "read_many d (Suc n) xs =
     (case d xs of None \<Rightarrow> None
      | Some (a, ys) \<Rightarrow> (case read_many d n ys of None \<Rightarrow> None | Some (as, zs) \<Rightarrow> Some (a # as, zs)))"

definition ser_list :: "'a ser \<Rightarrow> 'a list ser" where
  "ser_list s = (\<lambda>as. int (length as) # concat (map (fst s) as),
     \<lambda>xs. case xs of [] \<Rightarrow> None | n # ys \<Rightarrow> read_many (snd s) (nat n) ys)"

definition ser_nat :: "nat ser" where
  "ser_nat = ser_map int nat ser_int"

definition ser_bool :: "bool ser" where
  "ser_bool = ser_map (\<lambda>b. if b then 1 else 0) (\<lambda>x. x = 1) ser_int"

definition ser_string :: "string ser" where
  "ser_string = ser_list (ser_map (\<lambda>c. int (of_char c)) (\<lambda>x. char_of (nat x)) ser_int)"

lemma ser_ok_int: "ser_ok ser_int"
  by (simp add: ser_ok_def ser_int_def)

lemma ser_ok_pair: "ser_ok s \<Longrightarrow> ser_ok t \<Longrightarrow> ser_ok (ser_pair s t)"
  by (simp add: ser_ok_def ser_pair_def)

lemma ser_ok_map: "ser_ok s \<Longrightarrow> (\<And>x. g (f x) = x) \<Longrightarrow> ser_ok (ser_map f g s)"
  by (simp add: ser_ok_def ser_map_def)

lemma ser_ok_list: "ser_ok s \<Longrightarrow> ser_ok (ser_list s)"
proof -
  assume s: "ser_ok s"
  have "read_many (snd s) (length as) (concat (map (fst s) as) @ r) = Some (as, r)" for as r
    using s by (induction as) (simp_all add: ser_ok_def)
  then show ?thesis by (simp add: ser_ok_def ser_list_def)
qed

lemma ser_ok_basic: "ser_ok ser_nat" "ser_ok ser_bool" "ser_ok ser_string"
  unfolding ser_nat_def ser_bool_def ser_string_def
  by (auto intro!: ser_ok_map ser_ok_int ser_ok_list split: if_splits)

lemmas ser_intros = ser_ok_map ser_ok_pair ser_ok_list ser_ok_basic ser_ok_int

section \<open>Text\<close>

definition render_ints :: "int list \<Rightarrow> bytes" where
  "render_ints xs = concat (map (\<lambda>x. show_int x @ '','') xs)"

fun split_ints :: "string \<Rightarrow> string \<Rightarrow> int list option" where
  "split_ints acc [] = (if acc = [] then Some [] else None)"
| "split_ints acc (c # cs) =
     (if c = CHR '','' then
        (case tonumber (rev acc) of None \<Rightarrow> None | Some x \<Rightarrow> map_option (\<lambda>xs. x # xs) (split_ints [] cs))
      else split_ints (c # acc) cs)"

lemma split_ints_token: "CHR '','' \<notin> set t \<Longrightarrow> split_ints acc (t @ cs) = split_ints (rev t @ acc) cs"
  by (induction t arbitrary: acc) auto

lemma show_int_no_comma: "CHR '','' \<notin> set (show_int x)"
  using show_nat_digits [of "CHR '',''" "nat x"] show_nat_digits [of "CHR '',''" "nat (- x)"]
  by (auto simp: show_int_def)

lemma split_render: "split_ints [] (render_ints xs) = Some xs"
proof (induction xs)
  case (Cons x xs)
  have "split_ints [] (render_ints (x # xs)) = split_ints (rev (show_int x)) (CHR '','' # render_ints xs)"
    using split_ints_token [OF show_int_no_comma, of "[]" x] by (simp add: render_ints_def)
  then show ?case using Cons by simp
qed (simp add: render_ints_def)

definition ser_enc :: "'a ser \<Rightarrow> 'a \<Rightarrow> bytes option" where
  "ser_enc s x = Some (render_ints (fst s x))"

definition ser_dec :: "'a ser \<Rightarrow> bytes \<Rightarrow> 'a option" where
  "ser_dec s b = (case split_ints [] b of None \<Rightarrow> None | Some xs \<Rightarrow> map_option fst (snd s xs))"

lemma ser_roundtrip: "ser_ok s \<Longrightarrow> ser_enc s x = Some b \<Longrightarrow> ser_dec s b = Some x"
proof -
  assume "ser_ok s" "ser_enc s x = Some b"
  moreover from this(1) have "snd s (fst s x @ []) = Some (x, [])" unfolding ser_ok_def by blast
  ultimately show ?thesis by (auto simp: ser_enc_def ser_dec_def split_render)
qed

end
