(* ===== verification/Player_Codec.thy ===== *)
theory Player_Codec
  imports Player Serialize
begin

text \<open>
  The contract of the protobuf codec of the player modules, as the locale \<open>player_codec_ok\<close>, the
  reload lemma proved inside it, and a text codec that satisfies the contract: serialisers built
  from those of \<open>Serialize\<close>. It is the codec of the concrete runs.
\<close>

section \<open>The contract\<close>

locale player_codec_ok =
  fixes C :: player_codec
  assumes base_rt: "enc_base C b = Some x \<Longrightarrow> dec_base C x = Some b"
    and bag_rt: "enc_bag C g = Some x \<Longrightarrow> dec_bag C x = Some g"
    and quest_rt: "enc_quest C q = Some x \<Longrightarrow> dec_quest C x = Some q"
    and social_rt: "enc_social C so = Some x \<Longrightarrow> dec_social C x = Some so"
    and mail_rt: "enc_mail C m = Some x \<Longrightarrow> dec_mail C x = Some m"
    and round_rt: "enc_round C r = Some x \<Longrightarrow> dec_round C x = Some r"
    and round_nonempty: "enc_round C r = Some x \<Longrightarrow> RoundId r \<noteq> 0 \<Longrightarrow> x \<noteq> []"
    and rg_rt: "enc_rg C rg = Some x \<Longrightarrow> dec_rg C x = Some rg"
    and gacha_rt: "enc_gacha C ga = Some x \<Longrightarrow> dec_gacha C x = Some ga"

text \<open>The stored form of a player: what the module keys hold after all modules were written.\<close>

definition stored_as :: "player_codec \<Rightarrow> Player \<Rightarrow> (Module \<times> bytes) list \<Rightarrow> bool" where
  "stored_as C p blobs \<longleftrightarrow> (\<forall>m. map_of blobs m = player_Marshal C p m \<and> player_Marshal C p m \<noteq> None)"

text \<open>What a player needs for its stored form to be complete: the modules carry its uid, the bag has
  a capacity, and a round it holds is an open one.\<close>

definition persistent_ok :: "Player \<Rightarrow> bool" where
  "persistent_ok p \<longleftrightarrow>
     bs_Uid (Base p) = UID p \<and> bag_Uid (Bag p) = UID p \<and> qs_Uid (QuestM p) = UID p \<and> so_Uid (SocialM p) = UID p \<and>
     ma_Uid (MailM p) = UID p \<and> rg_Uid (RG p) = UID p \<and> ga_Uid (Gacha p) = UID p \<and> bag_Capacity (Bag p) \<noteq> 0 \<and>
     (\<forall>r. RoundM p = Some r \<longrightarrow> RoundId r \<noteq> 0 \<and> rd_State r = RoundOpen)"

definition offline_copy :: "Player \<Rightarrow> int \<Rightarrow> Player" where
  "offline_copy p now = p\<lparr>Online := False, GateID := [], ConnID := 0, LastActive := now, OfflineAt := 0, busy := False\<rparr>"

context player_codec_ok
begin

lemma FromBlobs_stored:
  assumes st: "stored_as C p blobs" and ok: "persistent_ok p"
  shows "FromBlobs C (UID p) blobs now = Some (offline_copy p now)"
proof -
  have ne: "blobs \<noteq> []" using st [unfolded stored_as_def, rule_format, of ModBase] by auto
  obtain x1 x2 x3 x4 x5 x7 x8 where x: "enc_base C (Base p) = Some x1" "enc_bag C (Bag p) = Some x2"
    "enc_quest C (QuestM p) = Some x3" "enc_social C (SocialM p) = Some x4" "enc_mail C (MailM p) = Some x5"
    "enc_rg C (RG p) = Some x7" "enc_gacha C (Gacha p) = Some x8"
    using st [unfolded stored_as_def, rule_format, of ModBase] st [unfolded stored_as_def, rule_format, of ModBag]
      st [unfolded stored_as_def, rule_format, of ModQuest] st [unfolded stored_as_def, rule_format, of ModSocial]
      st [unfolded stored_as_def, rule_format, of ModMail] st [unfolded stored_as_def, rule_format, of ModRG]
      st [unfolded stored_as_def, rule_format, of ModGacha]
    by (auto simp: player_Marshal_def)
  have b: "map_of blobs ModBase = Some x1" "map_of blobs ModBag = Some x2" "map_of blobs ModQuest = Some x3"
    "map_of blobs ModSocial = Some x4" "map_of blobs ModMail = Some x5" "map_of blobs ModRG = Some x7"
    "map_of blobs ModGacha = Some x8"
    using st x by (auto simp: stored_as_def player_Marshal_def)
  note d = base_rt [OF x(1)] bag_rt [OF x(2)] quest_rt [OF x(3)] social_rt [OF x(4)] mail_rt [OF x(5)]
    rg_rt [OF x(6)] gacha_rt [OF x(7)]
  note parts = ok [unfolded persistent_ok_def]
  show ?thesis
  proof (cases "RoundM p")
    case None
    then have "map_of blobs ModRound = Some []" using st by (simp add: stored_as_def player_Marshal_def)
    then show ?thesis using ne b d parts None
      by (simp add: FromBlobs_def load_mod_def offline_copy_def NewPlayer_def)
  next
    case (Some r)
    then obtain x6 where x6: "enc_round C r = Some x6" "map_of blobs ModRound = Some x6"
      using st [unfolded stored_as_def, rule_format, of ModRound] by (auto simp: player_Marshal_def)
    have "x6 \<noteq> []" "dec_round C x6 = Some r" using round_nonempty [OF x6(1)] round_rt [OF x6(1)] parts Some by auto
    then show ?thesis using ne b d parts Some x6
      by (simp add: FromBlobs_def load_mod_def offline_copy_def NewPlayer_def put_round_def)
  qed
qed

end

section \<open>The modules\<close>

definition ser_money :: "(nat \<times> int) list ser" where
  "ser_money = ser_list (ser_pair ser_nat ser_int)"

definition ser_base :: "PlayerBase ser" where
  "ser_base = ser_map
     (\<lambda>b. (bs_Uid b, Nick b, Avatar b, bs_Level b, Exp b, bs_Currency b, CreatedAt b, LastLogin b, LastLogout b, Power b, GuildId b))
     (\<lambda>(u, n, a, l, e, c, t1, t2, t3, pw, g). \<lparr>bs_Uid = u, Nick = n, Avatar = a, bs_Level = l, Exp = e, bs_Currency = c,
        CreatedAt = t1, LastLogin = t2, LastLogout = t3, Power = pw, GuildId = g\<rparr>)
     (ser_pair ser_nat (ser_pair ser_string (ser_pair ser_string (ser_pair ser_nat (ser_pair ser_nat (ser_pair ser_money
       (ser_pair ser_int (ser_pair ser_int (ser_pair ser_int (ser_pair ser_nat ser_nat))))))))))"

definition ser_item :: "Item ser" where
  "ser_item = ser_map (\<lambda>i. (InstanceId i, TplId i, Count i, ObtainedAt i, Attrs i))
     (\<lambda>(a, b, c, d, e). \<lparr>InstanceId = a, TplId = b, Count = c, ObtainedAt = d, Attrs = e\<rparr>)
     (ser_pair ser_nat (ser_pair ser_nat (ser_pair ser_int (ser_pair ser_int (ser_list (ser_pair ser_string ser_int))))))"

definition ser_bag :: "PlayerBag ser" where
  "ser_bag = ser_map (\<lambda>b. (bag_Uid b, Items b, bag_Capacity b))
     (\<lambda>(a, b, c). \<lparr>bag_Uid = a, Items = b, bag_Capacity = c\<rparr>)
     (ser_pair ser_nat (ser_pair (ser_list ser_item) ser_nat))"

definition ser_quest :: "PlayerQuest ser" where
  "ser_quest = ser_map (\<lambda>q. (qs_Uid q, Quests q, DailyResetAt q)) (\<lambda>(a, b, c). \<lparr>qs_Uid = a, Quests = b, DailyResetAt = c\<rparr>)
     (ser_pair ser_nat (ser_pair (ser_list (ser_map (\<lambda>q. (QuestId q, q_State q, Progress q, Target q, AcceptAt q))
        (\<lambda>(a, b, c, d, e). \<lparr>QuestId = a, q_State = b, Progress = c, Target = d, AcceptAt = e\<rparr>)
        (ser_pair ser_nat (ser_pair ser_nat (ser_pair ser_int (ser_pair ser_int ser_int)))))) ser_int))"

definition ser_social :: "PlayerSocial ser" where
  "ser_social = ser_map (\<lambda>s. (so_Uid s, Friends s, ApplyIn s, Blacklist s, so_GuildId s))
     (\<lambda>(a, b, c, d, e). \<lparr>so_Uid = a, Friends = b, ApplyIn = c, Blacklist = d, so_GuildId = e\<rparr>)
     (ser_pair ser_nat (ser_pair (ser_list ser_nat) (ser_pair (ser_list ser_nat) (ser_pair (ser_list ser_nat) ser_nat))))"

definition ser_letter :: "Mail ser" where
  "ser_letter = ser_map
     (\<lambda>m. (MailId m, ml_Title m, ml_Content m, Sender m, SendAt m, ExpireAt m, ml_Read m, Claimed m, Attachments m))
     (\<lambda>(a, b, c, d, e, f, g, h, i). \<lparr>MailId = a, ml_Title = b, ml_Content = c, Sender = d, SendAt = e, ExpireAt = f,
        ml_Read = g, Claimed = h, Attachments = i\<rparr>)
     (ser_pair ser_nat (ser_pair ser_string (ser_pair ser_string (ser_pair ser_string (ser_pair ser_int (ser_pair ser_int
       (ser_pair ser_bool (ser_pair ser_bool (ser_list (ser_map (\<lambda>a. (at_TplId a, at_Count a))
         (\<lambda>(a, b). \<lparr>at_TplId = a, at_Count = b\<rparr>) (ser_pair ser_nat ser_int)))))))))))"

definition ser_mail :: "PlayerMail ser" where
  "ser_mail = ser_map (\<lambda>m. (ma_Uid m, Mails m)) (\<lambda>(a, b). \<lparr>ma_Uid = a, Mails = b\<rparr>) (ser_pair ser_nat (ser_list ser_letter))"

definition ser_round :: "Round ser" where
  "ser_round = ser_map
     (\<lambda>r. (RoundId r, rd_GameId r, ConfigVersion r, rd_SeedHex r, rd_Currency r, rd_Bet r, TotalWin r, SpinIndex r,
           FreeSpinsLeft r, FreeSpinsTotal r, rd_Multiplier r, rd_State r, rd_CreatedAt r, SettledAt r))
     (\<lambda>(a, b, c, d, e, f, g, h, i, j, k, l, m, n). \<lparr>RoundId = a, rd_GameId = b, ConfigVersion = c, rd_SeedHex = d,
        rd_Currency = e, rd_Bet = f, TotalWin = g, SpinIndex = h, FreeSpinsLeft = i, FreeSpinsTotal = j,
        rd_Multiplier = k, rd_State = l, rd_CreatedAt = m, SettledAt = n\<rparr>)
     (ser_pair ser_nat (ser_pair ser_string (ser_pair ser_string (ser_pair ser_string (ser_pair ser_nat (ser_pair ser_int
       (ser_pair ser_int (ser_pair ser_nat (ser_pair ser_nat (ser_pair ser_nat (ser_pair ser_nat (ser_pair ser_nat
         (ser_pair ser_int ser_int)))))))))))))"

definition ser_rg :: "PlayerRG ser" where
  "ser_rg = ser_map
     (\<lambda>r. (rg_Uid r, DailyBet r, DailyWin r, rg_DayStart r, rg_DailyBetLimit r, rg_DailyLossLimit r, rg_SessionLimit r,
           SessionStart r, ExcludedUntil r, LastNoticeAt r))
     (\<lambda>(a, b, c, d, e, f, g, h, i, j). \<lparr>rg_Uid = a, DailyBet = b, DailyWin = c, rg_DayStart = d, rg_DailyBetLimit = e,
        rg_DailyLossLimit = f, rg_SessionLimit = g, SessionStart = h, ExcludedUntil = i, LastNoticeAt = j\<rparr>)
     (ser_pair ser_nat (ser_pair ser_int (ser_pair ser_int (ser_pair ser_int (ser_pair ser_int (ser_pair ser_int
       (ser_pair ser_int (ser_pair ser_int (ser_pair ser_int ser_int)))))))))"

definition ser_gacha :: "PlayerGacha ser" where
  "ser_gacha = ser_map (\<lambda>g. (ga_Uid g, Pools g)) (\<lambda>(a, b). \<lparr>ga_Uid = a, Pools = b\<rparr>)
     (ser_pair ser_nat (ser_list (ser_map (\<lambda>p. (gp_PoolId p, SinceTop p, SinceHigh p, TotalDraws p))
        (\<lambda>(a, b, c, d). \<lparr>gp_PoolId = a, SinceTop = b, SinceHigh = c, TotalDraws = d\<rparr>)
        (ser_pair ser_string (ser_pair ser_nat (ser_pair ser_nat ser_nat))))))"

lemma ser_ok_modules:
  "ser_ok ser_base" "ser_ok ser_bag" "ser_ok ser_quest" "ser_ok ser_social" "ser_ok ser_mail" "ser_ok ser_round"
  "ser_ok ser_rg" "ser_ok ser_gacha"
  unfolding ser_base_def ser_money_def ser_bag_def ser_item_def ser_quest_def ser_social_def ser_mail_def ser_letter_def
    ser_round_def ser_rg_def ser_gacha_def
  by (intro ser_intros; simp)+

definition text_codec :: player_codec where
  "text_codec = \<lparr>enc_base = ser_enc ser_base, dec_base = ser_dec ser_base, enc_bag = ser_enc ser_bag, dec_bag = ser_dec ser_bag,
     enc_quest = ser_enc ser_quest, dec_quest = ser_dec ser_quest, enc_social = ser_enc ser_social,
     dec_social = ser_dec ser_social, enc_mail = ser_enc ser_mail, dec_mail = ser_dec ser_mail,
     enc_round = ser_enc ser_round, dec_round = ser_dec ser_round, enc_rg = ser_enc ser_rg, dec_rg = ser_dec ser_rg,
     enc_gacha = ser_enc ser_gacha, dec_gacha = ser_dec ser_gacha\<rparr>"

lemma ser_round_nonempty: "ser_enc ser_round r = Some x \<Longrightarrow> x \<noteq> []"
  by (auto simp: ser_enc_def render_ints_def ser_round_def ser_map_def ser_pair_def ser_nat_def ser_int_def)

interpretation text_modules: player_codec_ok text_codec
  by unfold_locales
    (auto simp: text_codec_def dest: ser_roundtrip [OF ser_ok_modules(1)] ser_roundtrip [OF ser_ok_modules(2)]
      ser_roundtrip [OF ser_ok_modules(3)] ser_roundtrip [OF ser_ok_modules(4)] ser_roundtrip [OF ser_ok_modules(5)]
      ser_roundtrip [OF ser_ok_modules(6)] ser_roundtrip [OF ser_ok_modules(7)] ser_roundtrip [OF ser_ok_modules(8)]
      ser_round_nonempty)

section \<open>Properties\<close>

text \<open>C23: Nothing of a player is lost between memory and Redis. If the module keys hold what marshalling all
  modules of a player yields, loading gives back the same player, with the unfinished round if there
  is one and only the connection state reset, for every codec that decodes what it encoded.\<close>

theorem player_reload_roundtrip:
  assumes "player_codec_ok C" and "stored_as C p blobs" and "persistent_ok p"
  shows "FromBlobs C (UID p) blobs now = Some (offline_copy p now)"
  by (rule player_codec_ok.FromBlobs_stored [OF assms])

definition demo_player :: Player where
  "demo_player = set_currency 1 500 (NewPlayer 1031 77)"

definition demo_blobs :: "(Module \<times> bytes) list" where
  "demo_blobs = map (\<lambda>m. (m, the (player_Marshal text_codec demo_player m))) AllModules"

theorem player_reload_roundtrip_witness:
  "FromBlobs text_codec 1031 demo_blobs 99 = Some (offline_copy demo_player 99)"
proof -
  have "player_Marshal text_codec demo_player m \<noteq> None" for m
    by (cases m) (simp_all add: player_Marshal_def text_codec_def ser_enc_def demo_player_def set_currency_def NewPlayer_def)
  moreover have "m \<in> set AllModules" for m by (cases m) (simp_all add: AllModules_def)
  ultimately have "stored_as text_codec demo_player demo_blobs"
    by (simp add: stored_as_def demo_blobs_def map_of_map_restrict)
  moreover have "persistent_ok demo_player"
    by (simp add: persistent_ok_def demo_player_def set_currency_def NewPlayer_def new_rg_def DefaultBagCapacity_def)
  moreover have "UID demo_player = 1031" by (simp add: demo_player_def NewPlayer_def)
  ultimately show ?thesis using player_reload_roundtrip [OF text_modules.player_codec_ok_axioms] by metis
qed

end
