(* ===== verification/Jackpot.thy ===== *)
theory Jackpot
  imports Fencing Gameconf Serialize
begin

text \<open>
  The progressive jackpot, \<^verbatim>\<open>pkg/jackpot/jackpot.go\<close>: contributions, the claim that resets the
  pool and records a pending payout in one script, and the compensation index. The JSON codec of a
  payout is a parameter. A claim makes several calls; what other clients do to the server between
  them, and what the network does to each, are fields of \<open>claim_env\<close>.

  Shown here: the claim script is all-or-nothing, a claim conserves money as long as the pool did not
  shrink between its read and its script, a recorded payout is found by the compensation scan, and
  (a finding) a claim that was overtaken by another one pays out more than the pool held.
\<close>

section \<open>Scripts\<close>

text \<open>\<open>INCRBY\<close>: an error when the value is not an integer or the sum leaves the int64 range.\<close>

definition redis_incrby :: "'r redis \<Rightarrow> string \<Rightarrow> int \<Rightarrow> 'r \<Rightarrow> 'r \<times> int option" where
  "redis_incrby R k d s =
     (case num_or0 R s k of
        None \<Rightarrow> (s, None)
      | Some c \<Rightarrow> if in_i64 (c + d) then (SETKEEP R s k (show_int (c + d)), Some (c + d)) else (s, None))"

definition jp_scriptContribute :: "'r redis \<Rightarrow> string list \<Rightarrow> bytes list \<Rightarrow> 'r \<Rightarrow> 'r \<times> int option" where
  "jp_scriptContribute R K A s =
     (case (lua_nth K 1, lua_nth A 1, lua_nth A 2) of
        (Some k, Some amt, Some seed) \<Rightarrow>
          (let s1 = (if GET R s k = None then SET R s k seed else s) in
           case tonumber amt of None \<Rightarrow> (s1, None) | Some d \<Rightarrow> redis_incrby R k d s1)
      | _ \<Rightarrow> (s, None))"

definition jp_scriptClaim :: "'r redis \<Rightarrow> string list \<Rightarrow> bytes list \<Rightarrow> 'r \<Rightarrow> 'r \<times> int option" where
  "jp_scriptClaim R K A s =
     (case (lua_nth K 1, lua_nth K 2, lua_nth A 1, Option.bind (lua_nth A 2) tonumber, Option.bind (lua_nth A 3) tonumber) of
        (Some k, Some pend, Some blob, Some seed, Some score) \<Rightarrow>
          (case num_or0 R s k of
             None \<Rightarrow> (s, None)
           | Some amount \<Rightarrow>
               if amount \<le> seed then (s, Some 0)
               else (ZADD R (SET R s k (show_int seed)) pend score blob, Some amount))
      | _ \<Rightarrow> (s, None))"

section \<open>The manager\<close>

record Payout =
  po_TxID :: string
  po_PoolID :: string
  po_UID :: nat
  po_Amount :: int
  po_Currency :: nat
  po_RoundID :: nat
  po_CreatedAt :: int
  po_Retries :: int

record payout_codec =
  payout_JSON :: "Payout \<Rightarrow> bytes option"
  payout_parse :: "bytes \<Rightarrow> Payout option"

type_synonym pools = "(string \<times> Jackpot) list"

definition jp_Pool :: "pools \<Rightarrow> string \<Rightarrow> Jackpot option" where
  "jp_Pool pools pid = map_of pools pid"

definition Contribute :: "'r redis \<Rightarrow> keys \<Rightarrow> pools \<Rightarrow> net \<Rightarrow> string \<Rightarrow> int \<Rightarrow> 'r \<Rightarrow> 'r \<times> int result" where
  "Contribute R ks pools n poolID amount s =
     (if amount \<le> 0 then (s, Inr 0)
      else case map_of pools poolID of
             None \<Rightarrow> (s, Inl ErrUnknownPool)
           | Some cfg \<Rightarrow>
               run n (jp_scriptContribute R [keys_Jackpot ks poolID] [show_int amount, show_int (j_Seed cfg)]) s)"

definition jp_Amount :: "'r redis \<Rightarrow> keys \<Rightarrow> pools \<Rightarrow> net \<Rightarrow> string \<Rightarrow> 'r \<Rightarrow> int result" where
  "jp_Amount R ks pools n poolID s =
     (if n \<noteq> Delivered then Inl ErrRedis
      else case GET R s (keys_Jackpot ks poolID) of
             None \<Rightarrow> Inr (case map_of pools poolID of Some cfg \<Rightarrow> j_Seed cfg | None \<Rightarrow> 0)
           | Some v \<Rightarrow> (case tonumber v of None \<Rightarrow> Inl ErrRedis | Some x \<Rightarrow> Inr x))"

record 'r claim_env =
  ce_read :: net
  ce_mid :: "'r \<Rightarrow> 'r"
  ce_script :: net
  ce_after :: "'r \<Rightarrow> 'r"
  ce_back :: net

definition jp_Claim :: "'r redis \<Rightarrow> keys \<Rightarrow> payout_codec \<Rightarrow> pools \<Rightarrow> int \<Rightarrow> 'r claim_env \<Rightarrow> string \<Rightarrow> nat \<Rightarrow> nat \<Rightarrow> string \<Rightarrow>
    'r \<Rightarrow> 'r \<times> Payout result" where
  "jp_Claim R ks J pools now env poolID uid roundID txid s =
     (case map_of pools poolID of
        None \<Rightarrow> (s, Inl ErrUnknownPool)
      | Some cfg \<Rightarrow>
          (case jp_Amount R ks pools (ce_read env) poolID s of
             Inl e \<Rightarrow> (s, Inl e)
           | Inr cur \<Rightarrow>
               if cur \<le> j_Seed cfg then (s, Inl ErrEmpty)
               else
                 let p = \<lparr>po_TxID = txid, po_PoolID = poolID, po_UID = uid, po_Amount = cur, po_Currency = j_Currency cfg,
                          po_RoundID = roundID, po_CreatedAt = now, po_Retries = 0\<rparr> in
                 case payout_JSON J p of
                   None \<Rightarrow> (s, Inl ErrMarshal)
                 | Some blob \<Rightarrow>
                     (case run (ce_script env) (jp_scriptClaim R [keys_Jackpot ks poolID, keys_JackpotPending ks poolID]
                             [blob, show_int (j_Seed cfg), show_int now]) (ce_mid env s) of
                        (s2, Inl e) \<Rightarrow> (s2, Inl e)
                      | (s2, Inr won) \<Rightarrow>
                          if won = 0 then (s2, Inl ErrEmpty)
                          else if won \<noteq> cur \<and> i64 (won - po_Amount p) > 0 then
                            (case Contribute R ks pools (ce_back env) poolID (i64 (won - po_Amount p)) (ce_after env s2) of
                               (s3, Inl e) \<Rightarrow> (s3, Inl ErrRefill)
                             | (s3, Inr _) \<Rightarrow> (s3, Inr p))
                          else (s2, Inr p))))"

definition PendingPayouts :: "'r redis \<Rightarrow> keys \<Rightarrow> payout_codec \<Rightarrow> net \<Rightarrow> string \<Rightarrow> int \<Rightarrow> int \<Rightarrow> 'r \<Rightarrow> 'r \<times> Payout list result" where
  "PendingPayouts R ks J n poolID before limit s =
     (if n \<noteq> Delivered then (s, Inl ErrRedis)
      else
        let lim = (if limit \<le> 0 then 100 else limit);
            members = ZRANGE R s (keys_JackpotPending ks poolID) before (nat lim)
        in (fold (\<lambda>raw s. if payout_parse J raw = None then ZREM R s (keys_JackpotPending ks poolID) raw else s) members s,
            Inr (List.map_filter (payout_parse J) members)))"

text \<open>A plain pipeline is not a transaction: the connection may break after some of its commands.\<close>

definition pipe_prefix :: "nat \<Rightarrow> ('r \<Rightarrow> 'r) list \<Rightarrow> 'r \<Rightarrow> 'r" where
  "pipe_prefix k cmds s = fold (\<lambda>c s. c s) (take k cmds) s"

definition jp_Settle :: "'r redis \<Rightarrow> keys \<Rightarrow> payout_codec \<Rightarrow> nat \<Rightarrow> bool \<Rightarrow> Payout \<Rightarrow> 'r \<Rightarrow> 'r \<times> unit result" where
  "jp_Settle R ks J k answered p s =
     (case payout_JSON J p of
        None \<Rightarrow> (s, Inl ErrMarshal)
      | Some blob \<Rightarrow>
          (pipe_prefix k
             [\<lambda>s. ZREM R s (keys_JackpotPending ks (po_PoolID p)) blob,
              \<lambda>s. HSET R s (keys_JackpotMeta ks (po_PoolID p))
                 [(''last_winner'', show_nat (po_UID p)), (''last_amount'', show_int (po_Amount p)),
                  (''last_at'', show_int (po_CreatedAt p)), (''last_txid'', po_TxID p)]] s,
           if answered \<and> k \<ge> 2 then Inr () else Inl ErrRedis))"

definition jp_Requeue :: "'r redis \<Rightarrow> keys \<Rightarrow> payout_codec \<Rightarrow> int \<Rightarrow> nat \<Rightarrow> bool \<Rightarrow> Payout \<Rightarrow> 'r \<Rightarrow> 'r \<times> unit result" where
  "jp_Requeue R ks J now k answered p s =
     (case (payout_JSON J p, payout_JSON J (p\<lparr>po_Retries := i64 (po_Retries p + 1)\<rparr>)) of
        (Some old, Some blob) \<Rightarrow>
          (pipe_prefix k
             [\<lambda>s. ZREM R s (keys_JackpotPending ks (po_PoolID p)) old,
              \<lambda>s. ZADD R s (keys_JackpotPending ks (po_PoolID p)) now blob] s,
           if answered \<and> k \<ge> 2 then Inr () else Inl ErrRedis)
      | _ \<Rightarrow> (s, Inl ErrMarshal))"

definition LastWinner :: "'r redis \<Rightarrow> keys \<Rightarrow> string \<Rightarrow> 'r \<Rightarrow> nat \<times> int \<times> int" where
  "LastWinner R ks poolID s =
     (let field = (\<lambda>f. case HGET R s (keys_JackpotMeta ks poolID) f of
                         None \<Rightarrow> 0 | Some v \<Rightarrow> (case tonumber v of None \<Rightarrow> 0 | Some x \<Rightarrow> x))
      in (nat (field ''last_winner'' mod 2 ^ 64), field ''last_amount'', field ''last_at''))"

definition ContributionOf :: "int \<Rightarrow> int \<Rightarrow> int" where
  "ContributionOf bet bp = (if bet \<le> 0 \<or> bp \<le> 0 then 0 else go_div (i64 (bet * bp)) 10000)"

section \<open>What the scripts do\<close>

lemma scriptClaim_eq:
  "jp_scriptClaim R [k, pend] [blob, show_int seed, show_int now] s =
     (case num_or0 R s k of
        None \<Rightarrow> (s, None)
      | Some v \<Rightarrow> if v \<le> seed then (s, Some 0) else (ZADD R (SET R s k (show_int seed)) pend now blob, Some v))"
  by (simp add: jp_scriptClaim_def)

context redis_api
begin

lemma Contribute_ok:
  assumes "Contribute R ks pools n pid d s = (s', Inr v)" "0 < d" "num_or0 R s (keys_Jackpot ks pid) = Some c"
    and "GET R s (keys_Jackpot ks pid) \<noteq> None"
  shows "num_or0 R s' (keys_Jackpot ks pid) = Some (c + d) \<and> (\<forall>k. k \<noteq> keys_Jackpot ks pid \<longrightarrow> view R s' k = view R s k)"
proof -
  let ?k = "keys_Jackpot ks pid"
  obtain cfg where "map_of pools pid = Some cfg" using assms(1,2) by (auto simp: Contribute_def split: option.splits)
  then have "jp_scriptContribute R [?k] [show_int d, show_int (j_Seed cfg)] s = (s', Some v)"
    using assms(1,2) by (simp add: Contribute_def run_Inr)
  then have "redis_incrby R ?k d s = (s', Some v)" using assms(4) by (simp add: jp_scriptContribute_def)
  then have "s' = SETKEEP R s ?k (show_int (c + d))"
    using assms(3) by (auto simp: redis_incrby_def split: if_splits)
  then show ?thesis by (simp add: num_or0_def redis_reads frame_setkeep)
qed

text \<open>The claim as a whole, when it reports a payout.\<close>

lemma Claim_success:
  assumes c: "jp_Claim R ks J pools now env pid uid rid txid s = (s', Inr p)"
    and cfg: "map_of pools pid = Some cfg"
    and v: "num_or0 R (ce_mid env s) (keys_Jackpot ks pid) = Some v"
    and quiet: "\<And>x. view R (ce_after env x) (keys_Jackpot ks pid) = view R x (keys_Jackpot ks pid)"
      "\<And>x. view R (ce_after env x) (keys_JackpotPending ks pid) = view R x (keys_JackpotPending ks pid)"
  shows "jp_Amount R ks pools (ce_read env) pid s = Inr (po_Amount p) \<and> j_Seed cfg < v
    \<and> num_or0 R s' (keys_Jackpot ks pid) = Some (j_Seed cfg + max 0 (i64 (v - po_Amount p)))
    \<and> (\<exists>blob. payout_JSON J p = Some blob \<and> ZSCORE R s' (keys_JackpotPending ks pid) blob = Some now)
    \<and> po_TxID p = txid \<and> po_UID p = uid \<and> po_PoolID p = pid"
proof -
  let ?k = "keys_Jackpot ks pid" let ?pd = "keys_JackpotPending ks pid" let ?seed = "j_Seed cfg"
  obtain cur where cur: "jp_Amount R ks pools (ce_read env) pid s = Inr cur" "cur > ?seed"
    using c cfg by (auto simp: jp_Claim_def split: sum.splits if_splits)
  define q where "q = \<lparr>po_TxID = txid, po_PoolID = pid, po_UID = uid, po_Amount = cur, po_Currency = j_Currency cfg,
     po_RoundID = rid, po_CreatedAt = now, po_Retries = 0\<rparr>"
  obtain blob where blob: "payout_JSON J q = Some blob"
    using c cfg cur by (auto simp: jp_Claim_def q_def Let_def split: option.splits)
  define s2 where "s2 = ZADD R (SET R (ce_mid env s) ?k (show_int ?seed)) ?pd now blob"
  have ne: "?k \<noteq> ?pd" by (simp add: key_eqs)
  have script: "ce_script env = Delivered" "v > ?seed"
    and rest: "(if v \<noteq> cur \<and> i64 (v - cur) > 0 then
        (case Contribute R ks pools (ce_back env) pid (i64 (v - cur)) (ce_after env s2) of
           (s3, Inl e) \<Rightarrow> (s3, Inl ErrRefill) | (s3, Inr _) \<Rightarrow> (s3, Inr q)) else (s2, Inr q)) = (s', Inr p)"
    using c cfg cur blob v
    by (cases "ce_script env"; auto simp: jp_Claim_def q_def s2_def scriptClaim_eq run_def Let_def split: if_splits)+
  have two: "num_or0 R s2 ?k = Some ?seed" "GET R s2 ?k \<noteq> None" "ZSCORE R s2 ?pd blob = Some now"
    using ne by (simp_all add: s2_def num_or0_def redis_reads)
  show ?thesis
  proof (cases "v \<noteq> cur \<and> i64 (v - cur) > 0")
    case False
    moreover have "i64 0 = 0" by (simp add: i64_def)
    ultimately have "s' = s2" "p = q" "i64 (v - cur) \<le> 0" using rest by auto
    then show ?thesis using cur blob two script by (auto simp: q_def)
  next
    case True
    then obtain x where b: "Contribute R ks pools (ce_back env) pid (i64 (v - cur)) (ce_after env s2) = (s', Inr x)" and p: "p = q"
      using rest by (auto split: prod.splits sum.splits)
    have after: "num_or0 R (ce_after env s2) ?k = Some ?seed" "GET R (ce_after env s2) ?k \<noteq> None"
      "ZSCORE R (ce_after env s2) ?pd blob = Some now"
      using two quiet [of s2] by (simp_all add: view_def num_or0_def)
    have "num_or0 R s' ?k = Some (?seed + i64 (v - cur))" "view R s' ?pd = view R (ce_after env s2) ?pd"
      using Contribute_ok [OF b _ after(1,2)] True ne by auto
    then show ?thesis using cur blob after script True p by (auto simp: q_def view_def)
  qed
qed

end

section \<open>Properties\<close>

definition payout_codec_ok :: "payout_codec \<Rightarrow> bool" where
  "payout_codec_ok J \<longleftrightarrow> (\<forall>p b. payout_JSON J p = Some b \<longrightarrow> payout_parse J b = Some p)"

text \<open>A jackpot claim conserves money. When a claim reports a payout and the pool did not shrink between
  the claim's read and its script (contributions may have come in), what is paid plus what is in
  the pool afterwards is exactly what was in the pool at the claim plus the new seed, and the
  payout is recorded in the pending index.\<close>

theorem jackpot_claim_conserves_money:
  assumes "redis_api R" and "jp_Claim R ks J pools now env pid uid rid txid s = (s', Inr p)"
    and "map_of pools pid = Some cfg" and "num_or0 R (ce_mid env s) (keys_Jackpot ks pid) = Some v"
    and "\<forall>x. view R (ce_after env x) (keys_Jackpot ks pid) = view R x (keys_Jackpot ks pid)
      \<and> view R (ce_after env x) (keys_JackpotPending ks pid) = view R x (keys_JackpotPending ks pid)"
    and "po_Amount p \<le> v" and "0 \<le> po_Amount p" and "v < 2 ^ 63"
  shows "\<exists>w blob. num_or0 R s' (keys_Jackpot ks pid) = Some w \<and> po_Amount p + w = v + j_Seed cfg
    \<and> payout_JSON J p = Some blob \<and> ZSCORE R s' (keys_JackpotPending ks pid) blob = Some now
    \<and> po_TxID p = txid \<and> po_UID p = uid"
proof -
  have "i64 (v - po_Amount p) = v - po_Amount p" using assms(6-8) by (intro i64_id) (auto simp: in_i64_def)
  with redis_api.Claim_success [OF assms(1-4)] assms(5,6) show ?thesis by auto
qed

definition ser_payout :: "Payout ser" where
  "ser_payout = ser_map
     (\<lambda>p. (po_TxID p, po_PoolID p, po_UID p, po_Amount p, po_Currency p, po_RoundID p, po_CreatedAt p, po_Retries p))
     (\<lambda>(a, b, c, d, e, f, g, h). \<lparr>po_TxID = a, po_PoolID = b, po_UID = c, po_Amount = d, po_Currency = e, po_RoundID = f,
        po_CreatedAt = g, po_Retries = h\<rparr>)
     (ser_pair ser_string (ser_pair ser_string (ser_pair ser_nat (ser_pair ser_int (ser_pair ser_nat (ser_pair ser_nat
       (ser_pair ser_int ser_int)))))))"

definition text_payouts :: payout_codec where
  "text_payouts = \<lparr>payout_JSON = ser_enc ser_payout, payout_parse = ser_dec ser_payout\<rparr>"

lemma text_payouts_ok: "payout_codec_ok text_payouts"
proof -
  have "ser_ok ser_payout" unfolding ser_payout_def by (intro ser_intros; simp)
  from ser_roundtrip [OF this] show ?thesis by (simp add: payout_codec_ok_def text_payouts_def)
qed

definition grand_pools :: pools where
  "grand_pools = [(''grand'', \<lparr>j_ID = ''grand'', j_Currency = 1, j_Seed = 100000\<rparr>)]"

definition grand_state :: mem where
  "grand_state = mem_put mem_empty (keys_Jackpot lobby_keys ''grand'') (show_int 150000)"

text \<open>Between the read and the script, another client contributes 500.\<close>

definition contributing_env :: "mem claim_env" where
  "contributing_env = \<lparr>ce_read = Delivered,
     ce_mid = (\<lambda>s. mem_put s (keys_Jackpot lobby_keys ''grand'') (show_int 150500)),
     ce_script = Delivered, ce_after = (\<lambda>s. s), ce_back = Delivered\<rparr>"

definition demo_payout :: "string \<Rightarrow> nat \<Rightarrow> Payout" where
  "demo_payout txid uid = \<lparr>po_TxID = txid, po_PoolID = ''grand'', po_UID = uid, po_Amount = 150000, po_Currency = 1,
     po_RoundID = 9, po_CreatedAt = 1000, po_Retries = 0\<rparr>"

lemma grand_reads:
  "num_or0 mem_redis (mem_put s k (show_int x)) k = Some x"
  "jp_Amount mem_redis lobby_keys grand_pools Delivered ''grand'' grand_state = Inr 150000"
  by (simp_all add: num_or0_def mem_put_def jp_Amount_def grand_state_def)

lemma text_payouts_enc: obtains b where "payout_JSON text_payouts p = Some b"
  by (simp add: text_payouts_def ser_enc_def)

lemma grand_cfg: "map_of grand_pools ''grand'' = Some \<lparr>j_ID = ''grand'', j_Currency = 1, j_Seed = 100000\<rparr>"
  by (simp add: grand_pools_def)

definition grand_claimed :: mem where
  "grand_claimed = ZADD mem_redis
     (SET mem_redis (mem_put grand_state (keys_Jackpot lobby_keys ''grand'') (show_int 150500))
        (keys_Jackpot lobby_keys ''grand'') (show_int 100000))
     (keys_JackpotPending lobby_keys ''grand'') 1000 (the (payout_JSON text_payouts (demo_payout ''t1'' 5)))"

definition grand_after :: mem where
  "grand_after = mem_put grand_claimed (keys_Jackpot lobby_keys ''grand'') (show_int 100500)"

lemma contributing_claim:
  "jp_Claim mem_redis lobby_keys text_payouts grand_pools 1000 contributing_env ''grand'' 5 9 ''t1'' grand_state
     = (grand_after, Inr (demo_payout ''t1'' 5))"
proof -
  let ?k = "keys_Jackpot lobby_keys ''grand''"
  have g: "strs grand_claimed ?k = Some (show_int 100000)" by (simp add: grand_claimed_def mem_redis_def mem_put_def)
  have c: "Contribute mem_redis lobby_keys grand_pools Delivered ''grand'' 500 grand_claimed = (grand_after, Inr 100500)"
    using g by (simp add: Contribute_def grand_cfg run_def jp_scriptContribute_def redis_incrby_def num_or0_def
        in_i64_def numeral_2_eq_2 grand_after_def)
  have s: "run Delivered (jp_scriptClaim mem_redis [?k, keys_JackpotPending lobby_keys ''grand'']
      [the (payout_JSON text_payouts (demo_payout ''t1'' 5)), show_int 100000, show_int 1000])
      (mem_put grand_state ?k (show_int 150500)) = (grand_claimed, Inr 150500)"
    by (simp add: run_def scriptClaim_eq grand_reads grand_claimed_def)
  obtain b where b: "payout_JSON text_payouts (demo_payout ''t1'' 5) = Some b" by (rule text_payouts_enc)
  have "i64 (150500 - 150000) = 500" by (simp add: i64_def)
  then show ?thesis using c s [unfolded b option.sel] b [unfolded demo_payout_def]
    by (simp add: jp_Claim_def grand_cfg grand_reads contributing_env_def demo_payout_def Let_def)
qed

theorem jackpot_claim_conserves_money_witness:
  "\<exists>w. jp_Claim mem_redis lobby_keys text_payouts grand_pools 1000 contributing_env ''grand'' 5 9 ''t1'' grand_state
     = (grand_after, Inr (demo_payout ''t1'' 5))
   \<and> num_or0 mem_redis grand_after (keys_Jackpot lobby_keys ''grand'') = Some w \<and> 150000 + w = 150500 + 100000"
  using jackpot_claim_conserves_money [OF mem_server.redis_api_axioms contributing_claim grand_cfg, of 150500] contributing_claim
  by (auto simp: contributing_env_def demo_payout_def grand_reads)

text \<open>A payout that was claimed is found again: after a successful claim, a compensation scan up to the claim
  time or later returns the payout, unless the scan's limit is used up, for any codec that
  decodes what it encoded.\<close>

theorem claimed_payout_is_recoverable:
  assumes "redis_api R" and "payout_codec_ok J"
    and "jp_Claim R ks J pools now env pid uid rid txid s = (s', Inr p)"
    and "map_of pools pid = Some cfg" and "num_or0 R (ce_mid env s) (keys_Jackpot ks pid) = Some v"
    and "\<forall>x. view R (ce_after env x) (keys_Jackpot ks pid) = view R x (keys_Jackpot ks pid)
      \<and> view R (ce_after env x) (keys_JackpotPending ks pid) = view R x (keys_JackpotPending ks pid)"
    and "0 \<le> now" and "now \<le> before" and "0 < cap"
    and "length (ZRANGE R s' (keys_JackpotPending ks pid) before (nat cap)) < nat cap"
  shows "\<exists>s'' ps. PendingPayouts R ks J Delivered pid before cap s' = (s'', Inr ps) \<and> p \<in> set ps"
proof -
  obtain blob where b: "payout_JSON J p = Some blob" "ZSCORE R s' (keys_JackpotPending ks pid) blob = Some now"
    using redis_api.Claim_success [OF assms(1,3-5)] assms(6) by blast
  have "blob \<in> set (ZRANGE R s' (keys_JackpotPending ks pid) before (nat cap))"
    by (rule redis_api.zrange_all [OF assms(1,10) b(2) assms(7,8)])
  moreover have "payout_parse J blob = Some p" using assms(2) b(1) by (simp add: payout_codec_ok_def)
  ultimately show ?thesis using assms(9) by (force simp: PendingPayouts_def Let_def map_filter_def image_iff)
qed

lemma mem_zrange_length: "length (ZRANGE mem_redis s k mx n) \<le> length (zsets s k)"
proof -
  have "length (filter P (sort_key snd (AList.clearjunk (zsets s k)))) \<le> length (zsets s k)" for P
    using length_filter_le [of P "sort_key snd (AList.clearjunk (zsets s k))"] length_clearjunk [of "zsets s k"] by simp
  then show ?thesis by (simp add: mem_redis_def) (meson min.coboundedI1)
qed

theorem claimed_payout_is_recoverable_witness:
  "\<exists>s'' ps. PendingPayouts mem_redis lobby_keys text_payouts Delivered ''grand'' 2000 100 grand_after = (s'', Inr ps)
     \<and> demo_payout ''t1'' 5 \<in> set ps"
proof -
  have "length (zsets grand_after (keys_JackpotPending lobby_keys ''grand'')) = 1"
    by (simp add: grand_after_def grand_claimed_def mem_redis_def mem_put_def grand_state_def mem_empty_def)
  then have "length (ZRANGE mem_redis grand_after (keys_JackpotPending lobby_keys ''grand'') 2000 (nat 100)) < nat 100"
    using mem_zrange_length [of grand_after "keys_JackpotPending lobby_keys ''grand''" 2000 "nat 100"] by linarith
  then show ?thesis
    using claimed_payout_is_recoverable [OF mem_server.redis_api_axioms text_payouts_ok contributing_claim grand_cfg, of 150500 2000 100]
    by (auto simp: contributing_env_def grand_reads)
qed

definition first_winner_env :: "mem claim_env" where
  "first_winner_env = \<lparr>ce_read = Delivered, ce_mid = (\<lambda>s. s), ce_script = Delivered, ce_after = (\<lambda>s. s), ce_back = Delivered\<rparr>"

definition overtaken_env :: "mem claim_env" where
  "overtaken_env = first_winner_env\<lparr>ce_mid :=
     (\<lambda>s. fst (Contribute mem_redis lobby_keys grand_pools Delivered ''grand'' 1
        (fst (jp_Claim mem_redis lobby_keys text_payouts grand_pools 1000 first_winner_env ''grand'' 5 9 ''t1'' s))))\<rparr>"

text \<open>C24: A claim can pay out more than the pool holds. Two winners of the same pool: the second reads the pool,
  then the first claims it and one unit is contributed, then the second's script runs. It finds
  100001, resets the pool, and still pays the 150000 it had read; the first payout of 150000 is
  recorded as well, so 300000 are owed although the pool only ever held 150001.\<close>

theorem overtaken_claim_overpays:
  "num_or0 mem_redis (ce_mid overtaken_env grand_state) (keys_Jackpot lobby_keys ''grand'') = Some 100001
   \<and> (\<exists>s' p. jp_Claim mem_redis lobby_keys text_payouts grand_pools 1000 overtaken_env ''grand'' 6 9 ''t2'' grand_state = (s', Inr p)
        \<and> po_Amount p = 150000
        \<and> num_or0 mem_redis s' (keys_Jackpot lobby_keys ''grand'') = Some 100000
        \<and> ZSCORE mem_redis s' (keys_JackpotPending lobby_keys ''grand'') (the (payout_JSON text_payouts (demo_payout ''t1'' 5))) = Some 1000
        \<and> ZSCORE mem_redis s' (keys_JackpotPending lobby_keys ''grand'') (the (payout_JSON text_payouts (demo_payout ''t2'' 6))) = Some 1000)"
proof -
  let ?k = "keys_Jackpot lobby_keys ''grand''" let ?pd = "keys_JackpotPending lobby_keys ''grand''"
  obtain b1 where b1: "payout_JSON text_payouts (demo_payout ''t1'' 5) = Some b1" by (rule text_payouts_enc)
  obtain b2 where b2: "payout_JSON text_payouts (demo_payout ''t2'' 6) = Some b2" by (rule text_payouts_enc)
  define s1 where "s1 = ZADD mem_redis (mem_put grand_state ?k (show_int 100000)) ?pd 1000 b1"
  define s2 where "s2 = mem_put s1 ?k (show_int 100001)"
  define s3 where "s3 = ZADD mem_redis (mem_put s2 ?k (show_int 100000)) ?pd 1000 b2"
  have g0: "num_or0 mem_redis grand_state ?k = Some 150000" by (simp add: grand_state_def grand_reads)
  have g1: "strs s1 ?k = Some (show_int 100000)" by (simp add: s1_def mem_redis_def mem_put_def)
  have first: "jp_Claim mem_redis lobby_keys text_payouts grand_pools 1000 first_winner_env ''grand'' 5 9 ''t1'' grand_state
      = (s1, Inr (demo_payout ''t1'' 5))"
    using b1 [unfolded demo_payout_def] g0
    by (simp add: jp_Claim_def grand_cfg grand_reads first_winner_env_def demo_payout_def run_def scriptClaim_eq s1_def Let_def)
  have mid: "ce_mid overtaken_env grand_state = s2"
    using g1 by (simp add: overtaken_env_def first Contribute_def grand_cfg run_def jp_scriptContribute_def redis_incrby_def
        num_or0_def in_i64_def numeral_2_eq_2 s2_def)
  have g2: "num_or0 mem_redis s2 ?k = Some 100001" by (simp add: s2_def grand_reads)
  have second: "jp_Claim mem_redis lobby_keys text_payouts grand_pools 1000 overtaken_env ''grand'' 6 9 ''t2'' grand_state
      = (s3, Inr (demo_payout ''t2'' 6))"
  proof -
    have "ce_read overtaken_env = Delivered" "ce_script overtaken_env = Delivered"
      by (simp_all add: overtaken_env_def first_winner_env_def)
    moreover have "i64 (100001 - 150000) = - 49999" by (simp add: i64_def)
    ultimately show ?thesis using b2 [unfolded demo_payout_def] g2
      by (simp add: jp_Claim_def grand_cfg grand_reads mid demo_payout_def run_def scriptClaim_eq s3_def Let_def)
  qed
  have g3: "num_or0 mem_redis s3 ?k = Some 100000" by (simp add: s3_def num_or0_def mem_redis_def mem_put_def)
  have "payout_parse text_payouts b1 = Some (demo_payout ''t1'' 5)" "payout_parse text_payouts b2 = Some (demo_payout ''t2'' 6)"
    using text_payouts_ok b1 b2 by (simp_all add: payout_codec_ok_def)
  then have neb: "b1 \<noteq> b2" by (auto simp: demo_payout_def)
  have zp: "zsets (mem_put x a b) = zsets x" for x a b by (simp add: mem_put_def)
  have za: "map_of (zsets (ZADD mem_redis x k sc m) k) = (map_of (zsets x k))(m \<mapsto> sc)" for x k sc m
    using mem_server.zscore_zadd [of x k sc m] by simp
  have z: "map_of (zsets s3 ?pd) b2 = Some 1000" "map_of (zsets s3 ?pd) b1 = Some 1000"
    using neb by (simp_all add: s3_def s2_def s1_def zp za)
  show ?thesis using mid g2 second g3 z b1 b2 by (auto simp: demo_payout_def [of "''t2''" 6, THEN arg_cong, of po_Amount])
qed

end
