(* ===== verification/Xtx.thy ===== *)
theory Xtx
  imports Jackpot Player
begin

text \<open>
  Transfers between shards, \<^verbatim>\<open>pkg/xtx/xtx.go\<close>: the sender's script that deducts, records and indexes
  a transfer at once, the receiver's script that marks and credits at once, completion, and the
  scan that finds transfers whose job got lost. The JSON codec of a record is a parameter.

  Shown here: a transfer begins completely or not at all, one that has begun is found by the scan
  until it completes, and however often a transfer is delivered, by whom and over whatever network,
  it is credited at most once.
\<close>

section \<open>Records\<close>

datatype tx_state = StateNone | StatePending | StateCompleted

record TxRecord =
  tx_TxID :: string
  tx_FromUID :: nat
  tx_ToUID :: nat
  tx_FromShard :: nat
  tx_ToShard :: nat
  tx_Items :: "Attachment list"
  tx_CurrType :: nat
  tx_CurrDelta :: int
  tx_Reason :: string
  tx_State :: tx_state
  tx_CreatedAt :: int
  tx_DoneAt :: int
  tx_Retries :: int
  tx_Extra :: "(string \<times> string) list"

record tx_codec =
  tx_JSON :: "TxRecord \<Rightarrow> bytes option"
  tx_parse :: "bytes \<Rightarrow> TxRecord option"

section \<open>Scripts\<close>

definition tx_scriptBegin :: "'r redis \<Rightarrow> string list \<Rightarrow> bytes list \<Rightarrow> 'r \<Rightarrow> 'r \<times> int option" where
  "tx_scriptBegin R K A s =
     (case (lua_nth K 2, lua_nth K 3, lua_nth A 2, Option.bind (lua_nth A 3) tonumber, Option.bind (lua_nth A 4) tonumber) of
        (Some tk, Some pk, Some blob, Some score, Some ttl) \<Rightarrow>
          if GET R s tk \<noteq> None then (s, Some 2)
          else (case epoch_stale R s K A of
                  None \<Rightarrow> (s, None)
                | Some True \<Rightarrow> (s, Some 0)
                | Some False \<Rightarrow>
                    let s1 = (if ttl > 0 then SETEX R s tk blob ttl else SET R s tk blob) in
                    (case set_loop R K A (\<lambda>i. i + 1) [4..<Suc (length K)] (ZADD R s1 pk score blob) of
                       (s2, True) \<Rightarrow> (s2, Some 1)
                     | (s2, False) \<Rightarrow> (s2, None)))
      | _ \<Rightarrow> (s, None))"

definition tx_scriptClaim :: "'r redis \<Rightarrow> string list \<Rightarrow> bytes list \<Rightarrow> 'r \<Rightarrow> 'r \<times> int option" where
  "tx_scriptClaim R K A s =
     (case (lua_nth K 2, lua_nth A 1, Option.bind (lua_nth A 2) tonumber) of
        (Some dk, Some mark, Some ttl) \<Rightarrow>
          if GET R s dk \<noteq> None then (s, Some 2)
          else
            let s1 = SETEX R s dk mark ttl in
            (case epoch_stale R s1 K A of
               None \<Rightarrow> (s1, None)
             | Some True \<Rightarrow> (DEL R s1 dk, Some 0)
             | Some False \<Rightarrow>
                 (case set_loop R K A (\<lambda>i. i) [3..<Suc (length K)] s1 of
                    (s2, True) \<Rightarrow> (s2, Some 1)
                  | (s2, False) \<Rightarrow> (s2, None)))
      | _ \<Rightarrow> (s, None))"

definition tx_scriptComplete :: "'r redis \<Rightarrow> string list \<Rightarrow> bytes list \<Rightarrow> 'r \<Rightarrow> 'r \<times> int option" where
  "tx_scriptComplete R K A s =
     (case (lua_nth K 1, lua_nth K 2, lua_nth A 1, lua_nth A 2) of
        (Some tk, Some pk, Some new, Some old) \<Rightarrow>
          let s1 = (case GET R s tk of Some cur \<Rightarrow> ZREM R s pk cur | None \<Rightarrow> s);
              s2 = ZREM R s1 pk old
          in (SETKEEP R s2 tk new, Some 1)
      | _ \<Rightarrow> (s, None))"

section \<open>The manager\<close>

text \<open>Times to live in seconds.\<close>

record tx_manager =
  tm_recTTL :: int
  tm_doneTTL :: int

definition tx_NewManager :: "int \<Rightarrow> int \<Rightarrow> tx_manager" where
  "tx_NewManager recTTL doneTTL =
     \<lparr>tm_recTTL = (if recTTL \<le> 0 then 7 * 24 * 3600 else recTTL),
      tm_doneTTL = (if doneTTL \<le> 0 then 30 * 24 * 3600 else doneTTL)\<rparr>"

text \<open>The defaults \<open>Begin\<close> fills in.\<close>

definition tx_fill :: "int \<Rightarrow> TxRecord \<Rightarrow> TxRecord" where
  "tx_fill now rec =
     (let r1 = (if tx_State rec = StateNone then rec\<lparr>tx_State := StatePending\<rparr> else rec)
      in if tx_CreatedAt r1 = 0 then r1\<lparr>tx_CreatedAt := now\<rparr> else r1)"

definition tx_Begin :: "'r redis \<Rightarrow> keys \<Rightarrow> tx_codec \<Rightarrow> tx_manager \<Rightarrow> net \<Rightarrow> int \<Rightarrow> int \<Rightarrow> TxRecord \<Rightarrow> (string \<times> bytes) list \<Rightarrow> 'r \<Rightarrow>
    'r \<times> unit result" where
  "tx_Begin R ks J m n now epoch rec0 kv s =
     (if tx_TxID rec0 = [] then (s, Inl ErrEmptyTxID)
      else
        let rec = tx_fill now rec0 in
        case tx_JSON J rec of
          None \<Rightarrow> (s, Inl ErrMarshal)
        | Some blob \<Rightarrow>
            (case run n (tx_scriptBegin R
                     ([keys_Epoch ks (tx_FromShard rec), keys_Tx ks (tx_FromShard rec) (tx_TxID rec), keys_TxPending ks (tx_FromShard rec)]
                        @ map fst kv)
                     ([show_int epoch, blob, show_int (tx_CreatedAt rec), show_int (tm_recTTL m)] @ map snd kv)) s of
               (s', Inl e) \<Rightarrow> (s', Inl e)
             | (s', Inr c) \<Rightarrow> (s', if c = 1 then Inr () else if c = 2 then Inl ErrDuplicate else Inl ErrFenced)))"

definition tx_Claim :: "'r redis \<Rightarrow> keys \<Rightarrow> tx_manager \<Rightarrow> net \<Rightarrow> int \<Rightarrow> TxRecord \<Rightarrow> (string \<times> bytes) list \<Rightarrow> 'r \<Rightarrow> 'r \<times> bool result" where
  "tx_Claim R ks m n epoch rec kv s =
     (case run n (tx_scriptClaim R
              ([keys_Epoch ks (tx_ToShard rec), keys_TxDone ks (tx_ToShard rec) (tx_TxID rec)] @ map fst kv)
              ([show_int epoch, show_int (tm_doneTTL m)] @ map snd kv)) s of
        (s', Inl e) \<Rightarrow> (s', Inl e)
      | (s', Inr c) \<Rightarrow> (s', if c = 1 then Inr True else if c = 2 then Inr False else Inl ErrFenced))"

definition tx_Complete :: "'r redis \<Rightarrow> keys \<Rightarrow> tx_codec \<Rightarrow> net \<Rightarrow> int \<Rightarrow> TxRecord \<Rightarrow> 'r \<Rightarrow> 'r \<times> unit result" where
  "tx_Complete R ks J n now rec s =
     (case (tx_JSON J rec, tx_JSON J (rec\<lparr>tx_State := StateCompleted, tx_DoneAt := now\<rparr>)) of
        (Some old, Some blob) \<Rightarrow>
          (case run n (tx_scriptComplete R [keys_Tx ks (tx_FromShard rec) (tx_TxID rec), keys_TxPending ks (tx_FromShard rec)] [blob, old]) s of
             (s', Inl e) \<Rightarrow> (s', Inl e)
           | (s', Inr _) \<Rightarrow> (s', Inr ()))
      | _ \<Rightarrow> (s, Inl ErrMarshal))"

definition tx_Get :: "'r redis \<Rightarrow> keys \<Rightarrow> tx_codec \<Rightarrow> net \<Rightarrow> nat \<Rightarrow> string \<Rightarrow> 'r \<Rightarrow> TxRecord option result" where
  "tx_Get R ks J n fromShard txid s =
     (if n \<noteq> Delivered then Inl ErrRedis
      else case GET R s (keys_Tx ks fromShard txid) of
             None \<Rightarrow> Inr None
           | Some raw \<Rightarrow> (case tx_parse J raw of None \<Rightarrow> Inl ErrMarshal | Some rec \<Rightarrow> Inr (Some rec)))"

definition ScanPending :: "'r redis \<Rightarrow> keys \<Rightarrow> tx_codec \<Rightarrow> net \<Rightarrow> nat \<Rightarrow> int \<Rightarrow> int \<Rightarrow> 'r \<Rightarrow> 'r \<times> TxRecord list result" where
  "ScanPending R ks J n shard before limit s =
     (if n \<noteq> Delivered then (s, Inl ErrRedis)
      else
        let lim = (if limit \<le> 0 then 200 else limit);
            members = ZRANGE R s (keys_TxPending ks shard) before (nat lim)
        in (fold (\<lambda>raw s. if tx_parse J raw = None then ZREM R s (keys_TxPending ks shard) raw else s) members s,
            Inr (List.map_filter (tx_parse J) members)))"

text \<open>The pipeline of \<open>Requeue\<close> may break after any of its commands.\<close>

definition tx_Requeue :: "'r redis \<Rightarrow> keys \<Rightarrow> tx_codec \<Rightarrow> int \<Rightarrow> nat \<Rightarrow> bool \<Rightarrow> TxRecord \<Rightarrow> 'r \<Rightarrow> 'r \<times> unit result" where
  "tx_Requeue R ks J now k answered rec s =
     (case (tx_JSON J rec, tx_JSON J (rec\<lparr>tx_Retries := i64 (tx_Retries rec + 1)\<rparr>)) of
        (Some old, Some blob) \<Rightarrow>
          (pipe_prefix k
             [\<lambda>s. ZREM R s (keys_TxPending ks (tx_FromShard rec)) old,
              \<lambda>s. ZADD R s (keys_TxPending ks (tx_FromShard rec)) now blob,
              \<lambda>s. SETKEEP R s (keys_Tx ks (tx_FromShard rec) (tx_TxID rec)) blob] s,
           if answered \<and> k \<ge> 3 then Inr () else Inl ErrRedis)
      | _ \<Rightarrow> (s, Inl ErrMarshal))"

definition NewTxID :: "nat \<Rightarrow> string" where
  "NewTxID snowflake = ''tx'' @ show_nat snowflake"

section \<open>What the scripts do\<close>

definition tx_begun :: "'r redis \<Rightarrow> string \<Rightarrow> string \<Rightarrow> bytes \<Rightarrow> int \<Rightarrow> int \<Rightarrow> (string \<times> bytes) list \<Rightarrow> 'r \<Rightarrow> 'r" where
  "tx_begun R tk pk blob score ttl kv s =
     set_all R kv (ZADD R (if ttl > 0 then SETEX R s tk blob ttl else SET R s tk blob) pk score blob)"

lemma tx_scriptBegin_kv:
  "tx_scriptBegin R ([ek, tk, pk] @ map fst kv) ([show_int e, blob, show_int score, show_int ttl] @ map snd kv) s =
     (if GET R s tk \<noteq> None then (s, Some 2)
      else case num_or0 R s ek of
             None \<Rightarrow> (s, None)
           | Some c \<Rightarrow> if c > e then (s, Some 0) else (tx_begun R tk pk blob score ttl kv s, Some 1))"
proof -
  let ?K = "[ek, tk, pk] @ map fst kv" and ?A = "[show_int e, blob, show_int score, show_int ttl] @ map snd kv"
  have l: "set_loop R ?K ?A (\<lambda>i. i + 1) [4..<Suc (length ?K)] s' = (set_all R kv s', True)" for s'
    using set_loop_zip [of ?K "[ek, tk, pk]" kv ?A "[show_int e, blob, show_int score, show_int ttl]" "\<lambda>i. i + 1" R s']
    by (simp add: numeral_eq_Suc)
  have c: "epoch_stale R s ?K ?A = map_option (\<lambda>c. c > e) (num_or0 R s ek)"
    by (simp add: epoch_stale_Cons)
  have a: "lua_nth ?K 2 = Some tk" "lua_nth ?K 3 = Some pk" "lua_nth ?A 2 = Some blob"
    "lua_nth ?A 3 = Some (show_int score)" "lua_nth ?A 4 = Some (show_int ttl)"
    by simp_all
  show ?thesis
    by (cases "GET R s tk \<noteq> None"; cases "num_or0 R s ek"; cases "the (num_or0 R s ek) > e")
      (simp_all only: tx_scriptBegin_def a c bind.simps tonumber_show Let_def l prod.case option.case bool.case
        tx_begun_def option.map option.sel simp_thms if_True if_False)
qed

lemma tx_scriptClaim_kv:
  "tx_scriptClaim R ([ek, dk] @ map fst kv) ([show_int e, show_int ttl] @ map snd kv) s =
     (if GET R s dk \<noteq> None then (s, Some 2)
      else let s1 = SETEX R s dk (show_int e) ttl in
           case num_or0 R s1 ek of
             None \<Rightarrow> (s1, None)
           | Some c \<Rightarrow> if c > e then (DEL R s1 dk, Some 0) else (set_all R kv s1, Some 1))"
proof -
  let ?K = "[ek, dk] @ map fst kv" and ?A = "[show_int e, show_int ttl] @ map snd kv"
  have l: "set_loop R ?K ?A (\<lambda>i. i) [3..<Suc (length ?K)] s' = (set_all R kv s', True)" for s'
    using set_loop_zip [of ?K "[ek, dk]" kv ?A "[show_int e, show_int ttl]" "\<lambda>i. i" R s'] by (simp add: numeral_eq_Suc)
  have c: "epoch_stale R s' ?K ?A = map_option (\<lambda>c. c > e) (num_or0 R s' ek)" for s'
    by (simp add: epoch_stale_Cons)
  have a: "lua_nth ?K 2 = Some dk" "lua_nth ?A 1 = Some (show_int e)" "lua_nth ?A 2 = Some (show_int ttl)"
    by simp_all
  define s1 where "s1 = SETEX R s dk (show_int e) ttl"
  show ?thesis
    by (cases "GET R s dk \<noteq> None"; cases "num_or0 R s1 ek"; cases "the (num_or0 R s1 ek) > e")
      (simp_all only: tx_scriptClaim_def a c bind.simps tonumber_show Let_def l prod.case option.case bool.case
        s1_def [symmetric] option.map option.sel simp_thms if_True if_False)
qed

section \<open>Deliveries\<close>

text \<open>A delivery of a transfer: the epoch and the player data of whoever handles it, and its network.
  Between deliveries the server does other things.\<close>

record delivery =
  dl_epoch :: int
  dl_kv :: "(string \<times> bytes) list"
  dl_net :: net

definition done_key :: "keys \<Rightarrow> TxRecord \<Rightarrow> string" where
  "done_key ks rec = keys_TxDone ks (tx_ToShard rec) (tx_TxID rec)"

definition deliver :: "'r redis \<Rightarrow> keys \<Rightarrow> tx_manager \<Rightarrow> TxRecord \<Rightarrow> delivery \<Rightarrow> 'r \<Rightarrow> 'r" where
  "deliver R ks m rec d s = fst (tx_Claim R ks m (dl_net d) (dl_epoch d) rec (dl_kv d) s)"

definition credited :: "'r redis \<Rightarrow> keys \<Rightarrow> tx_manager \<Rightarrow> TxRecord \<Rightarrow> delivery \<Rightarrow> 'r \<Rightarrow> bool" where
  "credited R ks m rec d s \<longleftrightarrow> dl_net d \<noteq> RequestLost \<and>
     snd (tx_scriptClaim R ([keys_Epoch ks (tx_ToShard rec), done_key ks rec] @ map fst (dl_kv d))
       ([show_int (dl_epoch d), show_int (tm_doneTTL m)] @ map snd (dl_kv d)) s) = Some 1"

fun credits :: "'r redis \<Rightarrow> keys \<Rightarrow> tx_manager \<Rightarrow> TxRecord \<Rightarrow> (delivery \<times> ('r \<Rightarrow> 'r)) list \<Rightarrow> 'r \<Rightarrow> nat" where
  "credits R ks m rec [] s = 0"
| "credits R ks m rec ((d, other) # ds) s =
     (if credited R ks m rec d s then 1 else 0) + credits R ks m rec ds (other (deliver R ks m rec d s))"

text \<open>The marker outlives the deliveries, and no delivery writes it as player data.\<close>

definition marker_lives :: "'r redis \<Rightarrow> string \<Rightarrow> (delivery \<times> ('r \<Rightarrow> 'r)) list \<Rightarrow> bool" where
  "marker_lives R dk ds \<longleftrightarrow> (\<forall>(d, other) \<in> set ds. dk \<notin> fst ` set (dl_kv d) \<and> (\<forall>s. GET R s dk \<noteq> None \<longrightarrow> GET R (other s) dk \<noteq> None))"

lemma fst_tx_Claim:
  "fst (tx_Claim R ks m n e rec kv s) =
     fst (run n (tx_scriptClaim R ([keys_Epoch ks (tx_ToShard rec), keys_TxDone ks (tx_ToShard rec) (tx_TxID rec)] @ map fst kv)
       ([show_int e, show_int (tm_doneTTL m)] @ map snd kv)) s)"
  by (simp add: tx_Claim_def split: prod.split sum.split)

lemma deliver_state:
  "deliver R ks m rec d s =
     (if dl_net d = RequestLost then s
      else fst (tx_scriptClaim R ([keys_Epoch ks (tx_ToShard rec), done_key ks rec] @ map fst (dl_kv d))
        ([show_int (dl_epoch d), show_int (tm_doneTTL m)] @ map snd (dl_kv d)) s))"
  unfolding deliver_def fst_tx_Claim run_state done_key_def ..

lemma credited_eq:
  "credited R ks m rec d s \<longleftrightarrow> dl_net d \<noteq> RequestLost \<and> GET R s (done_key ks rec) = None \<and>
     (\<exists>c. num_or0 R (SETEX R s (done_key ks rec) (show_int (dl_epoch d)) (tm_doneTTL m)) (keys_Epoch ks (tx_ToShard rec)) = Some c
        \<and> c \<le> dl_epoch d)"
  unfolding credited_def tx_scriptClaim_kv by (auto simp: Let_def split: option.splits if_splits)

lemma deliver_marked: "GET R s (done_key ks rec) \<noteq> None \<Longrightarrow> deliver R ks m rec d s = s"
  unfolding deliver_state tx_scriptClaim_kv by simp

context redis_api
begin

lemma done_not_epoch: "keys_Epoch ks sh \<noteq> done_key ks rec"
  by (simp add: done_key_def key_eqs)

lemma credited_iff:
  "credited R ks m rec d s \<longleftrightarrow> dl_net d \<noteq> RequestLost \<and> GET R s (done_key ks rec) = None \<and>
     (\<exists>c. num_or0 R s (keys_Epoch ks (tx_ToShard rec)) = Some c \<and> c \<le> dl_epoch d)"
  by (simp add: credited_eq num_or0_def get_frame(2) [OF done_not_epoch])

lemma credited_result:
  assumes "credited R ks m rec d s" "done_key ks rec \<notin> fst ` set (dl_kv d)" "distinct (map fst (dl_kv d))"
  shows "GET R (deliver R ks m rec d s) (done_key ks rec) \<noteq> None"
    and "(k, v) \<in> set (dl_kv d) \<Longrightarrow> GET R (deliver R ks m rec d s) k = Some v"
proof -
  have "deliver R ks m rec d s = set_all R (dl_kv d) (SETEX R s (done_key ks rec) (show_int (dl_epoch d)) (tm_doneTTL m))"
    using assms(1) unfolding credited_eq deliver_state tx_scriptClaim_kv by (auto simp: Let_def)
  then show "GET R (deliver R ks m rec d s) (done_key ks rec) \<noteq> None"
    and "(k, v) \<in> set (dl_kv d) \<Longrightarrow> GET R (deliver R ks m rec d s) k = Some v"
    using assms(2,3) by (simp_all add: get_set_all_other get_set_all get_setex)
qed

lemma credits_marked:
  "marker_lives R (done_key ks rec) ds \<Longrightarrow> GET R s (done_key ks rec) \<noteq> None \<Longrightarrow> credits R ks m rec ds s = 0"
proof (induction ds arbitrary: s)
  case (Cons x ds)
  obtain d other where x: "x = (d, other)" by (cases x)
  have "\<not> credited R ks m rec d s" using Cons.prems(2) by (simp add: credited_iff)
  moreover have "GET R (other s) (done_key ks rec) \<noteq> None" "marker_lives R (done_key ks rec) ds"
    using Cons.prems by (auto simp: marker_lives_def x)
  ultimately show ?case using Cons.IH deliver_marked [OF Cons.prems(2)] by (simp add: x)
qed simp

lemma credited_marks:
  assumes "credited R ks m rec d s" "done_key ks rec \<notin> fst ` set (dl_kv d)"
  shows "GET R (deliver R ks m rec d s) (done_key ks rec) \<noteq> None"
proof -
  have "deliver R ks m rec d s = set_all R (dl_kv d) (SETEX R s (done_key ks rec) (show_int (dl_epoch d)) (tm_doneTTL m))"
    using assms(1) unfolding credited_eq deliver_state tx_scriptClaim_kv by (auto simp: Let_def)
  then show ?thesis using assms(2) by (simp add: get_set_all_other get_setex)
qed

lemma credits_at_most_once:
  "marker_lives R (done_key ks rec) ds \<Longrightarrow> credits R ks m rec ds s \<le> 1"
proof (induction ds arbitrary: s)
  case (Cons x ds)
  obtain d other where x: "x = (d, other)" by (cases x)
  have ml: "marker_lives R (done_key ks rec) ds" using Cons.prems by (auto simp: marker_lives_def)
  show ?case
  proof (cases "credited R ks m rec d s")
    case True
    then have "GET R (deliver R ks m rec d s) (done_key ks rec) \<noteq> None"
      using credited_marks Cons.prems by (auto simp: marker_lives_def x)
    then have "GET R (other (deliver R ks m rec d s)) (done_key ks rec) \<noteq> None"
      using Cons.prems by (auto simp: marker_lives_def x)
    then show ?thesis using True credits_marked [OF ml] by (simp add: x)
  next
    case False
    then show ?thesis using Cons.IH [OF ml] by (simp add: x)
  qed
qed simp

text \<open>The sender's side.\<close>

lemma tx_begun_reads:
  assumes "distinct (map fst kv)" "fst ` set kv \<subseteq> range (keys_Player ks uid)"
  shows "GET R (tx_begun R (keys_Tx ks sh i) (keys_TxPending ks sh) blob score ttl kv s) (keys_Tx ks sh i) = Some blob"
    and "ZSCORE R (tx_begun R (keys_Tx ks sh i) (keys_TxPending ks sh) blob score ttl kv s) (keys_TxPending ks sh) blob = Some score"
    and "(k, v) \<in> set kv \<Longrightarrow> GET R (tx_begun R (keys_Tx ks sh i) (keys_TxPending ks sh) blob score ttl kv s) k = Some v"
proof -
  have nk: "keys_Tx ks sh i \<notin> fst ` set kv" "keys_TxPending ks sh \<notin> fst ` set kv" "keys_Tx ks sh i \<noteq> keys_TxPending ks sh"
    using assms(2) by (auto simp: key_eqs)
  let ?s1 = "ZADD R (if ttl > 0 then SETEX R s (keys_Tx ks sh i) blob ttl else SET R s (keys_Tx ks sh i) blob) (keys_TxPending ks sh) score blob"
  show "GET R (tx_begun R (keys_Tx ks sh i) (keys_TxPending ks sh) blob score ttl kv s) (keys_Tx ks sh i) = Some blob"
    using nk by (simp add: tx_begun_def get_set_all_other redis_reads)
  have "ZSCORE R (set_all R kv ?s1) (keys_TxPending ks sh) = ZSCORE R ?s1 (keys_TxPending ks sh)"
    using view_set_all [OF nk(2), of ?s1] by (simp add: view_def)
  then show "ZSCORE R (tx_begun R (keys_Tx ks sh i) (keys_TxPending ks sh) blob score ttl kv s) (keys_TxPending ks sh) blob = Some score"
    by (simp add: tx_begun_def zscore_zadd)
  show "(k, v) \<in> set kv \<Longrightarrow> GET R (tx_begun R (keys_Tx ks sh i) (keys_TxPending ks sh) blob score ttl kv s) k = Some v"
    using assms(1) by (simp add: tx_begun_def get_set_all)
qed

lemma scan_finds:
  assumes "ZSCORE R s (keys_TxPending ks sh) blob = Some score" "0 \<le> score" "score \<le> before" "tx_parse J blob = Some rec"
    and "ScanPending R ks J Delivered sh before limit s = (s', Inr rs)"
    and "length (ZRANGE R s (keys_TxPending ks sh) before (nat (if limit \<le> 0 then 200 else limit))) < nat (if limit \<le> 0 then 200 else limit)"
  shows "rec \<in> set rs"
proof -
  let ?n = "nat (if limit \<le> 0 then 200 else limit)"
  have "blob \<in> set (ZRANGE R s (keys_TxPending ks sh) before ?n)"
    using zrange_all [OF assms(6,1,2,3)] .
  moreover have "rs = List.map_filter (tx_parse J) (ZRANGE R s (keys_TxPending ks sh) before ?n)"
    using assms(5) by (simp add: ScanPending_def Let_def)
  ultimately show ?thesis using assms(4) by (force simp: List.map_filter_def)
qed

end

section \<open>Properties\<close>

text \<open>C25: A transfer is credited at most once, and once when it can be. Over any sequence of deliveries of the
  same transfer, by old and new owners, with lost requests and lost replies and with anything else
  happening to the server in between as long as the done marker does not expire, at most one of
  them writes player data. If the first one reaches the server from the current owner and the
  transfer is new, it is exactly that one, and the data it carried is stored.\<close>

theorem transfer_is_credited_at_most_once:
  assumes "redis_api R" and "marker_lives R (done_key ks rec) ((d, other) # ds)" and "distinct (map fst (dl_kv d))"
  shows "credits R ks m rec ((d, other) # ds) s \<le> 1
    \<and> (dl_net d \<noteq> RequestLost \<and> GET R s (done_key ks rec) = None
         \<and> (\<exists>c. num_or0 R s (keys_Epoch ks (tx_ToShard rec)) = Some c \<and> c \<le> dl_epoch d)
       \<longrightarrow> credits R ks m rec ((d, other) # ds) s = 1 \<and> (\<forall>(k, v) \<in> set (dl_kv d). GET R (deliver R ks m rec d s) k = Some v))"
proof -
  note most = redis_api.credits_at_most_once [OF assms(1,2), of m s]
  have nk: "done_key ks rec \<notin> fst ` set (dl_kv d)" using assms(2) by (auto simp: marker_lives_def)
  have "credits R ks m rec ((d, other) # ds) s = 1 \<and> (\<forall>(k, v) \<in> set (dl_kv d). GET R (deliver R ks m rec d s) k = Some v)"
    if c: "credited R ks m rec d s"
    using most c redis_api.credited_result(2) [OF assms(1) c nk assms(3)] by auto
  then show ?thesis using most redis_api.credited_iff [OF assms(1), of ks m rec d s] by blast
qed

definition gift :: TxRecord where
  "gift = \<lparr>tx_TxID = ''tx77'', tx_FromUID = 1031, tx_ToUID = 2056, tx_FromShard = 7, tx_ToShard = 8, tx_Items = [],
     tx_CurrType = 1, tx_CurrDelta = 50, tx_Reason = ''gift'', tx_State = StatePending, tx_CreatedAt = 1000, tx_DoneAt = 0,
     tx_Retries = 0, tx_Extra = []\<rparr>"

definition gift_delivery :: "net \<Rightarrow> delivery" where
  "gift_delivery n = \<lparr>dl_epoch = 20, dl_kv = [(keys_Player lobby_keys 2056 ModBase, ''b2'')], dl_net = n\<rparr>"

theorem transfer_is_credited_at_most_once_witness:
  "credits mem_redis lobby_keys (tx_NewManager 0 0) gift
     [(gift_delivery ReplyLost, \<lambda>s. s), (gift_delivery Delivered, \<lambda>s. s), (gift_delivery Delivered, \<lambda>s. s)] mem_empty = 1"
proof -
  have "marker_lives mem_redis (done_key lobby_keys gift)
      [(gift_delivery ReplyLost, \<lambda>s. s), (gift_delivery Delivered, \<lambda>s. s), (gift_delivery Delivered, \<lambda>s. s)]"
    by (auto simp: marker_lives_def gift_delivery_def done_key_def key_eqs)
  then show ?thesis
    using transfer_is_credited_at_most_once [OF mem_server.redis_api_axioms, of lobby_keys gift "gift_delivery ReplyLost" "\<lambda>s. s"
        "[(gift_delivery Delivered, \<lambda>s. s), (gift_delivery Delivered, \<lambda>s. s)]" "tx_NewManager 0 0" mem_empty]
    by (auto simp: gift_delivery_def mem_empty_def num_or0_def)
qed

text \<open>A transfer begins completely or not at all, and is never forgotten. Either Redis is unchanged and the
  caller is told that nothing happened (or that the call failed), or the sender's reduced data, the
  record and the index entry are all stored. A begun transfer is returned by the scan for
  unfinished ones that is not cut off by its limit.\<close>

theorem begun_transfer_is_never_lost:
  assumes "redis_api R" and "tx_TxID rec \<noteq> []" and "tx_JSON J (tx_fill now rec) = Some blob" and "tx_parse J blob = Some (tx_fill now rec)"
    and "distinct (map fst kv)" and "fst ` set kv \<subseteq> range (keys_Player ks uid)"
    and "tx_Begin R ks J m n now epoch rec kv s = (s', r)"
  shows "s' = s \<and> r \<noteq> Inr ()
    \<or> r \<in> {Inr (), Inl ErrRedis} \<and> GET R s (keys_Tx ks (tx_FromShard rec) (tx_TxID rec)) = None
      \<and> GET R s' (keys_Tx ks (tx_FromShard rec) (tx_TxID rec)) = Some blob \<and> (\<forall>(k, v) \<in> set kv. GET R s' k = Some v)
      \<and> (\<forall>before limit s'' rs. 0 \<le> tx_CreatedAt (tx_fill now rec) \<and> tx_CreatedAt (tx_fill now rec) \<le> before
           \<and> ScanPending R ks J Delivered (tx_FromShard rec) before limit s' = (s'', Inr rs)
           \<and> length (ZRANGE R s' (keys_TxPending ks (tx_FromShard rec)) before (nat (if limit \<le> 0 then 200 else limit)))
               < nat (if limit \<le> 0 then 200 else limit)
           \<longrightarrow> tx_fill now rec \<in> set rs)"
proof -
  have f: "tx_FromShard (tx_fill now rec) = tx_FromShard rec" "tx_TxID (tx_fill now rec) = tx_TxID rec"
    by (simp_all add: tx_fill_def Let_def)
  let ?tk = "keys_Tx ks (tx_FromShard rec) (tx_TxID rec)" and ?pk = "keys_TxPending ks (tx_FromShard rec)"
  let ?done = "tx_begun R ?tk ?pk blob (tx_CreatedAt (tx_fill now rec)) (tm_recTTL m) kv s"
  have "s' = s \<and> r \<noteq> Inr () \<or> r \<in> {Inr (), Inl ErrRedis} \<and> GET R s ?tk = None \<and> s' = ?done"
    using assms(2,3,7) unfolding tx_Begin_def Let_def f tx_scriptBegin_kv
    by (cases n) (auto simp: run_def split: if_splits option.splits)
  moreover have "GET R ?done ?tk = Some blob" "\<forall>(k, v) \<in> set kv. GET R ?done k = Some v"
    "ZSCORE R ?done ?pk blob = Some (tx_CreatedAt (tx_fill now rec))"
    using redis_api.tx_begun_reads [OF assms(1,5,6)] by auto
  ultimately show ?thesis
    using redis_api.scan_finds [OF assms(1) _ _ _ assms(4)] by blast
qed

definition ser_state :: "tx_state ser" where
  "ser_state = ser_map (\<lambda>st. case st of StateNone \<Rightarrow> 0 | StatePending \<Rightarrow> 1 | StateCompleted \<Rightarrow> 2)
     (\<lambda>n. if n = 0 then StateNone else if n = 1 then StatePending else StateCompleted) ser_nat"

definition ser_tx :: "TxRecord ser" where
  "ser_tx = ser_map
     (\<lambda>r. (tx_TxID r, tx_FromUID r, tx_ToUID r, tx_FromShard r, tx_ToShard r, tx_Items r, tx_CurrType r, tx_CurrDelta r,
           tx_Reason r, tx_State r, tx_CreatedAt r, tx_DoneAt r, tx_Retries r, tx_Extra r))
     (\<lambda>(a, b, c, d, e, f, g, h, i, j, k, l, m, n). \<lparr>tx_TxID = a, tx_FromUID = b, tx_ToUID = c, tx_FromShard = d, tx_ToShard = e,
        tx_Items = f, tx_CurrType = g, tx_CurrDelta = h, tx_Reason = i, tx_State = j, tx_CreatedAt = k, tx_DoneAt = l,
        tx_Retries = m, tx_Extra = n\<rparr>)
     (ser_pair ser_string (ser_pair ser_nat (ser_pair ser_nat (ser_pair ser_nat (ser_pair ser_nat
       (ser_pair (ser_list (ser_map (\<lambda>a. (at_TplId a, at_Count a)) (\<lambda>(a, b). \<lparr>at_TplId = a, at_Count = b\<rparr>) (ser_pair ser_nat ser_int)))
       (ser_pair ser_nat (ser_pair ser_int (ser_pair ser_string (ser_pair ser_state (ser_pair ser_int (ser_pair ser_int (ser_pair ser_int
         (ser_list (ser_pair ser_string ser_string)))))))))))))))"

definition text_tx :: tx_codec where
  "text_tx = \<lparr>tx_JSON = ser_enc ser_tx, tx_parse = ser_dec ser_tx\<rparr>"

lemma text_tx_roundtrip: "tx_JSON text_tx r = Some x \<Longrightarrow> tx_parse text_tx x = Some r"
proof -
  assume x: "tx_JSON text_tx r = Some x"
  have "ser_ok ser_tx" unfolding ser_tx_def ser_state_def by (intro ser_intros; simp split: tx_state.split)
  with x show ?thesis by (simp add: text_tx_def ser_roundtrip)
qed

theorem begun_transfer_is_never_lost_witness:
  "\<exists>s' blob. tx_Begin mem_redis lobby_keys text_tx (tx_NewManager 0 0) Delivered 1000 20 gift [(keys_Player lobby_keys 1031 ModBase, ''b1'')] mem_empty
     = (s', Inr ()) \<and> GET mem_redis s' (keys_Tx lobby_keys 7 ''tx77'') = Some blob
     \<and> GET mem_redis s' (keys_Player lobby_keys 1031 ModBase) = Some ''b1''"
proof -
  have fill: "tx_fill 1000 gift = gift" by (simp add: tx_fill_def gift_def)
  have g: "tx_FromShard gift = 7" "tx_TxID gift = ''tx77''" by (simp_all add: gift_def)
  have ne: "(tx_TxID gift = []) = False" by (simp add: gift_def)
  obtain blob where b: "tx_JSON text_tx gift = Some blob" by (simp add: text_tx_def ser_enc_def)
  obtain s' where run: "tx_Begin mem_redis lobby_keys text_tx (tx_NewManager 0 0) Delivered 1000 20 gift [(keys_Player lobby_keys 1031 ModBase, ''b1'')] mem_empty
     = (s', Inr ())"
    using ne by (simp only: tx_Begin_def Let_def fill b option.case tx_scriptBegin_kv run_def if_False net.case)
      (simp add: mem_empty_def num_or0_def)
  show ?thesis
    using begun_transfer_is_never_lost [OF mem_server.redis_api_axioms _ _ _ _ _ run, of blob 1031] b text_tx_roundtrip [OF b] run ne
    unfolding fill g by auto
qed

end
