(* ===== verification/Profiles.thy ===== *)
theory Profiles
  imports Flush Player
begin

text \<open>
  The read model of a player, \<^verbatim>\<open>pkg/profile/profile.go\<close>: the summary taken from the base module, the
  hash it is written to together with the player, and the readers. A field of a hash that does not
  exist reads as \<open>None\<close>. The leaderboards (\<open>Rank\<close>) work on floating point scores and are left out.

  Shown here: what a flush wrote is what a reader decodes.
\<close>

section \<open>Go's number parsing\<close>

text \<open>\<open>strconv.ParseUint(s, 10, bits)\<close> with its error ignored: zero for a syntax error, the largest
  value for a number out of range.\<close>

definition ParseUint :: "nat \<Rightarrow> string \<Rightarrow> nat" where
  "ParseUint bits s = (case read_nat s of None \<Rightarrow> 0 | Some n \<Rightarrow> min n (2 ^ bits - 1))"

definition ParseInt64 :: "string \<Rightarrow> int" where
  "ParseInt64 s =
     (case s of
        [] \<Rightarrow> 0
      | c # cs \<Rightarrow>
          if c = CHR ''-'' then (case read_nat cs of None \<Rightarrow> 0 | Some n \<Rightarrow> - min (int n) (2 ^ 63))
          else case read_nat (if c = CHR ''+'' then cs else s) of None \<Rightarrow> 0 | Some n \<Rightarrow> min (int n) (2 ^ 63 - 1))"

lemma ParseUint_show: "n < 2 ^ bits \<Longrightarrow> ParseUint bits (show_nat n) = n"
  by (simp add: ParseUint_def min_def)

lemma show_nat_first: "\<exists>c cs. show_nat n = c # cs \<and> c \<noteq> CHR ''-'' \<and> c \<noteq> CHR ''+''"
proof -
  obtain c cs where c: "show_nat n = c # cs" by (cases "show_nat n") auto
  then have "48 \<le> (of_char c :: nat)" using show_nat_digits [of c n] by simp
  then show ?thesis using c by auto
qed

lemma ParseInt64_show: "in_i64 x \<Longrightarrow> ParseInt64 (show_int x) = x"
proof (cases "x < 0")
  case True
  assume "in_i64 x"
  with True show ?thesis by (simp add: ParseInt64_def show_int_def in_i64_def)
next
  case False
  assume i: "in_i64 x"
  obtain c cs where c: "show_nat (nat x) = c # cs" "c \<noteq> CHR ''-''" "c \<noteq> CHR ''+''" using show_nat_first by blast
  then have "read_nat (c # cs) = Some (nat x)" using read_nat_show [of "nat x"] by simp
  with i False c show ?thesis by (simp add: ParseInt64_def show_int_def in_i64_def)
qed

section \<open>The summary\<close>

record Profile =
  pf_Uid :: nat
  pf_Nick :: string
  pf_Avatar :: string
  pf_Level :: nat
  pf_GuildId :: nat
  pf_Power :: nat
  pf_LastLogin :: int

definition FromBase :: "PlayerBase \<Rightarrow> Profile" where
  "FromBase b = \<lparr>pf_Uid = bs_Uid b, pf_Nick = Nick b, pf_Avatar = Avatar b, pf_Level = bs_Level b, pf_GuildId = GuildId b,
     pf_Power = Power b, pf_LastLogin = LastLogin b\<rparr>"

definition player_Profile :: "Player \<Rightarrow> Profile" where
  "player_Profile p = FromBase (Base p)"

definition allFields :: "string list" where
  "allFields = [''nick'', ''avatar'', ''level'', ''guild_id'', ''power'', ''last_login'']"

definition Fields :: "Profile \<Rightarrow> bytes list" where
  "Fields p = [''nick'', pf_Nick p, ''avatar'', pf_Avatar p, ''level'', show_nat (pf_Level p), ''guild_id'', show_nat (pf_GuildId p),
     ''power'', show_nat (pf_Power p), ''last_login'', show_int (pf_LastLogin p)]"

definition HashWrite :: "keys \<Rightarrow> Profile \<Rightarrow> hash_write" where
  "HashWrite ks p = \<lparr>hw_Key = keys_Profile ks (pf_Uid p), hw_TTLSec = 0, hw_Fields = Fields p\<rparr>"

definition profile_decode :: "nat \<Rightarrow> bytes option list \<Rightarrow> Profile option" where
  "profile_decode uid vals =
     (if length vals < length allFields \<or> (\<forall>v \<in> set vals. v = None) then None
      else
        let text = (\<lambda>i. case vals ! i of Some s \<Rightarrow> s | None \<Rightarrow> []);
            num = (\<lambda>i f. case vals ! i of Some s \<Rightarrow> f s | None \<Rightarrow> 0)
        in Some \<lparr>pf_Uid = uid, pf_Nick = text 0, pf_Avatar = text 1, pf_Level = num 2 (\<lambda>s. u32 (ParseUint 32 s)),
                 pf_GuildId = num 3 (ParseUint 64), pf_Power = num 4 (ParseUint 64),
                 pf_LastLogin = (case vals ! 5 of Some s \<Rightarrow> ParseInt64 s | None \<Rightarrow> 0)\<rparr>)"

section \<open>Readers\<close>

definition HMGET :: "'r redis \<Rightarrow> 'r \<Rightarrow> string \<Rightarrow> string list \<Rightarrow> bytes option list" where
  "HMGET R s k fs = map (HGET R s k) fs"

definition profile_Get :: "'r redis \<Rightarrow> keys \<Rightarrow> net \<Rightarrow> nat \<Rightarrow> 'r \<Rightarrow> Profile option result" where
  "profile_Get R ks n uid s =
     (if n \<noteq> Delivered then Inl ErrRedis else Inr (profile_decode uid (HMGET R s (keys_Profile ks uid) allFields)))"

definition profile_GetMany :: "'r redis \<Rightarrow> keys \<Rightarrow> net \<Rightarrow> nat list \<Rightarrow> 'r \<Rightarrow> Profile list result" where
  "profile_GetMany R ks n uids s =
     (if uids = [] then Inr []
      else if n \<noteq> Delivered then Inl ErrRedis
      else Inr (List.map_filter (\<lambda>uid. profile_decode uid (HMGET R s (keys_Profile ks uid) allFields)) uids))"

definition profile_ok :: "Profile \<Rightarrow> bool" where
  "profile_ok p \<longleftrightarrow> pf_Level p < 2 ^ 32 \<and> pf_GuildId p < 2 ^ 64 \<and> pf_Power p < 2 ^ 64 \<and> in_i64 (pf_LastLogin p)"

lemma decode_fields:
  assumes "profile_ok p"
    and "v ''nick'' = Some (pf_Nick p)" "v ''avatar'' = Some (pf_Avatar p)" "v ''level'' = Some (show_nat (pf_Level p))"
      "v ''guild_id'' = Some (show_nat (pf_GuildId p))" "v ''power'' = Some (show_nat (pf_Power p))"
      "v ''last_login'' = Some (show_int (pf_LastLogin p))"
  shows "profile_decode (pf_Uid p) (map v allFields) = Some p"
  using assms by (simp add: profile_decode_def allFields_def profile_ok_def ParseUint_show ParseInt64_show u32_def)

lemma WriteHash_stored:
  assumes "WriteHash R ks n sh e (hw_Key (HashWrite ks p)) (hw_TTLSec (HashWrite ks p)) (hw_Fields (HashWrite ks p)) s = (s', Inr ())"
  shows "s' = HSET R s (keys_Profile ks (pf_Uid p)) [(''nick'', pf_Nick p), (''avatar'', pf_Avatar p), (''level'', show_nat (pf_Level p)),
      (''guild_id'', show_nat (pf_GuildId p)), (''power'', show_nat (pf_Power p)), (''last_login'', show_int (pf_LastLogin p))]"
  using assms
  by (cases n) (auto simp: WriteHash_def HashWrite_def Fields_def run_def fenced_reply_def scriptWriteHash_def
      split: option.splits bool.splits if_splits prod.splits)

section \<open>Properties\<close>

text \<open>The read model is faithful. A summary that the owner's fenced hash write stored is returned by the
  reader exactly, and a batch read returns it too, with no other process involved.\<close>

theorem profile_read_roundtrip:
  assumes "redis_api R" and "profile_ok p"
    and "WriteHash R ks n sh e (hw_Key (HashWrite ks p)) (hw_TTLSec (HashWrite ks p)) (hw_Fields (HashWrite ks p)) s = (s', Inr ())"
  shows "profile_Get R ks Delivered (pf_Uid p) s' = Inr (Some p) \<and> profile_GetMany R ks Delivered [pf_Uid p] s' = Inr [p]"
proof -
  let ?k = "keys_Profile ks (pf_Uid p)"
  let ?fs = "[(''nick'', pf_Nick p), (''avatar'', pf_Avatar p), (''level'', show_nat (pf_Level p)),
      (''guild_id'', show_nat (pf_GuildId p)), (''power'', show_nat (pf_Power p)), (''last_login'', show_int (pf_LastLogin p))]"
  have "s' = HSET R s ?k ?fs" by (rule WriteHash_stored [OF assms(3)])
  then have "HGET R s' ?k = HGET R s ?k ++ map_of (rev ?fs)" using redis_api.hget_hset [OF assms(1), of s ?k ?fs] by simp
  then have "profile_decode (pf_Uid p) (map (HGET R s' ?k) allFields) = Some p"
    by (intro decode_fields [OF assms(2)]) simp_all
  then show ?thesis by (simp add: profile_Get_def profile_GetMany_def HMGET_def List.map_filter_def)
qed

definition demo_profile :: Profile where
  "demo_profile = FromBase (Base (NewPlayer 1031 77))"

theorem profile_read_roundtrip_witness:
  "\<exists>s'. WriteHash mem_redis lobby_keys Delivered 7 20 (hw_Key (HashWrite lobby_keys demo_profile)) 0 (Fields demo_profile) mem_empty = (s', Inr ())
     \<and> profile_Get mem_redis lobby_keys Delivered (pf_Uid demo_profile) s' = Inr (Some demo_profile)"
proof -
  have ok: "profile_ok demo_profile" by (simp add: profile_ok_def demo_profile_def FromBase_def NewPlayer_def in_i64_def)
  have "epoch_stale mem_redis mem_empty (keys_Epoch lobby_keys 7 # K) (show_int 20 # A) = Some False" for K A
    by (simp add: epoch_stale_Cons num_or0_def mem_empty_def)
  then obtain s' where "WriteHash mem_redis lobby_keys Delivered 7 20 (hw_Key (HashWrite lobby_keys demo_profile)) 0 (Fields demo_profile) mem_empty
      = (s', Inr ())"
    by (simp add: WriteHash_def scriptWriteHash_def Fields_def run_def fenced_reply_def)
  then show ?thesis
    using profile_read_roundtrip [OF mem_server.redis_api_axioms ok, of lobby_keys Delivered 7 20 mem_empty s'] by (auto simp: HashWrite_def)
qed

end
