(* ===== verification/Lobby_Commit.thy ===== *)
theory Lobby_Commit
  imports Fencing Ledger Player_Codec Protocol
begin

text \<open>
  The write-through step of the lobby, \<open>commit\<close> and \<open>CommitSpec\<close> of
  \<^verbatim>\<open>internal/lobby/shard.go\<close>, and the building blocks the money handlers share: a handler
  computes its result on copies, hands a \<open>CommitSpec\<close> to \<open>commit\<close>, and a callback gets the
  outcome. Here a handler returns either a refusal or a plan, the plan's specification is
  committed, and the callback is a function of the commit's result.

  The number generator behind \<open>NextID\<close> is an argument: \<open>ids k\<close> is the result of the call a handler
  makes at its \<open>k\<close>-th call site, \<open>None\<close> when it fails.

  Shown here: the entries and keys of a specification reach Redis exactly, and a lost reply leaves
  the player in memory behind what Redis holds.
\<close>

text \<open>How a handler ends without a commit: an error answer, or a panic.\<close>

datatype reject = Rejected ErrCode | Crashed

record CommitSpec =
  cs_IdemKey :: string
  cs_Payload :: bytes
  cs_Entries :: "Entry list"
  cs_KV :: "(string \<times> bytes) list"

record shard_id =
  o_Shard :: nat
  o_Epoch :: int
  o_orderTTL :: int

definition commit_request :: "keys \<Rightarrow> shard_id \<Rightarrow> nat \<Rightarrow> CommitSpec \<Rightarrow> bytes list \<Rightarrow> commit_req" where
  "commit_request ks o1 uid spec entries =
     \<lparr>cr_Shard = o_Shard o1, cr_Epoch = o_Epoch o1, IdemKey = cs_IdemKey spec, IdemTTLSec = o_orderTTL o1,
      IdemPayload = cs_Payload spec, LedgerKey = keys_Ledger ks uid, LedgerMaxLen = DefaultMaxLen,
      Entries = entries, KV = cs_KV spec\<rparr>"

definition lobby_commit :: "'r redis \<Rightarrow> keys \<Rightarrow> entry_codec \<Rightarrow> shard_id \<Rightarrow> net \<Rightarrow> nat \<Rightarrow> CommitSpec \<Rightarrow> 'r \<Rightarrow>
    'r \<times> write_result result" where
  "lobby_commit R ks J o1 n uid spec s =
     (case Encode J (cs_Entries spec) of
        Inl e \<Rightarrow> (s, Inl e)
      | Inr entries \<Rightarrow> Commit R ks n (commit_request ks o1 uid spec entries) s)"

text \<open>\<open>s.entry(\<dots>)\<close>: a ledger entry with a fresh number, or without one if the generator fails.\<close>

definition new_entry :: "int \<Rightarrow> nat option \<Rightarrow> nat \<Rightarrow> ltype \<Rightarrow> nat \<Rightarrow> int \<Rightarrow> int \<Rightarrow> Entry" where
  "new_entry now oid uid t currency amount balance =
     (let e = ledger_New now uid t currency amount balance in case oid of None \<Rightarrow> e | Some i \<Rightarrow> WithID i e)"

lemma new_entry_fields [simp]:
  "en_Currency (new_entry now oid uid t c a b) = c" "Amount (new_entry now oid uid t c a b) = a"
  "Balance (new_entry now oid uid t c a b) = b" "en_UID (new_entry now oid uid t c a b) = uid"
  "en_Type (new_entry now oid uid t c a b) = t"
  by (simp_all add: new_entry_def ledger_New_def WithID_def Let_def split: option.split)

lemma with_fields [simp]:
  "en_Currency (WithRound r g v e) = en_Currency e" "Amount (WithRound r g v e) = Amount e" "Balance (WithRound r g v e) = Balance e"
  "en_Currency (WithRef x e) = en_Currency e" "Amount (WithRef x e) = Amount e" "Balance (WithRef x e) = Balance e"
  "en_Currency (WithOperator x e) = en_Currency e" "Amount (WithOperator x e) = Amount e" "Balance (WithOperator x e) = Balance e"
  by (simp_all add: WithRound_def WithRef_def WithOperator_def)

definition base_currency :: "PlayerBase \<Rightarrow> nat \<Rightarrow> int" where
  "base_currency b t = (case map_of (bs_Currency b) t of None \<Rightarrow> 0 | Some v \<Rightarrow> v)"

text \<open>\<open>baseCopy.Currency[t] += d\<close>\<close>

definition base_add :: "nat \<Rightarrow> int \<Rightarrow> PlayerBase \<Rightarrow> PlayerBase" where
  "base_add t d b = b\<lparr>bs_Currency := AList.update t (i64 (base_currency b t + d)) (bs_Currency b)\<rparr>"

lemma base_currency_add [simp]:
  "base_currency (base_add t d b) t' = (if t' = t then i64 (base_currency b t + d) else base_currency b t')"
  by (simp add: base_add_def base_currency_def update_conv')

lemma base_currency_player: "base_currency (Base p) t = player_Currency p t"
  by (simp add: base_currency_def player_Currency_def)

text \<open>The keys of a specification: an order key and module keys of one player never clash with each
  other, the ledger or an epoch.\<close>

definition spec_keys_ok :: "keys \<Rightarrow> nat \<Rightarrow> CommitSpec \<Rightarrow> bool" where
  "spec_keys_ok ks uid spec \<longleftrightarrow>
     (\<exists>idem. cs_IdemKey spec = keys_Order ks uid idem) \<and>
     distinct (map fst (cs_KV spec)) \<and> fst ` set (cs_KV spec) \<subseteq> range (keys_Player ks uid)"

lemma spec_idem_nonempty: "spec_keys_ok ks uid spec \<Longrightarrow> cs_IdemKey spec \<noteq> []"
  unfolding spec_keys_ok_def by (metis keys_nonempty(1))

lemma spec_commit_keys:
  "spec_keys_ok ks uid spec \<Longrightarrow> commit_keys_ok ks (commit_request ks o1 uid spec es)"
  by (auto simp: spec_keys_ok_def commit_keys_ok_def commit_request_def data_keys_def key_eqs)

lemma Encode_length: "Encode J es = Inr bs \<Longrightarrow> length bs = length es"
  by (induction es arbitrary: bs) (auto split: option.splits sum.splits)

section \<open>What a commit leaves in Redis\<close>

text \<open>The player's keys and ledger hold what the specification says.\<close>

definition spec_stored :: "'r redis \<Rightarrow> keys \<Rightarrow> entry_codec \<Rightarrow> nat \<Rightarrow> CommitSpec \<Rightarrow> 'r \<Rightarrow> 'r \<Rightarrow> bool" where
  "spec_stored R ks J uid spec s s' \<longleftrightarrow>
     (\<forall>(k, v) \<in> set (cs_KV spec). GET R s' k = Some v) \<and> GET R s' (cs_IdemKey spec) = Some (cs_Payload spec) \<and>
     (\<exists>n ids bs. Encode J (cs_Entries spec) = Inr bs \<and> length ids = length bs \<and>
        XALL R s' (keys_Ledger ks uid) = drop n (XALL R s (keys_Ledger ks uid)) @ zip ids bs)"

context redis_api
begin

lemma lobby_commit_cases:
  assumes "spec_keys_ok ks uid spec" "0 < o_orderTTL o1" "int (length (cs_Entries spec)) \<le> DefaultMaxLen"
    and "lobby_commit R ks J o1 n uid spec s = (s', r)"
  shows "s' = s \<and> (\<forall>p. r \<noteq> Inr \<lparr>Duplicate = False, Payload = p\<rparr>)
    \<or> spec_stored R ks J uid spec s s' \<and> r \<in> {Inl ErrRedis, Inr \<lparr>Duplicate = False, Payload = cs_Payload spec\<rparr>}"
proof (cases "Encode J (cs_Entries spec)")
  case (Inl e)
  then show ?thesis using assms(4) by (auto simp: lobby_commit_def)
next
  case (Inr bs)
  let ?req = "commit_request ks o1 uid spec bs"
  have len: "length bs = length (cs_Entries spec)" using Inr by (rule Encode_length)
  have "LedgerMaxLen ?req \<le> 0 \<or> int (length (Entries ?req)) \<le> LedgerMaxLen ?req"
    using assms(3) len by (simp add: commit_request_def)
  moreover have "Commit R ks n ?req s = (s', r)" using assms(4) Inr by (simp add: lobby_commit_def)
  ultimately have "s' = s \<and> (\<forall>p. r \<noteq> Inr \<lparr>Duplicate = False, Payload = p\<rparr>)
      \<or> commit_applied R ?req s s' \<and> r \<in> {Inl ErrRedis, Inr \<lparr>Duplicate = False, Payload = cs_Payload spec\<rparr>}"
    using Commit_all_or_nothing [OF spec_commit_keys [OF assms(1)]] by (simp add: commit_request_def)
  moreover have "cs_IdemKey spec \<noteq> []" using assms(1) by (rule spec_idem_nonempty)
  ultimately show ?thesis
    using Inr assms(2) by (auto simp: commit_applied_def spec_stored_def commit_request_def)
qed

text \<open>A repetition under an order key that is already there is answered from it.\<close>

lemma lobby_commit_duplicate:
  assumes "spec_keys_ok ks uid spec" "0 < o_orderTTL o1" "Encode J (cs_Entries spec) = Inr bs"
    and "GET R s (cs_IdemKey spec) = Some pay"
  shows "lobby_commit R ks J o1 Delivered uid spec s = (s, Inr \<lparr>Duplicate = True, Payload = pay\<rparr>)"
proof -
  have "cs_IdemKey spec \<noteq> []" using assms(1) by (rule spec_idem_nonempty)
  then show ?thesis using Commit_again [of "commit_request ks o1 uid spec bs" s pay ks] assms
    by (simp add: lobby_commit_def commit_request_def)
qed

text \<open>A new order of the current owner goes through; if only its reply is lost, it has gone through
  all the same.\<close>

lemma lobby_commit_fresh:
  assumes "spec_keys_ok ks uid spec" "0 < o_orderTTL o1" "Encode J (cs_Entries spec) = Inr bs"
    and "GET R s (cs_IdemKey spec) = None" "num_or0 R s (keys_Epoch ks (o_Shard o1)) = Some c" "c \<le> o_Epoch o1"
  shows "\<exists>s'. lobby_commit R ks J o1 Delivered uid spec s = (s', Inr \<lparr>Duplicate = False, Payload = cs_Payload spec\<rparr>)
    \<and> lobby_commit R ks J o1 ReplyLost uid spec s = (s', Inl ErrRedis)"
  using assms spec_idem_nonempty [OF assms(1)]
  by (simp add: lobby_commit_def Commit_eq commit_request_def Let_def run_def through_reply_def)

end

end
