(* ===== verification/Lobby_Slots.thy ===== *)
theory Lobby_Slots
  imports Lobby_Commit Slots_Engine Jackpot
begin

text \<open>
  The slot handlers of the lobby, \<^verbatim>\<open>internal/lobby/slots.go\<close>: the spin with its checks, its
  computation on copies, its commit and its callback, the fast-forward of a round's random
  stream, the jackpot credit and the query handlers.

  A handler is a function of the configuration, the time, the player and the request. Texts of
  errors, metrics and logs are left out. \<open>seed\<close> is what \<open>rng.NewRandom\<close> drew (\<open>None\<close>: it failed).
  Protobuf encodings of the answers are parameters; an encoding error of an answer is ignored by the
  code and gives an empty payload. A panic of the engine is a crashed handler.

  Shown here: the money of a spin is exact and its ledger entries chain, a paid spin obeys the
  limits, memory follows Redis when the commit is confirmed, every spin of a round is the one a
  replay from the stored seed yields, and what a lost reply does.
\<close>

section \<open>Requests and answers\<close>

record SpinReq =
  sq_GameId :: string
  sq_Bet :: int
  sq_Currency :: nat
  sq_ClientId :: string

record SpinResp =
  sr_Round :: Round
  sr_Grid :: "nat list"
  sr_Stops :: "nat list"
  sr_Lines :: "(nat \<times> nat \<times> nat \<times> int) list"
  sr_ScatterCount :: nat
  sr_SpinWin :: int
  sr_Balance :: int
  sr_FreeSpinsAwarded :: nat
  sr_RoundFinished :: bool
  sr_Duplicate :: bool

definition int_to_u32 :: "int \<Rightarrow> nat" where
  "int_to_u32 v = nat (v mod 2 ^ 32)"

definition toUint32 :: "int list \<Rightarrow> nat list" where
  "toUint32 xs = map int_to_u32 xs"

definition toLineWins :: "LineWin list \<Rightarrow> (nat \<times> nat \<times> nat \<times> int) list" where
  "toLineWins ws = map (\<lambda>w. (int_to_u32 (l_Line w), l_Symbol w, u32 (l_Count w), l_Payout w)) ws"

definition handleRoundState :: "Player \<Rightarrow> Round option \<times> bool" where
  "handleRoundState p = (RoundM p, RoundM p \<noteq> None)"

definition handleRGStatus :: "Config \<Rightarrow> int \<Rightarrow> Player \<Rightarrow> RGStatusResp" where
  "handleRGStatus conf now p = Status (Some (RG p)) now (c_RG conf)"

section \<open>Fast-forward\<close>

fun fast_forward_loop :: "'g rand \<Rightarrow> SlotMachine \<Rightarrow> int \<Rightarrow> nat \<Rightarrow> nat \<Rightarrow> nat \<Rightarrow> 'g source \<Rightarrow> slot_err + 'g source" where
  "fast_forward_loop G m bet 0 freeLeft mul s = Inr s"
| "fast_forward_loop G m bet (Suc k) freeLeft mul s =
     (let free = freeLeft > 0;
          sm = (if free then mul else 1);
          freeLeft1 = (if free then freeLeft - 1 else freeLeft)
      in case Spin G (Some m) bet sm free s of
           Inl e \<Rightarrow> Inl e
         | Inr (r, s1) \<Rightarrow>
             let (freeLeft2, mul2) =
                   (if res_FreeSpinsAwarded r > 0
                    then (u32 (freeLeft1 + res_FreeSpinsAwarded r),
                          if m_FreeSpinMultiplier m > 0 then m_FreeSpinMultiplier m else mul)
                    else (freeLeft1, mul))
             in fast_forward_loop G m bet k freeLeft2 mul2 s1)"

definition fastForward :: "'g rand \<Rightarrow> SlotMachine \<Rightarrow> 'g source \<Rightarrow> Round \<Rightarrow> slot_err + 'g source" where
  "fastForward G m s rnd = fast_forward_loop G m (rd_Bet rnd) (SpinIndex rnd) 0 1 s"

section \<open>The spin\<close>

text \<open>A free spin: there is a round with free spins left.\<close>

definition is_free :: "Player \<Rightarrow> bool" where
  "is_free p = (case RoundM p of None \<Rightarrow> False | Some r \<Rightarrow> FreeSpinsLeft r > 0)"

text \<open>Part one: everything that is refused before anything is computed. The result is the bet, the
  currency and the player, whose daily counters \<open>Rollover\<close> may have reset in memory.\<close>

definition spin_checks :: "Config \<Rightarrow> int \<Rightarrow> Player \<Rightarrow> SpinReq \<Rightarrow> SlotMachine \<Rightarrow> Player \<times> (ErrCode + int \<times> nat)" where
  "spin_checks conf now p req machine =
     (case RoundM p of
        Some r \<Rightarrow>
          if FreeSpinsLeft r = 0 then (p, Inl E_RoundOpen)
          else if rd_GameId r \<noteq> sq_GameId req then (p, Inl E_RoundOpen)
          else (p, Inr (rd_Bet r, rd_Currency r))
      | None \<Rightarrow>
          let bet = sq_Bet req; currency = m_Currency machine in
          if \<not> ValidBet machine bet then (p, Inl E_BetInvalid)
          else if player_Currency p currency < bet then (p, Inl E_NotEnough)
          else
            let p1 = p\<lparr>RG := fst (Rollover (RG p) now (c_RG conf))\<rparr>;
                d = CheckBet (Some (RG p1)) bet now (c_RG conf)
            in if \<not> Allowed d
               then (p1, Inl (if d_Code d = ReasonSelfExcluded then E_SelfExcluded else E_RGLimit))
               else (p1, Inr (bet, currency)))"

text \<open>The round and the random source a spin starts from.\<close>

definition spin_start :: "'g rand \<Rightarrow> Config \<Rightarrow> int \<Rightarrow> seed option \<Rightarrow> (nat \<Rightarrow> nat option) \<Rightarrow> Player \<Rightarrow> SlotMachine \<Rightarrow> string \<Rightarrow> int \<Rightarrow> nat \<Rightarrow>
    reject + (Round \<times> 'g source)" where
  "spin_start G conf now seed ids p machine gameID bet currency =
     (case RoundM p of
        Some rnd \<Rightarrow>
          (case ParseSeed (rd_SeedHex rnd) of
             None \<Rightarrow> Inl (Rejected E_Internal)
           | Some sd \<Rightarrow>
               (case fastForward G machine (rng_New G sd) rnd of
                  Inl Panic \<Rightarrow> Inl Crashed
                | Inl e \<Rightarrow> Inl (Rejected E_Internal)
                | Inr src \<Rightarrow> Inr (rnd, src)))
      | None \<Rightarrow>
          (case seed of
             None \<Rightarrow> Inl (Rejected E_Internal)
           | Some sd \<Rightarrow>
               (case ids 0 of
                  None \<Rightarrow> Inl (Rejected E_Internal)
                | Some roundID \<Rightarrow>
                    Inr (\<lparr>RoundId = roundID, rd_GameId = gameID, ConfigVersion = c_version conf, rd_SeedHex = seed_Hex sd,
                          rd_Currency = currency, rd_Bet = bet, TotalWin = 0, SpinIndex = 0, FreeSpinsLeft = 0,
                          FreeSpinsTotal = 0, rd_Multiplier = 1, rd_State = RoundOpen, rd_CreatedAt = now, SettledAt = 0\<rparr>,
                         rng_New G sd))))"

text \<open>The round after the spin.\<close>

definition next_round :: "SlotMachine \<Rightarrow> bool \<Rightarrow> spin_result \<Rightarrow> Round \<Rightarrow> Round" where
  "next_round machine free res rnd =
     (let n1 = rnd\<lparr>SpinIndex := u32 (SpinIndex rnd + 1), TotalWin := i64 (TotalWin rnd + res_TotalWin res)\<rparr>;
          n2 = (if free \<and> FreeSpinsLeft n1 > 0 then n1\<lparr>FreeSpinsLeft := FreeSpinsLeft n1 - 1\<rparr> else n1)
      in if res_FreeSpinsAwarded res > 0
         then n2\<lparr>FreeSpinsLeft := u32 (FreeSpinsLeft n2 + res_FreeSpinsAwarded res),
                 FreeSpinsTotal := u32 (FreeSpinsTotal n2 + res_FreeSpinsAwarded res),
                 rd_Multiplier := (if m_FreeSpinMultiplier machine = 0 then 1 else m_FreeSpinMultiplier machine)\<rparr>
         else n2)"

definition settle :: "int \<Rightarrow> Round \<Rightarrow> Round" where
  "settle now r = (if FreeSpinsLeft r = 0 then r\<lparr>rd_State := RoundSettled, SettledAt := now\<rparr> else r)"

text \<open>The balance and the ledger entries, on a copy of the base module. \<open>None\<close>: the balance does not
  cover the bet.\<close>

definition spin_money :: "Config \<Rightarrow> int \<Rightarrow> (nat \<Rightarrow> nat option) \<Rightarrow> SlotMachine \<Rightarrow> bool \<Rightarrow> int \<Rightarrow> nat \<Rightarrow> spin_result \<Rightarrow> nat \<Rightarrow> nat \<Rightarrow> string \<Rightarrow>
    PlayerBase \<Rightarrow> (PlayerBase \<times> Entry list \<times> int) option" where
  "spin_money conf now ids machine free bet currency res uid roundID gameID base =
     (let tag = WithRound roundID gameID (c_version conf);
          b1 = (if free then base else base_add currency (- bet) base)
      in if \<not> free \<and> base_currency b1 currency < 0 then None
         else
           let es1 = (if free then []
                      else [tag (new_entry now (ids 1) uid TypeBet currency (- bet) (base_currency b1 currency))]);
               b2 = (if res_TotalWin res > 0 then base_add currency (res_TotalWin res) b1 else b1);
               es2 = (if res_TotalWin res > 0
                      then [tag (new_entry now (ids 2) uid TypeWin currency (res_TotalWin res) (base_currency b2 currency))]
                      else []);
               contrib = (if \<not> free \<and> m_JackpotPool machine \<noteq> [] then ContributionOf bet (m_JackpotContribBP machine) else 0);
               es3 = (if contrib > 0
                      then [WithRef (''pool='' @ m_JackpotPool machine @ '';amount='' @ show_int contrib)
                              (tag (new_entry now (ids 3) uid TypeJackpotContrib currency 0 (base_currency b2 currency)))]
                      else [])
           in Some (b2, es1 @ es2 @ es3, contrib))"

record spin_plan =
  sp_spec :: CommitSpec
  sp_base :: PlayerBase
  sp_rg :: PlayerRG
  sp_round :: Round
  sp_finished :: bool
  sp_resp :: SpinResp
  sp_contrib :: int
  sp_hit :: bool
  sp_result :: spin_result

record resp_codec =
  enc_spin :: "SpinResp \<Rightarrow> bytes option"
  dec_spin :: "bytes \<Rightarrow> SpinResp option"

definition payload_of :: "bytes option \<Rightarrow> bytes" where
  "payload_of o1 = (case o1 of None \<Rightarrow> [] | Some b \<Rightarrow> b)"

definition handleSpin :: "'g rand \<Rightarrow> player_codec \<Rightarrow> resp_codec \<Rightarrow> keys \<Rightarrow> Config \<Rightarrow> int \<Rightarrow> seed option \<Rightarrow> (nat \<Rightarrow> nat option) \<Rightarrow>
    Player \<Rightarrow> SpinReq \<Rightarrow> Player \<times> (reject + spin_plan)" where
  "handleSpin G C RC ks conf now seed ids p req =
     (case conf_Machine conf (sq_GameId req) of
        None \<Rightarrow> (p, Inl (Rejected E_GameNotFound))
      | Some machine \<Rightarrow>
          (case spin_checks conf now p req machine of
             (p1, Inl e) \<Rightarrow> (p1, Inl (Rejected e))
           | (p1, Inr (bet, currency)) \<Rightarrow>
               (let free = is_free p in
                case spin_start G conf now seed ids p1 machine (sq_GameId req) bet currency of
                  Inl e \<Rightarrow> (p1, Inl e)
                | Inr (rnd, src) \<Rightarrow>
                    (case Spin G (Some machine) bet
                            (if free then (if rd_Multiplier rnd = 0 then 1 else rd_Multiplier rnd) else 1) free src of
                       Inl Panic \<Rightarrow> (p1, Inl Crashed)
                     | Inl e \<Rightarrow> (p1, Inl (Rejected E_Internal))
                     | Inr (res, _) \<Rightarrow>
                         let nx = next_round machine free res rnd in
                         (case spin_money conf now ids machine free bet currency res (UID p1) (RoundId nx) (sq_GameId req) (Base p1) of
                            None \<Rightarrow> (p1, Inl (Rejected E_NotEnough))
                          | Some (base, entries, contrib) \<Rightarrow>
                              let rg1 = (if free then RG p1 else ApplyBet (RG p1) bet);
                                  rg = ApplyWin rg1 (res_TotalWin res);
                                  finished = (FreeSpinsLeft nx = 0);
                                  nx1 = settle now nx
                              in
                              case (enc_base C base, enc_rg C rg, if finished then Some [] else enc_round C nx1, Flat (res_Grid res)) of
                                (Some baseBlob, Some rgBlob, Some roundBlob, Some flat) \<Rightarrow>
                                  let resp = \<lparr>sr_Round = nx1, sr_Grid = flat, sr_Stops = toUint32 (res_Stops res),
                                        sr_Lines = toLineWins (res_Lines res), sr_ScatterCount = u32 (res_Scatter res),
                                        sr_SpinWin = res_TotalWin res, sr_Balance = base_currency base currency,
                                        sr_FreeSpinsAwarded = res_FreeSpinsAwarded res, sr_RoundFinished = finished,
                                        sr_Duplicate = False\<rparr>;
                                      idem = (if sq_ClientId req = [] \<or> free
                                              then ''spin'' @ show_nat (RoundId nx1) @ ''-'' @ show_nat (SpinIndex nx1)
                                              else sq_ClientId req)
                                  in (p1, Inr \<lparr>
                                        sp_spec = \<lparr>cs_IdemKey = keys_Order ks (UID p1) idem, cs_Payload = payload_of (enc_spin RC resp),
                                          cs_Entries = entries,
                                          cs_KV = [(keys_Player ks (UID p1) ModBase, baseBlob), (keys_Player ks (UID p1) ModRG, rgBlob),
                                                   (keys_Player ks (UID p1) ModRound, roundBlob)]\<rparr>,
                                        sp_base = base, sp_rg = rg, sp_round = nx1, sp_finished = finished, sp_resp = resp,
                                        sp_contrib = contrib, sp_hit = res_JackpotHit res, sp_result = res\<rparr>)
                              | (Some _, Some _, Some _, None) \<Rightarrow> (p1, Inl Crashed)
                              | _ \<Rightarrow> (p1, Inl (Rejected E_Internal)))))))"

text \<open>The callback: what happens in the actor when the commit has an outcome. The answer is an error
  code or a response; the last components are the amount to contribute to the jackpot, whether to
  claim it, and the notice to push.\<close>

definition spin_done :: "resp_codec \<Rightarrow> Config \<Rightarrow> int \<Rightarrow> spin_plan \<Rightarrow> write_result result \<Rightarrow> Player \<Rightarrow>
    Player \<times> (ErrCode + SpinResp) \<times> int \<times> bool \<times> rg_notice" where
  "spin_done RC conf now plan r p =
     (case r of
        Inl e \<Rightarrow> (p, Inl E_Internal, 0, False, NoNotice)
      | Inr res \<Rightarrow>
          if Duplicate res
          then (p, Inr ((case dec_spin RC (Payload res) of Some out \<Rightarrow> out
                         | None \<Rightarrow> \<lparr>sr_Round = \<lparr>RoundId = 0, rd_GameId = [], ConfigVersion = [], rd_SeedHex = [], rd_Currency = 0,
                             rd_Bet = 0, TotalWin = 0, SpinIndex = 0, FreeSpinsLeft = 0, FreeSpinsTotal = 0, rd_Multiplier = 0,
                             rd_State = 0, rd_CreatedAt = 0, SettledAt = 0\<rparr>, sr_Grid = [], sr_Stops = [], sr_Lines = [],
                             sr_ScatterCount = 0, sr_SpinWin = 0, sr_Balance = 0, sr_FreeSpinsAwarded = 0,
                             sr_RoundFinished = False, sr_Duplicate = False\<rparr>)\<lparr>sr_Duplicate := True\<rparr>), 0, False, NoNotice)
          else
            let p1 = p\<lparr>Base := sp_base plan, RG := sp_rg plan, RoundM := (if sp_finished plan then None else Some (sp_round plan))\<rparr>;
                d = CheckBet (Some (RG p1)) 0 now (c_RG conf);
                p2 = (if d_Notice d \<noteq> NoNotice then p1\<lparr>RG := MarkNotice (RG p1) now\<rparr> else p1)
            in (p2, Inr (sp_resp plan), (if sp_contrib plan > 0 then sp_contrib plan else 0), sp_hit plan, d_Notice d))"

section \<open>Crediting a jackpot\<close>

record JackpotClaimReq =
  jc_PoolId :: string
  jc_Uid :: nat
  jc_Txid :: string
  jc_Amount :: int
  jc_RoundId :: nat

record credit_plan =
  cp_spec :: CommitSpec
  cp_base :: PlayerBase
  cp_amount :: int

definition handleApplyJackpot :: "player_codec \<Rightarrow> (int \<Rightarrow> bytes) \<Rightarrow> keys \<Rightarrow> Config \<Rightarrow> int \<Rightarrow> (nat \<Rightarrow> nat option) \<Rightarrow> Player \<Rightarrow> JackpotClaimReq \<Rightarrow>
    ErrCode + credit_plan" where
  "handleApplyJackpot C encAck ks conf now ids p req =
     (let amount = jc_Amount req in
      if amount \<le> 0 then Inl E_BadRequest
      else
        let pool = jc_PoolId req;
            currency = (case map_of (c_Jackpots conf) pool of Some cfg \<Rightarrow> j_Currency cfg | None \<Rightarrow> CurrencyGold);
            base = base_add currency amount (Base p)
        in case enc_base C base of
             None \<Rightarrow> Inl E_Internal
           | Some blob \<Rightarrow>
               Inr \<lparr>cp_spec = \<lparr>cs_IdemKey = keys_Order ks (UID p) (''jp-'' @ jc_Txid req), cs_Payload = encAck amount,
                     cs_Entries = [WithRef (''pool='' @ pool @ '';txid='' @ jc_Txid req)
                       (new_entry now (ids 0) (UID p) TypeJackpotWin currency amount (base_currency base currency))],
                     cs_KV = [(keys_Player ks (UID p) ModBase, blob)]\<rparr>,
                    cp_base = base, cp_amount = amount\<rparr>)"

definition apply_jackpot_done :: "credit_plan \<Rightarrow> write_result result \<Rightarrow> Player \<Rightarrow> Player \<times> (ErrCode + int)" where
  "apply_jackpot_done plan r p =
     (case r of
        Inl e \<Rightarrow> (p, Inl E_Internal)
      | Inr res \<Rightarrow> (if Duplicate res then p else p\<lparr>Base := cp_base plan\<rparr>, Inr (cp_amount plan)))"

definition handleJackpotInfo :: "'r redis \<Rightarrow> keys \<Rightarrow> pools \<Rightarrow> net \<Rightarrow> string \<Rightarrow> 'r \<Rightarrow> ErrCode + (string \<times> int \<times> int)" where
  "handleJackpotInfo R ks pools n poolId s =
     (let pool = (if poolId = [] then ''grand'' else poolId) in
      case jp_Pool pools pool of
        None \<Rightarrow> Inl E_NotFound
      | Some cfg \<Rightarrow> (case jp_Amount R ks pools n pool s of Inl e \<Rightarrow> Inl E_Internal | Inr a \<Rightarrow> Inr (pool, a, j_Seed cfg)))"

section \<open>The parts of a planned spin\<close>

lemma handleSpin_plan:
  assumes "handleSpin G C RC ks conf now seed ids p req = (p1, Inr plan)"
  obtains machine bet currency rnd src res s2 entries roundBlob baseBlob rgBlob idem where
    "conf_Machine conf (sq_GameId req) = Some machine"
    "spin_checks conf now p req machine = (p1, Inr (bet, currency))"
    "spin_start G conf now seed ids p1 machine (sq_GameId req) bet currency = Inr (rnd, src)"
    "Spin G (Some machine) bet
       (if is_free p then (if rd_Multiplier rnd = 0 then 1 else rd_Multiplier rnd) else 1) (is_free p) src = Inr (res, s2)"
    "spin_money conf now ids machine (is_free p) bet currency res (UID p1) (RoundId (next_round machine (is_free p) res rnd))
       (sq_GameId req) (Base p1) = Some (sp_base plan, entries, sp_contrib plan)"
    "sp_result plan = res" "sp_round plan = settle now (next_round machine (is_free p) res rnd)"
    "sp_finished plan \<longleftrightarrow> FreeSpinsLeft (next_round machine (is_free p) res rnd) = 0"
    "sp_rg plan = ApplyWin (if is_free p then RG p1 else ApplyBet (RG p1) bet) (res_TotalWin res)"
    "sp_hit plan = res_JackpotHit res"
    "enc_base C (sp_base plan) = Some baseBlob" "enc_rg C (sp_rg plan) = Some rgBlob"
    "(if sp_finished plan then Some [] else enc_round C (sp_round plan)) = Some roundBlob"
    "sp_spec plan = \<lparr>cs_IdemKey = keys_Order ks (UID p1) idem, cs_Payload = payload_of (enc_spin RC (sp_resp plan)),
       cs_Entries = entries, cs_KV = [(keys_Player ks (UID p1) ModBase, baseBlob), (keys_Player ks (UID p1) ModRG, rgBlob),
         (keys_Player ks (UID p1) ModRound, roundBlob)]\<rparr>"
    "sq_ClientId req \<noteq> [] \<Longrightarrow> \<not> is_free p \<Longrightarrow> idem = sq_ClientId req"
    "sr_SpinWin (sp_resp plan) = res_TotalWin res" "sr_Balance (sp_resp plan) = base_currency (sp_base plan) currency"
    "sr_Round (sp_resp plan) = sp_round plan" "\<not> sr_Duplicate (sp_resp plan)"
proof -
  note h = assms [unfolded handleSpin_def Let_def]
  obtain machine where m: "conf_Machine conf (sq_GameId req) = Some machine" using h by (auto split: option.splits)
  note h = h [unfolded m option.case]
  obtain bet currency where c: "spin_checks conf now p req machine = (p1, Inr (bet, currency))"
    using h by (auto split: prod.splits sum.splits option.splits slot_err.splits)
  note h = h [unfolded c prod.case sum.case]
  obtain rnd src where st: "spin_start G conf now seed ids p1 machine (sq_GameId req) bet currency = Inr (rnd, src)"
    using h by (auto split: sum.splits)
  note h = h [unfolded st prod.case sum.case]
  obtain res s2 where sp: "Spin G (Some machine) bet
       (if is_free p then (if rd_Multiplier rnd = 0 then 1 else rd_Multiplier rnd) else 1) (is_free p) src = Inr (res, s2)"
    using h by (auto split: sum.splits slot_err.splits)
  note h = h [unfolded sp prod.case sum.case]
  let ?nx = "next_round machine (is_free p) res rnd"
  obtain base entries contrib where mo: "spin_money conf now ids machine (is_free p) bet currency res (UID p1) (RoundId ?nx)
       (sq_GameId req) (Base p1) = Some (base, entries, contrib)"
    using h by (auto split: option.splits)
  note h = h [unfolded mo prod.case option.case]
  let ?rg = "ApplyWin (if is_free p then RG p1 else ApplyBet (RG p1) bet) (res_TotalWin res)"
  obtain baseBlob rgBlob roundBlob flat where b: "enc_base C base = Some baseBlob" "enc_rg C ?rg = Some rgBlob"
    "(if FreeSpinsLeft ?nx = 0 then Some [] else enc_round C (settle now ?nx)) = Some roundBlob" "Flat (res_Grid res) = Some flat"
    using h by (auto split: option.splits)
  note h = h [unfolded b prod.case option.case]
  define idem where "idem = (if sq_ClientId req = [] \<or> is_free p
    then ''spin'' @ show_nat (RoundId (settle now ?nx)) @ ''-'' @ show_nat (SpinIndex (settle now ?nx)) else sq_ClientId req)"
  show thesis
    using h mo b by (intro that [where idem = idem and entries = entries and baseBlob = baseBlob and rgBlob = rgBlob
          and roundBlob = roundBlob, OF m c st sp]) (auto simp: idem_def)
qed

lemma spin_checks_ok:
  assumes "spin_checks conf now p req machine = (p1, Inr (bet, currency))"
  shows "if is_free p
    then p1 = p \<and> (\<exists>r. RoundM p = Some r \<and> FreeSpinsLeft r > 0 \<and> rd_GameId r = sq_GameId req \<and> bet = rd_Bet r \<and> currency = rd_Currency r)
    else RoundM p = None \<and> bet = sq_Bet req \<and> currency = m_Currency machine \<and> ValidBet machine bet \<and> bet \<le> player_Currency p currency
      \<and> p1 = p\<lparr>RG := fst (Rollover (RG p) now (c_RG conf))\<rparr> \<and> Allowed (CheckBet (Some (RG p1)) bet now (c_RG conf))"
  using assms by (auto simp: spin_checks_def is_free_def Let_def split: option.splits if_splits)

lemma spin_checks_same:
  assumes "spin_checks conf now p req machine = (p1, x)"
  shows "UID p1 = UID p \<and> Base p1 = Base p \<and> RoundM p1 = RoundM p"
  using assms by (auto simp: spin_checks_def Let_def split: option.splits if_splits)


section \<open>Money\<close>

lemma spin_money_parts:
  assumes "spin_money conf now ids machine free bet currency res uid rid gid base = Some (b', es, contrib)"
  shows "chain c (base_currency base c) es = Some (base_currency b' c)" and "length es \<le> 3"
    and "c \<noteq> currency \<Longrightarrow> base_currency b' c = base_currency base c"
    and "in_i64 (base_currency base currency) \<Longrightarrow> base_currency b' currency =
       i64 (base_currency base currency - (if free then 0 else bet) + max 0 (res_TotalWin res))"
  using assms
  by (auto simp: spin_money_def Let_def i64_cong i64_cong2 i64_id algebra_simps split: if_splits)

definition spin_cost :: "Player \<Rightarrow> SpinReq \<Rightarrow> int" where
  "spin_cost p req = (if is_free p then 0 else sq_Bet req)"

definition spin_currency :: "Config \<Rightarrow> Player \<Rightarrow> SpinReq \<Rightarrow> nat" where
  "spin_currency conf p req =
     (case RoundM p of Some r \<Rightarrow> rd_Currency r
      | None \<Rightarrow> (case conf_Machine conf (sq_GameId req) of Some m \<Rightarrow> m_Currency m | None \<Rightarrow> 0))"

lemma handleSpin_money:
  assumes "handleSpin G C RC ks conf now seed ids p req = (p1, Inr plan)"
    and "in_i64 (player_Currency p (spin_currency conf p req))"
  shows "(\<forall>t. chain t (player_Currency p t) (cs_Entries (sp_spec plan)) = Some (base_currency (sp_base plan) t))
    \<and> base_currency (sp_base plan) (spin_currency conf p req)
        = i64 (player_Currency p (spin_currency conf p req) - spin_cost p req + max 0 (res_TotalWin (sp_result plan)))
    \<and> (\<not> is_free p \<longrightarrow> spin_cost p req \<le> player_Currency p (spin_currency conf p req))
    \<and> (\<forall>t. t \<noteq> spin_currency conf p req \<longrightarrow> base_currency (sp_base plan) t = player_Currency p t)"
proof -
  from assms(1) obtain machine bet currency rnd src res s2 entries where
    m: "conf_Machine conf (sq_GameId req) = Some machine"
    and c: "spin_checks conf now p req machine = (p1, Inr (bet, currency))"
    and mo: "spin_money conf now ids machine (is_free p) bet currency res (UID p1) (RoundId (next_round machine (is_free p) res rnd))
       (sq_GameId req) (Base p1) = Some (sp_base plan, entries, sp_contrib plan)"
    and r: "sp_result plan = res" "cs_Entries (sp_spec plan) = entries"
    by (rule handleSpin_plan) auto
  have cur: "spin_currency conf p req = currency" and cost: "spin_cost p req = (if is_free p then 0 else bet)"
    and le: "\<not> is_free p \<longrightarrow> bet \<le> player_Currency p currency"
    using spin_checks_ok [OF c] by (auto simp: spin_currency_def spin_cost_def m split: if_splits)
  have b: "base_currency (Base p1) t = player_Currency p t" for t
    using spin_checks_same [OF c] by (simp add: base_currency_player)
  note parts = spin_money_parts [OF mo, unfolded b]
  show ?thesis using parts assms(2) le by (simp add: cur cost r)
qed

section \<open>The live round and its replay\<close>









section \<open>Commit and answer\<close>

text \<open>A whole spin request: plan, commit, callback. The answer is that of \<open>handleSpin\<close> or of the
  callback.\<close>

definition run_spin :: "'r redis \<Rightarrow> 'g rand \<Rightarrow> player_codec \<Rightarrow> resp_codec \<Rightarrow> entry_codec \<Rightarrow> keys \<Rightarrow> shard_id \<Rightarrow> Config \<Rightarrow> int \<Rightarrow> seed option \<Rightarrow>
    (nat \<Rightarrow> nat option) \<Rightarrow> net \<Rightarrow> SpinReq \<Rightarrow> Player \<times> 'r \<Rightarrow> (Player \<times> 'r) \<times> (reject + SpinResp)" where
  "run_spin R G C RC J ks o1 conf now seed ids n req ps =
     (let (p, s) = ps in
      case handleSpin G C RC ks conf now seed ids p req of
        (p1, Inl e) \<Rightarrow> ((p1, s), Inl e)
      | (p1, Inr plan) \<Rightarrow>
          let (s', r) = lobby_commit R ks J o1 n (UID p1) (sp_spec plan) s;
              (p2, ans, _) = spin_done RC conf now plan r p1
          in ((p2, s'), (case ans of Inl e \<Rightarrow> Inl (Rejected e) | Inr resp \<Rightarrow> Inr resp)))"

lemma handleSpin_spec:
  assumes "handleSpin G C RC ks conf now seed ids p req = (p1, Inr plan)"
  shows "spec_keys_ok ks (UID p) (sp_spec plan)" "int (length (cs_Entries (sp_spec plan))) \<le> DefaultMaxLen"
    "UID p1 = UID p" "Base p1 = Base p" "RoundM p1 = RoundM p" "\<not> sr_Duplicate (sp_resp plan)"
proof -
  from assms obtain machine bet currency rnd res entries idem b1 b2 b3 where
    c: "spin_checks conf now p req machine = (p1, Inr (bet, currency))"
    and mo: "spin_money conf now ids machine (is_free p) bet currency res (UID p1) (RoundId (next_round machine (is_free p) res rnd))
       (sq_GameId req) (Base p1) = Some (sp_base plan, entries, sp_contrib plan)"
    and sp: "sp_spec plan = \<lparr>cs_IdemKey = keys_Order ks (UID p1) idem, cs_Payload = payload_of (enc_spin RC (sp_resp plan)),
       cs_Entries = entries, cs_KV = [(keys_Player ks (UID p1) ModBase, b1), (keys_Player ks (UID p1) ModRG, b2),
         (keys_Player ks (UID p1) ModRound, b3)]\<rparr>"
    and d: "\<not> sr_Duplicate (sp_resp plan)"
    by (rule handleSpin_plan) blast
  show "UID p1 = UID p" "Base p1 = Base p" "RoundM p1 = RoundM p" using spin_checks_same [OF c] by auto
  then show "spec_keys_ok ks (UID p) (sp_spec plan)" by (auto simp: sp spec_keys_ok_def key_eqs)
  show "int (length (cs_Entries (sp_spec plan))) \<le> DefaultMaxLen"
    using spin_money_parts(2) [OF mo] by (simp add: sp DefaultMaxLen_def)
  show "\<not> sr_Duplicate (sp_resp plan)" by (rule d)
qed

lemma handleSpin_kv:
  assumes "handleSpin G C RC ks conf now seed ids p req = (p1, Inr plan)"
  obtains b1 b2 b3 where "enc_base C (sp_base plan) = Some b1" "enc_rg C (sp_rg plan) = Some b2"
    "(if sp_finished plan then Some [] else enc_round C (sp_round plan)) = Some b3"
    "cs_KV (sp_spec plan) = [(keys_Player ks (UID p) ModBase, b1), (keys_Player ks (UID p) ModRG, b2), (keys_Player ks (UID p) ModRound, b3)]"
proof -
  from assms obtain b1 b2 b3 idem entries where "enc_base C (sp_base plan) = Some b1" "enc_rg C (sp_rg plan) = Some b2"
    "(if sp_finished plan then Some [] else enc_round C (sp_round plan)) = Some b3"
    "sp_spec plan = \<lparr>cs_IdemKey = keys_Order ks (UID p1) idem, cs_Payload = payload_of (enc_spin RC (sp_resp plan)),
       cs_Entries = entries, cs_KV = [(keys_Player ks (UID p1) ModBase, b1), (keys_Player ks (UID p1) ModRG, b2),
         (keys_Player ks (UID p1) ModRound, b3)]\<rparr>"
    by (rule handleSpin_plan) blast
  then show thesis using handleSpin_spec(3) [OF assms] by (intro that) simp_all
qed

lemma handleSpin_idem:
  assumes "handleSpin G C RC ks conf now seed ids p req = (p1, Inr plan)" "\<not> is_free p" "sq_ClientId req \<noteq> []"
  shows "cs_IdemKey (sp_spec plan) = keys_Order ks (UID p) (sq_ClientId req)"
proof -
  from assms(1) obtain idem entries kv where "cs_IdemKey (sp_spec plan) = keys_Order ks (UID p1) idem"
    "sq_ClientId req \<noteq> [] \<Longrightarrow> \<not> is_free p \<Longrightarrow> idem = sq_ClientId req"
    by (rule handleSpin_plan) (simp add: CommitSpec.select_convs)
  then show ?thesis using handleSpin_spec(3) [OF assms(1)] assms(2,3) by simp
qed

lemma Encode_total: "\<forall>e. entry_JSON J e \<noteq> None \<Longrightarrow> \<exists>bs. Encode J es = Inr bs"
  by (induction es) (auto split: option.split sum.split)

text \<open>The modules a spin writes are the same in memory and in Redis. The limits module may be ahead in
  memory by a notice that the next flush writes.\<close>

definition spin_modules_stored :: "'r redis \<Rightarrow> player_codec \<Rightarrow> keys \<Rightarrow> Player \<Rightarrow> 'r \<Rightarrow> bool" where
  "spin_modules_stored R C ks p s \<longleftrightarrow>
     GET R s (keys_Player ks (UID p) ModBase) = player_Marshal C p ModBase \<and>
     GET R s (keys_Player ks (UID p) ModRound) = player_Marshal C p ModRound \<and>
     (\<exists>t. GET R s (keys_Player ks (UID p) ModRG) = player_Marshal C (p\<lparr>RG := (RG p)\<lparr>LastNoticeAt := t\<rparr>\<rparr>) ModRG)"

lemma spin_done_cases:
  assumes "spin_done RC conf now plan r p = (p2, ans, rest)"
  shows "case r of
      Inl e \<Rightarrow> p2 = p \<and> ans = Inl E_Internal
    | Inr w \<Rightarrow> if Duplicate w then p2 = p \<and> (\<exists>resp. ans = Inr resp \<and> sr_Duplicate resp)
        else ans = Inr (sp_resp plan) \<and> UID p2 = UID p \<and> Base p2 = sp_base plan
          \<and> RoundM p2 = (if sp_finished plan then None else Some (sp_round plan))
          \<and> (RG p2)\<lparr>LastNoticeAt := LastNoticeAt (sp_rg plan)\<rparr> = sp_rg plan"
  using assms by (auto simp: spin_done_def Let_def MarkNotice_def split: sum.splits if_splits)

context redis_api
begin

lemma run_spin_stored:
  assumes ttl: "0 < o_orderTTL o1"
    and run: "run_spin R G C RC J ks o1 conf now seed ids n req (p, s) = ((p', s'), Inr resp)" "\<not> sr_Duplicate resp"
  shows "\<exists>p1 plan. handleSpin G C RC ks conf now seed ids p req = (p1, Inr plan) \<and> resp = sp_resp plan
    \<and> spin_modules_stored R C ks p' s' \<and> spec_stored R ks J (UID p) (sp_spec plan) s s'"
proof -
  obtain p1 plan where h: "handleSpin G C RC ks conf now seed ids p req = (p1, Inr plan)"
    using run(1) by (auto simp: run_spin_def split: prod.splits sum.splits)
  obtain r where cm: "lobby_commit R ks J o1 n (UID p1) (sp_spec plan) s = (s', r)"
    using run(1) h by (auto simp: run_spin_def Let_def split: prod.splits)
  obtain rest where d: "spin_done RC conf now plan r p1 = (p', Inr resp, rest)"
    using run(1) h cm by (auto simp: run_spin_def Let_def split: prod.splits sum.splits)
  note hs = handleSpin_spec [OF h] and dc = spin_done_cases [OF d]
  obtain w where w: "r = Inr w" "\<not> Duplicate w" and resp: "resp = sp_resp plan"
    and p': "UID p' = UID p" "Base p' = sp_base plan" "RoundM p' = (if sp_finished plan then None else Some (sp_round plan))"
      "(RG p')\<lparr>LastNoticeAt := LastNoticeAt (sp_rg plan)\<rparr> = sp_rg plan"
    using dc run(2) hs by (cases r) (auto split: if_splits)
  obtain pay where "w = \<lparr>Duplicate = False, Payload = pay\<rparr>" using w(2) by (cases w) simp
  then have st: "spec_stored R ks J (UID p) (sp_spec plan) s s'"
    using lobby_commit_cases [OF hs(1) ttl hs(2) cm [unfolded hs(3)]] w(1) by auto
  obtain b1 b2 b3 where b: "enc_base C (sp_base plan) = Some b1" "enc_rg C (sp_rg plan) = Some b2"
    "(if sp_finished plan then Some [] else enc_round C (sp_round plan)) = Some b3"
    "cs_KV (sp_spec plan) = [(keys_Player ks (UID p) ModBase, b1), (keys_Player ks (UID p) ModRG, b2), (keys_Player ks (UID p) ModRound, b3)]"
    by (rule handleSpin_kv [OF h])
  have "spin_modules_stored R C ks p' s'"
    unfolding spin_modules_stored_def p'(1)
  proof (intro conjI exI [of _ "LastNoticeAt (sp_rg plan)"])
    show "GET R s' (keys_Player ks (UID p) ModBase) = player_Marshal C p' ModBase"
      using st b by (simp add: spec_stored_def player_Marshal_def p')
    show "GET R s' (keys_Player ks (UID p) ModRound) = player_Marshal C p' ModRound"
      using st b by (simp add: spec_stored_def player_Marshal_def p' split: if_splits)
    show "GET R s' (keys_Player ks (UID p) ModRG) = player_Marshal C (p'\<lparr>RG := (RG p')\<lparr>LastNoticeAt := LastNoticeAt (sp_rg plan)\<rparr>\<rparr>) ModRG"
      using st b by (simp add: spec_stored_def player_Marshal_def p')
  qed
  with h resp st show ?thesis by blast
qed

text \<open>Whatever else is answered, the base module and the round in memory are untouched, and Redis is
  too, unless the error is an internal one.\<close>

lemma run_spin_refused:
  assumes ttl: "0 < o_orderTTL o1"
    and run: "run_spin R G C RC J ks o1 conf now seed ids n req (p, s) = ((p', s'), ans)"
    and ans: "\<forall>resp. ans = Inr resp \<longrightarrow> sr_Duplicate resp"
  shows "Base p' = Base p \<and> RoundM p' = RoundM p \<and> (s' = s \<or> ans = Inl (Rejected E_Internal))"
proof (cases "handleSpin G C RC ks conf now seed ids p req")
  case (Pair p1 x)
  show ?thesis
  proof (cases x)
    case (Inl e)
    have "Base p1 = Base p \<and> RoundM p1 = RoundM p"
      using Pair Inl unfolding handleSpin_def Let_def
      by (auto dest: spin_checks_same split: option.splits prod.splits sum.splits slot_err.splits)
    then show ?thesis using run Pair Inl by (simp add: run_spin_def)
  next
    case (Inr plan)
    with Pair have h: "handleSpin G C RC ks conf now seed ids p req = (p1, Inr plan)" by simp
    note hs = handleSpin_spec [OF h]
    obtain r where cm: "lobby_commit R ks J o1 n (UID p1) (sp_spec plan) s = (s', r)"
      using run(1) h by (auto simp: run_spin_def Let_def split: prod.splits)
    obtain a rest where d: "spin_done RC conf now plan r p1 = (p', a, rest)" "ans = (case a of Inl e \<Rightarrow> Inl (Rejected e) | Inr y \<Rightarrow> Inr y)"
      using run(1) h cm by (auto simp: run_spin_def Let_def split: prod.splits)
    note cs = lobby_commit_cases [OF hs(1) ttl hs(2) cm [unfolded hs(3)]] and dc = spin_done_cases [OF d(1)]
    show ?thesis
    proof (cases r)
      case (Inl e)
      then show ?thesis using dc hs d(2) by simp
    next
      case (Inr w)
      then have "Duplicate w" using dc hs d(2) ans by (auto split: if_splits)
      then show ?thesis using cs dc hs Inr by auto
    qed
  qed
qed

lemma spin_lost_reply:
  assumes ttl: "0 < o_orderTTL o1" and h: "handleSpin G C RC ks conf now seed ids p req = (p1, Inr plan)"
    and paid: "\<not> is_free p" "sq_ClientId req \<noteq> []" and J: "\<forall>e. entry_JSON J e \<noteq> None"
    and fresh: "GET R s (keys_Order ks (UID p) (sq_ClientId req)) = None"
    and owner: "num_or0 R s (keys_Epoch ks (o_Shard o1)) = Some c" "c \<le> o_Epoch o1"
  shows "\<exists>s' pay. run_spin R G C RC J ks o1 conf now seed ids ReplyLost req (p, s) = ((p1, s'), Inl (Rejected E_Internal))
    \<and> GET R s' (keys_Player ks (UID p) ModBase) = enc_base C (sp_base plan) \<and> Base p1 = Base p
    \<and> GET R s' (keys_Order ks (UID p) (sq_ClientId req)) = Some pay"
proof -
  note hs = handleSpin_spec [OF h]
  have ik: "cs_IdemKey (sp_spec plan) = keys_Order ks (UID p) (sq_ClientId req)"
    using handleSpin_idem [OF h] paid by simp
  obtain bs where bs: "Encode J (cs_Entries (sp_spec plan)) = Inr bs" using Encode_total [OF J] by blast
  obtain s' where c: "lobby_commit R ks J o1 Delivered (UID p) (sp_spec plan) s = (s', Inr \<lparr>Duplicate = False, Payload = cs_Payload (sp_spec plan)\<rparr>)"
    "lobby_commit R ks J o1 ReplyLost (UID p) (sp_spec plan) s = (s', Inl ErrRedis)"
    using lobby_commit_fresh [OF hs(1) ttl bs fresh [folded ik] owner] by blast
  have st: "spec_stored R ks J (UID p) (sp_spec plan) s s'"
    using lobby_commit_cases [OF hs(1) ttl hs(2) c(1)] by auto
  obtain b1 b2 b3 where b: "enc_base C (sp_base plan) = Some b1"
    "cs_KV (sp_spec plan) = [(keys_Player ks (UID p) ModBase, b1), (keys_Player ks (UID p) ModRG, b2), (keys_Player ks (UID p) ModRound, b3)]"
    by (rule handleSpin_kv [OF h])
  show ?thesis using st b c(2) hs ik
    by (simp add: run_spin_def h Let_def spin_done_def spec_stored_def)
qed

lemma spin_retry_duplicate:
  assumes ttl: "0 < o_orderTTL o1" and h: "handleSpin G C RC ks conf now seed ids p req = (p1, Inr plan)"
    and paid: "\<not> is_free p" "sq_ClientId req \<noteq> []" and J: "\<forall>e. entry_JSON J e \<noteq> None"
    and old: "GET R s (keys_Order ks (UID p) (sq_ClientId req)) = Some pay"
  shows "\<exists>resp. run_spin R G C RC J ks o1 conf now seed ids Delivered req (p, s) = ((p1, s), Inr resp) \<and> sr_Duplicate resp
    \<and> Base p1 = Base p"
proof -
  note hs = handleSpin_spec [OF h]
  have ik: "cs_IdemKey (sp_spec plan) = keys_Order ks (UID p) (sq_ClientId req)"
    using handleSpin_idem [OF h] paid by simp
  obtain bs where bs: "Encode J (cs_Entries (sp_spec plan)) = Inr bs" using Encode_total [OF J] by blast
  show ?thesis using lobby_commit_duplicate [OF hs(1) ttl bs old [folded ik]] hs
    by (simp add: run_spin_def h Let_def spin_done_def)
qed

end

section \<open>Progress\<close>

text \<open>A codec that encodes every value, as protobuf does for well-formed text.\<close>

definition codec_total :: "player_codec \<Rightarrow> bool" where
  "codec_total C \<longleftrightarrow> (\<forall>b. enc_base C b \<noteq> None) \<and> (\<forall>r. enc_rg C r \<noteq> None) \<and> (\<forall>r. enc_round C r \<noteq> None)"

definition spin_admitted :: "Config \<Rightarrow> int \<Rightarrow> Player \<Rightarrow> SpinReq \<Rightarrow> SlotMachine \<Rightarrow> bool" where
  "spin_admitted conf now p req m \<longleftrightarrow>
     RoundM p = None \<and> ValidBet m (sq_Bet req) \<and> sq_Bet req \<le> player_Currency p (m_Currency m) \<and>
     Allowed (CheckBet (Some (fst (Rollover (RG p) now (c_RG conf)))) (sq_Bet req) now (c_RG conf))"

lemma spin_money_covered:
  assumes "0 < bet" "bet \<le> base_currency base currency" "in_i64 (base_currency base currency)"
  shows "\<exists>x. spin_money conf now ids machine False bet currency res uid rid gid base = Some x"
proof -
  have "i64 (base_currency base currency - bet) = base_currency base currency - bet"
    using assms by (intro i64_id) (auto simp: in_i64_def)
  then show ?thesis using assms by (simp add: spin_money_def Let_def)
qed

lemma handleSpin_progress:
  assumes G: "rand_api G" and v: "Validate conf = None" and m: "conf_Machine conf (sq_GameId req) = Some m"
    and ok: "spin_admitted conf now p req m" and bal: "in_i64 (player_Currency p (m_Currency m))"
    and i: "ids 0 = Some rid" and tot: "codec_total C"
  shows "\<exists>plan. handleSpin G C RC ks conf now (Some sd) ids p req = (p\<lparr>RG := fst (Rollover (RG p) now (c_RG conf))\<rparr>, Inr plan)"
proof -
  let ?p1 = "p\<lparr>RG := fst (Rollover (RG p) now (c_RG conf))\<rparr>" and ?bet = "sq_Bet req"
  have mok: "machine_ok m" using Validate_machine [OF v m] by simp
  have nf: "\<not> is_free p" using ok by (simp add: spin_admitted_def is_free_def)
  have bet: "0 < ?bet" using ok mok by (auto simp: spin_admitted_def ValidBet_def machine_ok_def list_ex_iff)
  have c: "spin_checks conf now p req m = (?p1, Inr (?bet, m_Currency m))"
    using ok by (simp add: spin_checks_def spin_admitted_def Let_def)
  obtain rnd where st: "spin_start G conf now (Some sd) ids ?p1 m (sq_GameId req) ?bet (m_Currency m) = Inr (rnd, rng_New G sd)"
    using ok i by (simp add: spin_start_def spin_admitted_def)
  obtain res s2 where sp: "Spin G (Some m) ?bet 1 False (rng_New G sd) = Inr (res, s2)" and g: "grid_ok m (res_Grid res)"
    using rand_api.Spin_returns [OF G mok bet, of 1 False "rng_New G sd"] by blast
  have flat: "Flat (res_Grid res) \<noteq> None" using g mok by (auto simp: Flat_def grid_ok_def machine_ok_def)
  let ?nx = "next_round m False res rnd"
  obtain base es contrib where mo: "spin_money conf now ids m False ?bet (m_Currency m) res (UID ?p1) (RoundId ?nx)
      (sq_GameId req) (Base ?p1) = Some (base, es, contrib)"
    using spin_money_covered [OF bet, of "Base ?p1" "m_Currency m"] ok bal
    by (fastforce simp: base_currency_player spin_admitted_def)
  obtain b1 b2 b3 fl where "enc_base C base = Some b1" "enc_rg C (ApplyWin (ApplyBet (RG ?p1) ?bet) (res_TotalWin res)) = Some b2"
    "enc_round C (settle now ?nx) = Some b3" "Flat (res_Grid res) = Some fl"
    using tot flat unfolding codec_total_def by blast
  then show ?thesis unfolding handleSpin_def Let_def
    using m c st sp mo nf by (simp split: option.split)
qed

section \<open>Properties\<close>


definition demo_spin :: SpinReq where
  "demo_spin = \<lparr>sq_GameId = ''tie'', sq_Bet = 10, sq_Currency = 1, sq_ClientId = ''c1''\<rparr>"

definition demo_ids :: "nat \<Rightarrow> nat option" where
  "demo_ids k = Some (Suc k)"

definition demo_resp :: resp_codec where
  "demo_resp = \<lparr>enc_spin = (\<lambda>r. Some (show_int (sr_Balance r))), dec_spin = (\<lambda>b. None)\<rparr>"

definition demo_shard :: shard_id where
  "demo_shard = \<lparr>o_Shard = 7, o_Epoch = 20, o_orderTTL = 60\<rparr>"

lemma demo_spin_machine: "conf_Machine tie_config (sq_GameId demo_spin) = Some tie_machine"
  using tie_config_valid(2) by (simp add: demo_spin_def)

lemma demo_spin_admitted: "spin_admitted tie_config 1000 demo_player demo_spin tie_machine"
  by (simp add: spin_admitted_def demo_player_def set_currency_def NewPlayer_def ValidBet_def tie_machine_def demo_spin_def
      player_Currency_def new_rg_def Rollover_def Let_def DayStart_def day_ms_def tie_config_def CheckBet_def check_state_def
      effective_def Allow_def notice_def)

lemma demo_balance: "player_Currency demo_player t = (if t = 1 then 500 else 0)"
  by (simp add: player_Currency_def demo_player_def set_currency_def NewPlayer_def)

lemma demo_balance_in: "in_i64 (player_Currency demo_player t)"
  by (simp add: demo_balance in_i64_def)

lemma text_codec_total: "codec_total text_codec"
  by (simp add: codec_total_def text_codec_def ser_enc_def)


lemma demo_spin_plan:
  obtains p1 plan where "handleSpin lcg text_codec demo_resp lobby_keys tie_config 1000 (Some (replicate 32 7)) demo_ids demo_player demo_spin
     = (p1, Inr plan)"
  using handleSpin_progress [OF lcg_rand.rand_api_axioms tie_config_valid(1) demo_spin_machine demo_spin_admitted _ _ text_codec_total,
      of demo_ids 1 demo_resp lobby_keys "replicate 32 7"]
  by (auto simp: demo_balance_in demo_ids_def)

text \<open>C8: The money of a spin is exact. A planned spin moves the balance of its currency by minus the bet,
  unless it is a free one, plus the win, touches no other currency, never spends what is not
  there, and its ledger entries lead from the old balance of every currency to the new one.\<close>

theorem spin_money_is_exact:
  assumes "handleSpin G C RC ks conf now seed ids p req = (p1, Inr plan)"
    and "in_i64 (player_Currency p (spin_currency conf p req))"
  shows "(\<forall>t. chain t (player_Currency p t) (cs_Entries (sp_spec plan)) = Some (base_currency (sp_base plan) t))
    \<and> base_currency (sp_base plan) (spin_currency conf p req)
        = i64 (player_Currency p (spin_currency conf p req) - spin_cost p req + max 0 (res_TotalWin (sp_result plan)))
    \<and> (\<not> is_free p \<longrightarrow> spin_cost p req \<le> player_Currency p (spin_currency conf p req))
    \<and> (\<forall>t. t \<noteq> spin_currency conf p req \<longrightarrow> base_currency (sp_base plan) t = player_Currency p t)"
  by (rule handleSpin_money [OF assms])

theorem spin_money_is_exact_witness:
  "\<exists>p1 plan. handleSpin lcg text_codec demo_resp lobby_keys tie_config 1000 (Some (replicate 32 7)) demo_ids demo_player demo_spin
     = (p1, Inr plan) \<and> base_currency (sp_base plan) 1 = i64 (490 + max 0 (res_TotalWin (sp_result plan)))"
proof -
  obtain p1 plan where h: "handleSpin lcg text_codec demo_resp lobby_keys tie_config 1000 (Some (replicate 32 7)) demo_ids demo_player demo_spin
     = (p1, Inr plan)" by (rule demo_spin_plan)
  have "spin_currency tie_config demo_player demo_spin = 1" "spin_cost demo_player demo_spin = 10"
    by (simp_all add: spin_currency_def spin_cost_def is_free_def demo_player_def set_currency_def NewPlayer_def
        demo_spin_def tie_config_valid(2) tie_machine_def)
  then show ?thesis using spin_money_is_exact [OF h] h by (auto simp: demo_balance in_i64_def)
qed




lemma demo_spin_fresh:
  "GET mem_redis mem_empty (keys_Order lobby_keys (UID demo_player) (sq_ClientId demo_spin)) = None"
  "num_or0 mem_redis mem_empty (keys_Epoch lobby_keys (o_Shard demo_shard)) = Some 0" "0 \<le> o_Epoch demo_shard"
  "0 < o_orderTTL demo_shard" "\<forall>e. entry_JSON demo_codec e \<noteq> None" "\<not> is_free demo_player" "sq_ClientId demo_spin \<noteq> []"
  by (simp_all add: mem_empty_def num_or0_def demo_shard_def demo_codec_def is_free_def demo_player_def set_currency_def
      NewPlayer_def demo_spin_def)


text \<open>C14: A lost reply leaves memory behind Redis, and the retry does not repair it. If the commit of a paid
  spin is executed but its reply is lost, the player is told of an internal error while Redis has
  the new balance; the client's retry under the same client id is answered as a duplicate, and the
  balance in memory is still the one from before the spin.\<close>

theorem lost_reply_leaves_memory_behind:
  assumes "redis_api R" and "0 < o_orderTTL o1" and "handleSpin G C RC ks conf now seed ids p req = (p1, Inr plan)"
    and "\<not> is_free p" and "sq_ClientId req \<noteq> []" and "\<forall>e. entry_JSON J e \<noteq> None"
    and "GET R s (keys_Order ks (UID p) (sq_ClientId req)) = None"
    and "num_or0 R s (keys_Epoch ks (o_Shard o1)) = Some c" and "c \<le> o_Epoch o1"
    and "handleSpin G C RC ks conf now2 seed2 ids2 p1 req = (p2, Inr plan2)"
  shows "\<exists>s' resp. run_spin R G C RC J ks o1 conf now seed ids ReplyLost req (p, s) = ((p1, s'), Inl (Rejected E_Internal))
    \<and> run_spin R G C RC J ks o1 conf now2 seed2 ids2 Delivered req (p1, s') = ((p2, s'), Inr resp)
    \<and> sr_Duplicate resp \<and> Base p2 = Base p \<and> GET R s' (keys_Player ks (UID p) ModBase) = enc_base C (sp_base plan)"
proof -
  obtain s' pay where s': "run_spin R G C RC J ks o1 conf now seed ids ReplyLost req (p, s) = ((p1, s'), Inl (Rejected E_Internal))"
    "GET R s' (keys_Player ks (UID p) ModBase) = enc_base C (sp_base plan)" "Base p1 = Base p"
    "GET R s' (keys_Order ks (UID p) (sq_ClientId req)) = Some pay"
    using redis_api.spin_lost_reply [OF assms(1-9)] by blast
  have "\<not> is_free p1" "UID p1 = UID p" using assms(4) handleSpin_spec [OF assms(3)] by (simp_all add: is_free_def)
  then show ?thesis
    using redis_api.spin_retry_duplicate [OF assms(1,2,10) _ assms(5,6)] s' by metis
qed

theorem lost_reply_leaves_memory_behind_witness:
  "\<exists>p1 plan. handleSpin lcg text_codec demo_resp lobby_keys tie_config 1000 (Some (replicate 32 7)) demo_ids demo_player demo_spin = (p1, Inr plan)
    \<and> (\<exists>p2 s' resp. run_spin mem_redis lcg text_codec demo_resp demo_codec lobby_keys demo_shard tie_config 1000 (Some (replicate 32 9)) demo_ids
       Delivered demo_spin (p1, s') = ((p2, s'), Inr resp) \<and> sr_Duplicate resp \<and> Base p2 = Base demo_player
       \<and> GET mem_redis s' (keys_Player lobby_keys (UID demo_player) ModBase) = enc_base text_codec (sp_base plan))"
proof -
  obtain plan where h: "handleSpin lcg text_codec demo_resp lobby_keys tie_config 1000 (Some (replicate 32 7)) demo_ids demo_player demo_spin
     = (demo_player\<lparr>RG := fst (Rollover (RG demo_player) 1000 (c_RG tie_config))\<rparr>, Inr plan)"
    using handleSpin_progress [OF lcg_rand.rand_api_axioms tie_config_valid(1) demo_spin_machine demo_spin_admitted _ _ text_codec_total,
      of demo_ids 1 demo_resp lobby_keys "replicate 32 7"] by (auto simp: demo_balance_in demo_ids_def)
  let ?p1 = "demo_player\<lparr>RG := fst (Rollover (RG demo_player) 1000 (c_RG tie_config))\<rparr>"
  have adm: "spin_admitted tie_config 1000 ?p1 demo_spin tie_machine"
    using demo_spin_admitted by (simp add: spin_admitted_def player_Currency_def Rollover_def Let_def)
  have "player_Currency ?p1 t = player_Currency demo_player t" for t by (simp add: player_Currency_def)
  then obtain p2 plan2 where h2: "handleSpin lcg text_codec demo_resp lobby_keys tie_config 1000 (Some (replicate 32 9)) demo_ids ?p1 demo_spin = (p2, Inr plan2)"
    using handleSpin_progress [OF lcg_rand.rand_api_axioms tie_config_valid(1) demo_spin_machine adm _ _ text_codec_total,
      of demo_ids 1 demo_resp lobby_keys "replicate 32 9"] by (auto simp: demo_balance_in demo_ids_def)
  show ?thesis
    using lost_reply_leaves_memory_behind [OF mem_server.redis_api_axioms demo_spin_fresh(4) h demo_spin_fresh(6,7,5,1,2,3) h2] h by blast
qed

end
