(* ===== verification/Lobby_Gacha.thy ===== *)
theory Lobby_Gacha
  imports Lobby_Slots
begin

text \<open>
  Drawing from a card pool, \<^verbatim>\<open>internal/lobby/gacha.go\<close>: one draw with its two pity
  counters, the pity state of a pool, the handler and its callback.

  The pity state is a pointer into the copy of the player's gacha module; here it is an index into
  the list of states, and the updated state is written back there. The bag is changed on a
  temporary player, as in the code. \<open>None\<close> is a panic.

  Shown here: the pity counters guarantee a drop of the promised rarity in time, a ten-pull
  contains a high rarity, and a request takes its price and delivers its drops exactly.
\<close>

section \<open>One draw\<close>

text \<open>\<open>WeightedPick\<close> over the entries whose rarity is high enough. The inner \<open>None\<close> is the code's \<open>nil\<close>.\<close>

definition pickByRarity :: "'g rand \<Rightarrow> GachaPool \<Rightarrow> nat \<Rightarrow> 'g source \<Rightarrow> (GachaEntry option \<times> 'g source) option" where
  "pickByRarity G pool minRarity s =
     (let es = filter (\<lambda>e. g_Rarity e \<ge> minRarity) (p_Entries pool) in
      if es = [] then Some (None, s)
      else case WeightedPick G (map g_Weight es) s of
             None \<Rightarrow> None
           | Some (pick, s') \<Rightarrow>
               if pick < 0 then Some (None, s')
               else (case go_index es pick of None \<Rightarrow> None | Some e \<Rightarrow> Some (Some e, s')))"

definition draw_weighted :: "'g rand \<Rightarrow> GachaPool \<Rightarrow> GachaPityState \<Rightarrow> 'g source \<Rightarrow>
    ((GachaEntry \<times> bool) option \<times> GachaPityState \<times> 'g source) option" where
  "draw_weighted G pool pity s =
     (case WeightedPick G (map g_Weight (p_Entries pool)) s of
        None \<Rightarrow> None
      | Some (idx, s') \<Rightarrow>
          if idx < 0 then Some (None, pity, s')
          else (case go_index (p_Entries pool) idx of
                  None \<Rightarrow> None
                | Some e \<Rightarrow>
                    Some (Some (e, False),
                      (if g_Rarity e \<ge> p_TopRarity pool then pity\<lparr>SinceTop := 0, SinceHigh := 0\<rparr>
                       else if g_Rarity e \<ge> p_HighRarity pool then pity\<lparr>SinceHigh := 0\<rparr>
                       else pity), s')))"

definition draw_high :: "'g rand \<Rightarrow> GachaPool \<Rightarrow> bool \<Rightarrow> GachaPityState \<Rightarrow> 'g source \<Rightarrow>
    ((GachaEntry \<times> bool) option \<times> GachaPityState \<times> 'g source) option" where
  "draw_high G pool forceHigh pity s =
     (if (p_PityHigh pool > 0 \<and> SinceHigh pity \<ge> p_PityHigh pool) \<or> forceHigh
      then (case pickByRarity G pool (p_HighRarity pool) s of
              None \<Rightarrow> None
            | Some (Some e, s') \<Rightarrow>
                Some (Some (e, True),
                  (let q = pity\<lparr>SinceHigh := 0\<rparr> in if g_Rarity e \<ge> p_TopRarity pool then q\<lparr>SinceTop := 0\<rparr> else q), s')
            | Some (None, s') \<Rightarrow> draw_weighted G pool pity s')
      else draw_weighted G pool pity s)"

definition drawOne :: "'g rand \<Rightarrow> GachaPool \<Rightarrow> GachaPityState \<Rightarrow> bool \<Rightarrow> 'g source \<Rightarrow>
    ((GachaEntry \<times> bool) option \<times> GachaPityState \<times> 'g source) option" where
  "drawOne G pool pity0 forceHigh s =
     (let pity = pity0\<lparr>TotalDraws := u64 (TotalDraws pity0 + 1), SinceTop := u32 (SinceTop pity0 + 1),
            SinceHigh := u32 (SinceHigh pity0 + 1)\<rparr>
      in if p_PityTop pool > 0 \<and> SinceTop pity \<ge> p_PityTop pool
         then (case pickByRarity G pool (p_TopRarity pool) s of
                 None \<Rightarrow> None
               | Some (Some e, s') \<Rightarrow> Some (Some (e, True), pity\<lparr>SinceTop := 0, SinceHigh := 0\<rparr>, s')
               | Some (None, s') \<Rightarrow> draw_high G pool forceHigh pity s')
         else draw_high G pool forceHigh pity s)"

definition pityStateOf :: "PlayerGacha \<Rightarrow> string \<Rightarrow> PlayerGacha \<times> nat" where
  "pityStateOf g poolID =
     (case find_index (\<lambda>st. gp_PoolId st = poolID) 0 (Pools g) of
        Some (_, i) \<Rightarrow> (g, i)
      | None \<Rightarrow> (g\<lparr>Pools := Pools g @ [\<lparr>gp_PoolId = poolID, SinceTop = 0, SinceHigh = 0, TotalDraws = 0\<rparr>]\<rparr>, length (Pools g)))"

definition min32 :: "nat \<Rightarrow> nat \<Rightarrow> nat" where
  "min32 a b = (if a < b then a else b)"

section \<open>The handler\<close>

definition MaxDrawsPerRequest :: nat where
  "MaxDrawsPerRequest = 10"

record GachaReq =
  gq_PoolId :: string
  gq_Times :: nat
  gq_ClientId :: string

record GachaDrop =
  gd_TplId :: nat
  gd_Rarity :: nat
  gd_Count :: int
  gd_ByPity :: bool

record GachaResp =
  gr_Drops :: "GachaDrop list"
  gr_PityCounter :: nat
  gr_Balance :: int
  gr_Duplicate :: bool

definition show_bool :: "bool \<Rightarrow> string" where
  "show_bool b = (if b then ''true'' else ''false'')"

text \<open>The loop over the draws. The call sites of \<open>NextID\<close> in turn \<open>i\<close> are \<open>2i + 1\<close> and \<open>2i + 2\<close>.\<close>

fun draw_loop :: "'g rand \<Rightarrow> Config \<Rightarrow> GachaPool \<Rightarrow> int \<Rightarrow> (nat \<Rightarrow> nat option) \<Rightarrow> nat \<Rightarrow> nat list \<Rightarrow> bool \<Rightarrow> GachaPityState \<Rightarrow> Player \<Rightarrow> 'g source \<Rightarrow>
    reject + (GachaPityState \<times> Player \<times> GachaDrop list \<times> Entry list)" where
  "draw_loop G conf pool now ids tms [] gotHigh pity tmp s = Inr (pity, tmp, [], [])"
| "draw_loop G conf pool now ids tms (i # turns) gotHigh pity tmp s =
     (let lastOfTen = (p_TenPullGuarantee pool \<and> tms \<ge> 10 \<and> i = tms - 1 \<and> \<not> gotHigh) in
      case drawOne G pool pity lastOfTen s of
        None \<Rightarrow> Inl Crashed
      | Some (None, _) \<Rightarrow> Inl (Rejected E_Internal)
      | Some (Some (e, byPity), pity1, s1) \<Rightarrow>
          let cnt = (if g_Count e \<le> 0 then 1 else g_Count e) in
          (case ids (2 * i + 1) of
             None \<Rightarrow> Inl (Rejected E_Internal)
           | Some iid \<Rightarrow>
               (case AddItem iid (g_TplID e) cnt now (Stackable conf (g_TplID e)) tmp of
                  (_, None) \<Rightarrow> Inl (Rejected E_BagFull)
                | (tmp1, Some _) \<Rightarrow>
                    (case draw_loop G conf pool now ids tms turns (gotHigh \<or> g_Rarity e \<ge> p_HighRarity pool) pity1 tmp1 s1 of
                       Inl x \<Rightarrow> Inl x
                     | Inr (pity2, tmp2, drops, entries) \<Rightarrow>
                         Inr (pity2, tmp2,
                           \<lparr>gd_TplId = g_TplID e, gd_Rarity = g_Rarity e, gd_Count = cnt, gd_ByPity = byPity\<rparr> # drops,
                           WithRef (''pool='' @ p_ID pool @ '';tpl='' @ show_nat (g_TplID e) @ '';rarity='' @ show_nat (g_Rarity e) @
                                    '';pity='' @ show_bool byPity)
                             (new_entry now (ids (2 * i + 2)) (UID tmp) TypeGachaDrop 0 0 0) # entries)))))"

record gacha_plan =
  gp_spec :: CommitSpec
  gp_base :: PlayerBase
  gp_bag :: PlayerBag
  gp_gacha :: PlayerGacha
  gp_resp :: GachaResp

record gacha_codec =
  enc_gresp :: "GachaResp \<Rightarrow> bytes option"
  dec_gresp :: "bytes \<Rightarrow> GachaResp option"

definition handleGacha :: "'g rand \<Rightarrow> player_codec \<Rightarrow> gacha_codec \<Rightarrow> keys \<Rightarrow> Config \<Rightarrow> int \<Rightarrow> int \<Rightarrow> seed option \<Rightarrow> (nat \<Rightarrow> nat option) \<Rightarrow>
    Player \<Rightarrow> GachaReq \<Rightarrow> reject + gacha_plan" where
  "handleGacha G C GC ks conf now nano seed ids p req =
     (case conf_Pool conf (gq_PoolId req) of
        None \<Rightarrow> Inl (Rejected E_GachaPool)
      | Some pool \<Rightarrow>
          let tms = (if gq_Times req = 0 then 1 else gq_Times req) in
          if tms > MaxDrawsPerRequest then Inl (Rejected E_BadRequest)
          else
            let cost = i64 (p_Cost pool * int tms) in
            if player_Currency p (p_Currency pool) < cost then Inl (Rejected E_NotEnough)
            else case seed of
              None \<Rightarrow> Inl (Rejected E_Internal)
            | Some sd \<Rightarrow>
                let src = rng_New G sd;
                    base = base_add (p_Currency pool) (- cost) (Base p);
                    balance = base_currency base (p_Currency pool)
                in if balance < 0 then Inl (Rejected E_NotEnough)
                else
                  let (g1, ix) = pityStateOf (Gacha p) (p_ID pool);
                      e0 = WithRef (''pool='' @ p_ID pool @ '';times='' @ show_nat tms @ '';seed='' @ SeedHex src)
                             (new_entry now (ids 0) (UID p) TypeGachaCost (p_Currency pool) (- cost) balance)
                  in case draw_loop G conf pool now ids tms [0..<tms] False (Pools g1 ! ix) (p\<lparr>Base := base\<rparr>) src of
                       Inl x \<Rightarrow> Inl x
                     | Inr (pity, tmp, drops, entries) \<Rightarrow>
                         let gacha = g1\<lparr>Pools := (Pools g1)[ix := pity]\<rparr> in
                         (case (enc_base C base, enc_bag C (Bag tmp), enc_gacha C gacha) of
                            (Some baseBlob, Some bagBlob, Some gachaBlob) \<Rightarrow>
                              let resp = \<lparr>gr_Drops = drops, gr_PityCounter = p_PityTop pool - min32 (SinceTop pity) (p_PityTop pool),
                                          gr_Balance = balance, gr_Duplicate = False\<rparr>;
                                  idem = (if gq_ClientId req = [] then ''gacha'' @ p_ID pool @ ''-'' @ show_int nano else gq_ClientId req)
                              in Inr \<lparr>gp_spec = \<lparr>cs_IdemKey = keys_Order ks (UID p) idem, cs_Payload = payload_of (enc_gresp GC resp),
                                         cs_Entries = e0 # entries,
                                         cs_KV = [(keys_Player ks (UID p) ModBase, baseBlob), (keys_Player ks (UID p) ModBag, bagBlob),
                                                  (keys_Player ks (UID p) ModGacha, gachaBlob)]\<rparr>,
                                       gp_base = base, gp_bag = Bag tmp, gp_gacha = gacha, gp_resp = resp\<rparr>
                          | _ \<Rightarrow> Inl (Rejected E_Internal)))"

definition gacha_done :: "gacha_codec \<Rightarrow> gacha_plan \<Rightarrow> write_result result \<Rightarrow> Player \<Rightarrow> Player \<times> (ErrCode + GachaResp)" where
  "gacha_done GC plan r p =
     (case r of
        Inl e \<Rightarrow> (p, Inl E_Internal)
      | Inr res \<Rightarrow>
          if Duplicate res
          then (p, Inr ((case dec_gresp GC (Payload res) of Some out \<Rightarrow> out
                         | None \<Rightarrow> \<lparr>gr_Drops = [], gr_PityCounter = 0, gr_Balance = 0, gr_Duplicate = False\<rparr>)\<lparr>gr_Duplicate := True\<rparr>))
          else (p\<lparr>Base := gp_base plan, Bag := gp_bag plan, Gacha := gp_gacha plan\<rparr>, Inr (gp_resp plan)))"

section \<open>The pity counters\<close>

text \<open>The specification: the number of draws since the last one of rarity at least \<open>r\<close>.\<close>

definition since :: "nat \<Rightarrow> nat \<Rightarrow> GachaDrop list \<Rightarrow> nat" where
  "since r n ds = fold (\<lambda>d k. if gd_Rarity d \<ge> r then 0 else k + 1) ds n"

lemma since_simps [simp]:
  "since r n [] = n" "since r n (d # ds) = since r (if gd_Rarity d \<ge> r then 0 else n + 1) ds"
  by (simp_all add: since_def)

lemma since_prefix_Cons:
  "(\<forall>k. since r n (take k (d # ds)) < m) \<longleftrightarrow> n < m \<and> (\<forall>k. since r (if gd_Rarity d \<ge> r then 0 else n + 1) (take k ds) < m)"
  (is "?L \<longleftrightarrow> ?R")
proof
  assume l: ?L
  show ?R using l [rule_format, of 0] l [rule_format, of "Suc k" for k] by simp
next
  assume r: ?R
  show ?L
  proof
    fix k
    show "since r n (take k (d # ds)) < m" using r by (cases k) simp_all
  qed
qed

text \<open>A pool whose promises can be kept: some entry of each promised rarity can be drawn, and the
  weights fit an \<open>int64\<close>.\<close>

definition drawable :: "GachaPool \<Rightarrow> nat \<Rightarrow> bool" where
  "drawable pool r \<longleftrightarrow> (\<exists>e \<in> set (p_Entries pool). g_Rarity e \<ge> r \<and> 0 < g_Weight e)"

definition pool_fair :: "GachaPool \<Rightarrow> bool" where
  "pool_fair pool \<longleftrightarrow>
     pos_sum (map g_Weight (p_Entries pool)) < 2 ^ 63 \<and> p_HighRarity pool \<le> p_TopRarity pool \<and>
     0 < p_PityTop pool \<and> p_PityTop pool < 2 ^ 32 \<and> p_PityHigh pool < 2 ^ 32 \<and> drawable pool (p_TopRarity pool)"

lemma drawable_le: "drawable pool r \<Longrightarrow> r' \<le> r \<Longrightarrow> drawable pool r'"
  unfolding drawable_def by (meson le_trans)

lemma pos_sum_filter_le: "pos_sum (map w (filter P es)) \<le> pos_sum (map w es)"
  by (induction es) (auto simp: pos_sum_def)

lemma pos_sum_pos: "e \<in> set es \<Longrightarrow> 0 < w e \<Longrightarrow> 0 < pos_sum (map w es)"
proof (induction es)
  case (Cons a es)
  have "0 \<le> pos_sum (map w es)" by (rule pos_sum_nonneg)
  then show ?case using Cons by (cases "a = e") (auto simp: pos_sum_def max_def)
qed simp

definition pity_ok :: "GachaPool \<Rightarrow> GachaPityState \<Rightarrow> bool" where
  "pity_ok pool st \<longleftrightarrow> SinceTop st < p_PityTop pool \<and> (p_PityHigh pool > 0 \<longrightarrow> SinceHigh st < p_PityHigh pool)"

definition last_of_ten :: "GachaPool \<Rightarrow> nat \<Rightarrow> nat \<Rightarrow> bool \<Rightarrow> bool" where
  "last_of_ten pool tms i got \<longleftrightarrow> p_TenPullGuarantee pool \<and> tms \<ge> 10 \<and> i = tms - 1 \<and> \<not> got"

definition drop_count :: "GachaEntry \<Rightarrow> int" where
  "drop_count e = (if g_Count e \<le> 0 then 1 else g_Count e)"

text \<open>One turn of a loop that ends well.\<close>

lemma draw_loop_turn:
  assumes "draw_loop G conf pool now ids tms (i # turns) got pity tmp s = Inr (pity', tmp', drops, entries)"
  obtains e b pity1 s1 iid tmp1 it ds es where "drawOne G pool pity (last_of_ten pool tms i got) s = Some (Some (e, b), pity1, s1)"
    "AddItem iid (g_TplID e) (drop_count e) now (Stackable conf (g_TplID e)) tmp = (tmp1, Some it)"
    "draw_loop G conf pool now ids tms turns (got \<or> g_Rarity e \<ge> p_HighRarity pool) pity1 tmp1 s1 = Inr (pity', tmp', ds, es)"
    "drops = \<lparr>gd_TplId = g_TplID e, gd_Rarity = g_Rarity e, gd_Count = drop_count e, gd_ByPity = b\<rparr> # ds"
    "\<exists>oid ref. entries = WithRef ref (new_entry now oid (UID tmp) TypeGachaDrop 0 0 0) # es"
proof -
  note h = assms [unfolded draw_loop.simps Let_def, folded last_of_ten_def drop_count_def]
  obtain e b pity1 s1 where d: "drawOne G pool pity (last_of_ten pool tms i got) s = Some (Some (e, b), pity1, s1)"
    using h by (auto split: option.splits prod.splits)
  note h = h [unfolded d option.case prod.case]
  obtain iid where i: "ids (2 * i + 1) = Some iid" using h by (auto split: option.splits)
  note h = h [unfolded i option.case]
  obtain tmp1 it where a: "AddItem iid (g_TplID e) (drop_count e) now (Stackable conf (g_TplID e)) tmp = (tmp1, Some it)"
    using h by (auto split: option.splits prod.splits)
  note h = h [unfolded a option.case prod.case]
  obtain ds es where r: "draw_loop G conf pool now ids tms turns (got \<or> g_Rarity e \<ge> p_HighRarity pool) pity1 tmp1 s1 = Inr (pity', tmp', ds, es)"
    "drops = \<lparr>gd_TplId = g_TplID e, gd_Rarity = g_Rarity e, gd_Count = drop_count e, gd_ByPity = b\<rparr> # ds"
    "\<exists>oid ref. entries = WithRef ref (new_entry now oid (UID tmp) TypeGachaDrop 0 0 0) # es"
    using h by (auto split: sum.splits)
  show thesis by (rule that [OF d a r])
qed

context rand_api
begin

lemma pickByRarity_Some:
  assumes "pos_sum (map g_Weight (p_Entries pool)) < 2 ^ 63" "drawable pool r"
  shows "\<exists>e s'. pickByRarity G pool r s = Some (Some e, s') \<and> e \<in> set (p_Entries pool) \<and> r \<le> g_Rarity e"
proof -
  let ?es = "filter (\<lambda>e. g_Rarity e \<ge> r) (p_Entries pool)"
  obtain e where "e \<in> set ?es" "0 < g_Weight e" using assms(2) by (auto simp: drawable_def)
  then have "0 < pos_sum (map g_Weight ?es)" and ne: "?es \<noteq> []" by (rule pos_sum_pos, metis empty_iff empty_set)
  moreover have "pos_sum (map g_Weight ?es) < 2 ^ 63" using assms(1) pos_sum_filter_le by (rule le_less_trans [rotated])
  ultimately obtain j s' where "WeightedPick G (map g_Weight ?es) s = Some (int j, s')" "j < length ?es"
    using WeightedPick_Some [of "map g_Weight ?es" s] by auto
  then show ?thesis using ne nth_mem [of j ?es]
    by (auto simp: pickByRarity_def Let_def go_index_def)
qed

lemma draw_weighted_Some:
  assumes "pool_fair pool"
  shows "\<exists>e pity' s'. draw_weighted G pool pity s = Some (Some (e, False), pity', s') \<and> e \<in> set (p_Entries pool)
    \<and> SinceTop pity' = (if g_Rarity e \<ge> p_TopRarity pool then 0 else SinceTop pity)
    \<and> SinceHigh pity' = (if g_Rarity e \<ge> p_HighRarity pool then 0 else SinceHigh pity)"
proof -
  let ?ws = "map g_Weight (p_Entries pool)"
  have "0 < pos_sum ?ws" "pos_sum ?ws < 2 ^ 63"
    using assms by (auto simp: pool_fair_def drawable_def intro: pos_sum_pos)
  then obtain j s' where "WeightedPick G ?ws s = Some (int j, s')" "j < length (p_Entries pool)"
    using WeightedPick_Some [of ?ws s] by auto
  then show ?thesis using assms nth_mem [of j "p_Entries pool"]
    by (auto simp: draw_weighted_def go_index_def pool_fair_def)
qed

lemma draw_high_Some:
  assumes "pool_fair pool"
  shows "\<exists>e b pity' s'. draw_high G pool f pity s = Some (Some (e, b), pity', s') \<and> e \<in> set (p_Entries pool)
    \<and> SinceTop pity' = (if g_Rarity e \<ge> p_TopRarity pool then 0 else SinceTop pity)
    \<and> SinceHigh pity' = (if g_Rarity e \<ge> p_HighRarity pool then 0 else SinceHigh pity)
    \<and> ((p_PityHigh pool > 0 \<and> SinceHigh pity \<ge> p_PityHigh pool) \<or> f \<longrightarrow> g_Rarity e \<ge> p_HighRarity pool)"
proof (cases "(p_PityHigh pool > 0 \<and> SinceHigh pity \<ge> p_PityHigh pool) \<or> f")
  case True
  have "drawable pool (p_HighRarity pool)" using assms drawable_le by (auto simp: pool_fair_def)
  then obtain e s' where "pickByRarity G pool (p_HighRarity pool) s = Some (Some e, s')" "e \<in> set (p_Entries pool)"
      "p_HighRarity pool \<le> g_Rarity e"
    using pickByRarity_Some [of pool "p_HighRarity pool" s] assms by (auto simp: pool_fair_def)
  then show ?thesis using True by (auto simp: draw_high_def Let_def)
next
  case False
  then have "draw_high G pool f pity s = draw_weighted G pool pity s" by (auto simp: draw_high_def)
  then show ?thesis using draw_weighted_Some [OF assms, of pity s] False by metis
qed

lemma drawOne_Some:
  assumes fair: "pool_fair pool" and ok: "pity_ok pool pity"
  shows "\<exists>e b pity' s'. drawOne G pool pity f s = Some (Some (e, b), pity', s') \<and> e \<in> set (p_Entries pool)
    \<and> SinceTop pity' = (if g_Rarity e \<ge> p_TopRarity pool then 0 else SinceTop pity + 1)
    \<and> (p_PityHigh pool > 0 \<longrightarrow> SinceHigh pity' = (if g_Rarity e \<ge> p_HighRarity pool then 0 else SinceHigh pity + 1))
    \<and> pity_ok pool pity' \<and> (f \<longrightarrow> g_Rarity e \<ge> p_HighRarity pool)"
proof -
  define q where "q = pity\<lparr>TotalDraws := u64 (TotalDraws pity + 1), SinceTop := u32 (SinceTop pity + 1),
    SinceHigh := u32 (SinceHigh pity + 1)\<rparr>"
  have q: "SinceTop q = SinceTop pity + 1" "p_PityHigh pool > 0 \<longrightarrow> SinceHigh q = SinceHigh pity + 1"
    using fair ok by (auto simp: q_def u32_def pool_fair_def pity_ok_def)
  show ?thesis
  proof (cases "SinceTop q \<ge> p_PityTop pool")
    case True
    obtain e s' where "pickByRarity G pool (p_TopRarity pool) s = Some (Some e, s')" "e \<in> set (p_Entries pool)"
        "p_TopRarity pool \<le> g_Rarity e"
      using pickByRarity_Some [of pool "p_TopRarity pool" s] fair by (auto simp: pool_fair_def)
    moreover from this have "drawOne G pool pity f s = Some (Some (e, True), q\<lparr>SinceTop := 0, SinceHigh := 0\<rparr>, s')"
      using True fair by (simp add: drawOne_def Let_def q_def pool_fair_def)
    moreover have "p_HighRarity pool \<le> p_TopRarity pool" "0 < p_PityTop pool" using fair by (auto simp: pool_fair_def)
    ultimately show ?thesis by (intro exI conjI) (assumption | simp add: pity_ok_def)+
  next
    case False
    then have d: "drawOne G pool pity f s = draw_high G pool f q s" by (simp add: drawOne_def Let_def q_def)
    obtain e b pity' s' where dh: "draw_high G pool f q s = Some (Some (e, b), pity', s')" "e \<in> set (p_Entries pool)"
      "SinceTop pity' = (if g_Rarity e \<ge> p_TopRarity pool then 0 else SinceTop q)"
      "SinceHigh pity' = (if g_Rarity e \<ge> p_HighRarity pool then 0 else SinceHigh q)"
      "(p_PityHigh pool > 0 \<and> SinceHigh q \<ge> p_PityHigh pool) \<or> f \<longrightarrow> g_Rarity e \<ge> p_HighRarity pool"
      using draw_high_Some [OF fair, of f q s] by blast
    have "pity_ok pool pity'" using dh False fair by (auto simp: pity_ok_def pool_fair_def not_le)
    then show ?thesis unfolding d using dh q by auto
  qed
qed

text \<open>The loop: the counters follow the specification at every prefix, and the last draw of a ten-pull
  is high if no earlier one was.\<close>

lemma draw_loop_pity:
  assumes "pool_fair pool" "pity_ok pool pity"
    and "draw_loop G conf pool now ids tms turns got pity tmp s = Inr (pity', tmp', drops, entries)"
  shows "length drops = length turns \<and> pity_ok pool pity' \<and> SinceTop pity' = since (p_TopRarity pool) (SinceTop pity) drops
    \<and> (p_PityHigh pool > 0 \<longrightarrow> SinceHigh pity' = since (p_HighRarity pool) (SinceHigh pity) drops)
    \<and> (\<forall>k. since (p_TopRarity pool) (SinceTop pity) (take k drops) < p_PityTop pool)
    \<and> (p_PityHigh pool > 0 \<longrightarrow> (\<forall>k. since (p_HighRarity pool) (SinceHigh pity) (take k drops) < p_PityHigh pool))"
  using assms(2,3)
proof (induction turns arbitrary: got pity tmp s pity' tmp' drops entries)
  case Nil
  then show ?case by (simp add: pity_ok_def)
next
  case (Cons i turns)
  from Cons.prems(2) obtain e b pity1 s1 tmp1 ds es where
    d: "drawOne G pool pity (last_of_ten pool tms i got) s = Some (Some (e, b), pity1, s1)"
    and r: "draw_loop G conf pool now ids tms turns (got \<or> g_Rarity e \<ge> p_HighRarity pool) pity1 tmp1 s1 = Inr (pity', tmp', ds, es)"
    and ds: "drops = \<lparr>gd_TplId = g_TplID e, gd_Rarity = g_Rarity e, gd_Count = drop_count e, gd_ByPity = b\<rparr> # ds"
    by (rule draw_loop_turn)
  note one = drawOne_Some [OF assms(1) Cons.prems(1), of "last_of_ten pool tms i got" s, unfolded d]
  have st: "SinceTop pity1 = (if g_Rarity e \<ge> p_TopRarity pool then 0 else SinceTop pity + 1)"
    and sh: "p_PityHigh pool > 0 \<longrightarrow> SinceHigh pity1 = (if g_Rarity e \<ge> p_HighRarity pool then 0 else SinceHigh pity + 1)"
    and ok: "pity_ok pool pity1"
    using one by auto
  show ?case
    using Cons.IH [OF ok r] st sh Cons.prems(1) unfolding ds since_prefix_Cons since_simps by (auto simp: pity_ok_def split: if_splits)
qed

lemma draw_loop_ten:
  assumes "pool_fair pool" "pity_ok pool pity"
    and "draw_loop G conf pool now ids tms turns got pity tmp s = Inr (pity', tmp', drops, entries)"
    and "p_TenPullGuarantee pool" "tms \<ge> 10" "tms - 1 \<in> set turns"
  shows "got \<or> (\<exists>d \<in> set drops. gd_Rarity d \<ge> p_HighRarity pool)"
  using assms(2,3,6)
proof (induction turns arbitrary: got pity tmp s pity' tmp' drops entries)
  case (Cons i turns)
  from Cons.prems(2) obtain e b pity1 s1 tmp1 ds es where
    d: "drawOne G pool pity (last_of_ten pool tms i got) s = Some (Some (e, b), pity1, s1)"
    and r: "draw_loop G conf pool now ids tms turns (got \<or> g_Rarity e \<ge> p_HighRarity pool) pity1 tmp1 s1 = Inr (pity', tmp', ds, es)"
    and ds: "drops = \<lparr>gd_TplId = g_TplID e, gd_Rarity = g_Rarity e, gd_Count = drop_count e, gd_ByPity = b\<rparr> # ds"
    by (rule draw_loop_turn)
  note one = drawOne_Some [OF assms(1) Cons.prems(1), of "last_of_ten pool tms i got" s, unfolded d]
  have f: "last_of_ten pool tms i got \<longrightarrow> g_Rarity e \<ge> p_HighRarity pool" and ok: "pity_ok pool pity1" using one by auto
  show ?case using Cons.IH [OF ok r] Cons.prems(3) ds f assms(4,5) by (auto simp: last_of_ten_def)
qed simp

end

section \<open>What a request takes and delivers\<close>

definition drop_total :: "nat \<Rightarrow> GachaDrop list \<Rightarrow> int" where
  "drop_total tpl ds = sum_list (map gd_Count (filter (\<lambda>d. gd_TplId d = tpl) ds))"

lemma drop_total_simps [simp]:
  "drop_total tpl [] = 0" "drop_total tpl (d # ds) = (if gd_TplId d = tpl then gd_Count d else 0) + drop_total tpl ds"
  by (simp_all add: drop_total_def)

lemma draw_loop_positive:
  assumes "draw_loop G conf pool now ids tms turns got pity tmp s = Inr (pity', tmp', drops, entries)"
  shows "length drops = length turns \<and> (\<forall>d \<in> set drops. 0 < gd_Count d) \<and> (\<forall>e \<in> set entries. en_Currency e = 0 \<and> Amount e = 0 \<and> Balance e = 0)
    \<and> length entries = length turns"
  using assms
proof (induction turns arbitrary: got pity tmp s pity' tmp' drops entries)
  case (Cons i turns)
  from Cons.prems obtain e b pity1 s1 tmp1 ds es where
    r: "draw_loop G conf pool now ids tms turns (got \<or> g_Rarity e \<ge> p_HighRarity pool) pity1 tmp1 s1 = Inr (pity', tmp', ds, es)"
    and ds: "drops = \<lparr>gd_TplId = g_TplID e, gd_Rarity = g_Rarity e, gd_Count = drop_count e, gd_ByPity = b\<rparr> # ds"
    and es: "\<exists>oid ref. entries = WithRef ref (new_entry now oid (UID tmp) TypeGachaDrop 0 0 0) # es"
    by (rule draw_loop_turn)
  show ?case using Cons.IH [OF r] es by (auto simp: ds drop_count_def)
qed simp

lemma drop_total_nonneg: "\<forall>d \<in> set ds. 0 < gd_Count d \<Longrightarrow> 0 \<le> drop_total tpl ds"
  by (induction ds) auto

lemma draw_loop_items:
  assumes "draw_loop G conf pool now ids tms turns got pity tmp s = Inr (pity', tmp', drops, entries)"
    and "bag_ok (Bag tmp)" "\<forall>t. item_total t (Items (Bag tmp)) + drop_total t drops < 2 ^ 63"
  shows "bag_ok (Bag tmp') \<and> (\<forall>t. item_total t (Items (Bag tmp')) = item_total t (Items (Bag tmp)) + drop_total t drops)"
  using assms
proof (induction turns arbitrary: got pity tmp s pity' tmp' drops entries)
  case (Cons i turns)
  from Cons.prems(1) obtain e b pity1 s1 iid tmp1 it ds es where
    a: "AddItem iid (g_TplID e) (drop_count e) now (Stackable conf (g_TplID e)) tmp = (tmp1, Some it)"
    and r: "draw_loop G conf pool now ids tms turns (got \<or> g_Rarity e \<ge> p_HighRarity pool) pity1 tmp1 s1 = Inr (pity', tmp', ds, es)"
    and ds: "drops = \<lparr>gd_TplId = g_TplID e, gd_Rarity = g_Rarity e, gd_Count = drop_count e, gd_ByPity = b\<rparr> # ds"
    by (rule draw_loop_turn)
  have nn: "0 \<le> drop_total t ds" for t using draw_loop_positive [OF r] by (intro drop_total_nonneg) blast
  have "item_total (g_TplID e) (Items (Bag tmp)) + drop_count e < 2 ^ 63"
    using Cons.prems(3) [rule_format, of "g_TplID e"] nn [of "g_TplID e"] by (simp add: ds)
  with AddItem_ok [OF Cons.prems(2) _ _ a] have step: "bag_ok (Bag tmp1)"
    "item_total t (Items (Bag tmp1)) = item_total t (Items (Bag tmp)) + (if t = g_TplID e then drop_count e else 0)" for t
    by (auto simp: drop_count_def)
  have "\<forall>t. item_total t (Items (Bag tmp1)) + drop_total t ds < 2 ^ 63"
  proof
    fix t
    show "item_total t (Items (Bag tmp1)) + drop_total t ds < 2 ^ 63"
      using Cons.prems(3) [rule_format, of t] by (simp add: step ds split: if_splits)
  qed
  from Cons.IH [OF r step(1) this] show ?case by (auto simp: step ds)
qed simp

text \<open>The pity state of a pool: the one the module holds, or a new one.\<close>

definition pity_of :: "PlayerGacha \<Rightarrow> string \<Rightarrow> GachaPityState" where
  "pity_of g poolID = (case find (\<lambda>st. gp_PoolId st = poolID) (Pools g) of
     Some st \<Rightarrow> st | None \<Rightarrow> \<lparr>gp_PoolId = poolID, SinceTop = 0, SinceHigh = 0, TotalDraws = 0\<rparr>)"

definition draws_of :: "GachaReq \<Rightarrow> nat" where
  "draws_of req = (if gq_Times req = 0 then 1 else gq_Times req)"

lemma find_index_find:
  "find_index P n xs = (case List.find P xs of None \<Rightarrow> None | Some x \<Rightarrow> Some (x, n + length (takeWhile (\<lambda>y. \<not> P y) xs)))"
  by (induction xs arbitrary: n) (auto split: option.splits)

lemma find_takeWhile:
  "List.find P xs = Some x \<Longrightarrow> length (takeWhile (\<lambda>y. \<not> P y) xs) < length xs \<and> xs ! length (takeWhile (\<lambda>y. \<not> P y) xs) = x"
  by (induction xs) (auto split: if_splits)

lemma find_update_first:
  "List.find P xs = Some x \<Longrightarrow> P y \<Longrightarrow> List.find P (xs[length (takeWhile (\<lambda>y. \<not> P y) xs) := y]) = Some y"
  by (induction xs) (auto split: if_splits)

lemma find_append_None: "List.find P xs = None \<Longrightarrow> List.find P (xs @ ys) = List.find P ys"
  by (induction xs) (auto split: if_splits)

lemma pityStateOf_spec:
  assumes "pityStateOf g i = (g1, ix)" "gp_PoolId pity = i"
  shows "Pools g1 ! ix = pity_of g i" "pity_of (g1\<lparr>Pools := (Pools g1)[ix := pity]\<rparr>) i = pity"
proof -
  show "Pools g1 ! ix = pity_of g i"
    using assms(1) find_takeWhile [of "\<lambda>st. gp_PoolId st = i" "Pools g"]
    by (auto simp: pityStateOf_def pity_of_def find_index_find nth_append split: option.splits)
  show "pity_of (g1\<lparr>Pools := (Pools g1)[ix := pity]\<rparr>) i = pity"
    using assms find_update_first [of "\<lambda>st. gp_PoolId st = i" "Pools g" _ pity]
    by (auto simp: pityStateOf_def pity_of_def find_index_find find_append_None split: option.splits)
qed




lemma handleGacha_plan:
  assumes "handleGacha G C GC ks conf now nano seed ids p req = Inr plan" and pool: "conf_Pool conf (gq_PoolId req) = Some pool"
  obtains sd g1 ix pity tmp entries e0 baseBlob bagBlob gachaBlob idem where
    "draws_of req \<le> MaxDrawsPerRequest"
    "i64 (p_Cost pool * int (draws_of req)) \<le> player_Currency p (p_Currency pool)"
    "pityStateOf (Gacha p) (p_ID pool) = (g1, ix)"
    "draw_loop G conf pool now ids (draws_of req) [0..<draws_of req] False (Pools g1 ! ix)
       (p\<lparr>Base := gp_base plan\<rparr>) (rng_New G sd) = Inr (pity, tmp, gr_Drops (gp_resp plan), entries)"
    "gp_base plan = base_add (p_Currency pool) (- i64 (p_Cost pool * int (draws_of req))) (Base p)"
    "0 \<le> base_currency (gp_base plan) (p_Currency pool)"
    "gp_bag plan = Bag tmp" "gp_gacha plan = g1\<lparr>Pools := (Pools g1)[ix := pity]\<rparr>"
    "en_Currency e0 = p_Currency pool" "Amount e0 = - i64 (p_Cost pool * int (draws_of req))"
    "Balance e0 = base_currency (gp_base plan) (p_Currency pool)"
    "enc_base C (gp_base plan) = Some baseBlob" "enc_bag C (gp_bag plan) = Some bagBlob" "enc_gacha C (gp_gacha plan) = Some gachaBlob"
    "gp_spec plan = \<lparr>cs_IdemKey = keys_Order ks (UID p) idem, cs_Payload = payload_of (enc_gresp GC (gp_resp plan)),
       cs_Entries = e0 # entries, cs_KV = [(keys_Player ks (UID p) ModBase, baseBlob), (keys_Player ks (UID p) ModBag, bagBlob),
         (keys_Player ks (UID p) ModGacha, gachaBlob)]\<rparr>"
    "gr_Balance (gp_resp plan) = base_currency (gp_base plan) (p_Currency pool)" "\<not> gr_Duplicate (gp_resp plan)"
proof -
  note h = assms(1) [unfolded handleGacha_def Let_def, folded draws_of_def, unfolded pool option.case]
  have n: "(MaxDrawsPerRequest < draws_of req) = False" using h by (auto split: if_splits)
  note h = h [unfolded n if_False]
  define c where "c = i64 (p_Cost pool * int (draws_of req))"
  have le: "(player_Currency p (p_Currency pool) < c) = False" using h by (auto simp: c_def split: if_splits)
  note h = h [folded c_def, unfolded le if_False]
  obtain sd where sd: "seed = Some sd" using h by (auto split: option.splits)
  note h = h [unfolded sd option.case]
  define base where "base = base_add (p_Currency pool) (- c) (Base p)"
  have b: "(base_currency base (p_Currency pool) < 0) = False" using h by (auto simp: base_def split: if_splits)
  note h = h [folded base_def, unfolded b if_False]
  obtain g1 ix where g: "pityStateOf (Gacha p) (p_ID pool) = (g1, ix)" by fastforce
  note h = h [unfolded g prod.case]
  obtain pity tmp drops entries where l: "draw_loop G conf pool now ids (draws_of req) [0..<draws_of req] False (Pools g1 ! ix)
       (p\<lparr>Base := base\<rparr>) (rng_New G sd) = Inr (pity, tmp, drops, entries)"
    using h by (auto split: sum.splits)
  note h = h [unfolded l sum.case prod.case]
  obtain b1 b2 b3 where e: "enc_base C base = Some b1" "enc_bag C (Bag tmp) = Some b2"
      "enc_gacha C (g1\<lparr>Pools := (Pools g1)[ix := pity]\<rparr>) = Some b3"
    using h by (auto split: option.splits)
  note h = h [unfolded e option.case prod.case]
  have plan: "gp_base plan = base" "gp_bag plan = Bag tmp" "gp_gacha plan = g1\<lparr>Pools := (Pools g1)[ix := pity]\<rparr>"
    "gr_Drops (gp_resp plan) = drops" "gr_Balance (gp_resp plan) = base_currency base (p_Currency pool)" "\<not> gr_Duplicate (gp_resp plan)"
    using h by auto
  show thesis
    by (rule that [OF _ _ g, of sd pity tmp entries])
      (use h n le b l e in \<open>auto simp: plan c_def base_def\<close>)
qed

lemma chain_zero_entries:
  "\<forall>e \<in> set es. en_Currency e = 0 \<and> Amount e = 0 \<and> Balance e = 0 \<Longrightarrow> c \<noteq> 0 \<Longrightarrow> chain c b es = Some b"
  by (induction es) auto

section \<open>Progress\<close>

lemma AddItem_space:
  assumes "0 < cnt" "length (Items (Bag p)) < bag_Capacity (Bag p)"
  shows "\<exists>p' it. AddItem iid tpl cnt now st p = (p', Some it) \<and> length (Items (Bag p')) \<le> length (Items (Bag p)) + 1
    \<and> bag_Capacity (Bag p') = bag_Capacity (Bag p)"
  using assms by (auto simp: AddItem_def Let_def set_items_def split: option.split)

context rand_api
begin

lemma draw_loop_progress:
  assumes "pool_fair pool" "pity_ok pool pity" "\<forall>k. ids k \<noteq> None" "length (Items (Bag tmp)) + length turns \<le> bag_Capacity (Bag tmp)"
  shows "\<exists>x. draw_loop G conf pool now ids tms turns got pity tmp s = Inr x"
  using assms(2,4)
proof (induction turns arbitrary: got pity tmp s)
  case (Cons i turns)
  let ?l = "last_of_ten pool tms i got"
  obtain e b pity1 s1 where d: "drawOne G pool pity ?l s = Some (Some (e, b), pity1, s1)" and ok: "pity_ok pool pity1"
    using drawOne_Some [OF assms(1) Cons.prems(1), of ?l s] by blast
  obtain iid where i: "ids (2 * i + 1) = Some iid" using assms(3) by blast
  have "0 < drop_count e" "length (Items (Bag tmp)) < bag_Capacity (Bag tmp)" using Cons.prems by (simp_all add: drop_count_def)
  then obtain tmp1 it where a: "AddItem iid (g_TplID e) (drop_count e) now (Stackable conf (g_TplID e)) tmp = (tmp1, Some it)"
    and sp: "length (Items (Bag tmp1)) \<le> length (Items (Bag tmp)) + 1" "bag_Capacity (Bag tmp1) = bag_Capacity (Bag tmp)"
    using AddItem_space by blast
  have "length (Items (Bag tmp1)) + length turns \<le> bag_Capacity (Bag tmp1)" using sp Cons.prems by simp
  from Cons.IH [OF ok this, of "got \<or> g_Rarity e \<ge> p_HighRarity pool" s1]
  obtain y where "draw_loop G conf pool now ids tms turns (got \<or> g_Rarity e \<ge> p_HighRarity pool) pity1 tmp1 s1 = Inr y" by blast
  then show ?case
    unfolding draw_loop.simps Let_def last_of_ten_def [symmetric] drop_count_def [symmetric] d option.case prod.case i a
    by (cases y) simp
qed simp

end

definition gacha_codec_total :: "player_codec \<Rightarrow> bool" where
  "gacha_codec_total C \<longleftrightarrow> (\<forall>b. enc_base C b \<noteq> None) \<and> (\<forall>b. enc_bag C b \<noteq> None) \<and> (\<forall>g. enc_gacha C g \<noteq> None)"

lemma handleGacha_progress:
  assumes G: "rand_api G" and pool: "conf_Pool conf (gq_PoolId req) = Some pool" and fair: "pool_fair pool"
    and ok: "pity_ok pool (pity_of (Gacha p) (p_ID pool))" and n: "draws_of req \<le> MaxDrawsPerRequest"
    and cost: "0 \<le> p_Cost pool" "p_Cost pool * 10 < 2 ^ 63" "p_Cost pool * int (draws_of req) \<le> player_Currency p (p_Currency pool)"
      "in_i64 (player_Currency p (p_Currency pool))"
    and ids: "\<forall>k. ids k \<noteq> None" and tot: "gacha_codec_total C"
    and space: "length (Items (Bag p)) + draws_of req \<le> bag_Capacity (Bag p)"
  shows "\<exists>plan. handleGacha G C GC ks conf now nano (Some sd) ids p req = Inr plan"
proof -
  have "p_Cost pool * int (draws_of req) \<le> p_Cost pool * 10"
    using n cost(1) by (intro mult_left_mono) (simp_all add: MaxDrawsPerRequest_def)
  moreover have nn: "0 \<le> p_Cost pool * int (draws_of req)" using cost(1) by simp
  ultimately have c: "i64 (p_Cost pool * int (draws_of req)) = p_Cost pool * int (draws_of req)"
    using cost(2) by (intro i64_id) (simp add: in_i64_def)
  define base where "base = base_add (p_Currency pool) (- (p_Cost pool * int (draws_of req))) (Base p)"
  have b: "base_currency base (p_Currency pool) = player_Currency p (p_Currency pool) - p_Cost pool * int (draws_of req)"
    using nn cost(3,4) by (auto simp: base_def base_currency_player in_i64_def intro: i64_id)
  obtain g1 ix where g: "pityStateOf (Gacha p) (p_ID pool) = (g1, ix)" by fastforce
  have st: "Pools g1 ! ix = pity_of (Gacha p) (p_ID pool)"
    by (rule pityStateOf_spec(1) [OF g, of "\<lparr>gp_PoolId = p_ID pool, SinceTop = 0, SinceHigh = 0, TotalDraws = 0\<rparr>"]) simp
  obtain pity tmp drops entries where l: "draw_loop G conf pool now ids (draws_of req) [0..<draws_of req] False (Pools g1 ! ix)
      (p\<lparr>Base := base\<rparr>) (rng_New G sd) = Inr (pity, tmp, drops, entries)"
    using rand_api.draw_loop_progress [OF G fair ok ids, of "p\<lparr>Base := base\<rparr>" "[0..<draws_of req]" conf now "draws_of req" False "rng_New G sd"] space
    by (auto simp: st)
  obtain b1 b2 b3 where e: "enc_base C base = Some b1" "enc_bag C (Bag tmp) = Some b2"
      "enc_gacha C (g1\<lparr>Pools := (Pools g1)[ix := pity]\<rparr>) = Some b3"
    using tot unfolding gacha_codec_total_def by blast
  have nb: "(base_currency base (p_Currency pool) < 0) = False" "(player_Currency p (p_Currency pool) < p_Cost pool * int (draws_of req)) = False"
    "(MaxDrawsPerRequest < draws_of req) = False" using b cost(3) n by auto
  show ?thesis
    unfolding handleGacha_def Let_def draws_of_def [symmetric] pool option.case nb if_False c base_def [symmetric] g prod.case l sum.case e
    by blast
qed

section \<open>Properties\<close>


text \<open>A ten-pull contains a high rarity. When the pool promises it, a request for ten draws that is
  planned has at least one drop of the high rarity, and every planned request has as many drops as
  it has draws, each with a positive number of items.\<close>

theorem ten_pull_contains_high_rarity:
  assumes "rand_api G" and "handleGacha G C GC ks conf now nano seed ids p req = Inr plan"
    and "conf_Pool conf (gq_PoolId req) = Some pool" and "pool_fair pool" and "pity_ok pool (pity_of (Gacha p) (p_ID pool))"
    and "p_TenPullGuarantee pool"
  shows "length (gr_Drops (gp_resp plan)) = draws_of req \<and> (\<forall>d \<in> set (gr_Drops (gp_resp plan)). 0 < gd_Count d)
    \<and> (gq_Times req = 10 \<longrightarrow> (\<exists>d \<in> set (gr_Drops (gp_resp plan)). gd_Rarity d \<ge> p_HighRarity pool))"
proof -
  from assms(2) obtain sd g1 ix pity tmp entries where g: "pityStateOf (Gacha p) (p_ID pool) = (g1, ix)"
    and l: "draw_loop G conf pool now ids (draws_of req) [0..<draws_of req] False (Pools g1 ! ix)
       (p\<lparr>Base := gp_base plan\<rparr>) (rng_New G sd) = Inr (pity, tmp, gr_Drops (gp_resp plan), entries)"
    by (rule handleGacha_plan [OF _ assms(3)]) blast
  have st: "Pools g1 ! ix = pity_of (Gacha p) (p_ID pool)"
    by (rule pityStateOf_spec(1) [OF g, of "\<lparr>gp_PoolId = p_ID pool, SinceTop = 0, SinceHigh = 0, TotalDraws = 0\<rparr>"]) simp
  show ?thesis
    using draw_loop_positive [OF l] rand_api.draw_loop_ten [OF assms(1,4) _ l assms(6)] assms(5) by (simp add: st draws_of_def)
qed

text \<open>C16: A gacha request takes its price and delivers its drops. The balance of the pool's currency falls by
  exactly the price of the draws and stays non-negative, other currencies are untouched, the
  ledger entries lead from the old balances to the new ones, and for every template the bag holds
  exactly as many more items as were dropped.\<close>

theorem gacha_takes_price_and_delivers:
  assumes "handleGacha G C GC ks conf now nano seed ids p req = Inr plan"
    and "conf_Pool conf (gq_PoolId req) = Some pool" and "0 \<le> p_Cost pool" and "p_Cost pool * 10 < 2 ^ 63"
    and "in_i64 (player_Currency p (p_Currency pool))" and "bag_ok (Bag p)"
    and "\<forall>t. item_total t (Items (Bag p)) + drop_total t (gr_Drops (gp_resp plan)) < 2 ^ 63"
  shows "base_currency (gp_base plan) (p_Currency pool) = player_Currency p (p_Currency pool) - p_Cost pool * int (draws_of req)
    \<and> 0 \<le> base_currency (gp_base plan) (p_Currency pool)
    \<and> (\<forall>c. c \<noteq> p_Currency pool \<longrightarrow> base_currency (gp_base plan) c = player_Currency p c)
    \<and> (\<forall>c. c \<noteq> 0 \<longrightarrow> chain c (player_Currency p c) (cs_Entries (gp_spec plan)) = Some (base_currency (gp_base plan) c))
    \<and> bag_ok (gp_bag plan)
    \<and> (\<forall>t. item_total t (Items (gp_bag plan)) = item_total t (Items (Bag p)) + drop_total t (gr_Drops (gp_resp plan)))"
proof -
  from assms(1,2) obtain sd g1 ix pity tmp entries e0 b1 b2 b3 idem where le: "draws_of req \<le> MaxDrawsPerRequest"
      "i64 (p_Cost pool * int (draws_of req)) \<le> player_Currency p (p_Currency pool)"
    and g: "pityStateOf (Gacha p) (p_ID pool) = (g1, ix)"
    and l: "draw_loop G conf pool now ids (draws_of req) [0..<draws_of req] False (Pools g1 ! ix)
       (p\<lparr>Base := gp_base plan\<rparr>) (rng_New G sd) = Inr (pity, tmp, gr_Drops (gp_resp plan), entries)"
    and b: "gp_base plan = base_add (p_Currency pool) (- i64 (p_Cost pool * int (draws_of req))) (Base p)"
      "0 \<le> base_currency (gp_base plan) (p_Currency pool)"
    and bag: "gp_bag plan = Bag tmp" "gp_gacha plan = g1\<lparr>Pools := (Pools g1)[ix := pity]\<rparr>"
    and e: "en_Currency e0 = p_Currency pool" "Amount e0 = - i64 (p_Cost pool * int (draws_of req))"
      "Balance e0 = base_currency (gp_base plan) (p_Currency pool)"
    and enc: "enc_base C (gp_base plan) = Some b1" "enc_bag C (gp_bag plan) = Some b2" "enc_gacha C (gp_gacha plan) = Some b3"
    and sp: "gp_spec plan = \<lparr>cs_IdemKey = keys_Order ks (UID p) idem, cs_Payload = payload_of (enc_gresp GC (gp_resp plan)),
       cs_Entries = e0 # entries, cs_KV = [(keys_Player ks (UID p) ModBase, b1), (keys_Player ks (UID p) ModBag, b2),
         (keys_Player ks (UID p) ModGacha, b3)]\<rparr>"
    and resp: "gr_Balance (gp_resp plan) = base_currency (gp_base plan) (p_Currency pool)" "\<not> gr_Duplicate (gp_resp plan)"
    by (rule handleGacha_plan)
  define c where "c = i64 (p_Cost pool * int (draws_of req))"
  note le = le [folded c_def] and b = b [folded c_def] and e = e [folded c_def]
  have "p_Cost pool * int (draws_of req) \<le> p_Cost pool * 10"
    using le(1) assms(3) by (intro mult_left_mono) (simp_all add: MaxDrawsPerRequest_def)
  moreover have nn: "0 \<le> p_Cost pool * int (draws_of req)" using assms(3) by simp
  ultimately have c: "c = p_Cost pool * int (draws_of req)"
    unfolding c_def using assms(4) by (intro i64_id) (simp add: in_i64_def)
  note nn = nn [folded c]
  have cur: "base_currency (gp_base plan) t = (if t = p_Currency pool then player_Currency p t - c else player_Currency p t)" for t
    using nn le(2) assms(5) by (auto simp: b(1) base_currency_player in_i64_def intro: i64_id)
  have ch: "chain t (player_Currency p t) (e0 # entries) = Some (base_currency (gp_base plan) t)" if "t \<noteq> 0" for t
    using chain_zero_entries [of entries t] draw_loop_positive [OF l] that nn le(2) assms(5) e
    by (auto simp: cur in_i64_def i64_id)
  have "Bag (p\<lparr>Base := gp_base plan\<rparr>) = Bag p" by simp
  then have items: "bag_ok (Bag tmp) \<and> (\<forall>t. item_total t (Items (Bag tmp)) = item_total t (Items (Bag p)) + drop_total t (gr_Drops (gp_resp plan)))"
    using draw_loop_items [OF l] assms(6,7) by simp
  have cur0: "base_currency (gp_base plan) (p_Currency pool) = player_Currency p (p_Currency pool) - p_Cost pool * int (draws_of req)"
    unfolding cur c by simp
  have "\<forall>t. t \<noteq> p_Currency pool \<longrightarrow> base_currency (gp_base plan) t = player_Currency p t" by (simp add: cur)
  with items cur0 b(2) ch show ?thesis unfolding bag(1) sp CommitSpec.select_convs by blast
qed

text \<open>A concrete request: ten draws from the built-in pool.\<close>

definition gacha_config :: Config where
  "gacha_config = tie_config\<lparr>c_Gacha := [(''standard'', standard_pool)]\<rparr>"

definition rich_player :: Player where
  "rich_player = set_currency 2 5000 (NewPlayer 1031 77)"

definition ten_pull :: GachaReq where
  "ten_pull = \<lparr>gq_PoolId = ''standard'', gq_Times = 10, gq_ClientId = ''g1''\<rparr>"

definition demo_gresp :: gacha_codec where
  "demo_gresp = \<lparr>enc_gresp = (\<lambda>r. None), dec_gresp = (\<lambda>b. None)\<rparr>"

lemma standard_pool_fair: "pool_fair standard_pool"
  by (simp add: pool_fair_def drawable_def standard_pool_def pos_sum_def)

lemma gacha_config_pool: "conf_Pool gacha_config (gq_PoolId ten_pull) = Some standard_pool"
  by (simp add: conf_Pool_def gacha_config_def ten_pull_def)

lemma rich_player_facts:
  "pity_ok standard_pool (pity_of (Gacha rich_player) (p_ID standard_pool))" "p_TenPullGuarantee standard_pool"
  "player_Currency rich_player 2 = 5000" "p_Cost standard_pool = 160" "p_Currency standard_pool = 2" "draws_of ten_pull = 10"
  "Items (Bag rich_player) = []" "bag_ok (Bag rich_player)" "gq_Times ten_pull = 10" "bag_Capacity (Bag rich_player) = DefaultBagCapacity"
  "p_PityTop standard_pool = 90" "p_HighRarity standard_pool = 3"
  by (simp_all add: pity_ok_def pity_of_def rich_player_def set_currency_def NewPlayer_def standard_pool_def player_Currency_def
      draws_of_def ten_pull_def bag_ok_def item_total_def DefaultBagCapacity_def)

lemma ten_pull_plan:
  obtains plan where "handleGacha lcg text_codec demo_gresp lobby_keys gacha_config 1000 1 (Some (replicate 32 7)) demo_ids rich_player ten_pull = Inr plan"
proof -
  have "gacha_codec_total text_codec" by (simp add: gacha_codec_total_def text_codec_def ser_enc_def)
  then have "\<exists>plan. handleGacha lcg text_codec demo_gresp lobby_keys gacha_config 1000 1 (Some (replicate 32 7)) demo_ids rich_player ten_pull = Inr plan"
    by (intro handleGacha_progress [OF lcg_rand.rand_api_axioms gacha_config_pool standard_pool_fair rich_player_facts(1)])
      (simp_all add: rich_player_facts in_i64_def demo_ids_def MaxDrawsPerRequest_def DefaultBagCapacity_def)
  then show thesis using that by blast
qed


theorem ten_pull_contains_high_rarity_witness:
  "\<exists>plan. handleGacha lcg text_codec demo_gresp lobby_keys gacha_config 1000 1 (Some (replicate 32 7)) demo_ids rich_player ten_pull = Inr plan
    \<and> length (gr_Drops (gp_resp plan)) = 10 \<and> (\<exists>d \<in> set (gr_Drops (gp_resp plan)). gd_Rarity d \<ge> 3)"
proof -
  obtain plan where h: "handleGacha lcg text_codec demo_gresp lobby_keys gacha_config 1000 1 (Some (replicate 32 7)) demo_ids rich_player ten_pull = Inr plan"
    by (rule ten_pull_plan)
  then show ?thesis
    using ten_pull_contains_high_rarity [OF lcg_rand.rand_api_axioms h gacha_config_pool standard_pool_fair rich_player_facts(1,2)]
    by (auto simp: rich_player_facts)
qed

lemma drop_total_bound:
  "\<forall>d \<in> set ds. gd_Count d \<le> 1 \<Longrightarrow> drop_total t ds \<le> int (length ds)"
  by (induction ds) auto

lemma draw_loop_entries:
  assumes "draw_loop G conf pool now ids tms turns got pity tmp s = Inr (pity', tmp', drops, entries)"
    and "\<forall>e \<in> set (p_Entries pool). g_Count e \<le> 1" "rand_api G" "pool_fair pool" "pity_ok pool pity"
  shows "\<forall>d \<in> set drops. gd_Count d \<le> 1"
  using assms(1,5)
proof (induction turns arbitrary: got pity tmp s pity' tmp' drops entries)
  case (Cons i turns)
  from Cons.prems(1) obtain e b pity1 s1 tmp1 ds es where
    d: "drawOne G pool pity (last_of_ten pool tms i got) s = Some (Some (e, b), pity1, s1)"
    and r: "draw_loop G conf pool now ids tms turns (got \<or> g_Rarity e \<ge> p_HighRarity pool) pity1 tmp1 s1 = Inr (pity', tmp', ds, es)"
    and ds: "drops = \<lparr>gd_TplId = g_TplID e, gd_Rarity = g_Rarity e, gd_Count = drop_count e, gd_ByPity = b\<rparr> # ds"
    by (rule draw_loop_turn)
  have "e \<in> set (p_Entries pool)" "pity_ok pool pity1"
    using rand_api.drawOne_Some [OF assms(3,4) Cons.prems(2), of "last_of_ten pool tms i got" s] d by auto
  then show ?case using Cons.IH [OF r] assms(2) by (auto simp: ds drop_count_def)
qed simp

theorem gacha_takes_price_and_delivers_witness:
  "\<exists>plan. handleGacha lcg text_codec demo_gresp lobby_keys gacha_config 1000 1 (Some (replicate 32 7)) demo_ids rich_player ten_pull = Inr plan
    \<and> base_currency (gp_base plan) 2 = 3400"
proof -
  obtain plan where h: "handleGacha lcg text_codec demo_gresp lobby_keys gacha_config 1000 1 (Some (replicate 32 7)) demo_ids rich_player ten_pull = Inr plan"
    by (rule ten_pull_plan)
  from h gacha_config_pool obtain g1 ix sd pity tmp entries where g: "pityStateOf (Gacha rich_player) (p_ID standard_pool) = (g1, ix)"
    and l: "draw_loop lcg gacha_config standard_pool 1000 demo_ids (draws_of ten_pull) [0..<draws_of ten_pull] False (Pools g1 ! ix)
       (rich_player\<lparr>Base := gp_base plan\<rparr>) (rng_New lcg sd) = Inr (pity, tmp, gr_Drops (gp_resp plan), entries)"
    by (rule handleGacha_plan) blast
  have st: "Pools g1 ! ix = pity_of (Gacha rich_player) (p_ID standard_pool)"
    by (rule pityStateOf_spec(1) [OF g, of "\<lparr>gp_PoolId = p_ID standard_pool, SinceTop = 0, SinceHigh = 0, TotalDraws = 0\<rparr>"]) simp
  have "\<forall>d \<in> set (gr_Drops (gp_resp plan)). gd_Count d \<le> 1"
    using draw_loop_entries [OF l _ lcg_rand.rand_api_axioms standard_pool_fair] rich_player_facts(1) by (simp add: st standard_pool_def)
  then have dt: "drop_total t (gr_Drops (gp_resp plan)) \<le> 10" for t
    using drop_total_bound [of "gr_Drops (gp_resp plan)" t] draw_loop_positive [OF l] by (simp add: rich_player_facts)
  have "item_total t (Items (Bag rich_player)) + drop_total t (gr_Drops (gp_resp plan)) < 2 ^ 63" for t
    using dt [of t] by (simp add: rich_player_facts)
  then show ?thesis
    using gacha_takes_price_and_delivers [OF h gacha_config_pool] h by (auto simp: rich_player_facts in_i64_def)
qed

end
