(* ===== verification/Go_Bytes.thy ===== *)
theory Go_Bytes
  imports F1_Prelude
begin

text \<open>
  The parts of Go's standard library the security code uses: \<^verbatim>\<open>base64.RawURLEncoding\<close>,
  \<^verbatim>\<open>binary.BigEndian\<close>, \<^verbatim>\<open>strings.Split\<close> and \<^verbatim>\<open>strings.Join\<close> with a one-character separator,
  \<^verbatim>\<open>strconv.ParseUint\<close> and \<^verbatim>\<open>strconv.ParseInt\<close> with their errors, and saturating differences of
  times. A byte is a \<^typ>\<open>char\<close>.
\<close>

section \<open>Big-endian integers\<close>

abbreviation byte_of :: "char \<Rightarrow> nat" where
  "byte_of c \<equiv> of_char c"

lemma byte_of_bound: "byte_of c < 256"
  by (metis mod_less_divisor of_char_mod_256 zero_less_numeral)

fun be_bytes :: "nat \<Rightarrow> nat \<Rightarrow> bytes" where
  "be_bytes 0 n = []"
| "be_bytes (Suc k) n = be_bytes k (n div 256) @ [char_of (n mod 256)]"

definition uint64_of :: "int \<Rightarrow> nat" where
  "uint64_of x = nat (x mod 2 ^ 64)"

lemma length_be_bytes [simp]: "length (be_bytes k n) = k"
  by (induction k arbitrary: n) auto

lemma be_bytes_Nil [simp]: "be_bytes k n = [] \<longleftrightarrow> k = 0"
  by (metis length_0_conv length_be_bytes)

lemma be_bytes_inject:
  assumes "m < 256 ^ k" "n < 256 ^ k"
  shows "be_bytes k m = be_bytes k n \<longleftrightarrow> m = n"
  using assms
proof (induction k arbitrary: m n)
  case 0
  then show ?case by simp
next
  case (Suc k)
  have "char_of (m mod 256) = (char_of (n mod 256) :: char) \<longleftrightarrow> m mod 256 = n mod 256"
    by (metis char_of_mod_256 of_char_of mod_mod_trivial)
  moreover have "m div 256 < 256 ^ k" "n div 256 < 256 ^ k"
    using Suc.prems by (simp_all add: less_mult_imp_div_less mult.commute)
  ultimately show ?case using Suc.IH [of "m div 256" "n div 256"]
    by simp (metis div_mult_mod_eq)
qed

lemma uint64_of_bound [simp]: "uint64_of x < 256 ^ 8"
  by (simp add: uint64_of_def nat_less_iff)

lemma uint64_of_inject: "in_i64 x \<Longrightarrow> in_i64 y \<Longrightarrow> uint64_of x = uint64_of y \<longleftrightarrow> x = y"
proof -
  assume xy: "in_i64 x" "in_i64 y"
  have "uint64_of x = uint64_of y \<Longrightarrow> x mod 2 ^ 64 = y mod 2 ^ 64"
    by (simp add: uint64_of_def eq_nat_nat_iff)
  then have "uint64_of x = uint64_of y \<Longrightarrow> i64 x = i64 y"
    unfolding i64_def by (metis mod_add_left_eq)
  then show ?thesis using xy by (auto simp: i64_id)
qed

section \<open>Splitting and joining\<close>

fun go_split :: "char \<Rightarrow> string \<Rightarrow> string list" where
  "go_split sep [] = [[]]"
| "go_split sep (c # cs) =
     (if c = sep then [] # go_split sep cs
      else (case go_split sep cs of p # ps \<Rightarrow> (c # p) # ps | [] \<Rightarrow> [[c]]))"

fun go_join :: "char \<Rightarrow> string list \<Rightarrow> string" where
  "go_join sep [] = []"
| "go_join sep [p] = p"
| "go_join sep (p # ps) = p @ sep # go_join sep ps"

lemma go_split_plain: "sep \<notin> set p \<Longrightarrow> go_split sep p = [p]"
  by (induction p) auto

lemma go_split_append: "sep \<notin> set p \<Longrightarrow> go_split sep (p @ sep # rest) = p # go_split sep rest"
  by (induction p) auto

lemma go_split_join:
  "ps \<noteq> [] \<Longrightarrow> \<forall>p\<in>set ps. sep \<notin> set p \<Longrightarrow> go_split sep (go_join sep ps) = ps"
  by (induction sep ps rule: go_join.induct) (auto simp: go_split_plain go_split_append)

text \<open>Splitting at the last separator.\<close>

lemma append_last_sep_inject:
  assumes "c \<notin> set us" "c \<notin> set vs"
  shows "xs @ c # us = ys @ c # vs \<longleftrightarrow> xs = ys \<and> us = vs"
proof -
  have "xs @ c # us = ys @ c # vs \<longleftrightarrow> rev us @ c # rev xs = rev vs @ c # rev ys"
    by (metis rev.simps(2) rev_append append.assoc append_Cons append_Nil rev_rev_ident)
  then show ?thesis using append_sep_inject [of c "rev us" "rev vs"] assms by auto
qed

section \<open>Parsing numbers\<close>

text \<open>Both functions refuse an empty text, a foreign character and a value out of range;
  \<open>ParseInt\<close> takes a sign.\<close>

definition go_ParseUint :: "string \<Rightarrow> nat option" where
  "go_ParseUint s = (case read_nat s of None \<Rightarrow> None | Some n \<Rightarrow> if n < 2 ^ 64 then Some n else None)"

definition go_ParseInt :: "string \<Rightarrow> int option" where
  "go_ParseInt s =
     (let r = (case s of
          [] \<Rightarrow> None
        | c # cs \<Rightarrow> (if c = CHR ''-'' then map_option (\<lambda>n. - int n) (read_nat cs)
                    else if c = CHR ''+'' then map_option int (read_nat cs)
                    else map_option int (read_nat s)))
      in case r of None \<Rightarrow> None | Some x \<Rightarrow> if in_i64 x then Some x else None)"

lemma go_ParseUint_show: "n < 2 ^ 64 \<Longrightarrow> go_ParseUint (show_nat n) = Some n"
  by (simp add: go_ParseUint_def)

lemma show_nat_no_plus: "CHR ''+'' \<notin> set (show_nat n)"
  using show_nat_digits [of "CHR ''+''" n] by auto

lemma go_ParseInt_show: "in_i64 x \<Longrightarrow> go_ParseInt (show_int x) = Some x"
proof (cases "x < 0")
  case True
  then show "in_i64 x \<Longrightarrow> ?thesis" by (simp add: go_ParseInt_def show_int_def)
next
  case False
  obtain c cs where c: "show_nat (nat x) = c # cs"
    by (cases "show_nat (nat x)") auto
  then have "c \<noteq> CHR ''-''" "c \<noteq> CHR ''+''"
    using show_nat_no_minus [of "nat x"] show_nat_no_plus [of "nat x"] by auto
  moreover have "read_nat (c # cs) = Some (nat x)"
    using read_nat_show [of "nat x"] c by simp
  ultimately show "in_i64 x \<Longrightarrow> ?thesis" using False c by (simp add: go_ParseInt_def show_int_def)
qed

lemma show_nat_no_bar: "CHR ''|'' \<notin> set (show_nat n)"
  using show_nat_digits [of "CHR ''|''" n] by auto

lemma show_nat_no_dot: "CHR ''.'' \<notin> set (show_nat n)"
  using show_nat_digits [of "CHR ''.''" n] by auto

lemma show_int_no_bar: "CHR ''|'' \<notin> set (show_int x)"
  by (simp add: show_int_def show_nat_no_bar)

lemma show_int_no_dot: "CHR ''.'' \<notin> set (show_int x)"
  by (simp add: show_int_def show_nat_no_dot)

section \<open>Base64\<close>

text \<open>\<open>RawURLEncoding\<close>: no padding, the URL alphabet. The decoder skips line breaks, and it does not
  look at the unused low bits of the last group.\<close>

definition b64_alphabet :: string where
  "b64_alphabet = ''ABCDEFGHIJKLMNOPQRSTUVWXYZabcdefghijklmnopqrstuvwxyz0123456789-_''"

definition b64_char :: "nat \<Rightarrow> char" where
  "b64_char n = b64_alphabet ! n"

definition b64_val :: "char \<Rightarrow> nat option" where
  "b64_val c = (let n = byte_of c in
     if 65 \<le> n \<and> n \<le> 90 then Some (n - 65)
     else if 97 \<le> n \<and> n \<le> 122 then Some (n - 71)
     else if 48 \<le> n \<and> n \<le> 57 then Some (n + 4)
     else if n = 45 then Some 62
     else if n = 95 then Some 63 else None)"

fun b64_encode :: "bytes \<Rightarrow> string" where
  "b64_encode [] = []"
| "b64_encode [a] = (let n = byte_of a * 16 in [b64_char (n div 64), b64_char (n mod 64)])"
| "b64_encode [a, b] = (let n = (byte_of a * 256 + byte_of b) * 4 in
     [b64_char (n div 4096), b64_char (n div 64 mod 64), b64_char (n mod 64)])"
| "b64_encode (a # b # c # xs) = (let n = (byte_of a * 256 + byte_of b) * 256 + byte_of c in
     [b64_char (n div 262144), b64_char (n div 4096 mod 64), b64_char (n div 64 mod 64), b64_char (n mod 64)]
       @ b64_encode xs)"

fun b64_groups :: "nat list \<Rightarrow> bytes option" where
  "b64_groups [] = Some []"
| "b64_groups [p] = None"
| "b64_groups [p, q] = Some [char_of ((p * 64 + q) div 16)]"
| "b64_groups [p, q, r] = (let n = ((p * 64 + q) * 64 + r) div 4 in Some [char_of (n div 256), char_of (n mod 256)])"
| "b64_groups (p # q # r # s # xs) =
     (let n = ((p * 64 + q) * 64 + r) * 64 + s in
      map_option (\<lambda>ys. [char_of (n div 65536), char_of (n div 256 mod 256), char_of (n mod 256)] @ ys)
        (b64_groups xs))"

fun b64_vals :: "string \<Rightarrow> nat list option" where
  "b64_vals [] = Some []"
| "b64_vals (c # cs) =
     (if byte_of c = 10 \<or> byte_of c = 13 then b64_vals cs
      else (case b64_val c of None \<Rightarrow> None | Some v \<Rightarrow> map_option ((#) v) (b64_vals cs)))"

definition b64_decode :: "string \<Rightarrow> bytes option" where
  "b64_decode s = (case b64_vals s of None \<Rightarrow> None | Some vs \<Rightarrow> b64_groups vs)"

text \<open>Characters and values are inverse, checked for all 64 values.\<close>

lemma b64_table:
  "map b64_val b64_alphabet = map Some [0..<64]"
  "list_all (\<lambda>c. byte_of c \<noteq> 10 \<and> byte_of c \<noteq> 13 \<and> c \<noteq> CHR ''.'') b64_alphabet"
  by code_simp+

lemma length_b64_alphabet: "length b64_alphabet = 64"
  by (simp add: b64_alphabet_def)

lemma b64_char_facts:
  assumes "n < 64"
  shows "b64_val (b64_char n) = Some n" "byte_of (b64_char n) \<noteq> 10" "byte_of (b64_char n) \<noteq> 13"
    "b64_char n \<noteq> CHR ''.''"
proof -
  have "map b64_val b64_alphabet ! n = map Some [0..<64] ! n" using b64_table(1) by simp
  then show "b64_val (b64_char n) = Some n" using assms by (simp add: b64_char_def length_b64_alphabet)
  have "b64_char n \<in> set b64_alphabet" using assms by (simp add: b64_char_def length_b64_alphabet)
  then show "byte_of (b64_char n) \<noteq> 10" "byte_of (b64_char n) \<noteq> 13" "b64_char n \<noteq> CHR ''.''"
    using b64_table(2) by (auto simp: list_all_iff)
qed

lemma b64_vals_chars: "\<forall>v\<in>set vs. v < 64 \<Longrightarrow> b64_vals (map b64_char vs) = Some vs"
  by (induction vs) (auto simp: b64_char_facts)

fun b64_sextets :: "bytes \<Rightarrow> nat list" where
  "b64_sextets [] = []"
| "b64_sextets [a] = (let n = byte_of a * 16 in [n div 64, n mod 64])"
| "b64_sextets [a, b] = (let n = (byte_of a * 256 + byte_of b) * 4 in [n div 4096, n div 64 mod 64, n mod 64])"
| "b64_sextets (a # b # c # xs) = (let n = (byte_of a * 256 + byte_of b) * 256 + byte_of c in
     [n div 262144, n div 4096 mod 64, n div 64 mod 64, n mod 64] @ b64_sextets xs)"

lemma b64_encode_sextets: "b64_encode xs = map b64_char (b64_sextets xs)"
  by (induction xs rule: b64_sextets.induct) (simp_all add: Let_def)

lemma sextet_arith:
  fixes a b c :: nat
  assumes "a < 256" "b < 256" "c < 256"
  shows "a * 16 div 64 < 64" "(a * 256 + b) * 4 div 4096 < 64" "((a * 256 + b) * 256 + c) div 262144 < 64"
    "a div 4 < 64"
  using assms by auto

lemma byte_arith:
  fixes a b c :: nat
  assumes "b < 256" "c < 256"
  shows "((a * 256 + b) * 256 + c) div 65536 = a" "((a * 256 + b) * 256 + c) div 256 mod 256 = b"
    "((a * 256 + b) * 256 + c) mod 256 = c"
proof -
  have 1: "((a * 256 + b) * 256 + c) div 256 = a * 256 + b" using assms by (subst div_mult_self3) auto
  show "((a * 256 + b) * 256 + c) div 256 mod 256 = b" unfolding 1 using assms by simp
  show "((a * 256 + b) * 256 + c) mod 256 = c" using assms by (simp only: mod_mult_self3 mod_less)
  have "((a * 256 + b) * 256 + c) div 65536 = ((a * 256 + b) * 256 + c) div 256 div 256"
    by (simp add: div_mult2_eq [symmetric])
  also have "\<dots> = a" unfolding 1 using assms by (subst div_mult_self3) auto
  finally show "((a * 256 + b) * 256 + c) div 65536 = a" .
qed

lemma b64_sextets_bound: "\<forall>v\<in>set (b64_sextets xs). v < 64"
proof (induction xs rule: b64_sextets.induct)
  case (2 a)
  then show ?case using sextet_arith(1) [OF byte_of_bound byte_of_bound byte_of_bound, of a]
    by (simp only: b64_sextets.simps Let_def) simp
next
  case (3 a b)
  then show ?case using sextet_arith(2) [OF byte_of_bound byte_of_bound byte_of_bound, of a b]
    by (simp only: b64_sextets.simps Let_def) simp
next
  case (4 a b c xs)
  then show ?case using sextet_arith(3) [OF byte_of_bound byte_of_bound byte_of_bound, of a b c]
    by (simp only: b64_sextets.simps Let_def) simp
qed simp

lemma split_base: "0 < k \<Longrightarrow> n div (j * k) * k + n div j mod k = n div (j :: nat)"
  by (simp add: div_mult2_eq)

lemma sextets_join:
  fixes n :: nat
  shows "((n div 262144 * 64 + n div 4096 mod 64) * 64 + n div 64 mod 64) * 64 + n mod 64 = n"
  using split_base [of 64 n 4096] split_base [of 64 n 64] by simp

lemma sextets_join3:
  fixes n :: nat
  shows "(n div 4096 * 64 + n div 64 mod 64) * 64 + n mod 64 = n"
  using split_base [of 64 n 64] by simp

lemma b64_groups_sextets: "b64_groups (b64_sextets xs) = Some xs"
proof (induction xs rule: b64_sextets.induct)
  case (2 a)
  have "byte_of a * 16 div 64 * 64 + byte_of a * 16 mod 64 = byte_of a * 16" by (rule div_mult_mod_eq)
  then show ?case by (simp only: b64_sextets.simps b64_groups.simps Let_def) simp
next
  case (3 a b)
  let ?n = "(byte_of a * 256 + byte_of b) * 4"
  have "?n div 4 div 256 = byte_of a" "?n div 4 mod 256 = byte_of b" using byte_of_bound [of b] by auto
  then show ?case using sextets_join3 [of ?n] by (simp only: b64_sextets.simps b64_groups.simps Let_def char_of_char option.simps)
next
  case (4 a b c xs)
  let ?n = "(byte_of a * 256 + byte_of b) * 256 + byte_of c"
  have "?n div 65536 = byte_of a" "?n div 256 mod 256 = byte_of b" "?n mod 256 = byte_of c"
    by (simp_all only: byte_arith [OF byte_of_bound byte_of_bound])
  with 4 show ?case using sextets_join [of ?n]
    by (simp only: b64_sextets.simps b64_groups.simps Let_def append_Cons append_Nil char_of_char option.map)
qed (simp_all add: Let_def)

theorem b64_roundtrip: "b64_decode (b64_encode xs) = Some xs"
  using b64_vals_chars [of "b64_sextets xs"] b64_sextets_bound
  by (auto simp: b64_decode_def b64_encode_sextets b64_groups_sextets)

lemma b64_encode_no_dot: "CHR ''.'' \<notin> set (b64_encode xs)"
  using b64_sextets_bound [of xs] b64_char_facts(4) by (auto simp: b64_encode_sextets) metis

lemma b64_encode_nonempty: "b64_encode xs = [] \<longleftrightarrow> xs = []"
  by (cases xs rule: b64_encode.cases) (auto simp: Let_def)

section \<open>Differences of times\<close>

text \<open>\<open>Time.Sub\<close> saturates at the ends of \<open>Duration\<close>, which counts nanoseconds in an \<open>int64\<close>.\<close>

definition time_Sub :: "int \<Rightarrow> int \<Rightarrow> int" where
  "time_Sub t u = max (- (2 ^ 63)) (min (2 ^ 63 - 1) (t - u))"

end
