(* ===== verification/Payment.thy ===== *)
theory Payment
  imports Go_Bytes
begin

text \<open>
  Verification of purchase receipts, \<^verbatim>\<open>pkg/payment/payment.go\<close>. HMAC-SHA256 is the parameter
  \<open>mac secret message\<close>; nothing about it is assumed, so what is proved about forged receipts is
  relative to a collision of the two messages at hand.
\<close>

datatype pay_err = ErrInvalidReceipt | ErrChannelNotAllowed | ErrAmountMismatch | ErrPayDisabled

record PayOrder =
  po_OrderID :: string
  po_UID :: nat
  po_ProductID :: nat
  po_Channel :: string
  po_Receipt :: string
  po_Signature :: string
  po_PriceCents :: int

datatype PayVerifier = signedVerifier bytes | sandboxVerifier | disabledVerifier

type_synonym mac_fun = "bytes \<Rightarrow> bytes \<Rightarrow> bytes"

definition payment_New :: "string \<Rightarrow> bool \<Rightarrow> PayVerifier" where
  "payment_New secret sandbox =
     (if secret \<noteq> '''' then signedVerifier secret
      else if sandbox then sandboxVerifier
      else disabledVerifier)"

definition Strict :: "PayVerifier \<Rightarrow> bool" where
  "Strict v = (case v of signedVerifier _ \<Rightarrow> True | sandboxVerifier \<Rightarrow> False | disabledVerifier \<Rightarrow> True)"

definition order_message :: "PayOrder \<Rightarrow> bytes" where
  "order_message ord =
     go_join (CHR ''|'')
       [po_OrderID ord, show_nat (po_UID ord), show_nat (po_ProductID ord), po_Channel ord, show_int (po_PriceCents ord)]"

definition pay_sign :: "mac_fun \<Rightarrow> bytes \<Rightarrow> PayOrder \<Rightarrow> bytes" where
  "pay_sign mac secret ord = take 16 (mac secret (order_message ord))"

definition payment_Sign :: "mac_fun \<Rightarrow> string \<Rightarrow> PayOrder \<Rightarrow> string" where
  "payment_Sign mac secret ord = b64_encode (pay_sign mac secret ord)"

definition payment_Verify :: "mac_fun \<Rightarrow> PayVerifier \<Rightarrow> PayOrder \<Rightarrow> pay_err + unit" where
  "payment_Verify mac v ord = (case v of
      signedVerifier secret \<Rightarrow>
        (if po_OrderID ord = '''' \<or> po_Channel ord = '''' \<or> po_Signature ord = '''' then Inl ErrInvalidReceipt
         else case b64_decode (po_Signature ord) of
            None \<Rightarrow> Inl ErrInvalidReceipt
          | Some sig \<Rightarrow> if sig \<noteq> pay_sign mac secret ord then Inl ErrInvalidReceipt else Inr ())
    | sandboxVerifier \<Rightarrow>
        (if po_OrderID ord = '''' then Inl ErrInvalidReceipt
         else if po_Channel ord \<noteq> ''sandbox'' then Inl ErrChannelNotAllowed
         else Inr ())
    | disabledVerifier \<Rightarrow> Inl ErrPayDisabled)"

section \<open>What a signature covers\<close>

definition same_order :: "PayOrder \<Rightarrow> PayOrder \<Rightarrow> bool" where
  "same_order a b \<longleftrightarrow> po_OrderID a = po_OrderID b \<and> po_UID a = po_UID b \<and> po_ProductID a = po_ProductID b
     \<and> po_Channel a = po_Channel b \<and> po_PriceCents a = po_PriceCents b"

text \<open>Read from the right, the joined message splits in one way only: the order number is the client's
  and may contain the separator, the channel is one of the configured names.\<close>

lemma order_message_inject:
  assumes "CHR ''|'' \<notin> set (po_Channel a)" "CHR ''|'' \<notin> set (po_Channel b)"
  shows "order_message a = order_message b \<longleftrightarrow> same_order a b"
proof -
  have eq: "order_message ord =
      (((po_OrderID ord @ CHR ''|'' # show_nat (po_UID ord)) @ CHR ''|'' # show_nat (po_ProductID ord))
        @ CHR ''|'' # po_Channel ord) @ CHR ''|'' # show_int (po_PriceCents ord)" for ord
    by (simp add: order_message_def)
  show ?thesis
    unfolding eq same_order_def
    by (simp only: append_last_sep_inject show_nat_no_bar show_int_no_bar assms
        show_nat_inject show_int_inject simp_thms) blast
qed

lemma signed_verify_iff:
  "payment_Verify mac (signedVerifier secret) ord = Inr () \<longleftrightarrow>
     po_OrderID ord \<noteq> '''' \<and> po_Channel ord \<noteq> '''' \<and> po_Signature ord \<noteq> ''''
     \<and> b64_decode (po_Signature ord) = Some (pay_sign mac secret ord)"
  by (auto simp: payment_Verify_def split: option.splits)

text \<open>With a payment secret configured, a receipt signed for an order is accepted for an order
  exactly when the two agree in order number, player, product, channel and price, unless the
  message authentication code takes the same value on their two different messages. Channels do not
  contain the separator, and the code yields at least one byte.\<close>

theorem receipt_binds_the_order:
  assumes "secret \<noteq> ''''" "po_OrderID b \<noteq> ''''" "po_Channel b \<noteq> ''''"
    and "CHR ''|'' \<notin> set (po_Channel a)" "CHR ''|'' \<notin> set (po_Channel b)"
    and "mac secret (order_message a) \<noteq> []"
    and "po_Signature b = payment_Sign mac secret a"
    and no_collision: "order_message a \<noteq> order_message b \<Longrightarrow>
      take 16 (mac secret (order_message a)) \<noteq> take 16 (mac secret (order_message b))"
  shows "payment_Verify mac (payment_New secret sandbox) b = Inr () \<longleftrightarrow> same_order a b"
  using assms order_message_inject [of a b]
  by (auto simp: payment_New_def signed_verify_iff payment_Sign_def b64_roundtrip b64_encode_nonempty pay_sign_def)

definition demo_order :: PayOrder where
  "demo_order = \<lparr>po_OrderID = ''o1'', po_UID = 7, po_ProductID = 2, po_Channel = ''ios'', po_Receipt = '''',
     po_Signature = '''', po_PriceCents = 600\<rparr>"

definition demo_mac :: mac_fun where
  "demo_mac k m = rev m @ k"

theorem receipt_binds_the_order_witness:
  "payment_Verify demo_mac (payment_New ''s'' False)
     (demo_order\<lparr>po_UID := 8, po_Signature := payment_Sign demo_mac ''s'' demo_order\<rparr>) \<noteq> Inr ()"
proof -
  have "payment_Verify demo_mac (payment_New ''s'' False)
     (demo_order\<lparr>po_UID := 8, po_Signature := payment_Sign demo_mac ''s'' demo_order\<rparr>) = Inr ()
     \<longleftrightarrow> same_order demo_order (demo_order\<lparr>po_UID := 8, po_Signature := payment_Sign demo_mac ''s'' demo_order\<rparr>)"
    by (rule receipt_binds_the_order)
      (simp_all add: demo_order_def demo_mac_def order_message_def show_nat.simps digit_def show_int_def)
  then show ?thesis by (simp add: same_order_def demo_order_def)
qed

text \<open>Without a secret nothing is accepted unless the sandbox was switched on, and the sandbox accepts
  no real channel.\<close>

theorem unconfigured_payment_refuses:
  "payment_Verify mac (payment_New '''' sandbox) ord = Inr () \<longleftrightarrow>
     sandbox \<and> po_OrderID ord \<noteq> '''' \<and> po_Channel ord = ''sandbox''"
  by (auto simp: payment_Verify_def payment_New_def)

end
