(* ===== verification/Auth.thy ===== *)
theory Auth
  imports Go_Bytes Protocol
begin

text \<open>
  Command authorisation, \<^verbatim>\<open>pkg/authz/authz.go\<close>, and login tickets, \<^verbatim>\<open>pkg/authn/authn.go\<close>. HMAC-SHA256 is
  the parameter \<open>mac secret message\<close>. Times are nanoseconds since 1970; a message carries
  milliseconds.
\<close>

section \<open>Envelopes\<close>

record Envelope =
  e_Cmd :: nat
  e_Uid :: nat
  e_TraceId :: string
  e_FromNode :: string
  e_TsMs :: int
  e_Seq :: nat
  e_Body :: bytes
  e_ErrCode :: nat
  e_ErrMsg :: string
  e_Shard :: nat
  e_Auth :: bytes
  e_Operator :: string

definition envelope_ok :: "Envelope \<Rightarrow> bool" where
  "envelope_ok e \<longleftrightarrow> e_Cmd e < 2 ^ 32 \<and> e_Uid e < 2 ^ 64 \<and> in_i64 (e_TsMs e)"

abbreviation (input) ms :: int where "ms \<equiv> 1000000"

definition unix_milli :: "int \<Rightarrow> int" where
  "unix_milli now = now div ms"

section \<open>Authorisation of commands\<close>

datatype authz_err = ErrNotClientCallable | ErrMissingSignature | ErrBadSignature | ErrExpired | ErrNoSecret

definition MaxSkew :: int where
  "MaxSkew = 5 * 60 * 1000000000"

type_synonym Signer = bytes

definition NewSigner :: "string \<Rightarrow> Signer" where
  "NewSigner secret = secret"

definition HasSecret :: "Signer \<Rightarrow> bool" where
  "HasSecret s \<longleftrightarrow> 0 < length s"

definition digest_message :: "nat \<Rightarrow> nat \<Rightarrow> int \<Rightarrow> string \<Rightarrow> bytes" where
  "digest_message cmd uid ts trace = (be_bytes 4 cmd @ be_bytes 8 uid @ be_bytes 8 (uint64_of ts)) @ trace"

definition authz_digest :: "(bytes \<Rightarrow> bytes \<Rightarrow> bytes) \<Rightarrow> Signer \<Rightarrow> nat \<Rightarrow> nat \<Rightarrow> int \<Rightarrow> string \<Rightarrow> bytes" where
  "authz_digest mac s cmd uid ts trace = take 16 (mac s (digest_message cmd uid ts trace))"

definition authz_Sign :: "(bytes \<Rightarrow> bytes \<Rightarrow> bytes) \<Rightarrow> Signer \<Rightarrow> int \<Rightarrow> Envelope \<Rightarrow> authz_err + Envelope" where
  "authz_Sign mac s now env =
     (if cmd_Level (e_Cmd env) = LevelClient then Inr env
      else if \<not> HasSecret s then Inl ErrNoSecret
      else let env = (if e_TsMs env = 0 then env\<lparr>e_TsMs := unix_milli now\<rparr> else env)
           in Inr (env\<lparr>e_Auth := authz_digest mac s (e_Cmd env) (e_Uid env) (e_TsMs env) (e_TraceId env)\<rparr>))"

text \<open>The age of the message as \<open>Verify\<close> computes it: the difference saturates, and negating the
  smallest duration gives the smallest duration again.\<close>

definition authz_skew :: "int \<Rightarrow> int \<Rightarrow> int" where
  "authz_skew now ts = (let skew = time_Sub now (ts * ms) in if skew < 0 then i64 (- skew) else skew)"

definition authz_Verify :: "(bytes \<Rightarrow> bytes \<Rightarrow> bytes) \<Rightarrow> Signer \<Rightarrow> int \<Rightarrow> Envelope \<Rightarrow> bool \<Rightarrow> authz_err + unit" where
  "authz_Verify mac s now env fromClient =
     (let cmd = e_Cmd env; level = cmd_Level cmd in
      if level = LevelClient then Inr ()
      else if fromClient then Inl ErrNotClientCallable
      else if length (e_Auth env) = 0 then Inl ErrMissingSignature
      else if \<not> HasSecret s then Inl ErrBadSignature
      else if authz_skew now (e_TsMs env) > MaxSkew then Inl ErrExpired
      else if authz_digest mac s (e_Cmd env) (e_Uid env) (e_TsMs env) (e_TraceId env) \<noteq> e_Auth env then Inl ErrBadSignature
      else if level = LevelGM \<and> e_Operator env = '''' then Inl ErrBadSignature
      else Inr ())"

definition CheckClient :: "nat \<Rightarrow> authz_err + unit" where
  "CheckClient cmd = (if ClientCallable cmd then Inr () else Inl ErrNotClientCallable)"

lemma digest_message_inject:
  assumes "c < 2 ^ 32" "c' < 2 ^ 32" "u < 2 ^ 64" "u' < 2 ^ 64" "in_i64 t" "in_i64 t'"
  shows "digest_message c u t tr = digest_message c' u' t' tr' \<longleftrightarrow> c = c' \<and> u = u' \<and> t = t' \<and> tr = tr'"
proof -
  have "digest_message c u t tr = digest_message c' u' t' tr' \<longleftrightarrow>
      be_bytes 4 c = be_bytes 4 c' \<and> be_bytes 8 u = be_bytes 8 u'
      \<and> be_bytes 8 (uint64_of t) = be_bytes 8 (uint64_of t') \<and> tr = tr'"
    by (simp add: digest_message_def)
  moreover have "c < 256 ^ 4" "c' < 256 ^ 4" "u < 256 ^ 8" "u' < 256 ^ 8" using assms by simp_all
  ultimately show ?thesis using assms by (simp only: be_bytes_inject uint64_of_bound uint64_of_inject)
qed

lemma authz_skew_bound:
  "authz_skew now ts \<le> MaxSkew \<longleftrightarrow> \<bar>now - ts * ms\<bar> \<le> MaxSkew \<or> now - ts * ms \<le> - (2 ^ 63)"
proof -
  consider "now - ts * ms \<le> - (2 ^ 63)" | "- (2 ^ 63) < now - ts * ms" "now - ts * ms < 0" | "0 \<le> now - ts * ms"
    by linarith
  then show ?thesis
  proof cases
    case 1
    then have "time_Sub now (ts * ms) = - (2 ^ 63)" by (simp add: time_Sub_def)
    with 1 show ?thesis by (simp add: authz_skew_def MaxSkew_def i64_def)
  next
    case 2
    then have "time_Sub now (ts * ms) = now - ts * ms" by (simp add: time_Sub_def)
    with 2 show ?thesis by (simp add: authz_skew_def MaxSkew_def i64_id in_i64_def)
  next
    case 3
    then have "time_Sub now (ts * ms) = min (2 ^ 63 - 1) (now - ts * ms)" by (simp add: time_Sub_def)
    with 3 show ?thesis by (auto simp: authz_skew_def MaxSkew_def min_def)
  qed
qed

text \<open>The lobby accepts a command that is not open to clients exactly when it did not come through a
  gateway, a secret is configured, the signature is the code of the message's command, player, time
  and trace under that secret, the time is at most five minutes off (or so far in the future
  that the age overflows), and a GM command names its operator.\<close>

theorem privileged_command_accepted_iff:
  assumes "cmd_Level (e_Cmd env) \<noteq> LevelClient"
  shows "authz_Verify mac (NewSigner secret) now env fromClient = Inr () \<longleftrightarrow>
     \<not> fromClient \<and> secret \<noteq> '''' \<and> e_Auth env \<noteq> []
     \<and> e_Auth env = take 16 (mac secret (digest_message (e_Cmd env) (e_Uid env) (e_TsMs env) (e_TraceId env)))
     \<and> (\<bar>now - e_TsMs env * 1000000\<bar> \<le> MaxSkew \<or> now - e_TsMs env * 1000000 \<le> - (2 ^ 63))
     \<and> (cmd_Level (e_Cmd env) = LevelGM \<longrightarrow> e_Operator env \<noteq> '''')"
  using assms authz_skew_bound [of now "e_TsMs env"]
  by (auto simp: authz_Verify_def NewSigner_def HasSecret_def authz_digest_def Let_def not_less)

definition demo_env :: Envelope where
  "demo_env = \<lparr>e_Cmd = 801, e_Uid = 7, e_TraceId = ''t'', e_FromNode = ''s1-world-1'', e_TsMs = 1000, e_Seq = 0,
     e_Body = [], e_ErrCode = 0, e_ErrMsg = '''', e_Shard = 0, e_Auth = ''s'', e_Operator = ''root''\<rparr>"

theorem privileged_command_accepted_iff_witness:
  "authz_Verify (\<lambda>k m. k) (NewSigner ''s'') 1000000000 demo_env False = Inr ()"
  by (subst privileged_command_accepted_iff)
    (simp_all add: demo_env_def cmd_Level_def clientCmds_def gmCmds_def MaxSkew_def)

text \<open>C17: A signature made for one command cannot be used for another: if a message carrying the
  signature of a signed message is accepted, then both have the same command, player, time and trace,
  unless the code collides on their two different digests.\<close>

theorem signature_binds_the_command:
  assumes "authz_Sign mac s t0 a = Inr a'" "cmd_Level (e_Cmd a) \<noteq> LevelClient"
    and "authz_Verify mac s now b fromClient = Inr ()" "cmd_Level (e_Cmd b) \<noteq> LevelClient"
    and "e_Auth b = e_Auth a'" "envelope_ok a'" "envelope_ok b"
    and "digest_message (e_Cmd a') (e_Uid a') (e_TsMs a') (e_TraceId a')
           \<noteq> digest_message (e_Cmd b) (e_Uid b) (e_TsMs b) (e_TraceId b) \<Longrightarrow>
         take 16 (mac s (digest_message (e_Cmd a') (e_Uid a') (e_TsMs a') (e_TraceId a')))
           \<noteq> take 16 (mac s (digest_message (e_Cmd b) (e_Uid b) (e_TsMs b) (e_TraceId b)))"
  shows "e_Cmd b = e_Cmd a \<and> e_Uid b = e_Uid a \<and> e_TsMs b = e_TsMs a' \<and> e_TraceId b = e_TraceId a"
proof -
  have a': "e_Auth a' = authz_digest mac s (e_Cmd a') (e_Uid a') (e_TsMs a') (e_TraceId a')"
    "e_Cmd a' = e_Cmd a" "e_Uid a' = e_Uid a" "e_TraceId a' = e_TraceId a"
    using assms(1,2) by (auto simp: authz_Sign_def Let_def split: if_splits)
  have "e_Auth b = authz_digest mac s (e_Cmd b) (e_Uid b) (e_TsMs b) (e_TraceId b)"
    using assms(3,4) by (auto simp: authz_Verify_def Let_def split: if_splits)
  with a'(1) assms(5,8) have "digest_message (e_Cmd a') (e_Uid a') (e_TsMs a') (e_TraceId a')
      = digest_message (e_Cmd b) (e_Uid b) (e_TsMs b) (e_TraceId b)"
    unfolding authz_digest_def by metis
  with assms(6,7) have "e_Cmd a' = e_Cmd b \<and> e_Uid a' = e_Uid b \<and> e_TsMs a' = e_TsMs b \<and> e_TraceId a' = e_TraceId b"
    by (subst (asm) digest_message_inject) (auto simp: envelope_ok_def)
  with a' show ?thesis by simp
qed

theorem signature_binds_the_command_witness:
  "e_Uid (demo_env\<lparr>e_Auth := take 16 (digest_message 801 7 1000 ''t'')\<rparr>) = e_Uid demo_env"
proof -
  let ?a = "demo_env\<lparr>e_Auth := take 16 (digest_message 801 7 1000 ''t'')\<rparr>"
  have 1: "authz_Sign (\<lambda>k m. m) ''s'' 0 demo_env = Inr ?a"
    by (simp add: authz_Sign_def demo_env_def cmd_Level_def clientCmds_def gmCmds_def HasSecret_def authz_digest_def)
  have 2: "authz_Verify (\<lambda>k m. m) ''s'' 1000000000 ?a False = Inr ()"
    using authz_skew_bound [of 1000000000 1000]
    by (simp add: authz_Verify_def demo_env_def cmd_Level_def clientCmds_def gmCmds_def MaxSkew_def HasSecret_def
        authz_digest_def digest_message_def)
  have 3: "cmd_Level (e_Cmd demo_env) \<noteq> LevelClient" "cmd_Level (e_Cmd ?a) \<noteq> LevelClient" "envelope_ok ?a"
    by (simp_all add: demo_env_def cmd_Level_def clientCmds_def gmCmds_def envelope_ok_def in_i64_def)
  show ?thesis using signature_binds_the_command [OF 1 3(1) 2 3(2) refl 3(3,3)] by blast
qed

text \<open>What is signed is accepted within the allowed skew; the body is not part of the digest, so the
  same signature is good for any body.\<close>

theorem signed_command_is_accepted:
  assumes "authz_Sign mac s t0 env = Inr env'" "\<And>m. length (mac s m) = 32"
    and "\<bar>now - e_TsMs env' * 1000000\<bar> \<le> MaxSkew"
    and "cmd_Level (e_Cmd env) = LevelGM \<Longrightarrow> e_Operator env \<noteq> ''''"
    and "cmd_Level (e_Cmd env) \<noteq> LevelClient"
  shows "authz_Verify mac s now (env'\<lparr>e_Body := body\<rparr>) False = Inr ()"
proof -
  have "mac s m \<noteq> []" for m using assms(2) [of m] by auto
  then show ?thesis
    using assms(1,3-5) authz_skew_bound [of now "e_TsMs env'"]
    by (auto simp: authz_Sign_def authz_Verify_def authz_digest_def Let_def not_less split: if_splits)
qed

text \<open>A message dated more than 292 years ahead is never too old: the saturated age is the smallest
  duration, which is its own negation.\<close>

theorem far_future_signature_never_expires:
  assumes "now - ts * 1000000 \<le> - (2 ^ 63)"
  shows "\<not> authz_skew now ts > MaxSkew"
  using authz_skew_bound [of now ts] assms by simp

section \<open>Login tickets\<close>

datatype authn_err = ErrBadToken | ErrTokenExpired | ErrUIDMismatch | ErrDevAuthDisabled

definition TokenTTL :: int where
  "TokenTTL = 30 * 60 * 1000000000"

record LoginVerifier =
  lv_secret :: bytes
  lv_dev :: bool

definition NewVerifier :: "string \<Rightarrow> bool \<Rightarrow> LoginVerifier" where
  "NewVerifier secret allowDev = \<lparr>lv_secret = secret, lv_dev = allowDev\<rparr>"

definition DevMode :: "LoginVerifier \<Rightarrow> bool" where
  "DevMode v \<longleftrightarrow> length (lv_secret v) = 0 \<and> lv_dev v"

definition login_Enabled :: "LoginVerifier \<Rightarrow> bool" where
  "login_Enabled v \<longleftrightarrow> length (lv_secret v) > 0"

definition login_sign :: "(bytes \<Rightarrow> bytes \<Rightarrow> bytes) \<Rightarrow> bytes \<Rightarrow> nat \<Rightarrow> int \<Rightarrow> bytes" where
  "login_sign mac secret uid expiry = take 16 (mac secret (be_bytes 8 uid @ be_bytes 8 (uint64_of expiry)))"

definition parse_token :: "string \<Rightarrow> authn_err + (nat \<times> int \<times> bytes)" where
  "parse_token token =
     (let parts = go_split (CHR ''.'') token in
      if length parts \<noteq> 3 then Inl ErrBadToken
      else case go_ParseUint (parts ! 0) of None \<Rightarrow> Inl ErrBadToken | Some uid \<Rightarrow>
      (case go_ParseInt (parts ! 1) of None \<Rightarrow> Inl ErrBadToken | Some expiry \<Rightarrow>
      (case b64_decode (parts ! 2) of None \<Rightarrow> Inl ErrBadToken | Some sig \<Rightarrow> Inr (uid, expiry, sig))))"

definition login_Verify :: "(bytes \<Rightarrow> bytes \<Rightarrow> bytes) \<Rightarrow> LoginVerifier \<Rightarrow> int \<Rightarrow> nat \<Rightarrow> string \<Rightarrow> authn_err + unit" where
  "login_Verify mac v now uid token =
     (if length (lv_secret v) = 0 then (if lv_dev v then Inr () else Inl ErrDevAuthDisabled)
      else case parse_token token of
        Inl e \<Rightarrow> Inl e
      | Inr (tokUID, expiry, sig) \<Rightarrow>
          if tokUID \<noteq> uid then Inl ErrUIDMismatch
          else if now > expiry * ms then Inl ErrTokenExpired
          else if login_sign mac (lv_secret v) tokUID expiry \<noteq> sig then Inl ErrBadToken
          else Inr ())"

definition Issue :: "(bytes \<Rightarrow> bytes \<Rightarrow> bytes) \<Rightarrow> LoginVerifier \<Rightarrow> int \<Rightarrow> nat \<Rightarrow> int \<Rightarrow> authn_err + string" where
  "Issue mac v now uid ttl =
     (if length (lv_secret v) = 0 then Inl ErrDevAuthDisabled
      else let ttl = (if ttl \<le> 0 then TokenTTL else ttl);
               expiry = unix_milli (now + ttl);
               sig = login_sign mac (lv_secret v) uid expiry
           in Inr (show_nat uid @ ''.'' @ show_int expiry @ ''.'' @ b64_encode sig))"

lemma parse_token_render:
  assumes "uid < 2 ^ 64" "in_i64 expiry"
  shows "parse_token (show_nat uid @ ''.'' @ show_int expiry @ ''.'' @ b64_encode sig) = Inr (uid, expiry, sig)"
proof -
  have "go_split (CHR ''.'') (show_nat uid @ ''.'' @ show_int expiry @ ''.'' @ b64_encode sig)
      = [show_nat uid, show_int expiry, b64_encode sig]"
    by (simp add: go_split_append go_split_plain show_nat_no_dot show_int_no_dot b64_encode_no_dot)
  then show ?thesis
    using assms by (simp add: parse_token_def go_ParseUint_show go_ParseInt_show b64_roundtrip)
qed

text \<open>A ticket issued for a player admits that player, and only that player, until the millisecond
  it was issued for plus its lifetime; afterwards it is refused as expired.\<close>

theorem issued_ticket_verifies:
  assumes "secret \<noteq> ''''" "uid < 2 ^ 64" "0 \<le> now" "now < 2 ^ 62" "ttl < 2 ^ 62"
    and "Issue mac (NewVerifier secret dev) now uid ttl = Inr token"
  shows "login_Verify mac (NewVerifier secret dev) later uid' token =
     (if uid' \<noteq> uid then Inl ErrUIDMismatch
      else if later \<le> (now + (if ttl \<le> 0 then TokenTTL else ttl)) div 1000000 * 1000000 then Inr ()
      else Inl ErrTokenExpired)"
proof -
  let ?t = "if ttl \<le> 0 then TokenTTL else ttl"
  let ?e = "unix_milli (now + ?t)"
  have t: "token = show_nat uid @ ''.'' @ show_int ?e @ ''.'' @ b64_encode (login_sign mac secret uid ?e)"
    using assms(1,6) by (simp add: Issue_def NewVerifier_def Let_def)
  have "in_i64 ?e" using assms(3-5) by (auto simp: in_i64_def unix_milli_def TokenTTL_def)
  then have p: "parse_token token = Inr (uid, ?e, login_sign mac secret uid ?e)"
    unfolding t using assms(2) by (rule parse_token_render [rotated])
  show ?thesis using assms(1) p
    by (simp add: login_Verify_def NewVerifier_def unix_milli_def)
qed

theorem issued_ticket_verifies_witness:
  "\<exists>token. Issue (\<lambda>k m. m) (NewVerifier ''s'' False) 0 7 1000000 = Inr token
     \<and> login_Verify (\<lambda>k m. m) (NewVerifier ''s'' False) 1000000 7 token = Inr ()
     \<and> login_Verify (\<lambda>k m. m) (NewVerifier ''s'' False) 1000001 7 token = Inl ErrTokenExpired"
proof -
  obtain token where t: "Issue (\<lambda>k m. m) (NewVerifier ''s'' False) 0 7 1000000 = Inr token"
    by (auto simp: Issue_def NewVerifier_def Let_def)
  have "login_Verify (\<lambda>k m. m) (NewVerifier ''s'' False) 1000000 7 token = Inr ()"
    using issued_ticket_verifies [of "''s''" 7 0 1000000 "\<lambda>k m. m" False token 1000000 7] t by simp
  moreover have "login_Verify (\<lambda>k m. m) (NewVerifier ''s'' False) 1000001 7 token = Inl ErrTokenExpired"
    using issued_ticket_verifies [of "''s''" 7 0 1000000 "\<lambda>k m. m" False token 1000001 7] t by simp
  ultimately show ?thesis using t by blast
qed

text \<open>Without a secret every login is refused unless development mode is on.\<close>

theorem unconfigured_login_refuses:
  "login_Verify mac (NewVerifier '''' dev) now uid token = (if dev then Inr () else Inl ErrDevAuthDisabled)"
  by (simp add: login_Verify_def NewVerifier_def)

end
