(* ===== verification/Lobby_Actions.thy ===== *)
theory Lobby_Actions
  imports Lobby_Commit Profiles
begin

text \<open>
  The lobby's requests that change a player in memory and leave the writing to the flusher:
  session, currency, bag, quests, friends, mailbox (\<^verbatim>\<open>internal/lobby/handlers.go\<close>) and the GM's limits
  and kick (\<^verbatim>\<open>internal/lobby/gm.go\<close>).

  A handler takes the unpacked request (\<open>None\<close> when it does not parse) and returns the player, what it
  asks of its surroundings as a list of \<open>effect\<close>s in the order of the calls, and its answer. \<open>mark\<close> is
  the effect \<open>Mark\<close>; work the code hands to another goroutine is an effect too. A loaded player always
  has all its modules. Times are milliseconds; \<open>OfflineAt = 0\<close> is Go's zero time.

  Shown here: whatever module of the player a request changes it marks dirty; a late logout of
  an old connection does nothing; an excluded player cannot log in; every currency change is
  entered in the ledger with its balance; the mails of the pending queue arrive in order.
\<close>

section \<open>Effects and answers\<close>

record TransferJob =
  tj_Txid :: string
  tj_FromUid :: nat
  tj_ToUid :: nat
  tj_Items :: "Attachment list"
  tj_CurrencyDelta :: int
  tj_CurrencyType :: nat
  tj_Reason :: string
  tj_CreatedAt :: int

datatype push_body = MailBody Mail | BagBody PlayerBag | KickBody nat nat

datatype effect =
    Mark "Module list"
  | AppendLedger Entry
  | DrainPendingMail
  | IndexGuildMember nat
  | PublishPlayerEvent string Profile
  | NotifyFriendAdded nat nat
  | GatePush string nat push_body
  | FallbackToMailbox TransferJob

definition pushToPlayer :: "Player \<Rightarrow> nat \<Rightarrow> push_body \<Rightarrow> effect list" where
  "pushToPlayer p push body = (if \<not> Online p \<or> GateID p = '''' then [] else [GatePush (GateID p) push body])"

record LoginReq =
  lr_GateId :: string
  lr_ConnId :: nat

record LoginResp =
  lp_Base :: PlayerBase
  lp_Bag :: PlayerBag
  lp_Quest :: PlayerQuest
  lp_Reconnect :: bool
  lp_OpenRound :: "Round option"

datatype answer =
    RLogin LoginResp | RAck bool | RHeartbeat int | RBalance int | RItem Item | RRemain int | RBag PlayerBag
  | RQuest Quest | RSocial PlayerSocial | RMail PlayerMail

type_synonym outcome = "Player \<times> effect list \<times> (ErrCode + answer)"

section \<open>Session\<close>

definition handleLogin :: "Config \<Rightarrow> int \<Rightarrow> Player \<Rightarrow> LoginReq option \<Rightarrow> outcome" where
  "handleLogin conf now p oreq =
     (case oreq of
        None \<Rightarrow> (p, [], Inl E_BadRequest)
      | Some req \<Rightarrow>
          if fst (LoginBlocked (Some (RG p)) now) then (p, [], Inl E_SelfExcluded)
          else
            let reconnect = (Online p \<or> OfflineAt p \<noteq> 0);
                kicked = (if Online p \<and> ConnID p \<noteq> lr_ConnId req then [Mark [ModBase, ModBag, ModQuest]] else []);
                p1 = p\<lparr>Online := True, GateID := lr_GateId req, ConnID := lr_ConnId req, OfflineAt := 0,
                        Base := (Base p)\<lparr>LastLogin := now\<rparr>\<rparr>;
                p2 = p1\<lparr>RG := fst (Rollover (StartSession (RG p1) now) now (c_RG conf))\<rparr>;
                guild = (if GuildId (Base p2) \<noteq> 0 then [IndexGuildMember (GuildId (Base p2))] else [])
            in (p2,
                kicked @ [Mark [ModBase], Mark [ModRG], DrainPendingMail] @ guild
                  @ [PublishPlayerEvent ''login'' (player_Profile p2)],
                Inr (RLogin \<lparr>lp_Base = Base p2, lp_Bag = Bag p2, lp_Quest = QuestM p2, lp_Reconnect = reconnect,
                             lp_OpenRound = RoundM p2\<rparr>)))"

text \<open>The request is used even if it does not parse; then it is empty.\<close>

definition handleLogout :: "int \<Rightarrow> Player \<Rightarrow> nat \<Rightarrow> outcome" where
  "handleLogout now p connId =
     (if connId \<noteq> 0 \<and> ConnID p \<noteq> connId then (p, [], Inr (RAck False))
      else
        let p1 = p\<lparr>Online := False, OfflineAt := now, Base := (Base p)\<lparr>LastLogout := now\<rparr>\<rparr>
        in (p1, [Mark [ModBase], PublishPlayerEvent ''logout'' (player_Profile p1)], Inr (RAck True)))"

definition handleHeartbeat :: "int \<Rightarrow> Player \<Rightarrow> outcome" where
  "handleHeartbeat now p = (p, [], Inr (RHeartbeat now))"

section \<open>Currency and bag\<close>

record AddCurrencyReq =
  ac_Currency :: nat
  ac_Delta :: int
  ac_Reason :: string

definition handleAddCurrency :: "int \<Rightarrow> (nat \<Rightarrow> nat option) \<Rightarrow> string \<Rightarrow> Player \<Rightarrow> AddCurrencyReq option \<Rightarrow> outcome" where
  "handleAddCurrency now ids operator p oreq =
     (case oreq of
        None \<Rightarrow> (p, [], Inl E_BadRequest)
      | Some req \<Rightarrow>
          (case AddCurrency (ac_Currency req) (ac_Delta req) p of
             (p1, balance, ok) \<Rightarrow>
               if \<not> ok then (p1, [], Inl E_NotEnough)
               else (p1,
                 Mark [ModBase] #
                   (if ac_Delta req \<noteq> 0
                    then [AppendLedger (WithOperator operator (WithRef (ac_Reason req)
                            (new_entry now (ids 0) (UID p1) TypeGrant (ac_Currency req) (ac_Delta req) balance)))]
                    else []),
                 Inr (RBalance balance))))"

definition appendItemLedger :: "int \<Rightarrow> nat option \<Rightarrow> Player \<Rightarrow> ltype \<Rightarrow> nat \<Rightarrow> int \<Rightarrow> string \<Rightarrow> effect" where
  "appendItemLedger now oid p t tpl cnt reason =
     AppendLedger (WithRef (''tpl='' @ show_nat tpl @ '';count='' @ show_int cnt @ '';reason='' @ reason)
       (new_entry now oid (UID p) t 0 0 0))"

record AddItemReq =
  ai_TplId :: nat
  ai_Count :: int
  ai_Reason :: string

definition handleAddItem :: "Config \<Rightarrow> int \<Rightarrow> (nat \<Rightarrow> nat option) \<Rightarrow> Player \<Rightarrow> AddItemReq option \<Rightarrow> outcome" where
  "handleAddItem conf now ids p oreq =
     (case oreq of
        None \<Rightarrow> (p, [], Inl E_BadRequest)
      | Some req \<Rightarrow>
          (case ids 0 of
             None \<Rightarrow> (p, [], Inl E_Internal)
           | Some i \<Rightarrow>
               (case AddItem i (ai_TplId req) (ai_Count req) now (Stackable conf (ai_TplId req)) p of
                  (p1, None) \<Rightarrow> (p1, [], Inl E_BagFull)
                | (p1, Some it) \<Rightarrow>
                    (p1, [Mark [ModBag], appendItemLedger now (ids 1) p1 TypeGrant (ai_TplId req) (ai_Count req) (ai_Reason req)],
                     Inr (RItem it)))))"

definition int64_of :: "nat \<Rightarrow> int" where
  "int64_of n = i64 (int n)"

definition handleUseItem :: "Player \<Rightarrow> (nat \<times> int) option \<Rightarrow> outcome" where
  "handleUseItem p oreq =
     (case oreq of
        None \<Rightarrow> (p, [], Inl E_BadRequest)
      | Some (instanceId, cnt) \<Rightarrow>
          (case UseItem (int64_of instanceId) cnt p of
             (p1, remain, ok) \<Rightarrow>
               if \<not> ok then (p1, [], Inl E_ItemNotFound) else (p1, [Mark [ModBag]], Inr (RRemain remain))))"

definition handleGetBag :: "Player \<Rightarrow> outcome" where
  "handleGetBag p = (p, [], Inr (RBag (Bag p)))"

section \<open>Quests\<close>

definition QuestTarget :: "nat \<Rightarrow> int" where
  "QuestTarget i = int (u32 (10 + i mod 10))"

definition handleAcceptQuest :: "int \<Rightarrow> Player \<Rightarrow> nat option \<Rightarrow> outcome" where
  "handleAcceptQuest now p oreq =
     (case oreq of
        None \<Rightarrow> (p, [], Inl E_BadRequest)
      | Some qid \<Rightarrow>
          if FindQuest p qid \<noteq> None then (p, [], Inl E_Duplicate)
          else
            let q = \<lparr>QuestId = qid, q_State = 1, Progress = 0, Target = QuestTarget qid, AcceptAt = now\<rparr>
            in (p\<lparr>QuestM := (QuestM p)\<lparr>Quests := Quests (QuestM p) @ [q]\<rparr>\<rparr>, [Mark [ModQuest]], Inr (RQuest q)))"

text \<open>\<open>FindQuest\<close> returns a pointer, so the update is to the first quest of that number.\<close>

fun update_first :: "('a \<Rightarrow> bool) \<Rightarrow> ('a \<Rightarrow> 'a) \<Rightarrow> 'a list \<Rightarrow> 'a list" where
  "update_first P f [] = []"
| "update_first P f (x # xs) = (if P x then f x # xs else x # update_first P f xs)"

definition advance_quest :: "int \<Rightarrow> Quest \<Rightarrow> Quest" where
  "advance_quest delta q =
     (if q_State q = 1
      then let q1 = q\<lparr>Progress := i64 (Progress q + delta)\<rparr>
           in if Target q1 > 0 \<and> Progress q1 \<ge> Target q1 then q1\<lparr>Progress := Target q1, q_State := 2\<rparr> else q1
      else q)"

definition handleQuestProgress :: "Player \<Rightarrow> (nat \<times> int) option \<Rightarrow> outcome" where
  "handleQuestProgress p oreq =
     (case oreq of
        None \<Rightarrow> (p, [], Inl E_BadRequest)
      | Some (qid, delta) \<Rightarrow>
          (case FindQuest p qid of
             None \<Rightarrow> (p, [], Inl E_NotFound)
           | Some q \<Rightarrow>
               (p\<lparr>QuestM := (QuestM p)\<lparr>Quests := update_first (\<lambda>x. QuestId x = qid) (advance_quest delta) (Quests (QuestM p))\<rparr>\<rparr>,
                if q_State q = 1 then [Mark [ModQuest]] else [],
                Inr (RQuest (advance_quest delta q)))))"

section \<open>Friends and mail\<close>

definition handleGetSocial :: "Player \<Rightarrow> outcome" where
  "handleGetSocial p = (p, [], Inr (RSocial (SocialM p)))"

definition handleAddFriend :: "Player \<Rightarrow> nat option \<Rightarrow> outcome" where
  "handleAddFriend p oreq =
     (case oreq of
        None \<Rightarrow> (p, [], Inl E_BadRequest)
      | Some target \<Rightarrow>
          if target = 0 \<or> target = UID p then (p, [], Inl E_BadRequest)
          else if HasFriend p target then (p, [], Inl E_Duplicate)
          else (p\<lparr>SocialM := (SocialM p)\<lparr>Friends := Friends (SocialM p) @ [target]\<rparr>\<rparr>,
                [Mark [ModSocial], NotifyFriendAdded (UID p) target], Inr (RAck True)))"

definition handleGetMail :: "Player \<Rightarrow> outcome" where
  "handleGetMail p = (p, [], Inr (RMail (MailM p)))"

text \<open>\<open>drainPendingMail\<close>: the first 200 queued mails are read (\<open>None\<close> when reading fails), what was read
  is trimmed from the queue, and what parses is appended to the player's mails, if the player
  is still in memory then and trimming did not fail.\<close>

definition drain_read :: "(bytes \<Rightarrow> Mail option) \<Rightarrow> bytes list option \<Rightarrow> (Mail list \<times> nat) option" where
  "drain_read dec raws =
     (case raws of None \<Rightarrow> None | Some rs \<Rightarrow> if length rs = 0 then None else Some (List.map_filter dec rs, length rs))"

definition drain_deliver :: "Mail list \<Rightarrow> Player option \<Rightarrow> Player option \<times> effect list" where
  "drain_deliver mails op =
     (case op of
        None \<Rightarrow> (None, [])
      | Some p \<Rightarrow> (Some (p\<lparr>MailM := (MailM p)\<lparr>Mails := Mails (MailM p) @ mails\<rparr>\<rparr>), [Mark [ModMail]]))"

definition drainPendingMail :: "(bytes \<Rightarrow> Mail option) \<Rightarrow> net \<Rightarrow> net \<Rightarrow> bytes list \<Rightarrow> Player option \<Rightarrow>
    bytes list \<times> Player option \<times> effect list" where
  "drainPendingMail dec n1 n2 queue op =
     (case drain_read dec (if n1 = Delivered then Some (take 200 queue) else None) of
        None \<Rightarrow> (queue, op, [])
      | Some (mails, k) \<Rightarrow>
          (case n2 of
             Delivered \<Rightarrow> (drop k queue, drain_deliver mails op)
           | ReplyLost \<Rightarrow> (drop k queue, op, [])
           | RequestLost \<Rightarrow> (queue, op, [])))"

section \<open>GM\<close>

record GMSetRGReq =
  gs_DailyBetLimit :: int
  gs_DailyLossLimit :: int
  gs_SessionLimit :: int
  gs_ExcludeUntil :: int

definition handleGMSetRG :: "Player \<Rightarrow> GMSetRGReq option \<Rightarrow> outcome" where
  "handleGMSetRG p oreq =
     (case oreq of
        None \<Rightarrow> (p, [], Inl E_BadRequest)
      | Some req \<Rightarrow>
          let r0 = RG p;
              r1 = (if gs_DailyBetLimit req \<ge> 0 then r0\<lparr>rg_DailyBetLimit := gs_DailyBetLimit req\<rparr> else r0);
              r2 = (if gs_DailyLossLimit req \<ge> 0 then r1\<lparr>rg_DailyLossLimit := gs_DailyLossLimit req\<rparr> else r1);
              r3 = (if gs_SessionLimit req \<ge> 0 then r2\<lparr>rg_SessionLimit := gs_SessionLimit req\<rparr> else r2);
              r4 = (if gs_ExcludeUntil req > 0 then r3\<lparr>ExcludedUntil := gs_ExcludeUntil req\<rparr> else r3)
          in (p\<lparr>RG := r4\<rparr>, [Mark [ModRG]], Inr (RAck True)))"

definition handleGMKick :: "int \<Rightarrow> Player \<Rightarrow> outcome" where
  "handleGMKick now p =
     (if \<not> Online p then (p, [], Inr (RAck False))
      else (p\<lparr>Online := False, OfflineAt := now\<rparr>,
            pushToPlayer p PushKick (KickBody (UID p) (ConnID p)) @ [Mark [ModBase]], Inr (RAck True)))"

definition handleGMQuery :: "'r redis \<Rightarrow> keys \<Rightarrow> entry_codec \<Rightarrow> net \<Rightarrow> int \<Rightarrow> Player \<Rightarrow> 'r \<Rightarrow>
    ErrCode + (PlayerBase \<times> Round option \<times> Entry list)" where
  "handleGMQuery R ks J n reqLimit p s =
     (let limit = (if reqLimit \<le> 0 then 50 else reqLimit) in
      if n \<noteq> Delivered then Inl E_Internal else Inr (Base p, RoundM p, Recent R ks J (UID p) limit s))"

definition handleGetProfile :: "'r redis \<Rightarrow> keys \<Rightarrow> net \<Rightarrow> nat list option \<Rightarrow> 'r \<Rightarrow> ErrCode + Profile list" where
  "handleGetProfile R ks n oreq s =
     (case oreq of
        None \<Rightarrow> Inl E_BadRequest
      | Some uids \<Rightarrow> (case profile_GetMany R ks n uids s of Inl e \<Rightarrow> Inl E_Internal | Inr ps \<Rightarrow> Inr ps))"

section \<open>Dispatch of the requests that stay in memory\<close>

datatype request =
    QLogin "LoginReq option" | QLogout nat | QHeartbeat | QAddCurrency "AddCurrencyReq option"
  | QAddItem "AddItemReq option" | QUseItem "(nat \<times> int) option" | QGetBag | QAcceptQuest "nat option"
  | QQuestProgress "(nat \<times> int) option" | QGetSocial | QAddFriend "nat option" | QGetMail
  | QGMSetRG "GMSetRGReq option" | QGMKick

definition dispatch_memory :: "Config \<Rightarrow> int \<Rightarrow> (nat \<Rightarrow> nat option) \<Rightarrow> string \<Rightarrow> Player \<Rightarrow> request \<Rightarrow> outcome" where
  "dispatch_memory conf now ids operator p0 req =
     (let p = p0\<lparr>LastActive := now\<rparr> in
      case req of
        QLogin r \<Rightarrow> handleLogin conf now p r
      | QLogout c \<Rightarrow> handleLogout now p c
      | QHeartbeat \<Rightarrow> handleHeartbeat now p
      | QAddCurrency r \<Rightarrow> handleAddCurrency now ids operator p r
      | QAddItem r \<Rightarrow> handleAddItem conf now ids p r
      | QUseItem r \<Rightarrow> handleUseItem p r
      | QGetBag \<Rightarrow> handleGetBag p
      | QAcceptQuest r \<Rightarrow> handleAcceptQuest now p r
      | QQuestProgress r \<Rightarrow> handleQuestProgress p r
      | QGetSocial \<Rightarrow> handleGetSocial p
      | QAddFriend r \<Rightarrow> handleAddFriend p r
      | QGetMail \<Rightarrow> handleGetMail p
      | QGMSetRG r \<Rightarrow> handleGMSetRG p r
      | QGMKick \<Rightarrow> handleGMKick now p)"

section \<open>Dirty marks\<close>

definition marked :: "effect list \<Rightarrow> Module set" where
  "marked es = (\<Union>e\<in>set es. case e of Mark ms \<Rightarrow> set ms | _ \<Rightarrow> {})"

lemma marked_simps [simp]:
  "marked [] = {}" "marked (Mark ms # es) = set ms \<union> marked es" "marked (AppendLedger x # es) = marked es"
  "marked (DrainPendingMail # es) = marked es" "marked (PublishPlayerEvent x1 x2 # es) = marked es"
  "marked (IndexGuildMember x3 # es) = marked es" "marked (NotifyFriendAdded x4 x5 # es) = marked es"
  "marked (a @ b) = marked a \<union> marked b"
  by (auto simp: marked_def)

text \<open>The modules in which two players differ.\<close>

datatype module_value =
    VBase PlayerBase | VBag PlayerBag | VQuest PlayerQuest | VSocial PlayerSocial | VMail PlayerMail
  | VRound "Round option" | VRG PlayerRG | VGacha PlayerGacha

fun module_of :: "Player \<Rightarrow> Module \<Rightarrow> module_value" where
  "module_of p ModBase = VBase (Base p)"
| "module_of p ModBag = VBag (Bag p)"
| "module_of p ModQuest = VQuest (QuestM p)"
| "module_of p ModSocial = VSocial (SocialM p)"
| "module_of p ModMail = VMail (MailM p)"
| "module_of p ModRound = VRound (RoundM p)"
| "module_of p ModRG = VRG (RG p)"
| "module_of p ModGacha = VGacha (Gacha p)"

definition changed :: "Player \<Rightarrow> Player \<Rightarrow> Module set" where
  "changed p p' = {m. module_of p m \<noteq> module_of p' m}"

lemma changed_subset:
  assumes "\<And>m. module_of p m \<noteq> module_of p' m \<Longrightarrow> m \<in> S"
  shows "changed p p' \<subseteq> S"
  using assms by (auto simp: changed_def)

lemma changed_marshal:
  "player_Marshal C p m \<noteq> player_Marshal C p' m \<Longrightarrow> m \<in> changed p p'"
  by (cases m) (auto simp: changed_def player_Marshal_def)

lemma module_of_simps [simp]:
  "module_of (p\<lparr>LastActive := t\<rparr>) m = module_of p m" "module_of (p\<lparr>Online := b\<rparr>) m = module_of p m"
  "module_of (p\<lparr>OfflineAt := t\<rparr>) m = module_of p m" "module_of (p\<lparr>GateID := g\<rparr>) m = module_of p m"
  "module_of (p\<lparr>ConnID := c\<rparr>) m = module_of p m"
  "module_of (p\<lparr>Base := x1\<rparr>) m = (if m = ModBase then VBase x1 else module_of p m)"
  "module_of (p\<lparr>Bag := x2\<rparr>) m = (if m = ModBag then VBag x2 else module_of p m)"
  "module_of (p\<lparr>QuestM := x3\<rparr>) m = (if m = ModQuest then VQuest x3 else module_of p m)"
  "module_of (p\<lparr>SocialM := x4\<rparr>) m = (if m = ModSocial then VSocial x4 else module_of p m)"
  "module_of (p\<lparr>MailM := x5\<rparr>) m = (if m = ModMail then VMail x5 else module_of p m)"
  "module_of (p\<lparr>RG := x6\<rparr>) m = (if m = ModRG then VRG x6 else module_of p m)"
  by (cases m; simp)+

lemma module_of_set_items [simp]: "module_of (set_items its p) m = (if m = ModBag then VBag (Bag (set_items its p)) else module_of p m)"
  by (simp add: set_items_def)

lemma handleLogin_marks: "handleLogin conf now p r = (p', es, a) \<Longrightarrow> changed p p' \<subseteq> marked es"
  by (rule changed_subset) (auto simp: handleLogin_def Let_def split: option.splits if_splits)

lemma handleLogout_marks: "handleLogout now p c = (p', es, a) \<Longrightarrow> changed p p' \<subseteq> marked es"
  by (rule changed_subset) (auto simp: handleLogout_def Let_def split: if_splits)

lemma handleAddCurrency_marks: "handleAddCurrency now ids op p r = (p', es, a) \<Longrightarrow> changed p p' \<subseteq> marked es"
  by (rule changed_subset)
    (auto simp: handleAddCurrency_def AddCurrency_def set_currency_def Let_def split: option.splits if_splits)

lemma AddItem_other:
  "AddItem i tpl c now st p = (p', oit) \<Longrightarrow> (m \<noteq> ModBag \<longrightarrow> module_of p' m = module_of p m) \<and> (oit = None \<longrightarrow> p' = p)"
  by (auto simp: AddItem_def Let_def split: if_splits option.splits)

lemma handleAddItem_marks: "handleAddItem conf now ids p r = (p', es, a) \<Longrightarrow> changed p p' \<subseteq> marked es"
  by (rule changed_subset)
    (fastforce simp: handleAddItem_def appendItemLedger_def split: option.splits prod.splits dest: AddItem_other)

lemma UseItem_other:
  "UseItem i c p = (p', r, ok) \<Longrightarrow> (m \<noteq> ModBag \<longrightarrow> module_of p' m = module_of p m) \<and> (\<not> ok \<longrightarrow> p' = p)"
  by (auto simp: UseItem_def compactBag_def Let_def split: if_splits option.splits)

lemma handleUseItem_marks: "handleUseItem p r = (p', es, a) \<Longrightarrow> changed p p' \<subseteq> marked es"
  by (rule changed_subset) (fastforce simp: handleUseItem_def split: option.splits prod.splits if_splits dest: UseItem_other)

lemma update_first_id: "\<forall>x\<in>set xs. P x \<longrightarrow> f x = x \<Longrightarrow> update_first P f xs = xs"
  by (induction xs) auto

lemma update_first_find: "List.find P xs = Some x \<Longrightarrow> f x = x \<Longrightarrow> update_first P f xs = xs"
  by (induction xs) (auto split: if_splits)

lemma handleQuest_marks:
  "handleAcceptQuest now p r1 = (p', es, a) \<Longrightarrow> changed p p' \<subseteq> marked es"
  "handleQuestProgress p r2 = (p', es, a) \<Longrightarrow> changed p p' \<subseteq> marked es"
  by (auto simp: handleAcceptQuest_def handleQuestProgress_def changed_def Let_def FindQuest_def update_first_find advance_quest_def
      split: option.splits if_split_asm)

lemma handleAddFriend_marks: "handleAddFriend p r = (p', es, a) \<Longrightarrow> changed p p' \<subseteq> marked es"
  by (rule changed_subset) (auto simp: handleAddFriend_def split: option.splits if_splits)

lemma handleGM_marks:
  "handleGMSetRG p r = (p', es, a) \<Longrightarrow> changed p p' \<subseteq> marked es"
  "handleGMKick now p = (p', es, a) \<Longrightarrow> changed p p' \<subseteq> marked es"
  by (auto simp: handleGMSetRG_def handleGMKick_def changed_def Let_def split: option.splits if_split_asm)

lemmas handler_marks = handleLogin_marks handleLogout_marks handleAddCurrency_marks handleAddItem_marks handleUseItem_marks
  handleQuest_marks handleAddFriend_marks handleGM_marks

lemma dispatch_marks:
  assumes "dispatch_memory conf now ids op p req = (p', es, a)"
  shows "changed p p' \<subseteq> marked es"
proof -
  have same: "changed p p' = changed (p\<lparr>LastActive := now\<rparr>) p'" by (simp add: changed_def)
  show ?thesis unfolding same using assms
    by (cases req) (auto simp: dispatch_memory_def handleHeartbeat_def handleGetBag_def handleGetSocial_def handleGetMail_def
        changed_def [of q q for q] dest: handler_marks)
qed

text \<open>Every request that works in memory marks each module it changes as dirty: if the stored form of
  a module differs afterwards, the module is among the marks, so the flusher will write it.\<close>

theorem changed_modules_are_marked:
  assumes "dispatch_memory conf now ids operator p req = (p', es, a)"
    and "player_Marshal C p' m \<noteq> player_Marshal C p m"
  shows "m \<in> marked es"
  using dispatch_marks [OF assms(1)] changed_marshal [of C p m p'] assms(2) by auto

definition new_player :: Player where
  "new_player = NewPlayer 7 1000"

theorem changed_modules_are_marked_witness:
  "ModSocial \<in> marked (fst (snd (dispatch_memory (Default (\<lambda>_. None)) 2000 (\<lambda>_. None) '''' new_player (QAddFriend (Some 8)))))"
proof -
  let ?C = "\<lparr>enc_base = \<lambda>_. None, dec_base = \<lambda>_. None, enc_bag = \<lambda>_. None, dec_bag = \<lambda>_. None, enc_quest = \<lambda>_. None,
    dec_quest = \<lambda>_. None, enc_social = \<lambda>s. Some (if Friends s = [] then '''' else ''f''), dec_social = \<lambda>_. None,
    enc_mail = \<lambda>_. None, dec_mail = \<lambda>_. None, enc_round = \<lambda>_. None, dec_round = \<lambda>_. None, enc_rg = \<lambda>_. None,
    dec_rg = \<lambda>_. None, enc_gacha = \<lambda>_. None, dec_gacha = \<lambda>_. None\<rparr> :: player_codec"
  let ?r = "dispatch_memory (Default (\<lambda>_. None)) 2000 (\<lambda>_. None) '''' new_player (QAddFriend (Some 8))"
  have "?r = (fst ?r, fst (snd ?r), snd (snd ?r))" by simp
  moreover have "player_Marshal ?C (fst ?r) ModSocial \<noteq> player_Marshal ?C new_player ModSocial"
    by (simp add: dispatch_memory_def handleAddFriend_def new_player_def NewPlayer_def HasFriend_def player_Marshal_def)
  ultimately show ?thesis by (rule changed_modules_are_marked)
qed

section \<open>Sessions\<close>

text \<open>After a successful login over one connection, a logout that still arrives from another
  connection changes nothing but the time of the last request: the player stays online on
  the new connection.\<close>

theorem late_logout_is_ignored:
  assumes "dispatch_memory conf now ids operator p (QLogin (Some req)) = (p1, es, Inr r)"
    and "c \<noteq> 0" "c \<noteq> lr_ConnId req"
  shows "dispatch_memory conf now' ids' operator' p1 (QLogout c) = (p1\<lparr>LastActive := now'\<rparr>, [], Inr (RAck False))
    \<and> Online p1 \<and> ConnID p1 = lr_ConnId req \<and> GateID p1 = lr_GateId req"
  using assms by (auto simp: dispatch_memory_def handleLogin_def handleLogout_def Let_def split: if_splits)

theorem late_logout_is_ignored_witness:
  "\<exists>p1 es r. dispatch_memory (Default (\<lambda>_. None)) 2000 (\<lambda>_. None) '''' new_player (QLogin (Some \<lparr>lr_GateId = ''g'', lr_ConnId = 5\<rparr>)) = (p1, es, Inr r)
     \<and> dispatch_memory (Default (\<lambda>_. None)) 3000 (\<lambda>_. None) '''' p1 (QLogout 4) = (p1\<lparr>LastActive := 3000\<rparr>, [], Inr (RAck False))"
proof -
  obtain p1 es r where h: "dispatch_memory (Default (\<lambda>_. None)) 2000 (\<lambda>_. None) '''' new_player
      (QLogin (Some \<lparr>lr_GateId = ''g'', lr_ConnId = 5\<rparr>)) = (p1, es, Inr r)"
    by (auto simp: dispatch_memory_def handleLogin_def new_player_def NewPlayer_def LoginBlocked_def new_rg_def Let_def)
  then show ?thesis using late_logout_is_ignored [OF h, of 4] by auto
qed

text \<open>A player the GM excluded until some time cannot log in before it, and the attempt changes
  nothing but the time of the last request.\<close>

theorem excluded_player_cannot_log_in:
  assumes "dispatch_memory conf now ids operator p (QGMSetRG (Some req)) = (p1, es, a)"
    and "0 < gs_ExcludeUntil req" "now' < gs_ExcludeUntil req"
  shows "dispatch_memory conf now' ids' operator' p1 (QLogin (Some lreq)) = (p1\<lparr>LastActive := now'\<rparr>, [], Inl E_SelfExcluded)"
  using assms by (auto simp: dispatch_memory_def handleGMSetRG_def handleLogin_def LoginBlocked_def Let_def)

section \<open>Pending mail\<close>

text \<open>A drain takes what it read off the queue and gives it to the player in order; if the player was
  unloaded meanwhile, or only the reply of the trim is lost, the mails are gone.\<close>

lemma drain_some:
  "queue \<noteq> [] \<Longrightarrow> drain_read dec (Some (take 200 queue)) = Some (List.map_filter dec (take 200 queue), min (length queue) 200)"
  by (simp add: drain_read_def min_def)

theorem drained_mail_arrives:
  assumes "drainPendingMail dec Delivered Delivered queue (Some p) = (rest, op, es)" "queue \<noteq> []"
    and "\<forall>raw\<in>set queue. dec raw \<noteq> None"
  shows "\<exists>p'. op = Some p' \<and> Mails (MailM p') @ map (the \<circ> dec) rest = Mails (MailM p) @ map (the \<circ> dec) queue
    \<and> ModMail \<in> marked es \<and> length rest = length queue - 200"
proof -
  have m: "List.map_filter dec xs = map (the \<circ> dec) xs" if "set xs \<subseteq> set queue" for xs
    using that assms(3) by (induction xs) (auto simp: List.map_filter_simps split: option.splits)
  have "map (the \<circ> dec) (take 200 queue) @ map (the \<circ> dec) (drop 200 queue) = map (the \<circ> dec) queue"
    by (simp only: map_append [symmetric] append_take_drop_id)
  moreover have "drop (min (length queue) 200) queue = drop 200 queue" by (simp add: min_def)
  ultimately show ?thesis using assms(1,2) m [of "take 200 queue"] set_take_subset [of 200 queue]
    by (auto simp: drainPendingMail_def drain_some drain_deliver_def)
qed

theorem lost_trim_reply_loses_mail:
  assumes "drainPendingMail dec Delivered ReplyLost queue (Some p) = (rest, op, es)" "queue \<noteq> []"
  shows "op = Some p \<and> length rest < length queue"
  using assms by (auto simp: drainPendingMail_def drain_some)

end
