(* ===== verification/Lobby_Assets.thy ===== *)
theory Lobby_Assets
  imports Lobby_Slots Lobby_Actions Xtx Payment Go_Bytes
begin

text \<open>
  The lobby's requests about assets that are written through at once: claiming a mail, purchases, battle
  rewards, GM grants (one commit each), transfers between players and mails that arrive as jobs
  (\<^verbatim>\<open>internal/lobby/handlers.go\<close>, \<^verbatim>\<open>internal/lobby/gm.go\<close>), and the job relay around them
  (\<^verbatim>\<open>internal/lobby/service.go\<close>).

  A handler computes on copies and returns a refusal or a plan: what is to be written, and the modules
  the callback installs in the player once the write succeeded. \<open>ids k\<close> is the result of the
  handler's \<open>k\<close>-th call of \<open>NextID\<close>, counted from zero. An item the code puts in an answer is a
  pointer into the copied bag; here it is a position, read after the loop.
\<close>

section \<open>Plans\<close>

record 'a asset_plan =
  ap_spec :: CommitSpec
  ap_base :: "PlayerBase option"
  ap_bag :: "PlayerBag option"
  ap_mail :: "PlayerMail option"
  ap_resp :: 'a

definition install :: "PlayerBase option \<Rightarrow> PlayerBag option \<Rightarrow> PlayerMail option \<Rightarrow> Player \<Rightarrow> Player" where
  "install ba bg ml p =
     (let p1 = (case ba of None \<Rightarrow> p | Some x \<Rightarrow> p\<lparr>Base := x\<rparr>);
          p2 = (case bg of None \<Rightarrow> p1 | Some x \<Rightarrow> p1\<lparr>Bag := x\<rparr>)
      in case ml of None \<Rightarrow> p2 | Some x \<Rightarrow> p2\<lparr>MailM := x\<rparr>)"

text \<open>The callbacks differ only in what they answer to a repetition.\<close>

definition plan_done :: "(bytes \<Rightarrow> 'a \<Rightarrow> 'a) \<Rightarrow> 'a asset_plan \<Rightarrow> write_result result \<Rightarrow> Player \<Rightarrow> Player \<times> (ErrCode + 'a)" where
  "plan_done again plan r p =
     (case r of
        Inl e \<Rightarrow> (p, Inl E_Internal)
      | Inr res \<Rightarrow>
          if Duplicate res then (p, Inr (again (Payload res) (ap_resp plan)))
          else (install (ap_base plan) (ap_bag plan) (ap_mail plan) p, Inr (ap_resp plan)))"

section \<open>Granting items\<close>

definition item_slot :: "bool \<Rightarrow> nat \<Rightarrow> Player \<Rightarrow> nat" where
  "item_slot stackable tpl p =
     (case (if stackable then find_index (\<lambda>it. TplId it = tpl) 0 (Items (Bag p)) else None) of
        Some (_, i) \<Rightarrow> i | None \<Rightarrow> length (Items (Bag p)))"

text \<open>The loop over attachments shared by mails, transfers and GM grants. The number of the \<open>i\<close>-th item is
  the result of call \<open>nid i\<close>.\<close>

fun grant_items :: "Config \<Rightarrow> int \<Rightarrow> (nat \<Rightarrow> nat option) \<Rightarrow> nat \<Rightarrow> Attachment list \<Rightarrow> Player \<Rightarrow> ErrCode + (Player \<times> nat list)" where
  "grant_items conf now nid i [] tmp = Inr (tmp, [])"
| "grant_items conf now nid i (att # atts) tmp =
     (case nid i of
        None \<Rightarrow> Inl E_Internal
      | Some iid \<Rightarrow>
          (let st = Stackable conf (at_TplId att) in
           case AddItem iid (at_TplId att) (at_Count att) now st tmp of
             (_, None) \<Rightarrow> Inl E_BagFull
           | (tmp1, Some _) \<Rightarrow>
               (case grant_items conf now nid (Suc i) atts tmp1 of
                  Inl e \<Rightarrow> Inl e
                | Inr (tmp2, slots) \<Rightarrow> Inr (tmp2, item_slot st (at_TplId att) tmp # slots))))"

section \<open>Mail\<close>

record claim_codec =
  enc_items :: "Item list \<Rightarrow> bytes option"
  dec_items :: "bytes \<Rightarrow> Item list option"

definition mark_claimed :: "nat \<Rightarrow> Mail list \<Rightarrow> Mail list" where
  "mark_claimed mid = map (\<lambda>m. if MailId m = mid then m\<lparr>Claimed := True, ml_Read := True\<rparr> else m)"

definition handleClaimMail :: "player_codec \<Rightarrow> claim_codec \<Rightarrow> keys \<Rightarrow> Config \<Rightarrow> int \<Rightarrow> (nat \<Rightarrow> nat option) \<Rightarrow> Player \<Rightarrow> nat option \<Rightarrow>
    ErrCode + Item list asset_plan" where
  "handleClaimMail C RC ks conf now ids p oreq =
     (case oreq of None \<Rightarrow> Inl E_BadRequest | Some mid \<Rightarrow>
     (case FindMail p mid of None \<Rightarrow> Inl E_NotFound | Some mail \<Rightarrow>
      if Claimed mail then Inl E_Duplicate
      else
        (case grant_items conf now ids 0 (Attachments mail) p of
           Inl e \<Rightarrow> Inl e
         | Inr (tmp, slots) \<Rightarrow>
             let mailCopy = (MailM p)\<lparr>Mails := mark_claimed mid (Mails (MailM p))\<rparr> in
             (case (enc_bag C (Bag tmp), enc_mail C mailCopy) of
                (Some bagBlob, Some mailBlob) \<Rightarrow>
                  let granted = map (\<lambda>i. Items (Bag tmp) ! i) slots;
                      n = length (Attachments mail)
                  in Inr \<lparr>ap_spec = \<lparr>cs_IdemKey = keys_Order ks (UID p) (''mail'' @ show_nat mid),
                             cs_Payload = payload_of (enc_items RC granted),
                             cs_Entries = map (\<lambda>(i, att). WithRef (''mail='' @ show_nat mid @ '';tpl='' @ show_nat (at_TplId att)
                                 @ '';count='' @ show_int (at_Count att))
                               (new_entry now (ids (n + i)) (UID p) TypeMailClaim 0 0 0)) (enumerate 0 (Attachments mail)),
                             cs_KV = [(keys_Player ks (UID p) ModBag, bagBlob), (keys_Player ks (UID p) ModMail, mailBlob)]\<rparr>,
                           ap_base = None, ap_bag = Some (Bag tmp), ap_mail = Some mailCopy, ap_resp = granted\<rparr>
              | _ \<Rightarrow> Inl E_Internal))))"

definition claim_mail_done :: "claim_codec \<Rightarrow> Item list asset_plan \<Rightarrow> write_result result \<Rightarrow> Player \<Rightarrow> Player \<times> (ErrCode + Item list)" where
  "claim_mail_done RC = plan_done (\<lambda>payload _. case dec_items RC payload of Some out \<Rightarrow> out | None \<Rightarrow> [])"

section \<open>Purchases\<close>

record PurchaseReq =
  pq_OrderId :: string
  pq_Product :: nat
  pq_Channel :: string
  pq_Receipt :: string
  pq_Signature :: string

record PurchaseResp =
  pp_Balance :: int
  pp_Duplicate :: bool

record purchase_codec =
  enc_purchase :: "PurchaseResp \<Rightarrow> bytes option"
  dec_purchase :: "bytes \<Rightarrow> PurchaseResp option"

definition purchase_order :: "Player \<Rightarrow> Product \<Rightarrow> PurchaseReq \<Rightarrow> PayOrder" where
  "purchase_order p product req =
     \<lparr>po_OrderID = pq_OrderId req, po_UID = UID p, po_ProductID = pr_ID product, po_Channel = pq_Channel req,
      po_Receipt = pq_Receipt req, po_Signature = pq_Signature req, po_PriceCents = pr_PriceCents product\<rparr>"

definition handlePurchase :: "mac_fun \<Rightarrow> PayVerifier \<Rightarrow> player_codec \<Rightarrow> purchase_codec \<Rightarrow> keys \<Rightarrow> Config \<Rightarrow> int \<Rightarrow> (nat \<Rightarrow> nat option) \<Rightarrow>
    Player \<Rightarrow> PurchaseReq option \<Rightarrow> ErrCode + PurchaseResp asset_plan" where
  "handlePurchase mac v C RC ks conf now ids p oreq =
     (case oreq of None \<Rightarrow> Inl E_BadRequest | Some req \<Rightarrow>
      if pq_OrderId req = '''' then Inl E_BadRequest
      else (case conf_Product conf (pq_Product req) of None \<Rightarrow> Inl E_ProductUnknown | Some product \<Rightarrow>
        let order = purchase_order p product req in
        if \<not> AllowsChannel product (po_Channel order) then Inl E_ReceiptInvalid
        else if payment_Verify mac v order \<noteq> Inr () then Inl E_ReceiptInvalid
        else
          let base = base_add (pr_Currency product) (pr_Amount product) (Base p);
              balance = base_currency base (pr_Currency product)
          in case enc_base C base of None \<Rightarrow> Inl E_Internal | Some blob \<Rightarrow>
            let resp = \<lparr>pp_Balance = balance, pp_Duplicate = False\<rparr> in
            Inr \<lparr>ap_spec = \<lparr>cs_IdemKey = keys_Order ks (UID p) (pq_OrderId req), cs_Payload = payload_of (enc_purchase RC resp),
                   cs_Entries = [WithRef (''order='' @ pq_OrderId req @ '';product='' @ show_nat (pr_ID product) @ '';channel='' @
                       po_Channel order @ '';price='' @ show_int (pr_PriceCents product))
                     (new_entry now (ids 0) (UID p) TypePurchase (pr_Currency product) (pr_Amount product) balance)],
                   cs_KV = [(keys_Player ks (UID p) ModBase, blob)]\<rparr>,
                 ap_base = Some base, ap_bag = None, ap_mail = None, ap_resp = resp\<rparr>))"

definition purchase_done :: "purchase_codec \<Rightarrow> PurchaseResp asset_plan \<Rightarrow> write_result result \<Rightarrow> Player \<Rightarrow> Player \<times> (ErrCode + PurchaseResp)" where
  "purchase_done RC = plan_done (\<lambda>payload _.
     (case dec_purchase RC payload of Some out \<Rightarrow> out | None \<Rightarrow> \<lparr>pp_Balance = 0, pp_Duplicate = False\<rparr>)\<lparr>pp_Duplicate := True\<rparr>)"

section \<open>Battle rewards\<close>

record BattleResult =
  br_RoomId :: nat
  br_TargetUid :: nat
  br_Winners :: "nat list"
  br_Losers :: "nat list"
  br_Score :: "(nat \<times> int) list"

text \<open>The loop that raises the level. It may run forever (a threshold of zero), which is \<open>None\<close>.\<close>

partial_function (option) level_up :: "Config \<Rightarrow> nat \<Rightarrow> nat \<Rightarrow> bool \<Rightarrow> (nat \<times> nat \<times> bool) option" where
  "level_up conf ex lv up =
     (if ex \<ge> ExpToLevel conf lv then level_up conf (ex - ExpToLevel conf lv) (u32 (lv + 1)) True else Some (ex, lv, up))"

definition battle_reward :: "nat \<Rightarrow> BattleResult \<Rightarrow> int \<times> int" where
  "battle_reward uid res =
     (let score = (case map_of (br_Score res) uid of None \<Rightarrow> 0 | Some v \<Rightarrow> v);
          win = list_ex (\<lambda>w. w = uid) (br_Winners res);
          gold = i64 (100 + score);
          exp1 = i64 (50 + go_div score 2)
      in if win then (i64 (gold * 2), i64 (exp1 * 2)) else (gold, exp1))"

record balance_codec =
  enc_balance :: "int \<Rightarrow> bytes option"
  dec_balance :: "bytes \<Rightarrow> int option"

text \<open>The outer \<open>None\<close> is the loop that does not end. The flag tells whether the level rose.\<close>

definition handleBattleSettle :: "player_codec \<Rightarrow> balance_codec \<Rightarrow> keys \<Rightarrow> Config \<Rightarrow> int \<Rightarrow> (nat \<Rightarrow> nat option) \<Rightarrow> Player \<Rightarrow>
    BattleResult option \<Rightarrow> (ErrCode + (int asset_plan \<times> bool)) option" where
  "handleBattleSettle C RC ks conf now ids p oreq =
     (case oreq of None \<Rightarrow> Some (Inl E_BadRequest) | Some res \<Rightarrow>
      (case battle_reward (UID p) res of (gold, exp1) \<Rightarrow>
        let base1 = base_add CurrencyGold gold (Base p) in
        (case level_up conf (u64 (Exp base1 + uint64_of exp1)) (bs_Level base1) False of
           None \<Rightarrow> None
         | Some (ex, lv, up) \<Rightarrow>
             let base = base1\<lparr>Exp := ex, bs_Level := lv\<rparr>; balance = base_currency base CurrencyGold in
             Some (case enc_base C base of None \<Rightarrow> Inl E_Internal | Some blob \<Rightarrow>
               Inr (\<lparr>ap_spec = \<lparr>cs_IdemKey = keys_Order ks (UID p) (''battle'' @ show_nat (br_RoomId res)),
                       cs_Payload = payload_of (enc_balance RC balance),
                       cs_Entries = [WithRef (''room='' @ show_nat (br_RoomId res))
                         (new_entry now (ids 0) (UID p) TypeBattleReward CurrencyGold gold balance)],
                       cs_KV = [(keys_Player ks (UID p) ModBase, blob)]\<rparr>,
                     ap_base = Some base, ap_bag = None, ap_mail = None, ap_resp = balance\<rparr>, up)))))"

definition battle_settle_done :: "balance_codec \<Rightarrow> int asset_plan \<times> bool \<Rightarrow> write_result result \<Rightarrow> Player \<Rightarrow>
    Player \<times> effect list \<times> (ErrCode + int)" where
  "battle_settle_done RC pl r p =
     (case plan_done (\<lambda>payload _. case dec_balance RC payload of Some b \<Rightarrow> b | None \<Rightarrow> 0) (fst pl) r p of
        (p1, a) \<Rightarrow> (p1, (case r of
            Inl _ \<Rightarrow> []
          | Inr res \<Rightarrow> if \<not> Duplicate res \<and> snd pl then [PublishPlayerEvent ''levelup'' (player_Profile p1)] else []), a))"

section \<open>GM grants\<close>

record GMGrantReq =
  gg_Currency :: nat
  gg_Amount :: int
  gg_Items :: "Attachment list"
  gg_Reason :: string
  gg_Ticket :: string

definition handleGMGrant :: "player_codec \<Rightarrow> bytes \<Rightarrow> keys \<Rightarrow> Config \<Rightarrow> int \<Rightarrow> (nat \<Rightarrow> nat option) \<Rightarrow> string \<Rightarrow> Player \<Rightarrow> GMGrantReq option \<Rightarrow>
    ErrCode + bool asset_plan" where
  "handleGMGrant C ackBlob ks conf now ids operator p oreq =
     (case oreq of None \<Rightarrow> Inl E_BadRequest | Some req \<Rightarrow>
      if gg_Ticket req = '''' then Inl E_BadRequest
      else
        let cur = gg_Currency req;
            money = (gg_Amount req \<noteq> 0 \<and> cur \<noteq> 0);
            k = (if money then 1 else 0)
        in if money \<and> i64 (base_currency (Base p) cur + gg_Amount req) < 0 then Inl E_NotEnough
        else
          let base = (if money then base_add cur (gg_Amount req) (Base p) else Base p);
              head = (if money
                then [WithOperator operator (WithRef (''ticket='' @ gg_Ticket req @ '';reason='' @ gg_Reason req)
                       (new_entry now (ids 0) (UID p) TypeGrant cur (gg_Amount req) (base_currency base cur)))]
                else [])
          in (case grant_items conf now (\<lambda>i. ids (k + 2 * i)) 0 (gg_Items req) (p\<lparr>Base := base\<rparr>) of
               Inl e \<Rightarrow> Inl e
             | Inr (tmp, _) \<Rightarrow>
                 (case (enc_base C base, enc_bag C (Bag tmp)) of
                    (Some baseBlob, Some bagBlob) \<Rightarrow>
                      Inr \<lparr>ap_spec = \<lparr>cs_IdemKey = keys_Order ks (UID p) (''gm-'' @ gg_Ticket req), cs_Payload = ackBlob,
                             cs_Entries = head @ map (\<lambda>(i, att). WithOperator operator (WithRef (''ticket='' @ gg_Ticket req @ '';tpl='' @
                                 show_nat (at_TplId att) @ '';count='' @ show_int (at_Count att))
                               (new_entry now (ids (k + 2 * i + 1)) (UID p) TypeGrant 0 0 0))) (enumerate 0 (gg_Items req)),
                             cs_KV = [(keys_Player ks (UID p) ModBase, baseBlob), (keys_Player ks (UID p) ModBag, bagBlob)]\<rparr>,
                           ap_base = Some base, ap_bag = Some (Bag tmp), ap_mail = None, ap_resp = True\<rparr>
                  | _ \<Rightarrow> Inl E_Internal)))"

definition gm_grant_done :: "bool asset_plan \<Rightarrow> write_result result \<Rightarrow> Player \<Rightarrow> Player \<times> (ErrCode + bool)" where
  "gm_grant_done = plan_done (\<lambda>_ resp. resp)"

section \<open>Transfers\<close>

text \<open>\<open>ShardOf\<close> takes the number of shards.\<close>

definition ShardOf :: "nat \<Rightarrow> nat \<Rightarrow> nat" where
  "ShardOf shards uid = uid mod shards"

record transfer_plan =
  tp_rec :: TxRecord
  tp_kv :: "(string \<times> bytes) list"
  tp_base :: PlayerBase
  tp_bag :: PlayerBag

fun take_items :: "Attachment list \<Rightarrow> Player \<Rightarrow> Player option" where
  "take_items [] tmp = Some tmp"
| "take_items (att # atts) tmp =
     (case RemoveItemByTpl (at_TplId att) (at_Count att) tmp of
        (tmp1, True) \<Rightarrow> take_items atts tmp1
      | (_, False) \<Rightarrow> None)"

definition transfer_kv :: "player_codec \<Rightarrow> keys \<Rightarrow> Player \<Rightarrow> (string \<times> bytes) list option" where
  "transfer_kv C ks tmp =
     (case (enc_bag C (Bag tmp), enc_base C (Base tmp)) of
        (Some bagBlob, Some baseBlob) \<Rightarrow> Some [(keys_Player ks (UID tmp) ModBag, bagBlob), (keys_Player ks (UID tmp) ModBase, baseBlob)]
      | _ \<Rightarrow> None)"

definition handleTransfer :: "player_codec \<Rightarrow> keys \<Rightarrow> nat \<Rightarrow> nat \<Rightarrow> int \<Rightarrow> (nat \<Rightarrow> nat option) \<Rightarrow> Player \<Rightarrow> TransferJob option \<Rightarrow>
    ErrCode + transfer_plan" where
  "handleTransfer C ks shards shard now ids p oreq =
     (case oreq of None \<Rightarrow> Inl E_BadRequest | Some req \<Rightarrow>
      if tj_ToUid req = 0 \<or> tj_ToUid req = UID p then Inl E_BadRequest
      else (case take_items (tj_Items req) p of None \<Rightarrow> Inl E_NotEnough | Some tmp \<Rightarrow>
        (case (if tj_CurrencyDelta req > 0 then AddCurrency (tj_CurrencyType req) (i64 (- tj_CurrencyDelta req)) tmp else (tmp, 0, True)) of
           (_, _, False) \<Rightarrow> Inl E_NotEnough
         | (tmp1, _, True) \<Rightarrow>
             (case ids 0 of None \<Rightarrow> Inl E_Internal | Some sf \<Rightarrow>
              (case transfer_kv C ks tmp1 of None \<Rightarrow> Inl E_Internal | Some kv \<Rightarrow>
                Inr \<lparr>tp_rec = \<lparr>tx_TxID = NewTxID sf, tx_FromUID = UID p, tx_ToUID = tj_ToUid req, tx_FromShard = shard,
                        tx_ToShard = ShardOf shards (tj_ToUid req), tx_Items = tj_Items req, tx_CurrType = tj_CurrencyType req,
                        tx_CurrDelta = tj_CurrencyDelta req, tx_Reason = tj_Reason req, tx_State = StatePending,
                        tx_CreatedAt = now, tx_DoneAt = 0, tx_Retries = 0, tx_Extra = []\<rparr>,
                      tp_kv = kv, tp_base = Base tmp1, tp_bag = Bag tmp1\<rparr>)))))"

text \<open>The job \<open>publishTransfer\<close> puts on the stream.\<close>

definition job_of :: "TxRecord \<Rightarrow> TransferJob" where
  "job_of rec = \<lparr>tj_Txid = tx_TxID rec, tj_FromUid = tx_FromUID rec, tj_ToUid = tx_ToUID rec, tj_Items = tx_Items rec,
     tj_CurrencyDelta = tx_CurrDelta rec, tj_CurrencyType = tx_CurrType rec, tj_Reason = tx_Reason rec, tj_CreatedAt = tx_CreatedAt rec\<rparr>"

text \<open>What follows the write on the sender's side: the answer is \<open>None\<close> when the shard was fenced.\<close>

definition transfer_done :: "transfer_plan \<Rightarrow> unit result \<Rightarrow> Player \<Rightarrow> Player \<times> (ErrCode + bool) option" where
  "transfer_done plan r p =
     (case r of
        Inl ErrFenced \<Rightarrow> (p, None)
      | Inl _ \<Rightarrow> (p, Some (Inl E_Internal))
      | Inr () \<Rightarrow> (p\<lparr>Bag := tp_bag plan, Base := tp_base plan\<rparr>, Some (Inr True)))"

definition run_transfer :: "'r redis \<Rightarrow> keys \<Rightarrow> tx_codec \<Rightarrow> tx_manager \<Rightarrow> net \<Rightarrow> bool \<Rightarrow> int \<Rightarrow> int \<Rightarrow> transfer_plan \<Rightarrow> 'r \<times> Player \<Rightarrow>
    ('r \<times> Player) \<times> TransferJob list \<times> (ErrCode + bool) option" where
  "run_transfer R ks J m n published now epoch plan sp =
     (case tx_Begin R ks J m n now epoch (tp_rec plan) (tp_kv plan) (fst sp) of
        (s', r) \<Rightarrow> (case transfer_done plan r (snd sp) of
          (p', a) \<Rightarrow> ((s', p'), if r = Inr () \<and> published then [job_of (tp_rec plan)] else [], a)))"

text \<open>The receiving side. A full bag diverts the items to the pending mails; the answer is then a success.\<close>

datatype apply_outcome = Refuse ErrCode | Mailbox TransferJob | Apply transfer_plan

definition handleApplyTransfer :: "player_codec \<Rightarrow> keys \<Rightarrow> Config \<Rightarrow> nat \<Rightarrow> nat \<Rightarrow> int \<Rightarrow> (nat \<Rightarrow> nat option) \<Rightarrow> Player \<Rightarrow> TransferJob option \<Rightarrow>
    apply_outcome" where
  "handleApplyTransfer C ks conf shards shard now ids p ojob =
     (case ojob of None \<Rightarrow> Refuse E_BadRequest | Some job \<Rightarrow>
      let rec = \<lparr>tx_TxID = tj_Txid job, tx_FromUID = tj_FromUid job, tx_ToUID = UID p,
                 tx_FromShard = (if tj_FromUid job = 0 then shard else ShardOf shards (tj_FromUid job)),
                 tx_ToShard = shard, tx_Items = tj_Items job, tx_CurrType = tj_CurrencyType job, tx_CurrDelta = tj_CurrencyDelta job,
                 tx_Reason = tj_Reason job, tx_State = StateNone, tx_CreatedAt = tj_CreatedAt job, tx_DoneAt = 0, tx_Retries = 0,
                 tx_Extra = []\<rparr>
      in case grant_items conf now ids 0 (tj_Items job) p of
           Inl E_BagFull \<Rightarrow> Mailbox job
         | Inl e \<Rightarrow> Refuse e
         | Inr (tmp, _) \<Rightarrow>
             let tmp1 = (if tj_CurrencyDelta job > 0 then fst (AddCurrency (tj_CurrencyType job) (tj_CurrencyDelta job) tmp) else tmp)
             in (case transfer_kv C ks tmp1 of
                   None \<Rightarrow> Refuse E_Internal
                 | Some kv \<Rightarrow> Apply \<lparr>tp_rec = rec, tp_kv = kv, tp_base = Base tmp1, tp_bag = Bag tmp1\<rparr>))"

text \<open>\<open>claimAsync\<close>: claim, then complete (its error is only logged), then the callback in the actor.\<close>

definition claimAsync :: "'r redis \<Rightarrow> keys \<Rightarrow> tx_codec \<Rightarrow> tx_manager \<Rightarrow> net \<Rightarrow> net \<Rightarrow> int \<Rightarrow> int \<Rightarrow> TxRecord \<Rightarrow> (string \<times> bytes) list \<Rightarrow>
    (Player \<Rightarrow> Player \<times> effect list) \<Rightarrow> 'r \<times> Player \<Rightarrow> ('r \<times> Player) \<times> effect list \<times> (ErrCode + bool) option" where
  "claimAsync R ks J m n1 n2 now epoch rec kv apply1 sp =
     (case tx_Claim R ks m n1 epoch rec kv (fst sp) of
        (s1, Inl ErrFenced) \<Rightarrow> ((s1, snd sp), [], None)
      | (s1, Inl _) \<Rightarrow> ((s1, snd sp), [], Some (Inl E_Internal))
      | (s1, Inr applied) \<Rightarrow>
          (let s2 = fst (tx_Complete R ks J n2 now rec s1);
               (p', es) = (if applied then apply1 (snd sp) else (snd sp, []))
           in ((s2, p'), es, Some (Inr True))))"

definition apply_transfer_done :: "transfer_plan \<Rightarrow> Player \<Rightarrow> Player \<times> effect list" where
  "apply_transfer_done plan p =
     (let p1 = p\<lparr>Bag := tp_bag plan, Base := tp_base plan\<rparr> in (p1, pushToPlayer p1 PushItemChanged (BagBody (Bag p1))))"

text \<open>The mail \<open>fallbackToMailbox\<close> queues, without its (Chinese) texts. It has no number.\<close>

definition fallback_mail :: "int \<Rightarrow> TransferJob \<Rightarrow> Mail" where
  "fallback_mail now job = \<lparr>MailId = 0, ml_Title = '''', ml_Content = '''', Sender = ''system'',
     SendAt = now, ExpireAt = 0, ml_Read = False, Claimed = False, Attachments = tj_Items job\<rparr>"

text \<open>A whole delivery of a transfer job to its receiver. The state is Redis, the queue of pending mails
  (as mails) and the player.\<close>

definition run_apply_transfer :: "'r redis \<Rightarrow> keys \<Rightarrow> tx_codec \<Rightarrow> tx_manager \<Rightarrow> net \<Rightarrow> net \<Rightarrow> player_codec \<Rightarrow> Config \<Rightarrow> nat \<Rightarrow> shard_id \<Rightarrow> int \<Rightarrow>
    (nat \<Rightarrow> nat option) \<Rightarrow> TransferJob \<Rightarrow> 'r \<times> Mail list \<times> Player \<Rightarrow> ('r \<times> Mail list \<times> Player) \<times> (ErrCode + bool) option" where
  "run_apply_transfer R ks J m n1 n2 C conf shards o1 now ids job st =
     (case st of (s, queue, p) \<Rightarrow>
      (case handleApplyTransfer C ks conf shards (o_Shard o1) now ids p (Some job) of
         Refuse e \<Rightarrow> (st, Some (Inl e))
       | Mailbox j \<Rightarrow> ((s, queue @ [fallback_mail now j], p), Some (Inr True))
       | Apply plan \<Rightarrow>
           (case claimAsync R ks J m n1 n2 now (o_Epoch o1) (tp_rec plan) (tp_kv plan) (apply_transfer_done plan) (s, p) of
              ((s', p'), _, a) \<Rightarrow> ((s', queue, p'), a))))"

section \<open>Mails by job\<close>

record MailSendJob =
  mj_ToUid :: nat
  mj_Mail :: "Mail option"
  mj_Txid :: string

definition handleApplyMail :: "player_codec \<Rightarrow> keys \<Rightarrow> nat \<Rightarrow> (nat \<Rightarrow> nat option) \<Rightarrow> Player \<Rightarrow> MailSendJob option \<Rightarrow>
    ErrCode + (TxRecord \<times> (string \<times> bytes) list \<times> Mail \<times> PlayerMail)" where
  "handleApplyMail C ks shard ids p ojob =
     (case ojob of None \<Rightarrow> Inl E_BadRequest | Some job \<Rightarrow>
     (case mj_Mail job of None \<Rightarrow> Inl E_BadRequest | Some mail0 \<Rightarrow>
     (case (if MailId mail0 = 0 then map_option (\<lambda>i. mail0\<lparr>MailId := i\<rparr>) (ids 0) else Some mail0) of
        None \<Rightarrow> Inl E_Internal
      | Some mail \<Rightarrow>
          let mailCopy = (MailM p)\<lparr>Mails := Mails (MailM p) @ [mail]\<rparr> in
          (case enc_mail C mailCopy of None \<Rightarrow> Inl E_Internal | Some blob \<Rightarrow>
             Inr (\<lparr>tx_TxID = mj_Txid job, tx_FromUID = 0, tx_ToUID = UID p, tx_FromShard = shard, tx_ToShard = shard, tx_Items = [],
                    tx_CurrType = 0, tx_CurrDelta = 0, tx_Reason = ''mail'', tx_State = StateNone, tx_CreatedAt = 0, tx_DoneAt = 0,
                    tx_Retries = 0, tx_Extra = []\<rparr>,
                  [(keys_Player ks (UID p) ModMail, blob)], mail, mailCopy)))))"

definition apply_mail_done :: "Mail \<Rightarrow> PlayerMail \<Rightarrow> Player \<Rightarrow> Player \<times> effect list" where
  "apply_mail_done mail mailCopy p =
     (let p1 = p\<lparr>MailM := mailCopy\<rparr> in (p1, pushToPlayer p1 PushMailNew (MailBody mail)))"

section \<open>The job relay\<close>

text \<open>Seconds before the next delivery of a job that failed.\<close>

definition backoff :: "nat \<Rightarrow> nat" where
  "backoff deliveries =
     (if deliveries \<le> 1 then 1 else if deliveries \<le> 3 then 3 else if deliveries \<le> 6 then 10
      else if deliveries \<le> 10 then 30 else 60)"

datatype job_verdict = JobTerm | JobNak nat | JobAck

text \<open>\<open>forward\<close>: \<open>free\<close> tells whether the semaphore has room, \<open>call\<close> is the outcome of \<open>internalCall\<close>.\<close>

definition job_forward :: "nat \<Rightarrow> bool \<Rightarrow> bool \<Rightarrow> nat \<Rightarrow> job_verdict" where
  "job_forward toUID free call deliveries =
     (if toUID = 0 then JobTerm
      else if \<not> free then JobNak 2
      else if call then JobAck
      else JobNak (backoff deliveries))"

definition onBattleJob :: "nat \<Rightarrow> BattleResult option \<Rightarrow> bool \<Rightarrow> bool \<Rightarrow> nat \<Rightarrow> job_verdict" where
  "onBattleJob envUid ores free call deliveries =
     (case ores of None \<Rightarrow> JobTerm
      | Some res \<Rightarrow> job_forward (if br_TargetUid res = 0 then envUid else br_TargetUid res) free call deliveries)"

definition onTransferJob :: "TransferJob option \<Rightarrow> bool \<Rightarrow> bool \<Rightarrow> nat \<Rightarrow> job_verdict" where
  "onTransferJob ojob free call deliveries =
     (case ojob of None \<Rightarrow> JobTerm | Some job \<Rightarrow> job_forward (tj_ToUid job) free call deliveries)"

definition onMailJob :: "MailSendJob option \<Rightarrow> bool \<Rightarrow> bool \<Rightarrow> nat \<Rightarrow> job_verdict" where
  "onMailJob ojob free call deliveries =
     (case ojob of None \<Rightarrow> JobTerm | Some job \<Rightarrow> job_forward (mj_ToUid job) free call deliveries)"

definition SendMail :: "(nat \<Rightarrow> nat option) \<Rightarrow> nat \<Rightarrow> Mail \<Rightarrow> MailSendJob option" where
  "SendMail ids toUID mail =
     (case ids 0 of None \<Rightarrow> None | Some sf \<Rightarrow> Some \<lparr>mj_ToUid = toUID, mj_Mail = Some mail, mj_Txid = NewTxID sf\<rparr>)"

text \<open>One pass of \<open>scanPendingTx\<close>: every stale pending transfer is published again and, if that worked, moved
  to the end of the index. \<open>pub rec\<close> is the outcome of publishing, \<open>pipe rec\<close> how far its pipeline got.\<close>

definition scanPendingTx :: "'r redis \<Rightarrow> keys \<Rightarrow> tx_codec \<Rightarrow> net \<Rightarrow> nat \<Rightarrow> int \<Rightarrow> int \<Rightarrow> (TxRecord \<Rightarrow> bool) \<Rightarrow> (TxRecord \<Rightarrow> nat \<times> bool) \<Rightarrow> 'r \<Rightarrow>
    'r \<times> TransferJob list" where
  "scanPendingTx R ks J n shard now txTimeout pub pipe s =
     (case ScanPending R ks J n shard (now - txTimeout) 100 s of
        (s1, Inl e) \<Rightarrow> (s1, [])
      | (s1, Inr recs) \<Rightarrow>
          (fold (\<lambda>rec s. if pub rec then fst (tx_Requeue R ks J now (fst (pipe rec)) (snd (pipe rec)) rec s) else s) recs s1,
           map job_of (filter pub recs)))"

end
