(* ===== verification/Asset_Laws.thy ===== *)
theory Asset_Laws
  imports Lobby_Assets
begin

text \<open>
  What the asset handlers of \<open>Lobby_Assets\<close> guarantee: items and money move exactly, transfers
  between two players conserve both, a commit keeps memory and Redis in agreement, the level loop
  ends, and the behaviours that go wrong: a full bag multiplies a transfer's items and drops its
  money, mails without a number hide each other.
\<close>

section \<open>Items of attachments\<close>

definition att_total :: "nat \<Rightarrow> Attachment list \<Rightarrow> int" where
  "att_total tpl atts = sum_list (map at_Count (filter (\<lambda>a. at_TplId a = tpl) atts))"

lemma att_total_simps [simp]:
  "att_total tpl [] = 0"
  "att_total tpl (a # as) = (if at_TplId a = tpl then at_Count a else 0) + att_total tpl as"
  by (simp_all add: att_total_def)

abbreviation held :: "nat \<Rightarrow> Player \<Rightarrow> int" where
  "held tpl p \<equiv> item_total tpl (Items (Bag p))"

lemma grant_turn:
  assumes "grant_items conf now nid i (att # atts) p = Inr (p', slots)"
  obtains iid p1 it slots1 where "AddItem iid (at_TplId att) (at_Count att) now (Stackable conf (at_TplId att)) p = (p1, Some it)"
    "grant_items conf now nid (Suc i) atts p1 = Inr (p', slots1)" "slots = item_slot (Stackable conf (at_TplId att)) (at_TplId att) p # slots1"
  using assms by (auto simp: Let_def split: option.splits prod.splits sum.splits)

lemma AddItem_positive: "AddItem iid tpl cnt now st p = (p', Some it) \<Longrightarrow> 0 < cnt"
  by (auto simp: AddItem_def split: if_splits)

lemma grant_positive: "grant_items conf now nid i atts p = Inr (p', slots) \<Longrightarrow> \<forall>a\<in>set atts. 0 < at_Count a"
proof (induction atts arbitrary: i p slots)
  case (Cons att atts)
  then show ?case by (elim grant_turn) (auto dest: AddItem_positive)
qed simp

lemma att_total_nonneg: "\<forall>a\<in>set atts. 0 < at_Count a \<Longrightarrow> 0 \<le> att_total tpl atts"
  by (induction atts) auto

lemma grant_items_ok:
  assumes "grant_items conf now nid i atts p = Inr (p', slots)" "bag_ok (Bag p)"
    and "\<And>tpl. held tpl p + att_total tpl atts < 2 ^ 63"
  shows "bag_ok (Bag p') \<and> p' = set_items (Items (Bag p')) p \<and> (\<forall>tpl. held tpl p' = held tpl p + att_total tpl atts)"
  using assms
proof (induction atts arbitrary: i p slots)
  case Nil
  then show ?case by (simp add: set_items_def)
next
  case (Cons att atts)
  obtain iid p1 it slots1 where a: "AddItem iid (at_TplId att) (at_Count att) now (Stackable conf (at_TplId att)) p = (p1, Some it)"
      and g: "grant_items conf now nid (Suc i) atts p1 = Inr (p', slots1)"
    by (rule grant_turn [OF Cons.prems(1)])
  have "0 \<le> att_total (at_TplId att) atts" using grant_positive [OF g] by (rule att_total_nonneg)
  then have "held (at_TplId att) p + at_Count att < 2 ^ 63" using Cons.prems(3) [of "at_TplId att"] by simp
  note ok = AddItem_ok [OF Cons.prems(2) AddItem_positive [OF a] this a]
  then have h: "held t p1 = held t p + (if at_TplId att = t then at_Count att else 0)" for t by auto
  have "bag_ok (Bag p') \<and> p' = set_items (Items (Bag p')) p1 \<and> (\<forall>tpl. held tpl p' = held tpl p1 + att_total tpl atts)"
    using Cons.IH [OF g] ok Cons.prems(3) by (simp add: h add.assoc)
  moreover have "set_items xs p1 = set_items xs p" for xs using ok by (metis set_items_def Player.surjective Player.update_convs(3) set_items_other)
  ultimately show ?case using h by auto
qed

lemma take_items_ok:
  assumes "take_items atts p = Some p'" "bag_ok (Bag p)"
  shows "bag_ok (Bag p') \<and> p' = set_items (Items (Bag p')) p \<and> (\<forall>tpl. held tpl p' = held tpl p - att_total tpl atts)"
  using assms
proof (induction atts arbitrary: p)
  case Nil
  then show ?case by (simp add: set_items_def)
next
  case (Cons att atts)
  obtain p1 where r: "RemoveItemByTpl (at_TplId att) (at_Count att) p = (p1, True)" and t: "take_items atts p1 = Some p'"
    using Cons.prems(1) by (auto split: prod.splits bool.splits)
  have c: "0 < at_Count att \<and> at_Count att \<le> held (at_TplId att) p"
    using RemoveItemByTpl_refused [OF Cons.prems(2), of "at_Count att" "at_TplId att"] r by auto
  note ok = RemoveItemByTpl_ok [OF Cons.prems(2), of "at_Count att" "at_TplId att"]
  then have ok: "bag_ok (Bag p1)" "p1 = set_items (Items (Bag p1)) p"
    "\<And>t. held t p1 = held t p - (if at_TplId att = t then at_Count att else 0)" using c r by auto
  have "set_items xs p1 = set_items xs p" for xs using ok(2) by (metis set_items_def Player.surjective Player.update_convs(3) set_items_other)
  then show ?case using Cons.IH [OF t ok(1)] ok(3) by auto
qed

section \<open>Transfers\<close>

lemma set_items_Base [simp]: "Base (set_items xs p) = Base p" "UID (set_items xs p) = UID p"
  by (simp_all add: set_items_def)

lemma set_currency_Bag [simp]: "Bag (set_currency t v p) = Bag p" "UID (set_currency t v p) = UID p"
  by (simp_all add: set_currency_def)

lemma AddCurrency_debit:
  assumes "money_ok (Base p)" "0 < d" "d < 2 ^ 63" "AddCurrency t (i64 (- d)) p = (p', b, True)"
  shows "Bag p' = Bag p \<and> UID p' = UID p \<and> money_ok (Base p')
    \<and> (\<forall>c. player_Currency p' c = player_Currency p c - (if c = t then d else 0))"
proof -
  have c: "0 \<le> player_Currency p t" "player_Currency p t < 2 ^ 63" using player_Currency_bounds [OF assms(1)] by auto
  have "i64 (- d) = - d" using assms(2,3) by (intro i64_id) (simp add: in_i64_def)
  moreover have "i64 (player_Currency p t + - d) = player_Currency p t - d" using c assms(2,3) by (subst i64_id) (auto simp: in_i64_def)
  ultimately show ?thesis using assms c by (auto simp: AddCurrency_def Let_def split: if_splits intro!: money_ok_set)
qed

lemma AddCurrency_credit:
  assumes "money_ok (Base p)" "0 < d" "player_Currency p t + d < 2 ^ 63"
  shows "Bag (fst (AddCurrency t d p)) = Bag p \<and> UID (fst (AddCurrency t d p)) = UID p \<and> money_ok (Base (fst (AddCurrency t d p)))
    \<and> (\<forall>c. player_Currency (fst (AddCurrency t d p)) c = player_Currency p c + (if c = t then d else 0))"
proof -
  have c: "0 \<le> player_Currency p t" using player_Currency_bounds [OF assms(1)] by auto
  have "i64 (player_Currency p t + d) = player_Currency p t + d" using c assms(2,3) by (intro i64_id) (auto simp: in_i64_def)
  then show ?thesis using assms c by (auto simp: AddCurrency_def Let_def intro!: money_ok_set)
qed

definition moved :: "TransferJob \<Rightarrow> int" where
  "moved job = (if tj_CurrencyDelta job > 0 then tj_CurrencyDelta job else 0)"

lemma currency_of_base: "Base p = Base q \<Longrightarrow> player_Currency p t = player_Currency q t"
  by (simp add: player_Currency_def)

lemma handleTransfer_plan:
  assumes "handleTransfer C ks shards shard now ids p (Some req) = Inr plan"
  obtains tmp tmp1 where "take_items (tj_Items req) p = Some tmp" "tj_ToUid req \<noteq> UID p"
    "if tj_CurrencyDelta req > 0 then \<exists>b. AddCurrency (tj_CurrencyType req) (i64 (- tj_CurrencyDelta req)) tmp = (tmp1, b, True) else tmp1 = tmp"
    "tp_base plan = Base tmp1" "tp_bag plan = Bag tmp1" "transfer_kv C ks tmp1 = Some (tp_kv plan)"
    "tx_Items (tp_rec plan) = tj_Items req" "tx_CurrDelta (tp_rec plan) = tj_CurrencyDelta req"
    "tx_CurrType (tp_rec plan) = tj_CurrencyType req" "tx_ToUID (tp_rec plan) = tj_ToUid req"
proof -
  obtain tmp where t: "take_items (tj_Items req) p = Some tmp" "tj_ToUid req \<noteq> UID p" using assms
    by (auto simp: handleTransfer_def split: if_splits option.splits)
  show thesis
  proof (cases "tj_CurrencyDelta req > 0")
    case True
    obtain tmp1 b ok where a: "AddCurrency (tj_CurrencyType req) (i64 (- tj_CurrencyDelta req)) tmp = (tmp1, b, ok)"
      by (metis prod_cases3)
    then show thesis using assms t True that [of tmp tmp1]
      by (auto simp: handleTransfer_def split: if_splits option.splits bool.splits)
  next
    case False
    then show thesis using assms t that [of tmp tmp]
      by (auto simp: handleTransfer_def split: if_splits option.splits)
  qed
qed

lemma sender_pays:
  assumes "handleTransfer C ks shards shard now ids p (Some req) = Inr plan" "player_ok p" "tj_CurrencyDelta req < 2 ^ 63"
  defines "p' \<equiv> p\<lparr>Bag := tp_bag plan, Base := tp_base plan\<rparr>"
  shows "player_ok p' \<and> (\<forall>t. held t p' = held t p - att_total t (tj_Items req))
    \<and> (\<forall>c. player_Currency p' c = player_Currency p c - (if c = tj_CurrencyType req then moved req else 0))"
proof -
  obtain tmp tmp1 where t: "take_items (tj_Items req) p = Some tmp"
      "if tj_CurrencyDelta req > 0 then \<exists>b. AddCurrency (tj_CurrencyType req) (i64 (- tj_CurrencyDelta req)) tmp = (tmp1, b, True) else tmp1 = tmp"
      "tp_base plan = Base tmp1" "tp_bag plan = Bag tmp1"
    by (rule handleTransfer_plan [OF assms(1)]) blast
  have k: "bag_ok (Bag tmp)" "tmp = set_items (Items (Bag tmp)) p" "\<And>u. held u tmp = held u p - att_total u (tj_Items req)"
    using take_items_ok [OF t(1)] assms(2) by (auto simp: player_ok_def)
  have b: "Base tmp = Base p" "money_ok (Base tmp)" using k(2) assms(2) by (metis set_items_Base(1), metis set_items_Base(1) player_ok_def)
  have m: "Bag tmp1 = Bag tmp \<and> money_ok (Base tmp1)
      \<and> (\<forall>c. player_Currency tmp1 c = player_Currency tmp c - (if c = tj_CurrencyType req then moved req else 0))"
    using t(2) b AddCurrency_debit [OF b(2), of "tj_CurrencyDelta req"] assms(3) by (auto simp: moved_def split: if_splits)
  have "player_Currency p' c = player_Currency tmp1 c" "player_Currency p c = player_Currency tmp c" for c
    using b t(3) by (auto simp: p'_def intro: currency_of_base)
  then show ?thesis using m k t(3,4) by (simp add: p'_def player_ok_def)
qed

lemma handleApplyTransfer_plan:
  assumes "handleApplyTransfer C ks conf shards shard now ids q (Some job) = Apply plan"
  obtains tmp slots where "grant_items conf now ids 0 (tj_Items job) q = Inr (tmp, slots)"
    "tp_base plan = Base (if tj_CurrencyDelta job > 0 then fst (AddCurrency (tj_CurrencyType job) (tj_CurrencyDelta job) tmp) else tmp)"
    "tp_bag plan = Bag (if tj_CurrencyDelta job > 0 then fst (AddCurrency (tj_CurrencyType job) (tj_CurrencyDelta job) tmp) else tmp)"
  using assms by (auto simp: handleApplyTransfer_def Let_def split: sum.splits ErrCode.splits option.splits prod.splits if_splits)

lemma receiver_gets:
  assumes "handleApplyTransfer C ks conf shards shard now ids q (Some job) = Apply plan" "player_ok q"
    and "\<And>t. held t q + att_total t (tj_Items job) < 2 ^ 63" "player_Currency q (tj_CurrencyType job) + moved job < 2 ^ 63"
  defines "q' \<equiv> q\<lparr>Bag := tp_bag plan, Base := tp_base plan\<rparr>"
  shows "player_ok q' \<and> (\<forall>t. held t q' = held t q + att_total t (tj_Items job))
    \<and> (\<forall>c. player_Currency q' c = player_Currency q c + (if c = tj_CurrencyType job then moved job else 0))"
proof -
  obtain tmp slots where g: "grant_items conf now ids 0 (tj_Items job) q = Inr (tmp, slots)" and
      pl: "tp_base plan = Base (if tj_CurrencyDelta job > 0 then fst (AddCurrency (tj_CurrencyType job) (tj_CurrencyDelta job) tmp) else tmp)"
      "tp_bag plan = Bag (if tj_CurrencyDelta job > 0 then fst (AddCurrency (tj_CurrencyType job) (tj_CurrencyDelta job) tmp) else tmp)"
    by (rule handleApplyTransfer_plan [OF assms(1)])
  let ?t1 = "if tj_CurrencyDelta job > 0 then fst (AddCurrency (tj_CurrencyType job) (tj_CurrencyDelta job) tmp) else tmp"
  have k: "bag_ok (Bag tmp)" "tmp = set_items (Items (Bag tmp)) q" "\<And>u. held u tmp = held u q + att_total u (tj_Items job)"
    using grant_items_ok [OF g] assms(2,3) by (auto simp: player_ok_def)
  have b: "Base tmp = Base q" "money_ok (Base tmp)" using k(2) assms(2) by (metis set_items_Base(1), metis set_items_Base(1) player_ok_def)
  have cq: "player_Currency q c = player_Currency tmp c" for c using b by (auto intro: currency_of_base)
  have m: "Bag ?t1 = Bag tmp \<and> money_ok (Base ?t1)
      \<and> (\<forall>c. player_Currency ?t1 c = player_Currency tmp c + (if c = tj_CurrencyType job then moved job else 0))"
    using b AddCurrency_credit [OF b(2), of "tj_CurrencyDelta job" "tj_CurrencyType job"] assms(4) cq by (auto simp: moved_def)
  have "player_Currency q' c = player_Currency ?t1 c" for c
    using pl by (auto simp: q'_def intro: currency_of_base)
  then show ?thesis using m k pl cq by (simp add: q'_def player_ok_def)
qed

text \<open>C10: A transfer conserves assets. What the sender's plan takes from its bag and its money, the receiver's
  plan for the published job adds: the two players together hold as much of every currency and
  of every item as before, and both stay well-formed, provided the receiver's balances do not
  overflow.\<close>

theorem transfer_conserves_assets:
  assumes "handleTransfer C ks shards sh1 now ids p (Some req) = Inr plan1"
    and "handleApplyTransfer C ks conf shards sh2 now' ids' q (Some (job_of (tp_rec plan1))) = Apply plan2"
    and "player_ok p" "player_ok q" "tj_CurrencyDelta req < 2 ^ 63"
    and "\<And>t. held t q + att_total t (tj_Items req) < 2 ^ 63" "player_Currency q (tj_CurrencyType req) + moved req < 2 ^ 63"
  defines "p' \<equiv> p\<lparr>Bag := tp_bag plan1, Base := tp_base plan1\<rparr>" and "q' \<equiv> q\<lparr>Bag := tp_bag plan2, Base := tp_base plan2\<rparr>"
  shows "player_ok p' \<and> player_ok q'
    \<and> (\<forall>t. item_total t (Items (Bag p')) + item_total t (Items (Bag q')) = item_total t (Items (Bag p)) + item_total t (Items (Bag q)))
    \<and> (\<forall>c. player_Currency p' c + player_Currency q' c = player_Currency p c + player_Currency q c)"
proof -
  let ?job = "job_of (tp_rec plan1)"
  have j: "tj_Items ?job = tj_Items req" "tj_CurrencyType ?job = tj_CurrencyType req" "moved ?job = moved req"
    by (rule handleTransfer_plan [OF assms(1)], simp add: job_of_def moved_def)+
  note s = sender_pays [OF assms(1,3,5)]
  have r: "player_ok q' \<and> (\<forall>t. held t q' = held t q + att_total t (tj_Items req))
    \<and> (\<forall>c. player_Currency q' c = player_Currency q c + (if c = tj_CurrencyType req then moved req else 0))"
    using receiver_gets [OF assms(2,4)] assms(6,7) unfolding j q'_def by blast
  then show ?thesis using s unfolding p'_def by auto
qed

definition blank_codec :: player_codec where
  "blank_codec = \<lparr>enc_base = \<lambda>_. Some [], dec_base = \<lambda>_. None, enc_bag = \<lambda>_. Some [], dec_bag = \<lambda>_. None, enc_quest = \<lambda>_. Some [],
    dec_quest = \<lambda>_. None, enc_social = \<lambda>_. Some [], dec_social = \<lambda>_. None,
    enc_mail = \<lambda>_. Some [], dec_mail = \<lambda>_. None, enc_round = \<lambda>_. Some [], dec_round = \<lambda>_. None, enc_rg = \<lambda>_. Some [],
    dec_rg = \<lambda>_. None, enc_gacha = \<lambda>_. Some [], dec_gacha = \<lambda>_. None\<rparr>"

definition giver :: Player where
  "giver = set_items [\<lparr>InstanceId = 1, TplId = 3, Count = 5, ObtainedAt = 0, Attrs = []\<rparr>] (set_currency 1 100 (NewPlayer 7 0))"

definition gift_req :: TransferJob where
  "gift_req = \<lparr>tj_Txid = [], tj_FromUid = 0, tj_ToUid = 8, tj_Items = [\<lparr>at_TplId = 3, at_Count = 2\<rparr>], tj_CurrencyDelta = 30,
     tj_CurrencyType = 1, tj_Reason = [], tj_CreatedAt = 0\<rparr>"

lemma giver_ok: "player_ok giver" "player_ok (NewPlayer 8 0)"
  by (auto simp: player_ok_def money_ok_def bag_ok_def giver_def set_items_def set_currency_def NewPlayer_def item_total_def
      DefaultBagCapacity_def)

lemma gift_takes: "\<exists>tmp. take_items (tj_Items gift_req) giver = Some tmp \<and> Base tmp = Base giver \<and> UID tmp = 7"
proof -
  have "held 3 giver = 5" by (simp add: giver_def set_items_def item_total_def)
  moreover have "bag_ok (Bag giver)" using giver_ok by (simp add: player_ok_def)
  ultimately obtain p' where "RemoveItemByTpl 3 2 giver = (p', True)" "p' = set_items (Items (Bag p')) giver"
    using RemoveItemByTpl_ok [of giver 2 3] by auto
  then show ?thesis using set_items_Base [of "Items (Bag p')" giver]
    by (simp add: gift_req_def) (simp add: giver_def NewPlayer_def)
qed

lemma gift_sent: "\<exists>plan. handleTransfer blank_codec lobby_keys 16 7 5 (\<lambda>_. Some 9) giver (Some gift_req) = Inr plan"
proof -
  obtain tmp where t: "take_items (tj_Items gift_req) giver = Some tmp" "Base tmp = Base giver" "UID tmp = 7" using gift_takes by blast
  have "player_Currency tmp 1 = 100" using t(2) by (simp add: player_Currency_def giver_def set_currency_def NewPlayer_def)
  then have "AddCurrency 1 (i64 (- 30)) tmp = (set_currency 1 70 tmp, 70, True)" by (simp add: AddCurrency_def i64_def)
  moreover have "UID giver = 7" by (simp add: giver_def NewPlayer_def)
  ultimately show ?thesis using t by (simp add: handleTransfer_def gift_req_def transfer_kv_def blank_codec_def)
qed

lemma gift_received:
  assumes "tj_Items job = tj_Items gift_req" "tj_CurrencyDelta job = 30"
  shows "\<exists>plan. handleApplyTransfer blank_codec lobby_keys (Default (\<lambda>_. None)) 16 8 6 (\<lambda>_. Some 10) (NewPlayer 8 0) (Some job) = Apply plan"
proof -
  have "\<exists>r. grant_items (Default (\<lambda>_. None)) 6 (\<lambda>_. Some 10) 0 (tj_Items job) (NewPlayer 8 0) = Inr r"
    using assms by (simp add: gift_req_def AddItem_def NewPlayer_def DefaultBagCapacity_def Let_def)
  then show ?thesis using assms
    by (auto simp: handleApplyTransfer_def transfer_kv_def blank_codec_def Let_def)
qed

theorem transfer_conserves_assets_witness:
  "\<exists>plan1 plan2. handleTransfer blank_codec lobby_keys 16 7 5 (\<lambda>_. Some 9) giver (Some gift_req) = Inr plan1
     \<and> handleApplyTransfer blank_codec lobby_keys (Default (\<lambda>_. None)) 16 8 6 (\<lambda>_. Some 10) (NewPlayer 8 0) (Some (job_of (tp_rec plan1))) = Apply plan2
     \<and> player_Currency (giver\<lparr>Bag := tp_bag plan1, Base := tp_base plan1\<rparr>) 1
         + player_Currency ((NewPlayer 8 0)\<lparr>Bag := tp_bag plan2, Base := tp_base plan2\<rparr>) 1 = 100"
proof -
  obtain plan1 where 1: "handleTransfer blank_codec lobby_keys 16 7 5 (\<lambda>_. Some 9) giver (Some gift_req) = Inr plan1" using gift_sent by blast
  have "tj_Items (job_of (tp_rec plan1)) = tj_Items gift_req" "tj_CurrencyDelta (job_of (tp_rec plan1)) = 30"
    by (rule handleTransfer_plan [OF 1], simp add: job_of_def gift_req_def)+
  then obtain plan2 where 2: "handleApplyTransfer blank_codec lobby_keys (Default (\<lambda>_. None)) 16 8 6 (\<lambda>_. Some 10) (NewPlayer 8 0)
      (Some (job_of (tp_rec plan1))) = Apply plan2" using gift_received by blast
  have "held t (NewPlayer 8 0) = 0" "player_Currency (NewPlayer 8 0) c = 0" "player_Currency giver 1 = 100" for t c
    by (simp_all add: NewPlayer_def player_Currency_def giver_def set_currency_def)
  then show ?thesis using 1 2 transfer_conserves_assets [OF 1 2 giver_ok] by (auto simp: gift_req_def moved_def)
qed

section \<open>A full bag\<close>

text \<open>A transfer delivered to a full bag is acknowledged, but nothing in Redis records it: every further
  delivery of the same job queues the same items once more, and the transferred money is in none of
  the mails.\<close>

theorem full_bag_multiplies_a_transfer:
  assumes "handleApplyTransfer C ks conf shards (o_Shard o1) now ids p (Some job) = Mailbox job"
  shows "((\<lambda>st. fst (run_apply_transfer R ks J m n1 n2 C conf shards o1 now ids job st)) ^^ k) (s, queue, p)
      = (s, queue @ replicate k (fallback_mail now job), p)
    \<and> snd (run_apply_transfer R ks J m n1 n2 C conf shards o1 now ids job (s, queue, p)) = Some (Inr True)
    \<and> att_total tpl (concat (map Attachments (replicate k (fallback_mail now job)))) = int k * att_total tpl (tj_Items job)"
proof -
  have 1: "run_apply_transfer R ks J m n1 n2 C conf shards o1 now ids job (s, q, p)
      = ((s, q @ [fallback_mail now job], p), Some (Inr True))" for s q
    using assms by (simp add: run_apply_transfer_def)
  have "att_total tpl (a @ b) = att_total tpl a + att_total tpl b" for a b by (simp add: att_total_def)
  then have "att_total tpl (concat (map Attachments (replicate k (fallback_mail now job)))) = int k * att_total tpl (tj_Items job)"
    by (induction k) (simp_all add: fallback_mail_def algebra_simps)
  moreover have "((\<lambda>st. fst (run_apply_transfer R ks J m n1 n2 C conf shards o1 now ids job st)) ^^ k) (s, queue, p)
      = (s, queue @ replicate k (fallback_mail now job), p)"
    by (induction k) (simp_all add: 1 replicate_append_same)
  ultimately show ?thesis using 1 by simp
qed

definition full_player :: Player where
  "full_player = (NewPlayer 8 0)\<lparr>Bag := \<lparr>bag_Uid = 8, Items = [\<lparr>InstanceId = 1, TplId = 4, Count = 1, ObtainedAt = 0, Attrs = []\<rparr>],
     bag_Capacity = 1\<rparr>\<rparr>"

theorem full_bag_multiplies_a_transfer_witness:
  "((\<lambda>st. fst (run_apply_transfer mem_redis lobby_keys text_tx (tx_NewManager 0 0) Delivered Delivered blank_codec (Default (\<lambda>_. None)) 16
       demo_shard 6 (\<lambda>_. Some 10) gift_req st)) ^^ 2) (mem_empty, [], full_player)
     = (mem_empty, [fallback_mail 6 gift_req, fallback_mail 6 gift_req], full_player)"
proof -
  have "handleApplyTransfer blank_codec lobby_keys (Default (\<lambda>_. None)) 16 (o_Shard demo_shard) 6 (\<lambda>_. Some 10) full_player (Some gift_req)
      = Mailbox gift_req"
    by (simp add: handleApplyTransfer_def gift_req_def full_player_def AddItem_def Let_def NewPlayer_def)
  from full_bag_multiplies_a_transfer [where R = mem_redis and J = text_tx and m = "tx_NewManager 0 0" and ?n1.0 = Delivered
      and ?n2.0 = Delivered and k = 2 and s = mem_empty and queue = "[]", OF this]
  show ?thesis by (simp add: numeral_2_eq_2)
qed

section \<open>Claiming mails\<close>

lemma handleClaimMail_plan:
  assumes "handleClaimMail C RC ks conf now ids p (Some mid) = Inr plan"
  obtains mail tmp slots where "FindMail p mid = Some mail" "\<not> Claimed mail"
    "grant_items conf now ids 0 (Attachments mail) p = Inr (tmp, slots)"
    "ap_base plan = None" "ap_bag plan = Some (Bag tmp)" "ap_mail plan = Some ((MailM p)\<lparr>Mails := mark_claimed mid (Mails (MailM p))\<rparr>)"
    "\<exists>b1 b2. enc_bag C (Bag tmp) = Some b1 \<and> enc_mail C ((MailM p)\<lparr>Mails := mark_claimed mid (Mails (MailM p))\<rparr>) = Some b2
       \<and> cs_KV (ap_spec plan) = [(keys_Player ks (UID p) ModBag, b1), (keys_Player ks (UID p) ModMail, b2)]"
    "cs_IdemKey (ap_spec plan) = keys_Order ks (UID p) (''mail'' @ show_nat mid)"
    "length (cs_Entries (ap_spec plan)) = length (Attachments mail)"
  using assms by (auto simp: handleClaimMail_def Let_def split: option.splits if_splits sum.splits prod.splits)

lemma find_claimed: "List.find (\<lambda>m. MailId m = mid) xs = Some m \<Longrightarrow>
   \<exists>m'. List.find (\<lambda>m. MailId m = mid) (mark_claimed mid xs) = Some m' \<and> Claimed m'"
  by (induction xs) (auto simp: mark_claimed_def split: if_splits)

text \<open>Claiming a mail puts exactly its attachments into the bag and marks it claimed, so that a second claim
  of the same number is refused as a duplicate; nothing else of the player changes.\<close>

theorem claim_mail_delivers_once:
  assumes "handleClaimMail C RC ks conf now ids p (Some mid) = Inr plan" "bag_ok (Bag p)"
    and "\<And>mail t. FindMail p mid = Some mail \<Longrightarrow> item_total t (Items (Bag p)) + att_total t (Attachments mail) < 2 ^ 63"
  shows "\<exists>mail p'. FindMail p mid = Some mail
    \<and> claim_mail_done RC plan (Inr \<lparr>Duplicate = False, Payload = pay\<rparr>) p = (p', Inr (ap_resp plan))
    \<and> (\<forall>t. item_total t (Items (Bag p')) = item_total t (Items (Bag p)) + att_total t (Attachments mail)) \<and> bag_ok (Bag p')
    \<and> p' = p\<lparr>Bag := Bag p', MailM := MailM p'\<rparr>
    \<and> handleClaimMail C RC ks conf now' ids' p' (Some mid) = Inl E_Duplicate"
proof -
  obtain mail tmp slots where h: "FindMail p mid = Some mail" "grant_items conf now ids 0 (Attachments mail) p = Inr (tmp, slots)"
    "ap_base plan = None" "ap_bag plan = Some (Bag tmp)" "ap_mail plan = Some ((MailM p)\<lparr>Mails := mark_claimed mid (Mails (MailM p))\<rparr>)"
    by (rule handleClaimMail_plan [OF assms(1)]) blast
  let ?p' = "p\<lparr>Bag := Bag tmp, MailM := (MailM p)\<lparr>Mails := mark_claimed mid (Mails (MailM p))\<rparr>\<rparr>"
  have "claim_mail_done RC plan (Inr \<lparr>Duplicate = False, Payload = pay\<rparr>) p = (?p', Inr (ap_resp plan))"
    using h by (simp add: claim_mail_done_def plan_done_def install_def)
  moreover have "bag_ok (Bag tmp) \<and> (\<forall>t. held t tmp = held t p + att_total t (Attachments mail))"
    using grant_items_ok [OF h(2) assms(2)] assms(3) h(1) by blast
  moreover have "\<exists>m'. FindMail ?p' mid = Some m' \<and> Claimed m'" using h(1) find_claimed by (auto simp: FindMail_def)
  then have "handleClaimMail C RC ks conf now' ids' ?p' (Some mid) = Inl E_Duplicate" by (auto simp: handleClaimMail_def)
  ultimately show ?thesis using h(1) by (intro exI [of _ mail] exI [of _ ?p']) simp
qed

definition gift_mail :: "nat \<Rightarrow> nat \<Rightarrow> Mail" where
  "gift_mail mid tpl = \<lparr>MailId = mid, ml_Title = [], ml_Content = [], Sender = [], SendAt = 0, ExpireAt = 0, ml_Read = False,
     Claimed = False, Attachments = [\<lparr>at_TplId = tpl, at_Count = 1\<rparr>]\<rparr>"

definition mailed_player :: Player where
  "mailed_player = (NewPlayer 7 0)\<lparr>MailM := \<lparr>ma_Uid = 7, Mails = [gift_mail 5 3]\<rparr>\<rparr>"

definition blank_items :: claim_codec where
  "blank_items = \<lparr>enc_items = \<lambda>_. Some [], dec_items = \<lambda>_. None\<rparr>"

lemma mailed_claim:
  "\<exists>plan. handleClaimMail blank_codec blank_items lobby_keys (Default (\<lambda>_. None)) 6 (\<lambda>_. Some 10) mailed_player (Some 5) = Inr plan"
  by (simp add: handleClaimMail_def mailed_player_def FindMail_def gift_mail_def AddItem_def NewPlayer_def DefaultBagCapacity_def
      blank_codec_def Let_def)

theorem claim_mail_delivers_once_witness:
  "\<exists>plan p'. claim_mail_done blank_items plan (Inr \<lparr>Duplicate = False, Payload = []\<rparr>) mailed_player = (p', Inr (ap_resp plan))
     \<and> item_total 3 (Items (Bag p')) = 1"
proof -
  obtain plan where h: "handleClaimMail blank_codec blank_items lobby_keys (Default (\<lambda>_. None)) 6 (\<lambda>_. Some 10) mailed_player (Some 5) = Inr plan"
    using mailed_claim by blast
  have f: "FindMail mailed_player 5 = Some (gift_mail 5 3)" "Items (Bag mailed_player) = []" "bag_ok (Bag mailed_player)"
    by (simp_all add: FindMail_def mailed_player_def gift_mail_def NewPlayer_def bag_ok_def)
  have a: "att_total t (Attachments (gift_mail 5 3)) = (if t = 3 then 1 else 0)" for t by (simp add: gift_mail_def)
  show ?thesis using claim_mail_delivers_once [OF h f(3), of "[]"] f a by fastforce
qed

text \<open>Mails that share a number hide each other. The mails a full bag diverts all have the number zero:
  claiming marks every mail of that number as claimed but delivers the attachments of the first
  one only, and none of the others can be claimed afterwards.\<close>

theorem same_number_mails_are_lost:
  assumes "handleClaimMail C RC ks conf now ids p (Some mid) = Inr plan"
    and "Mails (MailM p) = ms1 @ first # ms2 @ second # ms3" "MailId first = mid" "MailId second = mid" "\<forall>x\<in>set ms1. MailId x \<noteq> mid"
    and "bag_ok (Bag p)" "\<And>t. item_total t (Items (Bag p)) + att_total t (Attachments first) < 2 ^ 63"
  shows "\<exists>p' ans. claim_mail_done RC plan (Inr \<lparr>Duplicate = False, Payload = pay\<rparr>) p = (p', ans)
    \<and> (\<forall>t. item_total t (Items (Bag p')) = item_total t (Items (Bag p)) + att_total t (Attachments first))
    \<and> second\<lparr>Claimed := True, ml_Read := True\<rparr> \<in> set (Mails (MailM p'))
    \<and> handleClaimMail C RC ks conf now' ids' p' (Some mid) = Inl E_Duplicate"
proof -
  have "List.find (\<lambda>m. MailId m = mid) (ms1 @ first # ms2 @ second # ms3) = Some first"
    using assms(3,5) by (induction ms1) auto
  then have f: "FindMail p mid = Some first" using assms(2) by (simp add: FindMail_def)
  obtain mail tmp slots where h: "FindMail p mid = Some mail" "grant_items conf now ids 0 (Attachments mail) p = Inr (tmp, slots)"
    "ap_base plan = None" "ap_bag plan = Some (Bag tmp)" "ap_mail plan = Some ((MailM p)\<lparr>Mails := mark_claimed mid (Mails (MailM p))\<rparr>)"
    by (rule handleClaimMail_plan [OF assms(1)]) blast
  let ?p' = "p\<lparr>Bag := Bag tmp, MailM := (MailM p)\<lparr>Mails := mark_claimed mid (Mails (MailM p))\<rparr>\<rparr>"
  have "claim_mail_done RC plan (Inr \<lparr>Duplicate = False, Payload = pay\<rparr>) p = (?p', Inr (ap_resp plan))"
    using h by (simp add: claim_mail_done_def plan_done_def install_def)
  moreover have "\<forall>t. held t tmp = held t p + att_total t (Attachments first)"
    using grant_items_ok [OF h(2) assms(6)] assms(7) h(1) f by simp
  moreover have "second\<lparr>Claimed := True, ml_Read := True\<rparr> \<in> set (mark_claimed mid (Mails (MailM p)))"
    using assms(2,4) by (simp add: mark_claimed_def)
  moreover have "\<exists>m'. FindMail ?p' mid = Some m' \<and> Claimed m'" using h(1) find_claimed by (auto simp: FindMail_def)
  then have "handleClaimMail C RC ks conf now' ids' ?p' (Some mid) = Inl E_Duplicate" by (auto simp: handleClaimMail_def)
  ultimately show ?thesis by (intro exI [of _ ?p'] exI [of _ "Inr (ap_resp plan)"]) simp
qed

definition twice_mailed :: Player where
  "twice_mailed = (NewPlayer 7 0)\<lparr>MailM := \<lparr>ma_Uid = 7, Mails = [gift_mail 0 3, gift_mail 0 4]\<rparr>\<rparr>"

lemma twice_claim:
  "\<exists>plan. handleClaimMail blank_codec blank_items lobby_keys (Default (\<lambda>_. None)) 6 (\<lambda>_. Some 10) twice_mailed (Some 0) = Inr plan"
  by (simp add: handleClaimMail_def twice_mailed_def FindMail_def gift_mail_def AddItem_def NewPlayer_def DefaultBagCapacity_def
      blank_codec_def Let_def)

theorem same_number_mails_are_lost_witness:
  "\<exists>plan p' ans. claim_mail_done blank_items plan (Inr \<lparr>Duplicate = False, Payload = []\<rparr>) twice_mailed = (p', ans)
     \<and> item_total 4 (Items (Bag p')) = 0
     \<and> handleClaimMail blank_codec blank_items lobby_keys (Default (\<lambda>_. None)) 7 (\<lambda>_. Some 11) p' (Some 0) = Inl E_Duplicate"
proof -
  obtain plan where h: "handleClaimMail blank_codec blank_items lobby_keys (Default (\<lambda>_. None)) 6 (\<lambda>_. Some 10) twice_mailed (Some 0) = Inr plan"
    using twice_claim by blast
  have f: "Mails (MailM twice_mailed) = [] @ gift_mail 0 3 # [] @ gift_mail 0 4 # []" "Items (Bag twice_mailed) = []" "bag_ok (Bag twice_mailed)"
    by (simp_all add: twice_mailed_def NewPlayer_def bag_ok_def)
  have a: "att_total t (Attachments (gift_mail 0 3)) = (if t = 3 then 1 else 0)" "MailId (gift_mail 0 u) = 0" for t u
    by (simp_all add: gift_mail_def)
  show ?thesis using same_number_mails_are_lost [OF h f(1) a(2,2) _ f(3), of "[]" 7 "\<lambda>_. Some 11"] f(2) a(1) by fastforce
qed

section \<open>Memory and Redis\<close>

text \<open>A module is in step when Redis holds the encoding of what memory holds.\<close>

definition in_step :: "'r redis \<Rightarrow> player_codec \<Rightarrow> keys \<Rightarrow> 'r \<Rightarrow> Player \<Rightarrow> Module \<Rightarrow> bool" where
  "in_step R C ks s p m \<longleftrightarrow>
     player_Marshal C p m \<noteq> None \<and> GET R s (keys_Player ks (UID p) m) = player_Marshal C p m"

definition run_plan :: "'r redis \<Rightarrow> keys \<Rightarrow> entry_codec \<Rightarrow> shard_id \<Rightarrow> net \<Rightarrow> (bytes \<Rightarrow> 'a \<Rightarrow> 'a) \<Rightarrow> 'a asset_plan \<Rightarrow> Player \<times> 'r \<Rightarrow>
    (Player \<times> 'r) \<times> (ErrCode + 'a)" where
  "run_plan R ks J o1 n again plan ps =
     (case lobby_commit R ks J o1 n (UID (fst ps)) (ap_spec plan) (snd ps) of
        (s', r) \<Rightarrow> (case plan_done again plan r (fst ps) of (p', a) \<Rightarrow> ((p', s'), a)))"

definition installed :: "'a asset_plan \<Rightarrow> Player \<Rightarrow> Player" where
  "installed plan = install (ap_base plan) (ap_bag plan) (ap_mail plan)"

text \<open>A plan is faithful when it writes exactly the encodings of the modules it installs.\<close>

definition planned :: "player_codec \<Rightarrow> keys \<Rightarrow> Player \<Rightarrow> 'a asset_plan \<Rightarrow> bool" where
  "planned C ks p plan \<longleftrightarrow> spec_keys_ok ks (UID p) (ap_spec plan) \<and>
     (\<forall>m. case map_of (cs_KV (ap_spec plan)) (keys_Player ks (UID p) m) of
            Some b \<Rightarrow> player_Marshal C (installed plan p) m = Some b
          | None \<Rightarrow> module_of (installed plan p) m = module_of p m)"

lemma UID_installed [simp]: "UID (installed plan p) = UID p"
  by (simp add: installed_def install_def Let_def split: option.splits)

lemma module_marshal: "module_of p m = module_of p' m \<Longrightarrow> player_Marshal C p m = player_Marshal C p' m"
  by (cases m) (simp_all add: player_Marshal_def)

context redis_api
begin

lemma lobby_commit_modules:
  assumes ok: "spec_keys_ok ks uid spec" and len: "int (length (cs_Entries spec)) \<le> DefaultMaxLen"
    and c: "lobby_commit R ks J o1 n uid spec s = (s', r)"
  shows "s' = s \<and> (\<forall>p. r \<noteq> Inr \<lparr>Duplicate = False, Payload = p\<rparr>)
    \<or> (\<forall>m. GET R s' (keys_Player ks uid m)
          = (case map_of (cs_KV spec) (keys_Player ks uid m) of Some b \<Rightarrow> Some b | None \<Rightarrow> GET R s (keys_Player ks uid m)))
      \<and> (r = Inl ErrRedis \<or> r = Inr \<lparr>Duplicate = False, Payload = cs_Payload spec\<rparr>)"
proof (cases "Encode J (cs_Entries spec)")
  case (Inl e)
  then show ?thesis using c by (auto simp: lobby_commit_def)
next
  case (Inr bs)
  let ?req = "commit_request ks o1 uid spec bs"
  have "LedgerMaxLen ?req \<le> 0 \<or> int (length (Entries ?req)) \<le> LedgerMaxLen ?req"
    using len Encode_length [OF Inr] by (simp add: commit_request_def)
  moreover have "Commit R ks n ?req s = (s', r)" using c Inr by (simp add: lobby_commit_def)
  ultimately consider "s' = s" "\<forall>p. r \<noteq> Inr \<lparr>Duplicate = False, Payload = p\<rparr>"
    | "commit_applied R ?req s s'" "r = Inl ErrRedis \<or> r = Inr \<lparr>Duplicate = False, Payload = cs_Payload spec\<rparr>"
    using Commit_all_or_nothing [OF spec_commit_keys [OF ok]] by (fastforce simp: commit_request_def)
  then show ?thesis
  proof cases
    case 2
    have d: "distinct (map fst (cs_KV spec))" and ik: "\<exists>i. cs_IdemKey spec = keys_Order ks uid i"
      using ok by (auto simp: spec_keys_ok_def)
    have "GET R s' (keys_Player ks uid m)
        = (case map_of (cs_KV spec) (keys_Player ks uid m) of Some b \<Rightarrow> Some b | None \<Rightarrow> GET R s (keys_Player ks uid m))" for m
    proof (cases "map_of (cs_KV spec) (keys_Player ks uid m)")
      case None
      then have "keys_Player ks uid m \<notin> fst ` set (cs_KV spec)" by (simp add: map_of_eq_None_iff)
      then have "keys_Player ks uid m \<notin> fop_keys (FCommit ?req)" using ik by (auto simp: commit_request_def key_eqs)
      then have "view R s' (keys_Player ks uid m) = view R s (keys_Player ks uid m)"
        using 2(1) unfolding commit_applied_def by blast
      then show ?thesis using None by (simp add: view_def)
    next
      case (Some b)
      then have "(keys_Player ks uid m, b) \<in> set (KV ?req)" by (simp add: commit_request_def map_of_SomeD)
      then show ?thesis using 2(1) Some unfolding commit_applied_def by fastforce
    qed
    then show ?thesis using 2(2) by blast
  qed blast
qed

lemma lobby_commit_error_unchanged:
  assumes "lobby_commit R ks J o1 n uid spec s = (s', Inl e)" "n \<noteq> ReplyLost"
  shows "s' = s"
proof (cases "Encode J (cs_Entries spec)")
  case (Inr bs)
  let ?req = "commit_request ks o1 uid spec bs"
  have c: "Commit R ks n ?req s = (s', Inl e)" using assms(1) Inr by (simp add: lobby_commit_def)
  show ?thesis
  proof (cases n)
    case Delivered
    then show ?thesis using c unfolding Commit_eq Let_def
      by (auto simp: through_reply_def run_def split: if_splits option.splits)
  next
    case RequestLost
    then show ?thesis using c unfolding Commit_eq Let_def by (auto simp: through_reply_def run_def split: if_splits)
  qed (use assms(2) in simp)
qed (use assms(1) in \<open>simp add: lobby_commit_def\<close>)

lemma run_plan_in_step:
  assumes pl: "planned C ks p plan" and len: "int (length (cs_Entries (ap_spec plan))) \<le> DefaultMaxLen"
    and run: "run_plan R ks J o1 n again plan (p, s) = ((p', s'), a)" and n: "n \<noteq> ReplyLost" and st: "in_step R C ks s p m"
  shows "in_step R C ks s' p' m"
proof -
  obtain r where c: "lobby_commit R ks J o1 n (UID p) (ap_spec plan) s = (s', r)" and d: "plan_done again plan r p = (p', a)"
    using run by (auto simp: run_plan_def split: prod.splits)
  have ok: "spec_keys_ok ks (UID p) (ap_spec plan)" using pl by (simp add: planned_def)
  have each: "case map_of (cs_KV (ap_spec plan)) (keys_Player ks (UID p) m) of
      Some b \<Rightarrow> player_Marshal C (installed plan p) m = Some b | None \<Rightarrow> module_of (installed plan p) m = module_of p m"
    using pl by (simp add: planned_def)
  show ?thesis
  proof (cases "\<exists>pay. r = Inr \<lparr>Duplicate = False, Payload = pay\<rparr>")
    case True
    then have p': "p' = installed plan p" using d by (auto simp: plan_done_def installed_def)
    have g: "GET R s' (keys_Player ks (UID p) m) = (case map_of (cs_KV (ap_spec plan)) (keys_Player ks (UID p) m) of
        Some b \<Rightarrow> Some b | None \<Rightarrow> GET R s (keys_Player ks (UID p) m))"
      using lobby_commit_modules [OF ok len c] True by blast
    show ?thesis
    proof (cases "map_of (cs_KV (ap_spec plan)) (keys_Player ks (UID p) m)")
      case None
      then have "module_of (installed plan p) m = module_of p m" using each by simp
      then have "player_Marshal C (installed plan p) m = player_Marshal C p m" by (rule module_marshal)
      then show ?thesis using g None st by (simp add: in_step_def p')
    next
      case (Some b)
      then have "player_Marshal C (installed plan p) m = Some b" using each by simp
      then show ?thesis using g Some by (simp add: in_step_def p')
    qed
  next
    case False
    have "p' = p"
    proof (cases r)
      case (Inr res)
      have "Duplicate res" using False Inr by (cases res) auto
      then show ?thesis using d Inr by (simp add: plan_done_def)
    qed (use d in \<open>simp add: plan_done_def\<close>)
    moreover have "s' = s"
    proof (cases r)
      case (Inl e)
      then show ?thesis using lobby_commit_error_unchanged c n by blast
    next
      case (Inr res)
      then show ?thesis using lobby_commit_modules [OF ok len c] False by blast
    qed
    ultimately show ?thesis using st by simp
  qed
qed

end

section \<open>The four commits\<close>

lemma handlePurchase_plan:
  assumes "handlePurchase mac v C RC ks conf now ids p (Some req) = Inr plan"
  obtains product blob where "conf_Product conf (pq_Product req) = Some product" "pq_OrderId req \<noteq> []"
    "AllowsChannel product (pq_Channel req)" "payment_Verify mac v (purchase_order p product req) = Inr ()"
    "ap_base plan = Some (base_add (pr_Currency product) (pr_Amount product) (Base p))" "ap_bag plan = None" "ap_mail plan = None"
    "enc_base C (base_add (pr_Currency product) (pr_Amount product) (Base p)) = Some blob"
    "cs_KV (ap_spec plan) = [(keys_Player ks (UID p) ModBase, blob)]" "cs_IdemKey (ap_spec plan) = keys_Order ks (UID p) (pq_OrderId req)"
    "\<exists>e. cs_Entries (ap_spec plan) = [e] \<and> en_Currency e = pr_Currency product \<and> Amount e = pr_Amount product
       \<and> Balance e = base_currency (base_add (pr_Currency product) (pr_Amount product) (Base p)) (pr_Currency product)"
    "pp_Balance (ap_resp plan) = base_currency (base_add (pr_Currency product) (pr_Amount product) (Base p)) (pr_Currency product)"
  using assms by (auto simp: handlePurchase_def purchase_order_def Let_def split: option.splits if_splits)

lemma handleGMGrant_plan:
  assumes "handleGMGrant C ack ks conf now ids op p (Some req) = Inr plan"
  obtains base tmp slots b1 b2 where "gg_Ticket req \<noteq> []"
    "grant_items conf now (\<lambda>i. ids ((if gg_Amount req \<noteq> 0 \<and> gg_Currency req \<noteq> 0 then 1 else 0) + 2 * i)) 0 (gg_Items req) (p\<lparr>Base := base\<rparr>) = Inr (tmp, slots)"
    "if gg_Amount req \<noteq> 0 \<and> gg_Currency req \<noteq> 0
     then base = base_add (gg_Currency req) (gg_Amount req) (Base p) \<and> 0 \<le> i64 (base_currency (Base p) (gg_Currency req) + gg_Amount req)
     else base = Base p"
    "ap_base plan = Some base" "ap_bag plan = Some (Bag tmp)" "ap_mail plan = None" "enc_base C base = Some b1" "enc_bag C (Bag tmp) = Some b2"
    "cs_KV (ap_spec plan) = [(keys_Player ks (UID p) ModBase, b1), (keys_Player ks (UID p) ModBag, b2)]"
    "cs_IdemKey (ap_spec plan) = keys_Order ks (UID p) (''gm-'' @ gg_Ticket req)"
    "length (cs_Entries (ap_spec plan)) \<le> length (gg_Items req) + 1"
  using assms by (auto simp: handleGMGrant_def Let_def split: if_splits sum.splits prod.splits option.splits)

lemma handleBattleSettle_plan:
  assumes "handleBattleSettle C RC ks conf now ids p (Some res) = Some (Inr (plan, up))"
  obtains gold exp1 ex lv blob where "battle_reward (UID p) res = (gold, exp1)"
    "level_up conf (u64 (Exp (Base p) + uint64_of exp1)) (bs_Level (Base p)) False = Some (ex, lv, up)"
    "ap_base plan = Some ((base_add CurrencyGold gold (Base p))\<lparr>Exp := ex, bs_Level := lv\<rparr>)" "ap_bag plan = None" "ap_mail plan = None"
    "enc_base C ((base_add CurrencyGold gold (Base p))\<lparr>Exp := ex, bs_Level := lv\<rparr>) = Some blob"
    "cs_KV (ap_spec plan) = [(keys_Player ks (UID p) ModBase, blob)]"
    "cs_IdemKey (ap_spec plan) = keys_Order ks (UID p) (''battle'' @ show_nat (br_RoomId res))"
    "length (cs_Entries (ap_spec plan)) = 1"
proof -
  obtain gold exp1 where b: "battle_reward (UID p) res = (gold, exp1)" by (cases "battle_reward (UID p) res")
  have "Exp (base_add c d x) = Exp x" "bs_Level (base_add c d x) = bs_Level x" for c d x by (simp_all add: base_add_def)
  then show thesis using assms that [OF b]
    by (auto simp: handleBattleSettle_def b Let_def split: option.splits)
qed

lemma planned_ok:
  shows "handlePurchase mac v C RC1 ks conf now ids p (Some req1) = Inr plan1 \<Longrightarrow> planned C ks p plan1"
    and "handleClaimMail C RC2 ks conf now ids p (Some mid) = Inr plan2 \<Longrightarrow> planned C ks p plan2"
    and "handleGMGrant C ack ks conf now ids op p (Some req3) = Inr plan3 \<Longrightarrow> planned C ks p plan3"
    and "handleBattleSettle C RC4 ks conf now ids p (Some res) = Some (Inr (plan4, up)) \<Longrightarrow> planned C ks p plan4"
proof -
  assume h: "handlePurchase mac v C RC1 ks conf now ids p (Some req1) = Inr plan1"
  show "planned C ks p plan1"
    by (rule handlePurchase_plan [OF h])
      (auto simp: planned_def spec_keys_ok_def installed_def install_def key_eqs player_Marshal_def)
next
  assume h: "handleClaimMail C RC2 ks conf now ids p (Some mid) = Inr plan2"
  show "planned C ks p plan2"
    by (rule handleClaimMail_plan [OF h])
      (auto simp: planned_def spec_keys_ok_def installed_def install_def key_eqs player_Marshal_def)
next
  assume h: "handleGMGrant C ack ks conf now ids op p (Some req3) = Inr plan3"
  show "planned C ks p plan3"
    by (rule handleGMGrant_plan [OF h])
      (auto simp: planned_def spec_keys_ok_def installed_def install_def key_eqs player_Marshal_def)
next
  assume h: "handleBattleSettle C RC4 ks conf now ids p (Some res) = Some (Inr (plan4, up))"
  show "planned C ks p plan4"
    by (rule handleBattleSettle_plan [OF h])
      (auto simp: planned_def spec_keys_ok_def installed_def install_def key_eqs player_Marshal_def)
qed

text \<open>C11: The requests that commit assets (purchase, mail claim, GM grant, battle reward) keep memory and
  Redis together: whenever the reply of the commit is not lost, a module that Redis held exactly as
  memory did before the request is held exactly as memory does after it, whether the request
  succeeded, was a repetition, was refused or failed.\<close>

theorem asset_commits_keep_memory_and_redis_in_step:
  assumes "redis_api R" "n \<noteq> ReplyLost" "in_step R C ks s p m"
  shows "(\<forall>plan p' s' a. handlePurchase mac v C RC1 ks conf now ids p (Some req1) = Inr plan
        \<and> run_plan R ks J o1 n again1 plan (p, s) = ((p', s'), a) \<longrightarrow> in_step R C ks s' p' m)
    \<and> (\<forall>plan p' s' a. handleClaimMail C RC2 ks conf now ids p (Some mid) = Inr plan \<and> int (length (cs_Entries (ap_spec plan))) \<le> DefaultMaxLen
        \<and> run_plan R ks J o1 n again2 plan (p, s) = ((p', s'), a) \<longrightarrow> in_step R C ks s' p' m)
    \<and> (\<forall>plan p' s' a. handleGMGrant C ack ks conf now ids op p (Some req3) = Inr plan \<and> int (length (cs_Entries (ap_spec plan))) \<le> DefaultMaxLen
        \<and> run_plan R ks J o1 n again3 plan (p, s) = ((p', s'), a) \<longrightarrow> in_step R C ks s' p' m)
    \<and> (\<forall>plan up p' s' a. handleBattleSettle C RC4 ks conf now ids p (Some res) = Some (Inr (plan, up))
        \<and> run_plan R ks J o1 n again4 plan (p, s) = ((p', s'), a) \<longrightarrow> in_step R C ks s' p' m)"
proof -
  note step = redis_api.run_plan_in_step [OF assms(1) _ _ _ assms(2,3)]
  have 1: "int (length (cs_Entries (ap_spec plan))) \<le> DefaultMaxLen"
    if "handlePurchase mac v C RC1 ks conf now ids p (Some req1) = Inr plan" for plan
    by (rule handlePurchase_plan [OF that]) (auto simp: DefaultMaxLen_def)
  have 4: "int (length (cs_Entries (ap_spec plan))) \<le> DefaultMaxLen"
    if "handleBattleSettle C RC4 ks conf now ids p (Some res) = Some (Inr (plan, up))" for plan up
    by (rule handleBattleSettle_plan [OF that]) (auto simp: DefaultMaxLen_def)
  show ?thesis
    by (intro conjI allI impI; elim conjE) (blast intro: step [OF planned_ok(1)] 1, blast intro: step [OF planned_ok(2)],
      blast intro: step [OF planned_ok(3)], blast intro: step [OF planned_ok(4)] 4)
qed

section \<open>Purchases\<close>

text \<open>A purchase is planned only for a configured product, over an allowed channel and with a receipt that
  verifies for this player, this order and the configured price; it then credits exactly the
  configured amount, enters it in the ledger with the balance it leads to, and touches nothing
  but the base module.\<close>

theorem purchase_credits_the_configured_amount:
  assumes "handlePurchase mac v C RC ks conf now ids p (Some req) = Inr plan"
  shows "\<exists>product p'. conf_Product conf (pq_Product req) = Some product \<and> AllowsChannel product (pq_Channel req)
    \<and> payment_Verify mac v (purchase_order p product req) = Inr ()
    \<and> purchase_done RC plan (Inr \<lparr>Duplicate = False, Payload = pay\<rparr>) p = (p', Inr (ap_resp plan))
    \<and> p' = p\<lparr>Base := Base p'\<rparr>
    \<and> (\<forall>c. player_Currency p' c = (if c = pr_Currency product then i64 (player_Currency p c + pr_Amount product) else player_Currency p c))
    \<and> (\<forall>c. in_i64 (player_Currency p c) \<longrightarrow>
         chain c (player_Currency p c) (cs_Entries (ap_spec plan)) = Some (player_Currency p' c))
    \<and> pp_Balance (ap_resp plan) = player_Currency p' (pr_Currency product)"
proof -
  obtain product blob where h: "conf_Product conf (pq_Product req) = Some product" "AllowsChannel product (pq_Channel req)"
    "payment_Verify mac v (purchase_order p product req) = Inr ()"
    "ap_base plan = Some (base_add (pr_Currency product) (pr_Amount product) (Base p))" "ap_bag plan = None" "ap_mail plan = None"
    "\<exists>e. cs_Entries (ap_spec plan) = [e] \<and> en_Currency e = pr_Currency product \<and> Amount e = pr_Amount product
       \<and> Balance e = base_currency (base_add (pr_Currency product) (pr_Amount product) (Base p)) (pr_Currency product)"
    "pp_Balance (ap_resp plan) = base_currency (base_add (pr_Currency product) (pr_Amount product) (Base p)) (pr_Currency product)"
    by (rule handlePurchase_plan [OF assms]) blast
  let ?p' = "p\<lparr>Base := base_add (pr_Currency product) (pr_Amount product) (Base p)\<rparr>"
  have cur: "player_Currency ?p' c = (if c = pr_Currency product then i64 (player_Currency p c + pr_Amount product) else player_Currency p c)" for c
    by (simp add: base_currency_player [symmetric])
  have "purchase_done RC plan (Inr \<lparr>Duplicate = False, Payload = pay\<rparr>) p = (?p', Inr (ap_resp plan))"
    using h by (simp add: purchase_done_def plan_done_def install_def)
  then show ?thesis using h cur by (intro exI [of _ product] exI [of _ ?p']) (auto simp: base_currency_player)
qed

definition pack :: Product where
  "pack = \<lparr>pr_ID = 2, pr_Currency = 1, pr_Amount = 60, pr_PriceCents = 600, pr_Channels = [''sandbox'']\<rparr>"

definition pack_req :: PurchaseReq where
  "pack_req = \<lparr>pq_OrderId = ''o1'', pq_Product = 2, pq_Channel = ''sandbox'', pq_Receipt = [], pq_Signature = []\<rparr>"

definition blank_purchase :: purchase_codec where
  "blank_purchase = \<lparr>enc_purchase = \<lambda>_. Some [], dec_purchase = \<lambda>_. None\<rparr>"

definition pack_config :: Config where
  "pack_config = (Default (\<lambda>_. None))\<lparr>c_Products := [(2, pack)]\<rparr>"

lemma pack_plan:
  "\<exists>plan. handlePurchase demo_mac (payment_New [] True) blank_codec blank_purchase lobby_keys pack_config 6 (\<lambda>_. Some 10) giver (Some pack_req) = Inr plan"
  by (simp add: handlePurchase_def pack_req_def conf_Product_def pack_config_def pack_def AllowsChannel_def payment_Verify_def payment_New_def
      purchase_order_def blank_codec_def Let_def)

theorem purchase_credits_the_configured_amount_witness:
  "\<exists>plan p'. purchase_done blank_purchase plan (Inr \<lparr>Duplicate = False, Payload = []\<rparr>) giver = (p', Inr (ap_resp plan))
     \<and> player_Currency p' 1 = 160"
proof -
  obtain plan where h: "handlePurchase demo_mac (payment_New [] True) blank_codec blank_purchase lobby_keys pack_config 6 (\<lambda>_. Some 10)
      giver (Some pack_req) = Inr plan" using pack_plan by blast
  have p: "conf_Product pack_config (pq_Product pack_req) = Some pack" by (simp add: conf_Product_def pack_config_def pack_req_def)
  have g: "player_Currency giver 1 = 100" by (simp add: giver_def player_Currency_def set_currency_def NewPlayer_def)
  show ?thesis using purchase_credits_the_configured_amount [OF h, of "[]"] p g by (fastforce simp: pack_def i64_def)
qed

theorem asset_commits_keep_memory_and_redis_in_step_witness:
  "\<exists>(plan :: PurchaseResp asset_plan) p' s' a. run_plan mem_redis lobby_keys demo_codec demo_shard Delivered (\<lambda>_ r. r) plan
      (giver, SET mem_redis mem_empty (keys_Player lobby_keys 7 ModBag) []) = ((p', s'), a)
     \<and> in_step mem_redis blank_codec lobby_keys s' p' ModBag"
proof -
  obtain plan where h: "handlePurchase demo_mac (payment_New [] True) blank_codec blank_purchase lobby_keys pack_config 6 (\<lambda>_. Some 10)
      giver (Some pack_req) = Inr plan" using pack_plan by blast
  let ?s = "SET mem_redis mem_empty (keys_Player lobby_keys 7 ModBag) []"
  obtain p' s' a where r: "run_plan mem_redis lobby_keys demo_codec demo_shard Delivered (\<lambda>_ r. r) plan (giver, ?s) = ((p', s'), a)"
    by (metis prod.exhaust)
  have "in_step mem_redis blank_codec lobby_keys ?s giver ModBag"
    using mem_server.get_set by (simp add: in_step_def player_Marshal_def blank_codec_def giver_def NewPlayer_def)
  then have "in_step mem_redis blank_codec lobby_keys s' p' ModBag"
    using asset_commits_keep_memory_and_redis_in_step [OF mem_server.redis_api_axioms, of Delivered blank_codec lobby_keys ?s giver ModBag,
        THEN conjunct1, rule_format, OF _ _ conjI [OF h r]] by simp
  then show ?thesis using r by blast
qed

section \<open>Levels\<close>

text \<open>With positive thresholds the level loop ends: the experience left is below the next threshold, and the
  levels gained account for what was spent.\<close>

theorem level_loop_ends:
  assumes "\<And>l. 0 < ExpToLevel conf l"
  shows "\<exists>ex' lv' up'. level_up conf ex lv up = Some (ex', lv', up') \<and> ex' < ExpToLevel conf lv' \<and> ex' \<le> ex
    \<and> (up' \<longleftrightarrow> up \<or> ex \<ge> ExpToLevel conf lv)"
proof (induction ex arbitrary: lv up rule: less_induct)
  case (less ex)
  show ?case
  proof (cases "ex \<ge> ExpToLevel conf lv")
    case True
    then have "ex - ExpToLevel conf lv < ex" using assms [of lv] by linarith
    from less.IH [OF this, of "u32 (lv + 1)" True] obtain ex' lv' up'
      where "level_up conf (ex - ExpToLevel conf lv) (u32 (lv + 1)) True = Some (ex', lv', up')" "ex' < ExpToLevel conf lv'"
        "ex' \<le> ex - ExpToLevel conf lv" "up'" by blast
    moreover have "level_up conf ex lv up = level_up conf (ex - ExpToLevel conf lv) (u32 (lv + 1)) True"
      using True by (subst level_up.simps) simp
    ultimately show ?thesis using True by (intro exI [of _ ex'] exI [of _ lv'] exI [of _ up']) simp
  next
    case False
    then show ?thesis by (subst level_up.simps) simp
  qed
qed

theorem level_loop_ends_witness:
  "\<exists>ex' lv' up'. level_up ((Default (\<lambda>_. None))\<lparr>c_LevelExp := [100]\<rparr>) 250 1 False = Some (ex', lv', up') \<and> ex' < 100"
proof -
  have "ExpToLevel ((Default (\<lambda>_. None))\<lparr>c_LevelExp := [100]\<rparr>) l = 100" for l by (cases l) (simp_all add: ExpToLevel_def)
  then show ?thesis using level_loop_ends [of "(Default (\<lambda>_. None))\<lparr>c_LevelExp := [100]\<rparr>" 250 1 False] by fastforce
qed

text \<open>Thresholds of zero make the loop run forever.\<close>

theorem zero_threshold_never_ends:
  assumes "\<And>l. ExpToLevel conf l = 0"
  shows "level_up conf ex lv up = None"
proof -
  have "\<not> (\<forall>l. ExpToLevel conf l = 0)" if "level_up conf ex lv up = Some r" for r
    by (rule level_up.raw_induct [where P = "\<lambda>c ex lv up r. \<not> (\<forall>l. ExpToLevel c l = 0)", OF _ that]) (auto split: if_splits, metis le0 le_less_trans not_le)
  then show ?thesis using assms by (cases "level_up conf ex lv up") auto
qed

end
