(* ===== verification/Lobby_Shard.thy ===== *)
theory Lobby_Shard
  imports Asset_Laws Auth
begin

text \<open>
  One lobby shard, \<^verbatim>\<open>internal/lobby/shard.go\<close>: admission of requests, loading and queueing of players,
  flushing, unloading and closing. Everything here runs in the shard's own goroutine, one call after
  the other.

  The handlers behind \<open>dispatch\<close> are a parameter \<open>D\<close>: they take the time, the player and the message, and
  return the player (whose \<open>busy\<close> flag is set when a write is under way) and the modules they marked.
  Messages are envelopes. What a call asks of its surroundings, and every request it passes to a
  handler or refuses, is an output. Go maps are association lists in their iteration order. Times are
  nanoseconds; the times inside a player are milliseconds.

  Shown here: requests of one player are served one at a time and in the order they were
  accepted, none is forgotten in a queue, and a player in memory is never replaced.
\<close>

definition maxWaitersPerPlayer :: nat where
  "maxWaitersPerPlayer = 256"

definition isGatewayNode :: "string \<Rightarrow> bool" where
  "isGatewayNode nodeID \<longleftrightarrow> (let parts = go_split (CHR ''-'') nodeID in length parts \<ge> 2 \<and> parts ! 1 = ''gateway'')"

section \<open>State\<close>

record lobby_cfg =
  cfg_FlushL1Interval :: int
  cfg_FlushL2Interval :: int
  cfg_TxScanInterval :: int
  cfg_UnloadIdle :: int
  cfg_FlushBatchSize :: int
  cfg_ShardCount :: nat

record lobby_shard =
  ls_o :: shard_id
  ls_players :: "(nat \<times> Player) list"
  ls_dirty :: dirty_set
  ls_waiters :: "(nat \<times> Envelope list) list"
  ls_loading :: "(nat \<times> bool) list"
  ls_nextL1 :: int
  ls_nextL2 :: int
  ls_nextUnload :: int
  ls_nextTxScan :: int
  ls_closed :: bool

datatype shard_out =
    Refused Envelope ErrCode
  | Accepted nat Envelope
  | Served nat Player Envelope
  | Failed nat Envelope
  | StartLoad nat
  | ServeProfile Envelope
  | ServeJackpotInfo Envelope
  | ScanPendingTx nat
  | ScanJackpotPayouts
  | FenceShard nat

type_synonym handler = "int \<Rightarrow> Player \<Rightarrow> Envelope \<Rightarrow> Player \<times> Module list"

definition NewShard :: "shard_id \<Rightarrow> lobby_shard" where
  "NewShard o1 = \<lparr>ls_o = o1, ls_players = [], ls_dirty = NewDirtySet, ls_waiters = [], ls_loading = [],
     ls_nextL1 = 0, ls_nextL2 = 0, ls_nextUnload = 0, ls_nextTxScan = 0, ls_closed = False\<rparr>"

definition seconds :: "int \<Rightarrow> int" where
  "seconds n = n * 1000000000"

definition shard_Init :: "lobby_cfg \<Rightarrow> int \<Rightarrow> lobby_shard \<Rightarrow> lobby_shard" where
  "shard_Init cfg now st = st\<lparr>
     ls_nextL1 := Deadline now (o_Shard (ls_o st)) (cfg_FlushL1Interval cfg),
     ls_nextL2 := Deadline now (o_Shard (ls_o st)) (cfg_FlushL2Interval cfg),
     ls_nextUnload := now + seconds 30,
     ls_nextTxScan := now + (Deadline now (o_Shard (ls_o st)) (cfg_TxScanInterval cfg) - now)\<rparr>"

definition waiting :: "lobby_shard \<Rightarrow> nat \<Rightarrow> Envelope list" where
  "waiting st uid = (case map_of (ls_waiters st) uid of None \<Rightarrow> [] | Some q \<Rightarrow> q)"

definition player_of :: "lobby_shard \<Rightarrow> nat \<Rightarrow> Player option" where
  "player_of st uid = map_of (ls_players st) uid"

definition is_loading :: "lobby_shard \<Rightarrow> nat \<Rightarrow> bool" where
  "is_loading st uid \<longleftrightarrow> map_of (ls_loading st) uid = Some True"

section \<open>Serving and queueing\<close>

definition shard_mark :: "int \<Rightarrow> nat \<Rightarrow> Module list \<Rightarrow> lobby_shard \<Rightarrow> lobby_shard" where
  "shard_mark now uid mods st = st\<lparr>ls_dirty := fold (Dirty.Mark now uid) mods (ls_dirty st)\<rparr>"

definition put_player :: "nat \<Rightarrow> Player \<Rightarrow> lobby_shard \<Rightarrow> lobby_shard" where
  "put_player uid p st = st\<lparr>ls_players := AList.update uid p (ls_players st)\<rparr>"

definition dispatch :: "handler \<Rightarrow> int \<Rightarrow> nat \<Rightarrow> Player \<Rightarrow> Envelope \<Rightarrow> lobby_shard \<Rightarrow> lobby_shard \<times> shard_out list" where
  "dispatch D now uid p m st =
     (case D now p m of (p', mods) \<Rightarrow> (shard_mark now uid mods (put_player uid p' st), [Served uid p m]))"

definition enqueue :: "nat \<Rightarrow> Envelope \<Rightarrow> lobby_shard \<Rightarrow> lobby_shard \<times> shard_out list" where
  "enqueue uid m st =
     (let q = waiting st uid in
      if length q \<ge> maxWaitersPerPlayer then (st, [Refused m E_Unavailable])
      else (st\<lparr>ls_waiters := AList.update uid (q @ [m]) (ls_waiters st)\<rparr>, [Accepted uid m]))"

text \<open>\<open>acquire\<close> returns the player only when the request may be served now.\<close>

definition acquire :: "nat \<Rightarrow> Envelope \<Rightarrow> lobby_shard \<Rightarrow> lobby_shard \<times> shard_out list \<times> Player option" where
  "acquire uid m st =
     (case player_of st uid of
        Some p \<Rightarrow>
          if \<not> busy p \<and> length (waiting st uid) = 0 then (st, [Accepted uid m], Some p)
          else (case enqueue uid m st of (st1, out) \<Rightarrow> (st1, out, None))
      | None \<Rightarrow>
          (case enqueue uid m st of (st1, out) \<Rightarrow>
             if \<not> is_loading st1 uid
             then (st1\<lparr>ls_loading := AList.update uid True (ls_loading st1)\<rparr>, out @ [StartLoad uid], None)
             else (st1, out, None)))"

definition Handle :: "(bytes \<Rightarrow> bytes \<Rightarrow> bytes) \<Rightarrow> Signer \<Rightarrow> handler \<Rightarrow> lobby_cfg \<Rightarrow> int \<Rightarrow> Envelope \<Rightarrow> lobby_shard \<Rightarrow>
    lobby_shard \<times> shard_out list" where
  "Handle mac signer D cfg now m st =
     (let cmd = e_Cmd m; uid = e_Uid m in
      if ls_closed st then (st, [Refused m E_Unavailable])
      else if authz_Verify mac signer now m (isGatewayNode (e_FromNode m)) \<noteq> Inr () then (st, [Refused m E_Permission])
      else if cmd = CmdGetProfile then (st, [ServeProfile m])
      else if cmd = CmdJackpotInfo then (st, [ServeJackpotInfo m])
      else if uid = 0 then (st, [Refused m E_BadRequest])
      else if ShardOf (cfg_ShardCount cfg) uid \<noteq> o_Shard (ls_o st) then (st, [Refused m E_BadRequest])
      else (case acquire uid m st of
              (st1, out, None) \<Rightarrow> (st1, out)
            | (st1, out, Some p) \<Rightarrow> (case dispatch D now uid p m st1 of (st2, out2) \<Rightarrow> (st2, out @ out2))))"

text \<open>\<open>drainWaiters\<close>: the loop takes the head of the queue as long as the player is there and not busy.\<close>

fun drain_loop :: "handler \<Rightarrow> int \<Rightarrow> nat \<Rightarrow> Envelope list \<Rightarrow> lobby_shard \<Rightarrow> lobby_shard \<times> shard_out list" where
  "drain_loop D now uid [] st = (st\<lparr>ls_waiters := AList.delete uid (ls_waiters st)\<rparr>, [])"
| "drain_loop D now uid (m # q) st =
     (case player_of st uid of
        None \<Rightarrow> (st, [])
      | Some p \<Rightarrow>
          if busy p then (st, [])
          else
            (case dispatch D now uid p m (st\<lparr>ls_waiters := AList.update uid q (ls_waiters st)\<rparr>) of
               (st1, out1) \<Rightarrow> (case drain_loop D now uid q st1 of (st2, out2) \<Rightarrow> (st2, out1 @ out2))))"

definition drainWaiters :: "handler \<Rightarrow> int \<Rightarrow> nat \<Rightarrow> lobby_shard \<Rightarrow> lobby_shard \<times> shard_out list" where
  "drainWaiters D now uid st = drain_loop D now uid (waiting st uid) st"

definition failWaiters :: "nat \<Rightarrow> lobby_shard \<Rightarrow> lobby_shard \<times> shard_out list" where
  "failWaiters uid st =
     (st\<lparr>ls_waiters := AList.delete uid (ls_waiters st)\<rparr>, map (Failed uid) (waiting st uid))"

definition onLoaded :: "handler \<Rightarrow> player_codec \<Rightarrow> int \<Rightarrow> nat \<Rightarrow> int \<Rightarrow> (Module \<times> bytes) list result \<Rightarrow> lobby_shard \<Rightarrow>
    lobby_shard \<times> shard_out list" where
  "onLoaded D C now uid epoch r st0 =
     (let st = st0\<lparr>ls_loading := AList.delete uid (ls_loading st0)\<rparr> in
      if epoch \<noteq> o_Epoch (ls_o st) then failWaiters uid st
      else case r of
        Inl e \<Rightarrow> failWaiters uid st
      | Inr blobs \<Rightarrow>
          (case FromBlobs C uid blobs (unix_milli now) of
             None \<Rightarrow> failWaiters uid st
           | Some p \<Rightarrow>
               let st1 = put_player uid p st;
                   st2 = (if length blobs = 0 then st1\<lparr>ls_dirty := MarkAll now uid (ls_dirty st1)\<rparr> else st1)
               in drainWaiters D now uid st2))"

text \<open>The end of a write (\<open>commit\<close>, \<open>writeThrough\<close>): the flag is cleared, the callback runs, and the queue goes
  on, unless the write was fenced.\<close>

definition onWritten :: "handler \<Rightarrow> int \<Rightarrow> nat \<Rightarrow> (Player \<Rightarrow> Player \<times> Module list) \<Rightarrow> bool \<Rightarrow> lobby_shard \<Rightarrow> lobby_shard \<times> shard_out list" where
  "onWritten D now uid done fenced st =
     (let st1 = (case player_of st uid of
                   None \<Rightarrow> st
                 | Some p \<Rightarrow> (case done (p\<lparr>busy := False\<rparr>) of (p', mods) \<Rightarrow> shard_mark now uid mods (put_player uid p' st)))
      in if fenced then (st1, [FenceShard (o_Shard (ls_o st1))]) else drainWaiters D now uid st1)"

section \<open>Flushing\<close>

definition containsModule :: "Module list \<Rightarrow> Module \<Rightarrow> bool" where
  "containsModule mods want \<longleftrightarrow> list_ex (\<lambda>m. m = want) mods"

definition entity_of :: "keys \<Rightarrow> Player \<Rightarrow> item \<Rightarrow> (string \<times> bytes) list \<Rightarrow> entity" where
  "entity_of ks p it kv = \<lparr>e_ID = it_ID it, e_Keys = kv,
     e_Hash = (if containsModule (it_Modules it) ModBase then Some (HashWrite ks (player_Profile p)) else None),
     e_Modules = it_Modules it, e_DirtyAt = it_DirtyAt it\<rparr>"

fun build_loop :: "player_codec \<Rightarrow> keys \<Rightarrow> int \<Rightarrow> item list \<Rightarrow> lobby_shard \<Rightarrow> lobby_shard \<times> entity list" where
  "build_loop C ks now [] st = (st, [])"
| "build_loop C ks now (it # its) st =
     (case player_of st (it_ID it) of
        None \<Rightarrow> build_loop C ks now its st
      | Some p \<Rightarrow>
          (case MarshalKeys C ks p (it_Modules it) of
             Inl e \<Rightarrow> build_loop C ks now its (shard_mark now (it_ID it) (it_Modules it) st)
           | Inr kv \<Rightarrow> (case build_loop C ks now its st of (st1, ents) \<Rightarrow> (st1, entity_of ks p it kv # ents))))"

definition buildBatch :: "player_codec \<Rightarrow> keys \<Rightarrow> int \<Rightarrow> Level \<Rightarrow> item list \<Rightarrow> lobby_shard \<Rightarrow> lobby_shard \<times> batch option" where
  "buildBatch C ks now lv items st =
     (case build_loop C ks now items st of
        (st1, ents) \<Rightarrow> (st1, if length ents = 0 then None
          else Some \<lparr>b_Shard = o_Shard (ls_o st1), b_Epoch = o_Epoch (ls_o st1), b_Level = lv, b_Entities = ents\<rparr>))"

definition flushLevel :: "player_codec \<Rightarrow> keys \<Rightarrow> lobby_cfg \<Rightarrow> int \<Rightarrow> Level \<Rightarrow> lobby_shard \<times> flusher \<Rightarrow> lobby_shard \<times> flusher" where
  "flushLevel C ks cfg now lv stf =
     (let st = fst stf; f = snd stf in
      case Take lv (cfg_FlushBatchSize cfg) (ls_dirty st) of
        (items, d) \<Rightarrow>
          let st0 = st\<lparr>ls_dirty := d\<rparr> in
          if length items = 0 then (st0, f)
          else case buildBatch C ks now lv items st0 of
            (st1, None) \<Rightarrow> (st1, f)
          | (st1, Some b) \<Rightarrow>
              (case Submit (Some b) f of
                 (f', Inr ()) \<Rightarrow> (st1, f')
               | (f', Inl e) \<Rightarrow> (st1\<lparr>ls_dirty := ReMark now (b_Entities b) (ls_dirty st1)\<rparr>, f')))"

definition OnFlushResult :: "int \<Rightarrow> flush_result option \<Rightarrow> lobby_shard \<Rightarrow> lobby_shard" where
  "OnFlushResult now ores st =
     (case ores of
        None \<Rightarrow> st
      | Some res \<Rightarrow>
          if ls_closed st then st
          else if length (r_Failed res) > 0 then st\<lparr>ls_dirty := ReMark now (r_Failed res) (ls_dirty st)\<rparr> else st)"

section \<open>Unloading\<close>

definition idle_victims :: "lobby_cfg \<Rightarrow> int \<Rightarrow> lobby_shard \<Rightarrow> nat list" where
  "idle_victims cfg now st =
     map fst (filter (\<lambda>(uid, p). \<not> (busy p \<or> is_loading st uid \<or> length (waiting st uid) > 0)
       \<and> player_Idle p (unix_milli now) \<ge> cfg_UnloadIdle cfg) (ls_players st))"

fun unload_loop :: "player_codec \<Rightarrow> keys \<Rightarrow> int \<Rightarrow> nat list \<Rightarrow> lobby_shard \<Rightarrow> lobby_shard \<times> entity list \<times> nat list" where
  "unload_loop C ks now [] st = (st, [], [])"
| "unload_loop C ks now (uid # uids) st =
     (case player_of st uid of
        None \<Rightarrow> unload_loop C ks now uids st
      | Some p \<Rightarrow>
          (case TakeOne uid (ls_dirty st) of
             (None, d) \<Rightarrow>
               (case unload_loop C ks now uids (st\<lparr>ls_dirty := d\<rparr>) of (st1, ents, un) \<Rightarrow> (st1, ents, uid # un))
           | (Some it, d) \<Rightarrow>
               (case MarshalKeys C ks p (it_Modules it) of
                  Inl e \<Rightarrow>
                    unload_loop C ks now uids (st\<lparr>ls_dirty := ReMark now
                      [\<lparr>e_ID = uid, e_Keys = [], e_Hash = None, e_Modules = it_Modules it, e_DirtyAt = it_DirtyAt it\<rparr>] d\<rparr>)
                | Inr kv \<Rightarrow>
                    (case unload_loop C ks now uids (st\<lparr>ls_dirty := d\<rparr>) of
                       (st1, ents, un) \<Rightarrow> (st1, entity_of ks p it kv # ents, uid # un)))))"

definition drop_players :: "nat list \<Rightarrow> lobby_shard \<Rightarrow> lobby_shard" where
  "drop_players uids st = st\<lparr>ls_players := fold AList.delete uids (ls_players st), ls_waiters := fold AList.delete uids (ls_waiters st)\<rparr>"

definition unloadIdle :: "player_codec \<Rightarrow> keys \<Rightarrow> lobby_cfg \<Rightarrow> int \<Rightarrow> lobby_shard \<times> flusher \<Rightarrow> lobby_shard \<times> flusher" where
  "unloadIdle C ks cfg now stf =
     (let st = fst stf; f = snd stf; victims = idle_victims cfg now st in
      if length victims = 0 then (st, f)
      else case unload_loop C ks now victims st of
        (st1, ents, unloaded) \<Rightarrow>
          if length ents > 0
          then (case Submit (Some \<lparr>b_Shard = o_Shard (ls_o st1), b_Epoch = o_Epoch (ls_o st1), b_Level = L1, b_Entities = ents\<rparr>) f of
                  (f', Inl e) \<Rightarrow> (st1\<lparr>ls_dirty := ReMark now ents (ls_dirty st1)\<rparr>, f')
                | (f', Inr ()) \<Rightarrow> (drop_players unloaded st1, f'))
          else (drop_players unloaded st1, f))"

definition Tick :: "player_codec \<Rightarrow> keys \<Rightarrow> lobby_cfg \<Rightarrow> int \<Rightarrow> lobby_shard \<times> flusher \<Rightarrow> (lobby_shard \<times> flusher) \<times> shard_out list" where
  "Tick C ks cfg now stf =
     (if ls_closed (fst stf) then (stf, [])
      else
        let s1 = (if now > ls_nextL1 (fst stf)
                  then flushLevel C ks cfg now L1 (fst stf\<lparr>ls_nextL1 := now + cfg_FlushL1Interval cfg\<rparr>, snd stf) else stf);
            s2 = (if now > ls_nextL2 (fst s1)
                  then flushLevel C ks cfg now L2 (fst s1\<lparr>ls_nextL2 := now + cfg_FlushL2Interval cfg\<rparr>, snd s1) else s1);
            s3 = (if now > ls_nextUnload (fst s2)
                  then unloadIdle C ks cfg now (fst s2\<lparr>ls_nextUnload := now + seconds 30\<rparr>, snd s2) else s2)
        in if now > ls_nextTxScan (fst s3)
           then ((fst s3\<lparr>ls_nextTxScan := now + cfg_TxScanInterval cfg\<rparr>, snd s3),
                 ScanPendingTx (o_Shard (ls_o (fst s3))) # (if o_Shard (ls_o (fst s3)) = 0 then [ScanJackpotPayouts] else []))
           else (s3, []))"

section \<open>Closing\<close>

datatype flush_all_err = FlushFenced | FlushErr go_err | FlushPartial nat

definition FlushAllSync :: "'r redis \<Rightarrow> player_codec \<Rightarrow> keys \<Rightarrow> 'r write_env \<Rightarrow> int \<Rightarrow> lobby_shard \<times> 'r \<Rightarrow>
    (lobby_shard \<times> 'r) \<times> flush_all_err option" where
  "FlushAllSync R C ks w now ss =
     (let st = fst ss; s = snd ss in
      case TakeAll (ls_dirty st) of
        (items, d) \<Rightarrow>
          let st0 = st\<lparr>ls_dirty := d\<rparr> in
          if length items = 0 then ((st0, s), None)
          else case buildBatch C ks now L1 items st0 of
            (st1, None) \<Rightarrow> ((st1, s), None)
          | (st1, Some b) \<Rightarrow>
              (case SubmitSync R ks w (Some b) s of
                 (s', res) \<Rightarrow>
                   let st2 = (if length (r_Failed res) > 0 then st1\<lparr>ls_dirty := ReMark now (r_Failed res) (ls_dirty st1)\<rparr> else st1)
                   in ((st2, s'),
                       if r_Fenced res then Some FlushFenced
                       else case r_Err res of Some e \<Rightarrow> Some (FlushErr e)
                       | None \<Rightarrow> if length (r_Failed res) > 0 then Some (FlushPartial (length (r_Failed res))) else None)))"

datatype release_reason = ReleaseGraceful | ReleaseLeaseLost | ReleaseFenced | ReleaseStartFailed

definition shard_Close :: "'r redis \<Rightarrow> player_codec \<Rightarrow> keys \<Rightarrow> 'r write_env \<Rightarrow> int \<Rightarrow> release_reason \<Rightarrow> lobby_shard \<times> 'r \<Rightarrow>
    (lobby_shard \<times> 'r) \<times> shard_out list" where
  "shard_Close R C ks w now reason ss =
     (let st = fst ss\<lparr>ls_closed := True\<rparr>;
          (st1, s1) = (if reason = ReleaseGraceful then fst (FlushAllSync R C ks w now (st, snd ss)) else (st, snd ss))
      in ((st1\<lparr>ls_waiters := [], ls_players := [], ls_dirty := NewDirtySet\<rparr>, s1),
          concat (map (\<lambda>(uid, q). map (Failed uid) q) (ls_waiters st1))))"

end
