(* ===== verification/Shard_Order.thy ===== *)
theory Shard_Order
  imports Lobby_Shard
begin

text \<open>
  The order of requests in a lobby shard. A run is a sequence of the events the shard's goroutine
  handles; every event's outputs tell which requests were accepted, served and failed.
\<close>

section \<open>Runs\<close>

datatype shard_event =
    Arrive int Envelope
  | LoadDone int nat int "(Module \<times> bytes) list result"
  | WriteDone int nat "Player \<Rightarrow> Player \<times> Module list" bool
  | TickAt int
  | FlushDone int "flush_result option"

record shard_env =
  se_mac :: "bytes \<Rightarrow> bytes \<Rightarrow> bytes"
  se_signer :: Signer
  se_D :: handler
  se_C :: player_codec
  se_ks :: keys
  se_cfg :: lobby_cfg

definition shard_step :: "shard_env \<Rightarrow> shard_event \<Rightarrow> lobby_shard \<times> flusher \<Rightarrow> (lobby_shard \<times> flusher) \<times> shard_out list" where
  "shard_step E ev stf =
     (case ev of
        Arrive now m \<Rightarrow> (case Handle (se_mac E) (se_signer E) (se_D E) (se_cfg E) now m (fst stf) of (st, out) \<Rightarrow> ((st, snd stf), out))
      | LoadDone now uid epoch r \<Rightarrow> (case onLoaded (se_D E) (se_C E) now uid epoch r (fst stf) of (st, out) \<Rightarrow> ((st, snd stf), out))
      | WriteDone now uid done fenced \<Rightarrow> (case onWritten (se_D E) now uid done fenced (fst stf) of (st, out) \<Rightarrow> ((st, snd stf), out))
      | TickAt now \<Rightarrow> Tick (se_C E) (se_ks E) (se_cfg E) now stf
      | FlushDone now r \<Rightarrow> ((OnFlushResult now r (fst stf), snd stf), []))"

fun shard_run :: "shard_env \<Rightarrow> shard_event list \<Rightarrow> lobby_shard \<times> flusher \<Rightarrow> (lobby_shard \<times> flusher) \<times> shard_out list" where
  "shard_run E [] stf = (stf, [])"
| "shard_run E (ev # evs) stf =
     (case shard_step E ev stf of (stf1, out1) \<Rightarrow> (case shard_run E evs stf1 of (stf2, out2) \<Rightarrow> (stf2, out1 @ out2)))"

definition accepted :: "nat \<Rightarrow> shard_out list \<Rightarrow> Envelope list" where
  "accepted uid outs = List.map_filter (\<lambda>x. case x of Accepted u m \<Rightarrow> if u = uid then Some m else None | _ \<Rightarrow> None) outs"

definition settled :: "nat \<Rightarrow> shard_out list \<Rightarrow> Envelope list" where
  "settled uid outs = List.map_filter (\<lambda>x. case x of Served u p m \<Rightarrow> if u = uid then Some m else None
     | Failed u m \<Rightarrow> if u = uid then Some m else None | _ \<Rightarrow> None) outs"

lemma accepted_simps [simp]:
  "accepted uid [] = []" "accepted uid (a @ b) = accepted uid a @ accepted uid b"
  "accepted uid (Accepted u m # xs) = (if u = uid then [m] else []) @ accepted uid xs"
  "accepted uid (Served u p m # xs) = accepted uid xs" "accepted uid (Refused m c # xs) = accepted uid xs"
  "accepted uid (StartLoad u # xs) = accepted uid xs" "accepted uid (ServeProfile m # xs) = accepted uid xs"
  "accepted uid (ServeJackpotInfo m # xs) = accepted uid xs" "accepted uid (ScanPendingTx u # xs) = accepted uid xs"
  "accepted uid (ScanJackpotPayouts # xs) = accepted uid xs" "accepted uid (FenceShard u # xs) = accepted uid xs"
  "accepted uid (map (Failed u) qs) = []"
  by (simp_all add: accepted_def List.map_filter_def)

lemma settled_simps [simp]:
  "settled uid [] = []" "settled uid (a @ b) = settled uid a @ settled uid b"
  "settled uid (Accepted u m # xs) = settled uid xs"
  "settled uid (Served u p m # xs) = (if u = uid then [m] else []) @ settled uid xs" "settled uid (Refused m c # xs) = settled uid xs"
  "settled uid (StartLoad u # xs) = settled uid xs" "settled uid (ServeProfile m # xs) = settled uid xs"
  "settled uid (ServeJackpotInfo m # xs) = settled uid xs" "settled uid (ScanPendingTx u # xs) = settled uid xs"
  "settled uid (ScanJackpotPayouts # xs) = settled uid xs" "settled uid (FenceShard u # xs) = settled uid xs"
  "settled uid (map (Failed u) qs) = (if u = uid then qs else [])"
  by (simp_all add: settled_def List.map_filter_def comp_def)

section \<open>Queues and players\<close>

lemma waiting_simps [simp]:
  "waiting (st\<lparr>ls_waiters := AList.update uid q (ls_waiters st)\<rparr>) u = (if u = uid then q else waiting st u)"
  "waiting (st\<lparr>ls_waiters := AList.delete uid (ls_waiters st)\<rparr>) u = (if u = uid then [] else waiting st u)"
  "waiting (st\<lparr>ls_loading := l\<rparr>) u = waiting st u" "waiting (st\<lparr>ls_dirty := d\<rparr>) u = waiting st u"
  "waiting (st\<lparr>ls_nextL1 := t\<rparr>) u = waiting st u" "waiting (st\<lparr>ls_nextL2 := t\<rparr>) u = waiting st u"
  "waiting (st\<lparr>ls_nextUnload := t\<rparr>) u = waiting st u" "waiting (st\<lparr>ls_nextTxScan := t\<rparr>) u = waiting st u"
  "waiting (put_player uid p st) u = waiting st u" "waiting (shard_mark now uid mods st) u = waiting st u"
  by (simp_all add: waiting_def update_conv' delete_conv' put_player_def shard_mark_def)

lemma player_of_simps [simp]:
  "player_of (put_player uid p st) u = (if u = uid then Some p else player_of st u)"
  "player_of (shard_mark now uid mods st) u = player_of st u" "player_of (st\<lparr>ls_waiters := w\<rparr>) u = player_of st u"
  "player_of (st\<lparr>ls_loading := l\<rparr>) u = player_of st u" "player_of (st\<lparr>ls_dirty := d\<rparr>) u = player_of st u"
  "player_of (st\<lparr>ls_nextL1 := t\<rparr>) u = player_of st u" "player_of (st\<lparr>ls_nextL2 := t\<rparr>) u = player_of st u"
  "player_of (st\<lparr>ls_nextUnload := t\<rparr>) u = player_of st u" "player_of (st\<lparr>ls_nextTxScan := t\<rparr>) u = player_of st u"
  by (simp_all add: player_of_def put_player_def shard_mark_def update_conv')

lemma is_loading_simps [simp]:
  "is_loading (put_player uid p st) u = is_loading st u" "is_loading (shard_mark now uid mods st) u = is_loading st u"
  "is_loading (st\<lparr>ls_waiters := w\<rparr>) u = is_loading st u" "is_loading (st\<lparr>ls_dirty := d\<rparr>) u = is_loading st u"
  "is_loading (st\<lparr>ls_loading := AList.update uid b (ls_loading st)\<rparr>) u = (if u = uid then b else is_loading st u)"
  "is_loading (st\<lparr>ls_loading := AList.delete uid (ls_loading st)\<rparr>) u = (u \<noteq> uid \<and> is_loading st u)"
  "is_loading (st\<lparr>ls_nextL1 := t\<rparr>) u = is_loading st u" "is_loading (st\<lparr>ls_nextL2 := t\<rparr>) u = is_loading st u"
  "is_loading (st\<lparr>ls_nextUnload := t\<rparr>) u = is_loading st u" "is_loading (st\<lparr>ls_nextTxScan := t\<rparr>) u = is_loading st u"
  by (simp_all add: is_loading_def put_player_def shard_mark_def update_conv' delete_conv')

section \<open>Order\<close>

text \<open>Every part of an event keeps the balance between what was waiting, accepted and settled.\<close>

definition balanced :: "lobby_shard \<Rightarrow> lobby_shard \<Rightarrow> shard_out list \<Rightarrow> bool" where
  "balanced st st' out \<longleftrightarrow> (\<forall>uid. waiting st uid @ accepted uid out = settled uid out @ waiting st' uid)"

definition calm :: "shard_out list \<Rightarrow> bool" where
  "calm out \<longleftrightarrow> (\<forall>uid p m. Served uid p m \<in> set out \<longrightarrow> \<not> busy p)"

lemma calm_simps [simp]:
  "calm []" "calm (a @ b) \<longleftrightarrow> calm a \<and> calm b" "calm (Served u p m # xs) \<longleftrightarrow> \<not> busy p \<and> calm xs"
  "calm (Accepted u m # xs) = calm xs" "calm (Refused m c # xs) = calm xs" "calm (StartLoad u # xs) = calm xs"
  "calm (ServeProfile m # xs) = calm xs" "calm (ServeJackpotInfo m # xs) = calm xs" "calm (ScanPendingTx u # xs) = calm xs"
  "calm (ScanJackpotPayouts # xs) = calm xs" "calm (FenceShard u # xs) = calm xs" "calm (map (Failed u) qs)"
  unfolding calm_def by (simp_all, blast+)

lemma dispatch_eq:
  "dispatch D now uid p m st = (shard_mark now uid (snd (D now p m)) (put_player uid (fst (D now p m)) st), [Served uid p m])"
  by (simp add: dispatch_def split: prod.splits)

lemma drain_loop_order:
  assumes "waiting st uid = q"
  shows "balanced st (fst (drain_loop D now uid q st)) (snd (drain_loop D now uid q st)) \<and> calm (snd (drain_loop D now uid q st))"
  using assms
proof (induction q arbitrary: st)
  case Nil
  then show ?case by (simp add: balanced_def)
next
  case (Cons m q)
  show ?case
  proof (cases "\<exists>p. player_of st uid = Some p \<and> \<not> busy p")
    case True
    then obtain p where p: "player_of st uid = Some p" "\<not> busy p" by blast
    define st1 where "st1 = fst (dispatch D now uid p m (st\<lparr>ls_waiters := AList.update uid q (ls_waiters st)\<rparr>))"
    have w: "waiting st1 u = (if u = uid then q else waiting st u)" for u by (simp add: st1_def dispatch_eq)
    obtain st2 out2 where r: "drain_loop D now uid q st1 = (st2, out2)" by fastforce
    have ih: "balanced st1 st2 out2 \<and> calm out2" using Cons.IH [of st1] w r by simp
    have e: "drain_loop D now uid (m # q) st = (st2, Served uid p m # out2)"
      using p r by (simp add: dispatch_eq st1_def)
    have "waiting st u @ accepted u (Served uid p m # out2) = settled u (Served uid p m # out2) @ waiting st2 u" for u
      using ih w [of u] Cons.prems by (cases "u = uid") (auto simp: balanced_def dest: spec [of _ u])
    then show ?thesis unfolding e using ih p(2) by (simp add: balanced_def)
  next
    case False
    then have "drain_loop D now uid (m # q) st = (st, [])" by (auto split: option.splits)
    then show ?thesis by (simp add: balanced_def)
  qed
qed

lemma drainWaiters_order: "drainWaiters D now uid st = (st', out) \<Longrightarrow> balanced st st' out \<and> calm out"
  using drain_loop_order [of st uid "waiting st uid" D now] by (simp add: drainWaiters_def)

lemma balanced_cong: "(\<And>u. waiting st u = waiting st1 u) \<Longrightarrow> balanced st1 st' out \<Longrightarrow> balanced st st' out"
  by (simp add: balanced_def)

lemma failWaiters_order: "failWaiters uid st = (st', out) \<Longrightarrow> balanced st st' out \<and> calm out"
  by (auto simp: failWaiters_def balanced_def)

lemma enqueue_order: "enqueue uid m st = (st', out) \<Longrightarrow> balanced st st' out \<and> calm out"
  by (auto simp: enqueue_def balanced_def Let_def split: if_splits)

lemma Handle_order: "Handle mac sg D cfg now m st = (st', out) \<Longrightarrow> balanced st st' out \<and> calm out"
proof -
  assume h: "Handle mac sg D cfg now m st = (st', out)"
  obtain st1 out1 op where a: "acquire (e_Uid m) m st = (st1, out1, op)" by (metis prod_cases3)
  have "op = None \<Longrightarrow> balanced st st1 out1 \<and> calm out1" using a enqueue_order [of "e_Uid m" m st]
    by (auto simp: acquire_def balanced_def split: option.splits prod.splits if_splits)
  moreover have "op = Some p \<Longrightarrow> st1 = st \<and> out1 = [Accepted (e_Uid m) m] \<and> waiting st (e_Uid m) = [] \<and> \<not> busy p" for p using a
    by (auto simp: acquire_def split: option.splits prod.splits if_splits)
  ultimately show ?thesis using h a unfolding Handle_def Let_def
    by (cases op) (auto simp: balanced_def dispatch_eq split: if_splits)
qed

lemma onLoaded_order: "onLoaded D C now uid epoch r st = (st', out) \<Longrightarrow> balanced st st' out \<and> calm out"
  by (auto simp: onLoaded_def Let_def split: if_splits sum.splits option.splits
      dest!: failWaiters_order drainWaiters_order elim!: balanced_cong [rotated])

lemma onWritten_order: "onWritten D now uid done fenced st = (st', out) \<Longrightarrow> balanced st st' out \<and> calm out"
proof -
  assume h: "onWritten D now uid done fenced st = (st', out)"
  define st1 where "st1 = (case player_of st uid of None \<Rightarrow> st
      | Some p \<Rightarrow> (case done (p\<lparr>busy := False\<rparr>) of (p', mods) \<Rightarrow> shard_mark now uid mods (put_player uid p' st)))"
  have w: "waiting st u = waiting st1 u" for u by (simp add: st1_def split: option.splits prod.splits)
  have h1: "(if fenced then (st1, [FenceShard (o_Shard (ls_o st1))]) else drainWaiters D now uid st1) = (st', out)"
    using h unfolding onWritten_def Let_def st1_def by assumption
  show ?thesis
  proof (cases fenced)
    case True
    then show ?thesis using h1 w by (auto simp: balanced_def)
  next
    case False
    then have "balanced st1 st' out \<and> calm out" using h1 drainWaiters_order [of D now uid st1] by simp
    then show ?thesis using w balanced_cong by blast
  qed
qed

text \<open>Flushing and unloading leave the queues alone: only players nobody waits for are unloaded.\<close>

definition same_queues :: "lobby_shard \<Rightarrow> lobby_shard \<Rightarrow> bool" where
  "same_queues st st' \<longleftrightarrow> ls_waiters st' = ls_waiters st \<and> ls_players st' = ls_players st \<and> ls_loading st' = ls_loading st \<and> ls_o st' = ls_o st"

lemma same_queues_simps [simp]:
  "same_queues st st" "same_queues st (st'\<lparr>ls_dirty := d\<rparr>) = same_queues st st'" "same_queues (st\<lparr>ls_dirty := d\<rparr>) st' = same_queues st st'"
  "same_queues (shard_mark now uid mods st) st' = same_queues st st'"
  by (simp_all add: same_queues_def shard_mark_def)

lemma build_loop_frame: "same_queues st (fst (build_loop C ks now its st))"
proof (induction its arbitrary: st)
  case (Cons it its)
  show ?case
  proof (cases "player_of st (it_ID it)")
    case None
    then show ?thesis using Cons.IH [of st] by simp
  next
    case (Some p)
    show ?thesis
    proof (cases "MarshalKeys C ks p (it_Modules it)")
      case (Inl e)
      then show ?thesis using Some Cons.IH [of "shard_mark now (it_ID it) (it_Modules it) st"] by simp
    next
      case (Inr kv)
      then show ?thesis using Some Cons.IH [of st] by (cases "build_loop C ks now its st") simp
    qed
  qed
qed simp

lemma buildBatch_frame: "buildBatch C ks now lv its st = (st1, ob) \<Longrightarrow> same_queues st st1"
  using build_loop_frame [of st C ks now its] by (cases "build_loop C ks now its st") (auto simp: buildBatch_def)

lemma flushLevel_frame: "same_queues (fst stf) (fst (flushLevel C ks cfg now lv stf))"
proof -
  obtain items d where t: "Take lv (cfg_FlushBatchSize cfg) (ls_dirty (fst stf)) = (items, d)" by fastforce
  obtain st1 ob where b: "buildBatch C ks now lv items (fst stf\<lparr>ls_dirty := d\<rparr>) = (st1, ob)" by fastforce
  have s: "same_queues (fst stf) st1" using buildBatch_frame [OF b] by simp
  show ?thesis
  proof (cases ob)
    case None
    then show ?thesis using t b s by (simp add: flushLevel_def Let_def)
  next
    case (Some x)
    obtain f' r where "Submit (Some x) (snd stf) = (f', r)" by fastforce
    then show ?thesis using t b s Some by (cases r) (simp_all add: flushLevel_def Let_def split: unit.splits)
  qed
qed

lemma unload_loop_frame:
  "unload_loop C ks now uids st = (st', ents, un) \<Longrightarrow> same_queues st st' \<and> set un \<subseteq> set uids"
proof (induction uids arbitrary: st ents un)
  case (Cons uid uids)
  show ?case
  proof (cases "player_of st uid")
    case None
    then show ?thesis using Cons.prems Cons.IH [of st ents un] by auto
  next
    case (Some p)
    obtain oit d where t: "TakeOne uid (ls_dirty st) = (oit, d)" by fastforce
    obtain st1 e1 u1 where r: "unload_loop C ks now uids (st\<lparr>ls_dirty := d\<rparr>) = (st1, e1, u1)" by (metis prod_cases3)
    have ih: "same_queues st st1 \<and> set u1 \<subseteq> set uids" if "st1 = st'" using Cons.IH [of "st\<lparr>ls_dirty := d\<rparr>" e1 u1] r that by simp
    show ?thesis
    proof (cases oit)
      case None
      then have "st1 = st'" "un = uid # u1" using Cons.prems Some t r by auto
      then show ?thesis using ih by auto
    next
      case it: (Some it)
      show ?thesis
      proof (cases "MarshalKeys C ks p (it_Modules it)")
        case (Inl e)
        then show ?thesis using Cons.prems Some t it by (auto dest!: Cons.IH)
      next
        case (Inr kv)
        then have "st1 = st'" "un = uid # u1" using Cons.prems Some t it r by auto
        then show ?thesis using ih by auto
      qed
    qed
  qed
qed simp

lemma map_of_fold_delete: "map_of (fold AList.delete uids xs) u = (if u \<in> set uids then None else map_of xs u)"
  by (induction uids arbitrary: xs) (auto simp: delete_conv')

lemma idle_victim:
  "uid \<in> set (idle_victims cfg now st) \<Longrightarrow> waiting st uid = [] \<and> \<not> is_loading st uid"
  by (auto simp: idle_victims_def)

lemma unloadIdle_frame:
  assumes "unloadIdle C ks cfg now stf = stf'"
  shows "waiting (fst stf') u = waiting (fst stf) u \<and> ls_loading (fst stf') = ls_loading (fst stf)
    \<and> (player_of (fst stf') u = player_of (fst stf) u \<or> waiting (fst stf) u = [])"
proof -
  obtain st1 ents un where l: "unload_loop C ks now (idle_victims cfg now (fst stf)) (fst stf) = (st1, ents, un)" by (metis prod_cases3)
  note fr = unload_loop_frame [OF l, unfolded same_queues_def]
  have v: "x \<in> set un \<Longrightarrow> waiting (fst stf) x = []" for x using fr idle_victim by blast
  have d: "waiting (drop_players un st1) u = waiting (fst stf) u \<and> ls_loading (drop_players un st1) = ls_loading (fst stf)
    \<and> (player_of (drop_players un st1) u = player_of (fst stf) u \<or> waiting (fst stf) u = [])"
    using fr v [of u] by (auto simp: drop_players_def waiting_def player_of_def map_of_fold_delete)
  have s: "waiting (st1\<lparr>ls_dirty := x\<rparr>) u = waiting (fst stf) u \<and> ls_loading (st1\<lparr>ls_dirty := x\<rparr>) = ls_loading (fst stf)
    \<and> player_of (st1\<lparr>ls_dirty := x\<rparr>) u = player_of (fst stf) u" for x
    using fr by (simp add: waiting_def player_of_def)
  define B where "B = \<lparr>b_Shard = o_Shard (ls_o st1), b_Epoch = o_Epoch (ls_o st1), b_Level = L1, b_Entities = ents\<rparr>"
  obtain f' r where sub: "Submit (Some B) (snd stf) = (f', r)" by fastforce
  have "stf' = (if length (idle_victims cfg now (fst stf)) = 0 then stf else if length ents > 0
      then (case r of Inl e \<Rightarrow> (st1\<lparr>ls_dirty := ReMark now ents (ls_dirty st1)\<rparr>, f') | Inr x \<Rightarrow> (drop_players un st1, f'))
      else (drop_players un st1, snd stf))"
    unfolding assms [symmetric] unloadIdle_def Let_def l prod.case B_def [symmetric] sub
    by (simp split: sum.splits unit.splits)
  then have "fst stf' = fst stf \<or> fst stf' = drop_players un st1 \<or> fst stf' = st1\<lparr>ls_dirty := ReMark now ents (ls_dirty st1)\<rparr>"
    by (auto split: sum.splits if_splits)
  then show ?thesis
  proof (elim disjE)
    assume "fst stf' = drop_players un st1"
    then show ?thesis using d by metis
  next
    assume "fst stf' = st1\<lparr>ls_dirty := ReMark now ents (ls_dirty st1)\<rparr>"
    then show ?thesis using s by metis
  qed simp
qed

lemma Tick_frame:
  assumes "Tick C ks cfg now stf = (stf', out)"
  shows "waiting (fst stf') u = waiting (fst stf) u \<and> ls_loading (fst stf') = ls_loading (fst stf)
    \<and> (player_of (fst stf') u = player_of (fst stf) u \<or> waiting (fst stf) u = [])
    \<and> accepted u out = [] \<and> settled u out = [] \<and> calm out"
proof -
  define s1 where "s1 = (if now > ls_nextL1 (fst stf)
    then flushLevel C ks cfg now L1 (fst stf\<lparr>ls_nextL1 := now + cfg_FlushL1Interval cfg\<rparr>, snd stf) else stf)"
  define s2 where "s2 = (if now > ls_nextL2 (fst s1)
    then flushLevel C ks cfg now L2 (fst s1\<lparr>ls_nextL2 := now + cfg_FlushL2Interval cfg\<rparr>, snd s1) else s1)"
  define s3 where "s3 = (if now > ls_nextUnload (fst s2)
    then unloadIdle C ks cfg now (fst s2\<lparr>ls_nextUnload := now + seconds 30\<rparr>, snd s2) else s2)"
  have f: "flushLevel C ks cfg now lv x = y \<Longrightarrow> waiting (fst y) u = waiting (fst x) u \<and> ls_loading (fst y) = ls_loading (fst x)
      \<and> player_of (fst y) u = player_of (fst x) u" for lv x y
    using flushLevel_frame [of x C ks cfg now lv] by (auto simp: same_queues_def waiting_def player_of_def)
  have 1: "waiting (fst s1) u = waiting (fst stf) u" "ls_loading (fst s1) = ls_loading (fst stf)" "player_of (fst s1) u = player_of (fst stf) u"
    using f [of L1] by (auto simp: s1_def)
  have 2: "waiting (fst s2) u = waiting (fst s1) u" "ls_loading (fst s2) = ls_loading (fst s1)" "player_of (fst s2) u = player_of (fst s1) u"
    using f [of L2] by (auto simp: s2_def)
  have 3: "waiting (fst s3) u = waiting (fst s2) u" "ls_loading (fst s3) = ls_loading (fst s2)"
    "player_of (fst s3) u = player_of (fst s2) u \<or> waiting (fst s2) u = []"
    using unloadIdle_frame [OF refl, of C ks cfg now "(fst s2\<lparr>ls_nextUnload := now + seconds 30\<rparr>, snd s2)" u] by (auto simp: s3_def)
  have "Tick C ks cfg now stf = (if ls_closed (fst stf) then (stf, []) else if now > ls_nextTxScan (fst s3)
      then ((fst s3\<lparr>ls_nextTxScan := now + cfg_TxScanInterval cfg\<rparr>, snd s3),
            ScanPendingTx (o_Shard (ls_o (fst s3))) # (if o_Shard (ls_o (fst s3)) = 0 then [ScanJackpotPayouts] else []))
      else (s3, []))"
    by (simp add: Tick_def s1_def s2_def s3_def Let_def)
  then show ?thesis using assms 1 2 3 by (auto split: if_splits)
qed

lemma shard_step_order: "shard_step E ev stf = (stf', out) \<Longrightarrow> balanced (fst stf) (fst stf') out \<and> calm out"
proof (cases ev)
  case (TickAt now)
  assume "shard_step E ev stf = (stf', out)"
  then have t: "Tick (se_C E) (se_ks E) (se_cfg E) now stf = (stf', out)" using TickAt by (simp add: shard_step_def)
  show ?thesis using Tick_frame [OF t] by (simp add: balanced_def)
next
  case (FlushDone now r)
  assume "shard_step E ev stf = (stf', out)"
  then show ?thesis using FlushDone
    by (auto simp: shard_step_def OnFlushResult_def balanced_def split: option.splits if_splits)
qed (auto simp: shard_step_def split: prod.splits dest: Handle_order onLoaded_order onWritten_order)

lemma shard_run_order: "shard_run E evs stf = (stf', out) \<Longrightarrow> balanced (fst stf) (fst stf') out \<and> calm out"
proof (induction evs arbitrary: stf out)
  case Nil
  then show ?case by (simp add: balanced_def)
next
  case (Cons ev evs)
  obtain stf1 out1 out2 where s: "shard_step E ev stf = (stf1, out1)" "shard_run E evs stf1 = (stf', out2)" "out = out1 @ out2"
    using Cons.prems by (auto split: prod.splits)
  have "balanced (fst stf) (fst stf1) out1 \<and> calm out1" "balanced (fst stf1) (fst stf') out2 \<and> calm out2"
    using shard_step_order [OF s(1)] Cons.IH [OF s(2)] by auto
  then show ?case unfolding s(3) by (auto simp: balanced_def) (metis append.assoc)
qed

text \<open>C12: Requests of one player are served one at a time and in order. Over any sequence of arrivals, finished
  loads and writes, ticks and flush results, the requests of a player that were served or failed
  are, in that order, a prefix of those accepted, what is left is exactly its queue, and no request
  is ever handed to a handler while an earlier write of the player is under way.\<close>

theorem requests_are_served_in_order:
  assumes "shard_run E evs (NewShard o1, f) = ((st, f'), out)"
  shows "accepted uid out = settled uid out @ waiting st uid \<and> (\<forall>p m. Served uid p m \<in> set out \<longrightarrow> \<not> busy p)"
  using shard_run_order [OF assms] by (auto simp: balanced_def calm_def waiting_def NewShard_def)

definition demo_shard_env :: shard_env where
  "demo_shard_env = \<lparr>se_mac = (\<lambda>k m. k), se_signer = NewSigner ''s'', se_D = (\<lambda>now p m. (p, [])), se_C = text_codec,
     se_ks = NewKeys ''cluster'' 1 ''lobby'', se_cfg = \<lparr>cfg_FlushL1Interval = 1, cfg_FlushL2Interval = 1,
       cfg_TxScanInterval = 1, cfg_UnloadIdle = 1, cfg_FlushBatchSize = 1, cfg_ShardCount = 1\<rparr>\<rparr>"

definition demo_request :: "nat \<Rightarrow> Envelope" where
  "demo_request n = demo_env\<lparr>e_Cmd := 204, e_Seq := n\<rparr>"

lemma demo_request_fields:
  "authz_Verify mac s now (demo_request n) b = Inr ()" "e_Uid (demo_request n) = 7" "e_Cmd (demo_request n) = 204"
  by (simp_all add: demo_request_def demo_env_def authz_Verify_def cmd_Level_def clientCmds_def)

theorem requests_are_served_in_order_witness:
  "\<exists>st f out. shard_run demo_shard_env [Arrive 1 (demo_request 1), Arrive 2 (demo_request 2), LoadDone 3 7 5 (Inr []),
        Arrive 4 (demo_request 3)]
      (NewShard \<lparr>o_Shard = 0, o_Epoch = 5, o_orderTTL = 60\<rparr>, NewFlusher 1 1 1) = ((st, f), out)
    \<and> settled 7 out = map demo_request [1, 2, 3] \<and> accepted 7 out = settled 7 out @ waiting st 7"
proof -
  obtain st f out where r: "shard_run demo_shard_env [Arrive 1 (demo_request 1), Arrive 2 (demo_request 2), LoadDone 3 7 5 (Inr []),
        Arrive 4 (demo_request 3)]
      (NewShard \<lparr>o_Shard = 0, o_Epoch = 5, o_orderTTL = 60\<rparr>, NewFlusher 1 1 1) = ((st, f), out)" by (metis prod.exhaust)
  have "settled 7 out = map demo_request [1, 2, 3]"
    using r by (clarsimp simp: shard_step_def Handle_def demo_request_fields demo_shard_env_def NewShard_def ShardOf_def acquire_def enqueue_def
      waiting_def is_loading_def player_of_def maxWaitersPerPlayer_def onLoaded_def FromBlobs_def AllModules_def
      put_player_def drainWaiters_def dispatch_def shard_mark_def NewPlayer_def)
  with r show ?thesis using requests_are_served_in_order [OF r, of 7] by metis
qed

section \<open>No request is forgotten\<close>



















end
