(* ===== verification/Etcd_Api.thy ===== *)
theory Etcd_Api
  imports Redis_Api
begin

text \<open>
  etcd is a service outside the repository. The model takes it as a record of operations over an
  abstract state of the world, and the locale \<open>etcd_api\<close> states the documented behaviour the code relies
  on: every successful put takes the next revision, a key keeps the revision it was created at
  until it is deleted, a lease that ends takes its keys with it, and a range lists exactly the keys below
  a prefix. \<open>mem_etcd\<close> is a store in memory that satisfies the laws.

  The state type is the whole world, so that other services (Redis) can live in the same state.
  Transactions are built from these operations the way the code builds them; a transaction is one
  atomic call over the network (\<open>run\<close>).
\<close>

section \<open>Operations\<close>

record etcd_kv =
  kv_Value :: bytes
  kv_CreateRevision :: int
  kv_ModRevision :: int
  kv_Lease :: int

record 'w etcd =
  e_ok :: "'w \<Rightarrow> bool" \<comment> \<open>a state the server can be in\<close>
  e_rev :: "'w \<Rightarrow> int"
  e_get :: "'w \<Rightarrow> string \<Rightarrow> etcd_kv option"
  e_range :: "'w \<Rightarrow> string \<Rightarrow> (string \<times> etcd_kv) list" \<comment> \<open>\<open>Get\<close> with a prefix\<close>
  e_put :: "'w \<Rightarrow> string \<Rightarrow> bytes \<Rightarrow> int \<Rightarrow> 'w" \<comment> \<open>key, value, lease (0: none)\<close>
  e_del :: "'w \<Rightarrow> string \<Rightarrow> 'w"
  e_lease :: "'w \<Rightarrow> int \<Rightarrow> bool" \<comment> \<open>the lease exists\<close>
  e_grant :: "'w \<Rightarrow> 'w \<times> int"
  e_revoke :: "'w \<Rightarrow> int \<Rightarrow> 'w" \<comment> \<open>revoked by a client or expired\<close>

section \<open>The laws\<close>

locale etcd_api =
  fixes E :: "'w etcd"
  assumes ok_put: "e_ok E s \<Longrightarrow> l = 0 \<or> e_lease E s l \<Longrightarrow> e_ok E (e_put E s k v l)"
    and ok_del: "e_ok E s \<Longrightarrow> e_ok E (e_del E s k)"
    and ok_grant: "e_ok E s \<Longrightarrow> e_ok E (fst (e_grant E s))"
    and ok_revoke: "e_ok E s \<Longrightarrow> e_ok E (e_revoke E s l)"
    and kv_bounds: "e_ok E s \<Longrightarrow> e_get E s k = Some kv \<Longrightarrow>
          0 < kv_CreateRevision kv \<and> kv_CreateRevision kv \<le> kv_ModRevision kv \<and> kv_ModRevision kv \<le> e_rev E s"
    and kv_lease: "e_ok E s \<Longrightarrow> e_get E s k = Some kv \<Longrightarrow> kv_Lease kv = 0 \<or> e_lease E s (kv_Lease kv)"
    and rev_put: "e_rev E (e_put E s k v l) = e_rev E s + 1"
    and get_put: "e_get E (e_put E s k v l) k' = (if k' = k
          then Some \<lparr>kv_Value = v, kv_CreateRevision = (case e_get E s k of None \<Rightarrow> e_rev E s + 1 | Some kv \<Rightarrow> kv_CreateRevision kv),
                     kv_ModRevision = e_rev E s + 1, kv_Lease = l\<rparr>
          else e_get E s k')"
    and rev_del: "e_rev E s \<le> e_rev E (e_del E s k)"
    and get_delete: "e_get E (e_del E s k) k' = (if k' = k then None else e_get E s k')"
    and lease_put: "e_lease E (e_put E s k v l) = e_lease E s"
    and lease_del: "e_lease E (e_del E s k) = e_lease E s"
    and grant_new: "e_grant E s = (s', l) \<Longrightarrow> e_ok E s \<Longrightarrow> l \<noteq> 0 \<and> \<not> e_lease E s l \<and> e_lease E s' = (e_lease E s)(l := True)
          \<and> e_rev E s' = e_rev E s \<and> e_get E s' = e_get E s"
    and lease_revoke: "e_lease E (e_revoke E s l) = (e_lease E s)(l := False)"
    and rev_revoke: "e_rev E s \<le> e_rev E (e_revoke E s l)"
    and get_revoke: "e_get E (e_revoke E s l) k = (case e_get E s k of
          None \<Rightarrow> None | Some kv \<Rightarrow> if kv_Lease kv = l \<and> l \<noteq> 0 then None else Some kv)"
    and range_get: "map_of (e_range E s p) k = (if prefix p k then e_get E s k else None)"
    and range_distinct: "distinct (map fst (e_range E s p))"
begin

lemma range_mem: "(k, kv) \<in> set (e_range E s p) \<longleftrightarrow> prefix p k \<and> e_get E s k = Some kv"
  using range_get [of s p k] range_distinct [of s p] by (metis map_of_eq_Some_iff option.distinct(1))

end

section \<open>Transactions\<close>

text \<open>\<open>If(CreateRevision(key) = 0) Then(Put(key, val, lease))\<close>: the revision of the put, or nothing when the key
  exists. A lease that is gone is an error.\<close>

definition txn_create :: "'w etcd \<Rightarrow> string \<Rightarrow> bytes \<Rightarrow> int \<Rightarrow> 'w \<Rightarrow> 'w \<times> int option option" where
  "txn_create E k v l s =
     (if e_get E s k \<noteq> None then (s, Some None)
      else if l \<noteq> 0 \<and> \<not> e_lease E s l then (s, None)
      else (e_put E s k v l, Some (Some (e_rev E (e_put E s k v l)))))"

definition mod_of :: "'w etcd \<Rightarrow> 'w \<Rightarrow> string \<Rightarrow> int" where
  "mod_of E s k = (case e_get E s k of None \<Rightarrow> 0 | Some kv \<Rightarrow> kv_ModRevision kv)"

text \<open>\<open>If(ModRevision(key) = rev) Then(Put(key, val))\<close>.\<close>

definition txn_update :: "'w etcd \<Rightarrow> string \<Rightarrow> int \<Rightarrow> bytes \<Rightarrow> 'w \<Rightarrow> 'w \<times> int option option" where
  "txn_update E k r v s =
     (if mod_of E s k = r then (e_put E s k v 0, Some (Some (e_rev E (e_put E s k v 0)))) else (s, Some None))"

definition txn_delete :: "'w etcd \<Rightarrow> string \<Rightarrow> int \<Rightarrow> 'w \<Rightarrow> 'w \<times> bool option" where
  "txn_delete E k r s = (if mod_of E s k = r then (e_del E s k, Some True) else (s, Some False))"

text \<open>What the store may do between two looks of a client: anything any client does, leases that expire, and
  changes of the world outside etcd.\<close>

inductive etcd_runs :: "'w etcd \<Rightarrow> 'w \<Rightarrow> 'w \<Rightarrow> bool" for E where
  er_refl: "etcd_runs E s s"
| er_put: "etcd_runs E s s' \<Longrightarrow> l = 0 \<or> e_lease E s' l \<Longrightarrow> etcd_runs E s (e_put E s' k v l)"
| er_del: "etcd_runs E s s' \<Longrightarrow> etcd_runs E s (e_del E s' k)"
| er_grant: "etcd_runs E s s' \<Longrightarrow> etcd_runs E s (fst (e_grant E s'))"
| er_revoke: "etcd_runs E s s' \<Longrightarrow> etcd_runs E s (e_revoke E s' l)"
| er_other: "etcd_runs E s s' \<Longrightarrow> e_get E s'' = e_get E s' \<Longrightarrow> e_rev E s'' = e_rev E s' \<Longrightarrow> e_lease E s'' = e_lease E s' \<Longrightarrow>
     e_ok E s'' = e_ok E s' \<Longrightarrow> etcd_runs E s s''"

lemma etcd_runs_trans: "etcd_runs E b c \<Longrightarrow> etcd_runs E a b \<Longrightarrow> etcd_runs E a c"
  by (induction rule: etcd_runs.induct) (auto intro: etcd_runs.intros)

context etcd_api
begin

lemma runs_ok: "etcd_runs E s s' \<Longrightarrow> e_ok E s \<Longrightarrow> e_ok E s'"
  by (induction rule: etcd_runs.induct) (auto simp: ok_put ok_del ok_grant ok_revoke)

lemma runs_rev: "etcd_runs E s s' \<Longrightarrow> e_ok E s \<Longrightarrow> e_rev E s \<le> e_rev E s'"
proof (induction rule: etcd_runs.induct)
  case (er_grant s s')
  then show ?case using grant_new [of s' "fst (e_grant E s')" "snd (e_grant E s')"] runs_ok by auto
next
  case (er_del s s' k)
  then show ?case using rev_del [of s' k] by simp
next
  case (er_revoke s s' l)
  then show ?case using rev_revoke [of s' l] by simp
qed (auto simp: rev_put)

lemma txn_create_runs: "etcd_runs E s (fst (txn_create E k v l s))"
  using er_put [OF er_refl, of l E s k v] by (auto simp: txn_create_def intro: er_refl)

lemma txn_update_runs: "etcd_runs E s (fst (txn_update E k r v s))"
  using er_put [OF er_refl, of 0 E s k v] by (auto simp: txn_update_def intro: er_refl)

lemma txn_delete_runs: "etcd_runs E s (fst (txn_delete E k r s))"
  using er_del [OF er_refl, of E s k] by (auto simp: txn_delete_def intro: er_refl)

text \<open>A key that is there after some time, created no later than before, was there all the time.\<close>

lemma created_before:
  "etcd_runs E s s' \<Longrightarrow> e_ok E s \<Longrightarrow> e_get E s' k = Some kv' \<Longrightarrow> kv_CreateRevision kv' \<le> e_rev E s \<Longrightarrow>
     \<exists>kv. e_get E s k = Some kv \<and> kv_CreateRevision kv = kv_CreateRevision kv'"
proof (induction arbitrary: kv' rule: etcd_runs.induct)
  case (er_put s s' l k' v)
  have rev: "e_rev E s \<le> e_rev E s'" using runs_rev er_put by blast
  show ?case
  proof (cases "k' = k")
    case True
    then obtain kv where "e_get E s' k = Some kv" "kv_CreateRevision kv = kv_CreateRevision kv'"
      using er_put.prems rev by (auto simp: get_put split: option.splits)
    then show ?thesis using er_put by auto
  next
    case False
    then show ?thesis using er_put by (auto simp: get_put)
  qed
next
  case (er_grant s s')
  then show ?case using grant_new [of s' "fst (e_grant E s')" "snd (e_grant E s')"] runs_ok by auto
next
  case (er_del s s' k')
  then show ?case by (auto simp: get_delete split: if_splits)
next
  case (er_revoke s s' l)
  then show ?case by (auto simp: get_revoke split: option.splits if_splits)
qed auto

end

section \<open>A store in memory\<close>

record mem_etcd =
  me_rev :: int
  me_kvs :: "(string \<times> etcd_kv) list"
  me_leases :: "int list"
  me_next :: int

definition me_ok :: "mem_etcd \<Rightarrow> bool" where
  "me_ok s \<longleftrightarrow> 0 \<le> me_rev s \<and> 0 < me_next s \<and> (\<forall>l\<in>set (me_leases s). 0 < l \<and> l < me_next s)
     \<and> (\<forall>(k, kv)\<in>set (me_kvs s). 0 < kv_CreateRevision kv \<and> kv_CreateRevision kv \<le> kv_ModRevision kv \<and> kv_ModRevision kv \<le> me_rev s
         \<and> (kv_Lease kv = 0 \<or> kv_Lease kv \<in> set (me_leases s)))"

definition me_put :: "mem_etcd \<Rightarrow> string \<Rightarrow> bytes \<Rightarrow> int \<Rightarrow> mem_etcd" where
  "me_put s k v l = s\<lparr>me_rev := me_rev s + 1,
     me_kvs := AList.update k \<lparr>kv_Value = v, kv_CreateRevision = (case map_of (me_kvs s) k of None \<Rightarrow> me_rev s + 1 | Some kv \<Rightarrow> kv_CreateRevision kv),
       kv_ModRevision = me_rev s + 1, kv_Lease = l\<rparr> (me_kvs s)\<rparr>"

definition me_revoke :: "mem_etcd \<Rightarrow> int \<Rightarrow> mem_etcd" where
  "me_revoke s l = s\<lparr>me_leases := removeAll l (me_leases s),
     me_kvs := (if l = 0 then me_kvs s else filter (\<lambda>(k, kv). kv_Lease kv \<noteq> l) (AList.clearjunk (me_kvs s)))\<rparr>"

definition mem_etcd :: "mem_etcd etcd" where
  "mem_etcd = \<lparr>e_ok = me_ok, e_rev = me_rev, e_get = (\<lambda>s. map_of (me_kvs s)),
     e_range = (\<lambda>s p. filter (\<lambda>(k, kv). prefix p k) (AList.clearjunk (me_kvs s))), e_put = me_put,
     e_del = (\<lambda>s k. s\<lparr>me_kvs := AList.delete k (me_kvs s)\<rparr>), e_lease = (\<lambda>s l. l \<in> set (me_leases s)),
     e_grant = (\<lambda>s. (s\<lparr>me_leases := me_next s # me_leases s, me_next := me_next s + 1\<rparr>, me_next s)), e_revoke = me_revoke\<rparr>"

definition me_empty :: mem_etcd where
  "me_empty = \<lparr>me_rev = 0, me_kvs = [], me_leases = [], me_next = 1\<rparr>"

lemma mem_etcd_simps [simp]:
  "e_ok mem_etcd = me_ok" "e_rev mem_etcd = me_rev" "e_get mem_etcd = (\<lambda>s. map_of (me_kvs s))" "e_put mem_etcd = me_put"
  "e_lease mem_etcd = (\<lambda>s l. l \<in> set (me_leases s))" "e_revoke mem_etcd = me_revoke"
  by (simp_all add: mem_etcd_def)

lemma map_of_filter_distinct:
  "distinct (map fst xs) \<Longrightarrow> map_of (filter (\<lambda>(k, v). P k v) xs) k = (case map_of xs k of None \<Rightarrow> None | Some v \<Rightarrow> if P k v then Some v else None)"
  by (induction xs) (auto split: option.splits simp: map_of_eq_None_iff rev_image_eqI)

lemma me_ok_kv: "me_ok s \<Longrightarrow> map_of (me_kvs s) k = Some kv \<Longrightarrow> 0 < kv_CreateRevision kv \<and> kv_CreateRevision kv \<le> kv_ModRevision kv
    \<and> kv_ModRevision kv \<le> me_rev s \<and> (kv_Lease kv = 0 \<or> kv_Lease kv \<in> set (me_leases s))"
  by (auto simp: me_ok_def dest!: map_of_SomeD)

lemma me_ok_put: "me_ok s \<Longrightarrow> l = 0 \<or> l \<in> set (me_leases s) \<Longrightarrow> me_ok (me_put s k v l)"
proof -
  assume ok: "me_ok s" and l: "l = 0 \<or> l \<in> set (me_leases s)"
  have *: "(k', kv) \<in> set (AList.update k x al) \<Longrightarrow> (k', kv) = (k, x) \<or> (k', kv) \<in> set al" for k' kv x and al :: "(string \<times> etcd_kv) list"
    by (induction al) (auto split: if_splits)
  show ?thesis using ok l me_ok_kv [OF ok, of k]
    by (auto simp: me_ok_def me_put_def dest!: * split: option.splits)
qed

interpretation mem_store: etcd_api mem_etcd
proof unfold_locales
  show "e_ok mem_etcd s \<Longrightarrow> l = 0 \<or> e_lease mem_etcd s l \<Longrightarrow> e_ok mem_etcd (e_put mem_etcd s k v l)" for s l k v
    by (simp add: me_ok_put)
  show "e_ok mem_etcd s \<Longrightarrow> e_ok mem_etcd (e_del mem_etcd s k)" for s k
    using delete_notin_dom by (auto simp: mem_etcd_def me_ok_def AList.delete_eq)
  show "e_ok mem_etcd s \<Longrightarrow> e_ok mem_etcd (e_revoke mem_etcd s l)" for s l
    using clearjunk_mem [of _ _ "me_kvs s"] by (auto simp: me_revoke_def me_ok_def dest!: map_of_SomeD)
  show "e_get mem_etcd (e_revoke mem_etcd s l) k = (case e_get mem_etcd s k of
      None \<Rightarrow> None | Some kv \<Rightarrow> if kv_Lease kv = l \<and> l \<noteq> 0 then None else Some kv)" for s l k
    by (simp add: me_revoke_def map_of_filter_distinct map_of_clearjunk split: option.splits)
  show "map_of (e_range mem_etcd s p) k = (if prefix p k then e_get mem_etcd s k else None)" for s p k
    by (simp add: mem_etcd_def map_of_filter_distinct map_of_clearjunk split: option.splits)
  show "distinct (map fst (e_range mem_etcd s p))" for s p
    using distinct_clearjunk [of "me_kvs s"] by (simp add: mem_etcd_def distinct_map_filter)
qed (auto simp: mem_etcd_def me_put_def me_revoke_def me_ok_def update_conv' delete_conv' fun_upd_def
    dest!: map_of_SomeD split: option.splits)

text \<open>A store as a part of a larger world, read by \<open>g\<close> and replaced by \<open>p\<close>.\<close>

definition etcd_on :: "('w \<Rightarrow> 'e) \<Rightarrow> ('e \<Rightarrow> 'w \<Rightarrow> 'w) \<Rightarrow> 'e etcd \<Rightarrow> 'w etcd" where
  "etcd_on g p E = \<lparr>e_ok = (\<lambda>w. e_ok E (g w)), e_rev = (\<lambda>w. e_rev E (g w)), e_get = (\<lambda>w. e_get E (g w)),
     e_range = (\<lambda>w. e_range E (g w)), e_put = (\<lambda>w k v l. p (e_put E (g w) k v l) w),
     e_del = (\<lambda>w k. p (e_del E (g w) k) w), e_lease = (\<lambda>w. e_lease E (g w)),
     e_grant = (\<lambda>w. case e_grant E (g w) of (s, l) \<Rightarrow> (p s w, l)), e_revoke = (\<lambda>w l. p (e_revoke E (g w) l) w)\<rparr>"

lemma etcd_on_simps [simp]:
  "e_ok (etcd_on g p E) w = e_ok E (g w)" "e_rev (etcd_on g p E) w = e_rev E (g w)" "e_get (etcd_on g p E) w = e_get E (g w)"
  "e_lease (etcd_on g p E) w = e_lease E (g w)" "e_put (etcd_on g p E) w k v l = p (e_put E (g w) k v l) w"
  "e_del (etcd_on g p E) w k = p (e_del E (g w) k) w" "e_revoke (etcd_on g p E) w l = p (e_revoke E (g w) l) w"
  "e_range (etcd_on g p E) w x = e_range E (g w) x"
  "e_grant (etcd_on g p E) w = (case e_grant E (g w) of (s, l) \<Rightarrow> (p s w, l))"
  by (simp_all add: etcd_on_def)

lemma etcd_on_api:
  assumes "etcd_api E" and [simp]: "\<And>e w. g (p e w) = e"
  shows "etcd_api (etcd_on g p E)"
proof -
  note laws = etcd_api.kv_bounds [OF assms(1)] etcd_api.kv_lease [OF assms(1)] etcd_api.grant_new [OF assms(1)] etcd_api.ok_grant [OF assms(1)]
  show ?thesis
    by unfold_locales (auto simp: etcd_api.ok_put [OF assms(1)] etcd_api.ok_del [OF assms(1)]
      etcd_api.ok_revoke [OF assms(1)] etcd_api.rev_put [OF assms(1)] etcd_api.get_put [OF assms(1)] etcd_api.rev_del [OF assms(1)]
      etcd_api.get_delete [OF assms(1)] etcd_api.lease_put [OF assms(1)] etcd_api.lease_del [OF assms(1)]
      etcd_api.lease_revoke [OF assms(1)] etcd_api.rev_revoke [OF assms(1)] etcd_api.get_revoke [OF assms(1)]
      etcd_api.range_get [OF assms(1)] etcd_api.range_distinct [OF assms(1)]
      split: prod.splits option.splits dest: laws)
qed

end
