(* ===== verification/Shard_Claim.thy ===== *)
theory Shard_Claim
  imports Etcd_Api Go_Bytes Fencing
begin

text \<open>
  Ownership of shards, \<^verbatim>\<open>pkg/shard/claim.go\<close>: every node claims free shards by a transaction in etcd under its
  lease, balances its share with the other nodes, and gives shards up.

  A claimer's state is its map of owned shards, its lease and whether it was stopped. The hooks are
  a record of functions on the world; etcd is a parameter over the same world. JSON is a
  parameter. Every network call takes its outcome. Go maps are association lists in iteration order, so
  whatever order a range or an unstable sort gives is covered. Calls are atomic here: the claimer's mutex
  guards only the map, and the hooks run outside of it.
\<close>

section \<open>Data\<close>

record claim_rec =
  cl_Node :: string
  cl_Since :: int

record claim_json =
  cj_enc :: "claim_rec \<Rightarrow> bytes"
  cj_dec :: "bytes \<Rightarrow> claim_rec option"

record Ownership =
  ow_Shard :: nat
  ow_Epoch :: int
  ow_Node :: string

datatype ReleaseReason = Graceful | LeaseLost | Fenced | StartFailed

record 'w Hooks =
  OnAcquire :: "(Ownership \<Rightarrow> 'w \<Rightarrow> 'w \<times> bool) option"
  OnRelease :: "(Ownership \<Rightarrow> ReleaseReason \<Rightarrow> 'w \<Rightarrow> 'w) option"
  OnFreed :: "(nat \<Rightarrow> 'w \<Rightarrow> 'w) option"
  LiveNodes :: "('w \<Rightarrow> int) option"
  RequestHandoff :: "(nat \<Rightarrow> string \<Rightarrow> 'w \<Rightarrow> 'w \<times> bool) option"

record claimer_cfg =
  cc_node :: string
  cc_prefix :: string
  cc_space :: nat
  cc_maxOwn :: int

record claimer =
  cl_owned :: "(nat \<times> Ownership) list"
  cl_lease :: int
  cl_stopped :: bool

definition NewClaimerWithSpace :: "string \<Rightarrow> string \<Rightarrow> string \<Rightarrow> nat \<Rightarrow> nat \<Rightarrow> int \<Rightarrow> claimer_cfg \<times> claimer" where
  "NewClaimerWithSpace etcdPrefix knd nodeID cnt space maxOwn =
     (\<lparr>cc_node = nodeID, cc_prefix = etcdPrefix @ ''/'' @ ''shard'' @ ''/'' @ knd @ ''/'',
       cc_space = (if space = 0 then cnt else space), cc_maxOwn = maxOwn\<rparr>,
      \<lparr>cl_owned = [], cl_lease = 0, cl_stopped = False\<rparr>)"

text \<open>\<open>fmt.Sprintf("%04d", shard)\<close>.\<close>

definition pad4 :: "nat \<Rightarrow> string" where
  "pad4 n = replicate (4 - length (show_nat n)) (CHR ''0'') @ show_nat n"

definition Key :: "claimer_cfg \<Rightarrow> nat \<Rightarrow> string" where
  "Key cfg s = cc_prefix cfg @ pad4 s"

definition shardFromKey :: "claimer_cfg \<Rightarrow> string \<Rightarrow> nat option" where
  "shardFromKey cfg key =
     (if length key \<le> length (cc_prefix cfg) then None
      else case read_nat (drop (length (cc_prefix cfg)) key) of
        None \<Rightarrow> None
      | Some n \<Rightarrow> if n < 2 ^ 32 then Some n else None)"

definition Count :: "claimer \<Rightarrow> int" where
  "Count c = int (length (cl_owned c))"

definition Owned :: "claimer \<Rightarrow> nat list" where
  "Owned c = map fst (cl_owned c)"

definition Owns :: "claimer \<Rightarrow> nat \<Rightarrow> bool" where
  "Owns c s \<longleftrightarrow> map_of (cl_owned c) s \<noteq> None"

definition claimer_Epoch :: "claimer \<Rightarrow> nat \<Rightarrow> int option" where
  "claimer_Epoch c s = map_option ow_Epoch (map_of (cl_owned c) s)"

section \<open>Claiming and releasing\<close>

definition newLease :: "'w etcd \<Rightarrow> net \<Rightarrow> claimer \<times> 'w \<Rightarrow> (claimer \<times> 'w) \<times> bool" where
  "newLease E n cw =
     (case run n (\<lambda>w. case e_grant E w of (w', l) \<Rightarrow> (w', Some l)) (snd cw) of
        (w', Inl e) \<Rightarrow> ((fst cw, w'), False)
      | (w', Inr l) \<Rightarrow> ((fst cw\<lparr>cl_lease := l\<rparr>, w'), True))"

definition dropLocal :: "'w Hooks \<Rightarrow> Ownership \<Rightarrow> ReleaseReason \<Rightarrow> claimer \<times> 'w \<Rightarrow> claimer \<times> 'w" where
  "dropLocal H ow reason cw =
     (if map_of (cl_owned (fst cw)) (ow_Shard ow) = None then cw
      else (fst cw\<lparr>cl_owned := AList.delete (ow_Shard ow) (cl_owned (fst cw))\<rparr>,
            case OnRelease H of None \<Rightarrow> snd cw | Some f \<Rightarrow> f ow reason (snd cw)))"

definition del_key :: "'w etcd \<Rightarrow> net \<Rightarrow> string \<Rightarrow> 'w \<Rightarrow> 'w \<times> unit result" where
  "del_key E n k w = run n (\<lambda>w. (e_del E w k, Some ())) w"

datatype claim_err = ErrNoLease | ErrTxn | ErrAcquire

definition claim :: "'w etcd \<Rightarrow> 'w Hooks \<Rightarrow> claim_json \<Rightarrow> claimer_cfg \<Rightarrow> net \<Rightarrow> net \<Rightarrow> int \<Rightarrow> nat \<Rightarrow> claimer \<times> 'w \<Rightarrow>
    (claimer \<times> 'w) \<times> (claim_err + bool)" where
  "claim E H J cfg n1 n2 now s cw =
     (let c = fst cw; lease = cl_lease c; key = Key cfg s in
      if lease = 0 then (cw, Inl ErrNoLease)
      else case run n1 (txn_create E key (cj_enc J \<lparr>cl_Node = cc_node cfg, cl_Since = now\<rparr>) lease) (snd cw) of
        (w1, Inl e) \<Rightarrow> ((c, w1), Inl ErrTxn)
      | (w1, Inr None) \<Rightarrow> ((c, w1), Inr False)
      | (w1, Inr (Some epoch)) \<Rightarrow>
          let ow = \<lparr>ow_Shard = s, ow_Epoch = epoch, ow_Node = cc_node cfg\<rparr>;
              c1 = c\<lparr>cl_owned := AList.update s ow (cl_owned c)\<rparr>
          in case OnAcquire H of
               None \<Rightarrow> ((c1, w1), Inr True)
             | Some f \<Rightarrow>
                 (case f ow w1 of
                    (w2, True) \<Rightarrow> ((c1, w2), Inr True)
                  | (w2, False) \<Rightarrow>
                      (case dropLocal H ow StartFailed (c1, w2) of
                         (c3, w3) \<Rightarrow> ((c3, fst (del_key E n2 key w3)), Inl ErrAcquire))))"

definition Release :: "'w etcd \<Rightarrow> 'w Hooks \<Rightarrow> claimer_cfg \<Rightarrow> net \<Rightarrow> nat \<Rightarrow> ReleaseReason \<Rightarrow> claimer \<times> 'w \<Rightarrow> (claimer \<times> 'w) \<times> bool" where
  "Release E H cfg n s reason cw =
     (case map_of (cl_owned (fst cw)) s of
        None \<Rightarrow> (cw, True)
      | Some ow \<Rightarrow>
          (case dropLocal H ow reason cw of
             (c1, w1) \<Rightarrow>
               (case del_key E n (Key cfg s) w1 of
                  (w2, Inl e) \<Rightarrow> ((c1, w2), False)
                | (w2, Inr ()) \<Rightarrow> ((c1, case OnFreed H of None \<Rightarrow> w2 | Some f \<Rightarrow> f s w2), True))))"

definition Fence :: "'w Hooks \<Rightarrow> nat \<Rightarrow> claimer \<times> 'w \<Rightarrow> claimer \<times> 'w" where
  "Fence H s cw =
     (case map_of (cl_owned (fst cw)) s of None \<Rightarrow> cw | Some ow \<Rightarrow> dropLocal H ow Fenced cw)"

definition release_one :: "'w etcd \<Rightarrow> 'w Hooks \<Rightarrow> claimer_cfg \<Rightarrow> (nat \<Rightarrow> net) \<Rightarrow> ReleaseReason \<Rightarrow> nat \<Rightarrow> claimer \<times> 'w \<Rightarrow> claimer \<times> 'w" where
  "release_one E H cfg ns reason s cw =
     (if reason = Graceful then fst (Release E H cfg (ns s) s reason cw)
      else case map_of (cl_owned (fst cw)) s of None \<Rightarrow> cw | Some ow \<Rightarrow> dropLocal H ow reason cw)"

definition releaseAll :: "'w etcd \<Rightarrow> 'w Hooks \<Rightarrow> claimer_cfg \<Rightarrow> (nat \<Rightarrow> net) \<Rightarrow> ReleaseReason \<Rightarrow> claimer \<times> 'w \<Rightarrow> claimer \<times> 'w" where
  "releaseAll E H cfg ns reason cw = fold (release_one E H cfg ns reason) (Owned (fst cw)) cw"

section \<open>Keeping the lease\<close>

datatype keepalive = KeepOk | KeepErr | KeepGone

text \<open>One tick of \<open>keepAlive\<close>; the state is the number of failures, or nothing when the goroutine has ended.\<close>

definition keepAlive_tick :: "'w etcd \<Rightarrow> 'w Hooks \<Rightarrow> claimer_cfg \<Rightarrow> (nat \<Rightarrow> net) \<Rightarrow> net \<Rightarrow> keepalive \<Rightarrow> nat \<Rightarrow> claimer \<times> 'w \<Rightarrow>
    nat option \<times> claimer \<times> 'w" where
  "keepAlive_tick E H cfg ns n r fails cw =
     (if r = KeepOk then (Some 0, cw)
      else if fails + 1 \<ge> 2 \<or> r = KeepGone
           then (None, fst (newLease E n (releaseAll E H cfg ns LeaseLost cw)))
           else (Some (fails + 1), cw))"

section \<open>Scanning\<close>

type_synonym taken = "(nat \<times> claim_rec \<times> int) list"

definition scan_records :: "claim_json \<Rightarrow> claimer_cfg \<Rightarrow> (string \<times> etcd_kv) list \<Rightarrow> taken" where
  "scan_records J cfg kvs =
     fold (\<lambda>(k, kv) t. case shardFromKey cfg k of None \<Rightarrow> t | Some s \<Rightarrow>
        (case cj_dec J (kv_Value kv) of None \<Rightarrow> t | Some r \<Rightarrow> AList.update s (r, kv_CreateRevision kv) t)) kvs []"

definition is_stale :: "claimer_cfg \<Rightarrow> taken \<Rightarrow> nat \<times> Ownership \<Rightarrow> bool" where
  "is_stale cfg t so =
     (case map_of t (fst so) of None \<Rightarrow> True | Some (r, e) \<Rightarrow> cl_Node r \<noteq> cc_node cfg \<or> e \<noteq> ow_Epoch (snd so))"

definition reconcile :: "'w Hooks \<Rightarrow> claimer_cfg \<Rightarrow> taken \<Rightarrow> claimer \<times> 'w \<Rightarrow> claimer \<times> 'w" where
  "reconcile H cfg t cw =
     fold (\<lambda>so cw. dropLocal H (snd so) LeaseLost cw) (filter (is_stale cfg t) (cl_owned (fst cw))) cw"

definition live_count :: "'w Hooks \<Rightarrow> 'w \<Rightarrow> int" where
  "live_count H w = (case LiveNodes H of None \<Rightarrow> 0 | Some f \<Rightarrow> f w)"

definition targetCount :: "'w Hooks \<Rightarrow> claimer_cfg \<Rightarrow> 'w \<Rightarrow> int" where
  "targetCount H cfg w =
     (if cc_maxOwn cfg > 0 then cc_maxOwn cfg
      else let n = live_count H w; n1 = (if n \<le> 0 then 1 else n); total = int (cc_space cfg)
           in go_div (total + n1 - 1) n1)"

definition byNode :: "taken \<Rightarrow> string \<Rightarrow> int" where
  "byNode t nd = int (length (filter (\<lambda>(s, r, e). cl_Node r = nd) t))"

definition nodes_of :: "taken \<Rightarrow> string list" where
  "nodes_of t = remdups (map (\<lambda>(s, r, e). cl_Node r) t)"

definition free_shards :: "claimer_cfg \<Rightarrow> taken \<Rightarrow> nat list" where
  "free_shards cfg t = filter (\<lambda>s. map_of t s = None) [0..<cc_space cfg]"

definition someoneBelow :: "'w Hooks \<Rightarrow> claimer_cfg \<Rightarrow> taken \<Rightarrow> int \<Rightarrow> 'w \<Rightarrow> bool" where
  "someoneBelow H cfg t target w \<longleftrightarrow>
     live_count H w > int (length (nodes_of t)) \<or> list_ex (\<lambda>nd. nd \<noteq> cc_node cfg \<and> byNode t nd < target) (nodes_of t)"

definition maxHandoffPerRound :: int where
  "maxHandoffPerRound = 8"

definition candidates :: "claimer_cfg \<Rightarrow> taken \<Rightarrow> int \<Rightarrow> (nat \<times> string) list" where
  "candidates cfg t target =
     sort_key (\<lambda>(s, nd). - byNode t nd)
       (map (\<lambda>(s, r, e). (s, cl_Node r)) (filter (\<lambda>(s, r, e). cl_Node r \<noteq> cc_node cfg \<and> byNode t (cl_Node r) > target) t))"

type_synonym 'w claim_call = "nat \<Rightarrow> claimer \<times> 'w \<Rightarrow> (claimer \<times> 'w) \<times> (claim_err + bool)"

text \<open>The loop of \<open>requestRebalance\<close>: \<open>cl\<close> claims one shard; the result lists the shards asked for, each with whether
  it was taken.\<close>

fun rebalance_loop :: "'w claim_call \<Rightarrow> (nat \<Rightarrow> string \<Rightarrow> 'w \<Rightarrow> 'w \<times> bool) \<Rightarrow> (string \<Rightarrow> int) \<Rightarrow> int \<Rightarrow> int \<Rightarrow> (nat \<times> string) list \<Rightarrow>
    (string \<Rightarrow> int) \<Rightarrow> int \<Rightarrow> claimer \<times> 'w \<Rightarrow> (claimer \<times> 'w) \<times> (nat \<times> string \<times> bool) list" where
  "rebalance_loop cl rh by target want [] taking got cw = (cw, [])"
| "rebalance_loop cl rh by target want ((s, nd) # cands) taking got cw =
     (if got \<ge> want then (cw, [])
      else if by nd - taking nd \<le> target then rebalance_loop cl rh by target want cands taking got cw
      else case rh s nd (snd cw) of
        (w1, False) \<Rightarrow>
          (case rebalance_loop cl rh by target want cands taking got (fst cw, w1) of (cw', asked) \<Rightarrow> (cw', (s, nd, False) # asked))
      | (w1, True) \<Rightarrow>
          (case cl s (fst cw, w1) of
             (cw2, r) \<Rightarrow>
               (if r = Inr True
                then (case rebalance_loop cl rh by target want cands (taking(nd := taking nd + 1)) (got + 1) cw2 of
                        (cw', asked) \<Rightarrow> (cw', (s, nd, True) # asked))
                else (case rebalance_loop cl rh by target want cands taking got cw2 of
                        (cw', asked) \<Rightarrow> (cw', (s, nd, False) # asked)))))"

definition requestRebalance :: "'w claim_call \<Rightarrow> 'w Hooks \<Rightarrow> claimer_cfg \<Rightarrow> taken \<Rightarrow> int \<Rightarrow> int \<Rightarrow> claimer \<times> 'w \<Rightarrow>
    (claimer \<times> 'w) \<times> (nat \<times> string \<times> bool) list" where
  "requestRebalance cl H cfg t target cur cw =
     (case RequestHandoff H of
        None \<Rightarrow> (cw, [])
      | Some rh \<Rightarrow>
          rebalance_loop cl rh (byNode t) target (min (target - cur) maxHandoffPerRound) (candidates cfg t target) (\<lambda>_. 0) 0 cw)"

text \<open>\<open>claimMany\<close>: \<open>order\<close> is the order in which its goroutines run their transactions; the second part counts the
  successes. Which orders are possible is the step relation further down.\<close>

fun claim_seq :: "'w claim_call \<Rightarrow> nat list \<Rightarrow> claimer \<times> 'w \<Rightarrow> (claimer \<times> 'w) \<times> nat" where
  "claim_seq cl [] cw = (cw, 0)"
| "claim_seq cl (s # ss) cw =
     (case cl s cw of (cw1, r) \<Rightarrow> (case claim_seq cl ss cw1 of (cw2, n) \<Rightarrow> (cw2, if r = Inr True then Suc n else n)))"

definition shed :: "'w etcd \<Rightarrow> 'w Hooks \<Rightarrow> claimer_cfg \<Rightarrow> (nat \<Rightarrow> net) \<Rightarrow> int \<Rightarrow> claimer \<times> 'w \<Rightarrow> claimer \<times> 'w" where
  "shed E H cfg ns k cw = fold (\<lambda>s cw. fst (Release E H cfg (ns s) s Graceful cw)) (take (nat k) (rev (sort (Owned (fst cw))))) cw"

datatype scan_action = ScanClaim "nat list" int | ScanRebalance int int | ScanShed int | ScanNothing | ScanPanic

text \<open>What a scan does after \<open>reconcile\<close>. The slice of free shards is made with the capacity \<open>space - len(taken)\<close>, and a
  negative capacity panics.\<close>

definition scan_decide :: "'w Hooks \<Rightarrow> claimer_cfg \<Rightarrow> taken \<Rightarrow> claimer \<times> 'w \<Rightarrow> scan_action" where
  "scan_decide H cfg t cw =
     (let target = targetCount H cfg (snd cw); cur = Count (fst cw); free = free_shards cfg t in
      if int (cc_space cfg) - int (length t) < 0 then ScanPanic
      else if cur < target \<and> length free > 0 then ScanClaim free (target - cur)
      else if cur < target \<and> length free = 0 then ScanRebalance target cur
      else if cur > target \<and> RequestHandoff H = None
           then (if someoneBelow H cfg t target (snd cw) then ScanShed (cur - target) else ScanNothing)
      else ScanNothing)"

definition scanAndClaim :: "'w etcd \<Rightarrow> 'w Hooks \<Rightarrow> claim_json \<Rightarrow> claimer_cfg \<Rightarrow> net \<Rightarrow> (nat \<Rightarrow> net \<times> net) \<Rightarrow> int \<Rightarrow> nat list \<Rightarrow>
    claimer \<times> 'w \<Rightarrow> claimer \<times> 'w" where
  "scanAndClaim E H J cfg n ns now order cw =
     (if cl_stopped (fst cw) \<or> cl_lease (fst cw) = 0 then cw
      else case run n (\<lambda>w. (w, Some (e_range E w (cc_prefix cfg)))) (snd cw) of
        (w1, Inl e) \<Rightarrow> (fst cw, w1)
      | (w1, Inr kvs) \<Rightarrow>
          let t = scan_records J cfg kvs;
              cw1 = reconcile H cfg t (fst cw, w1);
              cl = (\<lambda>s. claim E H J cfg (fst (ns s)) (snd (ns s)) now s)
          in case scan_decide H cfg t cw1 of
               ScanClaim free want \<Rightarrow> fst (claim_seq cl order cw1)
             | ScanRebalance target cur \<Rightarrow> fst (requestRebalance cl H cfg t target cur cw1)
             | ScanShed k \<Rightarrow> shed E H cfg (\<lambda>s. fst (ns s)) k cw1
             | ScanNothing \<Rightarrow> cw1
             | ScanPanic \<Rightarrow> cw1)"

definition Lookup :: "'w etcd \<Rightarrow> claim_json \<Rightarrow> claimer_cfg \<Rightarrow> net \<Rightarrow> nat \<Rightarrow> 'w \<Rightarrow> (claim_rec \<times> int) option result" where
  "Lookup E J cfg n s w =
     (case snd (run n (\<lambda>w. (w, Some (e_get E w (Key cfg s)))) w) of
        Inl e \<Rightarrow> Inl e
      | Inr None \<Rightarrow> Inr None
      | Inr (Some kv) \<Rightarrow>
          (case cj_dec J (kv_Value kv) of None \<Rightarrow> Inl ErrMarshal | Some r \<Rightarrow> Inr (Some (r, kv_CreateRevision kv))))"

definition claimer_Stop :: "'w etcd \<Rightarrow> 'w Hooks \<Rightarrow> claimer_cfg \<Rightarrow> (nat \<Rightarrow> net) \<Rightarrow> net \<Rightarrow> claimer \<times> 'w \<Rightarrow> claimer \<times> 'w" where
  "claimer_Stop E H cfg ns n cw =
     (if cl_stopped (fst cw) then cw
      else let lease = cl_lease (fst cw);
               cw1 = releaseAll E H cfg ns Graceful (fst cw\<lparr>cl_stopped := True\<rparr>, snd cw)
           in if lease \<noteq> 0 then (fst cw1, fst (run n (\<lambda>w. (e_revoke E w lease, Some ())) (snd cw1))) else cw1)"

end
