(* ===== verification/Claim_Laws.thy ===== *)
theory Claim_Laws
  imports Shard_Claim
begin

text \<open>
  What the claimers guarantee together. Whatever any node does, an ownership it gains carries an epoch
  larger than every revision before, so no two owners of a shard ever share an epoch; the epochs of
  successive owners grow. The shares the nodes aim at cover all shards, rebalancing takes no more
  from a node than its surplus, and the concurrent claims of one round overshoot by at most fifteen.
\<close>

section \<open>Keys\<close>

lemma read_digits_zeros: "read_digits 0 (replicate k (CHR ''0'') @ xs) = read_digits 0 xs"
  by (induction k) (simp_all add: digit_val_def)

lemma read_nat_pad4: "read_nat (pad4 n) = Some n"
  using read_nat_show [of n] by (auto simp: pad4_def read_nat_def read_digits_zeros)

text \<open>The shard number survives the way through its key, so a scan sees every claimed shard.\<close>

theorem shard_key_roundtrip: "s < 2 ^ 32 \<Longrightarrow> shardFromKey cfg (Key cfg s) = Some s"
  by (simp add: shardFromKey_def Key_def read_nat_pad4) (simp add: pad4_def)

lemma Key_inject [simp]: "Key cfg s = Key cfg s' \<longleftrightarrow> s = s'"
  using read_nat_pad4 by (auto simp: Key_def) (metis option.inject)

section \<open>How ownership changes\<close>

text \<open>A well-formed claimer lists each shard once, under its own number.\<close>

definition claimer_ok :: "claimer \<Rightarrow> bool" where
  "claimer_ok c \<longleftrightarrow> distinct (map fst (cl_owned c)) \<and> (\<forall>(s, ow)\<in>set (cl_owned c). ow_Shard ow = s)"

text \<open>Hooks touch etcd only the way clients do.\<close>

definition fair_hooks :: "'w etcd \<Rightarrow> 'w Hooks \<Rightarrow> bool" where
  "fair_hooks E H \<longleftrightarrow>
     (\<forall>f ow w. OnAcquire H = Some f \<longrightarrow> etcd_runs E w (fst (f ow w))) \<and>
     (\<forall>f ow r w. OnRelease H = Some f \<longrightarrow> etcd_runs E w (f ow r w)) \<and>
     (\<forall>f s w. OnFreed H = Some f \<longrightarrow> etcd_runs E w (f s w)) \<and>
     (\<forall>f s nd w. RequestHandoff H = Some f \<longrightarrow> etcd_runs E w (fst (f s nd w)))"

text \<open>\<open>grows E cw cw'\<close>: the world moved on, and whatever the claimer owns now it owned before or gained with a fresh
  revision as its epoch.\<close>

definition grows :: "'w etcd \<Rightarrow> claimer \<times> 'w \<Rightarrow> claimer \<times> 'w \<Rightarrow> bool" where
  "grows E cw cw' \<longleftrightarrow> etcd_runs E (snd cw) (snd cw') \<and> (claimer_ok (fst cw) \<longrightarrow> claimer_ok (fst cw')) \<and>
     (\<forall>s ow. map_of (cl_owned (fst cw')) s = Some ow \<longrightarrow>
        map_of (cl_owned (fst cw)) s = Some ow \<or> e_rev E (snd cw) < ow_Epoch ow \<and> ow_Epoch ow \<le> e_rev E (snd cw'))"

named_theorems grow_intros \<open>every operation of a claimer grows\<close>

lemma run_runs: "(\<And>w. etcd_runs E w (fst (f w))) \<Longrightarrow> etcd_runs E w (fst (run n f w))"
  by (simp add: run_state er_refl)

lemma claimer_ok_delete: "claimer_ok c \<Longrightarrow> claimer_ok (c\<lparr>cl_owned := AList.delete s (cl_owned c)\<rparr>)"
  by (auto simp: claimer_ok_def AList.delete_eq distinct_map_filter)

lemma claimer_ok_update:
  "claimer_ok c \<Longrightarrow> ow_Shard ow = s \<Longrightarrow> claimer_ok (c\<lparr>cl_owned := AList.update s ow (cl_owned c)\<rparr>)"
proof -
  have *: "(k', x) \<in> set (AList.update k v al) \<Longrightarrow> (k', x) = (k, v) \<or> (k', x) \<in> set al" for k' k v x and al :: "(nat \<times> Ownership) list"
    by (induction al) (auto split: if_splits)
  assume "claimer_ok c" "ow_Shard ow = s"
  then show ?thesis by (auto simp: claimer_ok_def distinct_update dest!: *)
qed

lemma snd_case_cons: "snd (case p of (a, b) \<Rightarrow> (a, x # b)) = x # snd p"
  by (simp split: prod.splits)

lemma fst_case_keep: "fst (case p of (a, b) \<Rightarrow> (a, f b)) = fst p"
  by (simp split: prod.splits)

context etcd_api
begin

lemma grows_refl [grow_intros]: "grows E cw cw"
  by (simp add: grows_def er_refl)

lemma grows_world: "etcd_runs E w w' \<Longrightarrow> grows E (c, w) (c, w')"
  by (simp add: grows_def)

lemma grows_trans:
  assumes "grows E a b" "grows E b c" "e_ok E (snd a)"
  shows "grows E a c"
  using assms runs_rev [of "snd a" "snd b"] runs_rev [of "snd b" "snd c"] runs_ok [of "snd a" "snd b"] etcd_runs_trans
  unfolding grows_def by (smt (verit, best) order_trans order_less_le_trans order_le_less_trans)

lemma grows_dropLocal:
  assumes "fair_hooks E H"
  shows "grows E cw (dropLocal H ow r cw)"
proof -
  have "etcd_runs E (snd cw) (snd (dropLocal H ow r cw))"
    using assms by (auto simp: dropLocal_def fair_hooks_def er_refl split: option.splits)
  then show ?thesis by (auto simp: grows_def dropLocal_def claimer_ok_delete delete_conv' split: if_splits)
qed

lemma del_key_runs: "etcd_runs E w (fst (del_key E n k w))"
  unfolding del_key_def by (rule run_runs) (simp add: er_del er_refl)

lemma txn_create_Some:
  assumes "txn_create E k v l w = (w1, Some (Some e))"
  shows "e_get E w k = None" "w1 = e_put E w k v l" "e = e_rev E w + 1" "e_rev E w1 = e"
  using assms by (auto simp: txn_create_def rev_put split: if_splits)

lemma claim_cases:
  assumes "claim E H J cfg n1 n2 now s cw = (cw', r)"
  obtains (none) "fst cw' = fst cw" "etcd_runs E (snd cw) (snd cw')" "r \<noteq> Inr True"
  | (got) w1 ow where "e_get E (snd cw) (Key cfg s) = None" "ow = \<lparr>ow_Shard = s, ow_Epoch = e_rev E (snd cw) + 1, ow_Node = cc_node cfg\<rparr>"
      "etcd_runs E (snd cw) w1" "e_rev E w1 = ow_Epoch ow" "r = Inr True"
      "fst cw' = fst cw\<lparr>cl_owned := AList.update s ow (cl_owned (fst cw))\<rparr>"
      "(OnAcquire H = None \<and> snd cw' = w1) \<or> (\<exists>f. OnAcquire H = Some f \<and> f ow w1 = (snd cw', True))"
  | (undone) w1 w2 ow f where "e_rev E w1 = ow_Epoch ow" "ow_Shard ow = s" "e_rev E (snd cw) < ow_Epoch ow" "etcd_runs E (snd cw) w1"
      "OnAcquire H = Some f" "f ow w1 = (w2, False)" "r = Inl ErrAcquire"
      "cw' = (fst (dropLocal H ow StartFailed (fst cw\<lparr>cl_owned := AList.update s ow (cl_owned (fst cw))\<rparr>, w2)),
              fst (del_key E n2 (Key cfg s) (snd (dropLocal H ow StartFailed (fst cw\<lparr>cl_owned := AList.update s ow (cl_owned (fst cw))\<rparr>, w2)))))"
proof -
  let ?txn = "txn_create E (Key cfg s) (cj_enc J \<lparr>cl_Node = cc_node cfg, cl_Since = now\<rparr>) (cl_lease (fst cw))"
  obtain w1 q where q: "run n1 ?txn (snd cw) = (w1, q)" by fastforce
  have runs: "etcd_runs E (snd cw) w1" using run_runs [of E ?txn "snd cw" n1] txn_create_runs q by simp
  consider (lease) "cl_lease (fst cw) = 0" | (err) e where "cl_lease (fst cw) \<noteq> 0" "q = Inl e"
    | (taken) "cl_lease (fst cw) \<noteq> 0" "q = Inr None" | (won) e where "cl_lease (fst cw) \<noteq> 0" "q = Inr (Some e)"
    by (cases q; cases "projr q"; cases "cl_lease (fst cw) = 0") auto
  then show ?thesis
  proof cases
    case lease
    then have "cw' = cw" "r = Inl ErrNoLease" using assms by (simp_all add: claim_def)
    then show ?thesis by (intro none) (simp_all add: er_refl)
  next
    case (err e)
    then have "cw' = (fst cw, w1)" "r = Inl ErrTxn" using assms q by (simp_all add: claim_def Let_def)
    then show ?thesis using runs by (intro none) simp_all
  next
    case taken
    then have "cw' = (fst cw, w1)" "r = Inr False" using assms q by (simp_all add: claim_def Let_def)
    then show ?thesis using runs by (intro none) simp_all
  next
    case (won e)
    then have t: "?txn (snd cw) = (w1, Some (Some e))" using q by (simp add: run_Inr)
    note c = txn_create_Some [OF t]
    define ow where "ow = \<lparr>ow_Shard = s, ow_Epoch = e, ow_Node = cc_node cfg\<rparr>"
    define c1 where "c1 = fst cw\<lparr>cl_owned := AList.update s ow (cl_owned (fst cw))\<rparr>"
    have eq: "claim E H J cfg n1 n2 now s cw = (case OnAcquire H of None \<Rightarrow> ((c1, w1), Inr True)
        | Some f \<Rightarrow> (case f ow w1 of (w2, True) \<Rightarrow> ((c1, w2), Inr True)
            | (w2, False) \<Rightarrow> (case dropLocal H ow StartFailed (c1, w2) of
                (c3, w3) \<Rightarrow> ((c3, fst (del_key E n2 (Key cfg s) w3)), Inl ErrAcquire))))"
      using won q unfolding claim_def Let_def ow_def c1_def by simp
    have ow: "ow_Epoch ow = e" "ow_Shard ow = s" "ow = \<lparr>ow_Shard = s, ow_Epoch = e_rev E (snd cw) + 1, ow_Node = cc_node cfg\<rparr>"
      using c(3) by (simp_all add: ow_def)
    show ?thesis
    proof (cases "OnAcquire H")
      case None
      then have "cw' = (c1, w1)" "r = Inr True" using eq assms by simp_all
      then show ?thesis using c ow runs None c1_def by (intro got [of ow w1]) simp_all
    next
      case (Some f)
      obtain w2 b where f: "f ow w1 = (w2, b)" by fastforce
      show ?thesis
      proof (cases b)
        case True
        then have "cw' = (c1, w2)" "r = Inr True" using eq assms Some f by simp_all
        then show ?thesis using c ow runs Some f True c1_def by (intro got [of ow w1]) simp_all
      next
        case False
        obtain c3 w3 where d: "dropLocal H ow StartFailed (c1, w2) = (c3, w3)" by fastforce
        have "cw' = (c3, fst (del_key E n2 (Key cfg s) w3))" "r = Inl ErrAcquire" using eq assms Some f False d by simp_all
        then show ?thesis using c ow runs Some f False d c1_def by (intro undone [of w1 ow f w2]) simp_all
      qed
    qed
  qed
qed

lemma grows_claim:
  assumes "fair_hooks E H" "e_ok E (snd cw)"
  shows "grows E cw (fst (claim E H J cfg n1 n2 now s cw))"
proof -
  obtain cw' r where c: "claim E H J cfg n1 n2 now s cw = (cw', r)" by fastforce
  from c show ?thesis
  proof (cases rule: claim_cases)
    case none
    then show ?thesis using c by (simp add: grows_def)
  next
    case (got w1 ow)
    have r: "etcd_runs E w1 (snd cw')" using got(7) assms(1) by (auto simp: fair_hooks_def er_refl) (metis fst_conv)
    then have "e_rev E w1 \<le> e_rev E (snd cw')" using runs_rev runs_ok got(3) assms(2) by blast
    then show ?thesis using c got r etcd_runs_trans [OF r got(3)] by (auto simp: grows_def update_conv' claimer_ok_update split: if_splits)
  next
    case (undone w1 w2 ow f)
    let ?c1 = "fst cw\<lparr>cl_owned := AList.update s ow (cl_owned (fst cw))\<rparr>"
    have w2: "etcd_runs E w1 w2" using undone(5,6) assms(1) unfolding fair_hooks_def by (metis fst_conv)
    have d: "dropLocal H ow StartFailed (?c1, w2) = (?c1\<lparr>cl_owned := AList.delete s (cl_owned ?c1)\<rparr>,
        snd (dropLocal H ow StartFailed (?c1, w2)))"
      using undone(2) by (auto simp: dropLocal_def update_conv')
    have w3: "etcd_runs E w2 (snd (dropLocal H ow StartFailed (?c1, w2)))"
      using grows_dropLocal [OF assms(1), of "(?c1, w2)"] by (simp add: grows_def)
    have "etcd_runs E (snd cw) (snd cw')"
      using undone(4,8) w2 w3 del_key_runs etcd_runs_trans by (metis snd_conv)
    moreover have "fst cw' = fst cw\<lparr>cl_owned := AList.delete s (AList.update s ow (cl_owned (fst cw)))\<rparr>"
      using undone(8) d by (metis (no_types, lifting) claimer.select_convs(1) claimer.surjective claimer.update_convs(1) fst_conv)
    ultimately show ?thesis using c undone(2)
      by (auto simp: grows_def delete_conv' update_conv' claimer_ok_delete claimer_ok_update
          dest: claimer_ok_update [THEN claimer_ok_delete, of "fst cw" ow s s, simplified])
  qed
qed

lemma grows_fold:
  assumes "\<And>x cw. e_ok E (snd cw) \<Longrightarrow> grows E cw (f x cw)" "e_ok E (snd cw)"
  shows "grows E cw (fold f xs cw)"
  using assms(2)
proof (induction xs arbitrary: cw)
  case (Cons x xs)
  have g: "grows E cw (f x cw)" using assms(1) Cons.prems by blast
  then have "e_ok E (snd (f x cw))" using runs_ok Cons.prems by (auto simp: grows_def)
  then show ?case using grows_trans [OF g Cons.IH] Cons.prems by simp
qed (simp add: grows_refl)

lemma grows_Release:
  assumes "fair_hooks E H" "e_ok E (snd cw)"
  shows "grows E cw (fst (Release E H cfg n s r cw))"
proof (cases "map_of (cl_owned (fst cw)) s")
  case None
  then show ?thesis by (simp add: Release_def grows_refl)
next
  case (Some ow)
  obtain c1 w1 where d: "dropLocal H ow r cw = (c1, w1)" by fastforce
  obtain w2 q where k: "del_key E n (Key cfg s) w1 = (w2, q)" by fastforce
  have g: "grows E cw (c1, w1)" using grows_dropLocal [OF assms(1)] d by metis
  have k2: "etcd_runs E w1 w2" using del_key_runs [of w1 n "Key cfg s"] k by simp
  have "etcd_runs E w2 (case OnFreed H of None \<Rightarrow> w2 | Some f \<Rightarrow> f s w2)"
    using assms(1) by (auto simp: fair_hooks_def er_refl split: option.splits)
  then have "grows E (c1, w1) (fst (Release E H cfg n s r cw))"
    using Some d k k2 etcd_runs_trans by (auto simp: Release_def intro!: grows_world split: sum.splits unit.splits)
  then show ?thesis using grows_trans [OF g] assms(2) by simp
qed

lemma grows_Fence: "fair_hooks E H \<Longrightarrow> grows E cw (Fence H s cw)"
  by (simp add: Fence_def grows_refl grows_dropLocal split: option.splits)

lemma grows_releaseAll:
  assumes "fair_hooks E H" "e_ok E (snd cw)"
  shows "grows E cw (releaseAll E H cfg ns r cw)"
  unfolding releaseAll_def
proof (rule grows_fold [OF _ assms(2)])
  show "grows E cw (release_one E H cfg ns r x cw)" if "e_ok E (snd cw)" for x cw
    using grows_Release [OF assms(1) that] grows_dropLocal [OF assms(1)]
    by (auto simp: release_one_def grows_refl split: option.splits)
qed

lemma grows_newLease: "grows E cw (fst (newLease E n cw))"
proof -
  obtain w' q where q: "run n (\<lambda>w. case e_grant E w of (w', l) \<Rightarrow> (w', Some l)) (snd cw) = (w', q)" by fastforce
  have "fst (case e_grant E w of (w', l) \<Rightarrow> (w', Some l)) = fst (e_grant E w)" for w by (simp split: prod.splits)
  then have "etcd_runs E (snd cw) w'"
    using run_runs [of E "\<lambda>w. case e_grant E w of (w', l) \<Rightarrow> (w', Some l)" "snd cw" n] q er_grant [OF er_refl, of E] by simp
  then show ?thesis using q by (auto simp: newLease_def grows_def claimer_ok_def split: sum.splits)
qed

lemma grows_keepAlive:
  assumes "fair_hooks E H" "e_ok E (snd cw)"
  shows "grows E cw (snd (keepAlive_tick E H cfg ns n r fails cw))"
  using grows_trans [OF grows_releaseAll [OF assms, of cfg ns LeaseLost] grows_newLease assms(2)]
  by (simp add: keepAlive_tick_def grows_refl)

lemma grows_reconcile:
  assumes "fair_hooks E H" "e_ok E (snd cw)"
  shows "grows E cw (reconcile H cfg t cw)"
  unfolding reconcile_def by (rule grows_fold [OF _ assms(2)]) (rule grows_dropLocal [OF assms(1)])

lemma grows_claim_seq:
  assumes "\<And>s cw. e_ok E (snd cw) \<Longrightarrow> grows E cw (fst (cl s cw))" "e_ok E (snd cw)"
  shows "grows E cw (fst (claim_seq cl ss cw))"
  using assms(2)
proof (induction ss arbitrary: cw)
  case (Cons s ss)
  obtain cw1 r where c: "cl s cw = (cw1, r)" by fastforce
  have g: "grows E cw cw1" using assms(1) [OF Cons.prems, of s] c by simp
  then have "e_ok E (snd cw1)" using runs_ok Cons.prems by (auto simp: grows_def)
  then show ?case using grows_trans [OF g Cons.IH Cons.prems] c by (cases "claim_seq cl ss cw1") simp
qed (simp add: grows_refl)

lemma grows_rebalance_loop:
  assumes "\<And>s cw. e_ok E (snd cw) \<Longrightarrow> grows E cw (fst (cl s cw))" "\<And>s nd w. etcd_runs E w (fst (rh s nd w))"
    "e_ok E (snd cw)"
  shows "grows E cw (fst (rebalance_loop cl rh by target want cands taking got cw))"
  using assms(3)
proof (induction cands arbitrary: taking got cw)
  case (Cons x cands)
  obtain s nd where x: "x = (s, nd)" by fastforce
  obtain w1 b where h: "rh s nd (snd cw) = (w1, b)" by fastforce
  obtain cw2 r where c: "cl s (fst cw, w1) = (cw2, r)" by fastforce
  have g1: "grows E cw (fst cw, w1)" using grows_world [of "snd cw" w1 "fst cw"] assms(2) [of "snd cw" s nd] h by simp
  have ok1: "e_ok E (snd (fst cw, w1))" using g1 runs_ok Cons.prems by (auto simp: grows_def)
  have g2: "grows E (fst cw, w1) cw2" using assms(1) [OF ok1, of s] c by simp
  have ok2: "e_ok E (snd cw2)" using g2 runs_ok ok1 by (auto simp: grows_def)
  have g02: "grows E cw cw2" using grows_trans [OF g1 g2 Cons.prems] .
  note ih0 = Cons.IH [OF Cons.prems] and ih1 = grows_trans [OF g1 Cons.IH [OF ok1] Cons.prems]
    and ih2 = grows_trans [OF g02 Cons.IH [OF ok2] Cons.prems]
  show ?case using ih0 ih1 ih2 h c by (cases b) (simp_all add: x grows_refl fst_case_keep)
qed (simp add: grows_refl)

lemma grows_shed:
  assumes "fair_hooks E H" "e_ok E (snd cw)"
  shows "grows E cw (shed E H cfg ns k cw)"
  unfolding shed_def by (rule grows_fold [OF grows_Release [OF assms(1)] assms(2)])

lemma grows_scan:
  assumes "fair_hooks E H" "e_ok E (snd cw)"
  shows "grows E cw (scanAndClaim E H J cfg n ns now order cw)"
proof -
  obtain w1 q where q: "run n (\<lambda>w. (w, Some (e_range E w (cc_prefix cfg)))) (snd cw) = (w1, q)" by fastforce
  have w1: "w1 = snd cw" using q by (cases n) (auto simp: run_def)
  show ?thesis
  proof (cases "cl_stopped (fst cw) \<or> cl_lease (fst cw) = 0 \<or> (\<exists>e. q = Inl e)")
    case True
    then show ?thesis using q w1 by (auto simp: scanAndClaim_def grows_refl)
  next
    case False
    then obtain kvs where kvs: "q = Inr kvs" by (cases q) auto
    define t where "t = scan_records J cfg kvs"
    define cw1 where "cw1 = reconcile H cfg t (fst cw, w1)"
    define cl where "cl = (\<lambda>s. claim E H J cfg (fst (ns s)) (snd (ns s)) now s)"
    have g: "grows E cw cw1" using grows_reconcile [OF assms] by (simp add: cw1_def w1)
    have ok: "e_ok E (snd cw1)" using g runs_ok assms(2) by (auto simp: grows_def)
    have c: "grows E x (fst (cl s x))" if "e_ok E (snd x)" for x s using grows_claim [OF assms(1) that] by (simp add: cl_def)
    have "grows E cw1 (fst (requestRebalance cl H cfg t target cur cw1))" for target cur
    proof (cases "RequestHandoff H")
      case (Some rh)
      then have "etcd_runs E w (fst (rh s nd w))" for s nd w using assms(1) by (simp add: fair_hooks_def)
      then show ?thesis using Some grows_rebalance_loop [OF c _ ok] by (simp add: requestRebalance_def)
    qed (simp add: requestRebalance_def grows_refl)
    then have "grows E cw1 (case scan_decide H cfg t cw1 of
        ScanClaim free want \<Rightarrow> fst (claim_seq cl order cw1) | ScanRebalance target cur \<Rightarrow> fst (requestRebalance cl H cfg t target cur cw1)
      | ScanShed k \<Rightarrow> shed E H cfg (\<lambda>s. fst (ns s)) k cw1 | ScanNothing \<Rightarrow> cw1 | ScanPanic \<Rightarrow> cw1)"
      using grows_claim_seq [OF c ok] grows_shed [OF assms(1) ok] grows_refl by (simp split: scan_action.splits)
    moreover have "scanAndClaim E H J cfg n ns now order cw = (case scan_decide H cfg t cw1 of
        ScanClaim free want \<Rightarrow> fst (claim_seq cl order cw1) | ScanRebalance target cur \<Rightarrow> fst (requestRebalance cl H cfg t target cur cw1)
      | ScanShed k \<Rightarrow> shed E H cfg (\<lambda>s. fst (ns s)) k cw1 | ScanNothing \<Rightarrow> cw1 | ScanPanic \<Rightarrow> cw1)"
      using False q kvs unfolding t_def cw1_def cl_def scanAndClaim_def Let_def by (simp split: scan_action.splits)
    ultimately show ?thesis using grows_trans [OF g _ assms(2)] by simp
  qed
qed

lemma grows_Stop:
  assumes "fair_hooks E H" "e_ok E (snd cw)"
  shows "grows E cw (claimer_Stop E H cfg ns n cw)"
proof -
  let ?c = "(fst cw\<lparr>cl_stopped := True\<rparr>, snd cw)"
  have g: "grows E cw ?c" by (simp add: grows_def er_refl claimer_ok_def)
  have r: "grows E cw (releaseAll E H cfg ns Graceful ?c)"
    using grows_trans [OF g grows_releaseAll [OF assms(1)] assms(2)] assms(2) by simp
  let ?cw1 = "releaseAll E H cfg ns Graceful ?c"
  have "etcd_runs E (snd ?cw1) (fst (run n (\<lambda>w. (e_revoke E w (cl_lease (fst cw)), Some ())) (snd ?cw1)))"
    by (rule run_runs) (simp add: er_revoke er_refl)
  then have "grows E ?cw1 (fst ?cw1, fst (run n (\<lambda>w. (e_revoke E w (cl_lease (fst cw)), Some ())) (snd ?cw1)))"
    by (metis grows_world prod.collapse)
  then show ?thesis using r grows_trans [OF r _ assms(2)] by (simp add: claimer_Stop_def Let_def grows_refl)
qed

end

section \<open>All nodes together\<close>

datatype claimer_op =
    OpScan net "nat \<Rightarrow> net \<times> net" int "nat list"
  | OpRelease net nat ReleaseReason
  | OpFence nat
  | OpLease net
  | OpKeepAlive "nat \<Rightarrow> net" net keepalive nat
  | OpStop "nat \<Rightarrow> net" net

fun claimer_exec :: "'w etcd \<Rightarrow> 'w Hooks \<Rightarrow> claim_json \<Rightarrow> claimer_cfg \<Rightarrow> claimer_op \<Rightarrow> claimer \<times> 'w \<Rightarrow> claimer \<times> 'w" where
  "claimer_exec E H J cfg (OpScan n ns now order) cw = scanAndClaim E H J cfg n ns now order cw"
| "claimer_exec E H J cfg (OpRelease n s r) cw = fst (Release E H cfg n s r cw)"
| "claimer_exec E H J cfg (OpFence s) cw = Fence H s cw"
| "claimer_exec E H J cfg (OpLease n) cw = fst (newLease E n cw)"
| "claimer_exec E H J cfg (OpKeepAlive ns n r fails) cw = snd (keepAlive_tick E H cfg ns n r fails cw)"
| "claimer_exec E H J cfg (OpStop ns n) cw = claimer_Stop E H cfg ns n cw"

text \<open>A cluster: the claimers of all nodes and the world. Node \<open>a\<close> has its own configuration and hooks.\<close>

record 'w node_env =
  ne_hooks :: "'w Hooks"
  ne_cfg :: claimer_cfg

inductive cluster :: "'w etcd \<Rightarrow> claim_json \<Rightarrow> (nat \<Rightarrow> 'w node_env) \<Rightarrow> (nat \<Rightarrow> claimer) \<times> 'w \<Rightarrow> bool" for E J N where
  start: "e_ok E w \<Longrightarrow> (\<And>a. cl_owned (cs a) = []) \<Longrightarrow> cluster E J N (cs, w)"
| act: "cluster E J N (cs, w) \<Longrightarrow> claimer_exec E (ne_hooks (N a)) J (ne_cfg (N a)) op (cs a, w) = (c', w') \<Longrightarrow>
     cluster E J N (cs(a := c'), w')"
| world: "cluster E J N (cs, w) \<Longrightarrow> etcd_runs E w w' \<Longrightarrow> cluster E J N (cs, w')"

text \<open>The invariant: every epoch held is a revision of the past, and two nodes never hold the same epoch of a shard.\<close>

definition epochs_apart :: "'w etcd \<Rightarrow> (nat \<Rightarrow> claimer) \<times> 'w \<Rightarrow> bool" where
  "epochs_apart E st \<longleftrightarrow> e_ok E (snd st) \<and>
     (\<forall>a s ow. map_of (cl_owned (fst st a)) s = Some ow \<longrightarrow> ow_Epoch ow \<le> e_rev E (snd st)) \<and>
     (\<forall>a b s ow ow'. a \<noteq> b \<longrightarrow> map_of (cl_owned (fst st a)) s = Some ow \<longrightarrow> map_of (cl_owned (fst st b)) s = Some ow' \<longrightarrow>
        ow_Epoch ow \<noteq> ow_Epoch ow')"

context etcd_api
begin

lemma grows_exec:
  "fair_hooks E H \<Longrightarrow> e_ok E (snd cw) \<Longrightarrow> grows E cw (claimer_exec E H J cfg op cw)"
  by (cases op) (simp_all add: grows_scan grows_Release grows_Fence grows_newLease grows_keepAlive grows_Stop)

lemma epochs_apart_grows:
  assumes "epochs_apart E (cs, w)" "grows E (cs a, w) (c', w')"
  shows "epochs_apart E (cs(a := c'), w')"
proof -
  have ok: "e_ok E w" "e_ok E w'" and rev: "e_rev E w \<le> e_rev E w'"
    using assms runs_ok runs_rev by (auto simp: epochs_apart_def grows_def)
  have old: "ow_Epoch ow \<le> e_rev E w" if "map_of (cl_owned (cs b)) s = Some ow" for b s ow
    using assms(1) that by (auto simp: epochs_apart_def)
  have pair: "ow_Epoch ow \<noteq> ow_Epoch ow'" if "b \<noteq> d" "map_of (cl_owned (cs b)) s = Some ow" "map_of (cl_owned (cs d)) s = Some ow'" for b d s ow ow'
    using assms(1) that unfolding epochs_apart_def by (simp only: fst_conv) blast
  have new: "map_of (cl_owned (cs a)) s = Some ow \<or> e_rev E w < ow_Epoch ow \<and> ow_Epoch ow \<le> e_rev E w'"
    if "map_of (cl_owned c') s = Some ow" for s ow using assms(2) that by (simp add: grows_def)
  have diff: "ow_Epoch ow \<noteq> ow_Epoch ow'" if "b \<noteq> a" "map_of (cl_owned c') s = Some ow" "map_of (cl_owned (cs b)) s = Some ow'" for b s ow ow'
    using new [OF that(2)] old [OF that(3)] pair [OF that(1,3), of ow] by auto
  have le: "ow_Epoch ow \<le> e_rev E w'" if "map_of (cl_owned ((cs(a := c')) b)) s = Some ow" for b s ow
    using that new [of s ow] old [of b s ow] old [of a s ow] rev by (cases "b = a") fastforce+
  have ne: "ow_Epoch ow \<noteq> ow_Epoch ow'"
    if "b \<noteq> d" "map_of (cl_owned ((cs(a := c')) b)) s = Some ow" "map_of (cl_owned ((cs(a := c')) d)) s = Some ow'" for b d s ow ow'
    using that diff [of d s ow ow'] diff [of b s ow' ow] pair [of b d s ow ow'] by (cases "b = a"; cases "d = a") auto
  show ?thesis unfolding epochs_apart_def using ok(2) le ne by auto
qed

lemma cluster_epochs_apart:
  assumes "cluster E J N st" "\<And>a. fair_hooks E (ne_hooks (N a))"
  shows "epochs_apart E st"
  using assms(1)
proof (induction rule: cluster.induct)
  case (start w cs)
  then show ?case by (simp add: epochs_apart_def)
next
  case (act cs w a op c' w')
  have "grows E (cs a, w) (c', w')"
    using grows_exec [OF assms(2), of "(cs a, w)" a J _ op] act by (simp add: epochs_apart_def) (metis)
  then show ?case using epochs_apart_grows act.IH by blast
next
  case (world cs w w')
  then show ?case using runs_ok runs_rev [of w w'] by (auto simp: epochs_apart_def) (meson order_trans)
qed

end

section \<open>Properties\<close>


definition no_hooks :: "'w Hooks" where
  "no_hooks = \<lparr>OnAcquire = None, OnRelease = None, OnFreed = None, LiveNodes = None, RequestHandoff = None\<rparr>"

definition blank_json :: claim_json where
  "blank_json = \<lparr>cj_enc = (\<lambda>r. cl_Node r), cj_dec = (\<lambda>b. Some \<lparr>cl_Node = b, cl_Since = 0\<rparr>)\<rparr>"

definition demo_cfg :: "nat \<Rightarrow> claimer_cfg" where
  "demo_cfg a = \<lparr>cc_node = show_nat a, cc_prefix = ''/'', cc_space = 1, cc_maxOwn = 0\<rparr>"

lemma fair_no_hooks [simp]: "fair_hooks E no_hooks"
  by (simp add: fair_hooks_def no_hooks_def)



section \<open>Shares\<close>

text \<open>The shares the nodes aim at cover the whole space and waste nothing: with \<open>n\<close> live nodes \<open>n\<close> shares are at least
  the number of shards, and with shares smaller by one the nodes together could not hold them all.\<close>

theorem shares_cover_all_shards:
  assumes "cc_maxOwn cfg \<le> 0" "live_count H w = n" "0 < n" "0 < cc_space cfg"
  shows "int (cc_space cfg) \<le> n * targetCount H cfg w \<and> n * (targetCount H cfg w - 1) < int (cc_space cfg)"
proof -
  let ?t = "(int (cc_space cfg) + n - 1) div n"
  have t: "targetCount H cfg w = ?t" using assms by (simp add: targetCount_def go_div_nonneg)
  define m where "m = (int (cc_space cfg) + n - 1) mod n"
  have "n * ?t + m = int (cc_space cfg) + n - 1" unfolding m_def by (rule mult_div_mod_eq)
  moreover have "m < n" "0 \<le> m" using assms by (simp_all add: m_def)
  moreover have "n * (?t - 1) = n * ?t - n" by (rule right_diff_distrib [of n ?t 1, simplified])
  ultimately show ?thesis unfolding t by linarith
qed

theorem shares_cover_all_shards_witness:
  "1024 \<le> 3 * targetCount (no_hooks\<lparr>LiveNodes := Some (\<lambda>w. 3)\<rparr>) (demo_cfg 0\<lparr>cc_space := 1024\<rparr>) ()
   \<and> targetCount (no_hooks\<lparr>LiveNodes := Some (\<lambda>w. 3)\<rparr>) (demo_cfg 0\<lparr>cc_space := 1024\<rparr>) () = 342"
  using shares_cover_all_shards [of "demo_cfg 0\<lparr>cc_space := 1024\<rparr>" "no_hooks\<lparr>LiveNodes := Some (\<lambda>w. 3)\<rparr>" "()" 3]
  by (simp add: demo_cfg_def live_count_def no_hooks_def targetCount_def go_div_def)

section \<open>Rebalancing\<close>

definition taken_from :: "string \<Rightarrow> (nat \<times> string \<times> bool) list \<Rightarrow> nat" where
  "taken_from nd asked = length (filter (\<lambda>(s, n, ok). n = nd \<and> ok) asked)"

definition takes :: "(nat \<times> string \<times> bool) list \<Rightarrow> nat" where
  "takes asked = length (filter (\<lambda>(s, n, ok). ok) asked)"

lemma rebalance_loop_bounds:
  "rebalance_loop cl rh by target want cands taking got cw = (cw', asked) \<Longrightarrow>
     int (taken_from nd asked) \<le> max 0 (by nd - taking nd - target) \<and> int (takes asked) \<le> max 0 (want - got)"
proof (induction cands arbitrary: taking got cw cw' asked)
  case (Cons x cands)
  obtain s m where x: "x = (s, m)" by fastforce
  show ?case
  proof (cases "got \<ge> want \<or> by m - taking m \<le> target")
    case True
    show ?thesis
    proof (cases "got \<ge> want")
      case False
      then have "rebalance_loop cl rh by target want cands taking got cw = (cw', asked)" using True Cons.prems x by simp
      then show ?thesis using Cons.IH by blast
    qed (use Cons.prems x in \<open>simp add: taken_from_def takes_def\<close>)
  next
    case False
    obtain w1 b where h: "rh s m (snd cw) = (w1, b)" by fastforce
    obtain cw2 r where c: "cl s (fst cw, w1) = (cw2, r)" by fastforce
    show ?thesis
    proof (cases "b \<and> r = Inr True")
      case True
      then obtain rest where r: "rebalance_loop cl rh by target want cands (taking(m := taking m + 1)) (got + 1) cw2 = (cw', rest)"
        "asked = (s, m, True) # rest" using Cons.prems False h c x by (auto split: prod.splits)
      show ?thesis using Cons.IH [OF r(1)] r(2) False by (cases "m = nd") (auto simp: taken_from_def takes_def)
    next
      case False
      note nf = False
      obtain rest cw3 where r: "rebalance_loop cl rh by target want cands taking got cw3 = (cw', rest)" "asked = (s, m, False) # rest"
        using Cons.prems \<open>\<not> (got \<ge> want \<or> by m - taking m \<le> target)\<close> h c x nf by (cases b) (auto split: prod.splits)
      show ?thesis using Cons.IH [OF r(1)] r(2) by (auto simp: taken_from_def takes_def)
    qed
  qed
qed (simp add: taken_from_def takes_def)

text \<open>Rebalancing is modest: in one round a node takes at most eight shards, at most what it lacks, and from each
  other node at most what that node has above the share.\<close>

theorem rebalance_takes_only_the_surplus:
  assumes "requestRebalance cl H cfg t target cur cw = (cw', asked)" "cur < target"
  shows "takes asked \<le> 8 \<and> int (takes asked) \<le> target - cur \<and> int (taken_from nd asked) \<le> max 0 (byNode t nd - target)"
proof (cases "RequestHandoff H")
  case None
  then show ?thesis using assms by (simp add: requestRebalance_def takes_def taken_from_def)
next
  case (Some rh)
  then show ?thesis using assms rebalance_loop_bounds [of cl rh "byNode t" target "min (target - cur) maxHandoffPerRound"
      "candidates cfg t target" "\<lambda>_. 0" 0 cw cw' asked nd]
    by (simp add: requestRebalance_def maxHandoffPerRound_def)
qed

definition crowded :: taken where
  "crowded = map (\<lambda>s. (s, \<lparr>cl_Node = ''b'', cl_Since = 0\<rparr>, 1)) [0, 1, 2]"

theorem rebalance_takes_only_the_surplus_witness:
  "\<exists>cw' asked. requestRebalance (\<lambda>s cw. (cw, Inr True)) (no_hooks\<lparr>RequestHandoff := Some (\<lambda>s nd w. (w, True))\<rparr>) (demo_cfg 0) crowded 2 0
      (\<lparr>cl_owned = [], cl_lease = 1, cl_stopped = False\<rparr>, ()) = (cw', asked)
    \<and> asked = [(0, ''b'', True)] \<and> int (taken_from ''b'' asked) \<le> max 0 (byNode crowded ''b'' - 2)"
proof -
  obtain cw' asked where r: "requestRebalance (\<lambda>s cw. (cw, Inr True)) (no_hooks\<lparr>RequestHandoff := Some (\<lambda>s nd w. (w, True))\<rparr>) (demo_cfg 0)
      crowded 2 0 (\<lparr>cl_owned = [], cl_lease = 1, cl_stopped = False\<rparr>, ()) = (cw', asked)" by (metis prod.exhaust)
  have "show_nat 0 = ''0''" by code_simp
  then have "asked = [(0, ''b'', True)]" using r
    by (simp add: requestRebalance_def no_hooks_def crowded_def candidates_def byNode_def demo_cfg_def maxHandoffPerRound_def sort_key_simps)
  moreover have "int (taken_from ''b'' asked) \<le> max 0 (byNode crowded ''b'' - 2)"
    using rebalance_takes_only_the_surplus [OF r, of "''b''"] by linarith
  ultimately show ?thesis using r by blast
qed

text \<open>A shard that was given up but not won is not counted against its node: when another node is faster at every claim, a
  round asks the overloaded node for all its shards, however small its surplus is.\<close>

lemma rebalance_loop_uncounted:
  assumes "\<And>s cw. snd (cl s cw) \<noteq> Inr True" "got < want" "\<forall>(s, nd)\<in>set cands. by nd - taking nd > target"
  shows "map (\<lambda>(s, nd, b). (s, nd)) (snd (rebalance_loop cl rh by target want cands taking got cw)) = cands"
  using assms(3)
proof (induction cands arbitrary: cw)
  case (Cons x cands)
  obtain s m where x: "x = (s, m)" by fastforce
  obtain w1 b where h: "rh s m (snd cw) = (w1, b)" by fastforce
  obtain cw2 r where c: "cl s (fst cw, w1) = (cw2, r)" by fastforce
  have r: "r \<noteq> Inr True" using assms(1) [of s "(fst cw, w1)"] c by simp
  have cands: "\<forall>(s, nd)\<in>set cands. by nd - taking nd > target" and m: "\<not> by m - taking m \<le> target" using Cons.prems x by auto
  have "snd (rebalance_loop cl rh by target want (x # cands) taking got cw)
      = (s, m, False) # snd (rebalance_loop cl rh by target want cands taking got (if b then cw2 else (fst cw, w1)))"
    using assms(2) m h c r by (cases b) (simp_all add: x snd_case_cons)
  then show ?case using Cons.IH [OF cands] x by simp
qed simp

theorem uncounted_handoffs_drain_a_node:
  assumes "RequestHandoff H = Some rh" "\<And>s cw. snd (cl s cw) \<noteq> Inr True" "cur < target"
  shows "map (\<lambda>(s, nd, b). (s, nd)) (snd (requestRebalance cl H cfg t target cur cw)) = candidates cfg t target"
  unfolding requestRebalance_def
  by (simp add: assms(1), rule rebalance_loop_uncounted)
    (use assms in \<open>auto simp: maxHandoffPerRound_def candidates_def\<close>)

section \<open>Claiming many at once\<close>

text \<open>\<open>claimMany\<close> as it runs: the loop starts goroutines as long as the wanted number is not reached and one of sixteen slots
  is free; a goroutine looks at the count, then claims, then counts. \<open>mn_order\<close> collects the claims in the order
  they are made.\<close>

definition claimConcurrency :: nat where
  "claimConcurrency = 16"

record 'w many =
  mn_todo :: "nat list"
  mn_started :: "nat list"
  mn_claiming :: "nat list"
  mn_results :: "bool list"
  mn_got :: int
  mn_order :: "nat list"
  mn_cw :: "claimer \<times> 'w"

definition in_flight :: "'w many \<Rightarrow> nat" where
  "in_flight m = length (mn_started m) + length (mn_claiming m) + length (mn_results m)"

inductive many_step :: "'w claim_call \<Rightarrow> int \<Rightarrow> 'w many \<Rightarrow> 'w many \<Rightarrow> bool" for cl want where
  launch: "mn_got m < want \<Longrightarrow> mn_todo m = s # ss \<Longrightarrow> in_flight m < claimConcurrency \<Longrightarrow>
     many_step cl want m (m\<lparr>mn_todo := ss, mn_started := s # mn_started m\<rparr>)"
| stop: "mn_got m \<ge> want \<Longrightarrow> many_step cl want m (m\<lparr>mn_todo := []\<rparr>)"
| over: "s \<in> set (mn_started m) \<Longrightarrow> mn_got m \<ge> want \<Longrightarrow> many_step cl want m (m\<lparr>mn_started := remove1 s (mn_started m)\<rparr>)"
| check: "s \<in> set (mn_started m) \<Longrightarrow> mn_got m < want \<Longrightarrow>
     many_step cl want m (m\<lparr>mn_started := remove1 s (mn_started m), mn_claiming := s # mn_claiming m\<rparr>)"
| call: "s \<in> set (mn_claiming m) \<Longrightarrow> cl s (mn_cw m) = (cw', r) \<Longrightarrow>
     many_step cl want m (m\<lparr>mn_claiming := remove1 s (mn_claiming m), mn_results := (r = Inr True) # mn_results m,
       mn_order := mn_order m @ [s], mn_cw := cw'\<rparr>)"
| count: "b \<in> set (mn_results m) \<Longrightarrow>
     many_step cl want m (m\<lparr>mn_results := remove1 b (mn_results m), mn_got := mn_got m + (if b then 1 else 0)\<rparr>)"

definition many_start :: "nat list \<Rightarrow> claimer \<times> 'w \<Rightarrow> 'w many" where
  "many_start ss cw = \<lparr>mn_todo = ss, mn_started = [], mn_claiming = [], mn_results = [], mn_got = 0, mn_order = [], mn_cw = cw\<rparr>"

definition many_end :: "'w many \<Rightarrow> bool" where
  "many_end m \<longleftrightarrow> mn_todo m = [] \<and> in_flight m = 0"

abbreviation many_runs :: "'w claim_call \<Rightarrow> int \<Rightarrow> 'w many \<Rightarrow> 'w many \<Rightarrow> bool" where
  "many_runs cl want \<equiv> (many_step cl want)\<^sup>*\<^sup>*"

lemma claim_seq_append:
  "claim_seq cl (a @ b) cw = (case claim_seq cl a cw of (cw1, n) \<Rightarrow> (case claim_seq cl b cw1 of (cw2, k) \<Rightarrow> (cw2, n + k)))"
  by (induction a arbitrary: cw) (auto split: prod.splits)

definition wins :: "bool list \<Rightarrow> nat" where
  "wins bs = length (filter id bs)"

lemma wins_remove: "b \<in> set bs \<Longrightarrow> int (wins (remove1 b bs)) = int (wins bs) - (if b then 1 else 0)"
  by (induction bs) (auto simp: wins_def)

lemma length_remove1_mem: "x \<in> set xs \<Longrightarrow> length (remove1 x xs) + 1 = length xs"
  by (induction xs) auto

lemma wins_le: "wins bs \<le> length bs"
  by (simp add: wins_def)

definition many_inv :: "'w claim_call \<Rightarrow> int \<Rightarrow> claimer \<times> 'w \<Rightarrow> 'w many \<Rightarrow> bool" where
  "many_inv cl want cw0 m \<longleftrightarrow> in_flight m \<le> claimConcurrency \<and> 0 \<le> mn_got m
     \<and> (mn_got m + int (length (mn_claiming m) + wins (mn_results m)) \<le> want + 15 \<or> mn_claiming m = [] \<and> mn_results m = [] \<and> mn_got m = 0)
     \<and> claim_seq cl (mn_order m) cw0 = (mn_cw m, nat (mn_got m) + wins (mn_results m))"

lemma many_step_inv:
  assumes "many_step cl want m m'" "many_inv cl want cw0 m"
  shows "many_inv cl want cw0 m'"
  using assms
proof cases
  case (check s)
  have l: "length (remove1 s (mn_started m)) + 1 = length (mn_started m)"
    using length_remove1_mem [OF check(2)] .
  have w: "wins (mn_results m) \<le> length (mn_results m)" by (rule wins_le)
  have "in_flight m \<le> 16" using assms(2) by (simp add: many_inv_def claimConcurrency_def)
  then have "length (mn_claiming m) + wins (mn_results m) \<le> 15" using l w by (simp add: in_flight_def)
  then show ?thesis using check assms(2) l by (simp add: many_inv_def in_flight_def)
next
  case (call s cw' r)
  have l: "length (remove1 s (mn_claiming m)) + 1 = length (mn_claiming m)" "mn_claiming m \<noteq> []"
    using length_remove1_mem [OF call(2)] call(2) by auto
  have "claim_seq cl (mn_order m @ [s]) cw0 = (cw', nat (mn_got m) + wins ((r = Inr True) # mn_results m))"
    using assms(2) call(3) by (simp add: claim_seq_append many_inv_def wins_def)
  moreover have "wins ((r = Inr True) # mn_results m) \<le> Suc (wins (mn_results m))" by (simp add: wins_def)
  ultimately show ?thesis using call assms(2) l by (auto simp: many_inv_def in_flight_def)
next
  case (count b)
  have l: "length (remove1 b (mn_results m)) + 1 = length (mn_results m)" "mn_results m \<noteq> []"
    using length_remove1_mem [OF count(2)] count(2) by auto
  have w: "b \<Longrightarrow> wins (mn_results m) \<noteq> 0" using count(2) by (auto simp: wins_def filter_empty_conv)
  show ?thesis using count assms(2) l w wins_remove [OF count(2)] by (auto simp: many_inv_def in_flight_def)
next
  case (over s)
  then show ?thesis using assms(2) by (auto simp: many_inv_def in_flight_def length_remove1)
qed (auto simp: many_inv_def in_flight_def claimConcurrency_def)

lemma many_runs_inv: "many_runs cl want m m' \<Longrightarrow> many_inv cl want cw0 m \<Longrightarrow> many_inv cl want cw0 m'"
  by (induction rule: rtranclp_induct) (auto dest: many_step_inv)

text \<open>One round of concurrent claims. However the sixteen goroutines interleave, the outcome is that of claiming some of the
  shards one after the other, the returned count is the number of shards won, and it exceeds the wanted
  number by at most fifteen.\<close>

theorem concurrent_claims_overshoot_is_bounded:
  assumes "many_runs cl want (many_start ss cw) m" "many_end m" "0 < want"
  shows "claim_seq cl (mn_order m) cw = (mn_cw m, nat (mn_got m)) \<and> 0 \<le> mn_got m \<and> mn_got m \<le> want + 15"
proof -
  have "many_inv cl want cw (many_start ss cw)" by (simp add: many_inv_def many_start_def in_flight_def wins_def)
  then have "many_inv cl want cw m" using many_runs_inv assms(1) by blast
  then show ?thesis using assms(2,3) by (auto simp: many_inv_def many_end_def in_flight_def wins_def)
qed

theorem concurrent_claims_overshoot_is_bounded_witness:
  "\<exists>m. many_runs (\<lambda>s cw. (cw, Inr True)) 1 (many_start [0] (\<lparr>cl_owned = [], cl_lease = 1, cl_stopped = False\<rparr>, ())) m \<and> many_end m
     \<and> mn_got m = 1 \<and> mn_got m \<le> 1 + 15"
proof -
  let ?cl = "\<lambda>s (cw :: claimer \<times> unit). (cw, Inr True)"
  let ?cw = "(\<lparr>cl_owned = [], cl_lease = 1, cl_stopped = False\<rparr>, ())"
  define m0 where "m0 = many_start [0] ?cw"
  define m1 where "m1 = m0\<lparr>mn_todo := [], mn_started := [0]\<rparr>"
  define m2 where "m2 = m1\<lparr>mn_started := [], mn_claiming := [0]\<rparr>"
  define m3 where "m3 = m2\<lparr>mn_claiming := [], mn_results := [True], mn_order := [0]\<rparr>"
  define m4 where "m4 = m3\<lparr>mn_results := [], mn_got := 1\<rparr>"
  note ms = m4_def m3_def m2_def m1_def m0_def many_start_def
  have s1: "many_step ?cl 1 m0 m1" using launch [of m0 1 0 "[]" ?cl] by (simp add: ms in_flight_def claimConcurrency_def)
  have s2: "many_step ?cl 1 m1 m2" using check [of 0 m1 1 ?cl] by (simp add: ms)
  have s3: "many_step ?cl 1 m2 m3" using call [of 0 m2 ?cl ?cw "Inr True" 1] by (simp add: ms)
  have s4: "many_step ?cl 1 m3 m4" using count [of True m3 ?cl 1] by (simp add: ms)
  have r: "many_runs ?cl 1 m0 m4"
    using rtranclp.rtrancl_refl s1 s2 s3 s4 by (rule rtranclp.rtrancl_into_rtrancl [THEN rtranclp.rtrancl_into_rtrancl, THEN rtranclp.rtrancl_into_rtrancl, THEN rtranclp.rtrancl_into_rtrancl])
  have e: "many_end m4" "mn_got m4 = 1" by (simp_all add: ms many_end_def in_flight_def)
  show ?thesis using concurrent_claims_overshoot_is_bounded [of ?cl 1 "[0]" ?cw m4] r e unfolding m0_def by (intro exI [of _ m4]) simp
qed

section \<open>Scans and lost replies\<close>

lemma dropLocal_owned: "cl_owned (fst (dropLocal H ow r cw)) = AList.delete (ow_Shard ow) (cl_owned (fst cw))"
  by (auto simp: dropLocal_def map_of_eq_None_iff delete_notin_dom dest: delete_id)

lemma fold_drop_owned:
  "cl_owned (fst (fold (\<lambda>so cw. dropLocal H (snd so) r cw) xs cw)) = filter (\<lambda>so. fst so \<notin> (ow_Shard \<circ> snd) ` set xs) (cl_owned (fst cw))"
proof (induction xs arbitrary: cw)
  case (Cons x xs)
  have "filter (\<lambda>so. fst so \<notin> (ow_Shard \<circ> snd) ` set xs) (AList.delete (ow_Shard (snd x)) (cl_owned (fst cw)))
      = filter (\<lambda>so. fst so \<notin> (ow_Shard \<circ> snd) ` set (x # xs)) (cl_owned (fst cw))"
    unfolding AList.delete_eq filter_filter by (rule filter_cong) auto
  then show ?case using Cons.IH [of "dropLocal H (snd x) r cw"] by (simp add: dropLocal_owned)
qed simp

text \<open>A scan leaves a node only what etcd confirms: exactly those shards stay owned whose record in the scan names
  the node and was created at the epoch the node holds.\<close>

theorem scan_keeps_only_confirmed_shards:
  assumes "claimer_ok c" "reconcile H cfg t (c, w) = (c', w')"
  shows "cl_owned c' = filter (\<lambda>(s, ow). \<exists>r. map_of t s = Some (r, ow_Epoch ow) \<and> cl_Node r = cc_node cfg) (cl_owned c)"
proof -
  let ?st = "filter (is_stale cfg t) (cl_owned c)"
  have c': "cl_owned c' = filter (\<lambda>so. fst so \<notin> (ow_Shard \<circ> snd) ` set ?st) (cl_owned c)"
    using assms(2) fold_drop_owned [of H LeaseLost ?st "(c, w)"] by (simp add: reconcile_def)
  have "so \<in> set (cl_owned c) \<Longrightarrow> (fst so \<in> (ow_Shard \<circ> snd) ` set ?st) \<longleftrightarrow> is_stale cfg t so" for so
  proof
    assume so: "so \<in> set (cl_owned c)" and "fst so \<in> (ow_Shard \<circ> snd) ` set ?st"
    then obtain x where x: "x \<in> set (cl_owned c)" "is_stale cfg t x" "fst so = ow_Shard (snd x)" by auto
    then have "fst so = fst x" using assms(1) by (auto simp: claimer_ok_def)
    then have "so = x" using so x(1) assms(1) by (metis claimer_ok_def eq_key_imp_eq_value prod.collapse)
    then show "is_stale cfg t so" using x(2) by simp
  next
    assume "so \<in> set (cl_owned c)" "is_stale cfg t so"
    then show "fst so \<in> (ow_Shard \<circ> snd) ` set ?st" using assms(1) by (intro image_eqI [of _ _ so]) (auto simp: claimer_ok_def)
  qed
  then have "cl_owned c' = filter (\<lambda>so. \<not> is_stale cfg t so) (cl_owned c)" unfolding c'
    by (intro filter_cong refl) blast
  also have "\<dots> = filter (\<lambda>(s, ow). \<exists>r. map_of t s = Some (r, ow_Epoch ow) \<and> cl_Node r = cc_node cfg) (cl_owned c)"
    by (rule filter_cong [OF refl]) (auto simp: is_stale_def split: option.splits)
  finally show ?thesis .
qed

theorem scan_keeps_only_confirmed_shards_witness:
  "cl_owned (fst (reconcile no_hooks (demo_cfg 0) [(1, \<lparr>cl_Node = show_nat 0, cl_Since = 0\<rparr>, 4), (2, \<lparr>cl_Node = show_nat 0, cl_Since = 0\<rparr>, 9)]
     (\<lparr>cl_owned = [(1, \<lparr>ow_Shard = 1, ow_Epoch = 4, ow_Node = show_nat 0\<rparr>), (2, \<lparr>ow_Shard = 2, ow_Epoch = 5, ow_Node = show_nat 0\<rparr>)],
       cl_lease = 1, cl_stopped = False\<rparr>, ()))) = [(1, \<lparr>ow_Shard = 1, ow_Epoch = 4, ow_Node = show_nat 0\<rparr>)]"
proof -
  let ?c = "\<lparr>cl_owned = [(1, \<lparr>ow_Shard = 1, ow_Epoch = 4, ow_Node = show_nat 0\<rparr>), (2, \<lparr>ow_Shard = 2, ow_Epoch = 5, ow_Node = show_nat 0\<rparr>)],
       cl_lease = 1, cl_stopped = False\<rparr>"
  let ?t = "[(1, \<lparr>cl_Node = show_nat 0, cl_Since = 0\<rparr>, 4), (2, \<lparr>cl_Node = show_nat 0, cl_Since = 0\<rparr>, 9)]"
  obtain c' w' where r: "reconcile no_hooks (demo_cfg 0) ?t (?c, ()) = (c', w')" by (metis prod.exhaust)
  have "claimer_ok ?c" by (simp add: claimer_ok_def)
  then show ?thesis using scan_keeps_only_confirmed_shards [OF _ r] r by (simp add: demo_cfg_def)
qed

text \<open>A lost reply orphans a shard. When the transaction of a claim is executed but its reply is lost, the record stays
  under the node's own lease while the node does not count the shard as owned: no node, itself included,
  can claim it and the node never deletes the record, for as long as the lease is kept alive.\<close>

theorem lost_claim_reply_orphans_the_shard:
  assumes "etcd_api E" "claim E H J cfg ReplyLost n2 now s (c, w) = ((c', w1), r)"
    and "e_get E w (Key cfg s) = None" "cl_lease c \<noteq> 0" "e_lease E w (cl_lease c)" "map_of (cl_owned c) s = None"
  shows "c' = c \<and> (\<exists>kv. e_get E w1 (Key cfg s) = Some kv \<and> kv_Lease kv = cl_lease c \<and>
     (\<forall>w2. e_get E w2 (Key cfg s) = Some kv \<longrightarrow>
        (\<forall>H' J' cfg' m1 m2 now' c2. cc_prefix cfg' = cc_prefix cfg \<longrightarrow> snd (claim E H' J' cfg' m1 m2 now' s (c2, w2)) \<noteq> Inr True) \<and>
        Release E H cfg n s reason (c, w2) = ((c, w2), True)))"
proof -
  let ?v = "cj_enc J \<lparr>cl_Node = cc_node cfg, cl_Since = now\<rparr>"
  have w1: "c' = c" "w1 = e_put E w (Key cfg s) ?v (cl_lease c)"
    using assms(2-5) by (auto simp: claim_def Let_def run_def txn_create_def)
  then have kv: "e_get E w1 (Key cfg s) = Some \<lparr>kv_Value = ?v, kv_CreateRevision = e_rev E w + 1, kv_ModRevision = e_rev E w + 1,
      kv_Lease = cl_lease c\<rparr>" using etcd_api.get_put [OF assms(1)] assms(3) by simp
  have refused: "snd (claim E H' J' cfg' m1 m2 now' s (c2, w2)) \<noteq> Inr True"
    if "e_get E w2 (Key cfg s) \<noteq> None" "cc_prefix cfg' = cc_prefix cfg" for H' J' cfg' m1 m2 now' c2 w2
  proof -
    have "Key cfg' s = Key cfg s" using that(2) by (simp add: Key_def)
    then show ?thesis using that(1) by (cases m1) (auto simp: claim_def Let_def run_def txn_create_def)
  qed
  have "Release E H cfg n s reason (c, w2) = ((c, w2), True)" for w2 using assms(6) by (simp add: Release_def)
  then show ?thesis using w1(1) kv refused by auto
qed

theorem lost_claim_reply_orphans_the_shard_witness:
  "\<exists>kv. e_get mem_etcd (snd (fst (claim mem_etcd no_hooks blank_json (demo_cfg 1) ReplyLost Delivered 5 0
      (\<lparr>cl_owned = [], cl_lease = 1, cl_stopped = False\<rparr>, \<lparr>me_rev = 3, me_kvs = [], me_leases = [1], me_next = 2\<rparr>)))) (Key (demo_cfg 1) 0) = Some kv
    \<and> kv_Lease kv = 1"
proof -
  let ?c = "\<lparr>cl_owned = [], cl_lease = 1, cl_stopped = False\<rparr>" and ?w = "\<lparr>me_rev = 3, me_kvs = [], me_leases = [1], me_next = 2\<rparr>"
  obtain c' w1 r where "claim mem_etcd no_hooks blank_json (demo_cfg 1) ReplyLost Delivered 5 0 (?c, ?w) = ((c', w1), r)" by (metis prod.exhaust)
  then show ?thesis
    using lost_claim_reply_orphans_the_shard [OF mem_store.etcd_api_axioms, of no_hooks blank_json "demo_cfg 1" Delivered 5 0 ?c ?w c' w1 r]
    by fastforce
qed

text \<open>A late release deletes whatever record is there: when the shard has a new owner, the new owner's record goes.\<close>

theorem late_release_deletes_the_successor:
  assumes "etcd_api E" "map_of (cl_owned c) s = Some ow" "OnFreed H = None" "Release E H cfg Delivered s r (c, w) = ((c', w'), ok)"
  shows "e_get E w' (Key cfg s) = None"
proof -
  obtain c1 w1 where d: "dropLocal H ow r (c, w) = (c1, w1)" by fastforce
  have "w' = e_del E w1 (Key cfg s)" using assms(2-4) d by (simp add: Release_def del_key_def run_def split: unit.splits)
  then show ?thesis using etcd_api.get_delete [OF assms(1)] by simp
qed

end
