(* ===== verification/Shard_Runtime.thy ===== *)
theory Shard_Runtime
  imports Shard_Claim Protocol
begin

text \<open>
  The actors of a node, \<^verbatim>\<open>pkg/shard/actor.go\<close>. An actor is one goroutine with a bounded mailbox, a channel that asks it
  to stop and a channel that is closed when it has ended; the runtime keeps the actors by shard.

  The state behind an actor is a parameter: what it does with messages, ticks and closing. A closure
  handed to the actor changes the state and may call \<open>Stop\<close> for its own shard, as the callbacks of the lobby
  do when a write was fenced (through \<open>Claimer.Fence\<close> and the release hook); what it would do after that
  call is kept. The goroutines interleave as the steps of a relation.
\<close>

section \<open>Actors\<close>

record ('s, 'm) State =
  st_Handle :: "'m \<Rightarrow> 's \<Rightarrow> 's"
  st_Tick :: "int \<Rightarrow> 's \<Rightarrow> 's"
  st_Close :: "ReleaseReason \<Rightarrow> 's \<Rightarrow> 's"

datatype ('s, 'm) task = MsgTask 'm | FnTask "'s \<Rightarrow> 's \<times> (ReleaseReason \<times> ('s \<Rightarrow> 's)) option"

text \<open>Where the goroutine is: in its select, waiting inside a task for its own end, draining, or ended.\<close>

datatype 's actor_pc = Looping | SelfStopping "'s \<Rightarrow> 's" | Draining | Ended

record ('s, 'm) Actor =
  ac_o :: Ownership
  ac_mbox :: "('s, 'm) task list"
  ac_cap :: nat
  ac_quit :: "ReleaseReason option"
  ac_pc :: "'s actor_pc"
  ac_state :: 's
  ac_done :: "('s, 'm) task list" \<comment> \<open>the tasks executed so far\<close>

datatype actor_err = ErrMailboxFull | ErrNotOwned

definition actor_post :: "('s, 'm) task \<Rightarrow> ('s, 'm) Actor \<Rightarrow> ('s, 'm) Actor \<times> (actor_err + unit)" where
  "actor_post t a =
     (if length (ac_mbox a) < ac_cap a then (a\<lparr>ac_mbox := ac_mbox a @ [t]\<rparr>, Inr ()) else (a, Inl ErrMailboxFull))"

definition close_quit :: "ReleaseReason \<Rightarrow> ('s, 'm) Actor \<Rightarrow> ('s, 'm) Actor" where
  "close_quit r a = (if ac_quit a = None then a\<lparr>ac_quit := Some r\<rparr> else a)"

text \<open>\<open>exec\<close>: a closure that stops its own shard leaves the goroutine at the receive from \<open>done\<close>.\<close>

definition actor_exec :: "('s, 'm) State \<Rightarrow> ('s, 'm) task \<Rightarrow> ('s, 'm) Actor \<Rightarrow> ('s, 'm) Actor" where
  "actor_exec S t a =
     (let a = a\<lparr>ac_done := ac_done a @ [t]\<rparr> in
      case t of
        MsgTask m \<Rightarrow> a\<lparr>ac_state := st_Handle S m (ac_state a)\<rparr>
      | FnTask f \<Rightarrow>
          (case f (ac_state a) of
             (s', None) \<Rightarrow> a\<lparr>ac_state := s'\<rparr>
           | (s', Some (r, k)) \<Rightarrow> (close_quit r a)\<lparr>ac_state := s', ac_pc := SelfStopping k\<rparr>))"

definition actor_close :: "('s, 'm) State \<Rightarrow> ReleaseReason \<Rightarrow> ('s, 'm) Actor \<Rightarrow> ('s, 'm) Actor" where
  "actor_close S r a = a\<lparr>ac_state := st_Close S r (ac_state a), ac_pc := Ended\<rparr>"

text \<open>The steps of the goroutine and of its surroundings. A goroutine waiting for its own end goes on only when it has
  ended.\<close>

inductive actor_step :: "('s, 'm) State \<Rightarrow> ('s, 'm) Actor \<Rightarrow> ('s, 'm) Actor \<Rightarrow> bool" for S where
  a_post: "actor_post t a = (a', r) \<Longrightarrow> actor_step S a a'"
| a_stop: "actor_step S a (close_quit r a)"
| a_recv: "ac_pc a = Looping \<Longrightarrow> ac_mbox a = t # q \<Longrightarrow> actor_step S a (actor_exec S t (a\<lparr>ac_mbox := q\<rparr>))"
| a_tick: "ac_pc a = Looping \<Longrightarrow> actor_step S a (a\<lparr>ac_state := st_Tick S now (ac_state a)\<rparr>)"
| a_quit: "ac_pc a = Looping \<Longrightarrow> ac_quit a = Some r \<Longrightarrow>
     actor_step S a (if r = Graceful then a\<lparr>ac_pc := Draining\<rparr> else actor_close S r a)"
| a_drain: "ac_pc a = Draining \<Longrightarrow> ac_mbox a = t # q \<Longrightarrow> actor_step S a (actor_exec S t (a\<lparr>ac_mbox := q\<rparr>))"
| a_drained: "ac_pc a = Draining \<Longrightarrow> ac_mbox a = [] \<Longrightarrow> actor_step S a (actor_close S Graceful a)"
| a_resume: "ac_pc a = SelfStopping k \<Longrightarrow> ac_pc a = Ended \<Longrightarrow> actor_step S a (a\<lparr>ac_state := k (ac_state a), ac_pc := Looping\<rparr>)"

abbreviation actor_runs :: "('s, 'm) State \<Rightarrow> ('s, 'm) Actor \<Rightarrow> ('s, 'm) Actor \<Rightarrow> bool" where
  "actor_runs S \<equiv> (actor_step S)\<^sup>*\<^sup>*"

inductive_cases actor_stepE: "actor_step S a a'"

section \<open>The runtime\<close>

record ('s, 'm) Runtime =
  rt_cap :: nat
  rt_tick :: int
  rt_actors :: "(nat \<times> ('s, 'm) Actor) list"

definition NewRuntime :: "int \<Rightarrow> int \<Rightarrow> ('s, 'm) Runtime" where
  "NewRuntime mailboxSize tick =
     \<lparr>rt_cap = nat (if mailboxSize \<le> 0 then 4096 else mailboxSize), rt_tick = (if tick \<le> 0 then 1000000000 else tick), rt_actors = []\<rparr>"

text \<open>\<open>Start\<close>: \<open>init\<close> is the outcome of the state's \<open>Init\<close>, run in the actor's goroutine.\<close>

definition rt_Start :: "(Ownership \<Rightarrow> 's option) \<Rightarrow> Ownership \<Rightarrow> ('s, 'm) Runtime \<Rightarrow> ('s, 'm) Runtime \<times> bool" where
  "rt_Start init ow rt =
     (if map_of (rt_actors rt) (ow_Shard ow) \<noteq> None then (rt, False)
      else case init ow of
        None \<Rightarrow> (rt, False)
      | Some s \<Rightarrow> (rt\<lparr>rt_actors := AList.update (ow_Shard ow)
          \<lparr>ac_o = ow, ac_mbox = [], ac_cap = rt_cap rt, ac_quit = None, ac_pc = Looping, ac_state = s, ac_done = []\<rparr> (rt_actors rt)\<rparr>, True))"

definition rt_put :: "nat \<Rightarrow> ('s, 'm) Actor \<Rightarrow> ('s, 'm) Runtime \<Rightarrow> ('s, 'm) Runtime" where
  "rt_put sh a rt = rt\<lparr>rt_actors := AList.update sh a (rt_actors rt)\<rparr>"

definition rt_Do :: "nat \<Rightarrow> ('s, 'm) task \<Rightarrow> ('s, 'm) Runtime \<Rightarrow> ('s, 'm) Runtime \<times> (actor_err + unit)" where
  "rt_Do sh t rt =
     (case map_of (rt_actors rt) sh of
        None \<Rightarrow> (rt, Inl ErrNotOwned)
      | Some a \<Rightarrow> (case actor_post t a of (a', Inr ()) \<Rightarrow> (rt_put sh a' rt, Inr ()) | (a', Inl e) \<Rightarrow> (rt, Inl e)))"

text \<open>\<open>Post\<close> answers the message itself when it cannot be delivered.\<close>

definition rt_Post :: "nat \<Rightarrow> 'm \<Rightarrow> ('s, 'm) Runtime \<Rightarrow> ('s, 'm) Runtime \<times> ErrCode option" where
  "rt_Post sh m rt =
     (case rt_Do sh (MsgTask m) rt of
        (rt', Inl ErrNotOwned) \<Rightarrow> (rt', Some E_NotOwner)
      | (rt', Inl ErrMailboxFull) \<Rightarrow> (rt', Some E_Unavailable)
      | (rt', Inr ()) \<Rightarrow> (rt', None))"

text \<open>\<open>Stop\<close> takes the actor out of the map and asks it to stop; the caller then waits for its end.\<close>

definition rt_Stop :: "nat \<Rightarrow> ReleaseReason \<Rightarrow> ('s, 'm) Runtime \<Rightarrow> ('s, 'm) Runtime \<times> ('s, 'm) Actor option" where
  "rt_Stop sh r rt =
     (case map_of (rt_actors rt) sh of
        None \<Rightarrow> (rt, None)
      | Some a \<Rightarrow> (rt\<lparr>rt_actors := AList.delete sh (rt_actors rt)\<rparr>, Some (close_quit r a)))"

definition rt_Shards :: "('s, 'm) Runtime \<Rightarrow> nat list" where
  "rt_Shards rt = map fst (rt_actors rt)"

definition rt_StopAll :: "ReleaseReason \<Rightarrow> ('s, 'm) Runtime \<Rightarrow> ('s, 'm) Runtime" where
  "rt_StopAll r rt = fold (\<lambda>sh rt. fst (rt_Stop sh r rt)) (rt_Shards rt) rt"

definition rt_Epoch :: "('s, 'm) Runtime \<Rightarrow> nat \<Rightarrow> int option" where
  "rt_Epoch rt sh = map_option (\<lambda>a. ow_Epoch (ac_o a)) (map_of (rt_actors rt) sh)"

definition rt_Backlog :: "('s, 'm) Runtime \<Rightarrow> (nat \<times> nat) list" where
  "rt_Backlog rt = map (\<lambda>(sh, a). (sh, length (ac_mbox a))) (rt_actors rt)"

section \<open>Properties\<close>

text \<open>Every step of the goroutine and its surroundings keeps the order of the tasks: what was executed and what waits
  in the mailbox is what was accepted, in order.\<close>

lemma close_quit_fields [simp]:
  "ac_mbox (close_quit r a) = ac_mbox a" "ac_pc (close_quit r a) = ac_pc a" "ac_done (close_quit r a) = ac_done a"
  "ac_state (close_quit r a) = ac_state a" "ac_cap (close_quit r a) = ac_cap a"
  by (simp_all add: close_quit_def)

lemma actor_exec_fields [simp]:
  "ac_mbox (actor_exec S t a) = ac_mbox a" "ac_done (actor_exec S t a) = ac_done a @ [t]" "ac_cap (actor_exec S t a) = ac_cap a"
  by (simp_all add: actor_exec_def Let_def split: task.splits prod.splits option.splits)

definition served_in_order :: "('s, 'm) Actor \<Rightarrow> ('s, 'm) Actor \<Rightarrow> bool" where
  "served_in_order a a' \<longleftrightarrow> (\<exists>new. ac_done a' @ ac_mbox a' = ac_done a @ ac_mbox a @ new) \<and> prefix (ac_done a) (ac_done a')
     \<and> (length (ac_mbox a) \<le> ac_cap a \<longrightarrow> length (ac_mbox a') \<le> ac_cap a') \<and> ac_cap a' = ac_cap a"

lemma actor_step_order: "actor_step S a a' \<Longrightarrow> served_in_order a a'"
  by (erule actor_stepE) (auto simp: served_in_order_def actor_post_def actor_close_def split: if_splits)

lemma served_in_order_trans: "served_in_order a b \<Longrightarrow> served_in_order b c \<Longrightarrow> served_in_order a c"
  unfolding served_in_order_def by (metis append.assoc prefix_order.trans)

lemma actor_runs_order: "actor_runs S a a' \<Longrightarrow> served_in_order a a'"
  by (induction rule: rtranclp_induct)
    (auto intro: served_in_order_trans actor_step_order simp: served_in_order_def [of a a])

text \<open>An actor executes what it accepted in the order it was accepted, nothing is lost between mailbox and execution, and the
  mailbox never exceeds its capacity, whatever is posted, ticked or stopped in between.\<close>

theorem actor_serves_in_order:
  assumes "actor_runs S a a'" "length (ac_mbox a) \<le> ac_cap a"
  shows "(\<exists>accepted. ac_done a' @ ac_mbox a' = ac_done a @ ac_mbox a @ accepted) \<and> prefix (ac_done a) (ac_done a')
     \<and> length (ac_mbox a') \<le> ac_cap a"
  using actor_runs_order [OF assms(1)] assms(2) by (auto simp: served_in_order_def)

definition idle_actor :: "nat \<Rightarrow> (nat, nat) Actor" where
  "idle_actor cap = \<lparr>ac_o = \<lparr>ow_Shard = 3, ow_Epoch = 5, ow_Node = ''n''\<rparr>, ac_mbox = [], ac_cap = cap, ac_quit = None, ac_pc = Looping,
     ac_state = 0, ac_done = []\<rparr>"

definition sum_state :: "(nat, nat) State" where
  "sum_state = \<lparr>st_Handle = (+), st_Tick = (\<lambda>_ s. s), st_Close = (\<lambda>_ s. s)\<rparr>"

theorem actor_serves_in_order_witness:
  "\<exists>a'. actor_runs sum_state (idle_actor 1) a' \<and> ac_mbox a' = [MsgTask 4] \<and> length (ac_mbox a') \<le> ac_cap (idle_actor 1)"
proof -
  have "actor_step sum_state (idle_actor 1) (idle_actor 1\<lparr>ac_mbox := [MsgTask 4]\<rparr>)"
    by (rule a_post [of "MsgTask 4" _ _ "Inr ()"]) (simp add: actor_post_def idle_actor_def)
  then have r: "actor_runs sum_state (idle_actor 1) (idle_actor 1\<lparr>ac_mbox := [MsgTask 4]\<rparr>)" by blast
  show ?thesis using actor_serves_in_order [OF r] r by (intro exI [of _ "idle_actor 1\<lparr>ac_mbox := [MsgTask 4]\<rparr>"]) (simp add: idle_actor_def)
qed

section \<open>Stopping\<close>





definition stops_itself :: "'s \<Rightarrow> ('s, 'm) task \<Rightarrow> bool" where
  "stops_itself s t \<longleftrightarrow> (case t of MsgTask m \<Rightarrow> False | FnTask f \<Rightarrow> snd (f s) \<noteq> None)"

lemma actor_exec_pc: "\<not> stops_itself (ac_state a) t \<Longrightarrow> ac_pc (actor_exec S t a) = ac_pc a \<and> ac_quit (actor_exec S t a) = ac_quit a"
  by (auto simp: actor_exec_def stops_itself_def Let_def split: task.splits prod.splits)

lemma drain_runs:
  assumes "ac_pc a = Draining" "\<forall>t\<in>set (ac_mbox a). \<forall>s. \<not> stops_itself s t"
  shows "actor_runs S a (actor_close S Graceful (fold (actor_exec S) (ac_mbox a) (a\<lparr>ac_mbox := []\<rparr>)))"
  using assms
proof (induction "ac_mbox a" arbitrary: a)
  case Nil
  then have m: "ac_mbox a = []" and e: "a\<lparr>ac_mbox := []\<rparr> = a" by simp_all
  then have "actor_step S a (actor_close S Graceful a)" using Nil.prems a_drained by blast
  then show ?case unfolding m fold_simps(1) e by (rule r_into_rtranclp)
next
  case (Cons t q)
  let ?b = "actor_exec S t (a\<lparr>ac_mbox := q\<rparr>)"
  have m: "ac_mbox a = t # q" using Cons.hyps(2) by simp
  have s: "actor_step S a ?b" using a_drain [of a t q S] Cons.prems(1) m by blast
  have "\<not> stops_itself (ac_state a) t" using Cons.prems(2) m by simp
  then have pc: "ac_pc ?b = Draining" using actor_exec_pc [of "a\<lparr>ac_mbox := q\<rparr>" t S] Cons.prems(1) by simp
  have cm: "?b\<lparr>ac_mbox := []\<rparr> = actor_exec S t (a\<lparr>ac_mbox := []\<rparr>)"
    by (simp add: actor_exec_def Let_def close_quit_def split: task.splits prod.splits option.splits)
  have "actor_runs S ?b (actor_close S Graceful (fold (actor_exec S) q (?b\<lparr>ac_mbox := []\<rparr>)))"
    using Cons.hyps(1) [of ?b] pc Cons.prems(2) m by simp
  then show ?case using s cm m by (metis converse_rtranclp_into_rtranclp fold_simps(2))
qed

text \<open>A stop from outside can always complete: if no waiting task stops the shard itself, the actor can wind up from its
  loop; a graceful stop executes the rest of the mailbox in order before the state is closed, any other
  stop executes none of it.\<close>

theorem stop_completes:
  assumes "ac_pc a = Looping" "ac_quit a = Some r" "\<forall>t\<in>set (ac_mbox a). \<forall>s. \<not> stops_itself s t"
  shows "\<exists>a'. actor_runs S a a' \<and> ac_pc a' = Ended \<and> ac_done a' = ac_done a @ (if r = Graceful then ac_mbox a else [])
     \<and> ac_state a' = st_Close S r (ac_state (if r = Graceful then fold (actor_exec S) (ac_mbox a) (a\<lparr>ac_pc := Draining, ac_mbox := []\<rparr>) else a))"
proof (cases "r = Graceful")
  case False
  then have "actor_step S a (actor_close S r a)" using a_quit [OF assms(1,2), of S] by simp
  then show ?thesis using False by (intro exI [of _ "actor_close S r a"]) (auto simp: actor_close_def)
next
  case True
  let ?d = "a\<lparr>ac_pc := Draining\<rparr>"
  have s: "actor_step S a ?d" using a_quit [OF assms(1,2), of S] True by simp
  let ?e = "actor_close S Graceful (fold (actor_exec S) (ac_mbox a) (?d\<lparr>ac_mbox := []\<rparr>))"
  have "actor_runs S ?d ?e" using drain_runs [of ?d S] assms(3) by simp
  then have "actor_runs S a ?e" using s by (rule converse_rtranclp_into_rtranclp [rotated])
  moreover have "ac_done (fold (actor_exec S) ts x) = ac_done x @ ts" for ts and x :: "('a, 'b) Actor"
    by (induction ts arbitrary: x) simp_all
  ultimately show ?thesis using True by (intro exI [of _ ?e]) (simp add: actor_close_def)
qed

theorem stop_completes_witness:
  "\<exists>a'. actor_runs sum_state (idle_actor 4\<lparr>ac_mbox := [MsgTask 4, MsgTask 5], ac_quit := Some Graceful\<rparr>) a' \<and> ac_pc a' = Ended \<and> ac_done a' = [MsgTask 4, MsgTask 5]"
  using stop_completes [of "idle_actor 4\<lparr>ac_mbox := [MsgTask 4, MsgTask 5], ac_quit := Some Graceful\<rparr>" Graceful sum_state]
  by (fastforce simp: idle_actor_def stops_itself_def)

end
