(* ===== verification/Subject.thy ===== *)
theory Subject
  imports Go_Bytes
begin

text \<open>
  The names of NATS subjects, \<^verbatim>\<open>pkg/subject/subject.go\<close>: one definition per constructor, the label \<open>Prefix\<close> and the
  parsers. NATS itself is outside the repository; which subjects a subscription with a trailing wildcard gets
  is the contract \<open>nats_subjects\<close>, with a concrete matcher that satisfies it.

  Shown here: parsing gives back what was built, and a request reaches the subscription of its own shard only.
\<close>

section \<open>Requests\<close>

definition LobbyReq :: "nat \<Rightarrow> string \<Rightarrow> string" where
  "LobbyReq shard cmd = ''req.lobby.'' @ show_nat shard @ ''.'' @ cmd"

definition LobbyShardWildcard :: "nat \<Rightarrow> string" where
  "LobbyShardWildcard shard = ''req.lobby.'' @ show_nat shard @ ''.>''"

definition RoomReq :: "nat \<Rightarrow> string \<Rightarrow> string" where
  "RoomReq shard cmd = ''req.room.'' @ show_nat shard @ ''.'' @ cmd"

definition RoomShardWildcard :: "nat \<Rightarrow> string" where
  "RoomShardWildcard shard = ''req.room.'' @ show_nat shard @ ''.>''"

definition MatchReq :: "nat \<Rightarrow> nat \<Rightarrow> string" where
  "MatchReq md tier = ''req.match.'' @ show_nat md @ ''.'' @ show_nat tier"

definition MatchWildcard :: string where
  "MatchWildcard = ''req.match.>''"

definition MatchModeWildcard :: "nat \<Rightarrow> string" where
  "MatchModeWildcard md = ''req.match.'' @ show_nat md @ ''.*''"

definition ChatReq :: "string \<Rightarrow> string" where
  "ChatReq cmd = ''req.chat.'' @ cmd"

definition ChatWildcard :: string where
  "ChatWildcard = ''req.chat.>''"

definition AccountReq :: "string \<Rightarrow> string" where
  "AccountReq cmd = ''req.account.'' @ cmd"

definition AccountWildcard :: string where
  "AccountWildcard = ''req.account.>''"

definition WorldReq :: "string \<Rightarrow> string" where
  "WorldReq cmd = ''req.world.'' @ cmd"

definition WorldWildcard :: string where
  "WorldWildcard = ''req.world.>''"

section \<open>Pushes, events, jobs and control\<close>

definition GatePush :: "string \<Rightarrow> string" where
  "GatePush gateID = ''push.gate.'' @ gateID"

definition Broadcast :: string where
  "Broadcast = ''push.broadcast''"

definition PlayerEvt :: "nat \<Rightarrow> string \<Rightarrow> string" where
  "PlayerEvt uid event = ''evt.player.'' @ show_nat uid @ ''.'' @ event"

definition PlayerEvtWildcard :: "nat \<Rightarrow> string" where
  "PlayerEvtWildcard uid = ''evt.player.'' @ show_nat uid @ ''.>''"

definition RoomEvt :: "nat \<Rightarrow> string \<Rightarrow> string" where
  "RoomEvt roomID event = ''evt.room.'' @ show_nat roomID @ ''.'' @ event"

definition MatchFoundEvt :: string where
  "MatchFoundEvt = ''evt.match.found''"

definition SessionChangedEvt :: string where
  "SessionChangedEvt = ''evt.session.changed''"

definition ShardFreedEvt :: "string \<Rightarrow> string" where
  "ShardFreedEvt knd = ''evt.shard.'' @ knd @ ''.freed''"

definition JobTransfer :: "string \<Rightarrow> string" where
  "JobTransfer txid = ''job.transfer.'' @ txid"

definition JobMailSend :: string where
  "JobMailSend = ''job.mail.send''"

definition JobBattleSettle :: string where
  "JobBattleSettle = ''job.battle.settle''"

definition CtlHandoff :: "string \<Rightarrow> string" where
  "CtlHandoff nodeID = ''ctl.node.'' @ nodeID @ ''.handoff''"

definition CtlShutdown :: "string \<Rightarrow> string" where
  "CtlShutdown nodeID = ''ctl.node.'' @ nodeID @ ''.shutdown''"

definition CtlNodeWildcard :: "string \<Rightarrow> string" where
  "CtlNodeWildcard nodeID = ''ctl.node.'' @ nodeID @ ''.>''"

section \<open>Parsing\<close>

text \<open>\<open>strings.IndexByte(s, '.')\<close>.\<close>

definition index_dot :: "string \<Rightarrow> nat option" where
  "index_dot s = (let i = length (takeWhile (\<lambda>c. c \<noteq> CHR ''.'') s) in if i < length s then Some i else None)"

definition subject_Prefix :: "string \<Rightarrow> string" where
  "subject_Prefix subj =
     (case index_dot subj of
        Some i \<Rightarrow>
          if i > 0
          then let hd = take i subj; rest = drop (i + 1) subj in
               (case index_dot rest of
                  Some j \<Rightarrow> if j > 0 then hd @ ''.'' @ take j rest else hd @ ''.'' @ rest
                | None \<Rightarrow> hd @ ''.'' @ rest)
          else subj
      | None \<Rightarrow> subj)"

text \<open>\<open>strconv.ParseUint(s, 10, 32)\<close>.\<close>

definition ParseUint32 :: "string \<Rightarrow> nat option" where
  "ParseUint32 s = (case read_nat s of None \<Rightarrow> None | Some n \<Rightarrow> if n < 2 ^ 32 then Some n else None)"

definition ParseShardReq :: "string \<Rightarrow> (string \<times> nat \<times> string) option" where
  "ParseShardReq subj =
     (let parts = go_split (CHR ''.'') subj in
      if length parts < 4 \<or> parts ! 0 \<noteq> ''req'' then None
      else case ParseUint32 (parts ! 2) of
        None \<Rightarrow> None
      | Some n \<Rightarrow> Some (parts ! 1, n, go_join (CHR ''.'') (drop 3 parts)))"

definition ParseMatchReq :: "string \<Rightarrow> (nat \<times> nat) option" where
  "ParseMatchReq subj =
     (let parts = go_split (CHR ''.'') subj in
      if length parts \<noteq> 4 \<or> parts ! 0 \<noteq> ''req'' \<or> parts ! 1 \<noteq> ''match'' then None
      else case (ParseUint32 (parts ! 2), ParseUint32 (parts ! 3)) of
        (Some m, Some t) \<Rightarrow> Some (m, t)
      | _ \<Rightarrow> None)"

section \<open>Round trips\<close>

lemma ParseUint32_show [simp]: "n < 2 ^ 32 \<Longrightarrow> ParseUint32 (show_nat n) = Some n"
  by (simp add: ParseUint32_def)

lemma go_join_Cons: "go_join sep ((c # p) # ps) = c # go_join sep (p # ps)"
  by (cases ps) simp_all

lemma go_split_nonempty [simp]: "go_split sep s \<noteq> []"
  by (induction s) (auto split: list.splits)

lemma go_join_split: "go_join sep (go_split sep s) = s"
proof (induction s)
  case (Cons c s)
  obtain p ps where s: "go_split sep s = p # ps" by (cases "go_split sep s") auto
  then have "go_join sep ([] # p # ps) = sep # go_join sep (p # ps)" by simp
  then show ?case using Cons s by (simp add: go_join_Cons)
qed simp

lemma split_shard_req:
  "CHR ''.'' \<notin> set knd \<Longrightarrow> go_split (CHR ''.'') (''req.'' @ knd @ ''.'' @ show_nat s @ ''.'' @ cmd) = ''req'' # knd # show_nat s # go_split (CHR ''.'') cmd"
  using go_split_append [of "CHR ''.''" "''req''"] go_split_append [of "CHR ''.''" knd] go_split_append [of "CHR ''.''" "show_nat s" cmd]
  by (simp add: show_nat_no_dot)

lemma parse_shard_req:
  assumes "CHR ''.'' \<notin> set knd" "s < 2 ^ 32"
  shows "ParseShardReq (''req.'' @ knd @ ''.'' @ show_nat s @ ''.'' @ cmd) = Some (knd, s, cmd)"
proof -
  have "\<not> length (''req'' # knd # show_nat s # go_split (CHR ''.'') cmd) < 4"
    using go_split_nonempty [of "CHR ''.''" cmd] by (cases "go_split (CHR ''.'') cmd") auto
  then show ?thesis
    using assms(2) unfolding ParseShardReq_def split_shard_req [OF assms(1)] Let_def
    by (simp add: go_join_split numeral_2_eq_2 numeral_3_eq_3)
qed

text \<open>The parsers undo the constructors: a lobby or room request gives back its service, shard and command (which may itself
  contain dots), a match request its mode and tier.\<close>

theorem subject_roundtrip:
  assumes "s < 2 ^ 32" "t < 2 ^ 32"
  shows "ParseShardReq (LobbyReq s cmd) = Some (''lobby'', s, cmd) \<and> ParseShardReq (RoomReq s cmd) = Some (''room'', s, cmd)
    \<and> ParseMatchReq (MatchReq s t) = Some (s, t)"
proof -
  have "go_split (CHR ''.'') (MatchReq s t) = [''req'', ''match'', show_nat s, show_nat t]"
    using split_shard_req [of "''match''" s "show_nat t"] by (simp add: MatchReq_def go_split_plain show_nat_no_dot)
  then have "ParseMatchReq (MatchReq s t) = Some (s, t)" using assms by (simp add: ParseMatchReq_def Let_def numeral_2_eq_2 numeral_3_eq_3)
  then show ?thesis
    using parse_shard_req [of "''lobby''" s cmd] parse_shard_req [of "''room''" s cmd] assms by (simp add: LobbyReq_def RoomReq_def)
qed

theorem subject_roundtrip_witness:
  "ParseShardReq (LobbyReq 17 ''a.b'') = Some (''lobby'', 17, ''a.b'') \<and> ParseMatchReq (MatchReq 17 3) = Some (17, 3)"
  using subject_roundtrip [of 17 3 "''a.b''"] by simp

section \<open>Delivery\<close>

text \<open>A subscription that ends in the wildcard \<open>>\<close> gets the subjects below its literal part, at least one token more.\<close>

locale nats_subjects =
  fixes matches :: "string \<Rightarrow> string \<Rightarrow> bool"
  assumes tail_wildcard: "CHR ''>'' \<notin> set p \<Longrightarrow> CHR ''*'' \<notin> set p \<Longrightarrow> matches (p @ ''.>'') subj \<longleftrightarrow> (\<exists>t. t \<noteq> [] \<and> subj = p @ ''.'' @ t)"
begin

lemma shard_wildcard:
  assumes "CHR ''>'' \<notin> set pre" "CHR ''*'' \<notin> set pre"
  shows "matches (pre @ show_nat s @ ''.>'') (pre @ show_nat s' @ ''.'' @ cmd) \<longleftrightarrow> s = s' \<and> cmd \<noteq> []"
proof -
  have d: "CHR ''>'' \<notin> set (show_nat n)" "CHR ''*'' \<notin> set (show_nat n)" "CHR ''.'' \<notin> set (show_nat n)" for n
    using show_nat_digits [of _ n] by fastforce+
  have "matches ((pre @ show_nat s) @ ''.>'') (pre @ show_nat s' @ ''.'' @ cmd) \<longleftrightarrow>
      (\<exists>t. t \<noteq> [] \<and> pre @ show_nat s' @ ''.'' @ cmd = (pre @ show_nat s) @ ''.'' @ t)"
    using assms d by (intro tail_wildcard) auto
  also have "\<dots> \<longleftrightarrow> s = s' \<and> cmd \<noteq> []"
    using append_sep_inject [OF d(3) d(3), of s' cmd s] by auto
  finally show ?thesis by simp
qed

end

definition tail_matches :: "string \<Rightarrow> string \<Rightarrow> bool" where
  "tail_matches pat subj = (if drop (length pat - 2) pat = ''.>'' then
     prefix (take (length pat - 1) pat) subj \<and> length subj \<ge> length pat else pat = subj)"

interpretation tail_nats: nats_subjects tail_matches
proof
  fix p subj :: string
  have "tail_matches (p @ ''.>'') subj \<longleftrightarrow> prefix (p @ ''.'') subj \<and> length (p @ ''.'') < length subj"
    by (auto simp: tail_matches_def)
  also have "\<dots> \<longleftrightarrow> (\<exists>t. t \<noteq> [] \<and> subj = p @ ''.'' @ t)" by (auto simp: prefix_def)
  finally show "tail_matches (p @ ''.>'') subj \<longleftrightarrow> (\<exists>t. t \<noteq> [] \<and> subj = p @ ''.'' @ t)" .
qed

text \<open>A request is delivered to the subscription of its own shard and to that of no other shard, for lobby and room requests
  alike; the events of a player likewise.\<close>

theorem requests_reach_their_shard_only:
  assumes "nats_subjects matches" "cmd \<noteq> []"
  shows "(matches (LobbyShardWildcard s) (LobbyReq s' cmd) \<longleftrightarrow> s = s')
     \<and> (matches (RoomShardWildcard s) (RoomReq s' cmd) \<longleftrightarrow> s = s')
     \<and> (matches (PlayerEvtWildcard s) (PlayerEvt s' cmd) \<longleftrightarrow> s = s')"
  using nats_subjects.shard_wildcard [OF assms(1), of "''req.lobby.''" s s' cmd]
    nats_subjects.shard_wildcard [OF assms(1), of "''req.room.''" s s' cmd]
    nats_subjects.shard_wildcard [OF assms(1), of "''evt.player.''" s s' cmd] assms(2)
  by (simp add: LobbyShardWildcard_def LobbyReq_def RoomShardWildcard_def RoomReq_def PlayerEvtWildcard_def PlayerEvt_def)

theorem requests_reach_their_shard_only_witness:
  "tail_matches (LobbyShardWildcard 1) (LobbyReq 1 ''login'') \<and> \<not> tail_matches (LobbyShardWildcard 1) (LobbyReq 17 ''login'')"
  using requests_reach_their_shard_only [OF tail_nats.nats_subjects_axioms, of "''login''" 1 1]
    requests_reach_their_shard_only [OF tail_nats.nats_subjects_axioms, of "''login''" 1 17] by simp

end
