(* ===== verification/Shard_Service.thy ===== *)
theory Shard_Service
  imports Claim_Laws Shard_Runtime Flush Subject
begin

text \<open>
  The skeleton of a sharded service, \<^verbatim>\<open>pkg/shardsvc/service.go\<close>: it puts the claimer, the actors, the fencer and the
  subscriptions together. The world holds etcd, Redis and, for every node, its claimer and its service; events that
  were published are a list. The claimer of the node that acts is passed beside the world, as in \<open>Shard_Claim\<close>.

  What the surroundings decide is the record \<open>svc_env\<close>, by ownership: the network's fate of the call that raises the epoch,
  the result of loading the shard's state, whether the subscription worked, and what the actor still writes to
  Redis between the request to stop and its end.

  Shown here: a successful claim of a shard shuts every earlier owner out of Redis, at any later time;
  a granted handoff frees the shard; a service serves exactly the shards its runtime runs.
\<close>

section \<open>State\<close>

record ('s, 'm) service =
  sv_runtime :: "('s, 'm) Runtime"
  sv_states :: "(nat \<times> Ownership) list" \<comment> \<open>the business state of a shard, by the ownership it was made for\<close>
  sv_subs :: "(nat \<times> string) list"
  sv_ctlSubs :: "string list"
  sv_stopping :: bool
  sv_flusher :: "flusher option"

record ('e, 'r, 's, 'm) world =
  w_etcd :: 'e
  w_redis :: 'r
  w_svc :: "string \<Rightarrow> ('s, 'm) service"
  w_claimers :: "string \<Rightarrow> claimer"
  w_events :: "(string \<times> nat) list"

record svc_opts =
  so_kind :: string
  so_node :: string
  so_keys :: keys
  so_wildcard :: "nat \<Rightarrow> string"
  so_space :: nat
  so_shardCount :: nat
  so_skipEpoch :: bool

record ('r, 's) svc_env =
  ev_raise :: "Ownership \<Rightarrow> net"
  ev_init :: "Ownership \<Rightarrow> 'r \<Rightarrow> 's option"
  ev_sub :: "Ownership \<Rightarrow> bool"
  ev_end :: "Ownership \<Rightarrow> ReleaseReason \<Rightarrow> 'r \<Rightarrow> 'r"

definition upd_svc :: "string \<Rightarrow> (('s, 'm) service \<Rightarrow> ('s, 'm) service) \<Rightarrow> ('e, 'r, 's, 'm) world \<Rightarrow> ('e, 'r, 's, 'm) world" where
  "upd_svc nd f w = w\<lparr>w_svc := (w_svc w)(nd := f (w_svc w nd))\<rparr>"

definition dropState :: "svc_opts \<Rightarrow> nat \<Rightarrow> ('e, 'r, 's, 'm) world \<Rightarrow> ('e, 'r, 's, 'm) world" where
  "dropState so sh = upd_svc (so_node so) (\<lambda>sv. sv\<lparr>sv_states := AList.delete sh (sv_states sv)\<rparr>)"

definition svc_State :: "('s, 'm) service \<Rightarrow> nat \<Rightarrow> Ownership option" where
  "svc_State sv sh = map_of (sv_states sv) sh"

section \<open>Acquiring and releasing\<close>

text \<open>\<open>runtime.Start\<close> with the factory of \<open>Start\<close>, which registers the state unless the actor exists already.\<close>

definition start_actor :: "svc_opts \<Rightarrow> ('r, 's) svc_env \<Rightarrow> Ownership \<Rightarrow> ('e, 'r, 's, 'm) world \<Rightarrow> ('e, 'r, 's, 'm) world \<times> bool" where
  "start_actor so env ow w =
     (let sv = w_svc w (so_node so);
          sts = (if map_of (rt_actors (sv_runtime sv)) (ow_Shard ow) \<noteq> None then sv_states sv
                 else AList.update (ow_Shard ow) ow (sv_states sv));
          (rt, started) = rt_Start (\<lambda>ow. ev_init env ow (w_redis w)) ow (sv_runtime sv)
      in (upd_svc (so_node so) (\<lambda>sv. sv\<lparr>sv_runtime := rt, sv_states := sts\<rparr>) w, started))"

text \<open>\<open>runtime.Stop\<close> until the actor has ended.\<close>

definition stop_actor :: "svc_opts \<Rightarrow> ('r, 's) svc_env \<Rightarrow> Ownership \<Rightarrow> ReleaseReason \<Rightarrow> ('e, 'r, 's, 'm) world \<Rightarrow> ('e, 'r, 's, 'm) world" where
  "stop_actor so env ow r w =
     (case rt_Stop (ow_Shard ow) r (sv_runtime (w_svc w (so_node so))) of
        (rt, None) \<Rightarrow> w
      | (rt, Some a) \<Rightarrow> (upd_svc (so_node so) (\<lambda>sv. sv\<lparr>sv_runtime := rt\<rparr>) w)\<lparr>w_redis := ev_end env (ac_o a) r (w_redis w)\<rparr>)"

definition onAcquire :: "'r redis \<Rightarrow> svc_opts \<Rightarrow> ('r, 's) svc_env \<Rightarrow> Ownership \<Rightarrow> ('e, 'r, 's, 'm) world \<Rightarrow> ('e, 'r, 's, 'm) world \<times> bool" where
  "onAcquire R so env ow w =
     (case (if so_skipEpoch so then (w_redis w, Inr ())
            else RaiseEpoch R (so_keys so) (ev_raise env ow) (ow_Shard ow) (ow_Epoch ow) (w_redis w)) of
        (r1, Inl e) \<Rightarrow> (w\<lparr>w_redis := r1\<rparr>, False)
      | (r1, Inr ()) \<Rightarrow>
          (case start_actor so env ow (w\<lparr>w_redis := r1\<rparr>) of
             (w2, False) \<Rightarrow> (dropState so (ow_Shard ow) w2, False)
           | (w2, True) \<Rightarrow>
               (if ev_sub env ow
                then (upd_svc (so_node so) (\<lambda>sv. sv\<lparr>sv_subs := AList.update (ow_Shard ow) (so_wildcard so (ow_Shard ow)) (sv_subs sv)\<rparr>) w2, True)
                else (dropState so (ow_Shard ow) (stop_actor so env ow StartFailed w2), False))))"

definition onRelease :: "svc_opts \<Rightarrow> ('r, 's) svc_env \<Rightarrow> Ownership \<Rightarrow> ReleaseReason \<Rightarrow> ('e, 'r, 's, 'm) world \<Rightarrow> ('e, 'r, 's, 'm) world" where
  "onRelease so env ow reason w =
     (let w1 = upd_svc (so_node so) (\<lambda>sv. sv\<lparr>sv_subs := AList.delete (ow_Shard ow) (sv_subs sv)\<rparr>) w
      in dropState so (ow_Shard ow) (stop_actor so env ow reason w1))"

definition onFreed :: "svc_opts \<Rightarrow> nat \<Rightarrow> ('e, 'r, 's, 'm) world \<Rightarrow> ('e, 'r, 's, 'm) world" where
  "onFreed so sh w = w\<lparr>w_events := w_events w @ [(ShardFreedEvt (so_kind so), sh)]\<rparr>"

section \<open>Handing over\<close>

datatype handoff_reply = HandoffReady bool | HandoffErr ErrCode

text \<open>The old owner's side. \<open>H\<close> are its hooks, \<open>n\<close> the fate of the deletion in etcd.\<close>

definition handleHandoff :: "('e, 'r, 's, 'm) world etcd \<Rightarrow> ('e, 'r, 's, 'm) world Hooks \<Rightarrow> claimer_cfg \<Rightarrow> svc_opts \<Rightarrow> net \<Rightarrow> string \<Rightarrow> nat \<Rightarrow>
    claimer \<times> ('e, 'r, 's, 'm) world \<Rightarrow> (claimer \<times> ('e, 'r, 's, 'm) world) \<times> handoff_reply" where
  "handleHandoff E H cfg so n reqKind sh cw =
     (if reqKind \<noteq> so_kind so then (cw, HandoffErr E_BadRequest)
      else if \<not> Owns (fst cw) sh then (cw, HandoffReady True)
      else if sv_stopping (w_svc (snd cw) (so_node so)) then (cw, HandoffErr E_Unavailable)
      else case Release E H cfg n sh Graceful cw of
        (cw1, False) \<Rightarrow> (cw1, HandoffErr E_Internal)
      | (cw1, True) \<Rightarrow> (cw1, HandoffReady True))"

text \<open>The new owner's side: a call over the bus to the old owner, whose handler works on its own claimer.\<close>

definition requestHandoff :: "(claimer \<times> ('e, 'r, 's, 'm) world \<Rightarrow> (claimer \<times> ('e, 'r, 's, 'm) world) \<times> handoff_reply) \<Rightarrow> net \<Rightarrow> string \<Rightarrow>
    ('e, 'r, 's, 'm) world \<Rightarrow> ('e, 'r, 's, 'm) world \<times> bool" where
  "requestHandoff handler n fromNode w =
     (case run n (\<lambda>w. case handler (w_claimers w fromNode, w) of
               ((c', w'), rep) \<Rightarrow> (w'\<lparr>w_claimers := (w_claimers w')(fromNode := c')\<rparr>, Some rep)) w of
        (w', Inr (HandoffReady b)) \<Rightarrow> (w', b)
      | (w', Inr (HandoffErr e)) \<Rightarrow> (w', False)
      | (w', Inl e) \<Rightarrow> (w', False))"

section \<open>Flush results\<close>

definition onFlushResult :: "('e, 'r, 's, 'm) world Hooks \<Rightarrow> svc_opts \<Rightarrow> (flush_result \<Rightarrow> 's \<Rightarrow> 's) \<Rightarrow> flush_result option \<Rightarrow>
    claimer \<times> ('e, 'r, 's, 'm) world \<Rightarrow> claimer \<times> ('e, 'r, 's, 'm) world" where
  "onFlushResult H so remark res cw =
     (case res of
        None \<Rightarrow> cw
      | Some r \<Rightarrow>
          if r_Fenced r then Fence H (r_Shard r) cw
          else if r_Failed r = [] \<and> r_Err r = None then cw
          else let sv = w_svc (snd cw) (so_node so);
                   (rt, posted) = rt_Do (r_Shard r) (FnTask (\<lambda>s. (remark r s, None))) (sv_runtime sv)
               in (fst cw, upd_svc (so_node so) (\<lambda>sv. sv\<lparr>sv_runtime := rt\<rparr>) (snd cw)))"

section \<open>Stopping\<close>

definition StopAccepting :: "('e, 'r, 's, 'm) world etcd \<Rightarrow> ('e, 'r, 's, 'm) world Hooks \<Rightarrow> claimer_cfg \<Rightarrow> svc_opts \<Rightarrow> (nat \<Rightarrow> net) \<Rightarrow> net \<Rightarrow>
    claimer \<times> ('e, 'r, 's, 'm) world \<Rightarrow> claimer \<times> ('e, 'r, 's, 'm) world" where
  "StopAccepting E H cfg so ns n cw =
     claimer_Stop E H cfg ns n (fst cw, upd_svc (so_node so) (\<lambda>sv. sv\<lparr>sv_stopping := True, sv_ctlSubs := []\<rparr>) (snd cw))"

text \<open>\<open>FlushAll\<close> polls the length of the flush queue. Its readings are a list: the length, and whether the deadline has passed or the
  context was cancelled; \<open>None\<close> means that it still polls when the readings end.\<close>

fun FlushAll :: "(nat \<times> bool) list \<Rightarrow> (nat + unit) option" where
  "FlushAll [] = None"
| "FlushAll ((pending, late) # rs) = (if pending = 0 then Some (Inr ()) else if late then Some (Inl pending) else FlushAll rs)"

definition svc_Close :: "svc_opts \<Rightarrow> ('s, 'm) service \<Rightarrow> ('s, 'm) service" where
  "svc_Close so sv = sv\<lparr>sv_runtime := rt_StopAll Graceful (sv_runtime sv)\<rparr>"

definition shard_Of :: "nat \<Rightarrow> nat \<Rightarrow> nat" where
  "shard_Of ident shards = u32 (ident mod shards)"

definition svc_ShardOf :: "svc_opts \<Rightarrow> nat \<Rightarrow> nat" where
  "svc_ShardOf so ident = (if so_space so > 0 then shard_Of ident (so_space so) else shard_Of ident (so_shardCount so))"

definition svc_Owns :: "svc_opts \<Rightarrow> claimer \<Rightarrow> nat \<Rightarrow> bool" where
  "svc_Owns so c ident = Owns c (svc_ShardOf so ident)"

definition control_subjects :: "svc_opts \<Rightarrow> string list" where
  "control_subjects so = [CtlHandoff (so_node so), CtlShutdown (so_node so), ShardFreedEvt (so_kind so)]"

text \<open>\<open>subscribeControl\<close>: the subscriptions in order, up to the first that fails.\<close>

definition subscribeControl :: "(string \<Rightarrow> bool) \<Rightarrow> svc_opts \<Rightarrow> ('s, 'm) service \<Rightarrow> ('s, 'm) service \<times> bool" where
  "subscribeControl ok so sv =
     (sv\<lparr>sv_ctlSubs := sv_ctlSubs sv @ takeWhile ok (control_subjects so)\<rparr>, list_all ok (control_subjects so))"

text \<open>The hooks the service gives its claimer. \<open>live\<close> counts the nodes, \<open>ho\<close> is the call to another node.\<close>

definition svc_hooks :: "'r redis \<Rightarrow> svc_opts \<Rightarrow> ('r, 's) svc_env \<Rightarrow> (('e, 'r, 's, 'm) world \<Rightarrow> int) \<Rightarrow>
    (nat \<Rightarrow> string \<Rightarrow> ('e, 'r, 's, 'm) world \<Rightarrow> ('e, 'r, 's, 'm) world \<times> bool) \<Rightarrow> ('e, 'r, 's, 'm) world Hooks" where
  "svc_hooks R so env live ho = \<lparr>OnAcquire = Some (onAcquire R so env), OnRelease = Some (onRelease so env), OnFreed = Some (onFreed so),
     LiveNodes = Some live, RequestHandoff = Some ho\<rparr>"

section \<open>The hooks touch etcd fairly\<close>

definition world_etcd :: "'e etcd \<Rightarrow> ('e, 'r, 's, 'm) world etcd" where
  "world_etcd E = etcd_on w_etcd (\<lambda>e w. w\<lparr>w_etcd := e\<rparr>) E"

lemma world_etcd_api: "etcd_api E \<Longrightarrow> etcd_api (world_etcd E)"
  unfolding world_etcd_def by (rule etcd_on_api) simp_all

lemma world_etcd_simps [simp]:
  "e_get (world_etcd E) w = e_get E (w_etcd w)" "e_rev (world_etcd E) w = e_rev E (w_etcd w)"
  "e_lease (world_etcd E) w = e_lease E (w_etcd w)" "e_ok (world_etcd E) w = e_ok E (w_etcd w)"
  "e_put (world_etcd E) w k v l = w\<lparr>w_etcd := e_put E (w_etcd w) k v l\<rparr>" "e_del (world_etcd E) w k = w\<lparr>w_etcd := e_del E (w_etcd w) k\<rparr>"
  by (simp_all add: world_etcd_def)

lemma same_etcd_runs: "w_etcd w' = w_etcd w \<Longrightarrow> etcd_runs (world_etcd E) w w'"
  by (rule er_other [OF er_refl]) simp_all

lemma upd_svc_fields [simp]:
  "w_etcd (upd_svc nd f w) = w_etcd w" "w_redis (upd_svc nd f w) = w_redis w" "w_claimers (upd_svc nd f w) = w_claimers w"
  "w_svc (upd_svc nd f w) nd' = (if nd' = nd then f (w_svc w nd) else w_svc w nd')"
  by (simp_all add: upd_svc_def)

lemma dropState_fields [simp]:
  "w_etcd (dropState so sh w) = w_etcd w" "w_redis (dropState so sh w) = w_redis w" "w_claimers (dropState so sh w) = w_claimers w"
  by (simp_all add: dropState_def)

lemma start_actor_fields [simp]:
  "w_etcd (fst (start_actor so env ow w)) = w_etcd w" "w_redis (fst (start_actor so env ow w)) = w_redis w"
  "w_claimers (fst (start_actor so env ow w)) = w_claimers w"
  by (simp_all add: start_actor_def Let_def split: prod.splits)

lemma stop_actor_fields [simp]:
  "w_etcd (stop_actor so env ow r w) = w_etcd w" "w_claimers (stop_actor so env ow r w) = w_claimers w"
  by (simp_all add: stop_actor_def split: prod.splits option.splits)

lemma onRelease_fields [simp]:
  "w_etcd (onRelease so env ow r w) = w_etcd w" "w_claimers (onRelease so env ow r w) = w_claimers w"
  by (simp_all add: onRelease_def Let_def)

lemma onFreed_fields [simp]:
  "w_etcd (onFreed so sh w) = w_etcd w" "w_claimers (onFreed so sh w) = w_claimers w" "w_svc (onFreed so sh w) = w_svc w"
  by (simp_all add: onFreed_def)

definition raised :: "'r redis \<Rightarrow> svc_opts \<Rightarrow> ('r, 's) svc_env \<Rightarrow> Ownership \<Rightarrow> 'r \<Rightarrow> 'r \<times> unit result" where
  "raised R so env ow r = (if so_skipEpoch so then (r, Inr ())
     else RaiseEpoch R (so_keys so) (ev_raise env ow) (ow_Shard ow) (ow_Epoch ow) r)"

lemma onAcquire_cases [consumes 1]:
  assumes "onAcquire R so env ow w = (w', b)"
  obtains (refused) r1 e where "raised R so env ow (w_redis w) = (r1, Inl e)" "w' = w\<lparr>w_redis := r1\<rparr>" "\<not> b"
  | (failed) r1 w2 where "raised R so env ow (w_redis w) = (r1, Inr ())" "start_actor so env ow (w\<lparr>w_redis := r1\<rparr>) = (w2, False)"
      "w' = dropState so (ow_Shard ow) w2" "\<not> b"
  | (unheard) r1 w2 where "raised R so env ow (w_redis w) = (r1, Inr ())" "start_actor so env ow (w\<lparr>w_redis := r1\<rparr>) = (w2, True)"
      "w' = dropState so (ow_Shard ow) (stop_actor so env ow StartFailed w2)" "\<not> b"
  | (serving) r1 w2 where "raised R so env ow (w_redis w) = (r1, Inr ())" "start_actor so env ow (w\<lparr>w_redis := r1\<rparr>) = (w2, True)"
      "w' = upd_svc (so_node so) (\<lambda>sv. sv\<lparr>sv_subs := AList.update (ow_Shard ow) (so_wildcard so (ow_Shard ow)) (sv_subs sv)\<rparr>) w2" "b"
proof -
  obtain r1 q where r: "raised R so env ow (w_redis w) = (r1, q)" by fastforce
  obtain w2 st where st: "start_actor so env ow (w\<lparr>w_redis := r1\<rparr>) = (w2, st)" by fastforce
  note eq = assms [unfolded onAcquire_def raised_def [symmetric] r prod.case]
  show ?thesis
  proof (cases q)
    case (Inl e)
    then have "w' = w\<lparr>w_redis := r1\<rparr>" "\<not> b" using eq by auto
    then show ?thesis using r Inl refused by metis
  next
    case (Inr u)
    then have q: "q = Inr ()" by simp
    note eq = eq [unfolded q sum.case unit.case st prod.case]
    consider "\<not> st" | "st" "\<not> ev_sub env ow" | "st" "ev_sub env ow" by blast
    then show ?thesis
    proof cases
      case 1
      then have "w' = dropState so (ow_Shard ow) w2" "\<not> b" using eq by auto
      then show ?thesis using r st q 1 failed by metis
    next
      case 2
      then have "w' = dropState so (ow_Shard ow) (stop_actor so env ow StartFailed w2)" "\<not> b" using eq by auto
      then show ?thesis using r st q 2 unheard by metis
    next
      case 3
      then show ?thesis using r st q eq by (intro serving [of r1 w2]) auto
    qed
  qed
qed

lemma onAcquire_fields [simp]:
  "w_etcd (fst (onAcquire R so env ow w)) = w_etcd w" "w_claimers (fst (onAcquire R so env ow w)) = w_claimers w"
proof -
  obtain w' b where a: "onAcquire R so env ow w = (w', b)" by fastforce
  have *: "start_actor so env ow (w\<lparr>w_redis := r\<rparr>) = (w2, b) \<Longrightarrow> w_etcd w2 = w_etcd w \<and> w_claimers w2 = w_claimers w" for r w2 b
    using start_actor_fields [of so env ow "w\<lparr>w_redis := r\<rparr>"] by simp
  have "w_etcd w' = w_etcd w \<and> w_claimers w' = w_claimers w" using a by (cases rule: onAcquire_cases) (auto dest: *)
  then show "w_etcd (fst (onAcquire R so env ow w)) = w_etcd w" "w_claimers (fst (onAcquire R so env ow w)) = w_claimers w"
    using a by simp_all
qed

lemma svc_hooks_fair:
  "(\<And>s nd w. etcd_runs (world_etcd E) w (fst (ho s nd w))) \<Longrightarrow> fair_hooks (world_etcd E) (svc_hooks R so env live ho)"
  unfolding fair_hooks_def by (simp add: svc_hooks_def same_etcd_runs)

definition svc_nodes :: "'r redis \<Rightarrow> (nat \<Rightarrow> svc_opts) \<Rightarrow> (nat \<Rightarrow> ('r, 's) svc_env) \<Rightarrow> (nat \<Rightarrow> ('e, 'r, 's, 'm) world \<Rightarrow> int) \<Rightarrow>
    (nat \<Rightarrow> nat \<Rightarrow> string \<Rightarrow> ('e, 'r, 's, 'm) world \<Rightarrow> ('e, 'r, 's, 'm) world \<times> bool) \<Rightarrow> (nat \<Rightarrow> claimer_cfg) \<Rightarrow> nat \<Rightarrow> ('e, 'r, 's, 'm) world node_env" where
  "svc_nodes R so env live ho cfg a = \<lparr>ne_hooks = svc_hooks R (so a) (env a) (live a) (ho a), ne_cfg = cfg a\<rparr>"

section \<open>Taking over\<close>

text \<open>C2: Taking a shard over shuts its former owner out. In any reachable state of a cluster of services, let a node hold a shard
  under some epoch. When a node (another one, or the same again) then claims the shard successfully, its epoch is higher,
  and from that moment no write, delete or commit under the old epoch changes anything in Redis, whatever happens in
  between. Ownership in etcd and fencing in Redis thus fit together.\<close>

theorem new_owner_shuts_out_the_old:
  fixes w :: "('e, 'r, 's, 'm) world"
  assumes "etcd_api E" "redis_api R"
    and "cluster (world_etcd E) J (svc_nodes R so env live ho cfg) (cs, w)"
    and "\<forall>a s nd v. etcd_runs (world_etcd E) v (fst (ho a s nd v))"
    and "map_of (cl_owned (cs b)) s = Some old"
    and "claim (world_etcd E) (ne_hooks (svc_nodes R so env live ho cfg a)) J (cfg a) n1 n2 now s (cs a, w) = ((c', w'), Inr True)"
    and "\<not> so_skipEpoch (so a)"
    and "server_runs R (so_keys (so a)) (w_redis w') r" and "fop_owner op = (s, ow_Epoch old)"
  shows "fexec R (so_keys (so a)) m op r = r \<and> (\<exists>new. map_of (cl_owned c') s = Some new \<and> ow_Epoch old < ow_Epoch new)"
proof -
  note api = world_etcd_api [OF assms(1)]
  have fair: "fair_hooks (world_etcd E) (ne_hooks (svc_nodes R so env live ho cfg x))" for x
    using svc_hooks_fair [of E "ho x"] assms(4) by (simp add: svc_nodes_def)
  have apart: "epochs_apart (world_etcd E) (cs, w)"
    by (rule etcd_api.cluster_epochs_apart [OF api assms(3) fair])
  have past: "ow_Epoch old \<le> e_rev E (w_etcd w)"
    using apart assms(5) unfolding epochs_apart_def by simp
  have "\<exists>w1 ow. ow_Shard ow = s \<and> ow_Epoch ow = e_rev E (w_etcd w) + 1 \<and>
      onAcquire R (so a) (env a) ow w1 = (w', True) \<and> c' = (cs a)\<lparr>cl_owned := AList.update s ow (cl_owned (cs a))\<rparr>"
    using assms(6) by (cases rule: etcd_api.claim_cases [OF api]) (auto simp: svc_nodes_def svc_hooks_def intro!: exI)
  then obtain w1 ow where ow: "ow_Shard ow = s" "ow_Epoch ow = e_rev E (w_etcd w) + 1"
    and f: "onAcquire R (so a) (env a) ow w1 = (w', True)" and c': "c' = (cs a)\<lparr>cl_owned := AList.update s ow (cl_owned (cs a))\<rparr>"
    by blast
  from f obtain r1 w2 where r1: "raised R (so a) (env a) ow (w_redis w1) = (r1, Inr ())"
    and w2: "start_actor (so a) (env a) ow (w1\<lparr>w_redis := r1\<rparr>) = (w2, True)"
    and w': "w' = upd_svc (so_node (so a)) (\<lambda>sv. sv\<lparr>sv_subs := AList.update (ow_Shard ow) (so_wildcard (so a) (ow_Shard ow)) (sv_subs sv)\<rparr>) w2"
    by (cases rule: onAcquire_cases) auto
  have "w_redis w' = r1" using start_actor_fields(2) [of "so a" "env a" ow "w1\<lparr>w_redis := r1\<rparr>"] w2 w' by simp
  moreover have "epoch_num R (so_keys (so a)) r1 s = Some (ow_Epoch ow)"
    using redis_api.raised_epoch [OF assms(2)] r1 assms(7) ow(1) unfolding raised_def by metis
  ultimately obtain e where e: "epoch_num R (so_keys (so a)) r s = Some e" "ow_Epoch ow \<le> e"
    using redis_api.server_runs_epoch_mono [OF assms(2,8)] by metis
  then have "fexec R (so_keys (so a)) m op r = r"
    using past ow(2) assms(9) by (intro stale_no_effect [where c = e]) auto
  then show ?thesis using past ow(2) c' by (simp add: update_conv')
qed

text \<open>A concrete cluster: node 1 claims shard 0, its lease ends, node 2 claims the shard.\<close>

definition demo_so :: "nat \<Rightarrow> svc_opts" where
  "demo_so a = \<lparr>so_kind = ''lobby'', so_node = show_nat a, so_keys = lobby_keys, so_wildcard = LobbyShardWildcard, so_space = 0,
     so_shardCount = 1, so_skipEpoch = False\<rparr>"

definition demo_svc_env :: "(mem, nat) svc_env" where
  "demo_svc_env = \<lparr>ev_raise = (\<lambda>_. Delivered), ev_init = (\<lambda>_ _. Some 0), ev_sub = (\<lambda>_. True), ev_end = (\<lambda>_ _ r. r)\<rparr>"

definition new_service :: "('s, 'm) service" where
  "new_service = \<lparr>sv_runtime = NewRuntime 16 0, sv_states = [], sv_subs = [], sv_ctlSubs = [], sv_stopping = False, sv_flusher = None\<rparr>"

type_synonym demo_world = "(mem_etcd, mem, nat, nat) world"

abbreviation demo_hooks :: "nat \<Rightarrow> demo_world Hooks" where
  "demo_hooks a \<equiv> svc_hooks mem_redis (demo_so a) demo_svc_env (\<lambda>_. 1) (\<lambda>_ _ w. (w, False))"

lemma demo_raise:
  assumes "num_or0 mem_redis r (keys_Epoch lobby_keys 0) = Some c" "c < e"
  shows "RaiseEpoch mem_redis lobby_keys Delivered 0 e r = (mem_put r (keys_Epoch lobby_keys 0) (show_int e), Inr ())"
  using assms by (simp add: RaiseEpoch_def run_def scriptRaiseEpoch_eq)

lemma demo_acquire:
  fixes w :: demo_world
  assumes "num_or0 mem_redis (w_redis w) (keys_Epoch lobby_keys 0) = Some c" "c < e" "w_svc w (show_nat a) = new_service"
  shows "\<exists>w'. onAcquire mem_redis (demo_so a) demo_svc_env \<lparr>ow_Shard = 0, ow_Epoch = e, ow_Node = nd\<rparr> w = (w', True)
     \<and> w_etcd w' = w_etcd w \<and> w_redis w' = mem_put (w_redis w) (keys_Epoch lobby_keys 0) (show_int e)
     \<and> (\<forall>nd. nd \<noteq> show_nat a \<longrightarrow> w_svc w' nd = w_svc w nd)"
  using assms(3) demo_raise [OF assms(1,2)]
  by (simp add: onAcquire_def demo_so_def demo_svc_env_def start_actor_def rt_Start_def new_service_def NewRuntime_def split: unit.splits)

lemma demo_svc_claim:
  fixes w :: demo_world
  assumes "cl_lease c \<in> set (me_leases (w_etcd w))" "cl_lease c \<noteq> 0" "me_kvs (w_etcd w) = []"
    and "num_or0 mem_redis (w_redis w) (keys_Epoch lobby_keys 0) = Some k" "k < me_rev (w_etcd w) + 1" "w_svc w (show_nat a) = new_service"
  shows "\<exists>w'. claim (world_etcd mem_etcd) (demo_hooks a) blank_json (demo_cfg a) Delivered Delivered 5 0 (c, w)
      = ((c\<lparr>cl_owned := AList.update 0 \<lparr>ow_Shard = 0, ow_Epoch = me_rev (w_etcd w) + 1, ow_Node = show_nat a\<rparr> (cl_owned c)\<rparr>, w'), Inr True)
     \<and> w_etcd w' = me_put (w_etcd w) (Key (demo_cfg a) 0) (show_nat a) (cl_lease c)
     \<and> w_redis w' = mem_put (w_redis w) (keys_Epoch lobby_keys 0) (show_int (me_rev (w_etcd w) + 1))
     \<and> (\<forall>nd. nd \<noteq> show_nat a \<longrightarrow> w_svc w' nd = w_svc w nd)"
proof -
  let ?w1 = "w\<lparr>w_etcd := me_put (w_etcd w) (Key (demo_cfg a) 0) (show_nat a) (cl_lease c)\<rparr>"
  have t: "txn_create (world_etcd mem_etcd) (Key (demo_cfg a) 0) (show_nat a) (cl_lease c) w = (?w1, Some (Some (me_rev (w_etcd w) + 1)))"
    using assms by (simp add: txn_create_def) (simp add: me_put_def)
  obtain w' where w': "onAcquire mem_redis (demo_so a) demo_svc_env \<lparr>ow_Shard = 0, ow_Epoch = me_rev (w_etcd w) + 1, ow_Node = show_nat a\<rparr> ?w1 = (w', True)"
      "w_etcd w' = w_etcd ?w1" "w_redis w' = mem_put (w_redis ?w1) (keys_Epoch lobby_keys 0) (show_int (me_rev (w_etcd w) + 1))"
      "\<forall>nd. nd \<noteq> show_nat a \<longrightarrow> w_svc w' nd = w_svc ?w1 nd"
    using demo_acquire [of ?w1 k "me_rev (w_etcd w) + 1" a "show_nat a"] assms by auto
  then show ?thesis using assms(2) t w'
    by (simp add: claim_def run_def blank_json_def svc_hooks_def demo_cfg_def Let_def)
qed

theorem new_owner_shuts_out_the_old_witness:
  "\<exists>cs w c' w'. cluster (world_etcd mem_etcd) blank_json (svc_nodes mem_redis demo_so (\<lambda>_. demo_svc_env) (\<lambda>_ _. 1) (\<lambda>_ _ _ w. (w, False)) demo_cfg) (cs, w)
     \<and> claim (world_etcd mem_etcd) (demo_hooks 2) blank_json (demo_cfg 2) Delivered Delivered 5 0 (cs 2, w) = ((c', w'), Inr True)
     \<and> map_of (cl_owned (cs 1)) 0 = Some \<lparr>ow_Shard = 0, ow_Epoch = 4, ow_Node = show_nat 1\<rparr>
     \<and> fexec mem_redis lobby_keys Delivered (FWrite 0 4 [(''k'', ''late'')]) (w_redis w') = w_redis w'"
proof -
  let ?N = "svc_nodes mem_redis demo_so (\<lambda>_. demo_svc_env) (\<lambda>_ _. 1) (\<lambda>_ _ _ w. (w, False)) demo_cfg :: nat \<Rightarrow> demo_world node_env"
  define c0 where "c0 = \<lparr>cl_owned = [], cl_lease = 1, cl_stopped = False\<rparr>"
  define cs0 :: "nat \<Rightarrow> claimer" where "cs0 = (\<lambda>_. \<lparr>cl_owned = [], cl_lease = 2, cl_stopped = False\<rparr>)(1 := c0)"
  define w0 :: demo_world where "w0 = \<lparr>w_etcd = \<lparr>me_rev = 3, me_kvs = [], me_leases = [1, 2], me_next = 3\<rparr>, w_redis = mem_empty,
    w_svc = (\<lambda>_. new_service), w_claimers = cs0 \<circ> (\<lambda>_. 0), w_events = []\<rparr>"
  have n0: "num_or0 mem_redis mem_empty k = Some 0" for k by (simp add: num_or0_def mem_empty_def)
  obtain w1 where w1: "claim (world_etcd mem_etcd) (demo_hooks 1) blank_json (demo_cfg 1) Delivered Delivered 5 0 (c0, w0)
      = ((c0\<lparr>cl_owned := [(0, \<lparr>ow_Shard = 0, ow_Epoch = 4, ow_Node = show_nat 1\<rparr>)]\<rparr>, w1), Inr True)"
    "w_etcd w1 = me_put (w_etcd w0) (Key (demo_cfg 1) 0) (show_nat 1) 1"
    "w_redis w1 = mem_put mem_empty (keys_Epoch lobby_keys 0) (show_int 4)" "\<forall>nd. nd \<noteq> show_nat 1 \<longrightarrow> w_svc w1 nd = new_service"
    using demo_svc_claim [of c0 w0 0 1] n0 by (auto simp: c0_def w0_def)
  have scan: "claimer_exec (world_etcd mem_etcd) (demo_hooks 1) blank_json (demo_cfg 1) (OpScan Delivered (\<lambda>_. (Delivered, Delivered)) 5 [0]) (c0, w0)
      = (c0\<lparr>cl_owned := [(0, \<lparr>ow_Shard = 0, ow_Epoch = 4, ow_Node = show_nat 1\<rparr>)]\<rparr>, w1)"
  proof -
    have r: "e_range (world_etcd mem_etcd) w0 p = []" for p by (simp add: world_etcd_def mem_etcd_def w0_def)
    have "scan_decide (demo_hooks 1) (demo_cfg 1) [] (c0, w0) = ScanClaim [0] 1"
      by (simp add: scan_decide_def svc_hooks_def targetCount_def live_count_def go_div_def demo_cfg_def Count_def free_shards_def c0_def)
    then show ?thesis using w1(1) by (simp add: scanAndClaim_def run_def r scan_records_def reconcile_def) (simp add: c0_def)
  qed
  have ok: "me_ok (w_etcd w0)" by (simp add: w0_def me_ok_def)
  have cl0: "cluster (world_etcd mem_etcd) blank_json ?N (cs0, w0)" using ok by (intro start) (auto simp: cs0_def c0_def)
  let ?cs = "cs0(1 := c0\<lparr>cl_owned := [(0, \<lparr>ow_Shard = 0, ow_Epoch = 4, ow_Node = show_nat 1\<rparr>)]\<rparr>)"
  have cl1: "cluster (world_etcd mem_etcd) blank_json ?N (?cs, w1)"
    using act [OF cl0, of 1 "OpScan Delivered (\<lambda>_. (Delivered, Delivered)) 5 [0]"] scan by (simp add: cs0_def svc_nodes_def)
  define w2 where "w2 = w1\<lparr>w_etcd := me_revoke (w_etcd w1) 1\<rparr>"
  have "etcd_runs (world_etcd mem_etcd) w1 (e_revoke (world_etcd mem_etcd) w1 1)" by (rule er_revoke [OF er_refl])
  then have cl2: "cluster (world_etcd mem_etcd) blank_json ?N (?cs, w2)" using world [OF cl1] by (simp add: w2_def world_etcd_def)
  have e2: "w_etcd w2 = \<lparr>me_rev = 4, me_kvs = [], me_leases = [2], me_next = 3\<rparr>"
    by (simp add: w2_def w1(2) w0_def me_put_def me_revoke_def)
  have n2: "num_or0 mem_redis (w_redis w2) (keys_Epoch lobby_keys 0) = Some 4" by (simp add: w2_def w1(3) num_or0_def mem_put_def)
  obtain c' w' where w': "claim (world_etcd mem_etcd) (demo_hooks 2) blank_json (demo_cfg 2) Delivered Delivered 5 0 (?cs 2, w2) = ((c', w'), Inr True)"
    using demo_svc_claim [of "?cs 2" w2 4 2] n2 e2 w1(4) by (auto simp: cs0_def w2_def)
  have "fexec mem_redis lobby_keys Delivered (FWrite 0 4 [(''k'', ''late'')]) (w_redis w') = w_redis w'"
    using new_owner_shuts_out_the_old [OF mem_store.etcd_api_axioms mem_server.redis_api_axioms cl2, of 1 0 _ 2 Delivered Delivered 5 c' w' "w_redis w'"
        "FWrite 0 4 [(''k'', ''late'')]" Delivered] w'
    by (simp add: er_refl svc_nodes_def demo_so_def runs_refl)
  then show ?thesis using cl2 w' by (intro exI [of _ ?cs] exI [of _ w2] exI [of _ c'] exI [of _ w']) simp
qed

section \<open>Serving what is owned\<close>

text \<open>What a node has of a shard: an actor, a subscription and a state, all for one ownership, or nothing at all.\<close>

definition serves :: "svc_opts \<Rightarrow> ('s, 'm) service \<Rightarrow> nat \<Rightarrow> Ownership option \<Rightarrow> bool" where
  "serves so sv s o' \<longleftrightarrow>
     map_option ac_o (map_of (rt_actors (sv_runtime sv)) s) = o' \<and> map_of (sv_states sv) s = o' \<and>
     map_of (sv_subs sv) s = map_option (\<lambda>_. so_wildcard so s) o'"

definition serve_inv :: "svc_opts \<Rightarrow> claimer \<times> ('e, 'r, 's, 'm) world \<Rightarrow> bool" where
  "serve_inv so cw \<longleftrightarrow> claimer_ok (fst cw) \<and> (\<forall>s. serves so (w_svc (snd cw) (so_node so)) s (map_of (cl_owned (fst cw)) s))"

lemma serves_released:
  "serves so (w_svc (onRelease so env ow r w) (so_node so)) s o' \<longleftrightarrow>
     (if s = ow_Shard ow then o' = None else serves so (w_svc w (so_node so)) s o')"
proof -
  have "serves so (w_svc (onRelease so env ow r w) (so_node so)) s o' \<longleftrightarrow>
      serves so ((w_svc w (so_node so))\<lparr>sv_subs := AList.delete (ow_Shard ow) (sv_subs (w_svc w (so_node so))),
        sv_runtime := (sv_runtime (w_svc w (so_node so)))\<lparr>rt_actors := AList.delete (ow_Shard ow) (rt_actors (sv_runtime (w_svc w (so_node so))))\<rparr>,
        sv_states := AList.delete (ow_Shard ow) (sv_states (w_svc w (so_node so)))\<rparr>) s o'"
    by (auto simp: serves_def onRelease_def Let_def dropState_def stop_actor_def rt_Stop_def delete_conv' split: option.splits)
  then show ?thesis by (auto simp: serves_def delete_conv')
qed

lemma map_of_start:
  assumes "start_actor so env ow w = (w2, b)" "map_of (rt_actors (sv_runtime (w_svc w (so_node so)))) (ow_Shard ow) = None"
  shows "map_option ac_o (map_of (rt_actors (sv_runtime (w_svc w2 (so_node so)))) s)
        = (if s = ow_Shard ow then (if b then Some ow else None) else map_option ac_o (map_of (rt_actors (sv_runtime (w_svc w (so_node so)))) s))"
    and "map_of (sv_states (w_svc w2 (so_node so))) s = (if s = ow_Shard ow then Some ow else map_of (sv_states (w_svc w (so_node so))) s)"
    and "sv_subs (w_svc w2 (so_node so)) = sv_subs (w_svc w (so_node so))"
  using assms by (auto simp: start_actor_def rt_Start_def Let_def update_conv' split: option.splits if_splits)

lemma serves_acquired:
  assumes "onAcquire R so env ow w = (w', b)" "serves so (w_svc w (so_node so)) (ow_Shard ow) None"
  shows "serves so (w_svc w' (so_node so)) s o' \<longleftrightarrow>
     (if s = ow_Shard ow then o' = (if b then Some ow else None) else serves so (w_svc w (so_node so)) s o')"
  using assms(1)
proof (cases rule: onAcquire_cases)
  case (refused r1 e)
  then show ?thesis using assms(2) by (auto simp: serves_def)
next
  case (failed r1 w2)
  have n: "map_of (rt_actors (sv_runtime (w_svc (w\<lparr>w_redis := r1\<rparr>) (so_node so)))) (ow_Shard ow) = None"
    using assms(2) by (simp add: serves_def)
  note m = map_of_start [OF failed(2) n]
  show ?thesis using failed(3,4) m(3) m(1,2) [of s] assms(2) by (auto simp: serves_def dropState_def delete_conv')
next
  case (unheard r1 w2)
  have n: "map_of (rt_actors (sv_runtime (w_svc (w\<lparr>w_redis := r1\<rparr>) (so_node so)))) (ow_Shard ow) = None"
    using assms(2) by (simp add: serves_def)
  note m = map_of_start [OF unheard(2) n]
  show ?thesis using unheard(3,4) m(3) m(1,2) [of s] m(1,2) [of "ow_Shard ow"] assms(2)
    by (auto simp: serves_def dropState_def stop_actor_def rt_Stop_def delete_conv' split: option.splits)
next
  case (serving r1 w2)
  have n: "map_of (rt_actors (sv_runtime (w_svc (w\<lparr>w_redis := r1\<rparr>) (so_node so)))) (ow_Shard ow) = None"
    using assms(2) by (simp add: serves_def)
  note m = map_of_start [OF serving(2) n]
  show ?thesis using serving(3,4) m(3) m(1,2) [of s] assms(2) by (auto simp: serves_def update_conv')
qed

lemma txn_create_svc: "w_svc (fst (run n (txn_create (world_etcd E) k v l) w)) = w_svc w"
  by (auto simp: run_state txn_create_def)

lemma del_key_svc: "w_svc (fst (del_key (world_etcd E) n k w)) = w_svc w"
  by (simp add: del_key_def run_state)

lemma serve_inv_dropLocal:
  assumes "serve_inv so cw"
  shows "serve_inv so (dropLocal (svc_hooks R so env live ho) ow r cw)"
  using assms
  by (auto simp: serve_inv_def dropLocal_def svc_hooks_def claimer_ok_delete serves_released delete_conv')

lemma serve_inv_world: "serve_inv so (c, w) \<Longrightarrow> w_svc w' (so_node so) = w_svc w (so_node so) \<Longrightarrow> serve_inv so (c, w')"
  by (simp add: serve_inv_def)

lemma serve_inv_claim:
  assumes "serve_inv so cw" "\<not> Owns (fst cw) s"
  shows "serve_inv so (fst (claim (world_etcd E) (svc_hooks R so env live ho) J cfg n1 n2 now s cw))"
proof -
  let ?H = "svc_hooks R so env live ho"
  obtain c w where cw: "cw = (c, w)" by (cases cw)
  let ?txn = "txn_create (world_etcd E) (Key cfg s) (cj_enc J \<lparr>cl_Node = cc_node cfg, cl_Since = now\<rparr>) (cl_lease c)"
  obtain w1 q where q: "run n1 ?txn w = (w1, q)" by fastforce
  have w1: "w_svc w1 = w_svc w" using txn_create_svc [of n1 E] q by (metis fst_conv)
  have i1: "serve_inv so (c, w1)" using assms(1) w1 cw serve_inv_world by metis
  show ?thesis
  proof (cases "\<exists>e. q = Inr (Some e) \<and> cl_lease c \<noteq> 0")
    case False
    have "fst (claim (world_etcd E) ?H J cfg n1 n2 now s cw) \<in> {cw, (c, w1)}"
      using False by (auto simp: claim_def cw q Let_def split: sum.splits option.splits)
    then show ?thesis using assms(1) i1 by auto
  next
    case True
    then obtain e where e: "q = Inr (Some e)" "cl_lease c \<noteq> 0" by blast
    define ow where "ow = \<lparr>ow_Shard = s, ow_Epoch = e, ow_Node = cc_node cfg\<rparr>"
    define c1 where "c1 = c\<lparr>cl_owned := AList.update s ow (cl_owned c)\<rparr>"
    obtain w2 b where w2: "onAcquire R so env ow w1 = (w2, b)" by fastforce
    have eq: "fst (claim (world_etcd E) ?H J cfg n1 n2 now s cw) = (if b then (c1, w2)
        else (fst (dropLocal ?H ow StartFailed (c1, w2)), fst (del_key (world_etcd E) n2 (Key cfg s) (snd (dropLocal ?H ow StartFailed (c1, w2))))))"
      using e w2 by (simp add: claim_def cw q svc_hooks_def ow_def c1_def Let_def split: prod.splits bool.splits)
    have own: "map_of (cl_owned c) s = None" using assms(2) cw by (simp add: Owns_def)
    have ok: "claimer_ok c1" using i1 claimer_ok_update [of c ow s] by (simp add: serve_inv_def c1_def ow_def)
    then have ok': "claimer_ok (c1\<lparr>cl_owned := AList.delete s (cl_owned c1)\<rparr>)" by (rule claimer_ok_delete)
    have n: "serves so (w_svc w1 (so_node so)) (ow_Shard ow) None" using i1 own by (simp add: serve_inv_def ow_def) metis
    have i2: "serves so (w_svc w2 (so_node so)) s' (if s' = s then (if b then Some ow else None) else map_of (cl_owned c) s')" for s'
      using i1 unfolding serves_acquired [OF w2 n] by (simp add: serve_inv_def ow_def)
    show ?thesis
    proof (cases b)
      case True
      have "serves so (w_svc w2 (so_node so)) s' (map_of (cl_owned c1) s')" for s'
        using i2 [of s'] True by (auto simp: c1_def update_conv' split: if_splits)
      then show ?thesis using eq True ok by (simp add: serve_inv_def)
    next
      case False
      have d: "dropLocal ?H ow StartFailed (c1, w2) = (c1\<lparr>cl_owned := AList.delete s (cl_owned c1)\<rparr>, onRelease so env ow StartFailed w2)"
        by (simp add: dropLocal_def svc_hooks_def ow_def c1_def update_conv')
      have "serves so (w_svc (onRelease so env ow StartFailed w2) (so_node so)) s' (map_of (AList.delete s (cl_owned c1)) s')" for s'
        using i2 [of s'] by (auto simp: serves_released ow_def c1_def delete_conv' update_conv' split: if_splits)
      then show ?thesis using eq False d ok' by (simp add: serve_inv_def del_key_svc)
    qed
  qed
qed

lemma serve_inv_Release:
  assumes "serve_inv so cw"
  shows "serve_inv so (fst (Release (world_etcd E) (svc_hooks R so env live ho) cfg n s r cw))"
proof (cases "map_of (cl_owned (fst cw)) s")
  case None
  then show ?thesis using assms by (simp add: Release_def)
next
  case (Some ow)
  obtain c1 w1 where d: "dropLocal (svc_hooks R so env live ho) ow r cw = (c1, w1)" by fastforce
  obtain w2 q where k: "del_key (world_etcd E) n (Key cfg s) w1 = (w2, q)" by fastforce
  have "w_svc w2 = w_svc w1" using del_key_svc [of E n] k by (metis fst_conv)
  moreover have "serve_inv so (c1, w1)" using serve_inv_dropLocal [OF assms] d by metis
  ultimately show ?thesis using Some d k
    by (auto simp: Release_def svc_hooks_def intro!: serve_inv_world [of so c1 w1] split: sum.splits unit.splits)
qed

lemma serve_inv_Fence: "serve_inv so cw \<Longrightarrow> serve_inv so (Fence (svc_hooks R so env live ho) s cw)"
  by (simp add: Fence_def serve_inv_dropLocal split: option.splits)

text \<open>C36: A node serves exactly what it owns. Claiming a shard it does not own, releasing, fencing and handling flush results keep the
  state in which every owned shard has its actor, its subscription and its state under the epoch of the claim, and every
  other shard has none of them, on every outcome of the network, of loading and of subscribing.\<close>

theorem node_serves_what_it_owns:
  assumes "serve_inv so cw" "\<not> Owns (fst cw) s"
  shows "serve_inv so (fst (claim (world_etcd E) (svc_hooks R so env live ho) J cfg n1 n2 now s cw))
     \<and> serve_inv so (fst (Release (world_etcd E) (svc_hooks R so env live ho) cfg n s' r cw))
     \<and> serve_inv so (onFlushResult (svc_hooks R so env live ho) so remark res cw)"
proof -
  have "map_option ac_o (map_of (rt_actors (fst (rt_Do sh t rt))) s) = map_option ac_o (map_of (rt_actors rt) s)" for sh t s and rt :: "('c, 'd) Runtime"
    by (auto simp: rt_Do_def actor_post_def rt_put_def update_conv' split: option.splits prod.splits sum.splits unit.splits)
  then have "serve_inv so (onFlushResult (svc_hooks R so env live ho) so remark res cw)"
    using assms(1) serve_inv_Fence [OF assms(1)]
    by (auto simp: onFlushResult_def serve_inv_def serves_def Let_def split: option.splits prod.splits) (metis fst_conv)+
  then show ?thesis using serve_inv_claim [OF assms] serve_inv_Release [OF assms(1)] by blast
qed

definition demo_idle :: "claimer \<times> demo_world" where
  "demo_idle = (\<lparr>cl_owned = [], cl_lease = 1, cl_stopped = False\<rparr>, \<lparr>w_etcd = \<lparr>me_rev = 3, me_kvs = [], me_leases = [1, 2], me_next = 3\<rparr>,
     w_redis = mem_empty, w_svc = (\<lambda>_. new_service), w_claimers = (\<lambda>_. \<lparr>cl_owned = [], cl_lease = 2, cl_stopped = False\<rparr>), w_events = []\<rparr>)"

theorem node_serves_what_it_owns_witness:
  "serve_inv (demo_so 1) (fst (claim (world_etcd mem_etcd) (demo_hooks 1) blank_json (demo_cfg 1) Delivered Delivered 5 0 demo_idle))
   \<and> Owns (fst (fst (claim (world_etcd mem_etcd) (demo_hooks 1) blank_json (demo_cfg 1) Delivered Delivered 5 0 demo_idle))) 0"
proof -
  have "serve_inv (demo_so 1) demo_idle" "\<not> Owns (fst demo_idle) 0"
    by (simp_all add: serve_inv_def demo_idle_def claimer_ok_def serves_def new_service_def NewRuntime_def Owns_def)
  note t = node_serves_what_it_owns [OF this, of mem_etcd mem_redis demo_svc_env "\<lambda>_. 1" "\<lambda>_ _ w. (w, False)" blank_json "demo_cfg 1" Delivered Delivered 5]
  have "num_or0 mem_redis mem_empty k = Some 0" for k by (simp add: num_or0_def mem_empty_def)
  then have "Owns (fst (fst (claim (world_etcd mem_etcd) (demo_hooks 1) blank_json (demo_cfg 1) Delivered Delivered 5 0 demo_idle))) 0"
    using demo_svc_claim [of "fst demo_idle" "snd demo_idle" 0 1] by (auto simp: demo_idle_def Owns_def)
  then show ?thesis using t by blast
qed

section \<open>Handing a shard over\<close>

lemma requestHandoff_ready:
  assumes "requestHandoff h m from w = (w1, True)"
  obtains c2 w2 where "h (w_claimers w from, w) = ((c2, w2), HandoffReady True)" "w1 = w2\<lparr>w_claimers := (w_claimers w2)(from := c2)\<rparr>"
proof -
  obtain c2 w2 rep where h: "h (w_claimers w from, w) = ((c2, w2), rep)" by (metis surj_pair)
  define w3 where "w3 = w2\<lparr>w_claimers := (w_claimers w2)(from := c2)\<rparr>"
  have r: "run m (\<lambda>w. case h (w_claimers w from, w) of ((c', w'), rep) \<Rightarrow> (w'\<lparr>w_claimers := (w_claimers w')(from := c')\<rparr>, Some rep)) w
      = (if m = RequestLost then w else w3, if m = Delivered then Inr rep else Inl ErrRedis)"
    by (cases m) (simp_all add: run_def h w3_def)
  have "rep = HandoffReady True \<and> w1 = w3"
    using assms unfolding requestHandoff_def r prod.case by (cases "m = Delivered"; cases rep) simp_all
  then show ?thesis using h that w3_def by metis
qed

lemma handleHandoff_ready:
  assumes "handleHandoff E H cfg so n knd sh cw = (cw', HandoffReady True)" "Owns (fst cw) sh"
  shows "Release E H cfg n sh Graceful cw = (cw', True)"
  using assms by (auto simp: handleHandoff_def split: if_splits prod.splits bool.splits)

lemma Release_released:
  assumes "Release (world_etcd E) (svc_hooks R so env live ho) cfg n sh r (c, w) = ((c2, w2), True)" "map_of (cl_owned c) sh = Some ow" "ow_Shard ow = sh"
  shows "w_etcd w2 = e_del E (w_etcd w) (Key cfg sh) \<and> cl_owned c2 = AList.delete sh (cl_owned c)"
proof -
  define w0 where "w0 = onRelease so env ow r w"
  define c1 where "c1 = c\<lparr>cl_owned := AList.delete sh (cl_owned c)\<rparr>"
  have d: "dropLocal (svc_hooks R so env live ho) ow r (c, w) = (c1, w0)"
    using assms(2,3) by (simp add: dropLocal_def svc_hooks_def w0_def c1_def)
  have k: "del_key (world_etcd E) Delivered (Key cfg sh) w0 = (w0\<lparr>w_etcd := e_del E (w_etcd w0) (Key cfg sh)\<rparr>, Inr ())"
    "del_key (world_etcd E) RequestLost (Key cfg sh) w0 = (w0, Inl ErrRedis)"
    "del_key (world_etcd E) ReplyLost (Key cfg sh) w0 = (w0\<lparr>w_etcd := e_del E (w_etcd w0) (Key cfg sh)\<rparr>, Inl ErrRedis)"
    by (simp_all add: del_key_def run_def)
  have freed: "OnFreed (svc_hooks R so env live ho) = Some (onFreed so)" by (simp add: svc_hooks_def)
  note rel = assms(1) [unfolded Release_def fst_conv assms(2) option.case d prod.case freed]
  have "n = Delivered" using rel k by (cases n) simp_all
  then have "c2 = c1" "w2 = onFreed so sh (w0\<lparr>w_etcd := e_del E (w_etcd w0) (Key cfg sh)\<rparr>)" using rel k(1) by (auto split: unit.splits)
  then show ?thesis by (simp add: w0_def c1_def)
qed

lemma Release_delivered:
  assumes "map_of (cl_owned c) s = Some ow"
  shows "snd (Release (world_etcd E) H cfg Delivered s r (c, w))"
proof -
  obtain c1 w1 where d: "dropLocal H ow r (c, w) = (c1, w1)" by fastforce
  have k: "del_key (world_etcd E) Delivered (Key cfg s) w1 = (w1\<lparr>w_etcd := e_del E (w_etcd w1) (Key cfg s)\<rparr>, Inr ())"
    by (simp add: del_key_def run_def)
  show ?thesis unfolding Release_def fst_conv assms option.case d prod.case k by (auto split: unit.splits)
qed

text \<open>A granted handoff moves the shard. When the other node answers ready for a shard it owned, its key is gone from etcd, the other
  node has neither ownership nor actor, state or subscription of it left, and a create transaction under a live lease then
  succeeds with an epoch above the old one.\<close>

theorem granted_handoff_moves_the_shard:
  fixes w :: "('e, 'r, 's, 'm) world"
  assumes "etcd_api E"
    and "requestHandoff (handleHandoff (world_etcd E) (svc_hooks R so env live ho) cfg so n knd sh) m from w = (w1, True)"
    and "serve_inv so (w_claimers w from, w)" "map_of (cl_owned (w_claimers w from)) sh = Some old" "ow_Epoch old \<le> e_rev E (w_etcd w)"
    and "e_lease E (w_etcd w1) l"
  shows "\<not> Owns (w_claimers w1 from) sh \<and> serves so (w_svc w1 (so_node so)) sh None
     \<and> (\<exists>e. snd (txn_create E (Key cfg sh) v l (w_etcd w1)) = Some (Some e) \<and> ow_Epoch old < e)"
proof -
  from assms(2) obtain c2 w2 where h: "handleHandoff (world_etcd E) (svc_hooks R so env live ho) cfg so n knd sh (w_claimers w from, w)
      = ((c2, w2), HandoffReady True)" and w1: "w1 = w2\<lparr>w_claimers := (w_claimers w2)(from := c2)\<rparr>"
    by (rule requestHandoff_ready)
  have rel: "Release (world_etcd E) (svc_hooks R so env live ho) cfg n sh Graceful (w_claimers w from, w) = ((c2, w2), True)"
    by (rule handleHandoff_ready [OF h]) (simp add: Owns_def assms(4))
  have shard: "ow_Shard old = sh" using assms(3,4) by (auto simp: serve_inv_def claimer_ok_def dest!: map_of_SomeD)
  note r = Release_released [OF rel assms(4) shard]
  have "serve_inv so (c2, w2)" using serve_inv_Release [OF assms(3), of E R env live ho cfg n sh Graceful] rel by simp
  then have "serves so (w_svc w2 (so_node so)) sh None" using r by (simp add: serve_inv_def delete_conv') metis
  then show ?thesis
    using w1 r assms(5,6) etcd_api.get_delete [OF assms(1)] etcd_api.rev_del [OF assms(1), of "w_etcd w" "Key cfg sh"] etcd_api.rev_put [OF assms(1)]
    by (simp add: Owns_def delete_conv' txn_create_def)
qed

definition demo_ow :: Ownership where
  "demo_ow = \<lparr>ow_Shard = 0, ow_Epoch = 4, ow_Node = show_nat 3\<rparr>"

definition demo_owning :: demo_world where
  "demo_owning = \<lparr>w_etcd = me_put (w_etcd (snd demo_idle)) (Key (demo_cfg 3) 0) (show_nat 3) 1, w_redis = mem_empty,
     w_svc = (\<lambda>_. new_service)(show_nat 3 := new_service\<lparr>sv_runtime := fst (rt_Start (\<lambda>_. Some 0) demo_ow (NewRuntime 16 0)), sv_states := [(0, demo_ow)],
       sv_subs := [(0, LobbyShardWildcard 0)]\<rparr>),
     w_claimers = (\<lambda>_. fst demo_idle)(show_nat 3 := \<lparr>cl_owned = [(0, demo_ow)], cl_lease = 1, cl_stopped = False\<rparr>), w_events = []\<rparr>"

lemma demo_owning_serves: "serve_inv (demo_so 3) (w_claimers demo_owning (show_nat 3), demo_owning)"
  by (simp add: serve_inv_def demo_owning_def claimer_ok_def serves_def demo_ow_def demo_so_def new_service_def NewRuntime_def rt_Start_def)

theorem granted_handoff_moves_the_shard_witness:
  "\<exists>w1. requestHandoff (handleHandoff (world_etcd mem_etcd) (demo_hooks 3) (demo_cfg 3) (demo_so 3) Delivered ''lobby'' 0) Delivered (show_nat 3) demo_owning
       = (w1, True) \<and> \<not> Owns (w_claimers w1 (show_nat 3)) 0 \<and> serves (demo_so 3) (w_svc w1 (show_nat 3)) 0 None"
proof -
  let ?h = "handleHandoff (world_etcd mem_etcd) (demo_hooks 3) (demo_cfg 3) (demo_so 3) Delivered ''lobby'' 0"
  have own: "map_of (cl_owned (w_claimers demo_owning (show_nat 3))) 0 = Some demo_ow" by (simp add: demo_owning_def)
  define rl where "rl = Release (world_etcd mem_etcd) (demo_hooks 3) (demo_cfg 3) Delivered 0 Graceful (w_claimers demo_owning (show_nat 3), demo_owning)"
  have "snd rl" unfolding rl_def by (rule Release_delivered [OF own])
  then obtain c2 w2 where "rl = ((c2, w2), True)" by (cases rl) auto
  then have rel: "Release (world_etcd mem_etcd) (demo_hooks 3) (demo_cfg 3) Delivered 0 Graceful (w_claimers demo_owning (show_nat 3), demo_owning)
      = ((c2, w2), True)" unfolding rl_def .
  have st: "\<not> sv_stopping (w_svc demo_owning (so_node (demo_so 3)))" "so_kind (demo_so 3) = ''lobby''"
    by (simp_all add: demo_owning_def new_service_def demo_so_def)
  have h: "?h (w_claimers demo_owning (show_nat 3), demo_owning) = ((c2, w2), HandoffReady True)"
    unfolding handleHandoff_def fst_conv snd_conv Owns_def own st(2) rel using st(1) by simp
  define w1 where "w1 = w2\<lparr>w_claimers := (w_claimers w2)(show_nat 3 := c2)\<rparr>"
  have r: "requestHandoff ?h Delivered (show_nat 3) demo_owning = (w1, True)"
    unfolding requestHandoff_def run_def h w1_def by simp
  have e: "w_etcd w1 = e_del mem_etcd (w_etcd demo_owning) (Key (demo_cfg 3) 0)"
    using Release_released [OF rel own] by (simp add: w1_def demo_ow_def)
  have node: "so_node (demo_so 3) = show_nat 3" by (simp add: demo_so_def)
  have "ow_Epoch demo_ow \<le> e_rev mem_etcd (w_etcd demo_owning)" "e_lease mem_etcd (w_etcd w1) 2"
    by (simp_all add: e demo_ow_def demo_owning_def demo_idle_def me_put_def) (simp add: mem_etcd_def)
  then show ?thesis
    using granted_handoff_moves_the_shard [OF mem_store.etcd_api_axioms r demo_owning_serves own, of 2] r node by metis
qed

section \<open>A late flush result\<close>

text \<open>The result of an old batch can cost a node a shard it has claimed anew. A batch written under an earlier epoch is refused by Redis;
  its result names only the shard, and handling it drops the present ownership of that shard, whatever its epoch, while the
  key stays in etcd under the node's lease. As long as that key is there no node can claim the shard: it is served by nobody.\<close>

theorem late_fenced_result_orphans_the_shard:
  fixes w :: "('e, 'r, 's, 'm) world"
  assumes "etcd_api E" "serve_inv so (c, w)" "map_of (cl_owned c) (r_Shard res) = Some ow" "r_Fenced res" "r_Epoch res < ow_Epoch ow"
    and "e_get E (w_etcd w) (Key cfg (r_Shard res)) = Some kv"
    and "onFlushResult (svc_hooks R so env live ho) so remark (Some res) (c, w) = (c', w')"
  shows "\<not> Owns c' (r_Shard res) \<and> serves so (w_svc w' (so_node so)) (r_Shard res) None
     \<and> (\<forall>H J n1 n2 now c2. snd (claim (world_etcd E) H J cfg n1 n2 now (r_Shard res) (c2, w')) \<noteq> Inr True)"
proof -
  let ?s = "r_Shard res"
  have shard: "ow_Shard ow = ?s" using assms(2,3) by (auto simp: serve_inv_def claimer_ok_def dest!: map_of_SomeD)
  have eq: "(c', w') = Fence (svc_hooks R so env live ho) ?s (c, w)" using assms(4,7) by (simp add: onFlushResult_def)
  then have cw: "c' = c\<lparr>cl_owned := AList.delete ?s (cl_owned c)\<rparr>" "w' = onRelease so env ow Fenced w"
    using assms(3) shard by (simp_all add: Fence_def dropLocal_def svc_hooks_def)
  have "serve_inv so (c', w')" using serve_inv_Fence [OF assms(2), of R env live ho ?s] eq by simp
  then have "serves so (w_svc w' (so_node so)) ?s None" using cw(1) by (simp add: serve_inv_def delete_conv') metis
  moreover have "snd (claim (world_etcd E) H J cfg n1 n2 now ?s (c2, w')) \<noteq> Inr True" for H J n1 n2 now c2
  proof -
    obtain cw2 r where cl: "claim (world_etcd E) H J cfg n1 n2 now ?s (c2, w') = (cw2, r)" by fastforce
    then have "r \<noteq> Inr True"
      using assms(6) cw(2) by (cases rule: etcd_api.claim_cases [OF world_etcd_api [OF assms(1)]]) auto
    then show ?thesis using cl by simp
  qed
  ultimately show ?thesis using cw(1) by (simp add: Owns_def delete_conv')
qed

definition late_result :: flush_result where
  "late_result = \<lparr>r_Shard = 0, r_Epoch = 2, r_Level = L1, r_Failed = [], r_Err = None, r_Fenced = True\<rparr>"

theorem late_fenced_result_orphans_the_shard_witness:
  "\<exists>c' w'. onFlushResult (demo_hooks 3) (demo_so 3) (\<lambda>_ s. s) (Some late_result) (w_claimers demo_owning (show_nat 3), demo_owning) = (c', w')
     \<and> \<not> Owns c' 0 \<and> snd (claim (world_etcd mem_etcd) (demo_hooks 2) blank_json (demo_cfg 3) Delivered Delivered 5 0 (fst demo_idle, w')) \<noteq> Inr True"
proof -
  obtain c' w' where o: "onFlushResult (demo_hooks 3) (demo_so 3) (\<lambda>_ s. s) (Some late_result) (w_claimers demo_owning (show_nat 3), demo_owning) = (c', w')"
    by fastforce
  have own: "map_of (cl_owned (w_claimers demo_owning (show_nat 3))) (r_Shard late_result) = Some demo_ow"
    "r_Fenced late_result" "r_Epoch late_result < ow_Epoch demo_ow" by (simp_all add: demo_owning_def late_result_def demo_ow_def)
  have "\<exists>kv. e_get mem_etcd (w_etcd demo_owning) (Key (demo_cfg 3) (r_Shard late_result)) = Some kv"
    by (simp add: demo_owning_def late_result_def me_put_def update_conv')
  then obtain kv where kv: "e_get mem_etcd (w_etcd demo_owning) (Key (demo_cfg 3) (r_Shard late_result)) = Some kv" by blast
  have s: "r_Shard late_result = 0" by (simp add: late_result_def)
  show ?thesis
    using late_fenced_result_orphans_the_shard [OF mem_store.etcd_api_axioms demo_owning_serves own kv o] o unfolding s by blast
qed

section \<open>Waiting for the flush queue\<close>

text \<open>\<open>FlushAll\<close> ends at the first reading that is empty or late, and reports success only after it saw the queue empty.\<close>

theorem FlushAll_returns:
  "(\<exists>(p, late)\<in>set rs. p = 0 \<or> late) \<longleftrightarrow> FlushAll rs \<noteq> None"
  "FlushAll rs = Some (Inr ()) \<Longrightarrow> 0 \<in> fst ` set rs"
  by (induction rs rule: FlushAll.induct) (auto split: if_splits intro: rev_image_eqI)

end
