(* ===== verification/Session.thy ===== *)
theory Session
  imports Profiles Go_Bytes
begin

text \<open>
  The routing table of the gateways, \<^verbatim>\<open>pkg/session/session.go\<close>: which gateway and which connection a player is on. The
  three Lua scripts, the operations of the store on top of them, and the local cache. \<open>ARGV\<close> is written out as arguments; a
  field that does not exist compares unequal to every text. Expiry is not part of a command (see \<open>Redis_Api\<close>).

  Shown here: a session is ended only by its own connection, a newer login, the clean-up of its own gateway or expiry;
  a heartbeat tells exactly whether the connection is still the bound one; what the index of a gateway misses.
\<close>

section \<open>Data\<close>

record Info =
  in_UID :: nat
  in_GateID :: string
  in_ConnID :: nat
  in_LoginAt :: int
  in_BeatAt :: int

definition no_Info :: Info where
  "no_Info = \<lparr>in_UID = 0, in_GateID = [], in_ConnID = 0, in_LoginAt = 0, in_BeatAt = 0\<rparr>"

definition Info_Empty :: "Info \<Rightarrow> bool" where
  "Info_Empty i \<longleftrightarrow> in_GateID i = []"

definition or_empty :: "bytes option \<Rightarrow> bytes" where
  "or_empty v = (case v of None \<Rightarrow> [] | Some x \<Rightarrow> x)"

section \<open>Scripts\<close>

definition sess_scriptBind :: "'r redis \<Rightarrow> string \<Rightarrow> bytes \<Rightarrow> bytes \<Rightarrow> bytes \<Rightarrow> bytes \<Rightarrow> int \<Rightarrow> 'r \<Rightarrow> 'r \<times> (bytes \<times> bytes) option" where
  "sess_scriptBind R k uid gate conn now ttl s =
     (let old1 = HGET R s k ''gate_id''; old2 = HGET R s k ''conn_id'';
          s1 = HSET R s k [(''uid'', uid), (''gate_id'', gate), (''conn_id'', conn), (''login_at'', now), (''beat_at'', now)];
          s2 = EXPIRE R s1 k ttl
      in (s2, Some (or_empty old1, or_empty old2)))"

definition sess_scriptUnbind :: "'r redis \<Rightarrow> string \<Rightarrow> bytes \<Rightarrow> bytes \<Rightarrow> 'r \<Rightarrow> 'r \<times> int option" where
  "sess_scriptUnbind R k gate conn s =
     (if HGET R s k ''gate_id'' = Some gate \<and> HGET R s k ''conn_id'' = Some conn then (DEL R s k, Some 1) else (s, Some 0))"

definition scriptTouch :: "'r redis \<Rightarrow> string \<Rightarrow> bytes \<Rightarrow> bytes \<Rightarrow> bytes \<Rightarrow> int \<Rightarrow> 'r \<Rightarrow> 'r \<times> int option" where
  "scriptTouch R k gate conn now ttl s =
     (if HGET R s k ''gate_id'' \<noteq> Some gate \<or> HGET R s k ''conn_id'' \<noteq> Some conn then (s, Some 0)
      else (EXPIRE R (HSET R s k [(''beat_at'', now)]) k ttl, Some 1))"

section \<open>The store\<close>

definition session_ttl :: "int \<Rightarrow> int" where
  "session_ttl ttl = (if ttl \<le> 0 then 300 else ttl)"

text \<open>\<open>n1\<close> is the fate of the script, \<open>n2\<close> that of the index command, whose error is only logged.\<close>

definition sess_Bind :: "'r redis \<Rightarrow> keys \<Rightarrow> int \<Rightarrow> net \<Rightarrow> net \<Rightarrow> int \<Rightarrow> nat \<Rightarrow> string \<Rightarrow> nat \<Rightarrow> 'r \<Rightarrow> 'r \<times> Info result" where
  "sess_Bind R ks ttl n1 n2 now uid gateID connID s =
     (case run n1 (sess_scriptBind R (keys_Session ks uid) (show_nat uid) gateID (show_nat connID) (show_int now) ttl) s of
        (s1, Inl e) \<Rightarrow> (s1, Inl e)
      | (s1, Inr (oldGate, oldConn)) \<Rightarrow>
          (let s2 = fst (run n2 (\<lambda>s. (SADD R s (keys_GateSessions ks gateID) (show_nat uid), Some ())) s1) in
           if oldGate = [] then (s2, Inr no_Info)
           else (s2, Inr (no_Info\<lparr>in_UID := uid, in_GateID := oldGate, in_ConnID := ParseUint 64 oldConn\<rparr>))))"

definition sess_Unbind :: "'r redis \<Rightarrow> keys \<Rightarrow> net \<Rightarrow> net \<Rightarrow> nat \<Rightarrow> string \<Rightarrow> nat \<Rightarrow> 'r \<Rightarrow> 'r \<times> bool result" where
  "sess_Unbind R ks n1 n2 uid gateID connID s =
     (case run n1 (sess_scriptUnbind R (keys_Session ks uid) gateID (show_nat connID)) s of
        (s1, Inl e) \<Rightarrow> (s1, Inl e)
      | (s1, Inr n) \<Rightarrow> (fst (run n2 (\<lambda>s. (SREM R s (keys_GateSessions ks gateID) (show_nat uid), Some ())) s1), Inr (n = 1)))"

definition sess_Touch :: "'r redis \<Rightarrow> keys \<Rightarrow> int \<Rightarrow> net \<Rightarrow> int \<Rightarrow> nat \<Rightarrow> string \<Rightarrow> nat \<Rightarrow> 'r \<Rightarrow> 'r \<times> bool result" where
  "sess_Touch R ks ttl n now uid gateID connID s =
     (case run n (scriptTouch R (keys_Session ks uid) gateID (show_nat connID) (show_int now) ttl) s of
        (s1, Inl e) \<Rightarrow> (s1, Inl e)
      | (s1, Inr m) \<Rightarrow> (s1, Inr (m = 1)))"

definition parseInfo :: "nat \<Rightarrow> bytes option list \<Rightarrow> Info" where
  "parseInfo uid vals =
     (if length vals < 4 then no_Info\<lparr>in_UID := uid\<rparr>
      else \<lparr>in_UID = uid, in_GateID = or_empty (vals ! 0),
            in_ConnID = (case vals ! 1 of None \<Rightarrow> 0 | Some c \<Rightarrow> ParseUint 64 c),
            in_LoginAt = (case vals ! 2 of None \<Rightarrow> 0 | Some l \<Rightarrow> ParseInt64 l),
            in_BeatAt = (case vals ! 3 of None \<Rightarrow> 0 | Some b \<Rightarrow> ParseInt64 b)\<rparr>)"

definition info_fields :: "string list" where
  "info_fields = [''gate_id'', ''conn_id'', ''login_at'', ''beat_at'']"

definition read_info :: "'r redis \<Rightarrow> keys \<Rightarrow> nat \<Rightarrow> 'r \<Rightarrow> Info" where
  "read_info R ks uid s = parseInfo uid (HMGET R s (keys_Session ks uid) info_fields)"

definition sess_Get :: "'r redis \<Rightarrow> keys \<Rightarrow> net \<Rightarrow> nat \<Rightarrow> 'r \<Rightarrow> Info result" where
  "sess_Get R ks n uid s = (if n = Delivered then Inr (read_info R ks uid s) else Inl ErrRedis)"

text \<open>The commands of the pipeline are kept in a map by player, so a player asked for twice is read once.\<close>

definition sess_GetMany :: "'r redis \<Rightarrow> keys \<Rightarrow> net \<Rightarrow> nat list \<Rightarrow> 'r \<Rightarrow> (nat \<times> Info) list result" where
  "sess_GetMany R ks n uids s =
     (if uids = [] then Inr []
      else if n \<noteq> Delivered then Inl ErrRedis
      else Inr (filter (\<lambda>(uid, i). \<not> Info_Empty i) (map (\<lambda>uid. (uid, read_info R ks uid s)) (remdups uids))))"

fun group_by_gate :: "(nat \<times> Info) list \<Rightarrow> (string \<times> nat list) list \<Rightarrow> (string \<times> nat list) list" where
  "group_by_gate [] out = out"
| "group_by_gate ((uid, i) # infos) out =
     group_by_gate infos (AList.update (in_GateID i) ((case map_of out (in_GateID i) of None \<Rightarrow> [] | Some us \<Rightarrow> us) @ [uid]) out)"

definition GroupByGate :: "'r redis \<Rightarrow> keys \<Rightarrow> net \<Rightarrow> nat list \<Rightarrow> 'r \<Rightarrow> (string \<times> nat list) list result" where
  "GroupByGate R ks n uids s =
     (case sess_GetMany R ks n uids s of Inl e \<Rightarrow> Inl e | Inr infos \<Rightarrow> Inr (group_by_gate infos []))"

text \<open>The loop of \<open>CleanGate\<close>; the network decides about each entry: the read, the script and the index command.\<close>

fun clean_loop :: "'r redis \<Rightarrow> keys \<Rightarrow> (nat \<Rightarrow> net \<times> net \<times> net) \<Rightarrow> string \<Rightarrow> bytes list \<Rightarrow> nat \<Rightarrow> 'r \<Rightarrow> 'r \<times> nat" where
  "clean_loop R ks ns gateID [] cleaned s = (s, cleaned)"
| "clean_loop R ks ns gateID (raw # raws) cleaned s =
     (case go_ParseUint raw of
        None \<Rightarrow> clean_loop R ks ns gateID raws cleaned s
      | Some uid \<Rightarrow>
          (case ns uid of (n1, n2, n3) \<Rightarrow>
            (case sess_Get R ks n1 uid s of
               Inl e \<Rightarrow> clean_loop R ks ns gateID raws cleaned s
             | Inr i \<Rightarrow>
                 if in_GateID i = gateID
                 then (case sess_Unbind R ks n2 n3 uid gateID (in_ConnID i) s of
                         (s1, Inl e) \<Rightarrow> clean_loop R ks ns gateID raws cleaned s1
                       | (s1, Inr b) \<Rightarrow> clean_loop R ks ns gateID raws (cleaned + 1) s1)
                 else clean_loop R ks ns gateID raws cleaned s)))"

definition CleanGate :: "'r redis \<Rightarrow> keys \<Rightarrow> net \<Rightarrow> (nat \<Rightarrow> net \<times> net \<times> net) \<Rightarrow> net \<Rightarrow> string \<Rightarrow> 'r \<Rightarrow> 'r \<times> nat result" where
  "CleanGate R ks n1 ns n2 gateID s =
     (if n1 \<noteq> Delivered then (s, Inl ErrRedis)
      else case clean_loop R ks ns gateID (SMEMBERS R s (keys_GateSessions ks gateID)) 0 s of
        (s1, cleaned) \<Rightarrow> (fst (run n2 (\<lambda>s. (DEL R s (keys_GateSessions ks gateID), Some ())) s1), Inr cleaned))"

section \<open>The cache\<close>

record cache =
  ca_ttl :: int
  ca_items :: "(nat \<times> Info \<times> int) list"

definition NewCache :: "int \<Rightarrow> cache" where
  "NewCache ttl = \<lparr>ca_ttl = (if ttl \<le> 0 then 2000000000 else ttl), ca_items = []\<rparr>"

text \<open>\<open>now1\<close> is read before the lookup and \<open>now2\<close> after it.\<close>

definition cache_Get :: "'r redis \<Rightarrow> keys \<Rightarrow> net \<Rightarrow> int \<Rightarrow> int \<Rightarrow> nat \<Rightarrow> 'r \<Rightarrow> cache \<Rightarrow> cache \<times> Info result" where
  "cache_Get R ks n now1 now2 uid s c =
     (case map_of (ca_items c) uid of
        Some (i, till) \<Rightarrow> if now1 < till then (c, Inr i)
          else (case sess_Get R ks n uid s of Inl e \<Rightarrow> (c, Inl e)
                | Inr i \<Rightarrow> (c\<lparr>ca_items := AList.update uid (i, now2 + ca_ttl c) (ca_items c)\<rparr>, Inr i))
      | None \<Rightarrow> (case sess_Get R ks n uid s of Inl e \<Rightarrow> (c, Inl e)
                | Inr i \<Rightarrow> (c\<lparr>ca_items := AList.update uid (i, now2 + ca_ttl c) (ca_items c)\<rparr>, Inr i)))"

definition cache_Invalidate :: "nat \<Rightarrow> cache \<Rightarrow> cache" where
  "cache_Invalidate uid c = c\<lparr>ca_items := AList.delete uid (ca_items c)\<rparr>"

definition cache_Purge :: "cache \<Rightarrow> cache" where
  "cache_Purge c = c\<lparr>ca_items := []\<rparr>"

section \<open>Who ends a session\<close>

definition bound :: "'r redis \<Rightarrow> keys \<Rightarrow> nat \<Rightarrow> string \<Rightarrow> nat \<Rightarrow> 'r \<Rightarrow> bool" where
  "bound R ks uid g c s \<longleftrightarrow> HGET R s (keys_Session ks uid) ''gate_id'' = Some g \<and> HGET R s (keys_Session ks uid) ''conn_id'' = Some (show_nat c)"

datatype sess_op =
    SBind net net int nat string nat
  | SUnbind net net nat string nat
  | STouch net int nat string nat
  | SClean net "nat \<Rightarrow> net \<times> net \<times> net" net string

fun sess_exec :: "'r redis \<Rightarrow> keys \<Rightarrow> int \<Rightarrow> sess_op \<Rightarrow> 'r \<Rightarrow> 'r" where
  "sess_exec R ks ttl (SBind n1 n2 now uid g c) s = fst (sess_Bind R ks ttl n1 n2 now uid g c s)"
| "sess_exec R ks ttl (SUnbind n1 n2 uid g c) s = fst (sess_Unbind R ks n1 n2 uid g c s)"
| "sess_exec R ks ttl (STouch n now uid g c) s = fst (sess_Touch R ks ttl n now uid g c s)"
| "sess_exec R ks ttl (SClean n1 ns n2 g) s = fst (CleanGate R ks n1 ns n2 g s)"

text \<open>The operations that may end the session of \<open>uid\<close> on connection \<open>c\<close> of gateway \<open>g\<close>: a login of the same player, the logout of this
  very connection, the clean-up of this gateway.\<close>

fun may_end :: "nat \<Rightarrow> string \<Rightarrow> nat \<Rightarrow> sess_op \<Rightarrow> bool" where
  "may_end uid g c (SBind n1 n2 now uid' g' c') \<longleftrightarrow> uid' = uid"
| "may_end uid g c (SUnbind n1 n2 uid' g' c') \<longleftrightarrow> uid' = uid \<and> g' = g \<and> c' = c"
| "may_end uid g c (STouch n now uid' g' c') \<longleftrightarrow> False"
| "may_end uid g c (SClean n1 ns n2 g') \<longleftrightarrow> g' = g"

lemma gate_render: "keys_GateSessions ks g = render ks (KGateSessions g)"
  by (simp add: render.simps)

lemma session_keys [simp]:
  "keys_Session ks u = keys_Session ks v \<longleftrightarrow> u = v" "keys_Session ks u \<noteq> keys_GateSessions ks g" "keys_GateSessions ks g \<noteq> keys_Session ks u"
  "keys_GateSessions ks g = keys_GateSessions ks g' \<longleftrightarrow> g = g'"
  by (simp_all add: key_eqs gate_render)

lemma fst_sess_Bind: "fst (sess_Bind R ks ttl n1 n2 now uid g c s) =
   (let r = run n1 (sess_scriptBind R (keys_Session ks uid) (show_nat uid) g (show_nat c) (show_int now) ttl) s in
    if isl (snd r) then fst r else fst (run n2 (\<lambda>s. (SADD R s (keys_GateSessions ks g) (show_nat uid), Some ())) (fst r)))"
  by (auto simp: sess_Bind_def Let_def split: prod.splits sum.splits)

lemma fst_sess_Unbind: "fst (sess_Unbind R ks n1 n2 uid g c s) =
   (let r = run n1 (sess_scriptUnbind R (keys_Session ks uid) g (show_nat c)) s in
    if isl (snd r) then fst r else fst (run n2 (\<lambda>s. (SREM R s (keys_GateSessions ks g) (show_nat uid), Some ())) (fst r)))"
  by (auto simp: sess_Unbind_def Let_def split: prod.splits sum.splits)

lemma fst_sess_Touch: "fst (sess_Touch R ks ttl n now uid g c s) =
   fst (run n (scriptTouch R (keys_Session ks uid) g (show_nat c) (show_int now) ttl) s)"
  by (auto simp: sess_Touch_def split: prod.splits sum.splits)

context redis_api
begin

lemma sess_hget:
  "HGET R (SADD R s (keys_GateSessions ks g) m) (keys_Session ks u) = HGET R s (keys_Session ks u)"
  "HGET R (SREM R s (keys_GateSessions ks g) m) (keys_Session ks u) = HGET R s (keys_Session ks u)"
  "HGET R (DEL R s (keys_GateSessions ks g)) (keys_Session ks u) = HGET R s (keys_Session ks u)"
  "HGET R (EXPIRE R s k t) k' = HGET R s k'"
  by (simp_all add: hget_frame)

lemma bound_Bind: "uid' \<noteq> uid \<Longrightarrow> bound R ks uid g c s \<Longrightarrow> bound R ks uid g c (fst (sess_Bind R ks ttl n1 n2 now uid' g' c' s))"
  by (simp add: fst_sess_Bind run_state bound_def Let_def sess_scriptBind_def sess_hget hget_frame)

lemma bound_Unbind: "\<not> (uid' = uid \<and> g' = g \<and> c' = c) \<Longrightarrow> bound R ks uid g c s \<Longrightarrow> bound R ks uid g c (fst (sess_Unbind R ks n1 n2 uid' g' c' s))"
  by (cases "uid' = uid") (auto simp: fst_sess_Unbind run_state bound_def Let_def sess_scriptUnbind_def sess_hget hget_frame)

lemma bound_Touch: "bound R ks uid g c s \<Longrightarrow> bound R ks uid g c (fst (sess_Touch R ks ttl n now uid' g' c' s))"
  by (cases "uid' = uid") (auto simp: fst_sess_Touch run_state bound_def scriptTouch_def sess_hget hget_frame hget_hset)

lemma bound_clean_loop:
  "g' \<noteq> g \<Longrightarrow> bound R ks uid g c s \<Longrightarrow> bound R ks uid g c (fst (clean_loop R ks ns g' raws k s))"
proof (induction raws arbitrary: k s)
  case (Cons raw raws)
  have "bound R ks uid g c (fst (sess_Unbind R ks n2 n3 v g' x s))" for n2 n3 v x using bound_Unbind Cons.prems by blast
  then show ?case using Cons by (auto split: option.splits prod.splits sum.splits) (metis fst_conv)+
qed simp

lemma bound_exec: "\<not> may_end uid g c op \<Longrightarrow> bound R ks uid g c s \<Longrightarrow> bound R ks uid g c (sess_exec R ks ttl op s)"
proof (cases op)
  case (SClean n1 ns n2 g')
  assume "\<not> may_end uid g c op" "bound R ks uid g c s"
  then have "bound R ks uid g c (fst (clean_loop R ks ns g' (SMEMBERS R s (keys_GateSessions ks g')) 0 s))"
    using SClean bound_clean_loop by simp
  then have "bound R ks uid g c (fst (run n2 (\<lambda>s. (DEL R s (keys_GateSessions ks g'), Some ())) (fst (clean_loop R ks ns g' (SMEMBERS R s (keys_GateSessions ks g')) 0 s))))"
    by (simp add: run_state bound_def sess_hget)
  then show ?thesis using SClean \<open>bound R ks uid g c s\<close> by (auto simp: CleanGate_def split: prod.splits)
qed (auto simp: bound_Bind bound_Unbind bound_Touch)

end

text \<open>A session is ended only by its own end. Once a connection is bound to a player, it stays bound through any sequence of logins of
  other players, late logouts of connections that were replaced, heartbeats of any connection and clean-ups of other
  gateways, whatever requests or replies are lost; only a login of the same player, its own logout or the
  clean-up of its own gateway can end it.\<close>

theorem session_survives_foreign_operations:
  assumes "redis_api R" "bound R ks uid g c s" "\<forall>op\<in>set ops. \<not> may_end uid g c op"
  shows "bound R ks uid g c (fold (sess_exec R ks ttl) ops s)"
  using assms(2,3) by (induction ops arbitrary: s) (auto simp: redis_api.bound_exec [OF assms(1)])

theorem session_survives_foreign_operations_witness:
  "bound mem_redis lobby_keys 7 ''g2'' 5 (fold (sess_exec mem_redis lobby_keys 300) [SUnbind Delivered Delivered 7 ''g1'' 4, SClean Delivered (\<lambda>_. (Delivered, Delivered, Delivered)) Delivered ''g1'']
     (fst (sess_Bind mem_redis lobby_keys 300 Delivered Delivered 2 7 ''g2'' 5 (fst (sess_Bind mem_redis lobby_keys 300 Delivered Delivered 1 7 ''g1'' 4 mem_empty)))))"
  by (rule session_survives_foreign_operations [OF mem_server.redis_api_axioms])
    (simp_all add: fst_sess_Bind run_def bound_def Let_def sess_scriptBind_def redis_api.sess_hget [OF mem_server.redis_api_axioms]
       redis_api.hget_hset [OF mem_server.redis_api_axioms] del: mem_redis_simps)

section \<open>What the operations report\<close>

text \<open>The answers are exact. A login that is answered returns the session it replaced, if there was one, and leaves its own connection
  bound; a heartbeat or logout that is answered says whether the connection was the bound one; after a logout that says so the
  player has no session.\<close>

theorem session_answers_are_exact:
  assumes "redis_api R" "g \<noteq> []" "g' \<noteq> []" "c' < 2 ^ 64"
  shows "(snd (sess_Bind R ks ttl n1 n2 now uid g c s) = Inr i \<longrightarrow> bound R ks uid g c (fst (sess_Bind R ks ttl n1 n2 now uid g c s)) \<and>
        (bound R ks uid g' c' s \<longrightarrow> i = no_Info\<lparr>in_UID := uid, in_GateID := g', in_ConnID := c'\<rparr>) \<and>
        (HGET R s (keys_Session ks uid) ''gate_id'' = None \<longrightarrow> i = no_Info))
     \<and> (snd (sess_Touch R ks ttl n1 now uid g c s) = Inr b \<longrightarrow> b = bound R ks uid g c s)
     \<and> (snd (sess_Unbind R ks n1 n2 uid g c s) = Inr b \<longrightarrow> b = bound R ks uid g c s \<and>
        (b \<longrightarrow> HGET R (fst (sess_Unbind R ks n1 n2 uid g c s)) (keys_Session ks uid) = Map.empty))"
proof (intro conjI impI)
  note h = redis_api.sess_hget [OF assms(1)] redis_api.hget_hset [OF assms(1)] redis_api.hget_del [OF assms(1)]
  show "bound R ks uid g c (fst (sess_Bind R ks ttl n1 n2 now uid g c s))" if "snd (sess_Bind R ks ttl n1 n2 now uid g c s) = Inr i"
    using that by (cases n1) (auto simp: sess_Bind_def run_def sess_scriptBind_def Let_def bound_def h split: net.splits)
  show "i = no_Info\<lparr>in_UID := uid, in_GateID := g', in_ConnID := c'\<rparr>" if "snd (sess_Bind R ks ttl n1 n2 now uid g c s) = Inr i" "bound R ks uid g' c' s"
    using that assms(3,4) by (cases n1) (auto simp: sess_Bind_def run_def sess_scriptBind_def Let_def bound_def or_empty_def ParseUint_show)
  show "i = no_Info" if "snd (sess_Bind R ks ttl n1 n2 now uid g c s) = Inr i" "HGET R s (keys_Session ks uid) ''gate_id'' = None"
    using that by (cases n1) (auto simp: sess_Bind_def run_def sess_scriptBind_def Let_def or_empty_def)
  show "b = bound R ks uid g c s" if "snd (sess_Touch R ks ttl n1 now uid g c s) = Inr b"
    using that by (cases n1) (auto simp: sess_Touch_def run_def scriptTouch_def bound_def split: if_splits)
  show "b = bound R ks uid g c s" if "snd (sess_Unbind R ks n1 n2 uid g c s) = Inr b"
    using that by (cases n1) (auto simp: sess_Unbind_def run_def sess_scriptUnbind_def bound_def split: if_splits)
  show "HGET R (fst (sess_Unbind R ks n1 n2 uid g c s)) (keys_Session ks uid) = Map.empty"
    if "snd (sess_Unbind R ks n1 n2 uid g c s) = Inr b" "b"
    using that by (cases n1) (auto simp: sess_Unbind_def run_def sess_scriptUnbind_def bound_def h split: if_splits net.splits)
qed

lemma sess_Bind_answers: "\<exists>i. snd (sess_Bind R ks ttl Delivered n2 now uid g c s) = Inr i"
  by (simp add: sess_Bind_def run_def sess_scriptBind_def Let_def)

theorem session_answers_are_exact_witness:
  "snd (sess_Bind mem_redis lobby_keys 300 Delivered Delivered 2 7 ''g2'' 5 (fst (sess_Bind mem_redis lobby_keys 300 Delivered Delivered 1 7 ''g1'' 4 mem_empty)))
     = Inr (no_Info\<lparr>in_UID := 7, in_GateID := ''g1'', in_ConnID := 4\<rparr>)"
proof -
  let ?s = "fst (sess_Bind mem_redis lobby_keys 300 Delivered Delivered 1 7 ''g1'' 4 mem_empty)"
  obtain i0 where "snd (sess_Bind mem_redis lobby_keys 300 Delivered Delivered 1 7 ''g1'' 4 mem_empty) = Inr i0"
    by (rule exE [OF sess_Bind_answers])
  then have b: "bound mem_redis lobby_keys 7 ''g1'' 4 ?s"
    using session_answers_are_exact [OF mem_server.redis_api_axioms, of "''g1''" "''g1''" 4 lobby_keys 300 Delivered Delivered 1 7 4 mem_empty i0 True] by simp
  obtain i where "snd (sess_Bind mem_redis lobby_keys 300 Delivered Delivered 2 7 ''g2'' 5 ?s) = Inr i"
    by (rule exE [OF sess_Bind_answers])
  then show ?thesis
    using session_answers_are_exact [OF mem_server.redis_api_axioms, of "''g2''" "''g1''" 4 lobby_keys 300 Delivered Delivered 2 7 5 ?s i True] b by simp
qed

section \<open>The index of a gateway\<close>

text \<open>A late logout on the same gateway hides the new session from the clean-up. When a player logs in twice on one gateway, the logout of
  the first connection finds another connection bound and keeps the session, but takes the player out of the gateway's index
  all the same; the clean-up at the gateway's next start then leaves the session of the dead gateway in place.\<close>

theorem late_logout_hides_the_session:
  assumes "redis_api R" "c1 \<noteq> c2" "bound R ks uid g c2 s"
  defines "s1 \<equiv> fst (sess_Unbind R ks Delivered Delivered uid g c1 s)"
  assumes "\<forall>u. show_nat u \<in> set (SMEMBERS R s (keys_GateSessions ks g)) \<longrightarrow> u = uid"
    and "set (SMEMBERS R s (keys_GateSessions ks g)) \<subseteq> range show_nat"
  shows "bound R ks uid g c2 (fst (CleanGate R ks Delivered ns Delivered g s1))"
proof -
  have s1: "s1 = SREM R s (keys_GateSessions ks g) (show_nat uid)"
    using assms(2,3) unfolding s1_def by (simp add: fst_sess_Unbind run_def sess_scriptUnbind_def bound_def)
  have "set (SMEMBERS R s1 (keys_GateSessions ks g)) = {}"
  proof -
    have "m = show_nat uid" if "m \<in> set (SMEMBERS R s (keys_GateSessions ks g))" for m using assms(5,6) that by blast
    then show ?thesis unfolding s1 redis_api.smembers_srem [OF assms(1)] by blast
  qed
  then have "fst (CleanGate R ks Delivered ns Delivered g s1) = DEL R s1 (keys_GateSessions ks g)"
    unfolding CleanGate_def run_def by simp
  then show ?thesis using assms(3) unfolding s1 bound_def by (simp add: redis_api.sess_hget [OF assms(1)])
qed

lemma SMEMBERS_bind:
  assumes "redis_api R"
  shows "set (SMEMBERS R (fst (sess_Bind R ks ttl Delivered Delivered now uid g c s)) (keys_GateSessions ks g))
     = insert (show_nat uid) (set (SMEMBERS R s (keys_GateSessions ks g)))"
  by (simp add: fst_sess_Bind run_def sess_scriptBind_def Let_def redis_api.smembers_sadd [OF assms] redis_api.smembers_frame [OF assms])

theorem late_logout_hides_the_session_witness:
  "\<exists>s. bound mem_redis lobby_keys 7 ''g'' 5 s \<and> bound mem_redis lobby_keys 7 ''g'' 5 (fst (CleanGate mem_redis lobby_keys Delivered (\<lambda>_. (Delivered, Delivered, Delivered)) Delivered ''g''
     (fst (sess_Unbind mem_redis lobby_keys Delivered Delivered 7 ''g'' 4 s))))"
proof -
  let ?s1 = "fst (sess_Bind mem_redis lobby_keys 300 Delivered Delivered 1 7 ''g'' 4 mem_empty)"
  let ?s = "fst (sess_Bind mem_redis lobby_keys 300 Delivered Delivered 2 7 ''g'' 5 ?s1)"
  note api = mem_server.redis_api_axioms
  have e: "set (SMEMBERS mem_redis mem_empty k) = {}" for k by (simp add: mem_redis_def mem_empty_def)
  have m: "set (SMEMBERS mem_redis ?s (keys_GateSessions lobby_keys ''g'')) = {show_nat 7}"
    unfolding SMEMBERS_bind [OF api] e by simp
  have b: "bound mem_redis lobby_keys 7 ''g'' 5 ?s"
    by (simp add: fst_sess_Bind run_def bound_def Let_def sess_scriptBind_def redis_api.sess_hget [OF api] redis_api.hget_hset [OF api] del: mem_redis_simps)
  then show ?thesis using late_logout_hides_the_session [OF api, of 4 5 lobby_keys 7 "''g''" ?s] m by (intro exI [of _ ?s]) auto
qed

text \<open>As long as the index names every player on the gateway, a clean-up whose calls are all delivered ends every session of the
  gateway.\<close>

definition on_gate :: "'r redis \<Rightarrow> keys \<Rightarrow> string \<Rightarrow> 'r \<Rightarrow> nat \<Rightarrow> bool" where
  "on_gate R ks g s u \<longleftrightarrow> HGET R s (keys_Session ks u) ''gate_id'' = Some g"

lemma on_gate_read:
  assumes "u < 2 ^ 64" "g \<noteq> []" "\<exists>c < 2 ^ 64. on_gate R ks g s u \<longrightarrow> bound R ks u g c s"
  shows "in_GateID (read_info R ks u s) = g \<longleftrightarrow> on_gate R ks g s u"
    and "on_gate R ks g s u \<Longrightarrow> bound R ks u g (in_ConnID (read_info R ks u s)) s"
  using assms
  by (auto simp: read_info_def parseInfo_def info_fields_def HMGET_def on_gate_def or_empty_def bound_def ParseUint_show split: option.splits)

definition gate_indexed :: "'r redis \<Rightarrow> keys \<Rightarrow> string \<Rightarrow> bytes set \<Rightarrow> 'r \<Rightarrow> bool" where
  "gate_indexed R ks g idx s \<longleftrightarrow> (\<forall>u. on_gate R ks g s u \<longrightarrow> u < 2 ^ 64 \<and> show_nat u \<in> idx \<and> (\<exists>c < 2 ^ 64. bound R ks u g c s))"

abbreviation all_delivered :: "nat \<Rightarrow> net \<times> net \<times> net" where
  "all_delivered \<equiv> \<lambda>_. (Delivered, Delivered, Delivered)"

lemma clean_step:
  assumes api: "redis_api R" and g: "g \<noteq> []" and i: "gate_indexed R ks g (set (raw # raws)) s"
  shows "\<exists>s' k'. clean_loop R ks all_delivered g (raw # raws) k s = clean_loop R ks all_delivered g raws k' s' \<and> gate_indexed R ks g (set raws) s'"
proof -
  have skip: "gate_indexed R ks g (set raws) s" if "\<And>u. on_gate R ks g s u \<Longrightarrow> raw \<noteq> show_nat u"
    using i that by (fastforce simp: gate_indexed_def)
  have parse: "go_ParseUint raw = Some u" if "on_gate R ks g s u" "raw = show_nat u" for u
    using i that go_ParseUint_show by (auto simp: gate_indexed_def)
  show ?thesis
  proof (cases "go_ParseUint raw")
    case None
    then have "gate_indexed R ks g (set raws) s" using skip parse by (metis option.distinct(1))
    then show ?thesis using None by auto
  next
    case (Some v)
    have v: "v < 2 ^ 64" using Some by (auto simp: go_ParseUint_def split: option.splits if_splits)
    note rd = on_gate_read [OF v g, of R ks s]
    have c: "\<exists>c < 2 ^ 64. on_gate R ks g s v \<longrightarrow> bound R ks v g c s"
      using i v unfolding gate_indexed_def by (cases "on_gate R ks g s v") auto
    show ?thesis
    proof (cases "on_gate R ks g s v")
      case False
      then have "in_GateID (read_info R ks v s) \<noteq> g" using rd(1) c by blast
      then have "clean_loop R ks all_delivered g (raw # raws) k s = clean_loop R ks all_delivered g raws k s"
        using Some by (simp add: sess_Get_def)
      moreover have "gate_indexed R ks g (set raws) s" using skip parse Some False by (metis option.inject)
      ultimately show ?thesis by blast
    next
      case True
      let ?s = "SREM R (DEL R s (keys_Session ks v)) (keys_GateSessions ks g) (show_nat v)"
      have "in_GateID (read_info R ks v s) = g" "bound R ks v g (in_ConnID (read_info R ks v s)) s" using rd c True by blast+
      then have eq: "clean_loop R ks all_delivered g (raw # raws) k s = clean_loop R ks all_delivered g raws (k + 1) ?s"
        using Some by (simp add: sess_Get_def sess_Unbind_def run_def sess_scriptUnbind_def bound_def)
      have h: "HGET R ?s (keys_Session ks u) = (if u = v then Map.empty else HGET R s (keys_Session ks u))" for u
        by (simp add: redis_api.sess_hget [OF api] redis_api.hget_del [OF api] redis_api.hget_frame [OF api])
      have "gate_indexed R ks g (set raws) ?s"
        using i parse Some unfolding gate_indexed_def on_gate_def bound_def h by (auto split: if_splits)
      then show ?thesis using eq by blast
    qed
  qed
qed

theorem cleaned_gate_is_empty:
  assumes "redis_api R" "g \<noteq> []" "gate_indexed R ks g (set (SMEMBERS R s (keys_GateSessions ks g))) s"
  shows "\<not> on_gate R ks g (fst (CleanGate R ks Delivered all_delivered n g s)) u"
proof -
  have "gate_indexed R ks g (set raws) s \<Longrightarrow> \<not> on_gate R ks g (fst (clean_loop R ks all_delivered g raws k s)) u" for raws k
  proof (induction raws arbitrary: k s)
    case Nil
    then show ?case by (auto simp: gate_indexed_def)
  next
    case (Cons raw raws)
    then show ?case using clean_step [OF assms(1,2)] by metis
  qed
  from this [OF assms(3), of 0] show ?thesis
    by (auto simp: CleanGate_def on_gate_def run_state redis_api.sess_hget [OF assms(1)] split: prod.splits)
qed

end
