(* ===== verification/Account.thy ===== *)
theory Account
  imports Redis_Api Go_Bytes
begin

text \<open>
  Accounts of login channels, \<^verbatim>\<open>pkg/account/account.go\<close>: a table from channel accounts to players and, for every player, a
  hash from channels to the account bound there with the time it was bound. The three Lua scripts change both
  tables together; \<open>ARGV\<close> is written out as arguments.

  Shown here: both tables always describe the same bindings, a channel account leads to the same player until that player
  unbinds it, and the last login of a player cannot be removed, under any interleaving of calls and lost
  requests or replies.
\<close>

section \<open>Keys\<close>

definition acct_prefix :: "string \<Rightarrow> string" where
  "acct_prefix pre = (if pre = [] then ''acct'' else pre)"

definition bindKey :: "string \<Rightarrow> string \<Rightarrow> string \<Rightarrow> string" where
  "bindKey pre channel openID = pre @ '':{acct}:bind:'' @ channel @ '':'' @ openID"

definition uidKey :: "string \<Rightarrow> nat \<Rightarrow> string" where
  "uidKey pre uid = pre @ '':{acct}:uid:'' @ show_nat uid"

text \<open>\<open>strings.Cut(s, ":")\<close>, and what \<open>string.find\<close> and \<open>string.sub\<close> do in the script.\<close>

definition cut_colon :: "string \<Rightarrow> (string \<times> string) option" where
  "cut_colon s = (case dropWhile (\<lambda>c. c \<noteq> CHR '':'') s of [] \<Rightarrow> None | _ # rest \<Rightarrow> Some (takeWhile (\<lambda>c. c \<noteq> CHR '':'') s, rest))"

section \<open>Scripts\<close>

definition scriptResolve :: "'r redis \<Rightarrow> string \<Rightarrow> string \<Rightarrow> bytes \<Rightarrow> string \<Rightarrow> string \<Rightarrow> string \<Rightarrow> 'r \<Rightarrow> 'r \<times> (int \<times> bytes) option" where
  "scriptResolve R k1 k2 candidate channel openID now s =
     (case GET R s k1 of
        Some cur \<Rightarrow> (s, Some (0, cur))
      | None \<Rightarrow> (HSET R (SET R s k1 candidate) k2 [(channel, now @ '':'' @ openID)], Some (1, candidate)))"

definition acct_scriptBind :: "'r redis \<Rightarrow> string \<Rightarrow> string \<Rightarrow> bytes \<Rightarrow> string \<Rightarrow> string \<Rightarrow> string \<Rightarrow> 'r \<Rightarrow> 'r \<times> int option" where
  "acct_scriptBind R k1 k2 uid channel openID now s =
     (case GET R s k1 of
        Some cur \<Rightarrow> (s, Some (if cur = uid then 0 else 1))
      | None \<Rightarrow>
          if HGET R s k2 channel \<noteq> None then (s, Some 2)
          else (HSET R (SET R s k1 uid) k2 [(channel, now @ '':'' @ openID)], Some 0))"

definition acct_scriptUnbind :: "'r redis \<Rightarrow> string \<Rightarrow> string \<Rightarrow> string \<Rightarrow> string \<Rightarrow> 'r \<Rightarrow> 'r \<times> int option" where
  "acct_scriptUnbind R k1 k2 channel openID s =
     (case HGET R s k1 channel of
        None \<Rightarrow> (s, Some 1)
      | Some v \<Rightarrow>
          (case cut_colon v of
             None \<Rightarrow> (s, Some 2)
           | Some (t, rest) \<Rightarrow>
               if rest \<noteq> openID then (s, Some 2)
               else if length (HALL R s k1) \<le> 1 then (s, Some 3)
               else (HDEL R (DEL R s k2) k1 channel, Some 0)))"

section \<open>The store\<close>

datatype acct_err = AErrEmpty | AErrRedis | AErrFormat | AErrBindConflict | AErrAlreadyBound | AErrNotBound | AErrLastBinding | AErrRaced

definition toUID :: "bytes \<Rightarrow> acct_err + nat" where
  "toUID v = (case go_ParseUint v of None \<Rightarrow> Inl AErrFormat | Some u \<Rightarrow> Inr u)"

definition Resolve :: "'r redis \<Rightarrow> string \<Rightarrow> net \<Rightarrow> int \<Rightarrow> string \<Rightarrow> string \<Rightarrow> nat \<Rightarrow> 'r \<Rightarrow> 'r \<times> (acct_err + nat \<times> bool)" where
  "Resolve R pre n now channel openID candidate s =
     (if channel = [] \<or> openID = [] then (s, Inl AErrEmpty)
      else case run n (scriptResolve R (bindKey pre channel openID) (uidKey pre candidate) (show_nat candidate) channel openID (show_int now)) s of
        (s1, Inl e) \<Rightarrow> (s1, Inl AErrRedis)
      | (s1, Inr (flag, v)) \<Rightarrow> (s1, case toUID v of Inl e \<Rightarrow> Inl e | Inr u \<Rightarrow> Inr (u, flag = 1)))"

definition acct_Bind :: "'r redis \<Rightarrow> string \<Rightarrow> net \<Rightarrow> int \<Rightarrow> nat \<Rightarrow> string \<Rightarrow> string \<Rightarrow> 'r \<Rightarrow> 'r \<times> (acct_err + unit)" where
  "acct_Bind R pre n now uid channel openID s =
     (if uid = 0 \<or> channel = [] \<or> openID = [] then (s, Inl AErrEmpty)
      else case run n (acct_scriptBind R (bindKey pre channel openID) (uidKey pre uid) (show_nat uid) channel openID (show_int now)) s of
        (s1, Inl e) \<Rightarrow> (s1, Inl AErrRedis)
      | (s1, Inr code) \<Rightarrow> (s1, if code = 0 then Inr () else if code = 1 then Inl AErrBindConflict else Inl AErrAlreadyBound))"

text \<open>\<open>Unbind\<close> reads the binding first and runs the script later: \<open>mid\<close> is what happens to Redis in between.\<close>

definition acct_Unbind :: "'r redis \<Rightarrow> string \<Rightarrow> net \<Rightarrow> ('r \<Rightarrow> 'r) \<Rightarrow> net \<Rightarrow> nat \<Rightarrow> string \<Rightarrow> 'r \<Rightarrow> 'r \<times> (acct_err + unit)" where
  "acct_Unbind R pre n1 mid n2 uid channel s =
     (if uid = 0 \<or> channel = [] then (s, Inl AErrEmpty)
      else if n1 \<noteq> Delivered then (s, Inl AErrRedis)
      else case HGET R s (uidKey pre uid) channel of
        None \<Rightarrow> (s, Inl AErrNotBound)
      | Some raw \<Rightarrow>
          (case cut_colon raw of
             None \<Rightarrow> (s, Inl AErrFormat)
           | Some (t, openID) \<Rightarrow>
               (case run n2 (acct_scriptUnbind R (uidKey pre uid) (bindKey pre channel openID) channel openID) (mid s) of
                  (s1, Inl e) \<Rightarrow> (s1, Inl AErrRedis)
                | (s1, Inr code) \<Rightarrow>
                    (s1, if code = 0 then Inr () else if code = 1 then Inl AErrNotBound else if code = 2 then Inl AErrRaced else Inl AErrLastBinding))))"

record Binding =
  bi_Channel :: string
  bi_OpenID :: string
  bi_BoundAt :: int

definition parse_ms :: "string \<Rightarrow> int" where
  "parse_ms t = (case go_ParseInt t of None \<Rightarrow> 0 | Some x \<Rightarrow> x)"

definition acct_List :: "'r redis \<Rightarrow> string \<Rightarrow> net \<Rightarrow> nat \<Rightarrow> 'r \<Rightarrow> acct_err + Binding list" where
  "acct_List R pre n uid s =
     (if n \<noteq> Delivered then Inl AErrRedis
      else Inr (List.map_filter (\<lambda>(ch, raw). case cut_colon raw of None \<Rightarrow> None
             | Some (t, openID) \<Rightarrow> Some \<lparr>bi_Channel = ch, bi_OpenID = openID, bi_BoundAt = parse_ms t\<rparr>) (HALL R s (uidKey pre uid))))"

definition UIDOf :: "'r redis \<Rightarrow> string \<Rightarrow> net \<Rightarrow> string \<Rightarrow> string \<Rightarrow> 'r \<Rightarrow> acct_err + nat option" where
  "UIDOf R pre n channel openID s =
     (if n \<noteq> Delivered then Inl AErrRedis
      else case GET R s (bindKey pre channel openID) of
        None \<Rightarrow> Inr None
      | Some v \<Rightarrow> (case go_ParseUint v of None \<Rightarrow> Inl AErrFormat | Some u \<Rightarrow> Inr (Some u)))"

section \<open>The two tables\<close>

lemma cut_colon_append: "CHR '':'' \<notin> set t \<Longrightarrow> cut_colon (t @ CHR '':'' # rest) = Some (t, rest)"
  by (induction t) (auto simp: cut_colon_def split: list.splits)

lemma show_int_no_colon: "CHR '':'' \<notin> set (show_int x)"
  using show_nat_digits [of "CHR '':''"] by (auto simp: show_int_def)

lemma bindKey_uidKey [simp]: "bindKey pre ch op \<noteq> uidKey pre u" "uidKey pre u \<noteq> bindKey pre ch op"
  by (simp_all add: bindKey_def uidKey_def)

lemma uidKey_inject [simp]: "uidKey pre u = uidKey pre v \<longleftrightarrow> u = v"
  by (simp add: uidKey_def)

lemma bindKey_inject:
  "CHR '':'' \<notin> set ch \<Longrightarrow> CHR '':'' \<notin> set ch' \<Longrightarrow> bindKey pre ch op = bindKey pre ch' op' \<longleftrightarrow> ch = ch' \<and> op = op'"
  using append_sep_inject [of "CHR '':''" ch ch'] by (simp add: bindKey_def)

text \<open>The invariant: every entry of one table has its counterpart in the other.\<close>

definition tables_agree :: "'r redis \<Rightarrow> string \<Rightarrow> 'r \<Rightarrow> bool" where
  "tables_agree R pre s \<longleftrightarrow>
     (\<forall>ch op v. CHR '':'' \<notin> set ch \<longrightarrow> GET R s (bindKey pre ch op) = Some v \<longrightarrow>
        (\<exists>u t. v = show_nat u \<and> CHR '':'' \<notin> set t \<and> HGET R s (uidKey pre u) ch = Some (t @ CHR '':'' # op))) \<and>
     (\<forall>u ch v. HGET R s (uidKey pre u) ch = Some v \<longrightarrow> ch \<noteq> [] \<and> CHR '':'' \<notin> set ch \<and>
        (\<exists>t op. v = t @ CHR '':'' # op \<and> op \<noteq> [] \<and> CHR '':'' \<notin> set t \<and> GET R s (bindKey pre ch op) = Some (show_nat u)))"

lemma agree_fwd:
  "tables_agree R pre s \<Longrightarrow> CHR '':'' \<notin> set ch \<Longrightarrow> GET R s (bindKey pre ch op) = Some v \<Longrightarrow>
     \<exists>u t. v = show_nat u \<and> CHR '':'' \<notin> set t \<and> HGET R s (uidKey pre u) ch = Some (t @ CHR '':'' # op)"
  unfolding tables_agree_def by blast

lemma agree_rev:
  "tables_agree R pre s \<Longrightarrow> HGET R s (uidKey pre u) ch = Some v \<Longrightarrow>
     ch \<noteq> [] \<and> CHR '':'' \<notin> set ch \<and> (\<exists>t op. v = t @ CHR '':'' # op \<and> op \<noteq> [] \<and> CHR '':'' \<notin> set t \<and> GET R s (bindKey pre ch op) = Some (show_nat u))"
  unfolding tables_agree_def by blast

text \<open>Everything that happens to the tables: calls with any fate on channels without a colon, a new player's number that has no
  bindings yet, and changes elsewhere in Redis. An unbind script may run with any account it read earlier.\<close>

inductive acct_step :: "'r redis \<Rightarrow> string \<Rightarrow> 'r \<Rightarrow> 'r \<Rightarrow> bool" for R pre where
  do_resolve: "CHR '':'' \<notin> set ch \<Longrightarrow> HGET R s (uidKey pre cand) = Map.empty \<Longrightarrow> acct_step R pre s (fst (Resolve R pre n now ch op cand s))"
| do_bind: "CHR '':'' \<notin> set ch \<Longrightarrow> acct_step R pre s (fst (acct_Bind R pre n now uid ch op s))"
| do_unbind: "CHR '':'' \<notin> set ch \<Longrightarrow> acct_step R pre s (fst (run n (acct_scriptUnbind R (uidKey pre uid) (bindKey pre ch op) ch op) s))"
| elsewhere: "(\<And>ch op. GET R s' (bindKey pre ch op) = GET R s (bindKey pre ch op)) \<Longrightarrow> (\<And>u. HGET R s' (uidKey pre u) = HGET R s (uidKey pre u)) \<Longrightarrow>
     acct_step R pre s s'"

abbreviation acct_runs :: "'r redis \<Rightarrow> string \<Rightarrow> 'r \<Rightarrow> 'r \<Rightarrow> bool" where
  "acct_runs R pre \<equiv> (acct_step R pre)\<^sup>*\<^sup>*"

text \<open>A new binding is written to both tables.\<close>

definition written :: "'r redis \<Rightarrow> string \<Rightarrow> string \<Rightarrow> string \<Rightarrow> nat \<Rightarrow> string \<Rightarrow> 'r \<Rightarrow> 'r" where
  "written R pre ch op u t s = HSET R (SET R s (bindKey pre ch op) (show_nat u)) (uidKey pre u) [(ch, t @ CHR '':'' # op)]"

lemma fst_Resolve: "fst (Resolve R pre n now ch op cand s) = s \<or>
   fst (Resolve R pre n now ch op cand s) = written R pre ch op cand (show_int now) s \<and> GET R s (bindKey pre ch op) = None \<and> ch \<noteq> [] \<and> op \<noteq> []"
  by (cases n) (auto simp: Resolve_def run_def scriptResolve_def written_def split: option.splits)

lemma fst_acct_Bind: "fst (acct_Bind R pre n now u ch op s) = s \<or>
   fst (acct_Bind R pre n now u ch op s) = written R pre ch op u (show_int now) s \<and> GET R s (bindKey pre ch op) = None
     \<and> HGET R s (uidKey pre u) ch = None \<and> ch \<noteq> [] \<and> op \<noteq> []"
  by (cases n) (auto simp: acct_Bind_def run_def acct_scriptBind_def written_def split: option.splits)

lemma fst_Unbind: "fst (run n (acct_scriptUnbind R (uidKey pre u) (bindKey pre ch op) ch op) s) = s \<or>
   fst (run n (acct_scriptUnbind R (uidKey pre u) (bindKey pre ch op) ch op) s) = HDEL R (DEL R s (bindKey pre ch op)) (uidKey pre u) ch \<and>
   (\<exists>v t. HGET R s (uidKey pre u) ch = Some v \<and> cut_colon v = Some (t, op)) \<and> 1 < length (HALL R s (uidKey pre u))"
  by (cases n) (auto simp: run_def acct_scriptUnbind_def split: option.splits)

lemma acct_cases:
  assumes "acct_step R pre s s'"
  obtains (same) "\<And>ch op. GET R s' (bindKey pre ch op) = GET R s (bindKey pre ch op)" "\<And>u. HGET R s' (uidKey pre u) = HGET R s (uidKey pre u)"
  | (add) ch op u t where "s' = written R pre ch op u t s" "CHR '':'' \<notin> set ch" "CHR '':'' \<notin> set t" "GET R s (bindKey pre ch op) = None"
      "HGET R s (uidKey pre u) ch = None" "ch \<noteq> []" "op \<noteq> []"
  | (remove) ch op u t v where "s' = HDEL R (DEL R s (bindKey pre ch op)) (uidKey pre u) ch" "CHR '':'' \<notin> set ch"
      "HGET R s (uidKey pre u) ch = Some v" "cut_colon v = Some (t, op)" "1 < length (HALL R s (uidKey pre u))"
  using assms
proof cases
  case (do_resolve ch cand n now op)
  then show ?thesis using fst_Resolve [of R pre n now ch op cand s] same add [of ch op cand "show_int now"] show_int_no_colon by metis
next
  case (do_bind ch n now uid op)
  then show ?thesis using fst_acct_Bind [of R pre n now uid ch op s] same add [of ch op uid "show_int now"] show_int_no_colon by metis
next
  case (do_unbind ch n uid op)
  then show ?thesis using fst_Unbind [of n R pre uid ch op s] same remove [of ch op uid] by metis
next
  case elsewhere
  then show ?thesis by (rule same)
qed

context redis_api
begin

lemma written_reads:
  "GET R (written R pre ch op u t s) (bindKey pre ch' op') = (if bindKey pre ch' op' = bindKey pre ch op then Some (show_nat u) else GET R s (bindKey pre ch' op'))"
  "HGET R (written R pre ch op u t s) (uidKey pre u') = (if u' = u then (HGET R s (uidKey pre u))(ch \<mapsto> t @ CHR '':'' # op) else HGET R s (uidKey pre u'))"
  by (auto simp: written_def redis_reads hget_frame hget_hset)

lemma removed_reads:
  "GET R (HDEL R (DEL R s (bindKey pre ch op)) (uidKey pre u) c) (bindKey pre ch' op') = (if bindKey pre ch' op' = bindKey pre ch op then None else GET R s (bindKey pre ch' op'))"
  "HGET R (HDEL R (DEL R s (bindKey pre ch op)) (uidKey pre u) c) (uidKey pre u') = (if u' = u then (HGET R s (uidKey pre u))(c := None) else HGET R s (uidKey pre u'))"
  using frame_hdel [of "bindKey pre ch' op'" "uidKey pre u" "DEL R s (bindKey pre ch op)" c]
  by (auto simp: redis_reads hget_frame hget_hdel view_def)

lemma agree_step:
  assumes "acct_step R pre s s'" "tables_agree R pre s"
  shows "tables_agree R pre s'"
  using assms(1)
proof (cases rule: acct_cases)
  case same
  then show ?thesis using assms(2) by (simp add: tables_agree_def)
next
  case (add ch op u t)
  have f: "\<exists>u' t'. v = show_nat u' \<and> CHR '':'' \<notin> set t' \<and> HGET R s' (uidKey pre u') ch' = Some (t' @ CHR '':'' # op')"
    if a: "CHR '':'' \<notin> set ch'" "GET R s' (bindKey pre ch' op') = Some v" for ch' op' v
  proof (cases "bindKey pre ch' op' = bindKey pre ch op")
    case True
    then show ?thesis using a add bindKey_inject [of ch' ch] by (auto simp: written_reads)
  next
    case False
    then obtain u' t' where "v = show_nat u'" "CHR '':'' \<notin> set t'" "HGET R s (uidKey pre u') ch' = Some (t' @ CHR '':'' # op')"
      using agree_fwd [OF assms(2) a(1), of op' v] a(2) add(1) by (auto simp: written_reads)
    then show ?thesis using add by (intro exI [of _ u'] exI [of _ t']) (auto simp: written_reads)
  qed
  have r: "ch' \<noteq> [] \<and> CHR '':'' \<notin> set ch' \<and> (\<exists>t' op'. v = t' @ CHR '':'' # op' \<and> op' \<noteq> [] \<and> CHR '':'' \<notin> set t' \<and> GET R s' (bindKey pre ch' op') = Some (show_nat u'))"
    if a: "HGET R s' (uidKey pre u') ch' = Some v" for u' ch' v
  proof (cases "u' = u \<and> ch' = ch")
    case True
    then show ?thesis using a add by (auto simp: written_reads)
  next
    case False
    then have "HGET R s (uidKey pre u') ch' = Some v" using a add(1) by (auto simp: written_reads split: if_splits)
    then obtain t' op' where o: "CHR '':'' \<notin> set ch'" "ch' \<noteq> []" "op' \<noteq> []" "v = t' @ CHR '':'' # op'" "CHR '':'' \<notin> set t'" "GET R s (bindKey pre ch' op') = Some (show_nat u')"
      using agree_rev [OF assms(2)] by blast
    then have "bindKey pre ch' op' \<noteq> bindKey pre ch op" using add(4) by auto
    then show ?thesis using o add(1) by (auto simp: written_reads)
  qed
  show ?thesis unfolding tables_agree_def using f r by blast
next
  case (remove ch op u t v)
  have v: "v = t @ CHR '':'' # op" "CHR '':'' \<notin> set t"
    using agree_rev [OF assms(2) remove(3)] remove(4) cut_colon_append by fastforce+
  have f: "\<exists>u' t'. v' = show_nat u' \<and> CHR '':'' \<notin> set t' \<and> HGET R s' (uidKey pre u') ch' = Some (t' @ CHR '':'' # op')"
    if a: "CHR '':'' \<notin> set ch'" "GET R s' (bindKey pre ch' op') = Some v'" for ch' op' v'
  proof -
    have g: "GET R s (bindKey pre ch' op') = Some v'" "bindKey pre ch' op' \<noteq> bindKey pre ch op"
      using a(2) remove(1) by (auto simp: removed_reads split: if_splits)
    then obtain u' t' where o: "v' = show_nat u'" "CHR '':'' \<notin> set t'" "HGET R s (uidKey pre u') ch' = Some (t' @ CHR '':'' # op')"
      using agree_fwd [OF assms(2) a(1)] by blast
    have "\<not> (u' = u \<and> ch' = ch)"
      using o(2,3) remove(3) v g(2) append_sep_inject [OF o(2) v(2), of op' op] by (metis option.inject)
    then show ?thesis using o remove(1) by (intro exI [of _ u'] exI [of _ t']) (auto simp: removed_reads)
  qed
  have r: "ch' \<noteq> [] \<and> CHR '':'' \<notin> set ch' \<and> (\<exists>t' op'. v' = t' @ CHR '':'' # op' \<and> op' \<noteq> [] \<and> CHR '':'' \<notin> set t' \<and> GET R s' (bindKey pre ch' op') = Some (show_nat u'))"
    if a: "HGET R s' (uidKey pre u') ch' = Some v'" for u' ch' v'
  proof -
    have n: "\<not> (u' = u \<and> ch' = ch)" "HGET R s (uidKey pre u') ch' = Some v'" using a remove(1) by (auto simp: removed_reads split: if_splits)
    then obtain t' op' where o: "CHR '':'' \<notin> set ch'" "ch' \<noteq> []" "op' \<noteq> []" "v' = t' @ CHR '':'' # op'" "CHR '':'' \<notin> set t'" "GET R s (bindKey pre ch' op') = Some (show_nat u')"
      using agree_rev [OF assms(2) n(2)] by blast
    have "GET R s (bindKey pre ch op) = Some (show_nat u)"
      using agree_rev [OF assms(2) remove(3)] v append_sep_inject [of "CHR '':''" _ t] by metis
    then have "bindKey pre ch' op' \<noteq> bindKey pre ch op"
      using o n(1) bindKey_inject [OF o(1) remove(2)] by auto
    then show ?thesis using o remove(1) by (auto simp: removed_reads)
  qed
  show ?thesis unfolding tables_agree_def using f r by blast
qed

lemma agree_runs: "acct_runs R pre s s' \<Longrightarrow> tables_agree R pre s \<Longrightarrow> tables_agree R pre s'"
  by (induction rule: rtranclp_induct) (auto intro: agree_step)

end

section \<open>Properties\<close>

definition unbinds :: "'r redis \<Rightarrow> string \<Rightarrow> nat \<Rightarrow> string \<Rightarrow> 'r \<Rightarrow> 'r \<Rightarrow> bool" where
  "unbinds R pre u ch s s' \<longleftrightarrow> HGET R s (uidKey pre u) ch \<noteq> None \<and> HGET R s' (uidKey pre u) ch = None"

context redis_api
begin

lemma binding_step:
  assumes "acct_step R pre s s'" "tables_agree R pre s" "CHR '':'' \<notin> set ch" "GET R s (bindKey pre ch op) = Some (show_nat u)" "\<not> unbinds R pre u ch s s'"
  shows "GET R s' (bindKey pre ch op) = Some (show_nat u)"
  using assms(1)
proof (cases rule: acct_cases)
  case same
  then show ?thesis using assms(4) by simp
next
  case (add ch' op' u' t)
  then have "bindKey pre ch op \<noteq> bindKey pre ch' op'" using assms(4) by auto
  then show ?thesis using add(1) assms(4) by (simp add: written_reads)
next
  case (remove ch' op' u' t v)
  obtain t1 where h: "HGET R s (uidKey pre u) ch = Some (t1 @ CHR '':'' # op)" using agree_fwd [OF assms(2,3,4)] by auto
  then have ne: "\<not> (u = u' \<and> ch = ch')" using assms(5) remove(1) by (auto simp: unbinds_def removed_reads)
  have "GET R s (bindKey pre ch' op') = Some (show_nat u')"
    using agree_rev [OF assms(2) remove(3)] remove(4) cut_colon_append by fastforce
  then have "bindKey pre ch op \<noteq> bindKey pre ch' op'" using ne assms(4) bindKey_inject [OF assms(3) remove(2)] by auto
  then show ?thesis using remove(1) assms(4) by (simp add: removed_reads)
qed

lemma last_binding_step:
  assumes "acct_step R pre s s'" "tables_agree R pre s" "HGET R s (uidKey pre u) \<noteq> Map.empty"
  shows "HGET R s' (uidKey pre u) \<noteq> Map.empty"
  using assms(1)
proof (cases rule: acct_cases)
  case same
  then show ?thesis using assms(3) by simp
next
  case (add ch op u' t)
  then show ?thesis using assms(3) by (simp add: written_reads)
next
  case (remove ch op u' t v)
  show ?thesis
  proof (cases "u' = u")
    case True
    have d: "distinct (map fst (HALL R s (uidKey pre u)))" by (rule hall_distinct)
    have "card (dom (HGET R s (uidKey pre u))) = length (HALL R s (uidKey pre u))"
      unfolding hall_hget [symmetric] dom_map_of_conv_image_fst using distinct_card [OF d] by simp
    then have "1 < card (dom (HGET R s (uidKey pre u)))" using remove(5) True by simp
    then have "\<not> dom (HGET R s (uidKey pre u)) \<subseteq> {ch}" using card_mono [of "{ch}" "dom (HGET R s (uidKey pre u))"] by auto
    then obtain c where c: "HGET R s (uidKey pre u) c \<noteq> None" "c \<noteq> ch" by blast
    have "HGET R s' (uidKey pre u) = (HGET R s (uidKey pre u))(ch := None)" unfolding remove(1) removed_reads True by simp
    then have "HGET R s' (uidKey pre u) c \<noteq> None" using c by simp
    then show ?thesis by auto
  next
    case False
    then show ?thesis using assms(3) unfolding remove(1) removed_reads by simp
  qed
qed

lemma last_binding_runs:
  "acct_runs R pre s s' \<Longrightarrow> tables_agree R pre s \<Longrightarrow> HGET R s (uidKey pre u) \<noteq> Map.empty \<Longrightarrow> HGET R s' (uidKey pre u) \<noteq> Map.empty"
proof (induction rule: rtranclp_induct)
  case (step y z)
  then show ?case using last_binding_step [OF step.hyps(2)] agree_runs [OF step.hyps(1)] by blast
qed

end

lemma toUID_show: "toUID (show_nat n) = Inr u \<longleftrightarrow> n = u \<and> n < 2 ^ 64"
  by (auto simp: toUID_def go_ParseUint_def)

lemma Resolve_bound:
  assumes "redis_api R" "tables_agree R pre s" "CHR '':'' \<notin> set ch" "Resolve R pre n now ch op cand s = (s1, Inr (u, b))"
  shows "GET R s1 (bindKey pre ch op) = Some (show_nat u) \<and> u < 2 ^ 64 \<and> ch \<noteq> [] \<and> op \<noteq> []"
proof -
  have ne: "ch \<noteq> []" "op \<noteq> []" using assms(4) by (auto simp: Resolve_def split: if_splits)
  show ?thesis
  proof (cases "GET R s (bindKey pre ch op)")
    case None
    then have "s1 = written R pre ch op cand (show_int now) s" "toUID (show_nat cand) = Inr u"
      using assms(4) ne by (cases n; auto simp: Resolve_def run_def scriptResolve_def written_def split: sum.splits)+
    then show ?thesis using ne by (auto simp: redis_api.written_reads [OF assms(1)] toUID_show)
  next
    case (Some v)
    then obtain w where w: "v = show_nat w" using agree_fwd [OF assms(2,3)] by blast
    then have "s1 = s" "toUID (show_nat w) = Inr u"
      using assms(4) ne Some by (cases n; auto simp: Resolve_def run_def scriptResolve_def split: sum.splits)+
    then show ?thesis using Some w ne by (simp add: toUID_show)
  qed
qed

text \<open>C28: A channel account leads to one player. Once a login has resolved a channel account to a player, every later login with the same
  account resolves to the same player and creates nothing, whatever logins, bindings and unbindings of any accounts
  happen in between with any lost requests or replies, until that player unbinds the channel.\<close>

theorem channel_account_keeps_its_player:
  assumes "redis_api R" "tables_agree R pre s" "CHR '':'' \<notin> set ch"
    and "Resolve R pre n now ch op cand s = (s1, Inr (u, b))" "HGET R s (uidKey pre cand) = Map.empty"
    and "(\<lambda>x y. acct_step R pre x y \<and> \<not> unbinds R pre u ch x y)\<^sup>*\<^sup>* s1 s2"
  shows "Resolve R pre Delivered now' ch op cand' s2 = (s2, Inr (u, False))"
proof -
  note b = Resolve_bound [OF assms(1-4)]
  have agree1: "tables_agree R pre s1"
    using redis_api.agree_step [OF assms(1) do_resolve [OF assms(3,5), of n now op] assms(2)] assms(4) by simp
  have "tables_agree R pre s2 \<and> GET R s2 (bindKey pre ch op) = Some (show_nat u)"
    using assms(6)
  proof (induction rule: rtranclp_induct)
    case base
    then show ?case using agree1 b by simp
  next
    case (step y z)
    then show ?case using redis_api.agree_step [OF assms(1)] redis_api.binding_step [OF assms(1) _ _ assms(3)] by blast
  qed
  then show ?thesis using b by (simp add: Resolve_def run_def scriptResolve_def toUID_def go_ParseUint_show)
qed

lemma agree_empty: "tables_agree mem_redis pre mem_empty"
  by (simp add: tables_agree_def mem_empty_def)

lemma resolve_first:
  assumes "ch \<noteq> []" "op \<noteq> []" "GET R s (bindKey pre ch op) = None" "cand < 2 ^ 64"
  shows "Resolve R pre Delivered now ch op cand s = (written R pre ch op cand (show_int now) s, Inr (cand, True))"
  using assms by (simp add: Resolve_def run_def scriptResolve_def written_def toUID_def go_ParseUint_show)

theorem channel_account_keeps_its_player_witness:
  "\<exists>s1 s2. Resolve mem_redis ''acct'' Delivered 1 ''wx'' ''o1'' 7 mem_empty = (s1, Inr (7, True))
     \<and> s2 = fst (acct_Bind mem_redis ''acct'' Delivered 2 9 ''qq'' ''o2'' s1) \<and> s2 \<noteq> s1
     \<and> Resolve mem_redis ''acct'' Delivered 5 ''wx'' ''o1'' 8 s2 = (s2, Inr (7, False))"
proof -
  note api = mem_server.redis_api_axioms
  let ?s1 = "written mem_redis ''acct'' ''wx'' ''o1'' 7 (show_int 1) mem_empty"
  let ?s2 = "fst (acct_Bind mem_redis ''acct'' Delivered 2 9 ''qq'' ''o2'' ?s1)"
  have r1: "Resolve mem_redis ''acct'' Delivered 1 ''wx'' ''o1'' 7 mem_empty = (?s1, Inr (7, True))"
    by (rule resolve_first) (simp_all add: mem_empty_def)
  have q: "GET mem_redis ?s1 (bindKey ''acct'' ''qq'' ''o2'') = None" "HGET mem_redis ?s1 (uidKey ''acct'' 9) = Map.empty"
    unfolding redis_api.written_reads [OF api] by (simp_all add: bindKey_def mem_empty_def)
  then have s2: "?s2 = written mem_redis ''acct'' ''qq'' ''o2'' 9 (show_int 2) ?s1"
    by (simp add: acct_Bind_def run_def acct_scriptBind_def written_def del: mem_redis_simps)
  have "HGET mem_redis ?s2 (uidKey ''acct'' 9) \<noteq> HGET mem_redis ?s1 (uidKey ''acct'' 9)"
    unfolding s2 redis_api.written_reads [OF api] q(2) by (simp add: fun_upd_idem_iff mem_empty_def)
  then have ne: "?s2 \<noteq> ?s1" by metis
  have "acct_step mem_redis ''acct'' ?s1 ?s2" by (rule do_bind) simp
  moreover have "\<not> unbinds mem_redis ''acct'' 7 ''wx'' ?s1 ?s2"
    unfolding unbinds_def s2 redis_api.written_reads [OF api] by simp
  ultimately have steps: "(\<lambda>x y. acct_step mem_redis ''acct'' x y \<and> \<not> unbinds mem_redis ''acct'' 7 ''wx'' x y)\<^sup>*\<^sup>* ?s1 ?s2" by blast
  have e: "HGET mem_redis mem_empty (uidKey ''acct'' 7) = Map.empty" by (simp add: mem_empty_def)
  have "Resolve mem_redis ''acct'' Delivered 5 ''wx'' ''o1'' 8 ?s2 = (?s2, Inr (7, False))"
    using channel_account_keeps_its_player [OF api agree_empty _ r1 e steps, of 5 8] by simp
  then show ?thesis using r1 ne by blast
qed

text \<open>No player is locked out. A player who can log in through some channel account can log in through some channel account at any later
  time, whatever is bound and unbound in between by any sequence of calls, interleaved in any way, with any lost requests or
  replies: the last login is never removed.\<close>

theorem players_keep_a_login:
  assumes "redis_api R" "tables_agree R pre s" "acct_runs R pre s s'"
    and "GET R s (bindKey pre ch op) = Some (show_nat u)" "CHR '':'' \<notin> set ch" "u < 2 ^ 64"
  shows "\<exists>ch' op'. Resolve R pre Delivered now ch' op' cand s' = (s', Inr (u, False))"
proof -
  have "HGET R s (uidKey pre u) \<noteq> Map.empty" using agree_fwd [OF assms(2,5,4)] by auto
  then have "HGET R s' (uidKey pre u) \<noteq> Map.empty" by (rule redis_api.last_binding_runs [OF assms(1,3,2)])
  then obtain ch' v where h: "HGET R s' (uidKey pre u) ch' = Some v" by (metis not_None_eq ext)
  then obtain t op' where "ch' \<noteq> []" "op' \<noteq> []" "GET R s' (bindKey pre ch' op') = Some (show_nat u)"
    using agree_rev [OF redis_api.agree_runs [OF assms(1,3,2)] h] by blast
  then have "Resolve R pre Delivered now ch' op' cand s' = (s', Inr (u, False))"
    using assms(6) by (simp add: Resolve_def run_def scriptResolve_def toUID_def go_ParseUint_show)
  then show ?thesis by blast
qed

theorem players_keep_a_login_witness:
  "\<exists>ch op. Resolve mem_redis ''acct'' Delivered 5 ch op 8
     (fst (run Delivered (acct_scriptUnbind mem_redis (uidKey ''acct'' 7) (bindKey ''acct'' ''wx'' ''o1'') ''wx'' ''o1'')
       (written mem_redis ''acct'' ''wx'' ''o1'' 7 (show_int 1) mem_empty)))
    = (fst (run Delivered (acct_scriptUnbind mem_redis (uidKey ''acct'' 7) (bindKey ''acct'' ''wx'' ''o1'') ''wx'' ''o1'')
       (written mem_redis ''acct'' ''wx'' ''o1'' 7 (show_int 1) mem_empty)), Inr (7, False))"
proof -
  note api = mem_server.redis_api_axioms
  let ?s1 = "written mem_redis ''acct'' ''wx'' ''o1'' 7 (show_int 1) mem_empty"
  have r1: "Resolve mem_redis ''acct'' Delivered 1 ''wx'' ''o1'' 7 mem_empty = (?s1, Inr (7, True))"
    by (rule resolve_first) (simp_all add: mem_empty_def)
  have "acct_step mem_redis ''acct'' mem_empty (fst (Resolve mem_redis ''acct'' Delivered 1 ''wx'' ''o1'' 7 mem_empty))"
    by (rule do_resolve) (simp_all add: mem_empty_def)
  then have a: "tables_agree mem_redis ''acct'' ?s1" using redis_api.agree_step [OF api _ agree_empty] r1 by (metis fst_conv)
  let ?u = "fst (run Delivered (acct_scriptUnbind mem_redis (uidKey ''acct'' 7) (bindKey ''acct'' ''wx'' ''o1'') ''wx'' ''o1'') ?s1)"
  have "acct_step mem_redis ''acct'' ?s1 ?u" by (rule do_unbind) simp
  then have st: "acct_runs mem_redis ''acct'' ?s1 ?u" by blast
  have g: "GET mem_redis ?s1 (bindKey ''acct'' ''wx'' ''o1'') = Some (show_nat 7)" unfolding redis_api.written_reads [OF api] by simp
  show ?thesis using players_keep_a_login [OF api a st g, of 5 8] by simp
qed

text \<open>The separator of the forward keys is not protected: a channel with a colon in its name shares keys with other accounts.\<close>

theorem colon_in_a_channel_collides:
  assumes "a \<noteq> []" "b \<noteq> []" "c \<noteq> []" "cand < 2 ^ 64" "GET R s (bindKey pre a (b @ '':'' @ c)) = Some (show_nat u)" "u < 2 ^ 64"
  shows "Resolve R pre Delivered now (a @ '':'' @ b) c cand s = (s, Inr (u, False))"
proof -
  have "bindKey pre (a @ '':'' @ b) c = bindKey pre a (b @ '':'' @ c)" by (simp add: bindKey_def)
  then show ?thesis using assms by (simp add: Resolve_def run_def scriptResolve_def toUID_def go_ParseUint_show)
qed

end
