(* ===== verification/Idp.thy ===== *)
theory Idp
  imports Go_Bytes
begin

text \<open>
  Identity providers of login channels, \<^verbatim>\<open>pkg/idp\<close>: the registry (\<^verbatim>\<open>idp.go\<close>), the circuit breaker of a channel (\<^verbatim>\<open>breaker.go\<close>), how
  the answers of an HTTP provider are classified (\<^verbatim>\<open>http.go\<close>) and the sandbox provider (\<^verbatim>\<open>sandbox.go\<close>). What an external
  provider answers is a parameter, and so is every clock reading. \<open>strings.ToLower\<close> and \<open>strings.TrimSpace\<close> are
  given for ASCII text.

  Shown here: when the breaker lets a call through, that it opens after the threshold and closes after a success, that
  a verified identity is one the provider gave, and what a rejected credential does to a breaker that is probing.
\<close>

section \<open>Text\<close>

definition is_space :: "char \<Rightarrow> bool" where
  "is_space c \<longleftrightarrow> (of_char c :: nat) \<in> {9, 10, 11, 12, 13, 32}"

definition go_TrimSpace :: "string \<Rightarrow> string" where
  "go_TrimSpace s = rev (dropWhile is_space (rev (dropWhile is_space s)))"

definition go_ToLower :: "string \<Rightarrow> string" where
  "go_ToLower s = map (\<lambda>c. if 65 \<le> (of_char c :: nat) \<and> (of_char c :: nat) \<le> 90 then char_of ((of_char c :: nat) + 32) else c) s"

section \<open>The breaker\<close>

record Breaker =
  br_threshold :: int
  br_cooldown :: int
  br_fails :: int
  br_openTill :: "int option" \<comment> \<open>\<open>None\<close>: the zero time\<close>
  br_probing :: bool

definition NewBreaker :: "int \<Rightarrow> int \<Rightarrow> Breaker" where
  "NewBreaker threshold cooldown =
     \<lparr>br_threshold = (if threshold \<le> 0 then 5 else threshold), br_cooldown = (if cooldown \<le> 0 then 10000000000 else cooldown),
      br_fails = 0, br_openTill = None, br_probing = False\<rparr>"

definition br_Allow :: "int \<Rightarrow> Breaker \<Rightarrow> Breaker \<times> bool" where
  "br_Allow now b =
     (case br_openTill b of
        None \<Rightarrow> (b, True)
      | Some till \<Rightarrow>
          if now < till then (b, False)
          else if br_probing b then (b, False)
          else (b\<lparr>br_probing := True\<rparr>, True))"

definition br_Success :: "Breaker \<Rightarrow> Breaker" where
  "br_Success b = b\<lparr>br_fails := 0, br_openTill := None, br_probing := False\<rparr>"

definition br_Fail :: "int \<Rightarrow> Breaker \<Rightarrow> Breaker" where
  "br_Fail now b =
     (let b1 = b\<lparr>br_probing := False, br_fails := br_fails b + 1\<rparr> in
      if br_fails b1 < br_threshold b1 then b1 else b1\<lparr>br_openTill := Some (now + br_cooldown b1)\<rparr>)"

definition br_Open :: "int \<Rightarrow> Breaker \<Rightarrow> bool" where
  "br_Open now b \<longleftrightarrow> (case br_openTill b of None \<Rightarrow> False | Some till \<Rightarrow> now < till)"

section \<open>Providers\<close>

record Credential =
  cr_Channel :: string
  cr_Value :: string
  cr_DeviceID :: string

record Identity =
  id_Channel :: string
  id_OpenID :: string
  id_UnionID :: string

datatype idp_err = ErrChannelUnknown | ErrCredentialInvalid | ErrUpstream | ErrBreakerOpen

text \<open>What a call of a provider under the hard timeout comes to.\<close>

datatype call_result = CallOk Identity | CallInvalid | CallTimeout | CallFailed

definition no_identity :: Identity where
  "no_identity = \<lparr>id_Channel = [], id_OpenID = [], id_UnionID = []\<rparr>"

definition SandboxChannel :: string where
  "SandboxChannel = ''sandbox''"

definition sandbox_Verify :: "Credential \<Rightarrow> call_result" where
  "sandbox_Verify c =
     (let v = go_TrimSpace (cr_Value c) in
      if v = [] then CallInvalid
      else if v = ''bad'' then CallInvalid
      else if v = ''boom'' then CallFailed
      else CallOk (no_identity\<lparr>id_OpenID := v\<rparr>))"

text \<open>\<open>HTTPDoer.do\<close>: the connection failed, reading the body failed, or there is a status and a body; \<open>unmarshal\<close> is \<open>None\<close> when the
  caller wants no result.\<close>

datatype http_reply = ConnErr | ReadErr | Answer int bytes

definition maxRespBody :: nat where
  "maxRespBody = 2 ^ 20"

definition http_do :: "(bytes \<Rightarrow> 'a option) option \<Rightarrow> http_reply \<Rightarrow> idp_err + 'a option" where
  "http_do unmarshal r =
     (case r of
        ConnErr \<Rightarrow> Inl ErrUpstream
      | ReadErr \<Rightarrow> Inl ErrUpstream
      | Answer status body \<Rightarrow>
          let raw = take maxRespBody body in
          if status = 429 then Inl ErrUpstream
          else if status \<ge> 500 then Inl ErrUpstream
          else if status \<ge> 400 then Inl ErrCredentialInvalid
          else case unmarshal of
            None \<Rightarrow> Inr None
          | Some f \<Rightarrow> (case f raw of None \<Rightarrow> Inl ErrUpstream | Some a \<Rightarrow> Inr (Some a)))"

section \<open>The registry\<close>

record Registry =
  rg_m :: "(string \<times> (Credential \<Rightarrow> call_result)) list"
  rg_breakers :: "(string \<times> Breaker) list"

definition NewRegistry :: "int \<Rightarrow> int \<Rightarrow> (string \<times> (Credential \<Rightarrow> call_result)) option list \<Rightarrow> Registry" where
  "NewRegistry threshold cooldown ps =
     fold (\<lambda>p r. case p of None \<Rightarrow> r
       | Some (ch, f) \<Rightarrow> r\<lparr>rg_m := AList.update (go_ToLower ch) f (rg_m r), rg_breakers := AList.update (go_ToLower ch) (NewBreaker threshold cooldown) (rg_breakers r)\<rparr>)
     ps \<lparr>rg_m = [], rg_breakers = []\<rparr>"

definition reg_Channels :: "Registry \<Rightarrow> string list" where
  "reg_Channels r = map fst (rg_m r)"

definition reg_Enabled :: "Registry \<Rightarrow> bool" where
  "reg_Enabled r \<longleftrightarrow> rg_m r \<noteq> []"

definition reg_put :: "string \<Rightarrow> Breaker \<Rightarrow> Registry \<Rightarrow> Registry" where
  "reg_put ch b r = r\<lparr>rg_breakers := AList.update ch b (rg_breakers r)\<rparr>"

definition norm_channel :: "string \<Rightarrow> string" where
  "norm_channel ch = go_ToLower (go_TrimSpace ch)"

text \<open>The checks before the call: an error, or the channel and its provider with the breaker asked. \<open>now1\<close> is the time of \<open>Allow\<close>.\<close>

definition verify_begin :: "int \<Rightarrow> Credential \<Rightarrow> Registry \<Rightarrow> Registry \<times> (idp_err + string \<times> call_result)" where
  "verify_begin now1 c r =
     (let ch = norm_channel (cr_Channel c) in
      if ch = [] then (r, Inl ErrChannelUnknown)
      else case map_of (rg_m r) ch of
        None \<Rightarrow> (r, Inl ErrChannelUnknown)
      | Some p \<Rightarrow>
          if cr_Value c = [] then (r, Inl ErrCredentialInvalid)
          else case map_of (rg_breakers r) ch of
            None \<Rightarrow> (r, Inl ErrBreakerOpen)
          | Some br \<Rightarrow>
              (case br_Allow now1 br of
                 (br1, False) \<Rightarrow> (reg_put ch br1 r, Inl ErrBreakerOpen)
               | (br1, True) \<Rightarrow> (reg_put ch br1 r, Inr (ch, p (c\<lparr>cr_Channel := ch\<rparr>)))))"

text \<open>What the result of the call does to the breaker and what is returned. \<open>now2\<close> is the time of \<open>Fail\<close>.\<close>

definition verify_end :: "int \<Rightarrow> string \<Rightarrow> call_result \<Rightarrow> Breaker \<Rightarrow> Breaker \<times> (idp_err + Identity)" where
  "verify_end now2 ch res br =
     (case res of
        CallOk i \<Rightarrow>
          if id_OpenID i = [] then (br_Fail now2 br, Inl ErrUpstream)
          else (br_Success br, Inr (i\<lparr>id_Channel := ch\<rparr>))
      | CallInvalid \<Rightarrow> (br, Inl ErrCredentialInvalid)
      | CallTimeout \<Rightarrow> (br_Fail now2 br, Inl ErrUpstream)
      | CallFailed \<Rightarrow> (br_Fail now2 br, Inl ErrUpstream))"

definition reg_Verify :: "int \<Rightarrow> int \<Rightarrow> Credential \<Rightarrow> Registry \<Rightarrow> Registry \<times> (idp_err + Identity)" where
  "reg_Verify now1 now2 c r =
     (case verify_begin now1 c r of
        (r1, Inl e) \<Rightarrow> (r1, Inl e)
      | (r1, Inr (ch, res)) \<Rightarrow>
          (case map_of (rg_breakers r1) ch of
             None \<Rightarrow> (r1, Inl ErrBreakerOpen)
           | Some br \<Rightarrow> (case verify_end now2 ch res br of (br2, a) \<Rightarrow> (reg_put ch br2 r1, a))))"

definition Retryable :: "idp_err \<Rightarrow> bool" where
  "Retryable e \<longleftrightarrow> e = ErrUpstream \<or> e = ErrBreakerOpen"

section \<open>The breaker's history\<close>

text \<open>Calls run concurrently, so the breaker sees their beginnings and ends in any order.\<close>

datatype br_event = AllowAt int | Succeed | FailAt int | Reject

fun br_exec :: "br_event \<Rightarrow> Breaker \<Rightarrow> Breaker" where
  "br_exec (AllowAt now) b = fst (br_Allow now b)"
| "br_exec Succeed b = br_Success b"
| "br_exec (FailAt now) b = br_Fail now b"
| "br_exec Reject b = b"

text \<open>The reference: the failures since the last success, latest first.\<close>

fun recent_fails :: "br_event list \<Rightarrow> int list \<Rightarrow> int list" where
  "recent_fails [] acc = acc"
| "recent_fails (Succeed # es) acc = recent_fails es []"
| "recent_fails (FailAt t # es) acc = recent_fails es (t # acc)"
| "recent_fails (_ # es) acc = recent_fails es acc"

definition br_spec :: "Breaker \<Rightarrow> int list \<Rightarrow> bool" where
  "br_spec b fs \<longleftrightarrow> 0 < br_threshold b \<and> br_fails b = int (length fs)
     \<and> br_openTill b = (if int (length fs) < br_threshold b then None else Some (hd fs + br_cooldown b))
     \<and> (br_probing b \<longrightarrow> br_openTill b \<noteq> None)"

lemma br_fields [simp]:
  "br_threshold (br_exec e b) = br_threshold b" "br_cooldown (br_exec e b) = br_cooldown b"
  by (cases e; simp add: br_Allow_def br_Success_def br_Fail_def Let_def split: option.splits)+

lemma br_spec_step: "br_spec b fs \<Longrightarrow> br_spec (br_exec e b) (recent_fails [e] fs)"
  by (cases e) (auto simp: br_spec_def br_Allow_def br_Success_def br_Fail_def Let_def split: option.splits if_splits)

lemma recent_fails_Cons: "recent_fails (e # es) fs = recent_fails es (recent_fails [e] fs)"
  by (cases e) simp_all

lemma br_spec_run: "br_spec b fs \<Longrightarrow> br_spec (fold br_exec es b) (recent_fails es fs)"
proof (induction es arbitrary: b fs)
  case (Cons e es)
  then show ?case using br_spec_step [of b fs e] by (simp only: fold_simps recent_fails_Cons [of e es])
qed simp

lemma br_spec_new: "br_spec (NewBreaker th cd) []"
  by (simp add: br_spec_def NewBreaker_def)

lemma fold_br_fields [simp]:
  "br_threshold (fold br_exec es b) = br_threshold b" "br_cooldown (fold br_exec es b) = br_cooldown b"
  by (induction es arbitrary: b) simp_all

text \<open>The breaker does what its reference says, for every interleaving of calls: it lets a call through exactly when fewer than the
  threshold of failures were reported since the last success, or when the cooldown since the latest of them is over
  and no probe is under way; rejected credentials count for nothing.\<close>

theorem breaker_follows_its_history:
  fixes es :: "br_event list" and th cd now :: int
  defines "b \<equiv> fold br_exec es (NewBreaker th cd)" and "fs \<equiv> recent_fails es []"
  shows "snd (br_Allow now b) \<longleftrightarrow> int (length fs) < br_threshold b \<or> hd fs + br_cooldown b \<le> now \<and> \<not> br_probing b"
proof -
  have "br_spec b fs" unfolding b_def fs_def by (rule br_spec_run [OF br_spec_new])
  then show ?thesis by (auto simp: br_spec_def br_Allow_def split: if_splits)
qed

lemma probing_refuses: "br_openTill x \<noteq> None \<Longrightarrow> br_probing x \<Longrightarrow> br_Allow t x = (x, False)"
  by (auto simp: br_Allow_def)

text \<open>While the breaker is open, two calls let through have a result in between: one probe at a time.\<close>

theorem one_probe_at_a_time:
  assumes "br_openTill b \<noteq> None" "snd (br_Allow t1 b)" "\<forall>e\<in>set es. e = Reject \<or> (\<exists>t. e = AllowAt t)"
  shows "\<not> snd (br_Allow t2 (fold br_exec es (fst (br_Allow t1 b))))"
proof -
  have "br_openTill x \<noteq> None \<and> br_probing x \<Longrightarrow> br_openTill (fold br_exec es x) \<noteq> None \<and> br_probing (fold br_exec es x)" for x
    using assms(3) by (induction es arbitrary: x) (auto simp: br_Allow_def)
  moreover have "br_openTill (fst (br_Allow t1 b)) \<noteq> None \<and> br_probing (fst (br_Allow t1 b))"
    using assms(1,2) by (auto simp: br_Allow_def split: if_splits)
  ultimately show ?thesis by (simp add: probing_refuses)
qed

section \<open>Verification\<close>

lemma verified_identity:
  assumes "reg_Verify now1 now2 c r = (r', Inr i)"
  shows "\<exists>p j. map_of (rg_m r) (norm_channel (cr_Channel c)) = Some p \<and> p (c\<lparr>cr_Channel := norm_channel (cr_Channel c)\<rparr>) = CallOk j
     \<and> id_OpenID i = id_OpenID j \<and> id_OpenID i \<noteq> [] \<and> id_Channel i = norm_channel (cr_Channel c) \<and> cr_Value c \<noteq> []"
  using assms
  by (auto simp: reg_Verify_def verify_begin_def verify_end_def Let_def split: if_splits option.splits prod.splits sum.splits bool.splits call_result.splits)

text \<open>A verified identity comes from the provider. When verification succeeds, the channel is registered, its provider accepted this
  credential and named the non-empty account that is returned, under the normalised name of the channel.\<close>

theorem verified_identity_is_the_providers:
  assumes "reg_Verify now1 now2 c r = (r', Inr i)"
  shows "\<exists>p j. map_of (rg_m r) (norm_channel (cr_Channel c)) = Some p \<and> p (c\<lparr>cr_Channel := norm_channel (cr_Channel c)\<rparr>) = CallOk j
     \<and> id_OpenID i = id_OpenID j \<and> id_OpenID i \<noteq> [] \<and> id_Channel i = norm_channel (cr_Channel c) \<and> cr_Value c \<noteq> []"
  by (rule verified_identity [OF assms])

theorem verified_identity_is_the_providers_witness:
  "\<exists>r' i. reg_Verify 0 1 \<lparr>cr_Channel = '' Sandbox'', cr_Value = ''bob'', cr_DeviceID = []\<rparr> (NewRegistry 5 10 [Some (''sandbox'', sandbox_Verify)]) = (r', Inr i)
     \<and> id_OpenID i = ''bob''"
proof -
  let ?c = "\<lparr>cr_Channel = '' Sandbox'', cr_Value = ''bob'', cr_DeviceID = []\<rparr>"
  have n: "norm_channel '' Sandbox'' = ''sandbox''" "go_ToLower ''sandbox'' = ''sandbox''" "go_TrimSpace ''bob'' = ''bob''"
    by (simp_all add: norm_channel_def go_TrimSpace_def go_ToLower_def is_space_def char_of_def bit_simps)
  obtain r' i where v: "reg_Verify 0 1 ?c (NewRegistry 5 10 [Some (''sandbox'', sandbox_Verify)]) = (r', Inr i)"
    by (simp add: reg_Verify_def verify_begin_def n NewRegistry_def NewBreaker_def br_Allow_def sandbox_Verify_def verify_end_def no_identity_def reg_put_def Let_def)
  then have "id_OpenID i = ''bob''"
    using verified_identity_is_the_providers [OF v] n by (simp add: NewRegistry_def sandbox_Verify_def no_identity_def)
  then show ?thesis using v by blast
qed

section \<open>A rejected probe\<close>

fun verify_all :: "(int \<times> int \<times> Credential) list \<Rightarrow> Registry \<Rightarrow> Registry \<times> (idp_err + Identity) list" where
  "verify_all [] r = (r, [])"
| "verify_all ((t1, t2, c) # cs) r = (case reg_Verify t1 t2 c r of (r1, a) \<Rightarrow> (case verify_all cs r1 of (r2, as) \<Rightarrow> (r2, a # as)))"

lemma stuck_verify:
  assumes "map_of (rg_breakers r) ch = Some b" "br_openTill b \<noteq> None" "br_probing b" "norm_channel (cr_Channel c) = ch"
  shows "\<exists>r1 e. reg_Verify t1 t2 c r = (r1, Inl e) \<and> map_of (rg_breakers r1) ch = Some b"
  using assms by (auto simp: reg_Verify_def verify_begin_def Let_def probing_refuses reg_put_def update_conv' split: option.splits)

text \<open>A wrong credential can lock a channel for good. When the cooldown of an open breaker is over, the next call is its probe. If the
  provider rejects that call's credential, nothing ends the probe: from then on every verification on the channel is
  refused, at any time and with any credential, however healthy the provider is.\<close>

theorem rejected_probe_locks_the_channel:
  assumes "map_of (rg_breakers r) ch = Some b" "br_openTill b = Some till" "till \<le> t1" "\<not> br_probing b"
    and "norm_channel (cr_Channel c) = ch" "ch \<noteq> []" "cr_Value c \<noteq> []" "map_of (rg_m r) ch = Some p" "p (c\<lparr>cr_Channel := ch\<rparr>) = CallInvalid"
    and "reg_Verify t1 t2 c r = (r1, a)" "\<forall>(t, t', d)\<in>set later. norm_channel (cr_Channel d) = ch"
  shows "a = Inl ErrCredentialInvalid \<and> (\<forall>x\<in>set (snd (verify_all later r1)). \<exists>e. x = Inl e)"
proof -
  have r1: "a = Inl ErrCredentialInvalid \<and> r1 = reg_put ch (b\<lparr>br_probing := True\<rparr>) (reg_put ch (b\<lparr>br_probing := True\<rparr>) r)"
    using assms by (auto simp: reg_Verify_def verify_begin_def Let_def br_Allow_def verify_end_def reg_put_def update_conv')
  have stuck: "map_of (rg_breakers x) ch = Some b' \<Longrightarrow> br_openTill b' \<noteq> None \<Longrightarrow> br_probing b' \<Longrightarrow> \<forall>y\<in>set (snd (verify_all later x)). \<exists>e. y = Inl e" for x b'
    using assms(11)
  proof (induction later arbitrary: x)
    case (Cons q later)
    obtain t t' d where q: "q = (t, t', d)" by (metis surj_pair)
    obtain x1 e where v: "reg_Verify t t' d x = (x1, Inl e)" "map_of (rg_breakers x1) ch = Some b'"
      using stuck_verify [OF Cons.prems(1-3), of d t t'] Cons.prems(4) q by auto
    have "\<forall>y\<in>set (snd (verify_all later x1)). \<exists>e. y = Inl e" using Cons.IH [OF v(2) Cons.prems(2,3)] Cons.prems(4) by simp
    then show ?case using q v(1) by (simp split: prod.splits)
  qed simp
  have "map_of (rg_breakers r1) ch = Some (b\<lparr>br_probing := True\<rparr>)" using r1 by (simp add: reg_put_def update_conv')
  then show ?thesis using stuck [of r1 "b\<lparr>br_probing := True\<rparr>"] assms(2) r1 by simp
qed

theorem rejected_probe_locks_the_channel_witness:
  "\<exists>r1. reg_Verify 100 101 \<lparr>cr_Channel = ''x'', cr_Value = ''bad'', cr_DeviceID = []\<rparr>
       \<lparr>rg_m = [(''x'', sandbox_Verify)], rg_breakers = [(''x'', br_Fail 50 (NewBreaker 1 10))]\<rparr> = (r1, Inl ErrCredentialInvalid)
     \<and> (\<exists>e. snd (reg_Verify 1000000 1000001 \<lparr>cr_Channel = ''x'', cr_Value = ''bob'', cr_DeviceID = []\<rparr> r1) = Inl e)"
proof -
  let ?c = "\<lparr>cr_Channel = ''x'', cr_Value = ''bad'', cr_DeviceID = []\<rparr>" and ?d = "\<lparr>cr_Channel = ''x'', cr_Value = ''bob'', cr_DeviceID = []\<rparr>"
  let ?b = "br_Fail 50 (NewBreaker 1 10)"
  let ?r = "\<lparr>rg_m = [(''x'', sandbox_Verify)], rg_breakers = [(''x'', ?b)]\<rparr>"
  obtain r1 a where v: "reg_Verify 100 101 ?c ?r = (r1, a)" by fastforce
  have n: "norm_channel ''x'' = ''x''" "go_TrimSpace ''bad'' = ''bad''" by (simp_all add: norm_channel_def go_TrimSpace_def go_ToLower_def is_space_def)
  have b: "map_of (rg_breakers ?r) ''x'' = Some ?b" "br_openTill ?b = Some 60" "\<not> br_probing ?b" by (simp_all add: br_Fail_def NewBreaker_def)
  have t: "a = Inl ErrCredentialInvalid \<and> (\<forall>x\<in>set (snd (verify_all [(1000000, 1000001, ?d)] r1)). \<exists>e. x = Inl e)"
    by (rule rejected_probe_locks_the_channel [where p = sandbox_Verify, OF b(1,2) _ b(3) _ _ _ _ _ v]) (simp_all add: n sandbox_Verify_def)
  then show ?thesis using v by (auto split: prod.splits)
qed

end
