(* ===== verification/Match.thy ===== *)
theory Match
  imports Shard_Service "HOL-Library.Multiset"
begin

text \<open>
  The matching service, \<^verbatim>\<open>internal/match/match.go\<close>: one pool per mode and tier, served by the actor of its bucket. A waiting player is
  the record \<open>waiter\<close>; the set \<open>inPool\<close> is the list of its keys. The loop of \<open>tryMatch\<close> reads the clock once per round (\<open>clk\<close>). What the
  service does to the outside is a list of effects.

  Shown here: matching neither loses nor duplicates a player, every team is balanced or has waited long enough, the
  pool and its index agree; and what the choice of the weakest players costs the others.
\<close>

section \<open>Buckets\<close>

definition ModeCount :: nat where
  "ModeCount = 8"

definition TierCount :: nat where
  "TierCount = 16"

definition Buckets :: nat where
  "Buckets = ModeCount * TierCount"

definition BucketOf :: "nat \<Rightarrow> nat \<Rightarrow> nat" where
  "BucketOf md tier = (md mod ModeCount) * TierCount + tier mod TierCount"

definition ModeTierOf :: "nat \<Rightarrow> nat \<times> nat" where
  "ModeTierOf bucket = (bucket div TierCount, bucket mod TierCount)"

definition TeamSize :: "nat \<Rightarrow> nat" where
  "TeamSize md = (if md = 1 then 2 else if md = 2 then 4 else 2)"

definition MaxWait :: int where
  "MaxWait = 30 * 1000000000"

record waiter =
  wt_uid :: nat
  wt_power :: nat
  wt_since :: int
  wt_trace :: string

record bucket =
  bk_mode :: nat
  bk_tier :: nat
  bk_queue :: "waiter list"
  bk_inPool :: "nat list"
  bk_closed :: bool

definition NewBucket :: "Ownership \<Rightarrow> bucket" where
  "NewBucket ow =
     \<lparr>bk_mode = fst (ModeTierOf (ow_Shard ow)), bk_tier = snd (ModeTierOf (ow_Shard ow)), bk_queue = [], bk_inPool = [], bk_closed = False\<rparr>"

datatype match_eff =
    MatchErr ErrCode
  | MatchAck nat \<comment> \<open>queued, at this position\<close>
  | CancelAck
  | NewRoom nat nat "nat list" string \<comment> \<open>\<open>createRoom\<close>\<close>
  | AskRequeue "nat list" \<comment> \<open>\<open>notifyRequeue\<close>\<close>

section \<open>Matching\<close>

text \<open>\<open>uint64(waited/time.Second)*500\<close> in unsigned arithmetic.\<close>

definition tolerance :: "int \<Rightarrow> nat" where
  "tolerance waited = u64 (1000 + u64 (uint64_of (go_div waited 1000000000) * 500))"

definition rating_spread :: "waiter list \<Rightarrow> nat" where
  "rating_spread team = wt_power (last team) - wt_power (hd team)"

definition must_wait :: "int \<Rightarrow> waiter list \<Rightarrow> bool" where
  "must_wait now team \<longleftrightarrow> (let oldest = now - wt_since (hd team) in rating_spread team > tolerance oldest \<and> oldest < MaxWait)"

function match_loop :: "nat \<Rightarrow> (nat \<Rightarrow> int) \<Rightarrow> nat \<Rightarrow> waiter list \<Rightarrow> waiter list \<times> waiter list list" where
  "match_loop sz clk k q =
     (if sz = 0 \<or> length q < sz then (q, [])
      else let q1 = sort_key wt_power q; team = take sz q1 in
           if must_wait (clk k) team then (q1, [])
           else case match_loop sz clk (Suc k) (drop sz q1) of (rest, teams) \<Rightarrow> (rest, team # teams))"
  by pat_completeness auto

termination
  by (relation "measure (\<lambda>(sz, clk, k, q). length q)") auto

declare match_loop.simps [simp del]

definition tryMatch :: "(nat \<Rightarrow> int) \<Rightarrow> bucket \<Rightarrow> bucket \<times> match_eff list" where
  "tryMatch clk b =
     (case match_loop (TeamSize (bk_mode b)) clk 0 (bk_queue b) of
        (rest, teams) \<Rightarrow>
          (b\<lparr>bk_queue := rest, bk_inPool := filter (\<lambda>u. u \<notin> wt_uid ` set (concat teams)) (bk_inPool b)\<rparr>,
           map (\<lambda>team. NewRoom (bk_mode b) (bk_tier b) (map wt_uid team) (wt_trace (hd team))) teams))"

section \<open>Requests\<close>

definition pick_uid :: "nat \<Rightarrow> nat \<Rightarrow> nat" where
  "pick_uid reqUid envUid = (if reqUid = 0 then envUid else reqUid)"

fun position :: "nat \<Rightarrow> waiter list \<Rightarrow> nat" where
  "position uid [] = 0"
| "position uid (w # ws) = (if wt_uid w = uid then 1 else let p = position uid ws in if p = 0 then 0 else p + 1)"

text \<open>The request is its player and power; \<open>None\<close> when unpacking failed.\<close>

definition handleEnqueue :: "(nat \<Rightarrow> int) \<Rightarrow> int \<Rightarrow> nat \<Rightarrow> string \<Rightarrow> (nat \<times> nat) option \<Rightarrow> bucket \<Rightarrow> bucket \<times> match_eff list" where
  "handleEnqueue clk now envUid trace oreq b =
     (case oreq of
        None \<Rightarrow> (b, [MatchErr E_BadRequest])
      | Some (reqUid, pw) \<Rightarrow>
          let uid = pick_uid reqUid envUid in
          if uid = 0 then (b, [MatchErr E_BadRequest])
          else if uid \<in> set (bk_inPool b) then (b, [MatchAck (position uid (bk_queue b))])
          else let b1 = b\<lparr>bk_queue := bk_queue b @ [\<lparr>wt_uid = uid, wt_power = pw, wt_since = now, wt_trace = trace\<rparr>],
                          bk_inPool := bk_inPool b @ [uid]\<rparr>
               in case tryMatch clk b1 of (b2, effs) \<Rightarrow> (b2, MatchAck (length (bk_queue b1)) # effs))"

fun remove_first :: "nat \<Rightarrow> waiter list \<Rightarrow> waiter list" where
  "remove_first uid [] = []"
| "remove_first uid (w # ws) = (if wt_uid w = uid then ws else w # remove_first uid ws)"

definition bucket_remove :: "nat \<Rightarrow> bucket \<Rightarrow> bucket" where
  "bucket_remove uid b =
     (if uid \<notin> set (bk_inPool b) then b
      else b\<lparr>bk_inPool := removeAll uid (bk_inPool b), bk_queue := remove_first uid (bk_queue b)\<rparr>)"

definition handleCancel :: "nat \<Rightarrow> nat option \<Rightarrow> bucket \<Rightarrow> bucket \<times> match_eff list" where
  "handleCancel envUid oreq b =
     (case oreq of
        None \<Rightarrow> (b, [MatchErr E_BadRequest])
      | Some reqUid \<Rightarrow> (bucket_remove (pick_uid reqUid envUid) b, [CancelAck]))"

record match_msg =
  mm_cmd :: nat
  mm_uid :: nat
  mm_trace :: string
  mm_enqueue :: "(nat \<times> nat) option"
  mm_cancel :: "nat option"

definition bucket_Handle :: "(nat \<Rightarrow> int) \<Rightarrow> int \<Rightarrow> match_msg \<Rightarrow> bucket \<Rightarrow> bucket \<times> match_eff list" where
  "bucket_Handle clk now m b =
     (if bk_closed b then (b, [MatchErr E_Unavailable])
      else if mm_cmd m = CmdMatchEnqueue then handleEnqueue clk now (mm_uid m) (mm_trace m) (mm_enqueue m) b
      else if mm_cmd m = CmdMatchCancel then handleCancel (mm_uid m) (mm_cancel m) b
      else (b, [MatchErr E_BadRequest]))"

definition bucket_Tick :: "(nat \<Rightarrow> int) \<Rightarrow> bucket \<Rightarrow> bucket \<times> match_eff list" where
  "bucket_Tick clk b = (if bk_closed b then (b, []) else tryMatch clk b)"

definition bucket_Close :: "bucket \<Rightarrow> bucket \<times> match_eff list" where
  "bucket_Close b =
     (b\<lparr>bk_closed := True, bk_queue := [], bk_inPool := []\<rparr>,
      if length (bk_queue b) > 0 then [AskRequeue (map wt_uid (bk_queue b))] else [])"

text \<open>The closure of \<open>requeue\<close>, run in the bucket's actor.\<close>

definition requeue_one :: "int \<Rightarrow> string \<Rightarrow> nat \<Rightarrow> bucket \<Rightarrow> bucket" where
  "requeue_one now trace uid b =
     (if bk_closed b \<or> uid \<in> set (bk_inPool b) then b
      else b\<lparr>bk_queue := bk_queue b @ [\<lparr>wt_uid = uid, wt_power = 0, wt_since = now, wt_trace = trace\<rparr>], bk_inPool := bk_inPool b @ [uid]\<rparr>)"

section \<open>Creating the room\<close>

datatype room_eff =
    CallCreateRoom nat nat nat nat "nat list" \<comment> \<open>shard, room, mode, size, members\<close>
  | PushMatchFound "nat list" nat
  | CallStartBattle nat nat
  | Requeue nat nat "nat list"

definition createRoom :: "nat \<Rightarrow> nat option \<Rightarrow> bool \<Rightarrow> nat \<Rightarrow> nat \<Rightarrow> nat list \<Rightarrow> room_eff list" where
  "createRoom shards nextId created md tier members =
     (case nextId of
        None \<Rightarrow> []
      | Some roomID \<Rightarrow>
          let sh = shard_Of roomID shards in
          CallCreateRoom sh roomID md (TeamSize md) members #
          (if created then [PushMatchFound members roomID, CallStartBattle sh roomID] else [Requeue md tier members]))"

definition OwnsBucket :: "claimer \<Rightarrow> nat \<Rightarrow> nat \<Rightarrow> bool" where
  "OwnsBucket c md tier = Owns c (BucketOf md tier)"

definition match_opts :: "string \<Rightarrow> keys \<Rightarrow> svc_opts" where
  "match_opts node ks = \<lparr>so_kind = ''match'', so_node = node, so_keys = ks, so_wildcard = (\<lambda>b. MatchReq (fst (ModeTierOf b)) (snd (ModeTierOf b))),
     so_space = Buckets, so_shardCount = 0, so_skipEpoch = True\<rparr>"

section \<open>The loop\<close>

lemma match_loop_spec:
  assumes "match_loop sz clk k q = (rest, teams)" "0 < sz"
  shows "mset q = mset rest + mset (concat teams)
     \<and> (\<forall>t\<in>set teams. length t = sz \<and> sorted (map wt_power t) \<and> (\<exists>j. \<not> must_wait (clk j) t))
     \<and> (length rest < sz \<or> (\<exists>j. sorted (map wt_power rest) \<and> must_wait (clk j) (take sz rest)))"
  using assms
proof (induction sz clk k q arbitrary: rest teams rule: match_loop.induct)
  case (1 sz clk k q)
  let ?q = "sort_key wt_power q"
  consider (few) "length q < sz" | (wait) "\<not> length q < sz" "must_wait (clk k) (take sz ?q)" | (go) "\<not> length q < sz" "\<not> must_wait (clk k) (take sz ?q)"
    by blast
  then show ?case
  proof cases
    case few
    then show ?thesis using 1 by (simp add: match_loop.simps [of sz clk k q])
  next
    case wait
    then have "rest = ?q" "teams = []" using "1.prems" by (simp_all add: match_loop.simps [of sz clk k q] Let_def)
    then show ?thesis using wait by (auto intro!: exI [of _ k])
  next
    case go
    obtain r ts where r: "match_loop sz clk (Suc k) (drop sz ?q) = (r, ts)" by fastforce
    have rt: "rest = r" "teams = take sz ?q # ts" using "1.prems" go r by (simp_all add: match_loop.simps [of sz clk k q] Let_def)
    have IH: "mset (drop sz ?q) = mset r + mset (concat ts)
       \<and> (\<forall>t\<in>set ts. length t = sz \<and> sorted (map wt_power t) \<and> (\<exists>j. \<not> must_wait (clk j) t))
       \<and> (length r < sz \<or> (\<exists>j. sorted (map wt_power r) \<and> must_wait (clk j) (take sz r)))"
      using "1.IH" [OF _ refl refl _ r] go "1.prems"(2) by simp
    have "mset q = mset (take sz ?q) + mset (drop sz ?q)" by (metis append_take_drop_id mset_append mset_sort)
    moreover have "sorted (map wt_power (take sz ?q))" by (metis sorted_sort_key sorted_wrt_take take_map)
    ultimately show ?thesis using IH rt go by (auto simp: ac_simps)
  qed
qed

definition pool_ok :: "bucket \<Rightarrow> bool" where
  "pool_ok b \<longleftrightarrow> distinct (map wt_uid (bk_queue b)) \<and> set (bk_inPool b) = wt_uid ` set (bk_queue b)"

definition matched :: "match_eff list \<Rightarrow> nat list" where
  "matched effs = concat (map (\<lambda>e. case e of NewRoom md tier ms tr \<Rightarrow> ms | _ \<Rightarrow> []) effs)"

lemma TeamSize_pos: "2 \<le> TeamSize md"
  by (simp add: TeamSize_def)

lemma tryMatch_spec:
  assumes "pool_ok b" "tryMatch clk b = (b', effs)"
  shows "pool_ok b' \<and> mset (map wt_uid (bk_queue b)) = mset (map wt_uid (bk_queue b')) + mset (matched effs) \<and> distinct (matched effs)
    \<and> set (matched effs) \<inter> wt_uid ` set (bk_queue b') = {} \<and> bk_closed b' = bk_closed b \<and> bk_mode b' = bk_mode b \<and> bk_tier b' = bk_tier b"
proof -
  obtain rest teams where l: "match_loop (TeamSize (bk_mode b)) clk 0 (bk_queue b) = (rest, teams)" by fastforce
  have m: "mset (bk_queue b) = mset rest + mset (concat teams)" using match_loop_spec [OF l] TeamSize_pos [of "bk_mode b"] by simp
  have b': "b' = b\<lparr>bk_queue := rest, bk_inPool := filter (\<lambda>u. u \<notin> wt_uid ` set (concat teams)) (bk_inPool b)\<rparr>"
    and e: "effs = map (\<lambda>team. NewRoom (bk_mode b) (bk_tier b) (map wt_uid team) (wt_trace (hd team))) teams"
    using assms(2) by (auto simp: tryMatch_def l)
  have me: "matched effs = map wt_uid (concat teams)" by (simp add: matched_def e comp_def map_concat)
  have mu: "mset (map wt_uid (bk_queue b)) = mset (map wt_uid rest) + mset (matched effs)" using m by (simp add: me)
  have d: "distinct (map wt_uid rest @ matched effs)"
    using assms(1) mu by (metis pool_ok_def mset_append mset_eq_imp_distinct_iff)
  have s: "wt_uid ` set (bk_queue b) = wt_uid ` set rest \<union> set (matched effs)"
    using mset_eq_setD [OF mu [folded mset_append]] by simp
  have "set (filter (\<lambda>u. u \<notin> wt_uid ` set (concat teams)) (bk_inPool b)) = (wt_uid ` set rest \<union> set (matched effs)) - set (matched effs)"
    using assms(1) s me by (auto simp: pool_ok_def)
  then have "pool_ok b'" using d by (auto simp: pool_ok_def b')
  then show ?thesis using mu d by (auto simp: b')
qed

text \<open>Matching loses nobody and takes nobody twice. A round of matching, from a request or from the tick, leaves the players split exactly
  into those still waiting and those in the new rooms, each in one place; every room gets the size of its mode, and its players lie
  within the tolerance, or the weakest of them has waited for the full time.\<close>

theorem matching_splits_the_pool:
  assumes "pool_ok b" "tryMatch clk b = (b', effs)"
  shows "mset (map wt_uid (bk_queue b)) = mset (map wt_uid (bk_queue b')) + mset (matched effs) \<and> distinct (matched effs) \<and> pool_ok b'
     \<and> (\<forall>e\<in>set effs. \<exists>team j. e = NewRoom (bk_mode b) (bk_tier b) (map wt_uid team) (wt_trace (hd team)) \<and> length team = TeamSize (bk_mode b) \<and>
          set team \<subseteq> set (bk_queue b) \<and> (wt_power (last team) - wt_power (hd team) \<le> tolerance (clk j - wt_since (hd team)) \<or> MaxWait \<le> clk j - wt_since (hd team)))"
proof -
  obtain rest teams where l: "match_loop (TeamSize (bk_mode b)) clk 0 (bk_queue b) = (rest, teams)" by fastforce
  have sp: "mset (bk_queue b) = mset rest + mset (concat teams)" "\<And>t. t \<in> set teams \<Longrightarrow> length t = TeamSize (bk_mode b) \<and> (\<exists>j. \<not> must_wait (clk j) t)"
    using match_loop_spec [OF l] TeamSize_pos [of "bk_mode b"] by simp_all
  have e: "effs = map (\<lambda>team. NewRoom (bk_mode b) (bk_tier b) (map wt_uid team) (wt_trace (hd team))) teams"
    using assms(2) by (auto simp: tryMatch_def l)
  have sub: "set t \<subseteq> set (bk_queue b)" if "t \<in> set teams" for t
    using that mset_eq_setD [OF sp(1) [folded mset_append]] by auto
  have "\<exists>team j. x = NewRoom (bk_mode b) (bk_tier b) (map wt_uid team) (wt_trace (hd team)) \<and> length team = TeamSize (bk_mode b) \<and> set team \<subseteq> set (bk_queue b) \<and>
      (wt_power (last team) - wt_power (hd team) \<le> tolerance (clk j - wt_since (hd team)) \<or> MaxWait \<le> clk j - wt_since (hd team))" if x: "x \<in> set effs" for x
  proof -
    obtain team where t: "team \<in> set teams" "x = NewRoom (bk_mode b) (bk_tier b) (map wt_uid team) (wt_trace (hd team))"
      using x by (auto simp: e)
    obtain j where "\<not> must_wait (clk j) team" "length team = TeamSize (bk_mode b)" using sp(2) t(1) by blast
    then show ?thesis using t sub [OF t(1)] by (intro exI [of _ team] exI [of _ j]) (auto simp: must_wait_def rating_spread_def Let_def not_less)
  qed
  then show ?thesis using tryMatch_spec [OF assms] by blast
qed

definition demo_waiter :: "nat \<Rightarrow> nat \<Rightarrow> int \<Rightarrow> waiter" where
  "demo_waiter u p t = \<lparr>wt_uid = u, wt_power = p, wt_since = t, wt_trace = []\<rparr>"

definition demo_bucket :: "waiter list \<Rightarrow> bucket" where
  "demo_bucket q = \<lparr>bk_mode = 1, bk_tier = 3, bk_queue = q, bk_inPool = map wt_uid q, bk_closed = False\<rparr>"

lemma demo_pool_ok: "distinct (map wt_uid q) \<Longrightarrow> pool_ok (demo_bucket q)"
  by (simp add: pool_ok_def demo_bucket_def)

lemma demo_match:
  "tryMatch (\<lambda>_. 0) (demo_bucket [demo_waiter 5 700 0, demo_waiter 6 100 0, demo_waiter 7 9000 0])
    = (demo_bucket [demo_waiter 7 9000 0], [NewRoom 1 3 [6, 5] []])"
  by (simp add: tryMatch_def demo_bucket_def demo_waiter_def TeamSize_def match_loop.simps sort_key_simps must_wait_def rating_spread_def tolerance_def uint64_of_def
      go_div_def u64_def Let_def)

theorem matching_splits_the_pool_witness:
  "mset (matched [NewRoom 1 3 [6, 5] []]) = {#6, 5#} \<and> distinct (matched [NewRoom 1 3 [6, 5] []])
   \<and> tryMatch (\<lambda>_. 0) (demo_bucket [demo_waiter 5 700 0, demo_waiter 6 100 0, demo_waiter 7 9000 0]) = (demo_bucket [demo_waiter 7 9000 0], [NewRoom 1 3 [6, 5] []])"
  using matching_splits_the_pool [OF demo_pool_ok demo_match] demo_match by (simp add: demo_waiter_def matched_def)

section \<open>The pool\<close>

lemma remove_first_set: "distinct (map wt_uid q) \<Longrightarrow> wt_uid ` set (remove_first u q) = wt_uid ` set q - {u} \<and> distinct (map wt_uid (remove_first u q))"
  by (induction q) (auto, (force simp: image_iff)+)

lemma pool_ok_remove: "pool_ok b \<Longrightarrow> pool_ok (bucket_remove u b)"
  using remove_first_set [of "bk_queue b" u] by (auto simp: pool_ok_def bucket_remove_def)

lemma pool_ok_add:
  "pool_ok b \<Longrightarrow> wt_uid w \<notin> set (bk_inPool b) \<Longrightarrow> pool_ok (b\<lparr>bk_queue := bk_queue b @ [w], bk_inPool := bk_inPool b @ [wt_uid w]\<rparr>)"
  by (auto simp: pool_ok_def)

lemma pool_ok_enqueue: "pool_ok b \<Longrightarrow> pool_ok (fst (handleEnqueue clk now u tr oreq b))"
proof -
  assume p: "pool_ok b"
  show ?thesis
  proof (cases oreq)
    case (Some r)
    obtain ru pw where r: "r = (ru, pw)" by (cases r)
    let ?u = "pick_uid ru u"
    define b1 where "b1 = b\<lparr>bk_queue := bk_queue b @ [\<lparr>wt_uid = ?u, wt_power = pw, wt_since = now, wt_trace = tr\<rparr>], bk_inPool := bk_inPool b @ [?u]\<rparr>"
    have "pool_ok (fst (tryMatch clk b1))" if "?u \<notin> set (bk_inPool b)"
      using tryMatch_spec [of b1 clk "fst (tryMatch clk b1)" "snd (tryMatch clk b1)"] pool_ok_add [OF p, of "\<lparr>wt_uid = ?u, wt_power = pw, wt_since = now, wt_trace = tr\<rparr>"] that
      by (simp add: b1_def)
    then show ?thesis using p Some r by (auto simp: handleEnqueue_def Let_def b1_def split: prod.splits)
  qed (use p in \<open>simp add: handleEnqueue_def\<close>)
qed

text \<open>The pool and its index always agree: whatever requests, ticks, returns of players and closings a bucket sees, each waiting player
  is in the queue once and in the index, and the index names nobody else.\<close>

theorem pool_index_agrees:
  assumes "pool_ok b"
  shows "pool_ok (fst (bucket_Handle clk now m b)) \<and> pool_ok (fst (bucket_Tick clk b)) \<and> pool_ok (fst (bucket_Close b))
     \<and> pool_ok (requeue_one now tr u b)"
proof -
  have "pool_ok (fst (tryMatch clk b))" using tryMatch_spec [OF assms, of clk] by (metis prod.collapse)
  then show ?thesis
    using assms pool_ok_enqueue [OF assms] pool_ok_remove [OF assms] pool_ok_add [OF assms, of "\<lparr>wt_uid = u, wt_power = 0, wt_since = now, wt_trace = tr\<rparr>"]
    by (auto simp: bucket_Handle_def handleCancel_def bucket_Tick_def bucket_Close_def requeue_one_def pool_ok_def split: option.splits)
qed

theorem pool_index_agrees_witness: "pool_ok (fst (bucket_Tick (\<lambda>_. 0) (demo_bucket [demo_waiter 5 700 0, demo_waiter 6 100 0, demo_waiter 7 9000 0])))"
  using pool_index_agrees [OF demo_pool_ok, of "[demo_waiter 5 700 0, demo_waiter 6 100 0, demo_waiter 7 9000 0]" "\<lambda>_. 0"] by (simp add: demo_waiter_def)

text \<open>The bucket of a mode and tier is found again from its number.\<close>

theorem bucket_roundtrip: "md < ModeCount \<Longrightarrow> tier < TierCount \<Longrightarrow> ModeTierOf (BucketOf md tier) = (md, tier) \<and> BucketOf md tier < Buckets"
  by (simp add: ModeTierOf_def BucketOf_def ModeCount_def TierCount_def Buckets_def)

section \<open>Who is matched\<close>

lemma hd_sort_min:
  assumes "w \<in> set q" "\<And>v. v \<in> set q \<Longrightarrow> v \<noteq> w \<Longrightarrow> wt_power w < wt_power v"
  shows "hd (sort_key wt_power q) = w"
proof -
  obtain x xs where x: "sort_key wt_power q = x # xs" using assms(1) by (metis empty_iff empty_set list.exhaust set_sort)
  have "x \<in> set q" using x by (metis list.set_intros(1) set_sort)
  moreover have "\<forall>y\<in>set (x # xs). wt_power x \<le> wt_power y" using sorted_sort_key [of wt_power q] by (simp add: x)
  then have "wt_power x \<le> wt_power w" using assms(1) x by (metis set_sort)
  ultimately show ?thesis using assms(2) x by fastforce
qed

text \<open>One weak newcomer blocks the whole pool. The round looks only at the weakest players: while the weakest one has not waited for the
  full time and lies further below everybody else than its own waiting time tolerates, nobody is matched, even if the others
  are equally strong and have waited for any time.\<close>

theorem weak_newcomer_blocks_the_pool:
  assumes "distinct (bk_queue b)" "w \<in> set (bk_queue b)" "\<And>v. v \<in> set (bk_queue b) \<Longrightarrow> v \<noteq> w \<Longrightarrow> wt_power w + tolerance (clk 0 - wt_since w) < wt_power v"
    and "clk 0 - wt_since w < MaxWait"
  shows "snd (tryMatch clk b) = []"
proof (cases "length (bk_queue b) < TeamSize (bk_mode b)")
  case True
  then show ?thesis by (simp add: tryMatch_def match_loop.simps)
next
  case False
  let ?q = "sort_key wt_power (bk_queue b)" and ?n = "TeamSize (bk_mode b)"
  let ?t = "take ?n ?q"
  have h: "hd ?q = w" using assms(2,3) by (intro hd_sort_min) (auto dest: add_lessD1)
  have n: "2 \<le> ?n" by (rule TeamSize_pos)
  have len: "length ?t = ?n" using False by simp
  have ht: "hd ?t = w" using h n by (simp add: hd_take)
  have d: "distinct ?t" using assms(1) by simp
  have ne: "?t \<noteq> []" using len n by (metis list.size(3) not_numeral_le_zero)
  have "?t ! (length ?t - 1) \<noteq> ?t ! 0"
    using nth_eq_iff_index_eq [OF d, of "length ?t - 1" 0] len n by (simp only: len)
  then have "last ?t \<noteq> hd ?t" unfolding last_conv_nth [OF ne] hd_conv_nth [OF ne] .
  moreover have "last ?t \<in> set (bk_queue b)"
  proof -
    have "last ?t \<in> set ?t" using ne by (rule last_in_set)
    then show ?thesis by (auto dest: in_set_takeD)
  qed
  ultimately have "wt_power w + tolerance (clk 0 - wt_since w) < wt_power (last ?t)" using assms(3) ht by auto
  then have "must_wait (clk 0) ?t" using assms(4) ht by (auto simp: must_wait_def rating_spread_def Let_def)
  then show ?thesis using False n by (simp add: tryMatch_def match_loop.simps [of ?n] Let_def)
qed

theorem weak_newcomer_blocks_the_pool_witness:
  "snd (tryMatch (\<lambda>_. 3600000000000) (demo_bucket [demo_waiter 5 9000 0, demo_waiter 6 9000 0, demo_waiter 7 100 3600000000000])) = []"
proof (rule weak_newcomer_blocks_the_pool [where w = "demo_waiter 7 100 3600000000000"])
  fix v
  assume "v \<in> set (bk_queue (demo_bucket [demo_waiter 5 9000 0, demo_waiter 6 9000 0, demo_waiter 7 100 3600000000000]))" "v \<noteq> demo_waiter 7 100 3600000000000"
  then show "wt_power (demo_waiter 7 100 3600000000000) + tolerance (3600000000000 - wt_since (demo_waiter 7 100 3600000000000)) < wt_power v"
    by (auto simp: demo_bucket_def demo_waiter_def tolerance_def uint64_of_def go_div_def u64_def)
qed (simp_all add: demo_bucket_def demo_waiter_def MaxWait_def)

end
