(* ===== verification/Room.thy ===== *)
theory Room
  imports Lobby_Assets Serialize
begin

text \<open>
  A room, \<^verbatim>\<open>internal/room/room.go\<close>: members, the state of its battle, scores, the result, and the snapshot that is written to
  Redis. A time is in nanoseconds since 1970 and \<open>None\<close> is Go's zero time. The field \<open>inputs\<close> is never used and left out. The score map is an
  association list. Protobuf is the parameter \<open>room_codec\<close>.

  Shown here: a room never holds a player twice or more players than it may, exactly the best players win, and what
  a snapshot keeps of a room.
\<close>

section \<open>The room\<close>

record Room =
  rm_ID :: nat
  rm_Mode :: nat
  rm_State :: nat
  rm_Members :: "nat list"
  rm_MaxN :: nat
  rm_CreatedAt :: "int option"
  rm_StartedAt :: "int option"
  rm_Frame :: nat
  rm_scores :: "(nat \<times> int) list"
  rm_settled :: bool

definition room_Has :: "nat \<Rightarrow> Room \<Rightarrow> bool" where
  "room_Has uid r = list_ex (\<lambda>m. m = uid) (rm_Members r)"

definition room_Join :: "nat \<Rightarrow> Room \<Rightarrow> Room \<times> bool" where
  "room_Join uid r =
     (if uid = 0 \<or> room_Has uid r then (r, False)
      else if u32 (length (rm_Members r)) \<ge> rm_MaxN r then (r, False)
      else (r\<lparr>rm_Members := rm_Members r @ [uid], rm_scores := AList.update uid 0 (rm_scores r)\<rparr>, True))"

definition NewRoom :: "nat \<Rightarrow> nat \<Rightarrow> nat \<Rightarrow> nat list \<Rightarrow> int \<Rightarrow> Room" where
  "NewRoom ident md maxN members now =
     fold (\<lambda>uid r. fst (room_Join uid r)) members
       \<lparr>rm_ID = ident, rm_Mode = md, rm_State = RoomStateWaiting, rm_Members = [], rm_MaxN = (if maxN = 0 then 8 else maxN),
        rm_CreatedAt = Some now, rm_StartedAt = None, rm_Frame = 0, rm_scores = [], rm_settled = False\<rparr>"

definition room_Leave :: "nat \<Rightarrow> Room \<Rightarrow> Room \<times> bool" where
  "room_Leave uid r =
     (if room_Has uid r then (r\<lparr>rm_Members := remove1 uid (rm_Members r), rm_scores := AList.delete uid (rm_scores r)\<rparr>, True)
      else (r, False))"

definition room_Full :: "Room \<Rightarrow> bool" where
  "room_Full r \<longleftrightarrow> u32 (length (rm_Members r)) \<ge> rm_MaxN r"

definition room_Empty :: "Room \<Rightarrow> bool" where
  "room_Empty r \<longleftrightarrow> length (rm_Members r) = 0"

definition room_Start :: "int \<Rightarrow> Room \<Rightarrow> Room \<times> bool" where
  "room_Start now r =
     (if rm_State r \<noteq> RoomStateWaiting \<or> length (rm_Members r) = 0 then (r, False)
      else (r\<lparr>rm_State := RoomStateBattling, rm_StartedAt := Some now, rm_Frame := 0\<rparr>, True))"

definition room_Score :: "nat \<Rightarrow> Room \<Rightarrow> int" where
  "room_Score uid r = (case map_of (rm_scores r) uid of None \<Rightarrow> 0 | Some v \<Rightarrow> v)"

definition AddScore :: "nat \<Rightarrow> int \<Rightarrow> Room \<Rightarrow> Room \<times> int" where
  "AddScore uid delta r =
     (let v = i64 (room_Score uid r + delta) in (r\<lparr>rm_scores := AList.update uid v (rm_scores r)\<rparr>, v))"

text \<open>The loop that finds the best score: the flag \<open>first\<close> is \<open>None\<close>.\<close>

fun best_score :: "(nat \<Rightarrow> int) \<Rightarrow> nat list \<Rightarrow> int option \<Rightarrow> int option" where
  "best_score sc [] b = b"
| "best_score sc (u # us) b = best_score sc us (case b of None \<Rightarrow> Some (sc u) | Some x \<Rightarrow> if sc u > x then Some (sc u) else Some x)"

definition room_Result :: "Room \<Rightarrow> BattleResult" where
  "room_Result r =
     (let sc = (\<lambda>u. room_Score u r); best = (case best_score sc (rm_Members r) None of None \<Rightarrow> 0 | Some b \<Rightarrow> b) in
      \<lparr>br_RoomId = rm_ID r, br_TargetUid = 0, br_Winners = filter (\<lambda>u. sc u = best) (rm_Members r),
       br_Losers = filter (\<lambda>u. sc u \<noteq> best) (rm_Members r), br_Score = map (\<lambda>u. (u, sc u)) (rm_Members r)\<rparr>)"

section \<open>Snapshots\<close>

record RoomSnapshot =
  sn_RoomId :: nat
  sn_Mode :: nat
  sn_State :: nat
  sn_Members :: "nat list"
  sn_Frame :: nat
  sn_CreatedAt :: int
  sn_StartedAt :: int

definition milli_of :: "int option \<Rightarrow> int" where
  "milli_of t = (case t of None \<Rightarrow> 0 | Some x \<Rightarrow> x div 1000000)"

definition time_of :: "int \<Rightarrow> int option" where
  "time_of m = (if m > 0 then Some (m * 1000000) else None)"

definition Snapshot :: "Room \<Rightarrow> RoomSnapshot" where
  "Snapshot r = \<lparr>sn_RoomId = rm_ID r, sn_Mode = rm_Mode r, sn_State = rm_State r, sn_Members = rm_Members r, sn_Frame = rm_Frame r,
     sn_CreatedAt = milli_of (rm_CreatedAt r), sn_StartedAt = milli_of (rm_StartedAt r)\<rparr>"

record room_codec =
  enc_room :: "RoomSnapshot \<Rightarrow> bytes option"
  dec_room :: "bytes \<Rightarrow> RoomSnapshot option"

definition room_Marshal :: "room_codec \<Rightarrow> Room \<Rightarrow> bytes option" where
  "room_Marshal C r = enc_room C (Snapshot r)"

definition FromSnapshot :: "RoomSnapshot \<Rightarrow> Room" where
  "FromSnapshot sn =
     (let n = u32 (length (sn_Members sn)); battling = (sn_State sn = RoomStateBattling) in
      \<lparr>rm_ID = sn_RoomId sn, rm_Mode = sn_Mode sn, rm_State = (if battling then RoomStateWaiting else sn_State sn), rm_Members = sn_Members sn,
       rm_MaxN = (if n > 8 then n else 8), rm_CreatedAt = time_of (sn_CreatedAt sn), rm_StartedAt = time_of (sn_StartedAt sn),
       rm_Frame = (if battling then 0 else sn_Frame sn), rm_scores = [], rm_settled = False\<rparr>)"

definition BattleTimeout :: int where
  "BattleTimeout = 5 * 60 * 1000000000"

definition IdleTimeout :: int where
  "IdleTimeout = 2 * 60 * 1000000000"

section \<open>Members\<close>

definition room_wf :: "Room \<Rightarrow> bool" where
  "room_wf r \<longleftrightarrow> distinct (rm_Members r) \<and> 0 \<notin> set (rm_Members r) \<and> length (rm_Members r) \<le> rm_MaxN r \<and> rm_MaxN r < 2 ^ 32"

lemma room_Has_iff [simp]: "room_Has u r \<longleftrightarrow> u \<in> set (rm_Members r)"
  by (auto simp: room_Has_def list_ex_iff)

lemma room_Join_keeps [simp]:
  "rm_ID (fst (room_Join u r)) = rm_ID r" "rm_State (fst (room_Join u r)) = rm_State r" "rm_MaxN (fst (room_Join u r)) = rm_MaxN r"
  "rm_settled (fst (room_Join u r)) = rm_settled r"
  by (simp_all add: room_Join_def)

lemma room_wf_Join: "room_wf r \<Longrightarrow> room_wf (fst (room_Join u r))"
  by (auto simp: room_wf_def room_Join_def u32_def)

lemma room_wf_Leave: "room_wf r \<Longrightarrow> room_wf (fst (room_Leave u r))"
  by (auto simp: room_wf_def room_Leave_def length_remove1 dest: notin_set_remove1)

lemma room_Leave_keeps [simp]:
  "rm_ID (fst (room_Leave u r)) = rm_ID r" "rm_State (fst (room_Leave u r)) = rm_State r" "rm_settled (fst (room_Leave u r)) = rm_settled r"
  by (simp_all add: room_Leave_def)

lemma fold_Join:
  assumes "room_wf r"
  shows "room_wf (fold (\<lambda>uid r. fst (room_Join uid r)) us r) \<and> rm_ID (fold (\<lambda>uid r. fst (room_Join uid r)) us r) = rm_ID r
    \<and> rm_State (fold (\<lambda>uid r. fst (room_Join uid r)) us r) = rm_State r
    \<and> rm_settled (fold (\<lambda>uid r. fst (room_Join uid r)) us r) = rm_settled r"
  using assms by (induction us arbitrary: r) (simp_all add: room_wf_Join)

lemma NewRoom_wf: "maxN < 2 ^ 32 \<Longrightarrow> room_wf (NewRoom i md maxN us now) \<and> rm_ID (NewRoom i md maxN us now) = i \<and> rm_State (NewRoom i md maxN us now) = RoomStateWaiting
    \<and> \<not> rm_settled (NewRoom i md maxN us now)"
  unfolding NewRoom_def
  using fold_Join [of "\<lparr>rm_ID = i, rm_Mode = md, rm_State = RoomStateWaiting, rm_Members = [], rm_MaxN = (if maxN = 0 then 8 else maxN),
    rm_CreatedAt = Some now, rm_StartedAt = None, rm_Frame = 0, rm_scores = [], rm_settled = False\<rparr>" us] by (simp add: room_wf_def)

lemma FromSnapshot_wf: "distinct (sn_Members sn) \<Longrightarrow> 0 \<notin> set (sn_Members sn) \<Longrightarrow> length (sn_Members sn) < 2 ^ 32 \<Longrightarrow> room_wf (FromSnapshot sn)"
  by (auto simp: room_wf_def FromSnapshot_def Let_def u32_def)

section \<open>The result\<close>

lemma best_score_Max:
  "best_score sc us b = (if us = [] then b else Some (Max (sc ` set us \<union> set_option b)))"
proof (induction us arbitrary: b)
  case (Cons u us)
  let ?b = "case b of None \<Rightarrow> Some (sc u) | Some x \<Rightarrow> if sc u > x then Some (sc u) else Some x"
  have b: "?b = Some (Max (insert (sc u) (set_option b)))" by (cases b) auto
  show ?case
  proof (cases "us = []")
    case False
    have "Max (insert (Max (insert (sc u) (set_option b))) (sc ` set us)) = Max (insert (sc u) (set_option b) \<union> sc ` set us)"
      using Max_Un [of "insert (sc u) (set_option b)" "sc ` set us"] Max_insert [of "sc ` set us"] False by (simp add: max.commute)
    then show ?thesis using Cons [of ?b] False by (simp add: b Un_commute insert_commute Un_insert_right)
  qed (use Cons [of ?b] b in simp)
qed simp

text \<open>Exactly the best players win. The result of a battle names every member once, as a winner or as a loser; the winners are the members whose score
  no other member exceeds, there is at least one of them unless the room is empty, and the result carries every member's score.\<close>

theorem best_players_win:
  assumes "distinct (rm_Members r)"
  shows "mset (br_Winners (room_Result r)) + mset (br_Losers (room_Result r)) = mset (rm_Members r)
    \<and> (\<forall>u. u \<in> set (br_Winners (room_Result r)) \<longleftrightarrow> u \<in> set (rm_Members r) \<and> (\<forall>v\<in>set (rm_Members r). room_Score v r \<le> room_Score u r))
    \<and> (rm_Members r \<noteq> [] \<longrightarrow> br_Winners (room_Result r) \<noteq> [])
    \<and> (\<forall>u\<in>set (rm_Members r). map_of (br_Score (room_Result r)) u = Some (room_Score u r))"
proof (cases "rm_Members r = []")
  case False
  let ?M = "(\<lambda>u. room_Score u r) ` set (rm_Members r)"
  have w: "br_Winners (room_Result r) = filter (\<lambda>u. room_Score u r = Max ?M) (rm_Members r)"
    and l: "br_Losers (room_Result r) = filter (\<lambda>u. room_Score u r \<noteq> Max ?M) (rm_Members r)"
    and s: "br_Score (room_Result r) = map (\<lambda>u. (u, room_Score u r)) (rm_Members r)"
    using False by (simp_all add: room_Result_def Let_def best_score_Max)
  have "Max ?M \<in> ?M" using False by (intro Max_in) auto
  then have "br_Winners (room_Result r) \<noteq> []" by (auto simp: w filter_empty_conv)
  moreover have "u \<in> set (br_Winners (room_Result r)) \<longleftrightarrow> u \<in> set (rm_Members r) \<and> (\<forall>v\<in>set (rm_Members r). room_Score v r \<le> room_Score u r)" for u
    using False by (auto simp: w eq_commute [of _ "Max ?M"] Max_eq_iff)
  moreover have "map_of (br_Score (room_Result r)) u = Some (room_Score u r)" if "u \<in> set (rm_Members r)" for u
    using that by (simp add: s map_of_map_restrict)
  ultimately show ?thesis by (simp add: w l flip: multiset_partition)
qed (simp add: room_Result_def Let_def)

definition demo_room :: Room where
  "demo_room = \<lparr>rm_ID = 1031, rm_Mode = 2, rm_State = RoomStateBattling, rm_Members = [5, 7, 9], rm_MaxN = 3, rm_CreatedAt = Some 4000000,
     rm_StartedAt = Some 9123456, rm_Frame = 40, rm_scores = [(5, 3), (7, 8), (9, 8)], rm_settled = False\<rparr>"

theorem best_players_win_witness:
  "distinct (rm_Members demo_room) \<and> set (br_Winners (room_Result demo_room)) = {7, 9} \<and> br_Losers (room_Result demo_room) = [5]"
proof -
  have "distinct (rm_Members demo_room)" by (simp add: demo_room_def)
  from best_players_win [OF this] show ?thesis
    by (simp add: demo_room_def room_Result_def room_Score_def Let_def insert_commute)
qed

section \<open>What a snapshot keeps\<close>

definition room_codec_ok :: "room_codec \<Rightarrow> bool" where
  "room_codec_ok C \<longleftrightarrow> (\<forall>sn b. enc_room C sn = Some b \<longrightarrow> dec_room C b = Some sn)"

definition whole_milli :: "int option \<Rightarrow> bool" where
  "whole_milli t \<longleftrightarrow> (case t of None \<Rightarrow> True | Some x \<Rightarrow> 0 < x \<and> x mod 1000000 = 0)"

lemma time_of_milli: "whole_milli t \<Longrightarrow> time_of (milli_of t) = t"
  by (auto simp: whole_milli_def time_of_def milli_of_def split: option.splits)

text \<open>What survives a change of the owner. A room that is written to Redis and read again has the same number, mode and members, in their order,
  and the same times to the millisecond; a battle that was under way is back in the waiting state at frame 0, every other state is kept;
  the scores are gone, and the limit of members is 8 (or their present number), whatever it was.\<close>

theorem room_snapshot_roundtrip:
  assumes "room_codec_ok C" "room_Marshal C r = Some b" "whole_milli (rm_CreatedAt r)" "whole_milli (rm_StartedAt r)" "length (rm_Members r) < 2 ^ 32"
  shows "map_option FromSnapshot (dec_room C b) =
    Some (r\<lparr>rm_State := (if rm_State r = RoomStateBattling then RoomStateWaiting else rm_State r), rm_Frame := (if rm_State r = RoomStateBattling then 0 else rm_Frame r),
            rm_MaxN := max 8 (length (rm_Members r)), rm_scores := [], rm_settled := False\<rparr>)"
proof -
  have "dec_room C b = Some (Snapshot r)" using assms(1,2) by (simp add: room_codec_ok_def room_Marshal_def)
  then show ?thesis using time_of_milli [OF assms(3)] time_of_milli [OF assms(4)] u32_id [of "length (rm_Members r)"] assms(5)
    by (simp add: FromSnapshot_def Snapshot_def Let_def max_def)
qed

definition ser_snapshot :: "RoomSnapshot ser" where
  "ser_snapshot = ser_map (\<lambda>s. (sn_RoomId s, sn_Mode s, sn_State s, sn_Members s, sn_Frame s, sn_CreatedAt s, sn_StartedAt s))
     (\<lambda>(a, b, c, d, e, f, g). \<lparr>sn_RoomId = a, sn_Mode = b, sn_State = c, sn_Members = d, sn_Frame = e, sn_CreatedAt = f, sn_StartedAt = g\<rparr>)
     (ser_pair ser_nat (ser_pair ser_nat (ser_pair ser_nat (ser_pair (ser_list ser_nat) (ser_pair ser_nat (ser_pair ser_int ser_int))))))"

definition text_room_codec :: room_codec where
  "text_room_codec = \<lparr>enc_room = ser_enc ser_snapshot, dec_room = ser_dec ser_snapshot\<rparr>"

lemma text_room_codec_ok: "room_codec_ok text_room_codec"
proof -
  have "ser_ok ser_snapshot" unfolding ser_snapshot_def by (intro ser_intros) simp
  then show ?thesis by (simp add: room_codec_ok_def text_room_codec_def ser_roundtrip)
qed

text \<open>A full room of two is open to six more players after a change of the owner.\<close>

definition duel_room :: Room where
  "duel_room = \<lparr>rm_ID = 1031, rm_Mode = 1, rm_State = RoomStateWaiting, rm_Members = [5, 7], rm_MaxN = 2, rm_CreatedAt = Some 4000000,
     rm_StartedAt = None, rm_Frame = 0, rm_scores = [(5, 0), (7, 0)], rm_settled = False\<rparr>"

theorem room_snapshot_roundtrip_witness:
  "snd (room_Join 9 duel_room) = False
   \<and> map_option (\<lambda>sn. snd (room_Join 9 (FromSnapshot sn))) (dec_room text_room_codec (the (room_Marshal text_room_codec duel_room))) = Some True"
proof -
  obtain b where b: "room_Marshal text_room_codec duel_room = Some b" by (simp add: room_Marshal_def text_room_codec_def ser_enc_def)
  have "map_option FromSnapshot (dec_room text_room_codec b) = Some (duel_room\<lparr>rm_State := RoomStateWaiting, rm_Frame := 0, rm_MaxN := 8, rm_scores := [], rm_settled := False\<rparr>)"
    using room_snapshot_roundtrip [OF text_room_codec_ok b] by (simp add: duel_room_def whole_milli_def)
  then obtain sn where "dec_room text_room_codec b = Some sn" "FromSnapshot sn = duel_room\<lparr>rm_State := RoomStateWaiting, rm_Frame := 0, rm_MaxN := 8, rm_scores := [], rm_settled := False\<rparr>"
    by auto
  then have "map_option (\<lambda>sn. snd (room_Join 9 (FromSnapshot sn))) (dec_room text_room_codec b) = Some True"
    by (simp add: room_Join_def u32_def) (simp add: duel_room_def)
  moreover have "snd (room_Join 9 duel_room) = False" by (simp add: room_Join_def duel_room_def u32_def)
  ultimately show ?thesis by (simp add: b)
qed

end
