(* ===== verification/Room_Shard.thy ===== *)
theory Room_Shard
  imports Room Shard_Service Session
begin

text \<open>
  The actor of a room shard, \<^verbatim>\<open>internal/room/shard.go\<close> and \<^verbatim>\<open>handlers.go\<close>, and what it starts in the background, \<^verbatim>\<open>service.go\<close>. The map of rooms is
  an association list in its iteration order. A room has one module only, so its dirty table maps a room to the time it was marked; \<open>one_module\<close> relates it to
  the general table of \<open>Dirty\<close>, and the entities of a batch name no modules. Every handler takes the request as the envelope's body decoded (\<open>None\<close> is a failure),
  and what it sends or starts is a list of outputs. The goroutines of \<open>closeRoom\<close>, \<open>indexRoom\<close>, \<open>broadcastRoom\<close> and \<open>publishSettle\<close> are functions
  of their own that run later.

  Shown here: the invariant of the rooms, that a battle is settled at most once, that every member is sent one reward of its own, and that a graceful handover
  gives the next owner the rooms.
\<close>

section \<open>The dirty rooms\<close>

type_synonym room_dirty = "(nat \<times> int) list"

definition room_mark :: "int \<Rightarrow> nat \<Rightarrow> room_dirty \<Rightarrow> room_dirty" where
  "room_mark now i d = (case map_of d i of Some t \<Rightarrow> d | None \<Rightarrow> AList.update i now d)"

definition room_take :: "int \<Rightarrow> room_dirty \<Rightarrow> room_dirty \<times> room_dirty" where
  "room_take mx d = (let n = (if mx > 0 then nat mx else length d) in (take n d, drop n d))"

definition room_remark_one :: "int \<Rightarrow> entity \<Rightarrow> room_dirty \<Rightarrow> room_dirty" where
  "room_remark_one now e d =
     (let t = (if e_DirtyAt e = 0 then now else e_DirtyAt e) in
      case map_of d (e_ID e) of
        None \<Rightarrow> AList.update (e_ID e) t d
      | Some old \<Rightarrow> if t < old then AList.update (e_ID e) t d else d)"

definition room_remark :: "int \<Rightarrow> entity list \<Rightarrow> room_dirty \<Rightarrow> room_dirty" where
  "room_remark now es d = fold (room_remark_one now) es d"

section \<open>State and outputs\<close>

record room_cfg =
  rc_FlushL1Interval :: int
  rc_FlushBatchSize :: int
  rc_ShardCount :: nat

record room_shard =
  rs_o :: Ownership
  rs_rooms :: "(nat \<times> Room) list"
  rs_dirty :: room_dirty
  rs_nextFlush :: int
  rs_nextGC :: int
  rs_closed :: bool

datatype room_body = BodySnapshot RoomSnapshot | BodyResult BattleResult | BodyOp nat nat bytes

datatype room_out =
    RoomErr ErrCode
  | RoomCreated nat
  | RoomSnap RoomSnapshot
  | RoomAck
  | Broadcast nat "nat list" nat room_body string \<comment> \<open>room, members, push, body, trace\<close>
  | IndexRoom nat
  | DeleteRoom nat
  | SettleJobs nat "nat list" BattleResult

definition room_NewShard :: "Ownership \<Rightarrow> room_shard" where
  "room_NewShard ow = \<lparr>rs_o = ow, rs_rooms = [], rs_dirty = [], rs_nextFlush = 0, rs_nextGC = 0, rs_closed = False\<rparr>"

definition put_room :: "nat \<Rightarrow> Room \<Rightarrow> room_shard \<Rightarrow> room_shard" where
  "put_room i r st = st\<lparr>rs_rooms := AList.update i r (rs_rooms st)\<rparr>"

definition room_shard_mark :: "int \<Rightarrow> nat \<Rightarrow> room_shard \<Rightarrow> room_shard" where
  "room_shard_mark now i st = st\<lparr>rs_dirty := room_mark now i (rs_dirty st)\<rparr>"

definition broadcastRoom :: "Room \<Rightarrow> nat \<Rightarrow> room_body \<Rightarrow> string \<Rightarrow> room_out list" where
  "broadcastRoom r push body trace = (if length (rm_Members r) = 0 then [] else [Broadcast (rm_ID r) (rm_Members r) push body trace])"

definition closeRoom :: "nat \<Rightarrow> room_shard \<Rightarrow> room_shard \<times> room_out list" where
  "closeRoom i st =
     (case map_of (rs_rooms st) i of
        None \<Rightarrow> (st, [])
      | Some r \<Rightarrow> (st\<lparr>rs_rooms := AList.delete i (rs_rooms st), rs_dirty := AList.delete i (rs_dirty st)\<rparr>, [DeleteRoom i]))"

text \<open>\<open>settle\<close> on the room under the key \<open>i\<close>.\<close>

definition room_settle :: "int \<Rightarrow> nat \<Rightarrow> Room \<Rightarrow> room_shard \<Rightarrow> room_shard \<times> room_out list" where
  "room_settle now i r st =
     (if rm_settled r \<or> rm_State r = RoomStateSettling then (st, [])
      else let r' = r\<lparr>rm_settled := True, rm_State := RoomStateSettling\<rparr>; res = room_Result r'
           in (room_shard_mark now (rm_ID r) (put_room i r' st), broadcastRoom r' PushBattleResult (BodyResult res) [] @ [SettleJobs (rm_ID r) (rm_Members r) res]))"

section \<open>Handlers\<close>

record CreateRoomReq =
  cr_RoomId :: nat
  cr_Mode :: nat
  cr_MaxPlayer :: nat
  cr_Members :: "nat list"

record RoomOpReq =
  ro_RoomId :: nat
  ro_Uid :: nat
  ro_Op :: nat
  ro_Payload :: bytes

definition the_uid :: "nat \<Rightarrow> nat \<Rightarrow> nat" where
  "the_uid reqUid envUid = (if reqUid = 0 then envUid else reqUid)"

definition handleCreate :: "room_cfg \<Rightarrow> int \<Rightarrow> string \<Rightarrow> CreateRoomReq option \<Rightarrow> room_shard \<Rightarrow> room_shard \<times> room_out list" where
  "handleCreate cfg now trace oreq st =
     (case oreq of None \<Rightarrow> (st, [RoomErr E_BadRequest]) | Some req \<Rightarrow>
      let i = cr_RoomId req in
      if i = 0 then (st, [RoomErr E_BadRequest])
      else if shard_Of i (rc_ShardCount cfg) \<noteq> ow_Shard (rs_o st) then (st, [RoomErr E_BadRequest])
      else if map_of (rs_rooms st) i \<noteq> None then (st, [RoomCreated i])
      else let r = NewRoom i (cr_Mode req) (cr_MaxPlayer req) (cr_Members req) now
           in (room_shard_mark now i (put_room i r st),
               [IndexRoom i, RoomCreated i] @ broadcastRoom r PushRoomEvent (BodySnapshot (Snapshot r)) trace))"

definition handleJoin :: "int \<Rightarrow> nat \<Rightarrow> string \<Rightarrow> (nat \<times> nat) option \<Rightarrow> room_shard \<Rightarrow> room_shard \<times> room_out list" where
  "handleJoin now envUid trace oreq st =
     (case oreq of None \<Rightarrow> (st, [RoomErr E_BadRequest]) | Some (i, reqUid) \<Rightarrow>
      (case map_of (rs_rooms st) i of None \<Rightarrow> (st, [RoomErr E_RoomNotFound]) | Some r \<Rightarrow>
       let uid = the_uid reqUid envUid in
       if room_Has uid r
       then (st, [RoomSnap \<lparr>sn_RoomId = rm_ID r, sn_Mode = rm_Mode r, sn_State = rm_State r, sn_Members = rm_Members r, sn_Frame = 0, sn_CreatedAt = 0, sn_StartedAt = 0\<rparr>])
       else (case room_Join uid r of
               (r', False) \<Rightarrow> (st, [RoomErr E_RoomFull])
             | (r', True) \<Rightarrow> (room_shard_mark now (rm_ID r) (put_room i r' st),
                 RoomSnap (Snapshot r') # broadcastRoom r' PushRoomEvent (BodySnapshot (Snapshot r')) trace))))"

definition handleLeave :: "int \<Rightarrow> nat \<Rightarrow> string \<Rightarrow> (nat \<times> nat) option \<Rightarrow> room_shard \<Rightarrow> room_shard \<times> room_out list" where
  "handleLeave now envUid trace oreq st =
     (case oreq of None \<Rightarrow> (st, [RoomErr E_BadRequest]) | Some (i, reqUid) \<Rightarrow>
      (case map_of (rs_rooms st) i of None \<Rightarrow> (st, [RoomErr E_RoomNotFound]) | Some r \<Rightarrow>
       (case room_Leave (the_uid reqUid envUid) r of
          (r', False) \<Rightarrow> (st, [RoomErr E_NotFound])
        | (r', True) \<Rightarrow>
            let st1 = room_shard_mark now (rm_ID r) (put_room i r' st) in
            if room_Empty r' then (case closeRoom (rm_ID r) st1 of (st2, outs) \<Rightarrow> (st2, RoomAck # outs))
            else (st1, RoomAck # broadcastRoom r' PushRoomEvent (BodySnapshot (Snapshot r')) trace))))"

definition handleStart :: "int \<Rightarrow> string \<Rightarrow> RoomOpReq option \<Rightarrow> room_shard \<Rightarrow> room_shard \<times> room_out list" where
  "handleStart now trace oreq st =
     (case oreq of None \<Rightarrow> (st, [RoomErr E_BadRequest]) | Some req \<Rightarrow>
      (case map_of (rs_rooms st) (ro_RoomId req) of None \<Rightarrow> (st, [RoomErr E_RoomNotFound]) | Some r \<Rightarrow>
       (case room_Start now r of
          (r', False) \<Rightarrow> (st, [RoomErr E_BadRequest])
        | (r', True) \<Rightarrow> (room_shard_mark now (rm_ID r) (put_room (ro_RoomId req) r' st),
            RoomAck # broadcastRoom r' PushRoomEvent (BodySnapshot (Snapshot r')) trace))))"

definition OpScore :: nat where "OpScore = 1"
definition OpFinish :: nat where "OpFinish = 2"
definition OpChat :: nat where "OpChat = 3"

text \<open>\<open>handleOp\<close>: the broadcast carries the members as they are after the operation.\<close>

definition handleOp :: "int \<Rightarrow> nat \<Rightarrow> string \<Rightarrow> RoomOpReq option \<Rightarrow> room_shard \<Rightarrow> room_shard \<times> room_out list" where
  "handleOp now envUid trace oreq st =
     (case oreq of None \<Rightarrow> (st, [RoomErr E_BadRequest]) | Some req \<Rightarrow>
      (case map_of (rs_rooms st) (ro_RoomId req) of None \<Rightarrow> (st, [RoomErr E_RoomNotFound]) | Some r \<Rightarrow>
       let uid = the_uid (ro_Uid req) envUid in
       if \<not> room_Has uid r then (st, [RoomErr E_Permission])
       else if rm_State r \<noteq> RoomStateBattling then (st, [RoomErr E_BadRequest])
       else case (if ro_Op req = OpScore
                  then (put_room (ro_RoomId req) (fst (AddScore uid (i64 (int (length (ro_Payload req)) + 1)) r)) st, [])
                  else if ro_Op req = OpFinish then room_settle now (ro_RoomId req) r st
                  else (st, [])) of
         (st1, outs) \<Rightarrow>
           (st1, outs @ [RoomAck] @
             (if ro_Op req \<noteq> OpFinish then broadcastRoom r PushRoomEvent (BodyOp (rm_ID r) (ro_Op req) (ro_Payload req)) trace else []))))"

definition handleInfo :: "RoomOpReq option \<Rightarrow> room_shard \<Rightarrow> room_shard \<times> room_out list" where
  "handleInfo oreq st =
     (case oreq of None \<Rightarrow> (st, [RoomErr E_BadRequest]) | Some req \<Rightarrow>
      (case map_of (rs_rooms st) (ro_RoomId req) of None \<Rightarrow> (st, [RoomErr E_RoomNotFound]) | Some r \<Rightarrow> (st, [RoomSnap (Snapshot r)])))"

record room_msg =
  xm_cmd :: nat
  xm_uid :: nat
  xm_trace :: string
  xm_create :: "CreateRoomReq option"
  xm_member :: "(nat \<times> nat) option" \<comment> \<open>room and player of a join or leave request\<close>
  xm_op :: "RoomOpReq option"

definition room_Handle :: "room_cfg \<Rightarrow> int \<Rightarrow> room_msg \<Rightarrow> room_shard \<Rightarrow> room_shard \<times> room_out list" where
  "room_Handle cfg now m st =
     (if rs_closed st then (st, [RoomErr E_Unavailable])
      else if xm_cmd m = CmdCreateRoom then handleCreate cfg now (xm_trace m) (xm_create m) st
      else if xm_cmd m = CmdJoinRoom then handleJoin now (xm_uid m) (xm_trace m) (xm_member m) st
      else if xm_cmd m = CmdLeaveRoom then handleLeave now (xm_uid m) (xm_trace m) (xm_member m) st
      else if xm_cmd m = CmdStartBattle then handleStart now (xm_trace m) (xm_op m) st
      else if xm_cmd m = CmdRoomOp then handleOp now (xm_uid m) (xm_trace m) (xm_op m) st
      else if xm_cmd m = CmdRoomInfo then handleInfo (xm_op m) st
      else (st, [RoomErr E_BadRequest]))"

section \<open>The tick\<close>

text \<open>\<open>now.Sub\<close> saturates: the zero time lies further back than a duration can express.\<close>

definition room_since :: "int \<Rightarrow> int option \<Rightarrow> int" where
  "room_since now t = (case t of None \<Rightarrow> 2 ^ 63 - 1 | Some x \<Rightarrow> now - x)"

definition tick_room :: "int \<Rightarrow> nat \<Rightarrow> room_shard \<times> room_out list \<Rightarrow> room_shard \<times> room_out list" where
  "tick_room now i so =
     (case map_of (rs_rooms (fst so)) i of
        None \<Rightarrow> so
      | Some r \<Rightarrow>
          if rm_State r \<noteq> RoomStateBattling then so
          else let r1 = r\<lparr>rm_Frame := u32 (rm_Frame r + 1)\<rparr>; st1 = put_room i r1 (fst so) in
            if room_since now (rm_StartedAt r1) \<ge> BattleTimeout
            then (case room_settle now i r1 st1 of (st2, outs) \<Rightarrow> (st2, snd so @ outs))
            else (st1, snd so))"

fun build_rooms :: "room_codec \<Rightarrow> keys \<Rightarrow> int \<Rightarrow> room_dirty \<Rightarrow> room_shard \<Rightarrow> room_shard \<times> entity list" where
  "build_rooms C ks now [] st = (st, [])"
| "build_rooms C ks now ((i, t) # items) st =
     (case map_of (rs_rooms st) i of
        None \<Rightarrow> build_rooms C ks now items st
      | Some r \<Rightarrow>
          (case room_Marshal C r of
             None \<Rightarrow> build_rooms C ks now items (room_shard_mark now i st)
           | Some blob \<Rightarrow>
               (case build_rooms C ks now items st of
                  (st', ents) \<Rightarrow> (st', \<lparr>e_ID = i, e_Keys = [(keys_Room ks i, blob)], e_Hash = None, e_Modules = [], e_DirtyAt = t\<rparr> # ents))))"

definition room_buildBatch :: "room_codec \<Rightarrow> keys \<Rightarrow> int \<Rightarrow> room_dirty \<Rightarrow> room_shard \<Rightarrow> room_shard \<times> batch option" where
  "room_buildBatch C ks now items st =
     (case build_rooms C ks now items st of
        (st', ents) \<Rightarrow>
          (st', if length ents = 0 then None
                else Some \<lparr>b_Shard = ow_Shard (rs_o st'), b_Epoch = ow_Epoch (rs_o st'), b_Level = L1, b_Entities = ents\<rparr>))"

definition room_flush :: "room_codec \<Rightarrow> keys \<Rightarrow> room_cfg \<Rightarrow> int \<Rightarrow> room_shard \<times> flusher \<Rightarrow> room_shard \<times> flusher" where
  "room_flush C ks cfg now stf =
     (case room_take (rc_FlushBatchSize cfg) (rs_dirty (fst stf)) of
        (items, d) \<Rightarrow>
          let st0 = fst stf\<lparr>rs_dirty := d\<rparr> in
          if length items = 0 then (st0, snd stf)
          else case room_buildBatch C ks now items st0 of
            (st1, None) \<Rightarrow> (st1, snd stf)
          | (st1, Some b) \<Rightarrow>
              (case Submit (Some b) (snd stf) of
                 (f', Inr ()) \<Rightarrow> (st1, f')
               | (f', Inl e) \<Rightarrow> (st1\<lparr>rs_dirty := room_remark now (b_Entities b) (rs_dirty st1)\<rparr>, f')))"

definition gc_dead :: "int \<Rightarrow> room_shard \<Rightarrow> nat list" where
  "gc_dead now st =
     map fst (filter (\<lambda>(i, r). room_Empty r \<and> room_since now (rm_CreatedAt r) > IdleTimeout
                             \<or> rm_State r = RoomStateSettling \<and> room_since now (rm_StartedAt r) > IdleTimeout) (rs_rooms st))"

definition gc :: "int \<Rightarrow> room_shard \<Rightarrow> room_shard \<times> room_out list" where
  "gc now st = fold (\<lambda>i so. case closeRoom i (fst so) of (st', outs) \<Rightarrow> (st', snd so @ outs)) (gc_dead now st) (st, [])"

definition room_Tick :: "room_codec \<Rightarrow> keys \<Rightarrow> room_cfg \<Rightarrow> int \<Rightarrow> room_shard \<times> flusher \<Rightarrow> (room_shard \<times> flusher) \<times> room_out list" where
  "room_Tick C ks cfg now stf =
     (if rs_closed (fst stf) then (stf, [])
      else case fold (tick_room now) (map fst (rs_rooms (fst stf))) (fst stf, []) of
        (st1, outs1) \<Rightarrow>
          (case (if now > rs_nextFlush st1 then room_flush C ks cfg now (st1\<lparr>rs_nextFlush := now + rc_FlushL1Interval cfg\<rparr>, snd stf) else (st1, snd stf)) of
             (st2, f2) \<Rightarrow>
               (case (if now > rs_nextGC st2 then gc now (st2\<lparr>rs_nextGC := now + 30 * 1000000000\<rparr>) else (st2, [])) of
                  (st3, outs3) \<Rightarrow> ((st3, f2), outs1 @ outs3))))"

section \<open>Flush results and closing\<close>

definition room_OnFlushResult :: "int \<Rightarrow> flush_result option \<Rightarrow> room_shard \<Rightarrow> room_shard" where
  "room_OnFlushResult now ores st =
     (case ores of
        None \<Rightarrow> st
      | Some res \<Rightarrow>
          if rs_closed st then st
          else if length (r_Failed res) > 0 then st\<lparr>rs_dirty := room_remark now (r_Failed res) (rs_dirty st)\<rparr> else st)"

datatype room_flush_err = RoomFenced | RoomFlushErr go_err | RoomPartial nat

definition room_FlushAllSync :: "'r redis \<Rightarrow> room_codec \<Rightarrow> keys \<Rightarrow> 'r write_env \<Rightarrow> int \<Rightarrow> room_shard \<times> 'r \<Rightarrow>
    (room_shard \<times> 'r) \<times> room_flush_err option" where
  "room_FlushAllSync R C ks w now ss =
     (let st0 = fst ss\<lparr>rs_dirty := []\<rparr>; items = rs_dirty (fst ss) in
      if length items = 0 then ((st0, snd ss), None)
      else case room_buildBatch C ks now items st0 of
        (st1, None) \<Rightarrow> ((st1, snd ss), None)
      | (st1, Some b) \<Rightarrow>
          (case SubmitSync R ks w (Some b) (snd ss) of
             (s', res) \<Rightarrow>
               let st2 = (if length (r_Failed res) > 0 then st1\<lparr>rs_dirty := room_remark now (r_Failed res) (rs_dirty st1)\<rparr> else st1)
               in ((st2, s'),
                   if r_Fenced res then Some RoomFenced
                   else case r_Err res of Some e \<Rightarrow> Some (RoomFlushErr e)
                   | None \<Rightarrow> if length (r_Failed res) > 0 then Some (RoomPartial (length (r_Failed res))) else None)))"

definition room_Close :: "'r redis \<Rightarrow> room_codec \<Rightarrow> keys \<Rightarrow> 'r write_env \<Rightarrow> int \<Rightarrow> ReleaseReason \<Rightarrow> room_shard \<times> 'r \<Rightarrow> room_shard \<times> 'r" where
  "room_Close R C ks w now reason ss =
     (let st = fst ss\<lparr>rs_closed := True\<rparr>;
          (st1, s1) = (if reason = Graceful then fst (room_FlushAllSync R C ks w now (st, snd ss)) else (st, snd ss))
      in (st1\<lparr>rs_rooms := [], rs_dirty := []\<rparr>, s1))"


section \<open>Taking a shard over\<close>

text \<open>\<open>fmt.Sscanf(raw, "%d", &id)\<close> into a \<open>uint64\<close>: blanks are skipped, then the longest run of digits is read.\<close>

definition scan_uint :: "string \<Rightarrow> nat option" where
  "scan_uint raw = go_ParseUint (takeWhile (\<lambda>c. 48 \<le> byte_of c \<and> byte_of c \<le> 57) (dropWhile (\<lambda>c. c = CHR '' '') raw))"

text \<open>\<open>Exec\<close> returns the error of the first command that has one, and a missing key is such an error: \<open>pipe_err\<close> tells whether \<open>Init\<close> sees one that is
  not \<open>redis.Nil\<close>. \<open>arrived raw\<close> tells whether the reply of that command arrived.\<close>

fun pipe_err :: "(bytes \<times> bytes option \<times> bool) list \<Rightarrow> bool" where
  "pipe_err [] = False"
| "pipe_err ((raw, v, arrived) # cs) = (if \<not> arrived then True else if v = None then False else pipe_err cs)"

definition room_cmds :: "'r redis \<Rightarrow> keys \<Rightarrow> (bytes \<Rightarrow> bool) \<Rightarrow> bytes list \<Rightarrow> 'r \<Rightarrow> (bytes \<times> bytes option \<times> bool) list" where
  "room_cmds R ks arrived ids s = List.map_filter (\<lambda>raw. map_option (\<lambda>i. (raw, GET R s (keys_Room ks i), arrived raw)) (scan_uint raw)) ids"

definition restored :: "room_codec \<Rightarrow> (bytes \<times> bytes option \<times> bool) list \<Rightarrow> (nat \<times> Room) list" where
  "restored C cmds = fold (\<lambda>(raw, v, arrived) rooms.
     case (if arrived then v else None) of None \<Rightarrow> rooms
     | Some blob \<Rightarrow> (case dec_room C blob of None \<Rightarrow> rooms | Some sn \<Rightarrow> AList.update (sn_RoomId sn) (FromSnapshot sn) rooms)) cmds []"

definition stale_ids :: "(bytes \<times> bytes option \<times> bool) list \<Rightarrow> bytes list" where
  "stale_ids cmds = map fst (filter (\<lambda>(raw, v, arrived). arrived \<and> v = None) cmds)"

definition room_Init :: "'r redis \<Rightarrow> room_codec \<Rightarrow> keys \<Rightarrow> room_cfg \<Rightarrow> int \<Rightarrow> net \<Rightarrow> (bytes \<Rightarrow> bool) \<Rightarrow> net \<Rightarrow> Ownership \<Rightarrow> room_shard \<times> 'r \<Rightarrow>
    (room_shard \<times> 'r) \<times> unit result" where
  "room_Init R C ks cfg now n1 arrived n3 ow ss =
     (let st = fst ss\<lparr>rs_nextFlush := Deadline now (ow_Shard ow) (rc_FlushL1Interval cfg), rs_nextGC := now + 30 * 1000000000\<rparr>; s = snd ss in
      if n1 \<noteq> Delivered then ((st, s), Inl ErrRedis)
      else let ids = SMEMBERS R s (keys_RoomIndex ks (ow_Shard ow)) in
        if length ids = 0 then ((st, s), Inr ())
        else let cmds = room_cmds R ks arrived ids s in
          if pipe_err cmds then ((st, s), Inl ErrRedis)
          else let st1 = st\<lparr>rs_rooms := restored C cmds\<rparr>; stale = stale_ids cmds in
            ((st1, if length stale > 0 then fst (run n3 (\<lambda>s. (fold (\<lambda>m s. SREM R s (keys_RoomIndex ks (ow_Shard ow)) m) stale s, Some ())) s) else s), Inr ()))"

section \<open>In the background\<close>

definition run_deleteRoom :: "'r redis \<Rightarrow> keys \<Rightarrow> net \<Rightarrow> net \<Rightarrow> nat \<Rightarrow> int \<Rightarrow> nat \<Rightarrow> 'r \<Rightarrow> 'r" where
  "run_deleteRoom R ks n1 n2 sh epoch i s =
     (case fencer_Delete R ks n1 sh epoch [keys_Room ks i] s of
        (s1, Inl e) \<Rightarrow> s1
      | (s1, Inr u) \<Rightarrow> fst (run n2 (\<lambda>s. (SREM R s (keys_RoomIndex ks sh) (show_nat i), Some ())) s1))"

definition run_indexRoom :: "'r redis \<Rightarrow> keys \<Rightarrow> net \<Rightarrow> nat \<Rightarrow> nat \<Rightarrow> 'r \<Rightarrow> 'r" where
  "run_indexRoom R ks n sh i s = fst (run n (\<lambda>s. (SADD R s (keys_RoomIndex ks sh) (show_nat i), Some ())) s)"

text \<open>One message per gateway, to its own subject, with the players connected there. Marshalling cannot fail here.\<close>

definition run_broadcast :: "'r redis \<Rightarrow> keys \<Rightarrow> net \<Rightarrow> nat list \<Rightarrow> nat \<Rightarrow> 'b \<Rightarrow> 'r \<Rightarrow> (string \<times> nat list \<times> nat \<times> 'b) list" where
  "run_broadcast R ks n members push body s =
     (case GroupByGate R ks n members s of
        Inl e \<Rightarrow> []
      | Inr byGate \<Rightarrow> map (\<lambda>(gate, uids). (GatePush gate, uids, push, body)) (filter (\<lambda>(gate, uids). gate \<noteq> []) byGate))"


definition battle_msgID :: "nat \<Rightarrow> nat \<Rightarrow> string" where
  "battle_msgID roomID uid = ''battle-'' @ show_nat roomID @ ''-'' @ show_nat uid"


definition room_opts :: "string \<Rightarrow> keys \<Rightarrow> nat \<Rightarrow> svc_opts" where
  "room_opts node ks shards = \<lparr>so_kind = ''room'', so_node = node, so_keys = ks, so_wildcard = RoomShardWildcard, so_space = 0, so_shardCount = shards, so_skipEpoch = False\<rparr>"


section \<open>The dirty rooms and the general table\<close>

definition one_module :: "Module \<Rightarrow> room_dirty \<Rightarrow> dirty_set" where
  "one_module m d = map (\<lambda>(i, t). (i, [(m, t)])) d"

lemma map_of_one_module: "map_of (one_module m d) i = map_option (\<lambda>t. [(m, t)]) (map_of d i)"
  by (induction d) (auto simp: one_module_def)

lemma update_one_module: "AList.update i [(m, t)] (one_module m d) = one_module m (AList.update i t d)"
  by (induction d) (auto simp: one_module_def)

lemma update_same: "distinct (map fst d) \<Longrightarrow> map_of d i = Some t \<Longrightarrow> AList.update i t d = d"
  by (induction d) (auto simp: rev_image_eqI)

lemma one_module_mark: "distinct (map fst d) \<Longrightarrow> Dirty.Mark now i m (one_module m d) = one_module m (room_mark now i d)"
  by (auto simp: Dirty.Mark_def room_mark_def map_of_one_module update_one_module update_same Let_def split: option.splits)

lemma take_loop_one_module:
  assumes "ModuleLevel m = lv"
  shows "take_loop lv mx out (one_module m d) =
    (let n = (if mx > 0 then nat mx - length out else length d) in
     (out @ map (\<lambda>(i, t). \<lparr>it_ID = i, it_Modules = [m], it_DirtyAt = earliest [t]\<rparr>) (take n d), one_module m (drop n d)))"
proof (induction d arbitrary: out)
  case Nil
  then show ?case by (simp add: one_module_def)
next
  case (Cons x d)
  obtain i t where x: "x = (i, t)" by (cases x)
  have om: "one_module m (x # d) = (i, [(m, t)]) # one_module m d" by (simp add: one_module_def x)
  show ?case
  proof (cases "mx > 0 \<and> int (length out) \<ge> mx")
    case True
    then have "nat mx - length out = 0" by (simp add: nat_le_iff)
    then show ?thesis using True by (simp add: om Let_def)
  next
    case False
    then have n: "(if mx > 0 then nat mx - length out else length (x # d)) = Suc (if mx > 0 then nat mx - Suc (length out) else length d)" by auto
    show ?thesis unfolding om n using Cons [of "out @ [\<lparr>it_ID = i, it_Modules = [m], it_DirtyAt = earliest [t]\<rparr>]"] False
      by (simp add: assms x Let_def)
  qed
qed

text \<open>The reduction is exact: on a table with one module of the level L1 the general operations do what the reduced ones do.\<close>

lemma one_module_take:
  assumes "ModuleLevel m = L1"
  shows "Take L1 mx (one_module m d) =
    (map (\<lambda>(i, t). \<lparr>it_ID = i, it_Modules = [m], it_DirtyAt = earliest [t]\<rparr>) (fst (room_take mx d)), one_module m (snd (room_take mx d)))"
  using take_loop_one_module [OF assms, of mx "[]" d] by (simp add: Take_def room_take_def Let_def)

lemma one_module_remark:
  assumes "distinct (map fst d)" "e_Modules e = [m]"
  shows "remark_one now e (one_module m d) = one_module m (room_remark_one now e d)"
proof (cases "map_of d (e_ID e)")
  case None
  then show ?thesis
    using assms by (simp add: remark_one_def room_remark_one_def remark_mod_def map_of_one_module update_one_module Let_def)
next
  case (Some t)
  then show ?thesis
    using assms update_same [OF assms(1) Some]
    by (simp add: remark_one_def room_remark_one_def remark_mod_def map_of_one_module update_one_module Let_def)
qed

section \<open>Runs of a shard\<close>

datatype room_event = EvMsg int room_msg | EvTick int | EvResult int "flush_result option"

fun room_step :: "room_codec \<Rightarrow> keys \<Rightarrow> room_cfg \<Rightarrow> room_event \<Rightarrow> room_shard \<times> flusher \<Rightarrow> (room_shard \<times> flusher) \<times> room_out list" where
  "room_step C ks cfg (EvMsg now m) stf = (case room_Handle cfg now m (fst stf) of (st, outs) \<Rightarrow> ((st, snd stf), outs))"
| "room_step C ks cfg (EvTick now) stf = room_Tick C ks cfg now stf"
| "room_step C ks cfg (EvResult now res) stf = ((room_OnFlushResult now res (fst stf), snd stf), [])"

fun room_run :: "room_codec \<Rightarrow> keys \<Rightarrow> room_cfg \<Rightarrow> room_event list \<Rightarrow> room_shard \<times> flusher \<Rightarrow> (room_shard \<times> flusher) \<times> room_out list" where
  "room_run C ks cfg [] stf = (stf, [])"
| "room_run C ks cfg (ev # evs) stf =
     (case room_step C ks cfg ev stf of (stf1, outs1) \<Rightarrow> (case room_run C ks cfg evs stf1 of (stf2, outs2) \<Rightarrow> (stf2, outs1 @ outs2)))"

text \<open>A request's limit of members is a \<open>uint32\<close>.\<close>

fun event_ok :: "room_event \<Rightarrow> bool" where
  "event_ok (EvMsg now m) = (case xm_create m of None \<Rightarrow> True | Some req \<Rightarrow> cr_MaxPlayer req < 2 ^ 32)"
| "event_ok ev = True"

definition room_ok :: "room_cfg \<Rightarrow> nat \<Rightarrow> nat \<Rightarrow> Room \<Rightarrow> bool" where
  "room_ok cfg sh i r \<longleftrightarrow> rm_ID r = i \<and> room_wf r \<and> shard_Of i (rc_ShardCount cfg) = sh \<and> (rm_settled r \<longrightarrow> rm_State r = RoomStateSettling)"

definition rooms_ok :: "room_cfg \<Rightarrow> room_shard \<Rightarrow> bool" where
  "rooms_ok cfg st \<longleftrightarrow> distinct (map fst (rs_rooms st)) \<and> (\<forall>i r. map_of (rs_rooms st) i = Some r \<longrightarrow> room_ok cfg (ow_Shard (rs_o st)) i r)"

definition settling :: "room_shard \<Rightarrow> nat \<Rightarrow> bool" where
  "settling st i = (case map_of (rs_rooms st) i of None \<Rightarrow> False | Some r \<Rightarrow> rm_State r = RoomStateSettling)"

text \<open>The life of a room as its outputs tell it: \<open>follow\<close> fails when a room is settled twice.\<close>

fun follow :: "nat \<Rightarrow> bool \<Rightarrow> room_out list \<Rightarrow> bool option" where
  "follow i b [] = Some b"
| "follow i b (SettleJobs j ms res # outs) = (if j = i then if b then None else follow i True outs else follow i b outs)"
| "follow i b (DeleteRoom j # outs) = follow i (if j = i then False else b) outs"
| "follow i b (_ # outs) = follow i b outs"

lemma follow_append: "follow i b (xs @ ys) = Option.bind (follow i b xs) (\<lambda>b'. follow i b' ys)"
  by (induction i b xs rule: follow.induct) simp_all

definition room_good :: "room_cfg \<Rightarrow> room_shard \<Rightarrow> room_shard \<times> room_out list \<Rightarrow> bool" where
  "room_good cfg st so \<longleftrightarrow> rooms_ok cfg (fst so) \<and> rs_o (fst so) = rs_o st \<and> (\<forall>i. follow i (settling st i) (snd so) = Some (settling (fst so) i))"

lemma room_good_refl: "rooms_ok cfg st \<Longrightarrow> room_good cfg st (st, [])"
  by (simp add: room_good_def)

lemma room_good_trans: "room_good cfg st (st1, o1) \<Longrightarrow> room_good cfg st1 (st2, o2) \<Longrightarrow> room_good cfg st (st2, o1 @ o2)"
  by (simp add: room_good_def follow_append)


text \<open>What the outputs say of one room between two states in which everything else stays.\<close>

definition quiet :: "room_out list \<Rightarrow> bool" where
  "quiet outs \<longleftrightarrow> (\<forall>x\<in>set outs. case x of SettleJobs i ms res \<Rightarrow> False | DeleteRoom i \<Rightarrow> False | _ \<Rightarrow> True)"

lemma follow_quiet: "quiet outs \<Longrightarrow> follow i b outs = Some b"
  by (induction i b outs rule: follow.induct) (simp_all add: quiet_def)

lemma quiet_simps [simp]:
  "quiet []" "quiet (RoomErr e # outs) = quiet outs" "quiet (RoomCreated i # outs) = quiet outs" "quiet (RoomSnap sn # outs) = quiet outs" "quiet (RoomAck # outs) = quiet outs"
  "quiet (IndexRoom i # outs) = quiet outs" "quiet (broadcastRoom r p b tr)" "quiet (xs @ ys) \<longleftrightarrow> quiet xs \<and> quiet ys"
  by (auto simp: quiet_def broadcastRoom_def)

lemma shard_mark_fields [simp]: "rs_rooms (room_shard_mark now i st) = rs_rooms st" "rs_o (room_shard_mark now i st) = rs_o st" "rs_closed (room_shard_mark now i st) = rs_closed st"
  "settling (room_shard_mark now i st) = settling st" "rooms_ok cfg (room_shard_mark now i st) = rooms_ok cfg st"
  by (simp_all add: room_shard_mark_def settling_def rooms_ok_def fun_eq_iff)

lemma put_room_fields [simp]: "rs_o (put_room i r st) = rs_o st" "rs_closed (put_room i r st) = rs_closed st"
  "map_of (rs_rooms (put_room i r st)) = (map_of (rs_rooms st))(i \<mapsto> r)"
  by (simp_all add: put_room_def update_conv')

lemma rooms_ok_put: "rooms_ok cfg st \<Longrightarrow> room_ok cfg (ow_Shard (rs_o st)) i r \<Longrightarrow> rooms_ok cfg (put_room i r st)"
  by (simp add: rooms_ok_def put_room_def distinct_update update_conv')

lemma settling_put: "settling (put_room i r st) j = (if j = i then rm_State r = RoomStateSettling else settling st j)"
  by (simp add: settling_def)

lemma rooms_ok_of: "rooms_ok cfg st \<Longrightarrow> map_of (rs_rooms st) i = Some r \<Longrightarrow> room_ok cfg (ow_Shard (rs_o st)) i r"
  by (simp add: rooms_ok_def)

text \<open>An operation that changes one room without settling it.\<close>

lemma room_good_put:
  assumes "rooms_ok cfg st" "room_ok cfg (ow_Shard (rs_o st)) i r" "settling st i \<longleftrightarrow> rm_State r = RoomStateSettling" "quiet outs"
  shows "room_good cfg st (put_room i r st, outs)"
  using assms by (simp add: room_good_def rooms_ok_put follow_quiet settling_put)

lemma room_good_mark: "room_good cfg st (room_shard_mark now i st', outs) = room_good cfg st (st', outs)"
  by (simp add: room_good_def)

lemma room_good_stay: "rooms_ok cfg st \<Longrightarrow> quiet outs \<Longrightarrow> room_good cfg st (st, outs)"
  by (simp add: room_good_def follow_quiet)

lemma room_good_close:
  assumes "rooms_ok cfg st"
  shows "room_good cfg st (closeRoom i st)"
proof (cases "map_of (rs_rooms st) i")
  case None
  then show ?thesis using assms by (simp add: closeRoom_def room_good_refl)
next
  case (Some r)
  have "rooms_ok cfg (fst (closeRoom i st))" using assms by (auto simp: closeRoom_def Some rooms_ok_def distinct_delete delete_conv' split: if_splits)
  then show ?thesis by (auto simp: closeRoom_def Some room_good_def settling_def delete_conv')
qed

lemma room_good_settle:
  assumes ok: "rooms_ok cfg st" and r: "room_ok cfg (ow_Shard (rs_o st)) i r" and s: "settling st i \<longleftrightarrow> rm_State r = RoomStateSettling"
    and m: "map_of (rs_rooms st) i = Some r"
  shows "room_good cfg st (room_settle now i r st)"
proof (cases "rm_settled r \<or> rm_State r = RoomStateSettling")
  case True
  then show ?thesis using ok by (simp add: room_settle_def room_good_refl)
next
  case False
  let ?r = "r\<lparr>rm_settled := True, rm_State := RoomStateSettling\<rparr>"
  have "room_ok cfg (ow_Shard (rs_o st)) i ?r" using r by (simp add: room_ok_def room_wf_def)
  then have "rooms_ok cfg (put_room i ?r st)" using rooms_ok_put [OF ok] by blast
  moreover have "rm_ID r = i" using r by (simp add: room_ok_def)
  ultimately show ?thesis using False s by (auto simp: room_settle_def Let_def room_good_def follow_append follow_quiet settling_put)
qed

section \<open>Every operation keeps the rooms in order\<close>

lemma room_Start_cases: "room_Start now r = (r', True) \<longleftrightarrow> rm_State r = RoomStateWaiting \<and> rm_Members r \<noteq> [] \<and> r' = r\<lparr>rm_State := RoomStateBattling, rm_StartedAt := Some now, rm_Frame := 0\<rparr>"
  by (auto simp: room_Start_def)

lemma handleCreate_good:
  assumes "rooms_ok cfg st" "\<And>req. oreq = Some req \<Longrightarrow> cr_MaxPlayer req < 2 ^ 32"
  shows "room_good cfg st (handleCreate cfg now tr oreq st)"
proof (cases oreq)
  case (Some req)
  let ?i = "cr_RoomId req" and ?r = "NewRoom (cr_RoomId req) (cr_Mode req) (cr_MaxPlayer req) (cr_Members req) now"
  have wf: "room_wf ?r" "rm_ID ?r = ?i" "rm_State ?r = RoomStateWaiting" "\<not> rm_settled ?r" using NewRoom_wf [OF assms(2) [OF Some], of "cr_RoomId req"] by blast+
  show ?thesis
  proof (cases "?i \<noteq> 0 \<and> shard_Of ?i (rc_ShardCount cfg) = ow_Shard (rs_o st) \<and> map_of (rs_rooms st) ?i = None")
    case True
    then have "room_good cfg st (put_room ?i ?r st, [IndexRoom ?i, RoomCreated ?i] @ broadcastRoom ?r PushRoomEvent (BodySnapshot (Snapshot ?r)) tr)"
      using wf assms(1) by (intro room_good_put) (auto simp: room_ok_def settling_def)
    then show ?thesis using True by (simp add: handleCreate_def Some Let_def room_good_mark)
  next
    case False
    then show ?thesis using assms(1) by (auto simp: handleCreate_def Some Let_def intro: room_good_stay)
  qed
qed (simp add: handleCreate_def room_good_stay assms)


lemma handleJoin_good:
  assumes "rooms_ok cfg st"
  shows "room_good cfg st (handleJoin now u tr oreq st)"
proof (cases "\<exists>i ru r r'. oreq = Some (i, ru) \<and> map_of (rs_rooms st) i = Some r \<and> \<not> room_Has (the_uid ru u) r \<and> room_Join (the_uid ru u) r = (r', True)")
  case True
  then obtain i ru r r' where h: "oreq = Some (i, ru)" "map_of (rs_rooms st) i = Some r" "\<not> room_Has (the_uid ru u) r" "room_Join (the_uid ru u) r = (r', True)" by blast
  have "room_ok cfg (ow_Shard (rs_o st)) i r'" "rm_State r' = rm_State r"
    using rooms_ok_of [OF assms h(2)] room_wf_Join [of r "the_uid ru u"] room_Join_keeps [of "the_uid ru u" r] by (auto simp: room_ok_def h(4))
  then have "room_good cfg st (put_room i r' st, RoomSnap (Snapshot r') # broadcastRoom r' PushRoomEvent (BodySnapshot (Snapshot r')) tr)"
    using h(2) assms by (intro room_good_put) (auto simp: settling_def)
  then show ?thesis using h by (simp add: handleJoin_def Let_def room_good_mark)
next
  case False
  then show ?thesis using assms
    by (auto simp: handleJoin_def Let_def split: option.split prod.split bool.split intro!: room_good_stay)
qed

lemma handleLeave_good:
  assumes "rooms_ok cfg st"
  shows "room_good cfg st (handleLeave now u tr oreq st)"
proof (cases "\<exists>i ru r r'. oreq = Some (i, ru) \<and> map_of (rs_rooms st) i = Some r \<and> room_Leave (the_uid ru u) r = (r', True)")
  case True
  then obtain i ru r r' where h: "oreq = Some (i, ru)" "map_of (rs_rooms st) i = Some r" "room_Leave (the_uid ru u) r = (r', True)" by blast
  have r': "room_ok cfg (ow_Shard (rs_o st)) i r'" "rm_State r' = rm_State r" "rm_ID r = i"
    using rooms_ok_of [OF assms h(2)] room_wf_Leave [of r "the_uid ru u"] room_Leave_keeps [of "the_uid ru u" r] by (auto simp: room_ok_def h(3))
  define st1 where "st1 = room_shard_mark now i (put_room i r' st)"
  have g: "room_good cfg st (st1, RoomAck # outs)" if "quiet outs" for outs
    unfolding st1_def room_good_mark using r' h(2) assms that by (intro room_good_put) (auto simp: settling_def)
  have c: "room_good cfg st1 (closeRoom i st1)" using g [of "[]"] by (intro room_good_close) (simp add: room_good_def)
  have "room_good cfg st (fst (closeRoom i st1), RoomAck # snd (closeRoom i st1))"
    using room_good_trans [OF g [of "[]"], of "fst (closeRoom i st1)" "snd (closeRoom i st1)"] c by simp
  then show ?thesis using h g [of "broadcastRoom r' PushRoomEvent (BodySnapshot (Snapshot r')) tr"] r'(3)
    by (simp add: handleLeave_def Let_def split_beta flip: st1_def)
next
  case False
  then show ?thesis using assms
    by (auto simp: handleLeave_def Let_def split: option.split prod.split bool.split intro!: room_good_stay)
qed

lemma handleStart_good:
  assumes "rooms_ok cfg st"
  shows "room_good cfg st (handleStart now tr oreq st)"
proof (cases "\<exists>req r r'. oreq = Some req \<and> map_of (rs_rooms st) (ro_RoomId req) = Some r \<and> room_Start now r = (r', True)")
  case True
  then obtain req r r' where h: "oreq = Some req" "map_of (rs_rooms st) (ro_RoomId req) = Some r" "room_Start now r = (r', True)" by blast
  have "room_ok cfg (ow_Shard (rs_o st)) (ro_RoomId req) r'" "rm_State r' = RoomStateBattling" "rm_State r = RoomStateWaiting"
    using rooms_ok_of [OF assms h(2)] h(3) by (auto simp: room_ok_def room_wf_def room_Start_cases)
  then have "room_good cfg st (put_room (ro_RoomId req) r' st, RoomAck # broadcastRoom r' PushRoomEvent (BodySnapshot (Snapshot r')) tr)"
    using h(2) assms by (intro room_good_put) (auto simp: settling_def)
  then show ?thesis using h by (simp add: handleStart_def Let_def room_good_mark)
next
  case False
  then show ?thesis using assms
    by (auto simp: handleStart_def Let_def split: option.split prod.split bool.split intro!: room_good_stay)
qed

lemma room_good_append: "room_good cfg st so \<Longrightarrow> quiet outs \<Longrightarrow> room_good cfg st (fst so, snd so @ outs)"
  by (simp add: room_good_def follow_append follow_quiet)

lemma handleOp_good:
  assumes "rooms_ok cfg st"
  shows "room_good cfg st (handleOp now u tr oreq st)"
proof (cases "\<exists>req r. oreq = Some req \<and> map_of (rs_rooms st) (ro_RoomId req) = Some r \<and> room_Has (the_uid (ro_Uid req) u) r \<and> rm_State r = RoomStateBattling")
  case True
  then obtain req r where h: "oreq = Some req" "map_of (rs_rooms st) (ro_RoomId req) = Some r" "room_Has (the_uid (ro_Uid req) u) r" "rm_State r = RoomStateBattling" by blast
  note r = rooms_ok_of [OF assms h(2)]
  have s: "settling st (ro_RoomId req) \<longleftrightarrow> rm_State r = RoomStateSettling" using h(2) by (simp add: settling_def)
  define so where "so = (if ro_Op req = OpScore
      then (put_room (ro_RoomId req) (fst (AddScore (the_uid (ro_Uid req) u) (i64 (int (length (ro_Payload req)) + 1)) r)) st, [])
      else if ro_Op req = OpFinish then room_settle now (ro_RoomId req) r st else (st, []))"
  have "room_good cfg st so"
    using r s room_good_settle [OF assms r s h(2)] assms
    by (auto simp: so_def intro!: room_good_put room_good_refl) (auto simp: room_ok_def room_wf_def AddScore_def Let_def)
  from room_good_append [OF this, of "[RoomAck] @ (if ro_Op req \<noteq> OpFinish then broadcastRoom r PushRoomEvent (BodyOp (rm_ID r) (ro_Op req) (ro_Payload req)) tr else [])"]
  show ?thesis using h by (simp add: handleOp_def Let_def split_beta flip: so_def)
next
  case False
  then show ?thesis using assms by (auto simp: handleOp_def Let_def split: option.split intro!: room_good_stay)
qed

lemma room_Handle_good:
  assumes "rooms_ok cfg st" "event_ok (EvMsg now m)"
  shows "room_good cfg st (room_Handle cfg now m st)"
proof -
  have "room_good cfg st (handleCreate cfg now (xm_trace m) (xm_create m) st)"
    using assms by (intro handleCreate_good) (auto split: option.splits)
  moreover have "room_good cfg st (handleInfo (xm_op m) st)"
    using assms(1) by (auto simp: handleInfo_def split: option.split intro!: room_good_stay)
  ultimately show ?thesis
    using handleJoin_good [OF assms(1)] handleLeave_good [OF assms(1)] handleStart_good [OF assms(1)] handleOp_good [OF assms(1)] assms(1)
    by (simp add: room_Handle_def room_good_stay)
qed


lemma tick_room_good:
  assumes "room_good cfg st so"
  shows "room_good cfg st (tick_room now i so)"
proof (cases "\<exists>r. map_of (rs_rooms (fst so)) i = Some r \<and> rm_State r = RoomStateBattling")
  case True
  then obtain r where r: "map_of (rs_rooms (fst so)) i = Some r" "rm_State r = RoomStateBattling" by blast
  have ok: "rooms_ok cfg (fst so)" using assms by (simp add: room_good_def)
  let ?r = "r\<lparr>rm_Frame := u32 (rm_Frame r + 1)\<rparr>"
  define st1 where "st1 = put_room i ?r (fst so)"
  have rk: "room_ok cfg (ow_Shard (rs_o (fst so))) i ?r" using rooms_ok_of [OF ok r(1)] by (simp add: room_ok_def room_wf_def)
  have g: "room_good cfg (fst so) (st1, [])" unfolding st1_def using rk ok r by (intro room_good_put) (simp_all add: settling_def)
  have "room_good cfg st1 (room_settle now i ?r st1)"
  proof (rule room_good_settle)
    show "rooms_ok cfg st1" using g by (simp add: room_good_def)
    show "map_of (rs_rooms st1) i = Some ?r" by (simp add: st1_def)
    then show "settling st1 i \<longleftrightarrow> rm_State ?r = RoomStateSettling" by (simp add: settling_def)
    show "room_ok cfg (ow_Shard (rs_o st1)) i ?r" using rk by (simp add: st1_def)
  qed
  then have "room_good cfg st1 (fst (room_settle now i ?r st1), snd (room_settle now i ?r st1))" by simp
  from room_good_trans [OF g this] have "room_good cfg (fst so) (fst (room_settle now i ?r st1), snd (room_settle now i ?r st1))" by simp
  then have "room_good cfg st (fst (room_settle now i ?r st1), snd so @ snd (room_settle now i ?r st1))" "room_good cfg st (st1, snd so)"
    using room_good_trans [of cfg st "fst so" "snd so" "fst (room_settle now i ?r st1)"] room_good_trans [of cfg st "fst so" "snd so" st1 "[]"] assms g by auto
  then show ?thesis using r by (simp add: tick_room_def Let_def split_beta st1_def)
next
  case False
  then show ?thesis using assms by (auto simp: tick_room_def split: option.split)
qed

lemma fold_good: "(\<And>x so. room_good cfg st so \<Longrightarrow> room_good cfg st (f x so)) \<Longrightarrow> room_good cfg st so \<Longrightarrow> room_good cfg st (fold f xs so)"
  by (rule fold_invariant) simp_all

lemma gc_good: "rooms_ok cfg st \<Longrightarrow> room_good cfg st (gc now st)"
  unfolding gc_def
proof (rule fold_good)
  fix i so
  assume g: "room_good cfg st so"
  then have "room_good cfg (fst so) (closeRoom i (fst so))" by (intro room_good_close) (simp add: room_good_def)
  then show "room_good cfg st (case closeRoom i (fst so) of (st', outs) \<Rightarrow> (st', snd so @ outs))"
    using room_good_trans [of cfg st "fst so" "snd so"] g by (simp add: split_beta)
qed (rule room_good_refl)

text \<open>Flushing and flush results leave the rooms alone.\<close>

lemma build_rooms_rooms: "rs_rooms (fst (build_rooms C ks now items st)) = rs_rooms st \<and> rs_o (fst (build_rooms C ks now items st)) = rs_o st
    \<and> rs_nextGC (fst (build_rooms C ks now items st)) = rs_nextGC st"
proof (induction items arbitrary: st)
  case (Cons x items)
  obtain i t where "x = (i, t)" by (cases x)
  then show ?case using Cons [of st] Cons [of "room_shard_mark now i st"] by (auto simp: room_shard_mark_def split: option.split prod.split)
qed simp

lemma room_flush_rooms: "rs_rooms (fst (room_flush C ks cfg now stf)) = rs_rooms (fst stf) \<and> rs_o (fst (room_flush C ks cfg now stf)) = rs_o (fst stf)
    \<and> rs_nextGC (fst (room_flush C ks cfg now stf)) = rs_nextGC (fst stf)"
proof -
  obtain items d where t: "room_take (rc_FlushBatchSize cfg) (rs_dirty (fst stf)) = (items, d)" by fastforce
  define st0 where "st0 = fst stf\<lparr>rs_dirty := d\<rparr>"
  obtain st1 ents where b: "build_rooms C ks now items st0 = (st1, ents)" by fastforce
  have "rs_rooms st1 = rs_rooms (fst stf) \<and> rs_o st1 = rs_o (fst stf) \<and> rs_nextGC st1 = rs_nextGC (fst stf)"
    using build_rooms_rooms [of C ks now items st0] by (simp add: b) (simp add: st0_def)
  then show ?thesis
    by (simp add: room_flush_def t Let_def room_buildBatch_def b flip: st0_def split: prod.split sum.split unit.split) (simp add: st0_def)
qed

lemma room_good_cong: "rs_rooms st' = rs_rooms st1 \<Longrightarrow> rs_o st' = rs_o st1 \<Longrightarrow> room_good cfg st (st', outs) = room_good cfg st (st1, outs)"
  by (simp add: room_good_def rooms_ok_def settling_def)

lemma room_Tick_good:
  assumes "rooms_ok cfg (fst stf)"
  shows "room_good cfg (fst stf) (fst (fst (room_Tick C ks cfg now stf)), snd (room_Tick C ks cfg now stf))"
proof (cases "rs_closed (fst stf)")
  case False
  define st where "st = fst stf"
  obtain st1 o1 where t: "fold (tick_room now) (map fst (rs_rooms st)) (st, []) = (st1, o1)" by fastforce
  have g1: "room_good cfg st (st1, o1)" unfolding t [symmetric] using assms by (intro fold_good tick_room_good room_good_refl) (simp_all add: st_def)
  define fl where "fl = (if now > rs_nextFlush st1 then room_flush C ks cfg now (st1\<lparr>rs_nextFlush := now + rc_FlushL1Interval cfg\<rparr>, snd stf) else (st1, snd stf))"
  have "rs_rooms (fst fl) = rs_rooms st1" "rs_o (fst fl) = rs_o st1" using room_flush_rooms [of C ks cfg now "(st1\<lparr>rs_nextFlush := now + rc_FlushL1Interval cfg\<rparr>, snd stf)"]
    by (simp_all add: fl_def)
  then have g2: "room_good cfg st (fst fl, o1)" using g1 room_good_cong by blast
  define st2 where "st2 = (if now > rs_nextGC (fst fl) then fst fl\<lparr>rs_nextGC := now + 30 * 1000000000\<rparr> else fst fl)"
  have g2': "room_good cfg st (st2, o1)" using g2 room_good_cong [of st2 "fst fl" cfg st o1] by (simp add: st2_def)
  then have ok2: "rooms_ok cfg st2" by (simp add: room_good_def)
  define so where "so = (if now > rs_nextGC (fst fl) then gc now st2 else (fst fl, []))"
  have "room_good cfg st2 (fst so, snd so)" using gc_good [OF ok2, of now] ok2 by (auto simp: so_def st2_def intro: room_good_refl)
  then have "room_good cfg st (fst so, o1 @ snd so)" by (rule room_good_trans [OF g2'])
  moreover have "room_Tick C ks cfg now stf = ((fst so, snd fl), o1 @ snd so)"
    using False t by (simp add: room_Tick_def split_beta so_def st2_def fl_def flip: st_def)
  ultimately show ?thesis by (simp add: st_def)
qed (simp add: room_Tick_def room_good_refl assms)

lemma room_step_good:
  assumes "rooms_ok cfg (fst stf)" "event_ok ev"
  shows "room_good cfg (fst stf) (fst (fst (room_step C ks cfg ev stf)), snd (room_step C ks cfg ev stf))"
proof (cases ev)
  case (EvMsg now m)
  then show ?thesis using room_Handle_good [OF assms(1), of now m] assms(2) by (simp add: split_beta)
next
  case (EvTick now)
  then show ?thesis using room_Tick_good [OF assms(1)] by simp
next
  case (EvResult now res)
  have "rs_rooms (room_OnFlushResult now res (fst stf)) = rs_rooms (fst stf)" "rs_o (room_OnFlushResult now res (fst stf)) = rs_o (fst stf)"
    by (simp_all add: room_OnFlushResult_def split: option.split)
  from room_good_cong [OF this] room_good_refl [OF assms(1)] show ?thesis by (simp add: EvResult)
qed

lemma room_run_good:
  assumes "rooms_ok cfg (fst stf)" "list_all event_ok evs"
  shows "room_good cfg (fst stf) (fst (fst (room_run C ks cfg evs stf)), snd (room_run C ks cfg evs stf))"
  using assms
proof (induction evs arbitrary: stf)
  case (Cons ev evs)
  obtain stf1 o1 where s: "room_step C ks cfg ev stf = (stf1, o1)" by fastforce
  have g: "room_good cfg (fst stf) (fst stf1, o1)" using room_step_good [of cfg stf ev C ks] Cons.prems by (simp add: s)
  then have "rooms_ok cfg (fst stf1)" by (simp add: room_good_def)
  then show ?case using Cons.IH [of stf1] Cons.prems(2) room_good_trans [OF g] by (simp add: s split_beta)
qed (simp add: room_good_refl)


section \<open>Settlement\<close>

lemma follow_settled: "follow i True (ys @ SettleJobs i ms res # zs) = Some b \<Longrightarrow> DeleteRoom i \<in> set ys"
proof (induction i "True" ys rule: follow.induct)
  case (3 i j outs)
  then show ?case by (cases "j = i") simp_all
qed (simp_all split: if_splits)

lemma follow_twice: "follow i b (xs @ SettleJobs i ms res # ys @ SettleJobs i ms' res' # zs) = Some b' \<Longrightarrow> DeleteRoom i \<in> set ys"
  using follow_settled [of i ys ms' res' zs b'] by (auto simp: follow_append [of i b xs] bind_eq_Some_conv split: if_splits)

text \<open>C29: A battle is settled at most once. In any run of a shard, from any state in which its rooms are in order, whatever requests arrive, whenever it ticks and
  whatever flush results come back: between two settlements under the same room number the room was closed and deleted; and
  a room that is being settled at the start is not settled again before it is deleted.\<close>

theorem battle_is_settled_at_most_once:
  assumes "rooms_ok cfg st" "list_all event_ok evs" "room_run C ks cfg evs (st, f) = (stf', outs)"
  shows "(\<forall>xs ms res ys ms' res' zs. outs = xs @ SettleJobs i ms res # ys @ SettleJobs i ms' res' # zs \<longrightarrow> DeleteRoom i \<in> set ys)
    \<and> (\<forall>ys ms res zs. settling st i \<and> outs = ys @ SettleJobs i ms res # zs \<longrightarrow> DeleteRoom i \<in> set ys)"
proof -
  have f: "follow i (settling st i) outs = Some (settling (fst stf') i)"
    using room_run_good [of cfg "(st, f)" evs C ks] assms by (simp add: room_good_def)
  then show ?thesis using follow_twice follow_settled by auto
qed

text \<open>C30: The rooms of a shard stay in order. Whatever requests, ticks and flush results a shard sees: every room is filed under its own number and belongs to the shard, no
  player is in a room twice, no room has more members than its limit, and a settled room is in the settling state.\<close>

theorem rooms_stay_in_order:
  assumes "rooms_ok cfg st" "list_all event_ok evs"
  shows "rooms_ok cfg (fst (fst (room_run C ks cfg evs (st, f))))"
  using room_run_good [of cfg "(st, f)" evs C ks] assms by (simp add: room_good_def)

lemma settle_out:
  assumes "rm_State r \<noteq> RoomStateSettling" "\<not> rm_settled r" "rm_ID r = i"
  shows "\<exists>res. SettleJobs i (rm_Members r) res \<in> set (snd (room_settle now i r st))"
  using assms by (auto simp: room_settle_def Let_def)






lemma battle_msgID_inject [simp]: "battle_msgID a b = battle_msgID a' b' \<longleftrightarrow> a = a' \<and> b = b'"
  using append_sep_inject [of "CHR ''-''" "show_nat a" "show_nat a'" "show_nat b" "show_nat b'"] show_nat_no_minus by (auto simp: battle_msgID_def)



section \<open>Handing the rooms over\<close>

context redis_api
begin

lemma exec_frame:
  assumes "k \<notin> \<Union> (entity_keys ` set (b_Entities b))" "keeps_keys R {k} sch"
  shows "view R (fst (exec_all sch (batch_cmds R ks b) s)) k = view R s k"
proof -
  have "preserves (\<lambda>x. view R x k = view R s k) (cmd_effects (batch_cmds R ks b))"
    using assms(1) entity_cmds_frame by (fastforce simp: preserves_def batch_cmds_def)
  moreover have "preserves (\<lambda>x. view R x k = view R s k) (others sch)" using assms(2) by (auto simp: preserves_def keeps_keys_def)
  ultimately show ?thesis by (rule exec_all_stable) simp
qed

lemma write_frame:
  assumes "flusher_write R ks w b s = (s', res)" "k \<notin> \<Union> (entity_keys ` set (b_Entities b))" "keeps_keys R {k} (w_first w @ w_second w)"
  shows "view R s' k = view R s k"
proof -
  obtain sch ex s0 where p: "pipeline R ks sch ex b s0 = (s', r_Failed res, r_Fenced res, r_Err res)"
    and cs: "(sch = w_first w \<and> s0 = s) \<or> (sch = w_second w \<and> s0 = fst (exec_all (w_first w) (batch_cmds R ks b) s))"
    by (rule write_is_pipeline [OF assms(1)])
  have "s' = fst (exec_all sch (batch_cmds R ks b) s0)" using p by (auto simp: pipeline_def Let_def batch_cmds_def split: prod.splits)
  then show ?thesis using exec_frame [OF assms(2)] assms(3) cs by auto
qed

lemma write_stores:
  assumes "flusher_write R ks w b s = (s', res)" "batch_keys_ok b" "keeps_keys R (\<Union> (entity_keys ` set (b_Entities b))) (w_first w @ w_second w)"
    "e \<in> set (b_Entities b)" "e \<notin> set (r_Failed res)"
  shows "entity_stored R e s'"
proof -
  obtain sch ex s0 where p: "pipeline R ks sch ex b s0 = (s', r_Failed res, r_Fenced res, r_Err res)" and sch: "sch = w_first w \<or> sch = w_second w"
    by (rule write_is_pipeline [OF assms(1)]) blast
  have "keeps_keys R (\<Union> (entity_keys ` set (b_Entities b))) sch" using assms(3) sch by auto
  then show ?thesis using pipeline_stores [OF assms(2) _ p assms(4,5)] by blast
qed

end

definition room_entity :: "room_codec \<Rightarrow> keys \<Rightarrow> (nat \<Rightarrow> Room option) \<Rightarrow> nat \<times> int \<Rightarrow> entity" where
  "room_entity C ks rooms it = \<lparr>e_ID = fst it, e_Keys = [(keys_Room ks (fst it), the (room_Marshal C (the (rooms (fst it)))))], e_Hash = None, e_Modules = [], e_DirtyAt = snd it\<rparr>"

lemma build_rooms_total:
  assumes "\<And>i r. map_of (rs_rooms st) i = Some r \<Longrightarrow> room_Marshal C r \<noteq> None"
  shows "build_rooms C ks now items st = (st, map (room_entity C ks (map_of (rs_rooms st))) (filter (\<lambda>it. map_of (rs_rooms st) (fst it) \<noteq> None) items))"
proof (induction items)
  case (Cons x items)
  obtain i t where x: "x = (i, t)" by (cases x)
  show ?case
  proof (cases "map_of (rs_rooms st) i")
    case (Some r)
    then obtain b where "room_Marshal C r = Some b" using assms by fastforce
    then show ?thesis using Cons Some by (simp add: x room_entity_def)
  qed (simp add: x Cons)
qed simp

lemma room_keys_inject [simp]: "keys_Room ks i = keys_Room ks j \<longleftrightarrow> i = j" "keys_Room ks i \<noteq> keys_RoomIndex ks sh"
  by (simp_all add: keys_as_render)

lemma room_keys_image: "keys_Room ks i \<in> keys_Room ks ` X \<longleftrightarrow> i \<in> X"
  by auto

text \<open>What Redis holds of a room is as good as the room itself for a new owner.\<close>

definition saved :: "'r redis \<Rightarrow> room_codec \<Rightarrow> keys \<Rightarrow> 'r \<Rightarrow> nat \<Rightarrow> Room \<Rightarrow> bool" where
  "saved R C ks s i r \<longleftrightarrow> (\<exists>b sn. GET R s (keys_Room ks i) = Some b \<and> dec_room C b = Some sn \<and> sn_RoomId sn = i \<and> FromSnapshot sn = FromSnapshot (Snapshot r))"

lemma saved_cong: "view R s' (keys_Room ks i) = view R s (keys_Room ks i) \<Longrightarrow> saved R C ks s' i r = saved R C ks s i r"
  by (simp add: saved_def view_def)

lemma saved_stored:
  assumes "room_codec_ok C" "room_Marshal C r = Some bl" "GET R s (keys_Room ks i) = Some bl" "rm_ID r = i"
  shows "saved R C ks s i r"
proof -
  have "dec_room C bl = Some (Snapshot r)" using assms(1,2) by (simp add: room_codec_ok_def room_Marshal_def)
  moreover have "sn_RoomId (Snapshot r) = i" using assms(4) by (simp add: Snapshot_def)
  ultimately show ?thesis unfolding saved_def using assms(3) by blast
qed

text \<open>A successful flush of everything writes one entity for every dirty room.\<close>

lemma FlushAllSync_writes:
  assumes tot: "\<And>i r. map_of (rs_rooms st) i = Some r \<Longrightarrow> room_Marshal C r \<noteq> None"
    and fl: "room_FlushAllSync R C ks w now (st, s) = ((st', s'), None)"
    and its: "its = filter (\<lambda>it. map_of (rs_rooms st) (fst it) \<noteq> None) (rs_dirty st)"
  obtains "its = []" "s' = s"
  | b res where "its \<noteq> []" "flusher_write R ks w b s = (s', res)" "r_Failed res = []" "b_Entities b = map (room_entity C ks (map_of (rs_rooms st))) its"
proof -
  define st0 where "st0 = st\<lparr>rs_dirty := []\<rparr>"
  have b0: "build_rooms C ks now (rs_dirty st) st0 = (st0, map (room_entity C ks (map_of (rs_rooms st))) its)"
    using build_rooms_total [of st0 C ks now "rs_dirty st"] tot by (simp add: st0_def its)
  show thesis
  proof (cases "its = []")
    case True
    then have "s' = s" using fl b0 by (auto simp: room_FlushAllSync_def room_buildBatch_def Let_def simp flip: st0_def split: if_splits)
    then show thesis using True that(1) by blast
  next
    case False
    then have ne: "rs_dirty st \<noteq> []" by (auto simp: its)
    define b where "b = \<lparr>b_Shard = ow_Shard (rs_o st0), b_Epoch = ow_Epoch (rs_o st0), b_Level = L1, b_Entities = map (room_entity C ks (map_of (rs_rooms st))) its\<rparr>"
    have e: "b_Entities b = map (room_entity C ks (map_of (rs_rooms st))) its" by (simp add: b_def)
    have bb: "room_buildBatch C ks now (rs_dirty st) st0 = (st0, Some b)" using False by (simp add: room_buildBatch_def b0 b_def)
    obtain s1 res where w: "flusher_write R ks w b s = (s1, res)" by fastforce
    then have "SubmitSync R ks w (Some b) s = (s1, res)" using e False by (simp add: SubmitSync_def Let_def)
    then have "s1 = s' \<and> r_Failed res = []"
      using fl ne bb by (auto simp: room_FlushAllSync_def Let_def simp flip: st0_def split: if_splits option.splits)
    then show thesis using that(2) False w e by blast
  qed
qed

lemma room_entities_ok:
  assumes "b_Entities b = map (room_entity C ks rooms) its" "distinct (map fst its)"
  shows "batch_keys_ok b \<and> \<Union> (entity_keys ` set (b_Entities b)) = keys_Room ks ` fst ` set its"
proof
  have k: "entity_keys (room_entity C ks rooms it) = {keys_Room ks (fst it)}" for it by (simp add: entity_keys_def room_entity_def)
  show "\<Union> (entity_keys ` set (b_Entities b)) = keys_Room ks ` fst ` set its" by (auto simp: assms(1) k)
  have i: "it = it'" if "it \<in> set its" "it' \<in> set its" "fst it = fst it'" for it it'
    using assms(2) that unfolding distinct_map inj_on_def by blast
  have "entity_keys (room_entity C ks rooms it) \<inter> entity_keys (room_entity C ks rooms it') = {}"
    if "it \<in> set its" "it' \<in> set its" "room_entity C ks rooms it' \<noteq> room_entity C ks rooms it" for it it' unfolding k using i [OF that(1,2)] that(3) by auto
  moreover have "distinct (map fst (e_Keys (room_entity C ks rooms it)))" "e_Hash (room_entity C ks rooms it) = None" for it by (simp_all add: room_entity_def)
  ultimately show "batch_keys_ok b" unfolding batch_keys_ok_def assms(1) by auto
qed
lemma FlushAllSync_saves:
  assumes api: "redis_api R" and C: "room_codec_ok C" and ok: "rooms_ok cfg st" and dd: "distinct (map fst (rs_dirty st))"
    and tot: "\<And>i r. map_of (rs_rooms st) i = Some r \<Longrightarrow> room_Marshal C r \<noteq> None"
    and sv: "\<And>i r. map_of (rs_rooms st) i = Some r \<Longrightarrow> i \<notin> fst ` set (rs_dirty st) \<Longrightarrow> saved R C ks s i r"
    and fl: "room_FlushAllSync R C ks w now (st, s) = ((st', s'), None)"
    and q: "keeps_keys R (insert (keys_RoomIndex ks sh) (keys_Room ks ` dom (map_of (rs_rooms st)))) (w_first w @ w_second w)"
  shows "(\<forall>i r. map_of (rs_rooms st) i = Some r \<longrightarrow> saved R C ks s' i r) \<and> view R s' (keys_RoomIndex ks sh) = view R s (keys_RoomIndex ks sh)"
proof -
  define rooms where "rooms = map_of (rs_rooms st)"
  define its where "its = filter (\<lambda>it. map_of (rs_rooms st) (fst it) \<noteq> None) (rs_dirty st)"
  have clean: "i \<notin> fst ` set (rs_dirty st)" if "rooms i = Some r" "i \<notin> fst ` set its" for i r
    using that by (fastforce simp: its_def rooms_def)
  show ?thesis
  proof (rule FlushAllSync_writes [OF tot fl its_def])
    assume "its = []" "s' = s"
    then show ?thesis using sv clean by (simp add: rooms_def)
  next
    fix b res
    assume 2: "its \<noteq> []" "flusher_write R ks w b s = (s', res)" "r_Failed res = []" "b_Entities b = map (room_entity C ks (map_of (rs_rooms st))) its"
    have dits: "distinct (map fst its)" using dd by (simp add: its_def distinct_map_filter)
    note ek = room_entities_ok [OF 2(4) dits, THEN conjunct2]
    have qk: "keeps_keys R X (w_first w @ w_second w)" if "X \<subseteq> insert (keys_RoomIndex ks sh) (keys_Room ks ` dom rooms)" for X
      using q that unfolding keeps_keys_def rooms_def by blast
    have sub: "fst ` set its \<subseteq> dom rooms" by (auto simp: its_def rooms_def)
    have "saved R C ks s' i r" if r: "rooms i = Some r" for i r
    proof (cases "i \<in> fst ` set its")
      case True
      then obtain t where it: "(i, t) \<in> set its" by force
      have "entity_stored R (room_entity C ks rooms (i, t)) s'"
      proof (rule redis_api.write_stores [OF api 2(2) room_entities_ok [OF 2(4) dits, THEN conjunct1]])
        show "keeps_keys R (\<Union> (entity_keys ` set (b_Entities b))) (w_first w @ w_second w)" unfolding ek using sub by (intro qk) auto
      qed (use it 2(3,4) in \<open>simp_all add: rooms_def\<close>)
      moreover obtain bl where bl: "room_Marshal C r = Some bl" using tot r by (fastforce simp: rooms_def)
      ultimately have "GET R s' (keys_Room ks i) = Some bl" using r by (simp add: entity_stored_def keys_stored_def room_entity_def)
      then show ?thesis by (rule saved_stored [OF C bl]) (use rooms_ok_of [OF ok] r in \<open>simp add: rooms_def room_ok_def\<close>)
    next
      case no: False
      have "view R s' (keys_Room ks i) = view R s (keys_Room ks i)"
      proof (rule redis_api.write_frame [OF api 2(2)])
        show "keys_Room ks i \<notin> \<Union> (entity_keys ` set (b_Entities b))" unfolding ek room_keys_image by (rule no)
        show "keeps_keys R {keys_Room ks i} (w_first w @ w_second w)" using r by (intro qk) auto
      qed
      then show ?thesis using saved_cong [of R s' ks i s C r] sv [OF r [unfolded rooms_def] clean [OF r no]] by simp
    qed
    moreover have "view R s' (keys_RoomIndex ks sh) = view R s (keys_RoomIndex ks sh)"
    proof (rule redis_api.write_frame [OF api 2(2)])
      show "keys_RoomIndex ks sh \<notin> \<Union> (entity_keys ` set (b_Entities b))" unfolding ek using room_keys_inject(2) [of ks _ sh] by (metis imageE)
      show "keeps_keys R {keys_RoomIndex ks sh} (w_first w @ w_second w)" by (intro qk) auto
    qed
    ultimately show ?thesis by (simp add: rooms_def)
  qed
qed

lemma scan_uint_show: "i < 2 ^ 64 \<Longrightarrow> scan_uint (show_nat i) = Some i"
proof -
  assume i: "i < 2 ^ 64"
  have d: "48 \<le> byte_of c \<and> byte_of c \<le> 57" if "c \<in> set (show_nat i)" for c using show_nat_digits [OF that] by auto
  have "dropWhile (\<lambda>c. c = CHR '' '') (show_nat i) = show_nat i"
    using d [of "hd (show_nat i)"] show_nat_nonempty [of i] by (cases "show_nat i") auto
  moreover have "takeWhile (\<lambda>c. 48 \<le> byte_of c \<and> byte_of c \<le> 57) (show_nat i) = show_nat i" using d by (simp only: takeWhile_eq_all_conv) blast
  ultimately show ?thesis unfolding scan_uint_def by (simp only: go_ParseUint_show [OF i])
qed

lemma restored_rooms:
  assumes "\<And>raw. raw \<in> set raws \<Longrightarrow> \<exists>i b sn. raw = show_nat i \<and> i < 2 ^ 64 \<and> GET R s (keys_Room ks i) = Some b \<and> dec_room C b = Some sn \<and> sn_RoomId sn = i \<and> FromSnapshot sn = g i"
  shows "\<not> pipe_err (room_cmds R ks (\<lambda>_. True) raws s) \<and> stale_ids (room_cmds R ks (\<lambda>_. True) raws s) = []
    \<and> map_of (restored C (room_cmds R ks (\<lambda>_. True) raws s)) j = (if show_nat j \<in> set raws then Some (g j) else None)"
  using assms
proof (induction raws rule: rev_induct)
  case Nil
  then show ?case by (simp add: room_cmds_def restored_def stale_ids_def List.map_filter_def)
next
  case (snoc raw raws)
  obtain i b sn where r: "raw = show_nat i" "i < 2 ^ 64" "GET R s (keys_Room ks i) = Some b" "dec_room C b = Some sn" "sn_RoomId sn = i" "FromSnapshot sn = g i"
    using snoc.prems [of raw] by auto
  have c: "room_cmds R ks (\<lambda>_. True) (raws @ [raw]) s = room_cmds R ks (\<lambda>_. True) raws s @ [(show_nat i, Some b, True)]"
    using r by (simp add: room_cmds_def List.map_filter_def scan_uint_show)
  have p: "pipe_err (cs @ [(show_nat i, Some b, True)]) = pipe_err cs" for cs :: "(bytes \<times> bytes option \<times> bool) list"
    by (induction cs rule: pipe_err.induct) simp_all
  show ?case using snoc.IH snoc.prems r unfolding c p by (simp add: restored_def stale_ids_def update_conv')
qed

text \<open>C32: A graceful handover loses no room. If the flush at the end reports success, every room that was not dirty was saved, and the index of the shard lists exactly
  its rooms, then the next owner, when its reads get through, has exactly the rooms of the old one, each as its snapshot gives it back: same members, and battles waiting
  to be started again.\<close>

theorem handover_restores_the_rooms:
  assumes "redis_api R" "room_codec_ok C" "rooms_ok cfg st" "distinct (map fst (rs_dirty st))"
    and "\<And>i r. map_of (rs_rooms st) i = Some r \<Longrightarrow> i < 2 ^ 64 \<and> room_Marshal C r \<noteq> None"
    and "\<And>i r. map_of (rs_rooms st) i = Some r \<Longrightarrow> i \<notin> fst ` set (rs_dirty st) \<Longrightarrow> saved R C ks s i r"
    and "set (SMEMBERS R s (keys_RoomIndex ks (ow_Shard ow))) = show_nat ` dom (map_of (rs_rooms st))"
    and "room_FlushAllSync R C ks w now (st, s) = ((st', s'), None)"
    and "keeps_keys R (insert (keys_RoomIndex ks (ow_Shard ow)) (keys_Room ks ` dom (map_of (rs_rooms st)))) (w_first w @ w_second w)"
  shows "\<exists>st2 s2. room_Init R C ks cfg now' Delivered (\<lambda>_. True) n3 ow (room_NewShard ow, s') = ((st2, s2), Inr ())
    \<and> map_of (rs_rooms st2) = (\<lambda>i. map_option (\<lambda>r. FromSnapshot (Snapshot r)) (map_of (rs_rooms st) i)) \<and> s2 = s'"
proof -
  let ?ids = "SMEMBERS R s' (keys_RoomIndex ks (ow_Shard ow))" and ?rooms = "map_of (rs_rooms st)"
  have sv: "\<And>i r. ?rooms i = Some r \<Longrightarrow> saved R C ks s' i r" and v: "view R s' (keys_RoomIndex ks (ow_Shard ow)) = view R s (keys_RoomIndex ks (ow_Shard ow))"
    using FlushAllSync_saves [OF assms(1-4) _ _ assms(8,9)] assms(5,6) by blast+
  have ids: "set ?ids = show_nat ` dom ?rooms" using v assms(7) by (simp add: view_def)
  have "\<exists>i b sn. raw = show_nat i \<and> i < 2 ^ 64 \<and> GET R s' (keys_Room ks i) = Some b \<and> dec_room C b = Some sn \<and> sn_RoomId sn = i \<and> FromSnapshot sn = FromSnapshot (Snapshot (the (?rooms i)))"
    if "raw \<in> set ?ids" for raw
    using that sv assms(5) unfolding ids saved_def by (fastforce simp: dom_def)
  note rest = restored_rooms [OF this]
  have m: "map_of (restored C (room_cmds R ks (\<lambda>_. True) ?ids s')) = (\<lambda>i. map_option (\<lambda>r. FromSnapshot (Snapshot r)) (?rooms i))"
  proof
    fix i
    have "show_nat i \<in> set ?ids \<longleftrightarrow> ?rooms i \<noteq> None" unfolding ids by (auto simp: dom_def)
    then show "map_of (restored C (room_cmds R ks (\<lambda>_. True) ?ids s')) i = map_option (\<lambda>r. FromSnapshot (Snapshot r)) (?rooms i)" using rest [where j = i] by auto
  qed
  show ?thesis
  proof (cases "?ids = []")
    case True
    then have "?rooms = Map.empty" using ids by (simp add: dom_eq_empty_conv)
    then show ?thesis using True by (simp add: room_Init_def Let_def room_NewShard_def)
  next
    case False
    then show ?thesis using rest m by (simp add: room_Init_def Let_def)
  qed
qed


section \<open>A battle\<close>

definition demo_rcfg :: room_cfg where
  "demo_rcfg = \<lparr>rc_FlushL1Interval = 5, rc_FlushBatchSize = 0, rc_ShardCount = 8\<rparr>"

definition demo_rown :: Ownership where
  "demo_rown = \<lparr>ow_Shard = 7, ow_Epoch = 20, ow_Node = []\<rparr>"

definition demo_rmsg :: "nat \<Rightarrow> room_msg" where
  "demo_rmsg cmd = \<lparr>xm_cmd = cmd, xm_uid = 5, xm_trace = [], xm_create = Some \<lparr>cr_RoomId = 1031, cr_Mode = 2, cr_MaxPlayer = 3, cr_Members = [5, 7]\<rparr>,
     xm_member = None, xm_op = Some \<lparr>ro_RoomId = 1031, ro_Uid = 0, ro_Op = 2, ro_Payload = []\<rparr>\<rparr>"

definition demo_revents :: "room_event list" where
  "demo_revents = [EvMsg 10 (demo_rmsg CmdCreateRoom), EvMsg 20 (demo_rmsg CmdStartBattle), EvMsg 30 (demo_rmsg CmdRoomOp), EvMsg 40 (demo_rmsg CmdRoomOp)]"

lemma demo_revents_ok: "list_all event_ok demo_revents" "rooms_ok demo_rcfg (room_NewShard demo_rown)"
  by (simp_all add: demo_revents_def demo_rmsg_def rooms_ok_def room_NewShard_def)

lemma demo_NewRoom: "NewRoom 1031 2 3 [5, 7] 10 = \<lparr>rm_ID = 1031, rm_Mode = 2, rm_State = RoomStateWaiting, rm_Members = [5, 7], rm_MaxN = 3, rm_CreatedAt = Some 10,
    rm_StartedAt = None, rm_Frame = 0, rm_scores = [(5, 0), (7, 0)], rm_settled = False\<rparr>"
  by (simp add: NewRoom_def room_Join_def room_Has_def u32_def)

lemma demo_battle: "\<exists>res. SettleJobs 1031 [5, 7] res \<in> set (snd (room_run text_room_codec lobby_keys demo_rcfg demo_revents (room_NewShard demo_rown, f)))"
  by (simp add: demo_revents_def room_Handle_def demo_rmsg_def handleCreate_def Let_def demo_rcfg_def demo_rown_def room_NewShard_def shard_Of_def u32_def demo_NewRoom
      handleStart_def handleOp_def room_settle_def room_Start_def room_Has_def OpScore_def OpFinish_def the_uid_def put_room_def room_shard_mark_def)
    blast

theorem battle_is_settled_at_most_once_witness:
  "\<exists>stf' outs res. room_run text_room_codec lobby_keys demo_rcfg demo_revents (room_NewShard demo_rown, NewFlusher 0 0 0) = (stf', outs) \<and> SettleJobs 1031 [5, 7] res \<in> set outs
   \<and> (\<forall>xs ms res ys ms' res' zs. outs = xs @ SettleJobs 1031 ms res # ys @ SettleJobs 1031 ms' res' # zs \<longrightarrow> DeleteRoom 1031 \<in> set ys)"
proof -
  obtain stf' outs where r: "room_run text_room_codec lobby_keys demo_rcfg demo_revents (room_NewShard demo_rown, NewFlusher 0 0 0) = (stf', outs)" by fastforce
  show ?thesis using battle_is_settled_at_most_once [OF demo_revents_ok(2,1) r, of 1031] demo_battle [of "NewFlusher 0 0 0"] r by fastforce
qed

theorem rooms_stay_in_order_witness: "rooms_ok demo_rcfg (fst (fst (room_run text_room_codec lobby_keys demo_rcfg demo_revents (room_NewShard demo_rown, NewFlusher 0 0 0))))"
  by (rule rooms_stay_in_order [OF demo_revents_ok(2,1)])

definition demo_rshard :: room_shard where
  "demo_rshard = \<lparr>rs_o = demo_rown, rs_rooms = [(1031, demo_room)], rs_dirty = [(1031, 5)], rs_nextFlush = 10 ^ 20, rs_nextGC = 10 ^ 20, rs_closed = False\<rparr>"

lemma demo_rshard_ok: "rooms_ok demo_rcfg demo_rshard" "map_of (rs_rooms demo_rshard) 1031 = Some demo_room"
  by (simp_all add: rooms_ok_def demo_rshard_def room_ok_def room_wf_def demo_room_def demo_rcfg_def demo_rown_def shard_Of_def u32_def)



definition demo_renv :: "mem write_env" where
  "demo_renv = \<lparr>w_first = [(\<lambda>s. s, Answered)], w_firstErr = None, w_loaded = True, w_second = [], w_secondErr = None\<rparr>"

definition demo_rstate :: mem where
  "demo_rstate = takeover_state\<lparr>sets := (\<lambda>_. [])(keys_RoomIndex lobby_keys 7 := [show_nat 1031])\<rparr>"

lemma demo_rflush: "\<exists>st' s'. room_FlushAllSync mem_redis text_room_codec lobby_keys demo_renv 50 (demo_rshard, demo_rstate) = ((st', s'), None)"
proof -
  obtain blob where bl: "room_Marshal text_room_codec demo_room = Some blob" by (simp add: room_Marshal_def text_room_codec_def ser_enc_def)
  define e where "e = \<lparr>e_ID = 1031, e_Keys = [(keys_Room lobby_keys 1031, blob)], e_Hash = None, e_Modules = [], e_DirtyAt = 5\<rparr>"
  define b where "b = \<lparr>b_Shard = 7, b_Epoch = 20, b_Level = L1, b_Entities = [e]\<rparr>"
  define st0 where "st0 = demo_rshard\<lparr>rs_dirty := []\<rparr>"
  have "num_or0 mem_redis demo_rstate (keys_Epoch lobby_keys 7) = Some 20"
    by (simp add: num_or0_def demo_rstate_def takeover_state_def mem_put_def)
  then have "mods_cmd mem_redis lobby_keys b e demo_rstate = (mem_put demo_rstate (keys_Room lobby_keys 1031) blob, Some 1)"
    by (simp add: mods_cmd_def b_def e_def scriptWriteModules_kv [where kv = "[(_, _)]", simplified] set_all_def)
  moreover have "entity_cmds mem_redis lobby_keys b e = [mods_cmd mem_redis lobby_keys b e]" by (simp add: entity_cmds_eq e_def)
  moreover have "b_Entities b = [e]" by (simp add: b_def)
  ultimately have "SubmitSync mem_redis lobby_keys demo_renv (Some b) demo_rstate
      = (mem_put demo_rstate (keys_Room lobby_keys 1031) blob, \<lparr>r_Shard = 7, r_Epoch = 20, r_Level = L1, r_Failed = [], r_Err = None, r_Fenced = False\<rparr>)"
    by (simp add: SubmitSync_def flusher_write_def pipeline_def demo_renv_def exec_all_Cons isNoScript_def) (simp add: b_def)
  moreover have "room_buildBatch text_room_codec lobby_keys 50 (rs_dirty demo_rshard) st0 = (st0, Some b)"
    using bl by (simp add: room_buildBatch_def demo_rshard_def st0_def b_def e_def demo_rown_def)
  moreover have "rs_dirty demo_rshard \<noteq> []" by (simp add: demo_rshard_def)
  ultimately show ?thesis by (simp add: room_FlushAllSync_def Let_def flip: st0_def)
qed

theorem handover_restores_the_rooms_witness:
  "\<exists>st' s' st2 s2. room_FlushAllSync mem_redis text_room_codec lobby_keys demo_renv 50 (demo_rshard, demo_rstate) = ((st', s'), None)
   \<and> room_Init mem_redis text_room_codec lobby_keys demo_rcfg 60 Delivered (\<lambda>_. True) Delivered demo_rown (room_NewShard demo_rown, s') = ((st2, s2), Inr ())
   \<and> map_of (rs_rooms st2) 1031 = Some (FromSnapshot (Snapshot demo_room))"
proof -
  obtain st' s' where fl: "room_FlushAllSync mem_redis text_room_codec lobby_keys demo_renv 50 (demo_rshard, demo_rstate) = ((st', s'), None)"
    using demo_rflush by blast
  have d: "rs_rooms demo_rshard = [(1031, demo_room)]" "rs_dirty demo_rshard = [(1031, 5)]" "ow_Shard demo_rown = 7" by (simp_all add: demo_rshard_def demo_rown_def)
  have "\<exists>st2 s2. room_Init mem_redis text_room_codec lobby_keys demo_rcfg 60 Delivered (\<lambda>_. True) Delivered demo_rown (room_NewShard demo_rown, s') = ((st2, s2), Inr ())
      \<and> map_of (rs_rooms st2) = (\<lambda>i. map_option (\<lambda>r. FromSnapshot (Snapshot r)) (map_of (rs_rooms demo_rshard) i)) \<and> s2 = s'"
  proof (rule handover_restores_the_rooms [OF mem_server.redis_api_axioms text_room_codec_ok demo_rshard_ok(1) _ _ _ _ fl])
    show "set (SMEMBERS mem_redis demo_rstate (keys_RoomIndex lobby_keys (ow_Shard demo_rown))) = show_nat ` dom (map_of (rs_rooms demo_rshard))"
      by (simp add: d demo_rstate_def mem_redis_def)
    show "keeps_keys mem_redis (insert (keys_RoomIndex lobby_keys (ow_Shard demo_rown)) (keys_Room lobby_keys ` dom (map_of (rs_rooms demo_rshard))))
        (w_first demo_renv @ w_second demo_renv)" by (simp add: keeps_keys_def demo_renv_def)
  qed (auto simp: d room_Marshal_def text_room_codec_def ser_enc_def split: if_splits)
  then show ?thesis using fl by (auto simp: d)
qed

text \<open>A stale entry of the index hides a broken connection: \<open>Exec\<close> then reports the missing key, which \<open>Init\<close> ignores, and a room whose reply did not arrive is
  neither restored nor reported.\<close>

lemma stale_entry_hides_a_lost_room:
  assumes "SMEMBERS R s (keys_RoomIndex ks (ow_Shard ow)) = [show_nat i, show_nat j]" "i < 2 ^ 64" "j < 2 ^ 64" "i \<noteq> j" "GET R s (keys_Room ks i) = None"
  shows "\<exists>st2 s2. room_Init R C ks cfg now Delivered (\<lambda>raw. raw \<noteq> show_nat j) RequestLost ow (room_NewShard ow, s) = ((st2, s2), Inr ()) \<and> map_of (rs_rooms st2) j = None"
  using assms by (simp add: room_Init_def Let_def room_cmds_def List.map_filter_def scan_uint_show restored_def)

end
