(* ===== verification/Nodeid.thy ===== *)
theory Nodeid
  imports Etcd_Api Ident Auth
begin

text \<open>
  The check that a process number is used once, \<^verbatim>\<open>pkg/nodeid/nodeid.go\<close>: a process registers its number under a key in etcd, renews the record by a comparison with the revision it wrote last,
  and takes a record over only when its heartbeat is old. JSON is the parameter \<open>node_json\<close>; every clock reading is an argument, in nanoseconds since 1970; what other clients of
  etcd do between the two transactions of a takeover or between two heartbeats is an argument too.

  Shown here: a number whose holder's heartbeat is fresh cannot be taken; after a takeover the former holder can neither renew nor delete the record; and what the loss of one reply costs.
\<close>

section \<open>Records\<close>

record node_rec =
  nr_NodeID :: string
  nr_PID :: int
  nr_Host :: string
  nr_Addr :: string
  nr_WorkerID :: nat
  nr_StartAt :: int
  nr_BeatAt :: int
  nr_LastTS :: int

record node_json =
  nj_enc :: "node_rec \<Rightarrow> bytes"
  nj_dec :: "bytes \<Rightarrow> node_rec option"

datatype node_err = ErrConflict | ErrClockRegressed | ErrNodeTxn | ErrOvertaken

record registration =
  rg_key :: string
  rg_rec :: node_rec
  rg_timeout :: int
  rg_rev :: int
  rg_closed :: bool

definition node_Key :: "string \<Rightarrow> identity \<Rightarrow> string" where
  "node_Key etcdPrefix i = etcdPrefix @ ''/'' @ ''node'' @ ''/'' @ svc_Name (Svc i) @ ''/'' @ show_int (NodeSeq i)"

section \<open>Claiming a number\<close>

text \<open>\<open>If(CreateRevision(key) = 0) Then(Put(key, val)) Else(Get(key))\<close>.\<close>

definition txn_create_or_get :: "'w etcd \<Rightarrow> string \<Rightarrow> bytes \<Rightarrow> 'w \<Rightarrow> 'w \<times> (int + etcd_kv) option" where
  "txn_create_or_get E k v s =
     (case e_get E s k of
        None \<Rightarrow> (e_put E s k v 0, Some (Inl (e_rev E (e_put E s k v 0))))
      | Some kv \<Rightarrow> (s, Some (Inr kv)))"

record 'w try_env =
  te_before :: "'w \<Rightarrow> 'w" \<comment> \<open>others, before this attempt\<close>
  te_now1 :: int
  te_n1 :: net
  te_now2 :: int
  te_now3 :: int
  te_between :: "'w \<Rightarrow> 'w" \<comment> \<open>others, between the two transactions\<close>
  te_n2 :: net

definition tryClaim :: "'w etcd \<Rightarrow> node_json \<Rightarrow> 'w try_env \<Rightarrow> registration \<times> 'w \<Rightarrow> (registration \<times> 'w) \<times> (node_err + int)" where
  "tryClaim E J env rw =
     (let m = unix_milli (te_now1 env); rec = rg_rec (fst rw)\<lparr>nr_BeatAt := m, nr_LastTS := m\<rparr>;
          r1 = fst rw\<lparr>rg_rec := rec\<rparr>; key = rg_key r1; val = nj_enc J rec in
      case run (te_n1 env) (txn_create_or_get E key val) (snd rw) of
        (w1, Inl e) \<Rightarrow> ((r1, w1), Inl ErrNodeTxn)
      | (w1, Inr (Inl rv)) \<Rightarrow> ((r1, w1), Inr rv)
      | (w1, Inr (Inr kv)) \<Rightarrow>
          let old = nj_dec J (kv_Value kv);
              beatAt = (case old of None \<Rightarrow> 0 | Some x \<Rightarrow> nr_BeatAt x); lastTS = (case old of None \<Rightarrow> 0 | Some x \<Rightarrow> nr_LastTS x) in
          if beatAt > 0 \<and> te_now2 env - beatAt * 1000000 < rg_timeout r1 then ((r1, w1), Inl ErrConflict)
          else if lastTS > 0 \<and> unix_milli (te_now3 env) < lastTS then ((r1, w1), Inl ErrClockRegressed)
          else (case run (te_n2 env) (txn_update E key (kv_ModRevision kv) val) (te_between env w1) of
                  (w2, Inl e) \<Rightarrow> ((r1, w2), Inl ErrNodeTxn)
                | (w2, Inr None) \<Rightarrow> ((r1, w2), Inl ErrOvertaken)
                | (w2, Inr (Some rv)) \<Rightarrow> ((r1, w2), Inr rv)))"

fun claim_loop :: "'w etcd \<Rightarrow> node_json \<Rightarrow> 'w try_env list \<Rightarrow> node_err \<Rightarrow> registration \<times> 'w \<Rightarrow> (registration \<times> 'w) \<times> (node_err + unit)" where
  "claim_loop E J [] lastErr rw = (rw, Inl lastErr)"
| "claim_loop E J (env # envs) lastErr rw =
     (case tryClaim E J env (fst rw, te_before env (snd rw)) of
        (rw1, Inr rv) \<Rightarrow> ((fst rw1\<lparr>rg_rev := rv\<rparr>, snd rw1), Inr ())
      | (rw1, Inl e) \<Rightarrow> if e = ErrConflict \<or> e = ErrClockRegressed then (rw1, Inl e) else claim_loop E J envs e rw1)"

definition node_Claim :: "'w etcd \<Rightarrow> node_json \<Rightarrow> (nat \<Rightarrow> 'w try_env) \<Rightarrow> string \<Rightarrow> int \<Rightarrow> int \<Rightarrow> string \<Rightarrow> string \<Rightarrow> identity \<Rightarrow> int \<Rightarrow> 'w \<Rightarrow>
    (registration \<times> 'w) \<times> (node_err + unit)" where
  "node_Claim E J env etcdPrefix staleTimeout pid host addr i now w =
     (let m = unix_milli now;
          rec = \<lparr>nr_NodeID = nodeID i, nr_PID = pid, nr_Host = host, nr_Addr = addr, nr_WorkerID = unat (workerID i), nr_StartAt = m, nr_BeatAt = m, nr_LastTS = m\<rparr>
      in claim_loop E J [env 0, env 1, env 2] ErrNodeTxn (\<lparr>rg_key = node_Key etcdPrefix i, rg_rec = rec, rg_timeout = staleTimeout, rg_rev = 0, rg_closed = False\<rparr>, w))"

section \<open>Heartbeats\<close>

definition beat :: "'w etcd \<Rightarrow> node_json \<Rightarrow> net \<Rightarrow> int \<Rightarrow> registration \<times> 'w \<Rightarrow> (registration \<times> 'w) \<times> (node_err + unit)" where
  "beat E J n now rw =
     (let r = fst rw in
      if rg_closed r then (rw, Inr ())
      else let m = unix_milli now; rec = rg_rec r\<lparr>nr_BeatAt := m, nr_LastTS := (if m > nr_LastTS (rg_rec r) then m else nr_LastTS (rg_rec r))\<rparr>;
               r1 = r\<lparr>rg_rec := rec\<rparr> in
        case run n (txn_update E (rg_key r) (rg_rev r) (nj_enc J rec)) (snd rw) of
          (w1, Inl e) \<Rightarrow> ((r1, w1), Inl ErrNodeTxn)
        | (w1, Inr None) \<Rightarrow> ((r1, w1), Inl ErrConflict)
        | (w1, Inr (Some rv)) \<Rightarrow> ((r1\<lparr>rg_rev := rv\<rparr>, w1), Inr ()))"

text \<open>The goroutine of \<open>start\<close>: one entry per tick, with what others did before it. It ends when it calls \<open>onLost\<close>.\<close>

fun beat_run :: "'w etcd \<Rightarrow> node_json \<Rightarrow> (('w \<Rightarrow> 'w) \<times> net \<times> int) list \<Rightarrow> nat \<Rightarrow> registration \<times> 'w \<Rightarrow> (registration \<times> 'w) \<times> node_err option" where
  "beat_run E J [] fails rw = (rw, None)"
| "beat_run E J ((g, n, now) # ts) fails rw =
     (case beat E J n now (fst rw, g (snd rw)) of
        (rw1, Inr u) \<Rightarrow> beat_run E J ts 0 rw1
      | (rw1, Inl e) \<Rightarrow> if fails + 1 \<ge> 5 then (rw1, Some e) else beat_run E J ts (fails + 1) rw1)"

definition node_Release :: "'w etcd \<Rightarrow> net \<Rightarrow> registration \<times> 'w \<Rightarrow> (registration \<times> 'w) \<times> (node_err + unit)" where
  "node_Release E n rw =
     (if rg_closed (fst rw) then (rw, Inr ())
      else let r1 = fst rw\<lparr>rg_closed := True\<rparr> in
        case run n (txn_delete E (rg_key r1) (rg_rev r1)) (snd rw) of
          (w1, Inl e) \<Rightarrow> ((r1, w1), Inl ErrNodeTxn)
        | (w1, Inr b) \<Rightarrow> ((r1, w1), Inr ()))"

section \<open>Counting\<close>

definition live_prefix :: "string \<Rightarrow> string \<Rightarrow> string" where
  "live_prefix etcdPrefix svcName = etcdPrefix @ ''/'' @ ''node'' @ ''/'' @ svcName @ ''/''"

definition CountLive :: "'w etcd \<Rightarrow> node_json \<Rightarrow> net \<Rightarrow> int \<Rightarrow> string \<Rightarrow> string \<Rightarrow> int \<Rightarrow> int \<Rightarrow> 'w \<Rightarrow> nat" where
  "CountLive E J n now etcdPrefix svcName beatInterval stale w =
     (if n \<noteq> Delivered then 0
      else let fresh = (if 3 * beatInterval > stale then stale else 3 * beatInterval) in
        length (filter (\<lambda>(k, kv). case nj_dec J (kv_Value kv) of None \<Rightarrow> False | Some r \<Rightarrow> now - nr_BeatAt r * 1000000 \<le> fresh)
          (e_range E w (live_prefix etcdPrefix svcName))))"

definition ListLive :: "'w etcd \<Rightarrow> node_json \<Rightarrow> net \<Rightarrow> string \<Rightarrow> string \<Rightarrow> 'w \<Rightarrow> node_err + node_rec list" where
  "ListLive E J n etcdPrefix svcName w =
     (if n \<noteq> Delivered then Inl ErrNodeTxn
      else Inr (List.map_filter (\<lambda>(k, kv). nj_dec J (kv_Value kv)) (e_range E w (live_prefix etcdPrefix svcName))))"

section \<open>Revisions only grow\<close>

context etcd_api
begin

lemma mod_later:
  "etcd_runs E s s' \<Longrightarrow> e_ok E s \<Longrightarrow> e_get E s' k = Some kv' \<Longrightarrow>
     (\<exists>kv. e_get E s k = Some kv \<and> kv_ModRevision kv = kv_ModRevision kv') \<or> e_rev E s < kv_ModRevision kv'"
proof (induction arbitrary: kv' rule: etcd_runs.induct)
  case (er_put s s' l k' v)
  have rv: "e_rev E s \<le> e_rev E s'" using runs_rev er_put by blast
  show ?case using er_put rv by (cases "k' = k") (auto simp: get_put)
next
  case (er_grant s s')
  then show ?case using grant_new [of s' "fst (e_grant E s')" "snd (e_grant E s')"] runs_ok by auto
next
  case (er_del s s' k')
  then show ?case by (auto simp: get_delete split: if_splits)
next
  case (er_revoke s s' l)
  then show ?case by (auto simp: get_revoke split: option.splits if_splits)
qed auto

text \<open>A revision that is not the key's present one is never its revision again.\<close>

lemma mod_never_back:
  assumes "etcd_runs E s s'" "e_ok E s" "0 < r" "r \<le> e_rev E s" "mod_of E s k \<noteq> r"
  shows "mod_of E s' k \<noteq> r"
proof (cases "e_get E s' k")
  case (Some kv')
  then show ?thesis using mod_later [OF assms(1,2) Some] assms(4,5) by (auto simp: mod_of_def)
qed (use assms(3) in \<open>simp add: mod_of_def\<close>)

lemma txn_create_or_get_runs: "etcd_runs E s (fst (txn_create_or_get E k v s))"
  using er_put [OF er_refl, of 0 E s k v] by (auto simp: txn_create_or_get_def intro: er_refl split: option.splits)

text \<open>What a successful claim means for the store.\<close>

lemma tryClaim_success:
  assumes "tryClaim E J env (r, w) = ((r1, w2), Inr rv)" "e_ok E w" "\<And>x. etcd_runs E x (te_between env x)"
  shows "etcd_runs E w w2 \<and> e_rev E w < rv \<and> rv \<le> e_rev E w2 \<and> mod_of E w2 (rg_key r) = rv \<and> rg_key r1 = rg_key r"
proof -
  define rec where "rec = rg_rec r\<lparr>nr_BeatAt := unix_milli (te_now1 env), nr_LastTS := unix_milli (te_now1 env)\<rparr>"
  define val where "val = nj_enc J rec"
  have m: "mod_of E (e_put E x k v l) k = e_rev E (e_put E x k v l)" for x k v l by (simp add: mod_of_def get_put rev_put)
  show ?thesis
  proof (cases "e_get E w (rg_key r)")
    case None
    then have "w2 = e_put E w (rg_key r) val 0" "rv = e_rev E w2" "rg_key r1 = rg_key r" using assms(1)
      by (auto simp: tryClaim_def Let_def txn_create_or_get_def run_def val_def rec_def split: net.splits)
    then show ?thesis using er_put [OF er_refl, of 0 E w "rg_key r" val] m by (auto simp: rev_put)
  next
    case (Some kv)
    let ?x = "te_between env w"
    have s: "w2 = e_put E ?x (rg_key r) val 0" "rv = e_rev E w2" "rg_key r1 = rg_key r" using assms(1) Some
      by (auto simp: tryClaim_def Let_def txn_create_or_get_def run_def txn_update_def val_def rec_def split: net.splits if_splits)
    have x: "etcd_runs E w ?x" by (rule assms(3))
    then have "etcd_runs E w w2" using er_put [of E w ?x 0 "rg_key r" val] s by simp
    moreover have "e_rev E w \<le> e_rev E ?x" using runs_rev [OF x assms(2)] .
    ultimately show ?thesis using s m by (auto simp: rev_put)
  qed
qed

end

section \<open>One holder\<close>

text \<open>C35: A process number has one holder. When a process takes a registration over, its revision is newer than that of the former holder, and from then on, whatever happens in etcd,
  no heartbeat of the former holder succeeds again, nor does its release remove the record: what it sends changes nothing in the store, and an answer it gets is a conflict.\<close>

theorem process_number_has_one_holder:
  assumes "etcd_api E" "e_ok E w" "mod_of E w (rg_key a) = rg_rev a" "0 < rg_rev a" "\<not> rg_closed a"
    and "etcd_runs E w w1" "rg_key b = rg_key a" "tryClaim E J env (b, w1) = ((b1, w2), Inr rv)" "\<And>x. etcd_runs E x (te_between env x)"
    and "etcd_runs E w2 w3"
  shows "rg_rev a < rv \<and> mod_of E w2 (rg_key a) = rv
    \<and> snd (fst (beat E J n now (a, w3))) = w3 \<and> snd (beat E J n now (a, w3)) = Inl (if n = Delivered then ErrConflict else ErrNodeTxn)
    \<and> snd (fst (node_Release E n (a, w3))) = w3"
proof -
  have ra: "rg_rev a \<le> e_rev E w"
    using assms(3,4) etcd_api.kv_bounds [OF assms(1,2), of "rg_key a"] by (auto simp: mod_of_def split: option.splits)
  have ok1: "e_ok E w1" and r1: "e_rev E w \<le> e_rev E w1" using etcd_api.runs_ok [OF assms(1,6,2)] etcd_api.runs_rev [OF assms(1,6,2)] by blast+
  have c: "etcd_runs E w1 w2" "e_rev E w1 < rv" "rv \<le> e_rev E w2" "mod_of E w2 (rg_key a) = rv"
    using etcd_api.tryClaim_success [OF assms(1,8) ok1 assms(9)] assms(7) by auto
  have ok2: "e_ok E w2" by (rule etcd_api.runs_ok [OF assms(1) c(1) ok1])
  have "mod_of E w3 (rg_key a) \<noteq> rg_rev a"
    by (rule etcd_api.mod_never_back [OF assms(1,10) ok2 assms(4)]) (use c ra r1 in auto)
  then show ?thesis using assms(5) c ra r1 by (cases n) (simp_all add: beat_def node_Release_def Let_def txn_update_def txn_delete_def run_def)
qed

text \<open>A number in use cannot be taken. While the registered record's last heartbeat is younger than the timeout, every attempt of another process to claim the number fails, whatever becomes of its
  messages, and leaves the store as it was; one that is answered is told about the conflict, and \<open>Claim\<close> gives up at once.\<close>

theorem number_in_use_is_refused:
  assumes "e_get E w (rg_key r) = Some kv" "nj_dec J (kv_Value kv) = Some old" "0 < nr_BeatAt old" "te_now2 env - nr_BeatAt old * 1000000 < rg_timeout r"
    and "te_before env w = w"
  shows "snd (fst (tryClaim E J env (r, w))) = w \<and> snd (tryClaim E J env (r, w)) = Inl (if te_n1 env = Delivered then ErrConflict else ErrNodeTxn)
    \<and> (te_n1 env = Delivered \<longrightarrow> snd (claim_loop E J (env # envs) e (r, w)) = Inl ErrConflict \<and> snd (fst (claim_loop E J (env # envs) e (r, w))) = w)"
proof -
  have "snd (fst (tryClaim E J env (r, w))) = w \<and> snd (tryClaim E J env (r, w)) = Inl (if te_n1 env = Delivered then ErrConflict else ErrNodeTxn)"
    using assms by (cases "te_n1 env") (simp_all add: tryClaim_def Let_def txn_create_or_get_def run_def)
  then show ?thesis using assms(5) by (auto split: prod.splits)
qed

section \<open>A lost reply\<close>

lemma beats_after_loss:
  assumes "mod_of E w (rg_key r) \<noteq> rg_rev r" "\<not> rg_closed r" "length ts + fails \<ge> 5" "fails < 5" "\<forall>(g, n, now)\<in>set ts. g w = w \<and> n = Delivered"
  shows "snd (beat_run E J ts fails (r, w)) = Some ErrConflict"
  using assms
proof (induction ts arbitrary: fails r)
  case (Cons t ts)
  obtain g n now where t: "t = (g, n, now)" by (cases t)
  obtain r1 where b: "beat E J Delivered now (r, w) = ((r1, w), Inl ErrConflict)" and r1: "rg_key r1 = rg_key r" "rg_rev r1 = rg_rev r" "rg_closed r1 = rg_closed r"
    using Cons.prems(1,2) by (simp add: beat_def Let_def run_def txn_update_def)
  show ?case using Cons.IH [of r1 "fails + 1"] Cons.prems r1 b by (auto simp: t)
qed simp

text \<open>One lost reply ends the process. When a heartbeat was executed but its reply was lost, the process keeps comparing with the old revision, so it takes its own record for somebody else's: even if
  nobody touches the record and every later message gets through, all its heartbeats fail with a conflict, and after the fifth it gives its number up as lost.\<close>

theorem lost_beat_reply_ends_the_process:
  assumes "etcd_api E" "e_ok E w" "mod_of E w (rg_key r) = rg_rev r" "0 < rg_rev r" "\<not> rg_closed r" "beat E J ReplyLost now (r, w) = ((r1, w1), Inl e)"
    and "length ts \<ge> 5" "\<forall>(g, n, t)\<in>set ts. g w1 = w1 \<and> n = Delivered"
  shows "snd (beat_run E J ts 0 (r1, w1)) = Some ErrConflict"
proof -
  have m: "mod_of E (e_put E w k v l) k = e_rev E w + 1" for k v l
    using etcd_api.get_put [OF assms(1)] etcd_api.rev_put [OF assms(1)] by (simp add: mod_of_def)
  have b: "rg_rev r \<le> e_rev E w"
    using assms(3,4) etcd_api.kv_bounds [OF assms(1,2), of "rg_key r"] by (auto simp: mod_of_def split: option.splits)
  obtain v where w1: "w1 = e_put E w (rg_key r) v 0" and r1: "rg_key r1 = rg_key r" "rg_rev r1 = rg_rev r" "\<not> rg_closed r1"
    using assms(3,5,6) by (auto simp: beat_def Let_def run_def txn_update_def)
  show ?thesis by (rule beats_after_loss) (use w1 r1 m b assms(7,8) in auto)
qed

section \<open>A takeover\<close>

definition text_node_json :: node_json where
  "text_node_json = \<lparr>nj_enc = (\<lambda>r. show_int (nr_BeatAt r)),
     nj_dec = (\<lambda>b. map_option (\<lambda>t. \<lparr>nr_NodeID = [], nr_PID = 0, nr_Host = [], nr_Addr = [], nr_WorkerID = 0, nr_StartAt = 0, nr_BeatAt = t, nr_LastTS = t\<rparr>) (tonumber b))\<rparr>"

definition demo_node :: "int \<Rightarrow> int \<Rightarrow> registration" where
  "demo_node pid r = \<lparr>rg_key = ''/node/lobby/3'', rg_rec = \<lparr>nr_NodeID = ''n'', nr_PID = pid, nr_Host = [], nr_Addr = [], nr_WorkerID = 3, nr_StartAt = 0, nr_BeatAt = 0, nr_LastTS = 0\<rparr>,
     rg_timeout = 600000000000, rg_rev = r, rg_closed = False\<rparr>"

definition demo_slot :: mem_etcd where
  "demo_slot = me_put me_empty ''/node/lobby/3'' (show_int 5000) 0"

definition demo_try :: "int \<Rightarrow> mem_etcd try_env" where
  "demo_try now = \<lparr>te_before = (\<lambda>w. w), te_now1 = now, te_n1 = Delivered, te_now2 = now, te_now3 = now, te_between = (\<lambda>w. w), te_n2 = Delivered\<rparr>"

lemma demo_slot_ok: "e_ok mem_etcd demo_slot" "mod_of mem_etcd demo_slot ''/node/lobby/3'' = 1" "map_of (me_kvs demo_slot) ''/node/lobby/3'' = Some \<lparr>kv_Value = show_int 5000, kv_CreateRevision = 1, kv_ModRevision = 1, kv_Lease = 0\<rparr>"
  by (simp_all add: demo_slot_def me_put_def me_empty_def me_ok_def mod_of_def)

lemma demo_takeover: "\<exists>b1 w2 rv. tryClaim mem_etcd text_node_json (demo_try 900000000000) (demo_node 44 0, demo_slot) = ((b1, w2), Inr rv)"
  using demo_slot_ok by (simp add: tryClaim_def demo_try_def demo_node_def Let_def run_def txn_create_or_get_def txn_update_def text_node_json_def unix_milli_def)

theorem process_number_has_one_holder_witness:
  "\<exists>b1 w2 rv. tryClaim mem_etcd text_node_json (demo_try 900000000000) (demo_node 44 0, demo_slot) = ((b1, w2), Inr rv) \<and> 1 < rv
    \<and> snd (beat mem_etcd text_node_json Delivered 900000000000 (demo_node 33 1, w2)) = Inl ErrConflict"
proof -
  obtain b1 w2 rv where c: "tryClaim mem_etcd text_node_json (demo_try 900000000000) (demo_node 44 0, demo_slot) = ((b1, w2), Inr rv)"
    using demo_takeover by blast
  have h: "mod_of mem_etcd demo_slot (rg_key (demo_node 33 1)) = rg_rev (demo_node 33 1)" "0 < rg_rev (demo_node 33 1)" "\<not> rg_closed (demo_node 33 1)"
    "rg_key (demo_node 44 0) = rg_key (demo_node 33 1)" by (simp_all add: demo_node_def demo_slot_ok)
  have "etcd_runs mem_etcd x (te_between (demo_try 900000000000) x)" for x by (simp add: demo_try_def er_refl)
  from process_number_has_one_holder [OF mem_store.etcd_api_axioms demo_slot_ok(1) h(1-3) er_refl h(4) c this er_refl, of Delivered 900000000000]
  show ?thesis using c by (auto simp: demo_node_def)
qed

theorem number_in_use_is_refused_witness:
  "snd (claim_loop mem_etcd text_node_json [demo_try 100000000000] ErrNodeTxn (demo_node 44 0, demo_slot)) = Inl ErrConflict"
proof -
  have "te_n1 (demo_try 100000000000) = Delivered" by (simp add: demo_try_def)
  moreover have "te_n1 (demo_try 100000000000) = Delivered \<longrightarrow> snd (claim_loop mem_etcd text_node_json [demo_try 100000000000] ErrNodeTxn (demo_node 44 0, demo_slot)) = Inl ErrConflict
     \<and> snd (fst (claim_loop mem_etcd text_node_json [demo_try 100000000000] ErrNodeTxn (demo_node 44 0, demo_slot))) = demo_slot"
    by (rule number_in_use_is_refused [where kv = "\<lparr>kv_Value = show_int 5000, kv_CreateRevision = 1, kv_ModRevision = 1, kv_Lease = 0\<rparr>" and old = "the (nj_dec text_node_json (show_int 5000))", THEN conjunct2, THEN conjunct2]) (simp_all add: demo_node_def demo_slot_ok text_node_json_def demo_try_def)
  ultimately show ?thesis by blast
qed

theorem lost_beat_reply_ends_the_process_witness:
  "snd (beat_run mem_etcd text_node_json [(\<lambda>w. w, Delivered, 1), (\<lambda>w. w, Delivered, 2), (\<lambda>w. w, Delivered, 3), (\<lambda>w. w, Delivered, 4), (\<lambda>w. w, Delivered, 5)] 0
     (fst (beat mem_etcd text_node_json ReplyLost 900 (demo_node 33 1, demo_slot)))) = Some ErrConflict"
proof -
  obtain r1 w1 e where b: "beat mem_etcd text_node_json ReplyLost 900 (demo_node 33 1, demo_slot) = ((r1, w1), Inl e)"
    by (simp add: beat_def Let_def demo_node_def run_def)
  have h: "mod_of mem_etcd demo_slot (rg_key (demo_node 33 1)) = rg_rev (demo_node 33 1)" "0 < rg_rev (demo_node 33 1)" "\<not> rg_closed (demo_node 33 1)"
    by (simp_all add: demo_node_def demo_slot_ok)
  show ?thesis unfolding b fst_conv by (rule lost_beat_reply_ends_the_process [OF mem_store.etcd_api_axioms demo_slot_ok(1) h b]) simp_all
qed

end
