(* ===== verification/Leader.thy ===== *)
theory Leader
  imports Shard_Claim
begin

text \<open>
  The election of a single leader, \<^verbatim>\<open>pkg/leader/leader.go\<close>. A candidate is granted a lease, creates the leader's key under it by a transaction, and uses the revision of that transaction as its epoch; it renews the
  lease and resigns when that fails. The hooks and everything else live in the state \<open>'w\<close>. What the network does to every call and what others do between two calls is the record \<open>campaign_env\<close>; the
  loop that repeats the campaign and the wait for a vacancy only schedule these calls. JSON is a parameter.

  Shown here: every new leader has a higher epoch than all before it, and nobody is elected while the key of a leader stands.
\<close>

section \<open>State\<close>

record leader_rec =
  lr_Node :: string
  lr_Epoch :: int
  lr_Since :: int

record leader_json =
  lj_enc :: "leader_rec \<Rightarrow> bytes"
  lj_dec :: "bytes \<Rightarrow> leader_rec option"

record 'w leader_hooks =
  OnElected :: "(int \<Rightarrow> 'w \<Rightarrow> 'w \<times> bool) option"
  OnResigned :: "('w \<Rightarrow> 'w) option"

record elector =
  el_key :: string
  el_nodeID :: string
  el_isLeader :: bool
  el_epoch :: int
  el_lease :: int

definition NewElector :: "string \<Rightarrow> string \<Rightarrow> string \<Rightarrow> elector" where
  "NewElector etcdPrefix name nodeID = \<lparr>el_key = etcdPrefix @ ''/'' @ ''leader'' @ ''/'' @ name, el_nodeID = nodeID, el_isLeader = False, el_epoch = 0, el_lease = 0\<rparr>"

definition IsLeader :: "elector \<Rightarrow> bool" where
  "IsLeader e = el_isLeader e"

definition elector_Epoch :: "elector \<Rightarrow> int" where
  "elector_Epoch e = el_epoch e"

section \<open>Resigning\<close>

definition revoke :: "'w etcd \<Rightarrow> net \<Rightarrow> int \<Rightarrow> 'w \<Rightarrow> 'w" where
  "revoke E n l w = fst (run n (\<lambda>w. (e_revoke E w l, Some ())) w)"

definition resign :: "'w etcd \<Rightarrow> 'w leader_hooks \<Rightarrow> net \<Rightarrow> elector \<times> 'w \<Rightarrow> elector \<times> 'w" where
  "resign E H n ew =
     (let e = fst ew in
      if \<not> el_isLeader e then ew
      else let w1 = (case OnResigned H of None \<Rightarrow> snd ew | Some f \<Rightarrow> f (snd ew))
           in (e\<lparr>el_isLeader := False, el_lease := 0\<rparr>, if el_lease e \<noteq> 0 then revoke E n (el_lease e) w1 else w1))"

definition elector_Stop :: "'w etcd \<Rightarrow> 'w leader_hooks \<Rightarrow> net \<Rightarrow> elector \<times> 'w \<Rightarrow> elector \<times> 'w" where
  "elector_Stop E H n ew = resign E H n ew"

section \<open>Campaigning\<close>

record 'w campaign_env =
  ce_grant :: net
  ce_o1 :: "'w \<Rightarrow> 'w" \<comment> \<open>others, after the lease was granted\<close>
  ce_now :: int
  ce_txn :: net
  ce_revoke :: net
  ce_o2 :: "'w \<Rightarrow> 'w" \<comment> \<open>others, after the transaction\<close>
  ce_put :: net
  ce_o3 :: "'w \<Rightarrow> 'w" \<comment> \<open>others, after the put\<close>

datatype campaign_result = CampaignErr | Occupied | Elected

definition put_leased :: "'w etcd \<Rightarrow> string \<Rightarrow> bytes \<Rightarrow> int \<Rightarrow> 'w \<Rightarrow> 'w \<times> unit option" where
  "put_leased E k v l w = (if e_lease E w l then (e_put E w k v l, Some ()) else (w, None))"

definition campaign :: "'w etcd \<Rightarrow> 'w leader_hooks \<Rightarrow> leader_json \<Rightarrow> 'w campaign_env \<Rightarrow> elector \<times> 'w \<Rightarrow> (elector \<times> 'w) \<times> campaign_result" where
  "campaign E H J env ew =
     (let e = fst ew in
      case run (ce_grant env) (\<lambda>w. case e_grant E w of (w', l) \<Rightarrow> (w', Some l)) (snd ew) of
        (w1, Inl x) \<Rightarrow> ((e, w1), CampaignErr)
      | (w1, Inr l) \<Rightarrow>
          let rec = \<lparr>lr_Node = el_nodeID e, lr_Epoch = 0, lr_Since = ce_now env\<rparr> in
          (case run (ce_txn env) (txn_create E (el_key e) (lj_enc J rec) l) (ce_o1 env w1) of
             (w2, Inl x) \<Rightarrow> ((e, revoke E (ce_revoke env) l w2), CampaignErr)
           | (w2, Inr None) \<Rightarrow> ((e, revoke E (ce_revoke env) l w2), Occupied)
           | (w2, Inr (Some epoch)) \<Rightarrow>
               (case run (ce_put env) (put_leased E (el_key e) (lj_enc J (rec\<lparr>lr_Epoch := epoch\<rparr>)) l) (ce_o2 env w2) of
                  (w3, Inl x) \<Rightarrow> ((e, revoke E (ce_revoke env) l w3), CampaignErr)
                | (w3, Inr u) \<Rightarrow>
                    let e1 = e\<lparr>el_isLeader := True, el_epoch := epoch, el_lease := l\<rparr>; w4 = ce_o3 env w3 in
                    (case OnElected H of
                       None \<Rightarrow> ((e1, w4), Elected)
                     | Some f \<Rightarrow>
                         (case f epoch w4 of
                            (w5, True) \<Rightarrow> ((e1, w5), Elected)
                          | (w5, False) \<Rightarrow> (resign E H (ce_revoke env) (e1, w5), CampaignErr))))))"

text \<open>One tick of \<open>keepAlive\<close>; the number of failures, or nothing when the leader has resigned.\<close>

definition leader_tick :: "'w etcd \<Rightarrow> 'w leader_hooks \<Rightarrow> net \<Rightarrow> keepalive \<Rightarrow> nat \<Rightarrow> elector \<times> 'w \<Rightarrow> nat option \<times> elector \<times> 'w" where
  "leader_tick E H n r fails ew =
     (if r = KeepOk then (Some 0, ew)
      else if fails + 1 \<ge> 2 \<or> r = KeepGone then (None, resign E H n ew)
      else (Some (fails + 1), ew))"

definition Current :: "'w etcd \<Rightarrow> leader_json \<Rightarrow> net \<Rightarrow> elector \<Rightarrow> 'w \<Rightarrow> leader_rec option result" where
  "Current E J n e w =
     (if n \<noteq> Delivered then Inl ErrRedis
      else case e_get E w (el_key e) of
        None \<Rightarrow> Inr None
      | Some kv \<Rightarrow> (case lj_dec J (kv_Value kv) of None \<Rightarrow> Inl ErrRedis | Some r \<Rightarrow> Inr (Some r)))"

section \<open>Epochs\<close>

definition fair_env :: "'w etcd \<Rightarrow> 'w campaign_env \<Rightarrow> bool" where
  "fair_env E env \<longleftrightarrow> (\<forall>w. etcd_runs E w (ce_o1 env w) \<and> etcd_runs E w (ce_o2 env w) \<and> etcd_runs E w (ce_o3 env w))"

definition fair_leader :: "'w etcd \<Rightarrow> 'w leader_hooks \<Rightarrow> bool" where
  "fair_leader E H \<longleftrightarrow> (\<forall>f ep w. OnElected H = Some f \<longrightarrow> etcd_runs E w (fst (f ep w))) \<and> (\<forall>f w. OnResigned H = Some f \<longrightarrow> etcd_runs E w (f w))"

text \<open>The way to an election.\<close>

lemma campaign_elected:
  assumes "campaign E H J env (e, w) = ((e', w'), Elected)"
  obtains w1 l w2 epoch w3 where "e_grant E w = (w1, l)" "txn_create E (el_key e) (lj_enc J \<lparr>lr_Node = el_nodeID e, lr_Epoch = 0, lr_Since = ce_now env\<rparr>) l (ce_o1 env w1) = (w2, Some (Some epoch))"
    "put_leased E (el_key e) (lj_enc J \<lparr>lr_Node = el_nodeID e, lr_Epoch = epoch, lr_Since = ce_now env\<rparr>) l (ce_o2 env w2) = (w3, Some ())"
    "e' = e\<lparr>el_isLeader := True, el_epoch := epoch, el_lease := l\<rparr>"
    "OnElected H = None \<and> w' = ce_o3 env w3 \<or> (\<exists>f. OnElected H = Some f \<and> f epoch (ce_o3 env w3) = (w', True))"
proof -
  define grant where "grant = (\<lambda>w. case e_grant E w of (w', l) \<Rightarrow> (w', Some l))"
  obtain w1 q0 where g0: "run (ce_grant env) grant w = (w1, q0)" by fastforce
  note eq0 = assms [unfolded campaign_def Let_def fst_conv snd_conv grant_def [symmetric] g0 prod.case]
  obtain l where q0: "q0 = Inr l" using eq0 by (cases q0) simp_all
  have g: "run (ce_grant env) grant w = (w1, Inr l)" using g0 q0 by simp
  then have gr: "e_grant E w = (w1, l)" by (auto simp: run_Inr grant_def split: prod.splits)
  define v where "v = lj_enc J \<lparr>lr_Node = el_nodeID e, lr_Epoch = 0, lr_Since = ce_now env\<rparr>"
  obtain w2 q where t: "run (ce_txn env) (txn_create E (el_key e) v l) (ce_o1 env w1) = (w2, q)" by fastforce
  note eq = eq0 [unfolded q0 sum.case v_def [symmetric] t prod.case]
  obtain epoch where q: "q = Inr (Some epoch)"
  proof (cases q)
    case (Inr o1)
    then show ?thesis using eq that by (cases o1) simp_all
  qed (use eq in simp)
  obtain w3 p where u: "run (ce_put env) (put_leased E (el_key e) (lj_enc J \<lparr>lr_Node = el_nodeID e, lr_Epoch = epoch, lr_Since = ce_now env\<rparr>) l) (ce_o2 env w2) = (w3, p)" by fastforce
  note eq = eq [unfolded q sum.case option.case leader_rec.simps u prod.case]
  obtain y where p: "p = Inr y" using eq by (cases p) simp_all
  note eq = eq [unfolded p sum.case]
  have "e' = e\<lparr>el_isLeader := True, el_epoch := epoch, el_lease := l\<rparr> \<and>
      (OnElected H = None \<and> w' = ce_o3 env w3 \<or> (\<exists>f. OnElected H = Some f \<and> f epoch (ce_o3 env w3) = (w', True)))"
  proof (cases "OnElected H")
    case (Some f)
    obtain w5 ok where "f epoch (ce_o3 env w3) = (w5, ok)" by fastforce
    then show ?thesis using eq Some by (cases ok) simp_all
  qed (use eq in simp)
  moreover have "txn_create E (el_key e) v l (ce_o1 env w1) = (w2, Some (Some epoch))" using t q by (simp add: run_Inr)
  moreover have "put_leased E (el_key e) (lj_enc J \<lparr>lr_Node = el_nodeID e, lr_Epoch = epoch, lr_Since = ce_now env\<rparr>) l (ce_o2 env w2) = (w3, Some ())" using u p by (simp add: run_Inr)
  ultimately show thesis using that gr unfolding v_def by blast
qed

context etcd_api
begin

lemma put_leased_runs: "put_leased E k v l w = (w', u) \<Longrightarrow> etcd_runs E w w'"
  using er_put [OF er_refl, of l E w k v] by (auto simp: put_leased_def intro: er_refl split: if_splits)

lemma elected_epoch:
  assumes "campaign E H J env (e, w) = ((e', w'), Elected)" "e_ok E w" "fair_env E env" "fair_leader E H"
  shows "e_rev E w < el_epoch e' \<and> el_epoch e' \<le> e_rev E w' \<and> etcd_runs E w w' \<and> el_isLeader e'"
  using assms(1)
proof (cases rule: campaign_elected)
  case (1 w1 l w2 epoch w3)
  have o: "etcd_runs E x (ce_o1 env x)" "etcd_runs E x (ce_o2 env x)" "etcd_runs E x (ce_o3 env x)" for x using assms(3) by (simp_all add: fair_env_def)
  have g: "etcd_runs E w w1" using er_grant [OF er_refl, of E w] 1(1) by simp
  then have a: "etcd_runs E w (ce_o1 env w1)" by (rule etcd_runs_trans [OF o(1)])
  have "epoch = e_rev E w2 \<and> e_rev E w2 = e_rev E (ce_o1 env w1) + 1" using 1(2) by (auto simp: txn_create_def rev_put split: if_splits)
  moreover have "etcd_runs E (ce_o1 env w1) w2" using txn_create_runs [of "ce_o1 env w1" "el_key e" "lj_enc J \<lparr>lr_Node = el_nodeID e, lr_Epoch = 0, lr_Since = ce_now env\<rparr>" l] 1(2) by simp
  ultimately have t: "epoch = e_rev E w2" "e_rev E w2 = e_rev E (ce_o1 env w1) + 1" "etcd_runs E (ce_o1 env w1) w2" by simp_all
  have b: "etcd_runs E w w2" by (rule etcd_runs_trans [OF t(3) a])
  have c: "etcd_runs E w2 (ce_o3 env w3)" by (rule etcd_runs_trans [OF o(3) etcd_runs_trans [OF put_leased_runs [OF 1(3)] o(2)]])
  have d: "etcd_runs E (ce_o3 env w3) w'" 
  proof (cases "OnElected H")
    case (Some f)
    then have "etcd_runs E (ce_o3 env w3) (fst (f epoch (ce_o3 env w3)))" using assms(4) by (simp add: fair_leader_def)
    then show ?thesis using 1(5) Some by auto
  qed (use 1(5) in \<open>simp add: er_refl\<close>)
  have r: "etcd_runs E w2 w'" by (rule etcd_runs_trans [OF d c])
  have ok2: "e_ok E w2" by (rule runs_ok [OF b assms(2)])
  have "e_rev E w < epoch" using runs_rev [OF a assms(2)] t by simp
  moreover have "epoch \<le> e_rev E w'" using runs_rev [OF r ok2] t by simp
  ultimately show ?thesis using etcd_runs_trans [OF r b] 1(4) by simp
qed

end

text \<open>Every leader's epoch is higher than those of all leaders before it, whatever the candidates and all other clients of etcd do between the two elections; so the epoch can serve as the fencing number
  of the data the leader owns.\<close>

theorem leader_epochs_increase:
  assumes "etcd_api E" "e_ok E w" "campaign E H J env (a, w) = ((a', w1), Elected)" "fair_env E env" "fair_leader E H"
    and "etcd_runs E w1 w2" "campaign E H' J' env' (b, w2) = ((b', w3), Elected)" "fair_env E env'" "fair_leader E H'"
  shows "el_epoch a' < el_epoch b' \<and> el_isLeader b'"
proof -
  have 1: "el_epoch a' \<le> e_rev E w1" "e_ok E w1"
    using etcd_api.elected_epoch [OF assms(1,3,2,4,5)] etcd_api.runs_ok [OF assms(1) _ assms(2)] by auto
  have "e_rev E w1 \<le> e_rev E w2" "e_ok E w2" using etcd_api.runs_rev [OF assms(1,6) 1(2)] etcd_api.runs_ok [OF assms(1,6) 1(2)] by auto
  then show ?thesis using 1 etcd_api.elected_epoch [OF assms(1,7) _ assms(8,9)] by auto
qed

text \<open>Nobody is elected beside a leader: while the key of the leader stands, a campaign of any candidate ends without an election, and, if its clean-up gets through, without a trace in the store.\<close>

theorem standing_leader_is_alone:
  assumes "etcd_api E" "e_ok E w" "e_get E w (el_key e) = Some kv" "\<And>x. ce_o1 env x = x"
  shows "snd (campaign E H J env (e, w)) \<noteq> Elected \<and> fst (fst (campaign E H J env (e, w))) = e \<and> e_get E (snd (fst (campaign E H J env (e, w)))) = e_get E w"
proof -
  obtain w1 l where g: "e_grant E w = (w1, l)" by fastforce
  have gn: "l \<noteq> 0" "\<not> e_lease E w l" "e_get E w1 = e_get E w" using etcd_api.grant_new [OF assms(1) g assms(2)] by auto
  have k: "e_get E (revoke E n l w1) = e_get E w" for n
  proof -
    have "e_get E (e_revoke E w1 l) k = e_get E w k" for k
      using etcd_api.get_revoke [OF assms(1), of w1 l k] etcd_api.kv_lease [OF assms(1,2), of k] gn by (auto split: option.splits)
    then show ?thesis using gn by (cases n) (auto simp: revoke_def run_def)
  qed
  have "txn_create E (el_key e) v l w1 = (w1, Some None)" for v using assms(3) gn by (simp add: txn_create_def)
  then show ?thesis using k gn by (cases "ce_grant env"; cases "ce_txn env") (auto simp: campaign_def Let_def run_def g assms(4))
qed


section \<open>Two elections\<close>

definition text_leader_json :: leader_json where
  "text_leader_json = \<lparr>lj_enc = (\<lambda>r. show_int (lr_Epoch r)), lj_dec = (\<lambda>b. map_option (\<lambda>t. \<lparr>lr_Node = [], lr_Epoch = t, lr_Since = 0\<rparr>) (tonumber b))\<rparr>"

definition calm_campaign :: "'w campaign_env" where
  "calm_campaign = \<lparr>ce_grant = Delivered, ce_o1 = (\<lambda>w. w), ce_now = 7, ce_txn = Delivered, ce_revoke = Delivered, ce_o2 = (\<lambda>w. w), ce_put = Delivered, ce_o3 = (\<lambda>w. w)\<rparr>"

definition no_leader_hooks :: "'w leader_hooks" where
  "no_leader_hooks = \<lparr>OnElected = None, OnResigned = None\<rparr>"

lemma calm_fair: "fair_env E calm_campaign" "fair_leader E no_leader_hooks"
  by (simp_all add: fair_env_def fair_leader_def calm_campaign_def no_leader_hooks_def er_refl)

lemma free_election:
  assumes "etcd_api E" "e_ok E w" "e_get E w (el_key e) = None"
  shows "\<exists>e' w'. campaign E no_leader_hooks J calm_campaign (e, w) = ((e', w'), Elected) \<and> e_lease E w' (el_lease e') \<and> el_lease e' \<noteq> 0
    \<and> (\<exists>kv. e_get E w' (el_key e) = Some kv \<and> kv_Lease kv = el_lease e')"
proof -
  obtain w1 l where g: "e_grant E w = (w1, l)" by fastforce
  have gn: "l \<noteq> 0" "e_lease E w1 l" "e_get E w1 = e_get E w" using etcd_api.grant_new [OF assms(1) g assms(2)] by auto
  show ?thesis using gn assms(3) etcd_api.lease_put [OF assms(1)] etcd_api.get_put [OF assms(1)]
    by (simp add: campaign_def Let_def calm_campaign_def no_leader_hooks_def run_def g txn_create_def put_leased_def)
qed

theorem leader_epochs_increase_witness:
  "\<exists>a' w1 b' w3. campaign mem_etcd no_leader_hooks text_leader_json calm_campaign (NewElector [] ''world'' ''a'', me_empty) = ((a', w1), Elected)
    \<and> campaign mem_etcd no_leader_hooks text_leader_json calm_campaign (NewElector [] ''world'' ''b'', e_revoke mem_etcd w1 (el_lease a')) = ((b', w3), Elected) \<and> el_epoch a' < el_epoch b'"
proof -
  note api = mem_store.etcd_api_axioms
  have ok: "e_ok mem_etcd me_empty" and free: "e_get mem_etcd me_empty (el_key (NewElector [] ''world'' ''a'')) = None" by (simp_all add: me_ok_def me_empty_def)
  obtain a' w1 kv where a: "campaign mem_etcd no_leader_hooks text_leader_json calm_campaign (NewElector [] ''world'' ''a'', me_empty) = ((a', w1), Elected)"
    and l: "el_lease a' \<noteq> 0" "e_get mem_etcd w1 (el_key (NewElector [] ''world'' ''a'')) = Some kv" "kv_Lease kv = el_lease a'"
    using free_election [OF api ok free] by blast
  let ?w2 = "e_revoke mem_etcd w1 (el_lease a')"
  have runs: "etcd_runs mem_etcd w1 ?w2" by (rule er_revoke [OF er_refl])
  have "etcd_runs mem_etcd me_empty w1" using mem_store.elected_epoch [OF a ok calm_fair] by blast
  then have ok2: "e_ok mem_etcd ?w2" using mem_store.runs_ok ok runs by blast
  have free2: "e_get mem_etcd ?w2 (el_key (NewElector [] ''world'' ''b'')) = None"
    using mem_store.get_revoke [of w1 "el_lease a'"] l by (simp add: NewElector_def)
  obtain b' w3 where b: "campaign mem_etcd no_leader_hooks text_leader_json calm_campaign (NewElector [] ''world'' ''b'', ?w2) = ((b', w3), Elected)"
    using free_election [OF api ok2 free2] by blast
  show ?thesis using a b leader_epochs_increase [OF api ok a calm_fair runs b calm_fair] by blast
qed

theorem standing_leader_is_alone_witness:
  "snd (campaign mem_etcd no_leader_hooks text_leader_json calm_campaign (NewElector [] ''world'' ''b'', me_put me_empty ''/leader/world'' ''a'' 0)) \<noteq> Elected"
proof -
  have "e_ok mem_etcd (me_put me_empty ''/leader/world'' ''a'' 0)"
    "e_get mem_etcd (me_put me_empty ''/leader/world'' ''a'' 0) (el_key (NewElector [] ''world'' ''b'')) = Some \<lparr>kv_Value = ''a'', kv_CreateRevision = 1, kv_ModRevision = 1, kv_Lease = 0\<rparr>"
    by (simp_all add: me_put_def me_empty_def me_ok_def NewElector_def)
  from standing_leader_is_alone [OF mem_store.etcd_api_axioms this, of calm_campaign no_leader_hooks text_leader_json] show ?thesis by (simp add: calm_campaign_def)
qed

end
