(* ===== verification/World.thy ===== *)
theory World
  imports Leader Fencing Protocol Auth Serialize
begin

text \<open>
  The world service, \<^verbatim>\<open>internal/world/world.go\<close>: one leader at a time owns the boss. The service is an actor with a mailbox; its state is the record \<open>world_svc\<close>, its tasks are the datatype \<open>world_task\<close> (the
  closures of the code, one constructor each), and what it sends or starts is a list of outputs. The goroutine of \<open>flushBoss\<close> is \<open>run_flushBoss\<close>. Protobuf is the parameter \<open>boss_codec\<close>; clock readings are
  arguments, in nanoseconds. The first reading of the zero-valued deadlines is 0.

  Shown here: the boss's life stays within its bounds and every hit counts exactly once, a boss is killed once; a new leader shuts the old one out; and what is lost in an orderly stop or by flushes that overtake
  each other.
\<close>

section \<open>State\<close>

definition worldShard :: nat where "worldShard = 0"
definition bossMaxHP :: int where "bossMaxHP = 1000000"
definition bossRespawn :: int where "bossRespawn = 10 * 60 * 1000000000"
definition flushInterval :: int where "flushInterval = 3 * 1000000000"
definition mailboxSize :: nat where "mailboxSize = 4096"

record WorldBossState =
  wb_BossId :: nat
  wb_Hp :: int
  wb_MaxHp :: int
  wb_StartedAt :: int
  wb_Alive :: bool

record boss_codec =
  enc_boss :: "WorldBossState \<Rightarrow> bytes option"
  dec_boss :: "bytes \<Rightarrow> WorldBossState option"

record world_msg =
  wm_cmd :: nat
  wm_hit :: "int option" \<comment> \<open>the damage of a hit request that could be unpacked\<close>

datatype world_task = TMsg world_msg | TInstall int WorldBossState | TStepDown | TRemark int | TFlushAll

record world_svc =
  wv_mbox :: "world_task list"
  wv_subs :: nat
  wv_epoch :: int
  wv_boss :: "WorldBossState option"
  wv_dirty :: bool
  wv_dirtyAt :: int
  wv_nextFlush :: int
  wv_nextEvent :: int
  wv_running :: bool

datatype world_out =
    WorldErr ErrCode
  | BossState "WorldBossState option"
  | HitResp int bool
  | FlushBoss int bytes int \<comment> \<open>the goroutine of \<open>flushBoss\<close>: epoch, value, time of the mark\<close>
  | Announce
  | FlushAllBlob "(bytes \<times> int) option" \<comment> \<open>what the closure of \<open>FlushAll\<close> leaves in its variables\<close>

definition world_New :: world_svc where
  "world_New = \<lparr>wv_mbox = [], wv_subs = 0, wv_epoch = 0, wv_boss = None, wv_dirty = False, wv_dirtyAt = 0, wv_nextFlush = 0, wv_nextEvent = 0, wv_running = False\<rparr>"

definition world_post :: "world_task \<Rightarrow> world_svc \<Rightarrow> world_svc \<times> bool" where
  "world_post tk s = (if length (wv_mbox s) < mailboxSize then (s\<lparr>wv_mbox := wv_mbox s @ [tk]\<rparr>, True) else (s, False))"

section \<open>The actor\<close>

definition markDirty :: "int \<Rightarrow> world_svc \<Rightarrow> world_svc" where
  "markDirty now s = (if wv_dirty s then s else s\<lparr>wv_dirty := True, wv_dirtyAt := now\<rparr>)"

definition flushBoss :: "boss_codec \<Rightarrow> world_svc \<Rightarrow> world_svc \<times> world_out list" where
  "flushBoss C s =
     (case wv_boss s of
        None \<Rightarrow> (s, [])
      | Some b \<Rightarrow>
          (case enc_boss C b of
             None \<Rightarrow> (s, [])
           | Some blob \<Rightarrow> (s\<lparr>wv_dirty := False\<rparr>, [FlushBoss (wv_epoch s) blob (wv_dirtyAt s)])))"

definition handleHit :: "boss_codec \<Rightarrow> int \<Rightarrow> int option \<Rightarrow> world_svc \<Rightarrow> world_svc \<times> world_out list" where
  "handleHit C now req s =
     (case req of
        None \<Rightarrow> (s, [WorldErr E_BadRequest])
      | Some dmg \<Rightarrow>
          (case wv_boss s of
             None \<Rightarrow> (s, [WorldErr E_NotFound])
           | Some b \<Rightarrow>
               if \<not> wb_Alive b then (s, [WorldErr E_NotFound])
               else if dmg \<le> 0 then (s, [WorldErr E_BadRequest])
               else let hp = i64 (wb_Hp b - dmg); killed = (hp \<le> 0);
                        b1 = (if killed then b\<lparr>wb_Hp := 0, wb_Alive := False\<rparr> else b\<lparr>wb_Hp := hp\<rparr>);
                        s1 = markDirty now (s\<lparr>wv_boss := Some b1, wv_nextEvent := (if killed then now + bossRespawn else wv_nextEvent s)\<rparr>);
                        resp = HitResp (wb_Hp b1) killed
                    in if killed then (case flushBoss C s1 of (s2, outs) \<Rightarrow> (s2, resp # outs @ [Announce])) else (s1, [resp])))"

definition world_handle :: "boss_codec \<Rightarrow> int \<Rightarrow> world_msg \<Rightarrow> world_svc \<Rightarrow> world_svc \<times> world_out list" where
  "world_handle C now m s =
     (if \<not> wv_running s then (s, [WorldErr E_Unavailable])
      else if wm_cmd m = CmdWorldBossState then (s, [BossState (wv_boss s)])
      else if wm_cmd m = CmdWorldBossHit then handleHit C now (wm_hit m) s
      else (s, [WorldErr E_BadRequest]))"

definition world_exec :: "boss_codec \<Rightarrow> int \<Rightarrow> world_task \<Rightarrow> world_svc \<Rightarrow> world_svc \<times> world_out list" where
  "world_exec C now tk s =
     (case tk of
        TMsg m \<Rightarrow> world_handle C now m s
      | TInstall epoch boss \<Rightarrow>
          (s\<lparr>wv_epoch := epoch, wv_boss := Some boss, wv_running := True, wv_nextFlush := now + flushInterval, wv_nextEvent := now + 60 * 1000000000\<rparr>, [])
      | TStepDown \<Rightarrow> (s\<lparr>wv_running := False, wv_dirty := False, wv_boss := None\<rparr>, [])
      | TRemark t \<Rightarrow> (if wv_dirty s then s else s\<lparr>wv_dirty := True, wv_dirtyAt := t\<rparr>, [])
      | TFlushAll \<Rightarrow>
          (case wv_boss s of
             None \<Rightarrow> (s, [FlushAllBlob None])
           | Some b \<Rightarrow>
               if \<not> wv_dirty s then (s, [FlushAllBlob None])
               else (s\<lparr>wv_dirty := False\<rparr>, [FlushAllBlob (map_option (\<lambda>blob. (blob, wv_epoch s)) (enc_boss C b))])))"

definition respawn :: "boss_codec \<Rightarrow> int \<Rightarrow> nat option \<Rightarrow> world_svc \<Rightarrow> world_svc \<times> world_out list" where
  "respawn C now nextID s =
     (case nextID of
        None \<Rightarrow> (s\<lparr>wv_nextEvent := now + 60 * 1000000000\<rparr>, [])
      | Some ident \<Rightarrow>
          (case flushBoss C (markDirty now (s\<lparr>wv_boss := Some \<lparr>wb_BossId = ident, wb_Hp = bossMaxHP, wb_MaxHp = bossMaxHP, wb_StartedAt = unix_milli now, wb_Alive = True\<rparr>\<rparr>)) of
             (s1, outs) \<Rightarrow> (s1, outs @ [Announce])))"

definition world_tick :: "boss_codec \<Rightarrow> int \<Rightarrow> nat option \<Rightarrow> world_svc \<Rightarrow> world_svc \<times> world_out list" where
  "world_tick C now nextID s =
     (if \<not> wv_running s then (s, [])
      else case (if wv_dirty s \<and> now > wv_nextFlush s then flushBoss C (s\<lparr>wv_nextFlush := now + flushInterval\<rparr>) else (s, [])) of
        (s1, outs1) \<Rightarrow>
          (case (case wv_boss s1 of None \<Rightarrow> (s1, []) | Some b \<Rightarrow> if \<not> wb_Alive b \<and> now > wv_nextEvent s1 then respawn C now nextID s1 else (s1, [])) of
             (s2, outs2) \<Rightarrow> (s2, outs1 @ outs2)))"

text \<open>One turn of the loop: the first task of the mailbox, or the ticker.\<close>

datatype world_event = WTask int | WTick int "nat option"

definition world_turn :: "boss_codec \<Rightarrow> world_event \<Rightarrow> world_svc \<Rightarrow> world_svc \<times> world_out list" where
  "world_turn C ev s =
     (case ev of
        WTask now \<Rightarrow> (case wv_mbox s of [] \<Rightarrow> (s, []) | tk # tks \<Rightarrow> world_exec C now tk (s\<lparr>wv_mbox := tks\<rparr>))
      | WTick now nextID \<Rightarrow> world_tick C now nextID s)"

fun world_run :: "boss_codec \<Rightarrow> world_event list \<Rightarrow> world_svc \<Rightarrow> world_svc \<times> world_out list" where
  "world_run C [] s = (s, [])"
| "world_run C (ev # evs) s = (case world_turn C ev s of (s1, o1) \<Rightarrow> (case world_run C evs s1 of (s2, o2) \<Rightarrow> (s2, o1 @ o2)))"

section \<open>Redis\<close>

datatype flush_outcome = Flushed | StopElector | PostRemark int

definition run_flushBoss :: "'r redis \<Rightarrow> keys \<Rightarrow> net \<Rightarrow> int \<Rightarrow> bytes \<Rightarrow> int \<Rightarrow> 'r \<Rightarrow> 'r \<times> flush_outcome" where
  "run_flushBoss R ks n epoch blob dirtyAt s =
     (case WriteModules R ks n worldShard epoch [(keys_WorldBoss ks, blob)] s of
        (s1, Inr u) \<Rightarrow> (s1, Flushed)
      | (s1, Inl e) \<Rightarrow> (s1, if e = ErrFenced then StopElector else PostRemark dirtyAt))"

definition loadBoss :: "'r redis \<Rightarrow> boss_codec \<Rightarrow> keys \<Rightarrow> net \<Rightarrow> nat option \<Rightarrow> int \<Rightarrow> 'r \<Rightarrow> WorldBossState option" where
  "loadBoss R C ks n nextID now s =
     (if n \<noteq> Delivered then None
      else case GET R s (keys_WorldBoss ks) of
        None \<Rightarrow> map_option (\<lambda>ident. \<lparr>wb_BossId = ident, wb_Hp = bossMaxHP, wb_MaxHp = bossMaxHP, wb_StartedAt = unix_milli now, wb_Alive = True\<rparr>) nextID
      | Some blob \<Rightarrow> dec_boss C blob)"

section \<open>Being elected and resigning\<close>

text \<open>The state the hooks work on: etcd, Redis, and the world service of every node.\<close>

record ('e, 'r) arena =
  ar_etcd :: 'e
  ar_redis :: 'r
  ar_svc :: "string \<Rightarrow> world_svc"

record elect_env =
  ee_raise :: net
  ee_load :: net
  ee_nextID :: "nat option"
  ee_now :: int
  ee_installed :: bool \<comment> \<open>the actor got to the closure before the context ended\<close>
  ee_turns :: "world_event list" \<comment> \<open>what the actor did until then\<close>
  ee_sub :: bool

definition upd_node :: "string \<Rightarrow> (world_svc \<Rightarrow> world_svc) \<Rightarrow> ('e, 'r) arena \<Rightarrow> ('e, 'r) arena" where
  "upd_node nd f w = w\<lparr>ar_svc := (ar_svc w)(nd := f (ar_svc w nd))\<rparr>"

definition onElected :: "'r redis \<Rightarrow> boss_codec \<Rightarrow> keys \<Rightarrow> string \<Rightarrow> elect_env \<Rightarrow> int \<Rightarrow> ('e, 'r) arena \<Rightarrow> ('e, 'r) arena \<times> bool" where
  "onElected R C ks nd env epoch w =
     (case RaiseEpoch R ks (ee_raise env) worldShard epoch (ar_redis w) of
        (r1, Inl e) \<Rightarrow> (w\<lparr>ar_redis := r1\<rparr>, False)
      | (r1, Inr u) \<Rightarrow>
          (case loadBoss R C ks (ee_load env) (ee_nextID env) (ee_now env) r1 of
             None \<Rightarrow> (w\<lparr>ar_redis := r1\<rparr>, False)
           | Some boss \<Rightarrow>
               (case world_post (TInstall epoch boss) (ar_svc w nd) of
                  (s1, False) \<Rightarrow> (w\<lparr>ar_redis := r1\<rparr>, False)
                | (s1, True) \<Rightarrow>
                    let s2 = fst (world_run C (ee_turns env) s1) in
                    if \<not> ee_installed env then (upd_node nd (\<lambda>_. s2) (w\<lparr>ar_redis := r1\<rparr>), False)
                    else if \<not> ee_sub env then (upd_node nd (\<lambda>_. s2) (w\<lparr>ar_redis := r1\<rparr>), False)
                    else (upd_node nd (\<lambda>_. s2\<lparr>wv_subs := wv_subs s2 + 1\<rparr>) (w\<lparr>ar_redis := r1\<rparr>), True))))"

definition onResigned :: "string \<Rightarrow> ('e, 'r) arena \<Rightarrow> ('e, 'r) arena" where
  "onResigned nd w = upd_node nd (\<lambda>s. fst (world_post TStepDown (s\<lparr>wv_subs := 0\<rparr>))) w"

definition world_hooks :: "'r redis \<Rightarrow> boss_codec \<Rightarrow> keys \<Rightarrow> string \<Rightarrow> elect_env \<Rightarrow> ('e, 'r) arena leader_hooks" where
  "world_hooks R C ks nd env = \<lparr>OnElected = Some (onElected R C ks nd env), OnResigned = Some (onResigned nd)\<rparr>"

definition arena_etcd :: "'e etcd \<Rightarrow> ('e, 'r) arena etcd" where
  "arena_etcd E = etcd_on ar_etcd (\<lambda>e w. w\<lparr>ar_etcd := e\<rparr>) E"

section \<open>Stopping\<close>

definition world_StopAccepting :: "('e, 'r) arena etcd \<Rightarrow> ('e, 'r) arena leader_hooks \<Rightarrow> net \<Rightarrow> string \<Rightarrow> elector \<times> ('e, 'r) arena \<Rightarrow> elector \<times> ('e, 'r) arena" where
  "world_StopAccepting E H n nd ew =
     (case elector_Stop E H n ew of (e1, w1) \<Rightarrow> (e1, upd_node nd (\<lambda>s. s\<lparr>wv_subs := 0\<rparr>) w1))"

text \<open>\<open>FlushAll\<close>: \<open>turns\<close> is what the actor does after the closure was posted; if it gets to the closure before the context ends, the blob is written.\<close>

definition world_FlushAll :: "'r redis \<Rightarrow> boss_codec \<Rightarrow> keys \<Rightarrow> net \<Rightarrow> world_event list \<Rightarrow> string \<Rightarrow> ('e, 'r) arena \<Rightarrow> ('e, 'r) arena \<times> unit result" where
  "world_FlushAll R C ks n turns nd w =
     (case world_run C turns (fst (world_post TFlushAll (ar_svc w nd))) of
        (s1, outs) \<Rightarrow>
          let w1 = upd_node nd (\<lambda>_. s1) w in
          (case List.map_filter (\<lambda>x. case x of FlushAllBlob b \<Rightarrow> Some b | _ \<Rightarrow> None) outs of
             [] \<Rightarrow> (w1, Inl ErrRedis)
           | None # _ \<Rightarrow> (w1, Inr ())
           | Some (blob, epoch) # _ \<Rightarrow>
               (case WriteModules R ks n worldShard epoch [(keys_WorldBoss ks, blob)] (ar_redis w1) of (r1, q) \<Rightarrow> (w1\<lparr>ar_redis := r1\<rparr>, q))))"


section \<open>The boss\<close>

definition boss_ok :: "WorldBossState \<Rightarrow> bool" where
  "boss_ok b \<longleftrightarrow> 0 \<le> wb_Hp b \<and> wb_Hp b \<le> wb_MaxHp b \<and> wb_MaxHp b < 2 ^ 63 \<and> (wb_Alive b \<longleftrightarrow> 0 < wb_Hp b)"

fun task_ok :: "world_task \<Rightarrow> bool" where
  "task_ok (TMsg m) = (case wm_hit m of None \<Rightarrow> True | Some d \<Rightarrow> in_i64 d)"
| "task_ok (TInstall e b) = boss_ok b"
| "task_ok tk = True"

definition world_ok :: "world_svc \<Rightarrow> bool" where
  "world_ok s \<longleftrightarrow> (\<forall>b. wv_boss s = Some b \<longrightarrow> boss_ok b) \<and> (\<forall>tk\<in>set (wv_mbox s). task_ok tk)"

lemma markDirty_fields [simp]: "wv_boss (markDirty now s) = wv_boss s" "wv_mbox (markDirty now s) = wv_mbox s" "wv_running (markDirty now s) = wv_running s" "wv_epoch (markDirty now s) = wv_epoch s"
  by (simp_all add: markDirty_def)

lemma flushBoss_fields [simp]: "wv_boss (fst (flushBoss C s)) = wv_boss s" "wv_mbox (fst (flushBoss C s)) = wv_mbox s" "wv_running (fst (flushBoss C s)) = wv_running s"
  by (simp_all add: flushBoss_def split: option.split)

definition hit :: "int \<Rightarrow> WorldBossState \<Rightarrow> WorldBossState" where
  "hit d b = (if wb_Hp b \<le> d then b\<lparr>wb_Hp := 0, wb_Alive := False\<rparr> else b\<lparr>wb_Hp := wb_Hp b - d\<rparr>)"

lemma hit_ok: "boss_ok b \<Longrightarrow> 0 < d \<Longrightarrow> boss_ok (hit d b)"
  by (auto simp: boss_ok_def hit_def)

text \<open>A hit that counts.\<close>

lemma handleHit_counts:
  assumes "wv_boss s = Some b" "boss_ok b" "wb_Alive b" "0 < d" "in_i64 d"
  shows "wv_boss (fst (handleHit C now (Some d) s)) = Some (hit d b) \<and> wv_mbox (fst (handleHit C now (Some d) s)) = wv_mbox s \<and> wv_running (fst (handleHit C now (Some d) s)) = wv_running s
    \<and> filter (\<lambda>x. \<exists>hp. x = HitResp hp True) (snd (handleHit C now (Some d) s)) = (if wb_Hp b \<le> d then [HitResp 0 True] else [])"
proof -
  have i: "i64 (wb_Hp b - d) = wb_Hp b - d" using assms by (intro i64_id) (auto simp: boss_ok_def in_i64_def)
  have q: "filter (\<lambda>x. \<exists>hp. x = HitResp hp True) (snd (flushBoss C s1)) = []" for s1 by (simp add: flushBoss_def split: option.split)
  show ?thesis using assms q by (auto simp: handleHit_def i hit_def Let_def split_beta)
qed

lemma world_exec_ok: "world_ok s \<Longrightarrow> task_ok tk \<Longrightarrow> world_ok (fst (world_exec C now tk s))"
proof (cases tk)
  case (TMsg m)
  assume s: "world_ok s" and m: "task_ok tk"
  have "world_ok (fst (handleHit C now (wm_hit m) s))"
  proof (cases "\<exists>d b. wm_hit m = Some d \<and> wv_boss s = Some b \<and> wb_Alive b \<and> 0 < d")
    case True
    then obtain d b where d: "wm_hit m = Some d" "wv_boss s = Some b" "wb_Alive b" "0 < d" by blast
    have "boss_ok b" "in_i64 d" using s m d by (simp_all add: world_ok_def TMsg)
    then show ?thesis using handleHit_counts [of s b d C now] d s hit_ok [of b d] by (simp add: world_ok_def)
  next
    case False
    then have "fst (handleHit C now (wm_hit m) s) = s" by (auto simp: handleHit_def split: option.split)
    then show ?thesis using s by simp
  qed
  then show ?thesis using s by (simp add: TMsg world_exec_def world_handle_def)
qed (auto simp: world_exec_def world_ok_def split: option.split)

lemma world_tick_ok: "world_ok s \<Longrightarrow> world_ok (fst (world_tick C now nextID s))"
proof -
  assume s: "world_ok s"
  define so where "so = (if wv_dirty s \<and> now > wv_nextFlush s then flushBoss C (s\<lparr>wv_nextFlush := now + flushInterval\<rparr>) else (s, []))"
  have so: "world_ok (fst so)" using s by (simp add: so_def world_ok_def)
  have "world_ok (fst (respawn C now nextID (fst so)))"
    using so by (auto simp: respawn_def world_ok_def split_beta boss_ok_def bossMaxHP_def split: option.split)
  then show ?thesis using so s by (simp add: world_tick_def split_beta flip: so_def split: option.split)
qed

lemma world_turn_ok: "world_ok s \<Longrightarrow> world_ok (fst (world_turn C ev s))"
proof -
  assume s: "world_ok s"
  show ?thesis
  proof (cases ev)
    case (WTask now)
    show ?thesis
    proof (cases "wv_mbox s")
      case (Cons tk tks)
      then have "world_ok (s\<lparr>wv_mbox := tks\<rparr>)" "task_ok tk" using s by (simp_all add: world_ok_def)
      then show ?thesis using world_exec_ok by (simp add: world_turn_def WTask Cons)
    qed (use s WTask in \<open>simp add: world_turn_def\<close>)
  next
    case (WTick now nextID)
    then show ?thesis using world_tick_ok [OF s] by (simp add: world_turn_def)
  qed
qed

text \<open>C34: The boss's life stays within its bounds. Whatever tasks the service works off and whenever it ticks, the boss's life is between zero and its maximum, and the boss is alive exactly while it has life left; no
  damage, however large, makes it wrap around.\<close>

theorem boss_stays_in_bounds:
  assumes "world_ok s"
  shows "world_ok (fst (world_run C evs s))"
  using assms
proof (induction evs arbitrary: s)
  case (Cons ev evs)
  then show ?case using world_turn_ok [of s C ev] by (simp add: split_beta)
qed simp

definition hits_box :: "int list \<Rightarrow> world_task list" where
  "hits_box ds = map (\<lambda>d. TMsg \<lparr>wm_cmd = CmdWorldBossHit, wm_hit = Some d\<rparr>) ds"

definition kills :: "world_out list \<Rightarrow> nat" where
  "kills outs = length (filter (\<lambda>x. \<exists>hp. x = HitResp hp True) outs)"

text \<open>Every hit counts exactly once and a boss is killed once. When the players' hits wait in the mailbox of the leader, in any order and with any damage, then after all of them are worked off the boss has lost exactly
  their sum, down to zero; exactly one of them is answered as the one that killed the boss if the sum reaches its life, and none otherwise.\<close>

theorem every_hit_counts_once:
  assumes "wv_boss s = Some b" "boss_ok b" "wv_running s" "wv_mbox s = hits_box ds" "\<forall>d\<in>set ds. 0 < d \<and> in_i64 d" "length nows = length ds"
  shows "\<exists>b'. wv_boss (fst (world_run C (map WTask nows) s)) = Some b' \<and> wb_Hp b' = max 0 (wb_Hp b - sum_list ds)
    \<and> kills (snd (world_run C (map WTask nows) s)) = (if wb_Alive b \<and> wb_Hp b \<le> sum_list ds then 1 else 0)"
  using assms
proof (induction ds arbitrary: s b nows)
  case Nil
  then show ?case by (auto simp: kills_def boss_ok_def)
next
  case (Cons d ds)
  obtain t ts where n: "nows = t # ts" "length ts = length ds" using Cons.prems(6) by (cases nows) auto
  have d: "0 < d" "in_i64 d" "\<forall>d\<in>set ds. 0 < d \<and> in_i64 d" using Cons.prems(5) by auto
  have nn: "0 \<le> sum_list ds" using d(3) by (intro sum_list_nonneg) auto
  define s0 where "s0 = s\<lparr>wv_mbox := hits_box ds\<rparr>"
  define so where "so = handleHit C t (Some d) s0"
  have s0: "wv_boss s0 = Some b" "wv_running s0" "wv_mbox s0 = hits_box ds" using Cons.prems by (simp_all add: s0_def)
  have turn: "world_turn C (WTask t) s = so"
    using Cons.prems(3,4) s0(2) by (simp add: world_turn_def hits_box_def world_exec_def world_handle_def so_def s0_def)
  show ?case
  proof (cases "wb_Alive b")
    case True
    note h = handleHit_counts [OF s0(1) Cons.prems(2) True d(1,2), of C t, folded so_def]
    obtain b' where r: "wv_boss (fst (world_run C (map WTask ts) (fst so))) = Some b'" "wb_Hp b' = max 0 (wb_Hp (hit d b) - sum_list ds)"
        "kills (snd (world_run C (map WTask ts) (fst so))) = (if wb_Alive (hit d b) \<and> wb_Hp (hit d b) \<le> sum_list ds then 1 else 0)"
      using Cons.IH [of "fst so" "hit d b" ts] h hit_ok [OF Cons.prems(2) d(1)] s0 d(3) n(2) by auto
    have "kills (snd so) = (if wb_Hp b \<le> d then 1 else 0)" using h by (simp add: kills_def)
    then show ?thesis using r nn True by (auto simp: n turn split_beta kills_def hit_def)
  next
    case False
    have so: "so = (s0, [WorldErr E_NotFound])" using s0(1) False by (simp add: so_def handleHit_def)
    have hp: "wb_Hp b = 0" using Cons.prems(2) False by (auto simp: boss_ok_def)
    obtain b' where "wv_boss (fst (world_run C (map WTask ts) s0)) = Some b'" "wb_Hp b' = max 0 (wb_Hp b - sum_list ds)"
        "kills (snd (world_run C (map WTask ts) s0)) = (if wb_Alive b \<and> wb_Hp b \<le> sum_list ds then 1 else 0)"
      using Cons.IH [OF s0(1) Cons.prems(2) s0(2,3) d(3) n(2)] by blast
    then show ?thesis using hp False d(1) nn by (auto simp: n turn so split_beta kills_def)
  qed
qed


section \<open>A new leader\<close>

lemma arena_etcd_api: "etcd_api E \<Longrightarrow> etcd_api (arena_etcd E)"
  unfolding arena_etcd_def by (rule etcd_on_api) simp_all

lemma same_arena_runs: "ar_etcd w' = ar_etcd w \<Longrightarrow> etcd_runs (arena_etcd E) w w'"
  by (rule er_other [OF er_refl]) (simp_all add: arena_etcd_def)

lemma upd_node_fields [simp]: "ar_etcd (upd_node nd f w) = ar_etcd w" "ar_redis (upd_node nd f w) = ar_redis w" "ar_svc (upd_node nd f w) = (ar_svc w)(nd := f (ar_svc w nd))"
  by (simp_all add: upd_node_def)

lemma onElected_etcd: "ar_etcd (fst (onElected R C ks nd env epoch w)) = ar_etcd w"
  by (simp add: onElected_def Let_def split: prod.split sum.split option.split bool.split)

lemma world_hooks_fair: "fair_leader (arena_etcd E) (world_hooks R C ks nd env)"
  using onElected_etcd by (auto simp: fair_leader_def world_hooks_def onResigned_def intro!: same_arena_runs)

lemma onElected_raised:
  assumes "onElected R C ks nd env epoch w = (w', True)"
  shows "\<exists>r1. RaiseEpoch R ks (ee_raise env) worldShard epoch (ar_redis w) = (r1, Inr ()) \<and> ar_redis w' = r1"
proof -
  obtain r1 q where r: "RaiseEpoch R ks (ee_raise env) worldShard epoch (ar_redis w) = (r1, q)" by fastforce
  show ?thesis using assms
    by (cases q) (auto simp: onElected_def r Let_def split: option.splits prod.splits bool.splits if_splits)
qed

text \<open>C33: A new leader shuts the old one out. When a node was elected and later another campaign succeeds with the world's hooks, whatever happened in between, the new epoch is higher, and from then on no flush of the old
  leader changes anything in Redis; if it is answered, the answer makes the old leader give up.\<close>

theorem new_world_leader_shuts_out_the_old:
  fixes w :: "('e, 'r) arena"
  assumes "etcd_api E" "redis_api R" "e_ok (arena_etcd E) w" "campaign (arena_etcd E) H J env (a, w) = ((a', w1), Elected)" "fair_env (arena_etcd E) env" "fair_leader (arena_etcd E) H"
    and "etcd_runs (arena_etcd E) w1 w2" "campaign (arena_etcd E) (world_hooks R C ks nd ee) J' env' (b, w2) = ((b', w3), Elected)" "fair_env (arena_etcd E) env'"
    and "server_runs R ks (ar_redis w3) r"
  shows "el_epoch a' < el_epoch b' \<and> run_flushBoss R ks n (el_epoch a') blob t r = (r, if n = Delivered then StopElector else PostRemark t)"
proof -
  note api = arena_etcd_api [OF assms(1)]
  have a: "el_epoch a' \<le> e_rev (arena_etcd E) w1" "e_ok (arena_etcd E) w1"
    using etcd_api.elected_epoch [OF api assms(4,3,5,6)] etcd_api.runs_ok [OF api _ assms(3)] by auto
  have w2: "e_rev (arena_etcd E) w1 \<le> e_rev (arena_etcd E) w2" "e_ok (arena_etcd E) w2"
    using etcd_api.runs_rev [OF api assms(7) a(2)] etcd_api.runs_ok [OF api assms(7) a(2)] by auto
  have b: "e_rev (arena_etcd E) w2 < el_epoch b'"
    using etcd_api.elected_epoch [OF api assms(8) w2(2) assms(9) world_hooks_fair] by blast
  obtain w4 where "onElected R C ks nd ee (el_epoch b') w4 = (w3, True)"
    using assms(8) by (cases rule: campaign_elected) (auto simp: world_hooks_def)
  then have "epoch_num R ks (ar_redis w3) worldShard = Some (el_epoch b')"
    using redis_api.raised_epoch [OF assms(2)] onElected_raised by metis
  then obtain c where c: "epoch_num R ks r worldShard = Some c" "el_epoch b' \<le> c"
    using redis_api.server_runs_epoch_mono [OF assms(2,10)] by blast
  then have "el_epoch a' < c" using a w2 b by simp
  then show ?thesis using a w2 b c(1)
    by (cases n) (simp_all add: run_flushBoss_def WriteModules_def scriptWriteModules_kv [where kv = "[(_, _)]", simplified] run_def fenced_reply_def)
qed

section \<open>What is lost\<close>

text \<open>An orderly stop drops the last damage. \<open>StopAccepting\<close> resigns before \<open>FlushAll\<close> runs, and resigning makes the service forget the boss; so when a leader with unsaved damage stops in order, the flush finds nothing to write:
  it reports success, and Redis keeps the state from before the damage.\<close>

theorem orderly_stop_drops_the_damage:
  assumes "el_isLeader e" "wv_running (ar_svc w nd)" "wv_boss (ar_svc w nd) = Some b" "wv_dirty (ar_svc w nd)" "wv_mbox (ar_svc w nd) = []"
    and "world_StopAccepting (arena_etcd E) (world_hooks R C ks nd ee) n nd (e, w) = (e1, w1)"
    and "world_FlushAll R C ks n' [WTask t1, WTask t2] nd w1 = (w2, q)"
  shows "q = Inr () \<and> ar_redis w2 = ar_redis w \<and> wv_boss (ar_svc w2 nd) = None \<and> \<not> wv_dirty (ar_svc w2 nd)"
proof -
  let ?s = "(ar_svc w nd)\<lparr>wv_subs := 0, wv_mbox := [TStepDown]\<rparr>"
  have rv: "ar_svc (revoke (arena_etcd E) n l v) = ar_svc v \<and> ar_redis (revoke (arena_etcd E) n l v) = ar_redis v" for l and v :: "('a, 'b) arena"
    by (cases n) (simp_all add: revoke_def run_def arena_etcd_def)
  have w1: "ar_svc w1 nd = ?s \<and> ar_redis w1 = ar_redis w"
    using assms(1,5,6) rv by (auto simp: world_StopAccepting_def elector_Stop_def resign_def Let_def world_hooks_def onResigned_def world_post_def mailboxSize_def split: if_splits)
  have "world_run C [WTask t1, WTask t2] (?s\<lparr>wv_mbox := [TStepDown, TFlushAll]\<rparr>)
      = (?s\<lparr>wv_mbox := [], wv_running := False, wv_dirty := False, wv_boss := None\<rparr>, [FlushAllBlob None])"
    by (simp add: world_turn_def world_exec_def)
  then have "world_FlushAll R C ks n' [WTask t1, WTask t2] nd w1
      = (upd_node nd (\<lambda>_. ?s\<lparr>wv_mbox := [], wv_running := False, wv_dirty := False, wv_boss := None\<rparr>) w1, Inr ())"
    using w1 by (simp add: world_FlushAll_def world_post_def mailboxSize_def List.map_filter_def Let_def)
  then show ?thesis using assms(7) w1 by auto
qed

text \<open>Flushes run in goroutines of their own and can overtake each other. When the later one is executed first, Redis ends with the older state, although both report success, and the service, which is not dirty any more, will not
  write again until the next hit.\<close>

lemma overtaken_flush_restores_the_older_state:
  assumes "redis_api R" "epoch_num R ks s worldShard = Some epoch"
  shows "\<exists>s1 s2. run_flushBoss R ks Delivered epoch newer t s = (s1, Flushed) \<and> run_flushBoss R ks Delivered epoch older t' s1 = (s2, Flushed) \<and> GET R s2 (keys_WorldBoss ks) = Some older"
proof -
  have "render ks KWorldBoss \<noteq> render ks (KEpoch worldShard)" unfolding render_inject by simp
  then have k: "keys_WorldBoss ks \<noteq> keys_Epoch ks worldShard" unfolding render.simps .
  have "epoch_num R ks (SET R s (keys_WorldBoss ks) newer) worldShard = Some epoch"
    using assms(2) redis_api.redis_reads [OF assms(1)] k by (simp add: num_or0_def)
  then show ?thesis using assms redis_api.get_set [OF assms(1)]
    by (simp add: run_flushBoss_def WriteModules_def scriptWriteModules_kv [where kv = "[(_, _)]", simplified] run_def fenced_reply_def set_all_def)
qed


section \<open>A raid\<close>

definition demo_boss :: WorldBossState where
  "demo_boss = \<lparr>wb_BossId = 9, wb_Hp = 500, wb_MaxHp = 1000000, wb_StartedAt = 4, wb_Alive = True\<rparr>"

definition demo_world :: world_svc where
  "demo_world = \<lparr>wv_mbox = hits_box [200, 400, 300], wv_subs = 1, wv_epoch = 20, wv_boss = Some demo_boss, wv_dirty = True, wv_dirtyAt = 3, wv_nextFlush = 50, wv_nextEvent = 50, wv_running = True\<rparr>"

definition text_boss_codec :: boss_codec where
  "text_boss_codec = \<lparr>enc_boss = (\<lambda>b. Some (show_int (wb_Hp b))), dec_boss = (\<lambda>b. map_option (\<lambda>h. \<lparr>wb_BossId = 9, wb_Hp = h, wb_MaxHp = 1000000, wb_StartedAt = 4, wb_Alive = (h > 0)\<rparr>) (tonumber b))\<rparr>"

lemma demo_boss_ok: "boss_ok demo_boss"
  by (simp add: boss_ok_def demo_boss_def)

theorem boss_stays_in_bounds_witness: "world_ok (fst (world_run text_boss_codec [WTask 5, WTick 60 (Some 7), WTask 61, WTask 62] demo_world))"
  by (rule boss_stays_in_bounds) (simp add: world_ok_def demo_world_def demo_boss_ok hits_box_def in_i64_def)

theorem every_hit_counts_once_witness:
  "\<exists>b'. wv_boss (fst (world_run text_boss_codec (map WTask [5, 6, 7]) demo_world)) = Some b' \<and> wb_Hp b' = 0 \<and> kills (snd (world_run text_boss_codec (map WTask [5, 6, 7]) demo_world)) = 1"
proof -
  have "\<exists>b'. wv_boss (fst (world_run text_boss_codec (map WTask [5, 6, 7]) demo_world)) = Some b' \<and> wb_Hp b' = max 0 (wb_Hp demo_boss - sum_list [200, 400, 300])
      \<and> kills (snd (world_run text_boss_codec (map WTask [5, 6, 7]) demo_world)) = (if wb_Alive demo_boss \<and> wb_Hp demo_boss \<le> sum_list [200, 400, 300] then 1 else 0)"
    by (rule every_hit_counts_once) (simp_all add: demo_world_def demo_boss_ok in_i64_def)
  then show ?thesis by (simp add: demo_boss_def)
qed

definition demo_arena :: "(mem_etcd, mem) arena" where
  "demo_arena = \<lparr>ar_etcd = me_empty, ar_redis = mem_empty, ar_svc = (\<lambda>_. world_New)\<rparr>"

definition demo_elect :: elect_env where
  "demo_elect = \<lparr>ee_raise = Delivered, ee_load = Delivered, ee_nextID = Some 7, ee_now = 5, ee_installed = True, ee_turns = [WTask 6], ee_sub = True\<rparr>"

lemma demo_onElected:
  assumes "wv_mbox (ar_svc w nd) = []" "epoch_num mem_redis lobby_keys (ar_redis w) worldShard = Some c" "c < epoch" "GET mem_redis (ar_redis w) (keys_WorldBoss lobby_keys) = None"
  shows "\<exists>w'. onElected mem_redis text_boss_codec lobby_keys nd demo_elect epoch w = (w', True) \<and> ar_etcd w' = ar_etcd w"
proof -
  obtain r1 where r1: "RaiseEpoch mem_redis lobby_keys Delivered worldShard epoch (ar_redis w) = (r1, Inr ())" "r1 = SET mem_redis (ar_redis w) (keys_Epoch lobby_keys worldShard) (show_int epoch)"
    using assms(2,3) by (auto simp: RaiseEpoch_def scriptRaiseEpoch_eq run_def)
  have "render lobby_keys KWorldBoss \<noteq> render lobby_keys (KEpoch worldShard)" unfolding render_inject by simp
  then have "keys_WorldBoss lobby_keys \<noteq> keys_Epoch lobby_keys worldShard" unfolding render.simps .
  then have "GET mem_redis r1 (keys_WorldBoss lobby_keys) = None" using assms(4) r1(2) by (simp add: mem_put_def)
  then show ?thesis using r1(1) assms(1)
    by (simp add: onElected_def demo_elect_def loadBoss_def world_post_def mailboxSize_def world_turn_def world_exec_def Let_def)
qed


text \<open>A calm campaign on free ground with hooks that succeed.\<close>

lemma hooked_election:
  assumes "etcd_api E" "e_ok (arena_etcd E) w" "e_get E (ar_etcd w) (el_key e) = None" "OnElected H = Some f"
    "\<And>epoch v. ar_svc v = ar_svc w \<Longrightarrow> ar_redis v = ar_redis w \<Longrightarrow> epoch = e_rev E (ar_etcd w) + 1 \<Longrightarrow> \<exists>v'. f epoch v = (v', True)"
  shows "\<exists>e' w'. campaign (arena_etcd E) H J calm_campaign (e, w) = ((e', w'), Elected)"
proof -
  obtain w1 l where g: "e_grant E (ar_etcd w) = (w1, l)" by fastforce
  have ok: "e_ok E (ar_etcd w)" using assms(2) by (simp add: arena_etcd_def)
  have gn: "l \<noteq> 0" "e_lease E w1 l" "e_get E w1 = e_get E (ar_etcd w)" "e_rev E w1 = e_rev E (ar_etcd w)" using etcd_api.grant_new [OF assms(1) g ok] by auto
  define rec where "rec = \<lparr>lr_Node = el_nodeID e, lr_Epoch = 0, lr_Since = 7\<rparr>"
  define e2 where "e2 = e_put E w1 (el_key e) (lj_enc J rec) l"
  define e3 where "e3 = e_put E e2 (el_key e) (lj_enc J (rec\<lparr>lr_Epoch := e_rev E e2\<rparr>)) l"
  have r2: "e_rev E e2 = e_rev E (ar_etcd w) + 1" using gn etcd_api.rev_put [OF assms(1)] by (simp add: e2_def)
  obtain v' where v': "f (e_rev E e2) (w\<lparr>ar_etcd := e3\<rparr>) = (v', True)" using assms(5) [of "w\<lparr>ar_etcd := e3\<rparr>" "e_rev E e2"] r2 by auto
  have l2: "e_lease E e2 l" using gn etcd_api.lease_put [OF assms(1)] by (simp add: e2_def)
  show ?thesis using gn assms(3,4) v' l2
    by (simp add: campaign_def Let_def calm_campaign_def run_def g txn_create_def put_leased_def arena_etcd_def flip: e2_def e3_def rec_def)
qed


theorem new_world_leader_shuts_out_the_old_witness:
  "\<exists>(a' :: elector) (b' :: elector) (w3 :: (mem_etcd, mem) arena). el_epoch a' < el_epoch b' \<and> run_flushBoss mem_redis lobby_keys Delivered (el_epoch a') ''7'' 3 (ar_redis w3) = (ar_redis w3, StopElector)"
proof -
  let ?E = "arena_etcd mem_etcd :: (mem_etcd, mem) arena etcd" and ?H = "world_hooks mem_redis text_boss_codec lobby_keys ''b'' demo_elect"
  let ?a = "NewElector [] ''world'' ''a''" and ?b = "NewElector [] ''world'' ''b''"
  note api = arena_etcd_api [OF mem_store.etcd_api_axioms]
  have ok: "e_ok ?E demo_arena" by (simp add: arena_etcd_def demo_arena_def me_ok_def me_empty_def)
  have free: "e_get ?E demo_arena (el_key ?a) = None" by (simp add: arena_etcd_def demo_arena_def me_empty_def)
  obtain a' w1 kv where a: "campaign ?E no_leader_hooks text_leader_json calm_campaign (?a, demo_arena) = ((a', w1), Elected)"
    and l: "el_lease a' \<noteq> 0" "e_get ?E w1 (el_key ?a) = Some kv" "kv_Lease kv = el_lease a'"
    using free_election [OF api ok free] by blast
  define w2 where "w2 = (e_revoke ?E w1 (el_lease a'))\<lparr>ar_redis := mem_empty, ar_svc := (\<lambda>_. world_New)\<rparr>"
  have runs: "etcd_runs ?E w1 w2" by (rule er_other [OF er_revoke [OF er_refl, of ?E w1 "el_lease a'"]]) (simp_all add: w2_def arena_etcd_def)
  have "etcd_runs ?E demo_arena w1" using etcd_api.elected_epoch [OF api a ok calm_fair] by blast
  then have ok2: "e_ok ?E w2" using etcd_api.runs_ok [OF api] ok runs by blast
  have "e_get ?E (e_revoke ?E w1 (el_lease a')) (el_key ?a) = None" using etcd_api.get_revoke [OF api, of w1 "el_lease a'"] l by simp
  then have free2: "e_get mem_etcd (ar_etcd w2) (el_key ?b) = None" by (simp add: w2_def arena_etcd_def NewElector_def)
  have f: "\<exists>v'. onElected mem_redis text_boss_codec lobby_keys ''b'' demo_elect epoch v = (v', True)"
    if v: "ar_svc v = ar_svc w2" "ar_redis v = ar_redis w2" "epoch = e_rev mem_etcd (ar_etcd w2) + 1" for epoch and v :: "(mem_etcd, mem) arena"
  proof -
    have "0 < epoch" using v(3) ok2 by (simp add: arena_etcd_def me_ok_def)
    then show ?thesis using demo_onElected [of v "''b''" 0 epoch] v by (auto simp: w2_def world_New_def num_or0_def mem_empty_def)
  qed
  have "OnElected ?H = Some (onElected mem_redis text_boss_codec lobby_keys ''b'' demo_elect)" by (simp add: world_hooks_def)
  from hooked_election [OF mem_store.etcd_api_axioms ok2 free2 this f, of text_leader_json]
  obtain b' w3 where b: "campaign ?E ?H text_leader_json calm_campaign (?b, w2) = ((b', w3), Elected)" by blast
  from new_world_leader_shuts_out_the_old [OF mem_store.etcd_api_axioms mem_server.redis_api_axioms ok a calm_fair runs b calm_fair(1) runs_refl, of Delivered "''7''" 3]
  show ?thesis by (intro exI [of _ a'] exI [of _ b'] exI [of _ w3]) simp
qed

definition dirty_arena :: "(mem_etcd, mem) arena" where
  "dirty_arena = \<lparr>ar_etcd = me_empty, ar_redis = mem_put mem_empty (keys_WorldBoss lobby_keys) (show_int 900), ar_svc = (\<lambda>_. demo_world\<lparr>wv_mbox := []\<rparr>)\<rparr>"

theorem orderly_stop_drops_the_damage_witness:
  "\<exists>e1 w1 w2. world_StopAccepting (arena_etcd mem_etcd) (world_hooks mem_redis text_boss_codec lobby_keys ''a'' demo_elect) Delivered ''a''
        ((NewElector [] ''world'' ''a'')\<lparr>el_isLeader := True\<rparr>, dirty_arena) = (e1, w1)
    \<and> world_FlushAll mem_redis text_boss_codec lobby_keys Delivered [WTask 8, WTask 9] ''a'' w1 = (w2, Inr ())
    \<and> GET mem_redis (ar_redis w2) (keys_WorldBoss lobby_keys) = Some (show_int 900) \<and> wv_boss (ar_svc dirty_arena ''a'') = Some demo_boss"
proof -
  let ?e = "(NewElector [] ''world'' ''a'')\<lparr>el_isLeader := True\<rparr>"
  obtain e1 w1 where s: "world_StopAccepting (arena_etcd mem_etcd) (world_hooks mem_redis text_boss_codec lobby_keys ''a'' demo_elect) Delivered ''a'' (?e, dirty_arena) = (e1, w1)" by fastforce
  obtain w2 q where f: "world_FlushAll mem_redis text_boss_codec lobby_keys Delivered [WTask 8, WTask 9] ''a'' w1 = (w2, q)" by fastforce
  have h: "el_isLeader ?e" "wv_running (ar_svc dirty_arena ''a'')" "wv_boss (ar_svc dirty_arena ''a'') = Some demo_boss" "wv_dirty (ar_svc dirty_arena ''a'')" "wv_mbox (ar_svc dirty_arena ''a'') = []"
    by (simp_all add: dirty_arena_def demo_world_def)
  have "q = Inr ()" "ar_redis w2 = ar_redis dirty_arena" using orderly_stop_drops_the_damage [OF h s f] by simp_all
  then show ?thesis using s f h(3) by (auto simp: dirty_arena_def mem_put_def)
qed

end
