(* ===== verification/Bus.thy ===== *)
theory Bus
  imports Auth Subject
begin

text \<open>
  The message bus, \<^verbatim>\<open>pkg/bus/bus.go\<close> and \<^verbatim>\<open>pkg/bus/jetstream.go\<close>: envelopes around the messages, requests and their answers, and the jobs of the stream. NATS is outside the repository: a
  request is answered by the parameter \<open>nats\<close>, which turns the state of the rest of the system and a message into a new state and what
  the caller gets; a publication is an entry of a list. Protobuf is a pair of partial functions per type of message. Metrics, logs, the options of
  the connection and the texts of errors are left out.

  Shown here: a request is answered at most once; a handler's answer reaches the caller as it was given; and an answer that cannot be sent leaves the caller without any.
\<close>

section \<open>Messages and envelopes\<close>

record 'm proto =
  Marshal :: "'m \<Rightarrow> bytes option"
  Unmarshal :: "bytes \<Rightarrow> 'm option"

definition proto_ok :: "'m proto \<Rightarrow> bool" where
  "proto_ok P \<longleftrightarrow> (\<forall>m b. Marshal P m = Some b \<longrightarrow> Unmarshal P b = Some m)"

datatype bus_err = ErrMarshal | ErrDecode | ErrPayloadTooLarge | ErrNoResponders | ErrDeadlineExceeded | ErrNATS | RemoteError nat string

text \<open>\<open>RemoteError.IsRetryable\<close>\<close>

fun err_IsRetryable :: "bus_err \<Rightarrow> bool" where
  "err_IsRetryable (RemoteError code msg) \<longleftrightarrow> code = err_number E_Unavailable \<or> code = err_number E_NotOwner \<or> code = err_number E_Timeout"
| "err_IsRetryable _ \<longleftrightarrow> False"

record bus_conn =
  bc_nodeID :: string
  bc_seq :: nat
  bc_maxPayload :: int

definition NextSeq :: "bus_conn \<Rightarrow> bus_conn \<times> nat" where
  "NextSeq c = (let n = (bc_seq c + 1) mod 2 ^ 32 in (c\<lparr>bc_seq := n\<rparr>, n))"

text \<open>\<open>fresh\<close> is the trace that \<open>NewTraceID\<close> would make. A missing message is \<open>None\<close>.\<close>

definition NewEnvelope :: "'m proto \<Rightarrow> int \<Rightarrow> string \<Rightarrow> nat \<Rightarrow> nat \<Rightarrow> string \<Rightarrow> 'm option \<Rightarrow> bus_conn \<Rightarrow> bus_conn \<times> (bus_err + Envelope)" where
  "NewEnvelope P now fresh cmd uid traceID body c =
     (case (case body of None \<Rightarrow> Some [] | Some m \<Rightarrow> Marshal P m) of
        None \<Rightarrow> (c, Inl ErrMarshal)
      | Some raw \<Rightarrow>
          (case NextSeq c of (c1, n) \<Rightarrow>
            (c1, Inr \<lparr>e_Cmd = cmd, e_Uid = uid, e_TraceId = (if traceID = [] then fresh else traceID), e_FromNode = bc_nodeID c, e_TsMs = unix_milli now, e_Seq = n,
               e_Body = raw, e_ErrCode = 0, e_ErrMsg = [], e_Shard = 0, e_Auth = [], e_Operator = []\<rparr>)))"

text \<open>\<open>zero\<close> is the message a variable of its type holds before it is filled.\<close>

definition Unpack :: "'m proto \<Rightarrow> 'm \<Rightarrow> Envelope \<Rightarrow> bus_err + 'm" where
  "Unpack P zero env = (if e_Body env = [] then Inr zero else case Unmarshal P (e_Body env) of None \<Rightarrow> Inl ErrDecode | Some m \<Rightarrow> Inr m)"

definition Pack :: "'m proto \<Rightarrow> 'm option \<Rightarrow> Envelope \<Rightarrow> bus_err + Envelope" where
  "Pack P msg env =
     (case msg of
        None \<Rightarrow> Inr (env\<lparr>e_Body := []\<rparr>)
      | Some m \<Rightarrow> (case Marshal P m of None \<Rightarrow> Inl ErrMarshal | Some raw \<Rightarrow> Inr (env\<lparr>e_Body := raw\<rparr>)))"

definition Decode :: "Envelope proto \<Rightarrow> bytes \<Rightarrow> bus_err + Envelope" where
  "Decode E data = (case Unmarshal E data of None \<Rightarrow> Inl ErrDecode | Some env \<Rightarrow> Inr env)"

section \<open>Sending\<close>

definition checkPayload :: "bus_conn \<Rightarrow> nat \<Rightarrow> bool" where
  "checkPayload c n \<longleftrightarrow> \<not> (bc_maxPayload c > 0 \<and> int n > bc_maxPayload c)"

type_synonym publication = "string \<times> bytes"

text \<open>The bytes of an envelope that may be sent.\<close>

definition sendable :: "Envelope proto \<Rightarrow> bus_conn \<Rightarrow> Envelope \<Rightarrow> bus_err + bytes" where
  "sendable E c env =
     (case Marshal E env of
        None \<Rightarrow> Inl ErrMarshal
      | Some data \<Rightarrow> if checkPayload c (length data) then Inr data else Inl ErrPayloadTooLarge)"

definition PublishEnv :: "Envelope proto \<Rightarrow> bus_conn \<Rightarrow> string \<Rightarrow> Envelope \<Rightarrow> publication list \<times> (bus_err + unit)" where
  "PublishEnv E c subj env = (case sendable E c env of Inl e \<Rightarrow> ([], Inl e) | Inr data \<Rightarrow> ([(subj, data)], Inr ()))"

definition bus_Publish :: "Envelope proto \<Rightarrow> 'm proto \<Rightarrow> int \<Rightarrow> string \<Rightarrow> string \<Rightarrow> nat \<Rightarrow> nat \<Rightarrow> string \<Rightarrow> 'm option \<Rightarrow> bus_conn \<Rightarrow> bus_conn \<times> publication list \<times> (bus_err + unit)" where
  "bus_Publish E P now fresh subj cmd uid traceID body c =
     (case NewEnvelope P now fresh cmd uid traceID body c of
        (c1, Inl e) \<Rightarrow> (c1, [], Inl e)
      | (c1, Inr env) \<Rightarrow> (c1, PublishEnv E c1 subj env))"

datatype nats_reply = NReply bytes | NNoResponders | NDeadline | NFailed

definition RequestEnv :: "Envelope proto \<Rightarrow> (string \<Rightarrow> bytes \<Rightarrow> 'w \<Rightarrow> 'w \<times> nats_reply) \<Rightarrow> bus_conn \<Rightarrow> string \<Rightarrow> Envelope \<Rightarrow> 'w \<Rightarrow> 'w \<times> (bus_err + Envelope)" where
  "RequestEnv E nats c subj env w =
     (case sendable E c env of
        Inl e \<Rightarrow> (w, Inl e)
      | Inr data \<Rightarrow>
          (case nats subj data w of
             (w1, NReply reply) \<Rightarrow> (w1, Decode E reply)
           | (w1, NNoResponders) \<Rightarrow> (w1, Inl ErrNoResponders)
           | (w1, NDeadline) \<Rightarrow> (w1, Inl ErrDeadlineExceeded)
           | (w1, NFailed) \<Rightarrow> (w1, Inl ErrNATS)))"

definition bus_Request :: "Envelope proto \<Rightarrow> 'm proto \<Rightarrow> (string \<Rightarrow> bytes \<Rightarrow> 'w \<Rightarrow> 'w \<times> nats_reply) \<Rightarrow> int \<Rightarrow> string \<Rightarrow> string \<Rightarrow> nat \<Rightarrow> nat \<Rightarrow> string \<Rightarrow> 'm option \<Rightarrow> bus_conn \<Rightarrow> 'w
    \<Rightarrow> bus_conn \<times> 'w \<times> (bus_err + Envelope)" where
  "bus_Request E P nats now fresh subj cmd uid traceID body c w =
     (case NewEnvelope P now fresh cmd uid traceID body c of
        (c1, Inl e) \<Rightarrow> (c1, w, Inl e)
      | (c1, Inr env) \<Rightarrow> (c1, RequestEnv E nats c1 subj env w))"

definition bus_call_result :: "'o proto \<Rightarrow> 'o \<Rightarrow> Envelope \<Rightarrow> bus_err + 'o" where
  "bus_call_result Q zero resp = (if e_ErrCode resp \<noteq> 0 then Inl (RemoteError (e_ErrCode resp) (e_ErrMsg resp)) else Unpack Q zero resp)"

definition bus_Call :: "Envelope proto \<Rightarrow> 'm proto \<Rightarrow> 'o proto \<Rightarrow> 'o \<Rightarrow> (string \<Rightarrow> bytes \<Rightarrow> 'w \<Rightarrow> 'w \<times> nats_reply) \<Rightarrow> int \<Rightarrow> string \<Rightarrow> string \<Rightarrow> nat \<Rightarrow> nat \<Rightarrow> string \<Rightarrow> 'm option \<Rightarrow> bus_conn \<Rightarrow> 'w
    \<Rightarrow> bus_conn \<times> 'w \<times> (bus_err + 'o)" where
  "bus_Call E P Q zero nats now fresh subj cmd uid traceID body c w =
     (case bus_Request E P nats now fresh subj cmd uid traceID body c w of
        (c1, w1, Inl e) \<Rightarrow> (c1, w1, Inl e)
      | (c1, w1, Inr resp) \<Rightarrow> (c1, w1, bus_call_result Q zero resp))"

section \<open>Answering\<close>

record Msg =
  m_Env :: Envelope
  m_Subject :: string
  m_Reply :: string
  m_replied :: bool

definition NeedReply :: "Msg \<Rightarrow> bool" where
  "NeedReply m \<longleftrightarrow> m_Reply m \<noteq> []"

definition answer_env :: "bus_conn \<Rightarrow> int \<Rightarrow> Msg \<Rightarrow> Envelope" where
  "answer_env c now m =
     \<lparr>e_Cmd = e_Cmd (m_Env m), e_Uid = e_Uid (m_Env m), e_TraceId = e_TraceId (m_Env m), e_FromNode = bc_nodeID c, e_TsMs = unix_milli now, e_Seq = e_Seq (m_Env m),
      e_Body = [], e_ErrCode = 0, e_ErrMsg = [], e_Shard = e_Shard (m_Env m), e_Auth = [], e_Operator = []\<rparr>"

definition Respond :: "Envelope proto \<Rightarrow> 'm proto \<Rightarrow> bus_conn \<Rightarrow> int \<Rightarrow> 'm option \<Rightarrow> Msg \<Rightarrow> Msg \<times> publication list \<times> (bus_err + unit)" where
  "Respond E P c now body m =
     (if m_Reply m = [] then (m, [], Inr ())
      else if m_replied m then (m, [], Inr ())
      else let m1 = m\<lparr>m_replied := True\<rparr> in
        case Pack P body (answer_env c now m) of
          Inl e \<Rightarrow> (m1, [], Inl e)
        | Inr env \<Rightarrow> (m1, PublishEnv E c (m_Reply m) env))"

text \<open>\<open>text\<close> is the formatted text, or that of the code. Here the size is not checked.\<close>

definition RespondErr :: "Envelope proto \<Rightarrow> bus_conn \<Rightarrow> int \<Rightarrow> ErrCode \<Rightarrow> string \<Rightarrow> Msg \<Rightarrow> Msg \<times> publication list \<times> (bus_err + unit)" where
  "RespondErr E c now code txt m =
     (if m_Reply m = [] then (m, [], Inr ())
      else if m_replied m then (m, [], Inr ())
      else let m1 = m\<lparr>m_replied := True\<rparr> in
        case Marshal E ((answer_env c now m)\<lparr>e_ErrCode := err_number code, e_ErrMsg := txt\<rparr>) of
          None \<Rightarrow> (m1, [], Inl ErrMarshal)
        | Some data \<Rightarrow> (m1, [(m_Reply m, data)], Inr ()))"

text \<open>What a subscription hands to its handler: nothing for a message that cannot be decoded.\<close>

definition bus_wrap :: "Envelope proto \<Rightarrow> string \<Rightarrow> string \<Rightarrow> bytes \<Rightarrow> Msg option" where
  "bus_wrap E subj reply data =
     (case Decode E data of Inl e \<Rightarrow> None | Inr env \<Rightarrow> Some \<lparr>m_Env = env, m_Subject = subj, m_Reply = reply, m_replied = False\<rparr>)"

section \<open>Jobs\<close>

text \<open>\<open>publish\<close> stands for the stream of the server: it stores the message under its number, which it uses to drop repetitions, or fails.\<close>

definition PublishJob :: "Envelope proto \<Rightarrow> 'm proto \<Rightarrow> (string \<Rightarrow> string \<Rightarrow> bytes \<Rightarrow> 'w \<Rightarrow> 'w \<times> bool) \<Rightarrow> int \<Rightarrow> string \<Rightarrow> string \<Rightarrow> nat \<Rightarrow> nat \<Rightarrow> string \<Rightarrow> string \<Rightarrow> 'm option \<Rightarrow> bus_conn \<Rightarrow> 'w
    \<Rightarrow> bus_conn \<times> 'w \<times> (bus_err + unit)" where
  "PublishJob E P publish now fresh subj cmd uid traceID msgID body c w =
     (case NewEnvelope P now fresh cmd uid traceID body c of
        (c1, Inl e) \<Rightarrow> (c1, w, Inl e)
      | (c1, Inr env) \<Rightarrow>
          (case sendable E c1 env of
             Inl e \<Rightarrow> (c1, w, Inl e)
           | Inr data \<Rightarrow> (case publish subj msgID data w of (w1, ok) \<Rightarrow> (c1, w1, if ok then Inr () else Inl ErrNATS))))"

datatype bus_verdict = JobAck | JobNak int | JobTerm | JobOpen

definition consume :: "Envelope proto \<Rightarrow> (Envelope \<Rightarrow> 'w \<Rightarrow> 'w \<times> bus_verdict) \<Rightarrow> bytes \<Rightarrow> 'w \<Rightarrow> 'w \<times> bus_verdict" where
  "consume E handler data w = (case Decode E data of Inl e \<Rightarrow> (w, JobTerm) | Inr env \<Rightarrow> handler env w)"

record ConsumerOptions =
  co_AckWait :: int
  co_MaxDeliver :: int
  co_MaxAckPend :: int

definition consumer_defaults :: "ConsumerOptions \<Rightarrow> ConsumerOptions" where
  "consumer_defaults o1 =
     \<lparr>co_AckWait = (if co_AckWait o1 = 0 then 30 * 1000000000 else co_AckWait o1), co_MaxDeliver = (if co_MaxDeliver o1 = 0 then 100 else co_MaxDeliver o1),
      co_MaxAckPend = (if co_MaxAckPend o1 = 0 then 256 else co_MaxAckPend o1)\<rparr>"

section \<open>Answers\<close>

text \<open>The calls a handler makes on its message, in any number and order.\<close>

datatype 'm answer = AOk int "'m option" | AErr int ErrCode string

fun run_answers :: "Envelope proto \<Rightarrow> 'm proto \<Rightarrow> bus_conn \<Rightarrow> 'm answer list \<Rightarrow> Msg \<Rightarrow> Msg \<times> publication list" where
  "run_answers E P c [] m = (m, [])"
| "run_answers E P c (a # as) m =
     (case (case a of AOk now body \<Rightarrow> Respond E P c now body m | AErr now code txt \<Rightarrow> RespondErr E c now code txt m) of
        (m1, pubs, r) \<Rightarrow> (case run_answers E P c as m1 of (m2, pubs2) \<Rightarrow> (m2, pubs @ pubs2)))"

lemma replied_is_final: "m_replied m \<Longrightarrow> run_answers E P c as m = (m, [])"
  by (induction as) (simp_all add: Respond_def RespondErr_def split: answer.splits)

lemma no_reply_wanted: "m_Reply m = [] \<Longrightarrow> run_answers E P c as m = (m, [])"
  by (induction as) (simp_all add: Respond_def RespondErr_def split: answer.splits)

lemma Respond_replied: "m_Reply m \<noteq> [] \<Longrightarrow> m_replied (fst (Respond E P c now body m))"
  by (auto simp: Respond_def Let_def split: sum.splits)

lemma RespondErr_replied: "m_Reply m \<noteq> [] \<Longrightarrow> m_replied (fst (RespondErr E c now code txt m))"
  by (auto simp: RespondErr_def Let_def split: option.splits)

lemma answer_pubs:
  "length (fst (snd (Respond E P c now body m))) \<le> 1" "length (fst (snd (RespondErr E c now code txt m))) \<le> 1"
  "set (fst (snd (Respond E P c now body m))) \<subseteq> {m_Reply m} \<times> UNIV" "set (fst (snd (RespondErr E c now code txt m))) \<subseteq> {m_Reply m} \<times> UNIV"
  by (auto simp: Respond_def RespondErr_def Let_def PublishEnv_def split: sum.splits option.splits)

lemma run_answers_Cons:
  "run_answers E P c (a # as) m =
     (let r = (case a of AOk now body \<Rightarrow> Respond E P c now body m | AErr now code txt \<Rightarrow> RespondErr E c now code txt m) in
      if m_Reply m = [] then (m, []) else (fst r, fst (snd r)))"
proof (cases "m_Reply m = []")
  case True
  then show ?thesis by (simp only: no_reply_wanted Let_def simp_thms if_True)
next
  case False
  define r where "r = (case a of AOk now body \<Rightarrow> Respond E P c now body m | AErr now code txt \<Rightarrow> RespondErr E c now code txt m)"
  have "m_replied (fst r)" using False by (cases a) (simp_all add: r_def Respond_replied RespondErr_replied)
  then have "run_answers E P c as (fst r) = (fst r, [])" by (rule replied_is_final)
  then show ?thesis using False by (simp flip: r_def add: split_beta Let_def)
qed

text \<open>A request is answered at most once. However many answers and errors a handler gives to one message, in whatever order, at most one message leaves, and it goes to the one that asked.\<close>

theorem at_most_one_answer:
  "length (snd (run_answers E P c as m)) \<le> 1 \<and> set (snd (run_answers E P c as m)) \<subseteq> {m_Reply m} \<times> UNIV"
proof (cases as)
  case (Cons a as')
  show ?thesis unfolding Cons run_answers_Cons using answer_pubs(1) [of E P c] answer_pubs(2) [of E c] answer_pubs(3) [of E P c] answer_pubs(4) [of E c] by (cases a) (simp_all add: Let_def)
qed simp

text \<open>What a handler answers is what the caller gets. A call whose request can be sent and whose handler answers with a message of acceptable size returns exactly this message, and the handler has seen the request, the player and the command of the call.\<close>

theorem call_returns_the_answer:
  assumes "proto_ok E" "proto_ok Q" "Marshal Q out = Some ob" "ob = [] \<longrightarrow> out = zero"
    and "NewEnvelope P now fresh cmd uid traceID body c = (c1, Inr env)" "sendable E c1 env = Inr data" "inbox \<noteq> []"
    and "\<And>w. \<exists>w'. nats subj data w = (w', case bus_wrap E subj inbox data of None \<Rightarrow> NDeadline
           | Some m \<Rightarrow> (case fst (snd (Respond E Q srv later (Some out) m)) of [] \<Rightarrow> NDeadline | p # ps \<Rightarrow> NReply (snd p)))"
    and "\<exists>d. sendable E srv ((answer_env srv later \<lparr>m_Env = env, m_Subject = subj, m_Reply = inbox, m_replied = False\<rparr>)\<lparr>e_Body := ob\<rparr>) = Inr d"
  shows "snd (snd (bus_Call E P Q zero nats now fresh subj cmd uid traceID body c w)) = Inr out
    \<and> (\<exists>m. bus_wrap E subj inbox data = Some m \<and> e_Cmd (m_Env m) = cmd \<and> e_Uid (m_Env m) = uid)"
proof -
  define m where "m = \<lparr>m_Env = env, m_Subject = subj, m_Reply = inbox, m_replied = False\<rparr>"
  define a where "a = (answer_env srv later m)\<lparr>e_Body := ob\<rparr>"
  have dec: "Unmarshal E data = Some env"
    using assms(1,6) by (auto simp: sendable_def proto_ok_def split: option.splits if_splits)
  then have wrap: "bus_wrap E subj inbox data = Some m" by (simp add: bus_wrap_def Decode_def m_def)
  obtain d where d: "sendable E srv a = Inr d" using assms(9) by (auto simp: a_def m_def)
  then have ad: "Unmarshal E d = Some a" using assms(1) by (auto simp: sendable_def proto_ok_def split: option.splits if_splits)
  have "Respond E Q srv later (Some out) m = (m\<lparr>m_replied := True\<rparr>, [(inbox, d)], Inr ())"
    using assms(3,7) d by (simp add: Respond_def Pack_def PublishEnv_def Let_def m_def a_def)
  then obtain w' where nats: "nats subj data w = (w', NReply d)" using assms(8) [of w] by (auto simp: wrap)
  have "bus_call_result Q zero a = Inr out"
    using assms(2,3,4) by (auto simp: bus_call_result_def a_def answer_env_def Unpack_def proto_ok_def split: option.splits)
  moreover have "e_Cmd env = cmd" "e_Uid env = uid"
    using assms(5) by (auto simp: NewEnvelope_def split: option.splits prod.splits)
  ultimately show ?thesis using assms(5,6) nats ad wrap by (simp add: bus_Call_def bus_Request_def RequestEnv_def Decode_def m_def)
qed

text \<open>An answer that cannot be sent silences its request. When the answer of a handler cannot be encoded or is too large, the message is marked as answered all the same, so nothing reaches the caller, and no error that the handler reports afterwards does.\<close>

theorem oversized_answer_silences_the_request:
  assumes "m_Reply m \<noteq> []" "\<not> m_replied m" "snd (snd (Respond E P c now body m)) = Inl e"
  shows "run_answers E P c (AOk now body # as) m = (m\<lparr>m_replied := True\<rparr>, [])"
proof -
  have "fst (Respond E P c now body m) = m\<lparr>m_replied := True\<rparr> \<and> fst (snd (Respond E P c now body m)) = []"
    using assms by (auto simp: Respond_def Let_def PublishEnv_def split: sum.splits)
  then show ?thesis using assms(1) by (simp only: run_answers_Cons) simp
qed

section \<open>Witnesses\<close>

text \<open>Codecs to evaluate with: of bytes, of envelopes that hold nothing but a body, and of two given envelopes.\<close>

definition raw_codec :: "bytes proto" where
  "raw_codec = \<lparr>Marshal = Some, Unmarshal = Some\<rparr>"

definition plain_env :: "bytes \<Rightarrow> Envelope" where
  "plain_env b = \<lparr>e_Cmd = 0, e_Uid = 0, e_TraceId = [], e_FromNode = [], e_TsMs = 0, e_Seq = 0, e_Body = b, e_ErrCode = 0, e_ErrMsg = [], e_Shard = 0, e_Auth = [], e_Operator = []\<rparr>"

definition plain_codec :: "Envelope proto" where
  "plain_codec = \<lparr>Marshal = (\<lambda>e. if e = plain_env (e_Body e) then Some (e_Body e) else None), Unmarshal = (\<lambda>b. Some (plain_env b))\<rparr>"

lemma plain_codec_ok: "proto_ok plain_codec"
  unfolding proto_ok_def
proof (intro allI impI)
  fix e b assume "Marshal plain_codec e = Some b"
  then have "e = plain_env (e_Body e)" "b = e_Body e" by (simp_all add: plain_codec_def split: if_splits)
  then show "Unmarshal plain_codec b = Some e" by (simp add: plain_codec_def)
qed

lemma enc_plain: "Marshal plain_codec (plain_env b) = Some b"
  by (simp add: plain_codec_def plain_env_def)

lemma raw_codec_ok: "proto_ok raw_codec" "Marshal raw_codec b = Some b"
  by (simp_all add: proto_ok_def raw_codec_def)

definition pair_codec :: "Envelope \<Rightarrow> Envelope \<Rightarrow> Envelope proto" where
  "pair_codec a b =
     \<lparr>Marshal = (\<lambda>e. if e = a then Some ''a'' else if e = b then Some ''b'' else None),
      Unmarshal = (\<lambda>d. if d = ''a'' then Some a else if d = ''b'' then Some b else None)\<rparr>"

lemma pair_codec_ok: "proto_ok (pair_codec a b)"
  by (simp add: proto_ok_def pair_codec_def)

definition demo_bus :: bus_conn where
  "demo_bus = \<lparr>bc_nodeID = [], bc_seq = 0, bc_maxPayload = 4\<rparr>"

theorem oversized_answer_silences_the_request_witness:
  "run_answers plain_codec raw_codec demo_bus [AOk 0 (Some ''12345''), AErr 0 E_Internal []] \<lparr>m_Env = plain_env [], m_Subject = ''s'', m_Reply = ''r'', m_replied = False\<rparr> =
     (\<lparr>m_Env = plain_env [], m_Subject = ''s'', m_Reply = ''r'', m_replied = True\<rparr>, [])"
  using oversized_answer_silences_the_request [of "\<lparr>m_Env = plain_env [], m_Subject = ''s'', m_Reply = ''r'', m_replied = False\<rparr>"
      "plain_codec" raw_codec demo_bus 0 "Some ''12345''" ErrPayloadTooLarge "[AErr 0 E_Internal []]"]
  by (simp add: Respond_def Let_def Pack_def raw_codec_def PublishEnv_def sendable_def plain_codec_def plain_env_def answer_env_def demo_bus_def checkPayload_def unix_milli_def)

definition demo_request :: Envelope where
  "demo_request = (plain_env ''q'')\<lparr>e_Cmd := 5, e_Uid := 7, e_TraceId := ''t'', e_Seq := 1\<rparr>"

definition demo_answer :: Envelope where
  "demo_answer = (answer_env demo_bus 0 \<lparr>m_Env = demo_request, m_Subject = ''s'', m_Reply = ''r'', m_replied = False\<rparr>)\<lparr>e_Body := ''out''\<rparr>"

definition demo_nats :: "string \<Rightarrow> bytes \<Rightarrow> unit \<Rightarrow> unit \<times> nats_reply" where
  "demo_nats subj data w =
     (w, case bus_wrap (pair_codec demo_request demo_answer) subj ''r'' data of None \<Rightarrow> NDeadline
       | Some m \<Rightarrow> (case fst (snd (Respond (pair_codec demo_request demo_answer) raw_codec demo_bus 0 (Some ''out'') m)) of [] \<Rightarrow> NDeadline | p # ps \<Rightarrow> NReply (snd p)))"

lemma demo_NewEnvelope: "NewEnvelope raw_codec 0 ''t'' 5 7 [] (Some ''q'') demo_bus = (demo_bus\<lparr>bc_seq := 1\<rparr>, Inr demo_request)"
  by (simp add: NewEnvelope_def raw_codec_def NextSeq_def demo_bus_def demo_request_def plain_env_def unix_milli_def)

lemma demo_sendable:
  "sendable (pair_codec demo_request demo_answer) (demo_bus\<lparr>bc_seq := 1\<rparr>) demo_request = Inr ''a''"
  "demo_request \<noteq> demo_answer" "sendable (pair_codec demo_request demo_answer) demo_bus demo_answer = Inr ''b''"
proof -
  show n: "demo_request \<noteq> demo_answer" by (simp add: demo_request_def demo_answer_def answer_env_def plain_env_def)
  show "sendable (pair_codec demo_request demo_answer) (demo_bus\<lparr>bc_seq := 1\<rparr>) demo_request = Inr ''a''"
    "sendable (pair_codec demo_request demo_answer) demo_bus demo_answer = Inr ''b''"
    using n by (auto simp: sendable_def pair_codec_def checkPayload_def demo_bus_def)
qed

theorem call_returns_the_answer_witness:
  "snd (snd (bus_Call (pair_codec demo_request demo_answer) raw_codec raw_codec [] demo_nats 0 ''t'' ''s'' 5 7 [] (Some ''q'') demo_bus ())) = Inr ''out''
    \<and> (\<exists>m. bus_wrap (pair_codec demo_request demo_answer) ''s'' ''r'' ''a'' = Some m \<and> e_Cmd (m_Env m) = 5 \<and> e_Uid (m_Env m) = 7)"
proof (rule call_returns_the_answer [where out = "''out''" and ob = "''out''" and env = demo_request and srv = demo_bus and later = 0 and ?c1.0 = "demo_bus\<lparr>bc_seq := 1\<rparr>" and inbox = "''r''"])
  show "\<exists>d. sendable (pair_codec demo_request demo_answer) demo_bus
      ((answer_env demo_bus 0 \<lparr>m_Env = demo_request, m_Subject = ''s'', m_Reply = ''r'', m_replied = False\<rparr>)\<lparr>e_Body := ''out''\<rparr>) = Inr d"
    using demo_sendable(3) by (simp add: demo_answer_def [symmetric])
qed (simp_all add: pair_codec_ok demo_NewEnvelope demo_sendable [simplified] demo_nats_def raw_codec_ok)

end
