(* ===== verification/Gateway_Conn.thy ===== *)
theory Gateway_Conn
  imports Bus
begin

text \<open>
  A client connection of the gateway, \<^verbatim>\<open>internal/gateway/conn.go\<close>: the limit on requests, the queue to the client, and the frames. The bytes that arrive and leave are lists; the socket, its deadlines and
  \<open>drainOut\<close>, which only waits, are left out. The atomic counters are read and written one call after the other, as the single reading goroutine of a connection does. Protobuf is a parameter, as on the bus. Times are
  nanoseconds since 1970.

  Shown here: frames are read back as they were written, however the stream is cut; the limit on requests holds for every sequence of requests; and what a refused request costs the client.
\<close>

section \<open>State\<close>

definition maxFrameSize :: nat where "maxFrameSize = 1048576"
definition writeQueueSize :: nat where "writeQueueSize = 256"

record conn =
  cn_ID :: nat
  cn_UID :: nat
  cn_out :: "bytes list"
  cn_closed :: bool
  cn_tokens :: int
  cn_lastFill :: int

definition newConn :: "nat \<Rightarrow> int \<Rightarrow> int \<Rightarrow> conn" where
  "newConn ident rateBurst now = \<lparr>cn_ID = ident, cn_UID = 0, cn_out = [], cn_closed = False, cn_tokens = rateBurst, cn_lastFill = unix_milli now\<rparr>"

section \<open>The limit\<close>

definition refill :: "int \<Rightarrow> int \<Rightarrow> int \<Rightarrow> conn \<Rightarrow> conn" where
  "refill rateQPS rateBurst t c =
     (if t > cn_lastFill c
      then let add = go_div (i64 ((t - cn_lastFill c) * rateQPS)) 1000 in
        if add > 0
        then let n = i64 (cn_tokens c + add) in c\<lparr>cn_lastFill := t, cn_tokens := (if n > rateBurst then rateBurst else n)\<rparr>
        else c
      else c)"

definition allow :: "int \<Rightarrow> int \<Rightarrow> int \<Rightarrow> conn \<Rightarrow> conn \<times> bool" where
  "allow rateQPS rateBurst now c =
     (let c1 = refill rateQPS rateBurst (unix_milli now) c; n = i64 (cn_tokens c1 - 1) in (c1\<lparr>cn_tokens := n\<rparr>, n \<ge> 0))"

section \<open>Sending\<close>

definition conn_Close :: "conn \<Rightarrow> conn" where
  "conn_Close c = c\<lparr>cn_closed := True\<rparr>"

definition conn_Send :: "bytes \<Rightarrow> conn \<Rightarrow> conn \<times> bool" where
  "conn_Send data c =
     (if cn_closed c then (c, False)
      else if length (cn_out c) < writeQueueSize then (c\<lparr>cn_out := cn_out c @ [data]\<rparr>, True)
      else (conn_Close c, False))"

definition gate_encode :: "Envelope proto \<Rightarrow> Envelope \<Rightarrow> bytes option" where
  "gate_encode C env =
     (case Marshal C env of
        None \<Rightarrow> None
      | Some body \<Rightarrow> if length body > maxFrameSize then None else Some (be_bytes 4 (length body) @ body))"

definition SendEnv :: "Envelope proto \<Rightarrow> Envelope \<Rightarrow> conn \<Rightarrow> conn \<times> bool" where
  "SendEnv C env c = (case gate_encode C env of None \<Rightarrow> (c, False) | Some data \<Rightarrow> conn_Send data c)"

definition push_env :: "string \<Rightarrow> int \<Rightarrow> nat \<Rightarrow> bytes \<Rightarrow> string \<Rightarrow> conn \<Rightarrow> Envelope" where
  "push_env gateID now push payload traceID c =
     \<lparr>e_Cmd = push, e_Uid = cn_UID c, e_TraceId = traceID, e_FromNode = gateID, e_TsMs = unix_milli now, e_Seq = 0, e_Body = payload,
      e_ErrCode = 0, e_ErrMsg = [], e_Shard = 0, e_Auth = [], e_Operator = []\<rparr>"

definition SendPush :: "Envelope proto \<Rightarrow> string \<Rightarrow> int \<Rightarrow> nat \<Rightarrow> bytes \<Rightarrow> string \<Rightarrow> conn \<Rightarrow> conn \<times> bool" where
  "SendPush C gateID now push payload traceID c = SendEnv C (push_env gateID now push payload traceID c) c"

definition err_env :: "string \<Rightarrow> int \<Rightarrow> nat \<Rightarrow> string \<Rightarrow> Envelope \<Rightarrow> Envelope" where
  "err_env gateID now code txt req =
     \<lparr>e_Cmd = e_Cmd req, e_Uid = e_Uid req, e_TraceId = e_TraceId req, e_FromNode = gateID, e_TsMs = unix_milli now, e_Seq = e_Seq req, e_Body = [],
      e_ErrCode = code, e_ErrMsg = txt, e_Shard = 0, e_Auth = [], e_Operator = []\<rparr>"

definition replyErr :: "Envelope proto \<Rightarrow> string \<Rightarrow> int \<Rightarrow> nat \<Rightarrow> string \<Rightarrow> Envelope \<Rightarrow> conn \<Rightarrow> conn \<times> bool" where
  "replyErr C gateID now code txt req c = SendEnv C (err_env gateID now code txt req) c"

section \<open>Reading\<close>

definition be_value :: "bytes \<Rightarrow> nat" where
  "be_value bs = foldl (\<lambda>n c. n * 256 + of_char c) 0 bs"

text \<open>The reading loop on the bytes that have arrived so far: the requests it takes out, and whether it has ended by itself (a bad length or a frame that cannot be decoded); otherwise it waits for more.\<close>

function read_frames :: "Envelope proto \<Rightarrow> bytes \<Rightarrow> Envelope list \<times> bool" where
  "read_frames C bs =
     (if length bs < 4 then ([], False)
      else let n = be_value (take 4 bs) in
        if n = 0 \<or> n > maxFrameSize then ([], True)
        else if length (drop 4 bs) < n then ([], False)
        else case Unmarshal C (take n (drop 4 bs)) of
          None \<Rightarrow> ([], True)
        | Some env \<Rightarrow> (case read_frames C (drop n (drop 4 bs)) of (envs, ended) \<Rightarrow> (env # envs, ended)))"
  by pat_completeness auto
termination by (relation "measure (\<lambda>(C, bs). length bs)") auto

declare read_frames.simps [simp del]

text \<open>What the loop does with each request: the limit first, then the dispatcher or the answer that there were too many.\<close>

datatype taken_req = Passed Envelope | TooMany Envelope

fun read_loop :: "int \<Rightarrow> int \<Rightarrow> (int \<times> Envelope) list \<Rightarrow> conn \<Rightarrow> conn \<times> taken_req list" where
  "read_loop rateQPS rateBurst [] c = (c, [])"
| "read_loop rateQPS rateBurst ((now, env) # reqs) c =
     (case allow rateQPS rateBurst now c of
        (c1, ok) \<Rightarrow> (case read_loop rateQPS rateBurst reqs c1 of (c2, outs) \<Rightarrow> (c2, (if ok then Passed env else TooMany env) # outs)))"

section \<open>Frames\<close>

lemma be_value_bytes: "n < 256 ^ k \<Longrightarrow> be_value (be_bytes k n) = n"
proof (induction k arbitrary: n)
  case (Suc k)
  then have "n div 256 < 256 ^ k" by (simp add: less_mult_imp_div_less mult.commute)
  then show ?case using Suc.IH [of "n div 256"] by (simp add: be_value_def)
qed (simp add: be_value_def)

lemma read_frames_Cons:
  assumes "proto_ok C" "gate_encode C e = Some f" "Marshal C e \<noteq> Some []"
  shows "read_frames C (f @ rest) = (case read_frames C rest of (envs, ended) \<Rightarrow> (e # envs, ended))"
proof -
  obtain body where b: "Marshal C e = Some body" "length body \<le> maxFrameSize" "f = be_bytes 4 (length body) @ body"
    using assms(2) by (auto simp: gate_encode_def split: option.splits if_splits)
  have "be_value (be_bytes 4 (length body)) = length body" using b(2) by (intro be_value_bytes) (simp add: maxFrameSize_def)
  moreover have "body \<noteq> []" using assms(3) b(1) by auto
  moreover have "Unmarshal C body = Some e" using assms(1) b(1) by (simp add: proto_ok_def)
  ultimately show ?thesis using b by (subst read_frames.simps) (simp add: Let_def)
qed

text \<open>C38: Frames are read back as they were written. From the frames of any envelopes, one after the other, followed by the beginning of another frame that has not arrived completely, the reading loop takes out exactly these envelopes in their
  order and waits for the rest. An envelope that is empty on the wire is excluded: its frame would have the length zero, which the loop refuses.\<close>

theorem frames_roundtrip:
  assumes "proto_ok C" "list_all2 (\<lambda>e f. gate_encode C e = Some f \<and> Marshal C e \<noteq> Some []) es fs"
    and "gate_encode C last_env = Some lf" "Marshal C last_env \<noteq> Some []" "strict_prefix partial lf"
  shows "read_frames C (concat fs @ partial) = (es, False)"
  using assms(2)
proof (induction rule: list_all2_induct)
  case Nil
  obtain body where b: "length body \<le> maxFrameSize" "lf = be_bytes 4 (length body) @ body" "body \<noteq> []"
    using assms(3,4) by (auto simp: gate_encode_def split: option.splits if_splits)
  obtain p where p: "lf = partial @ p" "p \<noteq> []" using assms(5) by (auto simp: strict_prefix_def prefix_def)
  show ?case
  proof (cases "length partial < 4")
    case True
    then show ?thesis by (subst read_frames.simps) simp
  next
    case False
    then have "take 4 partial = be_bytes 4 (length body)" using b(2) p(1) by (metis append_eq_append_conv_if length_be_bytes not_less take_append take_all_iff order_refl diff_is_0_eq take0 append_Nil2)
    moreover have "be_value (be_bytes 4 (length body)) = length body" using b(1) by (intro be_value_bytes) (simp add: maxFrameSize_def)
    moreover have "length partial < 4 + length body" using b(2) p by (metis add.commute length_append length_be_bytes length_greater_0_conv less_add_same_cancel1)
    ultimately show ?thesis using False b by (subst read_frames.simps) (simp add: Let_def, linarith)
  qed
next
  case (Cons e es f fs)
  then show ?case using read_frames_Cons [OF assms(1), of e f "concat fs @ partial"] by simp
qed


section \<open>The limit holds\<close>

text \<open>Values of a connection that are far from any overflow: the counters of a connection that has seen fewer than \<open>2 ^ 60\<close> requests.\<close>

definition sane :: "int \<Rightarrow> int \<Rightarrow> bool" where
  "sane rateQPS rateBurst \<longleftrightarrow> 0 \<le> rateQPS \<and> rateQPS \<le> 2 ^ 20 \<and> 0 \<le> rateBurst \<and> rateBurst \<le> 2 ^ 60"

lemma refill_spec:
  assumes "sane qps burst" "- (2 ^ 60) \<le> cn_tokens c" "cn_tokens c \<le> burst" "0 \<le> cn_lastFill c" "t \<le> 2 ^ 42"
  shows "\<exists>add \<ge> 0. 1000 * add \<le> (cn_lastFill (refill qps burst t c) - cn_lastFill c) * qps \<and> cn_tokens (refill qps burst t c) \<le> cn_tokens c + add
    \<and> cn_tokens c \<le> cn_tokens (refill qps burst t c) \<and> cn_tokens (refill qps burst t c) \<le> burst
    \<and> cn_lastFill c \<le> cn_lastFill (refill qps burst t c) \<and> cn_lastFill (refill qps burst t c) \<le> max (cn_lastFill c) t"
proof (cases "cn_lastFill c < t \<and> 0 < ((t - cn_lastFill c) * qps) div 1000")
  case True
  define d where "d = (t - cn_lastFill c) * qps"
  have "(t - cn_lastFill c) * qps \<le> 2 ^ 42 * 2 ^ 20" using assms True by (intro mult_mono) (auto simp: sane_def)
  then have d: "0 \<le> d" "d \<le> 2 ^ 62" using assms True by (simp_all add: d_def sane_def)
  have i: "i64 d = d" using d by (intro i64_id) (simp add: in_i64_def)
  have g: "go_div d 1000 = d div 1000" using d by (intro go_div_nonneg) simp_all
  have q: "d div 1000 \<le> 2 ^ 53" using d(2) by simp
  then have n: "i64 (cn_tokens c + d div 1000) = cn_tokens c + d div 1000" using assms d by (intro i64_id) (auto simp: in_i64_def sane_def)
  have r: "refill qps burst t c = c\<lparr>cn_lastFill := t, cn_tokens := (if cn_tokens c + d div 1000 > burst then burst else cn_tokens c + d div 1000)\<rparr>"
    using True by (simp add: refill_def Let_def i g n flip: d_def)
  have "1000 * (d div 1000) \<le> d" by simp
  then show ?thesis unfolding r using True assms(3) d by (intro exI [of _ "d div 1000"]) (auto simp: d_def)
next
  case False
  then have "refill qps burst t c = c"
  proof (cases "cn_lastFill c < t")
    case True
    have "(t - cn_lastFill c) * qps \<le> 2 ^ 42 * 2 ^ 20" using assms True by (intro mult_mono) (auto simp: sane_def)
    moreover have nn: "0 \<le> (t - cn_lastFill c) * qps" using assms True by (simp add: sane_def)
    ultimately have "i64 ((t - cn_lastFill c) * qps) = (t - cn_lastFill c) * qps" by (intro i64_id) (simp add: in_i64_def)
    then show ?thesis using False True nn by (simp add: refill_def Let_def go_div_nonneg)
  qed (simp add: refill_def)
  then show ?thesis using assms by (intro exI [of _ 0]) simp
qed

definition passed :: "taken_req list \<Rightarrow> nat" where
  "passed outs = length (filter (\<lambda>x. case x of Passed e \<Rightarrow> True | _ \<Rightarrow> False) outs)"

lemma read_loop_bound:
  assumes "sane qps burst" "- (2 ^ 60) + int (length reqs) \<le> cn_tokens c" "cn_tokens c \<le> burst" "0 \<le> cn_lastFill c" "cn_lastFill c \<le> T"
    "\<forall>(now, e)\<in>set reqs. unix_milli now \<le> T" "T \<le> 2 ^ 42"
  shows "1000 * int (passed (snd (read_loop qps burst reqs c))) \<le> 1000 * max 0 (cn_tokens c) + (T - cn_lastFill c) * qps"
  using assms
proof (induction reqs arbitrary: c)
  case Nil
  then show ?case by (simp add: passed_def sane_def)
next
  case (Cons r reqs)
  obtain now e where r: "r = (now, e)" by (cases r)
  let ?t = "unix_milli now"
  define c1 where "c1 = refill qps burst ?t c"
  obtain add where add: "0 \<le> add" "1000 * add \<le> (cn_lastFill c1 - cn_lastFill c) * qps" "cn_tokens c1 \<le> cn_tokens c + add" "cn_tokens c \<le> cn_tokens c1" "cn_tokens c1 \<le> burst"
      "cn_lastFill c \<le> cn_lastFill c1" "cn_lastFill c1 \<le> max (cn_lastFill c) ?t"
    using refill_spec [of qps burst c ?t] Cons.prems by (auto simp: c1_def r)
  have n: "i64 (cn_tokens c1 - 1) = cn_tokens c1 - 1" using add Cons.prems by (intro i64_id) (auto simp: in_i64_def sane_def)
  define c2 where "c2 = c1\<lparr>cn_tokens := cn_tokens c1 - 1\<rparr>"
  have al: "allow qps burst now c = (c2, cn_tokens c1 - 1 \<ge> 0)" by (simp add: allow_def Let_def c1_def [symmetric] n c2_def)
  have IH: "1000 * int (passed (snd (read_loop qps burst reqs c2))) \<le> 1000 * max 0 (cn_tokens c2) + (T - cn_lastFill c2) * qps"
    using Cons.prems add r by (intro Cons.IH) (auto simp: c2_def)
  have p: "int (passed (snd (read_loop qps burst (r # reqs) c))) = (if cn_tokens c1 - 1 \<ge> 0 then 1 else 0) + int (passed (snd (read_loop qps burst reqs c2)))"
    by (simp add: r al passed_def split_beta)
  have "(T - cn_lastFill c) * qps = (T - cn_lastFill c1) * qps + (cn_lastFill c1 - cn_lastFill c) * qps" by (simp add: algebra_simps)
  moreover have "cn_tokens c2 = cn_tokens c1 - 1" "cn_lastFill c2 = cn_lastFill c1" by (simp_all add: c2_def)
  ultimately show ?case using IH p add(1-3) by (simp add: max_def split: if_splits)
qed

text \<open>C37: The limit on requests holds. Of all requests a connection receives until some time, however they are spread, at most the burst and what the rate yields since the connection was made are let through.\<close>

theorem request_limit_holds:
  assumes "sane qps burst" "int (length reqs) \<le> 2 ^ 60" "0 \<le> unix_milli start" "unix_milli start \<le> unix_milli stop" "\<forall>(now, e)\<in>set reqs. now \<le> stop" "unix_milli stop \<le> 2 ^ 42"
  shows "1000 * int (passed (snd (read_loop qps burst reqs (newConn i burst start)))) \<le> 1000 * burst + (unix_milli stop - unix_milli start) * qps"
proof -
  have "unix_milli now \<le> unix_milli stop" if "(now, e) \<in> set reqs" for now e using assms(5) that by (auto simp: unix_milli_def intro!: zdiv_mono1)
  then show ?thesis using read_loop_bound [of qps burst reqs "newConn i burst start" "unix_milli stop"] assms by (auto simp: newConn_def sane_def)
qed

text \<open>A client that does not slow down is not served at all. A refused request costs a token as well, so the counter of a client that has used its tokens up and goes on with one request per millisecond keeps falling: none of
  its requests passes again, for as long as it goes on, although the limit is meant to let some of them through every second.\<close>

theorem refused_requests_starve_the_client:
  assumes "0 < qps" "qps < 1000" "sane qps burst" "cn_tokens c \<le> 0" "- (2 ^ 59) \<le> cn_tokens c" "0 \<le> cn_lastFill c" "cn_lastFill c + int n \<le> 2 ^ 42"
  shows "passed (snd (read_loop qps burst (map (\<lambda>k. ((cn_lastFill c + int k) * 1000000, e)) [1..<Suc n]) c)) = 0"
proof -
  define t where "t k = (cn_lastFill c + int k) * 1000000" for k :: nat
  have m: "unix_milli (t k) = cn_lastFill c + int k" for k by (simp add: unix_milli_def t_def)
  have main: "passed (snd (read_loop qps burst (map (\<lambda>k. (t k, e)) [Suc j..<Suc n]) c')) = 0"
    if "j \<le> n" "1000 * (cn_tokens c' + int j) \<le> (cn_lastFill c' - cn_lastFill c) * qps" "cn_lastFill c \<le> cn_lastFill c'" "cn_lastFill c' \<le> cn_lastFill c + int j"
      "- (2 ^ 59) - int j \<le> cn_tokens c'" "cn_tokens c' \<le> burst" for j c'
    using that
  proof (induction "n - j" arbitrary: j c')
    case 0
    then show ?case by (simp add: passed_def)
  next
    case (Suc d)
    then have j: "j < n" by simp
    have nb: "int n \<le> 2 ^ 42" using assms(6,7) by simp
    define c1 where "c1 = refill qps burst (unix_milli (t (Suc j))) c'"
    obtain add where add: "0 \<le> add" "1000 * add \<le> (cn_lastFill c1 - cn_lastFill c') * qps" "cn_tokens c1 \<le> cn_tokens c' + add" "cn_tokens c' \<le> cn_tokens c1" "cn_tokens c1 \<le> burst"
        "cn_lastFill c' \<le> cn_lastFill c1" "cn_lastFill c1 \<le> max (cn_lastFill c') (unix_milli (t (Suc j)))"
      using refill_spec [OF assms(3), of c' "unix_milli (t (Suc j))"] Suc.prems assms(6,7) j nb m [of "Suc j"] by (auto simp: c1_def)
    have l: "cn_lastFill c1 \<le> cn_lastFill c + int (Suc j)" using add(7) Suc.prems(4) m [of "Suc j"] by simp
    have n: "i64 (cn_tokens c1 - 1) = cn_tokens c1 - 1" using add Suc.prems nb j assms(3) by (intro i64_id) (auto simp: in_i64_def sane_def)
    have "(cn_lastFill c1 - cn_lastFill c) * qps \<le> int (Suc j) * qps" using l assms(1) by (intro mult_right_mono) auto
    also have "\<dots> < int (Suc j) * 1000" using assms(2) by (intro mult_strict_left_mono) auto
    finally have lt: "(cn_lastFill c1 - cn_lastFill c) * qps < 1000 * int (Suc j)" by simp
    have sum: "(cn_lastFill c1 - cn_lastFill c) * qps = (cn_lastFill c1 - cn_lastFill c') * qps + (cn_lastFill c' - cn_lastFill c) * qps" by (simp add: algebra_simps)
    have inv: "1000 * ((cn_tokens c1 - 1) + int (Suc j)) \<le> (cn_lastFill c1 - cn_lastFill c) * qps" using sum add(2,3) Suc.prems(2) by simp
    then have neg: "\<not> 0 \<le> cn_tokens c1 - 1" using lt by simp
    define c2 where "c2 = c1\<lparr>cn_tokens := cn_tokens c1 - 1\<rparr>"
    have al: "allow qps burst (t (Suc j)) c' = (c2, False)" using neg by (simp add: allow_def Let_def c1_def [symmetric] n c2_def)
    have "passed (snd (read_loop qps burst (map (\<lambda>k. (t k, e)) [Suc (Suc j)..<Suc n]) c2)) = 0"
      by (rule Suc.hyps(1)) (use Suc.hyps(2) j inv add l Suc.prems in \<open>auto simp: c2_def\<close>)
    moreover have "[Suc j..<Suc n] = Suc j # [Suc (Suc j)..<Suc n]" using j by (simp add: upt_rec)
    ultimately show ?case by (simp add: al passed_def split_beta)
  qed
  show ?thesis using main [of 0 c] assms by (simp add: t_def sane_def)
qed


section \<open>Witnesses\<close>

lemma plain_encode: "length b \<le> maxFrameSize \<Longrightarrow> gate_encode plain_codec (plain_env b) = Some (be_bytes 4 (length b) @ b)"
  by (simp add: gate_encode_def plain_codec_def plain_env_def)

theorem frames_roundtrip_witness:
  "read_frames plain_codec (concat [be_bytes 4 2 @ ''ab'', be_bytes 4 1 @ ''c''] @ be_bytes 4 2 @ ''d'') = ([plain_env ''ab'', plain_env ''c''], False)"
  by (rule frames_roundtrip [where last_env = "plain_env ''de''" and lf = "be_bytes 4 2 @ ''de''"])
     (simp_all add: plain_codec_ok plain_encode maxFrameSize_def enc_plain strict_prefix_def flip: numeral_2_eq_2)

theorem request_limit_holds_witness:
  "1000 * int (passed (snd (read_loop 20 2 [(5000000, plain_env []), (6000000, plain_env []), (7000000, plain_env [])] (newConn 1 2 1000000)))) \<le> 1000 * 2 + (unix_milli 7000000 - unix_milli 1000000) * 20"
  by (rule request_limit_holds) (simp_all add: sane_def unix_milli_def)

theorem refused_requests_starve_the_client_witness:
  "passed (snd (read_loop 20 40 (map (\<lambda>k. ((cn_lastFill (newConn 1 0 1000000) + int k) * 1000000, plain_env [])) [1..<Suc 5000]) (newConn 1 0 1000000))) = 0"
  by (rule refused_requests_starve_the_client) (simp_all add: sane_def newConn_def unix_milli_def)

end
