(* ===== verification/Gateway.thy ===== *)
theory Gateway
  imports Gateway_Conn Session Account_Service Shard_Service
begin

text \<open>
  The gateway, \<^verbatim>\<open>internal/gateway/gateway.go\<close> and \<^verbatim>\<open>internal/gateway/dispatch.go\<close>: the tables of connections, dispatching and routing of requests, forwarding with retries, login and kick, pushes, disconnection and
  stopping. Connections are objects that several tables point to, so they live in a heap by their number, which the id generator makes unique. \<open>handleLogin\<close> is split at the points where other goroutines
  come in between: checking the ticket, binding the session, storing the player in the connection, and the locked section. The wait of \<open>drainOut\<close>, logs, metrics and the texts of errors are left out; what
  goroutines such as that of a kick do after the wait is done at once.
\<close>

section \<open>Messages\<close>

record pb_LoginReq =
  lg_Uid :: nat
  lg_Token :: string
  lg_GateId :: string
  lg_ConnId :: nat
  lg_Channel :: string
  lg_Credential :: string
  lg_DeviceId :: string

definition no_LoginReq :: pb_LoginReq where
  "no_LoginReq = \<lparr>lg_Uid = 0, lg_Token = [], lg_GateId = [], lg_ConnId = 0, lg_Channel = [], lg_Credential = [], lg_DeviceId = []\<rparr>"

record pb_LogoutReq =
  lo_Uid :: nat
  lo_GateId :: string
  lo_ConnId :: nat
  lo_Reason :: nat

record KickNotify =
  kn_Uid :: nat
  kn_ConnId :: nat
  kn_Reason :: nat
  kn_Message :: string

record MultiPush =
  mp_Uids :: "nat list"
  mp_Cmd :: nat
  mp_Payload :: bytes

record pb_AuthChannelResp =
  au_Uid :: nat
  au_Token :: string

text \<open>The encodings. Of the requests that are routed by their content only the deciding fields are read: the number of the room, or mode and tier.\<close>

record gate_protos =
  gp_env :: "Envelope proto"
  gp_login :: "pb_LoginReq proto"
  gp_logout :: "pb_LogoutReq proto"
  gp_kick :: "KickNotify proto"
  gp_multi :: "MultiPush proto"
  gp_authreq :: "AuthChannelReq proto"
  gp_authresp :: "pb_AuthChannelResp proto"
  gp_CreateRoom :: "nat proto"
  gp_JoinRoom :: "nat proto"
  gp_LeaveRoom :: "nat proto"
  gp_RoomOp :: "nat proto"
  gp_MatchCancel :: "(nat \<times> nat) proto"
  gp_MatchEnqueue :: "(nat \<times> nat) proto"

section \<open>State\<close>

record gateway =
  gw_gateID :: string
  gw_heap :: "nat \<Rightarrow> conn"
  gw_conns :: "nat list"
  gw_byUID :: "(nat \<times> nat) list"
  gw_closed :: bool

text \<open>The gateway with its surroundings: the connection to the bus, Redis, the services behind the bus, and what was published.\<close>

record ('r, 'w) gsys =
  gs_gw :: gateway
  gs_bus :: bus_conn
  gs_redis :: 'r
  gs_world :: 'w
  gs_pubs :: "publication list"

record gate_cfg =
  gc_rateQPS :: int
  gc_rateBurst :: int
  gc_retryMax :: nat
  gc_shards :: nat
  gc_auth :: LoginVerifier
  gc_ttl :: int

definition gate_New :: "nat \<Rightarrow> LoginVerifier \<Rightarrow> int \<Rightarrow> gate_cfg" where
  "gate_New shards auth ttl = \<lparr>gc_rateQPS = 100, gc_rateBurst = 200, gc_retryMax = 2, gc_shards = shards, gc_auth = auth, gc_ttl = session_ttl ttl\<rparr>"

definition upd_conn :: "nat \<Rightarrow> (conn \<Rightarrow> conn) \<Rightarrow> gateway \<Rightarrow> gateway" where
  "upd_conn i f g = g\<lparr>gw_heap := (gw_heap g)(i := f (gw_heap g i))\<rparr>"

definition close_all :: "nat list \<Rightarrow> gateway \<Rightarrow> gateway" where
  "close_all is g = fold (\<lambda>i. upd_conn i conn_Close) is g"

section \<open>Connections\<close>

text \<open>A new connection; \<open>ident\<close> is the result of \<open>NextID\<close>.\<close>

definition acceptConn :: "gate_cfg \<Rightarrow> int \<Rightarrow> nat option \<Rightarrow> gateway \<Rightarrow> gateway" where
  "acceptConn cfg now ident g =
     (case ident of
        None \<Rightarrow> g
      | Some i \<Rightarrow> if gw_closed g then g
                 else g\<lparr>gw_heap := (gw_heap g)(i := newConn i (gc_rateBurst cfg) now), gw_conns := List.insert i (gw_conns g)\<rparr>)"

definition gate_subjects :: "string \<Rightarrow> string list" where
  "gate_subjects gateID = [GatePush gateID, Broadcast, SessionChangedEvt]"

text \<open>\<open>Start\<close>: the clean-up of sessions, whose error is only logged, and the subscriptions up to the first that fails.\<close>

definition gate_Start :: "'r redis \<Rightarrow> keys \<Rightarrow> net \<Rightarrow> (nat \<Rightarrow> net \<times> net \<times> net) \<Rightarrow> net \<Rightarrow> (string \<Rightarrow> bool) \<Rightarrow> bool \<Rightarrow> string \<Rightarrow> 'r \<Rightarrow> 'r \<times> gateway option" where
  "gate_Start R ks n1 ns n2 subscribed listening gateID s =
     (let s1 = fst (CleanGate R ks n1 ns n2 gateID s) in
      (s1, if list_all subscribed (gate_subjects gateID) \<and> listening
           then Some \<lparr>gw_gateID = gateID, gw_heap = (\<lambda>_. newConn 0 0 0), gw_conns = [], gw_byUID = [], gw_closed = False\<rparr> else None))"

text \<open>The heartbeat of the sessions; \<open>ns\<close> is the fate of the command for each connection.\<close>

definition touch_one :: "gate_protos \<Rightarrow> 'r redis \<Rightarrow> keys \<Rightarrow> int \<Rightarrow> (nat \<Rightarrow> net) \<Rightarrow> int \<Rightarrow> nat \<Rightarrow> 'r \<times> gateway \<Rightarrow> 'r \<times> gateway" where
  "touch_one P R ks ttl ns now i sg =
     (case sg of (s, g) \<Rightarrow>
        let c = gw_heap g i; uid = cn_UID c in
        if uid = 0 \<or> cn_closed c then (s, g)
        else case sess_Touch R ks ttl (ns i) (unix_milli now) uid (gw_gateID g) (cn_ID c) s of
          (s1, Inl e) \<Rightarrow> (s1, g)
        | (s1, Inr True) \<Rightarrow> (s1, g)
        | (s1, Inr False) \<Rightarrow> (s1, upd_conn i (\<lambda>c. conn_Close (fst (SendPush (gp_env P) (gw_gateID g) now PushKick [] [] c))) g))"

definition touchAll :: "gate_protos \<Rightarrow> 'r redis \<Rightarrow> keys \<Rightarrow> int \<Rightarrow> (nat \<Rightarrow> net) \<Rightarrow> int \<Rightarrow> 'r \<Rightarrow> gateway \<Rightarrow> 'r \<times> gateway" where
  "touchAll P R ks ttl ns now s g = fold (touch_one P R ks ttl ns now) (map snd (gw_byUID g)) (s, g)"

section \<open>Pushes\<close>

definition push_one :: "gate_protos \<Rightarrow> int \<Rightarrow> nat \<Rightarrow> bytes \<Rightarrow> string \<Rightarrow> nat \<Rightarrow> nat \<Rightarrow> gateway \<times> nat list \<Rightarrow> gateway \<times> nat list" where
  "push_one P now push payload traceID kickConn uid gl =
     (case gl of (g, closing) \<Rightarrow>
        case map_of (gw_byUID g) uid of
          None \<Rightarrow> (g, closing)
        | Some i \<Rightarrow>
            if kickConn \<noteq> 0 \<and> cn_ID (gw_heap g i) \<noteq> kickConn then (g, closing)
            else (upd_conn i (\<lambda>c. fst (SendPush (gp_env P) (gw_gateID g) now push payload traceID c)) g,
                  if push = PushKick then closing @ [i] else closing))"

definition push_number :: "MultiPush \<Rightarrow> Envelope \<Rightarrow> nat" where
  "push_number mp env = (if mp_Cmd mp = 0 then e_Cmd env else mp_Cmd mp)"

definition push_uids :: "MultiPush \<Rightarrow> Envelope \<Rightarrow> nat list" where
  "push_uids mp env = (if mp_Uids mp = [] \<and> e_Uid env \<noteq> 0 then [e_Uid env] else mp_Uids mp)"

definition kick_conn :: "gate_protos \<Rightarrow> nat \<Rightarrow> MultiPush \<Rightarrow> nat" where
  "kick_conn P push mp =
     (if push = PushKick
      then (case Unmarshal (gp_kick P) (mp_Payload mp) of None \<Rightarrow> 0 | Some kn \<Rightarrow> kn_ConnId kn)
      else 0)"

definition no_MultiPush :: MultiPush where
  "no_MultiPush = \<lparr>mp_Uids = [], mp_Cmd = 0, mp_Payload = []\<rparr>"

definition onPush :: "gate_protos \<Rightarrow> int \<Rightarrow> Envelope \<Rightarrow> gateway \<Rightarrow> gateway" where
  "onPush P now env g =
     (case Unpack (gp_multi P) no_MultiPush env of
        Inl e \<Rightarrow> g
      | Inr mp \<Rightarrow>
          let push = push_number mp env in
          case fold (push_one P now push (mp_Payload mp) (e_TraceId env) (kick_conn P push mp)) (push_uids mp env) (g, []) of
            (g1, closing) \<Rightarrow> close_all closing g1)"

definition push_all :: "gate_protos \<Rightarrow> int \<Rightarrow> nat \<Rightarrow> bytes \<Rightarrow> string \<Rightarrow> nat list \<Rightarrow> gateway \<Rightarrow> gateway" where
  "push_all P now push payload traceID is g =
     fold (\<lambda>i g. upd_conn i (\<lambda>c. fst (SendPush (gp_env P) (gw_gateID g) now push payload traceID c)) g) is g"

definition onBroadcast :: "gate_protos \<Rightarrow> int \<Rightarrow> Envelope \<Rightarrow> gateway \<Rightarrow> gateway" where
  "onBroadcast P now env g =
     (case Unpack (gp_multi P) no_MultiPush env of
        Inl e \<Rightarrow> g
      | Inr mp \<Rightarrow> push_all P now (push_number mp env) (mp_Payload mp) (e_TraceId env) (gw_conns g) g)"

section \<open>Publishing\<close>

definition publish_pub :: "gate_protos \<Rightarrow> 'm proto \<Rightarrow> int \<Rightarrow> string \<Rightarrow> string \<Rightarrow> nat \<Rightarrow> nat \<Rightarrow> string \<Rightarrow> 'm option \<Rightarrow> ('r, 'w) gsys \<Rightarrow> ('r, 'w) gsys" where
  "publish_pub P M now fresh subj cmd uid traceID body S =
     (case bus_Publish (gp_env P) M now fresh subj cmd uid traceID body (gs_bus S) of
        (b, pubs, r) \<Rightarrow> S\<lparr>gs_bus := b, gs_pubs := gs_pubs S @ pubs\<rparr>)"

definition publishSessionChanged :: "gate_protos \<Rightarrow> int \<Rightarrow> string \<Rightarrow> nat \<Rightarrow> ('r, 'w) gsys \<Rightarrow> ('r, 'w) gsys" where
  "publishSessionChanged P now fresh uid S = publish_pub P (gp_logout P) now fresh SessionChangedEvt CmdLogout uid [] None S"

text \<open>\<open>txt\<close> is the text shown to the player.\<close>

definition kick_payload :: "gate_protos \<Rightarrow> string \<Rightarrow> Info \<Rightarrow> nat \<Rightarrow> bytes" where
  "kick_payload P txt old uid =
     (case Marshal (gp_kick P) \<lparr>kn_Uid = uid, kn_ConnId = in_ConnID old, kn_Reason = PushKick, kn_Message = txt\<rparr> of None \<Rightarrow> [] | Some b \<Rightarrow> b)"

definition gate_kick :: "gate_protos \<Rightarrow> string \<Rightarrow> int \<Rightarrow> string \<Rightarrow> Info \<Rightarrow> nat \<Rightarrow> string \<Rightarrow> ('r, 'w) gsys \<Rightarrow> ('r, 'w) gsys" where
  "gate_kick P txt now fresh old uid traceID S =
     publish_pub P (gp_multi P) now fresh (GatePush (in_GateID old)) PushKick uid traceID
       (Some \<lparr>mp_Uids = [uid], mp_Cmd = PushKick, mp_Payload = kick_payload P txt old uid\<rparr>) S"

section \<open>Disconnection\<close>

definition drop_conn :: "nat \<Rightarrow> gateway \<Rightarrow> gateway" where
  "drop_conn i g =
     (let uid = cn_UID (gw_heap g i); g1 = g\<lparr>gw_conns := removeAll (cn_ID (gw_heap g i)) (gw_conns g)\<rparr> in
      if uid \<noteq> 0 \<and> map_of (gw_byUID g) uid = Some i then g1\<lparr>gw_byUID := AList.delete uid (gw_byUID g)\<rparr> else g1)"

definition onDisconnect :: "gate_protos \<Rightarrow> 'r redis \<Rightarrow> keys \<Rightarrow> gate_cfg \<Rightarrow> (string \<Rightarrow> bytes \<Rightarrow> 'w \<Rightarrow> 'w \<times> nats_reply) \<Rightarrow> net \<Rightarrow> net \<Rightarrow> int \<Rightarrow> string \<Rightarrow> nat \<Rightarrow> ('r, 'w) gsys \<Rightarrow> ('r, 'w) gsys" where
  "onDisconnect P R ks cfg nats n1 n2 now fresh i S =
     (let c = gw_heap (gs_gw S) i; uid = cn_UID c; gateID = gw_gateID (gs_gw S); S1 = S\<lparr>gs_gw := drop_conn i (gs_gw S)\<rparr> in
      if uid = 0 then S1
      else let S2 = S1\<lparr>gs_redis := fst (sess_Unbind R ks n1 n2 uid gateID (cn_ID c) (gs_redis S1))\<rparr>;
               S3 = publishSessionChanged P now fresh uid S2 in
           case bus_Call (gp_env P) (gp_logout P) raw_codec [] nats now fresh (LobbyReq (shard_Of uid (gc_shards cfg)) (cmd_Name CmdLogout)) CmdLogout uid []
                  (Some \<lparr>lo_Uid = uid, lo_GateId = gateID, lo_ConnId = cn_ID c, lo_Reason = 1\<rparr>) (gs_bus S3) (gs_world S3) of
             (b, w, r) \<Rightarrow> S3\<lparr>gs_bus := b, gs_world := w\<rparr>)"

section \<open>Routing\<close>

definition nonZero :: "nat \<Rightarrow> bus_err + nat" where
  "nonZero i = (if i = 0 then Inl ErrDecode else Inr i)"

definition bind_sum :: "('e + 'a) \<Rightarrow> ('a \<Rightarrow> 'e + 'b) \<Rightarrow> 'e + 'b" where
  "bind_sum x f = (case x of Inl e \<Rightarrow> Inl e | Inr a \<Rightarrow> f a)"

definition extractRoomID :: "gate_protos \<Rightarrow> nat \<Rightarrow> Envelope \<Rightarrow> bus_err + nat" where
  "extractRoomID P cmd env =
     (if cmd = CmdCreateRoom then bind_sum (Unpack (gp_CreateRoom P) 0 env) nonZero
      else if cmd = CmdJoinRoom then bind_sum (Unpack (gp_JoinRoom P) 0 env) nonZero
      else if cmd = CmdLeaveRoom then bind_sum (Unpack (gp_LeaveRoom P) 0 env) nonZero
      else bind_sum (Unpack (gp_RoomOp P) 0 env) nonZero)"

definition extractMatchKey :: "gate_protos \<Rightarrow> nat \<Rightarrow> Envelope \<Rightarrow> bus_err + (nat \<times> nat)" where
  "extractMatchKey P cmd env = (if cmd = CmdMatchCancel then Unpack (gp_MatchCancel P) (0, 0) env else Unpack (gp_MatchEnqueue P) (0, 0) env)"

text \<open>\<open>route\<close> gives the subject and the envelope with its shard.\<close>

definition route :: "gate_protos \<Rightarrow> nat \<Rightarrow> nat \<Rightarrow> nat \<Rightarrow> Envelope \<Rightarrow> bus_err + (string \<times> Envelope)" where
  "route P shards cmd uid env =
     (if cmd \<in> {CmdCreateRoom, CmdJoinRoom, CmdLeaveRoom, CmdRoomOp, CmdRoomInfo, CmdStartBattle}
      then bind_sum (extractRoomID P cmd env)
             (\<lambda>roomID. let sh = shard_Of roomID shards in Inr (RoomReq sh (cmd_Name cmd), env\<lparr>e_Shard := sh\<rparr>))
      else if cmd \<in> {CmdMatchEnqueue, CmdMatchCancel}
      then bind_sum (extractMatchKey P cmd env) (\<lambda>(md, tier). Inr (MatchReq md tier, env))
      else if cmd = CmdChatSend then Inr (ChatReq (cmd_Name cmd), env)
      else if cmd \<in> {CmdAuthChannel, CmdBindChannel, CmdUnbindChannel, CmdListBindings} then Inr (AccountReq (cmd_Name cmd), env)
      else if cmd \<in> {CmdWorldBossState, CmdWorldBossHit} then Inr (WorldReq (cmd_Name cmd), env)
      else if cmd = CmdLogin then Inl ErrDecode
      else let sh = shard_Of uid shards in Inr (LobbyReq sh (cmd_Name cmd), env\<lparr>e_Shard := sh\<rparr>))"

datatype gate_act = ActLogin Envelope | ActErr nat Envelope | ActForward Envelope string

definition with_trace :: "string \<Rightarrow> Envelope \<Rightarrow> Envelope" where
  "with_trace fresh env = (if e_TraceId env = [] then env\<lparr>e_TraceId := fresh\<rparr> else env)"

definition gate_dispatch :: "gate_protos \<Rightarrow> nat \<Rightarrow> string \<Rightarrow> string \<Rightarrow> conn \<Rightarrow> Envelope \<Rightarrow> gate_act" where
  "gate_dispatch P shards gateID fresh c env =
     (let cmd = e_Cmd env in
      if cmd = CmdLogin then ActLogin env
      else case CheckClient cmd of
        Inl e \<Rightarrow> ActErr (err_number E_Permission) env
      | Inr _ \<Rightarrow>
          (let uid = cn_UID c in
           if uid = 0 then ActErr (err_number E_Permission) env
           else let env1 = with_trace fresh (env\<lparr>e_Uid := uid, e_Auth := [], e_Operator := [], e_FromNode := gateID\<rparr>) in
             case route P shards cmd uid env1 of
               Inl e \<Rightarrow> ActErr (err_number E_BadRequest) env1
             | Inr (subj, env2) \<Rightarrow> ActForward env2 subj))"

section \<open>Forwarding\<close>

definition isRetryable :: "nat \<Rightarrow> bool" where
  "isRetryable code \<longleftrightarrow> code = err_number E_Unavailable \<or> code = err_number E_NotOwner"

datatype forwarded = FwdGone | FwdReply Envelope | FwdFail

text \<open>One attempt; \<open>None\<close> asks for another one.\<close>

definition forward_try :: "Envelope proto \<Rightarrow> (string \<Rightarrow> bytes \<Rightarrow> 'w \<Rightarrow> 'w \<times> nats_reply) \<Rightarrow> bus_conn \<Rightarrow> string \<Rightarrow> Envelope \<Rightarrow> bool \<Rightarrow> 'w \<Rightarrow> 'w \<times> forwarded option" where
  "forward_try E nats b subj env again w =
     (case RequestEnv E nats b subj env w of
        (w1, Inr resp) \<Rightarrow> (w1, if isRetryable (e_ErrCode resp) \<and> again then None else Some (FwdReply resp))
      | (w1, Inl e) \<Rightarrow> (w1, if (e = ErrNoResponders \<or> e = ErrDeadlineExceeded) \<and> again then None else Some FwdFail))"

text \<open>The loop: the first number counts the attempts left after this one, the second those made. \<open>gone k\<close> is what \<open>Closed\<close> says before attempt \<open>k\<close>.\<close>

fun forward_loop :: "Envelope proto \<Rightarrow> (string \<Rightarrow> bytes \<Rightarrow> 'w \<Rightarrow> 'w \<times> nats_reply) \<Rightarrow> bus_conn \<Rightarrow> (nat \<Rightarrow> bool) \<Rightarrow> string \<Rightarrow> Envelope \<Rightarrow> nat \<Rightarrow> nat \<Rightarrow> 'w \<Rightarrow> 'w \<times> forwarded" where
  "forward_loop E nats b gone subj env 0 k w =
     (if gone k then (w, FwdGone)
      else case forward_try E nats b subj env False w of (w1, Some r) \<Rightarrow> (w1, r) | (w1, None) \<Rightarrow> (w1, FwdFail))"
| "forward_loop E nats b gone subj env (Suc left) k w =
     (if gone k then (w, FwdGone)
      else case forward_try E nats b subj env True w of
        (w1, Some r) \<Rightarrow> (w1, r)
      | (w1, None) \<Rightarrow> forward_loop E nats b gone subj env left (Suc k) w1)"

definition forward :: "gate_protos \<Rightarrow> gate_cfg \<Rightarrow> (string \<Rightarrow> bytes \<Rightarrow> 'w \<Rightarrow> 'w \<times> nats_reply) \<Rightarrow> (nat \<Rightarrow> bool) \<Rightarrow> int \<Rightarrow> nat \<Rightarrow> Envelope \<Rightarrow> string \<Rightarrow> ('r, 'w) gsys \<Rightarrow> ('r, 'w) gsys" where
  "forward P cfg nats gone now i env subj S =
     (case forward_loop (gp_env P) nats (gs_bus S) gone subj env (gc_retryMax cfg) 0 (gs_world S) of
        (w, r) \<Rightarrow>
          (let S1 = S\<lparr>gs_world := w\<rparr>; g = gs_gw S in
           case r of
             FwdGone \<Rightarrow> S1
           | FwdReply resp \<Rightarrow> S1\<lparr>gs_gw := upd_conn i (\<lambda>c. fst (SendEnv (gp_env P) resp c)) g\<rparr>
           | FwdFail \<Rightarrow> S1\<lparr>gs_gw := upd_conn i (\<lambda>c. fst (replyErr (gp_env P) (gw_gateID g) now (err_number E_Unavailable) [] env c)) g\<rparr>))"


section \<open>Login\<close>

definition reply_conn :: "gate_protos \<Rightarrow> int \<Rightarrow> nat \<Rightarrow> nat \<Rightarrow> string \<Rightarrow> Envelope \<Rightarrow> ('r, 'w) gsys \<Rightarrow> ('r, 'w) gsys" where
  "reply_conn P now i code txt env S =
     S\<lparr>gs_gw := upd_conn i (\<lambda>c. fst (replyErr (gp_env P) (gw_gateID (gs_gw S)) now code txt env c)) (gs_gw S)\<rparr>"

text \<open>The exchange of a credential for a ticket: the error for the client, or player and ticket.\<close>

definition authByChannel :: "gate_protos \<Rightarrow> (string \<Rightarrow> bytes \<Rightarrow> 'w \<Rightarrow> 'w \<times> nats_reply) \<Rightarrow> int \<Rightarrow> string \<Rightarrow> pb_LoginReq \<Rightarrow> string \<Rightarrow> ('r, 'w) gsys
    \<Rightarrow> ('r, 'w) gsys \<times> ((nat \<times> string) + (nat \<times> string))" where
  "authByChannel P nats now fresh req traceID S =
     (case NewEnvelope (gp_authreq P) now fresh CmdAuthChannel 0 traceID
             (Some \<lparr>ac_Channel = lg_Channel req, ac_Credential = lg_Credential req, ac_DeviceId = lg_DeviceId req\<rparr>) (gs_bus S) of
        (b, Inl e) \<Rightarrow> (S\<lparr>gs_bus := b\<rparr>, Inl (err_number E_Internal, []))
      | (b, Inr authEnv) \<Rightarrow>
          (case RequestEnv (gp_env P) nats b (AccountReq (cmd_Name CmdAuthChannel)) (authEnv\<lparr>e_FromNode := gw_gateID (gs_gw S)\<rparr>) (gs_world S) of
             (w, Inl e) \<Rightarrow> (S\<lparr>gs_bus := b, gs_world := w\<rparr>, Inl (err_number E_UpstreamFailed, []))
           | (w, Inr resp) \<Rightarrow>
               (S\<lparr>gs_bus := b, gs_world := w\<rparr>,
                if e_ErrCode resp \<noteq> err_number E_OK then Inl (e_ErrCode resp, e_ErrMsg resp)
                else case Unpack (gp_authresp P) \<lparr>au_Uid = 0, au_Token = []\<rparr> resp of
                  Inl e \<Rightarrow> Inl (err_number E_Internal, [])
                | Inr r \<Rightarrow> if au_Uid r = 0 \<or> au_Token r = [] then Inl (err_number E_Internal, []) else Inr (au_Uid r, au_Token r))))"

text \<open>Up to the checked ticket: either the error, with the envelope it answers, or the player, the request without its credential, and the envelope.\<close>

definition login_check :: "gate_protos \<Rightarrow> (bytes \<Rightarrow> bytes \<Rightarrow> bytes) \<Rightarrow> gate_cfg \<Rightarrow> (string \<Rightarrow> bytes \<Rightarrow> 'w \<Rightarrow> 'w \<times> nats_reply) \<Rightarrow> int \<Rightarrow> string \<Rightarrow> Envelope \<Rightarrow> ('r, 'w) gsys
    \<Rightarrow> ('r, 'w) gsys \<times> ((nat \<times> string \<times> Envelope) + (nat \<times> pb_LoginReq \<times> Envelope))" where
  "login_check P mac cfg nats now fresh env S =
     (case Unpack (gp_login P) no_LoginReq env of
        Inl e \<Rightarrow> (S, Inl (err_number E_BadRequest, [], env))
      | Inr req \<Rightarrow>
          (let env1 = with_trace fresh env; uid0 = (if lg_Uid req = 0 then e_Uid env1 else lg_Uid req) in
           case (if lg_Channel req \<noteq> [] then authByChannel P nats now fresh req (e_TraceId env1) S else (S, Inr (uid0, lg_Token req))) of
             (S1, Inl (code, txt)) \<Rightarrow> (S1, Inl (code, txt, env1))
           | (S1, Inr (uid, token)) \<Rightarrow>
               if uid = 0 then (S1, Inl (err_number E_BadRequest, [], env1))
               else case login_Verify mac (gc_auth cfg) now uid token of
                 Inl e \<Rightarrow> (S1, Inl (err_number E_Permission, [], env1))
               | Inr _ \<Rightarrow> (S1, Inr (uid, req\<lparr>lg_Uid := uid, lg_Token := token, lg_Channel := [], lg_Credential := []\<rparr>, env1))))"

definition login_bind :: "'r redis \<Rightarrow> keys \<Rightarrow> gate_cfg \<Rightarrow> net \<Rightarrow> net \<Rightarrow> int \<Rightarrow> nat \<Rightarrow> nat \<Rightarrow> ('r, 'w) gsys \<Rightarrow> ('r, 'w) gsys \<times> Info result" where
  "login_bind R ks cfg n1 n2 now uid i S =
     (case sess_Bind R ks (gc_ttl cfg) n1 n2 (unix_milli now) uid (gw_gateID (gs_gw S)) (cn_ID (gw_heap (gs_gw S) i)) (gs_redis S) of
        (s, r) \<Rightarrow> (S\<lparr>gs_redis := s\<rparr>, r))"

definition login_kick :: "gate_protos \<Rightarrow> string \<Rightarrow> int \<Rightarrow> string \<Rightarrow> Info \<Rightarrow> nat \<Rightarrow> string \<Rightarrow> ('r, 'w) gsys \<Rightarrow> ('r, 'w) gsys" where
  "login_kick P txt now fresh old uid traceID S =
     (if \<not> Info_Empty old \<and> in_GateID old \<noteq> gw_gateID (gs_gw S) then gate_kick P txt now fresh old uid traceID S else S)"

definition store_uid :: "nat \<Rightarrow> nat \<Rightarrow> gateway \<Rightarrow> gateway" where
  "store_uid uid i g = upd_conn i (\<lambda>c. c\<lparr>cn_UID := uid\<rparr>) g"

text \<open>The locked section: an older connection of the player on this gateway is told and closed.\<close>

definition login_register :: "gate_protos \<Rightarrow> int \<Rightarrow> nat \<Rightarrow> nat \<Rightarrow> string \<Rightarrow> gateway \<Rightarrow> gateway" where
  "login_register P now uid i traceID g =
     (let g1 = (case map_of (gw_byUID g) uid of
                  None \<Rightarrow> g
                | Some prev \<Rightarrow> if prev \<noteq> i then upd_conn prev (\<lambda>c. conn_Close (fst (SendPush (gp_env P) (gw_gateID g) now PushKick [] traceID c))) g else g)
      in g1\<lparr>gw_byUID := AList.update uid i (gw_byUID g)\<rparr>)"

definition login_forward :: "gate_protos \<Rightarrow> gate_cfg \<Rightarrow> (string \<Rightarrow> bytes \<Rightarrow> 'w \<Rightarrow> 'w \<times> nats_reply) \<Rightarrow> (nat \<Rightarrow> bool) \<Rightarrow> int \<Rightarrow> nat \<Rightarrow> nat \<Rightarrow> pb_LoginReq \<Rightarrow> Envelope \<Rightarrow> ('r, 'w) gsys \<Rightarrow> ('r, 'w) gsys" where
  "login_forward P cfg nats gone now i uid req env S =
     (let gateID = gw_gateID (gs_gw S) in
      case Pack (gp_login P) (Some (req\<lparr>lg_GateId := gateID, lg_ConnId := cn_ID (gw_heap (gs_gw S) i)\<rparr>)) env of
        Inl e \<Rightarrow> reply_conn P now i (err_number E_Internal) [] env S
      | Inr env1 \<Rightarrow>
          (let sh = shard_Of uid (gc_shards cfg) in
           forward P cfg nats gone now i (env1\<lparr>e_Uid := uid, e_FromNode := gateID, e_Shard := sh\<rparr>) (LobbyReq sh (cmd_Name CmdLogin)) S))"

definition gate_handleLogin :: "gate_protos \<Rightarrow> (bytes \<Rightarrow> bytes \<Rightarrow> bytes) \<Rightarrow> 'r redis \<Rightarrow> keys \<Rightarrow> gate_cfg \<Rightarrow> (string \<Rightarrow> bytes \<Rightarrow> 'w \<Rightarrow> 'w \<times> nats_reply) \<Rightarrow> string \<Rightarrow> net \<Rightarrow> net \<Rightarrow> (nat \<Rightarrow> bool) \<Rightarrow> int
    \<Rightarrow> string \<Rightarrow> nat \<Rightarrow> Envelope \<Rightarrow> ('r, 'w) gsys \<Rightarrow> ('r, 'w) gsys" where
  "gate_handleLogin P mac R ks cfg nats txt n1 n2 gone now fresh i env S =
     (case login_check P mac cfg nats now fresh env S of
        (S1, Inl (code, t, env1)) \<Rightarrow> reply_conn P now i code t env1 S1
      | (S1, Inr (uid, req, env1)) \<Rightarrow>
          (case login_bind R ks cfg n1 n2 now uid i S1 of
             (S2, Inl e) \<Rightarrow> reply_conn P now i (err_number E_Internal) [] env1 S2
           | (S2, Inr old) \<Rightarrow>
               (let S3 = login_kick P txt now fresh old uid (e_TraceId env1) S2;
                    S4 = S3\<lparr>gs_gw := login_register P now uid i (e_TraceId env1) (store_uid uid i (gs_gw S3))\<rparr>;
                    S5 = publishSessionChanged P now fresh uid S4
                in login_forward P cfg nats gone now i uid req env1 S5)))"

section \<open>Stopping\<close>

definition NotifyClients :: "gate_protos \<Rightarrow> string \<Rightarrow> int \<Rightarrow> gateway \<Rightarrow> gateway" where
  "NotifyClients P txt now g =
     (let payload = (case Marshal (gp_kick P) \<lparr>kn_Uid = 0, kn_ConnId = 0, kn_Reason = PushMaintenance, kn_Message = txt\<rparr> of None \<Rightarrow> [] | Some b \<Rightarrow> b)
      in push_all P now PushMaintenance payload [] (gw_conns g) g)"

definition gate_StopAccepting :: "gateway \<Rightarrow> gateway" where
  "gate_StopAccepting g = g\<lparr>gw_closed := True\<rparr>"

definition gate_FlushAll :: "'r redis \<Rightarrow> keys \<Rightarrow> (nat \<Rightarrow> net \<times> net) \<Rightarrow> gateway \<Rightarrow> 'r \<Rightarrow> 'r" where
  "gate_FlushAll R ks ns g s =
     fold (\<lambda>i s. let c = gw_heap g i in
                 if cn_UID c = 0 then s else case ns i of (n1, n2) \<Rightarrow> fst (sess_Unbind R ks n1 n2 (cn_UID c) (gw_gateID g) (cn_ID c) s))
       (map snd (gw_byUID g)) s"

definition gate_Close :: "gateway \<Rightarrow> gateway" where
  "gate_Close g = close_all (gw_conns g) (g\<lparr>gw_conns := [], gw_byUID := []\<rparr>)"

end
