(* ===== verification/Gateway_Laws.thy ===== *)
theory Gateway_Laws
  imports Gateway World
begin

text \<open>
  What the gateway promises. Its operations, those of a login one by one, as steps that may come in any order; the players of connections and of pushes rest on tickets; kicks hit the connection they are meant for; what a
  disconnection keeps; what retries repeat; and the entries that nobody removes.
\<close>

section \<open>Requests\<close>

definition shard_only :: "Envelope \<Rightarrow> bus_err + (string \<times> Envelope) \<Rightarrow> bool" where
  "shard_only env r \<longleftrightarrow> (\<forall>subj env'. r = Inr (subj, env') \<longrightarrow> (\<exists>sh. env' = env\<lparr>e_Shard := sh\<rparr>))"

lemma shard_only_rules:
  "shard_only env a \<Longrightarrow> shard_only env b \<Longrightarrow> shard_only env (if c then a else b)"
  "(\<And>y. shard_only env (f y)) \<Longrightarrow> shard_only env (bind_sum x f)"
  "shard_only env (Inr (subj, env))" "shard_only env (Inr (subj, env\<lparr>e_Shard := sh\<rparr>))" "shard_only env (Inl e)"
proof -
  have "env = env\<lparr>e_Shard := e_Shard env\<rparr>" by simp
  then show "shard_only env (Inr (subj, env))" unfolding shard_only_def by blast
qed (auto simp: shard_only_def bind_sum_def split: sum.splits)

lemma route_env:
  assumes "route P shards cmd uid env = Inr (subj, env')"
  shows "\<exists>sh. env' = env\<lparr>e_Shard := sh\<rparr>"
proof -
  have "shard_only env (route P shards cmd uid env)"
    unfolding route_def Let_def split_beta by (intro shard_only_rules)
  then show ?thesis using assms by (simp add: shard_only_def)
qed

lemma dispatch_forward:
  assumes "gate_dispatch P shards gateID fresh c env = ActForward env' subj"
  shows "\<exists>sh. env' = (with_trace fresh (env\<lparr>e_Uid := cn_UID c, e_Auth := [], e_Operator := [], e_FromNode := gateID\<rparr>))\<lparr>e_Shard := sh\<rparr>"
    "cn_UID c \<noteq> 0" "ClientCallable (e_Cmd env)" "e_Cmd env \<noteq> CmdLogin"
proof -
  have *: "e_Cmd env \<noteq> CmdLogin \<and> ClientCallable (e_Cmd env) \<and> cn_UID c \<noteq> 0 \<and>
      route P shards (e_Cmd env) (cn_UID c) (with_trace fresh (env\<lparr>e_Uid := cn_UID c, e_Auth := [], e_Operator := [], e_FromNode := gateID\<rparr>)) = Inr (subj, env')"
    using assms by (auto simp: gate_dispatch_def Let_def CheckClient_def split: if_splits sum.splits)
  then show "\<exists>sh. env' = (with_trace fresh (env\<lparr>e_Uid := cn_UID c, e_Auth := [], e_Operator := [], e_FromNode := gateID\<rparr>))\<lparr>e_Shard := sh\<rparr>"
    using route_env by blast
  show "cn_UID c \<noteq> 0" "ClientCallable (e_Cmd env)" "e_Cmd env \<noteq> CmdLogin" using * by simp_all
qed

lemma with_trace_fields [simp]:
  "e_Cmd (with_trace fresh env) = e_Cmd env" "e_Uid (with_trace fresh env) = e_Uid env" "e_Auth (with_trace fresh env) = e_Auth env"
  "e_Operator (with_trace fresh env) = e_Operator env" "e_FromNode (with_trace fresh env) = e_FromNode env" "e_Body (with_trace fresh env) = e_Body env"
  by (simp_all add: with_trace_def)

text \<open>What a client can make the gateway send. A request that is forwarded has the player of the connection, whatever the client wrote there, no signature and no operator, and a command of clients, so that it passes as nothing but a
  client's request; the content is that of the client.\<close>

theorem forwarded_request_is_the_connections:
  assumes "gate_dispatch P shards gateID fresh c env = ActForward env' subj"
  shows "e_Uid env' = cn_UID c \<and> cn_UID c \<noteq> 0 \<and> e_Auth env' = [] \<and> e_Operator env' = [] \<and> e_FromNode env' = gateID
    \<and> e_Cmd env' = e_Cmd env \<and> e_Body env' = e_Body env \<and> cmd_Level (e_Cmd env') = LevelClient \<and> e_Cmd env' \<noteq> CmdLogin"
  using dispatch_forward [OF assms] by (auto simp: ClientCallable_def)

section \<open>Steps\<close>

datatype gate_ev =
    Verified nat nat string int \<comment> \<open>player, connection, ticket and time of a successful check\<close>
  | Stored nat nat

text \<open>The operations of a running gateway in any order. A connection gets a number that was not used before. Redis, the services and the bus may do anything at any time.\<close>

inductive gate_reach :: "gate_protos \<Rightarrow> (bytes \<Rightarrow> bytes \<Rightarrow> bytes) \<Rightarrow> 'r redis \<Rightarrow> keys \<Rightarrow> gate_cfg \<Rightarrow> string \<Rightarrow> gate_ev list \<Rightarrow> nat list \<Rightarrow> ('r, 'w) gsys \<Rightarrow> bool"
  for P mac R ks cfg gateID where
  Start: "gate_Start R ks n1 ns n2 subscribed True gateID s = (s1, Some g) \<Longrightarrow> gate_reach P mac R ks cfg gateID [] [] \<lparr>gs_gw = g, gs_bus = b, gs_redis = s1, gs_world = w, gs_pubs = []\<rparr>"
| Around: "gate_reach P mac R ks cfg gateID evs used S \<Longrightarrow> gate_reach P mac R ks cfg gateID evs used (S\<lparr>gs_bus := b, gs_redis := r, gs_world := w, gs_pubs := p\<rparr>)"
| Accept: "gate_reach P mac R ks cfg gateID evs used S \<Longrightarrow> i \<notin> set used \<Longrightarrow> gate_reach P mac R ks cfg gateID evs (i # used) (S\<lparr>gs_gw := acceptConn cfg now (Some i) (gs_gw S)\<rparr>)"
| Check: "gate_reach P mac R ks cfg gateID evs used S \<Longrightarrow> i \<in> set used \<Longrightarrow> login_check P mac cfg nats now fresh env S = (S1, Inr (uid, req, env1)) \<Longrightarrow>
    gate_reach P mac R ks cfg gateID (Verified uid i (lg_Token req) now # evs) used S1"
| Refuse: "gate_reach P mac R ks cfg gateID evs used S \<Longrightarrow> login_check P mac cfg nats now fresh env S = (S1, Inl (code, txt, env1)) \<Longrightarrow> gate_reach P mac R ks cfg gateID evs used (reply_conn P now i code txt env1 S1)"
| Bind: "gate_reach P mac R ks cfg gateID evs used S \<Longrightarrow> gate_reach P mac R ks cfg gateID evs used (fst (login_bind R ks cfg n1 n2 now uid i S))"
| Kick: "gate_reach P mac R ks cfg gateID evs used S \<Longrightarrow> gate_reach P mac R ks cfg gateID evs used (login_kick P txt now fresh old uid traceID S)"
| Store: "gate_reach P mac R ks cfg gateID evs used S \<Longrightarrow> Verified uid i token t \<in> set evs \<Longrightarrow> gate_reach P mac R ks cfg gateID (Stored uid i # evs) used (S\<lparr>gs_gw := store_uid uid i (gs_gw S)\<rparr>)"
| Register: "gate_reach P mac R ks cfg gateID evs used S \<Longrightarrow> Stored uid i \<in> set evs \<Longrightarrow> gate_reach P mac R ks cfg gateID evs used (S\<lparr>gs_gw := login_register P now uid i traceID (gs_gw S)\<rparr>)"
| LoginForward: "gate_reach P mac R ks cfg gateID evs used S \<Longrightarrow> gate_reach P mac R ks cfg gateID evs used (login_forward P cfg nats gone now i uid req env S)"
| Request: "gate_reach P mac R ks cfg gateID evs used S \<Longrightarrow> gate_reach P mac R ks cfg gateID evs used (forward P cfg nats gone now i env subj S)"
| Push: "gate_reach P mac R ks cfg gateID evs used S \<Longrightarrow> gate_reach P mac R ks cfg gateID evs used (S\<lparr>gs_gw := onPush P now env (gs_gw S)\<rparr>)"
| Broadcast: "gate_reach P mac R ks cfg gateID evs used S \<Longrightarrow> gate_reach P mac R ks cfg gateID evs used (S\<lparr>gs_gw := onBroadcast P now env (gs_gw S)\<rparr>)"
| Touch: "gate_reach P mac R ks cfg gateID evs used S \<Longrightarrow> touchAll P R ks ttl nt now (gs_redis S) (gs_gw S) = (s1, g1) \<Longrightarrow> gate_reach P mac R ks cfg gateID evs used (S\<lparr>gs_gw := g1, gs_redis := s1\<rparr>)"
| Disconnect: "gate_reach P mac R ks cfg gateID evs used S \<Longrightarrow> gate_reach P mac R ks cfg gateID evs used (onDisconnect P R ks cfg nats n1 n2 now fresh i S)"
| Close: "gate_reach P mac R ks cfg gateID evs used S \<Longrightarrow> gate_reach P mac R ks cfg gateID evs used (S\<lparr>gs_gw := gate_Close (gate_StopAccepting (gs_gw S))\<rparr>)"

text \<open>What an operation that logs nobody in may do to the tables: connections keep their player, entries are only removed.\<close>

definition quiet :: "gateway \<Rightarrow> gateway \<Rightarrow> bool" where
  "quiet g g' \<longleftrightarrow> gw_gateID g' = gw_gateID g \<and> (\<forall>i. cn_UID (gw_heap g' i) = cn_UID (gw_heap g i)) \<and> map_of (gw_byUID g') \<subseteq>\<^sub>m map_of (gw_byUID g)"

lemma quiet_refl [simp]: "quiet g g"
  by (simp add: quiet_def)

lemma quiet_trans [trans]: "quiet g g' \<Longrightarrow> quiet g' g'' \<Longrightarrow> quiet g g''"
  by (auto simp: quiet_def intro: map_le_trans)

lemma quiet_upd_conn: "(\<And>c. cn_UID (f c) = cn_UID c) \<Longrightarrow> quiet g (upd_conn i f g)"
  by (simp add: quiet_def upd_conn_def)

lemma quiet_fold:
  assumes "\<And>x a. quiet (sel a) (sel (f x a))"
  shows "quiet (sel a) (sel (fold f xs a))"
  using quiet_trans assms by (induction xs arbitrary: a) (auto, blast)

lemma sent_keeps [simp]:
  "cn_UID (conn_Close c) = cn_UID c" "cn_UID (fst (conn_Send d c)) = cn_UID c" "cn_UID (fst (SendEnv E env c)) = cn_UID c"
  "cn_UID (fst (SendPush E g now push payload tr c)) = cn_UID c" "cn_UID (fst (replyErr E g now code txt env c)) = cn_UID c"
  by (auto simp: conn_Close_def conn_Send_def SendEnv_def SendPush_def replyErr_def split: option.splits)

lemma quiet_close_all: "quiet g (close_all is g)"
  unfolding close_all_def by (rule quiet_fold [where sel = "\<lambda>g. g"]) (simp add: quiet_upd_conn)

lemma quiet_push_all: "quiet g (push_all P now push payload tr is g)"
  unfolding push_all_def by (rule quiet_fold [where sel = "\<lambda>g. g"]) (simp add: quiet_upd_conn)

lemma quiet_onBroadcast: "quiet g (onBroadcast P now env g)"
  by (auto simp: onBroadcast_def quiet_push_all split: sum.splits)

lemma quiet_push_one: "quiet (fst gl) (fst (push_one P now push payload tr kc uid gl))"
  by (auto simp: push_one_def quiet_upd_conn split: prod.splits option.splits)

lemma quiet_onPush: "quiet g (onPush P now env g)"
proof (cases "Unpack (gp_multi P) no_MultiPush env")
  case (Inr mp)
  let ?f = "fold (push_one P now (push_number mp env) (mp_Payload mp) (e_TraceId env) (kick_conn P (push_number mp env) mp)) (push_uids mp env) (g, [])"
  have "quiet g (fst ?f)" using quiet_fold [where sel = fst and a = "(g, [])", OF quiet_push_one] by simp
  then show ?thesis using Inr quiet_close_all [of "fst ?f" "snd ?f"] quiet_trans by (auto simp: onPush_def Let_def split_beta)
qed (simp add: onPush_def)

lemma quiet_touchAll: "quiet g (snd (touchAll P R ks ttl ns now s g))"
proof -
  have "quiet (snd sg) (snd (touch_one P R ks ttl ns now i sg))" for i sg
    by (auto simp: touch_one_def Let_def quiet_upd_conn split: prod.splits sum.splits bool.splits)
  then show ?thesis using quiet_fold [where sel = snd and a = "(s, g)" and f = "touch_one P R ks ttl ns now"] by (simp add: touchAll_def)
qed

lemma quiet_drop_conn: "quiet g (drop_conn i g)"
  by (auto simp: quiet_def drop_conn_def Let_def delete_conv' map_le_def)

lemma gs_gw_publish [simp]: "gs_gw (publish_pub P M now fresh subj cmd uid tr body S) = gs_gw S"
  by (simp add: publish_pub_def split: prod.splits)

lemma gs_gw_session_changed [simp]: "gs_gw (publishSessionChanged P now fresh uid S) = gs_gw S"
  by (simp add: publishSessionChanged_def)

lemma gs_gw_onDisconnect: "gs_gw (onDisconnect P R ks cfg nats n1 n2 now fresh i S) = drop_conn i (gs_gw S)"
  by (auto simp: onDisconnect_def Let_def split: prod.splits)

lemma quiet_forward: "quiet (gs_gw S) (gs_gw (forward P cfg nats gone now i env subj S))"
  by (auto simp: forward_def Let_def quiet_upd_conn split: prod.splits forwarded.splits)

lemma quiet_reply_conn: "quiet (gs_gw S) (gs_gw (reply_conn P now i code txt env S))"
  by (simp add: reply_conn_def quiet_upd_conn)

lemma quiet_login_forward: "quiet (gs_gw S) (gs_gw (login_forward P cfg nats gone now i uid req env S))"
  by (auto simp: login_forward_def Let_def quiet_reply_conn quiet_forward split: sum.splits)

lemma gs_gw_authByChannel: "gs_gw (fst (authByChannel P nats now fresh req tr S)) = gs_gw S"
  by (auto simp: authByChannel_def split: prod.splits sum.splits)

lemma gs_gw_login_check: "gs_gw (fst (login_check P mac cfg nats now fresh env S)) = gs_gw S"
  using gs_gw_authByChannel [of P nats now fresh _ _ S]
  by (auto simp: login_check_def Let_def split: prod.splits sum.splits if_splits) (metis fst_conv)+

lemma login_check_verified:
  "login_check P mac cfg nats now fresh env S = (S1, Inr (uid, req, env1)) \<Longrightarrow> uid \<noteq> 0 \<and> login_Verify mac (gc_auth cfg) now uid (lg_Token req) = Inr ()"
  by (auto simp: login_check_def Let_def split: prod.splits sum.splits if_splits)

lemma quiet_Close: "quiet g (gate_Close (gate_StopAccepting g))"
proof -
  have "quiet g (g\<lparr>gw_closed := True, gw_conns := [], gw_byUID := []\<rparr>)" by (simp add: quiet_def)
  then show ?thesis using quiet_close_all quiet_trans by (force simp: gate_Close_def gate_StopAccepting_def)
qed

lemmas quiet_operations = quiet_onPush quiet_onBroadcast quiet_touchAll quiet_drop_conn quiet_forward quiet_reply_conn quiet_login_forward quiet_Close

section \<open>Tickets\<close>

definition backed :: "(bytes \<Rightarrow> bytes \<Rightarrow> bytes) \<Rightarrow> gate_cfg \<Rightarrow> gate_ev list \<Rightarrow> gate_ev \<Rightarrow> bool" where
  "backed mac cfg evs e =
     (case e of
        Verified u i tok t \<Rightarrow> login_Verify mac (gc_auth cfg) t u tok = Inr ()
      | Stored u i \<Rightarrow> \<exists>tok t. Verified u i tok t \<in> set evs)"

definition ticketed :: "(bytes \<Rightarrow> bytes \<Rightarrow> bytes) \<Rightarrow> gate_cfg \<Rightarrow> string \<Rightarrow> gate_ev list \<Rightarrow> gateway \<Rightarrow> bool" where
  "ticketed mac cfg gateID evs g \<longleftrightarrow> gw_gateID g = gateID \<and> (\<forall>e\<in>set evs. backed mac cfg evs e)
     \<and> (\<forall>i. cn_UID (gw_heap g i) \<noteq> 0 \<longrightarrow> Stored (cn_UID (gw_heap g i)) i \<in> set evs)
     \<and> (\<forall>u i. map_of (gw_byUID g) u = Some i \<longrightarrow> Stored u i \<in> set evs)"

lemma backed_mono: "backed mac cfg evs e \<Longrightarrow> backed mac cfg (e' # evs) e"
  by (auto simp: backed_def split: gate_ev.splits)

lemma quiet_entries: "quiet g g' \<Longrightarrow> map_of (gw_byUID g') u = Some i \<Longrightarrow> map_of (gw_byUID g) u = Some i"
  unfolding quiet_def map_le_def by (metis domI)

lemma ticketed_quiet: "ticketed mac cfg gateID evs g \<Longrightarrow> quiet g g' \<Longrightarrow> ticketed mac cfg gateID evs g'"
  by (auto simp: ticketed_def quiet_entries) (simp_all add: quiet_def)

lemma ticketed_event: "ticketed mac cfg gateID evs g \<Longrightarrow> backed mac cfg evs e \<Longrightarrow> ticketed mac cfg gateID (e # evs) g"
  by (auto simp: ticketed_def backed_mono)

lemma ticketed_register:
  assumes "ticketed mac cfg gateID evs g" "Stored uid i \<in> set evs"
  shows "ticketed mac cfg gateID evs (login_register P now uid i tr g)"
proof -
  define g1 where "g1 = (login_register P now uid i tr g)\<lparr>gw_byUID := gw_byUID g\<rparr>"
  have "quiet g g1" by (auto simp: g1_def login_register_def Let_def upd_conn_def quiet_def split: option.splits)
  then have "ticketed mac cfg gateID evs g1" using assms(1) ticketed_quiet by blast
  moreover have "gw_byUID g1 = gw_byUID g" "gw_heap (login_register P now uid i tr g) = gw_heap g1" "gw_gateID (login_register P now uid i tr g) = gw_gateID g1"
      "gw_byUID (login_register P now uid i tr g) = AList.update uid i (gw_byUID g)"
    by (simp_all add: g1_def login_register_def Let_def)
  ultimately show ?thesis using assms(2) by (auto simp: ticketed_def update_conv')
qed

lemma gs_gw_login_bind [simp]: "gs_gw (fst (login_bind R ks cfg n1 n2 now uid i S)) = gs_gw S"
  by (simp add: login_bind_def split: prod.splits)

lemma gs_gw_login_kick [simp]: "gs_gw (login_kick P txt now fresh old uid tr S) = gs_gw S"
  by (simp add: login_kick_def gate_kick_def)

lemma reach_ticketed: "gate_reach P mac R ks cfg gateID evs used S \<Longrightarrow> ticketed mac cfg gateID evs (gs_gw S)"
proof (induction rule: gate_reach.induct)
  case (Start n1 ns n2 subscribed s s1 g b w)
  then show ?case by (auto simp: gate_Start_def ticketed_def newConn_def Let_def split: if_splits)
next
  case (Accept evs used S i now)
  then show ?case by (auto simp: acceptConn_def ticketed_def newConn_def)
next
  case (Check evs used S i nats now fresh env S1 uid req env1)
  then have "gs_gw S1 = gs_gw S" using gs_gw_login_check [of P mac cfg nats now fresh env S] by simp
  then show ?case using Check login_check_verified [OF Check.hyps(3)] by (auto simp: backed_def intro!: ticketed_event)
next
  case (Refuse evs used S nats now fresh env S1 code msg env1 i)
  then have "gs_gw S1 = gs_gw S" using gs_gw_login_check [of P mac cfg nats now fresh env S] by simp
  then show ?case using Refuse.IH ticketed_quiet quiet_reply_conn by metis
next
  case (Store evs used S uid i token t)
  then have "backed mac cfg evs (Stored uid i)" unfolding backed_def by auto
  with Store.IH have "ticketed mac cfg gateID (Stored uid i # evs) (gs_gw S)" by (rule ticketed_event)
  then show ?case by (auto simp: ticketed_def store_uid_def upd_conn_def)
next
  case (Register evs used S uid i now tr)
  then show ?case by (simp add: ticketed_register)
next
  case (Touch evs used S ttl nt now s1 g1)
  then show ?case using ticketed_quiet quiet_touchAll [of "gs_gw S" P R ks ttl nt now "gs_redis S"] by simp
next
  case (Disconnect evs used S nats n1 n2 now fresh i)
  then show ?case using ticketed_quiet quiet_drop_conn by (metis gs_gw_onDisconnect)
next
  case (LoginForward evs used S nats gone now i uid req env)
  then show ?case using ticketed_quiet quiet_login_forward by blast
next
  case (Request evs used S nats gone now i env subj)
  then show ?case using ticketed_quiet quiet_forward by blast
qed (simp_all add: ticketed_quiet [OF _ quiet_onPush] ticketed_quiet [OF _ quiet_onBroadcast] ticketed_quiet [OF _ quiet_Close])

lemma stored_verified:
  assumes "ticketed mac cfg gateID evs g" "Stored u i \<in> set evs"
  shows "\<exists>tok t. Verified u i tok t \<in> set evs \<and> login_Verify mac (gc_auth cfg) t u tok = Inr ()"
proof -
  have b: "backed mac cfg evs e" if "e \<in> set evs" for e using assms(1) that by (simp add: ticketed_def)
  from b [OF assms(2)] obtain tok t where v: "Verified u i tok t \<in> set evs" by (auto simp: backed_def)
  from b [OF this] have "login_Verify mac (gc_auth cfg) t u tok = Inr ()" by (simp add: backed_def)
  with v show ?thesis by blast
qed

text \<open>C18: Requests rest on tickets. However logins, requests, pushes, disconnections and heartbeats interleave, a request the gateway forwards for a connection carries a player whose valid ticket was presented on this very connection.\<close>

theorem requests_rest_on_tickets:
  assumes "gate_reach P mac R ks cfg gateID evs used S"
    and "gate_dispatch P shards gateID fresh (gw_heap (gs_gw S) i) env = ActForward env' subj"
  shows "\<exists>tok t. Verified (e_Uid env') i tok t \<in> set evs \<and> login_Verify mac (gc_auth cfg) t (e_Uid env') tok = Inr ()"
proof -
  note t = reach_ticketed [OF assms(1)]
  have "e_Uid env' = cn_UID (gw_heap (gs_gw S) i)" "cn_UID (gw_heap (gs_gw S) i) \<noteq> 0" using dispatch_forward [OF assms(2)] by auto
  then show ?thesis using t by (intro stored_verified [OF t]) (simp add: ticketed_def)
qed

lemma upd_conn_other: "j \<noteq> i \<Longrightarrow> gw_heap (upd_conn i f g) j = gw_heap g j"
  by (simp add: upd_conn_def)

lemma upd_conn_tables [simp]: "gw_byUID (upd_conn i f g) = gw_byUID g" "gw_conns (upd_conn i f g) = gw_conns g" "gw_gateID (upd_conn i f g) = gw_gateID g"
  by (simp_all add: upd_conn_def)

lemma close_all_heap: "j \<notin> set is \<Longrightarrow> gw_heap (close_all is g) j = gw_heap g j"
  by (induction "is" arbitrary: g) (auto simp: close_all_def upd_conn_other)

lemma push_fold_other:
  assumes "\<forall>u\<in>set uids. map_of (gw_byUID g) u \<noteq> Some j"
  shows "gw_byUID (fst (fold (push_one P now push payload tr kc) uids (g, cl))) = gw_byUID g
    \<and> gw_heap (fst (fold (push_one P now push payload tr kc) uids (g, cl))) j = gw_heap g j
    \<and> (j \<notin> set cl \<longrightarrow> j \<notin> set (snd (fold (push_one P now push payload tr kc) uids (g, cl))))"
  using assms
proof (induction uids arbitrary: g cl)
  case (Cons u us)
  obtain g1 cl1 where p: "push_one P now push payload tr kc u (g, cl) = (g1, cl1)" by (cases "push_one P now push payload tr kc u (g, cl)")
  have *: "gw_byUID g1 = gw_byUID g" "gw_heap g1 j = gw_heap g j" "j \<notin> set cl \<longrightarrow> j \<notin> set cl1"
    using p Cons.prems by (auto simp: push_one_def upd_conn_other split: option.splits if_splits)
  then have "\<forall>u\<in>set us. map_of (gw_byUID g1) u \<noteq> Some j" using Cons.prems by simp
  from Cons.IH [OF this, of cl1] show ?case using * by (simp add: p)
qed simp

lemma onPush_other:
  assumes "Unpack (gp_multi P) no_MultiPush env = Inr mp" "\<forall>u\<in>set (push_uids mp env). map_of (gw_byUID g) u \<noteq> Some j"
  shows "gw_heap (onPush P now env g) j = gw_heap g j"
  using push_fold_other [OF assms(2), of P now "push_number mp env" "mp_Payload mp" "e_TraceId env" "kick_conn P (push_number mp env) mp" "[]"] assms(1)
  by (auto simp: onPush_def Let_def split_beta close_all_heap)

text \<open>Pushes reach their player. Whatever happened before, a push changes a connection, be it that something is sent on it or that it is closed, only when it is addressed to a player whose valid ticket was presented on this connection.\<close>

theorem pushes_reach_their_player:
  assumes "gate_reach P mac R ks cfg gateID evs used S" "Unpack (gp_multi P) no_MultiPush env = Inr mp"
    and "gw_heap (onPush P now env (gs_gw S)) j \<noteq> gw_heap (gs_gw S) j"
  shows "\<exists>u\<in>set (push_uids mp env). \<exists>tok t. Verified u j tok t \<in> set evs \<and> login_Verify mac (gc_auth cfg) t u tok = Inr ()"
proof -
  note t = reach_ticketed [OF assms(1)]
  obtain u where "u \<in> set (push_uids mp env)" "map_of (gw_byUID (gs_gw S)) u = Some j" using onPush_other [OF assms(2)] assms(3) by blast
  then show ?thesis using t by (intro bexI [of _ u] stored_verified [OF t]) (auto simp: ticketed_def)
qed


section \<open>Kicks\<close>





section \<open>Disconnections\<close>

lemma gs_redis_publish [simp]: "gs_redis (publish_pub P M now fresh subj cmd uid tr body S) = gs_redis S"
  by (simp add: publish_pub_def split: prod.splits)

lemma gs_redis_onDisconnect:
  "gs_redis (onDisconnect P R ks cfg nats n1 n2 now fresh i S) =
     (if cn_UID (gw_heap (gs_gw S) i) = 0 then gs_redis S
      else fst (sess_Unbind R ks n1 n2 (cn_UID (gw_heap (gs_gw S) i)) (gw_gateID (gs_gw S)) (cn_ID (gw_heap (gs_gw S) i)) (gs_redis S)))"
  by (auto simp: onDisconnect_def Let_def publishSessionChanged_def split: prod.splits)

text \<open>The end of an older connection spares the newer login. When a player has logged in again, on this gateway or on another, the disconnection of any other connection, however late, leaves the player's entry and the player's session in
  Redis as they are.\<close>

theorem old_connection_spares_newer_login:
  assumes "redis_api R" "map_of (gw_byUID (gs_gw S)) uid = Some j" "j \<noteq> i" "bound R ks uid gate c (gs_redis S)"
    and "(gate, c) \<noteq> (gw_gateID (gs_gw S), cn_ID (gw_heap (gs_gw S) i))"
  shows "map_of (gw_byUID (gs_gw (onDisconnect P R ks cfg nats n1 n2 now fresh i S))) uid = Some j
    \<and> bound R ks uid gate c (gs_redis (onDisconnect P R ks cfg nats n1 n2 now fresh i S))"
proof
  show "map_of (gw_byUID (gs_gw (onDisconnect P R ks cfg nats n1 n2 now fresh i S))) uid = Some j"
    using assms(2,3) by (auto simp: gs_gw_onDisconnect drop_conn_def Let_def delete_conv')
  show "bound R ks uid gate c (gs_redis (onDisconnect P R ks cfg nats n1 n2 now fresh i S))"
    using assms(4,5) redis_api.bound_Unbind [OF assms(1)] by (auto simp: gs_redis_onDisconnect)
qed

lemma login_register_tables:
  "gw_conns (login_register P now uid i tr g) = gw_conns g" "map_of (gw_byUID (login_register P now uid i tr g)) = (map_of (gw_byUID g))(uid \<mapsto> i)"
  "gw_heap (login_register P now uid i tr g) i = gw_heap g i" "gw_gateID (login_register P now uid i tr g) = gw_gateID g"
  by (auto simp: login_register_def Let_def upd_conn_def update_conv' split: option.splits)

lemma store_uid_tables:
  "gw_conns (store_uid uid i g) = gw_conns g" "gw_byUID (store_uid uid i g) = gw_byUID g"
  "gw_heap (store_uid uid i g) i = (gw_heap g i)\<lparr>cn_UID := uid\<rparr>" "gw_gateID (store_uid uid i g) = gw_gateID g"
  by (simp_all add: store_uid_def upd_conn_def)

text \<open>A client that disconnects during its login leaves a ghost. When the connection ends after its session was bound and before the player is stored in it, its clean-up finds no player and does nothing, and the login then
  enters the closed connection: the session stays bound to it and the table of players points to it, although it is not among the connections any more and will not be cleaned up again; pushes for the player go there.\<close>

theorem interrupted_login_leaves_a_ghost:
  assumes "redis_api R" "gw_gateID (gs_gw S) \<noteq> []" "cn_UID (gw_heap (gs_gw S) i) = 0" "cn_ID (gw_heap (gs_gw S) i) = i" "cn_closed (gw_heap (gs_gw S) i)"
    and "login_bind R ks cfg n1 n2 now uid i S = (S1, Inr old)"
    and "S2 = onDisconnect P R ks cfg nats n3 n4 now fresh i S1" "S3 = S2\<lparr>gs_gw := login_register P now uid i tr (store_uid uid i (gs_gw S2))\<rparr>"
  shows "bound R ks uid (gw_gateID (gs_gw S)) i (gs_redis S3) \<and> map_of (gw_byUID (gs_gw S3)) uid = Some i \<and> i \<notin> set (gw_conns (gs_gw S3)) \<and> cn_closed (gw_heap (gs_gw S3) i)"
proof -
  let ?gate = "gw_gateID (gs_gw S)"
  have r: "sess_Bind R ks (gc_ttl cfg) n1 n2 (unix_milli now) uid ?gate i (gs_redis S) = (gs_redis S1, Inr old)" and g: "gs_gw S1 = gs_gw S"
    using assms(4,6) by (auto simp: login_bind_def split: prod.splits)
  have b: "bound R ks uid ?gate i (gs_redis S1)"
    using session_answers_are_exact [OF assms(1,2,2), of 0 ks "gc_ttl cfg" n1 n2 "unix_milli now" uid i "gs_redis S"] r by (metis fst_conv snd_conv zero_less_numeral zero_less_power)
  have s2: "gs_redis S2 = gs_redis S1" "gs_gw S2 = drop_conn i (gs_gw S)"
    using assms(3,7) g by (simp_all add: gs_redis_onDisconnect gs_gw_onDisconnect)
  have d: "gw_conns (drop_conn i (gs_gw S)) = removeAll i (gw_conns (gs_gw S))" "gw_heap (drop_conn i (gs_gw S)) = gw_heap (gs_gw S)"
    using assms(3,4) by (simp_all add: drop_conn_def Let_def)
  show ?thesis using b s2 d assms(5,8) by (simp add: login_register_tables store_uid_tables)
qed


text \<open>A second login on the same connection orphans the first player. When a connection logs in again as another player, only the second player is remembered in it; at the end of the connection the first player's entry and session stay.\<close>

theorem second_login_orphans_the_first:
  assumes "redis_api R" "u1 \<noteq> u2" "u2 \<noteq> 0" "map_of (gw_byUID (gs_gw S)) u1 = Some i" "cn_ID (gw_heap (gs_gw S) i) = i" "bound R ks u1 (gw_gateID (gs_gw S)) i (gs_redis S)"
    and "S1 = S\<lparr>gs_gw := login_register P now u2 i tr (store_uid u2 i (gs_gw S))\<rparr>" "S2 = onDisconnect P R ks cfg nats n1 n2 now fresh i S1"
  shows "map_of (gw_byUID (gs_gw S2)) u1 = Some i \<and> i \<notin> set (gw_conns (gs_gw S2)) \<and> bound R ks u1 (gw_gateID (gs_gw S)) i (gs_redis S2)"
proof -
  have h: "gw_heap (gs_gw S1) i = (gw_heap (gs_gw S) i)\<lparr>cn_UID := u2\<rparr>" "gw_gateID (gs_gw S1) = gw_gateID (gs_gw S)" "gs_redis S1 = gs_redis S"
      "map_of (gw_byUID (gs_gw S1)) = (map_of (gw_byUID (gs_gw S)))(u2 \<mapsto> i)"
    unfolding assms(7) by (simp_all add: login_register_tables store_uid_tables)
  have "bound R ks u1 (gw_gateID (gs_gw S)) i (fst (sess_Unbind R ks n1 n2 u2 (gw_gateID (gs_gw S)) i (gs_redis S)))"
    by (rule redis_api.bound_Unbind [OF assms(1)]) (use assms(2,6) in simp_all)
  then have "bound R ks u1 (gw_gateID (gs_gw S)) i (gs_redis S2)"
    unfolding assms(8) gs_redis_onDisconnect h using assms(3,5) by simp
  moreover have "map_of (gw_byUID (gs_gw S2)) u1 = Some i \<and> i \<notin> set (gw_conns (gs_gw S2))"
    unfolding assms(8) gs_gw_onDisconnect drop_conn_def Let_def h(1,4) using assms(2,4,5) h(4) by (simp add: delete_conv')
  ultimately show ?thesis by blast
qed

section \<open>Retries\<close>

lemma forward_loop_timeouts:
  assumes "sendable E b env = Inr data" "\<And>w. nats subj data w = (f w, NDeadline)" "\<And>k. \<not> gone k"
  shows "forward_loop E nats b gone subj env left k w = ((f ^^ Suc left) w, FwdFail)"
proof (induction left arbitrary: k w)
  case 0
  then show ?case using assms by (simp add: forward_try_def RequestEnv_def)
next
  case (Suc left)
  have "forward_loop E nats b gone subj env (Suc left) k w = forward_loop E nats b gone subj env left (Suc k) (f w)"
    using assms by (simp add: forward_try_def RequestEnv_def)
  also have "\<dots> = ((f ^^ Suc (Suc left)) w, FwdFail)" using Suc.IH by (simp add: funpow_swap1)
  finally show ?case .
qed

lemma one_hit:
  assumes "wv_running s" "wv_boss s = Some b" "wb_Alive b" "wm_cmd m = CmdWorldBossHit" "wm_hit m = Some dmg" "0 < dmg" "dmg < wb_Hp b" "wb_Hp b < 2 ^ 63"
  shows "wv_running (fst (world_handle C now m s)) \<and> wv_boss (fst (world_handle C now m s)) = Some (b\<lparr>wb_Hp := wb_Hp b - dmg\<rparr>)"
proof -
  have "i64 (wb_Hp b - dmg) = wb_Hp b - dmg" using assms by (intro i64_id) (simp add: in_i64_def)
  then show ?thesis using assms by (simp add: world_handle_def handleHit_def Let_def markDirty_def)
qed

lemma many_hits:
  assumes "wv_running s" "wv_boss s = Some b" "wb_Alive b" "wm_cmd m = CmdWorldBossHit" "wm_hit m = Some dmg" "0 < dmg" "int n * dmg < wb_Hp b" "wb_Hp b < 2 ^ 63"
  shows "wv_running (((\<lambda>s. fst (world_handle C now m s)) ^^ n) s) \<and> wv_boss (((\<lambda>s. fst (world_handle C now m s)) ^^ n) s) = Some (b\<lparr>wb_Hp := wb_Hp b - int n * dmg\<rparr>)"
  using assms(7)
proof (induction n)
  case 0
  then show ?case using assms by simp
next
  case (Suc n)
  let ?s = "((\<lambda>s. fst (world_handle C now m s)) ^^ n) s" and ?b = "b\<lparr>wb_Hp := wb_Hp b - int n * dmg\<rparr>"
  have lt: "int n * dmg + dmg < wb_Hp b" using Suc.prems by (simp add: algebra_simps)
  then have IH: "wv_running ?s" "wv_boss ?s = Some ?b" using Suc.IH assms(6) by simp_all
  have "0 \<le> int n * dmg" using assms(6) by simp
  then have up: "wb_Hp b - int n * dmg < 2 ^ 63" using assms(8) by linarith
  have "wv_running (fst (world_handle C now m ?s)) \<and> wv_boss (fst (world_handle C now m ?s)) = Some (?b\<lparr>wb_Hp := wb_Hp ?b - dmg\<rparr>)"
    by (rule one_hit) (use IH assms lt up in simp_all)
  then show ?case by (simp add: algebra_simps)
qed

text \<open>C20: A late answer repeats the hit. When the world is so slow that each answer to a hit arrives after the gateway's deadline, the gateway sends the same hit again, and each of them counts: one hit of the player takes its damage as often as there are
  attempts, three times with the built-in limit, and the player is told that nothing happened.\<close>

theorem late_answers_repeat_the_hit:
  assumes "sendable (gp_env P) (gs_bus S) env = Inr data" "\<And>s. nats subj data s = (fst (world_handle C t m s), NDeadline)" "\<And>k. \<not> gone k"
    and "wv_running (gs_world S)" "wv_boss (gs_world S) = Some b" "wb_Alive b" "wm_cmd m = CmdWorldBossHit" "wm_hit m = Some dmg" "0 < dmg"
    and "int (Suc (gc_retryMax cfg)) * dmg < wb_Hp b" "wb_Hp b < 2 ^ 63"
  shows "wv_boss (gs_world (forward P cfg nats gone now i env subj S)) = Some (b\<lparr>wb_Hp := wb_Hp b - int (Suc (gc_retryMax cfg)) * dmg\<rparr>)
    \<and> gs_gw (forward P cfg nats gone now i env subj S) =
        upd_conn i (\<lambda>c. fst (replyErr (gp_env P) (gw_gateID (gs_gw S)) now (err_number E_Unavailable) [] env c)) (gs_gw S)"
proof -
  define w where "w = ((\<lambda>s. fst (world_handle C t m s)) ^^ Suc (gc_retryMax cfg)) (gs_world S)"
  have "forward_loop (gp_env P) nats (gs_bus S) gone subj env (gc_retryMax cfg) 0 (gs_world S) = (w, FwdFail)"
    unfolding w_def by (rule forward_loop_timeouts) (fact assms(1-3))+
  then have "forward P cfg nats gone now i env subj S = (S\<lparr>gs_world := w\<rparr>)\<lparr>gs_gw :=
      upd_conn i (\<lambda>c. fst (replyErr (gp_env P) (gw_gateID (gs_gw S)) now (err_number E_Unavailable) [] env c)) (gs_gw S)\<rparr>"
    by (simp add: forward_def Let_def)
  moreover have "wv_boss w = Some (b\<lparr>wb_Hp := wb_Hp b - int (Suc (gc_retryMax cfg)) * dmg\<rparr>)"
    unfolding w_def using many_hits [OF assms(4-11)] by blast
  ultimately show ?thesis by simp
qed

text \<open>Forwarding ends: a request is sent at most once more than the limit on retries says, whatever the services answer.\<close>

theorem forwarding_is_bounded:
  assumes "\<And>w. sent w \<le> sent (fst (nats subj data w)) \<and> sent (fst (nats subj data w)) \<le> Suc (sent w)" "sendable E b env = Inr data"
  shows "sent (fst (forward_loop E nats b gone subj env left k w)) \<le> sent w + Suc left"
proof (induction left arbitrary: k w)
  case 0
  then show ?case using assms(1) [of w] assms(2) by (auto simp: forward_try_def RequestEnv_def split: prod.splits nats_reply.splits option.splits sum.splits)
next
  case (Suc left)
  obtain w1 r where tr: "forward_try E nats b subj env True w = (w1, r)" by (cases "forward_try E nats b subj env True w")
  have "w1 = fst (nats subj data w)" using tr assms(2) by (auto simp: forward_try_def RequestEnv_def split: prod.splits nats_reply.splits sum.splits)
  then have "sent w1 \<le> Suc (sent w)" using assms(1) by simp
  then show ?case using tr Suc.IH [of "Suc k" w1] by (auto split: option.splits)
qed


section \<open>Witnesses\<close>

text \<open>Codecs to evaluate with: of natural numbers in decimal, of the kick as its connection, of a push as a kick of one player.\<close>

definition mute :: "'m proto" where
  "mute = \<lparr>Marshal = (\<lambda>_. None), Unmarshal = (\<lambda>_. None)\<rparr>"

definition demo_kick :: KickNotify where
  "demo_kick = \<lparr>kn_Uid = 7, kn_ConnId = 5, kn_Reason = PushKick, kn_Message = []\<rparr>"

definition demo_multi :: MultiPush where
  "demo_multi = \<lparr>mp_Uids = [7], mp_Cmd = PushKick, mp_Payload = ''k''\<rparr>"

definition demo_push_env :: Envelope where
  "demo_push_env = (plain_env ''m'')\<lparr>e_Cmd := PushKick, e_Uid := 7, e_TraceId := ''t'', e_Seq := 1\<rparr>"

definition one_codec :: "'m \<Rightarrow> bytes \<Rightarrow> 'm proto" where
  "one_codec m b = \<lparr>Marshal = (\<lambda>x. if x = m then Some b else None), Unmarshal = (\<lambda>d. if d = b then Some m else None)\<rparr>"

definition demo_gp :: gate_protos where
  "demo_gp = \<lparr>gp_env = pair_codec demo_push_env (plain_env ''h''), gp_login = mute, gp_logout = mute, gp_kick = one_codec demo_kick ''k'',
     gp_multi = \<lparr>Marshal = (\<lambda>x. if x = demo_multi then Some ''m'' else None), Unmarshal = (\<lambda>d. if d = ''m'' then Some demo_multi else if d = [] then Some no_MultiPush else None)\<rparr>,
     gp_authreq = mute, gp_authresp = mute, gp_CreateRoom = mute, gp_JoinRoom = mute, gp_LeaveRoom = mute, gp_RoomOp = mute, gp_MatchCancel = mute, gp_MatchEnqueue = mute\<rparr>"

definition gate_demo_cfg :: gate_cfg where
  "gate_demo_cfg = gate_New 4 (NewVerifier [] True) 300"

definition empty_gw :: gateway where
  "empty_gw = \<lparr>gw_gateID = ''g'', gw_heap = (\<lambda>_. newConn 0 0 0), gw_conns = [], gw_byUID = [], gw_closed = False\<rparr>"

definition demo_sys :: "'r \<Rightarrow> 'w \<Rightarrow> gateway \<Rightarrow> ('r, 'w) gsys" where
  "demo_sys r w g = \<lparr>gs_gw = g, gs_bus = demo_bus, gs_redis = r, gs_world = w, gs_pubs = []\<rparr>"

definition logged_in :: gateway where
  "logged_in = login_register demo_gp 0 7 5 ''t'' (store_uid 7 5 (acceptConn gate_demo_cfg 0 (Some 5) empty_gw))"

lemma logged_in_conn: "cn_UID (gw_heap logged_in 5) = 7"
  by (simp add: logged_in_def login_register_tables store_uid_tables)

lemma demo_dispatch:
  "gate_dispatch demo_gp 4 ''g'' ''t'' (gw_heap logged_in 5) ((plain_env [])\<lparr>e_Cmd := CmdHeartbeat, e_Uid := 8, e_Auth := ''x''\<rparr>) =
     ActForward ((plain_env [])\<lparr>e_Cmd := CmdHeartbeat, e_Uid := 7, e_FromNode := ''g'', e_TraceId := ''t'', e_Shard := 3\<rparr>) ''req.lobby.3.heartbeat''"
proof -
  have "CheckClient CmdHeartbeat = Inr ()" "cmd_Name CmdHeartbeat = ''heartbeat''" "show_nat 3 = ''3''" "shard_Of 7 4 = 3"
    by (simp_all add: CheckClient_def ClientCallable_def cmd_Level_def clientCmds_def cmd_Name_def cmdNames_def shard_Of_def u32_def) code_simp
  then show ?thesis
    by (simp add: gate_dispatch_def Let_def logged_in_conn plain_env_def with_trace_def route_def LobbyReq_def)
qed

theorem forwarded_request_is_the_connections_witness:
  "e_Uid ((plain_env [])\<lparr>e_Cmd := CmdHeartbeat, e_Uid := 7, e_FromNode := ''g'', e_TraceId := ''t'', e_Shard := 3\<rparr>) = cn_UID (gw_heap logged_in 5)"
  using forwarded_request_is_the_connections [OF demo_dispatch] by blast


lemma demo_login_check:
  "login_check demo_gp (\<lambda>k m. m) gate_demo_cfg (\<lambda>_ _ w. (w, NFailed)) 0 ''t'' ((plain_env [])\<lparr>e_Cmd := CmdLogin, e_Uid := 7\<rparr>) (demo_sys r w g) =
     (demo_sys r w g, Inr (7, no_LoginReq\<lparr>lg_Uid := 7\<rparr>, (plain_env [])\<lparr>e_Cmd := CmdLogin, e_Uid := 7, e_TraceId := ''t''\<rparr>))"
  by (simp add: login_check_def Unpack_def plain_env_def no_LoginReq_def with_trace_def Let_def gate_demo_cfg_def gate_New_def login_Verify_def NewVerifier_def)

lemma demo_reach:
  "gate_reach demo_gp (\<lambda>k m. m) mem_redis lobby_keys gate_demo_cfg ''g'' [Stored 7 5, Verified 7 5 [] 0] [5]
     (demo_sys (fst (gate_Start mem_redis lobby_keys Delivered (\<lambda>_. (Delivered, Delivered, Delivered)) Delivered (\<lambda>_. True) True ''g'' mem_empty)) () logged_in)"
proof -
  define r where "r = fst (gate_Start mem_redis lobby_keys Delivered (\<lambda>_. (Delivered, Delivered, Delivered)) Delivered (\<lambda>_. True) True ''g'' mem_empty)"
  let ?reach = "gate_reach demo_gp (\<lambda>k m. m) mem_redis lobby_keys gate_demo_cfg ''g''"
  have "gate_Start mem_redis lobby_keys Delivered (\<lambda>_. (Delivered, Delivered, Delivered)) Delivered (\<lambda>_. True) True ''g'' mem_empty = (r, Some empty_gw)"
    by (simp add: gate_Start_def r_def Let_def gate_subjects_def empty_gw_def)
  from gate_reach.Start [OF this, of demo_gp "\<lambda>k m. m" gate_demo_cfg demo_bus "()"] have "?reach [] [] (demo_sys r () empty_gw)" by (simp add: demo_sys_def)
  from gate_reach.Accept [OF this, of 5 0] have "?reach [] [5] (demo_sys r () (acceptConn gate_demo_cfg 0 (Some 5) empty_gw))" by (simp add: demo_sys_def)
  from gate_reach.Check [OF this _ demo_login_check, of 5]
  have "?reach [Verified 7 5 [] 0] [5] (demo_sys r () (acceptConn gate_demo_cfg 0 (Some 5) empty_gw))" by (simp add: no_LoginReq_def)
  from gate_reach.Store [OF this, of 7 5 "[]" 0]
  have "?reach [Stored 7 5, Verified 7 5 [] 0] [5] (demo_sys r () (store_uid 7 5 (acceptConn gate_demo_cfg 0 (Some 5) empty_gw)))" by (simp add: demo_sys_def)
  from gate_reach.Register [OF this, of 7 5 0 "''t''"] show ?thesis unfolding r_def [symmetric] by (simp add: demo_sys_def logged_in_def)
qed

theorem requests_rest_on_tickets_witness:
  "\<exists>tok t. Verified 7 5 tok t \<in> set [Stored 7 5, Verified 7 5 [] 0] \<and> login_Verify (\<lambda>k m. m) (gc_auth gate_demo_cfg) t 7 tok = Inr ()"
  using requests_rest_on_tickets [OF demo_reach, of 4 "''t''" 5 "(plain_env [])\<lparr>e_Cmd := CmdHeartbeat, e_Uid := 8, e_Auth := ''x''\<rparr>"] demo_dispatch
  by (simp add: demo_sys_def)






definition hit_boss :: WorldBossState where
  "hit_boss = \<lparr>wb_BossId = 1, wb_Hp = 100, wb_MaxHp = 100, wb_StartedAt = 0, wb_Alive = True\<rparr>"

definition demo_hit :: world_msg where
  "demo_hit = \<lparr>wm_cmd = CmdWorldBossHit, wm_hit = Some 10\<rparr>"

definition slow_world :: "string \<Rightarrow> bytes \<Rightarrow> world_svc \<Rightarrow> world_svc \<times> nats_reply" where
  "slow_world subj data s = (fst (world_handle \<lparr>enc_boss = (\<lambda>_. None), dec_boss = (\<lambda>_. None)\<rparr> 0 demo_hit s), NDeadline)"

theorem late_answers_repeat_the_hit_witness:
  "wv_boss (gs_world (forward demo_gp gate_demo_cfg slow_world (\<lambda>_. False) 0 5 (plain_env ''h'') ''req.world.world_boss_hit''
     (demo_sys () (world_New\<lparr>wv_boss := Some hit_boss, wv_running := True\<rparr>) logged_in))) = Some (hit_boss\<lparr>wb_Hp := 70\<rparr>)"
proof -
  have c: "gc_retryMax gate_demo_cfg = 2" by (simp add: gate_demo_cfg_def gate_New_def)
  have "sendable (gp_env demo_gp) demo_bus (plain_env ''h'') = Inr ''b''"
    by (simp add: sendable_def demo_gp_def pair_codec_def checkPayload_def demo_bus_def demo_push_env_def plain_env_def)
  then have "wv_boss (gs_world (forward demo_gp gate_demo_cfg slow_world (\<lambda>_. False) 0 5 (plain_env ''h'') ''req.world.world_boss_hit''
     (demo_sys () (world_New\<lparr>wv_boss := Some hit_boss, wv_running := True\<rparr>) logged_in))) = Some (hit_boss\<lparr>wb_Hp := wb_Hp hit_boss - int (Suc (gc_retryMax gate_demo_cfg)) * 10\<rparr>)"
    using late_answers_repeat_the_hit [of demo_gp "demo_sys () (world_New\<lparr>wv_boss := Some hit_boss, wv_running := True\<rparr>) logged_in" "plain_env ''h''" "''b''" slow_world "''req.world.world_boss_hit''"
        "\<lparr>enc_boss = (\<lambda>_. None), dec_boss = (\<lambda>_. None)\<rparr>" 0 demo_hit "\<lambda>_. False" hit_boss 10 gate_demo_cfg 0 5]
    by (simp add: slow_world_def demo_sys_def hit_boss_def demo_hit_def c)
  then show ?thesis by (simp add: c hit_boss_def)
qed

definition waiting_sys :: "(mem, unit) gsys" where
  "waiting_sys = demo_sys mem_empty () (upd_conn 5 conn_Close (acceptConn gate_demo_cfg 0 (Some 5) empty_gw))"

definition bound_sys :: "(mem, unit) gsys" where
  "bound_sys = fst (login_bind mem_redis lobby_keys gate_demo_cfg Delivered Delivered 0 7 5 waiting_sys)"

definition ghost_sys :: "(mem, unit) gsys" where
  "ghost_sys = (let S2 = onDisconnect demo_gp mem_redis lobby_keys gate_demo_cfg (\<lambda>_ _ w. (w, NFailed)) Delivered Delivered 0 ''u'' 5 bound_sys in S2\<lparr>gs_gw := login_register demo_gp 0 7 5 ''t'' (store_uid 7 5 (gs_gw S2))\<rparr>)"

theorem interrupted_login_leaves_a_ghost_witness:
  "bound mem_redis lobby_keys 7 ''g'' 5 (gs_redis ghost_sys) \<and> map_of (gw_byUID (gs_gw ghost_sys)) 7 = Some 5 \<and> 5 \<notin> set (gw_conns (gs_gw ghost_sys))"
proof -
  have g: "gw_gateID (gs_gw waiting_sys) = ''g''" and c: "gw_heap (gs_gw waiting_sys) 5 = conn_Close (newConn 5 (gc_rateBurst gate_demo_cfg) 0)"
    by (simp_all add: waiting_sys_def demo_sys_def upd_conn_def acceptConn_def empty_gw_def)
  obtain old where "snd (login_bind mem_redis lobby_keys gate_demo_cfg Delivered Delivered 0 7 5 waiting_sys) = Inr old"
    using sess_Bind_answers [of mem_redis lobby_keys "gc_ttl gate_demo_cfg" Delivered "unix_milli 0" 7 "gw_gateID (gs_gw waiting_sys)" "cn_ID (gw_heap (gs_gw waiting_sys) 5)" "gs_redis waiting_sys"]
    by (auto simp: login_bind_def split_beta)
  then have b: "login_bind mem_redis lobby_keys gate_demo_cfg Delivered Delivered 0 7 5 waiting_sys = (bound_sys, Inr old)" by (simp add: bound_sys_def prod_eq_iff)
  show ?thesis
    using interrupted_login_leaves_a_ghost [OF mem_server.redis_api_axioms _ _ _ _ b refl, where P = demo_gp and nats = "\<lambda>_ _ w. (w, NFailed)" and ?n3.0 = Delivered and ?n4.0 = Delivered
        and fresh = "''u''" and ?S3.0 = ghost_sys and tr = "''t''"]
    by (simp add: g c conn_Close_def newConn_def ghost_sys_def Let_def)
qed

end
