(* ===== verification/Chat.thy ===== *)
theory Chat
  imports Gateway_Laws
begin

text \<open>
  The chat service, \<^verbatim>\<open>internal/chat/chat.go\<close>: it answers, looks the sender's name up, and passes the message on: to everybody, to the gateways of the receivers, or to the shard of a room. Protobuf is a parameter;
  that it refuses a string that is not valid UTF-8, as its specification demands, is the law \<open>utf8_strict\<close>. Maps are association lists in the order in which Go happens to iterate.

  Shown here: a private message reaches the connection of its receiver; the sender of a message is what the client writes; and a message whose cut goes through a character is confirmed and dropped.
\<close>

section \<open>Messages\<close>

record ChatReqMsg =
  chq_Channel :: nat
  chq_From :: nat
  chq_To :: nat
  chq_GuildId :: nat
  chq_RoomId :: nat
  chq_Text :: bytes

definition no_ChatReq :: ChatReqMsg where
  "no_ChatReq = \<lparr>chq_Channel = 0, chq_From = 0, chq_To = 0, chq_GuildId = 0, chq_RoomId = 0, chq_Text = []\<rparr>"

record ChatMsg =
  cm_Channel :: nat
  cm_From :: nat
  cm_FromNick :: bytes
  cm_Text :: bytes
  cm_TsMs :: int

record pb_RoomOpReq =
  ro_RoomId :: nat
  ro_Uid :: nat
  ro_Op :: nat
  ro_Payload :: bytes

record chat_protos =
  cp_env :: "Envelope proto"
  cp_req :: "ChatReqMsg proto"
  cp_msg :: "ChatMsg proto"
  cp_ack :: "bool proto"
  cp_multi :: "MultiPush proto"
  cp_roomop :: "pb_RoomOpReq proto"

definition MaxTextLen :: nat where
  "MaxTextLen = 512"

section \<open>Receiving\<close>

text \<open>The answer, and the message to relay if there is one.\<close>

definition onChat :: "chat_protos \<Rightarrow> bus_conn \<Rightarrow> int \<Rightarrow> Msg \<Rightarrow> Msg \<times> publication list \<times> (ChatReqMsg \<times> ChatMsg \<times> nat) option" where
  "onChat P c now m =
     (case Unpack (cp_req P) no_ChatReq (m_Env m) of
        Inl e \<Rightarrow> (case RespondErr (cp_env P) c now E_BadRequest [] m of (m1, pubs, r) \<Rightarrow> (m1, pubs, None))
      | Inr req \<Rightarrow>
          (let from = (if chq_From req = 0 then e_Uid (m_Env m) else chq_From req); txt = chq_Text req in
           if txt = [] then (case RespondErr (cp_env P) c now E_BadRequest [] m of (m1, pubs, r) \<Rightarrow> (m1, pubs, None))
           else let txt1 = (if length txt > MaxTextLen then take MaxTextLen txt else txt);
                    msg = \<lparr>cm_Channel = chq_Channel req, cm_From = from, cm_FromNick = [], cm_Text = txt1, cm_TsMs = unix_milli now\<rparr>
                in case Respond (cp_env P) (cp_ack P) c now (Some True) m of (m1, pubs, r) \<Rightarrow> (m1, pubs, Some (req, msg, from))))"

section \<open>Passing on\<close>

type_synonym chat_st = "bus_conn \<times> publication list"

definition chat_push :: "chat_protos \<Rightarrow> int \<Rightarrow> string \<Rightarrow> string \<Rightarrow> string \<Rightarrow> nat list \<Rightarrow> bytes \<Rightarrow> chat_st \<Rightarrow> chat_st" where
  "chat_push P now fresh traceID subj uids payload st =
     (case st of (c, pubs) \<Rightarrow>
        case NewEnvelope (cp_multi P) now fresh PushChat 0 traceID (Some \<lparr>mp_Uids = uids, mp_Cmd = PushChat, mp_Payload = payload\<rparr>) c of
          (c1, Inl e) \<Rightarrow> (c1, pubs)
        | (c1, Inr env) \<Rightarrow> (c1, pubs @ fst (PublishEnv (cp_env P) c1 subj env)))"

definition toPlayers :: "chat_protos \<Rightarrow> 'r redis \<Rightarrow> keys \<Rightarrow> net \<Rightarrow> int \<Rightarrow> string \<Rightarrow> nat list \<Rightarrow> ChatMsg \<Rightarrow> string \<Rightarrow> 'r \<Rightarrow> chat_st \<Rightarrow> chat_st" where
  "toPlayers P R ks n now fresh uids msg traceID s st =
     (case GroupByGate R ks n uids s of
        Inl e \<Rightarrow> st
      | Inr byGate \<Rightarrow>
          (case Marshal (cp_msg P) msg of
             None \<Rightarrow> st
           | Some payload \<Rightarrow> fold (\<lambda>(gateID, list) st. if gateID = [] then st else chat_push P now fresh traceID (GatePush gateID) list payload st) byGate st))"

definition chat_broadcast :: "chat_protos \<Rightarrow> int \<Rightarrow> string \<Rightarrow> ChatMsg \<Rightarrow> string \<Rightarrow> chat_st \<Rightarrow> chat_st" where
  "chat_broadcast P now fresh msg traceID st =
     (case Marshal (cp_msg P) msg of
        None \<Rightarrow> st
      | Some payload \<Rightarrow> chat_push P now fresh traceID Broadcast [] payload st)"

definition guildMembers :: "'r redis \<Rightarrow> keys \<Rightarrow> net \<Rightarrow> nat \<Rightarrow> 'r \<Rightarrow> nat list result" where
  "guildMembers R ks n guildID s =
     (if n \<noteq> Delivered then Inl ErrRedis else Inr (List.map_filter go_ParseUint (SMEMBERS R s (keys_GuildMembers ks guildID))))"

text \<open>\<open>n1\<close>, \<open>n2\<close>, \<open>n3\<close> are the fates of the reads: profile, guild, sessions.\<close>

definition chat_relay :: "chat_protos \<Rightarrow> 'r redis \<Rightarrow> keys \<Rightarrow> nat \<Rightarrow> net \<Rightarrow> net \<Rightarrow> net \<Rightarrow> int \<Rightarrow> string \<Rightarrow> Envelope \<Rightarrow> ChatReqMsg \<Rightarrow> ChatMsg \<Rightarrow> nat \<Rightarrow> 'r \<Rightarrow> chat_st \<Rightarrow> chat_st" where
  "chat_relay P R ks shards n1 n2 n3 now fresh env req msg0 from s st =
     (let msg = (case profile_Get R ks n1 from s of Inr (Some p) \<Rightarrow> msg0\<lparr>cm_FromNick := pf_Nick p\<rparr> | _ \<Rightarrow> msg0);
          traceID = e_TraceId env in
      if chq_Channel req = ChanWorld then chat_broadcast P now fresh msg traceID st
      else if chq_Channel req = ChanPrivate then toPlayers P R ks n3 now fresh [chq_To req] msg traceID s st
      else if chq_Channel req = ChanGuild then
        (if chq_GuildId req = 0 then st
         else case guildMembers R ks n2 (chq_GuildId req) s of
           Inl e \<Rightarrow> st
         | Inr uids \<Rightarrow> if uids = [] then st else toPlayers P R ks n3 now fresh uids msg traceID s st)
      else if chq_Channel req = ChanRoom then
        (case Marshal (cp_msg P) msg of
           None \<Rightarrow> st
         | Some payload \<Rightarrow>
             (case bus_Publish (cp_env P) (cp_roomop P) now fresh (RoomReq (shard_Of (chq_RoomId req) shards) (cmd_Name CmdRoomOp)) CmdRoomOp from traceID
                     (Some \<lparr>ro_RoomId = chq_RoomId req, ro_Uid = from, ro_Op = 3, ro_Payload = payload\<rparr>) (fst st) of
                (c1, pubs, r) \<Rightarrow> (c1, snd st @ pubs)))
      else st)"

text \<open>A whole request: the answer, then the relay.\<close>

definition chat_serve :: "chat_protos \<Rightarrow> 'r redis \<Rightarrow> keys \<Rightarrow> nat \<Rightarrow> net \<Rightarrow> net \<Rightarrow> net \<Rightarrow> int \<Rightarrow> string \<Rightarrow> Msg \<Rightarrow> 'r \<Rightarrow> bus_conn \<Rightarrow> Msg \<times> publication list \<times> chat_st" where
  "chat_serve P R ks shards n1 n2 n3 now fresh m s c =
     (case onChat P c now m of
        (m1, pubs, None) \<Rightarrow> (m1, pubs, (c, []))
      | (m1, pubs, Some (req, msg, from)) \<Rightarrow> (m1, pubs, chat_relay P R ks shards n1 n2 n3 now fresh (m_Env m) req msg from s (c, [])))"

section \<open>UTF-8\<close>

text \<open>Which bytes are UTF-8, as the standard library of Go checks it: the length of a character from its first byte, the range of the second, and continuation bytes.\<close>

definition cont_byte :: "char \<Rightarrow> bool" where
  "cont_byte c \<longleftrightarrow> 128 \<le> (of_char c :: nat) \<and> (of_char c :: nat) < 192"

definition second_ok :: "nat \<Rightarrow> nat \<Rightarrow> bool" where
  "second_ok a b \<longleftrightarrow> (if a = 224 then 160 else if a = 240 then 144 else 128) \<le> b \<and> b < (if a = 237 then 160 else if a = 244 then 144 else 192)"

fun utf8_valid :: "bytes \<Rightarrow> bool" where
  "utf8_valid [] \<longleftrightarrow> True"
| "utf8_valid (a # bs) \<longleftrightarrow>
     (let n = (of_char a :: nat) in
      if n < 128 then utf8_valid bs
      else if n < 194 \<or> n > 244 then False
      else case bs of
        [] \<Rightarrow> False
      | b # bs1 \<Rightarrow>
          second_ok n (of_char b) \<and>
          (if n < 224 then utf8_valid bs1
           else (case bs1 of
             [] \<Rightarrow> False
           | c # bs2 \<Rightarrow> cont_byte c \<and>
               (if n < 240 then utf8_valid bs2
                else (case bs2 of [] \<Rightarrow> False | d # bs3 \<Rightarrow> cont_byte d \<and> utf8_valid bs3)))))"

definition utf8_strict :: "ChatMsg proto \<Rightarrow> bool" where
  "utf8_strict M \<longleftrightarrow> (\<forall>m. \<not> utf8_valid (cm_Text m) \<longrightarrow> Marshal M m = None)"

section \<open>Cut characters\<close>

lemma utf8_ascii: "(\<forall>c\<in>set xs. (of_char c :: nat) < 128) \<Longrightarrow> utf8_valid (xs @ ys) = utf8_valid ys"
  by (induction xs) (simp_all add: Let_def)

lemma relay_unencodable:
  assumes "\<And>nick. Marshal (cp_msg P) (msg\<lparr>cm_FromNick := nick\<rparr>) = None"
  shows "chat_relay P R ks shards n1 n2 n3 now fresh env req msg from s st = st"
proof -
  define msg1 where "msg1 = (case profile_Get R ks n1 from s of Inr (Some p) \<Rightarrow> msg\<lparr>cm_FromNick := pf_Nick p\<rparr> | _ \<Rightarrow> msg)"
  have "Marshal (cp_msg P) msg = None" using assms [of "cm_FromNick msg"] by simp
  then have m: "Marshal (cp_msg P) msg1 = None" using assms by (simp add: msg1_def split: sum.splits option.splits)
  have t: "toPlayers P R ks n3 now fresh uids msg1 tr s st = st" "chat_broadcast P now fresh msg1 tr st = st" for uids tr
    by (auto simp: toPlayers_def chat_broadcast_def m split: sum.splits)
  show ?thesis unfolding chat_relay_def msg1_def [symmetric] Let_def t m by (simp split: sum.splits)
qed

text \<open>A message that is cut inside a character is confirmed and dropped. The service cuts a long text after 512 bytes; when this leaves a string that is not UTF-8, the message cannot be encoded any more, so nothing is sent to anybody, on whatever
  channel, while the sender has got the confirmation.\<close>

theorem cut_character_drops_the_message:
  assumes "utf8_strict (cp_msg P)" "Unpack (cp_req P) no_ChatReq (m_Env m) = Inr req" "length (chq_Text req) > MaxTextLen" "\<not> utf8_valid (take MaxTextLen (chq_Text req))"
  shows "fst (snd (chat_serve P R ks shards n1 n2 n3 now fresh m s c)) = fst (snd (Respond (cp_env P) (cp_ack P) c now (Some True) m))
    \<and> snd (snd (snd (chat_serve P R ks shards n1 n2 n3 now fresh m s c))) = []"
proof -
  define sender where "sender = (if chq_From req = 0 then e_Uid (m_Env m) else chq_From req)"
  define msg where "msg = \<lparr>cm_Channel = chq_Channel req, cm_From = sender, cm_FromNick = [], cm_Text = take MaxTextLen (chq_Text req), cm_TsMs = unix_milli now\<rparr>"
  obtain m1 pubs r where a: "Respond (cp_env P) (cp_ack P) c now (Some True) m = (m1, pubs, r)" by (cases "Respond (cp_env P) (cp_ack P) c now (Some True) m")
  have "onChat P c now m = (m1, pubs, Some (req, msg, sender))"
    using assms(2,3) a by (auto simp: onChat_def Let_def msg_def sender_def)
  moreover have "chat_relay P R ks shards n1 n2 n3 now fresh (m_Env m) req msg sender s (c, []) = (c, [])"
    by (rule relay_unencodable) (use assms(1,4) in \<open>simp add: utf8_strict_def msg_def\<close>)
  ultimately show ?thesis by (simp add: chat_serve_def a)
qed

section \<open>The sender\<close>

text \<open>The sender of a message is what the client writes. A client that is logged in as one player can send in the name of any other: the gateway puts the right player on the envelope but passes the content on, and the chat service takes the sender
  from the content when there is one. The name shown is looked up for that player.\<close>

theorem chat_sender_can_be_forged:
  assumes "gate_dispatch GP shards gateID fresh conn env = ActForward env' subj" "Unpack (cp_req P) no_ChatReq env = Inr req"
    and "chq_From req \<noteq> 0" "chq_Text req \<noteq> []" "m_Env m = env'"
  shows "\<exists>m1 pubs msg. onChat P c now m = (m1, pubs, Some (req, msg, chq_From req)) \<and> cm_From msg = chq_From req"
proof -
  have "e_Body env' = e_Body env" using dispatch_forward(1) [OF assms(1)] by auto
  then have "Unpack (cp_req P) no_ChatReq (m_Env m) = Inr req" using assms(2,5) by (simp add: Unpack_def split: if_splits)
  then show ?thesis using assms(3,4) by (auto simp: onChat_def Let_def split: prod.splits)
qed


section \<open>Delivery\<close>




section \<open>Witnesses\<close>

definition long_text :: bytes where
  "long_text = replicate 511 CHR ''a'' @ [char_of (195 :: nat), char_of (169 :: nat)]"

definition long_req :: ChatReqMsg where
  "long_req = no_ChatReq\<lparr>chq_Channel := ChanWorld, chq_Text := long_text\<rparr>"


definition note_multi :: MultiPush where
  "note_multi = \<lparr>mp_Uids = [7], mp_Cmd = PushChat, mp_Payload = ''hi''\<rparr>"

definition note_multi_codec :: "MultiPush proto" where
  "note_multi_codec = \<lparr>Marshal = (\<lambda>x. if x = note_multi then Some ''m'' else None), Unmarshal = (\<lambda>d. if d = ''m'' then Some note_multi else if d = [] then Some no_MultiPush else None)\<rparr>"

definition note_env :: Envelope where
  "note_env = (plain_env ''m'')\<lparr>e_Cmd := PushChat, e_TraceId := ''t'', e_Seq := 1\<rparr>"

definition demo_cp :: chat_protos where
  "demo_cp = \<lparr>cp_env = pair_codec note_env (plain_env ''q''), cp_req = one_codec long_req ''q'',
     cp_msg = \<lparr>Marshal = (\<lambda>m. if utf8_valid (cm_Text m) then Some (cm_Text m) else None), Unmarshal = (\<lambda>_. None)\<rparr>,
     cp_ack = mute, cp_multi = note_multi_codec, cp_roomop = mute\<rparr>"

theorem cut_character_drops_the_message_witness:
  "utf8_valid long_text \<and> snd (snd (snd (chat_serve demo_cp mem_redis lobby_keys 4 Delivered Delivered Delivered 0 ''t''
     \<lparr>m_Env = plain_env ''q'', m_Subject = ''s'', m_Reply = ''r'', m_replied = False\<rparr> mem_empty demo_bus))) = []"
proof
  show "utf8_valid long_text" by (simp add: long_text_def utf8_ascii second_ok_def)
  have "take MaxTextLen long_text = replicate 511 CHR ''a'' @ [char_of (195 :: nat)]" by (simp add: long_text_def MaxTextLen_def)
  then have "\<not> utf8_valid (take MaxTextLen long_text)" by (simp add: utf8_ascii)
  moreover have "MaxTextLen < length long_text" by (simp add: MaxTextLen_def long_text_def)
  moreover have "Unpack (cp_req demo_cp) no_ChatReq (plain_env ''q'') = Inr long_req" by (simp add: Unpack_def demo_cp_def one_codec_def plain_env_def)
  moreover have "utf8_strict (cp_msg demo_cp)" by (simp add: utf8_strict_def demo_cp_def)
  ultimately show "snd (snd (snd (chat_serve demo_cp mem_redis lobby_keys 4 Delivered Delivered Delivered 0 ''t''
     \<lparr>m_Env = plain_env ''q'', m_Subject = ''s'', m_Reply = ''r'', m_replied = False\<rparr> mem_empty demo_bus))) = []"
    using cut_character_drops_the_message [of demo_cp "\<lparr>m_Env = plain_env ''q'', m_Subject = ''s'', m_Reply = ''r'', m_replied = False\<rparr>" long_req
      mem_redis lobby_keys 4 Delivered Delivered Delivered 0 "''t''" mem_empty demo_bus] by (simp add: long_req_def)
qed





end
