(* ===== verification/Lobby_Service.thy ===== *)
theory Lobby_Service
  imports Lobby_Assets Bus Shard_Service
begin

text \<open>
  The lobby service around its shards, \<^verbatim>\<open>internal/lobby/service.go\<close>: signed calls between shards, the payment of jackpots with its repetition, events and announcements, the index of guilds, the consumers of jobs and
  the replacement of the configuration. The job handlers and the repetition of transfers are with the lobby handlers. Goroutines are run to their end; the network decides about every command.

  Shown here: a signed call is accepted by its receiver; a jackpot that was won and not delivered stays listed; the scan pays or lists it again, unless the connection breaks between the two commands of its pipeline.
\<close>

section \<open>Internal calls\<close>

datatype call_err = BusErr bus_err | SignErr authz_err

definition internalCall :: "Envelope proto \<Rightarrow> 'm proto \<Rightarrow> 'o proto \<Rightarrow> 'o \<Rightarrow> (bytes \<Rightarrow> bytes \<Rightarrow> bytes) \<Rightarrow> Signer \<Rightarrow> (string \<Rightarrow> bytes \<Rightarrow> 'w \<Rightarrow> 'w \<times> nats_reply) \<Rightarrow> int \<Rightarrow> string
    \<Rightarrow> string \<Rightarrow> nat \<Rightarrow> nat \<Rightarrow> string \<Rightarrow> 'm option \<Rightarrow> bus_conn \<Rightarrow> 'w \<Rightarrow> bus_conn \<times> 'w \<times> (call_err + 'o)" where
  "internalCall E M Q zero mac signer nats now fresh subj cmd uid traceID body c w =
     (case NewEnvelope M now fresh cmd uid traceID body c of
        (c1, Inl e) \<Rightarrow> (c1, w, Inl (BusErr e))
      | (c1, Inr env) \<Rightarrow>
          (case authz_Sign mac signer now env of
             Inl e \<Rightarrow> (c1, w, Inl (SignErr e))
           | Inr env1 \<Rightarrow>
               (case RequestEnv E nats c1 subj env1 w of
                  (w1, Inl e) \<Rightarrow> (c1, w1, Inl (BusErr e))
                | (w1, Inr resp) \<Rightarrow> (c1, w1, map_sum BusErr id (bus_call_result Q zero resp)))))"

section \<open>Jackpots\<close>

definition contributeJackpot :: "'r redis \<Rightarrow> keys \<Rightarrow> pools \<Rightarrow> net \<Rightarrow> string \<Rightarrow> int \<Rightarrow> 'r \<Rightarrow> 'r" where
  "contributeJackpot R ks pools n pool amount s = (if amount \<le> 0 then s else fst (Contribute R ks pools n pool amount s))"

text \<open>The surroundings of the payment: the encodings, the key of the signature, NATS, the number of shards.\<close>

record 'w pay_env =
  pe_env :: "Envelope proto"
  pe_req :: "JackpotClaimReq proto"
  pe_resp :: "(int \<times> bool) proto"
  pe_info :: "(string \<times> int \<times> int) proto"
  pe_multi :: "(nat list \<times> nat \<times> bytes) proto"
  pe_mac :: "bytes \<Rightarrow> bytes \<Rightarrow> bytes"
  pe_signer :: Signer
  pe_nats :: "string \<Rightarrow> bytes \<Rightarrow> 'w \<Rightarrow> 'w \<times> nats_reply"
  pe_shards :: nat

definition payout_req :: "Payout \<Rightarrow> JackpotClaimReq" where
  "payout_req p = \<lparr>jc_PoolId = po_PoolID p, jc_Uid = Payout.po_UID p, jc_Txid = po_TxID p, jc_Amount = po_Amount p, jc_RoundId = po_RoundID p\<rparr>"

definition deliverJackpot :: "'w pay_env \<Rightarrow> int \<Rightarrow> string \<Rightarrow> string \<Rightarrow> Payout \<Rightarrow> bus_conn \<Rightarrow> 'w \<Rightarrow> bus_conn \<times> 'w \<times> (call_err + (int \<times> bool))" where
  "deliverJackpot V now fresh traceID p c w =
     internalCall (pe_env V) (pe_req V) (pe_resp V) (0, False) (pe_mac V) (pe_signer V) (pe_nats V) now fresh
       (LobbyReq (shard_Of (Payout.po_UID p) (pe_shards V)) (cmd_Name CmdApplyJackpot)) CmdApplyJackpot (Payout.po_UID p) traceID (Some (payout_req p)) c w"

text \<open>\<open>Broadcast\<close>, with the bytes of its message.\<close>

definition lobby_Broadcast :: "'w pay_env \<Rightarrow> int \<Rightarrow> string \<Rightarrow> nat \<Rightarrow> bytes option \<Rightarrow> string \<Rightarrow> bus_conn \<Rightarrow> bus_conn \<times> publication list" where
  "lobby_Broadcast V now fresh push raw traceID c =
     (case raw of
        None \<Rightarrow> (c, [])
      | Some b \<Rightarrow>
          (case NewEnvelope (pe_multi V) now fresh push 0 traceID (Some ([], push, b)) c of
             (c1, Inl e) \<Rightarrow> (c1, [])
           | (c1, Inr env) \<Rightarrow> (c1, fst (PublishEnv (pe_env V) c1 Broadcast env))))"

text \<open>\<open>sf\<close> is the result of \<open>NextID\<close>, \<open>k\<close> and \<open>answered\<close> how far the pipeline of \<open>Settle\<close> got.\<close>

definition claimJackpot :: "'r redis \<Rightarrow> keys \<Rightarrow> payout_codec \<Rightarrow> pools \<Rightarrow> 'w pay_env \<Rightarrow> 'r claim_env \<Rightarrow> nat option \<Rightarrow> nat \<Rightarrow> bool \<Rightarrow> int \<Rightarrow> string \<Rightarrow> string \<Rightarrow> nat \<Rightarrow> nat \<Rightarrow> string
    \<Rightarrow> 'r \<Rightarrow> bus_conn \<Rightarrow> 'w \<Rightarrow> 'r \<times> bus_conn \<times> 'w \<times> publication list" where
  "claimJackpot R ks J pools V ce sf k answered now fresh pool uid roundID traceID s c w =
     (case sf of
        None \<Rightarrow> (s, c, w, [])
      | Some i \<Rightarrow>
          (case jp_Claim R ks J pools (unix_milli now) ce pool uid roundID (''jp'' @ show_nat i) s of
             (s1, Inl e) \<Rightarrow> (s1, c, w, [])
           | (s1, Inr p) \<Rightarrow>
               (case deliverJackpot V now fresh traceID p c w of
                  (c1, w1, Inl e) \<Rightarrow> (s1, c1, w1, [])
                | (c1, w1, Inr r) \<Rightarrow>
                    (let s2 = fst (jp_Settle R ks J k answered p s1) in
                     case lobby_Broadcast V now fresh PushJackpotWon (Marshal (pe_info V) (pool, po_Amount p, 0)) traceID c1 of (c2, pubs) \<Rightarrow> (s2, c2, w1, pubs)))))"

text \<open>One payout of the scan; the pipeline of \<open>Requeue\<close> or \<open>Settle\<close> gets as far as \<open>pipe p\<close> says.\<close>

definition scan_payout :: "'r redis \<Rightarrow> keys \<Rightarrow> payout_codec \<Rightarrow> 'w pay_env \<Rightarrow> (Payout \<Rightarrow> nat \<times> bool) \<Rightarrow> int \<Rightarrow> string \<Rightarrow> Payout \<Rightarrow> 'r \<times> bus_conn \<times> 'w \<Rightarrow> 'r \<times> bus_conn \<times> 'w" where
  "scan_payout R ks J V pipe now fresh p st =
     (case st of (s, c, w) \<Rightarrow>
        case deliverJackpot V now fresh ''jp-rescan'' p c w of
          (c1, w1, Inl e) \<Rightarrow> (fst (jp_Requeue R ks J (unix_milli now) (fst (pipe p)) (snd (pipe p)) p s), c1, w1)
        | (c1, w1, Inr r) \<Rightarrow> (fst (jp_Settle R ks J (fst (pipe p)) (snd (pipe p)) p s), c1, w1))"

definition scan_pool :: "'r redis \<Rightarrow> keys \<Rightarrow> payout_codec \<Rightarrow> 'w pay_env \<Rightarrow> net \<Rightarrow> (Payout \<Rightarrow> nat \<times> bool) \<Rightarrow> int \<Rightarrow> int \<Rightarrow> string \<Rightarrow> string \<Rightarrow> 'r \<times> bus_conn \<times> 'w \<Rightarrow> 'r \<times> bus_conn \<times> 'w" where
  "scan_pool R ks J V n pipe now txTimeout fresh poolID st =
     (case st of (s, c, w) \<Rightarrow>
        case PendingPayouts R ks J n poolID (unix_milli (now - txTimeout)) 50 s of
          (s1, Inl e) \<Rightarrow> (s1, c, w)
        | (s1, Inr pending) \<Rightarrow> fold (scan_payout R ks J V pipe now fresh) pending (s1, c, w))"

definition scanJackpotPayouts :: "'r redis \<Rightarrow> keys \<Rightarrow> payout_codec \<Rightarrow> pools \<Rightarrow> 'w pay_env \<Rightarrow> (string \<Rightarrow> net) \<Rightarrow> (Payout \<Rightarrow> nat \<times> bool) \<Rightarrow> int \<Rightarrow> int \<Rightarrow> string \<Rightarrow> 'r \<times> bus_conn \<times> 'w \<Rightarrow> 'r \<times> bus_conn \<times> 'w" where
  "scanJackpotPayouts R ks J pools V ns pipe now txTimeout fresh st =
     fold (\<lambda>poolID. scan_pool R ks J V (ns poolID) pipe now txTimeout fresh poolID) (map fst pools) st"

section \<open>The rest of the service\<close>

text \<open>\<open>ReloadConf\<close>; \<open>loaded\<close> is what \<open>Load\<close> made of the file.\<close>

definition ReloadConf :: "digest \<Rightarrow> Config option \<Rightarrow> Config \<Rightarrow> Config \<times> bool" where
  "ReloadConf digest loaded cur =
     (case loaded of
        None \<Rightarrow> (cur, False)
      | Some c \<Rightarrow> (case conf_Replace digest c cur of (c1, e) \<Rightarrow> (c1, e = None)))"

definition PublishPlayerEvent :: "Envelope proto \<Rightarrow> 'm proto \<Rightarrow> int \<Rightarrow> string \<Rightarrow> nat \<Rightarrow> string \<Rightarrow> 'm option \<Rightarrow> string \<Rightarrow> bus_conn \<Rightarrow> bus_conn \<times> publication list" where
  "PublishPlayerEvent E M now fresh uid event body traceID c =
     (case bus_Publish E M now fresh (PlayerEvt uid event) 0 uid traceID body c of (c1, pubs, r) \<Rightarrow> (c1, pubs))"

definition indexGuildMember :: "'r redis \<Rightarrow> keys \<Rightarrow> net \<Rightarrow> nat \<Rightarrow> nat \<Rightarrow> 'r \<Rightarrow> 'r" where
  "indexGuildMember R ks n guildID uid s = fst (run n (\<lambda>s. (SADD R s (keys_GuildMembers ks guildID) (show_nat uid), Some ())) s)"

text \<open>The mail \<open>notifyFriendAdded\<close> sends; \<open>title\<close> and \<open>content\<close> are its texts.\<close>

definition friend_mail :: "int \<Rightarrow> string \<Rightarrow> string \<Rightarrow> Mail" where
  "friend_mail now title content = \<lparr>MailId = 0, ml_Title = title, ml_Content = content, Sender = ''system'', SendAt = unix_milli now, ExpireAt = 0, ml_Read = False, Claimed = False, Attachments = []\<rparr>"

definition notifyFriendAdded :: "(nat \<Rightarrow> nat option) \<Rightarrow> int \<Rightarrow> string \<Rightarrow> string \<Rightarrow> nat \<Rightarrow> MailSendJob option" where
  "notifyFriendAdded ids now title content toUID = SendMail ids toUID (friend_mail now title content)"

text \<open>The consumers: durable name, filter and options.\<close>

definition job_consumers :: "(string \<times> string \<times> ConsumerOptions) list" where
  "job_consumers =
     (let o1 = \<lparr>co_AckWait = 30 * 1000000000, co_MaxDeliver = 200, co_MaxAckPend = 256\<rparr> in
      [(''lobby-transfer'', ''job.transfer.*'', o1), (''lobby-mail'', JobMailSend, o1), (''lobby-battle'', JobBattleSettle, o1)])"

text \<open>\<open>startJobConsumers\<close>: the consumers that are running, up to the first that cannot be made.\<close>

definition startJobConsumers :: "(string \<Rightarrow> bool) \<Rightarrow> string list \<times> bool" where
  "startJobConsumers made = (let names = map fst job_consumers in (takeWhile made names, list_all made names))"

section \<open>Signed calls\<close>

text \<open>A signed call is accepted. What an internal call sends is, for a receiver with the same secret and within the tolerated difference of clocks, an authorised command, unless it is one that needs an operator; without a secret nothing is sent.\<close>

theorem internal_calls_are_authorised:
  assumes "NewEnvelope M now fresh cmd uid traceID body c = (c1, Inr env)" "cmd_Level cmd = LevelInternal"
  shows "(HasSecret signer \<and> mac signer (digest_message cmd uid (e_TsMs env) (e_TraceId env)) \<noteq> [] \<longrightarrow>
      (\<exists>env1. authz_Sign mac signer now env = Inr env1 \<and> e_Cmd env1 = cmd \<and> e_Uid env1 = uid \<and> e_Body env1 = e_Body env
        \<and> (e_TsMs env \<noteq> 0 \<and> authz_skew later (e_TsMs env) \<le> MaxSkew \<longrightarrow> authz_Verify mac signer later env1 False = Inr ())))
    \<and> (\<not> HasSecret signer \<longrightarrow> internalCall E M Q zero mac signer nats now fresh subj cmd uid traceID body c w = (c1, w, Inl (SignErr ErrNoSecret)))"
proof -
  have e: "e_Cmd env = cmd" "e_Uid env = uid" using assms(1) by (auto simp: NewEnvelope_def split: option.splits prod.splits)
  show ?thesis
    using assms e by (auto simp: authz_Sign_def authz_Verify_def internalCall_def Let_def authz_digest_def min_def split: if_splits)
qed

section \<open>Wins are paid\<close>

lemma pipe_two: "2 \<le> k \<Longrightarrow> pipe_prefix k [f, g] s = g (f s)"
  by (simp add: pipe_prefix_def numeral_2_eq_2)

text \<open>A jackpot that was won is not lost. When a win could not be delivered to the player's shard, for whatever reason, it is still listed among the payouts to repeat.\<close>

theorem undelivered_win_stays_listed:
  assumes "redis_api R" "jp_Claim R ks J pools (unix_milli now) ce pool uid roundID (''jp'' @ show_nat i) s = (s1, Inr p)"
    and "map_of pools pool = Some cfg" "num_or0 R (ce_mid ce s) (keys_Jackpot ks pool) = Some v"
    and "\<forall>x. view R (ce_after ce x) (keys_Jackpot ks pool) = view R x (keys_Jackpot ks pool)
      \<and> view R (ce_after ce x) (keys_JackpotPending ks pool) = view R x (keys_JackpotPending ks pool)"
    and "snd (snd (deliverJackpot V now fresh traceID p c w)) = Inl e"
    and "claimJackpot R ks J pools V ce (Some i) k answered now fresh pool uid roundID traceID s c w = (s', c', w', pubs)"
  shows "\<exists>blob. payout_JSON J p = Some blob \<and> ZSCORE R s' (keys_JackpotPending ks pool) blob = Some (unix_milli now) \<and> Payout.po_UID p = uid"
proof -
  have "s' = s1" using assms(2,6,7) by (auto simp: claimJackpot_def split: prod.splits)
  then show ?thesis using redis_api.Claim_success [OF assms(1-4)] assms(5) by blast
qed

text \<open>C40: The scan pays a win or lists it again. When the commands of the scan reach Redis, a payout that the scan could not deliver is listed again, with its retry counted, and one that was delivered is not listed any more.\<close>

theorem scan_pays_or_lists_again:
  assumes "redis_api R" "payout_JSON J p = Some blob" "payout_JSON J (p\<lparr>po_Retries := i64 (po_Retries p + 1)\<rparr>) = Some blob'" "2 \<le> fst (pipe p)"
    and "deliverJackpot V now fresh ''jp-rescan'' p c w = (c1, w1, r)"
    and "scan_payout R ks J V pipe now fresh p (s, c, w) = (s', c', w')"
  shows "case r of Inl e \<Rightarrow> ZSCORE R s' (keys_JackpotPending ks (po_PoolID p)) blob' = Some (unix_milli now)
     | Inr _ \<Rightarrow> ZSCORE R s' (keys_JackpotPending ks (po_PoolID p)) blob = None"
proof -
  note z = redis_api.redis_reads [OF assms(1)]
  have ne: "keys_JackpotPending ks (po_PoolID p) \<noteq> keys_JackpotMeta ks (po_PoolID p)" by (simp add: key_eqs)
  show ?thesis
  proof (cases r)
    case (Inl e)
    then have "s' = fst (jp_Requeue R ks J (unix_milli now) (fst (pipe p)) (snd (pipe p)) p s)" using assms(5,6) by (simp add: scan_payout_def)
    then show ?thesis using Inl assms(2-4) by (simp add: jp_Requeue_def pipe_two z)
  next
    case (Inr x)
    then have s': "s' = fst (jp_Settle R ks J (fst (pipe p)) (snd (pipe p)) p s)" using assms(5,6) by (simp add: scan_payout_def)
    have "ZSCORE R (HSET R t (keys_JackpotMeta ks (po_PoolID p)) fs) (keys_JackpotPending ks (po_PoolID p)) = ZSCORE R t (keys_JackpotPending ks (po_PoolID p))" for t fs
      using redis_api.frame_hset [OF assms(1) ne, of t fs] by (simp add: view_def)
    then show ?thesis using Inr s' assms(2,4) by (simp add: jp_Settle_def pipe_two z)
  qed
qed

text \<open>A broken pipeline loses the win. The repetition removes the payout from the list and adds it again in two commands that are not a transaction; when the connection breaks between them, a win that was not delivered is not listed any more, so nobody will
  pay it.\<close>

theorem broken_requeue_loses_the_win:
  assumes "redis_api R" "payout_JSON J p = Some blob" "payout_JSON J (p\<lparr>po_Retries := i64 (po_Retries p + 1)\<rparr>) = Some blob'" "fst (pipe p) = 1"
    and "snd (snd (deliverJackpot V now fresh ''jp-rescan'' p c w)) = Inl e" "ZSCORE R s (keys_JackpotPending ks (po_PoolID p)) blob' = None"
    and "scan_payout R ks J V pipe now fresh p (s, c, w) = (s', c', w')"
  shows "ZSCORE R s' (keys_JackpotPending ks (po_PoolID p)) blob = None \<and> ZSCORE R s' (keys_JackpotPending ks (po_PoolID p)) blob' = None"
proof -
  have "s' = fst (jp_Requeue R ks J (unix_milli now) (fst (pipe p)) (snd (pipe p)) p s)" using assms(5,7) by (auto simp: scan_payout_def split: prod.splits)
  then show ?thesis using assms(2-4,6) by (simp add: jp_Requeue_def pipe_prefix_def redis_api.redis_reads [OF assms(1)])
qed


section \<open>Witnesses\<close>

definition silent_pay :: "unit pay_env" where
  "silent_pay = \<lparr>pe_env = \<lparr>Marshal = (\<lambda>_. None), Unmarshal = (\<lambda>_. None)\<rparr>, pe_req = \<lparr>Marshal = (\<lambda>_. Some ''r''), Unmarshal = (\<lambda>_. None)\<rparr>, pe_resp = \<lparr>Marshal = (\<lambda>_. None), Unmarshal = (\<lambda>_. None)\<rparr>,
     pe_info = \<lparr>Marshal = (\<lambda>_. None), Unmarshal = (\<lambda>_. None)\<rparr>, pe_multi = \<lparr>Marshal = (\<lambda>_. None), Unmarshal = (\<lambda>_. None)\<rparr>,
     pe_mac = (\<lambda>k m. m), pe_signer = [], pe_nats = (\<lambda>_ _ w. (w, NFailed)), pe_shards = 4\<rparr>"

lemma silent_deliver: "deliverJackpot silent_pay 0 ''t'' tr p demo_bus () = (demo_bus\<lparr>bc_seq := 1\<rparr>, (), Inl (SignErr ErrNoSecret))"
proof -
  have "cmd_Level CmdApplyJackpot = LevelInternal" by (simp add: cmd_Level_def clientCmds_def gmCmds_def)
  then show ?thesis
    by (simp add: deliverJackpot_def internalCall_def NewEnvelope_def silent_pay_def NextSeq_def demo_bus_def authz_Sign_def HasSecret_def)
qed

definition listed :: mem where
  "listed = ZADD mem_redis mem_empty (keys_JackpotPending lobby_keys ''grand'') 1000 (the (payout_JSON text_payouts (demo_payout ''t1'' 5)))"

theorem scan_pays_or_lists_again_witness:
  "ZSCORE mem_redis (fst (scan_payout mem_redis lobby_keys text_payouts silent_pay (\<lambda>_. (2, True)) 0 ''t'' (demo_payout ''t1'' 5) (listed, demo_bus, ())))
     (keys_JackpotPending lobby_keys ''grand'') (the (payout_JSON text_payouts ((demo_payout ''t1'' 5)\<lparr>po_Retries := i64 (po_Retries (demo_payout ''t1'' 5) + 1)\<rparr>))) = Some (unix_milli 0)"
proof -
  obtain b where b: "payout_JSON text_payouts (demo_payout ''t1'' 5) = Some b" by (rule text_payouts_enc)
  obtain b' where b': "payout_JSON text_payouts ((demo_payout ''t1'' 5)\<lparr>po_Retries := i64 (po_Retries (demo_payout ''t1'' 5) + 1)\<rparr>) = Some b'" by (rule text_payouts_enc)
  obtain s' c' w' where s: "scan_payout mem_redis lobby_keys text_payouts silent_pay (\<lambda>_. (2, True)) 0 ''t'' (demo_payout ''t1'' 5) (listed, demo_bus, ()) = (s', c', w')"
    by (metis prod.exhaust)
  have "po_PoolID (demo_payout ''t1'' 5) = ''grand''" by (simp add: demo_payout_def)
  then show ?thesis
    using scan_pays_or_lists_again [OF mem_server.redis_api_axioms b b' _ silent_deliver s] unfolding s b' by (simp only: fst_conv option.sel sum.case order_refl simp_thms)
qed

lemma requeued_differs: "payout_JSON text_payouts (demo_payout ''t1'' 5) \<noteq> payout_JSON text_payouts ((demo_payout ''t1'' 5)\<lparr>po_Retries := i64 (po_Retries (demo_payout ''t1'' 5) + 1)\<rparr>)"
proof
  assume eq: "payout_JSON text_payouts (demo_payout ''t1'' 5) = payout_JSON text_payouts ((demo_payout ''t1'' 5)\<lparr>po_Retries := i64 (po_Retries (demo_payout ''t1'' 5) + 1)\<rparr>)"
  obtain b where "payout_JSON text_payouts (demo_payout ''t1'' 5) = Some b" by (rule text_payouts_enc)
  then have "demo_payout ''t1'' 5 = (demo_payout ''t1'' 5)\<lparr>po_Retries := i64 (po_Retries (demo_payout ''t1'' 5) + 1)\<rparr>"
    using text_payouts_ok eq unfolding payout_codec_ok_def by (metis option.inject)
  then have "po_Retries (demo_payout ''t1'' 5) = i64 (po_Retries (demo_payout ''t1'' 5) + 1)" by (metis Payout.select_convs(8) Payout.surjective Payout.update_convs(8))
  then show False by (simp add: demo_payout_def i64_def)
qed

theorem broken_requeue_loses_the_win_witness:
  "\<exists>s'. fst (scan_payout mem_redis lobby_keys text_payouts silent_pay (\<lambda>_. (1, False)) 0 ''t'' (demo_payout ''t1'' 5) (listed, demo_bus, ())) = s'
     \<and> ZSCORE mem_redis s' (keys_JackpotPending lobby_keys ''grand'') (the (payout_JSON text_payouts (demo_payout ''t1'' 5))) = None"
proof -
  obtain b where b: "payout_JSON text_payouts (demo_payout ''t1'' 5) = Some b" by (rule text_payouts_enc)
  obtain b' where b': "payout_JSON text_payouts ((demo_payout ''t1'' 5)\<lparr>po_Retries := i64 (po_Retries (demo_payout ''t1'' 5) + 1)\<rparr>) = Some b'" by (rule text_payouts_enc)
  obtain s' c' w' where s: "scan_payout mem_redis lobby_keys text_payouts silent_pay (\<lambda>_. (1, False)) 0 ''t'' (demo_payout ''t1'' 5) (listed, demo_bus, ()) = (s', c', w')"
    by (metis prod.exhaust)
  have g: "po_PoolID (demo_payout ''t1'' 5) = ''grand''" by (simp add: demo_payout_def)
  have "b' \<noteq> b" using requeued_differs b b' by simp
  then have "ZSCORE mem_redis listed (keys_JackpotPending lobby_keys ''grand'') b' = None"
    by (simp add: listed_def b mem_redis_def mem_empty_def)
  then show ?thesis
    using broken_requeue_loses_the_win [OF mem_server.redis_api_axioms b b', of "\<lambda>_. (1, False)" silent_pay 0 "''t''" demo_bus "()" "SignErr ErrNoSecret" listed lobby_keys s' c' w'] s
    by (simp add: silent_deliver g b)
qed

end
