(* ===== verification/Env_Config.thy ===== *)
theory Env_Config
  imports Go_Bytes Ident
begin

text \<open>
  The configuration of a process, \<^verbatim>\<open>pkg/config/config.go\<close>, from its environment, a partial map of texts, and the check of the Redis server, \<^verbatim>\<open>pkg/store/redis.go\<close>. Durations are nanoseconds; \<open>time.ParseDuration\<close> is the parameter
  \<open>dur\<close>, whose fractions go through floating point. The warning about the gateway's secret only prints.

  Shown here: what holds of every configuration that is accepted, and a number of shards that is accepted and wraps to zero.
\<close>

section \<open>Reading variables\<close>

type_synonym environ = "string \<rightharpoonup> string"

datatype config_err = UnknownService | NotANumber string | NoServerID | NoNodeSeq | BadIdentity ident_err | BadShardCount | BadKeepAlive | BadBeat

definition envStr :: "environ \<Rightarrow> string \<Rightarrow> string \<Rightarrow> string" where
  "envStr env k def = (case env k of Some v \<Rightarrow> if v \<noteq> [] then v else def | None \<Rightarrow> def)"

definition envInt :: "environ \<Rightarrow> string \<Rightarrow> int \<Rightarrow> config_err + int" where
  "envInt env k def =
     (case env k of
        None \<Rightarrow> Inr def
      | Some v \<Rightarrow> if v = [] then Inr def else case go_ParseInt (TrimSpace v) of None \<Rightarrow> Inl (NotANumber k) | Some n \<Rightarrow> Inr n)"

definition envDur :: "(string \<Rightarrow> int option) \<Rightarrow> environ \<Rightarrow> string \<Rightarrow> int \<Rightarrow> int" where
  "envDur dur env k def =
     (case env k of
        None \<Rightarrow> def
      | Some v \<Rightarrow> if v = [] then def else case dur (TrimSpace v) of None \<Rightarrow> def | Some d \<Rightarrow> d)"

definition envBool :: "environ \<Rightarrow> string \<Rightarrow> bool \<Rightarrow> bool" where
  "envBool env k def =
     (case env k of
        None \<Rightarrow> def
      | Some v \<Rightarrow>
          if v = [] then def
          else let t = map to_lower (TrimSpace v) in
            if t \<in> {''1'', ''true'', ''yes'', ''on''} then True else if t \<in> {''0'', ''false'', ''no'', ''off''} then False else def)"

definition envList :: "environ \<Rightarrow> string \<Rightarrow> string list \<Rightarrow> string list" where
  "envList env k def =
     (case env k of
        None \<Rightarrow> def
      | Some v \<Rightarrow>
          if v = [] then def
          else let out = filter (\<lambda>p. p \<noteq> []) (map TrimSpace (go_split (CHR '','') v)) in if out = [] then def else out)"

definition trim_slashes :: "string \<Rightarrow> string" where
  "trim_slashes s = rev (dropWhile (\<lambda>c. c = CHR ''/'') (rev s))"

section \<open>The configuration\<close>

record env_config =
  ec_ServerID :: int
  ec_NodeSeq :: int
  ec_SvcName :: string
  ec_EtcdEndpoints :: "string list"
  ec_EtcdPrefix :: string
  ec_EtcdTimeout :: int
  ec_RedisAddr :: string
  ec_RedisPassword :: string
  ec_RedisDB :: int
  ec_RedisPoolSize :: int
  ec_NatsURL :: string
  ec_LogLevel :: string
  ec_LogFormat :: string
  ec_MetricsAddr :: string
  ec_ListenAddr :: string
  ec_AdvertiseAddr :: string
  ec_ShardCount :: nat
  ec_ShardLeaseTTL :: int
  ec_ShardKeepAlive :: int
  ec_ShardMaxOwn :: int
  ec_MailboxSize :: int
  ec_MailboxWarnPct :: int
  ec_NodeStaleTimeout :: int
  ec_NodeBeatInterval :: int
  ec_FlushL1Interval :: int
  ec_FlushL2Interval :: int
  ec_FlushChanSize :: int
  ec_FlushWorkers :: int
  ec_FlushBatchSize :: int
  ec_UnloadIdle :: int
  ec_SessionTTL :: int
  ec_ShutdownGrace :: int
  ec_TxScanInterval :: int
  ec_TxTimeout :: int
  ec_InternalSecret :: string
  ec_LoginSecret :: string
  ec_AllowDevAuth :: bool
  ec_PaymentSecret :: string
  ec_PaymentSandbox :: bool
  ec_GMSecret :: string
  ec_IDPSandbox :: bool
  ec_IDPTimeout :: int
  ec_IDPBreakerFails :: int
  ec_IDPBreakerCooldown :: int
  ec_TokenTTL :: int
  ec_GameConfPath :: string

definition and_then :: "('e + 'a) \<Rightarrow> ('a \<Rightarrow> 'e + 'b) \<Rightarrow> 'e + 'b" where
  "and_then x f = (case x of Inl e \<Rightarrow> Inl e | Inr a \<Rightarrow> f a)"

lemma and_then_Inr: "and_then x f = Inr y \<longleftrightarrow> (\<exists>a. x = Inr a \<and> f a = Inr y)"
  by (cases x) (simp_all add: and_then_def)

abbreviation (input) sec :: int where "sec \<equiv> 1000000000"

definition power_of_two_check :: "int \<Rightarrow> bool" where
  "power_of_two_check sc \<longleftrightarrow> \<not> (sc \<le> 0 \<or> sc AND (sc - 1) \<noteq> 0)"

definition config_Load :: "(string \<Rightarrow> int option) \<Rightarrow> environ \<Rightarrow> string \<Rightarrow> config_err + (env_config \<times> identity)" where
  "config_Load dur env svcName =
     (case ParseSvcType svcName of None \<Rightarrow> Inl UnknownService | Some svc \<Rightarrow>
      and_then (envInt env ''SERVER_ID'' (- 1)) (\<lambda>serverID.
      if serverID < 0 then Inl NoServerID else
      and_then (envInt env ''NODE_SEQ'' (- 1)) (\<lambda>nodeSeq.
      if nodeSeq < 0 then Inl NoNodeSeq else
      and_then (map_sum BadIdentity id (ident_New serverID svc nodeSeq)) (\<lambda>i.
      and_then (envInt env ''REDIS_DB'' 0) (\<lambda>redisDB.
      and_then (envInt env ''REDIS_POOL_SIZE'' 64) (\<lambda>poolSize.
      and_then (envInt env ''SHARD_COUNT'' 1024) (\<lambda>sc.
      if \<not> power_of_two_check sc then Inl BadShardCount else
      let leaseTTL = envDur dur env ''SHARD_LEASE_TTL'' (8 * sec); keepAlive = envDur dur env ''SHARD_KEEPALIVE'' 2500000000 in
      if keepAlive \<ge> leaseTTL then Inl BadKeepAlive else
      and_then (envInt env ''SHARD_MAX_OWN'' 0) (\<lambda>maxOwn.
      and_then (envInt env ''MAILBOX_SIZE'' 4096) (\<lambda>mailbox.
      and_then (envInt env ''MAILBOX_WARN_PCT'' 70) (\<lambda>warnPct.
      let stale = envDur dur env ''NODE_STALE_TIMEOUT'' (600 * sec); beat = envDur dur env ''NODE_BEAT_INTERVAL'' (30 * sec) in
      if beat \<ge> stale then Inl BadBeat else
      and_then (envInt env ''FLUSH_CHAN_SIZE'' 1024) (\<lambda>chanSize.
      and_then (envInt env ''FLUSH_WORKERS'' 8) (\<lambda>workers.
      and_then (envInt env ''FLUSH_BATCH_SIZE'' 128) (\<lambda>batch.
      and_then (envInt env ''IDP_BREAKER_FAILS'' 5) (\<lambda>fails.
      Inr (\<lparr>ec_ServerID = serverID, ec_NodeSeq = nodeSeq, ec_SvcName = svcName,
        ec_EtcdEndpoints = envList env ''ETCD_ENDPOINTS'' [''127.0.0.1:2379''],
        ec_EtcdPrefix = trim_slashes (envStr env ''ETCD_PREFIX'' (''/game/s'' @ show_int serverID)),
        ec_EtcdTimeout = envDur dur env ''ETCD_TIMEOUT'' (5 * sec),
        ec_RedisAddr = envStr env ''REDIS_ADDR'' ''127.0.0.1:6379'', ec_RedisPassword = envStr env ''REDIS_PASSWORD'' [],
        ec_RedisDB = redisDB, ec_RedisPoolSize = poolSize,
        ec_NatsURL = envStr env ''NATS_URL'' ''nats://127.0.0.1:4222'',
        ec_LogLevel = envStr env ''LOG_LEVEL'' ''info'', ec_LogFormat = envStr env ''LOG_FORMAT'' ''text'',
        ec_MetricsAddr = envStr env ''METRICS_ADDR'' '':9100'', ec_ListenAddr = envStr env ''LISTEN_ADDR'' '':7000'', ec_AdvertiseAddr = envStr env ''ADVERTISE_ADDR'' [],
        ec_ShardCount = nat (sc mod 2 ^ 32), ec_ShardLeaseTTL = leaseTTL, ec_ShardKeepAlive = keepAlive,
        ec_ShardMaxOwn = maxOwn, ec_MailboxSize = mailbox, ec_MailboxWarnPct = warnPct,
        ec_NodeStaleTimeout = stale, ec_NodeBeatInterval = beat,
        ec_FlushL1Interval = envDur dur env ''FLUSH_L1_INTERVAL'' (5 * sec), ec_FlushL2Interval = envDur dur env ''FLUSH_L2_INTERVAL'' (60 * sec),
        ec_FlushChanSize = chanSize, ec_FlushWorkers = workers, ec_FlushBatchSize = batch,
        ec_UnloadIdle = envDur dur env ''UNLOAD_IDLE'' (600 * sec), ec_SessionTTL = envDur dur env ''SESSION_TTL'' (300 * sec),
        ec_ShutdownGrace = envDur dur env ''SHUTDOWN_GRACE'' (55 * sec),
        ec_TxScanInterval = envDur dur env ''TX_SCAN_INTERVAL'' (30 * sec), ec_TxTimeout = envDur dur env ''TX_TIMEOUT'' (60 * sec),
        ec_InternalSecret = envStr env ''INTERNAL_SECRET'' [], ec_LoginSecret = envStr env ''LOGIN_SECRET'' [], ec_AllowDevAuth = envBool env ''ALLOW_DEV_AUTH'' False,
        ec_PaymentSecret = envStr env ''PAYMENT_SECRET'' [], ec_PaymentSandbox = envBool env ''PAYMENT_SANDBOX'' False, ec_GMSecret = envStr env ''GM_SECRET'' [],
        ec_IDPSandbox = envBool env ''IDP_SANDBOX'' False, ec_IDPTimeout = envDur dur env ''IDP_TIMEOUT'' (3 * sec), ec_IDPBreakerFails = fails,
        ec_IDPBreakerCooldown = envDur dur env ''IDP_BREAKER_COOLDOWN'' (10 * sec), ec_TokenTTL = envDur dur env ''TOKEN_TTL'' (1800 * sec),
        ec_GameConfPath = envStr env ''GAME_CONF'' []\<rparr>, i)))))))))))))))"

definition EtcdKey :: "env_config \<Rightarrow> string list \<Rightarrow> string" where
  "EtcdKey c parts = ec_EtcdPrefix c @ ''/'' @ go_join (CHR ''/'') parts"

section \<open>The Redis server\<close>

definition strictRedis :: "environ \<Rightarrow> bool" where
  "strictRedis env =
     (let v = map to_lower (TrimSpace (case env ''REDIS_REQUIRE_NOEVICTION'' of None \<Rightarrow> [] | Some v \<Rightarrow> v)) in v \<noteq> ''false'' \<and> v \<noteq> ''0'' \<and> v \<noteq> ''no'')"

text \<open>\<open>conf\<close> is what the server answers to \<open>CONFIG GET\<close>: nothing when the command fails, else the parameters.\<close>

definition configGet :: "(string \<Rightarrow> environ option) \<Rightarrow> string \<Rightarrow> string option" where
  "configGet conf param = Option.bind (conf param) (\<lambda>res. map_option (\<lambda>v. map to_lower (TrimSpace v)) (res param))"

text \<open>The result; the checks of persistence only warn.\<close>

definition VerifyConfig :: "(string \<Rightarrow> environ option) \<Rightarrow> bool \<Rightarrow> bool" where
  "VerifyConfig conf strict =
     (case configGet conf ''maxmemory-policy'' of
        None \<Rightarrow> True
      | Some policy \<Rightarrow> policy = ''noeviction'' \<or> \<not> strict)"

definition NewRedis :: "(string \<Rightarrow> environ option) \<Rightarrow> environ \<Rightarrow> bool \<Rightarrow> bool" where
  "NewRedis conf env ping = (ping \<and> VerifyConfig conf (strictRedis env))"

section \<open>Powers of two\<close>

lemma and_pred_zero: "0 < (n::int) \<Longrightarrow> n AND (n - 1) = 0 \<longleftrightarrow> (\<exists>k. n = 2 ^ k)"
proof (induction "nat n" arbitrary: n rule: less_induct)
  case less
  show ?case
  proof (cases "even n")
    case True
    then obtain m where m: "n = 2 * m" by (rule evenE)
    then have pos: "0 < m" "nat m < nat n" using less.prems by auto
    have "(2 * m - 1) div 2 = m - 1" by presburger
    then have "n AND (n - 1) = 2 * (m AND (m - 1))" using m by (simp add: and_int_rec [of "2 * m" "2 * m - 1"])
    moreover have "(\<exists>k. n = 2 ^ k) \<longleftrightarrow> (\<exists>k. m = 2 ^ k)"
    proof
      assume "\<exists>k. n = 2 ^ k"
      then obtain k where "2 * m = 2 ^ k" using m by auto
      then have "k \<noteq> 0" by (metis dvd_triv_left odd_one power_0)
      then show "\<exists>k. m = 2 ^ k" using \<open>2 * m = 2 ^ k\<close> by (cases k) auto
    next
      assume "\<exists>k. m = 2 ^ k"
      then show "\<exists>k. n = 2 ^ k" using m by (auto intro: exI [of _ "Suc _"])
    qed
    ultimately show ?thesis using less.hyps [OF pos(2,1)] by simp
  next
    case False
    then obtain m where m: "n = 2 * m + 1" by (rule oddE)
    have "n AND (n - 1) = 2 * (m AND m)" using m by (simp add: and_int_rec [of "2 * m + 1" "2 * m"])
    then have "n AND (n - 1) = 0 \<longleftrightarrow> m = 0" by simp
    also have "\<dots> \<longleftrightarrow> (\<exists>k. n = 2 ^ k)"
    proof
      assume "\<exists>k. n = 2 ^ k"
      then obtain k where "n = 2 ^ k" by blast
      then show "m = 0" using False m by (cases k) auto
    qed (use m in \<open>auto intro: exI [of _ 0]\<close>)
    finally show ?thesis .
  qed
qed

lemma power_of_two_check_iff: "power_of_two_check n \<longleftrightarrow> (\<exists>k. n = 2 ^ k)"
  using and_pred_zero [of n] by (auto simp: power_of_two_check_def)

section \<open>Accepted configurations\<close>

lemma config_Load_parts:
  assumes "config_Load dur env svcName = Inr (c, i)"
  obtains svc where "ParseSvcType svcName = Some svc" "ident_New (ec_ServerID c) svc (ec_NodeSeq c) = Inr i \<and> 0 \<le> ec_ServerID c \<and> (\<exists>sc. power_of_two_check sc \<and> ec_ShardCount c = nat (sc mod 2 ^ 32))
      \<and> ec_ShardKeepAlive c < ec_ShardLeaseTTL c \<and> ec_NodeBeatInterval c < ec_NodeStaleTimeout c"
proof -
  obtain svc where svc: "ParseSvcType svcName = Some svc" using assms by (auto simp: config_Load_def split: option.splits)
  have "ident_New (ec_ServerID c) svc (ec_NodeSeq c) = Inr i \<and> 0 \<le> ec_ServerID c \<and> (\<exists>sc. power_of_two_check sc \<and> ec_ShardCount c = nat (sc mod 2 ^ 32))
      \<and> ec_ShardKeepAlive c < ec_ShardLeaseTTL c \<and> ec_NodeBeatInterval c < ec_NodeStaleTimeout c"
    using assms svc by (auto simp: config_Load_def and_then_Inr Let_def not_le split: if_splits) (auto simp: map_sum_def split: sum.splits)
  then show thesis using svc that by blast
qed

lemma accepted_identity: "config_Load dur env svcName = Inr (c, i) \<Longrightarrow> \<exists>svc. ident_New (ec_ServerID c) svc (ec_NodeSeq c) = Inr i"
  by (erule config_Load_parts) blast

text \<open>What an accepted configuration promises. The service is one of the seven, the identity is the one of its numbers and has a worker number below 1024, the number of shards is a power of two or zero, and both heartbeats are shorter than the time after which their
  lease or registration is given up.\<close>

theorem accepted_config_is_sound:
  assumes "config_Load dur env svcName = Inr (c, i)"
  shows "(\<exists>svc. ParseSvcType svcName = Some svc \<and> ident_New (ec_ServerID c) svc (ec_NodeSeq c) = Inr i) \<and> 0 \<le> ec_ServerID c
    \<and> unat (workerID i) < 1024 \<and> (ec_ShardCount c = 0 \<or> (\<exists>k < 32. ec_ShardCount c = 2 ^ k))
    \<and> ec_ShardKeepAlive c < ec_ShardLeaseTTL c \<and> ec_NodeBeatInterval c < ec_NodeStaleTimeout c"
proof -
  obtain svc where svc: "ParseSvcType svcName = Some svc" and *: "ident_New (ec_ServerID c) svc (ec_NodeSeq c) = Inr i \<and> 0 \<le> ec_ServerID c \<and> (\<exists>sc. power_of_two_check sc \<and> ec_ShardCount c = nat (sc mod 2 ^ 32))
      \<and> ec_ShardKeepAlive c < ec_ShardLeaseTTL c \<and> ec_NodeBeatInterval c < ec_NodeStaleTimeout c"
    by (rule config_Load_parts [OF assms])
  then obtain k where k: "ec_ShardCount c = nat (2 ^ k mod 2 ^ 32)" by (auto simp: power_of_two_check_iff)
  have "ec_ShardCount c = 0 \<or> (\<exists>k < 32. ec_ShardCount c = 2 ^ k)"
  proof (cases "k < 32")
    case True
    then have "(2::int) ^ k < 2 ^ 32" by (intro power_strict_increasing) auto
    then have "ec_ShardCount c = 2 ^ k" unfolding k by (simp add: nat_power_eq)
    then show ?thesis using True by blast
  next
    case False
    then have "(2::int) ^ 32 dvd 2 ^ k" by (intro le_imp_power_dvd) simp
    then show ?thesis unfolding k by (simp add: mod_eq_0_iff_dvd)
  qed
  then show ?thesis using * svc unat_workerID(2) by blast
qed

definition wrap_env :: environ where
  "wrap_env = map_of [(''SERVER_ID'', show_int 1), (''NODE_SEQ'', show_int 1), (''SHARD_COUNT'', show_int 4294967296)]"

lemma TrimSpace_id:
  assumes "\<forall>c\<in>set s. \<not> is_space c"
  shows "TrimSpace s = s"
proof -
  have "dropWhile is_space u = u" if "set u \<subseteq> set s" for u using that assms by (cases u) auto
  then show ?thesis by (simp add: TrimSpace_def)
qed

lemma TrimSpace_show:
  assumes "0 \<le> x"
  shows "TrimSpace (show_int x) = show_int x"
proof (intro TrimSpace_id ballI)
  fix c assume "c \<in> set (show_int x)"
  then have "48 \<le> (of_char c :: nat) \<and> (of_char c :: nat) \<le> 57" using assms by (intro show_nat_digits [of c "nat x"]) (simp add: show_int_def)
  then show "\<not> is_space c" unfolding is_space_def Let_def by linarith
qed

lemma envInt_show: "env k = Some (show_int x) \<Longrightarrow> 0 \<le> x \<Longrightarrow> in_i64 x \<Longrightarrow> envInt env k d = Inr x"
proof -
  assume a: "env k = Some (show_int x)" "0 \<le> x" "in_i64 x"
  have p: "go_ParseInt (show_int x) = Some x" using a(3) by (rule go_ParseInt_show)
  have "show_int x \<noteq> []" using p by (auto simp: go_ParseInt_def)
  then show ?thesis using a p by (simp add: envInt_def TrimSpace_show)
qed

lemma wrap_numbers:
  "envInt wrap_env ''SERVER_ID'' (- 1) = Inr 1" "envInt wrap_env ''NODE_SEQ'' (- 1) = Inr 1" "envInt wrap_env ''SHARD_COUNT'' 1024 = Inr 4294967296"
  by (rule envInt_show; simp add: wrap_env_def in_i64_def)+

lemma wrap_defaults:
  "envInt wrap_env ''REDIS_DB'' x = Inr x" "envInt wrap_env ''REDIS_POOL_SIZE'' x = Inr x" "envInt wrap_env ''SHARD_MAX_OWN'' x = Inr x" "envInt wrap_env ''MAILBOX_SIZE'' x = Inr x"
  "envInt wrap_env ''MAILBOX_WARN_PCT'' x = Inr x" "envInt wrap_env ''FLUSH_CHAN_SIZE'' x = Inr x" "envInt wrap_env ''FLUSH_WORKERS'' x = Inr x" "envInt wrap_env ''FLUSH_BATCH_SIZE'' x = Inr x"
  "envInt wrap_env ''IDP_BREAKER_FAILS'' x = Inr x"
  "envDur dur wrap_env ''SHARD_LEASE_TTL'' y = y" "envDur dur wrap_env ''SHARD_KEEPALIVE'' y = y" "envDur dur wrap_env ''NODE_STALE_TIMEOUT'' y = y" "envDur dur wrap_env ''NODE_BEAT_INTERVAL'' y = y"
  by (simp_all add: envInt_def envDur_def wrap_env_def)

lemma wrap_check: "power_of_two_check 4294967296"
proof -
  have "\<exists>k. (4294967296::int) = 2 ^ k" by (rule exI [of _ 32]) simp
  then show ?thesis by (simp only: power_of_two_check_iff)
qed

lemma wrap_load: "\<exists>c i. config_Load dur wrap_env ''lobby'' = Inr (c, i) \<and> ec_ShardCount c = 0 \<and> ec_NodeStaleTimeout c = 600 * sec"
proof -
  have svc: "ParseSvcType ''lobby'' = Some 2" by code_simp
  obtain i where i: "ident_New 1 2 1 = Inr i" by (simp add: ident_New_def svc_Valid_def ident_consts)
  have c: "\<not> (8 * sec \<le> 2500000000)" "\<not> (600 * sec \<le> 30 * sec)" "\<not> (1 :: int) < 0" by simp_all
  show ?thesis
    by (simp only: config_Load_def svc option.case wrap_numbers wrap_defaults and_then_def sum.case i map_sum.simps id_apply Let_def wrap_check c simp_thms if_False if_True)
       (intro exI conjI, rule refl, simp_all)
qed

text \<open>A number of shards that wraps to zero is accepted. The check is made before the number is cut to 32 bits, so \<open>SHARD_COUNT=4294967296\<close> gives a configuration with no shards at all; the first remainder by it ends the process.\<close>

theorem shard_count_wraps_to_zero:
  "\<exists>c i. config_Load dur wrap_env ''lobby'' = Inr (c, i) \<and> ec_ShardCount c = 0"
  using wrap_load by blast

end
