(* ===== verification/Node_Runtime.thy ===== *)
theory Node_Runtime
  imports Env_Config Nodeid Idgen Store_Keys
begin

text \<open>
  The life of a process, \<^verbatim>\<open>pkg/node/node.go\<close>: its start, in which every step may fail, and its stop in a fixed order. The services are records of the operations of the interface \<open>Service\<close>. What etcd, Redis and NATS answer is
  decided by the surroundings; draining the bus and closing connections have no state here. The preloading of scripts only warns.

  Shown here: what a node that starts has checked; that a start which fails after the registration blocks the next one; and that the number is given up even when the data could not be written.
\<close>

section \<open>Start\<close>

datatype boot_err = BootConfig config_err | BootEtcd | BootClaim node_err | BootSnow idgen_err | BootRedis | BootNats

record 'w boot_env =
  bo_dur :: "string \<Rightarrow> int option"
  bo_environ :: environ
  bo_etcd :: bool
  bo_try :: "nat \<Rightarrow> 'w try_env"
  bo_pid :: int
  bo_host :: string
  bo_now :: int
  bo_redis :: "string \<Rightarrow> environ option"
  bo_ping :: bool
  bo_nats :: bool

record node =
  nd_cfg :: env_config
  nd_id :: identity
  nd_reg :: registration
  nd_snow :: generator
  nd_keys :: keys

definition Bootstrap :: "'w etcd \<Rightarrow> node_json \<Rightarrow> 'w boot_env \<Rightarrow> string \<Rightarrow> string \<Rightarrow> 'w \<Rightarrow> 'w \<times> (boot_err + node)" where
  "Bootstrap E J V svcName knd w =
     (case config_Load (bo_dur V) (bo_environ V) svcName of
        Inl e \<Rightarrow> (w, Inl (BootConfig e))
      | Inr (cfg, i) \<Rightarrow>
          if \<not> bo_etcd V then (w, Inl BootEtcd)
          else case node_Claim E J (bo_try V) (ec_EtcdPrefix cfg) (ec_NodeStaleTimeout cfg) (bo_pid V) (bo_host V) (ec_AdvertiseAddr cfg) i (bo_now V) w of
            ((r, w1), Inl e) \<Rightarrow> (w1, Inl (BootClaim e))
          | ((r, w1), Inr _) \<Rightarrow>
              (case NewFromIdentity i of
                 Inl e \<Rightarrow> (w1, Inl (BootSnow e))
               | Inr snow \<Rightarrow>
                   if \<not> NewRedis (bo_redis V) (bo_environ V) (bo_ping V) then (w1, Inl BootRedis)
                   else if \<not> bo_nats V then (w1, Inl BootNats)
                   else let tagMode = (case bo_environ V ''REDIS_HASHTAG'' of None \<Rightarrow> [] | Some v \<Rightarrow> v) in
                     (w1, Inr \<lparr>nd_cfg = cfg, nd_id = i, nd_reg = r, nd_snow = snow,
                        nd_keys = NewKeys (if tagMode = [] then TagUID else tagMode) (ec_ShardCount cfg) knd\<rparr>)))"

section \<open>Stop\<close>

record 's service_ops =
  op_Start :: "'s \<Rightarrow> 's \<times> bool"
  op_NotifyClients :: "'s \<Rightarrow> 's"
  op_StopAccepting :: "'s \<Rightarrow> 's"
  op_FlushAll :: "'s \<Rightarrow> 's \<times> bool"
  op_Close :: "'s \<Rightarrow> 's"

text \<open>\<open>n\<close> is the fate of the release. The result tells whether the data was written.\<close>

definition shutdown :: "'s service_ops \<Rightarrow> 'w etcd \<Rightarrow> net \<Rightarrow> registration \<times> 'w \<Rightarrow> 's \<Rightarrow> 's \<times> (registration \<times> 'w) \<times> bool" where
  "shutdown svc E n rw s =
     (let s1 = op_StopAccepting svc (op_NotifyClients svc s) in
      case op_FlushAll svc s1 of
        (s2, flushed) \<Rightarrow> (let rw1 = fst (node_Release E n rw) in (op_Close svc s2, rw1, flushed)))"

definition emergencyClose :: "'w etcd \<Rightarrow> net \<Rightarrow> registration \<times> 'w \<Rightarrow> registration \<times> 'w" where
  "emergencyClose E n rw = fst (node_Release E n rw)"

text \<open>\<open>Run\<close>: \<open>served\<close> is what the service and etcd do until a signal comes or the registration is lost.\<close>

definition node_Run :: "'s service_ops \<Rightarrow> 'w etcd \<Rightarrow> net \<Rightarrow> ('s \<times> registration \<times> 'w \<Rightarrow> 's \<times> registration \<times> 'w) \<Rightarrow> registration \<times> 'w \<Rightarrow> 's \<Rightarrow> 's \<times> (registration \<times> 'w) \<times> bool" where
  "node_Run svc E n served rw s =
     (case op_Start svc s of
        (s1, False) \<Rightarrow> (s1, emergencyClose E n rw, False)
      | (s1, True) \<Rightarrow> (case served (s1, rw) of (s2, rw2) \<Rightarrow> shutdown svc E n rw2 s2))"

section \<open>What a started node has\<close>

text \<open>What a node that starts has checked. Its configuration was accepted and its identity fits it, its number was claimed in etcd, its identifiers carry the worker number of the identity, Redis answered and does not evict data unless
  that was allowed explicitly or cannot be asked, and its keys use the configured number of shards.\<close>

theorem started_node_is_checked:
  assumes "Bootstrap E J V svcName knd w = (w1, Inr n)"
  shows "config_Load (bo_dur V) (bo_environ V) svcName = Inr (nd_cfg n, nd_id n)
    \<and> (\<exists>u. node_Claim E J (bo_try V) (ec_EtcdPrefix (nd_cfg n)) (ec_NodeStaleTimeout (nd_cfg n)) (bo_pid V) (bo_host V) (ec_AdvertiseAddr (nd_cfg n)) (nd_id n) (bo_now V) w = ((nd_reg n, w1), Inr u))
    \<and> NewFromIdentity (nd_id n) = Inr (nd_snow n) \<and> bo_ping V
    \<and> (configGet (bo_redis V) ''maxmemory-policy'' \<in> {None, Some ''noeviction''} \<or> \<not> strictRedis (bo_environ V))
    \<and> shardCount (nd_keys n) = ec_ShardCount (nd_cfg n) \<and> kind (nd_keys n) = knd"
  using assms by (auto simp: Bootstrap_def NewRedis_def VerifyConfig_def NewKeys_def Let_def split: sum.splits prod.splits if_splits option.splits)

section \<open>A start that fails\<close>

lemma NewFromIdentity_ok: "ident_New sid svc m = Inr i \<Longrightarrow> \<exists>g. NewFromIdentity i = Inr g"
  using unat_workerID(2) [of sid svc m i] by (auto simp: NewFromIdentity_def idgen_New_def idgen_consts word_less_nat_alt word_le_nat_alt)

definition beat_kept :: "node_json \<Rightarrow> bool" where
  "beat_kept J \<longleftrightarrow> (\<forall>r. \<exists>r'. nj_dec J (nj_enc J r) = Some r' \<and> nr_BeatAt r' = nr_BeatAt r)"

lemma free_number_is_claimed:
  assumes "etcd_api E" "te_before (env 0) w = w" "te_n1 (env 0) = Delivered" "e_get E w (node_Key pre i) = None"
  shows "\<exists>r w1 rec kv. node_Claim E J env pre stale pid host addr i now w = ((r, w1), Inr ()) \<and> e_get E w1 (node_Key pre i) = Some kv
    \<and> kv_Value kv = nj_enc J rec \<and> nr_BeatAt rec = unix_milli (te_now1 (env 0))"
proof -
  have "e_get E (e_put E w k v 0) k = Some kv \<Longrightarrow> kv_Value kv = v" for k v kv using etcd_api.get_put [OF assms(1), of w k v 0 k] by auto
  moreover have "e_get E (e_put E w k v 0) k \<noteq> None" for k v using etcd_api.get_put [OF assms(1), of w k v 0 k] by auto
  ultimately show ?thesis
    using assms(2-4) by (fastforce simp: node_Claim_def Let_def tryClaim_def txn_create_or_get_def run_def)
qed

text \<open>A start that fails blocks the next one. When the number was free and claimed and then Redis is refused, the process ends without giving the number up; a restart finds a heartbeat that is younger than the time of ten minutes or what is configured, takes it for
  another process and ends as well.\<close>

theorem failed_start_blocks_the_next:
  assumes "etcd_api E" "beat_kept J" "config_Load (bo_dur V) (bo_environ V) svcName = Inr (c, i)" "bo_etcd V"
    and "e_get E w (node_Key (ec_EtcdPrefix c) i) = None" "te_before (bo_try V 0) w = w" "te_n1 (bo_try V 0) = Delivered" "0 < unix_milli (te_now1 (bo_try V 0))"
    and "\<not> NewRedis (bo_redis V) (bo_environ V) (bo_ping V)"
    and "\<And>x. te_before (again 0) x = x" "te_n1 (again 0) = Delivered" "te_now2 (again 0) - unix_milli (te_now1 (bo_try V 0)) * 1000000 < ec_NodeStaleTimeout c"
  shows "\<exists>w1. Bootstrap E J V svcName knd w = (w1, Inl BootRedis) \<and> Bootstrap E J (V\<lparr>bo_try := again, bo_pid := pid2\<rparr>) svcName knd w1 = (w1, Inl (BootClaim ErrConflict))"
proof -
  obtain g where g: "NewFromIdentity i = Inr g" using accepted_identity [OF assms(3)] NewFromIdentity_ok by blast
  obtain r w1 rec kv where c: "node_Claim E J (bo_try V) (ec_EtcdPrefix c) (ec_NodeStaleTimeout c) (bo_pid V) (bo_host V) (ec_AdvertiseAddr c) i (bo_now V) w = ((r, w1), Inr ())"
      and kv: "e_get E w1 (node_Key (ec_EtcdPrefix c) i) = Some kv" "kv_Value kv = nj_enc J rec" "nr_BeatAt rec = unix_milli (te_now1 (bo_try V 0))"
    using free_number_is_claimed [where env = "bo_try V", OF assms(1,6,7,5)] by blast
  obtain old where old: "nj_dec J (kv_Value kv) = Some old" "nr_BeatAt old = unix_milli (te_now1 (bo_try V 0))"
    using assms(2) kv(2,3) unfolding beat_kept_def by metis
  define reg2 where "reg2 = \<lparr>rg_key = node_Key (ec_EtcdPrefix c) i, rg_rec = \<lparr>nr_NodeID = nodeID i, nr_PID = pid2, nr_Host = bo_host V, nr_Addr = ec_AdvertiseAddr c, nr_WorkerID = unat (workerID i),
      nr_StartAt = unix_milli (bo_now V), nr_BeatAt = unix_milli (bo_now V), nr_LastTS = unix_milli (bo_now V)\<rparr>, rg_timeout = ec_NodeStaleTimeout c, rg_rev = 0, rg_closed = False\<rparr>"
  have "snd (claim_loop E J [again 0, again 1, again 2] ErrNodeTxn (reg2, w1)) = Inl ErrConflict \<and> snd (fst (claim_loop E J [again 0, again 1, again 2] ErrNodeTxn (reg2, w1))) = w1"
    using number_in_use_is_refused [of E w1 reg2 kv J old "again 0" "[again 1, again 2]" ErrNodeTxn] kv(1) old assms(8,10-12) by (simp add: reg2_def)
  then have "\<exists>r2. node_Claim E J again (ec_EtcdPrefix c) (ec_NodeStaleTimeout c) pid2 (bo_host V) (ec_AdvertiseAddr c) i (bo_now V) w1 = ((r2, w1), Inl ErrConflict)"
    unfolding node_Claim_def Let_def reg2_def [symmetric] by (metis prod.collapse)
  then show ?thesis using assms(3,4,9) c g by (auto simp: Bootstrap_def)
qed

section \<open>A stop that fails\<close>

text \<open>The number is given up even when the data was not written. Whether the last flush succeeded or not, the registration is released; a comment says that it is kept in that case, so that somebody notices.\<close>

theorem failed_flush_gives_the_number_up:
  assumes "op_FlushAll svc (op_StopAccepting svc (op_NotifyClients svc s)) = (s2, False)" "etcd_api E" "\<not> rg_closed r" "mod_of E w (rg_key r) = rg_rev r" "0 < rg_rev r"
  shows "\<exists>s3 r1 w1. shutdown svc E Delivered (r, w) s = (s3, (r1, w1), False) \<and> e_get E w1 (rg_key r) = None"
proof -
  have "fst (node_Release E Delivered (r, w)) = (r\<lparr>rg_closed := True\<rparr>, e_del E w (rg_key r))"
    using assms(3-5) by (auto simp: node_Release_def Let_def run_def txn_delete_def mod_of_def split: option.splits)
  moreover have "e_get E (e_del E w (rg_key r)) (rg_key r) = None" using etcd_api.get_delete [OF assms(2)] by simp
  ultimately show ?thesis using assms(1) by (simp add: shutdown_def Let_def)
qed


section \<open>Witnesses\<close>

definition first_boot :: "mem_etcd boot_env" where
  "first_boot = \<lparr>bo_dur = (\<lambda>_. None), bo_environ = wrap_env, bo_etcd = True, bo_try = (\<lambda>_. demo_try 1000000000), bo_pid = 1, bo_host = [], bo_now = 1000000000, bo_redis = (\<lambda>_. None), bo_ping = False, bo_nats = True\<rparr>"

theorem failed_start_blocks_the_next_witness:
  "\<exists>w1. Bootstrap mem_etcd text_node_json first_boot ''lobby'' ''lobby'' me_empty = (w1, Inl BootRedis)
    \<and> Bootstrap mem_etcd text_node_json (first_boot\<lparr>bo_try := (\<lambda>_. demo_try 2000000000), bo_pid := 2\<rparr>) ''lobby'' ''lobby'' w1 = (w1, Inl (BootClaim ErrConflict))"
proof -
  obtain c i where c: "config_Load (\<lambda>_. None) wrap_env ''lobby'' = Inr (c, i)" "ec_NodeStaleTimeout c = 600 * sec" using wrap_load by blast
  show ?thesis
    by (rule failed_start_blocks_the_next [OF mem_store.etcd_api_axioms, of text_node_json first_boot "''lobby''" c i me_empty "\<lambda>_. demo_try 2000000000" "''lobby''" 2])
       (use c in \<open>simp_all add: first_boot_def demo_try_def beat_kept_def text_node_json_def NewRedis_def me_empty_def unix_milli_def\<close>)
qed

end
