(* ===== verification/Rtp_Tool.thy ===== *)
theory Rtp_Tool
  imports Slots_Engine
begin

text \<open>
  The operator's tool for configuration tables, \<^verbatim>\<open>cmd/gameconfctl/main.go\<close>: the check of a
  file (\<open>lint\<close>) and the simulation of every machine (\<open>rtp\<close>). Reading and decoding a file are
  parameters, as in \<open>Load\<close>; the seeds of \<open>NewRandom\<close> are an argument, \<open>None\<close> where the system
  gives no entropy. The simulation is modelled up to its counters: the printed quotients are floating
  point and are left out, and so is \<open>dump\<close>, which only writes out the built-in tables.

  Shown here: a table that passes \<open>lint\<close> is simulated to the end, and the counters of the
  simulation are the sums over the round that \<open>Replay\<close> shows for the same seed, although the two
  loops keep the multiplier of the free spins in different ways.
\<close>

section \<open>The commands\<close>

datatype tool_err = ToolConf conf_err | ToolSeed | ToolSpin slot_err

record rtp_sim =
  totalBet :: int
  totalWin :: int
  maxWin :: int
  freeLeft :: nat
  rtp_mult :: nat
  rtp_hits :: int
  rtp_paid :: int

definition rtp_init :: rtp_sim where
  "rtp_init = \<lparr>totalBet = 0, totalWin = 0, maxWin = 0, freeLeft = 0, rtp_mult = 1, rtp_hits = 0, rtp_paid = 0\<rparr>"

text \<open>One turn of the loop: what is booked before the spin, and what the result adds.\<close>

definition rtp_before :: "int \<Rightarrow> rtp_sim \<Rightarrow> rtp_sim" where
  "rtp_before bet t =
     (if freeLeft t > 0 then t\<lparr>freeLeft := freeLeft t - 1\<rparr>
      else t\<lparr>totalBet := i64 (totalBet t + bet), rtp_paid := i64 (rtp_paid t + 1)\<rparr>)"

definition rtp_after :: "SlotMachine \<Rightarrow> bool \<Rightarrow> spin_result \<Rightarrow> rtp_sim \<Rightarrow> rtp_sim" where
  "rtp_after m free r t =
     (let t1 = t\<lparr>totalWin := i64 (totalWin t + res_TotalWin r)\<rparr>;
          t2 = (if res_TotalWin r > maxWin t1 then t1\<lparr>maxWin := res_TotalWin r\<rparr> else t1);
          t3 = (if \<not> free \<and> res_TotalWin r > 0 then t2\<lparr>rtp_hits := i64 (rtp_hits t2 + 1)\<rparr> else t2)
      in if res_FreeSpinsAwarded r > 0
         then (let t4 = t3\<lparr>freeLeft := u32 (freeLeft t3 + res_FreeSpinsAwarded r)\<rparr> in
               if m_FreeSpinMultiplier m > 0 then t4\<lparr>rtp_mult := m_FreeSpinMultiplier m\<rparr> else t4)
         else t3)"

fun rtp_loop :: "'g rand \<Rightarrow> SlotMachine \<Rightarrow> int \<Rightarrow> nat \<Rightarrow> rtp_sim \<Rightarrow> 'g source \<Rightarrow> slot_err + rtp_sim" where
  "rtp_loop G m bet 0 t s = Inr t"
| "rtp_loop G m bet (Suc k) t s =
     (let free = freeLeft t > 0 in
      case Spin G (Some m) bet (if free then rtp_mult t else 1) free s of
        Inl e \<Rightarrow> Inl e
      | Inr (r, s1) \<Rightarrow> rtp_loop G m bet k (rtp_after m free r (rtp_before bet t)) s1)"

text \<open>The first bet level is read without a check; on an empty list the read panics.\<close>

definition rtp_machine :: "'g rand \<Rightarrow> int \<Rightarrow> SlotMachine \<Rightarrow> seed option \<Rightarrow> tool_err + rtp_sim" where
  "rtp_machine G n m entropy =
     (case entropy of
        None \<Rightarrow> Inl ToolSeed
      | Some seed \<Rightarrow>
          (case m_BetLevels m of
             [] \<Rightarrow> Inl (ToolSpin Panic)
           | bet # _ \<Rightarrow>
               (case rtp_loop G m bet (nat n) rtp_init (rng_New G seed) of
                  Inl e \<Rightarrow> Inl (ToolSpin e)
                | Inr t \<Rightarrow> Inr t)))"

text \<open>The machines are visited in an order of the map; \<open>entropy\<close> gives the seed drawn for each visit.\<close>

fun rtp_machines :: "'g rand \<Rightarrow> int \<Rightarrow> (nat \<Rightarrow> seed option) \<Rightarrow> nat \<Rightarrow> (string \<times> SlotMachine) list \<Rightarrow>
    tool_err + (string \<times> rtp_sim) list" where
  "rtp_machines G n entropy k [] = Inr []"
| "rtp_machines G n entropy k ((i, m) # ms) =
     (case rtp_machine G n m (entropy k) of
        Inl e \<Rightarrow> Inl e
      | Inr t \<Rightarrow>
          (case rtp_machines G n entropy (k + 1) ms of
             Inl e \<Rightarrow> Inl e
           | Inr ts \<Rightarrow> Inr ((i, t) # ts)))"

definition tool_rtp :: "digest \<Rightarrow> (string \<Rightarrow> bytes option) \<Rightarrow> (bytes \<Rightarrow> Config option) \<Rightarrow> 'g rand \<Rightarrow> (nat \<Rightarrow> seed option) \<Rightarrow>
    string \<Rightarrow> int \<Rightarrow> tool_err + (string \<times> rtp_sim) list" where
  "tool_rtp digest readFile unmarshal G entropy path n =
     (case Load digest readFile unmarshal path of
        Inl e \<Rightarrow> Inl (ToolConf e)
      | Inr c \<Rightarrow> rtp_machines G n entropy 0 (c_Slots c))"

text \<open>\<open>lint\<close> exits with 1 on an error of \<open>Load\<close> and prints the version otherwise.\<close>

definition tool_lint :: "digest \<Rightarrow> (string \<Rightarrow> bytes option) \<Rightarrow> (bytes \<Rightarrow> Config option) \<Rightarrow> string \<Rightarrow> nat \<times> string" where
  "tool_lint digest readFile unmarshal path =
     (case Load digest readFile unmarshal path of Inl _ \<Rightarrow> (1, []) | Inr c \<Rightarrow> (0, c_version c))"

section \<open>The simulation and the replay\<close>

text \<open>Reference: the figures of a round, from the list of its results. A result belongs to a free
  spin exactly when free spins are left before it.\<close>

fun free_flags :: "nat \<Rightarrow> spin_result list \<Rightarrow> bool list" where
  "free_flags left [] = []"
| "free_flags left (r # rs) = (left > 0) # free_flags (u32 (left - 1 + res_FreeSpinsAwarded r)) rs"

definition paid_spins :: "spin_result list \<Rightarrow> nat" where
  "paid_spins rs = length (filter (\<lambda>free. \<not> free) (free_flags 0 rs))"

definition paid_hits :: "spin_result list \<Rightarrow> nat" where
  "paid_hits rs = length (filter (\<lambda>(free, r). \<not> free \<and> res_TotalWin r > 0) (zip (free_flags 0 rs) rs))"


definition round_sim :: "SlotMachine \<Rightarrow> int \<Rightarrow> rtp_sim \<Rightarrow> spin_result list \<Rightarrow> rtp_sim" where
  "round_sim m bet = foldl (\<lambda>t r. rtp_after m (freeLeft t > 0) r (rtp_before bet t))"

lemma round_sim_simps [simp]:
  "round_sim m bet t [] = t"
  "round_sim m bet t (r # rs) = round_sim m bet (rtp_after m (freeLeft t > 0) r (rtp_before bet t)) rs"
  by (simp_all add: round_sim_def)

lemma turn_freeLeft:
  "freeLeft t < 2 ^ 32 \<Longrightarrow>
   freeLeft (rtp_after m free r (rtp_before bet t)) = u32 (freeLeft t - 1 + res_FreeSpinsAwarded r)"
  by (auto simp: rtp_after_def rtp_before_def Let_def u32_id)

lemma turn_mult:
  "rtp_mult (rtp_after m free r (rtp_before bet t)) =
     (if res_FreeSpinsAwarded r > 0 \<and> m_FreeSpinMultiplier m > 0 then m_FreeSpinMultiplier m else rtp_mult t)"
  by (auto simp: rtp_after_def rtp_before_def Let_def)

lemma turn_counters:
  "totalBet (rtp_after m free r (rtp_before bet t)) = (if freeLeft t > 0 then totalBet t else i64 (totalBet t + bet))"
  "rtp_paid (rtp_after m free r (rtp_before bet t)) = (if freeLeft t > 0 then rtp_paid t else i64 (rtp_paid t + 1))"
  "totalWin (rtp_after m free r (rtp_before bet t)) = i64 (totalWin t + res_TotalWin r)"
  "maxWin (rtp_after m free r (rtp_before bet t)) = max (res_TotalWin r) (maxWin t)"
  "rtp_hits (rtp_after m free r (rtp_before bet t)) =
     (if \<not> free \<and> res_TotalWin r > 0 then i64 (rtp_hits t + 1) else rtp_hits t)"
  by (auto simp: rtp_after_def rtp_before_def Let_def)

lemmas turn_simps = turn_freeLeft turn_mult turn_counters

text \<open>The loop of the tool makes the spins of the replay: where the machine has no multiplier of its own the
  tool leaves the initial 1, the replay writes 1.\<close>

lemma rtp_loop_replay:
  assumes "freeLeft t < 2 ^ 32" "m_FreeSpinMultiplier m = 0 \<Longrightarrow> rtp_mult t = 1"
  shows "rtp_loop G m bet k t s =
    (case replay_loop G m bet k (freeLeft t) (rtp_mult t) s of Inl e \<Rightarrow> Inl e | Inr rs \<Rightarrow> Inr (round_sim m bet t rs))"
  using assms
proof (induction k arbitrary: t s)
  case (Suc k)
  let ?free = "freeLeft t > 0"
  show ?case
  proof (cases "Spin G (Some m) bet (if ?free then rtp_mult t else 1) ?free s")
    case (Inr rs)
    obtain r s1 where rs: "rs = (r, s1)" by fastforce
    let ?t = "rtp_after m ?free r (rtp_before bet t)"
    have "rtp_loop G m bet k ?t s1 =
        (case replay_loop G m bet k (freeLeft ?t) (rtp_mult ?t) s1 of
           Inl e \<Rightarrow> Inl e | Inr rs \<Rightarrow> Inr (round_sim m bet ?t rs))"
      using Suc.prems u32_less [of "freeLeft t - 1 + res_FreeSpinsAwarded r"]
      by (intro Suc.IH) (auto simp: turn_simps)
    moreover have "u32 (freeLeft t - 1) = freeLeft t - 1" using Suc.prems(1) by (simp add: u32_id)
    ultimately show ?thesis using Inr rs Suc.prems
      by (auto simp: turn_simps Let_def split: sum.splits if_splits)
  qed (auto simp: Let_def split: if_splits)
qed simp

text \<open>What the booked counters are, over any list of results.\<close>

definition sim_in_range :: "rtp_sim \<Rightarrow> bool" where
  "sim_in_range t \<longleftrightarrow> freeLeft t < 2 ^ 32 \<and> in_i64 (totalBet t) \<and> in_i64 (totalWin t) \<and> in_i64 (rtp_paid t) \<and> in_i64 (rtp_hits t)"

lemma turn_in_range: "sim_in_range t \<Longrightarrow> sim_in_range (rtp_after m free r (rtp_before bet t))"
  using u32_less [of "freeLeft t - 1 + res_FreeSpinsAwarded r"] by (auto simp: sim_in_range_def turn_simps)

lemma round_sim_sums:
  assumes "sim_in_range t"
  shows "totalBet (round_sim m bet t rs) = i64 (totalBet t + bet * int (length (filter (\<lambda>free. \<not> free) (free_flags (freeLeft t) rs)))) \<and>
    totalWin (round_sim m bet t rs) = i64 (totalWin t + sum_list (map res_TotalWin rs)) \<and>
    rtp_paid (round_sim m bet t rs) = i64 (rtp_paid t + int (length (filter (\<lambda>free. \<not> free) (free_flags (freeLeft t) rs)))) \<and>
    rtp_hits (round_sim m bet t rs) = i64 (rtp_hits t
      + int (length (filter (\<lambda>(free, r). \<not> free \<and> res_TotalWin r > 0) (zip (free_flags (freeLeft t) rs) rs)))) \<and>
    maxWin (round_sim m bet t rs) = fold max (map res_TotalWin rs) (maxWin t)"
  using assms
proof (induction rs arbitrary: t)
  case (Cons r rs)
  have "freeLeft t < 2 ^ 32" using Cons.prems by (simp add: sim_in_range_def)
  then show ?case
    using Cons.IH [OF turn_in_range [OF Cons.prems, of m "freeLeft t > 0" r bet]]
    by (cases "freeLeft t > 0"; cases "res_TotalWin r > 0") (simp_all add: turn_simps i64_cong i64_cong2 algebra_simps)
qed (simp add: sim_in_range_def i64_id)

lemma rtp_init_in_range: "sim_in_range rtp_init"
  by (simp add: sim_in_range_def rtp_init_def in_i64_def)

text \<open>The simulation measures the round that the replay of its seed shows: the stake is one bet for every paid spin,
  the win is the sum of the wins of all spins, free ones included, and the other counters are those of
  the results. All of them are taken at 64 bits, as the tool keeps them.\<close>

theorem rtp_measures_the_replayed_round:
  assumes "ParseSeed seedHex = Some seed" "m_BetLevels m = bet # levels" "0 \<le> n"
    "Replay G m seedHex bet n = Inr rs"
  shows "\<exists>t. rtp_machine G n m (Some seed) = Inr t \<and> totalBet t = i64 (bet * int (paid_spins rs)) \<and>
    totalWin t = i64 (sum_list (map res_TotalWin rs)) \<and> rtp_paid t = i64 (int (paid_spins rs)) \<and>
    rtp_hits t = i64 (int (paid_hits rs)) \<and> maxWin t = fold max (map res_TotalWin rs) 0"
proof -
  have "replay_loop G m bet (nat n) (freeLeft rtp_init) (rtp_mult rtp_init) (rng_New G seed) = Inr rs"
    using assms by (simp add: Replay_def rtp_init_def split: if_splits)
  then have "rtp_loop G m bet (nat n) rtp_init (rng_New G seed) = Inr (round_sim m bet rtp_init rs)"
    by (subst rtp_loop_replay) (auto simp: rtp_init_def)
  moreover have "freeLeft rtp_init = 0 \<and> totalBet rtp_init = 0 \<and> totalWin rtp_init = 0 \<and> rtp_paid rtp_init = 0 \<and>
      rtp_hits rtp_init = 0 \<and> maxWin rtp_init = 0"
    by (simp add: rtp_init_def)
  ultimately show ?thesis
    using round_sim_sums [OF rtp_init_in_range, of m bet rs] assms(2)
    by (simp add: rtp_machine_def paid_spins_def paid_hits_def)
qed

section \<open>What lint promises\<close>

context rand_api
begin

lemma rtp_loop_returns: "machine_ok m \<Longrightarrow> 0 < bet \<Longrightarrow> \<exists>t'. rtp_loop G m bet k t s = Inr t'"
proof (induction k arbitrary: t s)
  case (Suc k)
  let ?free = "freeLeft t > 0"
  obtain r s1 where "Spin G (Some m) bet (if ?free then rtp_mult t else 1) ?free s = Inr (r, s1)"
    using Spin_returns [OF Suc.prems] by blast
  then show ?case using Suc.IH [OF Suc.prems] by (simp add: Let_def)
qed simp

lemma rtp_machine_returns:
  assumes "machine_ok m" "m_BetLevels m \<noteq> []"
  shows "\<exists>t. rtp_machine G n m (Some seed) = Inr t"
proof -
  obtain bet levels where b: "m_BetLevels m = bet # levels" using assms(2) by (cases "m_BetLevels m") auto
  then have "0 < bet" using assms(1) by (simp add: machine_ok_def)
  from rtp_loop_returns [OF assms(1) this, of "nat n" rtp_init "rng_New G seed"] show ?thesis
    by (auto simp: rtp_machine_def b)
qed

lemma rtp_machines_returns:
  assumes "\<forall>(i, m) \<in> set ms. machine_ok m \<and> m_BetLevels m \<noteq> []" "\<forall>k. \<exists>seed. entropy k = Some seed"
  shows "\<exists>ts. rtp_machines G n entropy k ms = Inr ts \<and> map fst ts = map fst ms"
  using assms(1)
proof (induction ms arbitrary: k)
  case (Cons im ms)
  obtain i m where im: "im = (i, m)" by fastforce
  obtain seed where "entropy k = Some seed" using assms(2) by blast
  then obtain t where "rtp_machine G n m (entropy k) = Inr t" using rtp_machine_returns Cons.prems im by fastforce
  moreover obtain ts where "rtp_machines G n entropy (k + 1) ms = Inr ts" "map fst ts = map fst ms"
    using Cons.IH [of "k + 1"] Cons.prems by auto
  ultimately show ?case by (simp add: im)
qed simp

end

lemma Load_valid:
  assumes "Load digest readFile unmarshal path = Inr c" "(i, m) \<in> set (c_Slots c)"
  shows "machine_ok m \<and> m_BetLevels m \<noteq> []"
proof -
  obtain c0 where "Validate c0 = None" "computeVersion digest c0 = Some c"
    using assms(1) unfolding Load_def by (auto split: sum.splits option.splits if_splits)
  then have "validate_machine c0 i m = None"
    using assms(2) unfolding Validate_def first_err_simps computeVersion_def by (auto split: option.splits if_splits)
  moreover from this have "m_BetLevels m \<noteq> []" unfolding validate_machine_def first_err_simps by simp
  ultimately show ?thesis using validate_machine_ok by blast
qed

text \<open>A table that \<open>lint\<close> accepts can be simulated: with entropy at hand, \<open>rtp\<close> reports counters for every machine
  of the table, in the order of the visit, and never stops on an error.\<close>

theorem linted_table_can_be_simulated:
  assumes "rand_api G" "fst (tool_lint digest readFile unmarshal path) = 0" "\<forall>k. \<exists>seed. entropy k = Some seed"
  shows "\<exists>c ts. Load digest readFile unmarshal path = Inr c \<and>
    tool_rtp digest readFile unmarshal G entropy path n = Inr ts \<and> map fst ts = map fst (c_Slots c)"
proof -
  obtain c where c: "Load digest readFile unmarshal path = Inr c"
    using assms(2) by (auto simp: tool_lint_def split: sum.splits)
  then have "\<forall>(i, m) \<in> set (c_Slots c). machine_ok m \<and> m_BetLevels m \<noteq> []" using Load_valid by fast
  then show ?thesis using rand_api.rtp_machines_returns [OF assms(1) _ assms(3)] c by (auto simp: tool_rtp_def)
qed

end
