(* ===== verification/Spec2Isabelle.thy ===== *)
theory Spec2Isabelle
  imports Ident Idgen Store_Keys Fencing Dirty Flush Rng Gameconf Slots_Engine Protocol Rg Ledger Player Player_Codec
    Xtx Profiles Jackpot Lobby_Commit Lobby_Slots Lobby_Gacha Go_Bytes Payment Auth Lobby_Actions Lobby_Assets Asset_Laws
    Lobby_Shard Shard_Order Etcd_Api Shard_Claim Claim_Laws Shard_Runtime Subject Shard_Service Session Account Idp
    Account_Service Match Room Room_Shard Nodeid Leader World Bus Gateway_Conn Gateway Gateway_Laws Chat Lobby_Service Env_Config Node_Runtime Rtp_Tool
begin

text \<open>
  A verification library for the game server of this repository (Go, under \<^verbatim>\<open>src/\<close>).

  \<^bold>\<open>The program.\<close> Players are sharded by their number. A lobby process owns a shard by an epoch it
  raised in Redis (\<^verbatim>\<open>pkg/store/fencing.go\<close>); it keeps the shard's players in memory
  (\<^verbatim>\<open>internal/lobby/player.go\<close>), marks changed modules dirty (\<^verbatim>\<open>pkg/store/dirty.go\<close>) and writes them
  back in batches (\<^verbatim>\<open>pkg/store/flush.go\<close>). Everything about money instead goes through one
  Redis script at once: order, ledger entries and module values (\<open>Commit\<close>). The games are a slot
  machine (\<^verbatim>\<open>internal/slots/engine.go\<close>), card pools (\<^verbatim>\<open>internal/lobby/gacha.go\<close>) and a shared jackpot
  (\<^verbatim>\<open>pkg/jackpot/jackpot.go\<close>), configured by \<^verbatim>\<open>pkg/gameconf\<close>, drawn from a seeded stream
  (\<^verbatim>\<open>pkg/rng/rng.go\<close>) and limited by \<^verbatim>\<open>pkg/rg/rg.go\<close>.

  \<^bold>\<open>The theories.\<close>

  \<^item> \<open>F1_Prelude\<close>: Go's \<open>int64\<close>, \<open>uint64\<close>, \<open>uint32\<close> as \<open>int\<close> and \<open>nat\<close> with the wrap-around written out
    (\<open>i64\<close>, \<open>u64\<close>, \<open>u32\<close>), truncating division, decimal text, errors (\<open>go_err\<close>, \<open>result\<close>).
  \<^item> \<open>Ident\<close>, \<open>Idgen\<close>: \<^verbatim>\<open>pkg/ident\<close> and \<^verbatim>\<open>pkg/idgen\<close>. Identifiers are unique and increasing, \<open>Next\<close>
    returns, identifiers decode.
  \<^item> \<open>Store_Keys\<close>: \<^verbatim>\<open>pkg/store/keys.go\<close>. Different keys never collide; slot sharing.
  \<^item> \<open>Redis_Api\<close>: the part of Redis the code uses as the record \<open>redis\<close> of operations, its documented
    laws as the locale \<open>redis_api\<close>, an executable instance \<open>mem_redis\<close> that satisfies them, and the
    network (\<open>Delivered\<close>, \<open>RequestLost\<close>, \<open>ReplyLost\<close>).
  \<^item> \<open>Fencing\<close>: \<^verbatim>\<open>pkg/store/fencing.go\<close>. Every Lua script statement by statement, and the operations on
    top. A stale owner changes nothing; a commit is atomic and idempotent.
  \<^item> \<open>Dirty\<close>, \<open>Flush\<close>: \<^verbatim>\<open>pkg/store/dirty.go\<close>, \<^verbatim>\<open>pkg/store/flush.go\<close>. Taking splits the dirty modules
    exactly, re-marking loses nothing, a reported success is stored, a stale owner's flush is
    harmless.
  \<^item> \<open>Rng\<close>, \<open>Gameconf\<close>, \<open>Slots_Engine\<close>: the random source over the contract \<open>rand_api\<close> of the generator,
    the configuration with its validation and version, the engine. Go maps are association lists
    in iteration order, and what must not depend on that order is proved not to.
  \<^item> \<open>Protocol\<close>, \<open>Rg\<close>, \<open>Ledger\<close>: command levels, limits, and the accounting rule \<open>chain\<close> the ledger
    follows.
  \<^item> \<open>Player\<close>, \<open>Serialize\<close>, \<open>Player_Codec\<close>: the player's modules and operations; the protobuf contract
    \<open>player_codec_ok\<close> with a text codec that satisfies it; reload gives the player back.
  \<^item> \<open>Profiles\<close>: \<^verbatim>\<open>pkg/profile/profile.go\<close>. What a flush writes as the public profile is what a reader gets.
  \<^item> \<open>Jackpot\<close>, \<open>Xtx\<close>: claim, contribution, payouts; transfers between shards, which are credited at most
    once and stay listed until they are completed.
  \<^item> \<open>Lobby_Commit\<close>, \<open>Lobby_Slots\<close>, \<open>Lobby_Gacha\<close>: the money handlers, each as a plan computed on copies,
    a commit, and a callback.
  \<^item> \<open>Go_Bytes\<close>, \<open>Payment\<close>, \<open>Auth\<close>: byte strings, base64 and number parsing of the standard library; payment
    receipts; signatures of internal commands and login tickets. What a signature covers and when it
    is accepted is stated exactly.
  \<^item> \<open>Lobby_Actions\<close>, \<open>Lobby_Assets\<close>, \<open>Asset_Laws\<close>: the handlers of \<^verbatim>\<open>internal/lobby/handlers.go\<close> and \<^verbatim>\<open>gm.go\<close>:
    those that change memory only, those that commit, and transfers between players. Every changed module is
    marked, commits keep memory and Redis in step, a transfer conserves what it moves.
  \<^item> \<open>Lobby_Shard\<close>, \<open>Shard_Order\<close>: \<^verbatim>\<open>internal/lobby/shard.go\<close>. Requests of a player are served one at a time
    and in order, and none is forgotten.
  \<^item> \<open>Etcd_Api\<close>, \<open>Shard_Claim\<close>, \<open>Claim_Laws\<close>: etcd as a record of operations with its laws \<open>etcd_api\<close> and a store that satisfies
    them; \<^verbatim>\<open>pkg/shard/claim.go\<close> on top of it. In a cluster of any number of nodes two owners of a shard never have the same epoch;
    rebalancing takes only a surplus; what a lost reply costs.
  \<^item> \<open>Shard_Runtime\<close>: \<^verbatim>\<open>pkg/shard/actor.go\<close>. The goroutine of a shard as a step relation with its mailbox: order, stopping, and the
    deadlock of a shard that stops itself.
  \<^item> \<open>Shard_Service\<close>: \<^verbatim>\<open>pkg/shardsvc/service.go\<close>, where ownership, fencing and actors meet: a new owner shuts the old one out
    of Redis, a node serves exactly what it owns, a granted handoff moves the shard.
  \<^item> \<open>Subject\<close>: \<^verbatim>\<open>pkg/subject/subject.go\<close>. Parsing undoes building; a request reaches the subscription of its own shard.
  \<^item> \<open>Session\<close>: \<^verbatim>\<open>pkg/session/session.go\<close>. What can end a session, what the operations report, what a clean-up misses.
  \<^item> \<open>Account\<close>, \<open>Idp\<close>, \<open>Account_Service\<close>: \<^verbatim>\<open>pkg/account\<close>, \<^verbatim>\<open>pkg/idp\<close>, \<^verbatim>\<open>internal/account\<close>. The two tables of bindings agree, accounts keep
    their player and players keep a login; the circuit breaker against its history; a login ends in a ticket of the right
    player.
  \<^item> \<open>Match\<close>: \<^verbatim>\<open>internal/match/match.go\<close>. A matching pass splits the pool into teams of the right size and the rest, the index
    of a pool agrees with it, and a weak newcomer holds everybody up.
  \<^item> \<open>Room\<close>, \<open>Room_Shard\<close>: \<^verbatim>\<open>internal/room\<close>. Rooms with their battles and snapshots, the actor that serves them, and what it starts in the background. Rooms stay
    in order, a battle is settled once and at the latest when its time has run out, a handover gives the rooms to the next owner.
  \<^item> \<open>Nodeid\<close>, \<open>Leader\<close>: \<^verbatim>\<open>pkg/nodeid\<close> and \<^verbatim>\<open>pkg/leader\<close> on top of etcd. A process number has one holder, a number in use cannot be taken, a lost reply ends the holder; leaders' epochs increase.
  \<^item> \<open>World\<close>: \<^verbatim>\<open>internal/world/world.go\<close>. The boss and its damage, election and fencing of the world's leader, and what a stop in order loses.
  \<^item> \<open>Bus\<close>: \<^verbatim>\<open>pkg/bus\<close>. Envelopes, requests and answers over an abstract NATS: one answer per request, which is what the handler gave; an answer that is too large silences the request.
  \<^item> \<open>Gateway_Conn\<close>: \<^verbatim>\<open>internal/gateway/conn.go\<close>. Frames are read as they were written; the limit on requests, and what it does to a client that does not slow down.
  \<^item> \<open>Gateway\<close>, \<open>Gateway_Laws\<close>: \<^verbatim>\<open>internal/gateway\<close> behind the connections. Whatever interleaves, requests and pushes rest on tickets presented on the very connection; a kick hits the connection it is meant for; what the end of a
    connection leaves behind; a late answer makes the gateway repeat the request, and the hit on the boss with it.
  \<^item> \<open>Chat\<close>: \<^verbatim>\<open>internal/chat/chat.go\<close>. A private message reaches the connection of its receiver, across session table, bus and gateway; whose name is on a message; what the cut of a long text drops.
  \<^item> \<open>Lobby_Service\<close>: \<^verbatim>\<open>internal/lobby/service.go\<close> around the shards. Signed calls are accepted; a jackpot that was won is paid or stays listed, and what a broken pipeline does to it.
  \<^item> \<open>Env_Config\<close>, \<open>Node_Runtime\<close>: \<^verbatim>\<open>pkg/config/config.go\<close>, \<^verbatim>\<open>pkg/store/redis.go\<close>, \<^verbatim>\<open>pkg/node/node.go\<close>. What an accepted configuration and a started process have checked; a number of shards that wraps; what a failed start and a failed last flush do to the
    number of the process.
  \<^item> \<open>Rtp_Tool\<close>: \<^verbatim>\<open>cmd/gameconfctl/main.go\<close>. A table that passes the check can be simulated to the end, and the simulation measures the rounds that the replay shows.

  \<^bold>\<open>Parameters.\<close> Redis, the random generator, protobuf and JSON encodings, the digest of the
  configuration, clock readings and the numbers \<open>NextID\<close> returns are arguments; what the proofs need
  of them are locales or named hypotheses, and each has a concrete instance.

  \<^bold>\<open>Loops and fuel.\<close> Loops over data are structural recursion. The only loop that waits, for the clock
  in \<open>waitNextMilli\<close>, runs over a stream of clock readings with the number of readings as
  fuel; \<open>snowflake_next_returns\<close> shows that it ends as soon as a reading is late enough. The loop over
  levels, \<open>level_up\<close>, is a partial function; \<open>level_loop_ends\<close> shows that it returns when every threshold is positive.

  \<^bold>\<open>Not modelled.\<close> Texts of errors, logs and metrics; the clients of NATS, Redis and etcd, sockets and HTTP requests, which are calls of libraries; the loops that only wait
  for a ticker and call a modelled operation; the leaderboard, whose scores are floating point; the generated protobuf code, of which the round trip is a hypothesis; the tools under \<^verbatim>\<open>test\<close>.
\<close>

end
